(* ===== verification/Prelude.thy ===== *)
theory Prelude
  imports Main "HOL-Library.AList"
begin

text \<open>
  Shared ground of the development: the result-and-state type every fallible stateful
  operation of the Rust code is translated to, the database-call primitive with its
  schedule of failures, and the generic list lemmas the component theories use.

  A Rust function \<open>async fn f(&self, ..) -> Result<T, E>\<close> over the database becomes a function
  \<open>args \<Rightarrow> world \<Rightarrow> (E + T) \<times> world\<close>: \<open>Inl\<close> is the returned error, and the world that
  comes back with an error holds the writes done before the failing call (nothing is rolled back).
\<close>

named_theorems monad_simps \<open>unfolding rules of the result monad\<close>

type_synonym ('s, 'e, 'a) dbm = "'s \<Rightarrow> ('e + 'a) \<times> 's"

definition returnM :: "'a \<Rightarrow> ('s, 'e, 'a) dbm" where
  "returnM x s = (Inr x, s)"

definition throwM :: "'e \<Rightarrow> ('s, 'e, 'a) dbm" where
  "throwM e s = (Inl e, s)"

text \<open>Rust's \<open>?\<close>: an error ends the function with that error, a value goes on.\<close>

definition bindM :: "('s, 'e, 'a) dbm \<Rightarrow> ('a \<Rightarrow> ('s, 'e, 'b) dbm) \<Rightarrow> ('s, 'e, 'b) dbm" where
  "bindM m f s = (case m s of (Inl e, s') \<Rightarrow> (Inl e, s') | (Inr x, s') \<Rightarrow> f x s')"

text \<open>A result that is dropped (\<open>let _ = ..\<close>, or the vector \<open>join_all\<close> returns): the state changes
  of the call stay, its error is lost.\<close>

definition ignoreM :: "('s, 'e, 'a) dbm \<Rightarrow> ('s, 'e', unit) dbm" where
  "ignoreM m s = (Inr (), snd (m s))"

text \<open>\<open>map_err\<close>: the error is replaced.\<close>

definition map_errM :: "('e \<Rightarrow> 'e') \<Rightarrow> ('s, 'e, 'a) dbm \<Rightarrow> ('s, 'e', 'a) dbm" where
  "map_errM g m s = (case m s of (Inl e, s') \<Rightarrow> (Inl (g e), s') | (Inr x, s') \<Rightarrow> (Inr x, s'))"

definition okM :: "'e \<Rightarrow> 'a option \<Rightarrow> ('s, 'e, 'a) dbm" where
  "okM e x = (case x of None \<Rightarrow> throwM e | Some y \<Rightarrow> returnM y)"

definition guardM :: "bool \<Rightarrow> 'e \<Rightarrow> ('s, 'e, unit) dbm" where
  "guardM bad e = (if bad then throwM e else returnM ())"

fun forM :: "'a list \<Rightarrow> ('a \<Rightarrow> ('s, 'e, 'b) dbm) \<Rightarrow> ('s, 'e, 'b list) dbm" where
  "forM [] f = returnM []"
| "forM (x # xs) f = bindM (f x) (\<lambda>y. bindM (forM xs f) (\<lambda>ys. returnM (y # ys)))"

text \<open>\<open>join_all(futures).await\<close> followed by \<open>collect::<Result<Vec<_>, _>>\<close>: all the calls are made, then the first
  error in list order is the result.\<close>

fun joinM :: "'a list \<Rightarrow> ('a \<Rightarrow> ('s, 'e, 'b) dbm) \<Rightarrow> ('s, 'e, 'b list) dbm" where
  "joinM [] f s = (Inr [], s)"
| "joinM (x # xs) f s =
     (case f x s of (r, s1) \<Rightarrow>
       (case joinM xs f s1 of (rs, s2) \<Rightarrow>
         ((case r of Inl e \<Rightarrow> Inl e | Inr y \<Rightarrow> map_sum id ((#) y) rs), s2)))"

lemmas [monad_simps] = returnM_def throwM_def bindM_def ignoreM_def map_errM_def okM_def guardM_def

lemma bindM_Inr: "m s = (Inr x, s') \<Longrightarrow> bindM m f s = f x s'"
  by (simp add: bindM_def)

lemma bindM_Inl: "m s = (Inl e, s') \<Longrightarrow> bindM m f s = (Inl e, s')"
  by (simp add: bindM_def)

lemma bindM_returnM [simp]: "bindM (returnM x) f = f x"
  by (rule ext) (simp add: monad_simps)

lemma bindM_throwM [simp]: "bindM (throwM e) f = throwM e"
  by (rule ext) (simp add: monad_simps)

lemma bindM_assoc: "bindM (bindM m f) g = bindM m (\<lambda>x. bindM (f x) g)"
  by (rule ext) (simp add: bindM_def split: prod.splits sum.splits)

lemma bindM_eq_Inr:
  "bindM m f s = (Inr y, t) \<longleftrightarrow> (\<exists>x u. m s = (Inr x, u) \<and> f x u = (Inr y, t))"
  by (auto simp: bindM_def split: prod.splits sum.splits)

lemma okM_Some [simp]: "okM e (Some x) = returnM x"
  by (simp add: okM_def)

lemma okM_None [simp]: "okM e None = throwM e"
  by (simp add: okM_def)

lemma guardM_False [simp]: "guardM False e = returnM ()"
  by (simp add: guardM_def)

lemma guardM_True [simp]: "guardM True e = throwM e"
  by (simp add: guardM_def)

lemma forM_pure:
  "(\<And>x. x \<in> set xs \<Longrightarrow> f x s = (Inr (g x), s)) \<Longrightarrow> forM xs f s = (Inr (map g xs), s)"
  by (induction xs) (simp_all add: bindM_def returnM_def)

lemma joinM_pure:
  "(\<And>x. x \<in> set xs \<Longrightarrow> f x s = (Inr (g x), s)) \<Longrightarrow> joinM xs f s = (Inr (map g xs), s)"
  by (induction xs) simp_all

section \<open>Panics and pure fallible functions\<close>

text \<open>Where a function can both return an error and panic (\<open>unwrap\<close>, \<open>expect\<close>, an index out of range), its
  errors are of this type.\<close>

datatype 'e failure = Panics | Fails 'e

fun map_failure :: "('e \<Rightarrow> 'e') \<Rightarrow> 'e failure \<Rightarrow> 'e' failure" where
  "map_failure g Panics = Panics"
| "map_failure g (Fails e) = Fails (g e)"

definition bindS :: "'e + 'a \<Rightarrow> ('a \<Rightarrow> 'e + 'b) \<Rightarrow> 'e + 'b" where
  "bindS m f = (case m of Inl e \<Rightarrow> Inl e | Inr x \<Rightarrow> f x)"

definition okS :: "'e \<Rightarrow> 'a option \<Rightarrow> 'e + 'a" where
  "okS e x = (case x of None \<Rightarrow> Inl e | Some y \<Rightarrow> Inr y)"

fun mapS :: "('a \<Rightarrow> 'e + 'b) \<Rightarrow> 'a list \<Rightarrow> 'e + 'b list" where
  "mapS f [] = Inr []"
| "mapS f (x # xs) = bindS (f x) (\<lambda>y. bindS (mapS f xs) (\<lambda>ys. Inr (y # ys)))"

definition liftM :: "'e + 'a \<Rightarrow> ('s, 'e, 'a) dbm" where
  "liftM r s = (r, s)"

lemma bindS_simps [simp]: "bindS (Inr x) f = f x" "bindS (Inl e) f = Inl e"
  by (simp_all add: bindS_def)

lemma okS_simps [simp]: "okS e (Some x) = Inr x" "okS e None = Inl e"
  by (simp_all add: okS_def)

lemma mapS_Inr: "(\<And>x. x \<in> set xs \<Longrightarrow> f x = Inr (g x)) \<Longrightarrow> mapS f xs = Inr (map g xs)"
  by (induction xs) simp_all

lemma bindM_liftM_Inr [simp]: "bindM (liftM (Inr x)) f = f x"
  by (rule ext) (simp add: liftM_def bindM_def)

lemma bindM_liftM_Inl [simp]: "bindM (liftM (Inl e)) f = throwM e"
  by (rule ext) (simp add: liftM_def bindM_def throwM_def)

section \<open>Database calls and their failures\<close>

text \<open>
  Every call to the MongoDB driver may fail with a driver error. The state of a component
  extends \<open>world\<close>, whose \<open>faults\<close> is a schedule: the \<open>i\<close>-th call that is made fails if and only if
  the \<open>i\<close>-th entry is \<open>True\<close>; a call made after the schedule has run out succeeds. A call that
  fails leaves the collections as they were. So \<open>faults w = []\<close> is a database that does not fail,
  and a theorem about every schedule is a theorem about every pattern of failures.
\<close>

record world =
  faults :: "bool list"

definition db_call ::
    "'e \<Rightarrow> ('z world_scheme \<Rightarrow> 'a \<times> 'z world_scheme) \<Rightarrow> ('z world_scheme, 'e, 'a) dbm" where
  "db_call e f w =
     (case faults w of
        [] \<Rightarrow> (let (x, w') = f w in (Inr x, w'))
      | b # bs \<Rightarrow>
          if b then (Inl e, w\<lparr>faults := bs\<rparr>)
          else (let (x, w') = f (w\<lparr>faults := bs\<rparr>) in (Inr x, w')))"

text \<open>A read: the collections are not changed.\<close>

definition db_read :: "'e \<Rightarrow> ('z world_scheme \<Rightarrow> 'a) \<Rightarrow> ('z world_scheme, 'e, 'a) dbm" where
  "db_read e f = db_call e (\<lambda>w. (f w, w))"

definition db_write ::
    "'e \<Rightarrow> ('z world_scheme \<Rightarrow> 'z world_scheme) \<Rightarrow> ('z world_scheme, 'e, unit) dbm" where
  "db_write e f = db_call e (\<lambda>w. ((), f w))"

text \<open>\<open>insert_one\<close>: a document whose \<open>_id\<close> is already in the collection is a duplicate-key error.\<close>

definition db_insert ::
    "'e \<Rightarrow> ('z world_scheme \<Rightarrow> bool) \<Rightarrow> ('z world_scheme \<Rightarrow> 'z world_scheme) \<Rightarrow>
     ('z world_scheme, 'e, unit) dbm" where
  "db_insert e dup f =
     bindM (db_call e (\<lambda>w. if dup w then (True, w) else (False, f w))) (\<lambda>d. guardM d e)"

lemma db_call_ok: "faults w = [] \<Longrightarrow> db_call e f w = (Inr (fst (f w)), snd (f w))"
  by (simp add: db_call_def split: prod.split)

lemma db_read_ok: "faults w = [] \<Longrightarrow> db_read e f w = (Inr (f w), w)"
  by (simp add: db_read_def db_call_ok)

lemma db_write_ok: "faults w = [] \<Longrightarrow> db_write e f w = (Inr (), f w)"
  by (simp add: db_write_def db_call_ok)

lemma db_insert_ok: "faults w = [] \<Longrightarrow> \<not> dup w \<Longrightarrow> db_insert e dup f w = (Inr (), f w)"
  by (simp add: db_insert_def db_call_ok monad_simps)

lemma db_insert_dup: "faults w = [] \<Longrightarrow> dup w \<Longrightarrow> db_insert e dup f w = (Inl e, w)"
  by (simp add: db_insert_def db_call_ok monad_simps)

lemma db_read_fault: "faults w = True # bs \<Longrightarrow> db_read e f w = (Inl e, w\<lparr>faults := bs\<rparr>)"
  by (simp add: db_read_def db_call_def)

lemma db_write_fault: "faults w = True # bs \<Longrightarrow> db_write e f w = (Inl e, w\<lparr>faults := bs\<rparr>)"
  by (simp add: db_write_def db_call_def)

section \<open>Results dropped to an option\<close>

text \<open>\<open>.ok()?\<close> in a function that returns an \<open>Option\<close>: the error of the call is forgotten. Such a function is
  a \<open>dbm\<close> with an option as its value, and its only errors are panics. \<open>bindO\<close> is \<open>?\<close> on the option.\<close>

definition tryM :: "('s, unit, 'a) dbm \<Rightarrow> ('s, 'e, 'a option) dbm" where
  "tryM m s = (case m s of (Inl _, s') \<Rightarrow> (Inr None, s') | (Inr x, s') \<Rightarrow> (Inr (Some x), s'))"

definition bindO :: "('s, 'e, 'a option) dbm \<Rightarrow> ('a \<Rightarrow> ('s, 'e, 'b option) dbm) \<Rightarrow> ('s, 'e, 'b option) dbm" where
  "bindO m f = bindM m (\<lambda>r. case r of None \<Rightarrow> returnM None | Some x \<Rightarrow> f x)"

text \<open>\<open>.expect(..)\<close> on the result of a database call.\<close>

definition expectM :: "('s, unit, 'a) dbm \<Rightarrow> ('s, 'e failure, 'a) dbm" where
  "expectM = map_errM (\<lambda>_. Panics)"

lemma tryM_ok: "m s = (Inr x, s') \<Longrightarrow> tryM m s = (Inr (Some x), s')"
  by (simp add: tryM_def)

lemma bindO_Some: "m s = (Inr (Some x), s') \<Longrightarrow> bindO m f s = f x s'"
  by (simp add: bindO_def bindM_def)

lemma bindO_None: "m s = (Inr None, s') \<Longrightarrow> bindO m f s = (Inr None, s')"
  by (simp add: bindO_def bindM_def returnM_def)

lemma expectM_ok: "m s = (Inr x, s') \<Longrightarrow> expectM m s = (Inr x, s')"
  by (simp add: expectM_def map_errM_def)

lemma expect_read_ok: "faults w = [] \<Longrightarrow> expectM (db_read () f) w = (Inr (f w), w)"
  by (rule expectM_ok) (rule db_read_ok)

lemma try_read_ok: "faults w = [] \<Longrightarrow> tryM (db_read () f) w = (Inr (Some (f w)), w)"
  by (rule tryM_ok) (rule db_read_ok)

lemma try_write_ok: "faults w = [] \<Longrightarrow> tryM (db_write () f) w = (Inr (Some ()), f w)"
  by (rule tryM_ok) (rule db_write_ok)

section \<open>Predicates an operation keeps\<close>

text \<open>\<open>keeps I m\<close>: whatever \<open>m\<close> returns, \<open>I\<close> still holds of the state after it. The rules follow the monad, so that
  a predicate is carried through a whole handler from the database calls it makes.\<close>

named_theorems keeps_intros \<open>rules for keeps\<close>

definition keeps :: "('s \<Rightarrow> bool) \<Rightarrow> ('s, 'e, 'a) dbm \<Rightarrow> bool" where
  "keeps I m \<longleftrightarrow> (\<forall>w. I w \<longrightarrow> I (snd (m w)))"

lemma keepsI: "(\<And>w. I w \<Longrightarrow> I (snd (m w))) \<Longrightarrow> keeps I m"
  by (simp add: keeps_def)

lemma keepsD: "keeps I m \<Longrightarrow> I w \<Longrightarrow> m w = (r, w') \<Longrightarrow> I w'"
  unfolding keeps_def by (metis snd_conv)

lemma keeps_pure [keeps_intros]:
  "keeps I (returnM x)" "keeps I (throwM e)" "keeps I (liftM r)" "keeps I (okM e y)" "keeps I (guardM b e)"
  by (simp_all add: keeps_def monad_simps liftM_def split: option.split)

lemma keeps_bindM [keeps_intros]: "keeps I m \<Longrightarrow> (\<And>x. keeps I (f x)) \<Longrightarrow> keeps I (bindM m f)"
  by (auto simp: keeps_def bindM_def split: prod.split sum.split)

lemma keeps_wrapped [keeps_intros]:
  "keeps I m \<Longrightarrow> keeps I (map_errM g m)" "keeps I m \<Longrightarrow> keeps I (ignoreM m)" "keeps I n \<Longrightarrow> keeps I (tryM n)"
  by (auto simp: keeps_def map_errM_def ignoreM_def tryM_def split: prod.split sum.split)

lemma keeps_expectM [keeps_intros]: "keeps I m \<Longrightarrow> keeps I (expectM m)"
  unfolding expectM_def by (rule keeps_wrapped)

lemma keeps_bindO [keeps_intros]: "keeps I m \<Longrightarrow> (\<And>x. keeps I (f x)) \<Longrightarrow> keeps I (bindO m f)"
  unfolding bindO_def by (intro keeps_bindM) (auto simp: keeps_pure split: option.split)

lemma keeps_if [keeps_intros]: "(b \<Longrightarrow> keeps I m) \<Longrightarrow> (\<not> b \<Longrightarrow> keeps I n) \<Longrightarrow> keeps I (if b then m else n)"
  by simp

lemma keeps_forM [keeps_intros]: "(\<And>x. keeps I (f x)) \<Longrightarrow> keeps I (forM xs f)"
  by (induction xs) (auto intro!: keeps_intros)

lemma keeps_case_option [keeps_intros]:
  "keeps I m \<Longrightarrow> (\<And>x. keeps I (f x)) \<Longrightarrow> keeps I (case y of None \<Rightarrow> m | Some x \<Rightarrow> f x)"
  by (cases y) simp_all

lemma keeps_case_prod [keeps_intros]: "(\<And>x y. keeps I (f x y)) \<Longrightarrow> keeps I (case p of (x, y) \<Rightarrow> f x y)"
  by (cases p) simp

lemma keeps_case_list [keeps_intros]:
  "keeps I m \<Longrightarrow> (\<And>x xs. keeps I (f x xs)) \<Longrightarrow> keeps I (case ys of [] \<Rightarrow> m | x # xs \<Rightarrow> f x xs)"
  by (cases ys) simp_all

lemma keeps_db_call:
  assumes "\<And>w b bs. I w \<Longrightarrow> faults w = b # bs \<Longrightarrow> I (w\<lparr>faults := bs\<rparr>)" "\<And>w. I w \<Longrightarrow> I (snd (f w))"
  shows "keeps I (db_call e f)"
proof (rule keepsI)
  fix w assume w: "I w"
  show "I (snd (db_call e f w))"
  proof (cases "faults w")
    case Nil
    then show ?thesis using assms(2) [OF w] by (simp add: db_call_ok)
  next
    case (Cons b bs)
    have "I (w\<lparr>faults := bs\<rparr>)" by (rule assms(1) [OF w Cons])
    then show ?thesis using assms(2) [of "w\<lparr>faults := bs\<rparr>"] Cons by (auto simp: db_call_def Let_def split: prod.split)
  qed
qed

section \<open>Lists\<close>

text \<open>\<open>slice::chunks\<close>: consecutive pieces of length \<open>k\<close>, the last one possibly shorter.
  \<open>chunks(0)\<close> panics in Rust; the callers of this development pass a power of two.\<close>

function chunks :: "nat \<Rightarrow> 'a list \<Rightarrow> 'a list list" where
  "chunks k xs = (if k = 0 \<or> xs = [] then [] else take k xs # chunks k (drop k xs))"
  by pat_completeness auto
termination
  by (relation "measure (\<lambda>(k, xs). length xs)") auto

declare chunks.simps [simp del]

lemma chunks_Nil [simp]: "chunks k [] = []"
  by (simp add: chunks.simps)

lemma chunks_Cons: "0 < k \<Longrightarrow> xs \<noteq> [] \<Longrightarrow> chunks k xs = take k xs # chunks k (drop k xs)"
  by (simp add: chunks.simps [of k xs])

lemma concat_chunks: "0 < k \<Longrightarrow> concat (chunks k xs) = xs"
proof (induction k xs rule: chunks.induct)
  case (1 k xs)
  show ?case
  proof (cases "xs = []")
    case False
    with 1 show ?thesis by (simp add: chunks_Cons)
  qed simp
qed

lemma chunks_length_mem:
  "0 < k \<Longrightarrow> length xs mod k = 0 \<Longrightarrow> c \<in> set (chunks k xs) \<Longrightarrow> length c = k"
proof (induction k xs rule: chunks.induct)
  case (1 k xs)
  show ?case
  proof (cases "xs = []")
    case True
    with "1.prems" show ?thesis by simp
  next
    case False
    have le: "k \<le> length xs"
      using "1.prems"(2) False by (metis length_0_conv linorder_not_le mod_less)
    have "length (drop k xs) mod k = 0"
      using "1.prems"(2) le by (simp add: le_mod_geq)
    then show ?thesis
      using 1 False le by (auto simp: chunks_Cons)
  qed
qed

lemma length_chunks: "0 < k \<Longrightarrow> length xs mod k = 0 \<Longrightarrow> length (chunks k xs) = length xs div k"
proof (induction k xs rule: chunks.induct)
  case (1 k xs)
  show ?case
  proof (cases "xs = []")
    case True
    then show ?thesis by simp
  next
    case False
    have le: "k \<le> length xs"
      using "1.prems"(2) False by (metis length_0_conv linorder_not_le mod_less)
    have "length (drop k xs) mod k = 0"
      using "1.prems"(2) le by (simp add: le_mod_geq)
    then show ?thesis
      using 1 False le by (simp add: chunks_Cons le_div_geq)
  qed
qed

lemma nth_chunks: "0 < k \<Longrightarrow> i * k < length xs \<Longrightarrow> chunks k xs ! i = take k (drop (i * k) xs)"
proof (induction i arbitrary: xs)
  case 0
  then show ?case by (simp add: chunks_Cons)
next
  case (Suc i)
  then have "i * k < length (drop k xs)" "xs \<noteq> []" by auto
  then show ?case using Suc.IH [of "drop k xs"] Suc.prems(1) by (simp add: chunks_Cons add.commute)
qed

lemma div_power_Suc: "(c::nat) div 2 ^ Suc k = c div 2 ^ k div 2"
  by (metis div_mult2_eq power_Suc2)

lemma less_div_block: "(c::nat) < (c div 2 ^ k + 1) * 2 ^ k"
  using dividend_less_div_times [of "2 ^ k" c] by simp

lemma map_of_update [simp]: "map_of (AList.update k v xs) = (map_of xs)(k \<mapsto> v)"
  by (rule AList.update_conv')

end
