(* ===== verification/Tree_Helpers.thy ===== *)
theory Tree_Helpers
  imports Prelude
begin

text \<open>
  \<open>lib/src/merkle_trees/trees.rs\<close>: the metadata record and the error type of the Merkle trees and the
  helper functions \<open>make_complete_tree\<close>, \<open>index_to_directions\<close> and \<open>get_frontier_index\<close>, with the
  reference specification of a Merkle tree (\<open>mnode\<close>, \<open>merkle_root\<close>) they are proved against.

  The tree hasher (Poseidon from \<open>jf_primitives\<close>) is the parameter \<open>th\<close>, total because the code unwraps
  its result; the one documented fact the trees rely on is that it copes with zero nodes, \<open>th 0 0 = 0\<close>.
\<close>

section \<open>Data\<close>

record 'f TreeMetadata =
  tree_height :: nat
  sub_tree_height :: nat
  sub_tree_count :: nat
  root :: 'f

text \<open>\<open>MerkleTreeError\<close>; \<open>DatabaseError\<close> carries no driver error and \<open>MerkleError\<close> is its \<open>Error(String)\<close>.
  \<open>MerklePanic\<close> is not a variant of the source: it stands for a Rust panic of the tree code.\<close>

datatype merkle_error =
    TreeIsFull
  | IncorrectBatchSize
  | NoLeaves
  | DatabaseError
  | TreeNotFound
  | TreeAlreadyExists
  | LeafExists
  | SerializationError
  | InvalidProof
  | ItemNotFound
  | InvalidIndex
  | MerkleError
  | HashingError
  | MerklePanic

datatype Directions = HashWithThisNodeOnLeft | HashWithThisNodeOnRight

definition to_string_rep :: "('f::zero \<Rightarrow> string) \<Rightarrow> 'f \<Rightarrow> string" where
  "to_string_rep show_f x = (if x = 0 then ''0'' else show_f x)"

section \<open>The helper functions\<close>

text \<open>The loop body hashes the pair that ends at \<open>index\<close> into their parent.\<close>

definition hash_pair :: "('f \<Rightarrow> 'f \<Rightarrow> 'f) \<Rightarrow> nat \<Rightarrow> nat \<Rightarrow> 'f list \<Rightarrow> 'f list" where
  "hash_pair th n_nodes i nodes =
     (let index = n_nodes - i - 1
      in nodes[index div 2 - 1 := th (nodes ! (index - 1)) (nodes ! index)])"

text \<open>More leaves than fit make the slice bounds panic: \<open>None\<close>.\<close>

definition make_complete_tree :: "('f \<Rightarrow> 'f \<Rightarrow> 'f) \<Rightarrow> nat \<Rightarrow> 'f::zero list \<Rightarrow> 'f list option" where
  "make_complete_tree th height leaves =
     (let n_nodes = 2 ^ (height + 1) - 1;
          n_leaves = 2 ^ height;
          first_leaf_index = n_nodes - n_leaves
      in if n_leaves < length leaves then None
         else Some (fold (hash_pair th n_nodes) (map ((*) 2) [0..<n_nodes div 2])
                      (replicate first_leaf_index 0 @ leaves @ replicate (n_leaves - length leaves) 0)))"

definition index_to_directions :: "nat \<Rightarrow> nat \<Rightarrow> Directions list" where
  "index_to_directions index height =
     map (\<lambda>i. if (index div 2 ^ i) mod 2 = 0 then HashWithThisNodeOnRight else HashWithThisNodeOnLeft)
       [0..<height]"

text \<open>The \<open>while index == 0\<close> loop; \<open>None\<close> is a loop that does not end.\<close>

partial_function (option) frontier_loop :: "nat \<Rightarrow> nat \<Rightarrow> nat \<Rightarrow> nat \<Rightarrow> nat option" where
  "frontier_loop leaf_index exp1 pow1 pow2 =
     (if (leaf_index + 1 - pow1) mod pow2 = 0 then Some exp1
      else frontier_loop leaf_index (exp1 + 1) pow2 (pow2 * 2))"

definition get_frontier_index :: "nat \<Rightarrow> nat option" where
  "get_frontier_index leaf_index =
     (if leaf_index mod 2 = 1 then frontier_loop leaf_index 1 2 4 else Some 0)"

section \<open>The reference Merkle tree\<close>

text \<open>\<open>mnode th f d i\<close> is the root of the \<open>i\<close>-th complete subtree of height \<open>d\<close> over the leaves
  \<open>f 0, f 1, \<dots>\<close>; \<open>leaf_fn\<close> pads a list of leaves with zeros.\<close>

fun mnode :: "('f \<Rightarrow> 'f \<Rightarrow> 'f) \<Rightarrow> (nat \<Rightarrow> 'f) \<Rightarrow> nat \<Rightarrow> nat \<Rightarrow> 'f" where
  "mnode th f 0 i = f i"
| "mnode th f (Suc d) i = th (mnode th f d (2 * i)) (mnode th f d (2 * i + 1))"

definition leaf_fn :: "'f::zero list \<Rightarrow> nat \<Rightarrow> 'f" where
  "leaf_fn xs i = (if i < length xs then xs ! i else 0)"

definition merkle_root :: "('f \<Rightarrow> 'f \<Rightarrow> 'f) \<Rightarrow> nat \<Rightarrow> 'f::zero list \<Rightarrow> 'f" where
  "merkle_root th h xs = mnode th (leaf_fn xs) h 0"

text \<open>A node numbering (the root is 0, the children of \<open>q\<close> are \<open>2q+1\<close> and \<open>2q+2\<close>) whose first \<open>h\<close> rows
  are the hashes of their children.\<close>

definition heap_ok :: "('f \<Rightarrow> 'f \<Rightarrow> 'f) \<Rightarrow> nat \<Rightarrow> (nat \<Rightarrow> 'f) \<Rightarrow> bool" where
  "heap_ok th h look \<longleftrightarrow> (\<forall>q. q + 1 < 2 ^ h \<longrightarrow> look q = th (look (2 * q + 1)) (look (2 * q + 2)))"

lemma mnode_cong:
  "(\<And>j. i * 2 ^ d \<le> j \<Longrightarrow> j < (i + 1) * 2 ^ d \<Longrightarrow> f j = g j) \<Longrightarrow> mnode th f d i = mnode th g d i"
proof (induction d arbitrary: i)
  case (Suc d)
  have "mnode th f d (2 * i) = mnode th g d (2 * i)"
    by (rule Suc.IH, rule Suc.prems) (simp_all add: algebra_simps)
  moreover have "mnode th f d (2 * i + 1) = mnode th g d (2 * i + 1)"
    by (rule Suc.IH, rule Suc.prems) (simp_all add: algebra_simps)
  ultimately show ?case by simp
qed simp

lemma mnode_compose: "mnode th (\<lambda>i. mnode th f s i) d j = mnode th f (s + d) j"
  by (induction d arbitrary: j) simp_all

lemma mnode_shift: "mnode th (\<lambda>j. f (k * 2 ^ d + j)) d i = mnode th f d (k + i)"
proof (induction d arbitrary: i k)
  case (Suc d)
  have "k * 2 ^ Suc d = (2 * k) * 2 ^ d" by simp
  then show ?case
    using Suc [of "2 * k" "2 * i"] Suc [of "2 * k" "2 * i + 1"]
    by (simp only: mnode.simps distrib_left) (simp add: add.assoc)
qed simp

lemma mnode_zero: "th 0 0 = (0::'f::zero) \<Longrightarrow> mnode th (\<lambda>_. 0) d i = 0"
  by (induction d arbitrary: i) simp_all

lemma mnode_zero_range:
  assumes "th 0 0 = (0::'f::zero)" and "\<And>j. i * 2 ^ d \<le> j \<Longrightarrow> j < (i + 1) * 2 ^ d \<Longrightarrow> f j = 0"
  shows "mnode th f d i = 0"
proof -
  have "mnode th f d i = mnode th (\<lambda>_. 0) d i"
    using assms(2) by (rule mnode_cong)
  then show ?thesis by (simp add: mnode_zero assms(1))
qed

text \<open>In a consistent numbering every node is the reference root of the leaves below it.\<close>

lemma heap_mnode:
  assumes "heap_ok th h look" and "d \<le> h" and "i < 2 ^ (h - d)"
  shows "look (2 ^ (h - d) - 1 + i) = mnode th (\<lambda>j. look (2 ^ h - 1 + j)) d i"
  using assms(2,3)
proof (induction d arbitrary: i)
  case (Suc d)
  define p where "p = h - Suc d"
  have hp: "h - d = Suc p" using Suc.prems p_def by linarith
  have i: "i < 2 ^ p" using Suc.prems p_def by simp
  have "p < h" using hp Suc.prems by linarith
  then have ph: "(2::nat) ^ Suc p \<le> 2 ^ h" by (intro power_increasing) simp_all
  have one: "(1::nat) \<le> 2 ^ p" by simp
  define q where "q = 2 ^ p - 1 + i"
  have "q + 1 < 2 ^ h" using i one ph unfolding q_def by simp
  then have "look q = th (look (2 * q + 1)) (look (2 * q + 2))"
    using assms(1) unfolding heap_ok_def by blast
  moreover obtain x where "(2::nat) ^ p = Suc x" using one by (cases "(2::nat) ^ p") simp_all
  then have "2 * q + 1 = 2 ^ Suc p - 1 + 2 * i" "2 * q + 2 = 2 ^ Suc p - 1 + (2 * i + 1)"
    unfolding q_def power_Suc by simp_all
  moreover have "look (2 ^ Suc p - 1 + 2 * i) = mnode th (\<lambda>j. look (2 ^ h - 1 + j)) d (2 * i)"
    using Suc.IH [of "2 * i"] Suc.prems hp i by simp
  moreover have "look (2 ^ Suc p - 1 + (2 * i + 1)) = mnode th (\<lambda>j. look (2 ^ h - 1 + j)) d (2 * i + 1)"
    using Suc.IH [of "2 * i + 1"] Suc.prems hp i by simp
  ultimately show ?case by (simp add: p_def q_def)
qed simp

lemma heap_root: "heap_ok th h look \<Longrightarrow> look 0 = mnode th (\<lambda>j. look (2 ^ h - 1 + j)) h 0"
  using heap_mnode [of th h look h 0] by simp

text \<open>The root of the \<open>i\<close>-th chunk of new leaves is the root of the block it will fill.\<close>

lemma chunk_leaf:
  assumes "length ls = c * k" "j < k" "i * k + j < length leaves"
  shows "leaf_fn (take k (drop (i * k) leaves)) j = leaf_fn (ls @ leaves) ((c + i) * k + j)"
proof -
  have "(c + i) * k + j = length ls + (i * k + j)" by (simp only: assms(1) distrib_right add.assoc)
  moreover have "j < length leaves - i * k" using assms(3) by linarith
  ultimately show ?thesis using assms(2,3) by (simp add: leaf_fn_def nth_append)
qed

lemma chunk_bound: "length xs mod k = 0 \<Longrightarrow> i < length xs div k \<Longrightarrow> j < k \<Longrightarrow> i * k + j < (length xs :: nat)"
proof -
  assume a: "length xs mod k = 0" "i < length xs div k" "j < k"
  then have "(i + 1) * k \<le> length xs div k * k" by (intro mult_right_mono) simp_all
  also have "\<dots> = length xs" using a(1) by (metis add.right_neutral div_mult_mod_eq)
  finally show ?thesis using a(3) by simp
qed

lemma chunk_root:
  assumes "length ls = c * 2 ^ s" "length leaves mod 2 ^ s = 0" "i < length leaves div 2 ^ s"
  shows "merkle_root th s (chunks (2 ^ s) leaves ! i) = mnode th (leaf_fn (ls @ leaves)) s (c + i)"
proof -
  define k where "k = (2::nat) ^ s"
  have k: "0 < k" by (simp add: k_def)
  have bound: "i * k + j < length leaves" if "j < k" for j
    using assms(2,3) that unfolding k_def by (rule chunk_bound)
  have "merkle_root th s (chunks k leaves ! i) = mnode th (leaf_fn (take k (drop (i * k) leaves))) s 0"
    using bound [OF k] by (simp add: merkle_root_def nth_chunks k)
  also have "\<dots> = mnode th (\<lambda>j. leaf_fn (ls @ leaves) ((c + i) * k + j)) s 0"
    by (rule mnode_cong, rule chunk_leaf) (simp_all add: bound assms(1) k_def [symmetric])
  also have "\<dots> = mnode th (leaf_fn (ls @ leaves)) s (c + i)"
    unfolding k_def by (simp add: mnode_shift)
  finally show ?thesis by (simp add: k_def)
qed

lemma chunk_len: "0 < k \<Longrightarrow> length xs mod k = 0 \<Longrightarrow> i < length xs div k \<Longrightarrow> length (chunks k xs ! i) = k"
  by (metis chunks_length_mem length_chunks nth_mem)

section \<open>Correctness of the helpers\<close>

lemma hash_pairs_inv:
  fixes th :: "'f \<Rightarrow> 'f \<Rightarrow> 'f"
  assumes "length ns = 2 * m + 1" and "k \<le> m"
  defines "ns' \<equiv> fold (hash_pair th (2 * m + 1)) (map ((*) 2) [0..<k]) ns"
  shows "length ns' = 2 * m + 1"
    and "\<forall>q. m \<le> q \<and> q < 2 * m + 1 \<longrightarrow> ns' ! q = ns ! q"
    and "\<forall>q. m - k \<le> q \<and> q < m \<longrightarrow> ns' ! q = th (ns' ! (2 * q + 1)) (ns' ! (2 * q + 2))"
proof -
  have "length ns' = 2 * m + 1 \<and> (\<forall>q. m \<le> q \<and> q < 2 * m + 1 \<longrightarrow> ns' ! q = ns ! q) \<and>
        (\<forall>q. m - k \<le> q \<and> q < m \<longrightarrow> ns' ! q = th (ns' ! (2 * q + 1)) (ns' ! (2 * q + 2)))"
    unfolding ns'_def using assms(2)
  proof (induction k)
    case 0
    then show ?case using assms(1) by auto
  next
    case (Suc k)
    define us where "us = fold (hash_pair th (2 * m + 1)) (map ((*) 2) [0..<k]) ns"
    have IH: "length us = 2 * m + 1" "\<And>q. m \<le> q \<Longrightarrow> q < 2 * m + 1 \<Longrightarrow> us ! q = ns ! q"
      "\<And>q. m - k \<le> q \<Longrightarrow> q < m \<Longrightarrow> us ! q = th (us ! (2 * q + 1)) (us ! (2 * q + 2))"
      using Suc unfolding us_def by simp_all
    define p where "p = m - k - 1"
    have p: "p < m" "m - k = p + 1" "m - Suc k = p" using Suc.prems unfolding p_def by linarith+
    have "2 * m + 1 - 2 * k - 1 = 2 * p + 2" using p Suc.prems by linarith
    then have step: "hash_pair th (2 * m + 1) (2 * k) us = us[p := th (us ! (2 * p + 1)) (us ! (2 * p + 2))]"
      by (simp add: hash_pair_def)
    have "fold (hash_pair th (2 * m + 1)) (map ((*) 2) [0..<Suc k]) ns =
        us[p := th (us ! (2 * p + 1)) (us ! (2 * p + 2))]"
      using step by (simp add: us_def)
    moreover have "\<forall>q. p \<le> q \<and> q < m \<longrightarrow>
        us[p := th (us ! (2 * p + 1)) (us ! (2 * p + 2))] ! q =
        th (us[p := th (us ! (2 * p + 1)) (us ! (2 * p + 2))] ! (2 * q + 1))
          (us[p := th (us ! (2 * p + 1)) (us ! (2 * p + 2))] ! (2 * q + 2))"
    proof (intro allI impI)
      fix q assume q: "p \<le> q \<and> q < m"
      have "2 * q + 1 \<noteq> p" "2 * q + 2 \<noteq> p" using q by linarith+
      then show "us[p := th (us ! (2 * p + 1)) (us ! (2 * p + 2))] ! q =
        th (us[p := th (us ! (2 * p + 1)) (us ! (2 * p + 2))] ! (2 * q + 1))
          (us[p := th (us ! (2 * p + 1)) (us ! (2 * p + 2))] ! (2 * q + 2))"
        using IH(1) IH(3) [of q] q p by (cases "q = p") (simp_all add: nth_list_update)
    qed
    ultimately show ?case using IH(1,2) p by (simp add: p(3))
  qed
  then show "length ns' = 2 * m + 1"
    and "\<forall>q. m \<le> q \<and> q < 2 * m + 1 \<longrightarrow> ns' ! q = ns ! q"
    and "\<forall>q. m - k \<le> q \<and> q < m \<longrightarrow> ns' ! q = th (ns' ! (2 * q + 1)) (ns' ! (2 * q + 2))"
    by blast+
qed

lemma two_power_half: "(2 * 2 ^ h - 1) div 2 = (2::nat) ^ h - 1"
proof -
  have "2 * 2 ^ h - 1 = 1 + 2 * ((2::nat) ^ h - 1)"
    using one_le_power [of "2::nat" h] by linarith
  then show ?thesis by simp
qed

text \<open>The complete tree is the consistent numbering over its padded leaves; it has \<open>2 ^ (h + 1) - 1\<close>
  nodes.\<close>

lemma make_complete_tree_Some:
  assumes "length leaves \<le> 2 ^ h"
  obtains ns where "make_complete_tree th h leaves = Some ns" "length ns = 2 ^ (h + 1) - 1"
    "heap_ok th h (nth ns)" "\<And>j. j < 2 ^ h \<Longrightarrow> ns ! (2 ^ h - 1 + j) = leaf_fn leaves j"
proof -
  define m where "m = (2::nat) ^ h - 1"
  have pm: "(2::nat) ^ h = m + 1" using one_le_power [of "2::nat" h] unfolding m_def by linarith
  have n: "2 ^ (h + 1) - 1 = 2 * m + 1" by (simp add: pm)
  define us where "us = replicate m 0 @ leaves @ replicate (2 ^ h - length leaves) 0"
  have lus: "length us = 2 * m + 1" using assms by (simp add: us_def pm)
  define ns where "ns = fold (hash_pair th (2 * m + 1)) (map ((*) 2) [0..<m]) us"
  have mk: "make_complete_tree th h leaves = Some ns"
    using assms by (simp only: make_complete_tree_def n Let_def ns_def us_def) (simp add: pm)
  note inv = hash_pairs_inv [OF lus le_refl, of th, folded ns_def]
  have "heap_ok th h (nth ns)"
    using inv(3) by (simp add: heap_ok_def pm)
  moreover have "ns ! (2 ^ h - 1 + j) = leaf_fn leaves j" if "j < 2 ^ h" for j
  proof -
    have "ns ! (m + j) = us ! (m + j)" using inv(2) that by (simp add: pm)
    also have "\<dots> = leaf_fn leaves j"
      using that by (auto simp: us_def leaf_fn_def nth_append)
    finally show ?thesis by (simp add: pm)
  qed
  ultimately show thesis using that mk inv(1) n by presburger
qed

lemma make_complete_tree_root:
  assumes "length leaves \<le> 2 ^ h" "make_complete_tree th h leaves = Some ns"
  shows "ns ! 0 = merkle_root th h leaves"
proof -
  obtain us where us: "make_complete_tree th h leaves = Some us" "heap_ok th h (nth us)"
    "\<And>j. j < 2 ^ h \<Longrightarrow> us ! (2 ^ h - 1 + j) = leaf_fn leaves j"
    using make_complete_tree_Some [OF assms(1)] by metis
  have "us ! 0 = mnode th (\<lambda>j. us ! (2 ^ h - 1 + j)) h 0" by (rule heap_root [OF us(2)])
  also have "\<dots> = mnode th (leaf_fn leaves) h 0"
    by (rule mnode_cong) (rule us(3), simp)
  finally show ?thesis using us(1) assms(2) by (simp add: merkle_root_def)
qed

lemma length_index_to_directions [simp]: "length (index_to_directions i h) = h"
  by (simp add: index_to_directions_def)

lemma nth_index_to_directions:
  "k < h \<Longrightarrow> index_to_directions i h ! k =
     (if even (i div 2 ^ k) then HashWithThisNodeOnRight else HashWithThisNodeOnLeft)"
  by (simp add: index_to_directions_def even_iff_mod_2_eq_zero)

text \<open>The frontier index is the number of trailing ones of the leaf index.\<close>

lemma frontier_loop_Some:
  "e \<le> k \<Longrightarrow> 2 ^ k dvd n + 1 \<Longrightarrow> \<not> 2 ^ Suc k dvd n + 1 \<Longrightarrow>
   frontier_loop n e (2 ^ e) (2 ^ Suc e) = Some k"
proof (induction "k - e" arbitrary: e)
  case 0
  then have [simp]: "e = k" by simp
  have "2 ^ Suc k dvd n + 1 - 2 ^ k"
  proof -
    obtain c where c: "n + 1 = 2 ^ k * c" using 0 by blast
    have "odd c" using 0(4) c by (auto elim!: evenE)
    then obtain d where "c = 2 * d + 1" by (rule oddE)
    then have "n + 1 - 2 ^ k = 2 ^ Suc k * d" using c by (simp add: algebra_simps)
    then show ?thesis by simp
  qed
  then show ?case by (simp add: frontier_loop.simps)
next
  case (Suc m)
  then have e: "Suc e \<le> k" by simp
  have d: "2 ^ Suc e dvd n + 1" using Suc.prems(2) e power_le_dvd by blast
  have "\<not> 2 ^ Suc e dvd n + 1 - 2 ^ e"
  proof
    assume "2 ^ Suc e dvd n + 1 - 2 ^ e"
    moreover have le: "2 ^ e \<le> n + 1" using d dvd_imp_le power_le_dvd [of 2 "Suc e" "n + 1" e] by fastforce
    ultimately have "(2::nat) ^ Suc e dvd 2 ^ e"
      using d dvd_diffD1 by blast
    then show False using power_dvd_imp_le [of 2 "Suc e" e] by simp
  qed
  then have "(n + 1 - 2 ^ e) mod 2 ^ Suc e \<noteq> 0" by (simp add: dvd_eq_mod_eq_0)
  then have "frontier_loop n e (2 ^ e) (2 ^ Suc e) = frontier_loop n (Suc e) (2 ^ Suc e) (2 ^ Suc (Suc e))"
    by (subst frontier_loop.simps) (simp add: mult.commute)
  also have "\<dots> = Some k" using Suc e by (intro Suc.hyps) simp_all
  finally show ?case .
qed

lemma get_frontier_index_Some:
  assumes "2 ^ k dvd n + 1" "\<not> 2 ^ Suc k dvd n + 1"
  shows "get_frontier_index n = Some k"
proof (cases k)
  case 0
  then have "even n" using assms by simp
  then show ?thesis by (simp add: get_frontier_index_def 0 even_iff_mod_2_eq_zero)
next
  case (Suc j)
  then have "2 dvd n + 1" using assms(1) by (auto dest: dvd_mult_left)
  then have "n mod 2 = 1" by presburger
  moreover have "frontier_loop n 1 (2 ^ 1) (2 ^ Suc 1) = Some k"
    using assms Suc by (intro frontier_loop_Some) simp_all
  ultimately show ?thesis by (simp add: get_frontier_index_def)
qed

lemma trailing_ones_ex: "\<exists>k. 2 ^ k dvd n + 1 \<and> \<not> 2 ^ Suc k dvd n + (1::nat)"
proof (induction n rule: less_induct)
  case (less n)
  show ?case
  proof (cases "even n")
    case True
    then show ?thesis by (intro exI [of _ 0]) simp
  next
    case False
    then obtain m where m: "n = 2 * m + 1" by (rule oddE)
    then obtain k where "2 ^ k dvd m + 1" "\<not> 2 ^ Suc k dvd m + 1"
      using less [of m] by auto
    then have "2 * 2 ^ k dvd 2 * (m + 1)" "\<not> 2 * 2 ^ Suc k dvd 2 * (m + 1)"
      by (simp_all only: dvd_times_left_cancel_iff) simp_all
    moreover have "n + 1 = 2 * (m + 1)" using m by simp
    ultimately have "2 ^ Suc k dvd n + 1 \<and> \<not> 2 ^ Suc (Suc k) dvd n + 1"
      by (simp only: power_Suc) simp
    then show ?thesis by blast
  qed
qed

end
