(* ===== verification/Append_Only_Tree.thy ===== *)
theory Append_Only_Tree
  imports Tree_Helpers
begin

text \<open>
  \<open>lib/src/merkle_trees/append_only.rs\<close>: a Merkle tree that stores only its frontier. The proposer
  keeps the historic roots in one of these. The state of one tree is its two collections,
  \<open><id>_metadata\<close> and \<open><id>_frontier\<close>, each with the one document \<open>_id = 0\<close>. The textual form of a
  field element is a parameter (\<open>show_f\<close>, \<open>parse_f\<close>: arkworks' \<open>Display\<close> and \<open>FromStr\<close>).
\<close>

record 'f ao_db = world +
  ao_metadata :: "'f TreeMetadata option"
  ao_frontier :: "string list option"

definition new_append_only_tree ::
    "('f::zero \<Rightarrow> string) \<Rightarrow> nat \<Rightarrow> nat \<Rightarrow> (('f, 'z) ao_db_scheme, merkle_error, unit) dbm" where
  "new_append_only_tree show_f th_height sth_height =
     bindM (db_insert DatabaseError (\<lambda>w. ao_metadata w \<noteq> None)
       (\<lambda>w. w\<lparr>ao_metadata := Some \<lparr>tree_height = th_height, sub_tree_height = sth_height,
                                    sub_tree_count = 0, root = 0\<rparr>\<rparr>)) (\<lambda>_.
     db_insert DatabaseError (\<lambda>w. ao_frontier w \<noteq> None)
       (\<lambda>w. w\<lparr>ao_frontier := Some (replicate th_height (to_string_rep show_f 0))\<rparr>))"

fun parse_frontier :: "(string \<Rightarrow> 'f::zero option) \<Rightarrow> string list \<Rightarrow> 'f list option" where
  "parse_frontier parse_f [] = Some []"
| "parse_frontier parse_f (s # ss) =
     (case (if s = [] then Some 0 else parse_f s) of
        None \<Rightarrow> None
      | Some x \<Rightarrow> (case parse_frontier parse_f ss of None \<Rightarrow> None | Some xs \<Rightarrow> Some (x # xs)))"

text \<open>The path up from the root of the new subtree: its first entry is that root, its last the new root
  of the tree.\<close>

fun ao_path :: "('f \<Rightarrow> 'f \<Rightarrow> 'f) \<Rightarrow> 'f::zero list \<Rightarrow> nat \<Rightarrow> Directions list \<Rightarrow> 'f \<Rightarrow> 'f list" where
  "ao_path th frontier level [] hash = [hash]"
| "ao_path th frontier level (d # ds) hash =
     hash # ao_path th frontier (level + 1) ds
       (case d of HashWithThisNodeOnLeft \<Rightarrow> th (frontier ! level) hash
                | HashWithThisNodeOnRight \<Rightarrow> th hash 0)"

text \<open>The body of the loop over the batches; the index expressions panic out of range (\<open>None\<close>).\<close>

definition ao_step ::
    "('f \<Rightarrow> 'f \<Rightarrow> 'f) \<Rightarrow> nat \<Rightarrow> nat \<Rightarrow> 'f::zero list \<Rightarrow> nat \<times> 'f list \<times> 'f \<Rightarrow> (nat \<times> 'f list \<times> 'f) option" where
  "ao_step th t_height s_height leaf_batch st =
     (case st of (count, frontier, _) \<Rightarrow>
       (case make_complete_tree th s_height leaf_batch of
          None \<Rightarrow> None
        | Some sub_tree \<Rightarrow>
            (let path = ao_path th frontier 0 (index_to_directions count t_height) (sub_tree ! 0)
             in case get_frontier_index count of
                  None \<Rightarrow> None
                | Some index \<Rightarrow>
                    if index < length path \<and> index < length frontier
                    then Some (count + 1, frontier[index := path ! index], last path)
                    else None)))"

fun ao_loop ::
    "('f \<Rightarrow> 'f \<Rightarrow> 'f) \<Rightarrow> nat \<Rightarrow> nat \<Rightarrow> 'f::zero list list \<Rightarrow> nat \<times> 'f list \<times> 'f \<Rightarrow> (nat \<times> 'f list \<times> 'f) option" where
  "ao_loop th t_height s_height [] st = Some st"
| "ao_loop th t_height s_height (b # bs) st =
     (case ao_step th t_height s_height b st of
        None \<Rightarrow> None
      | Some st' \<Rightarrow> ao_loop th t_height s_height bs st')"

definition ao_append_sub_trees ::
    "('f \<Rightarrow> 'f \<Rightarrow> 'f) \<Rightarrow> ('f::zero \<Rightarrow> string) \<Rightarrow> (string \<Rightarrow> 'f option) \<Rightarrow> 'f list \<Rightarrow> bool \<Rightarrow>
     (('f, 'z) ao_db_scheme, merkle_error, 'f) dbm" where
  "ao_append_sub_trees th show_f parse_f leaves update_tree =
     bindM (db_read DatabaseError ao_metadata) (\<lambda>m.
     bindM (okM TreeNotFound m) (\<lambda>metadata.
     bindM (db_read DatabaseError ao_frontier) (\<lambda>fr.
     bindM (okM ItemNotFound fr) (\<lambda>texts.
     bindM (okM SerializationError (parse_frontier parse_f texts)) (\<lambda>frontier.
     (let sub_tree_capacity = 2 ^ sub_tree_height metadata in
      if length leaves mod sub_tree_capacity \<noteq> 0 then throwM IncorrectBatchSize
      else if leaves = [] then returnM (root metadata)
      else if sub_tree_count metadata > 2 ^ tree_height metadata then throwM TreeIsFull
      else if length frontier \<noteq> tree_height metadata then throwM SerializationError
      else bindM (okM MerklePanic (ao_loop th (tree_height metadata) (sub_tree_height metadata)
                   (chunks sub_tree_capacity leaves) (sub_tree_count metadata, frontier, 0)))
        (\<lambda>(count, frontier', new_root).
          if update_tree then
            bindM (db_write DatabaseError
              (\<lambda>w. w\<lparr>ao_metadata := Some (metadata\<lparr>sub_tree_count := count\<rparr>)\<rparr>)) (\<lambda>_.
            bindM (db_write DatabaseError
              (\<lambda>w. w\<lparr>ao_frontier := Some (map (to_string_rep show_f) frontier')\<rparr>)) (\<lambda>_.
            returnM new_root))
          else returnM new_root)))))))"

section \<open>The frontier invariant\<close>

definition upto_fn :: "(nat \<Rightarrow> 'f::zero) \<Rightarrow> nat \<Rightarrow> nat \<Rightarrow> 'f" where
  "upto_fn f c i = (if i < c then f i else 0)"

text \<open>For every bit that is set in the number \<open>c\<close> of subtrees, the frontier holds the root of the last
  complete block of that size.\<close>

definition frontier_ok :: "('f \<Rightarrow> 'f \<Rightarrow> 'f) \<Rightarrow> nat \<Rightarrow> (nat \<Rightarrow> 'f) \<Rightarrow> nat \<Rightarrow> 'f list \<Rightarrow> bool" where
  "frontier_ok th h f c fr \<longleftrightarrow>
     length fr = h \<and> (\<forall>k<h. odd (c div 2 ^ k) \<longrightarrow> fr ! k = mnode th f k (c div 2 ^ k - 1))"

lemma path_node_step:
  assumes "th 0 0 = (0::'f::zero)" "frontier_ok th h f c fr" "k < h"
  defines "g \<equiv> \<lambda>k. mnode th (upto_fn f (Suc c)) k (c div 2 ^ k)"
  shows "g (Suc k) = (if even (c div 2 ^ k) then th (g k) 0 else th (fr ! k) (g k))"
proof -
  let ?F = "upto_fn f (Suc c)" and ?q = "c div 2 ^ k"
  have lt: "c < (?q + 1) * 2 ^ k" by (rule less_div_block)
  have g: "g (Suc k) = th (mnode th ?F k (2 * (?q div 2))) (mnode th ?F k (2 * (?q div 2) + 1))"
    by (simp add: g_def div_power_Suc del: power_Suc)
  show ?thesis
  proof (cases "even ?q")
    case True
    then have "2 * (?q div 2) = ?q" by simp
    moreover have "mnode th ?F k (?q + 1) = 0"
      using assms(1) by (rule mnode_zero_range) (use lt in \<open>simp add: upto_fn_def\<close>)
    ultimately show ?thesis using True g by (simp add: g_def)
  next
    case False
    then have two: "2 * (?q div 2) = ?q - 1" "2 * (?q div 2) + 1 = ?q" "0 < ?q"
      by (auto elim!: oddE)
    have "(?q - 1 + 1) * 2 ^ k \<le> c" using two(3) by (simp add: div_times_less_eq_dividend)
    then have "upto_fn f (Suc c) j = f j" if "j < (?q - 1 + 1) * 2 ^ k" for j
      using that by (simp add: upto_fn_def del: Suc_pred)
    then have "mnode th ?F k (?q - 1) = mnode th f k (?q - 1)"
      by (rule mnode_cong)
    also have "\<dots> = fr ! k" using assms(2,3) False by (simp add: frontier_ok_def)
    finally show ?thesis using False g two by (simp add: g_def)
  qed
qed

lemma ao_path_spec:
  assumes "th 0 0 = (0::'f::zero)" "frontier_ok th h f c fr"
  shows "ao_path th fr 0 (index_to_directions c h) (f c) =
         map (\<lambda>k. mnode th (upto_fn f (Suc c)) k (c div 2 ^ k)) [0..<Suc h]"
proof -
  let ?g = "\<lambda>k. mnode th (upto_fn f (Suc c)) k (c div 2 ^ k)"
  have "l \<le> h \<Longrightarrow> ao_path th fr l (drop l (index_to_directions c h)) (?g l) = map ?g [l..<Suc h]" for l
  proof (induction "h - l" arbitrary: l)
    case (Suc n)
    then have l: "l < h" by simp
    then have d: "drop l (index_to_directions c h) =
        index_to_directions c h ! l # drop (Suc l) (index_to_directions c h)"
      by (simp add: Cons_nth_drop_Suc)
    have "ao_path th fr (Suc l) (drop (Suc l) (index_to_directions c h)) (?g (Suc l)) = map ?g [Suc l..<Suc h]"
      using Suc l by (intro Suc.hyps) simp_all
    moreover have "?g (Suc l) = (case index_to_directions c h ! l of
        HashWithThisNodeOnLeft \<Rightarrow> th (fr ! l) (?g l) | HashWithThisNodeOnRight \<Rightarrow> th (?g l) 0)"
      using path_node_step [OF assms l] l by (simp add: nth_index_to_directions)
    ultimately show ?case using l by (simp add: d upt_conv_Cons [of l])
  qed simp
  from this [of 0] show ?thesis by (simp add: upto_fn_def)
qed

lemma frontier_next:
  assumes "frontier_ok th h f c fr" "c + 1 < 2 ^ h" "2 ^ k dvd c + 1" "\<not> 2 ^ Suc k dvd c + 1"
  shows "k < h"
    and "frontier_ok th h f (c + 1) (fr[k := mnode th (upto_fn f (Suc c)) k (c div 2 ^ k)])"
proof -
  have "(2::nat) ^ k \<le> c + 1" using assms(3) by (intro dvd_imp_le) simp_all
  then have "(2::nat) ^ k < 2 ^ h" using assms(2) by linarith
  then show k: "k < h" by simp
  let ?v = "mnode th (upto_fn f (Suc c)) k (c div 2 ^ k)"
  have "fr[k := ?v] ! j = mnode th f j ((c + 1) div 2 ^ j - 1)"
    if j: "j < h" and o: "odd ((c + 1) div 2 ^ j)" for j
  proof -
    consider "j < k" | "j = k" | "k < j" by linarith
    then show ?thesis
    proof cases
      case 1
      then have "2 ^ Suc j dvd c + 1" using assms(3) power_le_dvd Suc_leI by blast
      then have "even ((c + 1) div 2 ^ j)" by (auto elim!: dvdE)
      then show ?thesis using o by simp
    next
      case 2
      have d: "(c + 1) div 2 ^ k = Suc (c div 2 ^ k)"
        using assms(3) by (simp add: div_Suc dvd_eq_mod_eq_0)
      have "(c div 2 ^ k + 1) * 2 ^ k = c + 1"
        using assms(3) d by (metis Suc_eq_plus1 dvd_div_mult_self)
      then have "?v = mnode th f k (c div 2 ^ k)"
        by (intro mnode_cong) (simp add: upto_fn_def)
      then show ?thesis using 2 d k assms(1) by (simp add: frontier_ok_def)
    next
      case 3
      have "\<not> 2 ^ j dvd c + 1" using assms(4) 3 power_le_dvd Suc_leI by blast
      then have "(c + 1) div 2 ^ j = c div 2 ^ j" by (simp add: div_Suc dvd_eq_mod_eq_0)
      then show ?thesis using 3 j o assms(1) by (simp add: frontier_ok_def)
    qed
  qed
  then show "frontier_ok th h f (c + 1) (fr[k := ?v])"
    using assms(1) by (simp add: frontier_ok_def)
qed

lemma ao_step_ok:
  assumes "th 0 0 = (0::'f::zero)" "frontier_ok th h f c fr" "c + 1 < 2 ^ h"
    "length b \<le> 2 ^ s" "merkle_root th s b = f c"
  obtains fr' where "ao_step th h s b (c, fr, r) = Some (c + 1, fr', mnode th (upto_fn f (c + 1)) h 0)"
    "frontier_ok th h f (c + 1) fr'"
proof -
  obtain k where k: "2 ^ k dvd c + 1" "\<not> 2 ^ Suc k dvd c + 1" using trailing_ones_ex by blast
  obtain ns where ns: "make_complete_tree th s b = Some ns" "ns ! 0 = f c"
    using make_complete_tree_Some [OF assms(4)] make_complete_tree_root [OF assms(4)] assms(5) by metis
  note nx = frontier_next [OF assms(2,3) k]
  have fl: "length fr = h" using assms(2) by (simp add: frontier_ok_def)
  have "c < 2 ^ h" using assms(3) by simp
  then have "ao_step th h s b (c, fr, r) =
      Some (c + 1, fr[k := mnode th (upto_fn f (Suc c)) k (c div 2 ^ k)], mnode th (upto_fn f (c + 1)) h 0)"
    using get_frontier_index_Some [OF k] nx(1) fl
    by (simp add: ao_step_def ns ao_path_spec [OF assms(1,2)] less_Suc_eq nth_append Let_def)
  then show thesis using that nx(2) by blast
qed

lemma ao_loop_ok:
  assumes "th 0 0 = (0::'f::zero)"
  shows "frontier_ok th h f c fr \<Longrightarrow> c + length bs < 2 ^ h \<Longrightarrow> bs \<noteq> [] \<Longrightarrow>
    (\<And>i. i < length bs \<Longrightarrow> length (bs ! i) \<le> 2 ^ s \<and> merkle_root th s (bs ! i) = f (c + i)) \<Longrightarrow>
    \<exists>fr'. ao_loop th h s bs (c, fr, r) =
            Some (c + length bs, fr', mnode th (upto_fn f (c + length bs)) h 0) \<and>
          frontier_ok th h f (c + length bs) fr'"
proof (induction bs arbitrary: c fr r)
  case (Cons b bs)
  have b: "length b \<le> 2 ^ s" "merkle_root th s b = f c" using Cons.prems(4) [of 0] by simp_all
  obtain fr1 where st: "ao_step th h s b (c, fr, r) = Some (c + 1, fr1, mnode th (upto_fn f (c + 1)) h 0)"
    "frontier_ok th h f (c + 1) fr1"
    using Cons.prems(2) by (elim ao_step_ok [OF assms Cons.prems(1) _ b, of r, rotated]) simp_all
  show ?case
  proof (cases "bs = []")
    case True
    then show ?thesis using st by simp
  next
    case False
    have "length (bs ! i) \<le> 2 ^ s \<and> merkle_root th s (bs ! i) = f (c + 1 + i)" if "i < length bs" for i
      using Cons.prems(4) [of "Suc i"] that by simp
    then show ?thesis
      using Cons.IH [OF st(2) _ False] Cons.prems(2) st(1) by simp
  qed
qed simp

text \<open>The last free position: its frontier index is the height of the tree, out of the frontier's range.\<close>

lemma ao_step_last:
  assumes "frontier_ok th h f c fr" "c + 1 = 2 ^ h"
  shows "ao_step th h s b (c, fr, r) = None"
proof -
  have "\<not> (2::nat) ^ Suc h dvd 2 ^ h" using power_dvd_imp_le [of 2 "Suc h" h] by auto
  then have "get_frontier_index c = Some h"
    by (intro get_frontier_index_Some) (simp_all only: assms(2) dvd_refl not_False_eq_True)
  then show ?thesis
    using assms(1) by (simp add: ao_step_def frontier_ok_def Let_def split: option.split)
qed

lemma ao_loop_full:
  assumes "th 0 0 = (0::'f::zero)"
  shows "frontier_ok th h f c fr \<Longrightarrow> c < 2 ^ h \<Longrightarrow> 2 ^ h \<le> c + length bs \<Longrightarrow>
    (\<And>i. i < length bs \<Longrightarrow> length (bs ! i) \<le> 2 ^ s \<and> merkle_root th s (bs ! i) = f (c + i)) \<Longrightarrow>
    ao_loop th h s bs (c, fr, r) = None"
proof (induction bs arbitrary: c fr r)
  case (Cons b bs)
  have b: "length b \<le> 2 ^ s" "merkle_root th s b = f c" using Cons.prems(4) [of 0] by simp_all
  show ?case
  proof (cases "c + 1 = 2 ^ h")
    case True
    then show ?thesis using ao_step_last [OF Cons.prems(1)] by simp
  next
    case False
    then have c: "c + 1 < 2 ^ h" using Cons.prems(2) by linarith
    obtain fr1 where st: "ao_step th h s b (c, fr, r) = Some (c + 1, fr1, mnode th (upto_fn f (c + 1)) h 0)"
      "frontier_ok th h f (c + 1) fr1"
      by (rule ao_step_ok [OF assms Cons.prems(1) c b])
    have "length (bs ! i) \<le> 2 ^ s \<and> merkle_root th s (bs ! i) = f (c + 1 + i)" if "i < length bs" for i
      using Cons.prems(4) [of "Suc i"] that by simp
    then show ?thesis
      using Cons.IH [OF st(2) c] Cons.prems(3) st(1) by simp
  qed
qed simp

section \<open>The stored tree\<close>

text \<open>\<open>ao_inv th show_f h s ls w\<close>: the collections hold the tree of height \<open>h\<close> over subtrees of height
  \<open>s\<close> to which the leaves \<open>ls\<close> have been appended.\<close>

definition ao_inv ::
    "('f \<Rightarrow> 'f \<Rightarrow> 'f) \<Rightarrow> ('f::zero \<Rightarrow> string) \<Rightarrow> nat \<Rightarrow> nat \<Rightarrow> 'f list \<Rightarrow> ('f, 'z) ao_db_scheme \<Rightarrow> bool" where
  "ao_inv th show_f h s ls w \<longleftrightarrow>
     length ls mod 2 ^ s = 0 \<and>
     ao_metadata w = Some \<lparr>tree_height = h, sub_tree_height = s, sub_tree_count = length ls div 2 ^ s, root = 0\<rparr> \<and>
     (\<exists>fr. ao_frontier w = Some (map (to_string_rep show_f) fr) \<and>
           frontier_ok th h (mnode th (leaf_fn ls) s) (length ls div 2 ^ s) fr)"

text \<open>What the code relies on of arkworks' text form: it is not empty and reads back.\<close>

definition text_ok :: "('f::zero \<Rightarrow> string) \<Rightarrow> (string \<Rightarrow> 'f option) \<Rightarrow> bool" where
  "text_ok show_f parse_f \<longleftrightarrow>
     parse_f ''0'' = Some 0 \<and> (\<forall>x. x \<noteq> 0 \<longrightarrow> show_f x \<noteq> [] \<and> parse_f (show_f x) = Some x)"

lemma parse_frontier_text: "text_ok show_f parse_f \<Longrightarrow> parse_frontier parse_f (map (to_string_rep show_f) fr) = Some fr"
  by (induction fr) (auto simp: text_ok_def to_string_rep_def)

lemma frontier_ok_append:
  assumes "length ls mod 2 ^ s = 0"
    "frontier_ok th h (mnode th (leaf_fn ls) s) (length ls div 2 ^ s) fr"
  shows "frontier_ok th h (mnode th (leaf_fn (ls @ xs)) s) (length ls div 2 ^ s) fr"
proof -
  let ?c = "length ls div 2 ^ s"
  have same: "mnode th (leaf_fn ls) s j = mnode th (leaf_fn (ls @ xs)) s j" if "j < ?c" for j
  proof (rule mnode_cong)
    fix i assume "i < (j + 1) * 2 ^ s"
    also have "\<dots> \<le> ?c * 2 ^ s" using that by (intro mult_right_mono) simp_all
    also have "\<dots> = length ls" using assms(1) by (metis add.right_neutral div_mult_mod_eq)
    finally show "leaf_fn ls i = leaf_fn (ls @ xs) i" by (simp add: leaf_fn_def nth_append)
  qed
  show ?thesis
    unfolding frontier_ok_def
  proof (intro conjI allI impI)
    show "length fr = h" using assms(2) by (simp add: frontier_ok_def)
    fix k assume k: "k < h" "odd (?c div 2 ^ k)"
    have "0 < ?c div 2 ^ k" using k(2) by (auto elim!: oddE)
    then have "(?c div 2 ^ k - 1 + 1) * 2 ^ k \<le> ?c" by (simp add: div_times_less_eq_dividend)
    then have "mnode th (mnode th (leaf_fn ls) s) k (?c div 2 ^ k - 1) =
        mnode th (mnode th (leaf_fn (ls @ xs)) s) k (?c div 2 ^ k - 1)"
      by (intro mnode_cong same) (rule order.strict_trans2)
    then show "fr ! k = mnode th (mnode th (leaf_fn (ls @ xs)) s) k (?c div 2 ^ k - 1)"
      using assms(2) k by (simp add: frontier_ok_def)
  qed
qed

lemma upto_merkle_root:
  assumes "th 0 0 = (0::'f::zero)" "length ls = c * 2 ^ s"
  shows "mnode th (upto_fn (mnode th (leaf_fn ls) s) c) h 0 = merkle_root th (s + h) ls"
proof -
  have "upto_fn (mnode th (leaf_fn ls) s) c = mnode th (leaf_fn ls) s"
  proof
    fix i
    show "upto_fn (mnode th (leaf_fn ls) s) c i = mnode th (leaf_fn ls) s i"
    proof (cases "i < c")
      case False
      have "mnode th (leaf_fn ls) s i = 0"
        using assms(1)
      proof (rule mnode_zero_range)
        fix j assume "i * 2 ^ s \<le> j"
        moreover have "c * 2 ^ s \<le> i * 2 ^ s" using False by (intro mult_right_mono) simp_all
        ultimately have "length ls \<le> j" using assms(2) by linarith
        then show "leaf_fn ls j = 0" by (simp add: leaf_fn_def)
      qed
      then show ?thesis using False by (simp add: upto_fn_def)
    qed (simp add: upto_fn_def)
  qed
  then show ?thesis by (simp add: mnode_compose merkle_root_def)
qed

text \<open>A new tree in an empty database.\<close>

lemma new_append_only_tree_inv:
  assumes "faults w = []" "ao_metadata w = None" "ao_frontier w = None"
  obtains w' where "new_append_only_tree show_f h s w = (Inr (), w')" "faults w' = []" "ao_inv th show_f h s [] w'"
proof -
  have "frontier_ok th h (mnode th (leaf_fn []) s) 0 (replicate h 0)" by (simp add: frontier_ok_def)
  then have "\<exists>fr. replicate h (to_string_rep show_f 0) = map (to_string_rep show_f) fr \<and>
      frontier_ok th h (mnode th (leaf_fn []) s) 0 fr"
    by (intro exI [of _ "replicate h 0"]) simp
  then show thesis
    using assms that by (simp add: new_append_only_tree_def bindM_def db_insert_ok ao_inv_def)
qed

text \<open>The run of an append on a stored tree, up to the loop over the batches.\<close>

lemma ao_append_unfold:
  assumes "text_ok show_f parse_f" "faults w = []"
    "ao_metadata w = Some \<lparr>tree_height = h, sub_tree_height = s, sub_tree_count = c, root = 0\<rparr>"
    "ao_frontier w = Some (map (to_string_rep show_f) fr)" "length fr = h"
    "length leaves mod 2 ^ s = 0" "leaves \<noteq> []" "c < 2 ^ h"
  shows "ao_append_sub_trees th show_f parse_f leaves upd w =
    (case ao_loop th h s (chunks (2 ^ s) leaves) (c, fr, 0) of
       None \<Rightarrow> (Inl MerklePanic, w)
     | Some (c', fr', r) \<Rightarrow>
         (Inr r, if upd then w\<lparr>ao_metadata := Some \<lparr>tree_height = h, sub_tree_height = s, sub_tree_count = c', root = 0\<rparr>,
                               ao_frontier := Some (map (to_string_rep show_f) fr')\<rparr> else w))"
  using assms
  by (auto simp: ao_append_sub_trees_def bindM_def db_read_ok db_write_ok parse_frontier_text
      returnM_def throwM_def okM_def split: option.splits)

lemma ao_append_sub_trees_inv:
  assumes "th 0 0 = 0" "text_ok show_f parse_f" "faults w = []" "ao_inv th show_f h s ls w"
    "length leaves mod 2 ^ s = 0" "leaves \<noteq> []" "length (ls @ leaves) < 2 ^ (s + h)"
  obtains w' where
    "ao_append_sub_trees th show_f parse_f leaves True w = (Inr (merkle_root th (s + h) (ls @ leaves)), w')"
    "ao_append_sub_trees th show_f parse_f leaves False w = (Inr (merkle_root th (s + h) (ls @ leaves)), w)"
    "faults w' = []" "ao_inv th show_f h s (ls @ leaves) w'"
proof -
  let ?c = "length ls div 2 ^ s" and ?n = "length leaves div 2 ^ s"
  let ?f = "mnode th (leaf_fn (ls @ leaves)) s"
  have ls: "length ls mod 2 ^ s = 0" using assms(4) by (simp add: ao_inv_def)
  have lsc: "length ls = ?c * 2 ^ s" using ls by (metis add.right_neutral div_mult_mod_eq)
  have lvc: "length leaves = ?n * 2 ^ s" using assms(5) by (metis add.right_neutral div_mult_mod_eq)
  have len: "length (ls @ leaves) = (?c + ?n) * 2 ^ s"
    by (simp only: length_append distrib_right lsc [symmetric] lvc [symmetric])
  have "(?c + ?n) * 2 ^ s < 2 ^ h * 2 ^ s" using assms(7) len by (simp add: power_add mult.commute)
  then have room: "?c + ?n < 2 ^ h" by (rule mult_right_less_imp_less) simp
  obtain fr where fr: "ao_frontier w = Some (map (to_string_rep show_f) fr)" "frontier_ok th h ?f ?c fr"
    using assms(4) frontier_ok_append [OF ls] unfolding ao_inv_def by blast
  have bs: "length (chunks (2 ^ s) leaves) = ?n" by (rule length_chunks) (simp_all add: assms(5))
  have ne: "chunks (2 ^ s) leaves \<noteq> []" using assms(6) by (simp add: chunks_Cons)
  have each: "length (chunks (2 ^ s) leaves ! i) \<le> 2 ^ s \<and>
      merkle_root th s (chunks (2 ^ s) leaves ! i) = ?f (?c + i)" if "i < length (chunks (2 ^ s) leaves)" for i
    using chunk_root [OF lsc assms(5)] chunk_len [OF _ assms(5)] that bs by simp
  obtain fr' where fr':
    "ao_loop th h s (chunks (2 ^ s) leaves) (?c, fr, 0) =
       Some (?c + ?n, fr', mnode th (upto_fn ?f (?c + ?n)) h 0)" "frontier_ok th h ?f (?c + ?n) fr'"
    using ao_loop_ok [OF assms(1) fr(2) _ ne each, of 0] bs room by auto
  have root: "mnode th (upto_fn ?f (?c + ?n)) h 0 = merkle_root th (s + h) (ls @ leaves)"
    by (rule upto_merkle_root [where th = th and ls = "ls @ leaves" and c = "?c + ?n" and s = s, OF assms(1) len])
  have md: "ao_metadata w = Some \<lparr>tree_height = h, sub_tree_height = s, sub_tree_count = ?c, root = 0\<rparr>"
    using assms(4) by (simp add: ao_inv_def)
  have "length fr = h" "?c < 2 ^ h" using fr(2) room by (simp_all add: frontier_ok_def)
  note run = ao_append_unfold [OF assms(2,3) md fr(1) this(1) assms(5,6) this(2), of th]
  let ?w = "w\<lparr>ao_metadata := Some \<lparr>tree_height = h, sub_tree_height = s, sub_tree_count = ?c + ?n, root = 0\<rparr>,
    ao_frontier := Some (map (to_string_rep show_f) fr')\<rparr>"
  have "length (ls @ leaves) mod 2 ^ s = 0" "length (ls @ leaves) div 2 ^ s = ?c + ?n"
    using len by simp_all
  then have "ao_inv th show_f h s (ls @ leaves) ?w" using fr'(2) by (auto simp: ao_inv_def)
  moreover have "faults ?w = []" using assms(3) by simp
  ultimately show thesis using that [of ?w] run [of True] run [of False] fr'(1) root by simp
qed

section \<open>Properties\<close>

text \<open>Two text forms for the witnesses: a number in unary.\<close>

definition unary :: "nat \<Rightarrow> string" where
  "unary n = replicate n CHR ''1''"

definition parse_unary :: "string \<Rightarrow> nat option" where
  "parse_unary s = (if s = ''0'' then Some 0 else Some (length s))"

lemma text_ok_unary: "text_ok unary parse_unary"
proof -
  have "replicate n CHR ''1'' \<noteq> ''0''" for n by (cases n) simp_all
  then show ?thesis by (simp add: text_ok_def unary_def parse_unary_def)
qed

definition ao_example :: "nat ao_db" where
  "ao_example = \<lparr>faults = [],
     ao_metadata = Some \<lparr>tree_height = 2, sub_tree_height = 1, sub_tree_count = 0, root = 0\<rparr>,
     ao_frontier = Some [''0'', ''0'']\<rparr>"

lemma faults_ao_example: "faults ao_example = []"
  by (simp add: ao_example_def)

lemma ao_example_inv: "ao_inv th unary 2 1 [] ao_example"
  by (auto simp: ao_inv_def ao_example_def frontier_ok_def to_string_rep_def intro!: exI [of _ "[0, 0]"])

text \<open>Appending subtrees to an append-only tree that holds the leaves \<open>ls\<close> returns the Merkle root of
  all the leaves, whether or not the tree is updated; with \<open>update_tree\<close> the stored frontier is that of
  the longer list, without it nothing changes.\<close>

theorem append_only_root:
  assumes "th 0 0 = 0" "text_ok show_f parse_f" "faults w = []" "ao_inv th show_f h s ls w"
    "length leaves mod 2 ^ s = 0" "leaves \<noteq> []" "length (ls @ leaves) < 2 ^ (s + h)"
  shows "fst (ao_append_sub_trees th show_f parse_f leaves upd w) = Inr (merkle_root th (s + h) (ls @ leaves)) \<and>
    (if upd then ao_inv th show_f h s (ls @ leaves) (snd (ao_append_sub_trees th show_f parse_f leaves upd w))
     else snd (ao_append_sub_trees th show_f parse_f leaves upd w) = w)"
  by (cases upd; rule ao_append_sub_trees_inv [OF assms]; simp)

theorem append_only_root_witness:
  "fst (ao_append_sub_trees (\<lambda>a b. 2 * a + 3 * b) unary parse_unary [5, 7, 0, 1] True ao_example) =
     Inr (merkle_root (\<lambda>a b. 2 * a + 3 * b) (1 + 2) ([] @ [5, 7, 0, 1 :: nat]))"
  by (rule append_only_root [where upd = True, THEN conjunct1])
    (simp_all add: text_ok_unary ao_example_inv [simplified] faults_ao_example)

text \<open>Appending the subtrees that would fill the last position of the tree panics (the frontier has no
  entry for the index the last position asks for), so a tree of height \<open>h\<close> never holds \<open>2 ^ h\<close> subtrees and
  \<open>TreeIsFull\<close> is never the answer.\<close>

theorem append_only_last_panics:
  assumes "th 0 0 = 0" "text_ok show_f parse_f" "faults w = []" "ao_inv th show_f h s ls w"
    "length leaves mod 2 ^ s = 0" "length ls < 2 ^ (s + h)" "2 ^ (s + h) \<le> length (ls @ leaves)"
  shows "ao_append_sub_trees th show_f parse_f leaves upd w = (Inl MerklePanic, w)"
proof -
  let ?c = "length ls div 2 ^ s" and ?n = "length leaves div 2 ^ s"
  let ?f = "mnode th (leaf_fn (ls @ leaves)) s"
  have ls: "length ls mod 2 ^ s = 0" using assms(4) by (simp add: ao_inv_def)
  have lsc: "length ls = ?c * 2 ^ s" using ls by (metis add.right_neutral div_mult_mod_eq)
  have lvc: "length leaves = ?n * 2 ^ s" using assms(5) by (metis add.right_neutral div_mult_mod_eq)
  have "?c * 2 ^ s < 2 ^ h * 2 ^ s" using assms(6) lsc by (simp add: power_add mult.commute)
  then have c: "?c < 2 ^ h" by (rule mult_right_less_imp_less) simp
  have "length (ls @ leaves) = (?c + ?n) * 2 ^ s"
    by (simp only: length_append distrib_right lsc [symmetric] lvc [symmetric])
  then have "2 ^ h * 2 ^ s \<le> (?c + ?n) * 2 ^ s" using assms(7) by (simp add: power_add mult.commute)
  then have full: "2 ^ h \<le> ?c + ?n" by (rule mult_right_le_imp_le) simp
  have ne: "leaves \<noteq> []" using assms(6,7) by auto
  have bs: "length (chunks (2 ^ s) leaves) = ?n" by (rule length_chunks) (simp_all add: assms(5))
  obtain fr where fr: "ao_frontier w = Some (map (to_string_rep show_f) fr)" "frontier_ok th h ?f ?c fr"
    using assms(4) frontier_ok_append [OF ls] unfolding ao_inv_def by blast
  have "length (chunks (2 ^ s) leaves ! i) \<le> 2 ^ s \<and>
      merkle_root th s (chunks (2 ^ s) leaves ! i) = ?f (?c + i)" if "i < length (chunks (2 ^ s) leaves)" for i
    using chunk_root [OF lsc assms(5)] chunk_len [OF _ assms(5)] that bs by simp
  then have "ao_loop th h s (chunks (2 ^ s) leaves) (?c, fr, 0) = None"
    using full bs by (intro ao_loop_full [OF assms(1) fr(2) c]) simp_all
  moreover have "ao_metadata w = Some \<lparr>tree_height = h, sub_tree_height = s, sub_tree_count = ?c, root = 0\<rparr>"
    using assms(4) by (simp add: ao_inv_def)
  moreover have "length fr = h" using fr(2) by (simp add: frontier_ok_def)
  ultimately show ?thesis using ao_append_unfold [OF assms(2,3) _ fr(1) _ assms(5) ne c] by simp
qed

theorem append_only_last_panics_witness:
  "ao_append_sub_trees (\<lambda>a b. 2 * a + 3 * b) unary parse_unary [1, 2, 3, 4, 5, 6, 7, 8] True ao_example =
     (Inl MerklePanic, ao_example)"
  by (rule append_only_last_panics [where h = 2 and s = 1 and ls = "[]"])
    (simp_all add: text_ok_unary ao_example_inv [simplified] faults_ao_example)

end
