(* ===== verification/Field.thy ===== *)
theory Field
  imports Prelude "HOL-Library.Word"
begin

text \<open>
  The scalar field of BN254, \<open>ark_bn254::Fr\<close> (called \<open>Fr254\<close> in the sources), as the integers below
  its modulus. The commitments, nullifiers, keys, values and tree nodes of the program are elements of
  this field. Only the operations the modelled code performs are given: zero, one, addition,
  subtraction, the order of the canonical representatives (the \<open>Ord\<close> instance of arkworks) and
  the conversion from an integer (which reduces).
\<close>

definition fr_modulus :: nat where
  "fr_modulus = 21888242871839275222246405745257275088548364400416034343698204186575808495617"

typedef fr254 = "{n :: nat. n < fr_modulus}" morphisms fr_val Abs_fr
  by (rule exI [of _ 0]) (simp add: fr_modulus_def)

text \<open>\<open>Fr254::from\<close> on an unsigned integer.\<close>

definition fr :: "nat \<Rightarrow> fr254" where
  "fr n = Abs_fr (n mod fr_modulus)"

lemma fr_modulus_pos [simp]: "0 < fr_modulus"
  by (simp add: fr_modulus_def)

lemma fr_val_less [simp]: "fr_val x < fr_modulus"
  using fr_val [of x] by simp

lemma fr_val_fr [simp]: "fr_val (fr n) = n mod fr_modulus"
  by (simp add: fr_def Abs_fr_inverse)

lemma fr_fr_val [simp]: "fr (fr_val x) = x"
  by (simp add: fr_def fr_val_inverse)

lemma fr_val_inject_iff: "x = y \<longleftrightarrow> fr_val x = fr_val y"
  by (simp add: fr_val_inject)

lemma fr_eq_iff: "fr m = fr n \<longleftrightarrow> m mod fr_modulus = n mod fr_modulus"
  by (simp add: fr_val_inject_iff)

instantiation fr254 :: "{zero, one, plus, minus, uminus}"
begin

definition zero_fr254 :: fr254 where "0 = fr 0"

definition one_fr254 :: fr254 where "1 = fr 1"

definition plus_fr254 :: "fr254 \<Rightarrow> fr254 \<Rightarrow> fr254" where
  "x + y = fr (fr_val x + fr_val y)"

definition uminus_fr254 :: "fr254 \<Rightarrow> fr254" where
  "- x = fr (fr_modulus - fr_val x)"

definition minus_fr254 :: "fr254 \<Rightarrow> fr254 \<Rightarrow> fr254" where
  "x - y = fr (fr_val x + (fr_modulus - fr_val y))"

instance ..

end

instantiation fr254 :: linorder
begin

definition less_eq_fr254 :: "fr254 \<Rightarrow> fr254 \<Rightarrow> bool" where
  "x \<le> y \<longleftrightarrow> fr_val x \<le> fr_val y"

definition less_fr254 :: "fr254 \<Rightarrow> fr254 \<Rightarrow> bool" where
  "x < y \<longleftrightarrow> fr_val x < fr_val y"

instance
  by standard (auto simp: less_eq_fr254_def less_fr254_def fr_val_inject_iff)

end

lemma fr_val_zero [simp]: "fr_val 0 = 0"
  by (simp add: zero_fr254_def)

lemma fr_val_one [simp]: "fr_val 1 = 1"
  by (simp add: one_fr254_def fr_modulus_def)

lemma fr_zero [simp]: "fr 0 = 0"
  by (simp add: zero_fr254_def)

lemma fr_val_eq_0_iff [simp]: "fr_val x = 0 \<longleftrightarrow> x = 0"
  by (simp add: fr_val_inject_iff)

lemma fr_least [simp]: "(0::fr254) \<le> x"
  by (simp add: less_eq_fr254_def)

lemma fr_not_less_zero [simp]: "\<not> x < (0::fr254)"
  by (simp add: less_fr254_def)

lemma fr_neq_zero: "x \<noteq> (0::fr254) \<longleftrightarrow> 0 < x"
  by (auto simp: less_fr254_def intro: gr0I)

instance fr254 :: ab_semigroup_add
  by standard (simp_all add: plus_fr254_def fr_val_inject_iff mod_simps ac_simps)

instance fr254 :: comm_monoid_add
  by standard (simp add: plus_fr254_def)

lemma fr_val_plus: "fr_val (x + y) = (fr_val x + fr_val y) mod fr_modulus"
  by (simp add: plus_fr254_def)

lemma fr_val_minus: "fr_val (x - y) = (fr_val x + (fr_modulus - fr_val y)) mod fr_modulus"
  by (simp add: minus_fr254_def)

lemma fr_val_minus_le: "y \<le> x \<Longrightarrow> fr_val (x - y) = fr_val x - fr_val y"
proof -
  assume "y \<le> x"
  then have le: "fr_val y \<le> fr_val x" by (simp add: less_eq_fr254_def)
  have ymod: "fr_val y \<le> fr_modulus" by (simp add: less_imp_le)
  have "fr_val x + (fr_modulus - fr_val y) = fr_modulus + (fr_val x - fr_val y)"
    using le ymod by linarith
  moreover have "fr_val x - fr_val y < fr_modulus"
    using fr_val_less [of x] by (rule order.strict_trans1 [rotated]) simp
  ultimately show ?thesis by (simp add: fr_val_minus)
qed

lemma fr_add_diff: "y + (x - y) = (x :: fr254)"
proof -
  have ymod: "fr_val y \<le> fr_modulus" by (simp add: less_imp_le)
  have "fr_val y + (fr_val x + (fr_modulus - fr_val y)) = fr_val x + fr_modulus"
    using ymod by linarith
  then have "(fr_val y + (fr_val x + (fr_modulus - fr_val y)) mod fr_modulus) mod fr_modulus = fr_val x"
    by (simp add: mod_simps)
  then show ?thesis
    by (simp add: fr_val_inject_iff fr_val_plus fr_val_minus)
qed

end
