(* ===== verification/Leaf_Chain.thy ===== *)
theory Leaf_Chain
  imports Field
begin

text \<open>
  The sorted linked list an indexed Merkle tree keeps over its values, independently of how it is stored:
  a finite map from a value to its index, the index of the next greater value and that value (\<open>0\<close> and \<open>0\<close>
  for the greatest). The Mongo collection of indexed leaves and the in-memory nullifier database both
  present one of these; \<open>leaf_store\<close> is the interface they share.
\<close>

type_synonym entry = "nat \<times> nat \<times> fr254"

definition entry_id :: "entry \<Rightarrow> nat" where "entry_id e = fst e"
definition entry_next_index :: "entry \<Rightarrow> nat" where "entry_next_index e = fst (snd e)"
definition entry_next_value :: "entry \<Rightarrow> fr254" where "entry_next_value e = snd (snd e)"

lemmas entry_sel [simp] = entry_id_def entry_next_index_def entry_next_value_def

text \<open>The entry of \<open>v\<close> names the least greater value, or nothing when there is none.\<close>

definition next_ok :: "(fr254 \<rightharpoonup> entry) \<Rightarrow> fr254 \<Rightarrow> entry \<Rightarrow> bool" where
  "next_ok E v e \<longleftrightarrow>
     (if entry_next_value e = 0 then entry_next_index e = 0 \<and> (\<forall>u\<in>dom E. u \<le> v)
      else v < entry_next_value e \<and> (\<forall>u\<in>dom E. v < u \<longrightarrow> entry_next_value e \<le> u) \<and>
           (\<exists>e'. E (entry_next_value e) = Some e' \<and> entry_id e' = entry_next_index e))"

definition chain :: "(fr254 \<rightharpoonup> entry) \<Rightarrow> bool" where
  "chain E \<longleftrightarrow> finite (dom E) \<and> (\<exists>e. E 0 = Some e \<and> entry_id e = 0) \<and>
     (\<forall>v e. E v = Some e \<longrightarrow> next_ok E v e) \<and> inj_on (\<lambda>v. entry_id (the (E v))) (dom E)"

lemma chain_next: "chain E \<Longrightarrow> E v = Some e \<Longrightarrow> next_ok E v e"
  unfolding chain_def by blast

text \<open>The indices of the values determine the whole list.\<close>

definition place_of :: "(fr254 \<rightharpoonup> entry) \<Rightarrow> (fr254 \<rightharpoonup> nat)" where
  "place_of E v = map_option entry_id (E v)"

lemma dom_place_of: "dom (place_of E) = dom E"
  by (auto simp: place_of_def)

lemma chain_unique:
  assumes "chain E" "chain F" "place_of E = place_of F"
  shows "E = F"
proof
  fix v
  have d: "dom E = dom F" using dom_place_of assms(3) by metis
  show "E v = F v"
  proof (cases "E v")
    case None
    then show ?thesis using d by (metis domIff)
  next
    case (Some e)
    then obtain f where f: "F v = Some f" using d by (metis domD domI)
    obtain i ni nv where e: "e = (i, ni, nv)" by (cases e)
    obtain j nj nw where fe: "f = (j, nj, nw)" by (cases f)
    have ids: "i = j" using fun_cong [OF assms(3), of v] Some f e fe by (simp add: place_of_def)
    have E: "next_ok E v (i, ni, nv)" using chain_next [OF assms(1) Some] e by simp
    have F: "next_ok F v (j, nj, nw)" using chain_next [OF assms(2) f] fe by simp
    have in_dom: "nv \<noteq> 0 \<Longrightarrow> nv \<in> dom E \<and> v < nv" "nw \<noteq> 0 \<Longrightarrow> nw \<in> dom E \<and> v < nw"
      using E F d by (auto simp: next_ok_def)
    have nv: "nv = nw"
    proof (cases "nv = 0")
      case True
      then have "\<forall>u\<in>dom E. u \<le> v" using E by (simp add: next_ok_def)
      then show ?thesis using in_dom(2) True leD by blast
    next
      case False
      have "nw \<noteq> 0"
      proof
        assume "nw = 0"
        then have "\<forall>u\<in>dom E. u \<le> v" using F d by (simp add: next_ok_def)
        then show False using in_dom(1) False leD by blast
      qed
      then have "nw \<le> nv" "nv \<le> nw" using False in_dom E F d by (auto simp: next_ok_def)
      then show ?thesis by simp
    qed
    have "ni = nj"
    proof (cases "nv = 0")
      case True
      then show ?thesis using E F nv by (simp add: next_ok_def)
    next
      case False
      then have "place_of E nv = Some ni" "place_of F nv = Some nj" using E F nv by (auto simp: next_ok_def place_of_def)
      then show ?thesis using assms(3) by simp
    qed
    then show ?thesis using Some f e fe ids nv by simp
  qed
qed

text \<open>\<open>is_low E v u\<close>: \<open>u\<close> is the greatest stored value below \<open>v\<close>.\<close>

definition is_low :: "(fr254 \<rightharpoonup> entry) \<Rightarrow> fr254 \<Rightarrow> fr254 \<Rightarrow> bool" where
  "is_low E v u \<longleftrightarrow> u \<in> dom E \<and> u < v \<and> (\<forall>x\<in>dom E. x < v \<longrightarrow> x \<le> u)"

lemma is_low_unique: "is_low E v u \<Longrightarrow> is_low E v u' \<Longrightarrow> u = u'"
  by (auto simp: is_low_def intro: order.antisym)

lemma is_low_ex: "chain E \<Longrightarrow> v \<noteq> 0 \<Longrightarrow> \<exists>u. is_low E v u"
proof -
  assume c: "chain E" and v: "v \<noteq> 0"
  let ?S = "{x \<in> dom E. x < v}"
  have S: "finite ?S" "0 \<in> ?S" using c v by (auto simp: chain_def fr_neq_zero)
  have "Max ?S \<in> ?S" using S by (intro Max_in) blast+
  moreover have "\<forall>x\<in>?S. x \<le> Max ?S" using S(1) by simp
  ultimately have "Max ?S \<in> ?S" "\<forall>x\<in>?S. x \<le> Max ?S" by blast+
  then show ?thesis unfolding is_low_def by blast
qed

text \<open>The low leaf of a value that is not stored skips over it.\<close>

lemma low_skips:
  assumes "chain E" "is_low E v u" "v \<notin> dom E" "E u = Some e"
  shows "u < v \<and> (entry_next_value e = 0 \<or> v < entry_next_value e)"
proof -
  have ok: "next_ok E u e" by (rule chain_next [OF assms(1,4)])
  have u: "u < v" using assms(2) by (simp add: is_low_def)
  have "v < entry_next_value e" if "entry_next_value e \<noteq> 0"
  proof -
    have n: "entry_next_value e \<in> dom E" "u < entry_next_value e"
      using ok that by (auto simp: next_ok_def split: if_splits)
    have "\<not> entry_next_value e < v" using assms(2) n by (auto simp: is_low_def)
    moreover have "entry_next_value e \<noteq> v" using n(1) assms(3) by blast
    ultimately show ?thesis by auto
  qed
  then show ?thesis using u by blast
qed

text \<open>Linking a new value behind its low leaf.\<close>

definition link :: "(fr254 \<rightharpoonup> entry) \<Rightarrow> nat \<Rightarrow> fr254 \<Rightarrow> fr254 \<Rightarrow> (fr254 \<rightharpoonup> entry)" where
  "link E idx v u = (case E u of
     None \<Rightarrow> E
   | Some (i, ni, nv) \<Rightarrow> E(v \<mapsto> (idx, ni, nv), u \<mapsto> (i, idx, v)))"

lemma link_dom: "is_low E v u \<Longrightarrow> dom (link E idx v u) = insert v (dom E)"
  by (auto simp: is_low_def link_def split: option.splits prod.splits if_splits)

lemma chain_link:
  assumes "chain E" "v \<noteq> 0" "v \<notin> dom E" "is_low E v u" "\<forall>x e. E x = Some e \<longrightarrow> entry_id e \<noteq> idx"
  shows "chain (link E idx v u)"
proof -
  obtain i ni nv where e: "E u = Some (i, ni, nv)" using assms(4) by (auto simp: is_low_def)
  have uv: "u < v" and low: "\<And>x. x \<in> dom E \<Longrightarrow> x < v \<Longrightarrow> x \<le> u" using assms(4) by (auto simp: is_low_def)
  have skip: "nv = 0 \<or> v < nv" using low_skips [OF assms(1,4,3) e] by simp
  have oku: "next_ok E u (i, ni, nv)" by (rule chain_next [OF assms(1) e])
  define F where "F = E(v \<mapsto> (idx, ni, nv), u \<mapsto> (i, idx, v))"
  have F: "link E idx v u = F" by (simp add: link_def e F_def)
  have dF: "dom F = insert v (dom E)" using link_dom [OF assms(4), of idx] F by simp
  have zero: "\<exists>e. F 0 = Some e \<and> entry_id e = 0"
  proof -
    obtain e0 where "E 0 = Some e0" "entry_id e0 = 0" using assms(1) unfolding chain_def by blast
    then show ?thesis using assms(2) e by (cases "u = 0") (auto simp: F_def)
  qed
  have keep: "\<exists>e'. F x = Some e' \<and> entry_id e' = k" if "\<exists>e'. E x = Some e' \<and> entry_id e' = k" for x k
    using that e assms(3) by (auto simp: F_def)
  have "next_ok F x y" if Fx: "F x = Some y" for x y
  proof -
    consider "x = u" | "x = v" "x \<noteq> u" | "x \<noteq> u" "x \<noteq> v" by blast
    then show ?thesis
    proof cases
      case 1
      then have y: "y = (i, idx, v)" using Fx by (simp add: F_def)
      have "v \<le> z" if "z \<in> dom F" "u < z" for z
        using that low [of z] dF by (metis insertE leD leI order.refl)
      moreover have "F v = Some (idx, ni, nv)" using uv by (auto simp: F_def)
      ultimately show ?thesis using 1 y uv assms(2) by (simp add: next_ok_def)
    next
      case 2
      then have y: "y = (idx, ni, nv)" using Fx by (simp add: F_def)
      show ?thesis
      proof (cases "nv = 0")
        case True
        then have "ni = 0" "\<forall>z\<in>dom E. z \<le> u" using oku by (simp_all add: next_ok_def)
        moreover have "\<forall>z\<in>dom F. z \<le> v"
          using calculation(2) uv unfolding dF by (auto intro: order.trans less_imp_le)
        ultimately show ?thesis using True y 2 by (simp add: next_ok_def)
      next
        case False
        then have n: "\<forall>z\<in>dom E. u < z \<longrightarrow> nv \<le> z" "\<exists>e'. E nv = Some e' \<and> entry_id e' = ni" "v < nv"
          using oku skip by (auto simp: next_ok_def)
        have "nv \<le> z" if "z \<in> dom F" "v < z" for z
          using that n(1) uv dF by (metis insertE less_irrefl order.strict_trans)
        then show ?thesis using keep [OF n(2)] n(3) False y 2 by (simp add: next_ok_def)
      qed
    next
      case 3
      then have Ex: "E x = Some y" using Fx by (simp add: F_def)
      then have ok: "next_ok E x y" by (rule chain_next [OF assms(1)])
      have xd: "x \<in> dom E" using Ex by blast
      show ?thesis
      proof (cases "entry_next_value y = 0")
        case True
        then have all: "\<forall>z\<in>dom E. z \<le> x" "entry_next_index y = 0" using ok by (auto simp: next_ok_def)
        have "u \<le> x" using all(1) e by blast
        then have "\<not> x < v" using low [OF xd] 3(1) by auto
        then show ?thesis using True all dF by (auto simp: next_ok_def)
      next
        case False
        then have n: "x < entry_next_value y" "\<forall>z\<in>dom E. x < z \<longrightarrow> entry_next_value y \<le> z"
          "\<exists>e'. E (entry_next_value y) = Some e' \<and> entry_id e' = entry_next_index y"
          using ok by (auto simp: next_ok_def)
        have "entry_next_value y \<le> v" if "x < v"
        proof -
          have "x < u" using low [OF xd that] 3(1) by auto
          then have "entry_next_value y \<le> u" using n(2) e by blast
          then show ?thesis using uv by simp
        qed
        then show ?thesis using n keep [OF n(3)] False dF by (auto simp: next_ok_def)
      qed
    qed
  qed
  moreover have "inj_on (\<lambda>x. entry_id (the (F x))) (dom F)"
  proof (rule inj_onI)
    fix x z assume xz: "x \<in> dom F" "z \<in> dom F" "entry_id (the (F x)) = entry_id (the (F z))"
    have id: "entry_id (the (F y)) = (if y = v then idx else entry_id (the (E y)))" if "y \<in> dom F" for y
      using that e uv by (auto simp: F_def)
    have old: "entry_id (the (E y)) \<noteq> idx" if "y \<in> dom E" for y using that assms(5) unfolding dom_def by force
    have inj: "inj_on (\<lambda>x. entry_id (the (E x))) (dom E)" using assms(1) by (simp add: chain_def)
    show "x = z"
    proof (cases "x = v \<or> z = v")
      case True
      then show ?thesis
        using xz(3) old [of x] old [of z] xz(1,2) unfolding dF id [OF xz(1)] id [OF xz(2)]
        by (metis insertE)
    next
      case False
      then have "x \<in> dom E" "z \<in> dom E" "entry_id (the (E x)) = entry_id (the (E z))"
        using xz unfolding dF id [OF xz(1)] id [OF xz(2)]
        by (simp_all del: entry_sel)
      then show ?thesis using inj_onD [OF inj] by blast
    qed
  qed
  moreover have "finite (dom F)" using assms(1) dF by (simp add: chain_def)
  ultimately show ?thesis using zero unfolding F chain_def by blast
qed

definition chain0 :: "fr254 \<rightharpoonup> entry" where
  "chain0 = [0 \<mapsto> (0, 0, 0)]"

lemma chain_chain0: "chain chain0"
  by (simp add: chain_def chain0_def next_ok_def)

section \<open>The interface of a store of leaves\<close>

text \<open>\<open>view\<close> is the abstraction; \<open>fresh w i\<close> says that the next leaf may get index \<open>i\<close>; \<open>low v w\<close> answers with
  the low leaf of \<open>v\<close> and its entry; \<open>store v i w\<close> links \<open>v\<close> in with index \<open>i\<close>.\<close>

locale leaf_store =
  fixes view :: "'s \<Rightarrow> (fr254 \<rightharpoonup> entry)" and invar :: "'s \<Rightarrow> bool" and fresh :: "'s \<Rightarrow> nat \<Rightarrow> bool"
    and low :: "fr254 \<Rightarrow> 's \<Rightarrow> (fr254 \<times> entry) option" and store :: "fr254 \<Rightarrow> nat \<Rightarrow> 's \<Rightarrow> 's option"
  assumes low_law: "invar w \<Longrightarrow> chain (view w) \<Longrightarrow> v \<noteq> 0 \<Longrightarrow> v \<notin> dom (view w) \<Longrightarrow>
      \<exists>u e. low v w = Some (u, e) \<and> is_low (view w) v u \<and> view w u = Some e"
    and fresh_law: "invar w \<Longrightarrow> fresh w i \<Longrightarrow> view w x = Some e \<Longrightarrow> entry_id e \<noteq> i"
    and store_new: "invar w \<Longrightarrow> chain (view w) \<Longrightarrow> v \<noteq> 0 \<Longrightarrow> v \<notin> dom (view w) \<Longrightarrow> fresh w i \<Longrightarrow>
      \<exists>w' u. store v i w = Some w' \<and> invar w' \<and> is_low (view w) v u \<and> view w' = link (view w) i v u"
    and store_old: "invar w \<Longrightarrow> v \<in> dom (view w) \<Longrightarrow> store v i w = None"
begin

lemma store_chain:
  assumes "invar w" "chain (view w)" "v \<noteq> 0" "v \<notin> dom (view w)" "fresh w i"
  obtains w' u where "store v i w = Some w'" "invar w'" "chain (view w')" "is_low (view w) v u"
    "view w' = link (view w) i v u" "dom (view w') = insert v (dom (view w))"
proof -
  obtain w' u where w': "store v i w = Some w'" "invar w'" "is_low (view w) v u" "view w' = link (view w) i v u"
    using store_new [OF assms] by blast
  have "\<forall>x e. view w x = Some e \<longrightarrow> entry_id e \<noteq> i" using fresh_law [OF assms(1,5)] by blast
  then have "chain (view w')" using chain_link [OF assms(2-4) w'(3)] w'(4) by simp
  then show thesis using that w' link_dom [OF w'(3)] by simp
qed

text \<open>The low leaf proves that a value is not stored.\<close>

lemma low_excludes:
  assumes "invar w" "chain (view w)" "v \<noteq> 0" "v \<notin> dom (view w)"
  obtains u e where "low v w = Some (u, e)" "view w u = Some e" "u < v"
    "entry_next_value e = 0 \<or> v < entry_next_value e"
  using low_law [OF assms] low_skips [OF assms(2) _ assms(4)] that by metis

end

end
