(* ===== verification/Nullifier_Db.thy ===== *)
theory Nullifier_Db
  imports Leaf_Chain "HOL-Library.AList"
begin

text \<open>
  \<open>nightfall_proposer/src/driven/in_memory_db.rs\<close>: the proposer's in-memory nullifier database, a
  \<open>HashMap\<close> from a nullifier to its entry (\<open>NullifierDBEntry\<close> of \<open>ports/db.rs\<close>). The map is an
  association list; the one operation that iterates over it (\<open>get_nullifier\<close> by next value) takes the first
  match.
\<close>

record NullifierDBEntry =
  null_value :: fr254
  null_index :: nat
  null_next_index :: fr254
  null_next_value :: fr254

definition null_default :: NullifierDBEntry where
  "null_default = \<lparr>null_value = 0, null_index = 0, null_next_index = 0, null_next_value = 0\<rparr>"

definition null_new :: "fr254 \<Rightarrow> nat \<Rightarrow> fr254 \<Rightarrow> fr254 \<Rightarrow> NullifierDBEntry" where
  "null_new v i ni nv = \<lparr>null_value = v, null_index = i, null_next_index = ni, null_next_value = nv\<rparr>"

type_synonym nullifier_map = "(fr254 \<times> NullifierDBEntry) list"

definition new_nullifier_db :: nullifier_map where
  "new_nullifier_db = AList.update 0 null_default []"

definition get_nullifier :: "nullifier_map \<Rightarrow> fr254 option \<Rightarrow> fr254 option \<Rightarrow> NullifierDBEntry option" where
  "get_nullifier db v next_v = (case (v, next_v) of
     (Some x, None) \<Rightarrow> map_of db x
   | (None, Some y) \<Rightarrow> map_option snd (find (\<lambda>(_, e). null_next_value e = y) db)
   | (Some x, Some y) \<Rightarrow> (case map_of db x of
        Some e \<Rightarrow> if null_next_value e = y then Some e else None
      | None \<Rightarrow> None)
   | (None, None) \<Rightarrow> None)"

definition max_opt :: "fr254 list \<Rightarrow> fr254 option" where
  "max_opt xs = (case xs of [] \<Rightarrow> None | x # ys \<Rightarrow> Some (foldl max x ys))"

definition get_low_nullifier :: "nullifier_map \<Rightarrow> fr254 \<Rightarrow> NullifierDBEntry option" where
  "get_low_nullifier db v = (case max_opt (filter (\<lambda>k. k < v) (map fst db)) of
     None \<Rightarrow> None
   | Some low \<Rightarrow> (case map_of db low of
        None \<Rightarrow> None
      | Some e \<Rightarrow> if v < null_next_value e \<or> null_next_value e = 0 then Some e else None))"

definition update_nullifier :: "nullifier_map \<Rightarrow> fr254 \<Rightarrow> fr254 \<Rightarrow> fr254 \<Rightarrow> unit option \<times> nullifier_map" where
  "update_nullifier db v ni nv = (case map_of db v of
     None \<Rightarrow> (None, db)
   | Some e \<Rightarrow> (Some (), AList.update v (null_new v (null_index e) ni nv) db))"

text \<open>The index of a new entry is the number of entries (\<open>as u32\<close>).\<close>

definition store_nullifier :: "nullifier_map \<Rightarrow> fr254 \<Rightarrow> unit option \<times> nullifier_map" where
  "store_nullifier db v =
     (if map_of db v \<noteq> None then (None, db)
      else (case get_low_nullifier db v of
        None \<Rightarrow> (None, db)
      | Some low \<Rightarrow>
          (let index = length db mod 2 ^ 32;
               entry = null_new v index (null_next_index low) (null_next_value low);
               val = map_of db v;
               db' = AList.update v entry db
           in if val \<noteq> None then (None, db')
              else update_nullifier db' (null_value low) (fr index) v)))"

section \<open>The map as a store of leaves\<close>

definition null_entry :: "NullifierDBEntry \<Rightarrow> entry" where
  "null_entry e = (null_index e, fr_val (null_next_index e), null_next_value e)"

definition null_view :: "nullifier_map \<Rightarrow> (fr254 \<rightharpoonup> entry)" where
  "null_view db v = map_option null_entry (map_of db v)"

text \<open>Keys agree with the entries and the indices are the positions \<open>0, 1, \<dots>\<close>, which fit in \<open>u32\<close>.\<close>

definition null_invar :: "nullifier_map \<Rightarrow> bool" where
  "null_invar db \<longleftrightarrow> distinct (map fst db) \<and> (\<forall>(k, e)\<in>set db. null_value e = k \<and> null_index e < length db) \<and>
     length db < 2 ^ 32"

definition null_low :: "fr254 \<Rightarrow> nullifier_map \<Rightarrow> (fr254 \<times> entry) option" where
  "null_low v db = map_option (\<lambda>e. (null_value e, null_entry e)) (get_low_nullifier db v)"

lemma dom_null_view: "dom (null_view db) = fst ` set db"
proof -
  have "dom (null_view db) = dom (map_of db)" by (auto simp: null_view_def dom_def)
  then show ?thesis by (simp add: dom_map_of_conv_image_fst)
qed

lemma max_opt_Some:
  "max_opt xs = Some m \<Longrightarrow> m \<in> set xs \<and> (\<forall>x\<in>set xs. x \<le> m)"
proof -
  have "foldl max x ys \<in> set (x # ys) \<and> (\<forall>z\<in>set (x # ys). z \<le> foldl max x ys)" for x and ys :: "fr254 list"
  proof (induction ys arbitrary: x)
    case (Cons y ys)
    show ?case using Cons [of "max x y"] by (auto simp: max_def split: if_splits)
  qed simp
  then show "max_opt xs = Some m \<Longrightarrow> m \<in> set xs \<and> (\<forall>x\<in>set xs. x \<le> m)"
    by (auto simp: max_opt_def split: list.splits)
qed

lemma max_opt_None: "max_opt xs = None \<longleftrightarrow> xs = []"
  by (simp add: max_opt_def split: list.split)

lemma get_low_nullifier_ok:
  assumes "null_invar db" "chain (null_view db)" "v \<noteq> 0" "v \<notin> dom (null_view db)"
  obtains e where "get_low_nullifier db v = Some e" "is_low (null_view db) v (null_value e)"
    "map_of db (null_value e) = Some e"
proof -
  obtain u where u: "is_low (null_view db) v u" using is_low_ex [OF assms(2,3)] by blast
  then have ud: "u \<in> fst ` set db" "u < v" by (auto simp: is_low_def dom_null_view)
  obtain m where m: "max_opt (filter (\<lambda>k. k < v) (map fst db)) = Some m"
    using ud max_opt_None by (cases "max_opt (filter (\<lambda>k. k < v) (map fst db))") (auto simp: filter_empty_conv)
  have lowm: "is_low (null_view db) v m" using max_opt_Some [OF m] by (auto simp: is_low_def dom_null_view)
  then obtain e where e: "map_of db m = Some e" by (auto simp: is_low_def null_view_def)
  have val: "null_value e = m" using map_of_SomeD [OF e] assms(1) by (auto simp: null_invar_def)
  have "null_view db m = Some (null_entry e)" using e by (simp add: null_view_def)
  from low_skips [OF assms(2) lowm assms(4) this]
  have "v < null_next_value e \<or> null_next_value e = 0" by (auto simp: null_entry_def)
  then have "get_low_nullifier db v = Some e" using m e by (simp add: get_low_nullifier_def)
  then show thesis using that lowm e val by simp
qed

definition null_store :: "fr254 \<Rightarrow> nat \<Rightarrow> nullifier_map \<Rightarrow> nullifier_map option" where
  "null_store v i db = (case store_nullifier db v of (Some _, db') \<Rightarrow> Some db' | (None, _) \<Rightarrow> None)"

text \<open>The database gives the next leaf the number of leaves as its index.\<close>

definition null_fresh :: "nullifier_map \<Rightarrow> nat \<Rightarrow> bool" where
  "null_fresh db i \<longleftrightarrow> i = length db \<and> Suc i < 2 ^ 32"

lemma fr_val_u32: "i < 2 ^ 32 \<Longrightarrow> fr_val (fr i) = i"
proof -
  have "(2::nat) ^ 32 < fr_modulus" by (simp add: fr_modulus_def)
  then show "i < 2 ^ 32 \<Longrightarrow> fr_val (fr i) = i" by simp
qed

lemma length_update_new: "k \<notin> fst ` set xs \<Longrightarrow> AList.update k v xs = xs @ [(k, v)]"
  by (induction xs) auto

lemma set_update_old:
  "distinct (map fst xs) \<Longrightarrow> k \<in> fst ` set xs \<Longrightarrow> set (AList.update k v xs) = insert (k, v) {p \<in> set xs. fst p \<noteq> k}"
  by (induction xs) (auto simp: image_iff)

lemma length_update_old: "k \<in> fst ` set xs \<Longrightarrow> length (AList.update k v xs) = length xs"
  by (induction xs) auto

lemma store_nullifier_new:
  assumes "null_invar db" "chain (null_view db)" "v \<noteq> 0" "v \<notin> dom (null_view db)" "null_fresh db i"
  obtains db' u where "store_nullifier db v = (Some (), db')" "null_invar db'" "is_low (null_view db) v u"
    "null_view db' = link (null_view db) i v u" "length db' = Suc (length db)"
proof -
  obtain e where e: "get_low_nullifier db v = Some e" "is_low (null_view db) v (null_value e)"
    "map_of db (null_value e) = Some e"
    by (rule get_low_nullifier_ok [OF assms(1-4)])
  let ?u = "null_value e"
  have i: "i = length db" "i < 2 ^ 32" "Suc i < 2 ^ 32" using assms(5) by (auto simp: null_fresh_def)
  have v: "v \<notin> fst ` set db" using assms(4) by (simp add: dom_null_view)
  have none: "map_of db v = None" using v by (simp add: map_of_eq_None_iff)
  have uv: "?u \<noteq> v" using e(2) by (auto simp: is_low_def)
  define new where "new = null_new v i (null_next_index e) (null_next_value e)"
  define upd where "upd = null_new ?u (null_index e) (fr i) v"
  define db1 where "db1 = db @ [(v, new)]"
  define db' where "db' = AList.update ?u upd db1"
  have m1: "AList.update v new db = db1" using v by (simp add: db1_def length_update_new)
  have g1: "map_of db1 ?u = Some e" using e(3) by (simp add: db1_def map_of_append)
  have imod: "length db mod 4294967296 = i" using i(1,2) by simp
  have run: "store_nullifier db v = (Some (), db')"
    by (simp add: store_nullifier_def Let_def imod none e(1) m1 [unfolded new_def] update_nullifier_def g1
        db'_def upd_def del: map_of_update)
  have ud: "?u \<in> fst ` set db1" using g1 by (metis domI dom_map_of_conv_image_fst)
  have d1: "distinct (map fst db1)" using assms(1) v by (simp add: db1_def null_invar_def)
  have len: "length db' = Suc (length db)" using length_update_old [OF ud] by (simp add: db'_def db1_def)
  have "(?u, e) \<in> set db" using e(3) by (rule map_of_SomeD)
  then have ie: "null_index e < length db" using assms(1) by (auto simp: null_invar_def)
  have "null_value y = k \<and> null_index y < length db'" if "(k, y) \<in> set db'" for k y
    using that assms(1) ie i(1) unfolding db'_def set_update_old [OF d1 ud] len [unfolded db'_def]
    by (auto simp: db1_def null_invar_def new_def upd_def null_new_def)
  then have inv: "null_invar db'"
    using d1 i(1,3) len by (auto simp: null_invar_def db'_def distinct_update)
  have fri: "i mod fr_modulus = i" using fr_val_u32 [OF i(2)] by simp
  have eu: "null_view db ?u = Some (null_index e, fr_val (null_next_index e), null_next_value e)"
    using e(3) by (simp add: null_view_def null_entry_def)
  have "null_view db' x = link (null_view db) i v ?u x" for x
  proof -
    have "null_view db' x = (if x = ?u then Some (null_index e, i, v)
        else if x = v then Some (i, fr_val (null_next_index e), null_next_value e) else null_view db x)"
      using none by (auto simp: null_view_def db'_def db1_def map_of_append upd_def new_def null_new_def null_entry_def fri
          map_add_def split: option.split)
    then show ?thesis by (simp add: link_def eu)
  qed
  then show thesis using that run inv e(2) len by blast
qed

interpretation hash_map: leaf_store null_view null_invar null_fresh null_low null_store
proof unfold_locales
  fix db :: nullifier_map and v i
  assume inv: "null_invar db"
  show "v \<in> dom (null_view db) \<Longrightarrow> null_store v i db = None"
    by (auto simp: null_store_def store_nullifier_def null_view_def)
  show "\<And>x e. null_fresh db i \<Longrightarrow> null_view db x = Some e \<Longrightarrow> entry_id e \<noteq> i"
    using inv by (auto simp: null_fresh_def null_view_def null_entry_def null_invar_def dest!: map_of_SomeD)
  assume c: "chain (null_view db)" and v: "v \<noteq> 0" "v \<notin> dom (null_view db)"
  show "\<exists>u e. null_low v db = Some (u, e) \<and> is_low (null_view db) v u \<and> null_view db u = Some e"
    by (rule get_low_nullifier_ok [OF inv c v]) (simp add: null_low_def null_view_def)
  assume fresh: "null_fresh db i"
  show "\<exists>w' u. null_store v i db = Some w' \<and> null_invar w' \<and> is_low (null_view db) v u \<and>
      null_view w' = link (null_view db) i v u"
    by (rule store_nullifier_new [OF inv c v fresh]) (auto simp: null_store_def)
qed

lemma new_nullifier_db_inv: "null_invar new_nullifier_db" "chain (null_view new_nullifier_db)" "length new_nullifier_db = 1"
proof -
  have "null_view new_nullifier_db = chain0"
    by (auto simp: null_view_def new_nullifier_db_def chain0_def null_default_def null_entry_def)
  then show "chain (null_view new_nullifier_db)" by (simp add: chain_chain0)
qed (simp_all add: null_invar_def new_nullifier_db_def null_default_def)

section \<open>Properties\<close>

text \<open>Storing a new nullifier in the in-memory database succeeds, adds exactly that nullifier, gives it the
  number of entries as its index and keeps the linked list sorted; storing one that is present (or zero,
  which always is) is refused and changes nothing.\<close>

theorem store_nullifier_correct:
  assumes "null_invar db" "chain (null_view db)" "Suc (length db) < 2 ^ 32"
  shows "if v \<in> fst ` set db then store_nullifier db v = (None, db)
    else \<exists>db'. store_nullifier db v = (Some (), db') \<and> null_invar db' \<and> chain (null_view db') \<and>
      fst ` set db' = insert v (fst ` set db) \<and> length db' = Suc (length db) \<and>
      (\<exists>e. map_of db' v = Some e \<and> null_index e = length db)"
proof (cases "v \<in> fst ` set db")
  case True
  then have "map_of db v \<noteq> None" by (simp add: map_of_eq_None_iff)
  then show ?thesis using True by (simp add: store_nullifier_def)
next
  case False
  then have nd: "v \<notin> dom (null_view db)" by (simp add: dom_null_view)
  have "0 \<in> dom (null_view db)" using assms(2) by (auto simp: chain_def)
  then have v0: "v \<noteq> 0" using nd by blast
  have fresh: "null_fresh db (length db)" using assms(3) by (simp add: null_fresh_def)
  obtain db' u where db': "store_nullifier db v = (Some (), db')" "null_invar db'" "is_low (null_view db) v u"
    "null_view db' = link (null_view db) (length db) v u" "length db' = Suc (length db)"
    by (rule store_nullifier_new [OF assms(1,2) v0 nd fresh])
  have ns: "null_store v (length db) db = Some db'" by (simp add: null_store_def db'(1))
  have "chain (null_view db') \<and> dom (null_view db') = insert v (dom (null_view db))"
    by (rule hash_map.store_chain [OF assms(1,2) v0 nd fresh]) (simp add: ns)
  moreover have "\<exists>e. map_of db' v = Some e \<and> null_index e = length db"
  proof -
    obtain i ni nv where "null_view db u = Some (i, ni, nv)" "u < v" using db'(3) by (auto simp: is_low_def)
    then have "null_view db' v = Some (length db, ni, nv)" unfolding db'(4) by (auto simp: link_def)
    then show ?thesis by (auto simp: null_view_def null_entry_def)
  qed
  ultimately show ?thesis using False db'(1,2,5) unfolding dom_null_view by simp
qed

theorem store_nullifier_correct_witness:
  "\<exists>db'. store_nullifier new_nullifier_db 1 = (Some (), db') \<and> null_invar db' \<and> chain (null_view db')"
  using store_nullifier_correct [OF new_nullifier_db_inv(1,2), of 1] new_nullifier_db_inv(3)
  by (auto simp: new_nullifier_db_def fr_val_inject_iff)

end
