(* ===== verification/Tree_Paths.thy ===== *)
theory Tree_Paths
  imports Tree_Helpers
begin

text \<open>
  The mathematics of replacing a complete subtree of a stored Merkle tree: the nodes on the path to the
  root (\<open>climb_fn\<close>) and the rows below the subtree's root (\<open>row_set\<close>) are exactly what has to be
  written for the numbering to be consistent again (\<open>plug_heap\<close>). No operation of the code is here.
\<close>

definition override :: "(nat \<Rightarrow> 'f) \<Rightarrow> (nat \<times> 'f) list \<Rightarrow> nat \<Rightarrow> 'f" where
  "override look us = foldl (\<lambda>l (i, v). l(i := v)) look us"

lemma override_Nil [simp]: "override look [] = look"
  by (simp add: override_def)

lemma override_Cons [simp]: "override look ((i, v) # us) = override (look(i := v)) us"
  by (simp add: override_def)

lemma override_append: "override look (us @ vs) = override (override look us) vs"
  by (simp add: override_def)

lemma override_other: "q \<notin> fst ` set us \<Longrightarrow> override look us q = look q"
  by (induction us arbitrary: look) auto

lemma override_upd: "j \<notin> fst ` set us \<Longrightarrow> override (look(j := v)) us = (override look us)(j := v)"
  by (induction us arbitrary: look) (auto simp: fun_upd_twist)

lemma override_known:
  "q \<in> fst ` set us \<Longrightarrow> (\<And>v. (q, v) \<in> set us \<Longrightarrow> v = x) \<Longrightarrow> override look us q = x"
proof (induction us arbitrary: look)
  case (Cons u us)
  show ?case
  proof (cases "q \<in> fst ` set us")
    case True
    then show ?thesis using Cons by (cases u) simp
  next
    case False
    then have "fst u = q" "snd u = x" using Cons.prems by (auto simp: image_iff)
    then show ?thesis using False by (cases u) (simp add: override_other)
  qed
qed simp

section \<open>The path to the root\<close>

fun climb_fn :: "('f \<Rightarrow> 'f \<Rightarrow> 'f) \<Rightarrow> (nat \<Rightarrow> 'f) \<Rightarrow> nat \<Rightarrow> nat \<Rightarrow> 'f \<Rightarrow> 'f \<times> (nat \<times> 'f) list" where
  "climb_fn th look 0 q v = (v, [])"
| "climb_fn th look (Suc n) q v =
     (let v' = (if even q then th (look (q - 1)) v else th v (look (q + 1))); p = (q - 1) div 2
      in case climb_fn th look n p v' of (r, us) \<Rightarrow> (r, (p, v') # us))"

text \<open>Depth \<open>t\<close>: \<open>2 ^ t \<le> q + 1 < 2 ^ (t + 1)\<close>.\<close>

lemma parent_depth:
  fixes q :: nat
  assumes "2 ^ Suc t \<le> q + 1" "q + 1 < 2 ^ Suc (Suc t)"
  shows "2 ^ t \<le> (q - 1) div 2 + 1" "(q - 1) div 2 + 1 < 2 ^ Suc t"
    "(q - 1) div 2 + 1 = (q + 1) div 2"
proof -
  have "2 \<le> q + 1" using assms(1) one_le_power [of "2::nat" t] unfolding power_Suc by linarith
  then show e: "(q - 1) div 2 + 1 = (q + 1) div 2" by presburger
  show "2 ^ t \<le> (q - 1) div 2 + 1" "(q - 1) div 2 + 1 < 2 ^ Suc t"
    unfolding e using assms by simp_all
qed

lemma climb_keys:
  "2 ^ t \<le> q + 1 \<Longrightarrow> q + 1 < 2 ^ Suc t \<Longrightarrow> k \<in> fst ` set (snd (climb_fn th look t q v)) \<Longrightarrow> k + 1 < 2 ^ t"
proof (induction t arbitrary: q v)
  case (Suc t)
  note pd = parent_depth [OF Suc.prems(1,2)]
  let ?v = "if even q then th (look (q - 1)) v else th v (look (q + 1))"
  have "k = (q - 1) div 2 \<or> k \<in> fst ` set (snd (climb_fn th look t ((q - 1) div 2) ?v))"
    using Suc.prems(3) by (auto simp: Let_def split: prod.splits)
  then show ?case
  proof
    assume "k = (q - 1) div 2"
    then show ?thesis using pd(2) by simp
  next
    assume "k \<in> fst ` set (snd (climb_fn th look t ((q - 1) div 2) ?v))"
    then have "k + 1 < 2 ^ t" by (rule Suc.IH [OF pd(1,2)])
    then show ?thesis unfolding power_Suc by linarith
  qed
qed simp

lemma sibling_cases:
  fixes q :: nat
  assumes "2 ^ Suc t \<le> q + 1" "q + 1 < 2 ^ Suc (Suc t)"
  defines "p \<equiv> (q - 1) div 2"
  shows "if even q then 2 * p + 1 = q - 1 \<and> 2 * p + 2 = q else 2 * p + 1 = q \<and> 2 * p + 2 = q + 1"
proof -
  have "2 \<le> q + 1" using assms(1) one_le_power [of "2::nat" t] unfolding power_Suc by linarith
  then show ?thesis unfolding p_def by presburger
qed

lemma climb_heap:
  fixes v :: 'f
  assumes "heap_ok th t look" "2 ^ t \<le> q + 1" "q + 1 < 2 ^ Suc t"
  defines "r \<equiv> climb_fn th look t q v"
  shows "heap_ok th t (override look ((q, v) # snd r))" and "override look ((q, v) # snd r) 0 = fst r"
    and "\<And>k. 2 ^ t \<le> k + 1 \<Longrightarrow> override look ((q, v) # snd r) k = (look(q := v)) k"
proof -
  have "heap_ok th t (override look ((q, v) # snd r)) \<and> override look ((q, v) # snd r) 0 = fst r"
    using assms(1-3) unfolding r_def
  proof (induction t arbitrary: q v)
    case 0
    then show ?case by (simp add: heap_ok_def)
  next
    case (Suc t)
    define p where "p = (q - 1) div 2"
    note pd = parent_depth [OF Suc.prems(2,3), folded p_def]
    note sib = sibling_cases [OF Suc.prems(2,3), folded p_def]
    define v' where "v' = (if even q then th (look (q - 1)) v else th v (look (q + 1)))"
    define us where "us = snd (climb_fn th look t p v')"
    have top: "heap_ok th t look"
      using Suc.prems(1) by (auto simp: heap_ok_def)
    have IH: "heap_ok th t (override look ((p, v') # us))" "override look ((p, v') # us) 0 = fst (climb_fn th look t p v')"
      using Suc.IH [OF top pd(1,2), of v'] unfolding us_def by simp_all
    have keys: "k + 1 < 2 ^ t" if "k \<in> fst ` set us" for k
      using that unfolding us_def by (rule climb_keys [OF pd(1,2)])
    have r: "climb_fn th look (Suc t) q v = (fst (climb_fn th look t p v'), (p, v') # us)"
      unfolding us_def v'_def p_def by (simp add: Let_def split: prod.split)
    have nq: "q \<notin> fst ` set ((p, v') # us)" 
    proof -
      have "q \<noteq> p" using Suc.prems(2) pd(2) by linarith
      moreover have "\<not> q + 1 < 2 ^ t" using Suc.prems(2) unfolding power_Suc by linarith
      ultimately show ?thesis using keys [of q] by fastforce
    qed
    define l1 where "l1 = override look ((p, v') # us)"
    have l2: "override look ((q, v) # (p, v') # us) = l1(q := v)"
      unfolding l1_def using override_upd [OF nq, of look v] by simp
    have low: "l1 k = (look(p := v')) k" if "2 ^ t \<le> k + 1" for k
      unfolding l1_def override_Cons by (rule override_other) (use keys [of k] that in auto)
    have "(l1(q := v)) k = th ((l1(q := v)) (2 * k + 1)) ((l1(q := v)) (2 * k + 2))" if k: "k + 1 < 2 ^ Suc t" for k
    proof (cases "k + 1 < 2 ^ t")
      case True
      then have "2 * k + 1 \<noteq> q" "2 * k + 2 \<noteq> q" "k \<noteq> q"
        using Suc.prems(2) unfolding power_Suc by linarith+
      moreover have "l1 k = th (l1 (2 * k + 1)) (l1 (2 * k + 2))"
        using IH(1) True unfolding heap_ok_def l1_def by blast
      ultimately show ?thesis by simp
    next
      case False
      have kq: "k \<noteq> q" using k Suc.prems(2) by linarith
      have "2 * k + 1 \<noteq> p" "2 * k + 2 \<noteq> p" "2 ^ t \<le> (2 * k + 1) + 1" "2 ^ t \<le> (2 * k + 2) + 1"
        using False pd(2) unfolding power_Suc by linarith+
      note ck = this
      have ch: "l1 (2 * k + 1) = look (2 * k + 1)" "l1 (2 * k + 2) = look (2 * k + 2)"
        using low [OF ck(3)] low [OF ck(4)] ck(1,2) by simp_all
      show ?thesis
      proof (cases "k = p")
        case True
        have "l1 k = v'" using low [of k] False True by (simp add: not_less)
        then show ?thesis using kq ch sib True by (auto simp: v'_def split: if_splits)
      next
        case kp: False
        have "2 * k + 1 \<noteq> q" "2 * k + 2 \<noteq> q" using kp sib by (auto split: if_splits)
        moreover have "l1 k = look k" using low [of k] False kp by (simp add: not_less)
        moreover have "look k = th (look (2 * k + 1)) (look (2 * k + 2))"
          using Suc.prems(1) k unfolding heap_ok_def by blast
        ultimately show ?thesis using kq ch by simp
      qed
    qed
    then have "heap_ok th (Suc t) (l1(q := v))" unfolding heap_ok_def by blast
    moreover have "q \<noteq> 0"
      using Suc.prems(2) one_le_power [of "2::nat" t] unfolding power_Suc by linarith
    ultimately show ?case using IH(2) by (simp only: r snd_conv fst_conv l2 l1_def [symmetric]) simp
  qed
  then show "heap_ok th t (override look ((q, v) # snd r))" and "override look ((q, v) # snd r) 0 = fst r"
    by blast+
  fix k :: nat assume "2 ^ t \<le> k + 1"
  then have "k \<notin> fst ` set (snd r)"
    unfolding r_def using climb_keys [OF assms(2,3)] by (meson not_less)
  then show "override look ((q, v) # snd r) k = (look(q := v)) k"
    by (simp add: override_other)
qed

section \<open>The rows below the root of a subtree\<close>

definition row_set :: "nat \<Rightarrow> nat \<Rightarrow> 'f list \<Rightarrow> (nat \<times> 'f) set" where
  "row_set n s st = {((n + 1) * 2 ^ r + i - 1, st ! (2 ^ r - 1 + i)) | r i. 1 \<le> r \<and> r \<le> s \<and> i < 2 ^ r}"

lemma block_unique_aux:
  fixes n :: nat
  assumes "r < r'" "i < 2 ^ r"
  shows "(n + 1) * 2 ^ r + i < (n + 1) * 2 ^ r' + i'"
proof -
  have "(n + 1) * 2 ^ r + i < (n + 2) * 2 ^ r" using assms(2) by (simp add: algebra_simps)
  also have "\<dots> \<le> (n + 1) * 2 ^ Suc r" by (simp add: algebra_simps)
  also have "\<dots> \<le> (n + 1) * 2 ^ r'"
    using assms(1) by (intro mult_left_mono power_increasing) simp_all
  finally show ?thesis by simp
qed

lemma block_unique:
  fixes n :: nat
  assumes "(n + 1) * 2 ^ r + i = (n + 1) * 2 ^ r' + i'" "i < 2 ^ r" "i' < 2 ^ r'"
  shows "r = r' \<and> i = i'"
proof -
  have "r = r'"
    using block_unique_aux [of r r' i n i'] block_unique_aux [of r' r i' n i] assms
    by (metis less_irrefl linorder_neqE_nat)
  then show ?thesis using assms(1) by simp
qed

lemma block_pos: "0 < (n + 1) * 2 ^ r + (i::nat)"
  by simp

lemma row_lookup:
  assumes "set us = row_set n s st" "1 \<le> r" "r \<le> s" "i < 2 ^ r"
  shows "override look us ((n + 1) * 2 ^ r + i - 1) = st ! (2 ^ r - 1 + i)"
proof (rule override_known)
  show "(n + 1) * 2 ^ r + i - 1 \<in> fst ` set us"
    unfolding assms(1) row_set_def using assms(2-4) by (force simp: image_iff)
  fix v assume "((n + 1) * 2 ^ r + i - 1, v) \<in> set us"
  then obtain r' i' where ri: "(n + 1) * 2 ^ r + i - 1 = (n + 1) * 2 ^ r' + i' - 1"
    "v = st ! (2 ^ r' - 1 + i')" "i' < 2 ^ r'"
    unfolding assms(1) row_set_def by blast
  have "(n + 1) * 2 ^ r + i = (n + 1) * 2 ^ r' + i'"
    using ri(1) block_pos [of n r i] block_pos [of n r' i'] by linarith
  then show "v = st ! (2 ^ r - 1 + i)"
    using block_unique assms(4) ri(2,3) by blast
qed

lemma row_other:
  assumes "set us = row_set n s st" "\<And>r. 1 \<le> r \<Longrightarrow> r \<le> s \<Longrightarrow> (q + 1) div 2 ^ r \<noteq> n + 1"
  shows "override look us q = look q"
proof (rule override_other, rule notI)
  assume "q \<in> fst ` set us"
  then obtain r i where ri: "q = (n + 1) * 2 ^ r + i - 1" "1 \<le> r" "r \<le> s" "i < 2 ^ r"
    unfolding assms(1) row_set_def by auto
  have "q + 1 = i + (n + 1) * 2 ^ r" using ri(1) block_pos [of n r i] by linarith
  then have "(q + 1) div 2 ^ r = n + 1" using ri(4) by (simp only: div_mult_self1) simp
  then show False using assms(2) ri(2,3) by blast
qed

section \<open>Replacing a subtree\<close>

text \<open>\<open>st\<close> is a consistent tree of height \<open>s\<close>, put at node \<open>n\<close> of depth \<open>t\<close> in a tree of height \<open>t + s\<close>.\<close>

definition plug :: "('f \<Rightarrow> 'f \<Rightarrow> 'f) \<Rightarrow> (nat \<Rightarrow> 'f) \<Rightarrow> nat \<Rightarrow> nat \<Rightarrow> nat \<Rightarrow> 'f list \<Rightarrow> (nat \<times> 'f) list \<Rightarrow> bool" where
  "plug th look t s n st rows \<longleftrightarrow>
     heap_ok th (t + s) look \<and> 2 ^ t \<le> n + 1 \<and> n + 1 < 2 ^ Suc t \<and>
     heap_ok th s (nth st) \<and> set rows = row_set n s st"

definition new_look :: "('f \<Rightarrow> 'f \<Rightarrow> 'f) \<Rightarrow> (nat \<Rightarrow> 'f) \<Rightarrow> nat \<Rightarrow> nat \<Rightarrow> 'f list \<Rightarrow> (nat \<times> 'f) list \<Rightarrow> nat \<Rightarrow> 'f" where
  "new_look th look t n st rows =
     override look ((n, st ! 0) # snd (climb_fn th look t n (st ! 0)) @ rows)"

lemma plugD:
  assumes "plug th look t s n st rows"
  shows "heap_ok th (t + s) look" "2 ^ t \<le> n + 1" "n + 1 < 2 ^ Suc t"
    "heap_ok th s (nth st)" "set rows = row_set n s st"
  using assms by (simp_all add: plug_def)

lemma plug_top_ok: "plug th look t s n st rows \<Longrightarrow> heap_ok th t look"
proof -
  assume pl: "plug th look t s n st rows"
  have "q + 1 < 2 ^ (t + s)" if "q + 1 < 2 ^ t" for q :: nat
    using that by (rule order.strict_trans2) (simp add: power_increasing)
  then show ?thesis using plugD(1) [OF pl] by (simp add: heap_ok_def)
qed

lemmas plug_path = climb_heap [OF plug_top_ok plugD(2,3)]

lemma new_look_eq:
  "new_look th look t n st rows = override (override look ((n, st ! 0) # snd (climb_fn th look t n (st ! 0)))) rows"
  by (simp add: new_look_def override_def)

lemma plug_above:
  assumes pl: "plug th look t s n st rows"
    and "q + 1 < 2 ^ Suc t"
  shows "new_look th look t n st rows q = override look ((n, st ! 0) # snd (climb_fn th look t n (st ! 0))) q"
  unfolding new_look_eq
proof (rule row_other [OF plugD(5) [OF pl]])
  fix r :: nat assume "1 \<le> r"
  then have "(q + 1) div 2 ^ r \<le> (q + 1) div 2 ^ 1" by (intro div_le_mono2 power_increasing) simp_all
  also have "\<dots> < 2 ^ t" using assms by (simp add: less_mult_imp_div_less)
  finally show "(q + 1) div 2 ^ r \<noteq> n + 1" using plugD(2) [OF pl] by linarith
qed

lemma plug_depth_div: "plug th look t s n st rows \<Longrightarrow> 2 ^ (t + r) \<le> q + 1 \<Longrightarrow> q + 1 < 2 ^ Suc (t + r) \<Longrightarrow> j \<noteq> r \<Longrightarrow> (q + 1) div 2 ^ j \<noteq> n + (1::nat)"
proof
  assume pl: "plug th look t s n st rows" and q: "2 ^ (t + r) \<le> q + 1" "q + 1 < 2 ^ Suc (t + r)" "j \<noteq> r" and e: "(q + 1) div 2 ^ j = n + 1"
  have "(n + 1) * 2 ^ j \<le> q + 1" using e by (metis div_times_less_eq_dividend)
  then have "2 ^ t * 2 ^ j \<le> q + 1" using plugD(2) [OF pl] by (meson mult_le_mono1 order.trans)
  then have "(2::nat) ^ (t + j) < 2 ^ Suc (t + r)" using q(2) by (simp only: power_add)
  then have jr: "j < r" using q(3) by (simp del: power_Suc)
  have "q + 1 < (n + 1 + 1) * 2 ^ j" using less_div_block [of "q + 1" j] e by simp
  also have "\<dots> \<le> 2 ^ Suc t * 2 ^ j" using plugD(3) [OF pl] by (intro mult_le_mono1) simp
  also have "\<dots> = 2 ^ (Suc t + j)" by (simp only: power_add)
  also have "\<dots> \<le> 2 ^ (t + r)" using jr by (intro power_increasing) simp_all
  finally show False using q(1) by simp
qed

lemma plug_below:
  assumes pl: "plug th look t s n st rows"
    and "r \<le> s" "2 ^ (t + r) \<le> q + 1" "q + 1 < 2 ^ Suc (t + r)"
  shows "new_look th look t n st rows q = (if (q + 1) div 2 ^ r = n + 1 then st ! (2 ^ r - 1 + (q + 1) mod 2 ^ r) else look q)"
proof (cases "r = 0")
  case True
  then have "new_look th look t n st rows q = (look(n := st ! 0)) q"
    using assms plug_above [OF pl] plug_path(3) [OF pl pl pl] by simp
  then show ?thesis using True by simp
next
  case False
  show ?thesis
  proof (cases "(q + 1) div 2 ^ r = n + 1")
    case True
    then have "q + 1 = (n + 1) * 2 ^ r + (q + 1) mod 2 ^ r" by (metis div_mult_mod_eq)
    then have "q = (n + 1) * 2 ^ r + (q + 1) mod 2 ^ r - 1" by linarith
    then have "new_look th look t n st rows q = st ! (2 ^ r - 1 + (q + 1) mod 2 ^ r)"
      unfolding new_look_eq
      using row_lookup [OF plugD(5) [OF pl], of r "(q + 1) mod 2 ^ r"] False assms(2) by simp
    then show ?thesis using True by simp
  next
    case no: False
    have "(2::nat) ^ t \<le> 2 ^ (t + r)" by (intro power_increasing) simp_all
    then have "2 ^ t \<le> q + 1" using assms(3) by linarith
    moreover have "q \<noteq> n" using assms(3) plugD(3) [OF pl] False power_increasing [of "Suc t" "t + r" "2::nat"] by auto
    moreover have "(q + 1) div 2 ^ j \<noteq> n + 1" for j using no plug_depth_div [OF pl assms(3,4)] by (cases "j = r") simp_all
    ultimately show ?thesis
      unfolding new_look_eq using no row_other [OF plugD(5) [OF pl]] plug_path(3) [OF pl pl pl] by simp
  qed
qed

lemma subtree_child:
  assumes "x div 2 ^ r = m" "e < 2"
  shows "(2 * x + e) div 2 ^ Suc r = (m::nat)" "(2 * x + e) mod 2 ^ Suc r = 2 * (x mod 2 ^ r) + e"
proof -
  have x: "(2 * x + e) div 2 = x" "(2 * x + e) mod 2 = e" using assms(2) by auto
  show "(2 * x + e) div 2 ^ Suc r = m" using assms(1) x(1) by (simp add: div_mult2_eq)
  show "(2 * x + e) mod 2 ^ Suc r = 2 * (x mod 2 ^ r) + e"
    using mod_mult2_eq [of "2 * x + e" 2 "2 ^ r"] x by simp
qed

lemma plug_heap:
  assumes pl: "plug th look t s n st rows"
  shows "heap_ok th (t + s) (new_look th look t n st rows)"
  unfolding heap_ok_def
proof (intro allI impI)
  fix q :: nat assume q: "q + 1 < 2 ^ (t + s)"
  show "new_look th look t n st rows q = th (new_look th look t n st rows (2 * q + 1)) (new_look th look t n st rows (2 * q + 2))"
  proof (cases "q + 1 < 2 ^ t")
    case True
    have "q + 1 < 2 ^ Suc t" "2 * q + 1 + 1 < 2 ^ Suc t" "2 * q + 2 + 1 < 2 ^ Suc t"
      using True unfolding power_Suc by linarith+
    then show ?thesis using plug_above [OF pl] plug_path(1) [OF pl pl pl] True unfolding heap_ok_def by metis
  next
    case False
    have "\<exists>d. 2 ^ d \<le> q + 1 \<and> q + 1 < 2 ^ Suc d" using ex_power_ivl1 [of 2 "q + 1"] by auto
    then obtain d where d: "2 ^ d \<le> q + 1" "q + 1 < 2 ^ Suc d" by blast
    have "(2::nat) ^ t < 2 ^ Suc d" "(2::nat) ^ d < 2 ^ (t + s)" using d False q by linarith+
    then have "t \<le> d" "d < t + s" by (simp_all del: power_Suc)
    then obtain r where r: "d = t + r" "r < s" using le_Suc_ex by (metis nat_add_left_cancel_less)
    have bq: "new_look th look t n st rows q = (if (q + 1) div 2 ^ r = n + 1 then st ! (2 ^ r - 1 + (q + 1) mod 2 ^ r) else look q)"
      using d r by (intro plug_below [OF pl]) simp_all
    have bc: "new_look th look t n st rows c = (if (c + 1) div 2 ^ Suc r = n + 1 then st ! (2 ^ Suc r - 1 + (c + 1) mod 2 ^ Suc r) else look c)"
      if "c = 2 * q + 1 + e" "e < 2" for c e
      using d r that by (intro plug_below [OF pl]) simp_all
    show ?thesis
    proof (cases "(q + 1) div 2 ^ r = n + 1")
      case True
      have i: "2 ^ r - 1 + (q + 1) mod 2 ^ r + 1 < 2 ^ s"
      proof -
        have "2 ^ r - 1 + (q + 1) mod 2 ^ r + 1 < 2 ^ Suc r" using mod_less_divisor [of "2 ^ r" "q + 1"] by simp
        also have "(2::nat) ^ Suc r \<le> 2 ^ s" using r(2) by (intro power_increasing) simp_all
        finally show ?thesis .
      qed
      have one: "2 ^ Suc r - 1 + 2 * ((q + 1) mod 2 ^ r) = 2 * (2 ^ r - 1 + (q + 1) mod 2 ^ r) + 1"
        "2 ^ Suc r - 1 + (2 * ((q + 1) mod 2 ^ r) + 1) = 2 * (2 ^ r - 1 + (q + 1) mod 2 ^ r) + 2"
        by (cases "(2::nat) ^ r"; simp)+
      have "new_look th look t n st rows (2 * q + 1) = st ! (2 * (2 ^ r - 1 + (q + 1) mod 2 ^ r) + 1)"
        using bc [of "2 * q + 1" 0] subtree_child [OF True, of 0] one(1) by (simp del: power_Suc)
      moreover have "new_look th look t n st rows (2 * q + 2) = st ! (2 * (2 ^ r - 1 + (q + 1) mod 2 ^ r) + 2)"
        using bc [of "2 * q + 2" 1] subtree_child [OF True, of 1] one(2) by (simp del: power_Suc)
      ultimately show ?thesis
        using bq True plugD(4) [OF pl] i unfolding heap_ok_def by simp
    next
      case no: False
      have "(2 * (q + 1) + e) div 2 ^ Suc r \<noteq> n + 1" if "e < 2" for e
        using subtree_child(1) [OF refl, of e "q + 1" r] that no by simp
      from this [of 0] this [of 1]
      have "new_look th look t n st rows (2 * q + 1) = look (2 * q + 1)" "new_look th look t n st rows (2 * q + 2) = look (2 * q + 2)"
        using bc [of "2 * q + 1" 0] bc [of "2 * q + 2" 1] by (simp_all del: power_Suc)
      then show ?thesis using bq no plugD(1) [OF pl] q unfolding heap_ok_def by simp
    qed
  qed
qed

lemma plug_root:
  assumes pl: "plug th look t s n st rows"
  shows "new_look th look t n st rows 0 = fst (climb_fn th look t n (st ! 0))"
proof -
  have "new_look th look t n st rows 0 = override look ((n, st ! 0) # snd (climb_fn th look t n (st ! 0))) 0"
    by (rule plug_above [OF pl], unfold power_Suc) (use one_le_power [of "2::nat" t] in linarith)
  then show ?thesis by (simp only: plug_path(2) [OF pl pl pl])
qed

lemma plug_leaves:
  assumes pl: "plug th look t s n st rows"
    and "j < 2 ^ (t + s)"
  shows "new_look th look t n st rows (2 ^ (t + s) - 1 + j) =
    (if j div 2 ^ s = n + 1 - 2 ^ t then st ! (2 ^ s - 1 + j mod 2 ^ s) else look (2 ^ (t + s) - 1 + j))"
proof -
  have e: "2 ^ (t + s) - 1 + j + 1 = 2 ^ t * 2 ^ s + j" by (simp add: power_add)
  have "(2 ^ t * 2 ^ s + j) div 2 ^ s = 2 ^ t + j div 2 ^ s" "(2 ^ t * 2 ^ s + j) mod 2 ^ s = j mod 2 ^ s"
    by simp_all
  moreover have "2 ^ t + j div 2 ^ s = n + 1 \<longleftrightarrow> j div 2 ^ s = n + 1 - 2 ^ t" using plugD(2) [OF pl] by linarith
  moreover have "2 ^ (t + s) \<le> 2 ^ (t + s) - 1 + j + 1" "2 ^ (t + s) - 1 + j + 1 < 2 ^ Suc (t + s)"
    using assms by simp_all
  ultimately show ?thesis using plug_below [OF pl, of s "2 ^ (t + s) - 1 + j"] by (simp only: e le_refl)
qed

end
