(* ===== verification/Mutable_Tree.thy ===== *)
theory Mutable_Tree
  imports Tree_Paths
begin

text \<open>
  \<open>lib/src/merkle_trees/mutable.rs\<close>: a Merkle tree all of whose nodes are stored. The state of one tree
  is its three collections: \<open><id>_metadata\<close> (the document \<open>_id = 0\<close>), \<open><id>_nodes\<close> and \<open><id>_cache\<close>
  (documents keyed by the node index, in insertion order). Node indices and counts are \<open>u64\<close> in the
  code; they are bounded by \<open>2 ^ (height + 1)\<close> and modelled by naturals.
\<close>

record 'f tree_db = world +
  metadata :: "'f TreeMetadata option"
  nodes :: "(nat \<times> 'f) list"
  cache :: "(nat \<times> 'f) list"

type_synonym ('f, 'z, 'a) treeM = "(('f, 'z) tree_db_scheme, merkle_error, 'a) dbm"

section \<open>Operations\<close>

definition new_mutable_tree :: "nat \<Rightarrow> nat \<Rightarrow> ('f::zero, 'z, unit) treeM" where
  "new_mutable_tree t_height s_height =
     db_insert DatabaseError (\<lambda>w. metadata w \<noteq> None)
       (\<lambda>w. w\<lparr>metadata := Some \<lparr>tree_height = t_height, sub_tree_height = s_height,
                                 sub_tree_count = 0, root = 0\<rparr>\<rparr>)"

definition read_metadata :: "('f, 'z, 'f TreeMetadata) treeM" where
  "read_metadata = bindM (db_read DatabaseError metadata) (okM TreeNotFound)"

definition get_root :: "('f, 'z, 'f) treeM" where
  "get_root = bindM read_metadata (\<lambda>m. returnM (root m))"

definition get_node :: "nat \<Rightarrow> ('f::zero, 'z, 'f) treeM" where
  "get_node index =
     bindM (db_read DatabaseError (\<lambda>w. map_of (cache w) index)) (\<lambda>n.
     case n of
       Some v \<Rightarrow> returnM v
     | None \<Rightarrow>
         bindM (db_read DatabaseError (\<lambda>w. map_of (nodes w) index)) (\<lambda>n.
         returnM (case n of Some v \<Rightarrow> v | None \<Rightarrow> 0)))"

definition set_node :: "bool \<Rightarrow> nat \<Rightarrow> 'f \<Rightarrow> ('f, 'z, unit) treeM" where
  "set_node update_tree index v =
     (if \<not> update_tree then db_write DatabaseError (\<lambda>w. w\<lparr>cache := AList.update index v (cache w)\<rparr>)
      else db_write DatabaseError (\<lambda>w. w\<lparr>nodes := AList.update index v (nodes w)\<rparr>))"

definition flush_cache :: "('f, 'z, unit) treeM" where
  "flush_cache =
     bindM (db_read DatabaseError cache) (\<lambda>c.
     bindM (forM c (\<lambda>(i, v). db_write DatabaseError (\<lambda>w. w\<lparr>nodes := AList.update i v (nodes w)\<rparr>))) (\<lambda>_.
     db_write DatabaseError (\<lambda>w. w\<lparr>cache := []\<rparr>)))"

definition is_leaf :: "'f \<Rightarrow> ('f, 'z, bool) treeM" where
  "is_leaf v =
     bindM read_metadata (\<lambda>m.
     bindM (db_read DatabaseError (\<lambda>w. find (\<lambda>(_, x). x = v) (nodes w))) (\<lambda>n.
     returnM (case n of
       None \<Rightarrow> False
     | Some (index, _) \<Rightarrow>
         (let height = tree_height m + sub_tree_height m
          in 2 ^ height - 1 \<le> index \<and> index \<le> 2 ^ (height + 1) - 2))))"

text \<open>The loop that hashes the path up from a node, shared by the three inserting operations: it reads
  the siblings with \<open>get\<close> and collects the updates to make.\<close>

fun climb ::
    "(nat \<Rightarrow> ('s, 'e, 'f) dbm) \<Rightarrow> ('f \<Rightarrow> 'f \<Rightarrow> 'f) \<Rightarrow> nat \<Rightarrow> nat \<Rightarrow> 'f \<Rightarrow> ('s, 'e, 'f \<times> (nat \<times> 'f) list) dbm" where
  "climb get th 0 node_index hash = returnM (hash, [])"
| "climb get th (Suc n) node_index hash =
     (if node_index mod 2 = 0
      then bindM (get (node_index - 1)) (\<lambda>sib.
           let hash' = th sib hash; parent = (node_index - 1) div 2
           in bindM (climb get th n parent hash') (\<lambda>(r, us). returnM (r, (parent, hash') # us)))
      else bindM (get (node_index + 1)) (\<lambda>sib.
           let hash' = th hash sib; parent = (node_index - 1) div 2
           in bindM (climb get th n parent hash') (\<lambda>(r, us). returnM (r, (parent, hash') # us))))"

text \<open>\<open>join_all(updates).await\<close>: every update is run, and the vector of results is dropped.\<close>

fun exec_updates :: "(nat \<Rightarrow> 'f \<Rightarrow> ('s, 'e, unit) dbm) \<Rightarrow> (nat \<times> 'f) list \<Rightarrow> ('s, 'e, unit) dbm" where
  "exec_updates put [] = returnM ()"
| "exec_updates put ((i, v) # us) = bindM (ignoreM (put i v)) (\<lambda>_. exec_updates put us)"

text \<open>The updates of the rows below the root of a subtree; \<open>None\<close> is an index out of range.\<close>

fun sub_rows :: "nat \<Rightarrow> nat \<Rightarrow> nat \<Rightarrow> nat \<Rightarrow> 'f list \<Rightarrow> (nat \<times> 'f) list option" where
  "sub_rows 0 node_index span k sub_tree = Some []"
| "sub_rows (Suc r) node_index span k sub_tree =
     (let node_index' = node_index * 2 + 1; span' = span * 2
      in if k + span' < length sub_tree
         then (case sub_rows r node_index' span' (k + span') sub_tree of
                 None \<Rightarrow> None
               | Some us \<Rightarrow> Some (map (\<lambda>j. (node_index' + j, sub_tree ! (k + j + 1))) [0..<span'] @ us))
         else None)"

definition insert_leaf :: "('f::zero \<Rightarrow> 'f \<Rightarrow> 'f) \<Rightarrow> 'f \<Rightarrow> bool \<Rightarrow> ('f, 'z, 'f) treeM" where
  "insert_leaf th leaf update_tree =
     bindM read_metadata (\<lambda>m.
     (let height = tree_height m + sub_tree_height m;
          node_index = 2 ^ height - 1 + sub_tree_count m * 2 ^ sub_tree_height m
      in bindM (climb get_node th height node_index leaf) (\<lambda>(hash, us).
         bindM (exec_updates (set_node update_tree) ((node_index, leaf) # us)) (\<lambda>_.
         if update_tree then
           bindM (db_write DatabaseError
             (\<lambda>w. w\<lparr>metadata := Some \<lparr>tree_height = tree_height m, sub_tree_height = sub_tree_height m,
                                       sub_tree_count = sub_tree_count m + 1, root = hash\<rparr>\<rparr>)) (\<lambda>_.
           bindM flush_cache (\<lambda>_. returnM hash))
         else returnM hash))))"

text \<open>The body of the loop over the batches of \<open>append_sub_trees\<close>.\<close>

definition append_one ::
    "('f::zero \<Rightarrow> 'f \<Rightarrow> 'f) \<Rightarrow> 'f TreeMetadata \<Rightarrow> bool \<Rightarrow> nat \<Rightarrow> 'f list \<Rightarrow> ('f, 'z, 'f) treeM" where
  "append_one th m update_tree count leaf_batch =
     (case make_complete_tree th (sub_tree_height m) leaf_batch of
        None \<Rightarrow> throwM MerklePanic
      | Some sub_tree \<Rightarrow>
          (let node_index = 2 ^ tree_height m - 1 + count; sub_root = sub_tree ! 0
           in bindM (climb get_node th (tree_height m) node_index sub_root) (\<lambda>(hash, us).
              bindM (okM MerklePanic (sub_rows (sub_tree_height m) node_index 1 0 sub_tree)) (\<lambda>rows.
              bindM (exec_updates (set_node update_tree) ((node_index, sub_root) # us @ rows)) (\<lambda>_.
              returnM hash)))))"

fun append_loop ::
    "('f::zero \<Rightarrow> 'f \<Rightarrow> 'f) \<Rightarrow> 'f TreeMetadata \<Rightarrow> bool \<Rightarrow> nat \<Rightarrow> 'f \<Rightarrow> 'f list list \<Rightarrow> ('f, 'z, 'f) treeM" where
  "append_loop th m update_tree count hash [] = returnM hash"
| "append_loop th m update_tree count hash (b # bs) =
     bindM (append_one th m update_tree count b) (\<lambda>hash'. append_loop th m update_tree (count + 1) hash' bs)"

definition append_sub_trees :: "('f::zero \<Rightarrow> 'f \<Rightarrow> 'f) \<Rightarrow> 'f list \<Rightarrow> bool \<Rightarrow> ('f, 'z, 'f \<times> nat) treeM" where
  "append_sub_trees th leaves update_tree =
     bindM read_metadata (\<lambda>m.
     (let capacity = 2 ^ sub_tree_height m; batches = chunks capacity leaves in
      if length leaves mod capacity \<noteq> 0 then throwM IncorrectBatchSize
      else if leaves = [] then returnM (root m, sub_tree_count m * capacity)
      else if sub_tree_count m > 2 ^ tree_height m then throwM TreeIsFull
      else bindM (append_loop th m update_tree (sub_tree_count m) 0 batches) (\<lambda>hash.
        if update_tree then
          bindM (db_write DatabaseError
            (\<lambda>w. w\<lparr>metadata := Some \<lparr>tree_height = tree_height m, sub_tree_height = sub_tree_height m,
                                      sub_tree_count = sub_tree_count m + length batches, root = hash\<rparr>\<rparr>)) (\<lambda>_.
          bindM flush_cache (\<lambda>_.
          returnM (hash, (sub_tree_count m + length batches) * capacity)))
        else returnM (hash, sub_tree_count m * capacity))))"

section \<open>Membership proofs\<close>

text \<open>\<open>PathElement\<close> and \<open>MembershipProof\<close> are plain structs of \<open>jf_primitives\<close>.\<close>

record 'f PathElement =
  direction :: Directions
  path_value :: 'f

record 'f MembershipProof =
  node_value :: 'f
  sibling_path :: "'f PathElement list"
  leaf_index :: nat

fun read_siblings :: "nat \<Rightarrow> nat \<Rightarrow> ('f::zero, 'z, 'f PathElement list) treeM" where
  "read_siblings 0 node_index = returnM []"
| "read_siblings (Suc n) node_index =
     (if node_index mod 2 = 0
      then bindM (get_node (node_index - 1)) (\<lambda>v.
           bindM (read_siblings n ((node_index - 1) div 2)) (\<lambda>ps.
           returnM (\<lparr>direction = HashWithThisNodeOnLeft, path_value = v\<rparr> # ps)))
      else bindM (get_node (node_index + 1)) (\<lambda>v.
           bindM (read_siblings n ((node_index - 1) div 2)) (\<lambda>ps.
           returnM (\<lparr>direction = HashWithThisNodeOnRight, path_value = v\<rparr> # ps))))"

definition get_membership_proof :: "'f option \<Rightarrow> nat option \<Rightarrow> ('f::zero, 'z, 'f MembershipProof) treeM" where
  "get_membership_proof leaf index =
     bindM read_metadata (\<lambda>m.
     (let height = tree_height m + sub_tree_height m in
      bindM (case (leaf, index) of
               (Some v, None) \<Rightarrow>
                 if v = 0 then throwM MerkleError
                 else bindM (db_read DatabaseError (\<lambda>w. find (\<lambda>(_, x). x = v) (nodes w))) (\<lambda>n.
                      okM ItemNotFound (map_option fst n))
             | (_, Some i) \<Rightarrow> returnM (i + 2 ^ height - 1)
             | (None, None) \<Rightarrow> throwM ItemNotFound) (\<lambda>node_index.
      if node_index < 2 ^ height - 1 \<or> 2 ^ (height + 1) - 2 < node_index then throwM InvalidProof
      else bindM (read_siblings height node_index) (\<lambda>path.
           bindM (case leaf of Some v \<Rightarrow> returnM v | None \<Rightarrow> get_node node_index) (\<lambda>v.
           returnM \<lparr>node_value = v, sibling_path = path, leaf_index = node_index + 1 - 2 ^ height\<rparr>)))))"

text \<open>\<open>usize::next_power_of_two\<close> and \<open>ilog2\<close> of the standard library, on the range the code uses.\<close>

function next_power_from :: "nat \<Rightarrow> nat \<Rightarrow> nat" where
  "next_power_from p n = (if n \<le> p \<or> p = 0 then p else next_power_from (2 * p) n)"
  by pat_completeness auto
termination
  by (relation "measure (\<lambda>(p, n). n - p)") auto

declare next_power_from.simps [simp del]

definition next_power_of_two :: "nat \<Rightarrow> nat" where
  "next_power_of_two n = next_power_from 1 n"

fun ilog2 :: "nat \<Rightarrow> nat" where
  "ilog2 n = (if n \<le> 1 then 0 else Suc (ilog2 (n div 2)))"

declare ilog2.simps [simp del]

definition update_sub_tree :: "('f::zero \<Rightarrow> 'f \<Rightarrow> 'f) \<Rightarrow> nat \<Rightarrow> 'f list \<Rightarrow> bool \<Rightarrow> ('f, 'z, 'f) treeM" where
  "update_sub_tree th sub_tree_index leaves update_tree =
     bindM read_metadata (\<lambda>m.
     (let capacity = 2 ^ (tree_height m + sub_tree_height m); log = ilog2 (length leaves) in
      if next_power_of_two (length leaves) \<noteq> length leaves then throwM IncorrectBatchSize
      else if leaves = [] then throwM NoLeaves
      else if sub_tree_index \<ge> capacity then throwM InvalidIndex
      else (case make_complete_tree th log leaves of
        None \<Rightarrow> throwM MerklePanic
      | Some sub_tree \<Rightarrow>
          if log \<noteq> sub_tree_height m \<and> tree_height m + sub_tree_height m < log then throwM MerklePanic
          else
            (let height = (if log = sub_tree_height m then tree_height m
                           else tree_height m + sub_tree_height m - log);
                 node_index = 2 ^ height - 1 + sub_tree_index
             in bindM (climb get_node th height node_index (sub_tree ! 0)) (\<lambda>(hash, us).
                bindM (if length leaves \<noteq> 1
                       then okM MerklePanic (sub_rows (sub_tree_height m) node_index 1 0 sub_tree)
                       else returnM []) (\<lambda>rows.
                bindM (exec_updates (set_node update_tree) ((node_index, sub_tree ! 0) # us @ rows)) (\<lambda>_.
                bindM (if update_tree then flush_cache else returnM ()) (\<lambda>_.
                bindM (db_write DatabaseError
                  (\<lambda>w. w\<lparr>metadata := Some \<lparr>tree_height = tree_height m, sub_tree_height = sub_tree_height m,
                                            sub_tree_count = sub_tree_count m, root = hash\<rparr>\<rparr>)) (\<lambda>_.
                returnM hash)))))))))"

text \<open>\<open>CircuitInsertionInfo\<close> of \<open>jf_primitives\<close>, a plain struct.\<close>

record 'f CircuitInsertionInfo =
  old_root :: 'f
  new_root :: 'f
  proof_of_emptiness :: "'f MembershipProof"
  leaf_count :: nat
  inserted_leaves :: "'f list"

definition insert_for_circuit :: "('f::zero \<Rightarrow> 'f \<Rightarrow> 'f) \<Rightarrow> 'f list \<Rightarrow> ('f, 'z, 'f CircuitInsertionInfo) treeM" where
  "insert_for_circuit th commitments =
     bindM read_metadata (\<lambda>m.
     (let capacity = 2 ^ sub_tree_height m in
      if length commitments \<noteq> capacity then throwM IncorrectBatchSize
      else bindM (get_membership_proof None (Some (sub_tree_count m * capacity))) (\<lambda>p.
           bindM (append_sub_trees th commitments True) (\<lambda>(new_root, _).
           returnM \<lparr>old_root = root m, new_root = new_root,
                    proof_of_emptiness = \<lparr>node_value = 0, sibling_path = drop (sub_tree_height m) (sibling_path p),
                                           leaf_index = sub_tree_count m\<rparr>,
                    leaf_count = sub_tree_count m * capacity + length commitments,
                    inserted_leaves = commitments\<rparr>))))"

text \<open>Each chunk's result is unwrapped with \<open>expect\<close>: an error there is a panic.\<close>

definition batch_insert_with_circuit_info ::
    "('f::zero \<Rightarrow> 'f \<Rightarrow> 'f) \<Rightarrow> 'f list \<Rightarrow> ('f, 'z, 'f CircuitInsertionInfo list) treeM" where
  "batch_insert_with_circuit_info th commitments =
     bindM read_metadata (\<lambda>m.
     (let capacity = 2 ^ sub_tree_height m in
      if length commitments mod capacity \<noteq> 0 then throwM IncorrectBatchSize
      else forM (chunks capacity commitments)
             (\<lambda>c. map_errM (\<lambda>_. MerklePanic) (insert_for_circuit th c))))"

text \<open>Dropping a collection that does not exist is not an error.\<close>

definition reset_mutable_tree :: "('f, 'z, unit) treeM" where
  "reset_mutable_tree =
     bindM (db_write DatabaseError (\<lambda>w. w\<lparr>metadata := None\<rparr>)) (\<lambda>_.
     bindM (db_write DatabaseError (\<lambda>w. w\<lparr>nodes := []\<rparr>)) (\<lambda>_.
     db_write DatabaseError (\<lambda>w. w\<lparr>cache := []\<rparr>)))"

section \<open>The node store\<close>

text \<open>What the loops over the nodes rely on of \<open>get_node\<close> and \<open>set_node\<close>: reading gives the node of the
  current numbering and changes nothing, writing changes the numbering at that node only. \<open>frame\<close> is the
  part of the state that writing keeps.\<close>

locale node_store =
  fixes get :: "nat \<Rightarrow> ('s, 'e, 'f) dbm" and put :: "nat \<Rightarrow> 'f \<Rightarrow> ('s, 'e, unit) dbm"
    and look :: "'s \<Rightarrow> nat \<Rightarrow> 'f" and invar :: "'s \<Rightarrow> bool" and frame :: "'s \<Rightarrow> 'k"
  assumes get_ok: "invar w \<Longrightarrow> get i w = (Inr (look w i), w)"
    and put_ok: "invar w \<Longrightarrow>
      fst (put i v w) = Inr () \<and> invar (snd (put i v w)) \<and>
      look (snd (put i v w)) = (look w)(i := v) \<and> frame (snd (put i v w)) = frame w"
begin

lemma climb_ok: "invar w \<Longrightarrow> climb get th n q v w = (Inr (climb_fn th (look w) n q v), w)"
  by (induction n arbitrary: q v)
    (auto simp: bindM_def returnM_def get_ok Let_def even_iff_mod_2_eq_zero split: prod.splits)

lemma exec_ok:
  "invar w \<Longrightarrow> \<exists>w'. exec_updates put us w = (Inr (), w') \<and> invar w' \<and>
     look w' = override (look w) us \<and> frame w' = frame w"
proof (induction us arbitrary: w)
  case Nil
  then show ?case by (simp add: returnM_def)
next
  case (Cons u us)
  obtain i v where u: "u = (i, v)" by force
  note p = put_ok [OF Cons.prems, of i v]
  obtain w' where "exec_updates put us (snd (put i v w)) = (Inr (), w')" "invar w'"
    "look w' = override ((look w)(i := v)) us" "frame w' = frame w"
    using Cons.IH [of "snd (put i v w)"] p by metis
  then show ?case by (simp add: u bindM_def ignoreM_def)
qed

text \<open>The common shape of the inserting operations: climb from \<open>n\<close>, then write the path and the rows.\<close>

lemma plug_run:
  assumes "invar w" "plug th (look w) t s n st rows"
  obtains w' where
    "bindM (climb get th t n (st ! 0)) (\<lambda>(hash, us).
       bindM (exec_updates put ((n, st ! 0) # us @ rows)) (\<lambda>_. K hash)) w = K (look w' 0) w'"
    "invar w'" "look w' = new_look th (look w) t n st rows" "frame w' = frame w"
proof -
  obtain w' where w': "exec_updates put ((n, st ! 0) # snd (climb_fn th (look w) t n (st ! 0)) @ rows) w = (Inr (), w')"
    "invar w'" "look w' = new_look th (look w) t n st rows" "frame w' = frame w"
    using exec_ok [OF assms(1)] unfolding new_look_def by blast
  have "look w' 0 = fst (climb_fn th (look w) t n (st ! 0))"
    unfolding w'(3) by (rule plug_root [OF assms(2)])
  then show thesis
    using that w' by (simp add: bindM_def climb_ok [OF assms(1)] case_prod_beta del: exec_updates.simps)
qed

end

definition look :: "('f::zero, 'z) tree_db_scheme \<Rightarrow> nat \<Rightarrow> 'f" where
  "look w i = (case map_of (cache w) i of
     Some v \<Rightarrow> v
   | None \<Rightarrow> (case map_of (nodes w) i of Some v \<Rightarrow> v | None \<Rightarrow> 0))"

definition store_inv :: "bool \<Rightarrow> ('f, 'z) tree_db_scheme \<Rightarrow> bool" where
  "store_inv upd w \<longleftrightarrow> faults w = [] \<and> (upd \<longrightarrow> cache w = []) \<and> distinct (map fst (nodes w))"

definition store_frame ::
    "bool \<Rightarrow> ('f, 'z) tree_db_scheme \<Rightarrow> 'f TreeMetadata option \<times> (nat \<times> 'f) list \<times> 'z" where
  "store_frame upd w = (metadata w, if upd then [] else nodes w, tree_db.more w)"

interpretation store: node_store get_node "set_node upd" look "store_inv upd" "store_frame upd" for upd
proof unfold_locales
  fix w :: "('f::zero, 'z) tree_db_scheme" and i v
  assume inv: "store_inv upd w"
  then have f: "faults w = []" by (simp add: store_inv_def)
  show "get_node i w = (Inr (look w i), w)"
    by (simp add: get_node_def look_def bindM_def db_read_ok [OF f] returnM_def split: option.split)
  show "fst (set_node upd i v w) = Inr () \<and> store_inv upd (snd (set_node upd i v w)) \<and>
      look (snd (set_node upd i v w)) = (look w)(i := v) \<and> store_frame upd (snd (set_node upd i v w)) = store_frame upd w"
  proof -
    have "set_node upd i v w =
        (Inr (), if upd then w\<lparr>nodes := AList.update i v (nodes w)\<rparr> else w\<lparr>cache := AList.update i v (cache w)\<rparr>)"
      by (simp add: set_node_def db_write_ok [OF f])
    then show ?thesis
      using inv by (cases upd) (auto simp: store_inv_def store_frame_def look_def fun_eq_iff distinct_update split: option.split)
  qed
qed

lemma sub_rows_Some:
  assumes "length st = 2 ^ (s + 1) - 1"
  shows "r + d = s \<Longrightarrow>
    \<exists>us. sub_rows d ((n + 1) * 2 ^ r - 1) (2 ^ r) (2 ^ (r + 1) - 2) st = Some us \<and>
      set us = {((n + 1) * 2 ^ x + i - 1, st ! (2 ^ x - 1 + i)) | x i. r < x \<and> x \<le> s \<and> i < 2 ^ x}"
proof (induction d arbitrary: r)
  case 0
  then show ?case by auto
next
  case (Suc d)
  obtain us where us: "sub_rows d ((n + 1) * 2 ^ Suc r - 1) (2 ^ Suc r) (2 ^ (Suc r + 1) - 2) st = Some us"
    "set us = {((n + 1) * 2 ^ x + i - 1, st ! (2 ^ x - 1 + i)) | x i. Suc r < x \<and> x \<le> s \<and> i < 2 ^ x}"
    using Suc.IH [of "Suc r"] Suc.prems by auto
  obtain y where y: "(2::nat) ^ r = Suc y" using one_le_power [of "2::nat" r] by (cases "(2::nat) ^ r") simp_all
  have node: "((n + 1) * 2 ^ r - 1) * 2 + 1 = (n + 1) * 2 ^ Suc r - 1" by (simp add: y)
  have span: "2 ^ r * 2 = (2::nat) ^ Suc r" by simp
  have k: "2 ^ (r + 1) - 2 + 2 ^ Suc r = 2 ^ (Suc r + 1) - (2::nat)" by (simp add: y)
  have "(2::nat) ^ (Suc r + 1) \<le> 2 ^ (s + 1)" using Suc.prems by (intro power_increasing) simp_all
  moreover have "(2::nat) \<le> 2 ^ (Suc r + 1)" by (simp add: y)
  ultimately have bound: "2 ^ (Suc r + 1) - 2 < length st" unfolding assms by linarith
  have row: "map (\<lambda>j. ((n + 1) * 2 ^ Suc r - 1 + j, st ! (2 ^ (r + 1) - 2 + j + 1))) [0..<2 ^ Suc r] =
      map (\<lambda>i. ((n + 1) * 2 ^ Suc r + i - 1, st ! (2 ^ Suc r - 1 + i))) [0..<2 ^ Suc r]"
    by (rule map_cong) (simp_all add: y)
  have "sub_rows (Suc d) ((n + 1) * 2 ^ r - 1) (2 ^ r) (2 ^ (r + 1) - 2) st =
      Some (map (\<lambda>i. ((n + 1) * 2 ^ Suc r + i - 1, st ! (2 ^ Suc r - 1 + i))) [0..<2 ^ Suc r] @ us)"
    unfolding sub_rows.simps Let_def node span k using bound us(1) row by simp
  moreover have "set (map (\<lambda>i. ((n + 1) * 2 ^ Suc r + i - 1, st ! (2 ^ Suc r - 1 + i))) [0..<2 ^ Suc r] @ us) =
      {((n + 1) * 2 ^ x + i - 1, st ! (2 ^ x - 1 + i)) | x i. r < x \<and> x \<le> s \<and> i < 2 ^ x}"
    (is "?A = ?B")
  proof (rule set_eqI, rule iffI)
    fix z assume "z \<in> ?A"
    then consider i where "i < 2 ^ Suc r" "z = ((n + 1) * 2 ^ Suc r + i - 1, st ! (2 ^ Suc r - 1 + i))" | "z \<in> set us"
      by auto
    then show "z \<in> ?B"
    proof cases
      case 1
      moreover have "r < Suc r" "Suc r \<le> s" using Suc.prems by simp_all
      ultimately show ?thesis by blast
    next
      case 2
      then show ?thesis unfolding us(2) using Suc_lessD by blast
    qed
  next
    fix z assume "z \<in> ?B"
    then obtain x i where z: "z = ((n + 1) * 2 ^ x + i - 1, st ! (2 ^ x - 1 + i))" "r < x" "x \<le> s" "i < 2 ^ x" by blast
    show "z \<in> ?A"
    proof (cases "x = Suc r")
      case True
      then show ?thesis using z by (auto simp del: power_Suc)
    next
      case False
      then have "Suc r < x" using z(2) by simp
      then have "z \<in> set us" unfolding us(2) using z by blast
      then show ?thesis by simp
    qed
  qed
  ultimately show ?case by blast
qed

lemma sub_rows_row_set:
  assumes "length st = 2 ^ (s + 1) - 1"
  obtains rows where "sub_rows s n 1 0 st = Some rows" "set rows = row_set n s st"
  using sub_rows_Some [OF assms, of 0 s n] that by (auto simp: row_set_def Suc_le_eq)

section \<open>The tree invariant\<close>

text \<open>\<open>tree_inv th h s c f w\<close>: the stored nodes are the complete Merkle tree of height \<open>h + s\<close> whose leaf
  \<open>j\<close> is \<open>f j\<close>, \<open>c\<close> subtrees of height \<open>s\<close> have been appended and the metadata has the root.\<close>

definition nodes_ok :: "('f \<Rightarrow> 'f \<Rightarrow> 'f) \<Rightarrow> nat \<Rightarrow> (nat \<Rightarrow> 'f) \<Rightarrow> (nat \<Rightarrow> 'f) \<Rightarrow> bool" where
  "nodes_ok th H f l \<longleftrightarrow> heap_ok th H l \<and> (\<forall>j<2 ^ H. l (2 ^ H - 1 + j) = f j)"

definition tree_inv ::
    "('f \<Rightarrow> 'f \<Rightarrow> 'f) \<Rightarrow> nat \<Rightarrow> nat \<Rightarrow> nat \<Rightarrow> (nat \<Rightarrow> 'f::zero) \<Rightarrow> ('f, 'z) tree_db_scheme \<Rightarrow> bool" where
  "tree_inv th h s c f w \<longleftrightarrow>
     nodes_ok th (h + s) f (look w) \<and>
     metadata w = Some \<lparr>tree_height = h, sub_tree_height = s, sub_tree_count = c, root = mnode th f (h + s) 0\<rparr>"

definition put_leaves :: "(nat \<Rightarrow> 'f) \<Rightarrow> nat \<Rightarrow> 'f list \<Rightarrow> nat \<Rightarrow> 'f" where
  "put_leaves f p xs j = (if p \<le> j \<and> j < p + length xs then xs ! (j - p) else f j)"

lemma put_leaves_append: "put_leaves (put_leaves f p xs) (p + length xs) ys = put_leaves f p (xs @ ys)"
  by (auto simp: put_leaves_def fun_eq_iff nth_append)

lemma put_leaves_Nil [simp]: "put_leaves f p [] = f"
  by (rule ext) (auto simp: put_leaves_def)

lemma put_leaves_leaf_fn: "put_leaves (leaf_fn xs) (length xs) ys = leaf_fn (xs @ ys)"
  by (auto simp: put_leaves_def leaf_fn_def fun_eq_iff nth_append)

lemma nodes_ok_root: "nodes_ok th H f l \<Longrightarrow> l 0 = mnode th f H 0"
proof -
  assume ok: "nodes_ok th H f l"
  then have "l 0 = mnode th (\<lambda>j. l (2 ^ H - 1 + j)) H 0" by (intro heap_root) (simp add: nodes_ok_def)
  also have "\<dots> = mnode th f H 0" by (rule mnode_cong) (use ok in \<open>simp add: nodes_ok_def\<close>)
  finally show ?thesis .
qed

text \<open>Putting a tree over the leaves \<open>xs\<close> at a node makes \<open>xs\<close> the leaves below that node.\<close>

lemma nodes_ok_plug:
  assumes "nodes_ok th (t + s) f l" "2 ^ t \<le> n + 1" "n + 1 < 2 ^ Suc t"
    "heap_ok th s (nth st)" "\<And>j. j < 2 ^ s \<Longrightarrow> st ! (2 ^ s - 1 + j) = leaf_fn xs j" "length xs = 2 ^ s"
    "set rows = row_set n s st"
  shows "nodes_ok th (t + s) (put_leaves f ((n + 1 - 2 ^ t) * 2 ^ s) xs) (new_look th l t n st rows)"
proof -
  have pl: "plug th l t s n st rows"
    using assms(1-4,7) by (simp add: plug_def nodes_ok_def)
  define p where "p = n + 1 - 2 ^ t"
  have "new_look th l t n st rows (2 ^ (t + s) - 1 + j) = put_leaves f (p * 2 ^ s) xs j" if j: "j < 2 ^ (t + s)" for j
  proof -
    have "j div 2 ^ s = p \<longleftrightarrow> p * 2 ^ s \<le> j \<and> j < p * 2 ^ s + length xs"
      unfolding assms(6) by (metis add.commute div_nat_eqI div_times_less_eq_dividend less_div_block mult.commute mult_Suc Suc_eq_plus1)
    moreover have "st ! (2 ^ s - 1 + j mod 2 ^ s) = xs ! (j - p * 2 ^ s)" if "j div 2 ^ s = p"
    proof -
      have "j mod 2 ^ s = j - p * 2 ^ s" using that by (metis minus_div_mult_eq_mod)
      moreover have "j mod 2 ^ s < 2 ^ s" by simp
      then have "st ! (2 ^ s - 1 + j mod 2 ^ s) = xs ! (j mod 2 ^ s)"
        by (subst assms(5)) (simp_all add: leaf_fn_def assms(6))
      ultimately show ?thesis by simp
    qed
    moreover have "l (2 ^ (t + s) - 1 + j) = f j" using assms(1) j by (simp add: nodes_ok_def)
    ultimately show ?thesis
      unfolding plug_leaves [OF pl j] p_def [symmetric] put_leaves_def by presburger
  qed
  then show ?thesis
    using plug_heap [OF pl] by (simp add: nodes_ok_def p_def)
qed

lemma append_one_ok:
  assumes "store_inv upd w" "nodes_ok th (h + s) f (look w)" "tree_height m = h" "sub_tree_height m = s"
    "c < 2 ^ h" "length b = 2 ^ s"
  obtains w' where "append_one th m upd c b w = (Inr (mnode th (put_leaves f (c * 2 ^ s) b) (h + s) 0), w')"
    "store_inv upd w'" "nodes_ok th (h + s) (put_leaves f (c * 2 ^ s) b) (look w')" "store_frame upd w' = store_frame upd w"
proof -
  obtain st where st: "make_complete_tree th s b = Some st" "length st = 2 ^ (s + 1) - 1"
    "heap_ok th s (nth st)" "\<And>j. j < 2 ^ s \<Longrightarrow> st ! (2 ^ s - 1 + j) = leaf_fn b j"
    using make_complete_tree_Some [of b s th] assms(6) by auto
  define n where "n = 2 ^ h - 1 + c"
  have n: "2 ^ h \<le> n + 1" "n + 1 < 2 ^ Suc h" "n + 1 - 2 ^ h = c"
    using assms(5) one_le_power [of "2::nat" h] unfolding n_def power_Suc by linarith+
  obtain rows where rows: "sub_rows s n 1 0 st = Some rows" "set rows = row_set n s st"
    by (rule sub_rows_row_set [OF st(2)])
  have pl: "plug th (look w) h s n st rows"
    using assms(2) n st(3) rows(2) by (simp add: plug_def nodes_ok_def)
  obtain w' where w': "bindM (climb get_node th h n (st ! 0)) (\<lambda>(hash, us).
       bindM (exec_updates (set_node upd) ((n, st ! 0) # us @ rows)) (\<lambda>_. returnM hash)) w = returnM (look w' 0) w'"
    "store_inv upd w'" "look w' = new_look th (look w) h n st rows" "store_frame upd w' = store_frame upd w"
    by (rule store.plug_run [OF assms(1) pl])
  have ok: "nodes_ok th (h + s) (put_leaves f (c * 2 ^ s) b) (look w')"
    using nodes_ok_plug [OF assms(2) n(1,2) st(3,4) assms(6) rows(2)] n(3) unfolding w'(3) by simp
  have "append_one th m upd c b w = (Inr (look w' 0), w')"
    unfolding append_one_def assms(3,4) st(1) option.case Let_def n_def [symmetric] rows(1) okM_Some bindM_returnM
    using w'(1) by (simp only: returnM_def)
  then show thesis using that w'(2,4) ok nodes_ok_root [OF ok] by simp
qed

lemma append_loop_ok:
  assumes "tree_height m = h" "sub_tree_height m = s"
  shows "store_inv upd w \<Longrightarrow> nodes_ok th (h + s) f (look w) \<Longrightarrow> c + length bs \<le> 2 ^ h \<Longrightarrow>
    (\<forall>b\<in>set bs. length b = 2 ^ s) \<Longrightarrow> hash = mnode th f (h + s) 0 \<or> bs \<noteq> [] \<Longrightarrow>
    \<exists>w'. append_loop th m upd c hash bs w = (Inr (mnode th (put_leaves f (c * 2 ^ s) (concat bs)) (h + s) 0), w') \<and>
      store_inv upd w' \<and> nodes_ok th (h + s) (put_leaves f (c * 2 ^ s) (concat bs)) (look w') \<and>
      store_frame upd w' = store_frame upd w"
proof (induction bs arbitrary: f c hash w)
  case Nil
  then show ?case by (simp add: returnM_def)
next
  case (Cons b bs)
  have c: "c < 2 ^ h" "c + 1 + length bs \<le> 2 ^ h" "length b = 2 ^ s" "\<forall>b\<in>set bs. length b = 2 ^ s"
    using Cons.prems(3,4) by auto
  obtain w1 where w1: "append_one th m upd c b w = (Inr (mnode th (put_leaves f (c * 2 ^ s) b) (h + s) 0), w1)"
    "store_inv upd w1" "nodes_ok th (h + s) (put_leaves f (c * 2 ^ s) b) (look w1)" "store_frame upd w1 = store_frame upd w"
    by (rule append_one_ok [OF Cons.prems(1,2) assms c(1,3)])
  have pos: "(c + 1) * 2 ^ s = c * 2 ^ s + length b" using c(3) by simp
  have merge: "put_leaves (put_leaves f (c * 2 ^ s) b) ((c + 1) * 2 ^ s) (concat bs) = put_leaves f (c * 2 ^ s) (concat (b # bs))"
    unfolding pos put_leaves_append by simp
  have run: "append_loop th m upd c hash (b # bs) w =
      append_loop th m upd (c + 1) (mnode th (put_leaves f (c * 2 ^ s) b) (h + s) 0) bs w1"
    by (simp add: bindM_def w1(1))
  show ?case
    using Cons.IH [OF w1(2,3) c(2,4) disjI1, OF refl] unfolding merge run w1(4) .
qed

lemma flush_cache_ok:
  assumes "faults w = []"
  shows "flush_cache w =
    (Inr (), w\<lparr>nodes := foldl (\<lambda>ns (i, v). AList.update i v ns) (nodes w) (cache w), cache := []\<rparr>)"
proof -
  have "forM c (\<lambda>(i, v). db_write DatabaseError (\<lambda>w. w\<lparr>nodes := AList.update i v (nodes w)\<rparr>)) u =
      (Inr (replicate (length c) ()), u\<lparr>nodes := foldl (\<lambda>ns (i, v). AList.update i v ns) (nodes u) c\<rparr>)"
    if "faults u = []" for c and u :: "('a, 'b) tree_db_scheme"
    using that
  proof (induction c arbitrary: u)
    case (Cons p c)
    obtain i v where p: "p = (i, v)" by force
    have "faults (u\<lparr>nodes := AList.update i v (nodes u)\<rparr>) = []" using Cons.prems by simp
    from Cons.IH [OF this] show ?case
      by (simp add: p bindM_def db_write_ok [OF Cons.prems] returnM_def)
  qed (simp add: returnM_def)
  from this [OF assms, of "cache w"] show ?thesis
    using assms by (simp add: flush_cache_def bindM_def db_read_ok db_write_ok)
qed

lemma flush_cache_empty: "faults w = [] \<Longrightarrow> cache w = [] \<Longrightarrow> flush_cache w = (Inr (), w)"
  by (simp add: flush_cache_ok)

lemma read_metadata_ok: "faults w = [] \<Longrightarrow> metadata w = Some m \<Longrightarrow> read_metadata w = (Inr m, w)"
  by (simp add: read_metadata_def bindM_def db_read_ok returnM_def)

lemma look_metadata [simp]: "look (w\<lparr>metadata := m\<rparr>) = look w"
  by (simp add: look_def fun_eq_iff split: option.split)

lemma append_sub_trees_ok:
  assumes "store_inv upd w" "tree_inv th h s c f w"
    "length leaves mod 2 ^ s = 0" "leaves \<noteq> []" "c + length leaves div 2 ^ s \<le> 2 ^ h"
  defines "f' \<equiv> put_leaves f (c * 2 ^ s) leaves" and "n \<equiv> length leaves div 2 ^ s"
  obtains w' where "store_inv upd w'" "nodes_ok th (h + s) f' (look w')" "store_frame upd w' = store_frame upd w"
    "append_sub_trees th leaves upd w =
       (if upd then (Inr (mnode th f' (h + s) 0, (c + n) * 2 ^ s),
          w'\<lparr>metadata := Some \<lparr>tree_height = h, sub_tree_height = s, sub_tree_count = c + n, root = mnode th f' (h + s) 0\<rparr>\<rparr>)
        else (Inr (mnode th f' (h + s) 0, c * 2 ^ s), w'))"
proof -
  let ?m = "\<lparr>tree_height = h, sub_tree_height = s, sub_tree_count = c, root = mnode th f (h + s) 0\<rparr>"
  have f: "faults w = []" using assms(1) by (simp add: store_inv_def)
  have m: "read_metadata w = (Inr ?m, w)"
    using read_metadata_ok [OF f] assms(2) by (simp add: tree_inv_def)
  have n: "length (chunks (2 ^ s) leaves) = n" unfolding n_def by (rule length_chunks) (simp_all add: assms(3))
  have each: "\<forall>b\<in>set (chunks (2 ^ s) leaves). length b = 2 ^ s"
    using chunks_length_mem [of "2 ^ s" leaves] assms(3) by simp
  have ne: "chunks (2 ^ s) leaves \<noteq> []" using assms(4) by (simp add: chunks_Cons)
  have nok: "nodes_ok th (h + s) f (look w)" using assms(2) by (simp add: tree_inv_def)
  have len: "c + length (chunks (2 ^ s) leaves) \<le> 2 ^ h" using assms(5) by (simp add: n n_def)
  obtain w' where w': "append_loop th ?m upd c 0 (chunks (2 ^ s) leaves) w = (Inr (mnode th f' (h + s) 0), w')"
    "store_inv upd w'" "nodes_ok th (h + s) f' (look w')" "store_frame upd w' = store_frame upd w"
    using append_loop_ok [OF _ _ assms(1) nok len each disjI2, of ?m, OF _ _ ne]
    by (auto simp: f'_def concat_chunks)
  have c: "\<not> 2 ^ h < c" using assms(5) by linarith
  have f': "faults w' = []" "upd \<Longrightarrow> cache w' = []" using w'(2) by (simp_all add: store_inv_def)
  have "append_sub_trees th leaves upd w =
       (if upd then (Inr (mnode th f' (h + s) 0, (c + n) * 2 ^ s),
          w'\<lparr>metadata := Some \<lparr>tree_height = h, sub_tree_height = s, sub_tree_count = c + n, root = mnode th f' (h + s) 0\<rparr>\<rparr>)
        else (Inr (mnode th f' (h + s) 0, c * 2 ^ s), w'))"
    using assms(3,4) c f'
    by (simp add: append_sub_trees_def bindM_def m w'(1) n Let_def db_write_ok flush_cache_empty returnM_def)
  then show thesis using that w'(2-4) by blast
qed

section \<open>Single leaves and subtrees in place\<close>

lemma heap_ok_0 [simp]: "heap_ok th 0 l"
  by (simp add: heap_ok_def)

lemma row_set_0 [simp]: "row_set n 0 st = {}"
  by (auto simp: row_set_def)

lemma insert_leaf_ok:
  fixes w :: "('f::zero, 'z) tree_db_scheme" and v :: 'f
  assumes "store_inv True w" "tree_inv th h s c f w" "c < 2 ^ h"
  defines "f' \<equiv> put_leaves f (c * 2 ^ s) [v]"
  obtains w' where "insert_leaf th v True w = (Inr (mnode th f' (h + s) 0), w')"
    "store_inv True w'" "tree_inv th h s (c + 1) f' w'" "tree_db.more w' = tree_db.more w"
proof -
  let ?m = "\<lparr>tree_height = h, sub_tree_height = s, sub_tree_count = c, root = mnode th f (h + s) 0\<rparr>"
  let ?n = "2 ^ (h + s) - 1 + c * 2 ^ s"
  have f: "faults w = []" and nok: "nodes_ok th (h + s + 0) f (look w)"
    using assms(1,2) by (simp_all add: store_inv_def tree_inv_def)
  have m: "read_metadata w = (Inr ?m, w)"
    using read_metadata_ok [OF f] assms(2) by (simp add: tree_inv_def)
  have "c * 2 ^ s < 2 ^ (h + s)" using assms(3) by (simp add: power_add)
  then have n: "2 ^ (h + s) \<le> ?n + 1" "?n + 1 < 2 ^ Suc (h + s)" "?n + 1 - 2 ^ (h + s) = c * 2 ^ s"
    using one_le_power [of "2::nat" "h + s"] unfolding power_Suc by linarith+
  have pl: "plug th (look w) (h + s) 0 ?n [v] []"
    using nok n(1,2) by (simp add: plug_def nodes_ok_def)
  define K :: "'f \<Rightarrow> ('f, 'z, 'f) treeM" where "K hash = bindM (db_write DatabaseError
      (\<lambda>w. w\<lparr>metadata := Some \<lparr>tree_height = h, sub_tree_height = s, sub_tree_count = c + 1, root = hash\<rparr>\<rparr>))
      (\<lambda>_. bindM flush_cache (\<lambda>_. returnM hash))" for hash
  obtain w' where w': "bindM (climb get_node th (h + s) ?n v) (\<lambda>(hash, us).
       bindM (exec_updates (set_node True) ((?n, v) # us)) (\<lambda>_. K hash)) w = K (look w' 0) w'"
    "store_inv True w'" "look w' = new_look th (look w) (h + s) ?n [v] []" "store_frame True w' = store_frame True w"
    using store.plug_run [OF assms(1) pl, of K] by auto
  have ok: "nodes_ok th (h + s) f' (look w')"
    using nodes_ok_plug [OF nok n(1,2), of "[v]" "[v]" "[]"] n(3) unfolding w'(3) by (simp add: f'_def leaf_fn_def)
  have fw: "faults w' = []" "cache w' = []" using w'(2) by (simp_all add: store_inv_def)
  let ?w = "w'\<lparr>metadata := Some \<lparr>tree_height = h, sub_tree_height = s, sub_tree_count = c + 1, root = look w' 0\<rparr>\<rparr>"
  have "insert_leaf th v True w = K (look w' 0) w'"
    using w'(1) by (simp add: insert_leaf_def bindM_Inr [of read_metadata, OF m] Let_def K_def del: exec_updates.simps)
  moreover have "K (look w' 0) w' = (Inr (look w' 0), ?w)"
    using fw by (simp add: K_def bindM_def db_write_ok flush_cache_empty returnM_def)
  moreover have "store_inv True ?w" "tree_db.more ?w = tree_db.more w"
    using w'(2,4) by (simp_all add: store_inv_def store_frame_def)
  moreover have "tree_inv th h s (c + 1) f' ?w"
    using ok nodes_ok_root [OF ok] by (simp add: tree_inv_def)
  ultimately show thesis using that nodes_ok_root [OF ok] by simp
qed

lemma ilog2_power [simp]: "ilog2 (2 ^ l) = l"
proof (induction l)
  case 0
  then show ?case by (simp add: ilog2.simps)
next
  case (Suc l)
  have "\<not> (2::nat) ^ Suc l \<le> 1" using one_le_power [of "2::nat" l] unfolding power_Suc by linarith
  moreover have "(2::nat) ^ Suc l div 2 = 2 ^ l" by simp
  ultimately show ?case using Suc by (subst ilog2.simps) (simp only: if_False)
qed

lemma next_power_of_two_power [simp]: "next_power_of_two (2 ^ l) = 2 ^ l"
proof -
  have "a \<le> l \<Longrightarrow> next_power_from (2 ^ a) (2 ^ l) = 2 ^ l" for a
  proof (induction "l - a" arbitrary: a)
    case 0
    then show ?case by (simp add: next_power_from.simps)
  next
    case (Suc d)
    then have "a < l" by simp
    then have "\<not> (2::nat) ^ l \<le> 2 ^ a" by (simp add: not_le)
    moreover have "next_power_from (2 ^ Suc a) (2 ^ l) = 2 ^ l" using Suc by (intro Suc.hyps) simp_all
    ultimately show ?case by (subst next_power_from.simps) simp
  qed
  from this [of 0] show ?thesis by (simp add: next_power_of_two_def)
qed

lemma update_sub_tree_ok:
  fixes w :: "('f::zero, 'z) tree_db_scheme"
  assumes "store_inv True w" "tree_inv th h s c f w" "length xs = 2 ^ l" "l = 0 \<or> l = s" "i < 2 ^ (h + s - l)"
  defines "f' \<equiv> put_leaves f (i * 2 ^ l) xs"
  obtains w' where "update_sub_tree th i xs True w = (Inr (mnode th f' (h + s) 0), w')"
    "store_inv True w'" "tree_inv th h s c f' w'" "tree_db.more w' = tree_db.more w"
proof -
  let ?m = "\<lparr>tree_height = h, sub_tree_height = s, sub_tree_count = c, root = mnode th f (h + s) 0\<rparr>"
  define t where "t = h + s - l"
  have tl: "t + l = h + s" using assms(4) by (auto simp: t_def)
  have f: "faults w = []" and nok: "nodes_ok th (t + l) f (look w)"
    using assms(1,2) by (simp_all add: store_inv_def tree_inv_def tl)
  have m: "read_metadata w = (Inr ?m, w)"
    using read_metadata_ok [OF f] assms(2) by (simp add: tree_inv_def)
  obtain st where st: "make_complete_tree th l xs = Some st" "length st = 2 ^ (l + 1) - 1"
    "heap_ok th l (nth st)" "\<And>j. j < 2 ^ l \<Longrightarrow> st ! (2 ^ l - 1 + j) = leaf_fn xs j"
    using make_complete_tree_Some [of xs l th] assms(3) by auto
  define n where "n = 2 ^ t - 1 + i"
  have n: "2 ^ t \<le> n + 1" "n + 1 < 2 ^ Suc t" "n + 1 - 2 ^ t = i"
    using assms(5) one_le_power [of "2::nat" t] unfolding n_def t_def power_Suc by linarith+
  obtain rows where rows: "(if length xs \<noteq> 1 then okM MerklePanic (sub_rows s n 1 0 st) else returnM []) = 
      (returnM rows :: ('f, 'z, (nat \<times> 'f) list) treeM)" "set rows = row_set n l st"
  proof (cases "l = 0")
    case True
    then show ?thesis using that [of "[]"] assms(3) by simp
  next
    case False
    then have ls: "l = s" "length xs \<noteq> 1" using assms(3,4) by auto
    obtain rows where "sub_rows l n 1 0 st = Some rows" "set rows = row_set n l st"
      by (rule sub_rows_row_set [OF st(2)])
    then show ?thesis using that [of rows] ls by simp
  qed
  have pl: "plug th (look w) t l n st rows"
    using nok n(1,2) st(3) rows(2) by (simp add: plug_def nodes_ok_def)
  define K :: "'f \<Rightarrow> ('f, 'z, 'f) treeM" where "K hash = bindM flush_cache (\<lambda>_. bindM (db_write DatabaseError
      (\<lambda>w. w\<lparr>metadata := Some \<lparr>tree_height = h, sub_tree_height = s, sub_tree_count = c, root = hash\<rparr>\<rparr>))
      (\<lambda>_. returnM hash))" for hash
  obtain w' where w': "bindM (climb get_node th t n (st ! 0)) (\<lambda>(hash, us).
       bindM (exec_updates (set_node True) ((n, st ! 0) # us @ rows)) (\<lambda>_. K hash)) w = K (look w' 0) w'"
    "store_inv True w'" "look w' = new_look th (look w) t n st rows" "store_frame True w' = store_frame True w"
    by (rule store.plug_run [OF assms(1) pl, of K])
  have ok: "nodes_ok th (h + s) f' (look w')"
    using nodes_ok_plug [OF nok n(1,2) st(3,4) assms(3) rows(2)] n(3) unfolding w'(3) by (simp add: f'_def tl)
  have fw: "faults w' = []" "cache w' = []" using w'(2) by (simp_all add: store_inv_def)
  let ?w = "w'\<lparr>metadata := Some \<lparr>tree_height = h, sub_tree_height = s, sub_tree_count = c, root = look w' 0\<rparr>\<rparr>"
  have "i < 2 ^ (h + s)"
    using assms(5) by (rule order.strict_trans2) (simp add: power_increasing)
  then have no: "(2 ^ (h + s) \<le> i) = False" "(xs = []) = False" "(l \<noteq> s \<and> h + s < l) = False"
    using assms(3,4) by auto
  have hgt: "(if l = s then h else h + s - l) = t" using assms(4) by (auto simp: t_def)
  have pow: "next_power_of_two (length xs) = length xs" "ilog2 (length xs) = l" using assms(3) by simp_all
  have "update_sub_tree th i xs True w = K (look w' 0) w'"
    unfolding w'(1) [symmetric]
    by (simp only: update_sub_tree_def bindM_Inr [of read_metadata, OF m] Let_def TreeMetadata.select_convs
        pow no hgt st(1) option.case n_def [symmetric] rows(1) bindM_returnM K_def if_True if_False simp_thms)
  moreover have "K (look w' 0) w' = (Inr (look w' 0), ?w)"
    using fw by (simp add: K_def bindM_def db_write_ok flush_cache_empty returnM_def)
  moreover have "store_inv True ?w" "tree_db.more ?w = tree_db.more w"
    using w'(2,4) by (simp_all add: store_inv_def store_frame_def)
  moreover have "tree_inv th h s c f' ?w"
    using ok nodes_ok_root [OF ok] by (simp add: tree_inv_def)
  ultimately show thesis using that nodes_ok_root [OF ok] by simp
qed

section \<open>Proofs of membership\<close>

text \<open>The check of a proof: hash up the sibling path (\<open>MembershipProof::verify\<close> compares the result with
  the root).\<close>

fun path_root :: "('f \<Rightarrow> 'f \<Rightarrow> 'f) \<Rightarrow> 'f \<Rightarrow> 'f PathElement list \<Rightarrow> 'f" where
  "path_root th v [] = v"
| "path_root th v (p # ps) =
     path_root th (case direction p of HashWithThisNodeOnLeft \<Rightarrow> th (path_value p) v
                                     | HashWithThisNodeOnRight \<Rightarrow> th v (path_value p)) ps"

fun siblings :: "(nat \<Rightarrow> 'f) \<Rightarrow> nat \<Rightarrow> nat \<Rightarrow> 'f PathElement list" where
  "siblings l 0 q = []"
| "siblings l (Suc n) q =
     (if even q then \<lparr>direction = HashWithThisNodeOnLeft, path_value = l (q - 1)\<rparr>
      else \<lparr>direction = HashWithThisNodeOnRight, path_value = l (q + 1)\<rparr>) # siblings l n ((q - 1) div 2)"

lemma read_siblings_ok: "faults w = [] \<Longrightarrow> read_siblings n q w = (Inr (siblings (look w) n q), w)"
proof (induction n arbitrary: q)
  case (Suc n)
  have "get_node i w = (Inr (look w i), w)" for i
    using store.get_ok [of False "w\<lparr>nodes := nodes w\<rparr>"] Suc.prems
    by (simp add: get_node_def look_def bindM_def db_read_ok returnM_def split: option.split)
  then show ?case
    using Suc by (simp add: bindM_def returnM_def even_iff_mod_2_eq_zero)
qed (simp add: returnM_def)

lemma path_root_climb: "path_root th v (siblings l n q) = fst (climb_fn th l n q v)"
  by (induction n arbitrary: q v) (auto simp: Let_def split: prod.splits)

lemma path_root_siblings:
  "heap_ok th t l \<Longrightarrow> 2 ^ t \<le> q + 1 \<Longrightarrow> q + 1 < 2 ^ Suc t \<Longrightarrow> path_root th (l q) (siblings l t q) = l 0"
proof (induction t arbitrary: q)
  case (Suc t)
  define p where "p = (q - 1) div 2"
  note pd = parent_depth [OF Suc.prems(2,3), folded p_def]
  note sib = sibling_cases [OF Suc.prems(2,3), folded p_def]
  have "heap_ok th t l" using Suc.prems(1) by (simp add: heap_ok_def)
  then have "path_root th (l p) (siblings l t p) = l 0" using Suc.IH pd(1,2) by blast
  moreover have "l p = th (l (2 * p + 1)) (l (2 * p + 2))"
    using Suc.prems(1) pd(2) unfolding heap_ok_def by blast
  ultimately show ?case using sib by (auto simp flip: p_def split: if_splits)
qed simp

lemma siblings_drop: "drop k (siblings l (k + n) q) = siblings l n (((\<lambda>q. (q - 1) div 2) ^^ k) q)"
  by (induction k arbitrary: q) (simp_all add: funpow_Suc_right del: funpow.simps(2))

lemma length_siblings [simp]: "length (siblings l n q) = n"
  by (induction n arbitrary: q) simp_all

lemma up_power: "2 ^ k \<le> q + (1::nat) \<Longrightarrow> ((\<lambda>q. (q - 1) div 2) ^^ k) q + 1 = (q + 1) div 2 ^ k"
proof (induction k arbitrary: q)
  case (Suc k)
  have two: "2 \<le> q + 1" using Suc.prems one_le_power [of "2::nat" k] unfolding power_Suc by linarith
  then have e: "(q - 1) div 2 + 1 = (q + 1) div 2" by presburger
  have "2 ^ k \<le> (q - 1) div 2 + 1" unfolding e using Suc.prems by (simp add: less_eq_div_iff_mult_less_eq mult.commute)
  from Suc.IH [OF this] show ?case
    unfolding funpow_Suc_right o_def e by (simp add: div_mult2_eq)
qed simp

lemma get_node_ok: "faults w = [] \<Longrightarrow> get_node i w = (Inr (look w i), w)"
  by (simp add: get_node_def look_def bindM_def db_read_ok returnM_def split: option.split)

lemma leaf_range: "j < 2 ^ H \<Longrightarrow> \<not> (2 ^ H - 1 + j < 2 ^ H - 1 \<or> 2 ^ (H + 1) - 2 < 2 ^ H - 1 + (j::nat))"
  using one_le_power [of "2::nat" H] unfolding power_add power_one_right by linarith

lemma membership_by_index:
  assumes "faults w = []" "tree_inv th h s c f w" "j < 2 ^ (h + s)"
  shows "get_membership_proof None (Some j) w =
    (Inr \<lparr>node_value = f j, sibling_path = siblings (look w) (h + s) (2 ^ (h + s) - 1 + j), leaf_index = j\<rparr>, w)"
proof -
  let ?m = "\<lparr>tree_height = h, sub_tree_height = s, sub_tree_count = c, root = mnode th f (h + s) 0\<rparr>"
  have m: "read_metadata w = (Inr ?m, w)"
    using read_metadata_ok [OF assms(1)] assms(2) by (simp add: tree_inv_def)
  define n where "n = 2 ^ (h + s) - 1 + j"
  have n: "j + 2 ^ (h + s) - 1 = n" "n + 1 - 2 ^ (h + s) = j"
    using one_le_power [of "2::nat" "h + s"] unfolding n_def by linarith+
  have range: "(n < 2 ^ (h + s) - 1 \<or> 2 ^ (h + s + 1) - 2 < n) = False"
    using leaf_range [OF assms(3)] unfolding n_def by blast
  have "look w n = f j" using assms(2,3) by (simp add: tree_inv_def nodes_ok_def n_def)
  then show ?thesis
    unfolding get_membership_proof_def bindM_Inr [of read_metadata, OF m] Let_def
    by (simp only: TreeMetadata.select_convs option.case prod.case bindM_returnM n range if_False n_def [symmetric])
      (simp add: bindM_def read_siblings_ok assms(1) get_node_ok returnM_def n)
qed

lemma siblings_root:
  assumes "nodes_ok th H f l" "j < 2 ^ H"
  shows "path_root th (f j) (siblings l H (2 ^ H - 1 + j)) = mnode th f H 0"
proof -
  have "2 ^ H \<le> 2 ^ H - 1 + j + 1" "2 ^ H - 1 + j + 1 < 2 ^ Suc H"
    using assms(2) one_le_power [of "2::nat" H] unfolding power_Suc by linarith+
  moreover have "heap_ok th H l" "l (2 ^ H - 1 + j) = f j" using assms by (simp_all add: nodes_ok_def)
  ultimately show ?thesis
    using path_root_siblings [of th H l "2 ^ H - 1 + j"] nodes_ok_root [OF assms(1)] by metis
qed

text \<open>Another value at a leaf changes the root as the same path says.\<close>

lemma siblings_put:
  fixes th :: "'f::zero \<Rightarrow> 'f \<Rightarrow> 'f"
  assumes "nodes_ok th H f l" "j < 2 ^ H"
  shows "path_root th v (siblings l H (2 ^ H - 1 + j)) = mnode th (put_leaves f j [v]) H 0"
proof -
  let ?n = "2 ^ H - 1 + j"
  have n: "2 ^ H \<le> ?n + 1" "?n + 1 < 2 ^ Suc H" "?n + 1 - 2 ^ H = j"
    using assms(2) one_le_power [of "2::nat" H] unfolding power_Suc by linarith+
  have ok: "nodes_ok th (H + 0) f l" using assms(1) by simp
  have st: "heap_ok th 0 (nth [v])" "\<And>i. i < 2 ^ 0 \<Longrightarrow> [v] ! (2 ^ 0 - 1 + i) = leaf_fn [v] i" "length [v] = 2 ^ 0"
    "set [] = row_set ?n 0 [v]"
    by (simp_all add: heap_ok_def leaf_fn_def)
  have pl: "plug th l H 0 ?n [v] []" using assms(1) n st(1,4) by (simp add: plug_def nodes_ok_def)
  have "path_root th v (siblings l H ?n) = new_look th l H ?n [v] [] 0"
    using plug_root [OF pl] by (simp add: path_root_climb)
  also have "\<dots> = mnode th (put_leaves f j [v]) H 0"
    using nodes_ok_root [OF nodes_ok_plug [OF ok n(1,2) st]] n(3) by simp
  finally show ?thesis .
qed

lemma membership_by_value:
  assumes "store_inv True w" "tree_inv th h s c f w" "get_membership_proof (Some v) None w = (Inr p, w')"
  shows "w' = w" "leaf_index p < 2 ^ (h + s)" "f (leaf_index p) = v" "node_value p = v"
    "sibling_path p = siblings (look w) (h + s) (2 ^ (h + s) - 1 + leaf_index p)"
proof -
  let ?m = "\<lparr>tree_height = h, sub_tree_height = s, sub_tree_count = c, root = mnode th f (h + s) 0\<rparr>"
  let ?H = "h + s"
  have f: "faults w = []" "cache w = []" "distinct (map fst (nodes w))"
    using assms(1) by (simp_all add: store_inv_def)
  have m: "read_metadata w = (Inr ?m, w)"
    using read_metadata_ok [OF f(1)] assms(2) by (simp add: tree_inv_def)
  have run: "get_membership_proof (Some v) None w =
      (if v = 0 then (Inl MerkleError, w)
       else case find (\<lambda>(_, x). x = v) (nodes w) of
              None \<Rightarrow> (Inl ItemNotFound, w)
            | Some (n, x) \<Rightarrow>
                if n < 2 ^ ?H - 1 \<or> 2 ^ (?H + 1) - 2 < n then (Inl InvalidProof, w)
                else (Inr \<lparr>node_value = v, sibling_path = siblings (look w) ?H n, leaf_index = n + 1 - 2 ^ ?H\<rparr>, w))"
    by (simp add: get_membership_proof_def bindM_def m db_read_ok f throwM_def okM_def
        returnM_def read_siblings_ok Let_def split: option.split prod.split)
  have nz: "v \<noteq> 0" using assms(3) run by (cases "v = 0") simp_all
  obtain n x where found: "find (\<lambda>(_, x). x = v) (nodes w) = Some (n, x)"
    using assms(3) run nz by (cases "find (\<lambda>(_, x). x = v) (nodes w)") auto
  define out where "out \<longleftrightarrow> n < 2 ^ ?H - 1 \<or> 2 ^ (?H + 1) - 2 < n"
  have "(if out then (Inl InvalidProof, w)
      else (Inr \<lparr>node_value = v, sibling_path = siblings (look w) ?H n, leaf_index = n + 1 - 2 ^ ?H\<rparr>, w)) = (Inr p, w')"
    using assms(3) unfolding run found out_def by (simp only: nz if_False option.case prod.case)
  then have range: "\<not> (n < 2 ^ ?H - 1 \<or> 2 ^ (?H + 1) - 2 < n)"
    and p: "p = \<lparr>node_value = v, sibling_path = siblings (look w) ?H n, leaf_index = n + 1 - 2 ^ ?H\<rparr>" "w' = w"
    unfolding out_def [symmetric] by (cases out; simp)+
  have one: "(1::nat) \<le> 2 ^ ?H" by simp
  obtain j where j: "n = 2 ^ ?H - 1 + j" "j < 2 ^ ?H"
  proof
    show "n = 2 ^ ?H - 1 + (n + 1 - 2 ^ ?H)" using range one by linarith
    show "n + 1 - 2 ^ ?H < 2 ^ ?H" using range one unfolding power_add [of 2 ?H 1] power_one_right by linarith
  qed
  have lj: "leaf_index p = j" using p j one by simp
  have "x = v" "(n, x) \<in> set (nodes w)" using found by (auto simp: find_Some_iff in_set_conv_nth)
  then have "look w n = v" using f(2,3) by (simp add: look_def)
  then have "f j = v" using assms(2) j by (simp add: tree_inv_def nodes_ok_def)
  then show "w' = w" "leaf_index p < 2 ^ ?H" "f (leaf_index p) = v" "node_value p = v"
    "sibling_path p = siblings (look w) ?H (2 ^ ?H - 1 + leaf_index p)"
    using p j lj by simp_all
qed

lemma insert_for_circuit_ok:
  assumes "th 0 0 = 0" "store_inv True w" "tree_inv th h s c f w" "length cs = 2 ^ s" "c < 2 ^ h"
    "\<And>j. c * 2 ^ s \<le> j \<Longrightarrow> j < (c + 1) * 2 ^ s \<Longrightarrow> f j = 0"
  defines "f' \<equiv> put_leaves f (c * 2 ^ s) cs"
  obtains w' path where "insert_for_circuit th cs w = (Inr
      \<lparr>old_root = mnode th f (h + s) 0, new_root = mnode th f' (h + s) 0,
       proof_of_emptiness = \<lparr>node_value = 0, sibling_path = path, leaf_index = c\<rparr>,
       leaf_count = (c + 1) * 2 ^ s, inserted_leaves = cs\<rparr>, w')"
    "store_inv True w'" "tree_inv th h s (c + 1) f' w'" "tree_db.more w' = tree_db.more w"
    "path_root th 0 path = mnode th f (h + s) 0"
    "path_root th (merkle_root th s cs) path = mnode th f' (h + s) 0"
proof -
  let ?m = "\<lparr>tree_height = h, sub_tree_height = s, sub_tree_count = c, root = mnode th f (h + s) 0\<rparr>"
  have f: "faults w = []" using assms(2) by (simp add: store_inv_def)
  have m: "read_metadata w = (Inr ?m, w)"
    using read_metadata_ok [OF f] assms(3) by (simp add: tree_inv_def)
  have nok: "nodes_ok th (h + s) f (look w)" using assms(3) by (simp add: tree_inv_def)
  define q where "q = 2 ^ (h + s) - 1 + c * 2 ^ s"
  define n where "n = 2 ^ h - 1 + c"
  have n: "2 ^ h \<le> n + 1" "n + 1 < 2 ^ Suc h" "n + 1 - 2 ^ h = c"
    using assms(5) one_le_power [of "2::nat" h] unfolding n_def power_Suc by linarith+
  have pos: "c * 2 ^ s < 2 ^ (h + s)" using assms(5) by (simp add: power_add)
  have q1: "q + 1 = (2 ^ h + c) * 2 ^ s" by (simp add: q_def power_add algebra_simps)
  have "1 * 2 ^ s \<le> (2 ^ h + c) * 2 ^ s" by (intro mult_right_mono) (simp_all add: trans_le_add1)
  then have "((\<lambda>q. (q - 1) div 2) ^^ s) q + 1 = 2 ^ h + c" using up_power [of s q] q1 by simp
  then have up: "((\<lambda>q. (q - 1) div 2) ^^ s) q = n" unfolding n_def by simp
  define path where "path = siblings (look w) h n"
  have path: "drop s (siblings (look w) (h + s) q) = path"
    using siblings_drop [of s "look w" h q] unfolding path_def up add.commute [of s h] .
  have ln: "look w n = 0"
  proof -
    have "look w n = mnode th (\<lambda>j. look w (2 ^ (h + s) - 1 + j)) s c"
      using heap_mnode [of th "h + s" "look w" s c] nok assms(5) by (simp add: nodes_ok_def n_def)
    also have "\<dots> = mnode th f s c"
    proof (rule mnode_cong)
      fix j assume "j < (c + 1) * 2 ^ s"
      also have "\<dots> \<le> 2 ^ h * 2 ^ s" using assms(5) by (intro mult_right_mono) simp_all
      finally show "look w (2 ^ (h + s) - 1 + j) = f j" using nok by (simp add: nodes_ok_def power_add)
    qed
    also have "\<dots> = 0" using assms(1,6) by (rule mnode_zero_range)
    finally show ?thesis .
  qed
  have top: "heap_ok th h (look w)"
  proof -
    have "x + 1 < 2 ^ (h + s)" if "x + 1 < 2 ^ h" for x :: nat
      using that by (rule order.strict_trans2) (simp add: power_increasing)
    then show ?thesis using nok by (simp add: heap_ok_def nodes_ok_def)
  qed
  have old: "path_root th 0 path = mnode th f (h + s) 0"
    using path_root_siblings [OF top n(1,2)] ln nodes_ok_root [OF nok] by (simp add: path_def)
  obtain st where st: "make_complete_tree th s cs = Some st" "length st = 2 ^ (s + 1) - 1"
    "heap_ok th s (nth st)" "\<And>j. j < 2 ^ s \<Longrightarrow> st ! (2 ^ s - 1 + j) = leaf_fn cs j"
    using make_complete_tree_Some [of cs s th] assms(4) by auto
  obtain rows where rows: "set rows = row_set n s st"
    by (rule sub_rows_row_set [OF st(2), of n])
  have pl: "plug th (look w) h s n st rows" using nok n st(3) rows by (simp add: plug_def nodes_ok_def)
  have "path_root th (st ! 0) path = mnode th f' (h + s) 0"
    using plug_root [OF pl] nodes_ok_root [OF nodes_ok_plug [OF nok n(1,2) st(3,4) assms(4) rows]] n(3)
    by (simp add: path_def path_root_climb f'_def)
  then have new: "path_root th (merkle_root th s cs) path = mnode th f' (h + s) 0"
    using make_complete_tree_root [OF _ st(1)] assms(4) by simp
  have len: "length cs mod 2 ^ s = 0" "cs \<noteq> []" "c + length cs div 2 ^ s \<le> 2 ^ h" "length cs div 2 ^ s = 1"
    using assms(4,5) by auto
  obtain w' where w': "store_inv True w'" "nodes_ok th (h + s) f' (look w')" "store_frame True w' = store_frame True w"
    "append_sub_trees th cs True w = (Inr (mnode th f' (h + s) 0, (c + 1) * 2 ^ s),
       w'\<lparr>metadata := Some \<lparr>tree_height = h, sub_tree_height = s, sub_tree_count = c + 1, root = mnode th f' (h + s) 0\<rparr>\<rparr>)"
    using append_sub_trees_ok [OF assms(2,3) len(1,2,3)] len(4) unfolding f'_def by auto
  let ?w = "w'\<lparr>metadata := Some \<lparr>tree_height = h, sub_tree_height = s, sub_tree_count = c + 1, root = mnode th f' (h + s) 0\<rparr>\<rparr>"
  have "store_inv True ?w" "tree_inv th h s (c + 1) f' ?w" "tree_db.more ?w = tree_db.more w"
    using w'(1-3) by (simp_all add: store_inv_def tree_inv_def store_frame_def)
  moreover have "insert_for_circuit th cs w = (Inr
      \<lparr>old_root = mnode th f (h + s) 0, new_root = mnode th f' (h + s) 0,
       proof_of_emptiness = \<lparr>node_value = 0, sibling_path = path, leaf_index = c\<rparr>,
       leaf_count = (c + 1) * 2 ^ s, inserted_leaves = cs\<rparr>, ?w)"
    unfolding insert_for_circuit_def bindM_Inr [of read_metadata, OF m] Let_def
    by (simp add: bindM_def membership_by_index [OF f assms(3) pos, folded q_def] w'(4) assms(4) returnM_def path)
  ultimately show thesis using that old new by blast
qed

section \<open>Properties\<close>

definition th_ex :: "nat \<Rightarrow> nat \<Rightarrow> nat" where
  "th_ex a b = 2 * a + 3 * b"

definition new_tree_ex :: "nat \<Rightarrow> nat \<Rightarrow> nat tree_db" where
  "new_tree_ex h s = \<lparr>faults = [], metadata = Some \<lparr>tree_height = h, sub_tree_height = s, sub_tree_count = 0, root = 0\<rparr>,
     nodes = [], cache = []\<rparr>"

lemma new_tree_ex_inv: "tree_inv th_ex h s 0 (\<lambda>_. 0) (new_tree_ex h s)"
  by (simp add: tree_inv_def nodes_ok_def heap_ok_def look_def new_tree_ex_def mnode_zero th_ex_def)

lemma new_tree_ex_store: "store_inv upd (new_tree_ex h s)"
  by (simp add: store_inv_def new_tree_ex_def)

text \<open>C18. Appending whole subtrees to a tree with room for them, with no stale cache: the result is the Merkle
  root of the leaves after the append and the next free leaf index; with \<open>update_tree\<close> the stored nodes,
  count and root are those of the new tree, without it the metadata and the stored nodes are unchanged.\<close>

theorem mutable_append:
  assumes "store_inv upd w" "tree_inv th h s c f w"
    "length leaves mod 2 ^ s = 0" "leaves \<noteq> []" "c + length leaves div 2 ^ s \<le> 2 ^ h"
  shows "let f' = put_leaves f (c * 2 ^ s) leaves; n = length leaves div 2 ^ s;
             r = append_sub_trees th leaves upd w
         in fst r = Inr (mnode th f' (h + s) 0, (if upd then c + n else c) * 2 ^ s) \<and>
            store_inv upd (snd r) \<and> tree_db.more (snd r) = tree_db.more w \<and>
            (if upd then tree_inv th h s (c + n) f' (snd r)
             else metadata (snd r) = metadata w \<and> nodes (snd r) = nodes w)"
proof -
  let ?f = "put_leaves f (c * 2 ^ s) leaves" and ?n = "length leaves div 2 ^ s"
  let ?m = "\<lparr>tree_height = h, sub_tree_height = s, sub_tree_count = c + ?n, root = mnode th ?f (h + s) 0\<rparr>"
  obtain w' where w': "store_inv upd w'" "nodes_ok th (h + s) ?f (look w')" "store_frame upd w' = store_frame upd w"
    "append_sub_trees th leaves upd w =
       (if upd then (Inr (mnode th ?f (h + s) 0, (c + ?n) * 2 ^ s), w'\<lparr>metadata := Some ?m\<rparr>)
        else (Inr (mnode th ?f (h + s) 0, c * 2 ^ s), w'))"
    by (rule append_sub_trees_ok [OF assms])
  show ?thesis
    using w'(1-3) unfolding w'(4) Let_def
    by (cases upd) (simp_all add: store_inv_def store_frame_def tree_inv_def)
qed

theorem mutable_append_witness:
  "fst (append_sub_trees th_ex [5, 7, 0, 1] True (new_tree_ex 2 1)) =
     Inr (mnode th_ex (put_leaves (\<lambda>_. 0) (0 * 2 ^ 1) [5, 7, 0, 1]) (2 + 1) 0, (0 + 4 div 2 ^ 1) * 2 ^ 1)"
  using mutable_append [OF new_tree_ex_store new_tree_ex_inv, of "[5, 7, 0, 1]" 1 2 True]
  by (simp add: Let_def)

text \<open>C19. A membership proof asked for by index, or for a non-zero value that is found among the leaves, hashes
  up to the root of the tree, from the leaf at the index it names.\<close>

theorem membership_proof_verifies:
  assumes "store_inv True w" "tree_inv th h s c f w"
    "get_membership_proof v i w = (Inr p, w')" "(\<exists>j. v = None \<and> i = Some j \<and> j < 2 ^ (h + s)) \<or> (\<exists>x. v = Some x \<and> i = None)"
  shows "path_root th (node_value p) (sibling_path p) = mnode th f (h + s) 0 \<and>
    node_value p = f (leaf_index p) \<and> leaf_index p < 2 ^ (h + s) \<and> length (sibling_path p) = h + s \<and> w' = w \<and>
    (case v of Some x \<Rightarrow> node_value p = x | None \<Rightarrow> i = Some (leaf_index p))"
proof -
  have nok: "nodes_ok th (h + s) f (look w)" using assms(2) by (simp add: tree_inv_def)
  have f: "faults w = []" using assms(1) by (simp add: store_inv_def)
  from assms(4) show ?thesis
  proof
    assume "\<exists>j. v = None \<and> i = Some j \<and> j < 2 ^ (h + s)"
    then obtain j where j: "v = None" "i = Some j" "j < 2 ^ (h + s)" by blast
    show ?thesis
      using assms(3) membership_by_index [OF f assms(2) j(3)] siblings_root [OF nok j(3)] j by auto
  next
    assume "\<exists>x. v = Some x \<and> i = None"
    then obtain x where x: "v = Some x" "i = None" by blast
    note m = membership_by_value [OF assms(1,2) assms(3) [unfolded x]]
    show ?thesis using m siblings_root [OF nok m(2)] by (simp add: x(1))
  qed
qed

theorem membership_proof_verifies_witness:
  "path_root th_ex (0 :: nat) (siblings (look (new_tree_ex 2 1)) (2 + 1) (2 ^ (2 + 1) - 1 + 3)) = mnode th_ex (\<lambda>_. 0) (2 + 1) 0"
proof -
  have "get_membership_proof None (Some 3) (new_tree_ex 2 1) =
      (Inr \<lparr>node_value = 0, sibling_path = siblings (look (new_tree_ex 2 1)) (2 + 1) (2 ^ (2 + 1) - 1 + 3),
         leaf_index = 3\<rparr>, new_tree_ex 2 1)"
    using membership_by_index [OF _ new_tree_ex_inv, of 2 1 3] by (simp add: new_tree_ex_def)
  from membership_proof_verifies [OF new_tree_ex_store new_tree_ex_inv this] show ?thesis by simp
qed

text \<open>Replacing one leaf, or one whole subtree of the configured size, of a stored tree makes the stored
  tree and its recorded root those of the changed leaves and returns that root.\<close>

theorem update_sub_tree_correct:
  assumes "store_inv True w" "tree_inv th h s c f w" "length xs = 2 ^ l" "l = 0 \<or> l = s" "i < 2 ^ (h + s - l)"
  shows "let r = update_sub_tree th i xs True w; f' = put_leaves f (i * 2 ^ l) xs
         in fst r = Inr (mnode th f' (h + s) 0) \<and> store_inv True (snd r) \<and> tree_inv th h s c f' (snd r) \<and>
            tree_db.more (snd r) = tree_db.more w"
  by (rule update_sub_tree_ok [OF assms]) (simp add: Let_def)

theorem update_sub_tree_correct_witness:
  "fst (update_sub_tree th_ex 5 [9] True (new_tree_ex 2 1)) = Inr (mnode th_ex (put_leaves (\<lambda>_. 0) (5 * 2 ^ 0) [9]) (2 + 1) 0)"
  using update_sub_tree_correct [OF new_tree_ex_store new_tree_ex_inv, of "[9]" 0 1 5 2] by (simp add: Let_def)

text \<open>The circuit information of an insertion into an empty subtree position: the same sibling path takes
  the zero node to the old root and the root of the inserted leaves to the new root, and the tree afterwards
  holds the leaves.\<close>

theorem insert_for_circuit_verifies:
  assumes "th 0 0 = 0" "store_inv True w" "tree_inv th h s c f w" "length cs = 2 ^ s" "c < 2 ^ h"
    "\<And>j. c * 2 ^ s \<le> j \<Longrightarrow> j < (c + 1) * 2 ^ s \<Longrightarrow> f j = 0"
  shows "\<exists>info w'. insert_for_circuit th cs w = (Inr info, w') \<and>
    old_root info = mnode th f (h + s) 0 \<and> new_root info = mnode th (put_leaves f (c * 2 ^ s) cs) (h + s) 0 \<and>
    node_value (proof_of_emptiness info) = 0 \<and>
    path_root th 0 (sibling_path (proof_of_emptiness info)) = old_root info \<and>
    path_root th (merkle_root th s cs) (sibling_path (proof_of_emptiness info)) = new_root info \<and>
    leaf_count info = (c + 1) * 2 ^ s \<and>
    store_inv True w' \<and> tree_inv th h s (c + 1) (put_leaves f (c * 2 ^ s) cs) w'"
  by (rule insert_for_circuit_ok [OF assms]) (auto intro!: exI)

theorem insert_for_circuit_verifies_witness:
  "\<exists>info w'. insert_for_circuit th_ex [4, 6] (new_tree_ex 2 1) = (Inr info, w') \<and>
    path_root th_ex (merkle_root th_ex 1 [4, 6]) (sibling_path (proof_of_emptiness info)) = new_root info"
proof -
  have "th_ex 0 0 = 0" "length [4, 6 :: nat] = 2 ^ 1" by (simp_all add: th_ex_def)
  from insert_for_circuit_verifies [OF this(1) new_tree_ex_store new_tree_ex_inv this(2), of 2] show ?thesis
    by auto
qed

text \<open>A node that was written to the cache by an append that did not update the tree shadows a later
  append that does: the flush at its end overwrites the new node with the stale one, so the stored leaf is not
  the one whose root was returned.\<close>

theorem stale_cache_overwrites:
  "let w1 = snd (append_sub_trees th_ex [5] False (new_tree_ex 1 0));
       r = append_sub_trees th_ex [7] True w1
   in fst r = Inr (14, 1) \<and> fst (get_root (snd r)) = Inr 14 \<and> fst (get_node 1 (snd r)) = Inr 5"
  by code_simp

text \<open>The capacity check does not count the leaves being appended: three leaves go into a tree with room for
  two, the third one is written below a leaf, and neither \<open>TreeIsFull\<close> is reported nor is the returned hash the
  root node of the tree.\<close>

theorem overfull_append_accepted:
  "let r = append_sub_trees th_ex [1, 2, 3] True (new_tree_ex 1 0)
   in fst r = Inr (6, 3) \<and> fst (get_root (snd r)) = Inr 6 \<and> fst (get_node 0 (snd r)) = Inr 8"
  by code_simp

text \<open>A node write that fails in the database is not reported: the append returns the new root and records
  it although the leaf was never stored.\<close>

theorem lost_node_write_accepted:
  "let r = append_sub_trees th_ex [5] True (new_tree_ex 1 0\<lparr>faults := [False, False, False, True]\<rparr>)
   in fst r = Inr (10, 1) \<and> fst (get_root (snd r)) = Inr 10 \<and> fst (get_node 1 (snd r)) = Inr 0"
  by code_simp

text \<open>An empty list of leaves is refused as an incorrect batch size: 0 is not its own next power of two, so
  the check that would report \<open>NoLeaves\<close> is never reached.\<close>

theorem update_sub_tree_empty:
  assumes "faults w = []" "metadata w = Some m"
  shows "update_sub_tree th i [] upd w = (Inl IncorrectBatchSize, w)"
proof -
  have "next_power_of_two 0 \<noteq> 0" by (simp add: next_power_of_two_def next_power_from.simps)
  then show ?thesis
    by (simp add: update_sub_tree_def bindM_Inr [of read_metadata, OF read_metadata_ok [OF assms]] Let_def throwM_def)
qed

theorem update_sub_tree_empty_witness:
  "fst (update_sub_tree th_ex 0 [] True (new_tree_ex 1 0)) = Inl IncorrectBatchSize"
  using update_sub_tree_empty [of "new_tree_ex 1 0"] by (simp add: new_tree_ex_def)

end
