(* ===== verification/Serialization.thy ===== *)
theory Serialization
  imports Field "HOL-Library.List_Lexorder" "HOL-Library.Char_ord"
begin

text \<open>
  \<open>lib/src/serialization.rs\<close>: the hexadecimal form field elements have in the database. The indexed
  tree finds the low leaf of a value by comparing these strings, so the point of the theory is that the
  order of the padded strings is the order of the field elements (\<open>padded_hex_less\<close>), and that the text
  reads back (\<open>fr_padded_roundtrip\<close>).

  arkworks' \<open>serialize_compressed\<close> / \<open>deserialize_with_mode\<close> and the crate function \<open>hex::decode\<close> are
  parameters; \<open>ser_ok\<close> and \<open>hex_ok\<close> say what is relied on: 32 little-endian bytes, and that decoding
  two lower-case digits per byte gives the bytes back.
\<close>

type_synonym byte = "8 word"

definition hex_digit :: "nat \<Rightarrow> char" where
  "hex_digit d = (if d < 10 then char_of (48 + d) else char_of (87 + d))"

text \<open>\<open>format "{byte:02x}"\<close>\<close>

definition hex02 :: "byte \<Rightarrow> string" where
  "hex02 b = [hex_digit (unat b div 16), hex_digit (unat b mod 16)]"

text \<open>The assertion on the length panics: \<open>None\<close>.\<close>

definition bytes_to_hex_lpadded :: "byte list \<Rightarrow> nat \<Rightarrow> string option" where
  "bytes_to_hex_lpadded bytes max_bytes =
     (if max_bytes < length bytes then None
      else let hex_str = concat (map hex02 bytes)
           in Some (replicate (max_bytes * 2 - length hex_str) CHR ''0'' @ hex_str))"

definition bigint_to_big_endian :: "byte list \<Rightarrow> byte list" where
  "bigint_to_big_endian bytes = rev bytes"

definition bytes_to_little_endian :: "byte list \<Rightarrow> byte list" where
  "bytes_to_little_endian bytes = rev bytes"

definition serialize_to_padded_hex :: "('f \<Rightarrow> byte list) \<Rightarrow> 'f \<Rightarrow> string option" where
  "serialize_to_padded_hex ser v = bytes_to_hex_lpadded (bigint_to_big_endian (ser v)) 32"

definition serialize_fr_padded :: "('f \<Rightarrow> byte list) \<Rightarrow> 'f \<Rightarrow> string option" where
  "serialize_fr_padded ser a = bytes_to_hex_lpadded (bigint_to_big_endian (ser a)) 32"

definition deserialize_fr_padded ::
    "(string \<Rightarrow> byte list option) \<Rightarrow> (byte list \<Rightarrow> 'f option) \<Rightarrow> string \<Rightarrow> 'f option" where
  "deserialize_fr_padded hex_decode de hex_str =
     (case hex_decode hex_str of
        None \<Rightarrow> None
      | Some bytes \<Rightarrow>
          (let unpadded = (if 32 < length bytes then drop (length bytes - 32) bytes else bytes)
           in de (bytes_to_little_endian unpadded)))"

text \<open>\<open>ark_se_hex\<close> / \<open>ark_de_hex\<close>: unpadded big-endian text; \<open>to_hex\<close> and \<open>from_hex\<close> are the byte-vector
  conversions of \<open>hex_conversion.rs\<close>.\<close>

definition ark_se_hex :: "(byte list \<Rightarrow> string) \<Rightarrow> ('f \<Rightarrow> byte list) \<Rightarrow> 'f \<Rightarrow> string" where
  "ark_se_hex to_hex ser a = to_hex (rev (ser a))"

definition ark_de_hex :: "(string \<Rightarrow> byte list option) \<Rightarrow> (byte list \<Rightarrow> 'f option) \<Rightarrow> string \<Rightarrow> 'f option" where
  "ark_de_hex from_hex de hex_str =
     (case from_hex hex_str of None \<Rightarrow> None | Some bytes \<Rightarrow> de (rev bytes))"

section \<open>What is relied on of the byte formats\<close>

fun le_value :: "byte list \<Rightarrow> nat" where
  "le_value [] = 0"
| "le_value (b # bs) = unat b + 256 * le_value bs"

definition ser_ok :: "(fr254 \<Rightarrow> byte list) \<Rightarrow> bool" where
  "ser_ok ser \<longleftrightarrow> (\<forall>x. length (ser x) = 32 \<and> le_value (ser x) = fr_val x)"

definition hex_ok :: "(string \<Rightarrow> byte list option) \<Rightarrow> bool" where
  "hex_ok hex_decode \<longleftrightarrow> (\<forall>bs. hex_decode (concat (map hex02 bs)) = Some bs)"

section \<open>The order of the padded strings\<close>

fun digits_value :: "nat list \<Rightarrow> nat" where
  "digits_value [] = 0"
| "digits_value (d # ds) = d * 16 ^ length ds + digits_value ds"

lemma digits_value_less: "\<forall>d\<in>set ds. d < 16 \<Longrightarrow> digits_value ds < 16 ^ length ds"
proof (induction ds)
  case (Cons d ds)
  then have "digits_value ds < 16 ^ length ds" and "d + 1 \<le> 16" by auto
  then have "digits_value (d # ds) < (d + 1) * 16 ^ length ds" by simp
  also have "\<dots> \<le> 16 * 16 ^ length ds" using \<open>d + 1 \<le> 16\<close> by (intro mult_right_mono) simp_all
  finally show ?case by simp
qed simp

lemma hex_digit_less: "d < 16 \<Longrightarrow> e < 16 \<Longrightarrow> hex_digit d < hex_digit e \<longleftrightarrow> d < e"
  by (auto simp: hex_digit_def less_char_def of_char_of)

lemma hex_digit_eq: "d < 16 \<Longrightarrow> e < 16 \<Longrightarrow> hex_digit d = hex_digit e \<longleftrightarrow> d = e"
  using hex_digit_less [of d e] hex_digit_less [of e d] by (metis less_irrefl linorder_neqE_nat)

lemma digits_less:
  "length ds = length es \<Longrightarrow> \<forall>d\<in>set ds. d < 16 \<Longrightarrow> \<forall>e\<in>set es. e < 16 \<Longrightarrow>
   map hex_digit ds < map hex_digit es \<longleftrightarrow> digits_value ds < digits_value es"
proof (induction ds es rule: list_induct2)
  case (Cons d ds e es)
  note bound = digits_value_less [of ds] digits_value_less [of es]
  have "digits_value (d # ds) < digits_value (e # es)" if "d < e"
  proof -
    have "digits_value (d # ds) < (d + 1) * 16 ^ length ds" using bound(1) Cons.prems by simp
    also have "\<dots> \<le> e * 16 ^ length ds" using that by (intro mult_right_mono) simp_all
    finally show ?thesis using Cons.hyps by simp
  qed
  moreover have "digits_value (e # es) < digits_value (d # ds)" if "e < d"
  proof -
    have "digits_value (e # es) < (e + 1) * 16 ^ length es" using bound(2) Cons.prems by simp
    also have "\<dots> \<le> d * 16 ^ length es" using that by (intro mult_right_mono) simp_all
    finally show ?thesis using Cons.hyps by simp
  qed
  ultimately show ?case
    using Cons hex_digit_less [of d e] hex_digit_eq [of d e]
    by (cases d e rule: linorder_cases) auto
qed simp

definition nibbles :: "byte list \<Rightarrow> nat list" where
  "nibbles bs = concat (map (\<lambda>b. [unat b div 16, unat b mod 16]) bs)"

lemma unat_byte_less [simp]: "unat (b :: byte) < 256"
  using unsigned_less [of b] by simp

lemma nibbles_range: "\<forall>d\<in>set (nibbles bs). d < 16"
  by (auto simp: nibbles_def less_mult_imp_div_less)

lemma length_nibbles [simp]: "length (nibbles bs) = 2 * length bs"
  by (induction bs) (simp_all add: nibbles_def)

lemma hex_nibbles: "concat (map hex02 bs) = map hex_digit (nibbles bs)"
  by (induction bs) (simp_all add: nibbles_def hex02_def)

lemma digits_value_append: "digits_value (ds @ es) = digits_value ds * 16 ^ length es + digits_value es"
  by (induction ds) (simp_all add: power_add algebra_simps)

lemma nibbles_append: "nibbles (xs @ ys) = nibbles xs @ nibbles ys"
  by (simp add: nibbles_def)

lemma digits_value_nibbles: "digits_value (nibbles (rev bs)) = le_value bs"
proof (induction bs)
  case (Cons b bs)
  have "unat b div 16 * 16 + unat b mod 16 = unat b" by simp
  then have "digits_value (nibbles [b]) = unat b" by (simp add: nibbles_def del: div_mult_mod_eq mod_div_decomp)
  then show ?case using Cons by (simp add: nibbles_append digits_value_append)
qed (simp add: nibbles_def)

lemma padded_hex_eq:
  assumes "ser_ok ser"
  shows "serialize_to_padded_hex ser x = Some (map hex_digit (nibbles (rev (ser x))))"
  using assms
  by (simp add: serialize_to_padded_hex_def bytes_to_hex_lpadded_def bigint_to_big_endian_def hex_nibbles ser_ok_def)

text \<open>The key of an element in the database.\<close>

definition padded_key :: "(fr254 \<Rightarrow> byte list) \<Rightarrow> fr254 \<Rightarrow> string" where
  "padded_key ser x = (case serialize_to_padded_hex ser x of Some s \<Rightarrow> s | None \<Rightarrow> [])"

lemma padded_key_less: "ser_ok ser \<Longrightarrow> padded_key ser x < padded_key ser y \<longleftrightarrow> x < y"
proof -
  assume ok: "ser_ok ser"
  have v: "digits_value (nibbles (rev (ser z))) = fr_val z" for z
    using ok by (simp add: digits_value_nibbles ser_ok_def)
  show ?thesis
    using ok digits_less [of "nibbles (rev (ser x))" "nibbles (rev (ser y))"] nibbles_range
    by (simp add: padded_key_def padded_hex_eq v ser_ok_def less_fr254_def)
qed

lemma padded_key_eq: "ser_ok ser \<Longrightarrow> padded_key ser x = padded_key ser y \<longleftrightarrow> x = y"
  using padded_key_less [of ser x y] padded_key_less [of ser y x] by (metis less_irrefl linorder_neqE)

section \<open>A byte format for the witnesses\<close>

fun le_bytes :: "nat \<Rightarrow> nat \<Rightarrow> byte list" where
  "le_bytes 0 n = []"
| "le_bytes (Suc k) n = of_nat (n mod 256) # le_bytes k (n div 256)"

lemma length_le_bytes [simp]: "length (le_bytes k n) = k"
  by (induction k arbitrary: n) simp_all

lemma le_value_bytes: "le_value (le_bytes k n) = n mod 256 ^ k"
proof (induction k arbitrary: n)
  case (Suc k)
  have "unat (of_nat (n mod 256) :: byte) = n mod 256" by (simp add: unat_of_nat)
  then show ?case using Suc by (simp add: mod_mult2_eq)
qed simp

lemma le_bytes_nth: "j < k \<Longrightarrow> le_bytes k v ! j = of_nat (v div 256 ^ j mod 256)"
proof (induction k arbitrary: j v)
  case (Suc k)
  then show ?case by (cases j) (simp_all add: div_mult2_eq)
qed simp

lemma ser_ok_le_bytes: "ser_ok (\<lambda>x. le_bytes 32 (fr_val x))"
proof -
  have "fr_modulus < 256 ^ 32" by (simp add: fr_modulus_def)
  then have "fr_val x < 256 ^ 32" for x using fr_val_less [of x] by linarith
  then show ?thesis by (simp add: ser_ok_def le_value_bytes)
qed

definition hex_value :: "char \<Rightarrow> nat option" where
  "hex_value c = find (\<lambda>d. hex_digit d = c) [0..<16]"

fun hex_decode_ex :: "string \<Rightarrow> byte list option" where
  "hex_decode_ex [] = Some []"
| "hex_decode_ex [c] = None"
| "hex_decode_ex (a # b # cs) =
     (case (hex_value a, hex_value b, hex_decode_ex cs) of
        (Some x, Some y, Some bs) \<Rightarrow> Some (of_nat (16 * x + y) # bs)
      | _ \<Rightarrow> None)"

lemma hex_value_digit: "d < 16 \<Longrightarrow> hex_value (hex_digit d) = Some d"
  unfolding hex_value_def find_Some_iff
  by (intro exI [of _ d]) (auto simp: hex_digit_eq)

lemma hex_ok_ex: "hex_ok hex_decode_ex"
proof -
  have "hex_decode_ex (concat (map hex02 bs)) = Some bs" for bs
  proof (induction bs)
    case (Cons b bs)
    have "(of_nat (16 * (unat b div 16) + unat b mod 16) :: byte) = b" by (simp only: mult_div_mod_eq) simp
    then show ?case
      using Cons by (simp add: hex02_def hex_value_digit less_mult_imp_div_less)
  qed simp
  then show ?thesis by (simp add: hex_ok_def)
qed

section \<open>Properties\<close>

text \<open>The padded hexadecimal keys the database compares are ordered as the field elements are, so the
  query for the greatest key below that of a value finds the greatest stored value below it.\<close>

theorem padded_hex_less:
  assumes "ser_ok ser" "serialize_to_padded_hex ser x = Some s" "serialize_to_padded_hex ser y = Some t"
  shows "(s < t \<longleftrightarrow> x < y) \<and> (s = t \<longleftrightarrow> x = y) \<and> length s = 64 \<and> length t = 64"
  using padded_key_less [OF assms(1), of x y] padded_key_eq [OF assms(1), of x y] assms
  by (auto simp: padded_key_def padded_hex_eq ser_ok_def)

theorem padded_hex_less_witness:
  "the (serialize_to_padded_hex (\<lambda>x. le_bytes 32 (fr_val x)) (fr 9)) <
   the (serialize_to_padded_hex (\<lambda>x. le_bytes 32 (fr_val x)) (fr 10))"
  using padded_hex_less [OF ser_ok_le_bytes padded_hex_eq [OF ser_ok_le_bytes] padded_hex_eq [OF ser_ok_le_bytes], of "fr 9" "fr 10"]
  by (simp add: padded_hex_eq [OF ser_ok_le_bytes] less_fr254_def fr_modulus_def)

text \<open>A field element written by \<open>serialize_fr_padded\<close> is read back by \<open>deserialize_fr_padded\<close>.\<close>

theorem fr_padded_roundtrip:
  assumes "hex_ok hex_decode" "\<forall>x. length (ser x) = 32 \<and> de (ser x) = Some x"
  shows "\<exists>s. serialize_fr_padded ser x = Some s \<and> deserialize_fr_padded hex_decode de s = Some x"
proof -
  have "length (concat (map hex02 (rev (ser x)))) = 64"
    using assms(2) by (simp add: hex_nibbles)
  then show ?thesis
    using assms
    by (simp add: serialize_fr_padded_def bytes_to_hex_lpadded_def bigint_to_big_endian_def
        deserialize_fr_padded_def bytes_to_little_endian_def hex_ok_def Let_def)
qed

theorem fr_padded_roundtrip_witness:
  "\<exists>s. serialize_fr_padded (\<lambda>x. le_bytes 32 (fr_val x)) (fr 1000) = Some s \<and>
       deserialize_fr_padded hex_decode_ex (\<lambda>bs. Some (fr (le_value bs))) s = Some (fr 1000)"
proof (rule fr_padded_roundtrip [OF hex_ok_ex])
  show "\<forall>x. length (le_bytes 32 (fr_val x)) = 32 \<and> Some (fr (le_value (le_bytes 32 (fr_val x)))) = Some x"
    using ser_ok_le_bytes by (simp add: ser_ok_def)
qed

end
