(* ===== verification/Hex_Conversion.thy ===== *)
theory Hex_Conversion
  imports Serialization
begin

text \<open>
  \<open>lib/src/hex_conversion.rs\<close>: the \<open>HexConvertible\<close> implementations. \<open>hex::encode\<close> and \<open>hex::decode\<close> are
  the parameters \<open>enc\<close> and \<open>dec\<close>; \<open>hex_pair\<close> says what is relied on: two lower-case digits per byte, and
  decoding reads them back. The scalar field of the baby Jubjub curve is the pair of conversions
  \<open>bjj_into\<close> (the representative) and \<open>bjj_from\<close> (reduction of an integer).
\<close>

datatype hex_error = InvalidStringLength | InvalidString | InvalidHexFormat | InvalidConversion

text \<open>\<open>strip_prefix("0x").unwrap_or(..)\<close>\<close>

fun strip_0x :: "string \<Rightarrow> string" where
  "strip_0x (a # b # s) = (if a = CHR ''0'' \<and> b = CHR ''x'' then s else a # b # s)"
| "strip_0x s = s"

text \<open>\<open>to_be_bytes\<close> and \<open>from_bytes_be\<close> of an unsigned integer.\<close>

definition be_bytes :: "nat \<Rightarrow> nat \<Rightarrow> byte list" where
  "be_bytes k n = rev (le_bytes k n)"

definition be_value :: "byte list \<Rightarrow> nat" where
  "be_value bs = le_value (rev bs)"

section \<open>The conversions\<close>

definition fr_to_hex_string :: "(byte list \<Rightarrow> string) \<Rightarrow> fr254 \<Rightarrow> string" where
  "fr_to_hex_string enc x = enc (be_bytes 32 (fr_val x))"

definition fr_from_hex_string :: "(string \<Rightarrow> byte list option) \<Rightarrow> string \<Rightarrow> hex_error + fr254" where
  "fr_from_hex_string dec hex_str =
     (case dec (strip_0x hex_str) of
        None \<Rightarrow> Inl InvalidHexFormat
      | Some decoded_bytes \<Rightarrow> Inr (fr (be_value decoded_bytes)))"

definition bjj_to_hex_string :: "(byte list \<Rightarrow> string) \<Rightarrow> ('b \<Rightarrow> nat) \<Rightarrow> 'b \<Rightarrow> string" where
  "bjj_to_hex_string enc bjj_into x = enc (be_bytes 32 (bjj_into x))"

text \<open>The loop that pushes zero bytes while the length is below 32 appends them at the end.\<close>

definition bjj_from_hex_string ::
    "(string \<Rightarrow> byte list option) \<Rightarrow> (nat \<Rightarrow> 'b) \<Rightarrow> string \<Rightarrow> hex_error + 'b" where
  "bjj_from_hex_string dec bjj_from hex_str =
     (case dec (strip_0x hex_str) of
        None \<Rightarrow> Inl InvalidHexFormat
      | Some decoded_bytes \<Rightarrow>
          (let padded = decoded_bytes @ replicate (32 - length decoded_bytes) 0
           in if length padded \<noteq> 32 then Inl InvalidStringLength
              else Inr (bjj_from (be_value padded))))"

definition i64_to_hex_string :: "(byte list \<Rightarrow> string) \<Rightarrow> 64 word \<Rightarrow> string" where
  "i64_to_hex_string enc i = enc (be_bytes 8 (unat i))"

definition i64_from_hex_string :: "(string \<Rightarrow> byte list option) \<Rightarrow> string \<Rightarrow> hex_error + 64 word" where
  "i64_from_hex_string dec hex_str =
     (let s = strip_0x hex_str;
          padded_hex_str = replicate (16 - length s) CHR ''0'' @ s
      in case dec padded_hex_str of
           None \<Rightarrow> Inl InvalidHexFormat
         | Some decoded_bytes \<Rightarrow>
             if length decoded_bytes \<noteq> 8 then Inl InvalidStringLength
             else Inr (of_nat (be_value decoded_bytes)))"

definition big_to_hex_string :: "(byte list \<Rightarrow> string) \<Rightarrow> 256 word \<Rightarrow> string" where
  "big_to_hex_string enc x = enc (be_bytes 32 (unat x))"

definition big_from_hex_string :: "(string \<Rightarrow> byte list option) \<Rightarrow> string \<Rightarrow> hex_error + 256 word" where
  "big_from_hex_string dec hex_str =
     (case dec (strip_0x hex_str) of
        None \<Rightarrow> Inl InvalidHexFormat
      | Some decoded_bytes \<Rightarrow>
          if 32 < length decoded_bytes then Inl InvalidStringLength
          else
            (let padded_bytes = replicate (32 - length decoded_bytes) 0 @ decoded_bytes;
                 big_uint = be_value padded_bytes
             in if big_uint < 2 ^ 256 then Inr (of_nat big_uint) else Inl InvalidConversion))"

definition bytes_to_hex_string :: "(byte list \<Rightarrow> string) \<Rightarrow> byte list \<Rightarrow> string" where
  "bytes_to_hex_string enc bs = enc bs"

definition bytes_from_hex_string :: "(string \<Rightarrow> byte list option) \<Rightarrow> string \<Rightarrow> hex_error + byte list" where
  "bytes_from_hex_string dec hex_str =
     (let s_int = strip_0x hex_str
      in if length s_int mod 2 \<noteq> 0 \<or> s_int = [] then Inl InvalidStringLength
         else case dec s_int of None \<Rightarrow> Inl InvalidString | Some bs \<Rightarrow> Inr bs)"

definition u256_to_hex_string :: "(byte list \<Rightarrow> string) \<Rightarrow> 256 word \<Rightarrow> string" where
  "u256_to_hex_string enc x = enc (be_bytes 32 (unat x))"

definition u256_from_hex_string :: "(string \<Rightarrow> byte list option) \<Rightarrow> string \<Rightarrow> hex_error + 256 word" where
  "u256_from_hex_string dec hex_str =
     (case dec (strip_0x hex_str) of
        None \<Rightarrow> Inl InvalidHexFormat
      | Some decoded_bytes \<Rightarrow>
          if 32 < length decoded_bytes then Inl InvalidStringLength
          else
            (let padded_bytes = replicate (32 - length decoded_bytes) 0 @ decoded_bytes
             in Inr (of_nat (be_value padded_bytes))))"

section \<open>Facts\<close>

definition hex_pair :: "(byte list \<Rightarrow> string) \<Rightarrow> (string \<Rightarrow> byte list option) \<Rightarrow> bool" where
  "hex_pair enc dec \<longleftrightarrow> (\<forall>bs. enc bs = concat (map hex02 bs)) \<and> hex_ok dec"

lemma hex_pairD: "hex_pair enc dec \<Longrightarrow> dec (enc bs) = Some bs" "hex_pair enc dec \<Longrightarrow> length (enc bs) = 2 * length bs"
  by (simp_all add: hex_pair_def hex_ok_def hex_nibbles)

lemma hex_digit_not_x: "d < 16 \<Longrightarrow> hex_digit d \<noteq> CHR ''x''"
  by (auto simp: hex_digit_def char_of_eq_iff take_bit_eq_mod)

lemma strip_enc: "hex_pair enc dec \<Longrightarrow> strip_0x (enc bs) = enc bs"
proof -
  assume p: "hex_pair enc dec"
  have "strip_0x (map hex_digit (nibbles bs)) = map hex_digit (nibbles bs)"
  proof (cases bs)
    case (Cons b cs)
    have "hex_digit (unat b mod 16) \<noteq> CHR ''x''" by (rule hex_digit_not_x) simp
    then show ?thesis by (simp add: Cons nibbles_def)
  qed (simp add: nibbles_def)
  then show ?thesis using p by (simp add: hex_pair_def hex_nibbles)
qed

lemma length_be_bytes [simp]: "length (be_bytes k n) = k"
  by (simp add: be_bytes_def)

lemma be_value_bytes: "be_value (be_bytes k n) = n mod 256 ^ k"
  by (simp add: be_value_def be_bytes_def le_value_bytes)

lemma fr_val_256: "fr_val x < 256 ^ 32"
proof -
  have "fr_modulus < 256 ^ 32" by (simp add: fr_modulus_def)
  then show ?thesis using fr_val_less [of x] by linarith
qed

lemma unat_256: "unat (x :: 256 word) < 256 ^ 32"
  using unsigned_less [of x] by simp

lemma unat_64: "unat (x :: 64 word) < 256 ^ 8"
  using unsigned_less [of x] by simp

lemma le_value_inject: "length xs = length ys \<Longrightarrow> le_value xs = le_value ys \<longleftrightarrow> xs = ys"
proof (induction xs ys rule: list_induct2)
  case (Cons x xs y ys)
  have "le_value (x # xs) = le_value (y # ys) \<longleftrightarrow> x = y \<and> le_value xs = le_value ys"
  proof
    assume e: "le_value (x # xs) = le_value (y # ys)"
    then have "le_value (x # xs) mod 256 = le_value (y # ys) mod 256" by simp
    then have "unat x = unat y" by simp
    with e show "x = y \<and> le_value xs = le_value ys" by (simp add: word_unat_eq_iff)
  qed simp
  then show ?case using Cons by simp
qed simp

lemma ser_le_bytes: "ser_ok ser \<Longrightarrow> ser x = le_bytes 32 (fr_val x)"
proof -
  assume ok: "ser_ok ser"
  have "le_value (ser x) = le_value (le_bytes 32 (fr_val x))"
    using ok fr_val_256 [of x] by (simp add: ser_ok_def le_value_bytes)
  then show ?thesis using ok le_value_inject [of "ser x" "le_bytes 32 (fr_val x)"] by (simp add: ser_ok_def)
qed

lemma key_text_inject: "hex_pair enc dec \<Longrightarrow> fr_to_hex_string enc x = fr_to_hex_string enc y \<longleftrightarrow> x = y"
proof -
  assume p: "hex_pair enc dec"
  have "fr_from_hex_string dec (fr_to_hex_string enc z) = Inr z" for z
    using p fr_val_256 [of z] by (simp add: fr_from_hex_string_def fr_to_hex_string_def strip_enc hex_pairD be_value_bytes)
  then show ?thesis by (metis sum.inject(2))
qed

lemma hex_pair_ex: "hex_pair (\<lambda>bs. concat (map hex02 bs)) hex_decode_ex"
  by (simp add: hex_pair_def hex_ok_ex)

section \<open>Properties\<close>

text \<open>Every value that is written as a hexadecimal string is read back, by each of the implementations
  (for the scalars of baby Jubjub, whose representatives fit 32 bytes and read back).\<close>

theorem hex_string_roundtrip:
  assumes "hex_pair enc dec" "bjj_into b < 2 ^ 256" "bjj_from (bjj_into b) = b" "bs \<noteq> []"
  shows "fr_from_hex_string dec (fr_to_hex_string enc x) = Inr x \<and>
    bjj_from_hex_string dec bjj_from (bjj_to_hex_string enc bjj_into b) = Inr b \<and>
    i64_from_hex_string dec (i64_to_hex_string enc i) = Inr i \<and>
    big_from_hex_string dec (big_to_hex_string enc n) = Inr n \<and>
    bytes_from_hex_string dec (bytes_to_hex_string enc bs) = Inr bs \<and>
    u256_from_hex_string dec (u256_to_hex_string enc u) = Inr u"
proof (intro conjI)
  note p = strip_enc [OF assms(1)] hex_pairD [OF assms(1)]
  show "fr_from_hex_string dec (fr_to_hex_string enc x) = Inr x"
    using fr_val_256 [of x] by (simp add: fr_from_hex_string_def fr_to_hex_string_def p be_value_bytes)
  show "bjj_from_hex_string dec bjj_from (bjj_to_hex_string enc bjj_into b) = Inr b"
    using assms(2,3) by (simp add: bjj_from_hex_string_def bjj_to_hex_string_def p be_value_bytes)
  show "i64_from_hex_string dec (i64_to_hex_string enc i) = Inr i"
    using unat_64 [of i] by (simp add: i64_from_hex_string_def i64_to_hex_string_def p be_value_bytes Let_def)
  show "big_from_hex_string dec (big_to_hex_string enc n) = Inr n"
    using unat_256 [of n] by (simp add: big_from_hex_string_def big_to_hex_string_def p be_value_bytes)
  show "u256_from_hex_string dec (u256_to_hex_string enc u) = Inr u"
    using unat_256 [of u] by (simp add: u256_from_hex_string_def u256_to_hex_string_def p be_value_bytes)
  have "enc bs \<noteq> []" using p(3) [of bs] assms(4) by fastforce
  then show "bytes_from_hex_string dec (bytes_to_hex_string enc bs) = Inr bs"
    by (simp add: bytes_from_hex_string_def bytes_to_hex_string_def p Let_def)
qed

theorem hex_string_roundtrip_witness:
  "fr_from_hex_string hex_decode_ex (fr_to_hex_string (\<lambda>bs. concat (map hex02 bs)) (fr 77)) = Inr (fr 77)"
  by (rule hex_string_roundtrip [where bjj_into = "\<lambda>n. n" and bjj_from = "\<lambda>n. n" and b = "1 :: nat" and bs = "[1]",
      THEN conjunct1]) (simp_all add: hex_pair_ex)

text \<open>The text by which queries look a field element up (\<open>to_hex_string\<close>) is the text it has in a stored
  document (\<open>ark_se_hex\<close>), and different elements have different texts; so a query by the text finds the
  documents of that element and no others.\<close>

theorem query_text_matches:
  assumes "hex_pair enc dec" "ser_ok ser"
  shows "ark_se_hex (bytes_to_hex_string enc) ser x = fr_to_hex_string enc x \<and>
    (ark_se_hex (bytes_to_hex_string enc) ser x = fr_to_hex_string enc y \<longleftrightarrow> x = y)"
proof -
  have "ark_se_hex (bytes_to_hex_string enc) ser z = fr_to_hex_string enc z" for z
    by (simp add: ark_se_hex_def bytes_to_hex_string_def fr_to_hex_string_def be_bytes_def ser_le_bytes [OF assms(2)])
  then show ?thesis using key_text_inject [OF assms(1)] by simp
qed

theorem query_text_matches_witness:
  "ark_se_hex (bytes_to_hex_string (\<lambda>bs. concat (map hex02 bs))) (\<lambda>x. le_bytes 32 (fr_val x)) (fr 5) =
     fr_to_hex_string (\<lambda>bs. concat (map hex02 bs)) (fr 5)"
  by (rule query_text_matches [OF hex_pair_ex ser_ok_le_bytes, THEN conjunct1])

text \<open>A text shorter than 32 bytes is padded on the right for a baby Jubjub scalar, so it reads as the value
  shifted up by the missing bytes; the big integers are padded on the left and read as the value.\<close>

theorem bjj_short_hex_is_shifted:
  assumes "dec (strip_0x t) = Some bs" "length bs \<le> 32"
  shows "bjj_from_hex_string dec bjj_from t = Inr (bjj_from (be_value bs * 256 ^ (32 - length bs))) \<and>
    big_from_hex_string dec t = Inr (of_nat (be_value bs))"
proof -
  have app: "le_value (xs @ ys) = le_value xs + 256 ^ length xs * le_value ys" for xs ys
    by (induction xs) (simp_all add: algebra_simps)
  have zero: "le_value (replicate k 0) = 0" for k by (induction k) simp_all
  have bound: "le_value xs < 256 ^ length xs" for xs
  proof (induction xs)
    case (Cons b xs)
    have "unat b + 256 * le_value xs < 256 * (le_value xs + 1)" unfolding distrib_left by simp
    also have "\<dots> \<le> 256 * 256 ^ length xs" using Cons by (intro mult_left_mono) simp_all
    finally show ?case by simp
  qed simp
  have pad: "be_value (replicate (32 - length bs) 0 @ bs) = be_value bs"
    by (simp add: be_value_def app zero)
  have "be_value bs < 256 ^ length bs" using bound [of "rev bs"] by (simp add: be_value_def)
  also have "\<dots> \<le> 256 ^ 32" using assms(2) by (intro power_increasing) simp_all
  finally have b: "be_value bs < 2 ^ 256" by simp
  have shift: "be_value (bs @ replicate (32 - length bs) 0) = be_value bs * 256 ^ (32 - length bs)"
    by (simp add: be_value_def app zero)
  have "bjj_from_hex_string dec bjj_from t = Inr (bjj_from (be_value bs * 256 ^ (32 - length bs)))"
    using assms by (simp add: bjj_from_hex_string_def Let_def shift)
  moreover have "big_from_hex_string dec t = Inr (of_nat (be_value bs))"
    using assms b by (simp add: big_from_hex_string_def Let_def pad)
  ultimately show ?thesis ..
qed

theorem bjj_short_hex_is_shifted_witness:
  "bjj_from_hex_string hex_decode_ex (\<lambda>n. n) ''0x05'' = Inr (be_value [5] * 256 ^ (32 - length [5 :: byte])) \<and>
   big_from_hex_string hex_decode_ex ''0x05'' = Inr (of_nat (be_value [5]))"
proof (rule bjj_short_hex_is_shifted)
  show "hex_decode_ex (strip_0x ''0x05'') = Some [5]" by code_simp
qed simp

end
