(* ===== verification/Client_Entities.thy ===== *)
theory Client_Entities
  imports Hex_Conversion
begin

text \<open>
  \<open>nightfall_client/src/domain/entities.rs\<close>: the data of the client. The Poseidon hash is the parameter
  \<open>poseidon\<close> (\<open>None\<close> is \<open>PoseidonError\<close>); \<open>serde_json\<close> and Keccak are parameters of the one function that
  uses them. A point of the baby Jubjub curve is its pair of affine coordinates.
\<close>

type_synonym poseidon = "fr254 list \<Rightarrow> fr254 option"

section \<open>Requests and states\<close>

datatype RequestStatus = Queued | Submitted | Failed | Processing | ProposerUnreachable | Confirmed

fun request_status_to_string :: "RequestStatus \<Rightarrow> string" where
  "request_status_to_string Queued = ''Queued''"
| "request_status_to_string Submitted = ''Submitted''"
| "request_status_to_string Failed = ''Failed''"
| "request_status_to_string Processing = ''Processing''"
| "request_status_to_string ProposerUnreachable = ''ProposerUnreachable''"
| "request_status_to_string Confirmed = ''Confirmed''"

record Request =
  req_status :: RequestStatus
  req_uuid :: string

record RequestCommitmentMapping =
  rcm_request_id :: string
  rcm_commitment_hash :: string

datatype SynchronisationPhase = Synchronized | AheadOfChain nat | Desynchronized

record SynchronisationStatus =
  sync_phase :: SynchronisationPhase

definition new_sync_status :: "SynchronisationPhase \<Rightarrow> SynchronisationStatus" where
  "new_sync_status p = \<lparr>sync_phase = p\<rparr>"

definition is_synchronised :: "SynchronisationStatus \<Rightarrow> bool" where
  "is_synchronised s = (case sync_phase s of Synchronized \<Rightarrow> True | _ \<Rightarrow> False)"

definition set_synchronised :: "SynchronisationStatus \<Rightarrow> SynchronisationStatus" where
  "set_synchronised s = s\<lparr>sync_phase := Synchronized\<rparr>"

definition clear_synchronised :: "SynchronisationStatus \<Rightarrow> SynchronisationStatus" where
  "clear_synchronised s = s\<lparr>sync_phase := Desynchronized\<rparr>"

datatype CommitmentStatus = PendingSpend | Spent | PendingCreation | Unspent

section \<open>Operations and token types\<close>

datatype Transport = OnChain | OffChain

datatype OperationType = Deposit | Withdraw | Transfer

fun operation_type_to_string :: "OperationType \<Rightarrow> string" where
  "operation_type_to_string Deposit = ''Deposit''"
| "operation_type_to_string Withdraw = ''Withdraw''"
| "operation_type_to_string Transfer = ''Transfer''"

fun operation_type_to_u8 :: "OperationType \<Rightarrow> 8 word" where
  "operation_type_to_u8 Deposit = 0"
| "operation_type_to_u8 Withdraw = 1"
| "operation_type_to_u8 Transfer = 2"

definition operation_type_from_u8 :: "8 word \<Rightarrow> OperationType" where
  "operation_type_from_u8 v =
     (if v = 0 then Deposit else if v = 1 then Withdraw else if v = 2 then Transfer else Deposit)"

record Operation =
  op_transport :: Transport
  op_type :: OperationType

definition operation_from_str :: "string \<Rightarrow> Operation option" where
  "operation_from_str s =
     (if s = ''deposit-onchain'' then Some \<lparr>op_transport = OnChain, op_type = Deposit\<rparr>
      else if s = ''deposit-offchain'' then Some \<lparr>op_transport = OffChain, op_type = Deposit\<rparr>
      else if s = ''withdraw-onchain'' then Some \<lparr>op_transport = OnChain, op_type = Withdraw\<rparr>
      else if s = ''withdraw-offchain'' then Some \<lparr>op_transport = OffChain, op_type = Withdraw\<rparr>
      else if s = ''transfer-onchain'' then Some \<lparr>op_transport = OnChain, op_type = Transfer\<rparr>
      else if s = ''transfer-offchain'' then Some \<lparr>op_transport = OffChain, op_type = Transfer\<rparr>
      else None)"

datatype ProofType = Groth16 | Plonk

definition proof_type_from_str :: "string \<Rightarrow> ProofType option" where
  "proof_type_from_str s = (if s = ''Groth16'' then Some Groth16 else if s = ''Plonk'' then Some Plonk else None)"

datatype TokenType = ERC20 | ERC1155 | ERC721 | ERC3525

fun token_type_to_u8 :: "TokenType \<Rightarrow> 8 word" where
  "token_type_to_u8 ERC20 = 0"
| "token_type_to_u8 ERC1155 = 1"
| "token_type_to_u8 ERC721 = 2"
| "token_type_to_u8 ERC3525 = 3"

definition token_type_from_u8 :: "8 word \<Rightarrow> TokenType" where
  "token_type_from_u8 v =
     (if v = 0 then ERC20 else if v = 1 then ERC1155 else if v = 2 then ERC721 else if v = 3 then ERC3525 else ERC20)"

section \<open>Transactions\<close>

record CompressedSecrets =
  cipher_text :: "fr254 list"

record OnChainTransaction =
  oct_fee :: fr254
  oct_commitments :: "fr254 list"
  oct_nullifiers :: "fr254 list"
  oct_public_data :: CompressedSecrets

record 'p ClientTransaction =
  ct_fee :: fr254
  ct_historic_commitment_roots :: "fr254 list"
  ct_commitments :: "fr254 list"
  ct_nullifiers :: "fr254 list"
  ct_compressed_secrets :: CompressedSecrets
  ct_proof :: 'p

text \<open>\<open>ClientTransaction::hash\<close>: the bytes of the digest widened to \<open>u32\<close>; \<open>None\<close> is \<open>InvalidData\<close>.\<close>

definition client_transaction_hash ::
    "('p ClientTransaction \<Rightarrow> byte list option) \<Rightarrow> (byte list \<Rightarrow> byte list) \<Rightarrow> 'p ClientTransaction \<Rightarrow> 32 word list option" where
  "client_transaction_hash to_vec keccak tx = map_option (\<lambda>encoding. map ucast (keccak encoding)) (to_vec tx)"

section \<open>Commitments\<close>

record TEAffine =
  te_x :: fr254
  te_y :: fr254

text \<open>The neutral point \<open>TEAffine::zero()\<close> of the twisted Edwards curve, which is also its default.\<close>

definition te_zero :: TEAffine where
  "te_zero = \<lparr>te_x = 0, te_y = 1\<rparr>"

record DepositSecret =
  preimage_one :: fr254
  preimage_two :: fr254
  preimage_three :: fr254

definition deposit_secret_default :: DepositSecret where
  "deposit_secret_default = \<lparr>preimage_one = 0, preimage_two = 0, preimage_three = 0\<rparr>"

definition deposit_secret_hash :: "poseidon \<Rightarrow> DepositSecret \<Rightarrow> unit + fr254" where
  "deposit_secret_hash poseidon d = okS () (poseidon [preimage_one d, preimage_two d, preimage_three d])"

definition deposit_secret_to_array :: "DepositSecret \<Rightarrow> fr254 list" where
  "deposit_secret_to_array d = [preimage_one d, preimage_two d, preimage_three d]"

datatype Salt = SaltTransfer fr254 | SaltDeposit DepositSecret

definition salt_default :: Salt where
  "salt_default = SaltTransfer 0"

text \<open>The hash of a deposit secret is unwrapped.\<close>

definition get_salt :: "poseidon \<Rightarrow> Salt \<Rightarrow> unit failure + fr254" where
  "get_salt poseidon s =
     (case s of
        SaltTransfer f \<Rightarrow> Inr f
      | SaltDeposit d \<Rightarrow> (case deposit_secret_hash poseidon d of Inl _ \<Rightarrow> Inl Panics | Inr h \<Rightarrow> Inr h))"

record Preimage =
  pre_value :: fr254
  pre_nf_token_id :: fr254
  pre_nf_slot_id :: fr254
  pre_public_key :: TEAffine
  pre_salt :: Salt

definition preimage_new :: "fr254 \<Rightarrow> fr254 \<Rightarrow> fr254 \<Rightarrow> TEAffine \<Rightarrow> Salt \<Rightarrow> Preimage" where
  "preimage_new value nf_token_id nf_slot_id public_key salt =
     \<lparr>pre_value = value, pre_nf_token_id = nf_token_id, pre_nf_slot_id = nf_slot_id,
      pre_public_key = public_key, pre_salt = salt\<rparr>"

definition preimage_default :: Preimage where
  "preimage_default = preimage_new 0 0 0 te_zero salt_default"

definition preimage_hash :: "poseidon \<Rightarrow> Preimage \<Rightarrow> unit failure + fr254" where
  "preimage_hash poseidon p =
     bindS (get_salt poseidon (pre_salt p)) (\<lambda>salt.
     okS (Fails ()) (poseidon [pre_nf_token_id p, pre_nf_slot_id p, pre_value p,
       te_x (pre_public_key p), te_y (pre_public_key p), salt]))"

definition get_secret_preimage :: "Preimage \<Rightarrow> DepositSecret" where
  "get_secret_preimage p = (case pre_salt p of SaltTransfer _ \<Rightarrow> deposit_secret_default | SaltDeposit d \<Rightarrow> d)"

definition nullifier_hash :: "poseidon \<Rightarrow> Preimage \<Rightarrow> fr254 \<Rightarrow> unit failure + fr254" where
  "nullifier_hash poseidon p nullifier_key =
     bindS (preimage_hash poseidon p) (\<lambda>commitment_hash.
     okS (Fails ()) (poseidon [nullifier_key, commitment_hash]))"

section \<open>Withdrawals and addresses\<close>

record WithdrawData =
  wd_nf_token_id :: fr254
  wd_withdraw_address :: fr254
  wd_value :: fr254
  wd_withdraw_fund_salt :: fr254

definition withdraw_data_new :: "fr254 \<Rightarrow> fr254 \<Rightarrow> fr254 \<Rightarrow> fr254 \<Rightarrow> WithdrawData" where
  "withdraw_data_new nf_token_id withdraw_address value nullifier_one =
     \<lparr>wd_nf_token_id = nf_token_id, wd_withdraw_address = withdraw_address, wd_value = value,
      wd_withdraw_fund_salt = nullifier_one\<rparr>"

definition withdraw_data_from :: "'p ClientTransaction \<Rightarrow> WithdrawData" where
  "withdraw_data_from tx =
     (let ct = cipher_text (ct_compressed_secrets tx)
      in \<lparr>wd_nf_token_id = ct ! 0, wd_withdraw_address = ct ! 1, wd_value = ct ! 2,
          wd_withdraw_fund_salt = ct_nullifiers tx ! 0\<rparr>)"

definition erc_address_from_hex :: "(string \<Rightarrow> byte list option) \<Rightarrow> string \<Rightarrow> hex_error + fr254" where
  "erc_address_from_hex dec h =
     bindS (bytes_from_hex_string dec h) (\<lambda>bytes.
     (let uint = be_value bytes
      in if uint > be_value (replicate 20 255) then Inl InvalidStringLength else Inr (fr uint)))"

section \<open>Facts\<close>

text \<open>What the code relies on of Poseidon: the lengths it hashes are supported.\<close>

definition poseidon_ok :: "poseidon \<Rightarrow> bool" where
  "poseidon_ok poseidon \<longleftrightarrow> (\<forall>xs. length xs \<in> {2, 3, 4, 6} \<longrightarrow> poseidon xs \<noteq> None)"

lemma poseidon_okD: "poseidon_ok poseidon \<Longrightarrow> length xs \<in> {2, 3, 4, 6} \<Longrightarrow> \<exists>h. poseidon xs = Some h"
  by (auto simp: poseidon_ok_def)

lemma get_salt_ok: "poseidon_ok poseidon \<Longrightarrow> \<exists>v. get_salt poseidon s = Inr v"
proof (cases s)
  case (SaltDeposit d)
  assume "poseidon_ok poseidon"
  from poseidon_okD [OF this, of "[preimage_one d, preimage_two d, preimage_three d]"] SaltDeposit
  show ?thesis by (auto simp: get_salt_def deposit_secret_hash_def)
qed (simp add: get_salt_def)

lemma preimage_hash_ok: "poseidon_ok poseidon \<Longrightarrow> \<exists>h. preimage_hash poseidon p = Inr h"
proof -
  assume ok: "poseidon_ok poseidon"
  obtain s where "get_salt poseidon (pre_salt p) = Inr s" using get_salt_ok [OF ok] by blast
  then show ?thesis
    using poseidon_okD [OF ok, of "[pre_nf_token_id p, pre_nf_slot_id p, pre_value p,
       te_x (pre_public_key p), te_y (pre_public_key p), s]"] by (auto simp: preimage_hash_def)
qed

definition commitment_key :: "poseidon \<Rightarrow> Preimage \<Rightarrow> fr254" where
  "commitment_key poseidon p = (case preimage_hash poseidon p of Inr h \<Rightarrow> h | Inl _ \<Rightarrow> 0)"

lemma commitment_key: "poseidon_ok poseidon \<Longrightarrow> preimage_hash poseidon p = Inr (commitment_key poseidon p)"
  using preimage_hash_ok [of poseidon p] by (auto simp: commitment_key_def)

section \<open>Properties\<close>

text \<open>The numbers of token and operation types are read back; a number that stands for no type is read as
  \<open>ERC20\<close> and as \<open>Deposit\<close>, and only these numbers are not read back.\<close>

theorem type_codes_roundtrip:
  "token_type_from_u8 (token_type_to_u8 t) = t \<and> operation_type_from_u8 (operation_type_to_u8 o') = o' \<and>
   (token_type_to_u8 (token_type_from_u8 n) = n \<longleftrightarrow> unat n < 4) \<and>
   (operation_type_to_u8 (operation_type_from_u8 n) = n \<longleftrightarrow> unat n < 3) \<and>
   (4 \<le> unat n \<longrightarrow> token_type_from_u8 n = ERC20 \<and> operation_type_from_u8 n = Deposit)"
proof -
  have "(n = 0 \<longleftrightarrow> unat n = 0) \<and> (n = 1 \<longleftrightarrow> unat n = 1) \<and> (n = 2 \<longleftrightarrow> unat n = 2) \<and> (n = 3 \<longleftrightarrow> unat n = 3)"
    by (simp add: word_unat_eq_iff)
  moreover have "token_type_from_u8 (token_type_to_u8 t) = t" by (cases t) (simp_all add: token_type_from_u8_def)
  moreover have "operation_type_from_u8 (operation_type_to_u8 o') = o'"
    by (cases o') (simp_all add: operation_type_from_u8_def)
  ultimately show ?thesis
    by (auto simp: token_type_from_u8_def operation_type_from_u8_def less_Suc_eq numeral_eq_Suc)
qed

theorem type_codes_roundtrip_witness:
  "token_type_from_u8 200 = ERC20 \<and> operation_type_from_u8 200 = Deposit"
  using type_codes_roundtrip [of _ _ 200] by simp

end
