(* ===== verification/Indexed_Leaves.thy ===== *)
theory Indexed_Leaves
  imports Mutable_Tree Serialization Leaf_Chain
begin

text \<open>
  The \<open>IndexedLeaves\<close> implementation of \<open>lib/src/merkle_trees/indexed.rs\<close>: the collection
  \<open><id>_indexed_leaves\<close> of the pre-images of the leaves of an indexed Merkle tree. Documents are kept in
  insertion order; \<open>find_one\<close> and \<open>update_one\<close> take the first match. A query compares the padded
  hexadecimal text of the values, as the code does. Indices are \<open>u32\<close>.
\<close>

record IndexedLeaf =
  leaf_value :: fr254
  leaf_id :: nat
  leaf_next_index :: nat
  leaf_next_value :: fr254

definition default_leaf :: IndexedLeaf where
  "default_leaf = \<lparr>leaf_value = 0, leaf_id = 0, leaf_next_index = 0, leaf_next_value = 0\<rparr>"

record imt_db = "fr254 tree_db" +
  indexed_leaves :: "IndexedLeaf list"

type_synonym ('z, 'a) imtM = "('z imt_db_scheme, merkle_error, 'a) dbm"

section \<open>Operations\<close>

definition new_indexed_leaves_db :: "('z, unit) imtM" where
  "new_indexed_leaves_db =
     db_insert DatabaseError (\<lambda>w. 0 \<in> set (map leaf_id (indexed_leaves w)))
       (\<lambda>w. w\<lparr>indexed_leaves := indexed_leaves w @ [default_leaf]\<rparr>)"

definition optional_key :: "(fr254 \<Rightarrow> byte list) \<Rightarrow> fr254 option \<Rightarrow> ('z, string option) imtM" where
  "optional_key ser v = (case v of
     None \<Rightarrow> returnM None
   | Some x \<Rightarrow> okM MerklePanic (map_option Some (serialize_to_padded_hex ser x)))"

definition get_leaf :: "(fr254 \<Rightarrow> byte list) \<Rightarrow> fr254 option \<Rightarrow> fr254 option \<Rightarrow> ('z, IndexedLeaf option) imtM" where
  "get_leaf ser v next_v =
     bindM (optional_key ser v) (\<lambda>kv.
     bindM (optional_key ser next_v) (\<lambda>kn.
     db_read DatabaseError (\<lambda>w. find (\<lambda>l.
       (case kv of None \<Rightarrow> True | Some k \<Rightarrow> padded_key ser (leaf_value l) = k) \<and>
       (case kn of None \<Rightarrow> True | Some k \<Rightarrow> padded_key ser (leaf_next_value l) = k)) (indexed_leaves w))))"

text \<open>\<open>find\<close> with \<open>$lt\<close>, sorted by value descending, limit 1.\<close>

definition greatest_below :: "(fr254 \<Rightarrow> byte list) \<Rightarrow> string \<Rightarrow> IndexedLeaf list \<Rightarrow> IndexedLeaf option" where
  "greatest_below ser k ls =
     (case filter (\<lambda>l. padded_key ser (leaf_value l) < k) ls of
        [] \<Rightarrow> None
      | l # ls' \<Rightarrow> Some (foldl (\<lambda>a b. if padded_key ser (leaf_value a) < padded_key ser (leaf_value b) then b else a) l ls'))"

definition get_low_leaf :: "(fr254 \<Rightarrow> byte list) \<Rightarrow> fr254 \<Rightarrow> ('z, IndexedLeaf option) imtM" where
  "get_low_leaf ser v =
     bindM (okM MerklePanic (serialize_to_padded_hex ser v)) (\<lambda>k.
     db_read DatabaseError (\<lambda>w. greatest_below ser k (indexed_leaves w)))"

fun update_first :: "('a \<Rightarrow> bool) \<Rightarrow> ('a \<Rightarrow> 'a) \<Rightarrow> 'a list \<Rightarrow> 'a list" where
  "update_first P f [] = []"
| "update_first P f (x # xs) = (if P x then f x # xs else x # update_first P f xs)"

definition update_leaf :: "(fr254 \<Rightarrow> byte list) \<Rightarrow> fr254 \<Rightarrow> nat \<Rightarrow> fr254 \<Rightarrow> ('z, unit) imtM" where
  "update_leaf ser leaf new_next_index new_next_value =
     bindM (okM MerklePanic (serialize_to_padded_hex ser leaf)) (\<lambda>k.
     bindM (okM MerklePanic (serialize_to_padded_hex ser new_next_value)) (\<lambda>_.
     db_write DatabaseError (\<lambda>w. w\<lparr>indexed_leaves :=
       update_first (\<lambda>l. padded_key ser (leaf_value l) = k)
         (\<lambda>l. l\<lparr>leaf_next_index := new_next_index, leaf_next_value := new_next_value\<rparr>) (indexed_leaves w)\<rparr>)))"

definition store_leaf :: "(fr254 \<Rightarrow> byte list) \<Rightarrow> fr254 \<Rightarrow> nat option \<Rightarrow> ('z, unit option) imtM" where
  "store_leaf ser leaf index_opt =
     bindM (get_leaf ser (Some leaf) None) (\<lambda>present.
     if present \<noteq> None then throwM LeafExists
     else bindM (get_low_leaf ser leaf) (\<lambda>low.
       case low of
         None \<Rightarrow> throwM LeafExists
       | Some low_leaf \<Rightarrow>
           bindM (case index_opt of
                    Some i \<Rightarrow> returnM i
                  | None \<Rightarrow> db_read DatabaseError (\<lambda>w. length (indexed_leaves w) mod 2 ^ 32)) (\<lambda>index.
           bindM (db_insert DatabaseError (\<lambda>w. index \<in> set (map leaf_id (indexed_leaves w)))
             (\<lambda>w. w\<lparr>indexed_leaves := indexed_leaves w @
                [\<lparr>leaf_value = leaf, leaf_id = index, leaf_next_index = leaf_next_index low_leaf,
                  leaf_next_value = leaf_next_value low_leaf\<rparr>]\<rparr>)) (\<lambda>_.
           bindM (update_leaf ser (leaf_value low_leaf) index leaf) (\<lambda>_.
           returnM (Some ()))))))"

section \<open>The abstract chain\<close>

definition leaf_entry :: "IndexedLeaf \<Rightarrow> entry" where
  "leaf_entry l = (leaf_id l, leaf_next_index l, leaf_next_value l)"

definition leaf_view :: "IndexedLeaf list \<Rightarrow> (fr254 \<rightharpoonup> entry)" where
  "leaf_view ls v = map_option leaf_entry (find (\<lambda>l. leaf_value l = v) ls)"

definition leaf_invar :: "(fr254 \<Rightarrow> byte list) \<Rightarrow> 'z imt_db_scheme \<Rightarrow> bool" where
  "leaf_invar ser w \<longleftrightarrow> ser_ok ser \<and> faults w = [] \<and> distinct (map leaf_value (indexed_leaves w)) \<and>
     distinct (map leaf_id (indexed_leaves w))"

definition stored_low :: "(fr254 \<Rightarrow> byte list) \<Rightarrow> fr254 \<Rightarrow> 'z imt_db_scheme \<Rightarrow> (fr254 \<times> entry) option" where
  "stored_low ser v w = (case fst (get_low_leaf ser v w) of
     Inr (Some l) \<Rightarrow> Some (leaf_value l, leaf_entry l)
   | _ \<Rightarrow> None)"

definition stored_store :: "(fr254 \<Rightarrow> byte list) \<Rightarrow> fr254 \<Rightarrow> nat \<Rightarrow> 'z imt_db_scheme \<Rightarrow> 'z imt_db_scheme option" where
  "stored_store ser v i w = (case store_leaf ser v (Some i) w of
     (Inr (Some _), w') \<Rightarrow> Some w'
   | _ \<Rightarrow> None)"

lemma find_value: "distinct (map leaf_value ls) \<Longrightarrow> l \<in> set ls \<Longrightarrow> find (\<lambda>x. leaf_value x = leaf_value l) ls = Some l"
  by (induction ls) (auto simp: image_iff)

lemma find_none_iff: "find (\<lambda>x. leaf_value x = v) ls = None \<longleftrightarrow> v \<notin> leaf_value ` set ls"
  by (auto simp: find_None_iff)

lemma leaf_view_Nil [simp]: "leaf_view [] v = None"
  by (simp add: leaf_view_def)

lemma leaf_view_Cons: "leaf_view (l # ls) v = (if leaf_value l = v then Some (leaf_entry l) else leaf_view ls v)"
  by (simp add: leaf_view_def)

lemma leaf_view_Some:
  "distinct (map leaf_value ls) \<Longrightarrow> leaf_view ls v = Some e \<longleftrightarrow> (\<exists>l\<in>set ls. leaf_value l = v \<and> leaf_entry l = e)"
  by (induction ls) (auto simp: leaf_view_Cons image_iff)

lemma dom_leaf_view: "dom (leaf_view ls) = leaf_value ` set ls"
proof -
  have "leaf_view ls v = None \<longleftrightarrow> v \<notin> leaf_value ` set ls" for v
    by (induction ls) (simp_all add: leaf_view_Cons)
  then show ?thesis by (intro set_eqI) (simp add: domIff)
qed

lemma leaf_view_append: "leaf_view (xs @ [l]) = (leaf_view [l]) ++ leaf_view xs"
  by (rule ext, induction xs) (auto simp: leaf_view_Cons map_add_def split: option.split)

lemma update_first_leaf:
  assumes "distinct (map leaf_value ls)" "\<And>l. leaf_value (f l) = leaf_value l"
  shows "leaf_view (update_first (\<lambda>l. leaf_value l = u) f ls) v =
      (if v = u then map_option leaf_entry (map_option f (find (\<lambda>l. leaf_value l = u) ls)) else leaf_view ls v)"
  using assms by (induction ls) (auto simp: leaf_view_Cons leaf_view_def)

lemma update_first_map:
  "(\<And>l. g (f l) = g l) \<Longrightarrow> map g (update_first P f ls) = map g ls"
  by (induction ls) auto

lemma greatest_below_spec:
  assumes "ser_ok ser" "serialize_to_padded_hex ser v = Some k"
  shows "case greatest_below ser k ls of
      None \<Rightarrow> \<forall>l\<in>set ls. \<not> leaf_value l < v
    | Some l \<Rightarrow> l \<in> set ls \<and> leaf_value l < v \<and> (\<forall>x\<in>set ls. leaf_value x < v \<longrightarrow> leaf_value x \<le> leaf_value l)"
proof -
  have k: "k = padded_key ser v" using assms(2) by (simp add: padded_key_def)
  have fold: "foldl (\<lambda>a b. if leaf_value a < leaf_value b then b else a) l xs \<in> set (l # xs) \<and>
      (\<forall>x\<in>set (l # xs). leaf_value x \<le> leaf_value (foldl (\<lambda>a b. if leaf_value a < leaf_value b then b else a) l xs))"
    for l and xs :: "IndexedLeaf list"
  proof (induction xs arbitrary: l)
    case (Cons x xs)
    show ?case
    proof (cases "leaf_value l < leaf_value x")
      case True
      then show ?thesis using Cons [of x] by (auto intro: order.trans less_imp_le)
    next
      case False
      then show ?thesis using Cons [of l] by (auto simp: not_less intro: order.trans)
    qed
  qed simp
  show ?thesis
  proof (cases "filter (\<lambda>l. leaf_value l < v) ls")
    case Nil
    then show ?thesis
      by (simp add: greatest_below_def k padded_key_less [OF assms(1)] filter_empty_conv)
  next
    case (Cons l xs)
    define r where "r = foldl (\<lambda>a b. if leaf_value a < leaf_value b then b else a) l xs"
    have g: "greatest_below ser k ls = Some r"
      by (simp add: greatest_below_def k padded_key_less [OF assms(1)] Cons r_def)
    have "r \<in> set (filter (\<lambda>l. leaf_value l < v) ls)"
      "\<forall>x\<in>set (filter (\<lambda>l. leaf_value l < v) ls). leaf_value x \<le> leaf_value r"
      using fold [of l xs] unfolding Cons r_def by blast+
    then show ?thesis by (simp add: g)
  qed
qed

section \<open>The collection as a store of leaves\<close>

lemma optional_key_ok: "ser_ok ser \<Longrightarrow> optional_key ser v = returnM (map_option (padded_key ser) v)"
  by (auto simp: optional_key_def padded_key_def padded_hex_eq split: option.split)

lemma get_leaf_ok:
  assumes "ser_ok ser" "faults w = []"
  shows "get_leaf ser (Some v) None w = (Inr (find (\<lambda>l. leaf_value l = v) (indexed_leaves w)), w)"
  using assms by (simp add: get_leaf_def optional_key_ok db_read_ok padded_key_eq)

lemma key_ok: "ser_ok ser \<Longrightarrow> serialize_to_padded_hex ser v = Some (padded_key ser v)"
  by (simp add: padded_key_def padded_hex_eq)

lemma get_low_leaf_ok:
  "ser_ok ser \<Longrightarrow> faults w = [] \<Longrightarrow>
   get_low_leaf ser v w = (Inr (greatest_below ser (padded_key ser v) (indexed_leaves w)), w)"
  by (simp add: get_low_leaf_def key_ok db_read_ok)

lemma low_is_low:
  assumes "leaf_invar ser w" "chain (leaf_view (indexed_leaves w))" "v \<noteq> 0"
  obtains l where "greatest_below ser (padded_key ser v) (indexed_leaves w) = Some l" "l \<in> set (indexed_leaves w)"
    "is_low (leaf_view (indexed_leaves w)) v (leaf_value l)"
    "leaf_view (indexed_leaves w) (leaf_value l) = Some (leaf_entry l)"
proof -
  have ok: "ser_ok ser" and d: "distinct (map leaf_value (indexed_leaves w))"
    using assms(1) by (simp_all add: leaf_invar_def)
  obtain u where "is_low (leaf_view (indexed_leaves w)) v u" using is_low_ex [OF assms(2,3)] by blast
  then have "\<exists>l\<in>set (indexed_leaves w). leaf_value l < v" by (auto simp: is_low_def dom_leaf_view)
  then obtain l where l: "greatest_below ser (padded_key ser v) (indexed_leaves w) = Some l"
    "l \<in> set (indexed_leaves w)" "leaf_value l < v"
    "\<forall>x\<in>set (indexed_leaves w). leaf_value x < v \<longrightarrow> leaf_value x \<le> leaf_value l"
    using greatest_below_spec [where v = v and ls = "indexed_leaves w", OF ok key_ok [OF ok]] by (auto split: option.splits)
  have "leaf_view (indexed_leaves w) (leaf_value l) = Some (leaf_entry l)"
    using l(2) leaf_view_Some [OF d] by blast
  then show thesis using that l by (auto simp: is_low_def dom_leaf_view)
qed

text \<open>The run of \<open>store_leaf\<close> on a value that is not stored yet.\<close>

lemma store_leaf_new:
  assumes "leaf_invar ser w" "chain (leaf_view (indexed_leaves w))" "v \<noteq> 0" "v \<notin> dom (leaf_view (indexed_leaves w))"
    "i \<notin> leaf_id ` set (indexed_leaves w)"
  obtains ls u where "store_leaf ser v (Some i) w = (Inr (Some ()), w\<lparr>indexed_leaves := ls\<rparr>)"
    "leaf_invar ser (w\<lparr>indexed_leaves := ls\<rparr>)" "is_low (leaf_view (indexed_leaves w)) v u"
    "leaf_view ls = link (leaf_view (indexed_leaves w)) i v u"
    "leaf_id ` set ls = insert i (leaf_id ` set (indexed_leaves w))"
proof -
  let ?L = "indexed_leaves w"
  have ok: "ser_ok ser" and f: "faults w = []" and d: "distinct (map leaf_value ?L)" "distinct (map leaf_id ?L)"
    using assms(1) by (simp_all add: leaf_invar_def)
  obtain l where l: "greatest_below ser (padded_key ser v) ?L = Some l" "l \<in> set ?L"
    "is_low (leaf_view ?L) v (leaf_value l)" "leaf_view ?L (leaf_value l) = Some (leaf_entry l)"
    by (rule low_is_low [OF assms(1-3)])
  define new where "new = \<lparr>leaf_value = v, leaf_id = i, leaf_next_index = leaf_next_index l, leaf_next_value = leaf_next_value l\<rparr>"
  define g where "g x = x\<lparr>leaf_next_index := i, leaf_next_value := v\<rparr>" for x :: IndexedLeaf
  define ls where "ls = update_first (\<lambda>x. leaf_value x = leaf_value l) g (?L @ [new])"
  have v: "v \<notin> leaf_value ` set ?L" using assms(4) by (simp add: dom_leaf_view)
  have none: "find (\<lambda>x. leaf_value x = v) ?L = None" using v by (simp add: find_none_iff)
  have dn: "distinct (map leaf_value (?L @ [new]))" "distinct (map leaf_id (?L @ [new]))"
    using d v assms(5) by (simp_all add: new_def)
  have run: "store_leaf ser v (Some i) w = (Inr (Some ()), w\<lparr>indexed_leaves := ls\<rparr>)"
    using f assms(5)
    by (simp add: store_leaf_def bindM_def get_leaf_ok [OF ok f] none get_low_leaf_ok [OF ok f] l(1) returnM_def
        db_insert_ok update_leaf_def key_ok [OF ok] db_write_ok padded_key_eq [OF ok] ls_def new_def g_def [abs_def])
  have same: "map leaf_value ls = map leaf_value (?L @ [new])" "map leaf_id ls = map leaf_id (?L @ [new])"
    unfolding ls_def by (rule update_first_map, simp add: g_def)+
  have inv: "leaf_invar ser (w\<lparr>indexed_leaves := ls\<rparr>)"
    using ok f dn by (simp add: leaf_invar_def same)
  have lv: "leaf_value l \<noteq> v" using l(2) v by blast
  have "find (\<lambda>x. leaf_value x = leaf_value l) (?L @ [new]) = Some l"
    using l(2) dn(1) by (intro find_value) simp_all
  then have "leaf_view ls x = link (leaf_view ?L) i v (leaf_value l) x" for x
    unfolding ls_def using l(4) lv v
    by (subst update_first_leaf [OF dn(1)])
      (auto simp: link_def leaf_entry_def g_def leaf_view_append leaf_view_Cons new_def map_add_def
        dom_leaf_view [symmetric] split: option.split)
  moreover have "leaf_id ` set ls = insert i (leaf_id ` set ?L)"
    using arg_cong [OF same(2), of set] by (simp add: new_def)
  ultimately show thesis using that [OF run inv l(3)] by blast
qed

lemma entry_ids: "(\<forall>x e. leaf_view ls x = Some e \<longrightarrow> entry_id e \<noteq> i) \<longleftrightarrow> i \<notin> leaf_id ` set ls"
  if "distinct (map leaf_value ls)" for i
proof -
  have "(\<exists>x e. leaf_view ls x = Some e \<and> entry_id e = i) \<longleftrightarrow> i \<in> leaf_id ` set ls"
    using leaf_view_Some [OF that] by (auto simp: leaf_entry_def image_iff)
  then show ?thesis by blast
qed

interpretation mongo: leaf_store "\<lambda>w. leaf_view (indexed_leaves w)" "leaf_invar ser"
  "\<lambda>w i. i \<notin> leaf_id ` set (indexed_leaves w)" "stored_low ser" "stored_store ser" for ser
proof unfold_locales
  fix w :: "'z imt_db_scheme" and v i
  assume inv: "leaf_invar ser w"
  then have ok: "ser_ok ser" "faults w = []" and d: "distinct (map leaf_value (indexed_leaves w))"
    by (simp_all add: leaf_invar_def)
  show "v \<in> dom (leaf_view (indexed_leaves w)) \<Longrightarrow> stored_store ser v i w = None"
  proof -
    assume "v \<in> dom (leaf_view (indexed_leaves w))"
    then have "find (\<lambda>x. leaf_value x = v) (indexed_leaves w) \<noteq> None"
      unfolding dom_leaf_view by (simp add: find_none_iff)
    then have "store_leaf ser v (Some i) w = (Inl LeafExists, w)"
      by (auto simp: store_leaf_def bindM_def get_leaf_ok [OF ok] throwM_def)
    then show ?thesis by (simp add: stored_store_def)
  qed
  show "\<And>x e. i \<notin> leaf_id ` set (indexed_leaves w) \<Longrightarrow> leaf_view (indexed_leaves w) x = Some e \<Longrightarrow> entry_id e \<noteq> i"
    using entry_ids [OF d, of i] by blast
  assume c: "chain (leaf_view (indexed_leaves w))" and v: "v \<noteq> 0" "v \<notin> dom (leaf_view (indexed_leaves w))"
  show "\<exists>u e. stored_low ser v w = Some (u, e) \<and> is_low (leaf_view (indexed_leaves w)) v u \<and>
      leaf_view (indexed_leaves w) u = Some e"
    by (rule low_is_low [OF inv c v(1)]) (simp add: stored_low_def get_low_leaf_ok [OF ok])
  assume fresh: "i \<notin> leaf_id ` set (indexed_leaves w)"
  show "\<exists>w' u. stored_store ser v i w = Some w' \<and> leaf_invar ser w' \<and> is_low (leaf_view (indexed_leaves w)) v u \<and>
      leaf_view (indexed_leaves w') = link (leaf_view (indexed_leaves w)) i v u"
    by (rule store_leaf_new [OF inv c v fresh]) (auto simp: stored_store_def)
qed

end
