(* ===== verification/Client_Db.thy ===== *)
theory Client_Db
  imports Mutable_Tree Client_Entities Indexed_Leaves
begin

text \<open>
  \<open>nightfall_client/src/driven/db/mongo.rs\<close>: the collections of the client. The commitment tree of the client
  is in the same database, so the state extends that of the mutable tree. Documents are kept in insertion
  order. A query by \<open>to_hex_string\<close> is a comparison of field elements (\<open>query_text_matches\<close> of
  \<open>Hex_Conversion\<close> is the reason). SHA-256 and Poseidon are parameters.
\<close>

section \<open>Documents\<close>

record StoredBlock =
  sb_layer2_block_number :: nat
  sb_commitments :: "string list"
  sb_proposer_address :: "160 word"

record CommitmentEntry =
  ce_preimage :: Preimage
  ce_status :: CommitmentStatus
  ce_key :: fr254
  ce_nullifier :: fr254
  ce_layer_1_transaction_hash :: "string option"
  ce_layer_2_block_number :: "int option"

record PendingWithdrawal =
  pw_key :: fr254
  pw_data :: WithdrawData

record client_db = "fr254 tree_db" +
  blocks :: "StoredBlock list"
  requests :: "Request list"
  mappings :: "RequestCommitmentMapping list"
  commitments :: "CommitmentEntry list"
  withdrawals :: "PendingWithdrawal list"

type_synonym ('z, 'e, 'a) clientM = "('z client_db_scheme, 'e failure, 'a) dbm"

section \<open>Blocks\<close>

definition text_bytes :: "string \<Rightarrow> byte list" where
  "text_bytes s = map (\<lambda>c. of_nat (of_char c)) s"

definition stored_block_hash :: "(byte list \<Rightarrow> byte list) \<Rightarrow> StoredBlock \<Rightarrow> fr254" where
  "stored_block_hash sha256 b =
     fr (be_value (sha256 (concat (map text_bytes (sb_commitments b)) @ be_bytes 20 (unat (sb_proposer_address b)))))"

definition find_block :: "nat \<Rightarrow> StoredBlock list \<Rightarrow> StoredBlock option" where
  "find_block n bs = find (\<lambda>b. sb_layer2_block_number b = n) bs"

definition store_block :: "StoredBlock \<Rightarrow> ('z, 'e, unit option) clientM" where
  "store_block block =
     bindO (tryM (db_read () (\<lambda>w. find_block (sb_layer2_block_number block) (blocks w)))) (\<lambda>existing_block.
     if existing_block \<noteq> None then
       bindO (tryM (db_write () (\<lambda>w. w\<lparr>blocks :=
         update_first (\<lambda>b. sb_layer2_block_number b = sb_layer2_block_number block)
           (\<lambda>b. b\<lparr>sb_commitments := sb_commitments block\<rparr>) (blocks w)\<rparr>))) (\<lambda>_. returnM (Some ()))
     else
       bindO (tryM (db_write () (\<lambda>w. w\<lparr>blocks := blocks w @ [block]\<rparr>))) (\<lambda>_. returnM (Some ())))"

definition get_block_by_number :: "nat \<Rightarrow> ('z, 'e, StoredBlock option) clientM" where
  "get_block_by_number n = bindO (tryM (db_read () (\<lambda>w. find_block n (blocks w)))) returnM"

definition get_all_blocks :: "('z, 'e, StoredBlock list option) clientM" where
  "get_all_blocks = tryM (db_read () blocks)"

fun delete_first :: "('a \<Rightarrow> bool) \<Rightarrow> 'a list \<Rightarrow> 'a list" where
  "delete_first P [] = []"
| "delete_first P (x # xs) = (if P x then xs else x # delete_first P xs)"

definition delete_block_by_number :: "nat \<Rightarrow> ('z, 'e, unit option) clientM" where
  "delete_block_by_number n =
     bindO (tryM (db_write () (\<lambda>w. w\<lparr>blocks := delete_first (\<lambda>b. sb_layer2_block_number b = n) (blocks w)\<rparr>)))
       (\<lambda>_. returnM (Some ()))"

section \<open>Requests\<close>

definition store_request :: "string \<Rightarrow> RequestStatus \<Rightarrow> ('z, 'e, unit option) clientM" where
  "store_request request_id status =
     tryM (db_write () (\<lambda>w. w\<lparr>requests := requests w @ [\<lparr>req_status = status, req_uuid = request_id\<rparr>]\<rparr>))"

definition get_request :: "string \<Rightarrow> ('z, 'e, Request option) clientM" where
  "get_request request_id =
     bindO (tryM (db_read () (\<lambda>w. find (\<lambda>r. req_uuid r = request_id) (requests w)))) returnM"

definition update_request :: "string \<Rightarrow> RequestStatus \<Rightarrow> ('z, 'e, unit option) clientM" where
  "update_request request_id status =
     tryM (db_write () (\<lambda>w. w\<lparr>requests :=
       update_first (\<lambda>r. req_uuid r = request_id) (\<lambda>r. r\<lparr>req_status := status\<rparr>) (requests w)\<rparr>))"

text \<open>\<open>add_mapping\<close> returns a text on a database error; the text is not modelled.\<close>

definition add_mapping :: "string \<Rightarrow> string \<Rightarrow> ('z, unit, unit) clientM" where
  "add_mapping request_id commitment_hash =
     map_errM (\<lambda>_. Fails ()) (db_write () (\<lambda>w. w\<lparr>mappings :=
       mappings w @ [\<lparr>rcm_request_id = request_id, rcm_commitment_hash = commitment_hash\<rparr>]\<rparr>))"

definition get_requests_by_commitment :: "string \<Rightarrow> ('z, 'e, string list option) clientM" where
  "get_requests_by_commitment commitment_hash =
     tryM (db_read () (\<lambda>w. map rcm_request_id (filter (\<lambda>m. rcm_commitment_hash m = commitment_hash) (mappings w))))"

definition get_commitments_by_request :: "string \<Rightarrow> ('z, 'e, string list option) clientM" where
  "get_commitments_by_request request_id =
     tryM (db_read () (\<lambda>w. map rcm_commitment_hash (filter (\<lambda>m. rcm_request_id m = request_id) (mappings w))))"

section \<open>Membership proofs in the database\<close>

record DBMembershipProof =
  dbp_node_value :: fr254
  dbp_sibling_path :: "bool list"
  dbp_sibling_values :: "fr254 list"
  dbp_leaf_index :: nat

definition db_proof_from :: "fr254 MembershipProof \<Rightarrow> DBMembershipProof" where
  "db_proof_from p =
     \<lparr>dbp_node_value = node_value p,
      dbp_sibling_path = map (\<lambda>e. case direction e of HashWithThisNodeOnLeft \<Rightarrow> False | HashWithThisNodeOnRight \<Rightarrow> True)
        (sibling_path p),
      dbp_sibling_values = map path_value (sibling_path p),
      dbp_leaf_index = leaf_index p\<rparr>"

definition db_proof_into :: "DBMembershipProof \<Rightarrow> fr254 MembershipProof" where
  "db_proof_into p =
     \<lparr>node_value = dbp_node_value p,
      sibling_path = map (\<lambda>(b, v). \<lparr>direction = (if b then HashWithThisNodeOnRight else HashWithThisNodeOnLeft), path_value = v\<rparr>)
        (zip (dbp_sibling_path p) (dbp_sibling_values p)),
      leaf_index = dbp_leaf_index p\<rparr>"

section \<open>Commitments\<close>

text \<open>The hash in \<open>CommitmentEntry::new\<close> is expected to succeed.\<close>

definition commitment_entry_new :: "poseidon \<Rightarrow> Preimage \<Rightarrow> fr254 \<Rightarrow> CommitmentStatus \<Rightarrow> 'e failure + CommitmentEntry" where
  "commitment_entry_new poseidon preimage nullifier status =
     (case preimage_hash poseidon preimage of
        Inl _ \<Rightarrow> Inl Panics
      | Inr key \<Rightarrow> Inr \<lparr>ce_preimage = preimage, ce_status = status, ce_key = key, ce_nullifier = nullifier,
          ce_layer_1_transaction_hash = None, ce_layer_2_block_number = None\<rparr>)"

definition get_all_commitments :: "('z client_db_scheme, unit, (fr254 \<times> CommitmentEntry) list) dbm" where
  "get_all_commitments = db_read () (\<lambda>w. map (\<lambda>v. (ce_key v, v)) (commitments w))"

definition available :: "fr254 \<Rightarrow> 'z client_db_scheme \<Rightarrow> CommitmentEntry list" where
  "available nf_token_id w =
     filter (\<lambda>e. pre_nf_token_id (ce_preimage e) = nf_token_id \<and> ce_status e = Unspent) (commitments w)"

definition get_available_commitments :: "fr254 \<Rightarrow> ('z, 'e, CommitmentEntry list option) clientM" where
  "get_available_commitments nf_token_id =
     bindM (expectM (db_read () (available nf_token_id))) (\<lambda>result.
     returnM (if result = [] then None else Some result))"

definition get_commitment :: "fr254 \<Rightarrow> ('z, 'e, CommitmentEntry option) clientM" where
  "get_commitment k =
     bindM (expectM get_all_commitments) (\<lambda>all. returnM (map_option snd (find (\<lambda>(key, _). key = k) all)))"

definition get_balance :: "fr254 \<Rightarrow> ('z, 'e, fr254 option) clientM" where
  "get_balance nf_token_id =
     bindM (expectM (db_read () (available nf_token_id))) (\<lambda>result.
     returnM (if result = [] then None
              else Some (sum_list (map (\<lambda>e. pre_value (ce_preimage e)) result))))"

text \<open>\<open>update_many\<close>\<close>

definition update_many :: "('a \<Rightarrow> bool) \<Rightarrow> ('a \<Rightarrow> 'a) \<Rightarrow> 'a list \<Rightarrow> 'a list" where
  "update_many P f xs = map (\<lambda>x. if P x then f x else x) xs"

definition mark_many :: "(CommitmentEntry \<Rightarrow> bool) \<Rightarrow> (CommitmentEntry \<Rightarrow> CommitmentEntry) \<Rightarrow> ('z, 'e, unit option) clientM" where
  "mark_many P f = bindO (tryM (db_write () (\<lambda>w. w\<lparr>commitments := update_many P f (commitments w)\<rparr>))) (\<lambda>_. returnM (Some ()))"

definition mark_commitments_pending_spend :: "fr254 list \<Rightarrow> ('z, 'e, unit option) clientM" where
  "mark_commitments_pending_spend ks = mark_many (\<lambda>e. ce_key e \<in> set ks) (\<lambda>e. e\<lparr>ce_status := PendingSpend\<rparr>)"

definition mark_commitments_pending_creation :: "fr254 list \<Rightarrow> ('z, 'e, unit option) clientM" where
  "mark_commitments_pending_creation ks = mark_many (\<lambda>e. ce_key e \<in> set ks) (\<lambda>e. e\<lparr>ce_status := PendingCreation\<rparr>)"

definition mark_commitments_spent :: "fr254 list \<Rightarrow> ('z, 'e, unit option) clientM" where
  "mark_commitments_spent ns = mark_many (\<lambda>e. ce_nullifier e \<in> set ns) (\<lambda>e. e\<lparr>ce_status := Spent\<rparr>)"

definition mark_commitments_unspent :: "fr254 list \<Rightarrow> string option \<Rightarrow> int option \<Rightarrow> ('z, 'e, unit option) clientM" where
  "mark_commitments_unspent ks l1_hash l2_blocknumber =
     mark_many (\<lambda>e. ce_key e \<in> set ks) (\<lambda>e. e\<lparr>ce_status := Unspent, ce_layer_1_transaction_hash := l1_hash\<rparr>)"

definition add_nullifier :: "fr254 \<Rightarrow> fr254 \<Rightarrow> ('z, 'e, unit option) clientM" where
  "add_nullifier key nullifier =
     bindO (tryM (db_write () (\<lambda>w. w\<lparr>commitments :=
       update_first (\<lambda>e. ce_key e = key) (\<lambda>e. e\<lparr>ce_nullifier := nullifier\<rparr>) (commitments w)\<rparr>))) (\<lambda>_. returnM (Some ()))"

definition store_commitment :: "CommitmentEntry \<Rightarrow> ('z, 'e, unit option) clientM" where
  "store_commitment c =
     tryM (db_insert () (\<lambda>w. ce_key c \<in> ce_key ` set (commitments w)) (\<lambda>w. w\<lparr>commitments := commitments w @ [c]\<rparr>))"

text \<open>\<open>insert_many\<close> is ordered: it inserts up to the first document whose \<open>_id\<close> is taken, and reports that one.
  The kind of error the driver reports for it is the parameter \<open>dup_kind\<close>.\<close>

datatype mongo_error = WriteError nat | OtherError

fun insert_many :: "CommitmentEntry list \<Rightarrow> CommitmentEntry list \<Rightarrow> bool \<times> CommitmentEntry list" where
  "insert_many [] stored = (True, stored)"
| "insert_many (c # cs) stored =
     (if ce_key c \<in> ce_key ` set stored then (False, stored) else insert_many cs (stored @ [c]))"

definition store_commitments :: "mongo_error \<Rightarrow> CommitmentEntry list \<Rightarrow> bool \<Rightarrow> ('z, 'e, unit option) clientM" where
  "store_commitments dup_kind cs dup_key_check =
     (if cs = [] then returnM (Some ())
      else bindM (tryM (db_call () (\<lambda>w. case insert_many cs (commitments w) of (ok, stored) \<Rightarrow> (ok, w\<lparr>commitments := stored\<rparr>))))
        (\<lambda>res. case res of
            None \<Rightarrow> returnM None
          | Some True \<Rightarrow> returnM (Some ())
          | Some False \<Rightarrow>
              (case dup_kind of
                 WriteError code \<Rightarrow> returnM (if code = 11000 \<and> \<not> dup_key_check then Some () else None)
               | OtherError \<Rightarrow> returnM None)))"

section \<open>Withdrawals\<close>

definition pending_withdrawal_new :: "poseidon \<Rightarrow> WithdrawData \<Rightarrow> 'e failure + PendingWithdrawal" where
  "pending_withdrawal_new poseidon d =
     (case poseidon [wd_nf_token_id d, wd_withdraw_address d, wd_value d, wd_withdraw_fund_salt d] of
        None \<Rightarrow> Inl Panics
      | Some key \<Rightarrow> Inr \<lparr>pw_key = key, pw_data = d\<rparr>)"

definition store_withdrawal :: "PendingWithdrawal \<Rightarrow> ('z, 'e, unit option) clientM" where
  "store_withdrawal d = tryM (db_write () (\<lambda>w. w\<lparr>withdrawals := withdrawals w @ [d]\<rparr>))"

definition get_pending_withdrawals :: "('z, 'e, PendingWithdrawal list option) clientM" where
  "get_pending_withdrawals = tryM (db_read () withdrawals)"

definition remove_withdrawal :: "fr254 \<Rightarrow> ('z, 'e, unit option) clientM" where
  "remove_withdrawal key =
     bindO (tryM (db_call () (\<lambda>w. (length (filter (\<lambda>d. pw_key d = key) (withdrawals w)),
         w\<lparr>withdrawals := delete_first (\<lambda>d. pw_key d = key) (withdrawals w)\<rparr>)))) (\<lambda>matches.
     returnM (if min matches 1 = 1 then Some () else None))"

section \<open>Facts\<close>

lemma mark_many_ok: "faults w = [] \<Longrightarrow> mark_many P f w = (Inr (Some ()), w\<lparr>commitments := update_many P f (commitments w)\<rparr>)"
  by (simp add: mark_many_def bindO_Some tryM_ok db_write_ok returnM_def)

lemma get_available_ok:
  "faults w = [] \<Longrightarrow> get_available_commitments t w = (Inr (if available t w = [] then None else Some (available t w)), w)"
  by (simp add: get_available_commitments_def bindM_def expect_read_ok returnM_def)

lemma insert_many_split:
  "\<exists>xs ys. cs = xs @ ys \<and> insert_many cs stored = (ys = [], stored @ xs) \<and>
     (ys \<noteq> [] \<longrightarrow> ce_key (hd ys) \<in> ce_key ` set (stored @ xs))"
proof (induction cs arbitrary: stored)
  case (Cons c cs)
  show ?case
  proof (cases "ce_key c \<in> ce_key ` set stored")
    case True
    then show ?thesis by (intro exI [of _ "[]"] exI [of _ "c # cs"]) simp
  next
    case False
    obtain xs ys where "cs = xs @ ys" "insert_many cs (stored @ [c]) = (ys = [], (stored @ [c]) @ xs)"
      "ys \<noteq> [] \<longrightarrow> ce_key (hd ys) \<in> ce_key ` set ((stored @ [c]) @ xs)"
      using Cons.IH [of "stored @ [c]"] by blast
    then show ?thesis using False by (intro exI [of _ "c # xs"] exI [of _ ys]) simp
  qed
qed simp

section \<open>Properties\<close>

text \<open>A membership proof that is stored in its database form and read back is the same proof.\<close>

theorem db_proof_roundtrip: "db_proof_into (db_proof_from p) = p"
proof -
  have "(if (case d of HashWithThisNodeOnLeft \<Rightarrow> False | HashWithThisNodeOnRight \<Rightarrow> True)
      then HashWithThisNodeOnRight else HashWithThisNodeOnLeft) = d" for d by (cases d) simp_all
  then show ?thesis
    by (cases p) (simp add: db_proof_from_def db_proof_into_def zip_map_map zip_same_conv_map o_def map_idI)
qed

text \<open>The balance of a token is the sum of the values of the commitments that can be spent, and there is no
  balance exactly when there is no such commitment.\<close>

theorem balance_is_available:
  assumes "faults w = []"
  shows "get_balance t w = (case fst (get_available_commitments t w) of
     Inr (Some es) \<Rightarrow> (Inr (Some (sum_list (map (\<lambda>e. pre_value (ce_preimage e)) es))), w)
   | Inr None \<Rightarrow> (Inr None, w) | Inl e \<Rightarrow> (Inl e, w))"
  by (simp add: get_balance_def get_available_ok [OF assms] bindM_def expect_read_ok [OF assms] returnM_def)

definition client_ex :: "CommitmentEntry list \<Rightarrow> client_db" where
  "client_ex cs = \<lparr>faults = [], metadata = None, nodes = [], cache = [], blocks = [], requests = [], mappings = [],
     commitments = cs, withdrawals = []\<rparr>"

theorem balance_is_available_witness:
  "get_balance 1 (client_ex []) = (Inr None, client_ex [])"
  using balance_is_available [of "client_ex []" 1] by (simp add: client_ex_def get_available_ok available_def)

text \<open>Storing several commitments inserts those before the first one whose key is taken and no others. A key
  that is taken is reported as a failure, except when duplicates are not checked and the driver reports a
  write error with code 11000: then success is reported although the later ones were not stored.\<close>

theorem store_commitments_stops_at_duplicate:
  assumes "faults w = []"
  shows "\<exists>xs ys. cs = xs @ ys \<and> (ys \<noteq> [] \<longrightarrow> ce_key (hd ys) \<in> ce_key ` set (commitments w @ xs)) \<and>
    store_commitments dup_kind cs check w =
      ((Inr (if ys = [] \<or> dup_kind = WriteError 11000 \<and> \<not> check then Some () else None) :: 'e failure + unit option),
        w\<lparr>commitments := commitments w @ xs\<rparr>)"
proof -
  obtain xs ys where X: "cs = xs @ ys" "insert_many cs (commitments w) = (ys = [], commitments w @ xs)"
    "ys \<noteq> [] \<longrightarrow> ce_key (hd ys) \<in> ce_key ` set (commitments w @ xs)"
    using insert_many_split by blast
  have "store_commitments dup_kind cs check w =
      ((Inr (if ys = [] \<or> dup_kind = WriteError 11000 \<and> \<not> check then Some () else None) :: 'e failure + unit option), w\<lparr>commitments := commitments w @ xs\<rparr>)"
  proof (cases "cs = []")
    case True
    then show ?thesis using X(1) by (simp add: store_commitments_def returnM_def)
  next
    case False
    have call: "tryM (db_call () (\<lambda>w. case insert_many cs (commitments w) of (ok, stored) \<Rightarrow> (ok, w\<lparr>commitments := stored\<rparr>))) w =
        (Inr (Some (ys = [])), w\<lparr>commitments := commitments w @ xs\<rparr>)"
      by (rule tryM_ok) (simp add: db_call_ok [OF assms] X(2))
    show ?thesis
      using False by (simp add: store_commitments_def bindM_def call returnM_def split: bool.split mongo_error.split)
  qed
  then show ?thesis using X by blast
qed

definition entry_ex :: CommitmentEntry where
  "entry_ex = \<lparr>ce_preimage = preimage_default, ce_status = Unspent, ce_key = fr 5, ce_nullifier = fr 6,
     ce_layer_1_transaction_hash = None, ce_layer_2_block_number = None\<rparr>"

theorem store_commitments_stops_at_duplicate_witness:
  "\<exists>xs ys. [entry_ex, entry_ex] = xs @ ys \<and>
     fst (store_commitments (WriteError 11000) [entry_ex, entry_ex] False (client_ex [])) = (Inr (Some ()) :: unit failure + unit option)"
proof -
  have "faults (client_ex []) = []" by (simp add: client_ex_def)
  from store_commitments_stops_at_duplicate [OF this, where cs = "[entry_ex, entry_ex]" and dup_kind = "WriteError 11000" and check = False and 'e = unit]
  show ?thesis by auto
qed

text \<open>Storing a block whose number is already stored replaces its commitments but keeps the proposer of the
  stored one, so the block read back has the hash of a block that was never stored.\<close>

theorem store_block_keeps_proposer:
  assumes "faults w = []" "find_block (sb_layer2_block_number b) (blocks w) = Some old"
  shows "fst (store_block b w) = Inr (Some ()) \<and>
    fst (get_block_by_number (sb_layer2_block_number b) (snd (store_block b w))) =
      Inr (Some (old\<lparr>sb_commitments := sb_commitments b\<rparr>))"
proof -
  let ?u = "\<lambda>x. x\<lparr>sb_commitments := sb_commitments b\<rparr>" and ?P = "\<lambda>x. sb_layer2_block_number x = sb_layer2_block_number b"
  have "find ?P bs = Some o' \<Longrightarrow> find ?P (update_first ?P ?u bs) = Some (?u o')" for bs and o' :: StoredBlock
    by (induction bs) (auto split: if_splits)
  from this [of "blocks w" old]
  have new: "find_block (sb_layer2_block_number b) (update_first ?P ?u (blocks w)) = Some (?u old)"
    using assms(2) by (simp add: find_block_def)
  have run: "store_block b w = (Inr (Some ()), w\<lparr>blocks := update_first ?P ?u (blocks w)\<rparr>)"
    using assms by (simp add: store_block_def bindO_Some tryM_ok db_read_ok db_write_ok returnM_def)
  show ?thesis
    using assms(1) new by (simp add: run get_block_by_number_def bindO_Some tryM_ok db_read_ok returnM_def)
qed

definition block_ex :: "160 word \<Rightarrow> string list \<Rightarrow> StoredBlock" where
  "block_ex a cs = \<lparr>sb_layer2_block_number = 4, sb_commitments = cs, sb_proposer_address = a\<rparr>"

theorem store_block_keeps_proposer_witness:
  "fst (get_block_by_number (sb_layer2_block_number (block_ex 2 [''aa'']))
     (snd (store_block (block_ex 2 [''aa'']) ((client_ex [])\<lparr>blocks := [block_ex 1 []]\<rparr>)))) =
   Inr (Some ((block_ex 1 [])\<lparr>sb_commitments := sb_commitments (block_ex 2 [''aa''])\<rparr>))"
  by (rule store_block_keeps_proposer [THEN conjunct2]) (simp_all add: client_ex_def block_ex_def find_block_def)

end
