(* ===== verification/Commitment_Selection.thy ===== *)
theory Commitment_Selection
  imports Client_Entities "HOL-Library.Product_Lexorder"
begin

text \<open>
  The pure part of \<open>nightfall_client/src/services/commitment_selection.rs\<close>: which one or two commitments
  pay a value. The point of the theory is that the choice is the best one: no other one or two commitments
  leave less change, and on equal change more commitments are used. The errors are the texts of the code.
\<close>

definition MAX_POSSIBLE_COMMITMENTS :: nat where
  "MAX_POSSIBLE_COMMITMENTS = 2"

definition max_value_half :: fr254 where
  "max_value_half = fr ((fr_modulus - 1) div 2)"

section \<open>The search for a pair\<close>

function two_loop :: "fr254 \<Rightarrow> Preimage list \<Rightarrow> nat \<Rightarrow> nat \<Rightarrow> fr254 \<Rightarrow> Preimage list \<Rightarrow> Preimage list" where
  "two_loop target_val values_below lhs rhs change commitments_to_use =
     (if lhs < rhs then
        (let two_sum = pre_value (values_below ! lhs) + pre_value (values_below ! rhs) in
         if two_sum = target_val then [values_below ! lhs, values_below ! rhs]
         else if two_sum > target_val then
           (let temp_change = two_sum - target_val in
            if temp_change < change
            then two_loop target_val values_below lhs (rhs - 1) temp_change [values_below ! lhs, values_below ! rhs]
            else two_loop target_val values_below lhs (rhs - 1) change commitments_to_use)
         else two_loop target_val values_below (lhs + 1) rhs change commitments_to_use)
      else commitments_to_use)"
  by pat_completeness auto
termination
  by (relation "measure (\<lambda>(t, vs, l, r, c, b). r - l)") auto

declare two_loop.simps [simp del]

definition find_subset_two_commitments :: "fr254 \<Rightarrow> Preimage list \<Rightarrow> Preimage list" where
  "find_subset_two_commitments target_val values_below =
     two_loop target_val values_below 0 (length values_below - 1) max_value_half []"

definition find_subset_commitments ::
    "Preimage list \<Rightarrow> fr254 \<Rightarrow> nat \<Rightarrow> Preimage list \<Rightarrow> string + Preimage list" where
  "find_subset_commitments commitments target_val n acc =
     (let values_below = filter (\<lambda>a. pre_value a < target_val) commitments;
          value_below_total = foldl (\<lambda>acc x. pre_value x + acc) 0 values_below
      in if length values_below \<le> 1 \<or> n = 1 then
           (case find (\<lambda>a. pre_value a \<ge> target_val) commitments of
              None \<Rightarrow> Inl ''Failed to find a matching commitment''
            | Some res \<Rightarrow> Inr (acc @ [res]))
         else if n = 2 \<and> length values_below > 1 \<and> value_below_total \<ge> target_val then
           Inr (acc @ find_subset_two_commitments target_val values_below)
         else Inr acc)"

fun subsets_loop :: "Preimage list \<Rightarrow> fr254 \<Rightarrow> nat list \<Rightarrow> string + Preimage list list" where
  "subsets_loop commitments target_val [] = Inr []"
| "subsets_loop commitments target_val (i # is) =
     bindS (find_subset_commitments commitments target_val i []) (\<lambda>subset.
     bindS (subsets_loop commitments target_val is) (\<lambda>subsets.
     Inr (if subset \<noteq> [] then subset # subsets else subsets)))"

text \<open>The order of \<open>sort_by\<close>: less change first, then more commitments. The sort is stable.\<close>

definition subset_change :: "fr254 \<Rightarrow> Preimage list \<Rightarrow> fr254" where
  "subset_change target_val a = foldl (\<lambda>acc x. acc + pre_value x) 0 a - target_val"

definition select_commitment ::
    "Preimage list \<Rightarrow> fr254 \<Rightarrow> nat \<Rightarrow> nat \<Rightarrow> string + Preimage list" where
  "select_commitment commitments target_val min_c max_c =
     bindS (if min_c = MAX_POSSIBLE_COMMITMENTS \<or> max_c = 1
            then bindS (find_subset_commitments commitments target_val min_c []) (\<lambda>subset. Inr [subset])
            else subsets_loop commitments target_val [min_c..<MAX_POSSIBLE_COMMITMENTS + 1]) (\<lambda>subsets.
     (case sort_key (\<lambda>a. (subset_change target_val a, - int (length a))) subsets of
        [] \<Rightarrow> Inl ''No valid subsets found''
      | first # _ \<Rightarrow>
          (let res = take MAX_POSSIBLE_COMMITMENTS first @
                     replicate (MAX_POSSIBLE_COMMITMENTS - length first) preimage_default
           in if length res = MAX_POSSIBLE_COMMITMENTS then Inr res
              else Inl ''Could not convert commitment subset to fixed length array'')))"

section \<open>The minimum number of commitments\<close>

fun minimum_loop :: "Preimage list \<Rightarrow> fr254 \<Rightarrow> fr254 \<Rightarrow> nat \<Rightarrow> string + nat" where
  "minimum_loop [] target_value sum_commitments count = Inl ''Not enough commitments to cover the value''"
| "minimum_loop (c # cs) target_value sum_commitments count =
     (let sum_commitments = sum_commitments + pre_value c; count = count + 1
      in if sum_commitments \<ge> target_value then Inr count
         else minimum_loop cs target_value sum_commitments count)"

definition calculate_minimum_commitments :: "Preimage list \<Rightarrow> fr254 \<Rightarrow> string + nat" where
  "calculate_minimum_commitments commitments target_value =
     minimum_loop (take MAX_POSSIBLE_COMMITMENTS (rev (sort_key pre_value commitments))) target_value 0 0"

section \<open>The pair with the least change\<close>

definition val :: "Preimage list \<Rightarrow> nat \<Rightarrow> nat" where
  "val vs i = fr_val (pre_value (vs ! i))"

definition no_overflow :: "Preimage list \<Rightarrow> bool" where
  "no_overflow vs \<longleftrightarrow> sum_list (map (\<lambda>c. fr_val (pre_value c)) vs) \<le> (fr_modulus - 1) div 2"

text \<open>\<open>[vs ! i, vs ! j]\<close> is a best pair: it covers the target and no pair that does has a smaller sum.\<close>

definition best_pair :: "nat \<Rightarrow> Preimage list \<Rightarrow> nat \<Rightarrow> nat \<Rightarrow> bool" where
  "best_pair t vs i j \<longleftrightarrow> i < j \<and> j < length vs \<and> t \<le> val vs i + val vs j \<and>
     (\<forall>i' j'. i' < j' \<longrightarrow> j' < length vs \<longrightarrow> t \<le> val vs i' + val vs j' \<longrightarrow> val vs i + val vs j \<le> val vs i' + val vs j')"

lemma val_le_sum: "i < length vs \<Longrightarrow> val vs i \<le> sum_list (map (\<lambda>c. fr_val (pre_value c)) vs)"
  unfolding val_def by (rule member_le_sum_list) auto

lemma pair_le_sum: "i < j \<Longrightarrow> j < length vs \<Longrightarrow> val vs i + val vs j \<le> sum_list (map (\<lambda>c. fr_val (pre_value c)) vs)"
proof (induction vs arbitrary: i j)
  case (Cons v vs)
  then obtain j' where j: "j = Suc j'" by (cases j) auto
  show ?case
  proof (cases i)
    case 0
    then show ?thesis using Cons.prems j val_le_sum [of j' vs] by (simp add: val_def)
  next
    case (Suc i')
    then show ?thesis using Cons.prems Cons.IH [of i' j'] j by (simp add: val_def)
  qed
qed simp

lemma half_less: "n \<le> (fr_modulus - 1) div 2 \<Longrightarrow> n < fr_modulus"
  by (simp add: fr_modulus_def)

lemma pair_sum:
  assumes "no_overflow vs" "i < j" "j < length vs"
  shows "fr_val (pre_value (vs ! i) + pre_value (vs ! j)) = val vs i + val vs j"
    "val vs i + val vs j \<le> (fr_modulus - 1) div 2"
proof -
  show le: "val vs i + val vs j \<le> (fr_modulus - 1) div 2"
    using pair_le_sum [OF assms(2,3)] assms(1) by (simp add: no_overflow_def)
  show "fr_val (pre_value (vs ! i) + pre_value (vs ! j)) = val vs i + val vs j"
    using half_less [OF le] by (simp add: fr_val_plus val_def)
qed

lemma fr_val_half: "fr_val max_value_half = (fr_modulus - 1) div 2"
  by (simp add: max_value_half_def fr_modulus_def)

lemma val_mono: "sorted (map pre_value vs) \<Longrightarrow> i \<le> j \<Longrightarrow> j < length vs \<Longrightarrow> val vs i \<le> val vs j"
  using sorted_nth_mono [of "map pre_value vs" i j] by (simp add: val_def less_eq_fr254_def)

text \<open>What is known in the loop: every pair that is not between the pointers is no better than \<open>change\<close>.\<close>

definition loop_known :: "nat \<Rightarrow> Preimage list \<Rightarrow> nat \<Rightarrow> nat \<Rightarrow> nat \<Rightarrow> Preimage list \<Rightarrow> bool" where
  "loop_known t vs lhs rhs change best \<longleftrightarrow>
     (\<forall>i j. i < j \<longrightarrow> j < length vs \<longrightarrow> t \<le> val vs i + val vs j \<longrightarrow> \<not> (lhs \<le> i \<and> j \<le> rhs) \<longrightarrow> t + change \<le> val vs i + val vs j) \<and>
     (best = [] \<and> change = (fr_modulus - 1) div 2 \<or>
      (\<exists>i j. i < j \<and> j < length vs \<and> best = [vs ! i, vs ! j] \<and> val vs i + val vs j = t + change))"

lemma two_loop_best:
  assumes "sorted (map pre_value vs)" "no_overflow vs" "rhs < length vs" "loop_known (fr_val t) vs lhs rhs (fr_val change) best"
  shows "(two_loop t vs lhs rhs change best = [] \<and>
      (\<forall>i j. i < j \<longrightarrow> j < length vs \<longrightarrow> fr_val t \<le> val vs i + val vs j \<longrightarrow>
         fr_val t + (fr_modulus - 1) div 2 \<le> val vs i + val vs j)) \<or>
    (\<exists>i j. two_loop t vs lhs rhs change best = [vs ! i, vs ! j] \<and> best_pair (fr_val t) vs i j)"
  using assms
proof (induction t vs lhs rhs change best rule: two_loop.induct)
  case (1 t vs lhs rhs change best)
  let ?T = "fr_val t"
  have K: "\<And>i j. i < j \<Longrightarrow> j < length vs \<Longrightarrow> ?T \<le> val vs i + val vs j \<Longrightarrow> \<not> (lhs \<le> i \<and> j \<le> rhs) \<Longrightarrow>
      ?T + fr_val change \<le> val vs i + val vs j"
    and B: "best = [] \<and> fr_val change = (fr_modulus - 1) div 2 \<or>
      (\<exists>i j. i < j \<and> j < length vs \<and> best = [vs ! i, vs ! j] \<and> val vs i + val vs j = ?T + fr_val change)"
    using 1(7) unfolding loop_known_def by blast+
  show ?case
  proof (cases "lhs < rhs")
    case False
    have all: "?T + fr_val change \<le> val vs i + val vs j" if "i < j" "j < length vs" "?T \<le> val vs i + val vs j" for i j
      using K [OF that] that False by linarith
    have out: "two_loop t vs lhs rhs change best = best" using False by (simp add: two_loop.simps)
    show ?thesis
      using B
    proof (elim disjE exE)
      assume "best = [] \<and> fr_val change = (fr_modulus - 1) div 2"
      then show ?thesis using all out by auto
    next
      fix i j
      assume ij: "i < j \<and> j < length vs \<and> best = [vs ! i, vs ! j] \<and> val vs i + val vs j = ?T + fr_val change"
      then have "best_pair ?T vs i j" using all unfolding best_pair_def by auto
      then show ?thesis using ij out by auto
    qed
  next
    case True
    let ?s = "pre_value (vs ! lhs) + pre_value (vs ! rhs)"
    have s: "fr_val ?s = val vs lhs + val vs rhs" by (rule pair_sum(1) [OF 1(5) True 1(6)])
    have mono: "val vs i \<le> val vs j" if "i \<le> j" "j < length vs" for i j by (rule val_mono [OF 1(4) that])
    consider (eq) "?s = t" | (gt') "?s > t" "?s \<noteq> t" | (lt') "?s < t" "\<not> ?s > t" "?s \<noteq> t" by (cases ?s t rule: linorder_cases) auto
    then show ?thesis
    proof cases
      case eq
      then have "best_pair ?T vs lhs rhs" using s True 1(6) by (auto simp: best_pair_def)
      then show ?thesis using eq True by (auto simp: two_loop.simps [of t vs lhs rhs])
    next
      case gt'
      have gt: "?T < val vs lhs + val vs rhs" using gt' s by (simp add: less_fr254_def)
      have tc: "fr_val (?s - t) = val vs lhs + val vs rhs - ?T" using fr_val_minus_le [of t ?s] gt' s by simp
      have drop: "val vs lhs + val vs rhs \<le> val vs i + val vs j"
        if "i < j" "lhs \<le> i" "j \<le> rhs" "\<not> (lhs \<le> i \<and> j \<le> rhs - 1)" for i j
      proof -
        have "j = rhs" using that by linarith
        then show ?thesis using mono [of lhs i] that 1(6) by simp
      qed
      show ?thesis
      proof (cases "?s - t < change")
        case better: True
        have less: "val vs lhs + val vs rhs < ?T + fr_val change" using better gt by (simp add: less_fr254_def tc)
        have "loop_known ?T vs lhs (rhs - 1) (fr_val (?s - t)) [vs ! lhs, vs ! rhs]"
          unfolding loop_known_def
        proof (intro conjI allI impI disjI2)
          fix i j assume ij: "i < j" "j < length vs" "?T \<le> val vs i + val vs j" "\<not> (lhs \<le> i \<and> j \<le> rhs - 1)"
          show "?T + fr_val (?s - t) \<le> val vs i + val vs j"
            using K [OF ij(1-3)] drop [OF ij(1) _ _ ij(4)] gt less by (cases "lhs \<le> i \<and> j \<le> rhs") (auto simp: tc)
        next
          show "\<exists>i j. i < j \<and> j < length vs \<and> [vs ! lhs, vs ! rhs] = [vs ! i, vs ! j] \<and>
              val vs i + val vs j = ?T + fr_val (?s - t)"
            using True 1(6) gt by (intro exI [of _ lhs] exI [of _ rhs]) (simp add: tc)
        qed
        then show ?thesis
          using 1(1) [OF True refl] gt' better True 1(4-6) by (simp add: two_loop.simps [of t vs lhs rhs])
      next
        case worse: False
        have ge: "?T + fr_val change \<le> val vs lhs + val vs rhs" using worse gt by (simp add: less_fr254_def tc not_less)
        have "loop_known ?T vs lhs (rhs - 1) (fr_val change) best"
          unfolding loop_known_def
        proof (intro conjI allI impI B)
          fix i j assume ij: "i < j" "j < length vs" "?T \<le> val vs i + val vs j" "\<not> (lhs \<le> i \<and> j \<le> rhs - 1)"
          show "?T + fr_val change \<le> val vs i + val vs j"
            using K [OF ij(1-3)] drop [OF ij(1) _ _ ij(4)] ge by (cases "lhs \<le> i \<and> j \<le> rhs") auto
        qed
        then show ?thesis
          using 1(2) [OF True refl] gt' worse True 1(4-6) by (simp add: two_loop.simps [of t vs lhs rhs])
      qed
    next
      case lt'
      have lt: "val vs lhs + val vs rhs < ?T" using lt' s by (simp add: less_fr254_def)
      have "loop_known ?T vs (lhs + 1) rhs (fr_val change) best"
        unfolding loop_known_def
      proof (intro conjI allI impI B)
        fix i j assume ij: "i < j" "j < length vs" "?T \<le> val vs i + val vs j" "\<not> (lhs + 1 \<le> i \<and> j \<le> rhs)"
        show "?T + fr_val change \<le> val vs i + val vs j"
        proof (cases "lhs \<le> i \<and> j \<le> rhs")
          case inside: True
          then have "i = lhs" using ij(4) by linarith
          then show ?thesis using mono [of j rhs] inside 1(6) lt ij(3) by simp
        qed (rule K [OF ij(1-3)])
      qed
      then show ?thesis
        using 1(3) [OF True refl] lt' True 1(4-6) by (simp add: two_loop.simps [of t vs lhs rhs])
    qed
  qed
qed

section \<open>The selection on a sorted list\<close>

definition cover :: "Preimage list \<Rightarrow> nat" where
  "cover S = sum_list (map (\<lambda>c. fr_val (pre_value c)) S)"

text \<open>A choice of one or two commitments of the list.\<close>

definition choice :: "Preimage list \<Rightarrow> Preimage list \<Rightarrow> bool" where
  "choice vs S \<longleftrightarrow> (\<exists>i<length vs. S = [vs ! i]) \<or> (\<exists>i j. i < j \<and> j < length vs \<and> S = [vs ! i, vs ! j])"

definition best_choice :: "nat \<Rightarrow> Preimage list \<Rightarrow> Preimage list \<Rightarrow> bool" where
  "best_choice t vs S \<longleftrightarrow> choice vs S \<and> t \<le> cover S \<and>
     (\<forall>T. choice vs T \<longrightarrow> t \<le> cover T \<longrightarrow> cover S \<le> cover T \<and>
        (cover S = cover T \<longrightarrow> (\<forall>c\<in>set T. pre_value c \<noteq> 0) \<longrightarrow> length T \<le> length S))"

lemma cover_single: "cover [vs ! i] = val vs i"
  by (simp add: cover_def val_def)

lemma cover_pair: "cover [vs ! i, vs ! j] = val vs i + val vs j"
  by (simp add: cover_def val_def)

lemma choice_cases:
  assumes "choice vs S"
  obtains (single) i where "i < length vs" "S = [vs ! i]" "cover S = val vs i"
    | (pair) i j where "i < j" "j < length vs" "S = [vs ! i, vs ! j]" "cover S = val vs i + val vs j"
  using assms cover_single cover_pair unfolding choice_def by metis

lemma choice_singleI: "i < length vs \<Longrightarrow> choice vs [vs ! i]"
  by (auto simp: choice_def)

lemma choice_pairI: "i < j \<Longrightarrow> j < length vs \<Longrightarrow> choice vs [vs ! i, vs ! j]"
  by (auto simp: choice_def)

definition below :: "fr254 \<Rightarrow> Preimage list \<Rightarrow> nat" where
  "below t vs = length (filter (\<lambda>a. pre_value a < t) vs)"

lemma filter_sorted_take:
  assumes "sorted (map pre_value vs)"
  shows "filter (\<lambda>a. pre_value a < t) vs = take (below t vs) vs \<and> below t vs \<le> length vs \<and>
    (\<forall>i<length vs. val vs i < fr_val t \<longleftrightarrow> i < below t vs)"
  using assms
proof (induction vs)
  case (Cons v vs)
  show ?case
  proof (cases "pre_value v < t")
    case True
    have "val (v # vs) i < fr_val t \<longleftrightarrow> i < below t (v # vs)" if "i < length (v # vs)" for i
      using Cons that True by (cases i) (auto simp: below_def val_def less_fr254_def)
    then show ?thesis using Cons True by (auto simp: below_def)
  next
    case False
    have "\<not> pre_value x < t" if "x \<in> set vs" for x using Cons.prems that False by fastforce
    then have f: "filter (\<lambda>a. pre_value a < t) (v # vs) = []" using False by (simp add: filter_empty_conv)
    have "\<not> val (v # vs) i < fr_val t" if "i < length (v # vs)" for i
    proof -
      have "(v # vs) ! i \<in> set (v # vs)" using that by (rule nth_mem)
      then have "\<not> pre_value ((v # vs) ! i) < t" using f by (metis filter_empty_conv)
      then show ?thesis by (simp add: val_def less_fr254_def)
    qed
    then show ?thesis using f by (simp add: below_def)
  qed
qed (simp add: below_def)

lemma find_at_least:
  assumes "sorted (map pre_value vs)"
  shows "find (\<lambda>a. pre_value a \<ge> t) vs = (if below t vs < length vs then Some (vs ! below t vs) else None)"
proof -
  note F = filter_sorted_take [OF assms, of t]
  have v: "pre_value (vs ! i) \<ge> t \<longleftrightarrow> \<not> val vs i < fr_val t" for i by (simp add: val_def less_eq_fr254_def not_less)
  show ?thesis
  proof (cases "below t vs < length vs")
    case True
    then have "find (\<lambda>a. pre_value a \<ge> t) vs = Some (vs ! below t vs)"
      unfolding find_Some_iff using F v by (intro exI [of _ "below t vs"]) auto
    with True show ?thesis by simp
  next
    case False
    then have "find (\<lambda>a. pre_value a \<ge> t) vs = None"
      unfolding find_None_iff using F v by (auto simp: in_set_conv_nth)
    with False show ?thesis by simp
  qed
qed

lemma no_overflow_take: "no_overflow vs \<Longrightarrow> no_overflow (take m vs)"
proof -
  have "sum_list (map f (take m vs)) \<le> sum_list (map f vs)" for f :: "Preimage \<Rightarrow> nat"
    by (metis append_take_drop_id le_add1 map_append sum_list_append)
  then show "no_overflow vs \<Longrightarrow> no_overflow (take m vs)" unfolding no_overflow_def by (rule order.trans)
qed

lemma fold_total:
  assumes "no_overflow vs"
  shows "fr_val (foldl (\<lambda>acc x. pre_value x + acc) 0 vs) = cover vs" "fr_val (foldl (\<lambda>acc x. acc + pre_value x) 0 vs) = cover vs"
proof -
  have "fr_val a + cover vs < fr_modulus \<Longrightarrow> fr_val (foldl (\<lambda>acc x. pre_value x + acc) a vs) = fr_val a + cover vs" for a
  proof (induction vs arbitrary: a)
    case (Cons v vs)
    have "fr_val (pre_value v + a) = fr_val a + fr_val (pre_value v)"
      using Cons.prems by (simp add: fr_val_plus cover_def add.commute)
    then show ?case using Cons by (simp add: cover_def)
  qed (simp add: cover_def)
  moreover have "cover vs < fr_modulus" using assms half_less by (simp add: no_overflow_def cover_def)
  ultimately show "fr_val (foldl (\<lambda>acc x. pre_value x + acc) 0 vs) = cover vs" by simp
  then show "fr_val (foldl (\<lambda>acc x. acc + pre_value x) 0 vs) = cover vs" by (simp add: add.commute)
qed

lemma find_two_best:
  assumes "sorted (map pre_value vs)" "no_overflow vs" "length vs > 1" "0 < fr_val t"
  shows "(find_subset_two_commitments t vs = [] \<and> (\<forall>i j. i < j \<longrightarrow> j < length vs \<longrightarrow> val vs i + val vs j < fr_val t)) \<or>
    (\<exists>i j. find_subset_two_commitments t vs = [vs ! i, vs ! j] \<and> best_pair (fr_val t) vs i j)"
proof -
  have "loop_known (fr_val t) vs 0 (length vs - 1) (fr_val max_value_half) []"
    by (auto simp: loop_known_def fr_val_half)
  from two_loop_best [OF assms(1,2) _ this] assms(3)
  have "(find_subset_two_commitments t vs = [] \<and>
      (\<forall>i j. i < j \<longrightarrow> j < length vs \<longrightarrow> fr_val t \<le> val vs i + val vs j \<longrightarrow>
         fr_val t + (fr_modulus - 1) div 2 \<le> val vs i + val vs j)) \<or>
    (\<exists>i j. find_subset_two_commitments t vs = [vs ! i, vs ! j] \<and> best_pair (fr_val t) vs i j)"
    by (simp add: find_subset_two_commitments_def)
  then show ?thesis
  proof (elim disjE)
    assume a: "find_subset_two_commitments t vs = [] \<and>
      (\<forall>i j. i < j \<longrightarrow> j < length vs \<longrightarrow> fr_val t \<le> val vs i + val vs j \<longrightarrow>
         fr_val t + (fr_modulus - 1) div 2 \<le> val vs i + val vs j)"
    have "val vs i + val vs j < fr_val t" if "i < j" "j < length vs" for i j
      using a that pair_sum(2) [OF assms(2) that] assms(4) by fastforce
    then show ?thesis using a by blast
  qed blast
qed

lemma find_subset_single:
  assumes "sorted (map pre_value vs)" "below t vs \<le> 1 \<or> n = 1" "below t vs < length vs"
  shows "find_subset_commitments vs t n [] = Inr [vs ! below t vs]"
  using assms find_at_least [OF assms(1), of t] by (auto simp: find_subset_commitments_def below_def)

lemma find_subset_pair:
  assumes "sorted (map pre_value vs)" "no_overflow vs" "0 < fr_val t" "below t vs > 1"
  shows "(find_subset_commitments vs t 2 [] = Inr [] \<and>
      (\<forall>i j. i < j \<longrightarrow> j < below t vs \<longrightarrow> val vs i + val vs j < fr_val t)) \<or>
    (\<exists>i j. find_subset_commitments vs t 2 [] = Inr [vs ! i, vs ! j] \<and> j < below t vs \<and>
      best_pair (fr_val t) (take (below t vs) vs) i j)"
proof -
  let ?m = "below t vs" and ?us = "take (below t vs) vs"
  note F = filter_sorted_take [OF assms(1), of t]
  have us: "sorted (map pre_value ?us)" "no_overflow ?us" "length ?us = ?m"
    using assms(1) F no_overflow_take [OF assms(2)] by (simp_all add: sorted_wrt_take take_map [symmetric])
  have v: "val ?us i = val vs i" if "i < ?m" for i using that by (simp add: val_def)
  have run: "find_subset_commitments vs t 2 [] =
      (if fr_val t \<le> cover ?us then Inr (find_subset_two_commitments t ?us) else Inr [])"
    using F assms(4) us(3) by (simp add: find_subset_commitments_def less_eq_fr254_def fold_total [OF us(2)] Let_def)
  show ?thesis
  proof (cases "fr_val t \<le> cover ?us")
    case False
    have "val vs i + val vs j < fr_val t" if "i < j" "j < ?m" for i j
      using pair_le_sum [of i j ?us] that us(3) False v [of i] v [of j] unfolding cover_def by linarith
    then show ?thesis using run False by simp
  next
    case True
    have "length ?us > 1" using us(3) assms(4) by simp
    from find_two_best [OF us(1,2) this assms(3)]
    show ?thesis
    proof (elim disjE exE)
      assume "find_subset_two_commitments t ?us = [] \<and>
        (\<forall>i j. i < j \<longrightarrow> j < length ?us \<longrightarrow> val ?us i + val ?us j < fr_val t)"
      then show ?thesis using run True us(3) v by auto
    next
      fix i j
      assume a: "find_subset_two_commitments t ?us = [?us ! i, ?us ! j] \<and> best_pair (fr_val t) ?us i j"
      then have "i < ?m" "j < ?m" using us(3) by (auto simp: best_pair_def)
      then show ?thesis using run True a by auto
    qed
  qed
qed

lemma calculate_minimum_eq:
  assumes "sorted (map pre_value vs)" "no_overflow vs"
  shows "calculate_minimum_commitments vs t =
    (if 1 \<le> length vs \<and> fr_val t \<le> val vs (length vs - 1) then Inr 1
     else if 2 \<le> length vs \<and> fr_val t \<le> val vs (length vs - 2) + val vs (length vs - 1) then Inr 2
     else Inl ''Not enough commitments to cover the value'')"
proof -
  have srt: "sort_key pre_value vs = vs" using assms(1) by (rule sort_key_id_if_sorted)
  show ?thesis
  proof (cases vs rule: rev_cases)
    case Nil
    then show ?thesis by (simp add: calculate_minimum_commitments_def)
  next
    case (snoc us y)
    note outer = snoc
    show ?thesis
    proof (cases us rule: rev_cases)
      case Nil
      then show ?thesis
        using srt by (simp add: calculate_minimum_commitments_def snoc MAX_POSSIBLE_COMMITMENTS_def less_eq_fr254_def val_def)
    next
      case (snoc xs x)
      have vs: "vs = xs @ [x, y]" using outer snoc by simp
      have i: "length vs - 2 < length vs - 1" "length vs - 1 < length vs" by (simp_all add: vs)
      have "pre_value (vs ! (length vs - 1)) = pre_value y" "pre_value (vs ! (length vs - 2)) = pre_value x"
        by (simp_all add: vs nth_append)
      then have sum: "fr_val (pre_value y + pre_value x) = val vs (length vs - 2) + val vs (length vs - 1)"
        and y: "fr_val (pre_value y) = val vs (length vs - 1)"
        using pair_sum(1) [OF assms(2) i] by (simp_all add: add.commute val_def)
      have tk: "take MAX_POSSIBLE_COMMITMENTS (rev vs) = [y, x]" by (simp add: vs MAX_POSSIBLE_COMMITMENTS_def)
      show ?thesis
        by (simp add: calculate_minimum_commitments_def srt tk less_eq_fr254_def sum y Let_def) (simp add: vs)
    qed
  qed
qed

lemma calculate_minimum_enough:
  assumes "sorted (map pre_value vs)" "no_overflow vs"
  shows "(\<exists>n. calculate_minimum_commitments vs t = Inr n) \<longleftrightarrow> (\<exists>S. choice vs S \<and> fr_val t \<le> cover S)"
proof
  assume "\<exists>n. calculate_minimum_commitments vs t = Inr n"
  then have "1 \<le> length vs \<and> fr_val t \<le> val vs (length vs - 1) \<or>
      2 \<le> length vs \<and> fr_val t \<le> val vs (length vs - 2) + val vs (length vs - 1)"
    unfolding calculate_minimum_eq [OF assms] by (auto split: if_splits)
  then show "\<exists>S. choice vs S \<and> fr_val t \<le> cover S"
  proof (elim disjE)
    assume "1 \<le> length vs \<and> fr_val t \<le> val vs (length vs - 1)"
    then show ?thesis using choice_singleI [of "length vs - 1" vs] cover_single by fastforce
  next
    assume "2 \<le> length vs \<and> fr_val t \<le> val vs (length vs - 2) + val vs (length vs - 1)"
    then show ?thesis using choice_pairI [of "length vs - 2" "length vs - 1" vs] cover_pair by fastforce
  qed
next
  assume "\<exists>S. choice vs S \<and> fr_val t \<le> cover S"
  then obtain S where S: "choice vs S" "fr_val t \<le> cover S" by blast
  have mono: "val vs i \<le> val vs j" if "i \<le> j" "j < length vs" for i j by (rule val_mono [OF assms(1) that])
  show "\<exists>n. calculate_minimum_commitments vs t = Inr n"
    using S(1)
  proof (cases rule: choice_cases)
    case (single i)
    then have "i \<le> length vs - 1" "length vs - 1 < length vs" by linarith+
    then have "fr_val t \<le> val vs (length vs - 1)" using mono [of i "length vs - 1"] single S(2) by simp
    then show ?thesis using single(1) by (auto simp: calculate_minimum_eq [OF assms])
  next
    case (pair i j)
    then have "i \<le> length vs - 2" "j \<le> length vs - 1" "length vs - 2 < length vs" "length vs - 1 < length vs" by linarith+
    then have "fr_val t \<le> val vs (length vs - 2) + val vs (length vs - 1)"
      using mono [of i "length vs - 2"] mono [of j "length vs - 1"] pair S(2) by simp
    then show ?thesis using pair(1,2) by (auto simp: calculate_minimum_eq [OF assms])
  qed
qed

lemma subset_change_eq:
  assumes "no_overflow S" "fr_val t \<le> cover S"
  shows "fr_val (subset_change t S) = cover S - fr_val t"
  using fr_val_minus_le [of t "foldl (\<lambda>acc x. acc + pre_value x) 0 S"] assms(2)
  by (simp add: subset_change_def less_eq_fr254_def fold_total(2) [OF assms(1)])

lemma choice_no_overflow: "no_overflow vs \<Longrightarrow> choice vs S \<Longrightarrow> no_overflow S"
proof -
  assume vs: "no_overflow vs" and S: "choice vs S"
  from S have "cover S \<le> sum_list (map (\<lambda>c. fr_val (pre_value c)) vs)"
    by (cases rule: choice_cases) (simp_all add: val_le_sum pair_le_sum)
  then show "no_overflow S" using vs unfolding no_overflow_def cover_def by linarith
qed

text \<open>What the stable sort puts first.\<close>

lemma sort_first:
  "hd (sort_key f [a, b]) = (if (f b :: 'k::linorder) < f a then b else a)"
  by (auto simp: sort_key_def not_less)

lemma select_from:
  assumes "(if mn = MAX_POSSIBLE_COMMITMENTS \<or> mx = 1
            then bindS (find_subset_commitments vs t mn []) (\<lambda>subset. Inr [subset])
            else subsets_loop vs t [mn..<MAX_POSSIBLE_COMMITMENTS + 1]) = Inr Ss"
    "Ss \<noteq> []" "S = hd (sort_key (\<lambda>a. (subset_change t a, - int (length a))) Ss)" "length S \<le> 2"
  shows "select_commitment vs t mn mx = Inr (S @ replicate (2 - length S) preimage_default)"
proof -
  obtain first rest where "sort_key (\<lambda>a. (subset_change t a, - int (length a))) Ss = first # rest"
    using assms(2) by (cases "sort_key (\<lambda>a. (subset_change t a, - int (length a))) Ss")
      (auto dest: arg_cong [where f = length])
  then show ?thesis
    using assms(3,4) unfolding select_commitment_def assms(1) by (simp add: MAX_POSSIBLE_COMMITMENTS_def Let_def)
qed

lemma pair_below:
  assumes "sorted (map pre_value vs)" "i < j" "j < length vs" "\<not> j < below t vs"
  shows "below t vs < length vs" "val vs (below t vs) \<le> val vs j"
  using assms val_mono [OF assms(1), of "below t vs" j] by simp_all

lemma fr_pos: "0 < fr_val x \<longleftrightarrow> x \<noteq> 0"
  by (simp add: zero_less_iff_neq_zero)

lemma single_beats:
  assumes "cover A \<le> b" "cover T = a + b" "\<forall>c\<in>set T. pre_value c \<noteq> 0 \<Longrightarrow> 0 < a"
  shows "cover A \<le> cover T \<and> (cover A = cover T \<longrightarrow> (\<forall>c\<in>set T. pre_value c \<noteq> 0) \<longrightarrow> length T \<le> n)"
proof (intro conjI impI)
  show "cover A \<le> cover T" using assms(1,2) by linarith
  assume "cover A = cover T" "\<forall>c\<in>set T. pre_value c \<noteq> 0"
  then show "length T \<le> n" using assms by linarith
qed

lemma best_single:
  assumes "sorted (map pre_value vs)" "below t vs < length vs"
    "\<forall>i j. i < j \<longrightarrow> j < below t vs \<longrightarrow> val vs i + val vs j < fr_val t"
  shows "best_choice (fr_val t) vs [vs ! below t vs]"
proof -
  let ?m = "below t vs"
  have F: "val vs i < fr_val t \<longleftrightarrow> i < ?m" if "i < length vs" for i
    using filter_sorted_take [OF assms(1), of t] that by blast
  have "cover [vs ! ?m] \<le> cover T \<and> (cover [vs ! ?m] = cover T \<longrightarrow> (\<forall>c\<in>set T. pre_value c \<noteq> 0) \<longrightarrow> length T \<le> 1)"
    if T: "choice vs T" "fr_val t \<le> cover T" for T
    using T(1)
  proof (cases rule: choice_cases)
    case (single i)
    then have "?m \<le> i" using F [of i] T(2) by linarith
    then show ?thesis using val_mono [OF assms(1), of ?m i] single by (simp add: cover_single)
  next
    case (pair i j)
    have "\<not> j < ?m" using assms(3) pair T(2) by (metis not_less)
    then have "val vs ?m \<le> val vs j" using pair_below [OF assms(1) pair(1,2)] by blast
    then have "cover [vs ! ?m] \<le> val vs j" by (simp add: cover_single)
    then show ?thesis by (rule single_beats [OF _ pair(4)]) (simp add: pair(3) val_def fr_pos)
  qed
  then show ?thesis using assms(2) F [of ?m] by (simp add: best_choice_def choice_singleI cover_single)
qed

lemma best_pairD: "best_pair t vs i j \<Longrightarrow> k < l \<Longrightarrow> l < length vs \<Longrightarrow> t \<le> val vs k + val vs l \<Longrightarrow>
    val vs i + val vs j \<le> val vs k + val vs l"
  unfolding best_pair_def by blast

lemma best_of_both:
  assumes "sorted (map pre_value vs)" "no_overflow vs" "below t vs < length vs" "j < below t vs"
    "best_pair (fr_val t) (take (below t vs) vs) i j"
  shows "best_choice (fr_val t) vs (hd (sort_key (\<lambda>a. (subset_change t a, - int (length a))) [[vs ! below t vs], [vs ! i, vs ! j]]))"
proof -
  let ?m = "below t vs" and ?A = "[vs ! below t vs]" and ?B = "[vs ! i, vs ! j]"
  have F: "val vs i < fr_val t \<longleftrightarrow> i < ?m" if "i < length vs" for i
    using filter_sorted_take [OF assms(1), of t] that by blast
  have v: "val (take ?m vs) k = val vs k" if "k < ?m" for k using that by (simp add: val_def)
  have ij: "i < j" "j < length vs" "fr_val t \<le> val vs i + val vs j"
    using assms(3,4,5) v [of i] v [of j] by (auto simp: best_pair_def)
  have P: "val vs i + val vs j \<le> val vs k + val vs l" if "k < l" "l < ?m" "fr_val t \<le> val vs k + val vs l" for k l
  proof -
    have "val (take ?m vs) i + val (take ?m vs) j \<le> val (take ?m vs) k + val (take ?m vs) l"
      by (rule best_pairD [OF assms(5)]) (use that assms(3) v [of k] v [of l] in simp_all)
    then show ?thesis using that v [of k] v [of l] v [of i] v [of j] assms(4) ij(1) by simp
  qed
  have cA: "choice vs ?A" "fr_val t \<le> cover ?A" using assms(3) F [of ?m] by (simp_all add: choice_singleI cover_single)
  have cB: "choice vs ?B" "fr_val t \<le> cover ?B" using ij by (simp_all add: choice_pairI cover_pair)
  have ch: "fr_val (subset_change t ?A) = cover ?A - fr_val t" "fr_val (subset_change t ?B) = cover ?B - fr_val t"
    by (rule subset_change_eq [OF choice_no_overflow [OF assms(2)]], fact, fact)+
  have lessBA: "(subset_change t ?B, - int (length ?B)) < (subset_change t ?A, - int (length ?A)) \<longleftrightarrow> cover ?B \<le> cover ?A"
    using cA(2) cB(2) by (auto simp: less_prod_def less_eq_fr254_def less_fr254_def ch)
  let ?S = "if cover ?B \<le> cover ?A then ?B else ?A"
  have S: "hd (sort_key (\<lambda>a. (subset_change t a, - int (length a))) [?A, ?B]) = ?S"
    unfolding sort_first lessBA ..
  have "cover ?S \<le> cover T \<and> (cover ?S = cover T \<longrightarrow> (\<forall>c\<in>set T. pre_value c \<noteq> 0) \<longrightarrow> length T \<le> length ?S)"
    if T: "choice vs T" "fr_val t \<le> cover T" for T
    using T(1)
  proof (cases rule: choice_cases)
    case (single k)
    then have "?m \<le> k" using F [of k] T(2) by linarith
    then show ?thesis using val_mono [OF assms(1), of ?m k] single by (auto simp: cover_single)
  next
    case (pair k l)
    show ?thesis
    proof (cases "l < ?m")
      case True
      then have "cover ?B \<le> cover T" using P [of k l] pair T(2) by (simp add: cover_pair)
      then show ?thesis using pair by auto
    next
      case False
      then have "val vs ?m \<le> val vs l" using pair_below [OF assms(1) pair(1,2)] by blast
      then have "cover ?S \<le> val vs l" by (simp add: cover_single)
      then show ?thesis by (rule single_beats [OF _ pair(4)]) (simp add: pair(3) val_def fr_pos)
    qed
  qed
  then show ?thesis unfolding S best_choice_def using cA cB by simp
qed

lemma best_pair_choice:
  assumes "best_pair t vs i j" "\<forall>k<length vs. val vs k < t"
  shows "best_choice t vs [vs ! i, vs ! j]"
proof -
  have "cover [vs ! i, vs ! j] \<le> cover T \<and> length T \<le> 2" if "choice vs T" "t \<le> cover T" for T
    using that(1)
  proof (cases rule: choice_cases)
    case (single k)
    then show ?thesis using assms(2) that(2) by fastforce
  next
    case (pair k l)
    then show ?thesis using assms(1) that(2) unfolding best_pair_def by (simp add: cover_pair)
  qed
  then show ?thesis using assms(1) by (simp add: best_choice_def best_pair_def choice_pairI cover_pair numeral_2_eq_2)
qed

lemma select_best:
  assumes "sorted (map pre_value vs)" "no_overflow vs" "0 < t" "calculate_minimum_commitments vs t = Inr mn"
  obtains S where "best_choice (fr_val t) vs S"
    "select_commitment vs t mn (if length vs < 2 then length vs else 2) = Inr (S @ replicate (2 - length S) preimage_default)"
proof -
  let ?m = "below t vs" and ?n = "length vs"
  have t: "0 < fr_val t" using assms(3) by (simp add: less_fr254_def)
  note F = filter_sorted_take [OF assms(1), of t]
  have fv: "val vs i < fr_val t \<longleftrightarrow> i < ?m" if "i < ?n" for i using F that by blast
  consider (one) "1 \<le> ?n" "fr_val t \<le> val vs (?n - 1)" "mn = 1"
    | (two) "2 \<le> ?n" "fr_val t \<le> val vs (?n - 2) + val vs (?n - 1)" "\<not> fr_val t \<le> val vs (?n - 1)" "mn = 2"
    using assms(4) unfolding calculate_minimum_eq [OF assms(1,2)] by (auto split: if_splits)
  then show thesis
  proof cases
    case one
    have "\<not> ?n - 1 < ?m" using fv [of "?n - 1"] one by simp
    then have m: "?m < ?n" using one(1) by linarith
    have A: "find_subset_commitments vs t 1 [] = Inr [vs ! ?m]" by (rule find_subset_single [OF assms(1) _ m]) simp
    show thesis
    proof (cases "?n < 2")
      case True
      then have "?m = 0" using m by simp
      then have "best_choice (fr_val t) vs [vs ! ?m]" using best_single [OF assms(1) m] by simp
      then show thesis
        by (rule that) (rule select_from [where Ss = "[[vs ! ?m]]"], use True one(1,3) A in simp_all)
    next
      case False
      have loop: "subsets_loop vs t [mn..<MAX_POSSIBLE_COMMITMENTS + 1] =
          bindS (find_subset_commitments vs t 2 []) (\<lambda>B. Inr ([vs ! ?m] # (if B \<noteq> [] then [B] else [])))"
      proof -
        have "[mn..<MAX_POSSIBLE_COMMITMENTS + 1] = [1, 2]"
          by (simp add: one(3) MAX_POSSIBLE_COMMITMENTS_def upt_rec numeral_2_eq_2)
        then show ?thesis by (simp only: subsets_loop.simps A bindS_simps) (simp add: bindS_def split: sum.split)
      qed
      have go: "select_commitment vs t mn (if ?n < 2 then ?n else 2) = Inr (S @ replicate (2 - length S) preimage_default)"
        if "find_subset_commitments vs t 2 [] = Inr B" "Ss = [vs ! ?m] # (if B \<noteq> [] then [B] else [])"
          "S = hd (sort_key (\<lambda>a. (subset_change t a, - int (length a))) Ss)" "length S \<le> 2" for B Ss S
        by (rule select_from [OF _ _ that(3,4)])
          (use loop that(1,2) False one(3) in \<open>simp_all add: MAX_POSSIBLE_COMMITMENTS_def\<close>)
      show thesis
      proof (cases "?m \<le> 1")
        case True
        have "best_choice (fr_val t) vs [vs ! ?m]"
          by (rule best_single [OF assms(1) m]) (use True in auto)
        moreover have "find_subset_commitments vs t 2 [] = Inr [vs ! ?m]"
          by (rule find_subset_single [OF assms(1) _ m]) (use True in simp)
        ultimately show thesis by (intro that [of "[vs ! ?m]"] go) (auto simp: sort_first)
      next
        case big: False
        then have "?m > 1" by simp
        from find_subset_pair [OF assms(1,2) t this]
        show thesis
        proof (elim disjE exE)
          assume a: "find_subset_commitments vs t 2 [] = Inr [] \<and>
            (\<forall>i j. i < j \<longrightarrow> j < ?m \<longrightarrow> val vs i + val vs j < fr_val t)"
          then have "best_choice (fr_val t) vs [vs ! ?m]" by (intro best_single [OF assms(1) m]) blast
          then show thesis using a by (intro that [of "[vs ! ?m]"] go [where B = "[]"]) auto
        next
          fix i j
          assume a: "find_subset_commitments vs t 2 [] = Inr [vs ! i, vs ! j] \<and> j < ?m \<and>
            best_pair (fr_val t) (take ?m vs) i j"
          let ?S = "hd (sort_key (\<lambda>a. (subset_change t a, - int (length a))) [[vs ! ?m], [vs ! i, vs ! j]])"
          have "best_choice (fr_val t) vs ?S" using best_of_both [OF assms(1,2) m] a by blast
          moreover have "length ?S \<le> 2" unfolding sort_first by simp
          ultimately show thesis using a by (intro that [of ?S] go [where B = "[vs ! i, vs ! j]"]) auto
        qed
      qed
    qed
  next
    case two
    have all: "\<forall>k<?n. val vs k < fr_val t"
    proof (intro allI impI)
      fix k assume "k < ?n"
      then have "k \<le> ?n - 1" "?n - 1 < ?n" by linarith+
      from val_mono [OF assms(1) this] show "val vs k < fr_val t" using two(3) by linarith
    qed
    have "\<not> ?m < ?n" using all fv [of ?m] by blast
    then have m: "?m = ?n" using F by linarith
    have "?m > 1" using m two(1) by simp
    from find_subset_pair [OF assms(1,2) t this]
    show thesis
    proof (elim disjE exE)
      assume "find_subset_commitments vs t 2 [] = Inr [] \<and>
        (\<forall>i j. i < j \<longrightarrow> j < ?m \<longrightarrow> val vs i + val vs j < fr_val t)"
      then have "val vs (?n - 2) + val vs (?n - 1) < fr_val t" using two(1) m by simp
      then show thesis using two(2) by linarith
    next
      fix i j
      assume a: "find_subset_commitments vs t 2 [] = Inr [vs ! i, vs ! j] \<and> j < ?m \<and>
        best_pair (fr_val t) (take ?m vs) i j"
      then have "best_choice (fr_val t) vs [vs ! i, vs ! j]" using best_pair_choice [OF _ all] m by simp
      then show thesis
        by (rule that) (rule select_from [where Ss = "[[vs ! i, vs ! j]]"],
          use a two(4) in \<open>simp_all add: MAX_POSSIBLE_COMMITMENTS_def\<close>)
    qed
  qed
qed

text \<open>What is selected comes from the list, or is padding.\<close>

lemma two_loop_subset:
  "rhs < length vs \<Longrightarrow> set best \<subseteq> set vs \<Longrightarrow> set (two_loop t vs lhs rhs change best) \<subseteq> set vs"
proof (induction t vs lhs rhs change best rule: two_loop.induct)
  case (1 t vs lhs rhs change best)
  have pair: "set [vs ! lhs, vs ! rhs] \<subseteq> set vs" if "lhs < rhs" using that 1(4) by simp
  have rhs: "rhs - 1 < length vs" using 1(4) by linarith
  show ?case
    by (subst two_loop.simps, simp only: Let_def split: if_split)
      (intro conjI impI 1(1-3) refl rhs pair 1(4,5); simp)
qed

lemma find_subset_commitments_subset:
  assumes "find_subset_commitments cs t n [] = Inr S"
  shows "set S \<subseteq> set cs"
proof -
  let ?b = "filter (\<lambda>a. pre_value a < t) cs"
  have "set (find_subset_two_commitments t ?b) \<subseteq> set cs" if "length ?b > 1"
  proof -
    have "set (find_subset_two_commitments t ?b) \<subseteq> set ?b"
      unfolding find_subset_two_commitments_def by (rule two_loop_subset) (use that in auto)
    then show ?thesis by auto
  qed
  then show ?thesis
    using assms unfolding find_subset_commitments_def Let_def
    by (auto simp: find_Some_iff split: if_splits option.splits)
qed

lemma subsets_loop_subset: "subsets_loop cs t ns = Inr Ss \<Longrightarrow> S \<in> set Ss \<Longrightarrow> set S \<subseteq> set cs"
proof (induction ns arbitrary: Ss)
  case (Cons n ns)
  obtain A Bs where "find_subset_commitments cs t n [] = Inr A" "subsets_loop cs t ns = Inr Bs"
    "Ss = (if A \<noteq> [] then A # Bs else Bs)"
    using Cons.prems(1) by (auto simp: bindS_def split: sum.splits)
  then show ?case
    using Cons.IH [of Bs] Cons.prems(2) find_subset_commitments_subset [of cs t n A] by (auto split: if_splits)
qed simp

lemma select_commitment_subset:
  assumes "select_commitment cs t mn mx = Inr res"
  shows "set res \<subseteq> insert preimage_default (set cs)" "length res = 2"
proof -
  obtain Ss where Ss: "(if mn = MAX_POSSIBLE_COMMITMENTS \<or> mx = 1
            then bindS (find_subset_commitments cs t mn []) (\<lambda>subset. Inr [subset])
            else subsets_loop cs t [mn..<MAX_POSSIBLE_COMMITMENTS + 1]) = Inr Ss"
    using assms by (auto simp: select_commitment_def bindS_def split: sum.splits if_splits)
  have sub: "set S \<subseteq> set cs" if "S \<in> set Ss" for S
    using Ss that subsets_loop_subset find_subset_commitments_subset
    by (auto simp: bindS_def split: if_splits sum.splits) blast+
  obtain S rest where S: "sort_key (\<lambda>a. (subset_change t a, - int (length a))) Ss = S # rest"
    "res = take 2 S @ replicate (2 - length S) preimage_default" "length res = 2"
    using assms unfolding select_commitment_def Ss bindS_simps
    by (auto simp: MAX_POSSIBLE_COMMITMENTS_def Let_def split: list.splits if_splits)
  then have "S \<in> set Ss" by (metis list.set_intros(1) set_sort)
  then show "set res \<subseteq> insert preimage_default (set cs)" using sub S(2) by (fastforce dest: in_set_takeD)
  show "length res = 2" by (rule S(3))
qed

section \<open>Properties\<close>

text \<open>C29. For a sorted list of commitments whose total value is below half of the field, and a positive value to
  pay: when some one or two of them cover the value, a best choice is selected (no one or two commitments that
  cover it leave less change; of those that leave as little, and have no zero value, none uses more
  commitments) and padded with default pre-images to two; otherwise the selection ends with the message that
  there are not enough.\<close>

theorem selection_is_best:
  assumes "sorted (map pre_value vs)" "no_overflow vs" "0 < t"
  shows "if \<exists>S. choice vs S \<and> fr_val t \<le> cover S
    then \<exists>mn S. calculate_minimum_commitments vs t = Inr mn \<and> best_choice (fr_val t) vs S \<and>
      select_commitment vs t mn (if length vs < 2 then length vs else 2) = Inr (S @ replicate (2 - length S) preimage_default)
    else calculate_minimum_commitments vs t = Inl ''Not enough commitments to cover the value''"
proof (cases "\<exists>S. choice vs S \<and> fr_val t \<le> cover S")
  case True
  then obtain mn where mn: "calculate_minimum_commitments vs t = Inr mn"
    using calculate_minimum_enough [OF assms(1,2), of t] by blast
  obtain S where "best_choice (fr_val t) vs S"
    "select_commitment vs t mn (if length vs < 2 then length vs else 2) = Inr (S @ replicate (2 - length S) preimage_default)"
    by (rule select_best [OF assms mn])
  then show ?thesis using True mn by auto
next
  case False
  then have "\<nexists>n. calculate_minimum_commitments vs t = Inr n"
    using calculate_minimum_enough [OF assms(1,2), of t] by simp
  then have "calculate_minimum_commitments vs t = Inl ''Not enough commitments to cover the value''"
    using calculate_minimum_eq [OF assms(1,2), of t] by (auto split: if_splits)
  then show ?thesis using False by simp
qed

definition coin :: "nat \<Rightarrow> Preimage" where
  "coin v = preimage_default\<lparr>pre_value := fr v\<rparr>"

lemma coins_ex: "sorted (map pre_value [coin 1, coin 2, coin 3])" "no_overflow [coin 1, coin 2, coin 3]"
  by (simp_all add: coin_def less_eq_fr254_def no_overflow_def fr_modulus_def)

theorem selection_is_best_witness:
  "\<exists>mn S. calculate_minimum_commitments [coin 1, coin 2, coin 3] (fr 3) = Inr mn \<and>
     best_choice 3 [coin 1, coin 2, coin 3] S \<and>
     select_commitment [coin 1, coin 2, coin 3] (fr 3) mn 2 = Inr (S @ replicate (2 - length S) preimage_default)"
proof -
  have t: "fr_val (fr 3) = 3" by (simp add: fr_modulus_def)
  have pos: "0 < fr 3" unfolding less_fr254_def t by simp
  have "choice [coin 1, coin 2, coin 3] [coin 3]" unfolding choice_def by (intro disjI1 exI [of _ 2]) simp
  moreover have "fr_val (fr 3) \<le> cover [coin 3]" by (simp add: cover_def coin_def t)
  moreover have len: "(if length [coin 1, coin 2, coin 3] < 2 then length [coin 1, coin 2, coin 3] else 2) = 2" by simp
  ultimately have c: "\<exists>S. choice [coin 1, coin 2, coin 3] S \<and> fr_val (fr 3) \<le> cover S" by blast
  show ?thesis
    using selection_is_best [OF coins_ex pos, unfolded if_P [OF c]] unfolding len t .
qed

text \<open>The example of the code's comment: to pay 3 from 1, 2 and 3 the two smaller ones are used.\<close>

theorem selection_uses_dust:
  "select_commitment [coin 1, coin 2, coin 3] (fr 3) 1 2 = Inr [coin 1, coin 2]"
proof -
  have v: "fr_val (fr n) = n" if "n < 100" for n using that by (simp add: fr_modulus_def)
  have plus: "fr a + fr b = fr (a + b)" for a b by (simp add: fr_val_inject_iff fr_val_plus mod_simps)
  have c: "pre_value (coin n) = fr n" for n by (simp add: coin_def)
  have eq: "fr a = fr b \<longleftrightarrow> a = b" if "a < 100" "b < 100" for a b using that v [of a] v [of b] by (metis)
  have less: "fr a < fr b \<longleftrightarrow> a < b" "fr a \<le> fr b \<longleftrightarrow> a \<le> b" if "a < 100" "b < 100" for a b
    using that v [of a] v [of b] by (simp_all add: less_fr254_def less_eq_fr254_def)
  have minus: "x - x = fr 0" for x :: fr254 by (simp add: fr_val_inject_iff fr_val_minus_le)
  note z = fr_zero [symmetric]
  have two: "find_subset_two_commitments (fr 3) [coin 1, coin 2] = [coin 1, coin 2]"
    by (simp add: find_subset_two_commitments_def two_loop.simps [of _ _ 0 "Suc 0"] c plus Let_def eval_nat_numeral)
  have f1: "find_subset_commitments [coin 1, coin 2, coin 3] (fr 3) 1 [] = Inr [coin 3]"
    by (simp add: find_subset_commitments_def c less)
  have f2: "find_subset_commitments [coin 1, coin 2, coin 3] (fr 3) 2 [] = Inr [coin 1, coin 2]"
    by (simp add: find_subset_commitments_def c less plus z two [simplified] del: fr_zero)
  have l: "[1..<MAX_POSSIBLE_COMMITMENTS + 1] = [1, 2]" by (simp add: MAX_POSSIBLE_COMMITMENTS_def upt_rec numeral_2_eq_2)
  have s: "subset_change (fr 3) [coin 3] = fr 0" "subset_change (fr 3) [coin 1, coin 2] = fr 0"
    by (simp_all add: subset_change_def c plus z minus eval_nat_numeral del: fr_zero)
  show ?thesis
    unfolding select_commitment_def l subsets_loop.simps f1 f2
    by (simp add: MAX_POSSIBLE_COMMITMENTS_def sort_key_def s [simplified] Let_def)
qed

end
