(* ===== verification/Contract_Conversions.thy ===== *)
theory Contract_Conversions
  imports Client_Entities
begin

text \<open>
  \<open>nightfall_client/src/driven/contract_functions/contract_type_conversions.rs\<close> and
  \<open>nightfall_client/src/drivers/rest/utils.rs\<close>: the conversions between field elements and the types of
  the contracts, and the computation of the Nightfall token id. \<open>U256\<close> and \<open>BigInt<4>\<close> are \<open>256 word\<close>, an
  address is a \<open>160 word\<close>. \<open>None\<close> is a panic; the text forms of \<open>BigUint\<close> and SHA-256 are parameters.
\<close>

datatype conversion_error =
    Overflow | ProofDecompression | ProofCompression | SerialisationError | NotErc20DepositData
  | FixedLengthArrayError | ParseFailed | PoseidonFailure

section \<open>The digits of a big integer\<close>

text \<open>\<open>iter_u64_digits\<close>: no leading zero digit.\<close>

function u64_digits :: "nat \<Rightarrow> 64 word list" where
  "u64_digits n = (if n = 0 then [] else of_nat n # u64_digits (n div 2 ^ 64))"
  by pat_completeness auto
termination
  by (relation "measure id") (auto intro: div_less_dividend)

declare u64_digits.simps [simp del]

fun limbs_value :: "64 word list \<Rightarrow> nat" where
  "limbs_value [] = 0"
| "limbs_value (d # ds) = unat d + 2 ^ 64 * limbs_value ds"

text \<open>The loop that copies the digits into an array of four.\<close>

definition fill_digits :: "64 word list \<Rightarrow> 64 word list option" where
  "fill_digits ds = (if 4 < length ds then None else Some (ds @ replicate (4 - length ds) 0))"

definition from_limbs :: "64 word list \<Rightarrow> 256 word" where
  "from_limbs ds = of_nat (limbs_value ds)"

section \<open>Field elements and 256-bit integers\<close>

definition uint256_from_fr :: "fr254 \<Rightarrow> 256 word option" where
  "uint256_from_fr fq = map_option from_limbs (fill_digits (u64_digits (fr_val fq)))"

definition uint256_from_bigint :: "256 word \<Rightarrow> 256 word option" where
  "uint256_from_bigint value = map_option from_limbs (fill_digits (u64_digits (unat value)))"

definition uint256_from_u64 :: "64 word \<Rightarrow> 256 word" where
  "uint256_from_u64 value = from_limbs [value, 0, 0, 0]"

text \<open>\<open>Fr254::new\<close> reduces its argument.\<close>

definition frbn_try_from_u256 :: "256 word \<Rightarrow> conversion_error + fr254" where
  "frbn_try_from_u256 u = (if u > of_nat fr_modulus then Inl Overflow else Inr (fr (unat u)))"

text \<open>The text of a field element in the database: lower-case digits without leading zeros.\<close>

definition frbn_to_hex :: "(nat \<Rightarrow> string) \<Rightarrow> fr254 \<Rightarrow> string" where
  "frbn_to_hex to_str_radix x = to_str_radix (fr_val x)"

definition frbn_deserialize :: "(string \<Rightarrow> nat option) \<Rightarrow> string \<Rightarrow> fr254 option" where
  "frbn_deserialize parse_bytes s = map_option fr (parse_bytes s)"

section \<open>Addresses\<close>

definition max_addr :: nat where
  "max_addr = 2923003274661805836407369665432566039311865085951"

definition addr_try_from :: "fr254 \<Rightarrow> conversion_error + 160 word" where
  "addr_try_from fq =
     (if fq > fr max_addr then Inl Overflow
      else Inr (of_nat (be_value (take 20 (drop 12 (be_bytes 32 (fr_val fq)))))))"

definition frbn_from_address :: "160 word \<Rightarrow> fr254 option" where
  "frbn_from_address a = map_option (\<lambda>digits. fr (limbs_value digits)) (fill_digits (u64_digits (be_value (be_bytes 20 (unat a)))))"

section \<open>Withdrawals, secrets and transactions\<close>

record ContractWithdrawData =
  cwd_nf_token_id :: "256 word"
  cwd_recipient_address :: "160 word"
  cwd_value :: "256 word"
  cwd_withdraw_fund_salt :: "256 word"

definition contract_withdraw_data :: "WithdrawData \<Rightarrow> ContractWithdrawData option" where
  "contract_withdraw_data d =
     (case (uint256_from_fr (wd_nf_token_id d), addr_try_from (wd_withdraw_address d),
            uint256_from_fr (wd_value d), uint256_from_fr (wd_withdraw_fund_salt d)) of
        (Some t, Inr a, Some v, Some s) \<Rightarrow>
          Some \<lparr>cwd_nf_token_id = t, cwd_recipient_address = a, cwd_value = v, cwd_withdraw_fund_salt = s\<rparr>
      | _ \<Rightarrow> None)"

text \<open>The array \<open>[U256; 4]\<close> of a contract to the five elements of the cipher text. \<open>expect\<close> panics.\<close>

definition expect_frbn :: "256 word \<Rightarrow> fr254 option" where
  "expect_frbn u = (case frbn_try_from_u256 u of Inl _ \<Rightarrow> None | Inr x \<Rightarrow> Some x)"

definition secrets_from_u256 :: "256 word list \<Rightarrow> CompressedSecrets option" where
  "secrets_from_u256 ciphertext =
     (let compressed_point = le_bytes 32 (unat (ciphertext ! 3));
          top_bit = drop_bit 7 (compressed_point ! 31);
          y_coord = le_value compressed_point - unat top_bit * 2 ^ 255
      in case (expect_frbn (ciphertext ! 0), expect_frbn (ciphertext ! 1), expect_frbn (ciphertext ! 2)) of
           (Some a, Some b, Some c) \<Rightarrow> Some \<lparr>cipher_text = [a, b, c, fr y_coord, fr (unat top_bit)]\<rparr>
         | _ \<Rightarrow> None)"

text \<open>Back: the flag is the 255th bit. More than 32 bytes is a panic.\<close>

definition compressed_point_of :: "fr254 \<Rightarrow> fr254 \<Rightarrow> nat" where
  "compressed_point_of secrets_4 flag = fr_val secrets_4 + fr_val flag * 2 ^ 255"

definition secrets_to_u256 :: "CompressedSecrets \<Rightarrow> 256 word list option" where
  "secrets_to_u256 cs =
     (let ct = cipher_text cs;
          compressed_point = compressed_point_of (ct ! 3) (ct ! 4)
      in if 256 ^ 32 \<le> compressed_point then None
         else case (uint256_from_fr (ct ! 0), uint256_from_fr (ct ! 1), uint256_from_fr (ct ! 2)) of
           (Some a, Some b, Some c) \<Rightarrow> Some [a, b, c, of_nat (le_value (le_bytes 32 compressed_point))]
         | _ \<Rightarrow> None)"

record ContractTransaction =
  ctx_fee :: "256 word"
  ctx_commitments :: "256 word list"
  ctx_nullifiers :: "256 word list"
  ctx_public_data :: "256 word list"

definition on_chain_transaction_from :: "ContractTransaction \<Rightarrow> OnChainTransaction option" where
  "on_chain_transaction_from ntx =
     (case (expect_frbn (ctx_fee ntx), those (map expect_frbn (ctx_commitments ntx)),
            those (map expect_frbn (ctx_nullifiers ntx)), secrets_from_u256 (ctx_public_data ntx)) of
        (Some f, Some cs, Some ns, Some p) \<Rightarrow>
          Some \<lparr>oct_fee = f, oct_commitments = cs, oct_nullifiers = ns, oct_public_data = p\<rparr>
      | _ \<Rightarrow> None)"

section \<open>Token ids\<close>

text \<open>The loop that inserts zero bytes in front.\<close>

definition lpad32 :: "byte list \<Rightarrow> byte list" where
  "lpad32 bs = replicate (32 - length bs) 0 @ bs"

definition to_nf_token_id_from_str ::
    "(string \<Rightarrow> byte list option) \<Rightarrow> (byte list \<Rightarrow> byte list) \<Rightarrow> string \<Rightarrow> string \<Rightarrow> conversion_error + fr254" where
  "to_nf_token_id_from_str dec sha256 erc_address token_id =
     (case bytes_from_hex_string dec erc_address of
        Inl _ \<Rightarrow> Inl ParseFailed
      | Inr erc_vec \<Rightarrow>
          (case bytes_from_hex_string dec token_id of
             Inl _ \<Rightarrow> Inl ParseFailed
           | Inr token_vec \<Rightarrow>
               Inr (fr (drop_bit 4 (be_value (sha256 (lpad32 erc_vec @ lpad32 token_vec)))))))"

definition to_nf_token_id_from_fr254 :: "(byte list \<Rightarrow> byte list) \<Rightarrow> fr254 \<Rightarrow> fr254 \<Rightarrow> fr254" where
  "to_nf_token_id_from_fr254 sha256 erc_address token_id =
     fr (drop_bit 4 (be_value (sha256
       (lpad32 (be_bytes 32 (fr_val erc_address)) @ lpad32 (be_bytes 32 (fr_val token_id))))))"

definition to_nf_token_id_from_solidity :: "(byte list \<Rightarrow> byte list) \<Rightarrow> 160 word \<Rightarrow> 256 word \<Rightarrow> fr254" where
  "to_nf_token_id_from_solidity sha256 solidity_token_address solidity_token_id =
     fr (drop_bit 4 (be_value (sha256
       (lpad32 (be_bytes 20 (unat solidity_token_address)) @ be_bytes 32 (unat solidity_token_id)))))"

section \<open>Facts\<close>

lemma limbs_u64_digits: "limbs_value (u64_digits n) = n"
proof (induction n rule: u64_digits.induct)
  case (1 n)
  show ?case
  proof (cases "n = 0")
    case False
    have "unat (of_nat n :: 64 word) = n mod 2 ^ 64" by (simp add: unat_of_nat)
    with 1 False show ?thesis by (simp add: u64_digits.simps [of n])
  qed (simp add: u64_digits.simps)
qed

lemma length_u64_digits: "n < 2 ^ (64 * k) \<Longrightarrow> length (u64_digits n) \<le> k"
proof (induction k arbitrary: n)
  case (Suc k)
  have "n div 2 ^ 64 < 2 ^ (64 * k)"
    using Suc.prems by (simp add: less_mult_imp_div_less power_add mult.commute)
  then show ?case using Suc.IH [of "n div 2 ^ 64"] by (simp add: u64_digits.simps [of n])
qed (simp add: u64_digits.simps)

lemma limbs_zeros [simp]: "limbs_value (ds @ replicate k 0) = limbs_value ds"
  by (induction ds) (simp_all, induction k, simp_all)

lemma fill_u64_digits:
  assumes "n < 2 ^ 256"
  obtains ds where "fill_digits (u64_digits n) = Some ds" "limbs_value ds = n" "length ds = 4"
proof -
  have "length (u64_digits n) \<le> 4" using length_u64_digits [of n 4] assms by simp
  then show thesis by (intro that [of "u64_digits n @ replicate (4 - length (u64_digits n)) 0"])
    (simp_all add: fill_digits_def limbs_u64_digits)
qed

lemma fr_val_bound: "fr_val x < 2 ^ 254"
proof -
  have "fr_modulus < 2 ^ 254" by (simp add: fr_modulus_def)
  then show ?thesis using fr_val_less [of x] by linarith
qed

lemma fr_not_above [simp]: "\<not> fr_modulus < fr_val x"
  using fr_val_less [of x] by linarith

lemma uint256_from_fr_eq: "uint256_from_fr x = Some (of_nat (fr_val x))"
proof -
  have "fr_val x < 2 ^ 256" using fr_val_bound [of x] by simp
  then show ?thesis by (rule fill_u64_digits) (simp add: uint256_from_fr_def from_limbs_def)
qed

lemma unat_of_fr: "unat (of_nat (fr_val x) :: 256 word) = fr_val x"
  using fr_val_bound [of x] by (simp add: unat_of_nat)

lemma modulus_word: "u > (of_nat fr_modulus :: 256 word) \<longleftrightarrow> unat u > fr_modulus"
  by (simp add: word_less_nat_alt unat_of_nat fr_modulus_def)

lemma frbn_try_from_eq: "frbn_try_from_u256 u = (if unat u > fr_modulus then Inl Overflow else Inr (fr (unat u)))"
  by (simp add: frbn_try_from_u256_def modulus_word)

lemma fr_max_addr: "fr_val (fr max_addr) = max_addr"
  by (simp add: max_addr_def fr_modulus_def)

lemma max_addr: "max_addr = 2 ^ 161 - 1"
  by (simp add: max_addr_def)

lemma le_value_take: "le_value (take k (le_bytes n v)) = v mod 256 ^ min k n"
proof (induction n arbitrary: k v)
  case (Suc n)
  show ?case
  proof (cases k)
    case (Suc k')
    then show ?thesis using Suc.IH [of k' "v div 256"] by (simp add: unat_of_nat mod_mult2_eq)
  qed simp
qed simp

lemma address_bytes: "be_value (take 20 (drop 12 (be_bytes 32 v))) = v mod 2 ^ 160"
proof -
  have "take 20 (drop 12 (be_bytes 32 v)) = rev (take 20 (le_bytes 32 v))"
    by (simp add: be_bytes_def rev_take)
  then show ?thesis by (simp add: be_value_def le_value_take)
qed

lemma addr_try_from_eq:
  "addr_try_from x = (if 2 ^ 161 \<le> fr_val x then Inl Overflow else Inr (of_nat (fr_val x mod 2 ^ 160)))"
proof -
  have "x > fr max_addr \<longleftrightarrow> 2 ^ 161 \<le> fr_val x"
    unfolding less_fr254_def fr_max_addr by (auto simp: max_addr_def)
  then show ?thesis unfolding addr_try_from_def address_bytes by simp
qed

lemma be_bytes_pad: "n < 256 ^ k \<Longrightarrow> be_bytes (k + j) n = replicate j 0 @ be_bytes k n"
proof -
  assume n: "n < 256 ^ k"
  have "n < 256 ^ k \<Longrightarrow> le_bytes (k + j) n = le_bytes k n @ replicate j 0"
  proof (induction k arbitrary: n)
    case 0
    then show ?case by (induction j) simp_all
  next
    case (Suc k)
    then show ?case using Suc.IH [of "n div 256"] by (simp add: less_mult_imp_div_less)
  qed
  with n show ?thesis by (simp add: be_bytes_def)
qed

section \<open>Properties\<close>

text \<open>A field element becomes a 256-bit integer and comes back; an integer is read exactly when it is at most
  the modulus, and the modulus itself is accepted and read as zero.\<close>

theorem fr_u256_conversion:
  "(\<exists>u. uint256_from_fr x = Some u \<and> unat u = fr_val x \<and> frbn_try_from_u256 u = Inr x) \<and>
   (frbn_try_from_u256 v = Inl Overflow \<longleftrightarrow> unat v > fr_modulus) \<and>
   frbn_try_from_u256 (of_nat fr_modulus) = Inr 0"
proof (intro conjI)
  show "\<exists>u. uint256_from_fr x = Some u \<and> unat u = fr_val x \<and> frbn_try_from_u256 u = Inr x"
    by (simp add: uint256_from_fr_eq unat_of_fr frbn_try_from_eq)
  show "frbn_try_from_u256 v = Inl Overflow \<longleftrightarrow> unat v > fr_modulus" by (simp add: frbn_try_from_eq)
  have "unat (of_nat fr_modulus :: 256 word) = fr_modulus" by (simp add: unat_of_nat fr_modulus_def)
  then show "frbn_try_from_u256 (of_nat fr_modulus) = Inr 0" by (simp add: frbn_try_from_eq fr_val_inject_iff)
qed

text \<open>A field element below \<open>2 ^ 160\<close> becomes an address and comes back. The overflow check lets one more bit
  through: from \<open>2 ^ 160\<close> to below \<open>2 ^ 161\<close> the address is the element without its top bit, and only from there on
  the conversion is refused.\<close>

theorem addr_try_from_drops_a_bit:
  "if fr_val x < 2 ^ 160 then \<exists>a. addr_try_from x = Inr a \<and> unat a = fr_val x \<and> frbn_from_address a = Some x
   else if fr_val x < 2 ^ 161 then \<exists>a. addr_try_from x = Inr a \<and> unat a + 2 ^ 160 = fr_val x
   else addr_try_from x = Inl Overflow"
proof -
  consider "fr_val x < 2 ^ 160" | "2 ^ 160 \<le> fr_val x" "fr_val x < 2 ^ 161" | "2 ^ 161 \<le> fr_val x" by linarith
  then show ?thesis
  proof cases
    case 1
    define a :: "160 word" where "a = of_nat (fr_val x)"
    have u: "unat a = fr_val x" using 1 by (simp add: a_def unat_of_nat)
    have "addr_try_from x = Inr a" using 1 by (simp add: addr_try_from_eq a_def)
    moreover have "frbn_from_address a = Some x"
    proof -
      have v: "be_value (be_bytes 20 (fr_val x)) = fr_val x" using 1 by (simp add: be_value_bytes)
      have "fr_val x < 2 ^ 256" using 1 by simp
      then show ?thesis by (rule fill_u64_digits) (simp add: frbn_from_address_def u v)
    qed
    ultimately show ?thesis using 1 u by auto
  next
    case 2
    define k where "k = fr_val x - 2 ^ 160"
    have k: "fr_val x = 2 ^ 160 + k" "k < 2 ^ 160" using 2 by (simp_all add: k_def)
    have "addr_try_from x = Inr (of_nat k)" using 2 k by (simp add: addr_try_from_eq)
    moreover have "unat (of_nat k :: 160 word) + 2 ^ 160 = fr_val x" using k by (simp add: unat_of_nat)
    ultimately show ?thesis using 2 by auto
  qed (simp add: addr_try_from_eq)
qed

text \<open>Cipher texts whose last element is a bit are read back after the conversion to the contract's four
  integers; any other last element makes the conversion panic.\<close>

theorem secrets_roundtrip:
  assumes "length (cipher_text cs) = 5"
  shows "(fr_val (cipher_text cs ! 4) \<le> 1 \<longrightarrow>
      (\<exists>us. secrets_to_u256 cs = Some us \<and> length us = 4 \<and> secrets_from_u256 us = Some cs)) \<and>
    (fr_val (cipher_text cs ! 4) > 1 \<longrightarrow> secrets_to_u256 cs = None)"
proof (intro conjI impI)
  obtain a b c y f where ct: "cipher_text cs = [a, b, c, y, f]"
    using assms by (auto simp: numeral_eq_Suc length_Suc_conv)
  have cs: "cs = \<lparr>cipher_text = [a, b, c, y, f]\<rparr>" using ct by (cases cs) simp
  have y: "fr_val y < 2 ^ 255" using fr_val_bound [of y] by simp
  {
    assume "fr_val (cipher_text cs ! 4) \<le> 1"
    then have f: "fr_val f \<le> 1" by (simp add: ct)
    define p where "p = compressed_point_of y f"
    have "fr_val f * 2 ^ 255 \<le> 1 * 2 ^ 255" using f by (rule mult_right_mono) simp
    then have p: "p < 256 ^ 32" using y by (simp add: p_def compressed_point_of_def)
    have word: "unat (of_nat p :: 256 word) = p" using p by (simp add: unat_of_nat)
    have to: "secrets_to_u256 cs = Some [of_nat (fr_val a), of_nat (fr_val b), of_nat (fr_val c), of_nat p]"
      using p by (simp add: secrets_to_u256_def cs Let_def uint256_from_fr_eq le_value_bytes p_def [symmetric])
    have "p div 256 ^ 31 < 256" using p by (simp add: less_mult_imp_div_less)
    then have b: "unat (le_bytes 32 p ! 31) = p div 256 ^ 31" by (simp add: le_bytes_nth unat_of_nat)
    have "unat (drop_bit 7 b') = unat b' div 2 ^ 7" for b' :: byte unfolding unat_drop_bit_eq by (rule drop_bit_eq_div)
    then have "unat (drop_bit 7 (le_bytes 32 p ! 31)) = p div 256 ^ 31 div 2 ^ 7" using b by simp
    also have "\<dots> = p div 2 ^ 255" by (simp add: div_mult2_eq [symmetric])
    also have "\<dots> = fr_val f" using y by (simp add: p_def compressed_point_of_def)
    finally have top: "unat (drop_bit 7 (le_bytes 32 p ! 31)) = fr_val f" .
    have small: "unat (of_nat (fr_val z) :: 256 word) \<le> fr_modulus" for z
      using fr_val_less [of z] by (simp add: unat_of_fr less_imp_le)
    have ex: "expect_frbn (of_nat (fr_val z)) = Some z" for z
      using small [of z] by (simp add: expect_frbn_def frbn_try_from_eq unat_of_fr not_less)
    have "secrets_from_u256 [of_nat (fr_val a), of_nat (fr_val b), of_nat (fr_val c), of_nat p] = Some cs"
      using p by (simp add: secrets_from_u256_def ex word top le_value_bytes Let_def cs) (simp add: p_def compressed_point_of_def)
    then show "\<exists>us. secrets_to_u256 cs = Some us \<and> length us = 4 \<and> secrets_from_u256 us = Some cs"
      using to by simp
  }
  {
    assume "fr_val (cipher_text cs ! 4) > 1"
    then have "2 * 2 ^ 255 \<le> fr_val f * 2 ^ 255" by (intro mult_right_mono) (simp_all add: ct)
    then show "secrets_to_u256 cs = None" by (simp add: secrets_to_u256_def ct Let_def compressed_point_of_def)
  }
qed

theorem secrets_roundtrip_witness:
  "\<exists>us. secrets_to_u256 \<lparr>cipher_text = [1, 0, 1, 1, 1]\<rparr> = Some us \<and> length us = 4 \<and>
     secrets_from_u256 us = Some \<lparr>cipher_text = [1, 0, 1, 1, 1]\<rparr>"
  using secrets_roundtrip [of "\<lparr>cipher_text = [1, 0, 1, 1, 1]\<rparr>"] by simp

text \<open>The three ways to compute the Nightfall id of a token agree: from the texts, from field elements and from
  the contract's types.\<close>

theorem nf_token_id_agree:
  assumes "hex_pair enc dec" "fr_val t = unat tid" "fr_val x = unat a"
  shows "to_nf_token_id_from_str dec sha256 (enc (be_bytes 20 (unat a))) (u256_to_hex_string enc tid) =
      Inr (to_nf_token_id_from_solidity sha256 a tid) \<and>
    to_nf_token_id_from_fr254 sha256 x t = to_nf_token_id_from_solidity sha256 a tid"
proof -
  have a: "unat a < 256 ^ 20" using unsigned_less [of a] by simp
  have pad: "lpad32 (be_bytes 20 (unat a)) = be_bytes 32 (unat a)"
    using be_bytes_pad [OF a, of 12] by (simp add: lpad32_def)
  have pad': "lpad32 (be_bytes 32 n) = be_bytes 32 n" for n by (simp add: lpad32_def)
  have bytes: "bytes_from_hex_string dec (enc bs) = Inr bs" if "bs \<noteq> []" for bs
  proof -
    have "enc bs \<noteq> []" using hex_pairD(2) [OF assms(1), of bs] that by fastforce
    then show ?thesis by (simp add: bytes_from_hex_string_def strip_enc [OF assms(1)] hex_pairD [OF assms(1)] Let_def)
  qed
  have ne: "be_bytes 20 n \<noteq> []" "be_bytes 32 n \<noteq> []" for n
    using length_be_bytes [of 20 n] length_be_bytes [of 32 n] by force+
  show ?thesis
    by (simp add: to_nf_token_id_from_str_def u256_to_hex_string_def bytes [OF ne(1)] bytes [OF ne(2)]
        to_nf_token_id_from_solidity_def to_nf_token_id_from_fr254_def pad pad' assms(2,3))
qed

theorem nf_token_id_agree_witness:
  "to_nf_token_id_from_fr254 (\<lambda>bs. take 32 (rev bs)) (fr 7) (fr 9) = to_nf_token_id_from_solidity (\<lambda>bs. take 32 (rev bs)) 7 9"
  by (rule nf_token_id_agree [OF hex_pair_ex, THEN conjunct2]) (simp_all add: fr_modulus_def)

end
