(* ===== verification/Client_Operation.thy ===== *)
theory Client_Operation
  imports Client_Db Commitment_Selection Contract_Conversions
begin

text \<open>
  The services of the client: the database part of \<open>services/commitment_selection.rs\<close> (the selected commitments
  are marked as being spent), the inputs of the proof (\<open>ports/proof.rs\<close>) and
  \<open>services/client_operation.rs\<close>, which builds and proves a transaction. The prover, the verification of a
  membership proof and the calls of the contracts are parameters.
\<close>

section \<open>Selecting commitments from the database\<close>

type_synonym ('z, 'a) serviceM = "('z, string, 'a) clientM"

definition fetch_on_chain_commitments :: "fr254 \<Rightarrow> ('z, Preimage list) serviceM" where
  "fetch_on_chain_commitments token_id =
     bindM (get_available_commitments token_id) (\<lambda>r.
     bindM (okM (Fails ''No commmitments found in the db'') r) (\<lambda>cs. returnM (map ce_preimage cs)))"

definition verify_enough_commitments :: "fr254 \<Rightarrow> fr254 \<Rightarrow> ('z, Preimage list \<times> nat) serviceM" where
  "verify_enough_commitments target_token_id target_value =
     bindM (fetch_on_chain_commitments target_token_id) (\<lambda>cs.
     (let on_chain = sort_key pre_value cs in
      bindM (liftM (map_sum Fails id (calculate_minimum_commitments on_chain target_value))) (\<lambda>min_c.
      if min_c > MAX_POSSIBLE_COMMITMENTS
      then throwM (Fails ''Too many dust commitments found; only up to two commitments can be used to cover the value'')
      else returnM (on_chain, min_c))))"

definition find_usable_commitments :: "poseidon \<Rightarrow> fr254 \<Rightarrow> fr254 \<Rightarrow> ('z, Preimage list) serviceM" where
  "find_usable_commitments poseidon target_token_id target_value =
     bindM (verify_enough_commitments target_token_id target_value) (\<lambda>(sorted_commitments, min_num_c).
     (let max_num_c = (if length sorted_commitments < MAX_POSSIBLE_COMMITMENTS
                       then length sorted_commitments else MAX_POSSIBLE_COMMITMENTS) in
      bindM (liftM (map_sum Fails id (select_commitment sorted_commitments target_value min_num_c max_num_c))) (\<lambda>old_commitments.
      bindM (liftM (map_sum (map_failure (\<lambda>_. ''Preimage hashing failed during commitment selection'')) id
               (mapS (preimage_hash poseidon) old_commitments))) (\<lambda>pending_keys.
      bindM (mark_commitments_pending_spend pending_keys) (\<lambda>_.
      returnM [old_commitments ! 0, old_commitments ! 1])))))"

section \<open>The inputs of a proof\<close>

record PublicInputs =
  pi_fee :: fr254
  pi_roots :: "fr254 list"
  pi_commitments :: "fr254 list"
  pi_nullifiers :: "fr254 list"
  pi_compressed_secrets :: "fr254 list"

definition public_inputs_default :: PublicInputs where
  "public_inputs_default = \<lparr>pi_fee = 0, pi_roots = replicate 4 0, pi_commitments = replicate 4 0,
     pi_nullifiers = replicate 4 0, pi_compressed_secrets = replicate 5 0\<rparr>"

definition public_inputs_vec :: "PublicInputs \<Rightarrow> fr254 list" where
  "public_inputs_vec p =
     [pi_fee p] @ pi_roots p @ pi_commitments p @ pi_nullifiers p @ pi_compressed_secrets p"

definition public_inputs_from_tx :: "'p ClientTransaction \<Rightarrow> PublicInputs" where
  "public_inputs_from_tx tx =
     \<lparr>pi_fee = ct_fee tx, pi_roots = ct_historic_commitment_roots tx, pi_commitments = ct_commitments tx,
      pi_nullifiers = ct_nullifiers tx, pi_compressed_secrets = cipher_text (ct_compressed_secrets tx)\<rparr>"

record 'b PrivateInputs =
  pri_fee_token_id :: fr254
  pri_nf_address :: "160 word"
  pri_value :: fr254
  pri_nf_token_id :: fr254
  pri_nf_slot_id :: fr254
  pri_nullifiers_values :: "fr254 list"
  pri_nullifiers_salts :: "fr254 list"
  pri_membership_proofs :: "fr254 MembershipProof list"
  pri_commitments_values :: "fr254 list"
  pri_commitments_salts :: "fr254 list"
  pri_public_keys :: "TEAffine list"
  pri_recipient_public_key :: TEAffine
  pri_nullifier_key :: fr254
  pri_zkp_private_key :: 'b
  pri_ephemeral_key :: fr254
  pri_withdraw_address :: fr254
  pri_secret_preimages :: "fr254 list list"

text \<open>The generator of the curve is a parameter.\<close>

definition private_inputs_default :: "TEAffine \<Rightarrow> ('b::zero) PrivateInputs" where
  "private_inputs_default generator =
     (let mproof = \<lparr>node_value = 0,
            sibling_path = replicate 32 \<lparr>direction = HashWithThisNodeOnLeft, path_value = 0\<rparr>, leaf_index = 0\<rparr>
      in \<lparr>pri_fee_token_id = 0, pri_nf_address = 0, pri_value = 0, pri_nf_token_id = 0, pri_nf_slot_id = 0,
          pri_nullifiers_values = replicate 4 0, pri_nullifiers_salts = replicate 4 0,
          pri_membership_proofs = replicate 4 mproof, pri_commitments_values = replicate 2 0,
          pri_commitments_salts = replicate 3 0, pri_public_keys = replicate 4 te_zero,
          pri_recipient_public_key = generator, pri_nullifier_key = 0, pri_zkp_private_key = 0,
          pri_ephemeral_key = 0, pri_withdraw_address = 0, pri_secret_preimages = replicate 4 (replicate 3 0)\<rparr>)"

text \<open>\<open>from_le_bytes_mod_order\<close> of the bytes of a baby Jubjub scalar.\<close>

definition set_ephemeral_key :: "('b \<Rightarrow> nat) \<Rightarrow> 'b \<Rightarrow> 'b PrivateInputs \<Rightarrow> 'b PrivateInputs" where
  "set_ephemeral_key bjj_into key p = p\<lparr>pri_ephemeral_key := fr (le_value (le_bytes 32 (bjj_into key)))\<rparr>"

section \<open>The client operation\<close>

text \<open>What the operation uses of its surroundings.\<close>

record 'b client_env =
  env_poseidon :: poseidon
  env_verify :: "fr254 MembershipProof \<Rightarrow> fr254 \<Rightarrow> bool"
  env_default_proof :: "fr254 MembershipProof"
  env_generator :: TEAffine
  env_nf_address :: "160 word"
  env_bjj_into :: "'b \<Rightarrow> nat"

definition as_text :: "string \<Rightarrow> merkle_error \<Rightarrow> string failure" where
  "as_text t e = (if e = MerklePanic then Panics else Fails t)"

definition membership_one :: "('b, 'y) client_env_scheme \<Rightarrow> Preimage \<Rightarrow> ('z, fr254 MembershipProof \<times> fr254) serviceM" where
  "membership_one env c =
     (if pre_nf_token_id c = 0 then returnM (env_default_proof env, 0)
      else
        bindM (liftM (map_sum (map_failure (\<lambda>_. ''Could not hash preimage'')) id (preimage_hash (env_poseidon env) c)))
          (\<lambda>commitment_hash.
        bindM (get_commitment commitment_hash) (\<lambda>stored.
        if stored = None then throwM (Fails ''Could not find commitment in commitment database'')
        else bindM (map_errM (as_text ''Could not get membership proof'') (get_membership_proof (Some commitment_hash) None))
          (\<lambda>membership_proof.
        bindM (map_errM (as_text ''Could not get root'') get_root) (\<lambda>rt.
        if \<not> env_verify env membership_proof rt then throwM (Fails ''Membership proof failed'')
        else returnM (membership_proof, rt))))))"

definition membership_loop :: "('b, 'y) client_env_scheme \<Rightarrow> Preimage list \<Rightarrow> ('z, (fr254 MembershipProof \<times> fr254) list) serviceM" where
  "membership_loop env spend_commitments = forM spend_commitments (membership_one env)"

definition value_conserved :: "Preimage list \<Rightarrow> Preimage list \<Rightarrow> bool" where
  "value_conserved spend_commitments new_commitments \<longleftrightarrow>
     sum_list (map pre_value (take 2 new_commitments)) = sum_list (map pre_value (take 2 spend_commitments)) \<and>
     sum_list (map pre_value (drop 2 new_commitments)) = sum_list (map pre_value (drop 2 spend_commitments))"

text \<open>\<open>prove\<close> may change both inputs; the private ones are not used afterwards.\<close>

definition client_operation ::
    "('b::zero, 'y) client_env_scheme \<Rightarrow> ('b PrivateInputs \<Rightarrow> PublicInputs \<Rightarrow> ('p \<times> PublicInputs) option) \<Rightarrow>
     Preimage list \<Rightarrow> Preimage list \<Rightarrow> fr254 \<Rightarrow> 'b \<Rightarrow> 'b \<Rightarrow> fr254 \<Rightarrow> DepositSecret list \<Rightarrow> ('z, 'p ClientTransaction) serviceM" where
  "client_operation env prove spend_commitments new_commitments nullifier_key zkp_private_key ephemeral_key
       withdraw_address secret_preimages =
     (if \<not> value_conserved spend_commitments new_commitments
      then throwM (Fails ''Value or fee not conserved in this transaction: rejecting'')
      else
        (let recipient_public_key = (if withdraw_address = 0 then pre_public_key (new_commitments ! 0) else te_zero) in
         bindM (membership_loop env spend_commitments) (\<lambda>proofs.
         bindM (liftM (map_sum (map_failure (\<lambda>_. '''')) id
             (mapS (\<lambda>c. get_salt (env_poseidon env) (pre_salt c)) spend_commitments))) (\<lambda>nullifiers_salts.
         bindM (liftM (map_sum (map_failure (\<lambda>_. '''')) id
             (mapS (\<lambda>c. get_salt (env_poseidon env) (pre_salt c)) (tl new_commitments)))) (\<lambda>commitments_salts.
         (let public_inputs = public_inputs_default\<lparr>pi_fee := pre_value (new_commitments ! 2), pi_roots := map snd proofs\<rparr>;
              private_inputs = set_ephemeral_key (env_bjj_into env) ephemeral_key
                ((private_inputs_default (env_generator env))
                  \<lparr>pri_nf_address := env_nf_address env,
                   pri_value := pre_value (new_commitments ! 0),
                   pri_nf_token_id := pre_nf_token_id (spend_commitments ! 0),
                   pri_nf_slot_id := pre_nf_slot_id (new_commitments ! 0),
                   pri_nullifier_key := nullifier_key,
                   pri_nullifiers_values := map pre_value spend_commitments,
                   pri_nullifiers_salts := nullifiers_salts,
                   pri_commitments_values := [pre_value (new_commitments ! 1), pre_value (new_commitments ! 3)],
                   pri_commitments_salts := commitments_salts,
                   pri_public_keys := map pre_public_key spend_commitments,
                   pri_recipient_public_key := recipient_public_key,
                   pri_zkp_private_key := zkp_private_key,
                   pri_membership_proofs := map fst proofs,
                   pri_withdraw_address := withdraw_address,
                   pri_secret_preimages := map deposit_secret_to_array secret_preimages\<rparr>)
          in case prove private_inputs public_inputs of
               Some (proof, public_inputs) \<Rightarrow>
                 returnM \<lparr>ct_fee = pi_fee public_inputs, ct_historic_commitment_roots = pi_roots public_inputs,
                   ct_commitments = pi_commitments public_inputs, ct_nullifiers = pi_nullifiers public_inputs,
                   ct_compressed_secrets = \<lparr>cipher_text = pi_compressed_secrets public_inputs\<rparr>, ct_proof = proof\<rparr>
             | None \<Rightarrow> throwM (Fails ''Transaction could not be completed due to a proving error.'')))))))"

section \<open>The deposit operation\<close>

datatype ('t, 'n) deposit_error = TokenError 't | NightfallError 'n

text \<open>\<open>T::set_approval\<close> and \<open>N::escrow_funds\<close> are the parameters; the second returns the token and slot ids.\<close>

definition deposit_operation ::
    "(fr254 \<Rightarrow> fr254 \<Rightarrow> 256 word \<Rightarrow> 't + unit) \<Rightarrow>
     (fr254 \<Rightarrow> fr254 \<Rightarrow> 256 word \<Rightarrow> fr254 \<Rightarrow> fr254 \<Rightarrow> DepositSecret \<Rightarrow> TokenType \<Rightarrow> 'n + fr254 \<times> fr254) \<Rightarrow> fr254 \<Rightarrow>
     fr254 \<Rightarrow> fr254 \<Rightarrow> fr254 \<Rightarrow> fr254 \<Rightarrow> 256 word \<Rightarrow> DepositSecret \<Rightarrow> TokenType \<Rightarrow>
     ('t, 'n) deposit_error + Preimage \<times> Preimage option" where
  "deposit_operation set_approval escrow_funds fee_token_id erc_address value fee deposit_fee token_id secret_preimage token_type =
     bindS (map_sum TokenError id (set_approval erc_address value token_id)) (\<lambda>_.
     bindS (map_sum NightfallError id (escrow_funds erc_address value token_id fee deposit_fee secret_preimage token_type))
       (\<lambda>(nf_token_id, nf_slot_id).
     if deposit_fee = 0 then
       Inr (preimage_new value nf_token_id nf_slot_id te_zero (SaltDeposit secret_preimage), None)
     else
       Inr (preimage_new value nf_token_id nf_slot_id te_zero (SaltDeposit secret_preimage),
            Some (preimage_new deposit_fee fee_token_id fee_token_id te_zero (SaltDeposit secret_preimage)))))"

section \<open>Facts\<close>

lemma find_usable_run:
  fixes w :: "'z client_db_scheme" and tok :: fr254 and A :: "CommitmentEntry list"
  assumes "poseidon_ok P" "get_available_commitments tok w = ((Inr (if A = [] then None else Some A) :: string failure + CommitmentEntry list option), wA)"
    "\<And>ks. mark_commitments_pending_spend ks wA = ((Inr (r ks) :: string failure + unit option), wB ks)"
  defines "cs \<equiv> sort_key pre_value (map ce_preimage A)"
  shows "find_usable_commitments P tok t w =
    (if A = [] then (Inl (Fails ''No commmitments found in the db''), wA)
     else case calculate_minimum_commitments cs t of
       Inl e \<Rightarrow> (Inl (Fails e), wA)
     | Inr mn \<Rightarrow>
         if mn > 2 then (Inl (Fails ''Too many dust commitments found; only up to two commitments can be used to cover the value''), wA)
         else case select_commitment cs t mn (if length cs < 2 then length cs else 2) of
           Inl e \<Rightarrow> (Inl (Fails e), wA)
         | Inr res \<Rightarrow> (Inr res, wB (map (commitment_key P) res)))"
proof -
  have keys: "mapS (preimage_hash P) ps = Inr (map (commitment_key P) ps)" for ps
    by (rule mapS_Inr) (rule commitment_key [OF assms(1)])
  have two: "[res ! 0, res ! Suc 0] = res" if "select_commitment cs t a b = Inr res" for res a b
    using select_commitment_subset(2) [OF that] by (cases res; cases "tl res") auto
  have fetch: "fetch_on_chain_commitments tok w =
      (if A = [] then (Inl (Fails ''No commmitments found in the db''), wA) else (Inr (map ce_preimage A), wA))"
    by (simp add: fetch_on_chain_commitments_def bindM_def assms(2) throwM_def returnM_def)
  show ?thesis
  proof (cases "A = []")
    case True
    then show ?thesis
      by (simp add: find_usable_commitments_def verify_enough_commitments_def bindM_assoc
          bindM_Inl [of "fetch_on_chain_commitments tok" w, OF fetch [unfolded if_P [OF True]]])
  next
    case False
    show ?thesis
      unfolding find_usable_commitments_def verify_enough_commitments_def bindM_assoc if_not_P [OF False]
        bindM_Inr [of "fetch_on_chain_commitments tok" w, OF fetch [unfolded if_not_P [OF False]]] Let_def cs_def [symmetric]
      by (auto simp: MAX_POSSIBLE_COMMITMENTS_def keys assms(3) throwM_def returnM_def intro: two
          simp: bindM_def [of "mark_commitments_pending_spend _"] split: sum.split)
  qed
qed

text \<open>The state after the keys of \<open>ps\<close> have been marked.\<close>

definition marked :: "poseidon \<Rightarrow> Preimage list \<Rightarrow> 'z client_db_scheme \<Rightarrow> 'z client_db_scheme" where
  "marked P ps w = w\<lparr>commitments :=
     map (\<lambda>e. if ce_key e \<in> commitment_key P ` set ps then e\<lparr>ce_status := PendingSpend\<rparr> else e) (commitments w)\<rparr>"

lemma find_usable_eq:
  fixes w :: "'z client_db_scheme" and tok :: fr254
  assumes "faults w = []" "poseidon_ok P"
  defines "cs \<equiv> sort_key pre_value (map ce_preimage (available tok w))"
  shows "find_usable_commitments P tok t w =
    (if available tok w = [] then (Inl (Fails ''No commmitments found in the db''), w)
     else case calculate_minimum_commitments cs t of
       Inl e \<Rightarrow> (Inl (Fails e), w)
     | Inr mn \<Rightarrow>
         if mn > 2 then (Inl (Fails ''Too many dust commitments found; only up to two commitments can be used to cover the value''), w)
         else case select_commitment cs t mn (if length cs < 2 then length cs else 2) of
           Inl e \<Rightarrow> (Inl (Fails e), w)
         | Inr res \<Rightarrow> (Inr res, marked P res w))"
proof -
  have mark: "mark_commitments_pending_spend ks w = ((Inr (Some ()) :: string failure + unit option),
      w\<lparr>commitments := map (\<lambda>e. if ce_key e \<in> set ks then e\<lparr>ce_status := PendingSpend\<rparr> else e) (commitments w)\<rparr>)" for ks
    by (simp add: mark_commitments_pending_spend_def mark_many_ok [OF assms(1)] update_many_def)
  show ?thesis
    unfolding find_usable_run [OF assms(2) get_available_ok [OF assms(1)] mark] cs_def [symmetric]
    by (auto simp: marked_def split: sum.split)
qed

lemma available_after_marking:
  "available tok (marked P ps w) = filter (\<lambda>e. ce_key e \<notin> commitment_key P ` set ps) (available tok w)"
proof -
  have "filter (\<lambda>e. pre_nf_token_id (ce_preimage e) = tok \<and> ce_status e = Unspent)
      (map (\<lambda>e. if ce_key e \<in> K then e\<lparr>ce_status := PendingSpend\<rparr> else e) es) =
    filter (\<lambda>e. ce_key e \<notin> K) (filter (\<lambda>e. pre_nf_token_id (ce_preimage e) = tok \<and> ce_status e = Unspent) es)" for K es
    by (induction es) auto
  then show ?thesis by (simp add: available_def marked_def)
qed

lemma find_usable_Inr:
  assumes "faults w = []" "poseidon_ok P" "find_usable_commitments P tok t w = (Inr ps, w')"
  shows "w' = marked P ps w" "set ps \<subseteq> insert preimage_default (ce_preimage ` set (available tok w))" "length ps = 2"
proof -
  let ?cs = "sort_key pre_value (map ce_preimage (available tok w))"
  obtain mn where s: "select_commitment ?cs t mn (if length ?cs < 2 then length ?cs else 2) = Inr ps" and "w' = marked P ps w"
    using assms(3) unfolding find_usable_eq [OF assms(1,2)] by (auto split: if_splits sum.splits)
  then show "w' = marked P ps w" by simp
  show "set ps \<subseteq> insert preimage_default (ce_preimage ` set (available tok w))" "length ps = 2"
    using select_commitment_subset [OF s] by auto
qed

lemma no_overflow_sort: "no_overflow (sort_key f vs) = no_overflow vs"
proof -
  have "sum_list (map g (sort_key f vs)) = sum_list (map g vs)" for g :: "Preimage \<Rightarrow> nat"
  proof (induction vs)
    case (Cons v vs)
    have "sum_list (map g (insort_key f v us)) = g v + sum_list (map g us)" for us by (induction us) simp_all
    then show ?case using Cons by simp
  qed simp
  then show ?thesis by (simp add: no_overflow_def)
qed

lemma get_membership_proof_reads:
  assumes "faults w = []"
  shows "snd (get_membership_proof v i w) = w"
  by (simp add: get_membership_proof_def read_metadata_def bindM_def okM_def throwM_def returnM_def Let_def db_read_ok assms
      read_siblings_ok get_node_ok split: option.split sum.split prod.split)

text \<open>What the loop over the spent commitments establishes for one of them: zero commitments are skipped, the others
  are in the database and have a proof that hashes to the root.\<close>

definition proved ::
    "('b, 'y) client_env_scheme \<Rightarrow> (fr254 \<Rightarrow> fr254 \<Rightarrow> fr254) \<Rightarrow> (nat \<Rightarrow> fr254) \<Rightarrow> nat \<Rightarrow> fr254 set \<Rightarrow>
     Preimage \<Rightarrow> fr254 MembershipProof \<times> fr254 \<Rightarrow> bool" where
  "proved env th f H ks c x \<longleftrightarrow>
     (if pre_nf_token_id c = 0 then x = (env_default_proof env, 0)
      else let k = commitment_key (env_poseidon env) c; p = fst x
           in k \<in> ks \<and> snd x = mnode th f H 0 \<and> node_value p = k \<and> leaf_index p < 2 ^ H \<and> f (leaf_index p) = k \<and>
              path_root th k (sibling_path p) = mnode th f H 0)"

lemma get_commitment_ok:
  assumes "faults w = []"
  obtains s where "get_commitment k w = (Inr s, w)" "s = None \<longleftrightarrow> k \<notin> ce_key ` set (commitments w)"
proof
  show "get_commitment k w = (Inr (map_option snd (find (\<lambda>(key, _). key = k) (map (\<lambda>v. (ce_key v, v)) (commitments w)))), w)"
    by (simp add: get_commitment_def get_all_commitments_def bindM_def expect_read_ok [OF assms] returnM_def)
  have "find (\<lambda>(key, _). key = k) (map (\<lambda>v. (ce_key v, v)) es) = None \<longleftrightarrow> k \<notin> ce_key ` set es" for es
    by (induction es) auto
  then show "map_option snd (find (\<lambda>(key, _). key = k) (map (\<lambda>v. (ce_key v, v)) (commitments w))) = None \<longleftrightarrow>
      k \<notin> ce_key ` set (commitments w)" by simp
qed

lemma get_root_ok: "faults w = [] \<Longrightarrow> tree_inv th h s n f w \<Longrightarrow> get_root w = (Inr (mnode th f (h + s) 0), w)"
  by (simp add: get_root_def bindM_def read_metadata_ok tree_inv_def returnM_def)

lemma membership_one_eq:
  fixes c :: Preimage
  assumes "faults w = []" "tree_inv th h s n f w" "poseidon_ok (env_poseidon env)"
  defines "k \<equiv> commitment_key (env_poseidon env) c"
  shows "membership_one env c w =
    (if pre_nf_token_id c = 0 then (Inr (env_default_proof env, 0), w)
     else if k \<notin> ce_key ` set (commitments w) then (Inl (Fails ''Could not find commitment in commitment database''), w)
     else case fst (get_membership_proof (Some k) None w) of
       Inl e \<Rightarrow> (Inl (as_text ''Could not get membership proof'' e), w)
     | Inr p \<Rightarrow>
         if env_verify env p (mnode th f (h + s) 0) then (Inr (p, mnode th f (h + s) 0), w)
         else (Inl (Fails ''Membership proof failed''), w))"
proof -
  obtain st where st: "get_commitment k w = ((Inr st :: string failure + CommitmentEntry option), w)"
    "st = None \<longleftrightarrow> k \<notin> ce_key ` set (commitments w)" by (rule get_commitment_ok [OF assms(1)])
  obtain r where r: "get_membership_proof (Some k) None w = (r, w)"
    using get_membership_proof_reads [OF assms(1)] by (metis prod.collapse)
  show ?thesis
    unfolding membership_one_def commitment_key [OF assms(3)] k_def [symmetric]
    by (simp add: bindM_def st r map_errM_def get_root_ok [OF assms(1,2)] throwM_def returnM_def split: sum.split)
qed

lemma membership_one_ok:
  assumes "store_inv True w" "tree_inv th h s n f w" "poseidon_ok (env_poseidon env)" "membership_one env c w = (Inr x, w')"
  shows "w' = w \<and> proved env th f (h + s) (ce_key ` set (commitments w)) c x"
proof -
  have fl: "faults w = []" using assms(1) by (simp add: store_inv_def)
  let ?k = "commitment_key (env_poseidon env) c"
  show ?thesis
  proof (cases "pre_nf_token_id c = 0")
    case True
    then show ?thesis using assms(4) unfolding membership_one_eq [OF fl assms(2,3)] by (simp add: proved_def)
  next
    case False
    obtain p where p: "fst (get_membership_proof (Some ?k) None w) = Inr p" and k: "?k \<in> ce_key ` set (commitments w)"
      and x: "x = (p, mnode th f (h + s) 0)" "w' = w"
      using assms(4) False unfolding membership_one_eq [OF fl assms(2,3)] by (auto split: if_splits sum.splits)
    have "get_membership_proof (Some ?k) None w = (Inr p, w)"
      using p get_membership_proof_reads [OF fl] by (metis prod.collapse)
    note m = membership_by_value [OF assms(1,2) this]
    have "nodes_ok th (h + s) f (look w)" using assms(2) by (simp add: tree_inv_def)
    from siblings_root [OF this m(2)] show ?thesis
      using m k x False by (simp add: proved_def Let_def)
  qed
qed

lemma membership_loop_ok:
  assumes "store_inv True w" "tree_inv th h s n f w" "poseidon_ok (env_poseidon env)"
    "membership_loop env cs w = (Inr xs, w')"
  shows "w' = w \<and> list_all2 (proved env th f (h + s) (ce_key ` set (commitments w))) cs xs"
  using assms(4) unfolding membership_loop_def
proof (induction cs arbitrary: xs)
  case Nil
  then show ?case by (simp add: returnM_def)
next
  case (Cons c cs)
  obtain x ys w1 where x: "membership_one env c w = (Inr x, w1)" "forM cs (membership_one env) w1 = (Inr ys, w')" "xs = x # ys"
    using Cons.prems by (auto simp: bindM_eq_Inr returnM_def)
  then show ?case using membership_one_ok [OF assms(1-3) x(1)] Cons.IH by simp
qed

lemma salts_ok: "poseidon_ok P \<Longrightarrow> \<exists>ss. mapS (\<lambda>c. get_salt P (pre_salt c)) cs = Inr ss"
proof (induction cs)
  case (Cons c cs)
  then show ?case using get_salt_ok [of P "pre_salt c"] by auto
qed simp

text \<open>The transaction that \<open>client_operation\<close> makes of what the prover returns.\<close>

definition tx_of :: "'p \<Rightarrow> PublicInputs \<Rightarrow> 'p ClientTransaction" where
  "tx_of proof out = \<lparr>ct_fee = pi_fee out, ct_historic_commitment_roots = pi_roots out, ct_commitments = pi_commitments out,
     ct_nullifiers = pi_nullifiers out, ct_compressed_secrets = \<lparr>cipher_text = pi_compressed_secrets out\<rparr>, ct_proof = proof\<rparr>"

lemma client_operation_run:
  assumes "poseidon_ok (env_poseidon env)" "value_conserved sp nw" "membership_loop env sp w = (Inr xs, w')"
  obtains pri pub where "pi_fee pub = pre_value (nw ! 2)" "pi_roots pub = map snd xs"
    "pri_membership_proofs pri = map fst xs" "pri_nullifiers_values pri = map pre_value sp" "pri_value pri = pre_value (nw ! 0)"
    "pri_commitments_values pri = [pre_value (nw ! 1), pre_value (nw ! 3)]"
    "client_operation env prove sp nw nk zk ek addr secs w =
      (case prove pri pub of Some (proof, out) \<Rightarrow> (Inr (tx_of proof out), w')
       | None \<Rightarrow> (Inl (Fails ''Transaction could not be completed due to a proving error.''), w'))"
proof -
  obtain s1 s2 where s: "mapS (\<lambda>c. get_salt (env_poseidon env) (pre_salt c)) sp = Inr s1"
    "mapS (\<lambda>c. get_salt (env_poseidon env) (pre_salt c)) (tl nw) = Inr s2"
    using salts_ok [OF assms(1)] by blast
  let ?pub = "public_inputs_default\<lparr>pi_fee := pre_value (nw ! 2), pi_roots := map snd xs\<rparr>"
  let ?pri = "set_ephemeral_key (env_bjj_into env) ek
                ((private_inputs_default (env_generator env))
                  \<lparr>pri_nf_address := env_nf_address env,
                   pri_value := pre_value (nw ! 0),
                   pri_nf_token_id := pre_nf_token_id (sp ! 0),
                   pri_nf_slot_id := pre_nf_slot_id (nw ! 0),
                   pri_nullifier_key := nk,
                   pri_nullifiers_values := map pre_value sp,
                   pri_nullifiers_salts := s1,
                   pri_commitments_values := [pre_value (nw ! 1), pre_value (nw ! 3)],
                   pri_commitments_salts := s2,
                   pri_public_keys := map pre_public_key sp,
                   pri_recipient_public_key := (if addr = 0 then pre_public_key (nw ! 0) else te_zero),
                   pri_zkp_private_key := zk,
                   pri_membership_proofs := map fst xs,
                   pri_withdraw_address := addr,
                   pri_secret_preimages := map deposit_secret_to_array secs\<rparr>)"
  show thesis
    by (rule that [of ?pub ?pri])
      (use assms(2) in \<open>simp_all add: set_ephemeral_key_def client_operation_def s bindM_Inr [of "membership_loop env sp" w, OF assms(3)]
        tx_of_def returnM_def throwM_def Let_def split: option.split\<close>)
qed

lemma membership_loop_succeeds:
  assumes "store_inv True w" "tree_inv th h s n f w" "poseidon_ok (env_poseidon env)"
    "\<And>p r. path_root th (node_value p) (sibling_path p) = r \<Longrightarrow> env_verify env p r"
    "\<And>c. c \<in> set sp \<Longrightarrow> pre_nf_token_id c \<noteq> 0 \<Longrightarrow> commitment_key (env_poseidon env) c \<in> ce_key ` set (commitments w) \<and>
       (\<exists>p. fst (get_membership_proof (Some (commitment_key (env_poseidon env) c)) None w) = Inr p)"
  shows "\<exists>xs. membership_loop env sp w = (Inr xs, w)"
proof -
  have fl: "faults w = []" using assms(1) by (simp add: store_inv_def)
  have one: "\<exists>x. membership_one env c w = (Inr x, w)" if c: "c \<in> set sp" for c
  proof (cases "pre_nf_token_id c = 0")
    case True
    then show ?thesis unfolding membership_one_eq [OF fl assms(2,3)] by simp
  next
    case False
    let ?k = "commitment_key (env_poseidon env) c"
    obtain p where p: "fst (get_membership_proof (Some ?k) None w) = Inr p" using assms(5) [OF c False] by blast
    have "get_membership_proof (Some ?k) None w = (Inr p, w)"
      using p get_membership_proof_reads [OF fl] by (metis prod.collapse)
    note m = membership_by_value [OF assms(1,2) this]
    have "nodes_ok th (h + s) f (look w)" using assms(2) by (simp add: tree_inv_def)
    from siblings_root [OF this m(2)] have "env_verify env p (mnode th f (h + s) 0)" using m by (intro assms(4)) simp
    then show ?thesis
      using assms(5) [OF c False] p False unfolding membership_one_eq [OF fl assms(2,3)] by simp
  qed
  then show ?thesis
    unfolding membership_loop_def
  proof (induction sp)
    case (Cons c cs)
    obtain x where x: "membership_one env c w = (Inr x, w)" using Cons.prems [of c] by auto
    obtain xs where "forM cs (membership_one env) w = (Inr xs, w)" using Cons.IH Cons.prems by auto
    then show ?case using x by (simp add: bindM_def returnM_def)
  qed (simp add: returnM_def)
qed

lemma client_operation_succeeds:
  assumes "store_inv True w" "tree_inv th h s n f w" "poseidon_ok (env_poseidon env)" "value_conserved sp nw"
    "\<And>p r. path_root th (node_value p) (sibling_path p) = r \<Longrightarrow> env_verify env p r"
    "\<And>c. c \<in> set sp \<Longrightarrow> pre_nf_token_id c \<noteq> 0 \<Longrightarrow> commitment_key (env_poseidon env) c \<in> ce_key ` set (commitments w) \<and>
       (\<exists>p. fst (get_membership_proof (Some (commitment_key (env_poseidon env) c)) None w) = Inr p)"
    "\<And>pri pub. prove pri pub \<noteq> None"
  shows "\<exists>tx. client_operation env prove sp nw nk zk ek addr secs w = (Inr tx, w)"
proof -
  obtain xs where loop: "membership_loop env sp w = (Inr xs, w)"
    using membership_loop_succeeds [OF assms(1-3,5,6)] by blast
  obtain pri pub where
    "client_operation env prove sp nw nk zk ek addr secs w =
      (case prove pri pub of Some (proof, out) \<Rightarrow> (Inr (tx_of proof out), w)
       | None \<Rightarrow> (Inl (Fails ''Transaction could not be completed due to a proving error.''), w))"
    by (rule client_operation_run [OF assms(3,4) loop, where prove = prove and nk = nk and zk = zk and ek = ek and addr = addr and secs = secs])
  then show ?thesis using assms(7) [of pri pub] by (cases "prove pri pub") auto
qed

section \<open>Properties\<close>

text \<open>When one or two of the commitments of a token that can be spent cover a positive value, and their total is below
  half of the field: the selection returns a best choice of them, padded to two, marks exactly the entries with
  their keys as being spent, and afterwards the spendable commitments of the token are those not returned.\<close>

theorem selection_marks_pending:
  assumes "faults w = []" "poseidon_ok P" "0 < t" "no_overflow (map ce_preimage (available tok w))"
    "\<exists>S. choice (sort_key pre_value (map ce_preimage (available tok w))) S \<and> fr_val t \<le> cover S"
  shows "\<exists>S. best_choice (fr_val t) (sort_key pre_value (map ce_preimage (available tok w))) S \<and>
    (let ps = S @ replicate (2 - length S) preimage_default; r = find_usable_commitments P tok t w
     in fst r = Inr ps \<and>
        commitments (snd r) = map (\<lambda>e. if ce_key e \<in> commitment_key P ` set ps then e\<lparr>ce_status := PendingSpend\<rparr> else e) (commitments w) \<and>
        available tok (snd r) = filter (\<lambda>e. ce_key e \<notin> commitment_key P ` set ps) (available tok w))"
proof -
  let ?cs = "sort_key pre_value (map ce_preimage (available tok w))"
  have cs: "sorted (map pre_value ?cs)" "no_overflow ?cs" using assms(4) by (simp_all add: no_overflow_sort)
  obtain mn where mn: "calculate_minimum_commitments ?cs t = Inr mn"
    using calculate_minimum_enough [OF cs, of t] assms(5) by blast
  have "mn \<le> 2" using mn unfolding calculate_minimum_eq [OF cs] by (auto split: if_splits)
  obtain S where S: "best_choice (fr_val t) ?cs S"
    "select_commitment ?cs t mn (if length ?cs < 2 then length ?cs else 2) = Inr (S @ replicate (2 - length S) preimage_default)"
    by (rule select_best [OF cs assms(3) mn])
  have ne: "available tok w \<noteq> []" using S(1) by (auto simp: best_choice_def choice_def)
  have "find_usable_commitments P tok t w =
      (Inr (S @ replicate (2 - length S) preimage_default), marked P (S @ replicate (2 - length S) preimage_default) w)"
    unfolding find_usable_eq [OF assms(1,2)] if_not_P [OF ne] mn sum.case S(2) using \<open>mn \<le> 2\<close> by simp
  then show ?thesis
    using S(1) by (intro exI [of _ S]) (simp add: Let_def available_after_marking, simp add: marked_def)
qed

text \<open>C16. No commitment is selected twice: two selections one after the other, for any tokens and values, have no
  commitment in common except the default pre-image used as padding.\<close>

theorem no_double_selection:
  assumes "faults w = []" "poseidon_ok P" "\<forall>e\<in>set (commitments w). ce_key e = commitment_key P (ce_preimage e)"
    "find_usable_commitments P tok t w = (Inr ps, w1)" "find_usable_commitments P tok' t' w1 = (Inr ps', w2)"
  shows "set ps \<inter> set ps' \<subseteq> {preimage_default}"
proof -
  note first = find_usable_Inr [OF assms(1,2,4)]
  have "faults w1 = []" using assms(1) by (simp add: first(1) marked_def)
  note second = find_usable_Inr [OF this assms(2,5)]
  have "ce_preimage e \<notin> set ps" if "e \<in> set (available tok' w1)" for e
  proof -
    have "e \<in> set (commitments w)" "ce_key e \<notin> commitment_key P ` set ps"
      using that unfolding first(1) available_after_marking by (auto simp: available_def)
    then show ?thesis using assms(3) by auto
  qed
  then show ?thesis using second(2) by auto
qed

text \<open>When the database fails on the write that marks the selected commitments, the selection still succeeds with the
  same commitments, and they stay spendable: the next selection may return them again.\<close>

theorem lost_mark_is_dropped:
  assumes "faults w = [False, True]" "poseidon_ok P"
    "find_usable_commitments P tok t (w\<lparr>faults := []\<rparr>) = (Inr ps, w1)"
  shows "find_usable_commitments P tok t w = (Inr ps, w\<lparr>faults := []\<rparr>)"
proof -
  have "get_available_commitments tok w =
      ((Inr (if available tok w = [] then None else Some (available tok w)) :: string failure + CommitmentEntry list option), w\<lparr>faults := [True]\<rparr>)"
    using assms(1) by (simp add: get_available_commitments_def bindM_def expectM_def map_errM_def db_read_def db_call_def
        returnM_def available_def)
  moreover have "mark_commitments_pending_spend ks (w\<lparr>faults := [True]\<rparr>) = ((Inr None :: string failure + unit option), w\<lparr>faults := []\<rparr>)" for ks
    by (simp add: mark_commitments_pending_spend_def mark_many_def bindO_def bindM_def tryM_def db_write_fault returnM_def)
  moreover have "available tok (w\<lparr>faults := []\<rparr>) = available tok w" by (simp add: available_def)
  ultimately show ?thesis
    using assms(3) unfolding find_usable_run [OF assms(2), of tok w "available tok w"]
    by (subst find_usable_run [OF assms(2), where A = "available tok w" and wA = "w\<lparr>faults := [True]\<rparr>"
          and r = "\<lambda>_. None" and wB = "\<lambda>_. w\<lparr>faults := []\<rparr>"])
      (auto simp: find_usable_eq [OF _ assms(2)] split: if_splits sum.splits)
qed

text \<open>C12. A transaction is only built when value and fee are conserved and every spent commitment with a token is stored
  in the database and has a path in the commitment tree that hashes to its root; the roots and the proofs given to
  the prover are these, the transaction is what the prover returned, and the database is not changed.\<close>

theorem client_operation_sound:
  assumes "store_inv True w" "tree_inv th h s n f w" "poseidon_ok (env_poseidon env)"
    "client_operation env prove sp nw nk zk ek addr secs w = (Inr tx, w')"
  shows "w' = w \<and> value_conserved sp nw \<and>
    (\<exists>xs pri pub proof out. list_all2 (proved env th f (h + s) (ce_key ` set (commitments w))) sp xs \<and>
       pi_roots pub = map (\<lambda>c. if pre_nf_token_id c = 0 then 0 else mnode th f (h + s) 0) sp \<and> pi_fee pub = pre_value (nw ! 2) \<and>
       pri_membership_proofs pri = map fst xs \<and> pri_nullifiers_values pri = map pre_value sp \<and>
       prove pri pub = Some (proof, out) \<and> tx = tx_of proof out)"
proof -
  have cons: "value_conserved sp nw"
    using assms(4) by (cases "value_conserved sp nw") (simp_all add: client_operation_def throwM_def)
  obtain xs w1 where loop: "membership_loop env sp w = (Inr xs, w1)"
    using assms(4) cons by (auto simp: client_operation_def bindM_eq_Inr [of "membership_loop env sp"] Let_def)
  note ok = membership_loop_ok [OF assms(1-3) loop]
  obtain pri pub where P: "pi_fee pub = pre_value (nw ! 2)" "pi_roots pub = map snd xs"
    "pri_membership_proofs pri = map fst xs" "pri_nullifiers_values pri = map pre_value sp"
    "client_operation env prove sp nw nk zk ek addr secs w =
      (case prove pri pub of Some (proof, out) \<Rightarrow> (Inr (tx_of proof out), w1)
       | None \<Rightarrow> (Inl (Fails ''Transaction could not be completed due to a proving error.''), w1))"
    by (rule client_operation_run [OF assms(3) cons loop, where prove = prove and nk = nk and zk = zk and ek = ek and addr = addr and secs = secs])
  have roots: "map snd xs = map (\<lambda>c. if pre_nf_token_id c = 0 then 0 else mnode th f (h + s) 0) sp"
    using conjunct2 [OF ok] by (induction rule: list_all2_induct) (auto simp: proved_def Let_def)
  from assms(4) P(5) obtain pf out where "prove pri pub = Some (pf, out)" "tx = tx_of pf out" "w' = w1"
    by (auto split: option.splits)
  then show ?thesis using cons ok P(1-4) unfolding roots by blast
qed

text \<open>Conversely, when value and fee are conserved, the spent commitments with a token are in the database and
  \<open>get_membership_proof\<close> finds their leaves, and the verification of a path is the right one: a prover that
  succeeds gives a transaction, so no other check stands in its way.\<close>

theorem client_operation_complete:
  assumes "store_inv True w" "tree_inv th h s n f w" "poseidon_ok (env_poseidon env)" "value_conserved sp nw"
    "\<And>p r. path_root th (node_value p) (sibling_path p) = r \<Longrightarrow> env_verify env p r"
    "\<And>c. c \<in> set sp \<Longrightarrow> pre_nf_token_id c \<noteq> 0 \<Longrightarrow> commitment_key (env_poseidon env) c \<in> ce_key ` set (commitments w) \<and>
       (\<exists>p. fst (get_membership_proof (Some (commitment_key (env_poseidon env) c)) None w) = Inr p)"
    "\<And>pri pub. prove pri pub \<noteq> None"
  shows "\<exists>tx. client_operation env prove sp nw nk zk ek addr secs w = (Inr tx, w)"
  by (rule client_operation_succeeds [OF assms])

section \<open>Witnesses\<close>

lemma select_single:
  assumes "0 < t" "t \<le> pre_value c"
  shows "calculate_minimum_commitments [c] t = Inr 1" "select_commitment [c] t 1 1 = Inr [c, preimage_default]"
proof -
  show "calculate_minimum_commitments [c] t = Inr 1"
    using assms(2) by (simp add: calculate_minimum_commitments_def MAX_POSSIBLE_COMMITMENTS_def)
  have "find_subset_commitments [c] t 1 [] = Inr [c]" using assms(2) by (simp add: find_subset_commitments_def not_less)
  then show "select_commitment [c] t 1 1 = Inr [c, preimage_default]"
    by (simp add: select_commitment_def MAX_POSSIBLE_COMMITMENTS_def Let_def)
qed

lemma find_usable_single:
  assumes "faults w = []" "poseidon_ok P" "available tok w = [e]" "0 < t" "t \<le> pre_value (ce_preimage e)"
  shows "find_usable_commitments P tok t w =
    (Inr [ce_preimage e, preimage_default], marked P [ce_preimage e, preimage_default] w)"
  using find_usable_eq [OF assms(1,2), of tok t] select_single [OF assms(4,5)] by (simp add: assms(3))

definition first_hash :: poseidon where
  "first_hash xs = Some (hd xs)"

lemma poseidon_ok_first: "poseidon_ok first_hash"
  by (simp add: poseidon_ok_def first_hash_def)

definition purse :: "nat \<Rightarrow> nat \<Rightarrow> CommitmentEntry" where
  "purse tok v = \<lparr>ce_preimage = preimage_default\<lparr>pre_value := fr v, pre_nf_token_id := fr tok\<rparr>, ce_status = Unspent, ce_key = fr tok,
     ce_nullifier = 0, ce_layer_1_transaction_hash = None, ce_layer_2_block_number = None\<rparr>"

lemma key_first: "commitment_key first_hash (preimage_default\<lparr>pre_value := v, pre_nf_token_id := k\<rparr>) = k"
  "commitment_key first_hash preimage_default = 0"
  by (simp_all add: commitment_key_def preimage_hash_def first_hash_def preimage_default_def preimage_new_def
      salt_default_def get_salt_def)

lemma fr_small: "n < 100 \<Longrightarrow> m < 100 \<Longrightarrow> fr n = fr m \<longleftrightarrow> n = m"
  "n < 100 \<Longrightarrow> m < 100 \<Longrightarrow> fr n < fr m \<longleftrightarrow> n < m" "n < 100 \<Longrightarrow> m < 100 \<Longrightarrow> fr n \<le> fr m \<longleftrightarrow> n \<le> m"
proof -
  have v: "fr_val (fr n) = n" if "n < 100" for n using that by (simp add: fr_modulus_def)
  show "n < 100 \<Longrightarrow> m < 100 \<Longrightarrow> fr n = fr m \<longleftrightarrow> n = m" using v [of n] v [of m] by metis
  show "n < 100 \<Longrightarrow> m < 100 \<Longrightarrow> fr n < fr m \<longleftrightarrow> n < m" "n < 100 \<Longrightarrow> m < 100 \<Longrightarrow> fr n \<le> fr m \<longleftrightarrow> n \<le> m"
    using v [of n] v [of m] by (simp_all add: less_fr254_def less_eq_fr254_def)
qed

lemma purse_first:
  "find_usable_commitments first_hash (fr 1) (fr 3) (client_ex [purse 1 5, purse 2 7]) =
    (Inr [ce_preimage (purse 1 5), preimage_default], marked first_hash [ce_preimage (purse 1 5), preimage_default] (client_ex [purse 1 5, purse 2 7]))"
proof (rule find_usable_single [OF _ poseidon_ok_first])
  show "available (fr 1) (client_ex [purse 1 5, purse 2 7]) = [purse 1 5]"
    by (simp add: available_def client_ex_def purse_def fr_small)
  show "0 < fr 3" "fr 3 \<le> pre_value (ce_preimage (purse 1 5))"
    using fr_small(2) [of 0 3] by (simp_all add: purse_def fr_small)
qed (simp add: client_ex_def)

theorem selection_marks_pending_witness:
  "\<exists>S. best_choice (fr_val (fr 3)) [ce_preimage (purse 1 5)] S \<and>
     fst (find_usable_commitments first_hash (fr 1) (fr 3) (client_ex [purse 1 5, purse 2 7])) = Inr (S @ replicate (2 - length S) preimage_default)"
proof -
  let ?w = "client_ex [purse 1 5, purse 2 7]"
  have a: "available (fr 1) ?w = [purse 1 5]"
    by (simp add: available_def client_ex_def purse_def fr_small)
  have v: "fr_val (fr 3) = 3" "fr_val (fr 5) = 5" by (simp_all add: fr_modulus_def)
  have "choice [ce_preimage (purse 1 5)] [ce_preimage (purse 1 5)] \<and> fr_val (fr 3) \<le> cover [ce_preimage (purse 1 5)]"
    using v by (auto simp: choice_def cover_def purse_def fr_modulus_def intro!: exI [of _ 0])
  moreover have "no_overflow [ce_preimage (purse 1 5)]" by (simp add: no_overflow_def purse_def fr_modulus_def)
  moreover have "0 < fr 3" using fr_small(2) [of 0 3] by simp
  moreover have "faults ?w = []" by (simp add: client_ex_def)
  ultimately show ?thesis
    using selection_marks_pending [of ?w first_hash "fr 3" "fr 1"] poseidon_ok_first unfolding a Let_def by auto
qed

theorem lost_mark_is_dropped_witness:
  "find_usable_commitments first_hash (fr 1) (fr 3) ((client_ex [purse 1 5, purse 2 7])\<lparr>faults := [False, True]\<rparr>) =
     (Inr [ce_preimage (purse 1 5), preimage_default], client_ex [purse 1 5, purse 2 7])"
proof -
  let ?w = "(client_ex [purse 1 5, purse 2 7])\<lparr>faults := [False, True]\<rparr>"
  have e: "?w\<lparr>faults := []\<rparr> = client_ex [purse 1 5, purse 2 7]" by (simp add: client_ex_def)
  have "faults ?w = [False, True]" by simp
  moreover have "find_usable_commitments first_hash (fr 1) (fr 3) (?w\<lparr>faults := []\<rparr>) = (Inr [ce_preimage (purse 1 5), preimage_default],
      marked first_hash [ce_preimage (purse 1 5), preimage_default] (client_ex [purse 1 5, purse 2 7]))"
    unfolding e by (rule purse_first)
  ultimately have "find_usable_commitments first_hash (fr 1) (fr 3) ?w = (Inr [ce_preimage (purse 1 5), preimage_default], ?w\<lparr>faults := []\<rparr>)"
    by (rule lost_mark_is_dropped [OF _ poseidon_ok_first])
  then show ?thesis unfolding e .
qed

theorem no_double_selection_witness:
  "set [ce_preimage (purse 1 5), preimage_default] \<inter> set [ce_preimage (purse 2 7), preimage_default] \<subseteq> {preimage_default}"
proof -
  let ?w = "client_ex [purse 1 5, purse 2 7]"
  let ?m = "marked first_hash [ce_preimage (purse 1 5), preimage_default] ?w"
  have f: "faults ?w = []" "faults ?m = []" by (simp_all add: client_ex_def marked_def)
  have k: "\<forall>e\<in>set (commitments ?w). ce_key e = commitment_key first_hash (ce_preimage e)"
    by (simp add: client_ex_def purse_def key_first)
  have "available (fr 2) ?m = [purse 2 7]"
    unfolding available_after_marking
    by (simp add: available_def client_ex_def purse_def key_first fr_small fr_zero [symmetric] del: fr_zero)
  moreover have "0 < fr 3" "fr 3 \<le> pre_value (ce_preimage (purse 2 7))"
    using fr_small(2) [of 0 3] by (simp_all add: purse_def fr_small)
  ultimately have two: "find_usable_commitments first_hash (fr 2) (fr 3) ?m =
      (Inr [ce_preimage (purse 2 7), preimage_default], marked first_hash [ce_preimage (purse 2 7), preimage_default] ?m)"
    by (rule find_usable_single [OF f(2) poseidon_ok_first])
  have one: "find_usable_commitments first_hash (fr 1) (fr 3) ?w = (Inr [ce_preimage (purse 1 5), preimage_default], ?m)"
    by (rule purse_first)
  show ?thesis by (rule no_double_selection [OF f(1) poseidon_ok_first k one two])
qed

definition world_ex :: client_db where
  "world_ex = (client_ex [purse 1 5])\<lparr>metadata := Some \<lparr>tree_height = 0, sub_tree_height = 0, sub_tree_count = 1, root = fr 1\<rparr>,
     nodes := [(0, fr 1)]\<rparr>"

definition env_ex :: "nat client_env" where
  "env_ex = \<lparr>env_poseidon = first_hash, env_verify = (\<lambda>p r. path_root (+) (node_value p) (sibling_path p) = r),
     env_default_proof = \<lparr>node_value = 0, sibling_path = [], leaf_index = 0\<rparr>, env_generator = te_zero, env_nf_address = 7,
     env_bjj_into = (\<lambda>n. n)\<rparr>"

definition spend_ex :: "Preimage list" where
  "spend_ex = [ce_preimage (purse 1 5), preimage_default, preimage_default, preimage_default]"

lemma world_ex_inv: "store_inv True world_ex" "tree_inv (+) 0 0 1 (\<lambda>_. fr 1) world_ex"
  by (simp_all add: store_inv_def tree_inv_def nodes_ok_def heap_ok_def look_def world_ex_def client_ex_def)

lemma spend_ex_found:
  assumes "c \<in> set spend_ex" "pre_nf_token_id c \<noteq> 0"
  shows "commitment_key (env_poseidon env_ex) c \<in> ce_key ` set (commitments world_ex) \<and>
    (\<exists>p. fst (get_membership_proof (Some (commitment_key (env_poseidon env_ex) c)) None world_ex) = Inr p)"
proof -
  have c: "c = ce_preimage (purse 1 5)"
    using assms by (auto simp: spend_ex_def preimage_default_def preimage_new_def)
  have k: "commitment_key (env_poseidon env_ex) c = fr 1" unfolding c by (simp add: purse_def key_first env_ex_def)
  have n: "fr 1 \<noteq> 0" using fr_small(1) [of 1 0] by simp
  show ?thesis
    unfolding k using n
    by (simp add: world_ex_def client_ex_def purse_def get_membership_proof_def read_metadata_def bindM_def db_read_ok returnM_def)
qed

lemma env_ex_ok: "poseidon_ok (env_poseidon env_ex)" "path_root (+) (node_value p) (sibling_path p) = r \<Longrightarrow> env_verify env_ex p r"
  by (simp_all add: env_ex_def poseidon_ok_first)

theorem client_operation_complete_witness:
  "\<exists>tx. client_operation env_ex (\<lambda>pri pub. Some ((), pub)) spend_ex spend_ex 1 2 1 0 [] world_ex = (Inr tx, world_ex)"
  by (rule client_operation_complete [OF world_ex_inv env_ex_ok(1) _ env_ex_ok(2) spend_ex_found]) (simp_all add: value_conserved_def)

theorem client_operation_sound_witness:
  "\<exists>tx xs. client_operation env_ex (\<lambda>pri pub. Some ((), pub)) spend_ex spend_ex 1 2 1 0 [] world_ex = (Inr tx, world_ex) \<and>
     list_all2 (proved env_ex (+) (\<lambda>_. fr 1) (0 + 0) (ce_key ` set (commitments world_ex))) spend_ex xs"
proof -
  have "\<exists>tx. client_operation env_ex (\<lambda>pri pub. Some ((), pub)) spend_ex spend_ex 1 2 1 0 [] world_ex = (Inr tx, world_ex)"
    by (rule client_operation_succeeds [OF world_ex_inv env_ex_ok(1) _ env_ex_ok(2) spend_ex_found]) (simp_all add: value_conserved_def)
  then obtain tx where tx: "client_operation env_ex (\<lambda>pri pub. Some ((), pub)) spend_ex spend_ex 1 2 1 0 [] world_ex = (Inr tx, world_ex)" ..
  from client_operation_sound [OF world_ex_inv env_ex_ok(1) this] tx show ?thesis by blast
qed

end
