(* ===== verification/Client_Handlers.thy ===== *)
theory Client_Handlers
  imports Client_Operation
begin

text \<open>
  The request handlers of the client: \<open>drivers/rest/client_operation.rs\<close> (storing the change, building the
  transaction and sending it to the proposers), \<open>drivers/rest/client_nf_3.rs\<close> (deposit, transfer and
  withdrawal) and \<open>driven/queue.rs\<close>. What comes from outside is a parameter: the answers of the proposers,
  the contracts, the prover, the random numbers, JSON and the arithmetic of the curve.
\<close>

section \<open>Errors and notifications\<close>

datatype 'd handler_error =
    JsonConversionError | DepositFailed 'd | TxDatabaseError | CustomError string | TxError | ClientNotSynchronized

type_synonym ('z, 'd, 'a) handlerM = "('z, 'd handler_error, 'a) clientM"

datatype NotificationPayload =
    BlockchainEvent string nat "string list" "string list"
  | TransactionEvent string string

fun hex_error_text :: "hex_error \<Rightarrow> string" where
  "hex_error_text InvalidStringLength = ''Invalid string length''"
| "hex_error_text InvalidString = ''Invalid string''"
| "hex_error_text InvalidHexFormat = ''Invalid hex format''"
| "hex_error_text InvalidConversion = ''Invalid conversion''"

fun conversion_error_text :: "conversion_error \<Rightarrow> string" where
  "conversion_error_text Overflow =
     ''Overflow during conversion. Uints cannot be bigger than (q-1)/2 where q is the modulus of the scalar field''"
| "conversion_error_text ProofDecompression = ''Error during proof decompression''"
| "conversion_error_text ProofCompression = ''Error during proof compression: ''"
| "conversion_error_text SerialisationError = ''Error during serialisation: ''"
| "conversion_error_text NotErc20DepositData = ''Could not convert the public data bytes into ERC20 deposit data''"
| "conversion_error_text FixedLengthArrayError = ''Failed to convert to a fixed length array''"
| "conversion_error_text ParseFailed = ''Failed to parse data''"
| "conversion_error_text PoseidonFailure = ''Poseidon Error: ''"

text \<open>An error with a text becomes a \<open>CustomError\<close>; a panic stays one.\<close>

definition customM :: "('z, string, 'a) clientM \<Rightarrow> ('z, 'd, 'a) handlerM" where
  "customM = map_errM (map_failure CustomError)"

definition hexM :: "hex_error + 'a \<Rightarrow> ('z, 'd, 'a) handlerM" where
  "hexM r = liftM (map_sum (\<lambda>e. Fails (CustomError (hex_error_text e))) id r)"

text \<open>\<open>expect\<close>\<close>

definition mustM :: "'e failure + 'a \<Rightarrow> ('z, 'd, 'a) handlerM" where
  "mustM r = liftM (map_sum (\<lambda>_. Panics) id r)"

section \<open>Sending to the proposers\<close>

text \<open>An answer of a proposer: an HTTP status with its body, or an error of the network and whether it is a
  time-out, a failed connection or a failed request. The answer to attempt \<open>a\<close> is \<open>send a\<close>.\<close>

datatype http_outcome = HttpStatus nat string | NetworkError bool

datatype proposer_error = InvalidUrl | HttpRejected nat string | NetworkFailure | RetriesExhausted

definition retriable_status :: "nat \<Rightarrow> bool" where
  "retriable_status s \<longleftrightarrow> s = 502 \<or> s = 503 \<or> s = 504"

text \<open>The result, and the pauses between the attempts in milliseconds.\<close>

fun send_loop :: "(nat \<Rightarrow> http_outcome) \<Rightarrow> nat \<Rightarrow> nat \<Rightarrow> nat list \<Rightarrow> (proposer_error \<times> bool + unit) \<times> nat list" where
  "send_loop send max_retries initial_backoff [] = (Inl (RetriesExhausted, True), [])"
| "send_loop send max_retries initial_backoff (attempt # attempts) =
     (let again = (case send_loop send max_retries initial_backoff attempts of
                     (r, pauses) \<Rightarrow> (r, initial_backoff * 2 ^ (attempt - 1) # pauses))
      in case send attempt of
           HttpStatus status body \<Rightarrow>
             if 200 \<le> status \<and> status < 300 then (Inr (), [])
             else if retriable_status status \<and> attempt < max_retries then again
             else (Inl (HttpRejected status body, retriable_status status), [])
         | NetworkError retriable \<Rightarrow>
             if retriable \<and> attempt < max_retries then again
             else (Inl (NetworkFailure, True), []))"

definition send_to_proposer_with_retry ::
    "bool \<Rightarrow> (nat \<Rightarrow> http_outcome) \<Rightarrow> nat \<Rightarrow> nat \<Rightarrow> (proposer_error \<times> bool + unit) \<times> nat list" where
  "send_to_proposer_with_retry url_ok send max_retries initial_backoff =
     (if \<not> url_ok then (Inl (InvalidUrl, False), [])
      else send_loop send max_retries initial_backoff [1..<max_retries + 1])"

definition MAX_RETRIES :: nat where "MAX_RETRIES = 3"
definition INITIAL_BACKOFF :: nat where "INITIAL_BACKOFF = 500"

text \<open>\<open>proposers\<close> is what \<open>get_proposers\<close> returns: for each proposer whether its URL parses and its answers.\<close>

definition process_transaction_offchain ::
    "string + (bool \<times> (nat \<Rightarrow> http_outcome)) list \<Rightarrow> string \<Rightarrow> ('z, string, unit) clientM" where
  "process_transaction_offchain proposers request_id =
     bindM (liftM (map_sum Fails id proposers)) (\<lambda>proposers_struct.
     (let results = map (\<lambda>(url_ok, send). fst (send_to_proposer_with_retry url_ok send MAX_RETRIES INITIAL_BACKOFF)) proposers_struct;
          any_success = (\<exists>r\<in>set results. r = Inr ());
          any_retriable_failures = (\<exists>r\<in>set results. case r of Inl (msg, retriable) \<Rightarrow> retriable | Inr _ \<Rightarrow> False)
      in if any_success then bindM (update_request request_id Submitted) (\<lambda>_. returnM ())
         else if any_retriable_failures then
           bindM (update_request request_id ProposerUnreachable) (\<lambda>_.
           throwM (Fails (request_id @ '' All proposers unreachable after retries.'')))
         else
           bindM (update_request request_id Failed) (\<lambda>_.
           throwM (Fails (request_id @ '' All proposers rejected the transaction.'')))))"

section \<open>The client operation handler\<close>

record 'b handler_env = "'b client_env" +
  env_zkp_private_key :: 'b
  env_zkp_public_key :: TEAffine
  env_nullifier_key :: fr254
  env_fee_token_id :: fr254
  env_enc :: "byte list \<Rightarrow> string"
  env_dec :: "string \<Rightarrow> byte list option"
  env_sha256 :: "byte list \<Rightarrow> byte list"
  env_parse_key :: "string \<Rightarrow> string + TEAffine"
  env_times :: "TEAffine \<Rightarrow> 'b \<Rightarrow> TEAffine"
  env_quote :: "string \<Rightarrow> string"
  env_dup_kind :: mongo_error

definition hex_of :: "('b, 'y) handler_env_scheme \<Rightarrow> fr254 \<Rightarrow> string" where
  "hex_of env x = fr_to_hex_string (env_enc env) x"

text \<open>One round of the loop that collects the change commitments.\<close>

definition change_entry ::
    "('b, 'y) handler_env_scheme \<Rightarrow> string \<Rightarrow> nat \<times> Preimage \<Rightarrow> ('z, 'd, CommitmentEntry list) handlerM" where
  "change_entry env request_id = (\<lambda>(i, commitment).
     bindM (mustM (preimage_hash (env_poseidon env) commitment)) (\<lambda>commitment_hash.
     bindM (ignoreM (add_mapping request_id (hex_of env commitment_hash))) (\<lambda>_.
     if pre_public_key commitment = env_zkp_public_key env \<and> i \<noteq> 0 \<and> commitment \<noteq> preimage_default then
       bindM (mustM (nullifier_hash (env_poseidon env) commitment (env_nullifier_key env))) (\<lambda>nullifier.
       bindM (liftM (commitment_entry_new (env_poseidon env) commitment nullifier PendingCreation)) (\<lambda>e. returnM [e]))
     else returnM [])))"

text \<open>\<open>.ok_or(TransactionHandlerError::DatabaseError)?\<close>\<close>

definition needM :: "('z, 'd, unit option) handlerM \<Rightarrow> ('z, 'd, unit) handlerM" where
  "needM m = bindM m (\<lambda>r. okM (Fails TxDatabaseError) r)"

text \<open>\<open>to_json\<close> is the JSON text of the transaction with its field elements replaced by their hexadecimal forms.\<close>

definition handle_client_operation ::
    "('b::zero, 'y) handler_env_scheme \<Rightarrow> ('b PrivateInputs \<Rightarrow> PublicInputs \<Rightarrow> ('p \<times> PublicInputs) option) \<Rightarrow>
     string + (bool \<times> (nat \<Rightarrow> http_outcome)) list \<Rightarrow> ('p ClientTransaction \<Rightarrow> string option) \<Rightarrow>
     Preimage list \<Rightarrow> Preimage list \<Rightarrow> 'b \<Rightarrow> fr254 \<Rightarrow> DepositSecret list \<Rightarrow> string \<Rightarrow> ('z, 'd, NotificationPayload) handlerM" where
  "handle_client_operation env prove proposers to_json spend_commitments new_commitments ephemeral_private_key
       recipient_address secret_preimages request_id =
     bindM (forM (enumerate 0 new_commitments) (change_entry env request_id)) (\<lambda>entries.
     (let commitment_entries = concat entries in
      bindM (if commitment_entries \<noteq> [] then needM (store_commitments (env_dup_kind env) commitment_entries True) else returnM ()) (\<lambda>_.
      bindM (customM (client_operation env prove spend_commitments new_commitments (env_nullifier_key env)
               (env_zkp_private_key env) ephemeral_private_key recipient_address secret_preimages)) (\<lambda>operation_result.
      bindM (customM (process_transaction_offchain proposers request_id)) (\<lambda>_.
      bindM (okM (Fails JsonConversionError) (to_json operation_result)) (\<lambda>response.
      returnM (TransactionEvent response (env_quote env request_id))))))))"

section \<open>Requests\<close>

record NF3DepositRequest =
  dep_erc_address :: string
  dep_token_id :: string
  dep_token_type :: string
  dep_value :: string
  dep_fee :: string
  dep_deposit_fee :: string

record NF3RecipientData =
  rd_values :: "string list"
  rd_keys :: "string list"

record NF3TransferRequest =
  tr_erc_address :: string
  tr_token_id :: string
  tr_recipient_data :: NF3RecipientData
  tr_fee :: string

record NF3WithdrawRequest =
  wr_erc_address :: string
  wr_token_id :: string
  wr_token_type :: string
  wr_value :: string
  wr_recipient_address :: string
  wr_fee :: string

datatype TransactionRequest =
    DepositRequest NF3DepositRequest | TransferRequest NF3TransferRequest | WithdrawRequest NF3WithdrawRequest

text \<open>\<open>u8::from_str_radix(.., 16)\<close> of the standard library.\<close>

definition hex_digit :: "char \<Rightarrow> nat option" where
  "hex_digit c =
     (let n = of_char c in
      if 48 \<le> n \<and> n \<le> 57 then Some (n - 48)
      else if 97 \<le> n \<and> n \<le> 102 then Some (n - 87)
      else if 65 \<le> n \<and> n \<le> 70 then Some (n - 55) else None)"

fun u8_digits :: "nat \<Rightarrow> string \<Rightarrow> string + nat" where
  "u8_digits acc [] = Inr acc"
| "u8_digits acc (c # cs) =
     (case hex_digit c of
        None \<Rightarrow> Inl ''invalid digit found in string''
      | Some d \<Rightarrow> if acc * 16 + d > 255 then Inl ''number too large to fit in target type''
                  else u8_digits (acc * 16 + d) cs)"

definition u8_from_hex :: "string \<Rightarrow> string + 8 word" where
  "u8_from_hex s =
     (if s = [] then Inl ''cannot parse integer from empty string''
      else if s = ''+'' \<or> s = ''-'' then Inl ''invalid digit found in string''
      else map_sum id of_nat (u8_digits 0 (if hd s = CHR ''+'' then tl s else s)))"

section \<open>Deposits\<close>

definition fr_hexM :: "('b, 'y) handler_env_scheme \<Rightarrow> string \<Rightarrow> ('z, 'd, fr254) handlerM" where
  "fr_hexM env s = hexM (fr_from_hex_string (env_dec env) s)"

text \<open>\<open>set_approval\<close> and \<open>escrow_funds\<close> are the calls of the contracts, the first for each type of token. The
  mapping is added after the value commitment is stored and before the fee commitment is.\<close>

definition handle_deposit ::
    "('b, 'y) handler_env_scheme \<Rightarrow> (TokenType \<Rightarrow> fr254 \<Rightarrow> fr254 \<Rightarrow> 256 word \<Rightarrow> 't + unit) \<Rightarrow>
     (fr254 \<Rightarrow> fr254 \<Rightarrow> 256 word \<Rightarrow> fr254 \<Rightarrow> fr254 \<Rightarrow> DepositSecret \<Rightarrow> TokenType \<Rightarrow> 'n + fr254 \<times> fr254) \<Rightarrow>
     (string list \<Rightarrow> string option) \<Rightarrow> DepositSecret \<Rightarrow> NF3DepositRequest \<Rightarrow> string \<Rightarrow>
     ('z, ('t, 'n) deposit_error, NotificationPayload) handlerM" where
  "handle_deposit env set_approval escrow_funds list_json secret_preimage req request_id =
     bindM (hexM (erc_address_from_hex (env_dec env) (dep_erc_address req))) (\<lambda>erc_address.
     bindM (hexM (big_from_hex_string (env_dec env) (dep_token_id req))) (\<lambda>token_id.
     bindM (liftM (map_sum (\<lambda>e. Fails (CustomError e)) token_type_from_u8 (u8_from_hex (dep_token_type req)))) (\<lambda>token_type.
     bindM (fr_hexM env (dep_fee req)) (\<lambda>fee.
     bindM (fr_hexM env (dep_deposit_fee req)) (\<lambda>deposit_fee.
     bindM (fr_hexM env (dep_value req)) (\<lambda>value.
     bindM (liftM (map_sum (\<lambda>e. Fails (DepositFailed e)) id
         (deposit_operation (set_approval token_type) escrow_funds (env_fee_token_id env) erc_address value fee deposit_fee
            token_id secret_preimage token_type))) (\<lambda>(preimage_value, preimage_fee_option).
     bindM (mustM (nullifier_hash (env_poseidon env) preimage_value (env_nullifier_key env))) (\<lambda>nullifier.
     bindM (mustM (preimage_hash (env_poseidon env) preimage_value)) (\<lambda>commitment_hash.
     bindM (liftM (commitment_entry_new (env_poseidon env) preimage_value nullifier PendingCreation)) (\<lambda>commitment_entry.
     bindM (needM (store_commitment commitment_entry)) (\<lambda>_.
     bindM (ignoreM (add_mapping request_id (hex_of env commitment_hash))) (\<lambda>_.
     bindM (case preimage_fee_option of
              None \<Rightarrow> returnM []
            | Some preimage_fee \<Rightarrow>
                bindM (mustM (nullifier_hash (env_poseidon env) preimage_fee (env_nullifier_key env))) (\<lambda>nullifier.
                bindM (mustM (preimage_hash (env_poseidon env) preimage_fee)) (\<lambda>fee_hash.
                bindM (ignoreM (add_mapping request_id (hex_of env fee_hash))) (\<lambda>_.
                bindM (liftM (commitment_entry_new (env_poseidon env) preimage_fee nullifier PendingCreation)) (\<lambda>fee_entry.
                bindM (needM (store_commitment fee_entry)) (\<lambda>_. returnM [fee_hash])))))) (\<lambda>fee_hashes.
     bindM (okM (Fails JsonConversionError) (list_json (map (hex_of env) (commitment_hash # fee_hashes)))) (\<lambda>response.
     returnM (TransactionEvent response (env_quote env request_id))))))))))))))))"

section \<open>Transfers and withdrawals\<close>

text \<open>The random values of one request.\<close>

record 'b randomness =
  rnd_ephemeral_key :: 'b
  rnd_salt_value :: fr254
  rnd_salt_change :: fr254
  rnd_salt_fee :: fr254
  rnd_salt_fee_change :: fr254

text \<open>The commitments that pay the value and the fee; a zero fee is paid with default commitments.\<close>

definition select_spend :: "('b, 'y) handler_env_scheme \<Rightarrow> fr254 \<Rightarrow> fr254 \<Rightarrow> fr254 \<Rightarrow> ('z, 'd, Preimage list) handlerM" where
  "select_spend env nf_token_id value fee =
     bindM (customM (find_usable_commitments (env_poseidon env) nf_token_id value)) (\<lambda>spend_value.
     bindM (if fee = 0 then returnM [preimage_default, preimage_default]
            else customM (find_usable_commitments (env_poseidon env) (env_fee_token_id env) fee)) (\<lambda>spend_fee.
     returnM [spend_value ! 0, spend_value ! 1, spend_fee ! 0, spend_fee ! 1]))"

definition contract_nf_address :: "('b, 'y) handler_env_scheme \<Rightarrow> ('z, 'd, TEAffine) handlerM" where
  "contract_nf_address env =
     bindM (okM Panics (frbn_from_address (env_nf_address env))) (\<lambda>a. returnM \<lparr>te_x = 0, te_y = a\<rparr>)"

text \<open>The new commitments: the value, its change, the fee and the change of the fee; what is zero is the default.\<close>

definition make_commitments ::
    "('b, 'y) handler_env_scheme \<Rightarrow> 'b randomness \<Rightarrow> TEAffine \<Rightarrow> TEAffine \<Rightarrow> Salt \<Rightarrow> fr254 \<Rightarrow> fr254 \<Rightarrow> fr254 \<Rightarrow>
     Preimage list \<Rightarrow> Preimage list" where
  "make_commitments env rnd contract first_key first_salt nf_token_id value fee spend_commitments =
     (let total_token_value = sum_list (map pre_value (take 2 spend_commitments));
          token_change = total_token_value - value;
          total_fee_value = sum_list (map pre_value (drop 2 spend_commitments));
          fee_change = total_fee_value - fee;
          slot = pre_nf_slot_id (spend_commitments ! 0);
          fee_token_id = env_fee_token_id env
      in [preimage_new value nf_token_id slot first_key first_salt,
          if token_change \<noteq> 0
          then preimage_new token_change nf_token_id slot (env_zkp_public_key env) (SaltTransfer (rnd_salt_change rnd))
          else preimage_default,
          if fee \<noteq> 0
          then preimage_new fee fee_token_id fee_token_id contract (SaltTransfer (rnd_salt_fee rnd))
          else preimage_default,
          if fee_change \<noteq> 0
          then preimage_new fee_change fee_token_id fee_token_id (env_zkp_public_key env) (SaltTransfer (rnd_salt_fee_change rnd))
          else preimage_default])"

definition token_idM :: "('b, 'y) handler_env_scheme \<Rightarrow> string \<Rightarrow> string \<Rightarrow> ('z, 'd, fr254) handlerM" where
  "token_idM env erc_address token_id =
     liftM (map_sum (\<lambda>e. Fails (CustomError (conversion_error_text e))) id
       (to_nf_token_id_from_str (env_dec env) (env_sha256 env) erc_address token_id))"

definition handle_transfer ::
    "('b::zero, 'y) handler_env_scheme \<Rightarrow> ('b PrivateInputs \<Rightarrow> PublicInputs \<Rightarrow> ('p \<times> PublicInputs) option) \<Rightarrow>
     string + (bool \<times> (nat \<Rightarrow> http_outcome)) list \<Rightarrow> ('p ClientTransaction \<Rightarrow> string option) \<Rightarrow> 'b randomness \<Rightarrow>
     NF3TransferRequest \<Rightarrow> string \<Rightarrow> ('z, 'd, NotificationPayload) handlerM" where
  "handle_transfer env prove proposers to_json rnd req request_id =
     bindM (needM (store_request request_id Queued)) (\<lambda>_.
     bindM (token_idM env (tr_erc_address req) (tr_token_id req)) (\<lambda>nf_token_id.
     bindM (okM Panics (case rd_values (tr_recipient_data req) of [] \<Rightarrow> None | v # _ \<Rightarrow> Some v)) (\<lambda>v.
     bindM (fr_hexM env v) (\<lambda>value.
     bindM (fr_hexM env (tr_fee req)) (\<lambda>fee.
     bindM (okM (Fails (CustomError ''missing recipient public key''))
              (case rd_keys (tr_recipient_data req) of [] \<Rightarrow> None | k # _ \<Rightarrow> Some k)) (\<lambda>first_key.
     bindM (liftM (map_sum (\<lambda>e. Fails (CustomError e)) id (env_parse_key env first_key))) (\<lambda>recipient_public_key.
     (let shared_secret = env_times env recipient_public_key (rnd_ephemeral_key rnd) in
      bindM (select_spend env nf_token_id value fee) (\<lambda>spend_commitments.
      bindM (contract_nf_address env) (\<lambda>contract.
      (let new_commitments = make_commitments env rnd contract recipient_public_key (SaltTransfer (te_y shared_secret))
             nf_token_id value fee spend_commitments in
       bindM (mustM (mapS (preimage_hash (env_poseidon env)) new_commitments)) (\<lambda>_.
       handle_client_operation env prove proposers to_json spend_commitments new_commitments (rnd_ephemeral_key rnd) 0
         (map get_secret_preimage spend_commitments) request_id))))))))))))"

definition handle_withdraw ::
    "('b::zero, 'y) handler_env_scheme \<Rightarrow> ('b PrivateInputs \<Rightarrow> PublicInputs \<Rightarrow> ('p \<times> PublicInputs) option) \<Rightarrow>
     string + (bool \<times> (nat \<Rightarrow> http_outcome)) list \<Rightarrow> ('p ClientTransaction \<Rightarrow> string option) \<Rightarrow> (string \<Rightarrow> string option) \<Rightarrow>
     'b randomness \<Rightarrow> NF3WithdrawRequest \<Rightarrow> string \<Rightarrow> ('z, 'd, NotificationPayload) handlerM" where
  "handle_withdraw env prove proposers to_json withdraw_json rnd req request_id =
     bindM (needM (store_request request_id Queued)) (\<lambda>_.
     bindM (token_idM env (wr_erc_address req) (wr_token_id req)) (\<lambda>nf_token_id.
     bindM (fr_hexM env (wr_value req)) (\<lambda>value.
     bindM (fr_hexM env (wr_fee req)) (\<lambda>fee.
     bindM (fr_hexM env (wr_recipient_address req)) (\<lambda>recipient_address.
     bindM (select_spend env nf_token_id value fee) (\<lambda>spend_commitments.
     bindM (contract_nf_address env) (\<lambda>contract.
     (let new_commitments = make_commitments env rnd contract contract (SaltTransfer (rnd_salt_value rnd))
            nf_token_id value fee spend_commitments in
      bindM (mustM (preimage_hash (env_poseidon env) (spend_commitments ! 0))) (\<lambda>spend_hash.
      bindM (mustM (okS (Fails ()) (env_poseidon env [env_nullifier_key env, spend_hash]))) (\<lambda>withdraw_fund_salt.
      bindM (handle_client_operation env prove proposers to_json spend_commitments new_commitments 0 recipient_address
               (map get_secret_preimage spend_commitments) request_id) (\<lambda>_.
      bindM (okM (Fails JsonConversionError) (withdraw_json (hex_of env withdraw_fund_salt))) (\<lambda>response.
      returnM (TransactionEvent response (env_quote env request_id))))))))))))))"

section \<open>The queue of requests\<close>

record QueuedRequest =
  qr_transaction_request :: TransactionRequest
  qr_uuid :: string

record client_node = client_db +
  queue :: "QueuedRequest list"

datatype client_rejection = InvalidRequestId | RejectedByDatabase

datatype queue_reply = ServiceUnavailable string | RequestAccepted string

definition queue_request ::
    "(string \<Rightarrow> bool) \<Rightarrow> nat \<Rightarrow> TransactionRequest \<Rightarrow> string option \<Rightarrow> ('z client_node_scheme, client_rejection failure, queue_reply) dbm" where
  "queue_request valid_uuid max_queue_size request request_id =
     (let i = (case request_id of None \<Rightarrow> [] | Some i \<Rightarrow> i) in
      if \<not> valid_uuid i then throwM (Fails InvalidRequestId)
      else (\<lambda>w.
        if length (queue w) \<ge> max_queue_size then (Inr (ServiceUnavailable i), w)
        else bindM (store_request i Queued) (\<lambda>r.
               if r = None then throwM (Fails RejectedByDatabase) else returnM (RequestAccepted i))
             (w\<lparr>queue := queue w @ [\<lparr>qr_transaction_request = request, qr_uuid = i\<rparr>]\<rparr>)))"

text \<open>The three handlers with their parameters fixed.\<close>

definition handle_request ::
    "(NF3DepositRequest \<Rightarrow> string \<Rightarrow> ('s, 'e, 'a) dbm) \<Rightarrow> (NF3TransferRequest \<Rightarrow> string \<Rightarrow> ('s, 'e, 'a) dbm) \<Rightarrow>
     (NF3WithdrawRequest \<Rightarrow> string \<Rightarrow> ('s, 'e, 'a) dbm) \<Rightarrow> TransactionRequest \<Rightarrow> string \<Rightarrow> ('s, 'e, 'a) dbm" where
  "handle_request deposit transfer withdraw request request_id =
     (case request of
        DepositRequest r \<Rightarrow> deposit r request_id
      | TransferRequest r \<Rightarrow> transfer r request_id
      | WithdrawRequest r \<Rightarrow> withdraw r request_id)"

text \<open>One round of \<open>while let Some(request)\<close> of \<open>process_queue\<close>: the request, and what is published. A panic of the
  handler ends the task.\<close>

definition process_next ::
    "(TransactionRequest \<Rightarrow> string \<Rightarrow> ('z client_node_scheme, 'd handler_error failure, NotificationPayload) dbm) \<Rightarrow> bool \<Rightarrow>
     ('z client_node_scheme, 'd handler_error failure, (QueuedRequest \<times> NotificationPayload option) option) dbm" where
  "process_next handler webhook_is_empty = (\<lambda>w.
     (case queue w of
        [] \<Rightarrow> (Inr None, w)
      | request # rest \<Rightarrow>
          bindM (update_request (qr_uuid request) Processing) (\<lambda>_ w1.
          (case handler (qr_transaction_request request) (qr_uuid request) w1 of
             (Inr response, w2) \<Rightarrow>
               bindM (update_request (qr_uuid request) Submitted) (\<lambda>_.
               returnM (Some (request, if webhook_is_empty then None else Some response))) w2
           | (Inl Panics, w2) \<Rightarrow> (Inl Panics, w2)
           | (Inl (Fails e), w2) \<Rightarrow>
               bindM (update_request (qr_uuid request) Failed) (\<lambda>_. returnM (Some (request, None))) w2))
          (w\<lparr>queue := rest\<rparr>)))"

text \<open>The loop until the queue is empty, bounded by \<open>n\<close> rounds; the requests handled, in order.\<close>

fun process_requests ::
    "(TransactionRequest \<Rightarrow> string \<Rightarrow> ('z client_node_scheme, 'd handler_error failure, NotificationPayload) dbm) \<Rightarrow> bool \<Rightarrow> nat \<Rightarrow>
     ('z client_node_scheme, 'd handler_error failure, QueuedRequest list) dbm" where
  "process_requests handler webhook_is_empty 0 = returnM []"
| "process_requests handler webhook_is_empty (Suc n) =
     bindM (process_next handler webhook_is_empty) (\<lambda>r.
     case r of
       None \<Rightarrow> returnM []
     | Some (request, _) \<Rightarrow> bindM (process_requests handler webhook_is_empty n) (\<lambda>rs. returnM (request # rs)))"

section \<open>What the handlers keep\<close>

text \<open>A predicate on the state that survives everything the handlers write: new requests and their states, new
  mappings, commitments marked as being spent and new commitments.\<close>

locale client_frame =
  fixes I :: "'z client_db_scheme \<Rightarrow> bool"
  assumes call: "I w \<Longrightarrow> faults w = b # bs \<Longrightarrow> I (w\<lparr>faults := bs\<rparr>)"
    and new_request: "I w \<Longrightarrow> I (w\<lparr>requests := requests w @ [r]\<rparr>)"
    and status: "I w \<Longrightarrow> I (w\<lparr>requests := update_first (\<lambda>r. req_uuid r = i) (\<lambda>r. r\<lparr>req_status := st\<rparr>) (requests w)\<rparr>)"
    and new_mapping: "I w \<Longrightarrow> I (w\<lparr>mappings := mappings w @ [m]\<rparr>)"
    and marking: "I w \<Longrightarrow> I (w\<lparr>commitments := update_many (\<lambda>e. ce_key e \<in> K) (\<lambda>e. e\<lparr>ce_status := PendingSpend\<rparr>) (commitments w)\<rparr>)"
    and new_commitments: "I w \<Longrightarrow> I (w\<lparr>commitments := commitments w @ es\<rparr>)"
begin

lemma call_kept: "(\<And>w. I w \<Longrightarrow> I (snd (f w))) \<Longrightarrow> keeps I (db_call e f)"
  by (rule keeps_db_call [where I = I]) (auto intro: call)

lemma read_kept [keeps_intros]: "keeps I (db_read e f)"
  unfolding db_read_def by (rule call_kept) simp

lemma write_kept: "(\<And>w. I w \<Longrightarrow> I (f w)) \<Longrightarrow> keeps I (db_write e f)"
  unfolding db_write_def by (rule call_kept) simp

lemma insert_kept: "(\<And>w. I w \<Longrightarrow> I (f w)) \<Longrightarrow> keeps I (db_insert e d f)"
  unfolding db_insert_def by (intro keeps_bindM call_kept keeps_pure) simp

lemma requests_kept [keeps_intros]:
  "keeps I (store_request i st)" "keeps I (update_request i st)" "keeps I (add_mapping i h)"
  unfolding store_request_def update_request_def add_mapping_def
  by (intro keeps_wrapped write_kept new_request status new_mapping; assumption)+

lemma commitment_reads_kept [keeps_intros]:
  "keeps I (get_available_commitments t)" "keeps I (get_commitment k)"
  unfolding get_available_commitments_def get_commitment_def get_all_commitments_def
  by (intro keeps_intros)+

lemma mark_kept [keeps_intros]: "keeps I (mark_commitments_pending_spend ks)"
  unfolding mark_commitments_pending_spend_def mark_many_def
  by (intro keeps_bindO keeps_wrapped write_kept marking keeps_pure; assumption)

lemma store_commitment_kept [keeps_intros]: "keeps I (store_commitment c)"
  unfolding store_commitment_def by (intro keeps_wrapped insert_kept new_commitments; assumption)

lemma store_commitments_kept [keeps_intros]: "keeps I (store_commitments k cs d)"
proof -
  have "keeps I (db_call () (\<lambda>w. case insert_many cs (commitments w) of (ok, stored) \<Rightarrow> (ok, w\<lparr>commitments := stored\<rparr>)))"
  proof (rule call_kept)
    fix w assume w: "I w"
    obtain xs b where "insert_many cs (commitments w) = (b, commitments w @ xs)"
      using insert_many_split [of cs "commitments w"] by metis
    then show "I (snd (case insert_many cs (commitments w) of (ok, stored) \<Rightarrow> (ok, w\<lparr>commitments := stored\<rparr>)))"
      using new_commitments [OF w] by simp
  qed
  then show ?thesis
    unfolding store_commitments_def
    by (intro keeps_intros) (auto intro!: keeps_intros split: option.split bool.split mongo_error.split)
qed

lemma tree_reads_kept [keeps_intros]:
  "keeps I get_root" "keeps I (get_membership_proof v j)"
proof -
  have node: "keeps I (get_node k)" for k unfolding get_node_def by (intro keeps_intros)
  have path: "keeps I (read_siblings n q)" for n q
    by (induction n arbitrary: q) (auto intro!: keeps_intros node)
  show "keeps I get_root" "keeps I (get_membership_proof v j)"
    unfolding get_root_def get_membership_proof_def read_metadata_def Let_def
    by (auto intro!: keeps_intros node path split: prod.split option.split)
qed

lemma selection_kept [keeps_intros]: "keeps I (find_usable_commitments P t v)"
  unfolding find_usable_commitments_def verify_enough_commitments_def fetch_on_chain_commitments_def Let_def
  by (intro keeps_intros)

lemma operation_kept [keeps_intros]: "keeps I (client_operation env prove sp nw nk zk ek addr secs)"
proof -
  have "keeps I (membership_one env c)" for c unfolding membership_one_def by (intro keeps_intros)
  then show ?thesis
    unfolding client_operation_def membership_loop_def Let_def
    by (intro keeps_intros)
qed

lemma send_kept [keeps_intros]: "keeps I (process_transaction_offchain proposers i)"
  unfolding process_transaction_offchain_def Let_def by (intro keeps_intros)

lemma wrappers_kept [keeps_intros]:
  "keeps I m \<Longrightarrow> keeps I (customM m)" "keeps I n \<Longrightarrow> keeps I (needM n)" "keeps I (hexM r)" "keeps I (mustM y)"
  "keeps I (fr_hexM env s)" "keeps I (token_idM env a t)" "keeps I (contract_nf_address env)"
  unfolding customM_def needM_def hexM_def mustM_def fr_hexM_def token_idM_def contract_nf_address_def
  by (intro keeps_intros; assumption)+

lemma client_operation_handler_kept [keeps_intros]:
  "keeps I (handle_client_operation env prove proposers to_json sp nw ek addr secs i)"
proof -
  have "keeps I (change_entry env i p)" for p unfolding change_entry_def by (intro keeps_intros)
  then show ?thesis unfolding handle_client_operation_def Let_def by (intro keeps_intros)
qed

lemma handlers_kept:
  "keeps I (handle_deposit env appr escrow list_json secret dr i)"
  "keeps I (handle_transfer env prove proposers to_json rnd tr i)"
  "keeps I (handle_withdraw env prove proposers to_json withdraw_json rnd wr i)"
  unfolding handle_deposit_def handle_transfer_def handle_withdraw_def select_spend_def Let_def
  by (intro keeps_intros)+

end

section \<open>The frames\<close>

text \<open>Without faults there are none later; a stored request stays stored; the queue is not touched; what is being
  spent stays so, at its place in the collection.\<close>

definition being_spent_in :: "CommitmentEntry list \<Rightarrow> CommitmentEntry list \<Rightarrow> bool" where
  "being_spent_in es es' \<longleftrightarrow> length es \<le> length es' \<and>
     (\<forall>i<length es. ce_key (es' ! i) = ce_key (es ! i) \<and> ce_preimage (es' ! i) = ce_preimage (es ! i) \<and>
        (ce_status (es ! i) = PendingSpend \<longrightarrow> ce_status (es' ! i) = PendingSpend))"

lemma find_update_first:
  "find (\<lambda>r. req_uuid r = i) (update_first (\<lambda>r. req_uuid r = j) (\<lambda>r. r\<lparr>req_status := st\<rparr>) rs) =
     map_option (\<lambda>r. if i = j then r\<lparr>req_status := st\<rparr> else r) (find (\<lambda>r. req_uuid r = i) rs)"
  by (induction rs) (auto simp: option.map_ident)

lemma find_append: "find P (xs @ ys) = (case find P xs of None \<Rightarrow> find P ys | Some x \<Rightarrow> Some x)"
  by (induction xs) auto

interpretation healthy: client_frame "\<lambda>w. faults w = []"
  by unfold_locales simp_all

interpretation stored: client_frame "\<lambda>w. find (\<lambda>r. req_uuid r = i) (requests w) \<noteq> None" for i
  by unfold_locales (auto simp: find_update_first find_append split: option.splits)

interpretation queued: client_frame "\<lambda>w. queue w = q" for q
  by unfold_locales simp_all

interpretation spending: client_frame "\<lambda>w. being_spent_in es (commitments w)" for es
proof unfold_locales
  fix w :: "'z client_db_scheme" and K
  assume "being_spent_in es (commitments w)"
  then show "being_spent_in es (commitments
      (w\<lparr>commitments := update_many (\<lambda>e. ce_key e \<in> K) (\<lambda>e. e\<lparr>ce_status := PendingSpend\<rparr>) (commitments w)\<rparr>))"
    by (auto simp: being_spent_in_def update_many_def)
qed (auto simp: being_spent_in_def nth_append)

section \<open>Properties\<close>

text \<open>A commitment that is being spent is never released by a request: whatever a transfer or a withdrawal ends
  with (an error of the prover or of the database, all proposers unreachable), it is still being spent
  afterwards, so a request that fails after the selection keeps the selected commitments locked.\<close>

theorem failed_request_keeps_lock:
  assumes "m = handle_transfer env prove proposers to_json rnd tr request_id \<or>
      m = handle_withdraw env prove proposers to_json withdraw_json rnd wr request_id \<or>
      m = handle_deposit env appr escrow list_json secret dr request_id"
    "i < length (commitments w)" "ce_status (commitments w ! i) = PendingSpend"
  shows "i < length (commitments (snd (m w))) \<and> ce_key (commitments (snd (m w)) ! i) = ce_key (commitments w ! i) \<and>
    ce_status (commitments (snd (m w)) ! i) = PendingSpend"
proof -
  have "keeps (\<lambda>u. being_spent_in (commitments w) (commitments u)) m"
    using assms(1) by (elim disjE) (simp_all only: spending.handlers_kept)
  moreover have "being_spent_in (commitments w) (commitments w)" by (simp add: being_spent_in_def)
  ultimately have "being_spent_in (commitments w) (commitments (snd (m w)))" by (simp add: keeps_def)
  then show ?thesis using assms(2,3) by (auto simp: being_spent_in_def)
qed


definition client_handler ::
    "('b::zero, 'y) handler_env_scheme \<Rightarrow> (TokenType \<Rightarrow> fr254 \<Rightarrow> fr254 \<Rightarrow> 256 word \<Rightarrow> 't + unit) \<Rightarrow>
     (fr254 \<Rightarrow> fr254 \<Rightarrow> 256 word \<Rightarrow> fr254 \<Rightarrow> fr254 \<Rightarrow> DepositSecret \<Rightarrow> TokenType \<Rightarrow> 'n + fr254 \<times> fr254) \<Rightarrow>
     (string list \<Rightarrow> string option) \<Rightarrow> (string \<Rightarrow> DepositSecret) \<Rightarrow> ('b PrivateInputs \<Rightarrow> PublicInputs \<Rightarrow> ('p \<times> PublicInputs) option) \<Rightarrow>
     (string \<Rightarrow> string + (bool \<times> (nat \<Rightarrow> http_outcome)) list) \<Rightarrow> ('p ClientTransaction \<Rightarrow> string option) \<Rightarrow> (string \<Rightarrow> string option) \<Rightarrow>
     (string \<Rightarrow> 'b randomness) \<Rightarrow> TransactionRequest \<Rightarrow> string \<Rightarrow> ('z, ('t, 'n) deposit_error, NotificationPayload) handlerM" where
  "client_handler env appr escrow list_json secret prove proposers to_json withdraw_json rnd request request_id =
     handle_request (handle_deposit env appr escrow list_json (secret request_id))
       (handle_transfer env prove (proposers request_id) to_json (rnd request_id))
       (handle_withdraw env prove (proposers request_id) to_json withdraw_json (rnd request_id)) request request_id"

definition kept_by_handler :: "(TransactionRequest \<Rightarrow> string \<Rightarrow> ('z client_node_scheme, 'd handler_error failure, NotificationPayload) dbm) \<Rightarrow> bool" where
  "kept_by_handler h \<longleftrightarrow> (\<forall>r i. keeps (\<lambda>w. faults w = []) (h r i) \<and> (\<forall>q. keeps (\<lambda>w. queue w = q) (h r i)) \<and>
     (\<forall>j. keeps (\<lambda>w. find (\<lambda>r. req_uuid r = j) (requests w) \<noteq> None) (h r i)))"

lemma client_handler_kept:
  "kept_by_handler (client_handler env appr escrow list_json secret prove proposers to_json withdraw_json rnd)"
  unfolding kept_by_handler_def client_handler_def handle_request_def
  by (simp add: healthy.handlers_kept stored.handlers_kept queued.handlers_kept del: not_None_eq split: TransactionRequest.split)

lemma update_request_ok:
  "faults w = [] \<Longrightarrow> update_request i st w = (Inr (Some ()),
     w\<lparr>requests := update_first (\<lambda>r. req_uuid r = i) (\<lambda>r. r\<lparr>req_status := st\<rparr>) (requests w)\<rparr>)"
  by (simp add: update_request_def try_write_ok)

lemma process_next_ok:
  assumes "kept_by_handler h" "faults w = []" "queue w = q # qs" "find (\<lambda>r. req_uuid r = qr_uuid q) (requests w) \<noteq> None"
  defines "w1 \<equiv> w\<lparr>queue := qs, requests := update_first (\<lambda>r. req_uuid r = qr_uuid q) (\<lambda>r. r\<lparr>req_status := Processing\<rparr>) (requests w)\<rparr>"
  obtains (done') r w2 d where "h (qr_transaction_request q) (qr_uuid q) w1 = (r, w2)" "r \<noteq> Inl Panics"
    "fst (process_next h b w) = Inr (Some (q, case r of Inr x \<Rightarrow> if b then None else Some x | Inl _ \<Rightarrow> None))"
    "faults (snd (process_next h b w)) = []" "queue (snd (process_next h b w)) = qs"
    "find (\<lambda>r. req_uuid r = qr_uuid q) (requests (snd (process_next h b w))) = Some d"
    "req_status d = (case r of Inr _ \<Rightarrow> Submitted | Inl _ \<Rightarrow> Failed)"
  | (panic) w2 where "h (qr_transaction_request q) (qr_uuid q) w1 = (Inl Panics, w2)" "fst (process_next h b w) = Inl Panics"
proof -
  have f1: "faults w1 = []" "queue w1 = qs" "find (\<lambda>r. req_uuid r = qr_uuid q) (requests w1) \<noteq> None"
    using assms(2,4) by (simp_all add: w1_def find_update_first)
  obtain r w2 where h: "h (qr_transaction_request q) (qr_uuid q) w1 = (r, w2)" by force
  have f2: "faults w2 = []" "queue w2 = qs" "find (\<lambda>r. req_uuid r = qr_uuid q) (requests w2) \<noteq> None"
    using assms(1) f1 h unfolding kept_by_handler_def keeps_def by (metis snd_conv)+
  have run: "process_next h b w = (case r of
      Inr x \<Rightarrow> (Inr (Some (q, if b then None else Some x)), w2\<lparr>requests := update_first (\<lambda>r. req_uuid r = qr_uuid q) (\<lambda>r. r\<lparr>req_status := Submitted\<rparr>) (requests w2)\<rparr>)
    | Inl Panics \<Rightarrow> (Inl Panics, w2)
    | Inl (Fails e) \<Rightarrow> (Inr (Some (q, None)), w2\<lparr>requests := update_first (\<lambda>r. req_uuid r = qr_uuid q) (\<lambda>r. r\<lparr>req_status := Failed\<rparr>) (requests w2)\<rparr>))"
    using assms(2,3) h by (simp add: process_next_def bindM_def update_request_ok f2(1) w1_def [symmetric] returnM_def
        split: sum.split failure.split)
  show thesis
  proof (cases "r = Inl Panics")
    case True
    then show thesis using panic h run by simp
  next
    case False
    obtain d where d: "find (\<lambda>r. req_uuid r = qr_uuid q) (requests w2) = Some d" using f2(3) by blast
    show thesis
      by (rule done' [OF h False, where d = "d\<lparr>req_status := (case r of Inr _ \<Rightarrow> Submitted | Inl _ \<Rightarrow> Failed)\<rparr>"])
        (use False f2 d in \<open>auto simp: run find_update_first split: sum.split failure.split\<close>)
  qed
qed

text \<open>C28. The end of a queued request: when its handler returns, the request has left the queue and its stored state is
  \<open>Submitted\<close> if the handler succeeded and \<open>Failed\<close> otherwise. In particular the state
  \<open>ProposerUnreachable\<close> that was written while sending is always replaced.\<close>

theorem request_outcome:
  assumes "h = client_handler env appr escrow list_json secret prove proposers to_json withdraw_json rnd"
    "faults w = []" "queue w = q # qs" "find (\<lambda>r. req_uuid r = qr_uuid q) (requests w) \<noteq> None"
    "process_next h webhook_is_empty w = (Inr out, w')"
  shows "let w1 = w\<lparr>queue := qs, requests := update_first (\<lambda>r. req_uuid r = qr_uuid q) (\<lambda>r. r\<lparr>req_status := Processing\<rparr>) (requests w)\<rparr>;
             r = fst (h (qr_transaction_request q) (qr_uuid q) w1)
         in queue w' = qs \<and> out = Some (q, case r of Inr x \<Rightarrow> if webhook_is_empty then None else Some x | Inl _ \<Rightarrow> None) \<and>
            (\<exists>doc. find (\<lambda>d. req_uuid d = qr_uuid q) (requests w') = Some doc \<and>
               req_status doc = (case r of Inr _ \<Rightarrow> Submitted | Inl _ \<Rightarrow> Failed))"
proof -
  have "kept_by_handler h" unfolding assms(1) by (rule client_handler_kept)
  then show ?thesis
    by (rule process_next_ok [OF _ assms(2,3,4), where b = webhook_is_empty]) (use assms(5) in \<open>auto simp: Let_def\<close>)
qed

lemma update_request_total: "\<exists>x u. update_request i st w = ((Inr x :: 'e failure + unit option), u) \<and> queue u = queue w"
proof -
  obtain x :: "'e failure + unit option" and u where u: "update_request i st w = (x, u)" by force
  have "keeps (\<lambda>v. queue v = queue w) (update_request i st :: ('a client_node_scheme, 'e failure, unit option) dbm)" by (rule queued.requests_kept)
  then have "queue u = queue w" using u unfolding keeps_def by (metis snd_conv)
  moreover have "\<exists>y. x = Inr y" using u by (auto simp: update_request_def tryM_def split: prod.splits sum.splits)
  ultimately show ?thesis using u by auto
qed

lemma process_next_run:
  fixes h :: "TransactionRequest \<Rightarrow> string \<Rightarrow> ('z client_node_scheme, 'd handler_error failure, NotificationPayload) dbm"
  assumes "queue w = q # qs" "update_request (qr_uuid q) Processing (w\<lparr>queue := qs\<rparr>) = ((Inr x :: 'd handler_error failure + unit option), w1)"
    "h (qr_transaction_request q) (qr_uuid q) w1 = (r, w2)"
    "update_request (qr_uuid q) Submitted w2 = ((Inr y :: 'd handler_error failure + unit option), u)" "update_request (qr_uuid q) Failed w2 = ((Inr z :: 'd handler_error failure + unit option), v)"
  shows "process_next h b w =
    (case r of
       Inr response \<Rightarrow> (Inr (Some (q, if b then None else Some response)), u)
     | Inl Panics \<Rightarrow> (Inl Panics, w2)
     | Inl (Fails e) \<Rightarrow> (Inr (Some (q, None)), v))"
  using assms by (simp add: process_next_def bindM_def returnM_def split: sum.split failure.split)

lemma process_next_cases:
  fixes h :: "TransactionRequest \<Rightarrow> string \<Rightarrow> ('z client_node_scheme, 'd handler_error failure, NotificationPayload) dbm"
  assumes "kept_by_handler h" "queue w = q # qs"
  shows "fst (process_next h b w) = Inl Panics \<or>
    (\<exists>p w'. process_next h b w = (Inr (Some (q, p)), w') \<and> queue w' = qs)"
proof -
  obtain x w1 where w1: "update_request (qr_uuid q) Processing (w\<lparr>queue := qs\<rparr>) = ((Inr x :: 'd handler_error failure + unit option), w1)" "queue w1 = qs"
    using update_request_total [of "qr_uuid q" Processing "w\<lparr>queue := qs\<rparr>"] by auto
  obtain r w2 where h: "h (qr_transaction_request q) (qr_uuid q) w1 = (r, w2)" by force
  have q2: "queue w2 = qs"
    using assms(1) w1(2) h unfolding kept_by_handler_def keeps_def by (metis snd_conv)
  obtain y u where u: "update_request (qr_uuid q) Submitted w2 = ((Inr y :: 'd handler_error failure + unit option), u)" "queue u = qs"
    using update_request_total [of "qr_uuid q" Submitted w2] q2 by auto
  obtain z v where v: "update_request (qr_uuid q) Failed w2 = ((Inr z :: 'd handler_error failure + unit option), v)" "queue v = qs"
    using update_request_total [of "qr_uuid q" Failed w2] q2 by auto
  show ?thesis
    unfolding process_next_run [of w q qs x w1 h r w2 y u z v b, OF assms(2) w1(1) h u(1) v(1)]
    using u(2) v(2) by (auto split: sum.split failure.split)
qed

lemma process_requests_ok:
  assumes "kept_by_handler h"
  shows "length (queue w) \<le> n \<Longrightarrow> process_requests h b n w = (Inr rs, w') \<Longrightarrow> rs = queue w \<and> queue w' = []"
proof (induction n arbitrary: w rs)
  case 0
  then show ?case by (simp add: returnM_def)
next
  case (Suc n)
  show ?case
  proof (cases "queue w")
    case Nil
    then show ?thesis using Suc.prems(2) by (simp add: bindM_def process_next_def returnM_def)
  next
    case (Cons q qs)
    obtain p w1 where n: "process_next h b w = (Inr (Some (q, p)), w1)" "queue w1 = qs"
      using process_next_cases [of h w q qs b, OF assms Cons] Suc.prems(2) by (auto simp: bindM_def split: prod.splits)
    obtain rs' where "process_requests h b n w1 = (Inr rs', w')" "rs = q # rs'"
      using Suc.prems(2) n(1) by (auto simp: bindM_eq_Inr returnM_def)
    then show ?thesis using Suc.IH [of w1 rs'] Suc.prems(1) Cons n(2) by simp
  qed
qed

text \<open>The loop over the queue ends with an empty queue after at most as many rounds as there were requests,
  whatever the database does, and has handled each of them once, in the order they came; the only other
  outcome is a panic of a handler.\<close>

theorem queue_is_drained:
  assumes "h = client_handler env appr escrow list_json secret prove proposers to_json withdraw_json rnd"
    "length (queue w) \<le> n"
  shows "case process_requests h webhook_is_empty n w of
      (Inr rs, w') \<Rightarrow> rs = queue w \<and> queue w' = []
    | (Inl e, w') \<Rightarrow> e = Panics"
proof -
  have h: "kept_by_handler h" unfolding assms(1) by (rule client_handler_kept)
  have no: "fst (process_next h webhook_is_empty u) \<noteq> Inl (Fails e)" for u e
  proof (cases "queue u")
    case (Cons q qs)
    then show ?thesis using process_next_cases [of h u q qs webhook_is_empty, OF h] by auto
  qed (simp add: process_next_def)
  have "fst (process_requests h webhook_is_empty n u) \<noteq> Inl (Fails e)" for u e
  proof (induction n arbitrary: u)
    case (Suc n)
    then show ?case
      using no [of u e] by (auto simp: bindM_def returnM_def split: prod.splits sum.splits option.splits) (metis fst_conv)+
  qed (simp add: returnM_def)
  then show ?thesis
    using process_requests_ok [OF h assms(2)] by (auto split: prod.split sum.split) (metis failure.exhaust fst_conv)
qed


section \<open>Sending\<close>

definition accepted :: "http_outcome \<Rightarrow> bool" where
  "accepted r \<longleftrightarrow> (case r of HttpStatus s _ \<Rightarrow> 200 \<le> s \<and> s < 300 | NetworkError _ \<Rightarrow> False)"

definition try_again :: "http_outcome \<Rightarrow> bool" where
  "try_again r \<longleftrightarrow> (case r of HttpStatus s _ \<Rightarrow> retriable_status s | NetworkError b \<Rightarrow> b)"

text \<open>What the last attempt makes of the answer: success, or the error with the flag that says whether it is worth trying again.\<close>

definition last_answer :: "http_outcome \<Rightarrow> proposer_error \<times> bool + unit" where
  "last_answer r = (if accepted r then Inr ()
     else case r of HttpStatus s body \<Rightarrow> Inl (HttpRejected s body, retriable_status s) | NetworkError _ \<Rightarrow> Inl (NetworkFailure, True))"

lemma accepted_not_again: "accepted r \<Longrightarrow> \<not> try_again r"
  by (auto simp: accepted_def try_again_def retriable_status_def split: http_outcome.splits)

lemma send_loop_step:
  assumes "a \<le> n"
  shows "send_loop send n b [a..<n + 1] =
    (if try_again (send a) \<and> a < n
     then (fst (send_loop send n b [Suc a..<n + 1]), b * 2 ^ (a - 1) # snd (send_loop send n b [Suc a..<n + 1]))
     else (last_answer (send a), []))"
proof -
  have l: "[a..<n + 1] = a # [Suc a..<n + 1]" using assms by (simp add: upt_rec [of a])
  show ?thesis
    unfolding l by (cases "send a")
      (auto simp: Let_def last_answer_def accepted_def try_again_def retriable_status_def simp del: upt_Suc split: prod.splits)
qed

lemma send_loop_from:
  "a \<le> n \<Longrightarrow> 1 \<le> a \<Longrightarrow>
   \<exists>k. a + k \<le> n \<and> (\<forall>j. a \<le> j \<and> j < a + k \<longrightarrow> try_again (send j)) \<and> (a + k = n \<or> \<not> try_again (send (a + k))) \<and>
     send_loop send n b [a..<n + 1] = (last_answer (send (a + k)), map (\<lambda>j. b * 2 ^ (j - 1)) [a..<a + k])"
proof (induction "n - a" arbitrary: a)
  case 0
  then show ?case using send_loop_step [of a n send b] by (auto intro: exI [of _ 0])
next
  case (Suc d)
  have "d = n - Suc a" "Suc a \<le> n" "1 \<le> Suc a" using Suc.hyps(2) by linarith+
  from Suc.hyps(1) [OF this] obtain k where k: "Suc a + k \<le> n" "\<forall>j. Suc a \<le> j \<and> j < Suc a + k \<longrightarrow> try_again (send j)" "Suc a + k = n \<or> \<not> try_again (send (Suc a + k))"
    "send_loop send n b [Suc a..<n + 1] = (last_answer (send (Suc a + k)), map (\<lambda>j. b * 2 ^ (j - 1)) [Suc a..<Suc a + k])"
    by blast
  show ?case
  proof (cases "try_again (send a)")
    case True
    have "\<forall>j. a \<le> j \<and> j < a + Suc k \<longrightarrow> try_again (send j)" using k(2) True by (metis Suc_leI add_Suc_shift le_neq_implies_less)
    then show ?thesis
      using send_loop_step [of a n send b] k(1,3,4) True Suc.hyps(2)
      by (intro exI [of _ "Suc k"]) (simp add: upt_rec [of a])
  qed (use send_loop_step [of a n send b] Suc.prems in \<open>auto intro: exI [of _ 0]\<close>)
qed

text \<open>C40. Sending to a proposer, with at least one attempt allowed (the programs allow three; the model does not bound the pauses, which the code
  computes in 32 bits). A URL that is not right is an error without any attempt. Otherwise the first \<open>k\<close> attempts end with a time-out, a
  connection error or a gateway error, each followed by a pause, the first one the initial pause and each the double of the one before; the next attempt is the last one, because all of
  them are used up or because its answer is no such failure, and it decides: it succeeds exactly when it is accepted, and otherwise the caller
  learns the answer, and whether it is worth trying again. So the answer that all attempts are exhausted is never given.\<close>

theorem send_retries:
  assumes "1 \<le> n"
  shows "if url_ok
    then \<exists>k<n. (\<forall>j. 1 \<le> j \<and> j \<le> k \<longrightarrow> try_again (send j)) \<and> (k + 1 = n \<or> \<not> try_again (send (k + 1))) \<and>
      send_to_proposer_with_retry url_ok send n b = (last_answer (send (k + 1)), map (\<lambda>j. b * 2 ^ j) [0..<k])
    else send_to_proposer_with_retry url_ok send n b = (Inl (InvalidUrl, False), [])"
proof -
  obtain k where k: "1 + k \<le> n" "\<forall>j. 1 \<le> j \<and> j < 1 + k \<longrightarrow> try_again (send j)" "1 + k = n \<or> \<not> try_again (send (1 + k))"
    "send_loop send n b [1..<n + 1] = (last_answer (send (1 + k)), map (\<lambda>j. b * 2 ^ (j - 1)) [1..<1 + k])"
    using send_loop_from [of 1 n send b, OF assms le_refl] by blast
  have "map (\<lambda>j. b * 2 ^ (j - 1)) [1..<1 + k] = map (\<lambda>j. b * 2 ^ j) [0..<k]"
    by (simp add: map_Suc_upt [symmetric] o_def del: upt_Suc)
  then show ?thesis
    using k by (auto simp: send_to_proposer_with_retry_def simp del: upt_Suc intro!: exI [of _ k])
qed

section \<open>The change\<close>

lemma find_usable_covers:
  assumes "faults w = []" "poseidon_ok P" "0 < t" "no_overflow (map ce_preimage (available tok w))"
    "find_usable_commitments P tok t w = (Inr ps, w')"
  shows "fr_val t \<le> cover ps" "no_overflow ps" "length ps = 2" "w' = marked P ps w"
proof -
  let ?cs = "sort_key pre_value (map ce_preimage (available tok w))"
  have cs: "sorted (map pre_value ?cs)" "no_overflow ?cs" using assms(4) by (simp_all add: no_overflow_sort)
  obtain mn where s: "select_commitment ?cs t mn (if length ?cs < 2 then length ?cs else 2) = Inr ps"
    and mn: "calculate_minimum_commitments ?cs t = Inr mn"
    using assms(5) unfolding find_usable_eq [OF assms(1,2)] by (auto split: if_splits sum.splits)
  obtain S where S: "best_choice (fr_val t) ?cs S" "ps = S @ replicate (2 - length S) preimage_default"
    using select_best [OF cs assms(3) mn] s by (metis sum.inject(2))
  have "pre_value preimage_default = 0" by (simp add: preimage_default_def preimage_new_def)
  then have c: "cover ps = cover S" by (simp add: S(2) cover_def sum_list_replicate)
  show "fr_val t \<le> cover ps" using S(1) by (simp add: c best_choice_def)
  have "no_overflow S" using S(1) choice_no_overflow [OF cs(2)] by (simp add: best_choice_def)
  then show "no_overflow ps" using c by (simp add: no_overflow_def cover_def)
  show "length ps = 2" "w' = marked P ps w" using find_usable_Inr [OF assms(1,2,5)] by simp_all
qed

lemma fr_val_sum: "no_overflow ps \<Longrightarrow> fr_val (sum_list (map pre_value ps)) = cover ps"
proof (induction ps)
  case (Cons p ps)
  have "cover (p # ps) < fr_modulus" using Cons.prems half_less by (simp add: no_overflow_def cover_def)
  moreover have "no_overflow ps" using Cons.prems by (simp add: no_overflow_def)
  ultimately show ?case using Cons.IH by (simp add: fr_val_plus cover_def)
qed (simp add: cover_def)

text \<open>The spendable commitments of a database are small enough that sums do not wrap.\<close>

definition sums_fit :: "'z client_db_scheme \<Rightarrow> bool" where
  "sums_fit w \<longleftrightarrow> (\<forall>tok. no_overflow (map ce_preimage (available tok w)))"

lemma sums_fit_marked: "sums_fit w \<Longrightarrow> sums_fit (marked P ps w)"
proof -
  have le: "sum_list (map f (filter Q xs)) \<le> sum_list (map f xs)" for f :: "CommitmentEntry \<Rightarrow> nat" and Q xs
    by (induction xs) auto
  show "sums_fit w \<Longrightarrow> sums_fit (marked P ps w)"
    unfolding sums_fit_def no_overflow_def available_after_marking map_map using le order.trans by blast
qed

lemma customM_Inr: "customM m w = (Inr x, w') \<longleftrightarrow> m w = (Inr x, w')"
  by (auto simp: customM_def map_errM_def split: prod.splits sum.splits)

lemma select_spend_covers:
  assumes "faults w = []" "poseidon_ok (env_poseidon env)" "sums_fit w" "0 < value"
    "select_spend env tok value fee w = ((Inr sp :: 'd handler_error failure + Preimage list), w')"
  shows "length sp = 4" "fr_val value \<le> cover (take 2 sp)" "fr_val fee \<le> cover (drop 2 sp)"
    "no_overflow (take 2 sp)" "no_overflow (drop 2 sp)"
proof -
  let ?fee = "\<lambda>u. ((if fee = 0 then returnM [preimage_default, preimage_default]
            else customM (find_usable_commitments (env_poseidon env) (env_fee_token_id env) fee)) u) :: ('d handler_error failure + Preimage list) \<times> _"
  obtain ps w1 where ps: "find_usable_commitments (env_poseidon env) tok value w = (Inr ps, w1)"
    and rest: "bindM ?fee (\<lambda>fs. returnM [ps ! 0, ps ! 1, fs ! 0, fs ! 1]) w1 = (Inr sp, w')"
    using assms(5) unfolding select_spend_def bindM_eq_Inr [of "customM (find_usable_commitments _ _ value)"] customM_Inr by blast
  obtain qs w2 where q2: "?fee w1 = (Inr qs, w2)" "returnM [ps ! 0, ps ! 1, qs ! 0, qs ! 1] w2 = ((Inr sp :: 'd handler_error failure + Preimage list), w')"
    using rest unfolding bindM_eq_Inr by blast
  have qs: "?fee w1 = (Inr qs, w')" and sp: "sp = [ps ! 0, ps ! 1, qs ! 0, qs ! 1]"
    using q2 by (auto simp: returnM_def)
  have fit: "no_overflow (map ce_preimage (available k w))" for k using assms(3) by (simp add: sums_fit_def)
  note p = find_usable_covers [OF assms(1,2,4) fit ps]
  have q: "length qs = 2 \<and> fr_val fee \<le> cover qs \<and> no_overflow qs"
  proof (cases "fee = 0")
    case True
    then show ?thesis
      using qs by (auto simp: returnM_def cover_def preimage_default_def preimage_new_def no_overflow_def)
  next
    case False
    have w1: "faults w1 = []" "sums_fit w1"
      using assms(1) sums_fit_marked [OF assms(3)] unfolding p(4) by (simp add: marked_def, blast)
    have run: "find_usable_commitments (env_poseidon env) (env_fee_token_id env) fee w1 = (Inr qs, w')"
      using qs False by (simp add: customM_Inr)
    have pos: "0 < fee" using False by (simp add: fr_neq_zero)
    have "no_overflow (map ce_preimage (available (env_fee_token_id env) w1))" using w1(2) by (simp add: sums_fit_def)
    then show ?thesis using find_usable_covers [OF w1(1) assms(2) pos _ run] by blast
  qed
  have two: "[xs ! 0, xs ! 1] = xs" if "length xs = 2" for xs :: "Preimage list"
    using that by (cases xs; cases "tl xs") auto
  have "take 2 sp = ps" "drop 2 sp = qs" using two [OF p(3)] two [of qs] q sp by simp_all
  then show "length sp = 4" "fr_val value \<le> cover (take 2 sp)" "fr_val fee \<le> cover (drop 2 sp)"
    "no_overflow (take 2 sp)" "no_overflow (drop 2 sp)" using p q sp by simp_all
qed

text \<open>C30. The change of a transfer or withdrawal is exact: when the spendable commitments do not sum to half of the
  field, the new commitments made for a successful selection give value plus change equal to what the first two
  commitments hold and fee plus change of the fee equal to what the other two hold, as integers; so no
  subtraction wraps, and the conservation check of \<open>client_operation\<close> passes.\<close>

theorem change_is_exact:
  assumes "faults w = []" "poseidon_ok (env_poseidon env)" "sums_fit w" "0 < value"
    "select_spend env tok value fee w = (Inr sp, w')"
    "new = make_commitments env rnd contract first_key first_salt tok value fee sp"
  shows "fr_val (pre_value (new ! 0)) = fr_val value \<and> fr_val (pre_value (new ! 2)) = fr_val fee \<and>
    fr_val value + fr_val (pre_value (new ! 1)) = cover (take 2 sp) \<and>
    fr_val fee + fr_val (pre_value (new ! 3)) = cover (drop 2 sp) \<and> value_conserved sp new"
proof -
  note S = select_spend_covers [OF assms(1-5)]
  have def: "pre_value preimage_default = 0" by (simp add: preimage_default_def preimage_new_def)
  let ?v = "sum_list (map pre_value (take 2 sp))" and ?f = "sum_list (map pre_value (drop 2 sp))"
  have vals: "map pre_value new = [value, ?v - value, fee, ?f - fee]"
    unfolding assms(6) make_commitments_def Let_def by (simp add: preimage_new_def def)
  have n: "length new = 4" using arg_cong [OF vals, of length] by simp
  have nth: "pre_value (new ! i) = [value, ?v - value, fee, ?f - fee] ! i" if "i < 4" for i
    using that n vals by (metis nth_map)
  have le: "value \<le> ?v" "fee \<le> ?f" using S by (simp_all add: less_eq_fr254_def fr_val_sum)
  have minus: "fr_val (?v - value) = cover (take 2 sp) - fr_val value" "fr_val (?f - fee) = cover (drop 2 sp) - fr_val fee"
    using fr_val_minus_le [OF le(1)] fr_val_minus_le [OF le(2)] S by (simp_all add: fr_val_sum)
  have "map pre_value (take 2 new) = [value, ?v - value]" "map pre_value (drop 2 new) = [fee, ?f - fee]"
    using vals by (simp_all add: take_map [symmetric] drop_map [symmetric])
  then have "value_conserved sp new" by (simp add: value_conserved_def fr_add_diff)
  then show ?thesis using nth [of 0] nth [of 1] nth [of 2] nth [of 3] minus S by simp
qed

section \<open>Witnesses\<close>

definition henv_ex :: "nat handler_env" where
  "henv_ex = \<lparr>env_poseidon = first_hash, env_verify = (\<lambda>p r. path_root (+) (node_value p) (sibling_path p) = r),
     env_default_proof = \<lparr>node_value = 0, sibling_path = [], leaf_index = 0\<rparr>, env_generator = te_zero, env_nf_address = 7,
     env_bjj_into = (\<lambda>n. n), env_zkp_private_key = 5, env_zkp_public_key = te_zero, env_nullifier_key = 1,
     env_fee_token_id = fr 2, env_enc = (\<lambda>bs. concat (map hex02 bs)), env_dec = hex_decode_ex, env_sha256 = (\<lambda>bs. take 32 bs),
     env_parse_key = (\<lambda>s. Inr te_zero), env_times = (\<lambda>p n. p), env_quote = (\<lambda>s. s), env_dup_kind = WriteError 11000\<rparr>"

definition rnd_ex :: "nat randomness" where
  "rnd_ex = \<lparr>rnd_ephemeral_key = 3, rnd_salt_value = 1, rnd_salt_change = 1, rnd_salt_fee = 1, rnd_salt_fee_change = 1\<rparr>"

definition transfer_ex :: NF3TransferRequest where
  "transfer_ex = \<lparr>tr_erc_address = ''0102'', tr_token_id = ''00'', tr_recipient_data = \<lparr>rd_values = [], rd_keys = []\<rparr>, tr_fee = ''00''\<rparr>"

definition deposit_ex :: NF3DepositRequest where
  "deposit_ex = \<lparr>dep_erc_address = ''xyz'', dep_token_id = ''00'', dep_token_type = ''0'', dep_value = ''01'', dep_fee = ''01'',
     dep_deposit_fee = ''01''\<rparr>"

definition node_ex :: client_node where
  "node_ex = \<lparr>faults = [], metadata = None, nodes = [], cache = [], blocks = [],
     requests = [\<lparr>req_status = Queued, req_uuid = ''id''\<rparr>], mappings = [], commitments = [], withdrawals = [],
     queue = [\<lparr>qr_transaction_request = DepositRequest deposit_ex, qr_uuid = ''id''\<rparr>]\<rparr>"

definition handler_ex :: "TransactionRequest \<Rightarrow> string \<Rightarrow> (client_node, (unit, unit) deposit_error handler_error failure, NotificationPayload) dbm" where
  "handler_ex = client_handler henv_ex (\<lambda>_ _ _ _. Inr ()) (\<lambda>_ _ _ _ _ _ _. Inr (1, 1)) (\<lambda>_. Some ''[]'') (\<lambda>_. deposit_secret_default)
     (\<lambda>pri pub. Some ((), pub)) (\<lambda>_. Inr []) (\<lambda>_. Some ''{}'') (\<lambda>_. Some ''{}'') (\<lambda>_. rnd_ex)"

theorem failed_request_keeps_lock_witness:
  "ce_status (commitments (snd ((handle_transfer henv_ex (\<lambda>pri pub. Some ((), pub)) (Inr []) (\<lambda>_. Some ''{}'') rnd_ex transfer_ex ''id''
       :: (unit, (unit, unit) deposit_error, NotificationPayload) handlerM)
     (client_ex [(purse 1 5)\<lparr>ce_status := PendingSpend\<rparr>]))) ! 0) = PendingSpend"
  by (rule failed_request_keeps_lock [where env = henv_ex and proposers = "Inr []" and rnd = rnd_ex and tr = transfer_ex and request_id = "''id''",
        THEN conjunct2, THEN conjunct2], rule disjI1, rule refl) (simp_all add: client_ex_def)

text \<open>The first attempt meets a busy gateway, the second one is accepted.\<close>

theorem send_retries_witness:
  "send_to_proposer_with_retry True (\<lambda>a. if a = 1 then HttpStatus 503 [] else HttpStatus 202 []) 3 500 = (Inr (), [500])"
proof -
  let ?send = "\<lambda>a :: nat. if a = 1 then HttpStatus 503 [] else HttpStatus 202 []"
  have t: "last_answer (HttpStatus 202 []) = Inr ()" "try_again (HttpStatus 503 [])" "\<not> try_again (HttpStatus 202 [])"
    by (simp_all add: last_answer_def accepted_def try_again_def retriable_status_def)
  obtain k where k: "k < 3" "\<forall>j. 1 \<le> j \<and> j \<le> k \<longrightarrow> try_again (?send j)" "k + 1 = 3 \<or> \<not> try_again (?send (k + 1))"
    "send_to_proposer_with_retry True ?send 3 500 = (last_answer (?send (k + 1)), map (\<lambda>j. 500 * 2 ^ j) [0..<k])"
    using send_retries [of 3 True ?send 500] by auto
  have "k \<noteq> 0" using k(3) t(2) by (intro notI) simp
  moreover have "k < 2" using k(2) t(3) by (auto simp: not_less dest: spec [of _ 2] intro: ccontr)
  ultimately have "k = 1" by simp
  then show ?thesis using k(4) t(1) by simp
qed

theorem change_is_exact_witness:
  "fr_val (fr 3) + fr_val (pre_value (make_commitments henv_ex rnd_ex te_zero te_zero salt_default (fr 1) (fr 3) 0 spend_ex ! 1)) =
     cover (take 2 spend_ex)"
proof -
  let ?w = "client_ex [purse 1 5, purse 2 7]"
  have f: "faults ?w = []" by (simp add: client_ex_def)
  have p: "poseidon_ok (env_poseidon henv_ex)" by (simp add: henv_ex_def poseidon_ok_first)
  have fit: "sums_fit ?w"
    by (auto simp: sums_fit_def no_overflow_def available_def client_ex_def purse_def fr_modulus_def)
  have v: "0 < fr 3" using fr_small(2) [of 0 3] by simp
  have "env_poseidon henv_ex = first_hash" by (simp add: henv_ex_def)
  then have "select_spend henv_ex (fr 1) (fr 3) 0 ?w =
      ((Inr spend_ex :: unit handler_error failure + Preimage list), marked first_hash [ce_preimage (purse 1 5), preimage_default] ?w)"
    using purse_first by (simp add: select_spend_def bindM_def customM_def map_errM_def returnM_def spend_ex_def)
  from change_is_exact [OF f p fit v this refl] show ?thesis by blast
qed

lemma deposit_ex_fails:
  "handler_ex (DepositRequest deposit_ex) i w = (Inl (Fails (CustomError ''Invalid string length'')), w)"
  by (simp add: handler_ex_def client_handler_def handle_request_def handle_deposit_def hexM_def deposit_ex_def erc_address_from_hex_def
      bytes_from_hex_string_def throwM_def henv_ex_def)

lemma node_ex_run:
  "process_next handler_ex True node_ex =
    (Inr (Some (\<lparr>qr_transaction_request = DepositRequest deposit_ex, qr_uuid = ''id''\<rparr>, None)),
     node_ex\<lparr>queue := [], requests := [\<lparr>req_status = Failed, req_uuid = ''id''\<rparr>]\<rparr>)"
  by (simp add: process_next_def node_ex_def bindM_def update_request_ok deposit_ex_fails returnM_def)

theorem request_outcome_witness:
  "\<exists>doc. find (\<lambda>d. req_uuid d = ''id'') (requests (snd (process_next handler_ex True node_ex))) = Some doc \<and>
     (req_status doc = Submitted \<or> req_status doc = Failed)"
proof -
  have "faults node_ex = []" "queue node_ex = [\<lparr>qr_transaction_request = DepositRequest deposit_ex, qr_uuid = ''id''\<rparr>]"
    "find (\<lambda>r. req_uuid r = qr_uuid \<lparr>qr_transaction_request = DepositRequest deposit_ex, qr_uuid = ''id''\<rparr>) (requests node_ex) \<noteq> None"
    by (simp_all add: node_ex_def)
  from request_outcome [OF handler_ex_def this node_ex_run] show ?thesis
    unfolding node_ex_run by (auto simp: Let_def split: sum.splits)
qed

theorem queue_is_drained_witness:
  "case process_requests handler_ex True 1 node_ex of
      (Inr rs, w') \<Rightarrow> map qr_uuid rs = [''id''] \<and> queue w' = []
    | (Inl e, w') \<Rightarrow> e = Panics"
proof -
  have "length (queue node_ex) \<le> 1" by (simp add: node_ex_def)
  from queue_is_drained [OF handler_ex_def this, of True] show ?thesis
    by (auto simp: node_ex_def split: prod.splits sum.splits)
qed

end
