(* ===== verification/Kemdem.thy ===== *)
theory Kemdem
  imports Client_Entities
begin

text \<open>
  \<open>nightfall_client/src/driven/primitives/kemdem_functions.rs\<close>: the encryption of the secrets of a transfer
  and its decryption by the recipient. The scalar multiplication of baby Jubjub (\<open>smul\<close>), the decompression
  of a point (\<open>de_point\<close>) and Poseidon are parameters; the round trip needs of them that the two ways to
  compute the shared point agree and that a compressed point is read back. \<open>None\<close> is \<open>PoseidonError\<close>.
\<close>

definition DOMAIN_KEM :: fr254 where
  "DOMAIN_KEM = fr 21033365405711675223813179268586447041622169155539365736392974498519442361181"

definition DOMAIN_DEM :: fr254 where
  "DOMAIN_DEM = fr 1241463701002173366467794894814691939898321302682516549591039420117995599097"

definition kemdem_encrypt ::
    "poseidon \<Rightarrow> (TEAffine \<Rightarrow> 'b \<Rightarrow> TEAffine) \<Rightarrow> bool \<Rightarrow> 'b \<Rightarrow> TEAffine \<Rightarrow> fr254 list \<Rightarrow> TEAffine \<Rightarrow> fr254 list option" where
  "kemdem_encrypt poseidon smul is_withdraw ephemeral_private_key recipient_public_key plain_text public_point =
     (if length plain_text \<noteq> 3 then None
      else if is_withdraw then Some (plain_text @ [0, 0])
      else
        (let shared_secret = smul recipient_public_key ephemeral_private_key;
             ephemeral_public_key = smul public_point ephemeral_private_key
         in case poseidon [te_x shared_secret, te_y shared_secret, DOMAIN_KEM] of
              None \<Rightarrow> None
            | Some encryption_key \<Rightarrow>
                (case those (map (\<lambda>(i, plain). map_option (\<lambda>tmp. tmp + plain) (poseidon [encryption_key, DOMAIN_DEM, fr i]))
                        (enumerate 0 plain_text)) of
                   None \<Rightarrow> None
                 | Some cts \<Rightarrow>
                     (let x = te_x ephemeral_public_key; flag = (if x > - x then 1 else 0)
                      in Some (cts @ [te_y ephemeral_public_key, flag])))))"

text \<open>The slice of the first \<open>N\<close> elements panics when the cipher text is shorter; \<open>N\<close> is the length of the plain text.\<close>

definition kemdem_encrypt_fixed_array ::
    "poseidon \<Rightarrow> (TEAffine \<Rightarrow> 'b \<Rightarrow> TEAffine) \<Rightarrow> bool \<Rightarrow> 'b \<Rightarrow> TEAffine \<Rightarrow> fr254 list \<Rightarrow> TEAffine \<Rightarrow> fr254 list option" where
  "kemdem_encrypt_fixed_array poseidon smul is_withdraw ephemeral_private_key recipient_public_key plain_text public_point =
     map_option (take (length plain_text))
       (kemdem_encrypt poseidon smul is_withdraw ephemeral_private_key recipient_public_key plain_text public_point)"

definition kemdem_decrypt ::
    "poseidon \<Rightarrow> (TEAffine \<Rightarrow> 'b \<Rightarrow> TEAffine) \<Rightarrow> (byte list \<Rightarrow> TEAffine option) \<Rightarrow> 'b \<Rightarrow> fr254 list \<Rightarrow> fr254 list option" where
  "kemdem_decrypt poseidon smul de_point recipient_private_key cts =
     (let point_bytes = le_bytes 32 (fr_val (cts ! 3));
          flag = push_bit 7 (le_bytes 32 (fr_val (cts ! 4)) ! 0)
      in case de_point (point_bytes[31 := point_bytes ! 31 + flag]) of
           None \<Rightarrow> None
         | Some epk \<Rightarrow>
             (let shared_secret = smul epk recipient_private_key
              in case poseidon [te_x shared_secret, te_y shared_secret, DOMAIN_KEM] of
                   None \<Rightarrow> None
                 | Some decryption_key \<Rightarrow>
                     (case those (map (\<lambda>(i, cipher). map_option (\<lambda>tmp. cipher - tmp) (poseidon [decryption_key, DOMAIN_DEM, fr i]))
                             (enumerate 0 (take 3 cts))) of
                        None \<Rightarrow> None
                      | Some plain_text \<Rightarrow> Some (plain_text @ [te_y shared_secret]))))"

section \<open>The round trip\<close>

text \<open>The compressed form of a point: the bytes of \<open>y\<close>, and the top bit says that \<open>x\<close> is the larger one of \<open>x\<close> and \<open>- x\<close>.\<close>

definition compress_point :: "TEAffine \<Rightarrow> byte list" where
  "compress_point p =
     (let bs = le_bytes 32 (fr_val (te_y p)) in bs[31 := bs ! 31 + (if te_x p > - te_x p then 128 else 0)])"

lemma fr_add_sub: "(a + b) - a = (b :: fr254)"
proof -
  define k where "k = fr_modulus - fr_val a"
  have "fr_val a + k = fr_modulus" by (simp add: k_def less_imp_le)
  then have "fr_val a + fr_val b + k = fr_val b + fr_modulus" by linarith
  then have "((fr_val a + fr_val b) mod fr_modulus + k) mod fr_modulus = fr_val b"
    by (simp only: mod_add_left_eq mod_add_self2) simp
  then show ?thesis by (simp add: fr_val_inject_iff fr_val_plus fr_val_minus k_def)
qed

lemma flag_byte: "push_bit 7 (le_bytes 32 (fr_val (if b then 1 else 0)) ! 0) = (if b then 128 else 0)"
  by (cases b) (simp_all add: le_bytes_nth)

lemma kemdem_inverse:
  assumes "poseidon_ok poseidon" "length plain = 3" "de_point (compress_point (smul g esk)) = Some (smul g esk)"
    "smul (smul g esk) rsk = smul (smul g rsk) esk"
  shows "\<exists>ct. kemdem_encrypt poseidon smul False esk (smul g rsk) plain g = Some ct \<and> length ct = 5 \<and>
    kemdem_decrypt poseidon smul de_point rsk ct = Some (plain @ [te_y (smul (smul g rsk) esk)])"
proof -
  obtain a b c where plain: "plain = [a, b, c]" using assms(2) by (auto simp: numeral_eq_Suc length_Suc_conv)
  let ?s = "smul (smul g rsk) esk" and ?e = "smul g esk"
  have h: "\<exists>k. poseidon [x, y, z] = Some k" for x y z by (rule poseidon_okD [OF assms(1)]) simp
  obtain k where k: "poseidon [te_x ?s, te_y ?s, DOMAIN_KEM] = Some k" using h by blast
  obtain u0 u1 u2 where u: "poseidon [k, DOMAIN_DEM, fr 0] = Some u0" "poseidon [k, DOMAIN_DEM, fr 1] = Some u1"
    "poseidon [k, DOMAIN_DEM, fr 2] = Some u2" using h by metis
  define f :: fr254 where "f = (if te_x ?e > - te_x ?e then 1 else 0)"
  define ct where "ct = [u0 + a, u1 + b, u2 + c, te_y ?e, f]"
  have enc: "kemdem_encrypt poseidon smul False esk (smul g rsk) plain g = Some ct"
    using u by (simp add: kemdem_encrypt_def plain k Let_def ct_def f_def [symmetric] numeral_2_eq_2)
  have "push_bit 7 (le_bytes 32 (fr_val f) ! 0) = (if te_x ?e > - te_x ?e then 128 else 0)"
    unfolding f_def by (rule flag_byte)
  then have pt: "(le_bytes 32 (fr_val (ct ! 3)))[31 := le_bytes 32 (fr_val (ct ! 3)) ! 31 + push_bit 7 (le_bytes 32 (fr_val (ct ! 4)) ! 0)] =
      compress_point ?e"
    by (simp add: ct_def compress_point_def Let_def)
  have "kemdem_decrypt poseidon smul de_point rsk ct = Some (plain @ [te_y ?s])"
    unfolding kemdem_decrypt_def Let_def pt using assms(3,4) u
    by (simp add: k ct_def plain fr_add_sub numeral_2_eq_2)
  then show ?thesis using enc by (simp add: ct_def)
qed

text \<open>What is encrypted for a recipient is decrypted by the recipient, who also learns the second
  coordinate of the shared point (the salt of the commitment).\<close>

theorem kemdem_roundtrip:
  assumes "poseidon_ok poseidon" "length plain = 3" "de_point (compress_point (smul g esk)) = Some (smul g esk)"
    "smul (smul g esk) rsk = smul (smul g rsk) esk"
  shows "\<exists>ct. kemdem_encrypt poseidon smul False esk (smul g rsk) plain g = Some ct \<and> length ct = 5 \<and>
    kemdem_decrypt poseidon smul de_point rsk ct = Some (plain @ [te_y (smul (smul g rsk) esk)])"
  by (rule kemdem_inverse [where de_point = de_point and smul = smul and g = g and rsk = rsk and esk = esk, OF assms])

text \<open>For the witness: multiplication by one, and the decompression of one point.\<close>

definition de_point_ex :: "TEAffine \<Rightarrow> byte list \<Rightarrow> TEAffine option" where
  "de_point_ex p bs = (if bs = compress_point p then Some p else None)"

definition sum_hash :: poseidon where
  "sum_hash xs = Some (foldr (+) xs 1)"

lemma poseidon_ok_sum: "poseidon_ok sum_hash"
  by (simp add: poseidon_ok_def sum_hash_def)

theorem kemdem_roundtrip_witness:
  "\<exists>ct. kemdem_encrypt sum_hash (\<lambda>p n. p) False (0 :: nat) te_zero [1, 0, 1] te_zero = Some ct \<and> length ct = 5 \<and>
     kemdem_decrypt sum_hash (\<lambda>p n. p) (de_point_ex te_zero) (0 :: nat) ct = Some ([1, 0, 1] @ [te_y te_zero])"
  by (rule kemdem_roundtrip) (simp_all add: poseidon_ok_sum de_point_ex_def)

end
