(* ===== verification/Client_Events.thy ===== *)
theory Client_Events
  imports Client_Handlers Kemdem
begin

text \<open>
  The block events of the client: \<open>driven/event_handlers/nightfall_event.rs\<close> applies the blocks the contract
  announces to the commitment tree and to the client database, and
  \<open>drivers/blockchain/nightfall_event_listener.rs\<close> reads the stream of events, restarts and compares the client
  with the chain. What the chain answers is a parameter of each call; the streams of the event subscriptions
  are part of the state, one for each subscription that is made. The layer 2 block numbers (\<open>I256\<close> in the
  code) are integers: the one that is incremented has just been converted to \<open>u64\<close>.
\<close>

section \<open>Errors, blocks and state\<close>

datatype event_error =
    NoEventStream | StreamTerminated | InvalidCalldata | IOError string | MissingBlocks nat | HashError
  | BlockNotFound nat | BlockHashError fr254 fr254

record Block =
  blk_commitments_root :: "256 word"
  blk_nullifier_root :: "256 word"
  blk_commitments_root_root :: "256 word"
  blk_transactions :: "ContractTransaction list"
  blk_rollup_proof :: "byte list"

text \<open>The decoded call of a transaction; the hash of a transaction is its full hexadecimal text.\<close>

datatype nightfall_call = ProposeBlock Block | OtherCall

datatype nightfall_event =
    BlockProposed int | DepositEscrowed | Initialized | Upgraded | AuthoritiesUpdated | OwnershipTransferred

record chain_answers =
  ca_calldata :: "string + (string + nightfall_call) option"
  ca_signer :: "unit + 160 word option"
  ca_current_block :: "unit + int"

text \<open>A log of the stream: the event, or a failure to decode it, the hash of its transaction, and what the chain
  answers while it is handled.\<close>

record event_log =
  log_event :: "nightfall_event option"
  log_transaction_hash :: "string option"
  log_chain :: chain_answers

record client_state = client_node +
  expected_number :: int
  published :: "NotificationPayload list"
  streams :: "(unit + event_log list) list"

type_synonym ('z, 'a) eventM = "('z client_state_scheme, event_error failure, 'a) dbm"

record 'b event_env = "'b handler_env" +
  ev_tree_hash :: "fr254 \<Rightarrow> fr254 \<Rightarrow> fr254"
  ev_de_point :: "byte list \<Rightarrow> TEAffine option"
  ev_set_order :: "string list \<Rightarrow> string list"
  ev_info_enabled :: bool

text \<open>\<open>as_usize\<close> and \<open>try_into().expect(..)\<close> on an \<open>I256\<close>.\<close>

definition i256_to_u64 :: "int \<Rightarrow> nat option" where
  "i256_to_u64 i = (if 0 \<le> i \<and> i < 2 ^ 64 then Some (nat i) else None)"

definition io :: "string \<Rightarrow> event_error failure" where
  "io t = Fails (IOError t)"

definition as_io :: "string \<Rightarrow> merkle_error \<Rightarrow> event_error failure" where
  "as_io t e = (if e = MerklePanic then Panics else io t)"

section \<open>Applying a block\<close>

text \<open>\<open>FrBn254::try_from(..).map_err(..)?\<close> on a list.\<close>

definition frs_from :: "string \<Rightarrow> 256 word list \<Rightarrow> event_error failure + fr254 list" where
  "frs_from what us = mapS (\<lambda>u. map_sum (\<lambda>_. io (''Could not convert '' @ what @ '' to Fr254'')) id (frbn_try_from_u256 u)) us"

definition stored_block_of :: "('b, 'y) handler_env_scheme \<Rightarrow> nat \<Rightarrow> 160 word \<Rightarrow> Block \<Rightarrow> StoredBlock option" where
  "stored_block_of env number proposer blk =
     map_option (\<lambda>txs. \<lparr>sb_layer2_block_number = number,
         sb_commitments = concat (map (\<lambda>tx. map (hex_of env) (oct_commitments tx)) txs), sb_proposer_address = proposer\<rparr>)
       (those (map on_chain_transaction_from (blk_transactions blk)))"

text \<open>One round of the loop that looks for commitments of this client.\<close>

definition decrypt_one :: "('b, 'y) event_env_scheme \<Rightarrow> ContractTransaction \<Rightarrow> event_error failure + CommitmentEntry list" where
  "decrypt_one env tx =
     (if ctx_nullifiers tx = replicate 4 0 then Inr []
      else if ctx_commitments tx ! 0 = 0 \<and> ctx_nullifiers tx ! 0 \<noteq> 0 then Inr []
      else
        bindS (okS Panics (secrets_from_u256 (ctx_public_data tx))) (\<lambda>compressed_secrets.
        bindS (okS (io ''Could not decrypt compressed secrets'')
          (kemdem_decrypt (env_poseidon env) (env_times env) (ev_de_point env) (env_zkp_private_key env)
             (cipher_text compressed_secrets))) (\<lambda>decrypt.
        (let test_preimage = \<lparr>pre_value = decrypt ! 2, pre_nf_token_id = decrypt ! 0, pre_nf_slot_id = decrypt ! 1,
               pre_public_key = env_zkp_public_key env, pre_salt = SaltTransfer (decrypt ! 3)\<rparr> in
         bindS (map_sum (map_failure (\<lambda>_. IOError ''Could not hash preimage'')) id
                  (preimage_hash (env_poseidon env) test_preimage)) (\<lambda>test_hash.
         bindS (frs_from ''commitment'' [ctx_commitments tx ! 0]) (\<lambda>commitment_hash.
         if [test_hash] \<noteq> commitment_hash then Inr []
         else
           bindS (map_sum (map_failure (\<lambda>_. HashError)) id
                    (nullifier_hash (env_poseidon env) test_preimage (env_nullifier_key env))) (\<lambda>nullifier.
           bindS (commitment_entry_new (env_poseidon env) test_preimage nullifier Unspent) (\<lambda>entry. Inr [entry])))))))) "

text \<open>The comparison with a block that is already stored under the number.\<close>

definition check_stored_block :: "('b, 'y) handler_env_scheme \<Rightarrow> StoredBlock \<Rightarrow> ('z, event_error, unit) clientM" where
  "check_stored_block env pending =
     bindM (get_block_by_number (sb_layer2_block_number pending)) (\<lambda>found.
     if found = None then returnM ()
     else
       bindM (get_block_by_number (sb_layer2_block_number pending)) (\<lambda>r.
       bindM (okM (io ''Could not retrieve block from database'') r) (\<lambda>existing_block.
       (let existing_hash = stored_block_hash (env_sha256 env) existing_block;
            pending_hash = stored_block_hash (env_sha256 env) pending in
        if existing_hash \<noteq> pending_hash
        then bindM (delete_block_by_number (sb_layer2_block_number pending)) (\<lambda>_.
             throwM (Fails (BlockHashError existing_hash pending_hash)))
        else returnM ()))))"

text \<open>The requests whose commitments are on the chain are confirmed.\<close>

definition confirm_requests :: "('b, 'y) handler_env_scheme \<Rightarrow> fr254 \<Rightarrow> ('z, 'e, unit) clientM" where
  "confirm_requests env commitment_hash =
     bindM (get_requests_by_commitment (hex_of env commitment_hash)) (\<lambda>r.
     case r of
       None \<Rightarrow> returnM ()
     | Some request_ids \<Rightarrow> bindM (forM request_ids (\<lambda>i. update_request i Confirmed)) (\<lambda>_. returnM ()))"

definition publish :: "NotificationPayload \<Rightarrow> ('z, unit) eventM" where
  "publish n = (\<lambda>w. (Inr (), w\<lparr>published := published w @ [n]\<rparr>))"

definition set_expected :: "int \<Rightarrow> ('z, unit) eventM" where
  "set_expected i = (\<lambda>w. (Inr (), w\<lparr>expected_number := i\<rparr>))"


text \<open>Applying the block to the commitment tree: all its commitments, then a comparison of the roots whose outcome is
  only logged. The second result is what is logged.\<close>

definition apply_to_tree :: "('b, 'y) event_env_scheme \<Rightarrow> Block \<Rightarrow> ('z, event_error, bool) clientM" where
  "apply_to_tree env blk =
     bindM (liftM (frs_from ''commitment'' (concat (map ctx_commitments (blk_transactions blk))))) (\<lambda>cs.
     bindM (map_errM (as_io ''Could not get current root'') get_root) (\<lambda>old_root.
     bindM (map_errM (as_io ''Could not append commitments to tree'') (append_sub_trees (ev_tree_hash env) cs True)) (\<lambda>(rt, _).
     bindM (liftM (frs_from ''commitment'' [blk_commitments_root blk])) (\<lambda>historic_root.
     returnM ([rt] = historic_root)))))"

text \<open>The commitments and the nullifiers of the block, and the marks that are made from them (\<open>join!\<close> drops the
  results).\<close>

definition mark_on_chain :: "Block \<Rightarrow> string \<Rightarrow> int \<Rightarrow> ('z, event_error, fr254 list) clientM" where
  "mark_on_chain blk transaction_hash layer2_block_number =
     bindM (liftM (mapS (\<lambda>tx. bindS (frs_from ''commitment'' (ctx_commitments tx)) (\<lambda>cs.
                               bindS (frs_from ''nullifier'' (ctx_nullifiers tx)) (\<lambda>ns. Inr (cs, ns))))
                     (blk_transactions blk))) (\<lambda>ps.
     (let commitment_hashes = concat (map fst ps); nullifiers = concat (map snd ps) in
      bindM (mark_commitments_unspent commitment_hashes (Some transaction_hash) (Some layer2_block_number)) (\<lambda>_.
      bindM (mark_commitments_spent nullifiers) (\<lambda>_. returnM commitment_hashes))))"

text \<open>The notification. \<open>request_id_set\<close> is a hash set; the order in which it is read is the parameter
  \<open>ev_set_order\<close>.\<close>

definition notification_of :: "('b, 'y) event_env_scheme \<Rightarrow> string \<Rightarrow> int \<Rightarrow> fr254 list \<Rightarrow> ('z, event_error, NotificationPayload) clientM" where
  "notification_of env transaction_hash layer2_block_number commitment_hashes =
     (let owned_commitment_hashes = map (hex_of env) (filter (\<lambda>c. c \<noteq> 0) commitment_hashes) in
      bindM (forM owned_commitment_hashes get_requests_by_commitment) (\<lambda>rs.
      returnM (BlockchainEvent transaction_hash (nat layer2_block_number) owned_commitment_hashes
        (ev_set_order env (remdups (concat (map (\<lambda>r. case r of None \<Rightarrow> [] | Some ids \<Rightarrow> ids) rs)))))))"

text \<open>What follows the increment of the expected number, with the block that is stored at the end.\<close>

definition apply_block ::
    "('b, 'y) event_env_scheme \<Rightarrow> chain_answers \<Rightarrow> Block \<Rightarrow> string \<Rightarrow> int \<Rightarrow> StoredBlock \<Rightarrow> ('z, unit) eventM" where
  "apply_block env answers blk transaction_hash layer2_block_number pending =
     bindM (liftM (map_sum (\<lambda>_. io ''Could not retrieve current block number'') id (ca_current_block answers))) (\<lambda>current_block_number.
     (let dup_key_check = (current_block_number - layer2_block_number - 1 = 0) in
      bindM (apply_to_tree env blk) (\<lambda>_.
      bindM (mark_on_chain blk transaction_hash layer2_block_number) (\<lambda>commitment_hashes.
      bindM (forM commitment_hashes (confirm_requests env)) (\<lambda>_.
      bindM (liftM (mapS (decrypt_one env) (blk_transactions blk))) (\<lambda>entries.
      bindM (store_commitments (env_dup_kind env) (concat entries) dup_key_check) (\<lambda>stored.
      if stored = None then throwM (io ''Failed to store commitments'')
      else
        bindM (notification_of env transaction_hash layer2_block_number commitment_hashes) (\<lambda>notification.
        bindM (publish notification) (\<lambda>_.
        bindM (store_block pending) (\<lambda>_. returnM ())))))))))) "

definition process_propose_block_event ::
    "('b, 'y) event_env_scheme \<Rightarrow> chain_answers \<Rightarrow> Block \<Rightarrow> string \<Rightarrow> int \<Rightarrow> ('z, unit) eventM" where
  "process_propose_block_event env answers blk transaction_hash layer2_block_number = (\<lambda>w.
     (if expected_number w < layer2_block_number then
        (case i256_to_u64 (expected_number w) of
           None \<Rightarrow> throwM Panics
         | Some n \<Rightarrow> throwM (Fails (MissingBlocks n)))
      else if expected_number w > layer2_block_number then returnM ()
      else
        bindM (okM Panics (i256_to_u64 layer2_block_number)) (\<lambda>number.
        bindM (okM (io ''Could not retrieve transaction'')
                 (case ca_signer answers of Inl _ \<Rightarrow> None | Inr signer \<Rightarrow> signer)) (\<lambda>proposer_address.
        bindM (okM Panics (stored_block_of env number proposer_address blk)) (\<lambda>store_block_pending.
        bindM (check_stored_block env store_block_pending) (\<lambda>_.
        bindM (set_expected (expected_number w + 1)) (\<lambda>_.
        apply_block env answers blk transaction_hash layer2_block_number store_block_pending)))))) w)"

definition process_nightfall_calldata ::
    "('b, 'y) event_env_scheme \<Rightarrow> chain_answers \<Rightarrow> string option \<Rightarrow> int \<Rightarrow> ('z, unit) eventM" where
  "process_nightfall_calldata env answers transaction_hash layer2_block_number =
     bindM (okM (io ''No transaction hash provided'') transaction_hash) (\<lambda>tx_hash.
     bindM (liftM (map_sum io id (ca_calldata answers))) (\<lambda>tx.
     case tx of
       None \<Rightarrow> throwM Panics
     | Some input \<Rightarrow>
         bindM (liftM (map_sum io id input)) (\<lambda>decoded.
         case decoded of
           ProposeBlock blk \<Rightarrow> process_propose_block_event env answers blk tx_hash layer2_block_number
         | OtherCall \<Rightarrow> returnM ())))"

text \<open>\<open>transaction_hash.unwrap()\<close> is an argument of \<open>info!\<close>, which evaluates it when that level is logged.\<close>

definition process_deposit_escrowed_event :: "('b, 'y) event_env_scheme \<Rightarrow> string option \<Rightarrow> ('z, unit) eventM" where
  "process_deposit_escrowed_event env transaction_hash =
     (if ev_info_enabled env \<and> transaction_hash = None then throwM Panics else returnM ())"

text \<open>Every error of a handler becomes \<open>InvalidCalldata\<close>.\<close>

definition invalid_calldata :: "('z, unit) eventM \<Rightarrow> ('z, unit) eventM" where
  "invalid_calldata = map_errM (map_failure (\<lambda>_. InvalidCalldata))"

definition handle_event :: "('b, 'y) event_env_scheme \<Rightarrow> chain_answers \<Rightarrow> nightfall_event \<Rightarrow> string option \<Rightarrow> ('z, unit) eventM" where
  "handle_event env answers event tx_hash =
     (case event of
        BlockProposed layer2_block_number \<Rightarrow> invalid_calldata (process_nightfall_calldata env answers tx_hash layer2_block_number)
      | DepositEscrowed \<Rightarrow> invalid_calldata (process_deposit_escrowed_event env tx_hash)
      | _ \<Rightarrow> returnM ())"

section \<open>The listener\<close>

definition process_events :: "('b, 'y) event_env_scheme \<Rightarrow> nightfall_event \<Rightarrow> event_log \<Rightarrow> ('z, unit) eventM" where
  "process_events env e log = handle_event env (log_chain log) e (log_transaction_hash log)"

text \<open>The loop over the stream; \<open>restart\<close> is \<open>restart_event_listener\<close>.\<close>

fun event_loop :: "('b, 'y) event_env_scheme \<Rightarrow> ('z, unit) eventM \<Rightarrow> event_log list \<Rightarrow> ('z, unit) eventM" where
  "event_loop env restart [] = throwM (Fails StreamTerminated)"
| "event_loop env restart (evt # events_stream) =
     (case log_event evt of
        None \<Rightarrow> event_loop env restart events_stream
      | Some event \<Rightarrow> (\<lambda>w.
          (case process_events env event evt w of
             (Inr _, w') \<Rightarrow> event_loop env restart events_stream w'
           | (Inl (Fails (MissingBlocks n)), w') \<Rightarrow> bindM restart (\<lambda>_. throwM (Fails StreamTerminated)) w'
           | (Inl _, w') \<Rightarrow> (Inl Panics, w'))))"

text \<open>Each subscription takes the next stream; there is none when the chain accepts no further subscription.\<close>

definition subscribe_logs :: "('z, event_log list) eventM" where
  "subscribe_logs = (\<lambda>w.
     (case streams w of
        [] \<Rightarrow> (Inl (Fails NoEventStream), w)
      | Inl _ # rest \<Rightarrow> (Inl (Fails NoEventStream), w\<lparr>streams := rest\<rparr>)
      | Inr events # rest \<Rightarrow> (Inr events, w\<lparr>streams := rest\<rparr>)))"

definition listen_for_events :: "('b, 'y) event_env_scheme \<Rightarrow> ('z, unit) eventM \<Rightarrow> ('z, unit) eventM" where
  "listen_for_events env restart = bindM subscribe_logs (event_loop env restart)"

text \<open>The attempts that remain, and the pause in seconds before the next; the pauses that were made. Doubling a pause of
  \<open>2 ^ 63\<close> seconds overflows.\<close>

fun listener_attempts :: "('b, 'y) event_env_scheme \<Rightarrow> ('z, unit) eventM \<Rightarrow> nat \<Rightarrow> nat \<Rightarrow> ('z, nat list) eventM" where
  "listener_attempts env restart 0 backoff_delay = returnM []"
| "listener_attempts env restart (Suc n) backoff_delay = (\<lambda>w.
     (case listen_for_events env restart w of
        (Inr _, w') \<Rightarrow> (Inr [], w')
      | (Inl Panics, w') \<Rightarrow> (Inl Panics, w')
      | (Inl (Fails e), w') \<Rightarrow>
          (if n = 0 then (Inr [], w')
           else if 2 ^ 64 \<le> 2 * backoff_delay then (Inl Panics, w')
           else bindM (listener_attempts env restart n (2 * backoff_delay)) (\<lambda>ps. returnM (backoff_delay # ps)) w')))"

definition start_event_listener :: "('b, 'y) event_env_scheme \<Rightarrow> ('z, unit) eventM \<Rightarrow> nat \<Rightarrow> ('z, nat list) eventM" where
  "start_event_listener env restart max_attempts = listener_attempts env restart (max 1 max_attempts) 2"

section \<open>Synchronisation\<close>

record sync_answers =
  sa_current_block :: "unit + int"
  sa_block :: "unit + 160 word \<times> Block"

definition get_synchronisation_status :: "('b, 'y) event_env_scheme \<Rightarrow> sync_answers \<Rightarrow> ('z, SynchronisationStatus) eventM" where
  "get_synchronisation_status env answers = (\<lambda>w.
     bindM (liftM (map_sum (\<lambda>_. io ''Could not read current block'') id (sa_current_block answers))) (\<lambda>current_block_number.
     (let expected = expected_number w in
      if expected < current_block_number then returnM (new_sync_status Desynchronized)
      else if expected > current_block_number then
        bindM (okM Panics (i256_to_u64 (expected - current_block_number))) (\<lambda>delta.
        returnM (new_sync_status (AheadOfChain delta)))
      else
        bindM (okM Panics (i256_to_u64 expected)) (\<lambda>expected_u64.
        bindM (get_block_by_number expected_u64) (\<lambda>r.
        case r of
          None \<Rightarrow> returnM (new_sync_status Synchronized)
        | Some stored_block \<Rightarrow>
            bindM (liftM (map_sum (\<lambda>_. io ''Could not read block from blockchain'') id (sa_block answers))) (\<lambda>(proposer_address, block_onchain).
            bindM (okM Panics (stored_block_of env expected_u64 proposer_address block_onchain)) (\<lambda>store_block_pending.
            returnM (new_sync_status
              (if stored_block_hash (env_sha256 env) store_block_pending \<noteq> stored_block_hash (env_sha256 env) stored_block
               then Desynchronized else Synchronized))))))))
     w)"

text \<open>\<open>CommitmentTree::reset_tree\<close> and \<open>new_commitment_tree\<close>; the failure of the reset is dropped and that of the new
  tree is a panic.\<close>

definition new_commitment_tree :: "nat \<Rightarrow> nat \<Rightarrow> ('z client_db_scheme, merkle_error, unit) dbm" where
  "new_commitment_tree height sub_height = new_mutable_tree height sub_height"

definition reset_tree :: "('z client_db_scheme, 'e failure, unit) dbm" where
  "reset_tree =
     bindM (ignoreM reset_mutable_tree) (\<lambda>_. map_errM (\<lambda>_. Panics) (new_commitment_tree 29 3))"

text \<open>\<open>start\<close> is \<open>start_event_listener\<close>.\<close>

definition restart_event_listener ::
    "('b, 'y) event_env_scheme \<Rightarrow> sync_answers \<Rightarrow> nat option \<Rightarrow> (nat \<Rightarrow> ('z, nat list) eventM) \<Rightarrow> ('z, unit) eventM" where
  "restart_event_listener env answers max_event_listener_attempts start =
     bindM (map_errM (\<lambda>_. Panics) (get_synchronisation_status env answers)) (\<lambda>sync_state.
     if sync_phase sync_state = Synchronized then throwM Panics
     else
       (let max_attempts = (case max_event_listener_attempts of None \<Rightarrow> 10 | Some n \<Rightarrow> n) in
        bindM reset_tree (\<lambda>_. bindM (start max_attempts) (\<lambda>_. returnM ()))))"

text \<open>The listener of the client: the three functions call each other, to the depth \<open>n\<close> of nested restarts.\<close>

fun client_listener :: "('b, 'y) event_env_scheme \<Rightarrow> sync_answers \<Rightarrow> nat option \<Rightarrow> nat \<Rightarrow> nat \<Rightarrow> ('z, nat list) eventM" where
  "client_listener env answers attempts 0 max_attempts = throwM Panics"
| "client_listener env answers attempts (Suc n) max_attempts =
     start_event_listener env (restart_event_listener env answers attempts (client_listener env answers attempts n)) max_attempts"


section \<open>What applying a block keeps\<close>

text \<open>A predicate that survives every write to the tree, to the commitments and to the requests survives applying a
  block.\<close>

locale event_frame =
  fixes I :: "'z client_db_scheme \<Rightarrow> bool"
  assumes call: "I w \<Longrightarrow> faults w = b # bs \<Longrightarrow> I (w\<lparr>faults := bs\<rparr>)"
    and in_tree: "I w \<Longrightarrow> I (w\<lparr>metadata := m\<rparr>)" "I w \<Longrightarrow> I (w\<lparr>nodes := ns\<rparr>)" "I w \<Longrightarrow> I (w\<lparr>cache := ns\<rparr>)"
    and in_client: "I w \<Longrightarrow> I (w\<lparr>commitments := es\<rparr>)" "I w \<Longrightarrow> I (w\<lparr>requests := rs\<rparr>)"
begin

lemma calls_kept: "(\<And>w. I w \<Longrightarrow> I (snd (f w))) \<Longrightarrow> keeps I (db_call e f)"
  by (rule keeps_db_call [where I = I]) (auto intro: call)

lemma reads_kept [keeps_intros]: "keeps I (db_read e f)"
  unfolding db_read_def by (rule calls_kept) simp

lemma writes_kept: "(\<And>w. I w \<Longrightarrow> I (f w)) \<Longrightarrow> keeps I (db_write e f)"
  unfolding db_write_def by (rule calls_kept) simp

lemma append_kept [keeps_intros]: "keeps I (append_sub_trees th leaves upd)" "keeps I get_root"
proof -
  have meta: "keeps I read_metadata" unfolding read_metadata_def by (intro keeps_intros)
  have get: "keeps I (get_node i)" for i unfolding get_node_def by (intro keeps_intros)
  have climb: "keeps I (climb get_node th n i v)" for n i v
    by (induction n arbitrary: i v) (auto simp: Let_def intro!: keeps_intros get)
  have set_n: "keeps I (set_node upd i v)" for i v
    unfolding set_node_def by (intro keeps_if writes_kept in_tree; assumption)
  have exec: "keeps I (exec_updates (set_node upd) us)" for us
    by (induction us) (auto intro!: keeps_intros set_n)
  have one: "keeps I (append_one th m upd c b)" for m c b
    unfolding append_one_def Let_def by (intro keeps_intros climb exec)
  have loop: "keeps I (append_loop th m upd c v bs)" for m c v bs
    by (induction bs arbitrary: c v) (auto intro!: keeps_intros one)
  have flush: "keeps I flush_cache"
    unfolding flush_cache_def by (intro keeps_intros writes_kept in_tree; assumption)
  show "keeps I (append_sub_trees th leaves upd)"
    unfolding append_sub_trees_def Let_def by (intro keeps_intros meta loop flush writes_kept in_tree; assumption)
  show "keeps I get_root" unfolding get_root_def by (intro keeps_intros meta)
qed

lemma client_kept [keeps_intros]:
  "keeps I (get_requests_by_commitment h)" "keeps I (get_block_by_number n)"
  "keeps I (update_request i st)" "keeps I (mark_commitments_unspent ks l1 l2)" "keeps I (mark_commitments_spent ns)"
  unfolding get_requests_by_commitment_def get_block_by_number_def update_request_def mark_commitments_unspent_def
    mark_commitments_spent_def mark_many_def
  by (intro keeps_intros writes_kept in_client; assumption)+

lemma store_kept [keeps_intros]: "keeps I (store_commitments k cs d)"
  unfolding store_commitments_def
  by (intro keeps_intros calls_kept)
    (auto intro!: keeps_intros in_client split: option.split bool.split mongo_error.split prod.split)

lemma applying_kept [keeps_intros]:
  "keeps I (confirm_requests henv c)" "keeps I (apply_to_tree env b)" "keeps I (mark_on_chain b h n)"
  "keeps I (notification_of env h n cs)"
  unfolding confirm_requests_def apply_to_tree_def mark_on_chain_def notification_of_def Let_def
  by (intro keeps_intros)+

end

text \<open>The blocks, and the part of the state beyond the collections.\<close>

definition beyond :: "'z \<Rightarrow> 'z client_db_scheme \<Rightarrow> bool" where
  "beyond x w \<longleftrightarrow> client_db.more w = x"

interpretation same_blocks: event_frame "\<lambda>w. blocks w = B" for B
  by unfold_locales simp_all

interpretation rest: event_frame "beyond x" for x
  by unfold_locales (simp_all add: beyond_def)

lemma beyond_blocks [keeps_intros]:
  "keeps (beyond x) (delete_block_by_number n)" "keeps (beyond x) (store_block b)" "keeps (beyond x) (check_stored_block env p)"
proof -
  have w: "keeps (beyond x) (db_write () (\<lambda>w. w\<lparr>blocks := g w\<rparr>))" for g
    by (rule rest.writes_kept) (simp add: beyond_def)
  show d: "keeps (beyond x) (delete_block_by_number n)" for n
    unfolding delete_block_by_number_def by (intro keeps_intros w)
  show "keeps (beyond x) (store_block b)" unfolding store_block_def by (intro keeps_intros w)
  show "keeps (beyond x) (check_stored_block env p)"
    unfolding check_stored_block_def Let_def by (intro keeps_intros d)
qed

lemma expected_of_more: "client_db.more w = client_db.more w' \<Longrightarrow> expected_number w = expected_number w'"
  by (cases w; cases w') simp

lemma expected_kept: "(\<And>x. keeps (beyond x) m) \<Longrightarrow> keeps (\<lambda>w. expected_number w = k) m"
  unfolding keeps_def beyond_def using expected_of_more by metis

lemma publish_expected: "keeps (\<lambda>w. expected_number w = k) (publish n)"
  by (simp add: publish_def keeps_def)

lemma apply_block_expected: "keeps (\<lambda>w. expected_number w = k) (apply_block env answers blk h n p)"
  unfolding apply_block_def Let_def
  by (intro keeps_bindM keeps_pure keeps_if publish_expected; (rule expected_kept; intro keeps_intros)?) 

lemma check_expected: "keeps (\<lambda>w. expected_number w = k) (check_stored_block env p)"
  by (rule expected_kept) (rule beyond_blocks)

lemma keeps_db_read:
  "(\<And>w b bs. I w \<Longrightarrow> faults w = b # bs \<Longrightarrow> I (w\<lparr>faults := bs\<rparr>)) \<Longrightarrow> keeps I (db_read e f)"
  unfolding db_read_def by (rule keeps_db_call) simp_all

lemma check_stored_block_keeps_tree:
  assumes "check_stored_block env p w = (r, w')"
  shows "metadata w' = metadata w \<and> nodes w' = nodes w \<and> commitments w' = commitments w"
proof -
  let ?I = "\<lambda>u. metadata u = metadata w \<and> nodes u = nodes w \<and> commitments u = commitments w"
  have "keeps ?I (db_write () (\<lambda>w. w\<lparr>blocks := g w\<rparr>))" for g
    unfolding db_write_def by (rule keeps_db_call) simp_all
  then have "keeps ?I (check_stored_block env p)"
    unfolding check_stored_block_def get_block_by_number_def delete_block_by_number_def Let_def
    by (intro keeps_intros keeps_db_read) simp_all
  then show ?thesis using assms unfolding keeps_def by (metis snd_conv)
qed

lemma past_event_skipped: "layer2_block_number < expected_number w \<Longrightarrow>
    process_propose_block_event env answers blk h layer2_block_number w = (Inr (), w)"
  by (simp add: process_propose_block_event_def returnM_def)


lemma process_in_order:
  assumes "expected_number w = n" "i256_to_u64 n = Some k" "ca_signer answers = Inr (Some proposer)"
    "stored_block_of env k proposer blk = Some pending"
  shows "process_propose_block_event env answers blk h n w =
    bindM (check_stored_block env pending) (\<lambda>_. bindM (set_expected (n + 1)) (\<lambda>_.
      apply_block env answers blk h n pending)) w"
  using assms by (simp add: process_propose_block_event_def)

lemma process_cases:
  obtains (skip) "snd (process_propose_block_event env answers blk h n w) = w"
  | (run) k proposer pending where "expected_number w = n" "i256_to_u64 n = Some k"
      "stored_block_of env k proposer blk = Some pending"
      "process_propose_block_event env answers blk h n w =
         bindM (check_stored_block env pending) (\<lambda>_. bindM (set_expected (n + 1)) (\<lambda>_.
           apply_block env answers blk h n pending)) w"
proof (cases "expected_number w = n")
  case False
  then have "snd (process_propose_block_event env answers blk h n w) = w"
    by (auto simp: process_propose_block_event_def throwM_def returnM_def split: option.splits if_splits)
  then show thesis by (rule skip)
next
  case n: True
  consider k proposer pending where "i256_to_u64 n = Some k" "ca_signer answers = Inr (Some proposer)"
      "stored_block_of env k proposer blk = Some pending"
    | "snd (process_propose_block_event env answers blk h n w) = w"
    using n unfolding process_propose_block_event_def
    by (cases "i256_to_u64 n"; cases "ca_signer answers"; cases "projr (ca_signer answers)";
        cases "stored_block_of env (the (i256_to_u64 n)) (the (projr (ca_signer answers))) blk")
      (auto simp: throwM_def split: option.splits)
  then show thesis
    by cases (blast intro: run n process_in_order, blast intro: skip)
qed

section \<open>Properties\<close>

text \<open>C35. A block is counted at most once. Whatever the chain and the database do, an event leaves the expected number
  or, when it announces exactly the expected block, advances it by one; as long as the number has not advanced,
  the commitment tree and the commitments are as before; and once it has, every later event with that number
  (a redelivery or a replay) succeeds without any effect.\<close>

theorem block_counted_once:
  assumes "process_propose_block_event env answers blk h n w = (r, w')"
  shows "(expected_number w' = expected_number w \<and> metadata w' = metadata w \<and> nodes w' = nodes w \<and>
            commitments w' = commitments w) \<or>
         (expected_number w = n \<and> expected_number w' = n + 1 \<and>
            process_propose_block_event env' answers' blk' h' n w' = (Inr (), w'))"
proof (cases rule: process_cases [of env answers blk h n w])
  case (run k proposer pending)
  obtain r1 w1 where c: "check_stored_block env pending w = ((r1 :: event_error failure + unit), w1)" by force
  have same: "metadata w1 = metadata w \<and> nodes w1 = nodes w \<and> commitments w1 = commitments w" "expected_number w1 = n"
    using check_stored_block_keeps_tree [OF c] keepsD [OF check_expected _ c, of n] run(1) by simp_all
  show ?thesis
  proof (cases r1)
    case (Inl e)
    then show ?thesis using assms c same run(1) by (simp add: run(4) bindM_def)
  next
    case (Inr x)
    have "apply_block env answers blk h n pending (w1\<lparr>expected_number := n + 1\<rparr>) = (r, w')"
      using assms c Inr by (simp add: run(4) bindM_def set_expected_def)
    then have "expected_number w' = n + 1"
      using keepsD [OF apply_block_expected [where k = "n + 1"], of "w1\<lparr>expected_number := n + 1\<rparr>"] by simp
    then show ?thesis using run(1) by (simp add: past_event_skipped)
  qed
qed (use assms in simp)

text \<open>A block that fails after it was counted is lost: when the current block number cannot be read, the event is an
  error, the expected number has advanced although nothing was applied, and every further delivery of the event
  succeeds without applying the block.\<close>

theorem failed_block_is_lost:
  assumes "faults w = []" "expected_number w = n" "i256_to_u64 n = Some k" "ca_signer answers = Inr (Some proposer)"
    "stored_block_of env k proposer blk = Some pending" "find_block k (blocks w) = None" "ca_current_block answers = Inl ()"
  defines "w' \<equiv> w\<lparr>expected_number := n + 1\<rparr>"
  shows "process_propose_block_event env answers blk h n w =
      (Inl (Fails (IOError ''Could not retrieve current block number'')), w') \<and>
    process_propose_block_event env' answers' blk' h' n w' = (Inr (), w')"
proof
  have "sb_layer2_block_number pending = k" using assms(5) by (auto simp: stored_block_of_def)
  then have c: "check_stored_block env pending w = ((Inr () :: event_error failure + unit), w)"
    using assms(1,6) by (simp add: check_stored_block_def get_block_by_number_def bindO_def bindM_def try_read_ok returnM_def)
  show "process_propose_block_event env answers blk h n w =
      (Inl (Fails (IOError ''Could not retrieve current block number'')), w')"
    by (simp add: process_in_order [OF assms(2-5)] c bindM_def set_expected_def
        apply_block_def assms(7) liftM_def throwM_def io_def w'_def)
  show "process_propose_block_event env' answers' blk' h' n w' = (Inr (), w')"
    by (rule past_event_skipped) (simp add: w'_def)
qed

section \<open>The listener stops at a gap\<close>

lemma handle_event_errors: "handle_event env answers e tx w = (Inl x, w') \<Longrightarrow> x = Panics \<or> x = Fails InvalidCalldata"
  by (auto simp: handle_event_def invalid_calldata_def map_errM_def returnM_def split: nightfall_event.splits prod.splits sum.splits)
    (metis failure.exhaust map_failure.simps)+

lemma event_loop_errors: "event_loop env restart evs w = (r, w') \<Longrightarrow> r = Inl Panics \<or> r = Inl (Fails StreamTerminated)"
proof (induction evs arbitrary: w)
  case Nil
  then show ?case by (simp add: throwM_def)
next
  case (Cons evt evs)
  show ?case
  proof (cases "log_event evt")
    case None
    then show ?thesis using Cons by simp
  next
    case (Some e)
    obtain x u where x: "process_events env e evt w = (x, u)" by force
    show ?thesis
    proof (cases x)
      case (Inl y)
      then have "y = Panics \<or> y = Fails InvalidCalldata" using x unfolding process_events_def by (metis handle_event_errors)
      then show ?thesis using Cons.prems Some x Inl by auto
    next
      case (Inr y)
      then show ?thesis using Cons Some x by simp
    qed
  qed
qed

lemma event_loop_restart:
  fixes restart :: "('z, unit) eventM"
  shows "event_loop env restart evs = event_loop env restart' evs"
proof (induction evs)
  case (Cons evt evs)
  show ?case
  proof (cases "log_event evt")
    case (Some e)
    show ?thesis
    proof
      fix w :: "'z client_state_scheme"
      obtain x u where x: "process_events env e evt w = (x, u)" by force
      show "event_loop env restart (evt # evs) w = event_loop env restart' (evt # evs) w"
      proof (cases x)
        case (Inl y)
        then have "y = Panics \<or> y = Fails InvalidCalldata" using x unfolding process_events_def by (metis handle_event_errors)
        then show ?thesis using Some x Inl by auto
      qed (use Some x Cons.IH in simp)
    qed
  qed (simp add: Cons.IH)
qed simp

lemma listen_restart: "listen_for_events env restart = listen_for_events env restart'"
proof -
  have "event_loop env restart = event_loop env restart'" by (rule ext) (rule event_loop_restart)
  then show ?thesis by (simp add: listen_for_events_def)
qed

lemma attempts_restart: "listener_attempts env restart n d = listener_attempts env restart' n d"
proof (induction n arbitrary: d)
  case (Suc n)
  show ?case by (simp only: listener_attempts.simps Suc.IH listen_restart [of env restart restart'])
qed simp

text \<open>The resynchronisation of the listener is never reached: what listening does depends neither on
  \<open>restart_event_listener\<close> nor on the depth of nested restarts nor on what the chain answers about the
  synchronisation, because \<open>handle_event\<close> turns the error for missing blocks into \<open>InvalidCalldata\<close>, on which
  the listener panics.\<close>

theorem restart_is_dead:
  "listen_for_events env restart w = listen_for_events env restart' w \<and>
   client_listener env answers attempts (Suc d) n w = client_listener env answers' attempts' (Suc d') n w"
proof -
  have "client_listener env answers attempts (Suc d) n = client_listener env answers' attempts' (Suc d') n"
    by (simp add: start_event_listener_def) (rule attempts_restart)
  then show ?thesis by (intro conjI fun_cong [OF listen_restart]) (rule fun_cong)
qed

text \<open>So a missed block stops the client: an event that announces a later block than the expected one makes the
  listener panic, with nothing changed by the event.\<close>

theorem gap_stops_listener:
  assumes "0 \<le> expected_number w" "expected_number w < 2 ^ 64" "expected_number w < n"
    "log_event evt = Some (BlockProposed n)" "log_transaction_hash evt = Some h"
    "ca_calldata (log_chain evt) = Inr (Some (Inr (ProposeBlock blk)))"
  shows "process_nightfall_calldata env (log_chain evt) (Some h) n w = (Inl (Fails (MissingBlocks (nat (expected_number w)))), w) \<and>
    event_loop env restart (evt # evts) w = (Inl Panics, w)"
proof -
  have p: "process_nightfall_calldata env (log_chain evt) (Some h) n w = (Inl (Fails (MissingBlocks (nat (expected_number w)))), w)"
    using assms by (simp add: process_nightfall_calldata_def process_propose_block_event_def i256_to_u64_def throwM_def)
  then show ?thesis
    using assms(4,5) by (simp add: process_events_def handle_event_def invalid_calldata_def map_errM_def)
qed


section \<open>The listener ends\<close>

lemma streams_of_more: "client_db.more w = client_db.more w' \<Longrightarrow> streams w = streams w'"
  by (cases w; cases w') simp

lemma streams_kept: "(\<And>x. keeps (beyond x) m) \<Longrightarrow> keeps (\<lambda>w. streams w = k) m"
  unfolding keeps_def beyond_def using streams_of_more by metis

lemma set_streams: "keeps (\<lambda>w. streams w = k) (publish n)" "keeps (\<lambda>w. streams w = k) (set_expected i)"
  by (simp_all add: publish_def set_expected_def keeps_def)

lemma apply_block_streams: "keeps (\<lambda>w. streams w = k) (apply_block env answers blk h n p)"
  unfolding apply_block_def Let_def
  by (intro keeps_bindM keeps_pure keeps_if set_streams; (rule streams_kept; intro keeps_intros)?)

lemma process_block_streams: "keeps (\<lambda>w. streams w = k) (process_propose_block_event env answers blk h n)"
proof (rule keepsI)
  fix w :: "'a client_state_scheme"
  assume w: "streams w = k"
  have c: "keeps (\<lambda>w. streams w = k) (check_stored_block env p)" for p
    by (rule streams_kept) (rule beyond_blocks)
  have run: "keeps (\<lambda>w :: 'a client_state_scheme. streams w = k)
      (bindM (okM Panics (i256_to_u64 n)) (\<lambda>number.
        bindM (okM (io ''Could not retrieve transaction'')
                 (case ca_signer answers of Inl _ \<Rightarrow> None | Inr signer \<Rightarrow> signer)) (\<lambda>proposer_address.
        bindM (okM Panics (stored_block_of env number proposer_address blk)) (\<lambda>store_block_pending.
        bindM (check_stored_block env store_block_pending) (\<lambda>_.
        bindM (set_expected (n + 1)) (\<lambda>_.
        apply_block env answers blk h n store_block_pending))))))"
    by (intro keeps_intros set_streams apply_block_streams c)
  consider "expected_number w < n" | "expected_number w > n" | "expected_number w = n" by linarith
  then show "streams (snd (process_propose_block_event env answers blk h n w)) = k"
  proof cases
    case 3
    then show ?thesis using run w unfolding keeps_def process_propose_block_event_def by simp
  qed (use w in \<open>simp_all add: process_propose_block_event_def throwM_def returnM_def split: option.split\<close>)
qed

lemma process_events_streams: "keeps (\<lambda>w. streams w = k) (process_events env e evt)"
  unfolding process_events_def handle_event_def invalid_calldata_def process_nightfall_calldata_def process_deposit_escrowed_event_def
  by (auto split: nightfall_event.split option.split nightfall_call.split intro!: keeps_intros process_block_streams)

lemma event_loop_streams: "event_loop env restart evs w = (r, w') \<Longrightarrow> streams w' = streams w"
proof (induction evs arbitrary: w)
  case (Cons evt evs)
  show ?case
  proof (cases "log_event evt")
    case (Some e)
    obtain x u where x: "process_events env e evt w = (x, u)" by force
    have u: "streams u = streams w" using keepsD [OF process_events_streams refl x] .
    show ?thesis
    proof (cases x)
      case (Inl y)
      then have "y = Panics \<or> y = Fails InvalidCalldata" using x unfolding process_events_def by (metis handle_event_errors)
      then show ?thesis using Cons.prems Some x Inl u by auto
    qed (use Cons Some x u in simp)
  qed (use Cons in simp)
qed (simp add: throwM_def)

lemma listen_outcome:
  "listen_for_events env restart w = (r, w') \<Longrightarrow>
     streams w' = drop 1 (streams w) \<and> (r = Inl Panics \<or> r = Inl (Fails StreamTerminated) \<or> r = Inl (Fails NoEventStream))"
  using event_loop_streams [of env restart] event_loop_errors [of env restart]
  by (fastforce simp: listen_for_events_def subscribe_logs_def bindM_def split: list.splits sum.splits)

lemma attempts_outcome:
  "listener_attempts env restart n d w = (r, w') \<Longrightarrow>
     r = Inl Panics \<or> (r = Inr (map (\<lambda>i. d * 2 ^ i) [0..<n - 1]) \<and> streams w' = drop n (streams w))"
proof (induction n arbitrary: d w r w')
  case (Suc n)
  obtain x u where x: "listen_for_events env restart w = (x, u)" by force
  have s: "streams u = drop 1 (streams w)" and ok: "x = Inl Panics \<or> (\<exists>e. x = Inl (Fails e))"
    using listen_outcome [OF x] by auto
  show ?case
  proof (cases "n = 0 \<or> x = Inl Panics \<or> 2 ^ 64 \<le> 2 * d")
    case True
    then show ?thesis using Suc.prems x s ok by (auto split: if_splits)
  next
    case False
    then obtain m where m: "n = Suc m" by (cases n) auto
    obtain r1 u1 where r1: "listener_attempts env restart n (2 * d) u = (r1, u1)" by force
    have shift: "map (\<lambda>i. d * 2 ^ i) [0..<Suc m] = d # map (\<lambda>i. 2 * d * 2 ^ i) [0..<m]"
      by (simp only: upt_conv_Cons [of 0 "Suc m"] map_Suc_upt [symmetric] list.map map_map o_def) (simp add: ac_simps)
    show ?thesis
      using Suc.IH [OF r1] Suc.prems x False ok r1 s
      by (auto simp: bindM_def returnM_def m shift simp del: upt_Suc split: sum.splits)
  qed
qed (simp add: returnM_def)

text \<open>The listener ends after exactly the allowed number of subscriptions, at least one, with pauses of 2, 4, 8, .. seconds
  between them, unless it panics; listening never finishes successfully.\<close>

theorem listener_gives_up:
  "case start_event_listener env restart max_attempts w of
     (Inl e, _) \<Rightarrow> e = Panics
   | (Inr pauses, w') \<Rightarrow> pauses = map (\<lambda>i. 2 ^ (i + 1)) [0..<max 1 max_attempts - 1] \<and>
       streams w' = drop (max 1 max_attempts) (streams w) \<and>
       fst (listen_for_events env restart w) \<noteq> Inr ()"
proof -
  obtain r w' where r: "start_event_listener env restart max_attempts w = (r, w')" by force
  obtain x u where x: "listen_for_events env restart w = (x, u)" by force
  have "x \<noteq> Inr ()" using listen_outcome [OF x] by auto
  moreover have "r = Inl Panics \<or> r = Inr (map (\<lambda>i. 2 * 2 ^ i) [0..<max 1 max_attempts - 1]) \<and> streams w' = drop (max 1 max_attempts) (streams w)"
    using attempts_outcome [of env restart "max 1 max_attempts" 2 w] r by (simp add: start_event_listener_def)
  ultimately show ?thesis by (auto simp: r x)
qed

end
