(* ===== verification/Client_Blocks.thy ===== *)
theory Client_Blocks
  imports Client_Events
begin

text \<open>
  What the block events of the client achieve: a block in order is applied as a whole, the stored blocks stay below
  the expected number, and a restart of the listener does not apply again what was applied before.
\<close>

section \<open>Applying a block\<close>

definition word_frs :: "256 word list \<Rightarrow> fr254 list" where
  "word_frs us = map (\<lambda>u. fr (unat u)) us"

definition block_commitments :: "Block \<Rightarrow> fr254 list" where
  "block_commitments blk = word_frs (concat (map ctx_commitments (blk_transactions blk)))"

definition block_nullifiers :: "Block \<Rightarrow> fr254 list" where
  "block_nullifiers blk = word_frs (concat (map ctx_nullifiers (blk_transactions blk)))"

text \<open>The marks of a block on the commitments of the client: those it creates can be spent, those it nullifies are spent.\<close>

definition on_chain_marks :: "fr254 list \<Rightarrow> fr254 list \<Rightarrow> string \<Rightarrow> CommitmentEntry list \<Rightarrow> CommitmentEntry list" where
  "on_chain_marks cs ns h es =
     update_many (\<lambda>e. ce_nullifier e \<in> set ns) (\<lambda>e. e\<lparr>ce_status := Spent\<rparr>)
       (update_many (\<lambda>e. ce_key e \<in> set cs) (\<lambda>e. e\<lparr>ce_status := Unspent, ce_layer_1_transaction_hash := Some h\<rparr>) es)"

definition requests_of :: "(fr254 \<Rightarrow> string) \<Rightarrow> RequestCommitmentMapping list \<Rightarrow> fr254 list \<Rightarrow> string list" where
  "requests_of hex ms cs = concat (map (\<lambda>c. map rcm_request_id (filter (\<lambda>m. rcm_commitment_hash m = hex c) ms)) cs)"

fun set_states :: "RequestStatus \<Rightarrow> string list \<Rightarrow> Request list \<Rightarrow> Request list" where
  "set_states st [] rs = rs"
| "set_states st (i # is) rs = set_states st is (update_first (\<lambda>r. req_uuid r = i) (\<lambda>r. r\<lparr>req_status := st\<rparr>) rs)"

lemma frs_from_ok: "(\<And>u. u \<in> set us \<Longrightarrow> unat u \<le> fr_modulus) \<Longrightarrow> frs_from t us = Inr (word_frs us)"
  unfolding frs_from_def word_frs_def by (rule mapS_Inr) (simp add: frbn_try_from_eq not_less)

lemma those_expect: "those (map expect_frbn us) = Some xs \<Longrightarrow> u \<in> set us \<Longrightarrow> unat u \<le> fr_modulus"
  by (induction us arbitrary: xs) (auto simp: expect_frbn_def frbn_try_from_eq not_less split: option.splits if_splits)

lemma those_Some: "those (map f xs) = Some ys \<Longrightarrow> x \<in> set xs \<Longrightarrow> \<exists>y. f x = Some y"
  by (induction xs arbitrary: ys) (auto split: option.splits)

lemma converted_in_range:
  assumes "on_chain_transaction_from tx = Some t" "u \<in> set (ctx_commitments tx) \<union> set (ctx_nullifiers tx)"
  shows "unat u \<le> fr_modulus"
  using assms those_expect by (auto simp: on_chain_transaction_from_def split: option.splits)

lemma pending_in_range:
  assumes "stored_block_of env k p blk = Some pending" "tx \<in> set (blk_transactions blk)"
    "u \<in> set (ctx_commitments tx) \<union> set (ctx_nullifiers tx)"
  shows "unat u \<le> fr_modulus"
proof -
  obtain ts where "those (map on_chain_transaction_from (blk_transactions blk)) = Some ts"
    using assms(1) by (auto simp: stored_block_of_def)
  then obtain t where "on_chain_transaction_from tx = Some t" using those_Some [OF _ assms(2)] by blast
  then show ?thesis by (rule converted_in_range) (rule assms(3))
qed

lemma tree_inv_client [simp]:
  "tree_inv th h s c f (w\<lparr>commitments := x\<rparr>) = tree_inv th h s c f w"
  "tree_inv th h s c f (w\<lparr>requests := y\<rparr>) = tree_inv th h s c f w"
  "tree_inv th h s c f (w\<lparr>blocks := z\<rparr>) = tree_inv th h s c f w"
  "tree_inv th h s c f (u\<lparr>published := p\<rparr>) = tree_inv th h s c f u"
  "tree_inv th h s c f (u\<lparr>expected_number := n\<rparr>) = tree_inv th h s c f u"
  by (simp_all add: tree_inv_def look_def [abs_def] cong: option.case_cong)

lemma store_inv_client [simp]:
  "store_inv b (w\<lparr>commitments := x\<rparr>) = store_inv b w" "store_inv b (w\<lparr>requests := y\<rparr>) = store_inv b w"
  "store_inv b (w\<lparr>blocks := z\<rparr>) = store_inv b w" "store_inv b (u\<lparr>published := p\<rparr>) = store_inv b u"
  "store_inv b (u\<lparr>expected_number := n\<rparr>) = store_inv b u"
  by (simp_all add: store_inv_def)

lemma apply_to_tree_ok:
  assumes "store_inv True w" "tree_inv (ev_tree_hash env) h s c f w"
    "\<And>tx u. tx \<in> set (blk_transactions blk) \<Longrightarrow> u \<in> set (ctx_commitments tx) \<Longrightarrow> unat u \<le> fr_modulus"
    "unat (blk_commitments_root blk) \<le> fr_modulus"
    "length (block_commitments blk) mod 2 ^ s = 0" "block_commitments blk \<noteq> []"
    "c + length (block_commitments blk) div 2 ^ s \<le> 2 ^ h"
  obtains b w' where "apply_to_tree env blk w = (Inr b, w')" "store_inv True w'" "tree_db.more w' = tree_db.more w"
    "tree_inv (ev_tree_hash env) h s (c + length (block_commitments blk) div 2 ^ s)
       (put_leaves f (c * 2 ^ s) (block_commitments blk)) w'"
proof -
  let ?cs = "block_commitments blk"
  let ?n = "length ?cs div 2 ^ s" and ?f = "put_leaves f (c * 2 ^ s) ?cs"
  let ?th = "ev_tree_hash env"
  obtain w1 where w1: "store_inv True w1" "nodes_ok ?th (h + s) ?f (look w1)" "store_frame True w1 = store_frame True w"
    "append_sub_trees ?th ?cs True w = (Inr (mnode ?th ?f (h + s) 0, (c + ?n) * 2 ^ s),
       w1\<lparr>metadata := Some \<lparr>tree_height = h, sub_tree_height = s, sub_tree_count = c + ?n, root = mnode ?th ?f (h + s) 0\<rparr>\<rparr>)"
    by (rule append_sub_trees_ok [OF assms(1,2,5,6,7)]) simp
  have r: "get_root w = (Inr (mnode ?th f (h + s) 0), w)"
    using assms(1,2) by (simp add: get_root_def bindM_def read_metadata_ok tree_inv_def store_inv_def returnM_def)
  have cs: "frs_from ''commitment'' (concat (map ctx_commitments (blk_transactions blk))) = Inr ?cs"
    unfolding block_commitments_def by (rule frs_from_ok) (use assms(3) in auto)
  have rt: "frs_from ''commitment'' [blk_commitments_root blk] = Inr (word_frs [blk_commitments_root blk])"
    by (rule frs_from_ok) (use assms(4) in simp)
  have "apply_to_tree env blk w = (Inr ([mnode ?th ?f (h + s) 0] = word_frs [blk_commitments_root blk]),
       w1\<lparr>metadata := Some \<lparr>tree_height = h, sub_tree_height = s, sub_tree_count = c + ?n, root = mnode ?th ?f (h + s) 0\<rparr>\<rparr>)"
    by (simp add: apply_to_tree_def cs rt bindM_def map_errM_def r w1(4) returnM_def liftM_def)
  then show thesis
    by (rule that) (use w1(1-3) in \<open>simp_all add: store_inv_def store_frame_def tree_inv_def\<close>)
qed

lemma mark_on_chain_ok:
  assumes "faults w = []"
    "\<And>tx u. tx \<in> set (blk_transactions blk) \<Longrightarrow> u \<in> set (ctx_commitments tx) \<union> set (ctx_nullifiers tx) \<Longrightarrow> unat u \<le> fr_modulus"
  shows "mark_on_chain blk h n w =
    (Inr (block_commitments blk), w\<lparr>commitments := on_chain_marks (block_commitments blk) (block_nullifiers blk) h (commitments w)\<rparr>)"
proof -
  have "mapS (\<lambda>tx. bindS (frs_from ''commitment'' (ctx_commitments tx)) (\<lambda>cs.
           bindS (frs_from ''nullifier'' (ctx_nullifiers tx)) (\<lambda>ns. Inr (cs, ns)))) (blk_transactions blk) =
      Inr (map (\<lambda>tx. (word_frs (ctx_commitments tx), word_frs (ctx_nullifiers tx))) (blk_transactions blk))"
    by (rule mapS_Inr) (simp add: frs_from_ok assms(2))
  moreover have "concat (map (\<lambda>tx. word_frs (ctx_commitments tx)) (blk_transactions blk)) = block_commitments blk"
    "concat (map (\<lambda>tx. word_frs (ctx_nullifiers tx)) (blk_transactions blk)) = block_nullifiers blk"
    by (simp_all add: block_commitments_def block_nullifiers_def word_frs_def map_concat o_def)
  ultimately show ?thesis
    using assms(1)
    by (simp add: mark_on_chain_def mark_commitments_unspent_def mark_commitments_spent_def mark_many_ok bindM_def
        returnM_def on_chain_marks_def o_def Let_def del: set_concat)
qed

lemma update_request_run:
  "faults w = [] \<Longrightarrow> update_request i st w = (Inr (Some ()),
     w\<lparr>requests := update_first (\<lambda>r. req_uuid r = i) (\<lambda>r. r\<lparr>req_status := st\<rparr>) (requests w)\<rparr>)"
  by (simp add: update_request_def try_write_ok)

lemma update_all: "faults w = [] \<Longrightarrow>
    forM is (\<lambda>i. update_request i st) w = (Inr (map (\<lambda>_. Some ()) is), w\<lparr>requests := set_states st is (requests w)\<rparr>)"
  by (induction "is" arbitrary: w) (simp_all add: bindM_def update_request_run returnM_def)

lemma set_states_append: "set_states st (is @ js) rs = set_states st js (set_states st is rs)"
  by (induction "is" arbitrary: rs) simp_all

lemma find_set_states:
  "find (\<lambda>r. req_uuid r = i) (set_states st is rs) =
     map_option (\<lambda>r. if i \<in> set is then r\<lparr>req_status := st\<rparr> else r) (find (\<lambda>r. req_uuid r = i) rs)"
proof (induction "is" arbitrary: rs)
  case (Cons j js)
  then show ?case by (cases "find (\<lambda>r. req_uuid r = i) rs") (auto simp: find_update_first)
qed (simp add: option.map_ident)

lemma confirm_all: "faults w = [] \<Longrightarrow> forM cs (confirm_requests env) w =
    (Inr (map (\<lambda>_. ()) cs), w\<lparr>requests := set_states Confirmed (requests_of (hex_of env) (mappings w) cs) (requests w)\<rparr>)"
proof (induction cs arbitrary: w)
  case (Cons c cs)
  have one: "confirm_requests env c w = (Inr (),
      w\<lparr>requests := set_states Confirmed (requests_of (hex_of env) (mappings w) [c]) (requests w)\<rparr>)"
    using Cons.prems by (simp add: confirm_requests_def bindM_def get_requests_by_commitment_def try_read_ok update_all returnM_def requests_of_def)
  have "requests_of (hex_of env) (mappings w) (c # cs) =
      requests_of (hex_of env) (mappings w) [c] @ requests_of (hex_of env) (mappings w) cs"
    by (simp add: requests_of_def)
  then show ?case
    using Cons by (simp add: bindM_def one returnM_def set_states_append)
qed (simp add: returnM_def requests_of_def)


lemma notification_run:
  assumes "faults w = []"
  shows "\<exists>n. notification_of env h k cs w = (Inr n, w) \<and>
    (\<exists>ids. n = BlockchainEvent h (nat k) (map (hex_of env) (filter (\<lambda>c. c \<noteq> 0) cs)) ids)"
proof -
  have "forM xs get_requests_by_commitment w = ((Inr (map (\<lambda>c. Some (map rcm_request_id (filter (\<lambda>m. rcm_commitment_hash m = c) (mappings w)))) xs) :: event_error failure + string list option list), w)"
    for xs by (rule forM_pure) (simp add: get_requests_by_commitment_def try_read_ok assms)
  then show ?thesis by (auto simp: notification_of_def bindM_def returnM_def Let_def)
qed

lemma store_new_block:
  "faults w = [] \<Longrightarrow> find_block (sb_layer2_block_number b) (blocks w) = None \<Longrightarrow>
     store_block b w = (Inr (Some ()), w\<lparr>blocks := blocks w @ [b]\<rparr>)"
  by (simp add: store_block_def bindO_def bindM_def try_read_ok try_write_ok returnM_def)

lemma insert_many_new:
  "distinct (map ce_key es) \<Longrightarrow> ce_key ` set es \<inter> ce_key ` set stored = {} \<Longrightarrow> insert_many es stored = (True, stored @ es)"
  by (induction es arbitrary: stored) auto

lemma store_commitments_new:
  assumes "faults w = []" "distinct (map ce_key es)" "ce_key ` set es \<inter> ce_key ` set (commitments w) = {}"
  shows "store_commitments k es d w = (Inr (Some ()), w\<lparr>commitments := commitments w @ es\<rparr>)"
  by (simp add: store_commitments_def bindM_def tryM_def db_call_ok assms insert_many_new returnM_def)

lemma keys_update_many: "(\<And>e. ce_key (g e) = ce_key e) \<Longrightarrow> ce_key ` set (update_many P g es) = ce_key ` set es"
  by (induction es) (simp_all add: update_many_def)

lemma keys_on_chain_marks [simp]: "ce_key ` set (on_chain_marks cs ns h es) = ce_key ` set es"
  by (simp add: on_chain_marks_def keys_update_many)

lemma more_client: "tree_db.more w' = tree_db.more w \<Longrightarrow> blocks w' = blocks w \<and> requests w' = requests w \<and>
    mappings w' = mappings w \<and> commitments w' = commitments w \<and> client_db.more w' = client_db.more w"
  by (cases w; cases w') simp

lemma more_state: "client_db.more w' = client_db.more w \<Longrightarrow> expected_number w' = expected_number w \<and> published w' = published w"
  by (cases w; cases w') simp

text \<open>The block up to the point where it is stored.\<close>

lemma block_run:
  assumes "store_inv True w" "tree_inv (ev_tree_hash env) h s c f w" "expected_number w = n" "i256_to_u64 n = Some k"
    "ca_signer answers = Inr (Some proposer)" "stored_block_of env k proposer blk = Some pending"
    "check_stored_block env pending w = ((Inr () :: event_error failure + unit), w)" "ca_current_block answers = Inr current"
    "unat (blk_commitments_root blk) \<le> fr_modulus"
    "length (block_commitments blk) mod 2 ^ s = 0" "block_commitments blk \<noteq> []"
    "c + length (block_commitments blk) div 2 ^ s \<le> 2 ^ h"
    "mapS (decrypt_one env) (blk_transactions blk) = Inr ess"
    "distinct (map ce_key (concat ess))" "ce_key ` set (concat ess) \<inter> ce_key ` set (commitments w) = {}"
  shows "\<exists>w5 ids. process_propose_block_event env answers blk tx_hash n w = bindM (store_block pending) (\<lambda>_. returnM ()) w5 \<and>
    expected_number w5 = n + 1 \<and> store_inv True w5 \<and>
    tree_inv (ev_tree_hash env) h s (c + length (block_commitments blk) div 2 ^ s) (put_leaves f (c * 2 ^ s) (block_commitments blk)) w5 \<and>
    commitments w5 = on_chain_marks (block_commitments blk) (block_nullifiers blk) tx_hash (commitments w) @ concat ess \<and>
    requests w5 = set_states Confirmed (requests_of (hex_of env) (mappings w) (block_commitments blk)) (requests w) \<and>
    blocks w5 = blocks w \<and>
    published w5 = published w @ [BlockchainEvent tx_hash (nat n) (map (hex_of env) (filter (\<lambda>c. c \<noteq> 0) (block_commitments blk))) ids]"
proof -
  let ?cs = "block_commitments blk"
  have f: "faults w = []" using assms(1) by (simp add: store_inv_def)
  have range: "unat u \<le> fr_modulus"
    if "tx \<in> set (blk_transactions blk)" "u \<in> set (ctx_commitments tx) \<union> set (ctx_nullifiers tx)" for tx u
    by (rule pending_in_range [OF assms(6) that])
  define w0 where "w0 = w\<lparr>expected_number := n + 1\<rparr>"
  obtain b w1 where w1: "apply_to_tree env blk w0 = (Inr b, w1)" "store_inv True w1" "tree_db.more w1 = tree_db.more w0"
    "tree_inv (ev_tree_hash env) h s (c + length ?cs div 2 ^ s) (put_leaves f (c * 2 ^ s) ?cs) w1"
    by (rule apply_to_tree_ok [of w0 env h s c f blk]) (use assms(1,2,9-12) range in \<open>simp_all add: w0_def\<close>)
  have f1: "faults w1 = []" using w1(2) by (simp add: store_inv_def)
  have same: "blocks w1 = blocks w" "requests w1 = requests w" "mappings w1 = mappings w" "commitments w1 = commitments w"
    "expected_number w1 = n + 1" "published w1 = published w"
    using more_client [OF w1(3)] more_state [of w1 w0] by (simp_all add: w0_def)
  define w2 where "w2 = w1\<lparr>commitments := on_chain_marks ?cs (block_nullifiers blk) tx_hash (commitments w)\<rparr>"
  define w3 where "w3 = w2\<lparr>requests := set_states Confirmed (requests_of (hex_of env) (mappings w) ?cs) (requests w)\<rparr>"
  define w4 where "w4 = w3\<lparr>commitments := commitments w3 @ concat ess\<rparr>"
  have marks: "mark_on_chain blk tx_hash n w1 = (Inr ?cs, w2)"
    unfolding w2_def same(4) [symmetric] by (rule mark_on_chain_ok [OF f1]) (use range in blast)
  have f2: "faults w2 = []" "mappings w2 = mappings w" "requests w2 = requests w" using f1 same by (simp_all add: w2_def)
  have confirm: "forM ?cs (confirm_requests env) w2 = ((Inr (map (\<lambda>_. ()) ?cs) :: event_error failure + unit list), w3)"
    using confirm_all [OF f2(1), of ?cs env] f2 by (simp add: w3_def)
  have f3: "faults w3 = []" using f2 by (simp add: w3_def)
  have stored: "store_commitments (env_dup_kind env) (concat ess) d w3 = ((Inr (Some ()) :: event_error failure + unit option), w4)" for d
    unfolding w4_def
    by (rule store_commitments_new [OF f3 assms(14)]) (use assms(15) same in \<open>simp add: w3_def w2_def\<close>)
  have f4: "faults w4 = []" using f3 by (simp add: w4_def)
  obtain nt ids where nt: "notification_of env tx_hash n ?cs w4 = (Inr nt, w4)"
    "nt = BlockchainEvent tx_hash (nat n) (map (hex_of env) (filter (\<lambda>c. c \<noteq> 0) ?cs)) ids"
    using notification_run [OF f4] by blast
  define w5 where "w5 = w4\<lparr>published := published w4 @ [nt]\<rparr>"
  have "process_propose_block_event env answers blk tx_hash n w = bindM (store_block pending) (\<lambda>_. returnM ()) w5"
    by (simp add: process_in_order [OF assms(3-6)] bindM_def assms(7) set_expected_def w0_def [symmetric] apply_block_def assms(8,13)
        w1(1) marks confirm stored nt(1) publish_def w5_def [symmetric] returnM_def liftM_def)
  then show ?thesis
    using w1(2,4) same nt(2) by (intro exI [of _ w5] exI [of _ ids]) (simp add: w5_def w4_def w3_def w2_def)
qed

text \<open>C9. The block the client waits for is applied, when the calls of the database and of the chain succeed: its
  commitments are appended to the commitment tree, whose stored nodes and root are those of the new leaves; the
  client's commitments it creates become spendable and those it nullifies spent; the commitments that decrypt to
  this client are stored; every request with a commitment in the block is confirmed; the block is stored, the
  notification names its non-zero commitments, and the expected number advances by one.\<close>

theorem block_is_applied:
  assumes "store_inv True w" "tree_inv (ev_tree_hash env) h s c f w" "expected_number w = n" "i256_to_u64 n = Some k"
    "ca_signer answers = Inr (Some proposer)" "stored_block_of env k proposer blk = Some pending"
    "find_block k (blocks w) = None" "ca_current_block answers = Inr current"
    "unat (blk_commitments_root blk) \<le> fr_modulus"
    "length (block_commitments blk) mod 2 ^ s = 0" "block_commitments blk \<noteq> []"
    "c + length (block_commitments blk) div 2 ^ s \<le> 2 ^ h"
    "mapS (decrypt_one env) (blk_transactions blk) = Inr ess"
    "distinct (map ce_key (concat ess))" "ce_key ` set (concat ess) \<inter> ce_key ` set (commitments w) = {}"
  shows "let (r, w') = process_propose_block_event env answers blk tx_hash n w; cs = block_commitments blk in
    r = Inr () \<and> expected_number w' = n + 1 \<and> store_inv True w' \<and>
    tree_inv (ev_tree_hash env) h s (c + length cs div 2 ^ s) (put_leaves f (c * 2 ^ s) cs) w' \<and>
    commitments w' = on_chain_marks cs (block_nullifiers blk) tx_hash (commitments w) @ concat ess \<and>
    requests w' = set_states Confirmed (requests_of (hex_of env) (mappings w) cs) (requests w) \<and>
    blocks w' = blocks w @ [pending] \<and>
    (\<exists>ids. published w' = published w @ [BlockchainEvent tx_hash (nat n) (map (hex_of env) (filter (\<lambda>c. c \<noteq> 0) cs)) ids])"
proof -
  let ?cs = "block_commitments blk"
  have f: "faults w = []" using assms(1) by (simp add: store_inv_def)
  have k: "sb_layer2_block_number pending = k" using assms(6) by (auto simp: stored_block_of_def)
  have check: "check_stored_block env pending w = ((Inr () :: event_error failure + unit), w)"
    using f assms(7) k by (simp add: check_stored_block_def get_block_by_number_def bindO_def bindM_def try_read_ok returnM_def)
  obtain w5 ids where w5: "process_propose_block_event env answers blk tx_hash n w = bindM (store_block pending) (\<lambda>_. returnM ()) w5"
    "expected_number w5 = n + 1" "store_inv True w5"
    "tree_inv (ev_tree_hash env) h s (c + length ?cs div 2 ^ s) (put_leaves f (c * 2 ^ s) ?cs) w5"
    "commitments w5 = on_chain_marks ?cs (block_nullifiers blk) tx_hash (commitments w) @ concat ess"
    "requests w5 = set_states Confirmed (requests_of (hex_of env) (mappings w) ?cs) (requests w)" "blocks w5 = blocks w"
    "published w5 = published w @ [BlockchainEvent tx_hash (nat n) (map (hex_of env) (filter (\<lambda>c. c \<noteq> 0) ?cs)) ids]"
    using block_run [OF assms(1-6) check assms(8-15), of tx_hash] by blast
  have "faults w5 = []" using w5(3) by (simp add: store_inv_def)
  then have "store_block pending w5 = ((Inr (Some ()) :: event_error failure + unit option), w5\<lparr>blocks := blocks w5 @ [pending]\<rparr>)"
    by (rule store_new_block) (use assms(7) w5(7) k in simp)
  then show ?thesis using w5 by (simp add: bindM_def returnM_def)
qed


section \<open>Synchronisation\<close>

text \<open>All stored blocks have smaller numbers than the expected one.\<close>

definition blocks_below :: "StoredBlock list \<Rightarrow> int \<Rightarrow> bool" where
  "blocks_below bs n \<longleftrightarrow> (\<forall>b\<in>set bs. int (sb_layer2_block_number b) < n)"

lemma blocks_below_mono: "blocks_below bs n \<Longrightarrow> n \<le> n' \<Longrightarrow> blocks_below bs n'"
  by (auto simp: blocks_below_def)

lemma blocks_below_None: "blocks_below bs n \<Longrightarrow> n \<le> int k \<Longrightarrow> find_block k bs = None"
  by (auto simp: blocks_below_def find_block_def find_None_iff)

lemma below_write:
  fixes g :: "StoredBlock list \<Rightarrow> StoredBlock list" and n :: int
  assumes "\<And>bs. blocks_below bs n \<Longrightarrow> blocks_below (g bs) n"
  shows "keeps (\<lambda>w. blocks_below (blocks w) n) (db_write () (\<lambda>w :: 'z client_db_scheme. w\<lparr>blocks := g (blocks w)\<rparr>))"
  unfolding db_write_def by (rule keeps_db_call) (simp_all add: assms)

lemma below_read: "keeps (\<lambda>w :: 'z client_db_scheme. blocks_below (blocks w) n) (db_read e f)"
  by (rule keeps_db_read) simp

lemma below_update_first: "blocks_below bs n \<Longrightarrow> blocks_below (update_first P (\<lambda>b. b\<lparr>sb_commitments := c\<rparr>) bs) n"
  by (induction bs) (auto simp: blocks_below_def)

lemma below_delete_first: "blocks_below bs n \<Longrightarrow> blocks_below (delete_first P bs) n"
  by (induction bs) (auto simp: blocks_below_def)

lemma below_store: "int (sb_layer2_block_number b) < n \<Longrightarrow> keeps (\<lambda>w. blocks_below (blocks w) n) (store_block b)"
  unfolding store_block_def
  by (intro keeps_bindO keeps_wrapped keeps_if keeps_pure below_read below_write below_update_first; assumption?)
    (simp_all add: blocks_below_def)

lemma below_check: "keeps (\<lambda>w. blocks_below (blocks w) n) (check_stored_block env p)"
  unfolding check_stored_block_def get_block_by_number_def delete_block_by_number_def Let_def
  by (intro keeps_bindM keeps_bindO keeps_wrapped keeps_if keeps_pure below_read below_write below_delete_first; assumption)

lemma same_blocks_below: "(\<And>B. keeps (\<lambda>w. blocks w = B) m) \<Longrightarrow> keeps (\<lambda>w. blocks_below (blocks w) n) m"
  unfolding keeps_def by metis

lemma apply_block_below:
  assumes "int (sb_layer2_block_number p) < n"
  shows "keeps (\<lambda>w. blocks_below (blocks w) n) (apply_block env answers blk h k p)"
proof -
  have pub: "keeps (\<lambda>w. blocks_below (blocks w) n) (publish x)" for x
    by (simp add: publish_def keeps_def)
  show ?thesis
    unfolding apply_block_def Let_def
    by (intro keeps_bindM keeps_pure keeps_if pub below_store [OF assms]; (rule same_blocks_below; intro keeps_intros)?)
qed

text \<open>The hash of a block is never compared while the client runs: the numbers of the stored blocks stay below the
  expected number, and while they are, a client whose expected number is the chain's current one is reported as
  synchronised whatever blocks are on the chain, and an event for the expected block finds no stored block to compare with.\<close>

theorem sync_never_compares:
  assumes "blocks_below (blocks w) (expected_number w)"
  shows "(let w' = snd (process_propose_block_event env answers blk h n w) in blocks_below (blocks w') (expected_number w')) \<and>
    (faults w = [] \<and> sa_current_block sync = Inr (expected_number w) \<and> i256_to_u64 (expected_number w) \<noteq> None \<longrightarrow>
       get_synchronisation_status env sync w = (Inr (new_sync_status Synchronized), w))"
proof
  show "let w' = snd (process_propose_block_event env answers blk h n w) in blocks_below (blocks w') (expected_number w')"
  proof (cases rule: process_cases [of env answers blk h n w])
    case (run k proposer pending)
    obtain r1 w1 where c: "check_stored_block env pending w = ((r1 :: event_error failure + unit), w1)" by force
    have w1: "blocks_below (blocks w1) n" "expected_number w1 = n"
      using keepsD [OF below_check _ c, of n] keepsD [OF check_expected _ c, of n] assms run(1) by simp_all
    show ?thesis
    proof (cases r1)
      case (Inl e)
      then show ?thesis using c w1 by (simp add: run(4) bindM_def)
    next
      case (Inr x)
      let ?w2 = "w1\<lparr>expected_number := n + 1\<rparr>"
      obtain r2 w' where a: "apply_block env answers blk h n pending ?w2 = (r2, w')" by force
      have "int (sb_layer2_block_number pending) < n + 1"
        using run(2,3) by (auto simp: stored_block_of_def i256_to_u64_def split: if_splits)
      then have "blocks_below (blocks w') (n + 1)"
        using keepsD [OF apply_block_below _ a] blocks_below_mono [OF w1(1), of "n + 1"] by simp
      moreover have "expected_number w' = n + 1"
        using keepsD [OF apply_block_expected _ a, of "n + 1"] by simp
      ultimately show ?thesis using c Inr a by (simp add: run(4) bindM_def set_expected_def)
    qed
  qed (use assms in simp)
  show "faults w = [] \<and> sa_current_block sync = Inr (expected_number w) \<and> i256_to_u64 (expected_number w) \<noteq> None \<longrightarrow>
       get_synchronisation_status env sync w = (Inr (new_sync_status Synchronized), w)"
    using blocks_below_None [OF assms, of "nat (expected_number w)"]
    by (auto simp: get_synchronisation_status_def i256_to_u64_def bindM_def get_block_by_number_def bindO_def try_read_ok
        returnM_def liftM_def okM_def Let_def split: if_splits)
qed

text \<open>Restarting while behind the chain empties the commitment tree but keeps the expected number, so none of the
  blocks that were applied before is applied again: the replay of each of them succeeds without an effect and the
  tree stays behind the chain.\<close>

theorem restart_replays_nothing:
  assumes "faults w = []" "sa_current_block sync = Inr current" "expected_number w < current" "n < expected_number w"
  shows "\<exists>w1. restart_event_listener env sync attempts start w =
      bindM (start (case attempts of None \<Rightarrow> 10 | Some k \<Rightarrow> k)) (\<lambda>_. returnM ()) w1 \<and>
    get_root w1 = (Inr 0, w1) \<and> nodes w1 = [] \<and> expected_number w1 = expected_number w \<and>
    process_propose_block_event env' answers blk h n w1 = (Inr (), w1)"
proof -
  let ?w1 = "w\<lparr>metadata := Some \<lparr>tree_height = 29, sub_tree_height = 3, sub_tree_count = 0, root = 0\<rparr>, nodes := [], cache := []\<rparr>"
  have s: "get_synchronisation_status env sync w = (Inr (new_sync_status Desynchronized), w)"
    using assms by (simp add: get_synchronisation_status_def bindM_def liftM_def returnM_def)
  have t: "reset_tree w = ((Inr () :: event_error failure + unit), ?w1)"
    using assms(1) by (simp add: reset_tree_def reset_mutable_tree_def ignoreM_def map_errM_def bindM_def db_write_ok
        new_commitment_tree_def new_mutable_tree_def db_insert_ok)
  have "restart_event_listener env sync attempts start w =
      bindM (start (case attempts of None \<Rightarrow> 10 | Some k \<Rightarrow> k)) (\<lambda>_. returnM ()) ?w1"
    by (simp add: restart_event_listener_def bindM_def map_errM_def s t new_sync_status_def)
  moreover have "get_root ?w1 = (Inr 0, ?w1)"
    using assms(1) by (simp add: get_root_def bindM_def read_metadata_def db_read_ok returnM_def okM_def)
  ultimately show ?thesis using assms(4) by (intro exI [of _ ?w1]) (simp add: past_event_skipped)
qed


section \<open>Witnesses\<close>

definition event_env_ex :: "nat event_env" where
  "event_env_ex = handler_env.extend henv_ex
     \<lparr>ev_tree_hash = (+), ev_de_point = (\<lambda>_. None), ev_set_order = (\<lambda>is. is), ev_info_enabled = False\<rparr>"

definition deposit_tx_ex :: ContractTransaction where
  "deposit_tx_ex = \<lparr>ctx_fee = 0, ctx_commitments = [5, 0, 0, 0], ctx_nullifiers = [0, 0, 0, 0], ctx_public_data = [0, 0, 0, 0]\<rparr>"

definition proposed_block_ex :: Block where
  "proposed_block_ex = \<lparr>blk_commitments_root = 5, blk_nullifier_root = 0, blk_commitments_root_root = 0,
     blk_transactions = [deposit_tx_ex], blk_rollup_proof = []\<rparr>"

definition answers_ex :: "unit + int \<Rightarrow> chain_answers" where
  "answers_ex current = \<lparr>ca_calldata = Inr (Some (Inr (ProposeBlock proposed_block_ex))), ca_signer = Inr (Some 9), ca_current_block = current\<rparr>"

definition state_ex :: "int \<Rightarrow> client_state" where
  "state_ex n = \<lparr>faults = [], metadata = Some \<lparr>tree_height = 1, sub_tree_height = 2, sub_tree_count = 0, root = 0\<rparr>, nodes = [],
     cache = [], blocks = [], requests = [], mappings = [], commitments = [], withdrawals = [], queue = [],
     expected_number = n, published = [], streams = []\<rparr>"

lemma state_ex_simps [simp]: "faults (state_ex n) = []" "expected_number (state_ex n) = n" "blocks (state_ex n) = []"
  "commitments (state_ex n) = []" "store_inv b (state_ex n)" "tree_inv (+) 1 2 0 (\<lambda>_. 0) (state_ex n)"
  by (simp_all add: state_ex_def store_inv_def tree_inv_def nodes_ok_def heap_ok_def look_def mnode_zero)

lemma expect_small: "unat u \<le> fr_modulus \<Longrightarrow> expect_frbn u = Some (fr (unat u))"
  by (simp add: expect_frbn_def frbn_try_from_eq)

lemma proposed_block_ex_pending: obtains pending where "stored_block_of event_env_ex 0 9 proposed_block_ex = Some pending"
proof -
  have e: "expect_frbn 0 = Some (fr 0)" "expect_frbn 5 = Some (fr 5)"
    by (simp_all add: expect_small fr_modulus_def)
  have "\<exists>t. on_chain_transaction_from deposit_tx_ex = Some t"
    by (simp add: on_chain_transaction_from_def deposit_tx_ex_def e secrets_from_u256_def Let_def del: fr_zero)
  then show thesis using that by (auto simp: stored_block_of_def proposed_block_ex_def)
qed

lemma proposed_block_ex_commitments: "block_commitments proposed_block_ex = [fr 5, 0, 0, 0]"
  by (simp add: block_commitments_def proposed_block_ex_def deposit_tx_ex_def word_frs_def)

theorem block_is_applied_witness:
  "fst (process_propose_block_event event_env_ex (answers_ex (Inr 1)) proposed_block_ex ''0x1'' 0 (state_ex 0)) = Inr ()"
proof -
  obtain pending where p: "stored_block_of event_env_ex 0 9 proposed_block_ex = Some pending" by (rule proposed_block_ex_pending)
  have h: "ev_tree_hash event_env_ex = (+)" by (simp add: event_env_ex_def handler_env.defs)
  have d: "mapS (decrypt_one event_env_ex) (blk_transactions proposed_block_ex) = Inr [[]]"
    by (simp add: proposed_block_ex_def decrypt_one_def deposit_tx_ex_def numeral_eq_Suc)
  have n: "i256_to_u64 0 = Some 0" by (simp add: i256_to_u64_def)
  have r: "unat (blk_commitments_root proposed_block_ex) \<le> fr_modulus" by (simp add: proposed_block_ex_def fr_modulus_def)
  show ?thesis
    using block_is_applied [of "state_ex 0" event_env_ex 1 2 0 "\<lambda>_. 0" 0 0 "answers_ex (Inr 1)" 9 proposed_block_ex pending 1 "[[]]" "''0x1''",
        OF _ _ _ n _ p _ _ r _ _ _ d]
    by (simp add: h answers_ex_def find_block_def proposed_block_ex_commitments Let_def del: One_nat_def split: prod.splits)
qed

theorem failed_block_is_lost_witness:
  "process_propose_block_event event_env_ex (answers_ex (Inl ())) proposed_block_ex ''0x1'' 0 (state_ex 0) =
     (Inl (Fails (IOError ''Could not retrieve current block number'')), (state_ex 0)\<lparr>expected_number := 0 + 1\<rparr>)"
proof -
  obtain pending where p: "stored_block_of event_env_ex 0 9 proposed_block_ex = Some pending" by (rule proposed_block_ex_pending)
  have n: "i256_to_u64 0 = Some 0" by (simp add: i256_to_u64_def)
  show ?thesis
    by (rule failed_block_is_lost [OF _ _ n _ p, THEN conjunct1]) (simp_all add: answers_ex_def find_block_def)
qed

theorem block_counted_once_witness:
  "expected_number (snd (process_propose_block_event event_env_ex (answers_ex (Inl ())) proposed_block_ex ''0x1'' 1 (state_ex 0))) \<in> {0, 1}"
  using block_counted_once [OF prod.collapse [symmetric], of event_env_ex "answers_ex (Inl ())" proposed_block_ex "''0x1''" 1 "state_ex 0"]
  by simp

theorem gap_stops_listener_witness:
  "event_loop event_env_ex (returnM ()) [\<lparr>log_event = Some (BlockProposed 3), log_transaction_hash = Some ''0x1'',
     log_chain = answers_ex (Inr 4)\<rparr>] (state_ex 0) = (Inl Panics, state_ex 0)"
  by (rule gap_stops_listener [THEN conjunct2]) (simp_all add: answers_ex_def)

theorem sync_never_compares_witness:
  "get_synchronisation_status event_env_ex \<lparr>sa_current_block = Inr 0, sa_block = Inl ()\<rparr> (state_ex 0) =
     (Inr (new_sync_status Synchronized), state_ex 0)"
  using sync_never_compares [of "state_ex 0" event_env_ex "answers_ex (Inr 1)" proposed_block_ex "''0x1''" 0 "\<lparr>sa_current_block = Inr 0, sa_block = Inl ()\<rparr>"]
  by (simp add: blocks_below_def i256_to_u64_def)

theorem restart_replays_nothing_witness:
  "\<exists>w1. restart_event_listener event_env_ex \<lparr>sa_current_block = Inr 5, sa_block = Inl ()\<rparr> None (\<lambda>_. returnM []) (state_ex 2) =
      bindM ((\<lambda>_. returnM []) (10 :: nat)) (\<lambda>_. returnM ()) w1 \<and>
    process_propose_block_event event_env_ex (answers_ex (Inr 5)) proposed_block_ex ''0x1'' 0 w1 = (Inr (), w1)"
  using restart_replays_nothing [of "state_ex 2" "\<lparr>sa_current_block = Inr 5, sa_block = Inl ()\<rparr>" 5 0 event_env_ex None "\<lambda>_. returnM []"
      event_env_ex "answers_ex (Inr 5)" proposed_block_ex "''0x1''"]
  by auto

end
