(* ===== verification/Circuits.thy ===== *)
theory Circuits
  imports Client_Operation
begin

text \<open>
  Circuits as the builder code of Nightfall writes them (\<open>PlonkCircuit\<close> of \<open>jf_relation\<close>). Building a circuit
  runs the code once on the values of a prover: a variable stands for its value, and every gate adds a constraint.
  A circuit is therefore either an error of the builder, or the value of its result and whether all constraints added
  so far hold of the values. The values that the prover chooses freely are the arguments of a circuit, so a proof that
  verifies for given public inputs exists exactly when some arguments make the circuit return these inputs with all
  constraints satisfied (\<open>accepts\<close>).

  The gates and gadgets of the library are given by what its documentation says of them; the hash, the
  multiplication of a point by a scalar and the hash of the tree nodes are parameters.
\<close>

section \<open>The field as a ring\<close>

instantiation fr254 :: times
begin

definition times_fr254 :: "fr254 \<Rightarrow> fr254 \<Rightarrow> fr254" where
  "x * y = fr (fr_val x * fr_val y)"

instance ..

end

lemma fr_val_times: "fr_val (x * y) = fr_val x * fr_val y mod fr_modulus"
  by (simp add: times_fr254_def)

lemma fr_val_uminus: "fr_val (- x) = (fr_modulus - fr_val x) mod fr_modulus"
  by (simp add: uminus_fr254_def)

instance fr254 :: comm_ring_1
proof
  fix a b c :: fr254
  show "a * b * c = a * (b * c)" by (simp add: fr_val_inject_iff fr_val_times mod_simps ac_simps)
  show "a * b = b * a" by (simp add: fr_val_inject_iff fr_val_times mult.commute)
  show "1 * a = a" by (simp add: fr_val_inject_iff fr_val_times)
  show "(a + b) * c = a * c + b * c"
    by (simp add: fr_val_inject_iff fr_val_times fr_val_plus mod_simps distrib_right)
  have "fr_modulus - fr_val a + fr_val a = fr_modulus" by (simp add: less_imp_le)
  then show "- a + a = 0" by (simp add: fr_val_inject_iff fr_val_plus fr_val_uminus mod_simps)
  show "a - b = a + - b" by (simp add: fr_val_inject_iff fr_val_plus fr_val_uminus fr_val_minus mod_simps)
  show "(0::fr254) \<noteq> 1" by (simp add: fr_val_inject_iff)
qed

section \<open>Circuits\<close>

text \<open>The library reports an error of its own, e.g. for a hash of an unsupported length, as \<open>LibraryError\<close>.\<close>

datatype circuit_error = ParameterError string | LibraryError

type_synonym 'a circuit = "circuit_error + 'a \<times> bool"

definition returnC :: "'a \<Rightarrow> 'a circuit" where
  "returnC x = Inr (x, True)"

definition bindC :: "'a circuit \<Rightarrow> ('a \<Rightarrow> 'b circuit) \<Rightarrow> 'b circuit" where
  "bindC c k =
     (case c of Inl e \<Rightarrow> Inl e
      | Inr (x, ok) \<Rightarrow> (case k x of Inl e \<Rightarrow> Inl e | Inr (y, ok') \<Rightarrow> Inr (y, ok \<and> ok')))"

definition enforce :: "bool \<Rightarrow> unit circuit" where
  "enforce b = Inr ((), b)"

fun mapC :: "('a \<Rightarrow> 'b circuit) \<Rightarrow> 'a list \<Rightarrow> 'b list circuit" where
  "mapC k [] = returnC []"
| "mapC k (x # xs) = bindC (k x) (\<lambda>y. bindC (mapC k xs) (\<lambda>ys. returnC (y # ys)))"

definition accepts :: "'a circuit \<Rightarrow> 'a \<Rightarrow> bool" where
  "accepts c x \<longleftrightarrow> c = Inr (x, True)"

subsection \<open>Gates and gadgets of the library\<close>

text \<open>A \<open>BoolVar\<close> is a truth value; as a variable it is one or zero.\<close>

definition bool_var :: "bool \<Rightarrow> fr254" where
  "bool_var b = (if b then 1 else 0)"

text \<open>\<open>conditional_select(b, x0, x1)\<close> is the last one when \<open>b\<close> holds.\<close>

definition conditional_select :: "bool \<Rightarrow> 'a \<Rightarrow> 'a \<Rightarrow> 'a" where
  "conditional_select b x0 x1 = (if b then x1 else x0)"

definition enforce_equal :: "fr254 \<Rightarrow> fr254 \<Rightarrow> unit circuit" where
  "enforce_equal x y = enforce (x = y)"

definition enforce_true :: "fr254 \<Rightarrow> unit circuit" where
  "enforce_true x = enforce (x = 1)"

definition enforce_in_range :: "fr254 \<Rightarrow> nat \<Rightarrow> unit circuit" where
  "enforce_in_range x n = enforce (fr_val x < 2 ^ n)"

definition logic_or_gate :: "bool \<Rightarrow> bool \<Rightarrow> unit circuit" where
  "logic_or_gate a b = enforce (a \<or> b)"

text \<open>\<open>lc_gate\<close>: the combination of the first four wires is the fifth. \<open>quad_poly_gate\<close> adds two products
  and a constant.\<close>

definition lc_gate :: "fr254 list \<Rightarrow> fr254 list \<Rightarrow> unit circuit" where
  "lc_gate ws qs = enforce (sum_list (map2 (*) qs (take 4 ws)) = ws ! 4)"

definition quad_poly_gate :: "fr254 list \<Rightarrow> fr254 list \<Rightarrow> fr254 list \<Rightarrow> fr254 \<Rightarrow> fr254 \<Rightarrow> unit circuit" where
  "quad_poly_gate ws q_lc q_mul q_o q_c =
     enforce (sum_list (map2 (*) q_lc (take 4 ws)) + q_mul ! 0 * (ws ! 0) * (ws ! 1) + q_mul ! 1 * (ws ! 2) * (ws ! 3) + q_c
       = q_o * (ws ! 4))"

definition is_neutral_point :: "TEAffine \<Rightarrow> bool" where
  "is_neutral_point p \<longleftrightarrow> p = te_zero"

definition poseidon_gadget :: "poseidon \<Rightarrow> fr254 list \<Rightarrow> fr254 circuit" where
  "poseidon_gadget poseidon xs = (case poseidon xs of None \<Rightarrow> Inl LibraryError | Some h \<Rightarrow> returnC h)"

text \<open>What the circuits use of the curve and of the tree.\<close>

record circuit_env =
  ce_poseidon :: poseidon
  ce_scalar_mul :: "fr254 \<Rightarrow> TEAffine \<Rightarrow> TEAffine"
  ce_generator :: TEAffine
  ce_tree_hash :: "fr254 \<Rightarrow> fr254 \<Rightarrow> fr254"
  ce_keccak :: "byte list \<Rightarrow> byte list"

section \<open>Facts\<close>

named_theorems accepts_simps \<open>what it takes for a circuit to be accepted\<close>

lemma accepts_return [accepts_simps]: "accepts (returnC x) y \<longleftrightarrow> x = y"
  by (simp add: accepts_def returnC_def)

lemma accepts_bind [accepts_simps]: "accepts (bindC c k) y \<longleftrightarrow> (\<exists>x. accepts c x \<and> accepts (k x) y)"
  by (auto simp: accepts_def bindC_def split: sum.splits prod.splits)

lemma accepts_enforce [accepts_simps]: "accepts (enforce b) u \<longleftrightarrow> b"
  by (simp add: accepts_def enforce_def)

lemma accepts_poseidon [accepts_simps]: "accepts (poseidon_gadget P xs) h \<longleftrightarrow> P xs = Some h"
  by (auto simp: accepts_def poseidon_gadget_def returnC_def split: option.splits)

lemma accepts_error [accepts_simps]: "\<not> accepts (Inl e) y"
  by (simp add: accepts_def)

lemma accepts_map [accepts_simps]: "accepts (mapC k xs) ys \<longleftrightarrow> list_all2 (\<lambda>x y. accepts (k x) y) xs ys"
proof (induction xs arbitrary: ys)
  case (Cons x xs)
  show ?case by (cases ys) (auto simp: accepts_simps Cons.IH)
qed (auto simp: accepts_simps)

lemma accepts_unique: "accepts c x \<Longrightarrow> accepts c y \<Longrightarrow> x = y"
  by (simp add: accepts_def)

lemma accepts_if [accepts_simps]: "accepts (if b then c else d) x \<longleftrightarrow> (if b then accepts c x else accepts d x)"
  by simp

lemmas gate_defs = enforce_equal_def enforce_true_def enforce_in_range_def logic_or_gate_def lc_gate_def quad_poly_gate_def

lemma bool_var_eq_1 [simp]: "bool_var b = 1 \<longleftrightarrow> b"
  by (simp add: bool_var_def)

text \<open>A sum of two numbers of which each is below half of the modulus does not wrap around.\<close>

lemma fr_sum_nat: "fr_val a < 2 ^ 252 \<Longrightarrow> fr_val b < 2 ^ 252 \<Longrightarrow> fr_val (a + b) = fr_val a + fr_val b"
  by (simp add: fr_val_plus fr_modulus_def)

end
