(* ===== verification/Circuit_Gadgets.thy ===== *)
theory Circuit_Gadgets
  imports Circuits Kemdem
begin

text \<open>
  The gadgets of the client's circuit, \<open>nightfall_client/src/driven/plonk_prover/circuits/\<close>:
  \<open>verify/verify_commitments_gadgets.rs\<close>, \<open>verify/verify_nullifiers_gadgets.rs\<close>,
  \<open>verify/verify_duplicates_gadgets.rs\<close>, \<open>kemdem_gadgets.rs\<close> and \<open>verify/verify_encryption_gadgets.rs\<close>, each
  with what its acceptance means.

  The variables that \<open>kem\<close> and \<open>dem\<close> make of their constants with \<open>create_variable\<close> are not constrained to these
  constants (the library has \<open>create_constant_variable\<close> for that), so they are arguments here; the prover of
  Nightfall gives them the values of \<open>built_constants\<close>.
\<close>

section \<open>The gadgets\<close>

definition verify_commitments ::
    "circuit_env \<Rightarrow> fr254 \<Rightarrow> fr254 \<Rightarrow> fr254 \<Rightarrow> fr254 \<Rightarrow> fr254 \<Rightarrow> fr254 \<Rightarrow> fr254 \<Rightarrow> fr254 list \<Rightarrow> TEAffine list \<Rightarrow> fr254 list \<Rightarrow>
     bool \<Rightarrow> fr254 list circuit" where
  "verify_commitments env fee_token_id nf_address token_id slot_id value fee shared_secret_y new_commitments_values
       recipient_public_key new_commitments_salts withdraw_flag =
     bindC (poseidon_gadget (ce_poseidon env) [token_id, slot_id, value, te_x (recipient_public_key ! 0),
         te_y (recipient_public_key ! 0), shared_secret_y]) (\<lambda>first_commitment_hash.
     (let first_commitment = conditional_select withdraw_flag first_commitment_hash 0;
          is_transfer_change_zero = (new_commitments_values ! 0 = 0) in
     bindC (poseidon_gadget (ce_poseidon env) [token_id, slot_id, new_commitments_values ! 0, te_x (recipient_public_key ! 1),
         te_y (recipient_public_key ! 1), new_commitments_salts ! 0]) (\<lambda>second_commitment_hash.
     (let second_commitment = conditional_select is_transfer_change_zero second_commitment_hash 0;
          is_fee_zero = (fee = 0) in
     bindC (poseidon_gadget (ce_poseidon env) [fee_token_id, fee_token_id, fee, 0, nf_address, new_commitments_salts ! 1])
       (\<lambda>third_commitment_hash.
     (let third_commitment = conditional_select is_fee_zero third_commitment_hash 0;
          is_fee_change_zero = (new_commitments_values ! 1 = 0) in
     bindC (poseidon_gadget (ce_poseidon env) [fee_token_id, fee_token_id, new_commitments_values ! 1,
         te_x (recipient_public_key ! 1), te_y (recipient_public_key ! 1), new_commitments_salts ! 2]) (\<lambda>final_commitment_hash.
     (let final_commitment = conditional_select is_fee_change_zero final_commitment_hash 0 in
     returnC [first_commitment, second_commitment, third_commitment, final_commitment]))))))))"

definition verify_first_nullifier ::
    "circuit_env \<Rightarrow> fr254 \<Rightarrow> fr254 \<Rightarrow> fr254 \<Rightarrow> TEAffine \<Rightarrow> fr254 \<Rightarrow> fr254 \<Rightarrow> fr254 \<Rightarrow> fr254 PathElement list \<Rightarrow> fr254 list \<Rightarrow>
     fr254 circuit" where
  "verify_first_nullifier env token_id slot_id nullifiers_key public_key rt old_value old_salt path secret_preimage =
     bindC (poseidon_gadget (ce_poseidon env) [token_id, slot_id, old_value, te_x public_key, te_y public_key, old_salt])
       (\<lambda>commitment_hash_1.
     bindC (poseidon_gadget (ce_poseidon env) [nullifiers_key, commitment_hash_1]) (\<lambda>nullifier_1.
     (let calc_root = path_root (ce_tree_hash env) commitment_hash_1 path in
     bindC (enforce_equal calc_root rt) (\<lambda>_.
     bindC (poseidon_gadget (ce_poseidon env) secret_preimage) (\<lambda>secret_hash.
     (let neutral_point = is_neutral_point public_key;
          salt_to_enforce = conditional_select neutral_point old_salt secret_hash in
     bindC (enforce_equal salt_to_enforce old_salt) (\<lambda>_. returnC nullifier_1)))))))"

text \<open>The second, third and fourth nullifier are verified by three copies of the same code, for the slots 1, 2 and 3.\<close>

definition verify_other_nullifier ::
    "circuit_env \<Rightarrow> fr254 \<Rightarrow> fr254 \<Rightarrow> fr254 \<Rightarrow> TEAffine \<Rightarrow> fr254 \<Rightarrow> fr254 \<Rightarrow> fr254 \<Rightarrow> fr254 PathElement list \<Rightarrow> fr254 list \<Rightarrow>
     fr254 circuit" where
  "verify_other_nullifier env token_id slot_id nullifiers_key public_key rt old_value old_salt path secret_preimage =
     (let is_zero = (old_value = 0) in
     bindC (poseidon_gadget (ce_poseidon env) [token_id, slot_id, old_value, te_x public_key, te_y public_key, old_salt])
       (\<lambda>commitment_hash.
     bindC (poseidon_gadget (ce_poseidon env) [nullifiers_key, commitment_hash]) (\<lambda>nullifier.
     (let calc_root = path_root (ce_tree_hash env) commitment_hash path;
          root_is_equal = (calc_root = rt);
          is_valid = conditional_select is_zero (bool_var root_is_equal) 1 in
     bindC (enforce_true is_valid) (\<lambda>_.
     (let nullifier_out = conditional_select is_zero nullifier 0 in
     bindC (poseidon_gadget (ce_poseidon env) secret_preimage) (\<lambda>secret_hash.
     (let neutral_point = is_neutral_point public_key;
          salt_to_enforce = conditional_select neutral_point old_salt secret_hash;
          salt_to_enforce = conditional_select is_zero salt_to_enforce 0 in
     bindC (enforce_equal salt_to_enforce old_salt) (\<lambda>_. returnC nullifier_out)))))))))"

definition verify_nullifiers ::
    "circuit_env \<Rightarrow> fr254 \<Rightarrow> fr254 \<Rightarrow> fr254 \<Rightarrow> fr254 \<Rightarrow> TEAffine list \<Rightarrow> fr254 list \<Rightarrow> fr254 list \<Rightarrow> fr254 list \<Rightarrow>
     fr254 PathElement list list \<Rightarrow> fr254 list list \<Rightarrow> fr254 list circuit" where
  "verify_nullifiers env fee_token_id nf_token_id nf_slot_id nullifiers_key public_keys roots old_commitment_values
       old_commitment_salts membership_proofs secret_preimages =
     bindC (verify_first_nullifier env nf_token_id nf_slot_id nullifiers_key (public_keys ! 0) (roots ! 0)
       (old_commitment_values ! 0) (old_commitment_salts ! 0) (membership_proofs ! 0) (secret_preimages ! 0)) (\<lambda>nullifier_1.
     bindC (verify_other_nullifier env nf_token_id nf_slot_id nullifiers_key (public_keys ! 1) (roots ! 1)
       (old_commitment_values ! 1) (old_commitment_salts ! 1) (membership_proofs ! 1) (secret_preimages ! 1)) (\<lambda>nullifier_2_out.
     bindC (verify_other_nullifier env fee_token_id fee_token_id nullifiers_key (public_keys ! 2) (roots ! 2)
       (old_commitment_values ! 2) (old_commitment_salts ! 2) (membership_proofs ! 2) (secret_preimages ! 2)) (\<lambda>nullifier_3_out.
     bindC (verify_other_nullifier env fee_token_id fee_token_id nullifiers_key (public_keys ! 3) (roots ! 3)
       (old_commitment_values ! 3) (old_commitment_salts ! 3) (membership_proofs ! 3) (secret_preimages ! 3)) (\<lambda>nullifier_4_out.
     returnC [nullifier_1, nullifier_2_out, nullifier_3_out, nullifier_4_out]))))"

definition no_duplicate :: "fr254 list \<Rightarrow> nat \<times> nat \<Rightarrow> unit circuit" where
  "no_duplicate vars = (\<lambda>(i, j).
     (let tmp_one = (vars ! j = 0);
          tmp_two = (vars ! j = vars ! i);
          tmp_three = (\<not> tmp_two)
      in logic_or_gate tmp_one tmp_three))"

definition slot_pairs :: "(nat \<times> nat) list" where
  "slot_pairs = concat (map (\<lambda>i. map (\<lambda>j. (i, j)) [i + 1..<4]) [0..<4])"

definition verify_duplicates :: "fr254 list \<Rightarrow> fr254 list \<Rightarrow> unit circuit" where
  "verify_duplicates nullifiers_vars commitments_vars =
     bindC (mapC (no_duplicate nullifiers_vars) slot_pairs) (\<lambda>_.
     bindC (mapC (no_duplicate commitments_vars) slot_pairs) (\<lambda>_. returnC ()))"

text \<open>The variables that the builder makes of constants without constraining them: the generator in
  \<open>assess_operation_integrity\<close>, the two domain separators, and the index of each block of the plain text.\<close>

record built_variables =
  bv_pub_point :: TEAffine
  bv_domain_kem :: fr254
  bv_domain_dem :: fr254
  bv_indices :: "fr254 list"

definition built_constants :: "circuit_env \<Rightarrow> built_variables" where
  "built_constants env = \<lparr>bv_pub_point = ce_generator env, bv_domain_kem = DOMAIN_KEM, bv_domain_dem = DOMAIN_DEM,
     bv_indices = [fr 0, fr 1, fr 2]\<rparr>"

definition kem :: "circuit_env \<Rightarrow> built_variables \<Rightarrow> TEAffine \<Rightarrow> fr254 circuit" where
  "kem env bv shared_secret =
     (let domain_kem_var = bv_domain_kem bv in
      poseidon_gadget (ce_poseidon env) [te_x shared_secret, te_y shared_secret, domain_kem_var])"

definition dem :: "circuit_env \<Rightarrow> built_variables \<Rightarrow> fr254 \<Rightarrow> fr254 list \<Rightarrow> fr254 list circuit" where
  "dem env bv encryption_key_var plain_text =
     (let domain_dem_var = bv_domain_dem bv in
      mapC (\<lambda>(i, plain).
        bindC (poseidon_gadget (ce_poseidon env) [encryption_key_var, domain_dem_var, bv_indices bv ! i]) (\<lambda>tmp_hash.
        returnC (tmp_hash + plain)))
        (enumerate 0 plain_text))"

definition kemdem :: "circuit_env \<Rightarrow> built_variables \<Rightarrow> fr254 \<Rightarrow> TEAffine \<Rightarrow> fr254 list \<Rightarrow> (TEAffine \<times> fr254 list) circuit" where
  "kemdem env bv ephemeral_key shared_secret plain_text =
     bindC (kem env bv shared_secret) (\<lambda>encryption_key_var.
     bindC (dem env bv encryption_key_var plain_text) (\<lambda>cipher_text.
     (let epk = ce_scalar_mul env ephemeral_key (ce_generator env) in returnC (epk, cipher_text))))"

definition verify_encryption ::
    "circuit_env \<Rightarrow> built_variables \<Rightarrow> fr254 \<Rightarrow> fr254 \<Rightarrow> fr254 \<Rightarrow> TEAffine \<Rightarrow> fr254 \<Rightarrow> fr254 \<Rightarrow> bool \<Rightarrow> fr254 list circuit" where
  "verify_encryption env bv nf_token_id nf_slot_id new_commitments_value shared_secret ephemeral_key withdraw_address withdraw_flag =
     bindC (kemdem env bv ephemeral_key shared_secret [nf_token_id, nf_slot_id, new_commitments_value])
       (\<lambda>(epk, cipher_text_kem_dem).
     (let x = te_x epk;
          neg_x = 0 - x;
          flag = (neg_x < x);
          cipher_text_kem_dem = cipher_text_kem_dem @ [te_y epk, bool_var flag] in
      if length cipher_text_kem_dem \<noteq> 5
      then Inl (ParameterError ''Calculated cipher text has length not equal to 4'')
      else
        (let withdraw_cipher_text = [nf_token_id, withdraw_address, new_commitments_value, 0, 0]
         in returnC (map2 (conditional_select withdraw_flag) cipher_text_kem_dem withdraw_cipher_text))))"

section \<open>What the gadgets accept\<close>

definition commitment_of :: "circuit_env \<Rightarrow> fr254 list \<Rightarrow> fr254" where
  "commitment_of env xs = (case ce_poseidon env xs of Some h \<Rightarrow> h | None \<Rightarrow> 0)"

lemma poseidon_length: "poseidon_ok P \<Longrightarrow> length xs \<in> {2, 3, 4, 6} \<Longrightarrow> \<exists>h. P xs = Some h"
  by (rule poseidon_okD)

lemma commitment_of:
  "poseidon_ok (ce_poseidon env) \<Longrightarrow> length xs \<in> {2, 3, 4, 6} \<Longrightarrow> ce_poseidon env xs = Some (commitment_of env xs)"
  using poseidon_okD [of "ce_poseidon env" xs] by (auto simp: commitment_of_def)

lemma verify_commitments_accepts:
  assumes "poseidon_ok (ce_poseidon env)"
  shows "accepts (verify_commitments env ft nf tok slot v fee sy vs pks salts wd) cs \<longleftrightarrow>
    cs = [if wd then 0 else commitment_of env [tok, slot, v, te_x (pks ! 0), te_y (pks ! 0), sy],
          if vs ! 0 = 0 then 0 else commitment_of env [tok, slot, vs ! 0, te_x (pks ! 1), te_y (pks ! 1), salts ! 0],
          if fee = 0 then 0 else commitment_of env [ft, ft, fee, 0, nf, salts ! 1],
          if vs ! 1 = 0 then 0 else commitment_of env [ft, ft, vs ! 1, te_x (pks ! 1), te_y (pks ! 1), salts ! 2]]"
  by (auto simp: verify_commitments_def Let_def accepts_simps commitment_of [OF assms] conditional_select_def)

text \<open>The reference for one spent commitment: unless it is an empty slot, its nullifier is the hash of the nullifier
  key and of the commitment, the commitment is in the tree with the given root, and a deposit (which has the neutral
  public key) shows the secret that its salt is the hash of.\<close>

definition spends ::
    "circuit_env \<Rightarrow> bool \<Rightarrow> fr254 \<Rightarrow> fr254 \<Rightarrow> fr254 \<Rightarrow> TEAffine \<Rightarrow> fr254 \<Rightarrow> fr254 \<Rightarrow> fr254 \<Rightarrow> fr254 PathElement list \<Rightarrow> fr254 list \<Rightarrow>
     fr254 \<Rightarrow> bool" where
  "spends env may_be_empty tok slot nk pk rt v salt path secret n =
     (if may_be_empty \<and> v = 0 then salt = 0 \<and> n = 0
      else (let c = commitment_of env [tok, slot, v, te_x pk, te_y pk, salt]
            in n = commitment_of env [nk, c] \<and> path_root (ce_tree_hash env) c path = rt \<and>
               (pk = te_zero \<longrightarrow> salt = commitment_of env secret)))"

lemma verify_first_accepts:
  assumes "poseidon_ok (ce_poseidon env)" "length secret = 3"
  shows "accepts (verify_first_nullifier env tok slot nk pk rt v salt path secret) n \<longleftrightarrow>
    spends env False tok slot nk pk rt v salt path secret n"
  using assms(2) by (auto simp: verify_first_nullifier_def Let_def accepts_simps commitment_of [OF assms(1)]
      conditional_select_def is_neutral_point_def spends_def gate_defs)

lemma verify_other_accepts:
  assumes "poseidon_ok (ce_poseidon env)" "length secret = 3"
  shows "accepts (verify_other_nullifier env tok slot nk pk rt v salt path secret) n \<longleftrightarrow>
    spends env True tok slot nk pk rt v salt path secret n"
  using assms(2) by (auto simp: verify_other_nullifier_def Let_def accepts_simps commitment_of [OF assms(1)]
      conditional_select_def is_neutral_point_def spends_def gate_defs)

definition token_of_slot :: "fr254 \<Rightarrow> fr254 \<Rightarrow> nat \<Rightarrow> fr254" where
  "token_of_slot tok ft i = (if i < 2 then tok else ft)"

lemma less_four: "(\<forall>i<4. Q i) \<longleftrightarrow> Q 0 \<and> Q 1 \<and> Q 2 \<and> Q (3 :: nat)"
  by (auto simp: less_Suc_eq numeral_eq_Suc)

lemma length_four: "length xs = 4 \<longleftrightarrow> (\<exists>a b c d. xs = [a, b, c, d])"
  by (auto simp: numeral_eq_Suc length_Suc_conv)

lemma verify_nullifiers_accepts:
  assumes "poseidon_ok (ce_poseidon env)" "\<forall>i<4. length (secrets ! i) = 3"
  shows "accepts (verify_nullifiers env ft tok slot nk pks roots vs salts paths secrets) ns \<longleftrightarrow>
    length ns = 4 \<and> (\<forall>i<4. spends env (0 < i) (token_of_slot tok ft i) (token_of_slot slot ft i) nk
      (pks ! i) (roots ! i) (vs ! i) (salts ! i) (paths ! i) (secrets ! i) (ns ! i))"
proof -
  have s: "length (secrets ! 0) = 3" "length (secrets ! 1) = 3" "length (secrets ! 2) = 3" "length (secrets ! 3) = 3"
    using assms(2) unfolding less_four by blast+
  have nth: "[a, b, c, d] ! 0 = a" "[a, b, c, d] ! 1 = b" "[a, b, c, d] ! 2 = c" "[a, b, c, d] ! 3 = d"
    for a b c d :: fr254 by simp_all
  show ?thesis
    unfolding verify_nullifiers_def accepts_simps less_four length_four
      verify_first_accepts [OF assms(1) s(1)] verify_other_accepts [OF assms(1) s(2)]
      verify_other_accepts [OF assms(1) s(3)] verify_other_accepts [OF assms(1) s(4)]
    by (safe; simp add: token_of_slot_def nth; blast?)
qed

lemma list_all2_unit: "(\<exists>us. list_all2 (\<lambda>x (u :: unit). Q x) xs us) \<longleftrightarrow> (\<forall>x\<in>set xs. Q x)"
proof
  assume "\<forall>x\<in>set xs. Q x"
  then show "\<exists>us. list_all2 (\<lambda>x (u :: unit). Q x) xs us"
    by (intro exI [of _ "replicate (length xs) ()"]) (simp add: list_all2_conv_all_nth)
qed (auto simp: list_all2_conv_all_nth in_set_conv_nth)

definition no_duplicates :: "fr254 list \<Rightarrow> bool" where
  "no_duplicates xs = distinct (filter (\<lambda>x. x \<noteq> 0) xs)"

lemma pairs_no_duplicates:
  assumes "length xs = 4"
  shows "(\<forall>(i, j)\<in>set slot_pairs. xs ! j = 0 \<or> xs ! j \<noteq> xs ! i) \<longleftrightarrow> no_duplicates xs"
proof -
  obtain a b c d where "xs = [a, b, c, d]" using assms unfolding length_four by blast
  then show ?thesis by (auto simp: slot_pairs_def no_duplicates_def upt_rec)
qed

lemma verify_duplicates_accepts:
  assumes "length ns = 4" "length cs = 4"
  shows "accepts (verify_duplicates ns cs) u \<longleftrightarrow> no_duplicates ns \<and> no_duplicates cs"
proof -
  have e: "accepts (enforce b) = (\<lambda>_. b)" for b by (simp add: fun_eq_iff accepts_enforce)
  have "(\<exists>us. accepts (mapC (no_duplicate xs) slot_pairs) us) \<longleftrightarrow> (\<forall>(i, j)\<in>set slot_pairs. xs ! j = 0 \<or> xs ! j \<noteq> xs ! i)" for xs
    unfolding accepts_map no_duplicate_def Let_def logic_or_gate_def
    by (simp only: e split_def list_all2_unit)
  then show ?thesis
    using pairs_no_duplicates [OF assms(1)] pairs_no_duplicates [OF assms(2)]
    by (simp add: verify_duplicates_def accepts_simps)
qed

definition cipher_of :: "circuit_env \<Rightarrow> built_variables \<Rightarrow> fr254 list \<Rightarrow> TEAffine \<Rightarrow> TEAffine \<Rightarrow> fr254 list" where
  "cipher_of env bv plain shared epk =
     (let key = commitment_of env [te_x shared, te_y shared, bv_domain_kem bv]
      in map (\<lambda>i. commitment_of env [key, bv_domain_dem bv, bv_indices bv ! i] + plain ! i) [0..<3] @
         [te_y epk, bool_var (- te_x epk < te_x epk)])"

lemma verify_encryption_accepts:
  assumes "poseidon_ok (ce_poseidon env)"
  shows "accepts (verify_encryption env bv tok slot v shared ek addr wd) ct \<longleftrightarrow>
    ct = (if wd then [tok, addr, v, 0, 0] else cipher_of env bv [tok, slot, v] shared (ce_scalar_mul env ek (ce_generator env)))"
proof -
  have "accepts (kemdem env bv ek shared [tok, slot, v]) r \<longleftrightarrow>
      r = (ce_scalar_mul env ek (ce_generator env),
        take 3 (cipher_of env bv [tok, slot, v] shared (ce_scalar_mul env ek (ce_generator env))))" for r
    by (auto simp: kemdem_def kem_def dem_def Let_def accepts_simps commitment_of [OF assms] cipher_of_def
        list_all2_Cons1 upt_rec numeral_2_eq_2 numeral_3_eq_3)
  then show ?thesis
    by (auto simp: verify_encryption_def accepts_simps Let_def conditional_select_def cipher_of_def upt_rec
        numeral_2_eq_2 numeral_3_eq_3)
qed

end
