(* ===== verification/Unified_Circuit.thy ===== *)
theory Unified_Circuit
  imports Circuit_Gadgets
begin

text \<open>
  The circuit of transfers and withdrawals, \<open>circuits/unified_circuit.rs\<close> with the private inputs as variables
  (\<open>ports/proof.rs\<close>), and the client's prover and verifier \<open>plonk_prover/plonk_proof.rs\<close>, whose proof system is a
  parameter. \<open>operation_circuit\<close> is the part of \<open>assess_operation_integrity\<close> after the variables have been
  made: its arguments are all the values a prover is free to choose.
\<close>

section \<open>The circuit\<close>

record PrivateInputsVar =
  piv_fee_token_id :: fr254
  piv_nf_address :: fr254
  piv_value :: fr254
  piv_nf_token_id :: fr254
  piv_nf_slot_id :: fr254
  piv_nullifiers_values :: "fr254 list"
  piv_nullifiers_salts :: "fr254 list"
  piv_membership_proofs :: "fr254 PathElement list list"
  piv_commitments_values :: "fr254 list"
  piv_commitments_salts :: "fr254 list"
  piv_public_keys :: "TEAffine list"
  piv_recipient_public_key :: TEAffine
  piv_nullifier_key :: fr254
  piv_zkp_private_key :: fr254
  piv_ephemeral_key :: fr254
  piv_withdraw_address :: fr254
  piv_secret_preimages :: "fr254 list list"

text \<open>The conversions to arrays of a fixed length do not fail: their sources are arrays of these lengths. Of a
  membership proof the library makes variables of the path. \<open>bjj_into\<close> is the number of a baby Jubjub scalar.\<close>

definition from_private_inputs :: "('b \<Rightarrow> nat) \<Rightarrow> 'b PrivateInputs \<Rightarrow> PrivateInputsVar" where
  "from_private_inputs bjj_into p =
     \<lparr>piv_fee_token_id = pri_fee_token_id p,
      piv_nf_address = fr (unat (pri_nf_address p)),
      piv_value = pri_value p,
      piv_nf_token_id = pri_nf_token_id p,
      piv_nf_slot_id = pri_nf_slot_id p,
      piv_nullifiers_values = pri_nullifiers_values p,
      piv_nullifiers_salts = pri_nullifiers_salts p,
      piv_membership_proofs = map sibling_path (pri_membership_proofs p),
      piv_commitments_values = pri_commitments_values p,
      piv_commitments_salts = pri_commitments_salts p,
      piv_public_keys = pri_public_keys p,
      piv_recipient_public_key = pri_recipient_public_key p,
      piv_nullifier_key = pri_nullifier_key p,
      piv_zkp_private_key = fr (bjj_into (pri_zkp_private_key p)),
      piv_ephemeral_key = pri_ephemeral_key p,
      piv_withdraw_address = pri_withdraw_address p,
      piv_secret_preimages = pri_secret_preimages p\<rparr>"

definition operation_circuit ::
    "circuit_env \<Rightarrow> built_variables \<Rightarrow> fr254 \<Rightarrow> fr254 list \<Rightarrow> PrivateInputsVar \<Rightarrow> PublicInputs circuit" where
  "operation_circuit env bv fee roots v =
     (let value = piv_value v;
          commitments_values = piv_commitments_values v;
          nullifiers_values = piv_nullifiers_values v;
          withdraw_address = piv_withdraw_address v;
          recipient_public_key = piv_recipient_public_key v in
     bindC (enforce_in_range withdraw_address 160) (\<lambda>_.
     bindC (lc_gate [value, commitments_values ! 0, nullifiers_values ! 0, nullifiers_values ! 1, 0] [1, 1, - 1, - 1]) (\<lambda>_.
     bindC (lc_gate [fee, commitments_values ! 1, nullifiers_values ! 2, nullifiers_values ! 3, 0] [1, 1, - 1, - 1]) (\<lambda>_.
     bindC (enforce_in_range value 96) (\<lambda>_.
     bindC (enforce_in_range fee 96) (\<lambda>_.
     bindC (enforce_in_range (commitments_values ! 0) 96) (\<lambda>_.
     bindC (enforce_in_range (commitments_values ! 1) 96) (\<lambda>_.
     (let pub_point = bv_pub_point bv;
          zkp_pub_key = ce_scalar_mul env (piv_zkp_private_key v) pub_point;
          shared_secret = ce_scalar_mul env (piv_ephemeral_key v) recipient_public_key;
          withdraw_flag = (withdraw_address = 0);
          withdraw_flag = (\<not> withdraw_flag) in
     bindC (verify_commitments env (piv_fee_token_id v) (piv_nf_address v) (piv_nf_token_id v) (piv_nf_slot_id v) value fee
         (te_y shared_secret) commitments_values [recipient_public_key, zkp_pub_key] (piv_commitments_salts v) withdraw_flag)
       (\<lambda>cs.
     bindC (verify_nullifiers env (piv_fee_token_id v) (piv_nf_token_id v) (piv_nf_slot_id v) (piv_nullifier_key v)
         (piv_public_keys v) roots nullifiers_values (piv_nullifiers_salts v) (piv_membership_proofs v) (piv_secret_preimages v))
       (\<lambda>ns.
     bindC (verify_duplicates ns cs) (\<lambda>_.
     bindC (verify_encryption env bv (piv_nf_token_id v) (piv_nf_slot_id v) value shared_secret (piv_ephemeral_key v)
         withdraw_address withdraw_flag) (\<lambda>public_data.
     (let is_neutral = is_neutral_point recipient_public_key in
     bindC (quad_poly_gate [bool_var is_neutral, bool_var withdraw_flag, 0, 0, 1] [- 1, - 1, 0, 0] [fr 2, 0] 1 1) (\<lambda>_.
     returnC (public_inputs_default\<lparr>pi_fee := fee, pi_roots := roots, pi_commitments := cs, pi_nullifiers := ns,
       pi_compressed_secrets := public_data\<rparr>))))))))))))))))"

text \<open>The token of the fee is the hash of the contract's address and zero, ABI encoded, without its last four bits.\<close>

definition fee_token_of :: "circuit_env \<Rightarrow> 160 word \<Rightarrow> fr254" where
  "fee_token_of env nf_address =
     (let fee_token_id_biguint = drop_bit 4 (be_value (ce_keccak env (rev (le_bytes 32 (unat nf_address)) @ rev (le_bytes 32 0))))
      in fr fee_token_id_biguint)"

definition assess_operation_integrity ::
    "circuit_env \<Rightarrow> ('b \<Rightarrow> nat) \<Rightarrow> PublicInputs \<Rightarrow> 'b PrivateInputs \<Rightarrow> (PublicInputs \<times> 'b PrivateInputs) circuit" where
  "assess_operation_integrity env bjj_into public_inputs private_inputs =
     (let private_inputs = private_inputs\<lparr>pri_fee_token_id := fee_token_of env (pri_nf_address private_inputs)\<rparr>;
          v = from_private_inputs bjj_into private_inputs in
      bindC (operation_circuit env (built_constants env) (pi_fee public_inputs) (pi_roots public_inputs) v)
        (\<lambda>full_public_inputs. returnC (full_public_inputs, private_inputs)))"

text \<open>The inputs are only replaced when the circuit has been built.\<close>

definition unified_circuit_builder ::
    "circuit_env \<Rightarrow> ('b \<Rightarrow> nat) \<Rightarrow> PublicInputs \<Rightarrow> 'b PrivateInputs \<Rightarrow> (PublicInputs \<times> 'b PrivateInputs) circuit" where
  "unified_circuit_builder env bjj_into public_input private_input =
     bindC (assess_operation_integrity env bjj_into public_input private_input) returnC"

section \<open>The prover and the verifier\<close>

text \<open>The proof system: \<open>ps_prove\<close> is \<open>recursive_prove\<close> for a satisfied circuit with the given public inputs, and gives
  the proof and the hash of the public inputs; \<open>ps_hash\<close> is the sponge on the public inputs, cut to 31 bytes;
  \<open>ps_verify\<close> is \<open>verify_recursive_proof\<close> with the transcript reproduced from the proof, the hash and the key.\<close>

record ('q, 'k) proof_system =
  ps_prove :: "fr254 list \<Rightarrow> ('q \<times> fr254) option"
  ps_hash :: "fr254 list \<Rightarrow> fr254"
  ps_vk_id :: "'k option"
  ps_transcript_ok :: "'k option \<Rightarrow> fr254 \<Rightarrow> 'q \<Rightarrow> bool"
  ps_verify :: "'q \<Rightarrow> fr254 \<Rightarrow> bool"

record ('q, 'k) PlonkProof =
  pp_proof :: 'q
  pp_pi_hash :: fr254
  pp_vk_id :: "'k option"

definition from_recursive_output :: "'q \<times> fr254 \<Rightarrow> 'k option \<Rightarrow> ('q, 'k) PlonkProof" where
  "from_recursive_output output vk_id = \<lparr>pp_proof = fst output, pp_pi_hash = snd output, pp_vk_id = vk_id\<rparr>"

datatype plonk_error = CircuitFails circuit_error | NotSatisfied | ProvingFails | PublicInputsDoNotMatch | TranscriptFails

text \<open>The public inputs of the circuit are its variables in the order in which they are made public: the fee, the
  roots, the commitments, the nullifiers and the secrets.\<close>

definition plonk_prove ::
    "circuit_env \<Rightarrow> ('b \<Rightarrow> nat) \<Rightarrow> ('q, 'k) proof_system \<Rightarrow> 'b PrivateInputs \<Rightarrow> PublicInputs \<Rightarrow>
     plonk_error + ('q, 'k) PlonkProof \<times> PublicInputs" where
  "plonk_prove env bjj_into ps private_inputs public_inputs =
     (case unified_circuit_builder env bjj_into public_inputs private_inputs of
        Inl e \<Rightarrow> Inl (CircuitFails e)
      | Inr ((public_inputs, private_inputs), satisfied) \<Rightarrow>
          (let pi = public_inputs_vec public_inputs in
           if \<not> satisfied then Inl NotSatisfied
           else (case ps_prove ps pi of
                   None \<Rightarrow> Inl ProvingFails
                 | Some output \<Rightarrow> Inr (from_recursive_output output (ps_vk_id ps), public_inputs))))"

definition plonk_verify ::
    "('q, 'k) proof_system \<Rightarrow> ('q, 'k) PlonkProof \<Rightarrow> PublicInputs \<Rightarrow> plonk_error + bool" where
  "plonk_verify ps proof public_inputs =
     (let input = public_inputs_vec public_inputs;
          hash = ps_hash ps input in
      if hash \<noteq> pp_pi_hash proof then Inl PublicInputsDoNotMatch
      else if \<not> ps_transcript_ok ps (pp_vk_id proof) (pp_pi_hash proof) (pp_proof proof) then Inl TranscriptFails
      else Inr (ps_verify ps (pp_proof proof) (pp_pi_hash proof)))"

section \<open>The reference\<close>

text \<open>The arrays of the private inputs have the lengths that their types give them.\<close>

definition inputs_sized :: "PrivateInputsVar \<Rightarrow> bool" where
  "inputs_sized v \<longleftrightarrow> length (piv_nullifiers_values v) = 4 \<and> length (piv_nullifiers_salts v) = 4 \<and>
     length (piv_membership_proofs v) = 4 \<and> length (piv_commitments_values v) = 2 \<and> length (piv_commitments_salts v) = 3 \<and>
     length (piv_public_keys v) = 4 \<and> length (piv_secret_preimages v) = 4 \<and> (\<forall>s\<in>set (piv_secret_preimages v). length s = 3)"

definition shared_of :: "circuit_env \<Rightarrow> PrivateInputsVar \<Rightarrow> TEAffine" where
  "shared_of env v = ce_scalar_mul env (piv_ephemeral_key v) (piv_recipient_public_key v)"

text \<open>The four commitments that the private inputs give: the transferred value, the change, the fee, the change of the fee.\<close>

definition created :: "circuit_env \<Rightarrow> built_variables \<Rightarrow> fr254 \<Rightarrow> PrivateInputsVar \<Rightarrow> fr254 list" where
  "created env bv fee v =
     (let tok = piv_nf_token_id v; slot = piv_nf_slot_id v; ft = piv_fee_token_id v;
          to = piv_recipient_public_key v; own = ce_scalar_mul env (piv_zkp_private_key v) (bv_pub_point bv);
          change = piv_commitments_values v ! 0; fee_change = piv_commitments_values v ! 1; salts = piv_commitments_salts v
      in [if piv_withdraw_address v \<noteq> 0 then 0
          else commitment_of env [tok, slot, piv_value v, te_x to, te_y to, te_y (shared_of env v)],
          if change = 0 then 0 else commitment_of env [tok, slot, change, te_x own, te_y own, salts ! 0],
          if fee = 0 then 0 else commitment_of env [ft, ft, fee, 0, piv_nf_address v, salts ! 1],
          if fee_change = 0 then 0 else commitment_of env [ft, ft, fee_change, te_x own, te_y own, salts ! 2]])"

definition secrets_of :: "circuit_env \<Rightarrow> built_variables \<Rightarrow> PrivateInputsVar \<Rightarrow> fr254 list" where
  "secrets_of env bv v =
     (if piv_withdraw_address v \<noteq> 0 then [piv_nf_token_id v, piv_withdraw_address v, piv_value v, 0, 0]
      else cipher_of env bv [piv_nf_token_id v, piv_nf_slot_id v, piv_value v] (shared_of env v)
        (ce_scalar_mul env (piv_ephemeral_key v) (ce_generator env)))"

definition spent_slot :: "circuit_env \<Rightarrow> fr254 list \<Rightarrow> PrivateInputsVar \<Rightarrow> nat \<Rightarrow> fr254 \<Rightarrow> bool" where
  "spent_slot env roots v i n =
     spends env (0 < i) (token_of_slot (piv_nf_token_id v) (piv_fee_token_id v) i)
       (token_of_slot (piv_nf_slot_id v) (piv_fee_token_id v) i) (piv_nullifier_key v) (piv_public_keys v ! i) (roots ! i)
       (piv_nullifiers_values v ! i) (piv_nullifiers_salts v ! i) (piv_membership_proofs v ! i) (piv_secret_preimages v ! i) n"

definition operation_statement ::
    "circuit_env \<Rightarrow> built_variables \<Rightarrow> fr254 \<Rightarrow> fr254 list \<Rightarrow> PrivateInputsVar \<Rightarrow> PublicInputs \<Rightarrow> bool" where
  "operation_statement env bv fee roots v out \<longleftrightarrow>
     fr_val (piv_withdraw_address v) < 2 ^ 160 \<and> fr_val (piv_value v) < 2 ^ 96 \<and> fr_val fee < 2 ^ 96 \<and>
     fr_val (piv_commitments_values v ! 0) < 2 ^ 96 \<and> fr_val (piv_commitments_values v ! 1) < 2 ^ 96 \<and>
     piv_value v + piv_commitments_values v ! 0 = piv_nullifiers_values v ! 0 + piv_nullifiers_values v ! 1 \<and>
     fee + piv_commitments_values v ! 1 = piv_nullifiers_values v ! 2 + piv_nullifiers_values v ! 3 \<and>
     (piv_recipient_public_key v = te_zero \<longleftrightarrow> piv_withdraw_address v \<noteq> 0) \<and>
     length (pi_nullifiers out) = 4 \<and> (\<forall>i<4. spent_slot env roots v i (pi_nullifiers out ! i)) \<and>
     no_duplicates (pi_nullifiers out) \<and> no_duplicates (created env bv fee v) \<and>
     pi_fee out = fee \<and> pi_roots out = roots \<and> pi_commitments out = created env bv fee v \<and>
     pi_compressed_secrets out = secrets_of env bv v"

lemma balance_gate: "accepts (lc_gate [a, b, c, d, 0] [1, 1, - 1, - 1]) u \<longleftrightarrow> a + b = c + d"
  by (simp add: gate_defs accepts_simps algebra_simps)

lemma neutral_gate:
  "accepts (quad_poly_gate [bool_var n, bool_var f, 0, 0, 1] [- 1, - 1, 0, 0] [fr 2, 0] 1 1) u \<longleftrightarrow> (n \<longleftrightarrow> f)"
proof -
  have two: "fr 2 = 1 + 1"
    unfolding one_fr254_def plus_fr254_def fr_val_fr by (simp add: fr_modulus_def numeral_2_eq_2)
  show ?thesis by (cases n; cases f) (simp_all add: gate_defs accepts_simps bool_var_def two)
qed

lemma length_created [simp]: "length (created env bv fee v) = 4"
  by (simp add: created_def Let_def)

lemma operation_circuit_accepts:
  assumes "poseidon_ok (ce_poseidon env)" "inputs_sized v"
  shows "accepts (operation_circuit env bv fee roots v) out \<longleftrightarrow> operation_statement env bv fee roots v out"
proof -
  have sec: "\<forall>i<4. length (piv_secret_preimages v ! i) = 3"
    using assms(2) by (auto simp: inputs_sized_def)
  have cs: "accepts (verify_commitments env (piv_fee_token_id v) (piv_nf_address v) (piv_nf_token_id v) (piv_nf_slot_id v)
      (piv_value v) fee (te_y (shared_of env v)) (piv_commitments_values v)
      [piv_recipient_public_key v, ce_scalar_mul env (piv_zkp_private_key v) (bv_pub_point bv)] (piv_commitments_salts v)
      (piv_withdraw_address v \<noteq> 0)) xs \<longleftrightarrow> xs = created env bv fee v" for xs
    unfolding verify_commitments_accepts [OF assms(1)] by (simp add: created_def Let_def)
  have dup: "length ns = 4 \<Longrightarrow> accepts (verify_duplicates ns (created env bv fee v)) u \<longleftrightarrow>
      no_duplicates ns \<and> no_duplicates (created env bv fee v)" for ns u
    by (rule verify_duplicates_accepts) simp_all
  show ?thesis
    unfolding operation_circuit_def Let_def shared_of_def [symmetric] accepts_bind cs balance_gate neutral_gate is_neutral_point_def
      verify_nullifiers_accepts [OF assms(1) sec] verify_encryption_accepts [OF assms(1)] accepts_return
      secrets_of_def [symmetric] enforce_in_range_def accepts_enforce spent_slot_def [symmetric]
    by (cases out) (auto simp: operation_statement_def public_inputs_default_def dup secrets_of_def shared_of_def)
qed

section \<open>Properties\<close>

lemma statement_keys:
  "spent_slot env roots (v\<lparr>piv_nullifier_key := nk, piv_zkp_private_key := zk\<rparr>) i n \<longleftrightarrow>
     spends env (0 < i) (token_of_slot (piv_nf_token_id v) (piv_fee_token_id v) i)
       (token_of_slot (piv_nf_slot_id v) (piv_fee_token_id v) i) nk (piv_public_keys v ! i) (roots ! i)
       (piv_nullifiers_values v ! i) (piv_nullifiers_salts v ! i) (piv_membership_proofs v ! i) (piv_secret_preimages v ! i) n"
  by (simp add: spent_slot_def)

text \<open>The commitment that slot \<open>i\<close> of the private inputs spends.\<close>

definition slot_commitment :: "circuit_env \<Rightarrow> PrivateInputsVar \<Rightarrow> nat \<Rightarrow> fr254" where
  "slot_commitment env v i =
     commitment_of env [token_of_slot (piv_nf_token_id v) (piv_fee_token_id v) i,
       token_of_slot (piv_nf_slot_id v) (piv_fee_token_id v) i, piv_nullifiers_values v ! i,
       te_x (piv_public_keys v ! i), te_y (piv_public_keys v ! i), piv_nullifiers_salts v ! i]"

definition nullifiers_with :: "circuit_env \<Rightarrow> PrivateInputsVar \<Rightarrow> fr254 \<Rightarrow> fr254 list" where
  "nullifiers_with env v nk =
     map (\<lambda>i. if 0 < i \<and> piv_nullifiers_values v ! i = 0 then 0 else commitment_of env [nk, slot_commitment env v i]) [0..<4]"

lemma statement_nullifiers:
  assumes "operation_statement env bv fee roots v out"
  shows "pi_nullifiers out = nullifiers_with env v (piv_nullifier_key v)"
proof (rule nth_equalityI)
  show "length (pi_nullifiers out) = length (nullifiers_with env v (piv_nullifier_key v))"
    using assms by (simp add: operation_statement_def nullifiers_with_def)
  fix i
  assume "i < length (pi_nullifiers out)"
  then have "i < 4" "spent_slot env roots v i (pi_nullifiers out ! i)" using assms by (simp_all add: operation_statement_def)
  then show "pi_nullifiers out ! i = nullifiers_with env v (piv_nullifier_key v) ! i"
    by (cases "i = 0") (auto simp: spent_slot_def spends_def nullifiers_with_def slot_commitment_def Let_def split: if_splits)
qed

text \<open>C7. The unrolled circuit and its reference agree: some values satisfy all constraints with the public inputs
  \<open>out\<close> exactly when the withdrawn address fits 160 bits and the values 96, value and fee are balanced, every
  nullifier belongs to a commitment under its root (or to an empty slot), the commitments and the secrets are those of
  the private inputs, nothing occurs twice, and the recipient is the neutral point exactly for a withdrawal.\<close>

theorem operation_circuit_correct:
  assumes "poseidon_ok (ce_poseidon env)" "inputs_sized v"
  shows "(operation_circuit env bv fee roots v = Inr (out, True)) = operation_statement env bv fee roots v out"
  using operation_circuit_accepts [OF assms] by (simp add: accepts_def)

text \<open>C8. No value is created: when the circuit accepts and the spent commitments hold less than \<open>2^252\<close> each, the value that
  is transferred or withdrawn and its change are, as integers, what the first two slots hold, the fee and its change
  what the other two hold, and all four new values are below \<open>2^96\<close>, so they can be spent under the same condition.\<close>

theorem circuit_conserves_value:
  assumes "poseidon_ok (ce_poseidon env)" "inputs_sized v" "accepts (operation_circuit env bv fee roots v) out"
    "\<forall>x\<in>set (piv_nullifiers_values v). fr_val x < 2 ^ 252"
  shows "fr_val (piv_value v) + fr_val (piv_commitments_values v ! 0) =
      fr_val (piv_nullifiers_values v ! 0) + fr_val (piv_nullifiers_values v ! 1) \<and>
    fr_val (pi_fee out) + fr_val (piv_commitments_values v ! 1) =
      fr_val (piv_nullifiers_values v ! 2) + fr_val (piv_nullifiers_values v ! 3) \<and>
    fr_val (piv_value v) < 2 ^ 96 \<and> fr_val (pi_fee out) < 2 ^ 96 \<and> (\<forall>x\<in>set (piv_commitments_values v). fr_val x < 2 ^ 96)"
proof -
  have st: "operation_statement env bv fee roots v out" using operation_circuit_accepts [OF assms(1,2)] assms(3) by blast
  have n: "fr_val (piv_nullifiers_values v ! i) < 2 ^ 252" if "i < 4" for i
    using assms(2,4) that by (simp add: inputs_sized_def)
  have small: "fr_val x < 2 ^ 96 \<Longrightarrow> fr_val x < 2 ^ 252" for x by simp
  have sums: "fr_val (piv_value v + piv_commitments_values v ! 0) = fr_val (piv_value v) + fr_val (piv_commitments_values v ! 0)"
    "fr_val (fee + piv_commitments_values v ! 1) = fr_val fee + fr_val (piv_commitments_values v ! 1)"
    using st unfolding operation_statement_def by (blast intro: fr_sum_nat small)+
  have "fr_val (piv_nullifiers_values v ! 0 + piv_nullifiers_values v ! 1) = fr_val (piv_nullifiers_values v ! 0) + fr_val (piv_nullifiers_values v ! 1)"
    "fr_val (piv_nullifiers_values v ! 2 + piv_nullifiers_values v ! 3) = fr_val (piv_nullifiers_values v ! 2) + fr_val (piv_nullifiers_values v ! 3)"
    by (auto intro!: fr_sum_nat n)
  moreover have "\<forall>x\<in>set (piv_commitments_values v). fr_val x < 2 ^ 96"
    using st assms(2) by (auto simp: operation_statement_def inputs_sized_def in_set_conv_nth less_Suc_eq numeral_2_eq_2)
  ultimately show ?thesis using sums st by (simp add: operation_statement_def)
qed

text \<open>C20. The keys of the owner are not checked: from an accepted operation, anyone who knows its private inputs gets another
  one that spends the same commitments, with any nullifier key and any key for the change. Only the nullifiers and
  the change differ, so the nullifiers do not stop the same commitment from being spent again.\<close>

theorem nullifier_key_is_free:
  assumes "poseidon_ok (ce_poseidon env)" "inputs_sized v" "accepts (operation_circuit env bv fee roots v) out"
    "v' = v\<lparr>piv_nullifier_key := nk, piv_zkp_private_key := zk\<rparr>"
    "no_duplicates (nullifiers_with env v nk)" "no_duplicates (created env bv fee v')"
  shows "accepts (operation_circuit env bv fee roots v')
      (out\<lparr>pi_nullifiers := nullifiers_with env v nk, pi_commitments := created env bv fee v'\<rparr>) \<and>
    (\<forall>i<4. slot_commitment env v' i = slot_commitment env v i)"
proof -
  have st: "operation_statement env bv fee roots v out" using operation_circuit_accepts [OF assms(1,2)] assms(3) by blast
  have sized: "inputs_sized v'" using assms(2) by (simp add: assms(4) inputs_sized_def)
  have slots: "spent_slot env roots v' i (nullifiers_with env v nk ! i)" if "i < 4" for i
  proof -
    have "spent_slot env roots v i (pi_nullifiers out ! i)" using st that by (simp add: operation_statement_def)
    then show ?thesis
      using that by (auto simp: assms(4) statement_keys spent_slot_def spends_def nullifiers_with_def slot_commitment_def Let_def
          split: if_splits)
  qed
  have "secrets_of env bv v' = secrets_of env bv v" by (simp add: secrets_of_def shared_of_def assms(4))
  then have "operation_statement env bv fee roots v'
      (out\<lparr>pi_nullifiers := nullifiers_with env v nk, pi_commitments := created env bv fee v'\<rparr>)"
    using st slots assms(5,6) by (simp add: operation_statement_def) (simp add: assms(4) nullifiers_with_def)
  moreover have "slot_commitment env v' i = slot_commitment env v i" for i by (simp add: slot_commitment_def assms(4))
  ultimately show ?thesis using operation_circuit_accepts [OF assms(1) sized] by blast
qed

text \<open>Neither are the constants of the encryption: a prover may replace the domain separators and the indices by any other
  values, so a transfer is accepted whose secrets the recipient cannot decrypt.\<close>

theorem encryption_constants_are_free:
  assumes "poseidon_ok (ce_poseidon env)" "inputs_sized v" "accepts (operation_circuit env bv fee roots v) out"
    "bv' = bv\<lparr>bv_domain_kem := k, bv_domain_dem := d, bv_indices := is\<rparr>"
  shows "accepts (operation_circuit env bv' fee roots v) (out\<lparr>pi_compressed_secrets := secrets_of env bv' v\<rparr>)"
proof -
  have st: "operation_statement env bv fee roots v out" using operation_circuit_accepts [OF assms(1,2)] assms(3) by blast
  have "created env bv' fee v = created env bv fee v" by (simp add: created_def assms(4))
  then have "operation_statement env bv' fee roots v (out\<lparr>pi_compressed_secrets := secrets_of env bv' v\<rparr>)"
    using st by (simp add: operation_statement_def)
  then show ?thesis using operation_circuit_accepts [OF assms(1,2)] by blast
qed

text \<open>Nor is the token of the fee: it is a private input that only the honest prover computes from the address, so an
  operation without a fee can pay one with any coin of any token \<open>t\<close> that is in the tree.\<close>

theorem fee_token_is_free:
  assumes "poseidon_ok (ce_poseidon env)" "inputs_sized v" "length roots = 4" "accepts (operation_circuit env bv 0 roots v) out"
    "piv_nullifiers_values v ! 2 = 0" "piv_nullifiers_values v ! 3 = 0" "piv_commitments_values v ! 1 = 0"
    "fee \<noteq> 0" "fr_val fee < 2 ^ 96" "key \<noteq> te_zero" "tcoin = commitment_of env [t, t, fee, te_x key, te_y key, salt]"
    "path_root (ce_tree_hash env) tcoin path = rt"
    "v' = v\<lparr>piv_fee_token_id := t, piv_nullifiers_values := (piv_nullifiers_values v)[2 := fee],
       piv_nullifiers_salts := (piv_nullifiers_salts v)[2 := salt], piv_public_keys := (piv_public_keys v)[2 := key],
       piv_membership_proofs := (piv_membership_proofs v)[2 := path]\<rparr>"
    "ns = (pi_nullifiers out)[2 := commitment_of env [piv_nullifier_key v, tcoin]]" "no_duplicates ns"
    "no_duplicates (created env bv fee v')"
  shows "accepts (operation_circuit env bv fee (roots[2 := rt]) v')
    (out\<lparr>pi_fee := fee, pi_roots := roots[2 := rt], pi_nullifiers := ns, pi_commitments := created env bv fee v'\<rparr>)"
proof -
  have st: "operation_statement env bv 0 roots v out" using operation_circuit_accepts [OF assms(1,2)] assms(4) by blast
  have len: "length (piv_nullifiers_values v) = 4" "length (piv_nullifiers_salts v) = 4" "length (piv_public_keys v) = 4"
    "length (piv_membership_proofs v) = 4" "length (pi_nullifiers out) = 4"
    using assms(2) st by (simp_all add: inputs_sized_def operation_statement_def)
  have sized: "inputs_sized v'" using assms(2) by (simp add: assms(13) inputs_sized_def)
  have slots: "spent_slot env (roots[2 := rt]) v' i (ns ! i)" if i: "i < 4" for i
  proof -
    have old: "spent_slot env roots v i (pi_nullifiers out ! i)" using st i by (simp add: operation_statement_def)
    consider "i < 2" | "i = 2" | "i = 3" using i by linarith
    then show ?thesis
    proof cases
      case 2
      then show ?thesis
        using assms(3,8,10,11,12) len by (simp add: spent_slot_def assms(13,14) token_of_slot_def spends_def Let_def)
    qed (use old assms(6) in \<open>auto simp: spent_slot_def assms(13,14) token_of_slot_def spends_def\<close>)
  qed
  have "secrets_of env bv v' = secrets_of env bv v" by (simp add: secrets_of_def shared_of_def assms(13))
  then have "operation_statement env bv fee (roots[2 := rt]) v'
    (out\<lparr>pi_fee := fee, pi_roots := roots[2 := rt], pi_nullifiers := ns, pi_commitments := created env bv fee v'\<rparr>)"
    using st slots assms(6,7,9,15,16) len by (simp add: operation_statement_def) (simp add: assms(13,14))
  then show ?thesis using operation_circuit_accepts [OF assms(1) sized] by blast
qed

section \<open>Witnesses\<close>

definition cenv_ex :: circuit_env where
  "cenv_ex = \<lparr>ce_poseidon = first_hash, ce_scalar_mul = (\<lambda>k p. p), ce_generator = te_zero, ce_tree_hash = (+),
     ce_keccak = (\<lambda>bs. [32])\<rparr>"

definition owner_ex :: TEAffine where
  "owner_ex = \<lparr>te_x = 1, te_y = 1\<rparr>"

definition v_ex :: PrivateInputsVar where
  "v_ex = \<lparr>piv_fee_token_id = fr 2, piv_nf_address = fr 7, piv_value = fr 5, piv_nf_token_id = fr 1, piv_nf_slot_id = fr 1,
     piv_nullifiers_values = [fr 5, 0, 0, 0], piv_nullifiers_salts = [0, 0, 0, 0], piv_membership_proofs = [[], [], [], []],
     piv_commitments_values = [0, 0], piv_commitments_salts = [0, 0, 0], piv_public_keys = [owner_ex, te_zero, te_zero, te_zero],
     piv_recipient_public_key = owner_ex, piv_nullifier_key = 1, piv_zkp_private_key = 5, piv_ephemeral_key = 3,
     piv_withdraw_address = 0, piv_secret_preimages = replicate 4 [0, 0, 0]\<rparr>"

lemma owner_not_zero: "owner_ex \<noteq> te_zero"
  by (simp add: owner_ex_def te_zero_def)

lemma v_ex_sized: "inputs_sized v_ex"
  by (simp add: inputs_sized_def v_ex_def)

lemma v_ex_created: "created cenv_ex bv 0 v_ex = [fr 1, 0, 0, 0]"
  by (simp add: created_def v_ex_def Let_def commitment_of_def cenv_ex_def first_hash_def)

lemma v_ex_accepted:
  "accepts (operation_circuit cenv_ex (built_constants cenv_ex) 0 [fr 1, 0, 0, 0] v_ex)
    \<lparr>pi_fee = 0, pi_roots = [fr 1, 0, 0, 0], pi_commitments = [fr 1, 0, 0, 0], pi_nullifiers = [1, 0, 0, 0],
     pi_compressed_secrets = secrets_of cenv_ex (built_constants cenv_ex) v_ex\<rparr>"
proof -
  have P: "poseidon_ok (ce_poseidon cenv_ex)" by (simp add: cenv_ex_def poseidon_ok_first)
  have "spent_slot cenv_ex [fr 1, 0, 0, 0] v_ex i ([1, 0, 0, 0] ! i)" if "i < 4" for i
  proof -
    consider "i = 0" | "i = 1" | "i = 2" | "i = 3" using \<open>i < 4\<close> by linarith
    then show ?thesis
      by cases (simp_all add: spent_slot_def v_ex_def spends_def token_of_slot_def commitment_of_def cenv_ex_def first_hash_def owner_not_zero)
  qed
  then show ?thesis
    unfolding operation_circuit_accepts [OF P v_ex_sized] operation_statement_def v_ex_created
    by (simp add: no_duplicates_def) (simp add: v_ex_def owner_not_zero fr_modulus_def)
qed

theorem operation_circuit_correct_witness:
  "operation_statement cenv_ex (built_constants cenv_ex) 0 [fr 1, 0, 0, 0] v_ex
    \<lparr>pi_fee = 0, pi_roots = [fr 1, 0, 0, 0], pi_commitments = [fr 1, 0, 0, 0], pi_nullifiers = [1, 0, 0, 0],
     pi_compressed_secrets = secrets_of cenv_ex (built_constants cenv_ex) v_ex\<rparr>"
  using operation_circuit_correct [of cenv_ex v_ex] v_ex_accepted v_ex_sized
  by (simp add: accepts_def cenv_ex_def poseidon_ok_first)

theorem circuit_conserves_value_witness:
  "fr_val (piv_value v_ex) + fr_val (piv_commitments_values v_ex ! 0) =
     fr_val (piv_nullifiers_values v_ex ! 0) + fr_val (piv_nullifiers_values v_ex ! 1)"
  by (rule conjunct1 [OF circuit_conserves_value [OF _ v_ex_sized v_ex_accepted]])
    (simp_all add: cenv_ex_def poseidon_ok_first v_ex_def fr_modulus_def)

text \<open>The coin with the nullifier \<open>1\<close> is spent again with the nullifier \<open>fr 9\<close>.\<close>

theorem nullifier_key_is_free_witness:
  "\<exists>out. accepts (operation_circuit cenv_ex (built_constants cenv_ex) 0 [fr 1, 0, 0, 0] (v_ex\<lparr>piv_nullifier_key := fr 9, piv_zkp_private_key := 0\<rparr>)) out \<and>
     pi_nullifiers out = [fr 9, 0, 0, 0] \<and> slot_commitment cenv_ex (v_ex\<lparr>piv_nullifier_key := fr 9, piv_zkp_private_key := 0\<rparr>) 0 = slot_commitment cenv_ex v_ex 0"
proof -
  have up: "[0..<4] = [0, 1, 2, 3 :: nat]" by (simp add: upt_rec)
  have n: "nullifiers_with cenv_ex v_ex (fr 9) = [fr 9, 0, 0, 0]"
    by (simp add: nullifiers_with_def up v_ex_def commitment_of_def cenv_ex_def first_hash_def)
  have c: "created cenv_ex (built_constants cenv_ex) 0 (v_ex\<lparr>piv_nullifier_key := fr 9, piv_zkp_private_key := 0\<rparr>) = [fr 1, 0, 0, 0]"
    by (simp add: created_def v_ex_def Let_def commitment_of_def cenv_ex_def first_hash_def)
  have P: "poseidon_ok (ce_poseidon cenv_ex)" by (simp add: cenv_ex_def poseidon_ok_first)
  have d: "no_duplicates (nullifiers_with cenv_ex v_ex (fr 9))"
    "no_duplicates (created cenv_ex (built_constants cenv_ex) 0 (v_ex\<lparr>piv_nullifier_key := fr 9, piv_zkp_private_key := 0\<rparr>))"
    unfolding n c by (simp_all add: no_duplicates_def)
  from nullifier_key_is_free [OF P v_ex_sized v_ex_accepted refl d] show ?thesis
    unfolding n by (elim conjE, intro exI conjI) (assumption, simp_all)
qed

theorem encryption_constants_are_free_witness:
  "\<exists>out. accepts (operation_circuit cenv_ex ((built_constants cenv_ex)\<lparr>bv_domain_kem := 0, bv_domain_dem := 0, bv_indices := [0, 0, 0]\<rparr>)
     0 [fr 1, 0, 0, 0] v_ex) out"
proof -
  have "poseidon_ok (ce_poseidon cenv_ex)" by (simp add: cenv_ex_def poseidon_ok_first)
  from encryption_constants_are_free [OF this v_ex_sized v_ex_accepted refl] show ?thesis ..
qed

definition pick_hash :: poseidon where
  "pick_hash xs = Some (if length xs = 2 then xs ! 1 else hd xs)"

definition cenv2_ex :: circuit_env where
  "cenv2_ex = cenv_ex\<lparr>ce_poseidon := pick_hash\<rparr>"

text \<open>A coin of token \<open>fr 3\<close> pays a fee of \<open>fr 4\<close>, whatever the token of the fee is.\<close>

theorem fee_token_is_free_witness:
  "\<exists>v out. piv_fee_token_id v = fr 3 \<and> accepts (operation_circuit cenv2_ex (built_constants cenv2_ex) (fr 4) [fr 1, 0, fr 3, 0] v) out"
proof -
  let ?bv = "built_constants cenv2_ex"
  let ?out = "\<lparr>pi_fee = 0, pi_roots = [fr 1, 0, 0, 0], pi_commitments = [fr 1, 0, 0, 0], pi_nullifiers = [fr 1, 0, 0, 0],
     pi_compressed_secrets = secrets_of cenv2_ex ?bv v_ex\<rparr>"
  let ?v = "v_ex\<lparr>piv_fee_token_id := fr 3, piv_nullifiers_values := (piv_nullifiers_values v_ex)[2 := fr 4],
       piv_nullifiers_salts := (piv_nullifiers_salts v_ex)[2 := 0], piv_public_keys := (piv_public_keys v_ex)[2 := owner_ex],
       piv_membership_proofs := (piv_membership_proofs v_ex)[2 := []]\<rparr>"
  have H: "commitment_of cenv2_ex xs = (if length xs = 2 then xs ! 1 else hd xs)" for xs
    by (simp add: commitment_of_def cenv2_ex_def cenv_ex_def pick_hash_def)
  have n: "fr 4 \<noteq> 0" "fr 1 \<noteq> fr 3" "fr 1 \<noteq> 0" "fr 3 \<noteq> 0"
    using fr_small(1) [of 4 0] fr_small(1) [of 1 3] fr_small(1) [of 1 0] fr_small(1) [of 3 0] by simp_all
  have P: "poseidon_ok (ce_poseidon cenv2_ex)" by (simp add: cenv2_ex_def poseidon_ok_def pick_hash_def)
  have "spent_slot cenv2_ex [fr 1, 0, 0, 0] v_ex i ([fr 1, 0, 0, 0] ! i)" if "i < 4" for i
  proof -
    consider "i = 0" | "i = 1" | "i = 2" | "i = 3" using \<open>i < 4\<close> by linarith
    then show ?thesis
      by cases (simp_all add: spent_slot_def v_ex_def spends_def token_of_slot_def H owner_not_zero)
  qed
  moreover have "created cenv2_ex ?bv 0 v_ex = [fr 1, 0, 0, 0]" by (simp add: created_def v_ex_def Let_def H)
  ultimately have acc: "accepts (operation_circuit cenv2_ex ?bv 0 [fr 1, 0, 0, 0] v_ex) ?out"
    unfolding operation_circuit_accepts [OF P v_ex_sized] operation_statement_def
    by (simp add: no_duplicates_def) (simp add: v_ex_def owner_not_zero fr_modulus_def)
  have coin: "fr 3 = commitment_of cenv2_ex [fr 3, fr 3, fr 4, te_x owner_ex, te_y owner_ex, 0]" by (simp add: H)
  have ns: "[fr 1, 0, fr 3, 0] = (pi_nullifiers ?out)[2 := commitment_of cenv2_ex [piv_nullifier_key v_ex, fr 3]]" by (simp add: H)
  have cr: "created cenv2_ex ?bv (fr 4) ?v = [fr 1, 0, fr 3, 0]"
    using n(1) by (simp add: created_def v_ex_def Let_def H)
  have d: "no_duplicates [fr 1, 0, fr 3, 0]" using n by (simp add: no_duplicates_def)
  have dc: "no_duplicates (created cenv2_ex ?bv (fr 4) ?v)" unfolding cr by (rule d)
  have small: "fr_val (fr 4) < 2 ^ 96" by (simp add: fr_modulus_def)
  have "accepts (operation_circuit cenv2_ex ?bv (fr 4) ([fr 1, 0, 0, 0][2 := fr 3]) ?v)
      (?out\<lparr>pi_fee := fr 4, pi_roots := [fr 1, 0, 0, 0][2 := fr 3], pi_nullifiers := [fr 1, 0, fr 3, 0],
        pi_commitments := created cenv2_ex ?bv (fr 4) ?v\<rparr>)"
    by (rule fee_token_is_free [OF P v_ex_sized _ acc _ _ _ n(1) small owner_not_zero coin _ refl ns d dc])
      (simp_all add: v_ex_def cenv2_ex_def cenv_ex_def)
  moreover have "[fr 1, 0, 0, 0][2 := fr 3] = [fr 1, 0, fr 3, 0]" by simp
  moreover have "piv_fee_token_id ?v = fr 3" by simp
  ultimately show ?thesis by metis
qed

end
