(* ===== verification/Operation_Proof.thy ===== *)
theory Operation_Proof
  imports Unified_Circuit Client_Handlers
begin

text \<open>
  The client's requests and the circuit together: what \<open>client_operation\<close> gives to the prover, built from the
  commitments that a request selects and makes, satisfies the circuit, and the public inputs that come out are the
  hashes under which the client and the proposers store these commitments.
\<close>

section \<open>What is given to the prover\<close>

definition operation_inputs ::
    "('b::zero, 'y) client_env_scheme \<Rightarrow> Preimage list \<Rightarrow> Preimage list \<Rightarrow> fr254 \<Rightarrow> 'b \<Rightarrow> 'b \<Rightarrow> fr254 \<Rightarrow> DepositSecret list \<Rightarrow>
     (fr254 MembershipProof \<times> fr254) list \<Rightarrow> fr254 list \<Rightarrow> fr254 list \<Rightarrow> 'b PrivateInputs" where
  "operation_inputs env sp nw nk zk ek addr secs xs s1 s2 =
     set_ephemeral_key (env_bjj_into env) ek
       ((private_inputs_default (env_generator env))
         \<lparr>pri_nf_address := env_nf_address env, pri_value := pre_value (nw ! 0), pri_nf_token_id := pre_nf_token_id (sp ! 0),
          pri_nf_slot_id := pre_nf_slot_id (nw ! 0), pri_nullifier_key := nk, pri_nullifiers_values := map pre_value sp,
          pri_nullifiers_salts := s1, pri_commitments_values := [pre_value (nw ! 1), pre_value (nw ! 3)],
          pri_commitments_salts := s2, pri_public_keys := map pre_public_key sp,
          pri_recipient_public_key := (if addr = 0 then pre_public_key (nw ! 0) else te_zero),
          pri_zkp_private_key := zk, pri_membership_proofs := map fst xs, pri_withdraw_address := addr,
          pri_secret_preimages := map deposit_secret_to_array secs\<rparr>)"

definition salt_of :: "poseidon \<Rightarrow> Preimage \<Rightarrow> fr254" where
  "salt_of P c = (case get_salt P (pre_salt c) of Inr s \<Rightarrow> s | Inl _ \<Rightarrow> 0)"

lemma get_salt_of: "poseidon_ok P \<Longrightarrow> get_salt P (pre_salt c) = Inr (salt_of P c)"
  using get_salt_ok [of P "pre_salt c"] by (auto simp: salt_of_def)

lemma salts_of: "poseidon_ok P \<Longrightarrow> mapS (\<lambda>c. get_salt P (pre_salt c)) cs = Inr (map (salt_of P) cs)"
  by (rule mapS_Inr) (rule get_salt_of)

lemma client_operation_prove:
  assumes "poseidon_ok (env_poseidon env)" "value_conserved sp nw" "membership_loop env sp w = (Inr xs, w')"
  shows "client_operation env prove sp nw nk zk ek addr secs w =
    (case prove (operation_inputs env sp nw nk zk ek addr secs xs (map (salt_of (env_poseidon env)) sp)
        (map (salt_of (env_poseidon env)) (tl nw)))
        (public_inputs_default\<lparr>pi_fee := pre_value (nw ! 2), pi_roots := map snd xs\<rparr>) of
       Some (proof, out) \<Rightarrow> (Inr (tx_of proof out), w')
     | None \<Rightarrow> (Inl (Fails ''Transaction could not be completed due to a proving error.''), w'))"
  using assms(2) by (simp add: operation_inputs_def client_operation_def salts_of [OF assms(1)]
      bindM_Inr [of "membership_loop env sp" w, OF assms(3)] tx_of_def returnM_def throwM_def Let_def split: option.split)

lemma key_of: "poseidon_ok P \<Longrightarrow> ce_poseidon cenv = P \<Longrightarrow>
  commitment_key P c = commitment_of cenv [pre_nf_token_id c, pre_nf_slot_id c, pre_value c, te_x (pre_public_key c),
    te_y (pre_public_key c), salt_of P c]"
  using poseidon_okD [of P "[pre_nf_token_id c, pre_nf_slot_id c, pre_value c, te_x (pre_public_key c),
    te_y (pre_public_key c), salt_of P c]"]
  by (auto simp: commitment_key_def preimage_hash_def get_salt_of bindS_def okS_def commitment_of_def)

section \<open>Honest operations\<close>

text \<open>The circuit's parameters are those of the client.\<close>

definition env_fits :: "('b, 'y) handler_env_scheme \<Rightarrow> circuit_env \<Rightarrow> bool" where
  "env_fits env cenv \<longleftrightarrow> poseidon_ok (env_poseidon env) \<and> ce_poseidon cenv = env_poseidon env \<and>
     ce_generator cenv = env_generator env \<and> fee_token_of cenv (env_nf_address env) = env_fee_token_id env \<and>
     (\<forall>k p. env_bjj_into env k < 2 ^ 256 \<and> ce_scalar_mul cenv (fr (env_bjj_into env k)) p = env_times env p k) \<and>
     env_zkp_public_key env = env_times env (env_generator env) (env_zkp_private_key env)"

text \<open>The selected commitments: two of the token and two of the fee's token, all but the first possibly the default;
  those without an owner's key come from deposits.\<close>

definition slot_empty :: "Preimage list \<Rightarrow> nat \<Rightarrow> bool" where
  "slot_empty sp i \<longleftrightarrow> 0 < i \<and> sp ! i = preimage_default"

definition spend_fits :: "fr254 \<Rightarrow> fr254 \<Rightarrow> fr254 \<Rightarrow> Preimage list \<Rightarrow> bool" where
  "spend_fits tok slot ft sp \<longleftrightarrow> length sp = 4 \<and> (\<forall>i<4. slot_empty sp i \<or>
     (pre_nf_token_id (sp ! i) = token_of_slot tok ft i \<and> pre_nf_slot_id (sp ! i) = token_of_slot slot ft i \<and>
      (0 < i \<longrightarrow> pre_value (sp ! i) \<noteq> 0) \<and> (pre_public_key (sp ! i) = te_zero \<longrightarrow> (\<exists>d. pre_salt (sp ! i) = SaltDeposit d))))"

definition nullifier_of :: "circuit_env \<Rightarrow> fr254 \<Rightarrow> Preimage \<Rightarrow> fr254" where
  "nullifier_of cenv nk c = commitment_of cenv [nk, commitment_key (ce_poseidon cenv) c]"

lemma nullifier_of: "poseidon_ok (ce_poseidon cenv) \<Longrightarrow> nullifier_hash (ce_poseidon cenv) c nk = Inr (nullifier_of cenv nk c)"
  using commitment_of [of cenv "[nk, commitment_key (ce_poseidon cenv) c]"]
  by (simp add: nullifier_hash_def commitment_key okS_def bindS_def nullifier_of_def)

text \<open>The public inputs of an operation: the nullifiers of what is spent, and the commitments made for the request,
  where a slot that is not used is zero.\<close>

definition spent_nullifiers :: "circuit_env \<Rightarrow> fr254 \<Rightarrow> Preimage list \<Rightarrow> fr254 list" where
  "spent_nullifiers cenv nk sp = map (\<lambda>i. if slot_empty sp i then 0 else nullifier_of cenv nk (sp ! i)) [0..<4]"

definition made_commitments :: "poseidon \<Rightarrow> fr254 \<Rightarrow> Preimage list \<Rightarrow> fr254 list" where
  "made_commitments P addr nw =
     map (\<lambda>i. if (if i = 0 then addr \<noteq> 0 else pre_value (nw ! i) = 0) then 0 else commitment_key P (nw ! i)) [0..<4]"

definition operation_secrets :: "('b, 'y) handler_env_scheme \<Rightarrow> 'b \<Rightarrow> fr254 \<Rightarrow> Preimage \<Rightarrow> fr254 list option" where
  "operation_secrets env ek addr c =
     (if addr \<noteq> 0 then kemdem_encrypt (env_poseidon env) (env_times env) True ek te_zero [pre_nf_token_id c, addr, pre_value c] (env_generator env)
      else kemdem_encrypt (env_poseidon env) (env_times env) False ek (pre_public_key c)
        [pre_nf_token_id c, pre_nf_slot_id c, pre_value c] (env_generator env))"

lemma cipher_is_kemdem:
  assumes "poseidon_ok (ce_poseidon cenv)" "length plain = 3"
    "\<And>p. ce_scalar_mul cenv e p = smul p ek"
  shows "kemdem_encrypt (ce_poseidon cenv) smul False ek rpk plain (ce_generator cenv) =
    Some (cipher_of cenv (built_constants cenv) plain (ce_scalar_mul cenv e rpk) (ce_scalar_mul cenv e (ce_generator cenv)))"
proof -
  obtain a b c where plain: "plain = [a, b, c]" using assms(2) by (auto simp: numeral_eq_Suc length_Suc_conv)
  show ?thesis
    by (simp add: kemdem_encrypt_def Let_def commitment_of [OF assms(1)] plain assms(3) cipher_of_def built_constants_def
        bool_var_def upt_rec numeral_2_eq_2 numeral_3_eq_3)
qed

lemma sibling_list [simp]: "le_value (le_bytes 32 n) = n" if "n < 2 ^ 256"
  using that le_value_take [of 32 32 n] by simp

lemma salt_of_simps [simp]:
  "salt_of P (preimage_new v t s k (SaltTransfer x)) = x" "salt_of P preimage_default = 0"
  by (simp_all add: salt_of_def get_salt_def preimage_new_def preimage_default_def salt_default_def)

lemma pre_simps [simp]:
  "pre_value (preimage_new v t s k x) = v" "pre_nf_token_id (preimage_new v t s k x) = t"
  "pre_nf_slot_id (preimage_new v t s k x) = s" "pre_public_key (preimage_new v t s k x) = k"
  "pre_salt (preimage_new v t s k x) = x" "pre_value preimage_default = 0"
  by (simp_all add: preimage_new_def preimage_default_def)

lemma deposit_salt:
  assumes "poseidon_ok (ce_poseidon cenv)" "pre_salt c = SaltDeposit d"
  shows "salt_of (ce_poseidon cenv) c = commitment_of cenv (deposit_secret_to_array (get_secret_preimage c))"
  using commitment_of [OF assms(1), of "[preimage_one d, preimage_two d, preimage_three d]"] assms(2)
  by (simp add: salt_of_def get_salt_def deposit_secret_hash_def okS_def get_secret_preimage_def deposit_secret_to_array_def)

text \<open>One spent commitment.\<close>

lemma spends_honest:
  assumes "poseidon_ok (ce_poseidon cenv)"
    "e \<and> c = preimage_default \<or> (pre_nf_token_id c = t \<and> pre_nf_slot_id c = s \<and> (e \<longrightarrow> pre_value c \<noteq> 0) \<and>
       (pre_public_key c = te_zero \<longrightarrow> (\<exists>d. pre_salt c = SaltDeposit d)))"
    "\<not> (e \<and> c = preimage_default) \<Longrightarrow> path_root (ce_tree_hash cenv) (commitment_key (ce_poseidon cenv) c) path = rt"
  shows "spends cenv e t s nk (pre_public_key c) rt (pre_value c) (salt_of (ce_poseidon cenv) c) path
    (deposit_secret_to_array (get_secret_preimage c)) (if e \<and> c = preimage_default then 0 else nullifier_of cenv nk c)"
proof (cases "e \<and> c = preimage_default")
  case True
  then show ?thesis by (simp add: spends_def)
next
  case False
  then have c: "pre_nf_token_id c = t" "pre_nf_slot_id c = s" "e \<longrightarrow> pre_value c \<noteq> 0"
    "pre_public_key c = te_zero \<Longrightarrow> \<exists>d. pre_salt c = SaltDeposit d" using assms(2) by auto
  have k: "commitment_of cenv [t, s, pre_value c, te_x (pre_public_key c), te_y (pre_public_key c), salt_of (ce_poseidon cenv) c] =
      commitment_key (ce_poseidon cenv) c"
    using key_of [OF assms(1) refl, of c] c by simp
  show ?thesis
    using assms(3) [OF False] c(3,4) deposit_salt [OF assms(1), of c]
    by (auto simp: spends_def k nullifier_of_def False)
qed

lemma created_honest:
  assumes "env_fits env cenv" "nw = make_commitments env rnd \<lparr>te_x = 0, te_y = fr (unat (env_nf_address env))\<rparr> key salt tok value fee sp"
    "addr = 0 \<Longrightarrow> salt = SaltTransfer (te_y (env_times env key ek))"
    "piv_fee_token_id v = env_fee_token_id env" "piv_nf_address v = fr (unat (env_nf_address env))" "piv_value v = value"
    "piv_nf_token_id v = tok" "piv_nf_slot_id v = pre_nf_slot_id (sp ! 0)"
    "piv_commitments_values v = [pre_value (nw ! 1), pre_value (nw ! 3)]"
    "piv_commitments_salts v = map (salt_of (env_poseidon env)) (tl nw)"
    "piv_recipient_public_key v = (if addr = 0 then key else te_zero)"
    "piv_zkp_private_key v = fr (env_bjj_into env (env_zkp_private_key env))" "piv_ephemeral_key v = fr (env_bjj_into env ek)"
    "piv_withdraw_address v = addr"
  shows "created cenv (built_constants cenv) fee v = made_commitments (env_poseidon env) addr nw"
proof -
  have P: "poseidon_ok (env_poseidon env)" "ce_poseidon cenv = env_poseidon env" using assms(1) by (simp_all add: env_fits_def)
  have own: "ce_scalar_mul cenv (piv_zkp_private_key v) (bv_pub_point (built_constants cenv)) = env_zkp_public_key env"
    using assms(1,12) by (simp add: env_fits_def built_constants_def)
  have sh: "te_y (shared_of cenv v) = te_y (env_times env (if addr = 0 then key else te_zero) ek)"
    using assms(1,11,13) by (simp add: env_fits_def shared_of_def)
  have keys: "commitment_key (env_poseidon env) (preimage_new a b c p (SaltTransfer s)) = commitment_of cenv [b, c, a, te_x p, te_y p, s]"
    for a b c p s using key_of [OF P, of "preimage_new a b c p (SaltTransfer s)"] by simp
  have up: "[0..<4] = [0, 1, 2, 3 :: nat]" by (simp add: upt_rec)
  show ?thesis
    unfolding created_def made_commitments_def own sh up using assms(3)
    by (simp add: Let_def assms(4-10,14) assms(2) [unfolded make_commitments_def Let_def] keys assms(11))
qed

lemma nth_fields:
  "pri_ephemeral_key (operation_inputs env sp nw nk zk ek addr secs xs s1 s2) = fr (env_bjj_into env ek)"
  if "env_bjj_into env ek < 2 ^ 256"
  using that by (simp add: operation_inputs_def set_ephemeral_key_def)

definition honest_var ::
    "('b::zero, 'y) handler_env_scheme \<Rightarrow> Preimage list \<Rightarrow> Preimage list \<Rightarrow> 'b \<Rightarrow> fr254 \<Rightarrow> (fr254 MembershipProof \<times> fr254) list \<Rightarrow>
     PrivateInputsVar" where
  "honest_var env sp nw ek addr xs =
     from_private_inputs (env_bjj_into env)
       ((operation_inputs env sp nw (env_nullifier_key env) (env_zkp_private_key env) ek addr (map get_secret_preimage sp) xs
          (map (salt_of (env_poseidon env)) sp) (map (salt_of (env_poseidon env)) (tl nw)))
        \<lparr>pri_fee_token_id := env_fee_token_id env\<rparr>)"

lemma inputs_sized_honest:
  assumes "length sp = 4" "length nw = 4" "length xs = 4"
  shows "inputs_sized (honest_var env sp nw ek addr xs)"
  using assms by (simp add: inputs_sized_def honest_var_def from_private_inputs_def operation_inputs_def set_ephemeral_key_def
      deposit_secret_to_array_def)

lemma length_made [simp]: "length (make_commitments env rnd contract key salt tok value fee sp) = 4"
  by (simp add: make_commitments_def Let_def)

lemma honest_statement:
  assumes fits: "env_fits env cenv" "spend_fits tok (pre_nf_slot_id (sp ! 0)) (env_fee_token_id env) sp" "length xs = 4"
    and nw: "nw = make_commitments env rnd \<lparr>te_x = 0, te_y = fr (unat (env_nf_address env))\<rparr> key salt tok value fee sp"
    and to: "if addr = 0 then key \<noteq> te_zero \<and> salt = SaltTransfer (te_y (env_times env key ek)) else fr_val addr < 2 ^ 160"
    and range: "\<forall>c\<in>set nw. fr_val (pre_value c) < 2 ^ 96" "value_conserved sp nw"
    and paths: "\<forall>i<4. slot_empty sp i \<or>
      path_root (ce_tree_hash cenv) (commitment_key (env_poseidon env) (sp ! i)) (sibling_path (fst (xs ! i))) = snd (xs ! i)"
    and dup: "no_duplicates (spent_nullifiers cenv (env_nullifier_key env) sp)"
      "no_duplicates (made_commitments (env_poseidon env) addr nw)"
    and sec: "operation_secrets env ek addr (nw ! 0) = Some secrets"
  shows "accepts (operation_circuit cenv (built_constants cenv) fee (map snd xs) (honest_var env sp nw ek addr xs))
    \<lparr>pi_fee = fee, pi_roots = map snd xs, pi_commitments = made_commitments (env_poseidon env) addr nw,
     pi_nullifiers = spent_nullifiers cenv (env_nullifier_key env) sp, pi_compressed_secrets = secrets\<rparr>"
proof -
  let ?v = "honest_var env sp nw ek addr xs"
  have P: "poseidon_ok (ce_poseidon cenv)" "ce_poseidon cenv = env_poseidon env" "ce_generator cenv = env_generator env"
    using fits(1) by (simp_all add: env_fits_def)
  have sp: "length sp = 4" using fits(2) by (simp add: spend_fits_def)
  have nws: "nw ! 0 = preimage_new value tok (pre_nf_slot_id (sp ! 0)) key salt" "pre_value (nw ! 2) = fee" "length nw = 4"
    unfolding nw by (simp_all add: make_commitments_def Let_def)
  have bjj: "env_bjj_into env k < 2 ^ 256" for k using fits(1) by (simp add: env_fits_def)
  have tok: "pre_nf_token_id (sp ! 0) = tok"
    using fits(2) by (auto simp: spend_fits_def slot_empty_def token_of_slot_def dest: spec [of _ 0])
  have fields: "piv_fee_token_id ?v = env_fee_token_id env" "piv_nf_address ?v = fr (unat (env_nf_address env))"
    "piv_value ?v = value" "piv_nf_token_id ?v = tok" "piv_nf_slot_id ?v = pre_nf_slot_id (sp ! 0)"
    "piv_nullifiers_values ?v = map pre_value sp" "piv_nullifiers_salts ?v = map (salt_of (env_poseidon env)) sp"
    "piv_membership_proofs ?v = map (sibling_path \<circ> fst) xs" "piv_public_keys ?v = map pre_public_key sp"
    "piv_secret_preimages ?v = map (deposit_secret_to_array \<circ> get_secret_preimage) sp"
    "piv_commitments_values ?v = [pre_value (nw ! 1), pre_value (nw ! 3)]"
    "piv_commitments_salts ?v = map (salt_of (env_poseidon env)) (tl nw)"
    "piv_recipient_public_key ?v = (if addr = 0 then key else te_zero)" "piv_nullifier_key ?v = env_nullifier_key env"
    "piv_zkp_private_key ?v = fr (env_bjj_into env (env_zkp_private_key env))"
    "piv_ephemeral_key ?v = fr (env_bjj_into env ek)" "piv_withdraw_address ?v = addr"
    using bjj [of ek] tok by (simp_all add: honest_var_def from_private_inputs_def operation_inputs_def set_ephemeral_key_def nws)
  have created: "created cenv (built_constants cenv) fee ?v = made_commitments (env_poseidon env) addr nw"
    by (rule created_honest [OF fits(1) nw _ fields(1,2,3,4,5,11,12,13,15,16,17)]) (use to in simp)
  have slots: "spent_slot cenv (map snd xs) ?v i (spent_nullifiers cenv (env_nullifier_key env) sp ! i)" if i: "i < 4" for i
  proof -
    have "spends cenv (0 < i) (token_of_slot tok (env_fee_token_id env) i)
        (token_of_slot (pre_nf_slot_id (sp ! 0)) (env_fee_token_id env) i) (env_nullifier_key env)
        (pre_public_key (sp ! i)) (snd (xs ! i)) (pre_value (sp ! i)) (salt_of (ce_poseidon cenv) (sp ! i)) (sibling_path (fst (xs ! i)))
        (deposit_secret_to_array (get_secret_preimage (sp ! i)))
        (if 0 < i \<and> sp ! i = preimage_default then 0 else nullifier_of cenv (env_nullifier_key env) (sp ! i))"
      by (rule spends_honest [OF P(1)]) (use fits(2) paths i in \<open>auto simp: spend_fits_def slot_empty_def P(2)\<close>)
    moreover have "spent_nullifiers cenv (env_nullifier_key env) sp ! i =
        (if 0 < i \<and> sp ! i = preimage_default then 0 else nullifier_of cenv (env_nullifier_key env) (sp ! i))"
      using i by (simp add: spent_nullifiers_def slot_empty_def)
    ultimately show ?thesis
      unfolding spent_slot_def fields using i sp fits(3) by (simp del: pre_simps salt_of_simps add: P(2))
  qed
  have smul: "ce_scalar_mul cenv (fr (env_bjj_into env ek)) p = env_times env p ek" for p
    using fits(1) by (simp add: env_fits_def)
  note kd = cipher_is_kemdem [where smul = "env_times env" and ek = ek and e = "fr (env_bjj_into env ek)" and cenv = cenv
      and plain = "[tok, pre_nf_slot_id (sp ! 0), value]" and rpk = key, OF P(1) _ smul]
  have secrets: "secrets_of cenv (built_constants cenv) ?v = secrets"
    unfolding secrets_of_def shared_of_def fields using sec kd
    by (auto simp: operation_secrets_def nws P(2,3) kemdem_encrypt_def [where is_withdraw = True] split: if_splits)
  have value_range: "fr_val (pre_value (nw ! i)) < 2 ^ 96" if "i < 4" for i
    using range(1) that nws(3) by auto
  obtain a b c d where abcd: "sp = [a, b, c, d]" using sp unfolding length_four by blast
  obtain a' b' c' d' where nwl: "nw = [a', b', c', d']" using nws(3) unfolding length_four by blast
  have cons: "value + pre_value (nw ! 1) = pre_value (sp ! 0) + pre_value (sp ! 1)"
    "fee + pre_value (nw ! 3) = pre_value (sp ! 2) + pre_value (sp ! 3)"
    using range(2) nws(1,2) by (simp_all add: value_conserved_def abcd nwl)
  have own: "(if addr = 0 then key else te_zero) = te_zero \<longleftrightarrow> addr \<noteq> 0" using to by (auto split: if_splits)
  have addr: "fr_val addr < 2 ^ 160" using to by (auto split: if_splits)
  have sized: "inputs_sized ?v" by (rule inputs_sized_honest [OF sp nws(3) fits(3)])
  show ?thesis
    unfolding operation_circuit_accepts [OF P(1) sized] operation_statement_def
    using slots addr value_range [of 0] value_range [of 1] value_range [of 2] value_range [of 3] cons dup sp own
    by (simp add: fields created secrets nws spent_nullifiers_def)
qed

section \<open>Properties\<close>

text \<open>The prover that the client's operation calls, and what is relied on of a proof system: it proves every satisfied
  circuit, and what it proves verifies.\<close>

definition client_prove ::
    "circuit_env \<Rightarrow> ('b \<Rightarrow> nat) \<Rightarrow> ('q, 'k) proof_system \<Rightarrow> 'b PrivateInputs \<Rightarrow> PublicInputs \<Rightarrow>
     (('q, 'k) PlonkProof \<times> PublicInputs) option" where
  "client_prove cenv bjj_into ps pri pub = (case plonk_prove cenv bjj_into ps pri pub of Inl _ \<Rightarrow> None | Inr r \<Rightarrow> Some r)"

definition ps_complete :: "('q, 'k) proof_system \<Rightarrow> bool" where
  "ps_complete ps \<longleftrightarrow> (\<forall>xs. \<exists>q. ps_prove ps xs = Some (q, ps_hash ps xs) \<and>
     ps_transcript_ok ps (ps_vk_id ps) (ps_hash ps xs) q \<and> ps_verify ps q (ps_hash ps xs))"

lemma plonk_prove_accepted:
  assumes "accepts (operation_circuit env (built_constants env) (pi_fee pub) (pi_roots pub)
    (from_private_inputs bjj_into (pri\<lparr>pri_fee_token_id := fee_token_of env (pri_nf_address pri)\<rparr>))) out"
  shows "plonk_prove env bjj_into ps pri pub =
    (case ps_prove ps (public_inputs_vec out) of None \<Rightarrow> Inl ProvingFails
     | Some output \<Rightarrow> Inr (from_recursive_output output (ps_vk_id ps), out))"
  using assms by (simp add: plonk_prove_def unified_circuit_builder_def assess_operation_integrity_def Let_def bindC_def
      accepts_def returnC_def)

lemma plonk_verify_proved:
  assumes "ps_complete ps"
  obtains q where "ps_prove ps (public_inputs_vec out) = Some q"
    "plonk_verify ps (from_recursive_output q (ps_vk_id ps)) out = Inr True"
proof -
  obtain q where "ps_prove ps (public_inputs_vec out) = Some (q, ps_hash ps (public_inputs_vec out))"
    "ps_transcript_ok ps (ps_vk_id ps) (ps_hash ps (public_inputs_vec out)) q" "ps_verify ps q (ps_hash ps (public_inputs_vec out))"
    using assms unfolding ps_complete_def by blast
  then show ?thesis
    by (rule_tac that [of "(q, ps_hash ps (public_inputs_vec out))"]) (simp_all add: plonk_verify_def from_recursive_output_def Let_def)
qed

text \<open>C1. An honest transfer or withdrawal gives a transaction whose proof the proposers accept: when the selected commitments
  are in the database with their paths in the tree, value and fee are conserved and within 96 bits, and no nullifier
  or commitment occurs twice, then \<open>client_operation\<close> with the circuit's prover succeeds, and its transaction
  holds the nullifiers of the selected commitments, the hashes under which the new commitments are stored, the root of
  the tree, and the secrets as the recipient's \<open>kemdem_decrypt\<close> expects them.\<close>

theorem operation_proof_complete:
  assumes "store_inv True w" "tree_inv (ce_tree_hash cenv) h s n f w" "env_fits env cenv" "ps_complete ps"
    "spend_fits tok (pre_nf_slot_id (sp ! 0)) (env_fee_token_id env) sp" "tok \<noteq> 0" "env_fee_token_id env \<noteq> 0"
    "nw = make_commitments env rnd \<lparr>te_x = 0, te_y = fr (unat (env_nf_address env))\<rparr> key salt tok value fee sp"
    "if addr = 0 then key \<noteq> te_zero \<and> salt = SaltTransfer (te_y (env_times env key ek)) else fr_val addr < 2 ^ 160"
    "\<forall>c\<in>set nw. fr_val (pre_value c) < 2 ^ 96" "value_conserved sp nw"
    "no_duplicates (spent_nullifiers cenv (env_nullifier_key env) sp)"
    "no_duplicates (made_commitments (env_poseidon env) addr nw)"
    "operation_secrets env ek addr (nw ! 0) = Some secrets"
    "\<And>p r. path_root (ce_tree_hash cenv) (node_value p) (sibling_path p) = r \<Longrightarrow> env_verify env p r"
    "\<And>c. c \<in> set sp \<Longrightarrow> pre_nf_token_id c \<noteq> 0 \<Longrightarrow> commitment_key (env_poseidon env) c \<in> ce_key ` set (commitments w) \<and>
       (\<exists>p. fst (get_membership_proof (Some (commitment_key (env_poseidon env) c)) None w) = Inr p)"
  shows "\<exists>tx. client_operation env (client_prove cenv (env_bjj_into env) ps) sp nw (env_nullifier_key env) (env_zkp_private_key env)
        ek addr (map get_secret_preimage sp) w = (Inr tx, w) \<and>
      plonk_verify ps (ct_proof tx) (public_inputs_from_tx tx) = Inr True \<and>
      ct_fee tx = fee \<and> ct_commitments tx = made_commitments (env_poseidon env) addr nw \<and>
      ct_nullifiers tx = spent_nullifiers cenv (env_nullifier_key env) sp \<and>
      ct_historic_commitment_roots tx = map (\<lambda>i. if slot_empty sp i then 0 else mnode (ce_tree_hash cenv) f (h + s) 0) [0..<4] \<and>
      cipher_text (ct_compressed_secrets tx) = secrets"
proof -
  let ?root = "mnode (ce_tree_hash cenv) f (h + s) 0"
  have P: "poseidon_ok (env_poseidon env)" using assms(3) by (simp add: env_fits_def)
  have sp: "length sp = 4" using assms(5) by (simp add: spend_fits_def)
  have token: "pre_nf_token_id (sp ! i) = 0 \<longleftrightarrow> slot_empty sp i" if "i < 4" for i
    using assms(5-7) that by (auto simp: spend_fits_def slot_empty_def token_of_slot_def preimage_default_def preimage_new_def split: if_splits)
  obtain xs where loop: "membership_loop env sp w = (Inr xs, w)"
    using membership_loop_succeeds [OF assms(1,2) P assms(15,16)] by blast
  have all: "list_all2 (proved env (ce_tree_hash cenv) f (h + s) (ce_key ` set (commitments w))) sp xs"
    using membership_loop_ok [OF assms(1,2) P loop] by simp
  then have xs: "length xs = 4" using sp by (simp add: list_all2_conv_all_nth)
  have each: "proved env (ce_tree_hash cenv) f (h + s) (ce_key ` set (commitments w)) (sp ! i) (xs ! i)" if "i < 4" for i
    using all that sp by (simp add: list_all2_conv_all_nth)
  have paths: "\<forall>i<4. slot_empty sp i \<or>
      path_root (ce_tree_hash cenv) (commitment_key (env_poseidon env) (sp ! i)) (sibling_path (fst (xs ! i))) = snd (xs ! i)"
  proof (intro allI impI)
    fix i :: nat
    assume "i < 4"
    then show "slot_empty sp i \<or>
        path_root (ce_tree_hash cenv) (commitment_key (env_poseidon env) (sp ! i)) (sibling_path (fst (xs ! i))) = snd (xs ! i)"
      using each [of i] token [of i] by (cases "slot_empty sp i") (simp_all add: proved_def Let_def)
  qed
  have roots: "map snd xs = map (\<lambda>i. if slot_empty sp i then 0 else ?root) [0..<4]"
  proof (rule nth_equalityI)
    fix i assume "i < length (map snd xs)"
    then have i: "i < 4" using xs by simp
    then show "map snd xs ! i = map (\<lambda>i. if slot_empty sp i then 0 else ?root) [0..<4] ! i"
      using each [of i] token [of i] xs by (cases "slot_empty sp i") (simp_all add: proved_def Let_def)
  qed (simp add: xs)
  let ?out = "\<lparr>pi_fee = fee, pi_roots = map snd xs, pi_commitments = made_commitments (env_poseidon env) addr nw,
     pi_nullifiers = spent_nullifiers cenv (env_nullifier_key env) sp, pi_compressed_secrets = secrets\<rparr>"
  have fee: "pre_value (nw ! 2) = fee" unfolding assms(8) by (simp add: make_commitments_def Let_def)
  note ok = honest_statement [OF assms(3,5) xs assms(8-11) paths assms(12-14)]
  let ?pri = "operation_inputs env sp nw (env_nullifier_key env) (env_zkp_private_key env) ek addr (map get_secret_preimage sp) xs
    (map (salt_of (env_poseidon env)) sp) (map (salt_of (env_poseidon env)) (tl nw))"
  let ?pub = "public_inputs_default\<lparr>pi_fee := pre_value (nw ! 2), pi_roots := map snd xs\<rparr>"
  have tok: "fee_token_of cenv (pri_nf_address ?pri) = env_fee_token_id env"
    using assms(3) by (simp add: env_fits_def operation_inputs_def set_ephemeral_key_def)
  have acc: "accepts (operation_circuit cenv (built_constants cenv) (pi_fee ?pub) (pi_roots ?pub)
    (from_private_inputs (env_bjj_into env) (?pri\<lparr>pri_fee_token_id := fee_token_of cenv (pri_nf_address ?pri)\<rparr>))) ?out"
    unfolding tok using ok by (simp add: honest_var_def fee)
  obtain q where q: "ps_prove ps (public_inputs_vec ?out) = Some q"
    "plonk_verify ps (from_recursive_output q (ps_vk_id ps)) ?out = Inr True"
    by (rule plonk_verify_proved [OF assms(4)])
  have "client_prove cenv (env_bjj_into env) ps ?pri ?pub = Some (from_recursive_output q (ps_vk_id ps), ?out)"
    unfolding client_prove_def plonk_prove_accepted [OF acc] q(1) by simp
  then have run: "client_operation env (client_prove cenv (env_bjj_into env) ps) sp nw (env_nullifier_key env) (env_zkp_private_key env)
        ek addr (map get_secret_preimage sp) w = (Inr (tx_of (from_recursive_output q (ps_vk_id ps)) ?out), w)"
    unfolding client_operation_prove [OF P assms(11) loop] by simp
  show ?thesis
    unfolding run by (rule exI, rule conjI [OF refl]) (use q(2) roots in \<open>simp add: tx_of_def public_inputs_from_tx_def\<close>)
qed

section \<open>Witness\<close>

definition coin_ex :: Preimage where
  "coin_ex = preimage_new (fr 5) (fr 1) (fr 1) owner_ex (SaltTransfer 0)"

definition coin_entry_ex :: CommitmentEntry where
  "coin_entry_ex = (purse 1 5)\<lparr>ce_preimage := coin_ex\<rparr>"

definition ps_ex :: "(unit, unit) proof_system" where
  "ps_ex = \<lparr>ps_prove = (\<lambda>xs. Some ((), hd xs)), ps_hash = hd, ps_vk_id = None, ps_transcript_ok = (\<lambda>_ _ _. True),
     ps_verify = (\<lambda>_ _. True)\<rparr>"

definition penv_ex :: "nat handler_env" where
  "penv_ex = henv_ex\<lparr>env_bjj_into := (\<lambda>n. n mod 5)\<rparr>"

definition pworld_ex :: client_db where
  "pworld_ex = world_ex\<lparr>commitments := [coin_entry_ex]\<rparr>"

definition coins_ex :: "Preimage list" where
  "coins_ex = [coin_ex, preimage_default, preimage_default, preimage_default]"

definition made_ex :: "Preimage list" where
  "made_ex = make_commitments penv_ex rnd_ex \<lparr>te_x = 0, te_y = fr (unat (env_nf_address penv_ex))\<rparr> owner_ex
     (SaltTransfer (te_y (env_times penv_ex owner_ex 3))) (fr 1) (fr 5) 0 coins_ex"

lemma coin_key: "commitment_key first_hash coin_ex = fr 1"
  by (simp add: commitment_key_def preimage_hash_def first_hash_def coin_ex_def preimage_new_def get_salt_def bindS_def okS_def)

lemma coin_not_default: "coin_ex \<noteq> preimage_default"
  using owner_not_zero by (auto simp: coin_ex_def preimage_new_def preimage_default_def)

lemma fr_minus_self: "(x :: fr254) - x = 0"
  by simp

lemma made_ex_eq: "made_ex = [preimage_new (fr 5) (fr 1) (fr 1) owner_ex (SaltTransfer 1), preimage_default, preimage_default, preimage_default]"
  by (simp add: made_ex_def make_commitments_def coins_ex_def Let_def coin_ex_def penv_ex_def henv_ex_def owner_ex_def)

lemma pworld_ex_inv: "store_inv True pworld_ex" "tree_inv (ce_tree_hash cenv_ex) 0 0 1 (\<lambda>_. fr 1) pworld_ex"
  using world_ex_inv by (simp_all add: pworld_ex_def store_inv_def tree_inv_def nodes_ok_def heap_ok_def look_def cenv_ex_def)

lemma penv_fits: "env_fits penv_ex cenv_ex"
proof -
  have "n mod 5 < (2 :: nat) ^ 256" for n :: nat
    by (rule less_trans [of _ 5]) simp_all
  then show ?thesis
    by (simp add: env_fits_def penv_ex_def cenv_ex_def henv_ex_def poseidon_ok_first fee_token_of_def be_value_def drop_bit_eq_div)
qed

theorem operation_proof_complete_witness:
  "\<exists>tx. client_operation penv_ex (client_prove cenv_ex (env_bjj_into penv_ex) ps_ex) coins_ex made_ex 1 5 3 0
       (map get_secret_preimage coins_ex) pworld_ex = (Inr tx, pworld_ex) \<and>
     plonk_verify ps_ex (ct_proof tx) (public_inputs_from_tx tx) = Inr True \<and> ct_commitments tx = [fr 1, 0, 0, 0]"
proof -
  have e: "env_poseidon penv_ex = first_hash" "env_nullifier_key penv_ex = 1" "env_zkp_private_key penv_ex = 5"
    "env_fee_token_id penv_ex = fr 2" "env_times penv_ex = (\<lambda>p n. p)" "env_generator penv_ex = te_zero"
    by (simp_all add: penv_ex_def henv_ex_def)
  have n: "fr 1 \<noteq> 0" "fr 2 \<noteq> 0" "fr 5 \<noteq> 0" using fr_small(1) [of 1 0] fr_small(1) [of 2 0] fr_small(1) [of 5 0] by simp_all
  have up: "[0..<4] = [0, 1, 2, 3 :: nat]" by (simp add: upt_rec)
  have ps: "ps_complete ps_ex" by (simp add: ps_complete_def ps_ex_def)
  have sp: "spend_fits (fr 1) (pre_nf_slot_id (coins_ex ! 0)) (env_fee_token_id penv_ex) coins_ex"
    unfolding spend_fits_def less_four
    by (simp add: slot_empty_def coins_ex_def token_of_slot_def) (simp add: coin_ex_def owner_not_zero)
  have range: "\<forall>c\<in>set made_ex. fr_val (pre_value c) < 2 ^ 96" by (simp add: made_ex_eq fr_modulus_def)
  have cons: "value_conserved coins_ex made_ex" by (simp add: value_conserved_def coins_ex_def made_ex_eq coin_ex_def)
  have nulls: "no_duplicates (spent_nullifiers cenv_ex (env_nullifier_key penv_ex) coins_ex)"
    by (simp add: no_duplicates_def spent_nullifiers_def up slot_empty_def coins_ex_def)
  have key: "commitment_key first_hash (preimage_new (fr 5) (fr 1) (fr 1) owner_ex (SaltTransfer 1)) = fr 1"
    by (simp add: commitment_key_def preimage_hash_def first_hash_def preimage_new_def get_salt_def bindS_def okS_def)
  have made: "made_commitments (env_poseidon penv_ex) 0 made_ex = [fr 1, 0, 0, 0]"
    by (simp add: made_commitments_def up made_ex_eq e key del: One_nat_def)
  have dups: "no_duplicates (made_commitments (env_poseidon penv_ex) 0 made_ex)" unfolding made by (simp add: no_duplicates_def)
  obtain secrets where sec: "operation_secrets penv_ex 3 0 (made_ex ! 0) = Some secrets"
    by (simp add: operation_secrets_def made_ex_eq e kemdem_encrypt_def first_hash_def Let_def numeral_2_eq_2)
  have to: "if (0 :: fr254) = 0 then owner_ex \<noteq> te_zero \<and>
        SaltTransfer (te_y (env_times penv_ex owner_ex 3)) = SaltTransfer (te_y (env_times penv_ex owner_ex 3)) else fr_val 0 < 2 ^ 160"
    by (simp add: owner_not_zero)
  have verify: "\<And>p r. path_root (ce_tree_hash cenv_ex) (node_value p) (sibling_path p) = r \<Longrightarrow> env_verify penv_ex p r"
    by (simp add: penv_ex_def henv_ex_def cenv_ex_def)
  have found: "\<And>c. c \<in> set coins_ex \<Longrightarrow> pre_nf_token_id c \<noteq> 0 \<Longrightarrow> commitment_key (env_poseidon penv_ex) c \<in> ce_key ` set (commitments pworld_ex) \<and>
      (\<exists>p. fst (get_membership_proof (Some (commitment_key (env_poseidon penv_ex) c)) None pworld_ex) = Inr p)"
  proof -
    fix c assume that: "c \<in> set coins_ex" "pre_nf_token_id c \<noteq> 0"
    have c: "c = coin_ex" using that by (auto simp: coins_ex_def preimage_default_def preimage_new_def)
    show "commitment_key (env_poseidon penv_ex) c \<in> ce_key ` set (commitments pworld_ex) \<and>
        (\<exists>p. fst (get_membership_proof (Some (commitment_key (env_poseidon penv_ex) c)) None pworld_ex) = Inr p)"
      unfolding c e coin_key using n(1)
      by (simp add: pworld_ex_def coin_entry_ex_def purse_def world_ex_def client_ex_def get_membership_proof_def read_metadata_def
          bindM_def db_read_ok returnM_def)
  qed
  have ft: "env_fee_token_id penv_ex \<noteq> 0" unfolding e by (rule n(2))
  show ?thesis
    by (rule exE [OF operation_proof_complete [OF pworld_ex_inv penv_fits ps sp n(1) ft made_ex_def to range cons nulls dups sec]],
        erule verify, erule (1) found, unfold made, unfold e, elim conjE, intro exI conjI, assumption+)
qed

end
