(* ===== verification/Indexed_Tree.thy ===== *)
theory Indexed_Tree
  imports Indexed_Leaves
begin

text \<open>
  The \<open>IndexedTree\<close> implementation of \<open>lib/src/merkle_trees/indexed.rs\<close>: the nullifier tree. It keeps a
  mutable tree (its nodes are hashes of leaf pre-images) and the collection of pre-images together.
  \<open>hash\<close> is the hash of a list of field elements, \<open>th\<close> the tree hash, \<open>ser\<close> the byte form of an element.
\<close>

definition leaf_hash :: "(fr254 list \<Rightarrow> fr254) \<Rightarrow> IndexedLeaf \<Rightarrow> fr254" where
  "leaf_hash hash l = hash [leaf_value l, fr (leaf_next_index l), leaf_next_value l]"

definition new_indexed_tree ::
    "(fr254 \<Rightarrow> fr254 \<Rightarrow> fr254) \<Rightarrow> (fr254 list \<Rightarrow> fr254) \<Rightarrow> (fr254 \<Rightarrow> byte list) \<Rightarrow> nat \<Rightarrow> nat \<Rightarrow> ('z, unit) imtM" where
  "new_indexed_tree th hash ser t_height s_height =
     bindM (new_mutable_tree t_height s_height) (\<lambda>_.
     bindM new_indexed_leaves_db (\<lambda>_.
     bindM (get_leaf ser (Some 0) None) (\<lambda>e.
     bindM (okM NoLeaves e) (\<lambda>entry.
     bindM (insert_leaf th (leaf_hash hash entry) True) (\<lambda>_. returnM ())))))"

definition metadata_or :: "merkle_error \<Rightarrow> ('z, fr254 TreeMetadata) imtM" where
  "metadata_or e = bindM (db_read DatabaseError metadata) (okM e)"

definition get_non_membership_proof ::
    "(fr254 list \<Rightarrow> fr254) \<Rightarrow> (fr254 \<Rightarrow> byte list) \<Rightarrow> fr254 \<Rightarrow> ('z, fr254 MembershipProof) imtM" where
  "get_non_membership_proof hash ser leaf =
     (if leaf = 0 then throwM LeafExists
      else bindM (get_leaf ser (Some leaf) None) (\<lambda>present.
      if present \<noteq> None then throwM LeafExists
      else bindM (metadata_or ItemNotFound) (\<lambda>m.
      (let height = tree_height m + sub_tree_height m in
      bindM (get_low_leaf ser leaf) (\<lambda>low.
      bindM (okM MerkleError low) (\<lambda>low_nullifier.
      (let ln_index = leaf_id low_nullifier; node_index = 2 ^ height - 1 + ln_index in
      bindM (read_siblings height node_index) (\<lambda>path.
      returnM \<lparr>node_value = leaf_hash hash low_nullifier, sibling_path = path, leaf_index = ln_index\<rparr>))))))))"

text \<open>\<open>MembershipProof::verify\<close> is the parameter \<open>verify\<close>.\<close>

definition verify_non_membership_proof ::
    "(fr254 MembershipProof \<Rightarrow> fr254 \<Rightarrow> bool) \<Rightarrow> fr254 MembershipProof \<Rightarrow> fr254 \<Rightarrow> merkle_error + unit" where
  "verify_non_membership_proof verify p rt = (if verify p rt then Inr () else Inl InvalidProof)"

section \<open>Inserting leaves\<close>

fun check_absent :: "(fr254 \<Rightarrow> byte list) \<Rightarrow> fr254 list \<Rightarrow> ('z, unit) imtM" where
  "check_absent ser [] = returnM ()"
| "check_absent ser (v # vs) =
     bindM (get_leaf ser (Some v) None) (\<lambda>present.
     if present \<noteq> None \<and> v \<noteq> 0 then throwM LeafExists else check_absent ser vs)"

fun store_new :: "(fr254 \<Rightarrow> byte list) \<Rightarrow> fr254 list \<Rightarrow> nat \<Rightarrow> ('z, unit) imtM" where
  "store_new ser [] insert_index = returnM ()"
| "store_new ser (v # vs) insert_index =
     bindM (if v \<noteq> 0
            then bindM (store_leaf ser v (Some insert_index)) (\<lambda>res. if res = None then throwM MerkleError else returnM ())
            else returnM ())
       (\<lambda>_. store_new ser vs ((insert_index + 1) mod 2 ^ 32))"

fun update_lows :: "(fr254 \<Rightarrow> fr254 \<Rightarrow> fr254) \<Rightarrow> (fr254 \<times> nat) list \<Rightarrow> fr254 \<Rightarrow> ('z, fr254) imtM" where
  "update_lows th [] rt = returnM rt"
| "update_lows th ((v, ln_index) # us) rt =
     bindM (update_sub_tree th ln_index [v] True) (\<lambda>rt'. update_lows th us rt')"

definition insert_leaves ::
    "(fr254 \<Rightarrow> fr254 \<Rightarrow> fr254) \<Rightarrow> (fr254 list \<Rightarrow> fr254) \<Rightarrow> (fr254 \<Rightarrow> byte list) \<Rightarrow> fr254 list \<Rightarrow> ('z, fr254) imtM" where
  "insert_leaves th hash ser vs =
     (if vs = [] then get_root
      else bindM (check_absent ser vs) (\<lambda>_.
      bindM (joinM vs (get_low_leaf ser)) (\<lambda>lows.
      (let low_nullifiers = remdups_adj (sort (map leaf_value (List.map_filter id lows))) in
      bindM (metadata_or ItemNotFound) (\<lambda>m.
      bindM (store_new ser vs ((sub_tree_count m mod 2 ^ 32) * 2 ^ sub_tree_height m mod 2 ^ 32)) (\<lambda>_.
      bindM (joinM vs (\<lambda>v. get_leaf ser (Some v) None)) (\<lambda>found.
      bindM (forM found (okM MerkleError)) (\<lambda>leaves.
      (let values = map (\<lambda>l. if leaf_value l \<noteq> 0 then leaf_hash hash l else 0) leaves in
      bindM (append_sub_trees th values True) (\<lambda>_.
      bindM (joinM low_nullifiers (\<lambda>v. bindM (get_leaf ser (Some v) None) (okM ItemNotFound))) (\<lambda>infos.
      update_lows th (map (\<lambda>l. (leaf_hash hash l, leaf_id l)) infos) 0)))))))))))"

section \<open>Insertion with circuit information\<close>

text \<open>\<open>LeafDBEntry\<close> and \<open>IMTCircuitInsertionInfo\<close> are plain structs of \<open>jf_primitives\<close>.\<close>

record LeafDBEntry =
  dbe_value :: fr254
  dbe_index :: nat
  dbe_next_index :: fr254
  dbe_next_value :: fr254

record IMTCircuitInsertionInfo =
  imt_old_root :: fr254
  imt_circuit_info :: "fr254 CircuitInsertionInfo"
  imt_first_index :: nat
  imt_low_nullifiers :: "(LeafDBEntry \<times> fr254 MembershipProof) list"
  imt_pending_inserts :: "LeafDBEntry list"

definition db_entry_from :: "IndexedLeaf \<Rightarrow> LeafDBEntry" where
  "db_entry_from l = \<lparr>dbe_value = leaf_value l, dbe_index = leaf_id l,
     dbe_next_index = fr (leaf_next_index l), dbe_next_value = leaf_next_value l\<rparr>"

definition zero_path :: "fr254 TreeMetadata \<Rightarrow> fr254 PathElement list" where
  "zero_path m = replicate (tree_height m + sub_tree_height m)
     \<lparr>direction = HashWithThisNodeOnLeft, path_value = 0\<rparr>"

text \<open>The first loop, for one value; it returns the low nullifier entry with its proof.\<close>

definition circuit_step ::
    "(fr254 \<Rightarrow> fr254 \<Rightarrow> fr254) \<Rightarrow> (fr254 list \<Rightarrow> fr254) \<Rightarrow> (fr254 \<Rightarrow> byte list) \<Rightarrow> fr254 TreeMetadata \<Rightarrow> nat \<Rightarrow> nat \<Rightarrow> fr254 \<Rightarrow>
     ('z, LeafDBEntry \<times> fr254 MembershipProof) imtM" where
  "circuit_step th hash ser m first_index initial_index v =
     bindM (get_leaf ser (Some v) None) (\<lambda>present.
     if present \<noteq> None \<and> v \<noteq> 0 then throwM LeafExists
     else if v \<noteq> 0 then
       bindM (get_low_leaf ser v) (\<lambda>low.
       bindM (okM MerkleError low) (\<lambda>low_nullifier.
       bindM (if leaf_id low_nullifier < first_index then
           bindM (get_non_membership_proof hash ser v) (\<lambda>proof.
           bindM (store_leaf ser v (Some initial_index)) (\<lambda>r.
           bindM (okM MerkleError r) (\<lambda>_.
           bindM (get_leaf ser (Some (leaf_value low_nullifier)) None) (\<lambda>u.
           bindM (okM MerkleError u) (\<lambda>updated.
           bindM (update_sub_tree th (leaf_id updated) [leaf_hash hash updated] True) (\<lambda>_.
           returnM proof))))))
         else
           bindM (store_leaf ser v (Some initial_index)) (\<lambda>r.
           bindM (okM MerkleError r) (\<lambda>_.
           returnM \<lparr>node_value = leaf_hash hash low_nullifier, sibling_path = zero_path m,
                    leaf_index = (initial_index + 1) mod 2 ^ 32 - 1\<rparr>))) (\<lambda>proof.
       returnM (db_entry_from low_nullifier, proof))))
     else returnM (db_entry_from default_leaf, \<lparr>node_value = 0, sibling_path = zero_path m, leaf_index = 0\<rparr>))"

fun circuit_loop ::
    "(fr254 \<Rightarrow> fr254 \<Rightarrow> fr254) \<Rightarrow> (fr254 list \<Rightarrow> fr254) \<Rightarrow> (fr254 \<Rightarrow> byte list) \<Rightarrow> fr254 TreeMetadata \<Rightarrow> nat \<Rightarrow> nat \<Rightarrow> fr254 list \<Rightarrow>
     ('z, (LeafDBEntry \<times> fr254 MembershipProof) list) imtM" where
  "circuit_loop th hash ser m first_index i [] = returnM []"
| "circuit_loop th hash ser m first_index i (v # vs) =
     bindM (circuit_step th hash ser m first_index i v) (\<lambda>x.
     bindM (circuit_loop th hash ser m first_index ((i + 1) mod 2 ^ 32) vs) (\<lambda>xs. returnM (x # xs)))"

definition insert_nullifiers_for_circuit ::
    "(fr254 \<Rightarrow> fr254 \<Rightarrow> fr254) \<Rightarrow> (fr254 list \<Rightarrow> fr254) \<Rightarrow> (fr254 \<Rightarrow> byte list) \<Rightarrow> fr254 list \<Rightarrow>
     ('z, IMTCircuitInsertionInfo) imtM" where
  "insert_nullifiers_for_circuit th hash ser leaves =
     bindM (metadata_or ItemNotFound) (\<lambda>m.
     if 2 ^ sub_tree_height m \<noteq> length leaves then throwM IncorrectBatchSize
     else
       (let first_index = (sub_tree_count m mod 2 ^ 32) * 2 ^ sub_tree_height m mod 2 ^ 32 in
       bindM (circuit_loop th hash ser m first_index first_index leaves) (\<lambda>lows.
       bindM (forM leaves (\<lambda>v.
         if v \<noteq> 0 then
           bindM (get_leaf ser (Some v) None) (\<lambda>p. bindM (okM MerkleError p) (\<lambda>l. returnM (db_entry_from l)))
         else returnM (db_entry_from default_leaf))) (\<lambda>pending.
       (let values = map (\<lambda>e. if dbe_value e \<noteq> 0 then hash [dbe_value e, dbe_next_index e, dbe_next_value e] else 0) pending in
       bindM (insert_for_circuit th values) (\<lambda>info.
       returnM \<lparr>imt_old_root = root m, imt_circuit_info = info, imt_first_index = first_index,
                imt_low_nullifiers = lows, imt_pending_inserts = pending\<rparr>))))))"

definition batch_insert_nullifiers_with_circuit_info ::
    "(fr254 \<Rightarrow> fr254 \<Rightarrow> fr254) \<Rightarrow> (fr254 list \<Rightarrow> fr254) \<Rightarrow> (fr254 \<Rightarrow> byte list) \<Rightarrow> fr254 list \<Rightarrow>
     ('z, IMTCircuitInsertionInfo list) imtM" where
  "batch_insert_nullifiers_with_circuit_info th hash ser nullifiers =
     (if nullifiers = [] then returnM []
      else forM (chunks 8 nullifiers) (insert_nullifiers_for_circuit th hash ser))"

section \<open>The invariant\<close>

text \<open>The tree leaf at position \<open>j\<close> is the hash of the stored pre-image with index \<open>j\<close>, or zero.\<close>

definition leaf_content :: "(fr254 list \<Rightarrow> fr254) \<Rightarrow> IndexedLeaf list \<Rightarrow> nat \<Rightarrow> fr254" where
  "leaf_content hash ls j = (case find (\<lambda>l. leaf_id l = j) ls of Some l \<Rightarrow> leaf_hash hash l | None \<Rightarrow> 0)"

definition imt_inv ::
    "(fr254 \<Rightarrow> fr254 \<Rightarrow> fr254) \<Rightarrow> (fr254 list \<Rightarrow> fr254) \<Rightarrow> (fr254 \<Rightarrow> byte list) \<Rightarrow> nat \<Rightarrow> nat \<Rightarrow> nat \<Rightarrow> 'z imt_db_scheme \<Rightarrow> bool" where
  "imt_inv th hash ser h s c w \<longleftrightarrow>
     store_inv True w \<and> leaf_invar ser w \<and> chain (leaf_view (indexed_leaves w)) \<and>
     (\<forall>l\<in>set (indexed_leaves w). leaf_id l < c * 2 ^ s) \<and> c \<le> 2 ^ h \<and>
     tree_inv th h s c (leaf_content hash (indexed_leaves w)) w"

definition imt_values :: "'z imt_db_scheme \<Rightarrow> fr254 set" where
  "imt_values w = leaf_value ` set (indexed_leaves w)"

lemma imt_invD:
  assumes "imt_inv th hash ser h s c w"
  shows "store_inv True w" "leaf_invar ser w" "chain (leaf_view (indexed_leaves w))"
    "\<And>l. l \<in> set (indexed_leaves w) \<Longrightarrow> leaf_id l < c * 2 ^ s" "c \<le> 2 ^ h"
    "tree_inv th h s c (leaf_content hash (indexed_leaves w)) w" "faults w = []" "ser_ok ser"
    "distinct (map leaf_value (indexed_leaves w))" "distinct (map leaf_id (indexed_leaves w))"
    "nodes_ok th (h + s) (leaf_content hash (indexed_leaves w)) (look w)"
    "metadata w = Some \<lparr>tree_height = h, sub_tree_height = s, sub_tree_count = c,
       root = mnode th (leaf_content hash (indexed_leaves w)) (h + s) 0\<rparr>"
  using assms by (simp_all add: imt_inv_def leaf_invar_def tree_inv_def)

lemma more_indexed_leaves: "tree_db.more w = tree_db.more w' \<Longrightarrow> indexed_leaves w = indexed_leaves w'"
  by (cases w; cases w') simp

lemma find_id: "distinct (map leaf_id ls) \<Longrightarrow> l \<in> set ls \<Longrightarrow> find (\<lambda>x. leaf_id x = leaf_id l) ls = Some l"
  by (induction ls) (auto simp: image_iff)

lemma leaf_content_mem: "distinct (map leaf_id ls) \<Longrightarrow> l \<in> set ls \<Longrightarrow> leaf_content hash ls (leaf_id l) = leaf_hash hash l"
  by (simp add: leaf_content_def find_id)

lemma leaf_content_none: "j \<notin> leaf_id ` set ls \<Longrightarrow> leaf_content hash ls j = 0"
  by (auto simp: leaf_content_def find_None_iff split: option.split dest!: find_Some_iff [THEN iffD1])

lemma metadata_or_ok: "faults w = [] \<Longrightarrow> metadata w = Some m \<Longrightarrow> metadata_or e w = (Inr m, w)"
  by (simp add: metadata_or_def bindM_def db_read_ok returnM_def)

lemma imt_values_view: "imt_values w = dom (leaf_view (indexed_leaves w))"
  by (simp add: imt_values_def dom_leaf_view)

lemma find_value_none: "v \<notin> imt_values w \<longleftrightarrow> find (\<lambda>l. leaf_value l = v) (indexed_leaves w) = None"
  by (simp add: imt_values_def find_none_iff)

lemma id_bound:
  assumes "imt_inv th hash ser h s c w" "l \<in> set (indexed_leaves w)"
  shows "leaf_id l < 2 ^ (h + s)"
proof -
  have "leaf_id l < c * 2 ^ s" by (rule imt_invD(4) [OF assms])
  also have "\<dots> \<le> 2 ^ h * 2 ^ s" using imt_invD(5) [OF assms(1)] by (rule mult_right_mono) simp
  finally show ?thesis by (simp add: power_add)
qed

section \<open>Non-membership\<close>

lemma non_membership_run:
  assumes "imt_inv th hash ser h s c w" "v \<noteq> 0" "v \<notin> imt_values w"
  obtains l where "l \<in> set (indexed_leaves w)" "is_low (leaf_view (indexed_leaves w)) v (leaf_value l)"
    "greatest_below ser (padded_key ser v) (indexed_leaves w) = Some l"
    "get_non_membership_proof hash ser v w =
      (Inr \<lparr>node_value = leaf_hash hash l, sibling_path = siblings (look w) (h + s) (2 ^ (h + s) - 1 + leaf_id l),
        leaf_index = leaf_id l\<rparr>, w)"
proof -
  note D = imt_invD [OF assms(1)]
  obtain l where l: "greatest_below ser (padded_key ser v) (indexed_leaves w) = Some l" "l \<in> set (indexed_leaves w)"
    "is_low (leaf_view (indexed_leaves w)) v (leaf_value l)"
    by (rule low_is_low [OF D(2,3) assms(2)])
  have none: "find (\<lambda>x. leaf_value x = v) (indexed_leaves w) = None" using assms(3) find_value_none by blast
  have "get_non_membership_proof hash ser v w =
      (Inr \<lparr>node_value = leaf_hash hash l, sibling_path = siblings (look w) (h + s) (2 ^ (h + s) - 1 + leaf_id l),
        leaf_index = leaf_id l\<rparr>, w)"
    using assms(2)
    by (simp add: get_non_membership_proof_def bindM_def get_leaf_ok [OF D(8,7)] none
        metadata_or_ok [OF D(7,12)] get_low_leaf_ok [OF D(8,7)] l(1) returnM_def read_siblings_ok [OF D(7)] Let_def)
  then show thesis using that l by blast
qed

text \<open>C17. A non-membership proof is given exactly for the non-zero values that are not in the tree; it is the
  proof of membership, against the root of the tree, of a stored leaf that skips over the value. Every other
  request is answered with \<open>LeafExists\<close>.\<close>

theorem non_membership_proof_correct:
  assumes "imt_inv th hash ser h s c w"
  shows "if v = 0 \<or> v \<in> imt_values w then get_non_membership_proof hash ser v w = (Inl LeafExists, w)
    else \<exists>p l. get_non_membership_proof hash ser v w = (Inr p, w) \<and> l \<in> set (indexed_leaves w) \<and>
      node_value p = leaf_hash hash l \<and> leaf_value l < v \<and> (leaf_next_value l = 0 \<or> v < leaf_next_value l) \<and>
      leaf_index p = leaf_id l \<and>
      path_root th (node_value p) (sibling_path p) = mnode th (leaf_content hash (indexed_leaves w)) (h + s) 0"
proof (cases "v = 0 \<or> v \<in> imt_values w")
  case True
  note D = imt_invD [OF assms]
  show ?thesis
  proof (cases "v = 0")
    case False
    then obtain l where "find (\<lambda>x. leaf_value x = v) (indexed_leaves w) = Some l"
      using True find_value_none [of v w] by auto
    then show ?thesis
      using True by (simp add: get_non_membership_proof_def bindM_def get_leaf_ok [OF D(8,7)] throwM_def)
  qed (simp add: get_non_membership_proof_def throwM_def)
next
  case False
  note D = imt_invD [OF assms]
  obtain l where l: "l \<in> set (indexed_leaves w)" "is_low (leaf_view (indexed_leaves w)) v (leaf_value l)"
    "get_non_membership_proof hash ser v w =
      (Inr \<lparr>node_value = leaf_hash hash l, sibling_path = siblings (look w) (h + s) (2 ^ (h + s) - 1 + leaf_id l),
        leaf_index = leaf_id l\<rparr>, w)"
    using non_membership_run [OF assms, of v] False by auto
  have view: "leaf_view (indexed_leaves w) (leaf_value l) = Some (leaf_entry l)"
    using leaf_view_Some [OF D(9)] l(1) by blast
  have "leaf_value l < v \<and> (leaf_next_value l = 0 \<or> v < leaf_next_value l)"
    using low_skips [OF D(3) l(2) _ view] False by (simp add: imt_values_view leaf_entry_def)
  moreover have "path_root th (leaf_hash hash l) (siblings (look w) (h + s) (2 ^ (h + s) - 1 + leaf_id l)) =
      mnode th (leaf_content hash (indexed_leaves w)) (h + s) 0"
    using siblings_root [OF D(11) id_bound [OF assms l(1)]] leaf_content_mem [OF D(10) l(1), of hash] by simp
  ultimately show ?thesis using False l by auto
qed

section \<open>Creation\<close>

lemma new_indexed_tree_ok:
  assumes "th 0 0 = 0" "ser_ok ser" "faults w = []" "metadata w = None" "nodes w = []" "cache w = []" "indexed_leaves w = []"
  obtains w' where "new_indexed_tree th hash ser h s w = (Inr (), w')" "imt_inv th hash ser h s 1 w'" "imt_values w' = {0}"
proof -
  let ?m = "\<lparr>tree_height = h, sub_tree_height = s, sub_tree_count = 0, root = 0\<rparr>"
  define w1 where "w1 = w\<lparr>metadata := Some ?m, indexed_leaves := [default_leaf]\<rparr>"
  have f1: "faults w1 = []" using assms(3) by (simp add: w1_def)
  have i1: "indexed_leaves w1 = [default_leaf]" by (simp add: w1_def)
  have look0: "look w1 = (\<lambda>_. 0)" using assms(5,6) by (simp add: look_def w1_def fun_eq_iff)
  have s1: "store_inv True w1" using assms(3,5,6) by (simp add: store_inv_def w1_def)
  have t1: "tree_inv th h s 0 (\<lambda>_. 0) w1"
    using assms(1) by (simp add: tree_inv_def nodes_ok_def heap_ok_def look0 mnode_zero) (simp add: w1_def)
  obtain w' where w': "insert_leaf th (leaf_hash hash default_leaf) True w1 =
       (Inr (mnode th (put_leaves (\<lambda>_. 0) (0 * 2 ^ s) [leaf_hash hash default_leaf]) (h + s) 0), w')"
    "store_inv True w'" "tree_inv th h s (0 + 1) (put_leaves (\<lambda>_. 0) (0 * 2 ^ s) [leaf_hash hash default_leaf]) w'"
    "tree_db.more w' = tree_db.more w1"
    by (rule insert_leaf_ok [OF s1 t1]) simp
  have i': "indexed_leaves w' = [default_leaf]" using more_indexed_leaves [OF w'(4)] i1 by simp
  have c: "leaf_content hash [default_leaf] = put_leaves (\<lambda>_. 0) (0 * 2 ^ s) [leaf_hash hash default_leaf]"
    by (auto simp: leaf_content_def put_leaves_def default_leaf_def fun_eq_iff)
  have "leaf_view [default_leaf] = chain0"
    by (auto simp: leaf_view_def chain0_def default_leaf_def leaf_entry_def fun_eq_iff)
  then have "imt_inv th hash ser h s 1 w'"
    using w'(2,3) assms(2) chain_chain0
    by (simp add: imt_inv_def i' c leaf_invar_def store_inv_def) (simp add: default_leaf_def)
  moreover have "imt_values w' = {0}" by (simp add: imt_values_def i' default_leaf_def)
  moreover have "new_indexed_tree th hash ser h s w = (Inr (), w')"
  proof -
    have a: "new_mutable_tree h s w = (Inr (), w\<lparr>metadata := Some ?m\<rparr>)"
      using assms(3,4) by (simp add: new_mutable_tree_def db_insert_ok)
    have b: "new_indexed_leaves_db (w\<lparr>metadata := Some ?m\<rparr>) = (Inr (), w1)"
      using assms(3,7) by (simp add: new_indexed_leaves_db_def db_insert_ok w1_def)
    have g: "get_leaf ser (Some 0) None w1 = (Inr (Some default_leaf), w1)"
      using get_leaf_ok [OF assms(2) f1, of 0] by (simp add: i1 default_leaf_def)
    show ?thesis by (simp add: new_indexed_tree_def bindM_def a b g returnM_def w'(1) del: insert_leaf_def)
  qed
  ultimately show thesis using that by blast
qed

section \<open>Storing the pre-images of a batch\<close>

text \<open>What a batch stored from index \<open>i\<close> on does to the chain \<open>E\<close>.\<close>

definition batch_stored :: "(fr254 \<rightharpoonup> entry) \<Rightarrow> fr254 list \<Rightarrow> nat \<Rightarrow> (fr254 \<rightharpoonup> entry) \<Rightarrow> bool" where
  "batch_stored E vs i F \<longleftrightarrow> chain F \<and>
     dom F = dom E \<union> {v \<in> set vs. v \<noteq> 0} \<and>
     (\<forall>m<length vs. vs ! m \<noteq> 0 \<longrightarrow> (\<exists>e. F (vs ! m) = Some e \<and> entry_id e = i + m)) \<and>
     (\<forall>x e. E x = Some e \<longrightarrow> (\<exists>e'. F x = Some e' \<and> entry_id e' = entry_id e)) \<and>
     (\<forall>x e. E x = Some e \<longrightarrow> (\<forall>v\<in>set vs. v \<noteq> 0 \<longrightarrow> \<not> is_low E v x) \<longrightarrow> F x = Some e)"

lemma batch_stored_Nil: "chain E \<Longrightarrow> batch_stored E [] i E"
  by (simp add: batch_stored_def)

lemma batch_stored_zero:
  assumes "batch_stored E vs (i + 1) F"
  shows "batch_stored E (0 # vs) i F"
  using assms by (auto simp: batch_stored_def nth_Cons split: nat.splits)

lemma batch_stored_link:
  assumes "batch_stored (link E i v u) vs (i + 1) F" "is_low E v u" "v \<noteq> 0" "v \<notin> dom E" "v \<notin> set vs"
  shows "batch_stored E (v # vs) i F"
proof -
  let ?E = "link E i v u"
  obtain k ni nv where u: "E u = Some (k, ni, nv)" using assms(2) by (auto simp: is_low_def)
  have uv: "u \<noteq> v" using assms(2) by (auto simp: is_low_def)
  have L: "?E = E(v \<mapsto> (i, ni, nv), u \<mapsto> (k, i, v))" by (simp add: link_def u)
  have dE: "dom ?E = insert v (dom E)" by (rule link_dom [OF assms(2)])
  have B: "chain F" "dom F = dom ?E \<union> {v \<in> set vs. v \<noteq> 0}"
    "\<And>m. m < length vs \<Longrightarrow> vs ! m \<noteq> 0 \<Longrightarrow> \<exists>e. F (vs ! m) = Some e \<and> entry_id e = i + 1 + m"
    "\<And>x e. ?E x = Some e \<Longrightarrow> \<exists>e'. F x = Some e' \<and> entry_id e' = entry_id e"
    "\<And>x e. ?E x = Some e \<Longrightarrow> \<forall>v\<in>set vs. v \<noteq> 0 \<longrightarrow> \<not> is_low ?E v x \<Longrightarrow> F x = Some e"
    using assms(1) unfolding batch_stored_def by blast+
  have "\<exists>e. F ((v # vs) ! m) = Some e \<and> entry_id e = i + m" if "m < length (v # vs)" "(v # vs) ! m \<noteq> 0" for m
  proof (cases m)
    case 0
    have "?E v = Some (i, ni, nv)" using uv by (simp add: L)
    from B(4) [OF this] show ?thesis by (simp add: 0)
  next
    case (Suc m')
    then show ?thesis using B(3) [of m'] that by simp
  qed
  moreover have "\<exists>e'. F x = Some e' \<and> entry_id e' = entry_id e" if "E x = Some e" for x e
  proof -
    have "x \<noteq> v" using that assms(4) by blast
    then have "\<exists>e1. ?E x = Some e1 \<and> entry_id e1 = entry_id e" using that u by (cases e; cases "x = u") (auto simp: L)
    then show ?thesis using B(4) by metis
  qed
  moreover have "F x = Some e" if Ex: "E x = Some e" and no: "\<forall>y\<in>set (v # vs). y \<noteq> 0 \<longrightarrow> \<not> is_low E y x" for x e
  proof -
    have "x \<noteq> v" using Ex assms(4) by blast
    moreover have "x \<noteq> u" using no assms(2,3) by auto
    ultimately have E1: "?E x = Some e" using Ex by (simp add: L)
    have "\<not> is_low ?E y x" if y: "y \<in> set vs" "y \<noteq> 0" for y
    proof
      assume "is_low ?E y x"
      then have "is_low E y x" using Ex dE by (auto simp: is_low_def)
      then show False using no y by simp
    qed
    then show ?thesis using B(5) [OF E1] by blast
  qed
  moreover have "dom F = dom E \<union> {y \<in> set (v # vs). y \<noteq> 0}" using B(2) dE assms(3) by auto
  ultimately show ?thesis using B(1) unfolding batch_stored_def by blast
qed

lemma stored_positions:
  "{i + m | m. m < length (v # vs) \<and> (v # vs) ! m \<noteq> 0} =
     (if v \<noteq> (0::fr254) then {i} else {}) \<union> {i + 1 + m | m. m < length vs \<and> vs ! m \<noteq> 0}"
proof (rule set_eqI, rule iffI)
  fix x assume "x \<in> {i + m | m. m < length (v # vs) \<and> (v # vs) ! m \<noteq> 0}"
  then obtain m where "x = i + m" "m < length (v # vs)" "(v # vs) ! m \<noteq> 0" by blast
  then show "x \<in> (if v \<noteq> 0 then {i} else {}) \<union> {i + 1 + m | m. m < length vs \<and> vs ! m \<noteq> 0}"
    by (cases m) auto
next
  fix x assume x: "x \<in> (if v \<noteq> 0 then {i} else {}) \<union> {i + 1 + m | m. m < length vs \<and> vs ! m \<noteq> 0}"
  then consider "x = i" "v \<noteq> 0" | m where "x = i + 1 + m" "m < length vs" "vs ! m \<noteq> 0"
    by (auto split: if_splits)
  then show "x \<in> {i + m | m. m < length (v # vs) \<and> (v # vs) ! m \<noteq> 0}"
  proof cases
    case 1
    then have "x = i + 0 \<and> 0 < length (v # vs) \<and> (v # vs) ! 0 \<noteq> 0" by simp
    then show ?thesis by blast
  next
    case 2
    then have "x = i + Suc m \<and> Suc m < length (v # vs) \<and> (v # vs) ! Suc m \<noteq> 0" by simp
    then show ?thesis by blast
  qed
qed

lemma store_new_ok:
  "leaf_invar ser w \<Longrightarrow> chain (leaf_view (indexed_leaves w)) \<Longrightarrow> (\<forall>l\<in>set (indexed_leaves w). leaf_id l < i) \<Longrightarrow>
   i + length vs \<le> 2 ^ 32 \<Longrightarrow> distinct (filter (\<lambda>v. v \<noteq> 0) vs) \<Longrightarrow>
   (\<forall>v\<in>set vs. v \<noteq> 0 \<longrightarrow> v \<notin> dom (leaf_view (indexed_leaves w))) \<Longrightarrow>
   \<exists>ls. store_new ser vs i w = (Inr (), w\<lparr>indexed_leaves := ls\<rparr>) \<and> leaf_invar ser (w\<lparr>indexed_leaves := ls\<rparr>) \<and>
     batch_stored (leaf_view (indexed_leaves w)) vs i (leaf_view ls) \<and>
     leaf_id ` set ls = leaf_id ` set (indexed_leaves w) \<union> {i + m | m. m < length vs \<and> vs ! m \<noteq> 0}"
proof (induction vs arbitrary: i w)
  case Nil
  then show ?case by (intro exI [of _ "indexed_leaves w"]) (simp add: returnM_def batch_stored_Nil)
next
  case (Cons v vs)
  note shift = stored_positions [of i v vs]
  have wrap: "store_new ser vs ((i + 1) mod 2 ^ 32) = (store_new ser vs (i + 1) :: ('a, unit) imtM)"
  proof (cases vs)
    case (Cons v' vs')
    then have "i + 1 < 2 ^ 32" using Cons.prems(4) by simp
    then have "(i + 1) mod 2 ^ 32 = i + 1" by (rule mod_less)
    then show ?thesis by (simp only:)
  qed simp
  show ?case
  proof (cases "v = 0")
    case True
    have ids: "\<forall>l\<in>set (indexed_leaves w). leaf_id l < i + 1" using Cons.prems(3) by auto
    have len: "i + 1 + length vs \<le> 2 ^ 32" "distinct (filter (\<lambda>v. v \<noteq> 0) vs)"
      "\<forall>v\<in>set vs. v \<noteq> 0 \<longrightarrow> v \<notin> dom (leaf_view (indexed_leaves w))"
      using Cons.prems(4-6) True by simp_all
    obtain ls where ls: "store_new ser vs (i + 1) w = (Inr (), w\<lparr>indexed_leaves := ls\<rparr>)" "leaf_invar ser (w\<lparr>indexed_leaves := ls\<rparr>)"
      "batch_stored (leaf_view (indexed_leaves w)) vs (i + 1) (leaf_view ls)"
      "leaf_id ` set ls = leaf_id ` set (indexed_leaves w) \<union> {i + 1 + m | m. m < length vs \<and> vs ! m \<noteq> 0}"
      using Cons.IH [OF Cons.prems(1,2) ids len] by blast
    have "store_new ser (v # vs) i w = (Inr (), w\<lparr>indexed_leaves := ls\<rparr>)"
      unfolding store_new.simps wrap using True ls(1) by simp
    then show ?thesis using ls(2-4) batch_stored_zero True unfolding shift by auto
  next
    case False
    have vd: "v \<notin> dom (leaf_view (indexed_leaves w))" using Cons.prems(6) False by simp
    have fresh: "i \<notin> leaf_id ` set (indexed_leaves w)" using Cons.prems(3) by auto
    obtain ks u where k: "store_leaf ser v (Some i) w = (Inr (Some ()), w\<lparr>indexed_leaves := ks\<rparr>)"
      "leaf_invar ser (w\<lparr>indexed_leaves := ks\<rparr>)" "is_low (leaf_view (indexed_leaves w)) v u"
      "leaf_view ks = link (leaf_view (indexed_leaves w)) i v u"
      "leaf_id ` set ks = insert i (leaf_id ` set (indexed_leaves w))"
      by (rule store_leaf_new [OF Cons.prems(1,2) False vd fresh])
    let ?w = "w\<lparr>indexed_leaves := ks\<rparr>"
    have "\<forall>x e. leaf_view (indexed_leaves w) x = Some e \<longrightarrow> entry_id e \<noteq> i"
      using fresh entry_ids Cons.prems(1) by (simp add: leaf_invar_def)
    then have ch: "chain (leaf_view (indexed_leaves ?w))"
      using chain_link [OF Cons.prems(2) False vd k(3)] k(4) by simp
    have ids: "\<forall>l\<in>set (indexed_leaves ?w). leaf_id l < i + 1"
    proof
      fix l assume "l \<in> set (indexed_leaves ?w)"
      then have "leaf_id l \<in> insert i (leaf_id ` set (indexed_leaves w))" using k(5) by auto
      then show "leaf_id l < i + 1" using Cons.prems(3) by auto
    qed
    have nv: "v \<notin> set vs" using Cons.prems(5) False by simp
    have len: "i + 1 + length vs \<le> 2 ^ 32" "distinct (filter (\<lambda>v. v \<noteq> 0) vs)" using Cons.prems(4,5) False by simp_all
    have dm: "\<forall>y\<in>set vs. y \<noteq> 0 \<longrightarrow> y \<notin> dom (leaf_view (indexed_leaves ?w))"
      using Cons.prems(6) nv link_dom [OF k(3), of i] by (auto simp: k(4))
    obtain ls where ls: "store_new ser vs (i + 1) ?w = (Inr (), ?w\<lparr>indexed_leaves := ls\<rparr>)" "leaf_invar ser (?w\<lparr>indexed_leaves := ls\<rparr>)"
      "batch_stored (leaf_view (indexed_leaves ?w)) vs (i + 1) (leaf_view ls)"
      "leaf_id ` set ls = leaf_id ` set (indexed_leaves ?w) \<union> {i + 1 + m | m. m < length vs \<and> vs ! m \<noteq> 0}"
      using Cons.IH [OF k(2) ch ids len dm] by blast
    have "store_new ser (v # vs) i w = (Inr (), w\<lparr>indexed_leaves := ls\<rparr>)"
      unfolding store_new.simps wrap using False ls(1) by (simp add: bindM_def k(1) returnM_def)
    moreover have "batch_stored (leaf_view (indexed_leaves w)) (v # vs) i (leaf_view ls)"
      using batch_stored_link [OF _ k(3) False vd nv] ls(3) by (simp add: k(4))
    moreover have "leaf_id ` set ls = leaf_id ` set (indexed_leaves w) \<union> {i + m | m. m < length (v # vs) \<and> (v # vs) ! m \<noteq> 0}"
      unfolding shift using ls(4) k(5) False by auto
    ultimately show ?thesis using ls(2) by auto
  qed
qed

section \<open>Inserting a batch\<close>

lemma update_lows_ok:
  "store_inv True w \<Longrightarrow> tree_inv th h s c f w \<Longrightarrow> (\<forall>(v, i)\<in>set us. i < 2 ^ (h + s)) \<Longrightarrow>
   \<exists>w'. update_lows th us rt w =
       (Inr (if us = [] then rt else mnode th (override f (map prod.swap us)) (h + s) 0), w') \<and>
     store_inv True w' \<and> tree_inv th h s c (override f (map prod.swap us)) w' \<and> tree_db.more w' = tree_db.more w"
proof (induction us arbitrary: rt f w)
  case Nil
  then show ?case by (simp add: returnM_def)
next
  case (Cons u us)
  obtain v i where u: "u = (v, i)" by force
  have i: "i < 2 ^ (h + s - 0)" using Cons.prems(3) by (simp add: u)
  have put: "put_leaves f (i * 2 ^ 0) [v] = f(i := v)" by (auto simp: put_leaves_def fun_eq_iff)
  obtain w1 where w1: "update_sub_tree th i [v] True w = (Inr (mnode th (f(i := v)) (h + s) 0), w1)"
    "store_inv True w1" "tree_inv th h s c (f(i := v)) w1" "tree_db.more w1 = tree_db.more w"
    using update_sub_tree_ok [OF Cons.prems(1,2) _ _ i, of "[v]"] unfolding put by auto
  have "\<forall>(v, i)\<in>set us. i < 2 ^ (h + s)" using Cons.prems(3) by simp
  from Cons.IH [OF w1(2,3) this, of "mnode th (f(i := v)) (h + s) 0"] w1(4)
  show ?case
    by (auto simp: u bindM_def w1(1) simp del: fun_upd_apply)
qed

lemma check_absent_ok:
  assumes "ser_ok ser" "faults w = []"
  shows "(\<forall>v\<in>set vs. v \<noteq> 0 \<longrightarrow> v \<notin> imt_values w) \<Longrightarrow> check_absent ser vs w = (Inr (), w)"
proof (induction vs)
  case (Cons v vs)
  then show ?case
    using find_value_none [of v w] by (auto simp: bindM_def get_leaf_ok [OF assms] split: if_splits)
qed (simp add: returnM_def)

text \<open>The tree leaves after the batch and the updates of the low leaves are the hashes of the new
  pre-images.\<close>

lemma batch_content:
  assumes d0: "distinct (map leaf_value K)" "distinct (map leaf_id K)"
    and d1: "distinct (map leaf_value L)" "distinct (map leaf_id L)"
    and B: "batch_stored (leaf_view K) vs b (leaf_view L)" and ids0: "\<forall>l\<in>set K. leaf_id l < b"
    and ids1: "leaf_id ` set L = leaf_id ` set K \<union> {b + m | m. m < length vs \<and> vs ! m \<noteq> 0}"
    and hs: "length hs = length vs" "\<And>m. m < length vs \<Longrightarrow> vs ! m = 0 \<Longrightarrow> hs ! m = 0"
      "\<And>m l. m < length vs \<Longrightarrow> vs ! m \<noteq> 0 \<Longrightarrow> l \<in> set L \<Longrightarrow> leaf_value l = vs ! m \<Longrightarrow> hs ! m = leaf_hash hash l"
    and infos: "set infos \<subseteq> set L" "leaf_value ` set infos = {u. \<exists>v\<in>set vs. v \<noteq> 0 \<and> is_low (leaf_view K) v u}"
  shows "override (put_leaves (leaf_content hash K) b hs) (map (\<lambda>l. (leaf_id l, leaf_hash hash l)) infos) = leaf_content hash L"
    (is "override ?f ?us = _")
proof
  fix j
  show "override ?f ?us j = leaf_content hash L j"
  proof (cases "\<exists>l\<in>set infos. leaf_id l = j")
    case True
    then obtain l where l: "l \<in> set infos" "leaf_id l = j" by blast
    have "v = leaf_hash hash l" if jv: "(j, v) \<in> set ?us" for v
    proof -
      obtain l' where l': "l' \<in> set infos" "leaf_id l' = j" "v = leaf_hash hash l'" using jv by auto
      have "inj_on leaf_id (set L)" using d1(2) by (simp add: distinct_map)
      then have "l' = l" using l l'(1,2) infos(1) by (auto dest: inj_onD)
      then show ?thesis using l'(3) by simp
    qed
    moreover have "j \<in> fst ` set ?us" using l by force
    ultimately have "override ?f ?us j = leaf_hash hash l" by (intro override_known)
    then show ?thesis using leaf_content_mem [OF d1(2), of l] l infos(1) by auto
  next
    case no: False
    then have o: "override ?f ?us j = ?f j" by (intro override_other) auto
    consider "j < b" | m where "j = b + m" "m < length vs" | "b + length vs \<le> j" by (metis le_Suc_ex linorder_not_le nat_add_left_cancel_less)
    then show ?thesis
    proof cases
      case 1
      then have f: "?f j = leaf_content hash K j" by (simp add: put_leaves_def)
      show ?thesis
      proof (cases "j \<in> leaf_id ` set K")
        case True
        then obtain k where k: "k \<in> set K" "leaf_id k = j" by blast
        then have E: "leaf_view K (leaf_value k) = Some (leaf_entry k)" using leaf_view_Some [OF d0(1)] by blast
        have "\<not> is_low (leaf_view K) v (leaf_value k)" if v: "v \<in> set vs" "v \<noteq> 0" for v
        proof
          assume "is_low (leaf_view K) v (leaf_value k)"
          then have "leaf_value k \<in> leaf_value ` set infos" using infos(2) v by blast
          then obtain l where l: "l \<in> set infos" "leaf_value l = leaf_value k" by auto
          obtain e' where "leaf_view L (leaf_value k) = Some e'" "entry_id e' = leaf_id k"
            using B E unfolding batch_stored_def by (metis entry_id_def fst_conv leaf_entry_def)
          moreover have "leaf_view L (leaf_value k) = Some (leaf_entry l)"
            using leaf_view_Some [OF d1(1)] l infos(1) by auto
          ultimately have "leaf_id l = j" using k(2) by (auto simp: leaf_entry_def)
          then show False using no l(1) by blast
        qed
        then have "leaf_view L (leaf_value k) = Some (leaf_entry k)" using B E unfolding batch_stored_def by blast
        then obtain l where l: "l \<in> set L" "leaf_value l = leaf_value k" "leaf_entry l = leaf_entry k"
          using leaf_view_Some [OF d1(1)] by blast
        then have "l = k" by (auto simp: leaf_entry_def intro!: IndexedLeaf.equality)
        then show ?thesis
          using o f k leaf_content_mem [OF d0(2) k(1), of hash] leaf_content_mem [OF d1(2), of k hash] l(1) by simp
      next
        case False
        then have "j \<notin> leaf_id ` set L" using ids1 1 by auto
        then show ?thesis using o f False by (simp add: leaf_content_none)
      qed
    next
      case (2 m)
      then have f: "?f j = hs ! m" by (simp add: put_leaves_def hs(1))
      show ?thesis
      proof (cases "vs ! m = 0")
        case True
        have "j \<notin> leaf_id ` set L" unfolding ids1 using ids0 2 True by auto
        then show ?thesis using o f hs(2) [OF 2(2) True] by (simp add: leaf_content_none)
      next
        case False
        then obtain e where "leaf_view L (vs ! m) = Some e" "entry_id e = j"
          using B 2 unfolding batch_stored_def by blast
        then obtain l where l: "l \<in> set L" "leaf_value l = vs ! m" "leaf_id l = j"
          using leaf_view_Some [OF d1(1)] by (auto simp: leaf_entry_def)
        then show ?thesis
          using o f hs(3) [OF 2(2) False l(1,2)] leaf_content_mem [OF d1(2) l(1), of hash] by simp
      qed
    next
      case 3
      have "j \<notin> leaf_id ` set K" using ids0 3 by auto
      moreover have "j \<notin> leaf_id ` set L" unfolding ids1 using calculation 3 by auto
      ultimately show ?thesis using o 3 hs(1) by (simp add: put_leaves_def leaf_content_none)
    qed
  qed
qed

lemma forM_okM_Some: "forM (map (\<lambda>x. Some (f x)) xs) (okM e) w = (Inr (map f xs), w)"
  by (induction xs) (simp_all add: bindM_def returnM_def)

lemma zero_not_low: "ser_ok ser \<Longrightarrow> greatest_below ser (padded_key ser 0) ls = None"
  using greatest_below_spec [where v = 0 and ls = ls, of ser, OF _ key_ok] by (auto split: option.splits)

definition batch_ok :: "nat \<Rightarrow> nat \<Rightarrow> nat \<Rightarrow> fr254 set \<Rightarrow> fr254 list \<Rightarrow> bool" where
  "batch_ok h s c old vs \<longleftrightarrow> vs \<noteq> [] \<and> length vs mod 2 ^ s = 0 \<and> c + length vs div 2 ^ s \<le> 2 ^ h \<and> h + s \<le> 32 \<and>
     distinct (filter (\<lambda>v. v \<noteq> 0) vs) \<and> (\<forall>v\<in>set vs. v \<noteq> 0 \<longrightarrow> v \<notin> old)"

lemma batch_index:
  assumes "batch_ok h s c old vs"
  shows "(c mod 2 ^ 32) * 2 ^ s mod 2 ^ 32 = c * 2 ^ s" "c * 2 ^ s + length vs \<le> 2 ^ 32"
    "c * 2 ^ s + length vs = (c + length vs div 2 ^ s) * 2 ^ s"
proof -
  have len: "length vs = length vs div 2 ^ s * 2 ^ s"
    using assms by (metis add.right_neutral batch_ok_def div_mult_mod_eq)
  show e: "c * 2 ^ s + length vs = (c + length vs div 2 ^ s) * 2 ^ s"
    unfolding distrib_right using len by simp
  have "(c + length vs div 2 ^ s) * 2 ^ s \<le> 2 ^ h * 2 ^ s" using assms by (intro mult_right_mono) (simp_all add: batch_ok_def)
  also have "\<dots> = 2 ^ (h + s)" by (simp add: power_add)
  also have "\<dots> \<le> 2 ^ 32" using assms unfolding batch_ok_def by (intro power_increasing) simp_all
  finally show le: "c * 2 ^ s + length vs \<le> 2 ^ 32" unfolding e .
  have "0 < length vs" using assms by (simp add: batch_ok_def)
  then have lt: "c * 2 ^ s < 2 ^ 32" using le by linarith
  have "c * 1 \<le> c * 2 ^ s" by (intro mult_left_mono) simp_all
  then have "c < 2 ^ 32" using lt by linarith
  then show "(c mod 2 ^ 32) * 2 ^ s mod 2 ^ 32 = c * 2 ^ s" using lt by (simp only: mod_less)
qed

lemma low_values:
  assumes "imt_inv th hash ser h s c w"
  shows "set (map leaf_value (List.map_filter id (map (\<lambda>v. greatest_below ser (padded_key ser v) (indexed_leaves w)) vs))) =
    {u. \<exists>v\<in>set vs. v \<noteq> 0 \<and> is_low (leaf_view (indexed_leaves w)) v u}"
proof -
  note D = imt_invD [OF assms]
  have e: "(\<exists>l. greatest_below ser (padded_key ser v) (indexed_leaves w) = Some l \<and> leaf_value l = u) \<longleftrightarrow>
      v \<noteq> 0 \<and> is_low (leaf_view (indexed_leaves w)) v u" for v u
  proof (cases "v = 0")
    case True
    then show ?thesis using zero_not_low [OF D(8)] by simp
  next
    case False
    obtain l where "greatest_below ser (padded_key ser v) (indexed_leaves w) = Some l"
      "is_low (leaf_view (indexed_leaves w)) v (leaf_value l)"
      by (rule low_is_low [OF D(2,3) False])
    then show ?thesis using False is_low_unique by auto
  qed
  have mf: "set (List.map_filter id xs) = {y. Some y \<in> set xs}" for xs :: "IndexedLeaf option list"
    by (induction xs) (auto simp: map_filter_simps split: option.split)
  show ?thesis
    unfolding set_map mf e [symmetric] by force
qed

lemma insert_leaves_stored:
  assumes "th 0 0 = 0" "imt_inv th hash ser h s c w" "batch_ok h s c (imt_values w) vs"
  obtains w' where
    "insert_leaves th hash ser vs w =
      (Inr (if \<forall>v\<in>set vs. v = 0 then 0 else mnode th (leaf_content hash (indexed_leaves w')) (h + s) 0), w')"
    "imt_inv th hash ser h s (c + length vs div 2 ^ s) w'" "imt_values w' = imt_values w \<union> {v \<in> set vs. v \<noteq> 0}"
    "batch_stored (leaf_view (indexed_leaves w)) vs (c * 2 ^ s) (leaf_view (indexed_leaves w'))"
proof -
  note D = imt_invD [OF assms(2)]
  note I = batch_index [OF assms(3)]
  have vs: "vs \<noteq> []" "length vs mod 2 ^ s = 0" "c + length vs div 2 ^ s \<le> 2 ^ h" "distinct (filter (\<lambda>v. v \<noteq> 0) vs)"
    "\<forall>v\<in>set vs. v \<noteq> 0 \<longrightarrow> v \<notin> imt_values w"
    using assms(3) by (simp_all add: batch_ok_def)
  let ?b = "c * 2 ^ s" and ?k = "length vs div 2 ^ s"
  define K where "K = indexed_leaves w"
  define lowl where "lowl = map (\<lambda>v. greatest_below ser (padded_key ser v) K) vs"
  define lows where "lows = remdups_adj (sort (map leaf_value (List.map_filter id lowl)))"
  have lows: "set lows = {u. \<exists>v\<in>set vs. v \<noteq> 0 \<and> is_low (leaf_view K) v u}"
    using low_values [OF assms(2), of vs] by (simp add: lows_def lowl_def K_def)
  have ids0: "\<forall>l\<in>set K. leaf_id l < ?b" using D(4) by (simp add: K_def)
  obtain L where L: "store_new ser vs ?b w = (Inr (), w\<lparr>indexed_leaves := L\<rparr>)" "leaf_invar ser (w\<lparr>indexed_leaves := L\<rparr>)"
    "batch_stored (leaf_view K) vs ?b (leaf_view L)"
    "leaf_id ` set L = leaf_id ` set K \<union> {?b + m | m. m < length vs \<and> vs ! m \<noteq> 0}"
    using store_new_ok [OF D(2,3) _ I(2) vs(4)] ids0 vs(5) unfolding K_def imt_values_view by blast
  let ?w1 = "w\<lparr>indexed_leaves := L\<rparr>"
  have f1: "faults ?w1 = []" and d1: "distinct (map leaf_value L)" "distinct (map leaf_id L)"
    using L(2) by (simp_all add: leaf_invar_def)
  have domL: "dom (leaf_view L) = dom (leaf_view K) \<union> {v \<in> set vs. v \<noteq> 0}" using L(3) by (simp add: batch_stored_def)
  have "0 \<in> dom (leaf_view K)" using D(3) by (auto simp: chain_def K_def)
  then have pres: "v \<in> leaf_value ` set L" if "v \<in> set vs" for v
    using that domL by (cases "v = 0") (auto simp: dom_leaf_view)
  define lf where "lf v = the (find (\<lambda>l. leaf_value l = v) L)" for v
  have lf: "find (\<lambda>l. leaf_value l = v) L = Some (lf v) \<and> lf v \<in> set L \<and> leaf_value (lf v) = v" if v: "v \<in> leaf_value ` set L" for v
  proof -
    obtain l where "l \<in> set L" "leaf_value l = v" using v by (auto simp: image_iff)
    then show ?thesis using find_value [OF d1(1), of l] by (auto simp: lf_def)
  qed
  define hs where "hs = map (\<lambda>l. if leaf_value l \<noteq> 0 then leaf_hash hash l else 0) (map lf vs)"
  have hs: "length hs = length vs" "\<And>m. m < length vs \<Longrightarrow> vs ! m = 0 \<Longrightarrow> hs ! m = 0"
    "\<And>m l. m < length vs \<Longrightarrow> vs ! m \<noteq> 0 \<Longrightarrow> l \<in> set L \<Longrightarrow> leaf_value l = vs ! m \<Longrightarrow> hs ! m = leaf_hash hash l"
  proof -
    show "length hs = length vs" by (simp add: hs_def)
    fix m assume m: "m < length vs"
    then have lm: "find (\<lambda>l. leaf_value l = vs ! m) L = Some (lf (vs ! m))" "leaf_value (lf (vs ! m)) = vs ! m"
      using lf [OF pres [OF nth_mem]] by simp_all
    then show "vs ! m = 0 \<Longrightarrow> hs ! m = 0" using m by (simp add: hs_def)
    fix l assume "vs ! m \<noteq> 0" "l \<in> set L" "leaf_value l = vs ! m"
    then show "hs ! m = leaf_hash hash l" using m lm find_value [OF d1(1), of l] by (simp add: hs_def)
  qed
  have t1: "tree_inv th h s c (leaf_content hash K) ?w1" and s1: "store_inv True ?w1"
    using D(1,6) by (simp_all add: tree_inv_def store_inv_def K_def look_def [abs_def] nodes_ok_def heap_ok_def cong: option.case_cong)
  have len: "length hs mod 2 ^ s = 0" "hs \<noteq> []" "c + length hs div 2 ^ s \<le> 2 ^ h"
    using hs(1) vs(1-3) by auto
  obtain w2 where w2: "store_inv True w2" "nodes_ok th (h + s) (put_leaves (leaf_content hash K) ?b hs) (look w2)"
    "store_frame True w2 = store_frame True ?w1"
    "append_sub_trees th hs True ?w1 = (Inr (mnode th (put_leaves (leaf_content hash K) ?b hs) (h + s) 0, (c + ?k) * 2 ^ s),
       w2\<lparr>metadata := Some \<lparr>tree_height = h, sub_tree_height = s, sub_tree_count = c + ?k,
         root = mnode th (put_leaves (leaf_content hash K) ?b hs) (h + s) 0\<rparr>\<rparr>)"
    using append_sub_trees_ok [OF s1 t1 len] by (auto simp: hs(1))
  define w3 where "w3 = w2\<lparr>metadata := Some \<lparr>tree_height = h, sub_tree_height = s, sub_tree_count = c + ?k,
         root = mnode th (put_leaves (leaf_content hash K) ?b hs) (h + s) 0\<rparr>\<rparr>"
  have t3: "tree_inv th h s (c + ?k) (put_leaves (leaf_content hash K) ?b hs) w3" "store_inv True w3"
    using w2(1,2) by (simp_all add: w3_def tree_inv_def store_inv_def)
  have f3: "faults w3 = []" using t3(2) by (simp add: store_inv_def)
  have "tree_db.more w3 = tree_db.more ?w1" using w2(3) by (simp add: w3_def store_frame_def)
  from more_indexed_leaves [OF this] have i3: "indexed_leaves w3 = L" by simp
  define infos where "infos = map lf lows"
  have lowin: "u \<in> leaf_value ` set L" if "u \<in> set lows" for u
    using that lows domL by (auto simp: is_low_def dom_leaf_view)
  have infos: "set infos \<subseteq> set L" "leaf_value ` set infos = {u. \<exists>v\<in>set vs. v \<noteq> 0 \<and> is_low (leaf_view K) v u}"
    using lf lowin by (auto simp: infos_def lows [symmetric] image_image)
  let ?us = "map (\<lambda>l. (leaf_hash hash l, leaf_id l)) infos"
  have swap: "map prod.swap ?us = map (\<lambda>l. (leaf_id l, leaf_hash hash l)) infos" by simp
  have content: "override (put_leaves (leaf_content hash K) ?b hs) (map prod.swap ?us) = leaf_content hash L"
    unfolding swap
    by (rule batch_content [OF _ _ d1 L(3) ids0 L(4) hs infos]) (use D(9,10) in \<open>simp_all add: K_def\<close>)
  have idL: "leaf_id l < (c + ?k) * 2 ^ s" if "l \<in> set L" for l
  proof -
    have "leaf_id l \<in> leaf_id ` set K \<union> {?b + m | m. m < length vs \<and> vs ! m \<noteq> 0}" using that L(4) by blast
    then have "leaf_id l < ?b + length vs" using ids0 by auto
    then show ?thesis using I(3) by simp
  qed
  have "\<forall>(v, i)\<in>set ?us. i < 2 ^ (h + s)"
  proof (clarsimp)
    fix l assume "l \<in> set infos"
    then have "leaf_id l < (c + ?k) * 2 ^ s" using infos(1) idL by blast
    also have "\<dots> \<le> 2 ^ h * 2 ^ s" using vs(3) by (intro mult_right_mono) simp_all
    finally show "leaf_id l < 2 ^ (h + s)" by (simp add: power_add)
  qed
  from update_lows_ok [OF t3(2,1) this, of 0, unfolded content]
  obtain w' where w': "update_lows th ?us 0 w3 =
      (Inr (if ?us = [] then 0 else mnode th (leaf_content hash L) (h + s) 0), w')"
    "store_inv True w'" "tree_inv th h s (c + ?k) (leaf_content hash L) w'" "tree_db.more w' = tree_db.more w3"
    by blast
  have i': "indexed_leaves w' = L" using more_indexed_leaves [OF w'(4)] i3 by simp
  have inv: "imt_inv th hash ser h s (c + ?k) w'"
    using w'(2,3) L(2,3) idL vs(3) by (simp add: imt_inv_def i' leaf_invar_def batch_stored_def store_inv_def)
  have vals: "imt_values w' = imt_values w \<union> {v \<in> set vs. v \<noteq> 0}"
    using domL by (simp add: imt_values_view i' K_def)
  have us0: "?us = [] \<longleftrightarrow> (\<forall>v\<in>set vs. v = 0)"
  proof -
    have "lows = [] \<longleftrightarrow> set lows = {}" by simp
    also have "\<dots> \<longleftrightarrow> (\<forall>v\<in>set vs. v = 0)" unfolding lows using is_low_ex [OF D(3)] by (auto simp: K_def)
    finally show ?thesis by (simp add: infos_def)
  qed
  have j1: "joinM vs (get_low_leaf ser) w = (Inr lowl, w)"
    unfolding lowl_def K_def by (rule joinM_pure) (rule get_low_leaf_ok [OF D(8,7)])
  have j2: "joinM vs (\<lambda>v. get_leaf ser (Some v) None) ?w1 = (Inr (map (\<lambda>v. Some (lf v)) vs), ?w1)"
    by (rule joinM_pure) (use get_leaf_ok [OF D(8) f1] lf pres in simp)
  have j3: "joinM lows (\<lambda>v. bindM (get_leaf ser (Some v) None) (okM ItemNotFound)) w3 = (Inr (map lf lows), w3)"
    by (rule joinM_pure) (use get_leaf_ok [OF D(8) f3] lf lowin i3 in \<open>simp add: bindM_def returnM_def\<close>)
  have run: "insert_leaves th hash ser vs w = update_lows th ?us 0 w3"
    unfolding insert_leaves_def
    using vs(1)
    by (simp add: bindM_def check_absent_ok [OF D(8,7) vs(5)] j1 Let_def metadata_or_ok [OF D(7,12)] I(1) [simplified] L(1)
        j2 forM_okM_Some w2(4) hs_def [symmetric, simplified] w3_def [symmetric] lows_def [symmetric] j3
        infos_def [symmetric] del: update_lows.simps)
  show thesis
    by (rule that [of w']) (use run w'(1) us0 inv vals L(3) in \<open>simp_all add: i' K_def\<close>)
qed

lemma insert_leaves_ok:
  assumes "th 0 0 = 0" "imt_inv th hash ser h s c w" "batch_ok h s c (imt_values w) vs"
  obtains w' where
    "insert_leaves th hash ser vs w =
      (Inr (if \<forall>v\<in>set vs. v = 0 then 0 else mnode th (leaf_content hash (indexed_leaves w')) (h + s) 0), w')"
    "imt_inv th hash ser h s (c + length vs div 2 ^ s) w'" "imt_values w' = imt_values w \<union> {v \<in> set vs. v \<noteq> 0}"
  by (rule insert_leaves_stored [OF assms]) (rule that)

section \<open>Insertion with circuit information\<close>

lemma content_view:
  assumes "distinct (map leaf_value L)" "distinct (map leaf_id L)" "leaf_view L x = Some (j, ni, nv)"
  shows "leaf_content hash L j = hash [x, fr ni, nv]"
proof -
  obtain l where "l \<in> set L" "leaf_value l = x" "leaf_entry l = (j, ni, nv)"
    using leaf_view_Some [OF assms(1)] assms(3) by blast
  then show ?thesis using leaf_content_mem [OF assms(2), of l hash] by (simp add: leaf_entry_def leaf_hash_def)
qed

lemma content_no_view:
  assumes "distinct (map leaf_value L)" "\<And>x e. leaf_view L x = Some e \<Longrightarrow> entry_id e \<noteq> j"
  shows "leaf_content hash L j = 0"
  using assms(2) entry_ids [OF assms(1), of j] by (intro leaf_content_none) blast

lemma content_link:
  assumes "distinct (map leaf_value K)" "distinct (map leaf_id K)" "distinct (map leaf_value L)" "distinct (map leaf_id L)"
    "leaf_view L = link (leaf_view K) i v u" "leaf_view K u = Some (k, ni, nv)" "v \<notin> dom (leaf_view K)" "j \<noteq> i"
  shows "leaf_content hash L j = (if j = k then hash [u, fr i, v] else leaf_content hash K j)"
proof -
  have uv: "u \<noteq> v" using assms(6,7) by blast
  have E: "leaf_view L = (leaf_view K)(v \<mapsto> (i, ni, nv), u \<mapsto> (k, i, v))" by (simp add: assms(5,6) link_def)
  show ?thesis
  proof (cases "j = k")
    case True
    have "leaf_view L u = Some (k, i, v)" by (simp add: E)
    then show ?thesis using content_view [OF assms(3,4)] True by simp
  next
    case False
    show ?thesis
    proof (cases "\<exists>x e. leaf_view K x = Some e \<and> entry_id e = j")
      case True
      then obtain x ni' nv' where x: "leaf_view K x = Some (j, ni', nv')" by auto
      then have "x \<noteq> u" "x \<noteq> v" using False assms(6,7) by auto
      then have "leaf_view L x = Some (j, ni', nv')" using x by (simp add: E)
      then show ?thesis using content_view [OF assms(3,4)] content_view [OF assms(1,2) x] False by simp
    next
      case no: False
      have "entry_id e \<noteq> j" if "leaf_view L x = Some e" for x e
        using that no False assms(8) by (cases e) (auto simp: E split: if_splits)
      then have "leaf_content hash L j = 0" by (rule content_no_view [OF assms(3)])
      moreover have "leaf_content hash K j = 0" using no by (intro content_no_view [OF assms(1)]) blast
      ultimately show ?thesis using False by simp
    qed
  qed
qed

text \<open>During the loop the tree holds the leaves below \<open>b\<close> only; the leaves from \<open>b\<close> on are pending.\<close>

definition below_content :: "(fr254 list \<Rightarrow> fr254) \<Rightarrow> IndexedLeaf list \<Rightarrow> nat \<Rightarrow> nat \<Rightarrow> fr254" where
  "below_content hash L b j = (if j < b then leaf_content hash L j else 0)"

definition pending_inv ::
    "(fr254 \<Rightarrow> fr254 \<Rightarrow> fr254) \<Rightarrow> (fr254 list \<Rightarrow> fr254) \<Rightarrow> (fr254 \<Rightarrow> byte list) \<Rightarrow> nat \<Rightarrow> nat \<Rightarrow> nat \<Rightarrow> nat \<Rightarrow> 'z imt_db_scheme \<Rightarrow> bool" where
  "pending_inv th hash ser h s c i w \<longleftrightarrow>
     store_inv True w \<and> leaf_invar ser w \<and> chain (leaf_view (indexed_leaves w)) \<and>
     (\<forall>l\<in>set (indexed_leaves w). leaf_id l < i) \<and> c * 2 ^ s \<le> i \<and> c \<le> 2 ^ h \<and>
     tree_inv th h s c (below_content hash (indexed_leaves w) (c * 2 ^ s)) w"

lemma tree_inv_leaves [simp]: "tree_inv th h s c f (w\<lparr>indexed_leaves := L\<rparr>) = tree_inv th h s c f w"
  by (simp add: tree_inv_def look_def [abs_def] cong: option.case_cong)

lemma store_inv_leaves [simp]: "store_inv u (w\<lparr>indexed_leaves := L\<rparr>) = store_inv u w"
  by (simp add: store_inv_def)

lemma leaf_invar_cong: "faults w' = [] \<Longrightarrow> indexed_leaves w' = indexed_leaves w \<Longrightarrow> leaf_invar ser w \<Longrightarrow> leaf_invar ser w'"
  by (simp add: leaf_invar_def)

text \<open>What the circuit is told about the nullifiers of a subtree whose first index is \<open>b\<close>, in a tree of height \<open>d\<close>: nullifier by nullifier, the
  list of leaves goes from \<open>K\<close> to \<open>K'\<close>. A non-zero one comes with the entry of its low leaf in the list at that moment, and is
  linked behind it. When the low leaf was in the tree before, its path takes it to the running root, that of the tree with the
  leaves so far, and takes the changed low leaf to the next running root; when it belongs to the same
  subtree, whose leaves are not in the tree yet, the path is empty and the running root stays.\<close>

inductive low_proofs ::
    "(fr254 \<Rightarrow> fr254 \<Rightarrow> fr254) \<Rightarrow> (fr254 list \<Rightarrow> fr254) \<Rightarrow> nat \<Rightarrow> nat \<Rightarrow> IndexedLeaf list \<Rightarrow> nat \<Rightarrow> fr254 list \<Rightarrow>
     (LeafDBEntry \<times> fr254 MembershipProof) list \<Rightarrow> IndexedLeaf list \<Rightarrow> bool"
  for th hash d b where
  no_more: "low_proofs th hash d b K i [] [] K"
| zero_value: "low_proofs th hash d b K (i + 1) vs xs K' \<Longrightarrow>
    low_proofs th hash d b K i (0 # vs) ((db_entry_from default_leaf, \<lparr>node_value = 0,
      sibling_path = replicate d \<lparr>direction = HashWithThisNodeOnLeft, path_value = 0\<rparr>, leaf_index = 0\<rparr>) # xs) K'"
| low_in_tree: "v \<noteq> 0 \<Longrightarrow> low \<in> set K \<Longrightarrow> is_low (leaf_view K) v (leaf_value low) \<Longrightarrow>
    leaf_view K1 = link (leaf_view K) i v (leaf_value low) \<Longrightarrow> leaf_id low < b \<Longrightarrow>
    node_value p = leaf_hash hash low \<Longrightarrow> leaf_index p = leaf_id low \<Longrightarrow> length (sibling_path p) = d \<Longrightarrow>
    path_root th (leaf_hash hash low) (sibling_path p) = mnode th (below_content hash K b) d 0 \<Longrightarrow>
    path_root th (hash [leaf_value low, fr i, v]) (sibling_path p) = mnode th (below_content hash K1 b) d 0 \<Longrightarrow>
    low_proofs th hash d b K1 (i + 1) vs xs K' \<Longrightarrow>
    low_proofs th hash d b K i (v # vs) ((db_entry_from low, p) # xs) K'"
| low_in_batch: "v \<noteq> 0 \<Longrightarrow> low \<in> set K \<Longrightarrow> is_low (leaf_view K) v (leaf_value low) \<Longrightarrow>
    leaf_view K1 = link (leaf_view K) i v (leaf_value low) \<Longrightarrow> b \<le> leaf_id low \<Longrightarrow>
    mnode th (below_content hash K1 b) d 0 = mnode th (below_content hash K b) d 0 \<Longrightarrow>
    p = \<lparr>node_value = leaf_hash hash low, sibling_path = replicate d \<lparr>direction = HashWithThisNodeOnLeft, path_value = 0\<rparr>,
      leaf_index = (i + 1) mod 2 ^ 32 - 1\<rparr> \<Longrightarrow>
    low_proofs th hash d b K1 (i + 1) vs xs K' \<Longrightarrow>
    low_proofs th hash d b K i (v # vs) ((db_entry_from low, p) # xs) K'"

lemma circuit_step_ok:
  assumes "pending_inv th hash ser h s c i w" "v \<noteq> 0" "v \<notin> imt_values w" "tree_height m + sub_tree_height m = h + s"
  obtains w' low p where "circuit_step th hash ser m (c * 2 ^ s) i v w = (Inr (db_entry_from low, p), w')"
    "pending_inv th hash ser h s c (i + 1) w'"
    "\<exists>u. is_low (leaf_view (indexed_leaves w)) v u \<and> leaf_view (indexed_leaves w') = link (leaf_view (indexed_leaves w)) i v u"
    "\<And>vs xs K'. low_proofs th hash (h + s) (c * 2 ^ s) (indexed_leaves w') (i + 1) vs xs K' \<Longrightarrow>
       low_proofs th hash (h + s) (c * 2 ^ s) (indexed_leaves w) i (v # vs) ((db_entry_from low, p) # xs) K'"
    "leaf_id ` set (indexed_leaves w') = insert i (leaf_id ` set (indexed_leaves w))"
proof -
  let ?b = "c * 2 ^ s" and ?K = "indexed_leaves w"
  have P: "store_inv True w" "leaf_invar ser w" "chain (leaf_view ?K)" "\<And>l. l \<in> set ?K \<Longrightarrow> leaf_id l < i" "?b \<le> i" "c \<le> 2 ^ h"
    "tree_inv th h s c (below_content hash ?K ?b) w" "faults w = []" "ser_ok ser" "distinct (map leaf_value ?K)" "distinct (map leaf_id ?K)"
    using assms(1) by (simp_all add: pending_inv_def leaf_invar_def)
  have vd: "v \<notin> dom (leaf_view ?K)" using assms(3) by (simp add: imt_values_view)
  have none: "find (\<lambda>x. leaf_value x = v) ?K = None" using assms(3) find_value_none by blast
  obtain low where low: "greatest_below ser (padded_key ser v) ?K = Some low" "low \<in> set ?K"
    "is_low (leaf_view ?K) v (leaf_value low)" "leaf_view ?K (leaf_value low) = Some (leaf_entry low)"
    by (rule low_is_low [OF P(2,3) assms(2)])
  have fresh: "i \<notin> leaf_id ` set ?K" using P(4) by auto
  obtain L u where L: "store_leaf ser v (Some i) w = (Inr (Some ()), w\<lparr>indexed_leaves := L\<rparr>)"
    "leaf_invar ser (w\<lparr>indexed_leaves := L\<rparr>)" "is_low (leaf_view ?K) v u" "leaf_view L = link (leaf_view ?K) i v u"
    "leaf_id ` set L = insert i (leaf_id ` set ?K)"
    by (rule store_leaf_new [OF P(2,3) assms(2) vd fresh])
  have u: "u = leaf_value low" using is_low_unique [OF L(3) low(3)] .
  let ?w1 = "w\<lparr>indexed_leaves := L\<rparr>"
  have d1: "distinct (map leaf_value L)" "distinct (map leaf_id L)" "faults ?w1 = []"
    using L(2) by (simp_all add: leaf_invar_def)
  have eL: "leaf_view L (leaf_value low) = Some (leaf_id low, i, v)"
    using low(4) by (simp add: L(4) u link_def leaf_entry_def)
  then obtain lu where lu: "lu \<in> set L" "leaf_value lu = leaf_value low" "leaf_entry lu = (leaf_id low, i, v)"
    using leaf_view_Some [OF d1(1)] by blast
  have flu: "find (\<lambda>l. leaf_value l = leaf_value low) L = Some lu" using find_value [OF d1(1) lu(1)] lu(2) by simp
  have hlu: "leaf_hash hash lu = hash [leaf_value low, fr i, v]" "leaf_id lu = leaf_id low"
    using lu(2,3) by (simp_all add: leaf_hash_def leaf_entry_def)
  have cont: "leaf_content hash L j = (if j = leaf_id low then leaf_hash hash lu else leaf_content hash ?K j)" if "j \<noteq> i" for j
    using content_link [OF P(10,11) d1(1,2) L(4) low(4) [folded u, unfolded leaf_entry_def] vd that] u hlu by simp
  have ch: "chain (leaf_view L)"
    using chain_link [OF P(3) assms(2) vd L(3)] L(4) entry_ids [OF P(10), of i] fresh by simp
  have ids: "\<forall>l\<in>set L. leaf_id l < i + 1"
  proof
    fix l assume "l \<in> set L"
    then have "leaf_id l \<in> insert i (leaf_id ` set ?K)" using L(5) by auto
    then show "leaf_id l < i + 1" using P(4) by (auto intro: less_SucI)
  qed
  show thesis
  proof (cases "leaf_id low < ?b")
    case True
    have "?b \<le> 2 ^ h * 2 ^ s" using P(6) by (intro mult_right_mono) simp_all
    then have "leaf_id low < 2 ^ h * 2 ^ s" using True by linarith
    then have idb: "leaf_id low < 2 ^ (h + s - 0)" by (simp add: power_add)
    have t1: "tree_inv th h s c (below_content hash ?K ?b) ?w1" "store_inv True ?w1" using P(1,7) by simp_all
    have put: "put_leaves (below_content hash ?K ?b) (leaf_id low * 2 ^ 0) [leaf_hash hash lu] = below_content hash L ?b"
    proof
      fix j
      show "put_leaves (below_content hash ?K ?b) (leaf_id low * 2 ^ 0) [leaf_hash hash lu] j = below_content hash L ?b j"
        using cont [of j] True P(5) by (auto simp: put_leaves_def below_content_def)
    qed
    obtain w2 where w2: "update_sub_tree th (leaf_id low) [leaf_hash hash lu] True ?w1 = (Inr (mnode th (below_content hash L ?b) (h + s) 0), w2)"
      "store_inv True w2" "tree_inv th h s c (below_content hash L ?b) w2" "tree_db.more w2 = tree_db.more ?w1"
      using update_sub_tree_ok [OF t1(2,1) _ _ idb, of "[leaf_hash hash lu]"] unfolding put by auto
    have i2: "indexed_leaves w2 = L" using more_indexed_leaves [OF w2(4)] by simp
    have f2: "faults w2 = []" using w2(2) by (simp add: store_inv_def)
    have md: "metadata_or ItemNotFound w = (Inr \<lparr>tree_height = h, sub_tree_height = s, sub_tree_count = c,
        root = mnode th (below_content hash ?K ?b) (h + s) 0\<rparr>, w)"
      using P(7,8) by (intro metadata_or_ok) (simp_all add: tree_inv_def)
    let ?p = "\<lparr>node_value = leaf_hash hash low, sibling_path = siblings (look w) (h + s) (2 ^ (h + s) - 1 + leaf_id low), leaf_index = leaf_id low\<rparr>"
    have p: "get_non_membership_proof hash ser v w = (Inr ?p, w)"
      using assms(2)
      by (simp add: get_non_membership_proof_def bindM_def get_leaf_ok [OF P(9,8)] none md
          get_low_leaf_ok [OF P(9,8)] low(1) returnM_def read_siblings_ok [OF P(8)] Let_def)
    have nok: "nodes_ok th (h + s) (below_content hash ?K ?b) (look w)" using P(7) by (simp add: tree_inv_def)
    have "path_root th (leaf_hash hash low) (sibling_path ?p) = mnode th (below_content hash ?K ?b) (h + s) 0"
      using siblings_root [OF nok, of "leaf_id low"] idb True leaf_content_mem [OF P(11) low(2), of hash] by (simp add: below_content_def)
    moreover have "path_root th (hash [leaf_value low, fr i, v]) (sibling_path ?p) = mnode th (below_content hash L ?b) (h + s) 0"
      using siblings_put [OF nok, of "leaf_id low" "leaf_hash hash lu"] idb put hlu(1) by simp
    ultimately have lp: "low_proofs th hash (h + s) ?b L (i + 1) vs xs K' \<Longrightarrow> low_proofs th hash (h + s) ?b ?K i (v # vs) ((db_entry_from low, ?p) # xs) K'"
      for vs xs K'
      using low_in_tree [OF assms(2) low(2,3) L(4) [unfolded u] True, of ?p] by simp
    have "circuit_step th hash ser m ?b i v w = (Inr (db_entry_from low, ?p), w2)"
      using assms(2) True
      by (simp add: circuit_step_def bindM_def get_leaf_ok [OF P(9,8)] none get_low_leaf_ok [OF P(9,8)] low(1)
          p L(1) returnM_def get_leaf_ok [OF P(9) d1(3)] flu hlu(2) w2(1))
    moreover have "pending_inv th hash ser h s c (i + 1) w2"
      using w2(2,3) leaf_invar_cong [OF f2 _ L(2)] ch ids P(5,6) by (simp add: pending_inv_def i2)
    ultimately show thesis using that [of low ?p w2] L(3-5) i2 lp by blast
  next
    case False
    have same: "below_content hash L ?b = below_content hash ?K ?b"
    proof
      fix j show "below_content hash L ?b j = below_content hash ?K ?b j"
        using cont [of j] False P(5) by (auto simp: below_content_def)
    qed
    have lp: "low_proofs th hash (h + s) ?b L (i + 1) vs xs K' \<Longrightarrow> low_proofs th hash (h + s) ?b ?K i (v # vs)
        ((db_entry_from low, \<lparr>node_value = leaf_hash hash low, sibling_path = zero_path m, leaf_index = (i + 1) mod 2 ^ 32 - 1\<rparr>) # xs) K'"
      for vs xs K'
      by (rule low_in_batch [OF assms(2) low(2,3) L(4) [unfolded u]]) (use False same in \<open>simp_all add: zero_path_def assms(4)\<close>)
    have "circuit_step th hash ser m ?b i v w = (Inr (db_entry_from low, \<lparr>node_value = leaf_hash hash low, sibling_path = zero_path m,
        leaf_index = (i + 1) mod 2 ^ 32 - 1\<rparr>), ?w1)"
      using assms(2) False
      by (simp add: circuit_step_def bindM_def get_leaf_ok [OF P(9,8)] none get_low_leaf_ok [OF P(9,8)] low(1)
          L(1) returnM_def)
    moreover have "pending_inv th hash ser h s c (i + 1) ?w1"
      using P(1,5-7) L(2) ch ids by (simp add: pending_inv_def same)
    ultimately show thesis using that [of low _ ?w1] L(3-5) lp by auto
  qed
qed

text \<open>The loop: the chain and the indices as for a batch that is stored at once.\<close>

lemma circuit_loop_ok:
  "pending_inv th hash ser h s c i w \<Longrightarrow> i + length vs \<le> 2 ^ 32 \<Longrightarrow> distinct (filter (\<lambda>v. v \<noteq> 0) vs) \<Longrightarrow>
   (\<forall>v\<in>set vs. v \<noteq> 0 \<longrightarrow> v \<notin> imt_values w) \<Longrightarrow> tree_height m + sub_tree_height m = h + s \<Longrightarrow>
   \<exists>w' xs. circuit_loop th hash ser m (c * 2 ^ s) i vs w = (Inr xs, w') \<and>
     pending_inv th hash ser h s c (i + length vs) w' \<and> length xs = length vs \<and>
     low_proofs th hash (h + s) (c * 2 ^ s) (indexed_leaves w) i vs xs (indexed_leaves w') \<and>
     batch_stored (leaf_view (indexed_leaves w)) vs i (leaf_view (indexed_leaves w')) \<and>
     leaf_id ` set (indexed_leaves w') = leaf_id ` set (indexed_leaves w) \<union> {i + m | m. m < length vs \<and> vs ! m \<noteq> 0}"
proof (induction vs arbitrary: i w)
  case Nil
  then show ?case by (auto simp: returnM_def pending_inv_def batch_stored_Nil intro: no_more)
next
  case (Cons v vs)
  note shift = stored_positions [of i v vs]
  have wrap: "circuit_loop th hash ser m (c * 2 ^ s) ((i + 1) mod 2 ^ 32) vs =
      (circuit_loop th hash ser m (c * 2 ^ s) (i + 1) vs :: ('a, _) imtM)"
  proof (cases vs)
    case (Cons v' vs')
    then have "i + 1 < 2 ^ 32" using Cons.prems(2) by simp
    then have "(i + 1) mod 2 ^ 32 = i + 1" by (rule mod_less)
    then show ?thesis by (simp only:)
  qed simp
  have len: "i + 1 + length vs \<le> 2 ^ 32" "distinct (filter (\<lambda>v. v \<noteq> 0) vs)" using Cons.prems(2,3) by (auto split: if_splits)
  obtain x w1 where st: "circuit_step th hash ser m (c * 2 ^ s) i v w = (Inr x, w1)" "pending_inv th hash ser h s c (i + 1) w1"
    "\<And>ys K'. low_proofs th hash (h + s) (c * 2 ^ s) (indexed_leaves w1) (i + 1) vs ys K' \<Longrightarrow>
       low_proofs th hash (h + s) (c * 2 ^ s) (indexed_leaves w) i (v # vs) (x # ys) K'"
    "\<And>F. batch_stored (leaf_view (indexed_leaves w1)) vs (i + 1) F \<Longrightarrow> batch_stored (leaf_view (indexed_leaves w)) (v # vs) i F"
    "leaf_id ` set (indexed_leaves w1) = leaf_id ` set (indexed_leaves w) \<union> (if v \<noteq> 0 then {i} else {})"
    "imt_values w1 = imt_values w \<union> (if v \<noteq> 0 then {v} else {})"
  proof (cases "v = 0")
    case True
    have P: "ser_ok ser" "faults w = []" using Cons.prems(1) by (simp_all add: pending_inv_def leaf_invar_def)
    have "circuit_step th hash ser m (c * 2 ^ s) i v w =
        (Inr (db_entry_from default_leaf, \<lparr>node_value = 0, sibling_path = zero_path m, leaf_index = 0\<rparr>), w)"
      using True by (simp add: circuit_step_def bindM_def get_leaf_ok [OF P] returnM_def)
    moreover have "pending_inv th hash ser h s c (i + 1) w"
      using Cons.prems(1) by (auto simp: pending_inv_def intro: less_SucI)
    moreover have "low_proofs th hash (h + s) (c * 2 ^ s) (indexed_leaves w) i (v # vs)
        ((db_entry_from default_leaf, \<lparr>node_value = 0, sibling_path = zero_path m, leaf_index = 0\<rparr>) # ys) K'"
      if "low_proofs th hash (h + s) (c * 2 ^ s) (indexed_leaves w) (i + 1) vs ys K'" for ys K'
      using zero_value [OF that] True by (simp add: zero_path_def Cons.prems(5))
    ultimately show ?thesis using that True batch_stored_zero by auto
  next
    case False
    have nv: "v \<notin> imt_values w" "v \<notin> set vs" using Cons.prems(3,4) False by simp_all
    obtain w' low p u where c: "circuit_step th hash ser m (c * 2 ^ s) i v w = (Inr (db_entry_from low, p), w')"
      "pending_inv th hash ser h s c (i + 1) w'"
      "\<And>vs xs K'. low_proofs th hash (h + s) (c * 2 ^ s) (indexed_leaves w') (i + 1) vs xs K' \<Longrightarrow>
         low_proofs th hash (h + s) (c * 2 ^ s) (indexed_leaves w) i (v # vs) ((db_entry_from low, p) # xs) K'"
      "is_low (leaf_view (indexed_leaves w)) v u"
      "leaf_view (indexed_leaves w') = link (leaf_view (indexed_leaves w)) i v u"
      "leaf_id ` set (indexed_leaves w') = insert i (leaf_id ` set (indexed_leaves w))"
      by (rule circuit_step_ok [OF Cons.prems(1) False nv(1) Cons.prems(5)]) blast
    have "batch_stored (leaf_view (indexed_leaves w)) (v # vs) i F"
      if "batch_stored (leaf_view (indexed_leaves w')) vs (i + 1) F" for F
      using batch_stored_link [OF that [unfolded c(5)] c(4) False _ nv(2)] nv(1) by (simp add: imt_values_view)
    moreover have "imt_values w' = imt_values w \<union> {v}"
      using link_dom [OF c(4), of i] by (simp add: imt_values_view c(5))
    ultimately show ?thesis using that [OF c(1,2)] c(3,6) False by simp
  qed
  have "\<forall>y\<in>set vs. y \<noteq> 0 \<longrightarrow> y \<notin> imt_values w1" using Cons.prems(3,4) st(6) by auto
  from Cons.IH [OF st(2) len this Cons.prems(5)]
  obtain w' xs where IH: "circuit_loop th hash ser m (c * 2 ^ s) (i + 1) vs w1 = (Inr xs, w')"
    "pending_inv th hash ser h s c (i + 1 + length vs) w'" "length xs = length vs"
    "low_proofs th hash (h + s) (c * 2 ^ s) (indexed_leaves w1) (i + 1) vs xs (indexed_leaves w')"
    "batch_stored (leaf_view (indexed_leaves w1)) vs (i + 1) (leaf_view (indexed_leaves w'))"
    "leaf_id ` set (indexed_leaves w') = leaf_id ` set (indexed_leaves w1) \<union> {i + 1 + m | m. m < length vs \<and> vs ! m \<noteq> 0}"
    by blast
  have "circuit_loop th hash ser m (c * 2 ^ s) i (v # vs) w = (Inr (x # xs), w')"
    unfolding circuit_loop.simps wrap using IH(1) by (simp add: bindM_def st(1) returnM_def)
  moreover have "leaf_id ` set (indexed_leaves w') = leaf_id ` set (indexed_leaves w) \<union>
      {i + m | m. m < length (v # vs) \<and> (v # vs) ! m \<noteq> 0}"
    unfolding shift IH(6) st(5) by auto
  moreover have "low_proofs th hash (h + s) (c * 2 ^ s) (indexed_leaves w) i (v # vs) (x # xs) (indexed_leaves w')"
    by (rule st(3) [OF IH(4)])
  ultimately show ?case using st(4) [OF IH(5)] IH(2,3) by (intro exI [of _ w'] exI [of _ "x # xs"]) simp
qed

lemma insert_nullifiers_stored:
  assumes "th 0 0 = 0" "imt_inv th hash ser h s c w" "batch_ok h s c (imt_values w) vs" "length vs = 2 ^ s"
  obtains info w' where "insert_nullifiers_for_circuit th hash ser vs w = (Inr info, w')"
    "imt_inv th hash ser h s (c + 1) w'" "imt_values w' = imt_values w \<union> {v \<in> set vs. v \<noteq> 0}"
    "imt_old_root info = mnode th (leaf_content hash (indexed_leaves w)) (h + s) 0"
    "new_root (imt_circuit_info info) = mnode th (leaf_content hash (indexed_leaves w')) (h + s) 0"
    "batch_stored (leaf_view (indexed_leaves w)) vs (c * 2 ^ s) (leaf_view (indexed_leaves w'))"
    "imt_first_index info = c * 2 ^ s" "length (imt_pending_inserts info) = length vs"
    "low_proofs th hash (h + s) (c * 2 ^ s) (indexed_leaves w) (c * 2 ^ s) vs (imt_low_nullifiers info) (indexed_leaves w')"
    "\<And>n. n < length vs \<Longrightarrow> if vs ! n = 0 then imt_pending_inserts info ! n = db_entry_from default_leaf
       else \<exists>l\<in>set (indexed_leaves w'). leaf_value l = vs ! n \<and> leaf_id l = c * 2 ^ s + n \<and> imt_pending_inserts info ! n = db_entry_from l"
    "old_root (imt_circuit_info info) = mnode th (below_content hash (indexed_leaves w') (c * 2 ^ s)) (h + s) 0"
    "inserted_leaves (imt_circuit_info info) =
       map (\<lambda>e. if dbe_value e = 0 then 0 else hash [dbe_value e, dbe_next_index e, dbe_next_value e]) (imt_pending_inserts info)"
    "path_root th 0 (sibling_path (proof_of_emptiness (imt_circuit_info info))) = old_root (imt_circuit_info info)"
    "path_root th (merkle_root th s (inserted_leaves (imt_circuit_info info))) (sibling_path (proof_of_emptiness (imt_circuit_info info))) =
       new_root (imt_circuit_info info)"
proof -
  note D = imt_invD [OF assms(2)]
  note I = batch_index [OF assms(3)]
  let ?b = "c * 2 ^ s" and ?K = "indexed_leaves w"
  let ?m = "\<lparr>tree_height = h, sub_tree_height = s, sub_tree_count = c, root = mnode th (leaf_content hash ?K) (h + s) 0\<rparr>"
  have k1: "length vs div 2 ^ s = 1" using assms(4) by simp
  have c: "c < 2 ^ h" and vs: "distinct (filter (\<lambda>v. v \<noteq> 0) vs)" "\<forall>v\<in>set vs. v \<noteq> 0 \<longrightarrow> v \<notin> imt_values w"
    using assms(3) k1 by (simp_all add: batch_ok_def)
  have zero: "leaf_content hash ?K j = 0" if "?b \<le> j" for j
    by (rule leaf_content_none) (use D(4) that in fastforce)
  have "below_content hash ?K ?b = leaf_content hash ?K"
    using zero by (auto simp: below_content_def fun_eq_iff)
  then have "pending_inv th hash ser h s c ?b w"
    using D(1-6) by (simp add: pending_inv_def)
  moreover have "tree_height ?m + sub_tree_height ?m = h + s" by simp
  ultimately have "\<exists>w' xs. circuit_loop th hash ser ?m ?b ?b vs w = (Inr xs, w') \<and>
     pending_inv th hash ser h s c (?b + length vs) w' \<and> length xs = length vs \<and>
     low_proofs th hash (h + s) ?b ?K ?b vs xs (indexed_leaves w') \<and>
     batch_stored (leaf_view ?K) vs ?b (leaf_view (indexed_leaves w')) \<and>
     leaf_id ` set (indexed_leaves w') = leaf_id ` set ?K \<union> {?b + m | m. m < length vs \<and> vs ! m \<noteq> 0}"
    by (intro circuit_loop_ok I(2) vs)
  then
  obtain w1 xs where w1: "circuit_loop th hash ser ?m ?b ?b vs w = (Inr xs, w1)"
    "pending_inv th hash ser h s c (?b + length vs) w1" "length xs = length vs"
    "low_proofs th hash (h + s) ?b ?K ?b vs xs (indexed_leaves w1)"
    "batch_stored (leaf_view ?K) vs ?b (leaf_view (indexed_leaves w1))"
    "leaf_id ` set (indexed_leaves w1) = leaf_id ` set ?K \<union> {?b + m | m. m < length vs \<and> vs ! m \<noteq> 0}"
    by blast
  define L where "L = indexed_leaves w1"
  have P: "store_inv True w1" "leaf_invar ser w1" "chain (leaf_view L)" "\<And>l. l \<in> set L \<Longrightarrow> leaf_id l < ?b + length vs"
    "tree_inv th h s c (below_content hash L ?b) w1" "faults w1 = []" "ser_ok ser" "distinct (map leaf_value L)" "distinct (map leaf_id L)"
    using w1(2) by (simp_all add: pending_inv_def leaf_invar_def L_def)
  have domL: "dom (leaf_view L) = dom (leaf_view ?K) \<union> {v \<in> set vs. v \<noteq> 0}"
    using w1(5) by (simp add: batch_stored_def L_def)
  define lf where "lf v = the (find (\<lambda>l. leaf_value l = v) L)" for v
  have lf: "find (\<lambda>l. leaf_value l = v) L = Some (lf v)" "lf v \<in> set L" "leaf_value (lf v) = v"
    if v: "v \<in> set vs" "v \<noteq> 0" for v
  proof -
    have "v \<in> leaf_value ` set L" using domL v by (auto simp: dom_leaf_view)
    then obtain l where "l \<in> set L" "leaf_value l = v" by (auto simp: image_iff)
    then show "find (\<lambda>l. leaf_value l = v) L = Some (lf v)" "lf v \<in> set L" "leaf_value (lf v) = v"
      using find_value [OF P(8), of l] by (auto simp: lf_def)
  qed
  define pend where "pend v = (if v \<noteq> 0 then db_entry_from (lf v) else db_entry_from default_leaf)" for v
  define hs where "hs = map (\<lambda>e. if dbe_value e \<noteq> 0 then hash [dbe_value e, dbe_next_index e, dbe_next_value e] else 0) (map pend vs)"
  have hs: "length hs = length vs" by (simp add: hs_def)
  have hsm: "hs ! m = (if vs ! m = 0 then 0 else leaf_hash hash (lf (vs ! m)))" if "m < length vs" for m
    using lf [OF nth_mem [OF that]] that by (auto simp: hs_def pend_def db_entry_from_def default_leaf_def leaf_hash_def)
  have j1: "forM vs (\<lambda>v. if v \<noteq> 0 then
           bindM (get_leaf ser (Some v) None) (\<lambda>p. bindM (okM MerkleError p) (\<lambda>l. returnM (db_entry_from l)))
         else returnM (db_entry_from default_leaf)) w1 = (Inr (map pend vs), w1)"
    by (rule forM_pure) (use get_leaf_ok [OF P(7,6)] lf in \<open>simp add: bindM_def returnM_def pend_def L_def\<close>)
  have "put_leaves (below_content hash L ?b) ?b hs j = leaf_content hash L j" for j
  proof -
    consider "j < ?b" | m where "j = ?b + m" "m < length vs" | "?b + length vs \<le> j"
      by (metis le_Suc_ex linorder_not_le nat_add_left_cancel_less)
    then show ?thesis
    proof cases
      case 1
      then show ?thesis by (simp add: put_leaves_def below_content_def)
    next
      case (2 m)
      have p: "put_leaves (below_content hash L ?b) ?b hs j = hs ! m" using 2 by (simp add: put_leaves_def hs)
      show ?thesis
      proof (cases "vs ! m = 0")
        case True
        have "j \<notin> leaf_id ` set ?K" using D(4) 2(1) by fastforce
        then have "j \<notin> leaf_id ` set L" using w1(6) 2(1) True by (auto simp: L_def)
        then show ?thesis using p hsm [OF 2(2)] True by (simp add: leaf_content_none)
      next
        case False
        then obtain e where "leaf_view L (vs ! m) = Some e" "entry_id e = j"
          using w1(5) 2 unfolding batch_stored_def L_def by blast
        moreover have "leaf_view L (vs ! m) = Some (leaf_entry (lf (vs ! m)))"
          using leaf_view_Some [OF P(8)] lf [OF nth_mem [OF 2(2)] False] by blast
        ultimately have "leaf_id (lf (vs ! m)) = j" by (auto simp: leaf_entry_def)
        then show ?thesis
          using p hsm [OF 2(2)] False leaf_content_mem [OF P(9) lf(2) [OF nth_mem [OF 2(2)] False], of hash] by simp
      qed
    next
      case 3
      have "j \<notin> leaf_id ` set L" using P(4) 3 by fastforce
      then show ?thesis using 3 by (simp add: put_leaves_def below_content_def hs leaf_content_none)
    qed
  qed
  then have put: "put_leaves (below_content hash L ?b) ?b hs = leaf_content hash L" by blast
  have lenhs: "length hs = 2 ^ s" using hs assms(4) by simp
  have empty: "\<And>j. ?b \<le> j \<Longrightarrow> j < (c + 1) * 2 ^ s \<Longrightarrow> below_content hash L ?b j = 0" by (simp add: below_content_def)
  obtain info w' where ins: "insert_for_circuit th hs w1 = (Inr info, w')" "new_root info = mnode th (leaf_content hash L) (h + s) 0"
    "store_inv True w'" "tree_inv th h s (c + 1) (leaf_content hash L) w'" "tree_db.more w' = tree_db.more w1"
    and info: "old_root info = mnode th (below_content hash L ?b) (h + s) 0" "inserted_leaves info = hs"
    "path_root th 0 (sibling_path (proof_of_emptiness info)) = old_root info"
    "path_root th (merkle_root th s hs) (sibling_path (proof_of_emptiness info)) = new_root info"
    by (rule insert_for_circuit_ok [OF assms(1) P(1,5) lenhs c empty]) (auto simp: put)
  have inserted: "hs = map (\<lambda>e. if dbe_value e = 0 then 0 else hash [dbe_value e, dbe_next_index e, dbe_next_value e]) (map pend vs)"
    by (simp add: hs_def)
  have pending: "if vs ! n = 0 then map pend vs ! n = db_entry_from default_leaf
       else \<exists>l\<in>set L. leaf_value l = vs ! n \<and> leaf_id l = ?b + n \<and> map pend vs ! n = db_entry_from l" if n: "n < length vs" for n
  proof (cases "vs ! n = 0")
    case False
    note l = lf [OF nth_mem [OF n] False]
    obtain e where "leaf_view L (vs ! n) = Some e" "entry_id e = ?b + n"
      using w1(5) n False unfolding batch_stored_def L_def by blast
    moreover have "leaf_view L (vs ! n) = Some (leaf_entry (lf (vs ! n)))"
      using leaf_view_Some [OF P(8)] l by blast
    ultimately have "leaf_id (lf (vs ! n)) = ?b + n" by (auto simp: leaf_entry_def)
    then show ?thesis using False l(2,3) n by (auto simp: pend_def)
  qed (use n in \<open>simp add: pend_def\<close>)
  have i': "indexed_leaves w' = L" using more_indexed_leaves [OF ins(5)] by (simp add: L_def)
  have f': "faults w' = []" using ins(3) by (simp add: store_inv_def)
  have inv: "imt_inv th hash ser h s (c + 1) w'"
    using ins(3,4) P(3,4) c leaf_invar_cong [OF f' _ P(2)] assms(4)
    by (simp add: imt_inv_def i' L_def add.commute)
  have vals: "imt_values w' = imt_values w \<union> {v \<in> set vs. v \<noteq> 0}" using domL by (simp add: imt_values_view i')
  define res where "res = \<lparr>imt_old_root = mnode th (leaf_content hash ?K) (h + s) 0, imt_circuit_info = info, imt_first_index = ?b,
     imt_low_nullifiers = xs, imt_pending_inserts = map pend vs\<rparr>"
  have run: "insert_nullifiers_for_circuit th hash ser vs w = (Inr res, w')"
    unfolding insert_nullifiers_for_circuit_def
    using assms(4)
    by (simp add: bindM_def metadata_or_ok [OF D(7,12)] Let_def I(1) [simplified] w1(1) j1 [simplified] hs_def [symmetric, simplified]
        ins(1) returnM_def res_def)
  have R: "imt_old_root res = mnode th (leaf_content hash ?K) (h + s) 0" "imt_circuit_info res = info" "imt_first_index res = ?b"
    "imt_low_nullifiers res = xs" "imt_pending_inserts res = map pend vs" by (simp_all add: res_def)
  show thesis
  proof (rule that [OF run inv vals], unfold R i' info(2))
    show "n < length vs \<Longrightarrow> if vs ! n = 0 then map pend vs ! n = db_entry_from default_leaf
       else \<exists>l\<in>set L. leaf_value l = vs ! n \<and> leaf_id l = ?b + n \<and> map pend vs ! n = db_entry_from l" for n
      by (rule pending)
  qed (use ins(2) info inserted w1(4,5) in \<open>simp_all add: L_def\<close>)
qed

section \<open>Properties\<close>

definition th_fr :: "fr254 \<Rightarrow> fr254 \<Rightarrow> fr254" where "th_fr a b = a + (b + b)"
definition hash_fr :: "fr254 list \<Rightarrow> fr254" where "hash_fr xs = foldr (+) xs 1"
definition ser_fr :: "fr254 \<Rightarrow> byte list" where "ser_fr x = le_bytes 32 (fr_val x)"

definition imt_empty :: imt_db where
  "imt_empty = \<lparr>faults = [], metadata = None, nodes = [], cache = [], indexed_leaves = []\<rparr>"

definition imt_ex :: "nat \<Rightarrow> nat \<Rightarrow> imt_db" where
  "imt_ex h s = snd (new_indexed_tree th_fr hash_fr ser_fr h s imt_empty)"

lemma ser_ok_fr: "ser_ok ser_fr"
  using ser_ok_le_bytes by (simp add: ser_fr_def [abs_def])

lemma th_fr_zero: "th_fr 0 0 = 0"
  by (simp add: th_fr_def)

lemma imt_ex_ok: "imt_inv th_fr hash_fr ser_fr h s 1 (imt_ex h s)" "imt_values (imt_ex h s) = {0}"
proof -
  obtain w' where "new_indexed_tree th_fr hash_fr ser_fr h s imt_empty = (Inr (), w')"
    "imt_inv th_fr hash_fr ser_fr h s 1 w'" "imt_values w' = {0}"
    by (rule new_indexed_tree_ok [where th = th_fr and ser = ser_fr and hash = hash_fr and h = h and s = s and w = imt_empty])
      (simp_all add: th_fr_zero ser_ok_fr imt_empty_def)
  then show "imt_inv th_fr hash_fr ser_fr h s 1 (imt_ex h s)" "imt_values (imt_ex h s) = {0}" by (simp_all add: imt_ex_def)
qed

lemma fr_one_neq_zero: "(1::fr254) \<noteq> 0"
  using fr_val_one by force

lemma imt_ex_batch: "batch_ok 2 1 1 (imt_values (imt_ex 2 1)) [1, 0]"
  by (simp add: batch_ok_def imt_ex_ok(2) fr_one_neq_zero)

theorem non_membership_proof_correct_witness:
  "\<exists>p l. get_non_membership_proof hash_fr ser_fr 1 (imt_ex 2 1) = (Inr p, imt_ex 2 1) \<and>
     l \<in> set (indexed_leaves (imt_ex 2 1)) \<and> leaf_index p = leaf_id l"
proof -
  have c: "\<not> (1 = (0::fr254) \<or> 1 \<in> imt_values (imt_ex 2 1))" by (simp add: imt_ex_ok(2) fr_one_neq_zero)
  show ?thesis
    using non_membership_proof_correct [OF imt_ex_ok(1) [of 2 1], of 1] unfolding if_not_P [OF c] by blast
qed

text \<open>C3. Inserting a batch of new nullifiers (a multiple of the subtree size, padded with zeros, no duplicates,
  none in the tree, with room) succeeds: exactly the non-zero values are added, the linked list of leaves stays
  sorted, every node of the tree is again the hash of its children with the hashes of the leaf pre-images as
  leaves, and the root of that tree is returned, unless every value of the batch is zero: then zero is returned.\<close>

theorem insert_leaves_correct:
  assumes "th 0 0 = 0" "imt_inv th hash ser h s c w" "batch_ok h s c (imt_values w) vs"
  shows "\<exists>w'. insert_leaves th hash ser vs w =
      (Inr (if \<forall>v\<in>set vs. v = 0 then 0 else mnode th (leaf_content hash (indexed_leaves w')) (h + s) 0), w') \<and>
    imt_inv th hash ser h s (c + length vs div 2 ^ s) w' \<and> imt_values w' = imt_values w \<union> {v \<in> set vs. v \<noteq> 0}"
proof (rule insert_leaves_ok [OF assms])
  fix w'
  assume "insert_leaves th hash ser vs w =
      (Inr (if \<forall>v\<in>set vs. v = 0 then 0 else mnode th (leaf_content hash (indexed_leaves w')) (h + s) 0), w')"
    "imt_inv th hash ser h s (c + length vs div 2 ^ s) w'" "imt_values w' = imt_values w \<union> {v \<in> set vs. v \<noteq> 0}"
  then show ?thesis by (intro exI [of _ w'] conjI)
qed

theorem insert_leaves_correct_witness:
  "\<exists>w'. imt_values w' = imt_values (imt_ex 2 1) \<union> {v \<in> set [1, 0]. v \<noteq> 0} \<and>
     snd (insert_leaves th_fr hash_fr ser_fr [1, 0] (imt_ex 2 1)) = w'"
proof -
  obtain w' where "insert_leaves th_fr hash_fr ser_fr [1, 0] (imt_ex 2 1) =
      (Inr (if \<forall>v\<in>set [1, 0]. v = (0::fr254) then 0 else mnode th_fr (leaf_content hash_fr (indexed_leaves w')) (2 + 1) 0), w')"
    "imt_values w' = imt_values (imt_ex 2 1) \<union> {v \<in> set [1, 0]. v \<noteq> 0}"
    using insert_leaves_correct [OF th_fr_zero imt_ex_ok(1) imt_ex_batch] by blast
  then show ?thesis by (intro exI [of _ w'] conjI) simp_all
qed

text \<open>C31. Inserting one subtree of nullifiers with circuit information keeps the tree and the list consistent
  like \<open>insert_leaves\<close>, and what is reported is what a circuit needs to follow it. The old root is the root before. Nullifier by nullifier, the
  low leaf reported is the stored leaf of the list at that moment that skips over the nullifier; its path takes it from the running root, which is
  the old root at first, and takes the leaf linked to the nullifier to the next one (a low leaf of the same subtree is not in the tree yet and has no path).
  From the last running root the path of the empty subtree leads, with the hashes of the reported new entries, to the new root, which is the
  root after; those entries are the stored leaves of the nullifiers, at the indices from the first index on.\<close>

theorem insert_nullifiers_for_circuit_correct:
  assumes "th 0 0 = 0" "imt_inv th hash ser h s c w" "batch_ok h s c (imt_values w) vs" "length vs = 2 ^ s"
  shows "\<exists>info w'. insert_nullifiers_for_circuit th hash ser vs w = (Inr info, w') \<and>
    imt_inv th hash ser h s (c + 1) w' \<and> imt_values w' = imt_values w \<union> {v \<in> set vs. v \<noteq> 0} \<and>
    imt_old_root info = mnode th (leaf_content hash (indexed_leaves w)) (h + s) 0 \<and>
    imt_old_root info = mnode th (below_content hash (indexed_leaves w) (c * 2 ^ s)) (h + s) 0 \<and>
    low_proofs th hash (h + s) (c * 2 ^ s) (indexed_leaves w) (c * 2 ^ s) vs (imt_low_nullifiers info) (indexed_leaves w') \<and>
    old_root (imt_circuit_info info) = mnode th (below_content hash (indexed_leaves w') (c * 2 ^ s)) (h + s) 0 \<and>
    path_root th 0 (sibling_path (proof_of_emptiness (imt_circuit_info info))) = old_root (imt_circuit_info info) \<and>
    path_root th (merkle_root th s (inserted_leaves (imt_circuit_info info))) (sibling_path (proof_of_emptiness (imt_circuit_info info))) =
      new_root (imt_circuit_info info) \<and>
    new_root (imt_circuit_info info) = mnode th (leaf_content hash (indexed_leaves w')) (h + s) 0 \<and>
    inserted_leaves (imt_circuit_info info) =
      map (\<lambda>e. if dbe_value e = 0 then 0 else hash [dbe_value e, dbe_next_index e, dbe_next_value e]) (imt_pending_inserts info) \<and>
    imt_first_index info = c * 2 ^ s \<and> length (imt_pending_inserts info) = length vs \<and>
    (\<forall>n<length vs. if vs ! n = 0 then imt_pending_inserts info ! n = db_entry_from default_leaf
       else \<exists>l\<in>set (indexed_leaves w'). leaf_value l = vs ! n \<and> leaf_id l = c * 2 ^ s + n \<and> imt_pending_inserts info ! n = db_entry_from l)"
proof -
  have "leaf_content hash (indexed_leaves w) j = 0" if "c * 2 ^ s \<le> j" for j
    by (rule leaf_content_none) (use imt_invD(4) [OF assms(2)] that in fastforce)
  then have below: "below_content hash (indexed_leaves w) (c * 2 ^ s) = leaf_content hash (indexed_leaves w)"
    by (auto simp: below_content_def fun_eq_iff)
  show ?thesis unfolding below by (rule insert_nullifiers_stored [OF assms]) blast
qed

theorem insert_nullifiers_for_circuit_correct_witness:
  "\<exists>info w'. insert_nullifiers_for_circuit th_fr hash_fr ser_fr [1, 0] (imt_ex 2 1) = (Inr info, w') \<and>
     imt_values w' = imt_values (imt_ex 2 1) \<union> {v \<in> set [1, 0]. v \<noteq> 0} \<and>
     low_proofs th_fr hash_fr 3 2 (indexed_leaves (imt_ex 2 1)) 2 [1, 0] (imt_low_nullifiers info) (indexed_leaves w')"
proof -
  have "length [1, 0 :: fr254] = 2 ^ 1" by simp
  from insert_nullifiers_for_circuit_correct [OF th_fr_zero imt_ex_ok(1) imt_ex_batch this]
  show ?thesis by (simp only: mult_1 power_one_right) (use numeral_3_eq_3 in force)
qed

lemma check_absent_dup:
  assumes "leaf_invar ser w" "v \<in> set vs" "v \<noteq> 0" "v \<in> imt_values w"
  shows "check_absent ser vs w = (Inl LeafExists, w)"
proof -
  have ok: "ser_ok ser" "faults w = []" using assms(1) by (simp_all add: leaf_invar_def)
  show ?thesis
    using assms(2)
  proof (induction vs)
    case (Cons u us)
    show ?case
    proof (cases "u = v")
      case True
      then obtain l where "find (\<lambda>l. leaf_value l = u) (indexed_leaves w) = Some l"
        using find_value_none [of u w] assms(4) by auto
      then show ?thesis using True assms(3) by (simp add: bindM_def get_leaf_ok [OF ok] throwM_def)
    next
      case False
      then have "check_absent ser us w = (Inl LeafExists, w)" using Cons by simp
      then show ?thesis by (simp add: bindM_def get_leaf_ok [OF ok] throwM_def)
    qed
  qed simp
qed

lemma insert_leaves_dup:
  assumes "leaf_invar ser w" "v \<in> set vs" "v \<noteq> 0" "v \<in> imt_values w"
  shows "insert_leaves th hash ser vs w = (Inl LeafExists, w)"
proof -
  have "vs \<noteq> []" using assms(2) by auto
  then show ?thesis by (simp add: insert_leaves_def bindM_def check_absent_dup [OF assms])
qed

text \<open>A batch with a non-zero value that is already in the tree is refused with \<open>LeafExists\<close> before
  anything is written.\<close>

theorem insert_leaves_duplicate:
  assumes "leaf_invar ser w" "v \<in> set vs" "v \<noteq> 0" "v \<in> imt_values w"
  shows "insert_leaves th hash ser vs w = (Inl LeafExists, w)"
  by (rule insert_leaves_dup [OF assms])

theorem insert_leaves_duplicate_witness:
  "\<exists>w :: imt_db. 1 \<in> imt_values w \<and> insert_leaves th_fr hash_fr ser_fr [1, 0] w = (Inl LeafExists, w)"
proof (rule insert_leaves_ok [OF th_fr_zero imt_ex_ok(1) imt_ex_batch])
  fix w :: imt_db
  assume w: "imt_inv th_fr hash_fr ser_fr 2 1 (1 + length [1, 0 :: fr254] div 2 ^ 1) w"
    "imt_values w = imt_values (imt_ex 2 1) \<union> {v \<in> set [1, 0]. v \<noteq> 0}"
  have "1 \<in> imt_values w" using fr_one_neq_zero by (simp add: w(2))
  moreover have "insert_leaves th_fr hash_fr ser_fr [1, 0] w = (Inl LeafExists, w)"
    by (rule insert_leaves_duplicate [OF imt_invD(2) [OF w(1)] _ fr_one_neq_zero calculation]) simp
  ultimately show ?thesis by (intro exI [of _ w] conjI)
qed

text \<open>A value that occurs twice in one batch is noticed only after the first copy has been stored: the call
  reports \<open>LeafExists\<close>, the pre-images keep the value while the tree does not have it, and every later batch
  with that value is refused.\<close>

theorem duplicate_in_batch_is_kept:
  assumes "imt_inv th hash ser h s c w" "v \<noteq> 0" "v \<notin> imt_values w" "c < 2 ^ h" "h + s \<le> 32"
  shows "\<exists>w'. insert_leaves th hash ser [v, v] w = (Inl LeafExists, w') \<and> v \<in> imt_values w' \<and>
    nodes w' = nodes w \<and> metadata w' = metadata w \<and>
    (\<forall>vs. v \<in> set vs \<longrightarrow> insert_leaves th hash ser vs w' = (Inl LeafExists, w'))"
proof -
  note D = imt_invD [OF assms(1)]
  let ?i = "(c mod 2 ^ 32) * 2 ^ s mod 2 ^ 32"
  have "(c + 1) * 2 ^ s \<le> 2 ^ h * 2 ^ s" using assms(4) by (intro mult_right_mono) simp_all
  also have "\<dots> = 2 ^ (h + s)" by (simp add: power_add)
  also have "\<dots> \<le> 2 ^ 32" using assms(5) by (intro power_increasing) simp_all
  finally have le: "(c + 1) * 2 ^ s \<le> 2 ^ 32" .
  have p: "(0::nat) < 2 ^ s" by simp
  have "c * 2 ^ s + 2 ^ s \<le> 2 ^ 32" using le by (simp only: distrib_right mult_1)
  then have lt: "c * 2 ^ s < 2 ^ 32" using p by linarith
  have "c * 1 \<le> c * 2 ^ s" by (intro mult_left_mono) simp_all
  then have "c < 2 ^ 32" using lt by linarith
  then have i: "?i = c * 2 ^ s" using lt by (simp only: mod_less)
  have fresh: "c * 2 ^ s \<notin> leaf_id ` set (indexed_leaves w)" using D(4) by fastforce
  obtain ls u where S: "store_leaf ser v (Some (c * 2 ^ s)) w = (Inr (Some ()), w\<lparr>indexed_leaves := ls\<rparr>)"
    "leaf_invar ser (w\<lparr>indexed_leaves := ls\<rparr>)" "is_low (leaf_view (indexed_leaves w)) v u"
    "leaf_view ls = link (leaf_view (indexed_leaves w)) (c * 2 ^ s) v u"
    by (rule store_leaf_new [OF D(2,3) assms(2) _ fresh]) (use assms(3) in \<open>simp_all add: imt_values_view\<close>)
  let ?w = "w\<lparr>indexed_leaves := ls\<rparr>"
  have ok: "ser_ok ser" "faults ?w = []" using S(2) by (simp_all add: leaf_invar_def)
  have v: "v \<in> imt_values ?w" using link_dom [OF S(3)] S(4) by (simp add: imt_values_view)
  obtain l where l: "find (\<lambda>l. leaf_value l = v) ls = Some l" using find_value_none [of v ?w] v by auto
  have again: "store_leaf ser v j ?w = (Inl LeafExists, ?w)" for j
    by (simp add: store_leaf_def bindM_def get_leaf_ok [OF ok] l throwM_def)
  have st: "store_new ser [v, v] ?i w = (Inl LeafExists, ?w)"
    using assms(2) by (simp add: i [simplified] bindM_def S(1) again returnM_def)
  have ab: "check_absent ser [v, v] w = (Inr (), w)"
    using find_value_none [of v w] assms(3) by (simp add: bindM_def get_leaf_ok [OF D(8,7)] returnM_def)
  have lo: "joinM [v, v] (get_low_leaf ser) w =
      (Inr (map (\<lambda>v. greatest_below ser (padded_key ser v) (indexed_leaves w)) [v, v]), w)"
    by (rule joinM_pure) (rule get_low_leaf_ok [OF D(8,7)])
  have "insert_leaves th hash ser [v, v] w = (Inl LeafExists, ?w)"
    by (simp only: insert_leaves_def list.distinct if_False Let_def bindM_Inr [of "check_absent ser [v, v]" w, OF ab]
        bindM_Inr [of "joinM [v, v] (get_low_leaf ser)" w, OF lo] TreeMetadata.select_convs
        bindM_Inr [of "metadata_or ItemNotFound" w, OF metadata_or_ok [OF D(7,12)]]
        bindM_Inl [of "store_new ser [v, v] ?i" w, OF st])
  then show ?thesis
    using v insert_leaves_dup [OF S(2) _ assms(2) v] by (intro exI [of _ ?w]) simp
qed

theorem duplicate_in_batch_is_kept_witness:
  "\<exists>w'. insert_leaves th_fr hash_fr ser_fr [1, 1] (imt_ex 2 1) = (Inl LeafExists, w') \<and> 1 \<in> imt_values w'"
proof -
  have "1 \<notin> imt_values (imt_ex 2 1)" using fr_one_neq_zero by (simp add: imt_ex_ok(2))
  from duplicate_in_batch_is_kept [OF imt_ex_ok(1) fr_one_neq_zero this] show ?thesis by auto
qed

end
