(* ===== verification/Proposer_Db.thy ===== *)
theory Proposer_Db
  imports Indexed_Tree Client_Blocks
begin

text \<open>
  The database of the proposer: \<open>nightfall_proposer/src/driven/db/mongo_db.rs\<close> (transactions, deposits and blocks), the
  three Merkle trees of \<open>ports/trees.rs\<close> and the entities of \<open>domain/entities.rs\<close>. Each tree has collections of its own,
  so the state has one component for each of them; the schedule of failures is shared. Keccak and the JSON text of a
  document are parameters.
\<close>

section \<open>Entities\<close>

record DepositData =
  dd_nf_token_id :: fr254
  dd_nf_slot_id :: fr254
  dd_value :: fr254
  dd_secret_hash :: fr254

record DepositDatawithFee =
  ddf_fee :: fr254
  ddf_deposit_data :: DepositData

definition deposit_data_default :: DepositData where
  "deposit_data_default = \<lparr>dd_nf_token_id = 0, dd_nf_slot_id = 0, dd_value = 0, dd_secret_hash = 0\<rparr>"

definition deposit_default :: DepositDatawithFee where
  "deposit_default = \<lparr>ddf_fee = 0, ddf_deposit_data = deposit_data_default\<rparr>"

definition deposit_hash ::
    "(DepositDatawithFee \<Rightarrow> byte list option) \<Rightarrow> (byte list \<Rightarrow> byte list) \<Rightarrow> DepositDatawithFee \<Rightarrow> 32 word list option" where
  "deposit_hash to_vec keccak d = map_option (\<lambda>encoding. map ucast (keccak encoding)) (to_vec d)"

record 'p ClientTransactionWithMetaData =
  cwm_client_transaction :: "'p ClientTransaction"
  cwm_block_l2 :: "nat option"
  cwm_in_mempool :: bool
  cwm_hash :: "32 word list"
  cwm_historic_roots :: "fr254 list"

text \<open>A block as the proposer makes it.\<close>

record ProposerBlock =
  pb_commitments_root :: fr254
  pb_nullifiers_root :: fr254
  pb_commitments_root_root :: fr254
  pb_transactions :: "OnChainTransaction list"
  pb_rollup_proof :: "byte list"

section \<open>State\<close>

text \<open>The \<open>faults\<close> of the trees are not used: an operation on a tree takes the schedule of the whole database.\<close>

record 'p proposer_db = world +
  client_transactions :: "'p ClientTransactionWithMetaData list"
  deposits :: "DepositDatawithFee list"
  proposed_blocks :: "StoredBlock list"
  commitment_tree :: "fr254 tree_db"
  historic_root_tree :: "fr254 tree_db"
  nullifier_tree :: imt_db

type_synonym ('p, 'z, 'e, 'a) proposerM = "(('p, 'z) proposer_db_scheme, 'e, 'a) dbm"

text \<open>An operation on one component of the database.\<close>

definition zoomM ::
    "('w world_scheme \<Rightarrow> 's world_scheme) \<Rightarrow> ('s world_scheme \<Rightarrow> 'w world_scheme \<Rightarrow> 'w world_scheme) \<Rightarrow>
     ('s world_scheme, 'e, 'a) dbm \<Rightarrow> ('w world_scheme, 'e, 'a) dbm" where
  "zoomM get put m w =
     (case m ((get w)\<lparr>faults := faults w\<rparr>) of (r, t) \<Rightarrow> (r, put (t\<lparr>faults := []\<rparr>) (w\<lparr>faults := faults t\<rparr>)))"

definition in_commitments :: "(fr254 tree_db, 'e, 'a) dbm \<Rightarrow> ('p, 'z, 'e, 'a) proposerM" where
  "in_commitments = zoomM commitment_tree (\<lambda>t w. w\<lparr>commitment_tree := t\<rparr>)"

definition in_historic_roots :: "(fr254 tree_db, 'e, 'a) dbm \<Rightarrow> ('p, 'z, 'e, 'a) proposerM" where
  "in_historic_roots = zoomM historic_root_tree (\<lambda>t w. w\<lparr>historic_root_tree := t\<rparr>)"

definition in_nullifiers :: "(imt_db, 'e, 'a) dbm \<Rightarrow> ('p, 'z, 'e, 'a) proposerM" where
  "in_nullifiers = zoomM nullifier_tree (\<lambda>t w. w\<lparr>nullifier_tree := t\<rparr>)"

section \<open>The three trees\<close>

type_synonym hash2 = "fr254 \<Rightarrow> fr254 \<Rightarrow> fr254"

definition commitments_append :: "hash2 \<Rightarrow> fr254 list \<Rightarrow> bool \<Rightarrow> ('p, 'z, merkle_error, fr254) proposerM" where
  "commitments_append th leaves update_tree =
     bindM (in_commitments (append_sub_trees th leaves update_tree)) (\<lambda>(result, _). returnM result)"

definition commitments_get_root :: "('p, 'z, merkle_error, fr254) proposerM" where
  "commitments_get_root = in_commitments get_root"

definition reset_commitments :: "('p, 'z, merkle_error, unit) proposerM" where
  "reset_commitments =
     bindM (ignoreM (in_commitments reset_mutable_tree)) (\<lambda>_. in_commitments (new_mutable_tree 29 3))"

definition append_historic_commitment_root :: "hash2 \<Rightarrow> fr254 \<Rightarrow> bool \<Rightarrow> ('p, 'z, merkle_error, fr254) proposerM" where
  "append_historic_commitment_root th historic_commitment_root update_tree =
     bindM (in_historic_roots (append_sub_trees th [historic_commitment_root] update_tree)) (\<lambda>(result, _). returnM result)"

definition is_historic_root :: "fr254 \<Rightarrow> ('p, 'z, merkle_error, bool) proposerM" where
  "is_historic_root leaf = in_historic_roots (is_leaf leaf)"

definition historic_membership_proof :: "fr254 option \<Rightarrow> nat option \<Rightarrow> ('p, 'z, merkle_error, fr254 MembershipProof) proposerM" where
  "historic_membership_proof leaf index =
     in_historic_roots
       (case leaf of
          Some v \<Rightarrow>
            if v = 0 then get_membership_proof None (Some 0) else get_membership_proof leaf index
        | None \<Rightarrow> get_membership_proof leaf index)"

definition reset_historic_roots :: "('p, 'z, merkle_error, unit) proposerM" where
  "reset_historic_roots =
     bindM (ignoreM (in_historic_roots reset_mutable_tree)) (\<lambda>_. in_historic_roots (new_mutable_tree 32 0))"

definition insert_nullifiers ::
    "hash2 \<Rightarrow> (fr254 list \<Rightarrow> fr254) \<Rightarrow> (fr254 \<Rightarrow> byte list) \<Rightarrow> fr254 list \<Rightarrow> ('p, 'z, merkle_error, fr254) proposerM" where
  "insert_nullifiers th hash ser nullifiers = in_nullifiers (insert_leaves th hash ser nullifiers)"

definition nullifier_non_membership ::
    "(fr254 list \<Rightarrow> fr254) \<Rightarrow> (fr254 \<Rightarrow> byte list) \<Rightarrow> fr254 \<Rightarrow> ('p, 'z, merkle_error, fr254 MembershipProof) proposerM" where
  "nullifier_non_membership hash ser leaf = in_nullifiers (get_non_membership_proof hash ser leaf)"

definition reset_nullifiers :: "hash2 \<Rightarrow> (fr254 list \<Rightarrow> fr254) \<Rightarrow> (fr254 \<Rightarrow> byte list) \<Rightarrow> ('p, 'z, merkle_error, unit) proposerM" where
  "reset_nullifiers th hash ser =
     bindM (ignoreM (in_nullifiers reset_mutable_tree)) (\<lambda>_.
     bindM (in_nullifiers (db_write DatabaseError (\<lambda>w. w\<lparr>indexed_leaves := []\<rparr>))) (\<lambda>_.
     in_nullifiers (new_indexed_tree th hash ser 29 3)))"

text \<open>The trees of a new database, with the zero root as the first historic root.\<close>

definition new_proposer_trees :: "hash2 \<Rightarrow> (fr254 list \<Rightarrow> fr254) \<Rightarrow> (fr254 \<Rightarrow> byte list) \<Rightarrow> ('p, 'z, 'e failure, unit) proposerM" where
  "new_proposer_trees th hash ser =
     bindM (map_errM (\<lambda>_. Panics) (in_commitments (new_mutable_tree 29 3))) (\<lambda>_.
     bindM (map_errM (\<lambda>_. Panics) (in_historic_roots (new_mutable_tree 32 0))) (\<lambda>_.
     bindM (map_errM (\<lambda>_. Panics) (in_nullifiers (new_indexed_tree th hash ser 29 3))) (\<lambda>_.
     bindM (map_errM (\<lambda>_. Panics) (append_historic_commitment_root th 0 True)) (\<lambda>_. returnM ()))))"

section \<open>Client transactions\<close>

definition store_transaction :: "'p ClientTransactionWithMetaData \<Rightarrow> ('p, 'z, 'e, unit option) proposerM" where
  "store_transaction t = tryM (db_write () (\<lambda>w. w\<lparr>client_transactions := client_transactions w @ [t]\<rparr>))"

definition get_transaction :: "32 word list \<Rightarrow> ('p, 'z, 'e, 'p ClientTransactionWithMetaData option) proposerM" where
  "get_transaction k = bindO (tryM (db_read () (\<lambda>w. find (\<lambda>t. cwm_hash t = k) (client_transactions w)))) returnM"

text \<open>The opening of a cursor (\<open>unwrap\<close>, \<open>expect\<close>) and reading it (\<open>.ok()?\<close>) are two calls.\<close>

definition read_transactions ::
    "('p ClientTransactionWithMetaData \<Rightarrow> bool) \<Rightarrow>
     ('p, 'z, 'e failure, (32 word list \<times> 'p ClientTransactionWithMetaData) list option) proposerM" where
  "read_transactions wanted =
     bindM (expectM (db_read () (\<lambda>_. ()))) (\<lambda>_.
     bindO (tryM (db_read () (\<lambda>w. map (\<lambda>t. (cwm_hash t, t)) (filter wanted (client_transactions w))))) (\<lambda>result.
     returnM (if result = [] then None else Some result)))"

definition get_all_transactions ::
    "('p, 'z, 'e failure, (32 word list \<times> 'p ClientTransactionWithMetaData) list option) proposerM" where
  "get_all_transactions = read_transactions (\<lambda>_. True)"

definition get_all_mempool_client_transactions ::
    "('p, 'z, 'e failure, (32 word list \<times> 'p ClientTransactionWithMetaData) list option) proposerM" where
  "get_all_mempool_client_transactions = read_transactions cwm_in_mempool"

definition count_mempool_client_transactions :: "('p, 'z, unit, nat) proposerM" where
  "count_mempool_client_transactions = db_read () (\<lambda>w. length (filter cwm_in_mempool (client_transactions w)))"

text \<open>The number of documents that were modified.\<close>

definition set_in_mempool :: "'p ClientTransactionWithMetaData list \<Rightarrow> bool \<Rightarrow> ('p, 'z, 'e failure, nat option) proposerM" where
  "set_in_mempool txs in_mempool =
     (let wanted = (\<lambda>t. cwm_hash t \<in> cwm_hash ` set txs) in
      bindM (expectM (db_call () (\<lambda>w.
        (length (filter (\<lambda>t. wanted t \<and> cwm_in_mempool t \<noteq> in_mempool) (client_transactions w)),
         w\<lparr>client_transactions := update_many wanted (\<lambda>t. t\<lparr>cwm_in_mempool := in_mempool\<rparr>) (client_transactions w)\<rparr>)))) (\<lambda>n.
      returnM (Some n)))"

definition find_transaction ::
    "('p ClientTransaction \<Rightarrow> 32 word list option) \<Rightarrow> 'p ClientTransaction \<Rightarrow>
     ('p, 'z, 'e failure, 'p ClientTransactionWithMetaData option) proposerM" where
  "find_transaction tx_hash v =
     (case tx_hash v of
        None \<Rightarrow> returnM None
      | Some k \<Rightarrow> expectM (db_read () (\<lambda>w. find (\<lambda>t. cwm_hash t = k \<and> cwm_in_mempool t) (client_transactions w))))"

text \<open>\<open>find_deposit\<close> looks in the collection of the client transactions. A document found there is not a deposit, so
  reading it is an error, which is a panic.\<close>

definition find_deposit ::
    "(DepositDatawithFee \<Rightarrow> 32 word list option) \<Rightarrow> DepositDatawithFee \<Rightarrow> ('p, 'z, 'e failure, DepositDatawithFee option) proposerM" where
  "find_deposit dep_hash v =
     (case dep_hash v of
        None \<Rightarrow> returnM None
      | Some k \<Rightarrow>
          bindM (expectM (db_read () (\<lambda>w. find (\<lambda>t. cwm_hash t = k) (client_transactions w)))) (\<lambda>r.
          if r = None then returnM None else throwM Panics))"

definition remove_all_mempool_client_transactions :: "('p, 'z, 'e, nat option) proposerM" where
  "remove_all_mempool_client_transactions =
     tryM (db_call () (\<lambda>w. (length (client_transactions w), w\<lparr>client_transactions := []\<rparr>)))"

section \<open>Deposits\<close>

definition set_mempool_deposits :: "DepositDatawithFee list \<Rightarrow> ('p, 'z, 'e, nat option) proposerM" where
  "set_mempool_deposits ds =
     (if ds = [] then returnM (Some 0)
      else bindO (tryM (db_write () (\<lambda>w. w\<lparr>deposits := deposits w @ ds\<rparr>))) (\<lambda>_. returnM (Some (length ds))))"

definition get_mempool_deposits :: "('p, 'z, 'e, DepositDatawithFee list option) proposerM" where
  "get_mempool_deposits =
     bindO (tryM (db_read () (\<lambda>_. ()))) (\<lambda>_.
     bindO (tryM (db_read () deposits)) (\<lambda>result. returnM (if result = [] then None else Some result)))"

definition count_mempool_deposits :: "('p, 'z, unit, nat) proposerM" where
  "count_mempool_deposits = db_read () (\<lambda>w. length (deposits w))"

definition same_deposit :: "DepositDatawithFee \<Rightarrow> DepositDatawithFee \<Rightarrow> bool" where
  "same_deposit d e \<longleftrightarrow> dd_secret_hash (ddf_deposit_data d) = dd_secret_hash (ddf_deposit_data e) \<and>
     dd_nf_slot_id (ddf_deposit_data d) = dd_nf_slot_id (ddf_deposit_data e)"

definition remove_mempool_deposits :: "DepositDatawithFee list list \<Rightarrow> ('p, 'z, 'e, nat option) proposerM" where
  "remove_mempool_deposits used =
     (let used_deposits = concat used; wanted = (\<lambda>d. \<exists>e\<in>set used_deposits. same_deposit d e) in
      if used_deposits = [] then returnM (Some 0)
      else tryM (db_call () (\<lambda>w. (length (filter wanted (deposits w)),
             w\<lparr>deposits := filter (\<lambda>d. \<not> wanted d) (deposits w)\<rparr>))))"

definition remove_all_mempool_deposits :: "('p, 'z, 'e, nat option) proposerM" where
  "remove_all_mempool_deposits = tryM (db_call () (\<lambda>w. (length (deposits w), w\<lparr>deposits := []\<rparr>)))"

section \<open>Blocks\<close>

definition proposer_store_block :: "StoredBlock \<Rightarrow> ('p, 'z, 'e, unit option) proposerM" where
  "proposer_store_block block =
     bindO (tryM (db_read () (\<lambda>w. find_block (sb_layer2_block_number block) (proposed_blocks w)))) (\<lambda>existing_block.
     if existing_block \<noteq> None then
       bindO (tryM (db_write () (\<lambda>w. w\<lparr>proposed_blocks :=
         update_first (\<lambda>b. sb_layer2_block_number b = sb_layer2_block_number block)
           (\<lambda>b. b\<lparr>sb_commitments := sb_commitments block\<rparr>) (proposed_blocks w)\<rparr>))) (\<lambda>_. returnM (Some ()))
     else
       bindO (tryM (db_write () (\<lambda>w. w\<lparr>proposed_blocks := proposed_blocks w @ [block]\<rparr>))) (\<lambda>_. returnM (Some ())))"

definition proposer_get_block :: "nat \<Rightarrow> ('p, 'z, 'e, StoredBlock option) proposerM" where
  "proposer_get_block n = bindO (tryM (db_read () (\<lambda>w. find_block n (proposed_blocks w)))) returnM"

definition proposer_get_all_blocks :: "('p, 'z, 'e, StoredBlock list option) proposerM" where
  "proposer_get_all_blocks = tryM (db_read () proposed_blocks)"

definition proposer_delete_block :: "nat \<Rightarrow> ('p, 'z, 'e, unit option) proposerM" where
  "proposer_delete_block n =
     bindO (tryM (db_write () (\<lambda>w. w\<lparr>proposed_blocks := delete_first (\<lambda>b. sb_layer2_block_number b = n) (proposed_blocks w)\<rparr>)))
       (\<lambda>_. returnM (Some ()))"

end
