(* ===== verification/Proposer_Transactions.thy ===== *)
theory Proposer_Transactions
  imports Proposer_Db
begin

text \<open>
  What the proposer accepts: \<open>driven/nightfall_client_transaction.rs\<close> checks a transaction of a client and stores it in
  the mempool, and \<open>process_deposit_escrowed_event\<close> of \<open>driven/nightfall_event.rs\<close> stores the deposits that were
  escrowed on the chain. The verification of the proof is a parameter; it answers with an error or with a truth value.
\<close>

datatype 'e client_transaction_error =
    InvalidTransaction | TransactionAlreadyExists | TransactionNotOnChain | ProofDidNotVerify 'e | HashGenerationFailed
  | CouldNotStoreTransaction | CouldNotGetNullifierTree | DuplicateNullifier | CommitmentRootUnknown | NullifiersAllZero

type_synonym ('p, 'z, 'e, 'a) checkM = "('p, 'z, 'e client_transaction_error failure, 'a) proposerM"

record ('p, 'e) proposer_env =
  pe_verify :: "'p \<Rightarrow> PublicInputs \<Rightarrow> 'e + bool"
  pe_tx_hash :: "'p ClientTransaction \<Rightarrow> 32 word list option"
  pe_deposit_hash :: "DepositDatawithFee \<Rightarrow> 32 word list option"
  pe_tree_hash :: hash2
  pe_hash :: "fr254 list \<Rightarrow> fr254"
  pe_ser :: "fr254 \<Rightarrow> byte list"
  pe_poseidon :: poseidon
  pe_enc :: "byte list \<Rightarrow> string"
  pe_sha256 :: "byte list \<Rightarrow> byte list"
  pe_fee_token_id :: fr254
  pe_address :: "160 word"

section \<open>Client transactions\<close>

text \<open>The historic root of each spent commitment; a zero nullifier has none.\<close>

definition check_root :: "fr254 \<times> fr254 \<Rightarrow> ('p, 'z, 'e, unit) checkM" where
  "check_root = (\<lambda>(historic_commitment_root, nullifier).
     if nullifier = 0 then returnM ()
     else bindM (map_errM (\<lambda>_. Panics) (is_historic_root historic_commitment_root)) (\<lambda>known.
          if known then returnM () else throwM (Fails CommitmentRootUnknown)))"

text \<open>\<open>is_err\<close>: every error of the tree counts as a duplicate.\<close>

definition check_nullifier :: "('p, 'e, 'y) proposer_env_scheme \<Rightarrow> fr254 \<Rightarrow> ('p, 'z, 'e, unit) checkM" where
  "check_nullifier env nullifier =
     (if nullifier = 0 then returnM ()
      else map_errM (\<lambda>e. if e = MerklePanic then Panics else Fails DuplicateNullifier)
             (bindM (nullifier_non_membership (pe_hash env) (pe_ser env) nullifier) (\<lambda>_. returnM ())))"

definition mempool_entry :: "32 word list \<Rightarrow> 'p ClientTransaction \<Rightarrow> 'p ClientTransactionWithMetaData" where
  "mempool_entry k tx = \<lparr>cwm_client_transaction = tx, cwm_block_l2 = None, cwm_in_mempool = True, cwm_hash = k,
     cwm_historic_roots = ct_historic_commitment_roots tx\<rparr>"

definition process_nightfall_client_transaction ::
    "('p, 'e, 'y) proposer_env_scheme \<Rightarrow> 'p ClientTransaction \<Rightarrow> ('p, 'z, 'e, unit) checkM" where
  "process_nightfall_client_transaction env tx =
     bindM (liftM (map_sum (\<lambda>e. Fails (ProofDidNotVerify e)) id (pe_verify env (ct_proof tx) (public_inputs_from_tx tx)))) (\<lambda>_.
     bindM (okM (Fails HashGenerationFailed) (pe_tx_hash env tx)) (\<lambda>k.
     bindM (find_transaction (pe_tx_hash env) tx) (\<lambda>ctx.
     if ctx \<noteq> None then throwM (Fails TransactionAlreadyExists)
     else
       bindM (forM (zip (ct_historic_commitment_roots tx) (ct_nullifiers tx)) check_root) (\<lambda>_.
       bindM (forM (ct_nullifiers tx) (check_nullifier env)) (\<lambda>_.
       if ct_nullifiers tx ! 0 = 0 then throwM (Fails NullifiersAllZero)
       else
         bindM (store_transaction (mempool_entry k tx)) (\<lambda>stored.
         okM (Fails CouldNotStoreTransaction) stored))))))"

section \<open>Deposits\<close>

definition process_deposit_transaction ::
    "('p, 'e, 'y) proposer_env_scheme \<Rightarrow> DepositDatawithFee \<Rightarrow> ('p, 'z, 'e, unit) checkM" where
  "process_deposit_transaction env deposit_data =
     bindM (find_deposit (pe_deposit_hash env) deposit_data) (\<lambda>ctx.
     if ctx \<noteq> None then throwM (Fails TransactionAlreadyExists)
     else bindM (set_mempool_deposits [deposit_data]) (\<lambda>key.
          bindM (okM (Fails CouldNotStoreTransaction) key) (\<lambda>_. returnM ())))"

text \<open>The decoded call of the transaction that escrowed the deposit, and the event.\<close>

record escrow_call =
  es_fee :: "256 word"
  es_erc_address :: "160 word"
  es_token_id :: "256 word"
  es_secret_hash :: "256 word"

record deposit_escrowed =
  de_nf_slot_id :: "256 word"
  de_value :: "256 word"

definition fr_ofM :: "256 word \<Rightarrow> ('s, event_error failure, fr254) dbm" where
  "fr_ofM u = liftM (map_sum (\<lambda>_. io ''Could not convert to Fr254'') id (frbn_try_from_u256 u))"

text \<open>The answer of the chain: an error, no transaction, a call that cannot be decoded, another call, or the escrow. The
  text of the inner errors is dropped.\<close>

definition process_deposit_escrowed ::
    "('p, 'e, 'y) proposer_env_scheme \<Rightarrow> unit + (unit + escrow_call option) option \<Rightarrow> deposit_escrowed \<Rightarrow>
     ('p, 'z, event_error failure, unit) proposerM" where
  "process_deposit_escrowed env tx filter_event =
     bindM (liftM (map_sum (\<lambda>_. io ''Could not retrieve transaction'') id tx)) (\<lambda>tx.
     bindM (okM Panics tx) (\<lambda>input.
     bindM (liftM (map_sum (\<lambda>_. Fails InvalidCalldata) id input)) (\<lambda>decoded.
     case decoded of
       None \<Rightarrow> returnM ()
     | Some decode \<Rightarrow>
         bindM (fr_ofM (es_fee decode)) (\<lambda>fee.
         bindM (fr_ofM (es_secret_hash decode)) (\<lambda>secret_hash.
         bindM (fr_ofM (de_nf_slot_id filter_event)) (\<lambda>nf_slot_id_from_event.
         bindM (fr_ofM (de_value filter_event)) (\<lambda>value_from_event.
         (let fee_token_id = pe_fee_token_id env;
              nf_token_id_tmp = to_nf_token_id_from_solidity (pe_sha256 env) (es_erc_address decode) (es_token_id decode);
              (nf_slot_id, nf_token_id) = (if nf_slot_id_from_event = fee_token_id then (fee_token_id, fee_token_id)
                                           else (nf_slot_id_from_event, nf_token_id_tmp))
          in map_errM (map_failure (\<lambda>_. IOError ''Could not process client transaction''))
               (process_deposit_transaction env
                  \<lparr>ddf_fee = fee, ddf_deposit_data = \<lparr>dd_nf_token_id = nf_token_id, dd_nf_slot_id = nf_slot_id,
                     dd_value = value_from_event, dd_secret_hash = secret_hash\<rparr>\<rparr>))))))))) "

section \<open>Operations on one component\<close>

lemma zoom_run:
  assumes "faults w = []" "m ((get w)\<lparr>faults := []\<rparr>) = (r, t)" "faults t = []"
  shows "zoomM get put m w = (r, put (t\<lparr>faults := []\<rparr>) (w\<lparr>faults := []\<rparr>))"
  using assms by (simp add: zoomM_def)


lemma no_faults [simp]: "faults w = [] \<Longrightarrow> w\<lparr>faults := []\<rparr> = w"
  by (cases w) simp

lemma zoom_read:
  assumes "faults w = []" "faults (get w) = []" "m (get w) = (r, get w)" "put (get w) w = w"
  shows "zoomM get put m w = (r, w)"
  using assms by (simp add: zoomM_def)

text \<open>The state of the proposer without failures: the sub-states of the trees have no schedule of their own.\<close>

definition healthy_proposer :: "('p, 'z) proposer_db_scheme \<Rightarrow> bool" where
  "healthy_proposer w \<longleftrightarrow> faults w = [] \<and> faults (commitment_tree w) = [] \<and> faults (historic_root_tree w) = [] \<and>
     faults (nullifier_tree w) = []"

text \<open>A value is a historic root when the first node with that value is a leaf.\<close>

definition historic_leaf :: "fr254 TreeMetadata \<Rightarrow> (nat \<times> fr254) list \<Rightarrow> fr254 \<Rightarrow> bool" where
  "historic_leaf m ns v =
     (case find (\<lambda>(_, x). x = v) ns of
        None \<Rightarrow> False
      | Some (index, _) \<Rightarrow>
          (let height = tree_height m + sub_tree_height m
           in 2 ^ height - 1 \<le> index \<and> index \<le> 2 ^ (height + 1) - 2))"

lemma is_leaf_run: "faults t = [] \<Longrightarrow> metadata t = Some m \<Longrightarrow> is_leaf v t = (Inr (historic_leaf m (nodes t) v), t)"
  by (simp add: is_leaf_def bindM_def read_metadata_ok db_read_ok returnM_def historic_leaf_def)

lemma is_historic_root_run:
  assumes "healthy_proposer w" "metadata (historic_root_tree w) = Some m"
  shows "is_historic_root v w = (Inr (historic_leaf m (nodes (historic_root_tree w)) v), w)"
  unfolding is_historic_root_def in_historic_roots_def
  by (rule zoom_read) (use assms in \<open>simp_all add: healthy_proposer_def is_leaf_run\<close>)

lemma non_membership_answer:
  assumes "imt_inv th hash ser h s c t"
  obtains p where "get_non_membership_proof hash ser v t = (if v = 0 \<or> v \<in> imt_values t then Inl LeafExists else Inr p, t)"
proof (cases "v = 0 \<or> v \<in> imt_values t")
  case True
  note D = imt_invD [OF assms]
  have "get_non_membership_proof hash ser v t = (Inl LeafExists, t)"
  proof (cases "v = 0")
    case False
    then obtain l where "find (\<lambda>l. leaf_value l = v) (indexed_leaves t) = Some l"
      using True find_value_none [of v t] by auto
    then show ?thesis
      using True by (simp add: get_non_membership_proof_def bindM_def get_leaf_ok [OF D(8,7)] throwM_def)
  qed (simp add: get_non_membership_proof_def throwM_def)
  then show thesis using that True by simp
next
  case False
  then obtain l where "get_non_membership_proof hash ser v t =
      (Inr \<lparr>node_value = leaf_hash hash l, sibling_path = siblings (look t) (h + s) (2 ^ (h + s) - 1 + leaf_id l),
        leaf_index = leaf_id l\<rparr>, t)"
    using non_membership_run [OF assms, of v] by auto
  then show thesis by (rule that [of "\<lparr>node_value = leaf_hash hash l, sibling_path = siblings (look t) (h + s) (2 ^ (h + s) - 1 + leaf_id l),
        leaf_index = leaf_id l\<rparr>", unfolded if_not_P [OF False]])
qed

text \<open>What is checked of a transaction, against the mempool and the two trees.\<close>

definition roots_known :: "fr254 TreeMetadata \<Rightarrow> (nat \<times> fr254) list \<Rightarrow> 'p ClientTransaction \<Rightarrow> bool" where
  "roots_known m ns tx \<longleftrightarrow> list_all (\<lambda>(r, n). n = 0 \<or> historic_leaf m ns r) (zip (ct_historic_commitment_roots tx) (ct_nullifiers tx))"

definition nullifiers_new :: "fr254 set \<Rightarrow> 'p ClientTransaction \<Rightarrow> bool" where
  "nullifiers_new spent tx \<longleftrightarrow> list_all (\<lambda>n. n = 0 \<or> n \<notin> spent) (ct_nullifiers tx)"

definition in_mempool_already :: "32 word list \<Rightarrow> 'p ClientTransactionWithMetaData list \<Rightarrow> bool" where
  "in_mempool_already k ts \<longleftrightarrow> list_ex (\<lambda>t. cwm_hash t = k \<and> cwm_in_mempool t) ts"

lemma check_roots_run:
  assumes "healthy_proposer w" "metadata (historic_root_tree w) = Some m"
  shows "forM rs check_root w =
    ((if list_all (\<lambda>(r, n). n = 0 \<or> historic_leaf m (nodes (historic_root_tree w)) r) rs then Inr (map (\<lambda>_. ()) rs)
      else Inl (Fails CommitmentRootUnknown)) :: 'e client_transaction_error failure + unit list, w)"
proof (induction rs)
  case (Cons r rs)
  then show ?case
    by (cases r) (auto simp: bindM_def check_root_def map_errM_def is_historic_root_run [OF assms] returnM_def throwM_def)
qed (simp add: returnM_def)

lemma check_nullifier_run:
  assumes "healthy_proposer w" "imt_inv (pe_tree_hash env) (pe_hash env) (pe_ser env) h s c (nullifier_tree w)"
  shows "check_nullifier env n w = ((if n = 0 \<or> n \<notin> imt_values (nullifier_tree w) then Inr ()
    else Inl (Fails DuplicateNullifier)) :: 'e client_transaction_error failure + unit, w)"
proof -
  obtain p where p: "get_non_membership_proof (pe_hash env) (pe_ser env) n (nullifier_tree w) =
      (if n = 0 \<or> n \<in> imt_values (nullifier_tree w) then Inl LeafExists else Inr p, nullifier_tree w)"
    by (rule non_membership_answer [OF assms(2)])
  have "nullifier_non_membership (pe_hash env) (pe_ser env) n w =
      (if n = 0 \<or> n \<in> imt_values (nullifier_tree w) then Inl LeafExists else Inr p, w)"
    unfolding nullifier_non_membership_def in_nullifiers_def
    by (rule zoom_read) (use assms(1) p in \<open>simp_all add: healthy_proposer_def\<close>)
  then show ?thesis by (simp add: check_nullifier_def returnM_def map_errM_def bindM_def)
qed

lemma check_nullifiers_run:
  assumes "healthy_proposer w" "imt_inv (pe_tree_hash env) (pe_hash env) (pe_ser env) h s c (nullifier_tree w)"
  shows "forM ns (check_nullifier env) w =
    ((if list_all (\<lambda>n. n = 0 \<or> n \<notin> imt_values (nullifier_tree w)) ns then Inr (map (\<lambda>_. ()) ns)
      else Inl (Fails DuplicateNullifier)) :: 'e client_transaction_error failure + unit list, w)"
  by (induction ns) (simp_all add: bindM_def check_nullifier_run [OF assms] returnM_def)

lemma transaction_checked:
  fixes env :: "('p, 'e, 'y) proposer_env_scheme"
  assumes "healthy_proposer w" "metadata (historic_root_tree w) = Some m"
    "imt_inv (pe_tree_hash env) (pe_hash env) (pe_ser env) h s c (nullifier_tree w)" "pe_tx_hash env tx = Some k"
  shows "process_nightfall_client_transaction env tx w =
    (case pe_verify env (ct_proof tx) (public_inputs_from_tx tx) of
       Inl e \<Rightarrow> (Inl (Fails (ProofDidNotVerify e)), w)
     | Inr _ \<Rightarrow>
         if in_mempool_already k (client_transactions w) then (Inl (Fails TransactionAlreadyExists), w)
         else if \<not> roots_known m (nodes (historic_root_tree w)) tx then (Inl (Fails CommitmentRootUnknown), w)
         else if \<not> nullifiers_new (imt_values (nullifier_tree w)) tx then (Inl (Fails DuplicateNullifier), w)
         else if ct_nullifiers tx ! 0 = 0 then (Inl (Fails NullifiersAllZero), w)
         else (Inr (), w\<lparr>client_transactions := client_transactions w @ [mempool_entry k tx]\<rparr>))"
proof -
  have f: "faults w = []" using assms(1) by (simp add: healthy_proposer_def)
  have look: "find_transaction (pe_tx_hash env) tx w =
      ((Inr (find (\<lambda>t. cwm_hash t = k \<and> cwm_in_mempool t) (client_transactions w)) :: 'e client_transaction_error failure + _), w)"
    using f assms(4) by (simp add: find_transaction_def expect_read_ok)
  have found: "find (\<lambda>t. cwm_hash t = k \<and> cwm_in_mempool t) (client_transactions w) = None \<longleftrightarrow>
      \<not> in_mempool_already k (client_transactions w)"
    by (auto simp: find_None_iff in_mempool_already_def list_ex_iff)
  have st: "store_transaction (mempool_entry k tx) w =
      ((Inr (Some ()) :: 'e client_transaction_error failure + unit option), w\<lparr>client_transactions := client_transactions w @ [mempool_entry k tx]\<rparr>)"
    using f by (simp add: store_transaction_def try_write_ok)
  show ?thesis
    unfolding process_nightfall_client_transaction_def
    by (cases "pe_verify env (ct_proof tx) (public_inputs_from_tx tx)")
      (simp_all add: bindM_def liftM_def assms(4) look found check_roots_run [OF assms(1,2)] check_nullifiers_run [OF assms(1,3)]
        st throwM_def returnM_def roots_known_def nullifiers_new_def del: not_None_eq)
qed


section \<open>Properties\<close>

text \<open>C13. A client transaction is accepted exactly when its proof verifies without an error (whatever the answer of the
  verification is), it is not in the mempool, the historic root of every non-zero nullifier is a leaf of the historic
  root tree, no non-zero nullifier is in the nullifier tree and the first nullifier is not zero. An accepted
  transaction is added to the mempool; a rejected one changes nothing and is answered with the first check that fails.\<close>

theorem transaction_accepted:
  fixes env :: "('p, 'e, 'y) proposer_env_scheme"
  assumes "healthy_proposer w" "metadata (historic_root_tree w) = Some m"
    "imt_inv (pe_tree_hash env) (pe_hash env) (pe_ser env) h s c (nullifier_tree w)" "pe_tx_hash env tx = Some k"
  shows "process_nightfall_client_transaction env tx w =
    (case pe_verify env (ct_proof tx) (public_inputs_from_tx tx) of
       Inl e \<Rightarrow> (Inl (Fails (ProofDidNotVerify e)), w)
     | Inr _ \<Rightarrow>
         if in_mempool_already k (client_transactions w) then (Inl (Fails TransactionAlreadyExists), w)
         else if \<not> roots_known m (nodes (historic_root_tree w)) tx then (Inl (Fails CommitmentRootUnknown), w)
         else if \<not> nullifiers_new (imt_values (nullifier_tree w)) tx then (Inl (Fails DuplicateNullifier), w)
         else if ct_nullifiers tx ! 0 = 0 then (Inl (Fails NullifiersAllZero), w)
         else (Inr (), w\<lparr>client_transactions := client_transactions w @ [mempool_entry k tx]\<rparr>))"
  by (rule transaction_checked [OF assms])

text \<open>The mempool may hold two transactions that spend the same commitment: the nullifiers of a transaction are
  checked against the nullifier tree only, so two transactions with different hashes that would each be accepted are
  accepted one after the other, whatever nullifiers they share.\<close>

theorem double_spend_in_mempool:
  fixes env :: "('p, 'e, 'y) proposer_env_scheme"
  assumes "healthy_proposer w" "metadata (historic_root_tree w) = Some m"
    "imt_inv (pe_tree_hash env) (pe_hash env) (pe_ser env) h s c (nullifier_tree w)"
    "pe_tx_hash env tx = Some k" "pe_tx_hash env tx' = Some k'" "k \<noteq> k'"
    "fst (process_nightfall_client_transaction env tx w) = Inr ()" "fst (process_nightfall_client_transaction env tx' w) = Inr ()"
  shows "process_nightfall_client_transaction env tx' (snd (process_nightfall_client_transaction env tx w)) =
    (Inr (), w\<lparr>client_transactions := client_transactions w @ [mempool_entry k tx, mempool_entry k' tx']\<rparr>)"
proof -
  let ?w1 = "w\<lparr>client_transactions := client_transactions w @ [mempool_entry k tx]\<rparr>"
  have one: "snd (process_nightfall_client_transaction env tx w) = ?w1"
    using assms(7) by (simp add: transaction_checked [OF assms(1-4)] split: sum.splits if_splits)
  have "healthy_proposer ?w1" "metadata (historic_root_tree ?w1) = Some m"
    "imt_inv (pe_tree_hash env) (pe_hash env) (pe_ser env) h s c (nullifier_tree ?w1)"
    using assms(1-3) by (simp_all add: healthy_proposer_def)
  note run = transaction_checked [OF this assms(5)]
  have "in_mempool_already k' (client_transactions ?w1) \<longleftrightarrow> in_mempool_already k' (client_transactions w)"
    using assms(6) by (auto simp: in_mempool_already_def list_ex_iff mempool_entry_def)
  then show ?thesis
    using assms(8) unfolding one run
    by (simp add: transaction_checked [OF assms(1-3,5)] split: sum.splits if_splits)
qed

text \<open>An escrowed deposit is put into the mempool with the fee and secret hash of the call and the value and slot of
  the event; its token is the fee token when the event is the one for the fee and is computed from the call otherwise.
  It is stored whether or not the same deposit is in the mempool already, because the search for it looks at the
  transactions of clients; so replayed events store it again.\<close>

theorem deposit_is_stored:
  fixes env :: "('p, 'e, 'y) proposer_env_scheme"
  assumes "faults w = []" "frbn_try_from_u256 (es_fee call) = Inr fee" "frbn_try_from_u256 (es_secret_hash call) = Inr secret"
    "frbn_try_from_u256 (de_nf_slot_id event) = Inr slot" "frbn_try_from_u256 (de_value event) = Inr v"
    "\<And>d k. pe_deposit_hash env d = Some k \<Longrightarrow> k \<notin> cwm_hash ` set (client_transactions w)"
  shows "process_deposit_escrowed env (Inr (Some (Inr (Some call)))) event w =
    (Inr (), w\<lparr>deposits := deposits w @ [\<lparr>ddf_fee = fee, ddf_deposit_data =
       \<lparr>dd_nf_token_id = (if slot = pe_fee_token_id env then pe_fee_token_id env
                         else to_nf_token_id_from_solidity (pe_sha256 env) (es_erc_address call) (es_token_id call)),
        dd_nf_slot_id = slot, dd_value = v, dd_secret_hash = secret\<rparr>\<rparr>]\<rparr>)"
proof -
  have none: "find_deposit (pe_deposit_hash env) d w = ((Inr None :: 'e client_transaction_error failure + _), w)" for d
  proof (cases "pe_deposit_hash env d")
    case (Some k)
    then have "find (\<lambda>t. cwm_hash t = k) (client_transactions w) = None" using assms(6) by (fastforce simp: find_None_iff)
    then show ?thesis using Some assms(1) by (simp add: find_deposit_def expect_read_ok bindM_def returnM_def)
  qed (simp add: find_deposit_def returnM_def)
  have "process_deposit_transaction env d w = ((Inr () :: 'e client_transaction_error failure + unit), w\<lparr>deposits := deposits w @ [d]\<rparr>)" for d
    using assms(1) by (simp add: process_deposit_transaction_def bindM_def none set_mempool_deposits_def bindO_def try_write_ok returnM_def)
  then show ?thesis
    using assms(2-5) by (simp add: process_deposit_escrowed_def fr_ofM_def map_errM_def Let_def)
qed

section \<open>Witnesses\<close>

definition proposer_env_ex :: "(unit, unit) proposer_env" where
  "proposer_env_ex = \<lparr>pe_verify = (\<lambda>_ _. Inr False), pe_tx_hash = (\<lambda>tx. Some [of_nat (fr_val (ct_fee tx))]), pe_deposit_hash = (\<lambda>_. None),
     pe_tree_hash = th_fr, pe_hash = hash_fr, pe_ser = ser_fr, pe_poseidon = first_hash, pe_enc = (\<lambda>bs. concat (map hex02 bs)),
     pe_sha256 = (\<lambda>bs. take 32 bs), pe_fee_token_id = fr 7, pe_address = 9\<rparr>"

definition roots_ex :: "fr254 tree_db" where
  "roots_ex = \<lparr>faults = [], metadata = Some \<lparr>tree_height = 1, sub_tree_height = 0, sub_tree_count = 1, root = 0\<rparr>,
     nodes = [(1, 0)], cache = []\<rparr>"

definition commitments_ex :: "fr254 tree_db" where
  "commitments_ex = \<lparr>faults = [], metadata = Some \<lparr>tree_height = 1, sub_tree_height = 3, sub_tree_count = 0, root = 0\<rparr>,
     nodes = [], cache = []\<rparr>"

definition proposer_ex :: "unit proposer_db" where
  "proposer_ex = \<lparr>faults = [], client_transactions = [], deposits = [], proposed_blocks = [], commitment_tree = commitments_ex,
     historic_root_tree = roots_ex, nullifier_tree = imt_ex 2 1\<rparr>"

definition spend_tx_ex :: "nat \<Rightarrow> unit ClientTransaction" where
  "spend_tx_ex fee = \<lparr>ct_fee = fr fee, ct_historic_commitment_roots = [0, 0, 0, 0], ct_commitments = [0, 0, 0, 0],
     ct_nullifiers = [1, 0, 0, 0], ct_compressed_secrets = \<lparr>cipher_text = [0, 0, 0, 0, 0]\<rparr>, ct_proof = ()\<rparr>"

lemma proposer_ex_ok:
  "healthy_proposer proposer_ex" "metadata (historic_root_tree proposer_ex) = Some \<lparr>tree_height = 1, sub_tree_height = 0, sub_tree_count = 1, root = 0\<rparr>"
  "imt_inv (pe_tree_hash proposer_env_ex) (pe_hash proposer_env_ex) (pe_ser proposer_env_ex) 2 1 1 (nullifier_tree proposer_ex)"
  using imt_ex_ok(1) [of 2 1] imt_invD(7) [OF imt_ex_ok(1) [of 2 1]]
  by (simp_all add: proposer_ex_def proposer_env_ex_def healthy_proposer_def roots_ex_def commitments_ex_def)

lemma spend_tx_accepted:
  "process_nightfall_client_transaction proposer_env_ex (spend_tx_ex n) proposer_ex =
     (Inr (), proposer_ex\<lparr>client_transactions := [mempool_entry [of_nat (fr_val (fr n))] (spend_tx_ex n)]\<rparr>)"
proof -
  have k: "pe_tx_hash proposer_env_ex (spend_tx_ex n) = Some [of_nat (fr_val (fr n))]"
    by (simp add: proposer_env_ex_def spend_tx_ex_def)
  show ?thesis
    by (simp add: transaction_checked [OF proposer_ex_ok k])
      (simp add: proposer_env_ex_def spend_tx_ex_def roots_known_def nullifiers_new_def proposer_ex_def imt_ex_ok(2)
        in_mempool_already_def historic_leaf_def roots_ex_def fr_one_neq_zero)
qed

theorem transaction_accepted_witness:
  "fst (process_nightfall_client_transaction proposer_env_ex (spend_tx_ex 1) (proposer_ex\<lparr>client_transactions := [mempool_entry [1] (spend_tx_ex 1)]\<rparr>)) =
     Inl (Fails TransactionAlreadyExists)"
proof -
  let ?w = "proposer_ex\<lparr>client_transactions := [mempool_entry [1] (spend_tx_ex 1)]\<rparr>"
  have k: "pe_tx_hash proposer_env_ex (spend_tx_ex 1) = Some [1]"
    by (simp add: proposer_env_ex_def spend_tx_ex_def fr_modulus_def)
  have w: "healthy_proposer ?w" "metadata (historic_root_tree ?w) = Some \<lparr>tree_height = 1, sub_tree_height = 0, sub_tree_count = 1, root = 0\<rparr>"
    "imt_inv (pe_tree_hash proposer_env_ex) (pe_hash proposer_env_ex) (pe_ser proposer_env_ex) 2 1 1 (nullifier_tree ?w)"
    using proposer_ex_ok by (simp_all add: healthy_proposer_def)
  show ?thesis
    unfolding transaction_accepted [OF w k] by (simp add: proposer_env_ex_def in_mempool_already_def mempool_entry_def)
qed

theorem double_spend_in_mempool_witness:
  "fst (process_nightfall_client_transaction proposer_env_ex (spend_tx_ex 2)
     (snd (process_nightfall_client_transaction proposer_env_ex (spend_tx_ex 1) proposer_ex))) = Inr () \<and>
   ct_nullifiers (spend_tx_ex 1) = ct_nullifiers (spend_tx_ex 2)"
proof -
  have k: "pe_tx_hash proposer_env_ex (spend_tx_ex 1) = Some [1]" "pe_tx_hash proposer_env_ex (spend_tx_ex 2) = Some [2]"
    by (simp_all add: proposer_env_ex_def spend_tx_ex_def fr_modulus_def)
  have a: "fst (process_nightfall_client_transaction proposer_env_ex (spend_tx_ex n) proposer_ex) = Inr ()" for n
    by (simp only: spend_tx_accepted fst_conv)
  have ne: "[1] \<noteq> ([2] :: 32 word list)" by simp
  from double_spend_in_mempool [OF proposer_ex_ok k ne a a]
  have "fst (process_nightfall_client_transaction proposer_env_ex (spend_tx_ex 2)
     (snd (process_nightfall_client_transaction proposer_env_ex (spend_tx_ex 1) proposer_ex))) = Inr ()"
    by (simp only: fst_conv)
  then show ?thesis by (rule conjI) (simp add: spend_tx_ex_def)
qed

theorem deposit_is_stored_witness:
  "length (deposits (snd (process_deposit_escrowed proposer_env_ex
     (Inr (Some (Inr (Some \<lparr>es_fee = 1, es_erc_address = 2, es_token_id = 3, es_secret_hash = 4\<rparr>))))
     \<lparr>de_nf_slot_id = 5, de_value = 6\<rparr> proposer_ex))) = 1"
proof -
  have c: "frbn_try_from_u256 1 = Inr (fr 1)" "frbn_try_from_u256 4 = Inr (fr 4)" "frbn_try_from_u256 5 = Inr (fr 5)"
    "frbn_try_from_u256 6 = Inr (fr 6)"
    by (simp_all add: frbn_try_from_eq fr_modulus_def)
  show ?thesis
    by (subst deposit_is_stored [where fee = "fr 1" and secret = "fr 4" and slot = "fr 5" and v = "fr 6"])
      (simp_all add: c proposer_ex_def del: fr_zero)
qed

end
