(* ===== verification/Block_Selection.thy ===== *)
theory Block_Selection
  imports Proposer_Transactions "HOL-Library.Multiset"
begin

text \<open>
  \<open>nightfall_proposer/src/services/assemble_block.rs\<close> and the default \<open>prove_block\<close> of \<open>ports/proving.rs\<close>: which deposits
  and client transactions of the mempool go into the next block, and how the block is made. The size of a block is a
  setting; the proofs (of a group of four deposits, and of the block) and the preparation of the state transition are
  parameters. The elements of the outer field \<open>Fq\<close> are naturals.
\<close>

section \<open>Errors and settings\<close>

text \<open>The payloads of the wrapped contract and serialisation errors are not modelled.\<close>

datatype assembly_error =
    FailedToAssembleBlock string | FailedToProposeBlock | FailedToGetReceipt | FailedToGetCalldata | FailedToGetDepositData
  | InsufficientTransactions | BlockSerializationError | BlockConversionError conversion_error | ProvingError string
  | ContractError string | ProviderError string | BlockEventError event_error | FinalityTimeout | QueueError string
  | OtherAssemblyError string

type_synonym ('p, 'z, 'a) assemblyM = "('p, 'z, assembly_error failure, 'a) proposerM"

definition get_block_size :: "nat \<Rightarrow> assembly_error failure + nat" where
  "get_block_size block_size =
     (if block_size = 64 \<or> block_size = 256 \<or> block_size = 1024 then Inr block_size
      else Inl (Fails (ProvingError ''Block size must be one of 64, 256, or 1024'')))"

definition transactions_to_include_in_block :: "('k \<times> 'v) list option \<Rightarrow> ('k \<times> 'v) list" where
  "transactions_to_include_in_block mempool_transactions = (case mempool_transactions of None \<Rightarrow> [] | Some ts \<Rightarrow> ts)"

section \<open>Choosing the transactions\<close>

text \<open>The loop that makes groups of four, the last one padded with default deposits.\<close>

fun group_deposits :: "DepositDatawithFee list \<Rightarrow> DepositDatawithFee list \<Rightarrow> DepositDatawithFee list list" where
  "group_deposits current_group [] =
     (if current_group = [] then [] else [current_group @ replicate (4 - length current_group) deposit_default])"
| "group_deposits current_group (d # ds) =
     (let current_group' = current_group @ [d] in
      if length current_group' = 4 then current_group' # group_deposits [] ds else group_deposits current_group' ds)"

text \<open>\<open>sort_by_key(|..| Reverse(fee))\<close> is a stable sort by descending fee.\<close>

definition sort_by_fee :: "('a \<Rightarrow> fr254) \<Rightarrow> 'a list \<Rightarrow> 'a list" where
  "sort_by_fee fee xs = sort_key (\<lambda>x. - int (fr_val (fee x))) xs"

type_synonym 'p candidate = "DepositDatawithFee list option \<times> 'p ClientTransactionWithMetaData option \<times> fr254"

definition candidates :: "DepositDatawithFee list \<Rightarrow> 'p ClientTransactionWithMetaData list \<Rightarrow> 'p candidate list" where
  "candidates pending_deposits pending_client_transactions =
     map (\<lambda>g. (Some g, None, sum_list (map ddf_fee g))) (group_deposits [] (sort_by_fee ddf_fee pending_deposits)) @
     map (\<lambda>t. (None, Some t, ct_fee (cwm_client_transaction t))) pending_client_transactions"

definition choose_transactions ::
    "nat \<Rightarrow> DepositDatawithFee list \<Rightarrow> 'p ClientTransactionWithMetaData list \<Rightarrow>
     DepositDatawithFee list list \<times> 'p ClientTransactionWithMetaData list" where
  "choose_transactions block_size pending_deposits pending_client_transactions =
     (let selected = take block_size (sort_by_fee (\<lambda>(_, _, fee). fee) (candidates pending_deposits pending_client_transactions))
      in (List.map_filter (\<lambda>(d, _, _). d) selected, List.map_filter (\<lambda>(_, t, _). t) selected))"

definition deposit_commitment :: "poseidon \<Rightarrow> DepositDatawithFee \<Rightarrow> fr254 option" where
  "deposit_commitment poseidon d =
     (let dd = ddf_deposit_data d
      in poseidon [dd_nf_token_id dd, dd_nf_slot_id dd, dd_value dd, 0, 1, dd_secret_hash dd])"

definition proposer_hex :: "('p, 'e, 'y) proposer_env_scheme \<Rightarrow> fr254 \<Rightarrow> string" where
  "proposer_hex env x = fr_to_hex_string (pe_enc env) x"

definition tx_pending :: "('p, 'e, 'y) proposer_env_scheme \<Rightarrow> string list \<Rightarrow> 'p ClientTransactionWithMetaData \<Rightarrow> bool" where
  "tx_pending env on_chain t \<longleftrightarrow>
     (\<forall>c\<in>set (filter (\<lambda>c. proposer_hex env c \<noteq> proposer_hex env 0) (ct_commitments (cwm_client_transaction t))).
        proposer_hex env c \<notin> set on_chain)"

definition prepare_block_data ::
    "('p, 'e, 'y) proposer_env_scheme \<Rightarrow> nat \<Rightarrow>
     ('p, 'z, DepositDatawithFee list list \<times> 'p ClientTransactionWithMetaData list) assemblyM" where
  "prepare_block_data env block_size_setting =
     bindM (liftM (get_block_size block_size_setting)) (\<lambda>block_size.
     bindM get_mempool_deposits (\<lambda>stored_deposits_in_mempool.
     (let all_deposits = (case stored_deposits_in_mempool of None \<Rightarrow> [] | Some ds \<Rightarrow> ds) in
      bindM get_all_mempool_client_transactions (\<lambda>mempool_client_transactions.
      (let current_transactions = map snd (transactions_to_include_in_block mempool_client_transactions) in
       bindM proposer_get_all_blocks (\<lambda>stored_blocks.
       (let on_chain = concat (map sb_commitments (case stored_blocks of None \<Rightarrow> [] | Some bs \<Rightarrow> bs)) in
        bindM (liftM (mapS (\<lambda>d. okS Panics (map_option (\<lambda>c. (d, proposer_hex env c \<notin> set on_chain))
                                   (deposit_commitment (pe_poseidon env) d))) all_deposits)) (\<lambda>marked.
        (let pending_deposits = map fst (filter snd marked);
             stale_deposits = map fst (filter (\<lambda>p. \<not> snd p) marked);
             pending_client_transactions = filter (tx_pending env on_chain) current_transactions;
             stale_client_transactions = filter (\<lambda>t. \<not> tx_pending env on_chain t) current_transactions in
         bindM (if stale_deposits \<noteq> [] then ignoreM (remove_mempool_deposits [stale_deposits] :: ('p, 'z, unit, _) proposerM)
                else returnM ()) (\<lambda>_.
         bindM (if stale_client_transactions \<noteq> []
                then bindM (set_in_mempool stale_client_transactions False) (\<lambda>_. returnM ()) else returnM ()) (\<lambda>_.
         if pending_deposits = [] \<and> pending_client_transactions = [] then throwM (Fails InsufficientTransactions)
         else
           (let (used_deposits_info, selected_client_transactions) =
                  choose_transactions block_size pending_deposits pending_client_transactions in
            bindM (remove_mempool_deposits used_deposits_info) (\<lambda>_.
            bindM (set_in_mempool selected_client_transactions False) (\<lambda>_.
            returnM (used_deposits_info, selected_client_transactions)))))))))))))))"

section \<open>Making the block\<close>

definition on_chain_from_inputs :: "PublicInputs \<Rightarrow> OnChainTransaction" where
  "on_chain_from_inputs p = \<lparr>oct_fee = pi_fee p, oct_commitments = pi_commitments p, oct_nullifiers = pi_nullifiers p,
     oct_public_data = \<lparr>cipher_text = pi_compressed_secrets p\<rparr>\<rparr>"

definition on_chain_from_client :: "'p ClientTransaction \<Rightarrow> OnChainTransaction" where
  "on_chain_from_client t = \<lparr>oct_fee = ct_fee t, oct_commitments = ct_commitments t, oct_nullifiers = ct_nullifiers t,
     oct_public_data = ct_compressed_secrets t\<rparr>"

text \<open>The recursive prover: the proof of four deposits with its public inputs, the state transition with its three roots,
  and the proof of the block.\<close>

record ('p, 'z, 'i) proving_engine =
  pv_deposit_proof :: "DepositData list \<Rightarrow> string + 'p \<times> PublicInputs"
  pv_prepare :: "('p \<times> PublicInputs) list \<Rightarrow> 'p ClientTransactionWithMetaData list \<Rightarrow> ('p, 'z, 'i \<times> fr254 \<times> fr254 \<times> fr254) assemblyM"
  pv_recursive :: "'i \<Rightarrow> assembly_error failure + nat list"

definition prove_block ::
    "('p, 'z, 'i) proving_engine \<Rightarrow> ('p \<times> PublicInputs) list \<Rightarrow> 'p ClientTransactionWithMetaData list \<Rightarrow>
     ('p, 'z, ProposerBlock) assemblyM" where
  "prove_block engine deposit_transactions client_txs =
     bindM (pv_prepare engine deposit_transactions client_txs) (\<lambda>(info, commitments_root, nullifiers_root, commitments_root_root).
     bindM (liftM (pv_recursive engine info)) (\<lambda>proof_vec.
     returnM \<lparr>pb_commitments_root = commitments_root, pb_nullifiers_root = nullifiers_root,
       pb_commitments_root_root = commitments_root_root,
       pb_transactions = map (\<lambda>(_, pub). on_chain_from_inputs pub) deposit_transactions @
         map (\<lambda>t. on_chain_from_client (cwm_client_transaction t)) client_txs,
       pb_rollup_proof = concat (map (\<lambda>x. be_bytes 32 x) proof_vec)\<rparr>))"

definition deposit_proof ::
    "('p, 'z, 'i) proving_engine \<Rightarrow> DepositData list \<Rightarrow> assembly_error failure + 'p \<times> PublicInputs" where
  "deposit_proof engine chunk =
     (if length chunk \<noteq> 4 then Inl (Fails (ProvingError ''Could not convert deposit data chunk to fixed-length array''))
      else map_sum (\<lambda>e. Fails (ProvingError (''Proving Error: '' @ e))) id (pv_deposit_proof engine chunk))"

definition make_block ::
    "('p, 'z, 'i) proving_engine \<Rightarrow> nat \<Rightarrow> DepositData list list \<Rightarrow> 'p ClientTransactionWithMetaData list \<Rightarrow>
     ('p, 'z, ProposerBlock) assemblyM" where
  "make_block engine block_size_setting deposit_transactions client_txs =
     bindM (liftM (mapS (deposit_proof engine) deposit_transactions)) (\<lambda>deposit_proofs.
     bindM (liftM (get_block_size block_size_setting)) (\<lambda>block_size.
     (let transaction_count = length deposit_proofs + length client_txs in
      bindM (if transaction_count < block_size
             then bindM (liftM (deposit_proof engine (replicate 4 deposit_data_default))) (\<lambda>filler.
                  returnM (deposit_proofs @ replicate (block_size - transaction_count) filler))
             else returnM deposit_proofs) (\<lambda>proofs.
      prove_block engine proofs client_txs))))"

definition assemble_block ::
    "('p, 'e, 'y) proposer_env_scheme \<Rightarrow> ('p, 'z, 'i) proving_engine \<Rightarrow> nat \<Rightarrow> ('p, 'z, ProposerBlock) assemblyM" where
  "assemble_block env engine block_size_setting =
     bindM (prepare_block_data env block_size_setting) (\<lambda>(included_depositinfos_group, selected_client_transactions).
     bindM (make_block engine block_size_setting (map (map ddf_deposit_data) included_depositinfos_group)
              selected_client_transactions) (\<lambda>block.
     bindM (expectM (db_read () (\<lambda>w. length (proposed_blocks w)))) (\<lambda>current_block_number.
     (let store_block = \<lparr>sb_layer2_block_number = current_block_number,
            sb_commitments = concat (map (\<lambda>t. map (proposer_hex env) (oct_commitments t)) (pb_transactions block)),
            sb_proposer_address = pe_address env\<rparr> in
      bindM (expectM (db_write () (\<lambda>w. w\<lparr>proposed_blocks := proposed_blocks w @ [store_block]\<rparr>))) (\<lambda>_.
      returnM block)))))"

section \<open>The choice\<close>

lemma mset_map_filter: "mset xs = mset ys \<Longrightarrow> mset (List.map_filter f xs) = mset (List.map_filter f ys)"
  by (simp add: List.map_filter_def mset_filter)

lemma map_filter_append: "List.map_filter f (xs @ ys) = List.map_filter f xs @ List.map_filter f ys"
  by (simp add: List.map_filter_def)

lemma map_filter_take: "set (List.map_filter f (take n xs)) \<subseteq> set (List.map_filter f xs)"
  by (auto simp: List.map_filter_def dest: in_set_takeD)

lemma map_filter_groups [simp]:
  "List.map_filter (\<lambda>(d, _, _). d) (candidates ds ts) = group_deposits [] (sort_by_fee ddf_fee ds)"
  "List.map_filter (\<lambda>(_, t, _). t) (candidates ds ts) = ts"
  by (simp_all add: candidates_def map_filter_append List.map_filter_def o_def filter_map)

lemma group_deposits_length: "length current \<le> 3 \<Longrightarrow> g \<in> set (group_deposits current ds) \<Longrightarrow> length g = 4"
  by (induction current ds rule: group_deposits.induct) (auto simp: Let_def split: if_splits)

lemma group_deposits_content:
  "filter (\<lambda>d. d \<noteq> deposit_default) (concat (group_deposits current ds)) = filter (\<lambda>d. d \<noteq> deposit_default) (current @ ds)"
proof (induction current ds rule: group_deposits.induct)
  case (2 c d ds)
  show ?case
  proof (cases "length (c @ [d]) = 4")
    case True
    then have "group_deposits c (d # ds) = (c @ [d]) # group_deposits [] ds" by (simp add: Let_def)
    then show ?thesis using 2(1) [OF refl True] by (simp only: concat.simps filter_append) simp
  next
    case False
    then have "group_deposits c (d # ds) = group_deposits (c @ [d]) ds" by (simp add: Let_def)
    then show ?thesis using 2(2) [OF refl False] by simp
  qed
qed simp

lemma group_deposits_count:
  "length current \<le> 3 \<Longrightarrow> length (group_deposits current ds) = (length current + length ds + 3) div 4"
proof (induction current ds rule: group_deposits.induct)
  case (2 c d ds)
  show ?case
  proof (cases "length c = 3")
    case True
    then show ?thesis using 2(1) by (simp add: Let_def)
  next
    case False
    then show ?thesis using 2 by (simp add: Let_def)
  qed
next
  case (1 c)
  then have "length c = 0 \<or> (length c + 3) div 4 = 1" by presburger
  then show ?case by auto
qed

lemma length_candidates: "length (candidates ds ts) = (length ds + 3) div 4 + length ts"
  by (simp add: candidates_def group_deposits_count sort_by_fee_def)

lemma candidate_kinds: "(d, t, f) \<in> set (candidates ds ts) \<Longrightarrow>
    (\<exists>g. d = Some g \<and> t = None \<and> f = sum_list (map ddf_fee g)) \<or> (\<exists>x. d = None \<and> t = Some x \<and> f = ct_fee (cwm_client_transaction x))"
  by (auto simp: candidates_def)

lemma candidate_client:
  "x \<in> set (candidates ds ts) \<Longrightarrow> (\<lambda>(_, t, _). t) x = Some t \<Longrightarrow>
   (\<lambda>(_, _, fee). fee) x = ct_fee (cwm_client_transaction t)"
  by (cases x) (auto dest: candidate_kinds)

lemma candidate_group:
  "x \<in> set (candidates ds ts) \<Longrightarrow> (\<lambda>(d, _, _). d) x = Some g \<Longrightarrow>
   (\<lambda>(_, _, fee). fee) x = sum_list (map ddf_fee g)"
  by (cases x) (auto dest: candidate_kinds)

lemma map_filter_split:
  assumes "\<And>x. x \<in> set xs \<Longrightarrow> (f x \<noteq> None) = (g x = None)"
  shows "length (List.map_filter f xs) + length (List.map_filter g xs) = length xs"
  using assms by (induction xs) (auto simp: List.map_filter_def split: option.splits)

lemma sorted_take_drop:
  assumes "x \<in> set (take n (sort_by_fee fee xs))" "y \<in> set (drop n (sort_by_fee fee xs))"
  shows "fee y \<le> fee x"
proof -
  let ?k = "\<lambda>x. - int (fr_val (fee x))"
  have "sorted (map ?k (take n (sort_by_fee fee xs) @ drop n (sort_by_fee fee xs)))" by (simp add: sort_by_fee_def)
  then have "?k x \<le> ?k y" using assms unfolding map_append sorted_append by auto
  then show ?thesis by (simp add: less_eq_fr254_def)
qed

lemma candidate_xor: "x \<in> set (candidates ds ts) \<Longrightarrow> ((\<lambda>(d, _, _). d) x \<noteq> None) = ((\<lambda>(_, t, _). t) x = None)"
  by (cases x) (auto dest: candidate_kinds)

lemma choice_length:
  assumes "choose_transactions block_size ds ts = (groups, txs)"
  shows "length groups + length txs = min block_size ((length ds + 3) div 4 + length ts)"
proof -
  let ?sel = "take block_size (sort_by_fee (\<lambda>(_, _, fee). fee) (candidates ds ts))"
  have "set ?sel \<subseteq> set (candidates ds ts)" using set_take_subset by (fastforce simp: sort_by_fee_def)
  then have "length (List.map_filter (\<lambda>(d, _, _). d) ?sel) + length (List.map_filter (\<lambda>(_, t, _). t) ?sel) = length ?sel"
    by (intro map_filter_split candidate_xor) blast
  then show ?thesis using assms by (auto simp: choose_transactions_def Let_def sort_by_fee_def length_candidates min.commute)
qed

lemma choice_four:
  assumes "choose_transactions block_size ds ts = (groups, txs)" "g \<in> set groups"
  shows "length g = 4"
proof -
  have "g \<in> set (List.map_filter (\<lambda>(d, _, _). d) (sort_by_fee (\<lambda>(_, _, fee). fee) (candidates ds ts)))"
    using assms map_filter_take by (fastforce simp: choose_transactions_def Let_def)
  then have "g \<in># mset (List.map_filter (\<lambda>(d, _, _). d) (candidates ds ts))"
    using mset_map_filter [of "sort_by_fee (\<lambda>(_, _, fee). fee) (candidates ds ts)" "candidates ds ts" "\<lambda>(d, _, _). d"]
    by (simp add: sort_by_fee_def) (metis set_mset_mset)
  then show ?thesis by (intro group_deposits_length [of "[]"]) simp_all
qed

lemma choice_transactions:
  assumes "choose_transactions block_size ds ts = (groups, txs)"
  shows "mset txs \<subseteq># mset ts"
proof -
  let ?s = "sort_by_fee (\<lambda>(_, _, fee). fee) (candidates ds ts)"
  have "mset (List.map_filter (\<lambda>(_, t, _). t) (take block_size ?s @ drop block_size ?s)) =
      mset (List.map_filter (\<lambda>(_, t, _). t) (candidates ds ts))"
    by (rule mset_map_filter) (simp add: sort_by_fee_def)
  then show ?thesis using assms by (auto simp: choose_transactions_def Let_def map_filter_append simp flip: append_take_drop_id)
    (metis map_filter_groups(2) mset_subset_eq_add_left)
qed

lemma map_filter_prefix: "\<exists>m. List.map_filter f (take n xs) = take m (List.map_filter f xs)"
proof (intro exI)
  have "List.map_filter f xs = List.map_filter f (take n xs) @ List.map_filter f (drop n xs)"
    by (simp flip: map_filter_append)
  then show "List.map_filter f (take n xs) = take (length (List.map_filter f (take n xs))) (List.map_filter f xs)" by simp
qed

text \<open>The groups are made from the deposits in their order, and later ones hold only what is not greater.\<close>

lemma group_deposits_concat:
  "\<exists>k. concat (group_deposits current ds) = current @ ds @ replicate k deposit_default"
proof (induction current ds rule: group_deposits.induct)
  case (2 c d ds)
  then show ?case by (cases "length (c @ [d]) = 4") (auto simp: Let_def)
qed auto

definition fee_descending :: "DepositDatawithFee list \<Rightarrow> bool" where
  "fee_descending ds = sorted_wrt (\<lambda>d e. ddf_fee e \<le> ddf_fee d) ds"

lemma groups_descending:
  "fee_descending (current @ ds) \<Longrightarrow>
   sorted_wrt (\<lambda>g h. \<forall>d\<in>set g. \<forall>e\<in>set h. ddf_fee e \<le> ddf_fee d) (group_deposits current ds)"
proof (induction current ds rule: group_deposits.induct)
  case (2 c d ds)
  show ?case
  proof (cases "length (c @ [d]) = 4")
    case True
    obtain k where k: "concat (group_deposits [] ds) = [] @ ds @ replicate k deposit_default"
      using group_deposits_concat by blast
    have "fee_descending ([] @ ds)" using 2(3) by (simp add: fee_descending_def sorted_wrt_append)
    from 2(1) [OF refl True this]
    have IH: "sorted_wrt (\<lambda>g h. \<forall>d\<in>set g. \<forall>e\<in>set h. ddf_fee e \<le> ddf_fee d) (group_deposits [] ds)" .
    have "ddf_fee e \<le> ddf_fee x" if "x \<in> set (c @ [d])" "h \<in> set (group_deposits [] ds)" "e \<in> set h" for x h e
    proof -
      have "e \<in> set (concat (group_deposits [] ds))" using that by auto
      then have "e \<in> set ds \<or> e = deposit_default" unfolding k by auto
      then show ?thesis using 2(3) that(1)
        by (auto simp: fee_descending_def sorted_wrt_append deposit_default_def less_eq_fr254_def)
    qed
    then show ?thesis using True IH by (simp add: Let_def)
  next
    case False
    then show ?thesis using 2(2) [OF refl False] 2(3) by (simp add: Let_def)
  qed
qed auto


lemma sum_fees: "4 * k < fr_modulus \<Longrightarrow> length fs \<le> 4 \<Longrightarrow> \<forall>f\<in>set fs. fr_val f \<le> k \<Longrightarrow>
   fr_val (sum_list fs) = sum_list (map fr_val fs)"
proof -
  assume a: "4 * k < fr_modulus" "length fs \<le> 4" "\<forall>f\<in>set fs. fr_val f \<le> k"
  have "\<forall>f\<in>set gs. fr_val f \<le> k \<Longrightarrow> length gs \<le> 4 \<Longrightarrow>
      fr_val (sum_list gs) = sum_list (map fr_val gs) \<and> sum_list (map fr_val gs) \<le> length gs * k" for gs
  proof (induction gs)
    case (Cons f gs)
    then have IH: "fr_val (sum_list gs) = sum_list (map fr_val gs)" "fr_val f + sum_list (map fr_val gs) \<le> length (f # gs) * k"
      by simp_all
    moreover have "length (f # gs) * k \<le> 4 * k" using Cons.prems(2) by (rule mult_right_mono) simp
    moreover have "fr_val f + sum_list (map fr_val gs) < fr_modulus" using calculation a(1) by linarith
    ultimately show ?case by (simp add: fr_val_plus)
  qed simp
  then show ?thesis using a by blast
qed

lemma sum_list_below: "length xs = length ys \<Longrightarrow> \<forall>x\<in>set xs. \<forall>y\<in>set ys. y \<le> (x :: nat) \<Longrightarrow> sum_list ys \<le> sum_list xs"
  by (induction xs ys rule: list_induct2) (auto intro: add_mono)

lemma groups_sorted:
  assumes "\<forall>d\<in>set ds. 4 * fr_val (ddf_fee d) < fr_modulus"
  shows "sorted (map (\<lambda>g. - int (fr_val (sum_list (map ddf_fee g)))) (group_deposits [] (sort_by_fee ddf_fee ds)))"
proof -
  let ?gs = "group_deposits [] (sort_by_fee ddf_fee ds)"
  have "sorted (map (\<lambda>x. - int (fr_val (ddf_fee x))) (sort_by_fee ddf_fee ds))" by (simp add: sort_by_fee_def)
  then have "fee_descending ([] @ sort_by_fee ddf_fee ds)"
    by (simp add: fee_descending_def sorted_map less_eq_fr254_def)
  from groups_descending [OF this]
  have w: "sorted_wrt (\<lambda>g h. \<forall>d\<in>set g. \<forall>e\<in>set h. ddf_fee e \<le> ddf_fee d) ?gs" .
  obtain j where j: "concat ?gs = [] @ sort_by_fee ddf_fee ds @ replicate j deposit_default"
    using group_deposits_concat by blast
  have sum: "fr_val (sum_list (map ddf_fee g)) = sum_list (map (\<lambda>d. fr_val (ddf_fee d)) g)" and four: "length g = 4" if g: "g \<in> set ?gs" for g
  proof -
    show four: "length g = 4" by (rule group_deposits_length [of "[]", OF _ g]) simp
    have "fr_val (ddf_fee d) \<le> (fr_modulus - 1) div 4" if "d \<in> set g" for d
    proof -
      have "d \<in> set (concat ?gs)" using that g by auto
      then have "d \<in> set ds \<or> d = deposit_default" unfolding j by (auto simp: sort_by_fee_def)
      then show ?thesis
      proof
        assume "d \<in> set ds"
        then have "4 * fr_val (ddf_fee d) < fr_modulus" using assms by blast
        then show ?thesis by linarith
      qed (simp add: deposit_default_def)
    qed
    then show "fr_val (sum_list (map ddf_fee g)) = sum_list (map (\<lambda>d. fr_val (ddf_fee d)) g)"
      using sum_fees [of "(fr_modulus - 1) div 4" "map ddf_fee g"] four by (simp add: fr_modulus_def comp_def)
  qed
  have "sorted_wrt (\<lambda>g h. - int (fr_val (sum_list (map ddf_fee g))) \<le> - int (fr_val (sum_list (map ddf_fee h)))) ?gs"
    using w
  proof (rule sorted_wrt_mono_rel [rotated])
    fix g h
    assume gh: "g \<in> set ?gs" "h \<in> set ?gs" "\<forall>d\<in>set g. \<forall>e\<in>set h. ddf_fee e \<le> ddf_fee d"
    have "sum_list (map (\<lambda>d. fr_val (ddf_fee d)) h) \<le> sum_list (map (\<lambda>d. fr_val (ddf_fee d)) g)"
      by (rule sum_list_below) (use gh four in \<open>auto simp: less_eq_fr254_def\<close>)
    then show "- int (fr_val (sum_list (map ddf_fee g))) \<le> - int (fr_val (sum_list (map ddf_fee h)))"
      using sum gh(1,2) by simp
  qed
  then show ?thesis by (simp add: sorted_map)
qed

text \<open>So, when the sums do not wrap round, the groups that are taken are the first ones.\<close>

lemma chosen_groups_first:
  fixes ts :: "'p ClientTransactionWithMetaData list"
  assumes "choose_transactions block_size ds ts = (groups, txs)" "\<forall>d\<in>set ds. 4 * fr_val (ddf_fee d) < fr_modulus"
  obtains m where "groups = take m (group_deposits [] (sort_by_fee ddf_fee ds))"
proof -
  let ?gs = "group_deposits [] (sort_by_fee ddf_fee ds)" and ?D = "\<lambda>(d, _, _). d"
  let ?c = "candidates ds ts" and ?k = "\<lambda>x. - int (fr_val ((\<lambda>(_, _, fee). fee) x))"
  have "List.map_filter ?D (sort_key ?k ?c) = map (the \<circ> ?D) (sort_key ?k (filter (\<lambda>x. ?D x \<noteq> None) ?c))"
    by (simp add: List.map_filter_def filter_sort)
  also have "filter (\<lambda>x. ?D x \<noteq> None) ?c = map (\<lambda>g. (Some g, None, sum_list (map ddf_fee g))) ?gs"
    by (simp add: candidates_def filter_map comp_def)
  also have "sort_key ?k (map (\<lambda>g. (Some g, None, sum_list (map ddf_fee g))) ?gs) =
      map (\<lambda>g. (Some g, None :: 'p ClientTransactionWithMetaData option, sum_list (map ddf_fee g))) ?gs"
    by (rule sort_key_id_if_sorted) (use groups_sorted [OF assms(2)] in \<open>simp add: comp_def\<close>)
  also have "map (the \<circ> ?D) \<dots> = ?gs" by (simp add: comp_def)
  finally have "List.map_filter ?D (sort_by_fee (\<lambda>(_, _, fee). fee) ?c) = ?gs" by (simp only: sort_by_fee_def)
  then show thesis
    using that map_filter_prefix [of ?D block_size "sort_by_fee (\<lambda>(_, _, fee). fee) ?c"] assms(1)
    by (auto simp: choose_transactions_def Let_def)
qed

lemma left_out_deposit:
  fixes ts :: "'p ClientTransactionWithMetaData list"
  assumes "choose_transactions block_size ds ts = (groups, txs)" "\<forall>d\<in>set ds. 4 * fr_val (ddf_fee d) < fr_modulus"
    "d \<in># mset ds - mset (concat groups)" "e \<in> set (concat groups)"
  shows "ddf_fee d \<le> ddf_fee e"
proof -
  let ?s = "sort_by_fee ddf_fee ds"
  let ?gs = "group_deposits [] ?s"
  obtain m where m: "groups = take m ?gs" by (rule chosen_groups_first [OF assms(1,2)])
  obtain j where j: "concat ?gs = [] @ ?s @ replicate j deposit_default" using group_deposits_concat by blast
  have split: "?s @ replicate j deposit_default = concat groups @ concat (drop m ?gs)"
    using j m by (simp flip: concat_append)
  define l where "l = length (concat groups)"
  have g: "concat groups = take l ?s @ replicate (min (l - length ?s) j) deposit_default"
    using arg_cong [OF split, of "take l"] by (simp add: l_def min_def)
  have "\<not> length ?s \<le> l"
  proof
    assume "length ?s \<le> l"
    then have "mset ds \<subseteq># mset (concat groups)" unfolding g by (simp add: sort_by_fee_def)
    then have "mset ds - mset (concat groups) = {#}" by (simp only: Diff_eq_empty_iff_mset)
    then show False using assms(3) by simp
  qed
  then have t: "concat groups = take l ?s" using g by simp
  have "mset ds = mset (take l ?s) + mset (drop l ?s)" by (simp flip: mset_append) (simp add: sort_by_fee_def)
  then have "d \<in> set (drop l ?s)" "e \<in> set (take l ?s)" using assms(3,4) t by simp_all
  then show ?thesis by (intro sorted_take_drop)
qed

text \<open>C22. The choice of the transactions of a block: it takes as many groups of deposits and client transactions as fit.
  The groups are those that the deposits make four by four in the order of their fees, the last one filled up; every real deposit is in
  exactly one group, taken or left out; the client transactions are pending ones. What is left out, a client
  transaction or a group (which counts with the sum of its fees, as an element of the field), pays at most the fee of anything that is
  taken. And when no sum of four fees wraps round, no deposit that is left out pays more than one that is taken.\<close>

theorem block_choice:
  fixes ts :: "'p ClientTransactionWithMetaData list"
  shows "case choose_transactions block_size ds ts of (groups, txs) \<Rightarrow>
    length groups + length txs = min block_size ((length ds + 3) div 4 + length ts) \<and>
    (\<forall>g\<in>set groups. length g = 4) \<and> mset txs \<subseteq># mset ts \<and>
    (\<forall>t. t \<in># mset ts - mset txs \<longrightarrow>
       (\<forall>t'\<in>set txs. ct_fee (cwm_client_transaction t) \<le> ct_fee (cwm_client_transaction t')) \<and>
       (\<forall>g\<in>set groups. ct_fee (cwm_client_transaction t) \<le> sum_list (map ddf_fee g))) \<and>
    (\<exists>rest. mset groups + mset rest = mset (group_deposits [] (sort_by_fee ddf_fee ds)) \<and>
       mset (filter (\<lambda>d. d \<noteq> deposit_default) (concat groups)) + mset (filter (\<lambda>d. d \<noteq> deposit_default) (concat rest)) =
         mset (filter (\<lambda>d. d \<noteq> deposit_default) ds) \<and>
       (\<forall>g\<in>set rest. (\<forall>t\<in>set txs. sum_list (map ddf_fee g) \<le> ct_fee (cwm_client_transaction t)) \<and>
          (\<forall>g'\<in>set groups. sum_list (map ddf_fee g) \<le> sum_list (map ddf_fee g')))) \<and>
    ((\<forall>d\<in>set ds. 4 * fr_val (ddf_fee d) < fr_modulus) \<longrightarrow>
       (\<forall>d e. d \<in># mset ds - mset (concat groups) \<and> e \<in> set (concat groups) \<longrightarrow> ddf_fee d \<le> ddf_fee e))"
proof -
  let ?all = "candidates ds ts"
  let ?fee = "\<lambda>(_, _, fee). fee"
  let ?D = "\<lambda>(d, _, _). d" and ?T = "\<lambda>(_, t, _). t"
  define sel where "sel = take block_size (sort_by_fee ?fee ?all)"
  define rest where "rest = drop block_size (sort_by_fee ?fee ?all)"
  let ?groups = "List.map_filter ?D sel" and ?txs = "List.map_filter ?T sel"
  let ?left = "List.map_filter ?D rest" and ?waiting = "List.map_filter ?T rest"
  have all: "mset (sel @ rest) = mset ?all" by (simp only: sel_def rest_def append_take_drop_id) (simp add: sort_by_fee_def)
  then have sub: "set sel \<subseteq> set ?all" "set rest \<subseteq> set ?all" by (metis mset_eq_setD set_append sup_ge1, metis mset_eq_setD set_append sup_ge2)
  have choice: "choose_transactions block_size ds ts = (?groups, ?txs)"
    by (simp add: choose_transactions_def sel_def Let_def)
  have G: "mset ?groups + mset ?left = mset (group_deposits [] (sort_by_fee ddf_fee ds))"
    using mset_map_filter [OF all, of ?D] by (simp add: map_filter_append)
  have T: "mset ?txs + mset ?waiting = mset ts"
    using mset_map_filter [OF all, of ?T] by (simp add: map_filter_append)
  have le: "?fee x \<le> ?fee y" if "x \<in> set rest" "y \<in> set sel" for x y
    using sorted_take_drop [of y block_size ?fee ?all x] that by (simp add: sel_def rest_def)
  have kind: "?fee x = sum_list (map ddf_fee g)" if "x \<in> set sel \<union> set rest" "?D x = Some g" for x g
    using candidate_group [of x ds ts g] that sub by blast
  have kind': "?fee x = ct_fee (cwm_client_transaction t)" if "x \<in> set sel \<union> set rest" "?T x = Some t" for x t
    using candidate_client [of x ds ts t] that sub by blast
  have member: "\<exists>x\<in>set xs. f x = Some y" if "y \<in> set (List.map_filter f xs)" for y f and xs :: "'x list"
    using that by (auto simp: List.map_filter_def)
  have taken: "\<exists>y\<in>set sel. ?fee y = sum_list (map ddf_fee g)" if g: "g \<in> set ?groups" for g
  proof -
    obtain y where y: "y \<in> set sel" "?D y = Some g" using member [OF g] by blast
    have "?fee y = sum_list (map ddf_fee g)" by (rule kind) (use y in simp_all)
    then show ?thesis using y(1) by (rule bexI)
  qed
  have taken': "\<exists>y\<in>set sel. ?fee y = ct_fee (cwm_client_transaction t)" if t: "t \<in> set ?txs" for t
  proof -
    obtain y where y: "y \<in> set sel" "?T y = Some t" using member [OF t] by blast
    have "?fee y = ct_fee (cwm_client_transaction t)" by (rule kind') (use y in simp_all)
    then show ?thesis using y(1) by (rule bexI)
  qed
  have below: "(\<forall>t\<in>set ?txs. ?fee x \<le> ct_fee (cwm_client_transaction t)) \<and> (\<forall>g\<in>set ?groups. ?fee x \<le> sum_list (map ddf_fee g))"
    if x: "x \<in> set rest" for x
  proof (intro conjI ballI)
    fix t assume "t \<in> set ?txs"
    then obtain y where "y \<in> set sel" "?fee y = ct_fee (cwm_client_transaction t)" using taken' by blast
    then show "?fee x \<le> ct_fee (cwm_client_transaction t)" using le [OF x] by metis
  next
    fix g assume "g \<in> set ?groups"
    then obtain y where "y \<in> set sel" "?fee y = sum_list (map ddf_fee g)" using taken by blast
    then show "?fee x \<le> sum_list (map ddf_fee g)" using le [OF x] by metis
  qed
  have C: "mset (filter (\<lambda>d. d \<noteq> deposit_default) (concat ?groups)) + mset (filter (\<lambda>d. d \<noteq> deposit_default) (concat ?left)) =
      mset (filter (\<lambda>d. d \<noteq> deposit_default) ds)"
  proof -
    have "mset (concat ?groups) + mset (concat ?left) = mset (concat (group_deposits [] (sort_by_fee ddf_fee ds)))"
      using arg_cong [OF G, of "\<lambda>M. \<Sum>\<^sub># (image_mset mset M)"] by (simp only: mset_concat sum_mset_sum_list [symmetric] mset_map image_mset_union sum_mset.union)
    then have "mset (filter (\<lambda>d. d \<noteq> deposit_default) (concat ?groups)) + mset (filter (\<lambda>d. d \<noteq> deposit_default) (concat ?left)) =
        mset (filter (\<lambda>d. d \<noteq> deposit_default) (concat (group_deposits [] (sort_by_fee ddf_fee ds))))"
      by (simp only: mset_filter filter_union_mset [symmetric])
    then show ?thesis unfolding group_deposits_content by (simp add: sort_by_fee_def mset_filter)
  qed
  have L: "\<forall>g\<in>set ?left. (\<forall>t\<in>set ?txs. sum_list (map ddf_fee g) \<le> ct_fee (cwm_client_transaction t)) \<and>
      (\<forall>g'\<in>set ?groups. sum_list (map ddf_fee g) \<le> sum_list (map ddf_fee g'))"
  proof
    fix g assume "g \<in> set ?left"
    then obtain x where x: "x \<in> set rest" "?D x = Some g" using member [of g ?D rest] by auto
    have fx: "?fee x = sum_list (map ddf_fee g)" by (rule kind) (use x in simp_all)
    show "(\<forall>t\<in>set ?txs. sum_list (map ddf_fee g) \<le> ct_fee (cwm_client_transaction t)) \<and>
      (\<forall>g'\<in>set ?groups. sum_list (map ddf_fee g) \<le> sum_list (map ddf_fee g'))"
      by (rule below [OF x(1), unfolded fx])
  qed
  have W: "(\<forall>t'\<in>set ?txs. ct_fee (cwm_client_transaction t) \<le> ct_fee (cwm_client_transaction t')) \<and>
      (\<forall>g\<in>set ?groups. ct_fee (cwm_client_transaction t) \<le> sum_list (map ddf_fee g))" if t: "t \<in># mset ts - mset ?txs" for t
  proof -
    have "mset ts - mset ?txs = mset ?waiting" unfolding T [symmetric] by simp
    then have "t \<in> set ?waiting" using t by simp
    then obtain x where x: "x \<in> set rest" "?T x = Some t" using member [of t ?T rest] by auto
    have fx: "?fee x = ct_fee (cwm_client_transaction t)" by (rule kind') (use x in simp_all)
    show ?thesis by (rule below [OF x(1), unfolded fx])
  qed
  have W': "\<forall>t. t \<in># mset ts - mset ?txs \<longrightarrow>
      (\<forall>t'\<in>set ?txs. ct_fee (cwm_client_transaction t) \<le> ct_fee (cwm_client_transaction t')) \<and>
      (\<forall>g\<in>set ?groups. ct_fee (cwm_client_transaction t) \<le> sum_list (map ddf_fee g))"
    using W by blast
  have D: "(\<forall>d\<in>set ds. 4 * fr_val (ddf_fee d) < fr_modulus) \<longrightarrow>
      (\<forall>d e. d \<in># mset ds - mset (concat ?groups) \<and> e \<in> set (concat ?groups) \<longrightarrow> ddf_fee d \<le> ddf_fee e)"
    using left_out_deposit [OF choice] by blast
  have four: "\<forall>g\<in>set ?groups. length g = 4" using choice_four [OF choice] by blast
  show ?thesis
    unfolding choice prod.case
    by (rule conjI [OF choice_length [OF choice] conjI [OF four conjI [OF choice_transactions [OF choice] conjI [OF W' conjI [OF _ D]]]]])
      (rule exI [of _ ?left], rule conjI [OF G conjI [OF C L]])
qed

section \<open>What the preparation does to the mempool\<close>

definition drop_deposits :: "DepositDatawithFee list \<Rightarrow> DepositDatawithFee list \<Rightarrow> DepositDatawithFee list" where
  "drop_deposits used ds = filter (\<lambda>d. \<not> (\<exists>e\<in>set used. same_deposit d e)) ds"

definition leave_mempool ::
    "'p ClientTransactionWithMetaData list \<Rightarrow> 'p ClientTransactionWithMetaData list \<Rightarrow> 'p ClientTransactionWithMetaData list" where
  "leave_mempool txs ts = update_many (\<lambda>t. cwm_hash t \<in> cwm_hash ` set txs) (\<lambda>t. t\<lparr>cwm_in_mempool := False\<rparr>) ts"

definition on_chain_commitments :: "('p, 'z) proposer_db_scheme \<Rightarrow> string list" where
  "on_chain_commitments w = concat (map sb_commitments (proposed_blocks w))"

definition deposit_pending :: "('p, 'e, 'y) proposer_env_scheme \<Rightarrow> string list \<Rightarrow> DepositDatawithFee \<Rightarrow> bool" where
  "deposit_pending env on_chain d \<longleftrightarrow>
     (case deposit_commitment (pe_poseidon env) d of None \<Rightarrow> False | Some c \<Rightarrow> proposer_hex env c \<notin> set on_chain)"

definition pending_deposits_of :: "('p, 'e, 'y) proposer_env_scheme \<Rightarrow> ('p, 'z) proposer_db_scheme \<Rightarrow> DepositDatawithFee list" where
  "pending_deposits_of env w = filter (deposit_pending env (on_chain_commitments w)) (deposits w)"

definition stale_deposits_of :: "('p, 'e, 'y) proposer_env_scheme \<Rightarrow> ('p, 'z) proposer_db_scheme \<Rightarrow> DepositDatawithFee list" where
  "stale_deposits_of env w = filter (\<lambda>d. \<not> deposit_pending env (on_chain_commitments w) d) (deposits w)"

definition pending_transactions_of ::
    "('p, 'e, 'y) proposer_env_scheme \<Rightarrow> ('p, 'z) proposer_db_scheme \<Rightarrow> 'p ClientTransactionWithMetaData list" where
  "pending_transactions_of env w =
     filter (tx_pending env (on_chain_commitments w)) (filter cwm_in_mempool (client_transactions w))"

definition stale_transactions_of ::
    "('p, 'e, 'y) proposer_env_scheme \<Rightarrow> ('p, 'z) proposer_db_scheme \<Rightarrow> 'p ClientTransactionWithMetaData list" where
  "stale_transactions_of env w =
     filter (\<lambda>t. \<not> tx_pending env (on_chain_commitments w) t) (filter cwm_in_mempool (client_transactions w))"

definition without :: "DepositDatawithFee list \<Rightarrow> 'p ClientTransactionWithMetaData list \<Rightarrow> ('p, 'z) proposer_db_scheme \<Rightarrow> ('p, 'z) proposer_db_scheme" where
  "without ds ts w = w\<lparr>deposits := drop_deposits ds (deposits w), client_transactions := leave_mempool ts (client_transactions w)\<rparr>"

lemma drop_no_deposits [simp]: "drop_deposits [] ds = ds"
  by (simp add: drop_deposits_def)

lemma update_many_none: "(\<And>x. x \<in> set xs \<Longrightarrow> \<not> P x) \<Longrightarrow> update_many P f xs = xs"
  by (simp add: update_many_def map_idI)

lemma leave_none [simp]: "leave_mempool [] ts = ts"
  by (simp add: leave_mempool_def update_many_none)

lemma without_simps [simp]:
  "faults (without ds ts w) = faults w" "proposed_blocks (without ds ts w) = proposed_blocks w"
  "deposits (without ds ts w) = drop_deposits ds (deposits w)"
  "client_transactions (without ds ts w) = leave_mempool ts (client_transactions w)"
  by (simp_all add: without_def)

lemma remove_mempool_deposits_run:
  "faults w = [] \<Longrightarrow>
   remove_mempool_deposits gs w =
     (Inr (Some (length (filter (\<lambda>d. \<exists>e\<in>set (concat gs). same_deposit d e) (deposits w)))), w\<lparr>deposits := drop_deposits (concat gs) (deposits w)\<rparr>)"
  by (cases "concat gs = []")
    (simp_all only: remove_mempool_deposits_def Let_def drop_deposits_def returnM_def tryM_def db_call_ok if_True if_False list.set(1)
      bex_empty not_False_eq_True filter_True filter_False list.size(3) fst_conv snd_conv prod.case sum.case, simp_all add: returnM_def)

lemma set_in_mempool_run:
  "faults w = [] \<Longrightarrow> \<exists>n. set_in_mempool ts False w = (Inr (Some n), w\<lparr>client_transactions := leave_mempool ts (client_transactions w)\<rparr>)"
  by (auto simp: set_in_mempool_def Let_def bindM_def expectM_def map_errM_def db_call_ok returnM_def leave_mempool_def)

lemma read_transactions_run:
  "faults w = [] \<Longrightarrow> read_transactions P w =
     (Inr (if filter P (client_transactions w) = [] then None
           else Some (map (\<lambda>t. (cwm_hash t, t)) (filter P (client_transactions w)))), w)"
  by (simp add: read_transactions_def bindM_def expect_read_ok bindO_def try_read_ok returnM_def)

lemma get_mempool_deposits_run:
  "faults w = [] \<Longrightarrow> get_mempool_deposits w = (Inr (if deposits w = [] then None else Some (deposits w)), w)"
  by (simp add: get_mempool_deposits_def bindM_def bindO_def try_read_ok returnM_def)

lemma map_fst_filter_marked:
  "map fst (filter snd (map (\<lambda>d. (d, P d)) ds)) = filter P ds"
  "map fst (filter (\<lambda>p. \<not> snd p) (map (\<lambda>d. (d, P d)) ds)) = filter (\<lambda>d. \<not> P d) ds"
  by (induction ds) simp_all

lemma prepare_block_data_run:
  fixes env :: "('p, 'e, 'y) proposer_env_scheme" and w :: "('p, 'z) proposer_db_scheme"
  assumes "faults w = []" "get_block_size b = Inr b" "\<And>d. d \<in> set (deposits w) \<Longrightarrow> deposit_commitment (pe_poseidon env) d \<noteq> None"
  defines "w1 \<equiv> without (stale_deposits_of env w) (stale_transactions_of env w) w"
  shows "prepare_block_data env b w =
    (if pending_deposits_of env w = [] \<and> pending_transactions_of env w = [] then (Inl (Fails InsufficientTransactions), w1)
     else (case choose_transactions b (pending_deposits_of env w) (pending_transactions_of env w) of
             (groups, txs) \<Rightarrow> (Inr (groups, txs), without (concat groups) txs w1)))"
proof -
  let ?oc = "on_chain_commitments w"
  have marked: "mapS (\<lambda>d. okS Panics (map_option (\<lambda>c. (d, proposer_hex env c \<notin> set ?oc)) (deposit_commitment (pe_poseidon env) d))) (deposits w) =
      (Inr (map (\<lambda>d. (d, deposit_pending env ?oc d)) (deposits w)) :: assembly_error failure + _)"
    using assms(3) by (intro mapS_Inr) (force simp: deposit_pending_def)
  have ds: "(case if deposits w = [] then None else Some (deposits w) of None \<Rightarrow> [] | Some ds \<Rightarrow> ds) = deposits w"
    by simp
  have ts: "map snd (transactions_to_include_in_block (if filter cwm_in_mempool (client_transactions w) = [] then None
           else Some (map (\<lambda>t. (cwm_hash t, t)) (filter cwm_in_mempool (client_transactions w))))) = filter cwm_in_mempool (client_transactions w)"
    by (simp add: transactions_to_include_in_block_def o_def)
  have bl: "proposer_get_all_blocks w = ((Inr (Some (proposed_blocks w)) :: assembly_error failure + _), w)"
    using assms(1) by (simp add: proposer_get_all_blocks_def try_read_ok)
  let ?sd = "stale_deposits_of env w" and ?st = "stale_transactions_of env w"
  have s1: "(if ?sd \<noteq> [] then ignoreM (remove_mempool_deposits [?sd] :: ('p, 'z, unit, _) proposerM) else returnM ()) w =
      ((Inr () :: assembly_error failure + unit), w\<lparr>deposits := drop_deposits ?sd (deposits w)\<rparr>)"
    using assms(1) by (simp add: ignoreM_def remove_mempool_deposits_run returnM_def)
  have s2: "(if ?st \<noteq> [] then bindM (set_in_mempool ?st False) (\<lambda>_. returnM ()) else returnM ()) (w\<lparr>deposits := drop_deposits ?sd (deposits w)\<rparr>) =
      ((Inr () :: assembly_error failure + unit), w1)"
  proof -
    let ?v = "w\<lparr>deposits := drop_deposits ?sd (deposits w)\<rparr>"
    obtain n where "set_in_mempool ?st False ?v = ((Inr (Some n) :: assembly_error failure + _), ?v\<lparr>client_transactions := leave_mempool ?st (client_transactions ?v)\<rparr>)"
      using set_in_mempool_run [of ?v ?st] assms(1) by auto
    then show ?thesis by (simp add: bindM_def returnM_def w1_def without_def)
  qed
  have f1: "faults w1 = []" using assms(1) by (simp add: w1_def)
  have last: "bindM (remove_mempool_deposits gs) (\<lambda>_. bindM (set_in_mempool txs False) (\<lambda>_. returnM (gs, txs))) w1 =
      ((Inr (gs, txs) :: assembly_error failure + _), without (concat gs) txs w1)" for gs txs
  proof -
    let ?v = "w1\<lparr>deposits := drop_deposits (concat gs) (deposits w1)\<rparr>"
    obtain n where "set_in_mempool txs False ?v = ((Inr (Some n) :: assembly_error failure + _), ?v\<lparr>client_transactions := leave_mempool txs (client_transactions ?v)\<rparr>)"
      using set_in_mempool_run [of ?v txs] f1 by auto
    then show ?thesis using f1 by (simp add: bindM_def remove_mempool_deposits_run returnM_def without_def)
  qed
  show ?thesis
    unfolding prepare_block_data_def Let_def assms(2) bindM_liftM_Inr get_all_mempool_client_transactions_def
    apply (subst bindM_def, simp only: get_mempool_deposits_run [OF assms(1)] prod.case sum.case ds)
    apply (subst bindM_def, simp only: read_transactions_run [OF assms(1)] prod.case sum.case ts)
    apply (subst bindM_def, simp only: bl prod.case sum.case option.case on_chain_commitments_def [symmetric])
    apply (simp only: marked bindM_liftM_Inr map_fst_filter_marked pending_deposits_of_def [symmetric] stale_deposits_of_def [symmetric]
        pending_transactions_of_def [symmetric] stale_transactions_of_def [symmetric])
    apply (subst bindM_def, simp only: s1 prod.case sum.case)
    apply (subst bindM_def, simp only: s2 prod.case sum.case)
    apply (simp add: throwM_def last split: prod.split)
    done
qed


section \<open>Properties of the assembly\<close>

text \<open>C23. The preparation of a block, with a database that does not fail: what is on the chain already (its commitments are in a
  stored block) leaves the mempool; when nothing else is there the answer is an error; otherwise the chosen groups
  and client transactions are returned and have left the mempool too. A single pending transaction is enough.\<close>

theorem block_data_prepared:
  fixes env :: "('p, 'e, 'y) proposer_env_scheme" and w :: "('p, 'z) proposer_db_scheme"
  assumes "faults w = []" "b = 64 \<or> b = 256 \<or> b = 1024"
    "\<And>d. d \<in> set (deposits w) \<Longrightarrow> deposit_commitment (pe_poseidon env) d \<noteq> None"
  shows "prepare_block_data env b w =
    (let w1 = without (stale_deposits_of env w) (stale_transactions_of env w) w in
     if pending_deposits_of env w = [] \<and> pending_transactions_of env w = [] then (Inl (Fails InsufficientTransactions), w1)
     else (case choose_transactions b (pending_deposits_of env w) (pending_transactions_of env w) of
             (groups, txs) \<Rightarrow> (Inr (groups, txs), without (concat groups) txs w1)))"
proof -
  have "get_block_size b = Inr b" using assms(2) by (simp add: get_block_size_def)
  then show ?thesis using prepare_block_data_run [of w b env] assms(1,3) by (simp add: Let_def)
qed

lemma deposit_proof_fails:
  "pv_deposit_proof engine = (\<lambda>_. Inl e) \<Longrightarrow> length g = 4 \<Longrightarrow>
   deposit_proof engine g = Inl (Fails (ProvingError (''Proving Error: '' @ e)))"
  by (simp add: deposit_proof_def)

lemma make_block_fails:
  assumes "pv_deposit_proof engine = (\<lambda>_. Inl e)" "\<And>g. g \<in> set gs \<Longrightarrow> length g = 4" "length txs < b" "get_block_size b = Inr b"
  shows "make_block engine b gs txs w = (Inl (Fails (ProvingError (''Proving Error: '' @ e))), w)"
proof (cases gs)
  case Nil
  have "deposit_proof engine (replicate 4 deposit_data_default) = Inl (Fails (ProvingError (''Proving Error: '' @ e)))"
    by (rule deposit_proof_fails [OF assms(1)]) simp
  then show ?thesis using Nil assms(3,4) by (simp add: make_block_def throwM_def)
next
  case (Cons g gs')
  then show ?thesis using assms(2) by (simp add: make_block_def deposit_proof_fails [OF assms(1)] throwM_def)
qed

lemma same_deposit_refl [simp]: "same_deposit d d"
  by (simp add: same_deposit_def)

text \<open>The chosen deposits and transactions are taken out of the mempool before the block is proven, and nothing puts
  them back: when the proof of a group of deposits fails, the answer is that error, no chosen deposit is left in the
  database, and no chosen transaction is in the mempool any more.\<close>

theorem failed_block_loses_transactions:
  fixes env :: "('p, 'e, 'y) proposer_env_scheme" and w :: "('p, 'z) proposer_db_scheme"
  assumes "faults w = []" "b = 64 \<or> b = 256 \<or> b = 1024"
    "\<And>d. d \<in> set (deposits w) \<Longrightarrow> deposit_commitment (pe_poseidon env) d \<noteq> None"
    "pending_deposits_of env w \<noteq> [] \<or> pending_transactions_of env w \<noteq> []" "length (pending_transactions_of env w) < b"
    "pv_deposit_proof engine = (\<lambda>_. Inl e)"
    "choose_transactions b (pending_deposits_of env w) (pending_transactions_of env w) = (groups, txs)"
  shows "\<exists>w'. assemble_block env engine b w = (Inl (Fails (ProvingError (''Proving Error: '' @ e))), w') \<and>
    (\<forall>d\<in>set (concat groups). d \<notin> set (deposits w')) \<and>
    (\<forall>t\<in>set (client_transactions w'). cwm_hash t \<in> cwm_hash ` set txs \<longrightarrow> \<not> cwm_in_mempool t)"
proof -
  let ?w = "without (concat groups) txs (without (stale_deposits_of env w) (stale_transactions_of env w) w)"
  have b: "get_block_size b = Inr b" using assms(2) by (simp add: get_block_size_def)
  have prep: "prepare_block_data env b w = (Inr (groups, txs), ?w)"
    using prepare_block_data_run [of w b env, OF assms(1) b assms(3)] assms(4,7) by auto
  have "length txs \<le> length (pending_transactions_of env w)" using choice_transactions [OF assms(7)] size_mset_mono by fastforce
  then have "make_block engine b (map (map ddf_deposit_data) groups) txs ?w = (Inl (Fails (ProvingError (''Proving Error: '' @ e))), ?w)"
    using assms(5) choice_four [OF assms(7)] by (intro make_block_fails [OF assms(6) _ _ b]) auto
  then have "assemble_block env engine b w = (Inl (Fails (ProvingError (''Proving Error: '' @ e))), ?w)"
    by (simp add: assemble_block_def bindM_def prep)
  moreover have "d \<notin> set (deposits ?w)" if "d \<in> set (concat groups)" for d
    proof -
    have "\<exists>x\<in>set (concat groups). same_deposit d x" using that same_deposit_refl by blast
    then show ?thesis by (simp only: without_simps drop_deposits_def set_filter mem_Collect_eq) blast
  qed
  moreover have "\<not> cwm_in_mempool t" if "t \<in> set (client_transactions ?w)" "cwm_hash t \<in> cwm_hash ` set txs" for t
    using that by (auto simp: leave_mempool_def update_many_def)
  ultimately show ?thesis by blast
qed

lemma prepared_choice:
  assumes "prepare_block_data env b w = (Inr (groups, txs), w')"
  shows "get_block_size b = Inr b \<and> length groups + length txs \<le> b"
proof -
  have size: "b' = b" if "get_block_size b = Inr b'" for b' using that by (simp add: get_block_size_def split: if_splits)
  from assms obtain b' ds ts where c: "get_block_size b = Inr b'" "choose_transactions b' ds ts = (groups, txs)"
    by (fastforce simp: prepare_block_data_def bindM_eq_Inr liftM_def Let_def throwM_def returnM_def split: if_splits prod.splits)
  then show ?thesis using choice_length [OF c(2)] size [OF c(1)] by auto
qed

lemma mapS_length: "mapS f xs = Inr ys \<Longrightarrow> length ys = length xs"
  by (induction xs arbitrary: ys) (auto simp: bindS_def split: sum.splits)

lemma made_block_size:
  assumes "make_block engine b gs txs w = (Inr block, w')" "length gs + length txs \<le> b"
  shows "length (pb_transactions block) = b"
proof -
  from assms(1) obtain ps b' where p: "mapS (deposit_proof engine) gs = Inr ps" "get_block_size b = Inr b'"
      "bindM (if length ps + length txs < b'
             then bindM (liftM (deposit_proof engine (replicate 4 deposit_data_default))) (\<lambda>filler.
                  returnM (ps @ replicate (b' - (length ps + length txs)) filler))
             else returnM ps) (\<lambda>proofs. prove_block engine proofs txs) w = (Inr block, w')"
    by (auto simp: make_block_def bindM_eq_Inr liftM_def Let_def)
  have b: "b' = b" using p(2) by (simp add: get_block_size_def split: if_splits)
  have l: "length ps = length gs" by (rule mapS_length [OF p(1)])
  obtain proofs where "length proofs + length txs = b" "prove_block engine proofs txs w = (Inr block, w')"
  proof (cases "length ps + length txs < b'")
    case True
    with p(3) obtain filler where "prove_block engine (ps @ replicate (b' - (length ps + length txs)) filler) txs w = (Inr block, w')"
      by (auto simp: bindM_eq_Inr liftM_def returnM_def)
    then show ?thesis using True b by (intro that) auto
  next
    case False
    then show ?thesis using p(3) b l assms(2) by (intro that [of ps]) auto
  qed
  then show ?thesis
    by (auto simp: prove_block_def bindM_eq_Inr liftM_def returnM_def split: prod.splits)
qed

text \<open>C15. A block that is assembled has as many transactions as the setting says, whatever calls of the database fail and
  whatever the prover does to the database, and the setting is one of the three allowed sizes; the block is stored
  last, with the number of blocks stored before it as its number and its commitments in the order of its transactions.\<close>

theorem assembled_block_size:
  assumes "assemble_block env engine b w = (Inr block, w')"
  shows "length (pb_transactions block) = b \<and> b \<in> {64, 256, 1024} \<and>
    (\<exists>bs. proposed_blocks w' = bs @ [\<lparr>sb_layer2_block_number = length bs,
       sb_commitments = concat (map (\<lambda>t. map (proposer_hex env) (oct_commitments t)) (pb_transactions block)),
       sb_proposer_address = pe_address env\<rparr>])"
proof -
  from assms obtain groups txs w1 w2 n w3 where a: "prepare_block_data env b w = (Inr (groups, txs), w1)"
    "make_block engine b (map (map ddf_deposit_data) groups) txs w1 = (Inr block, w2)"
    "expectM (db_read () (\<lambda>w. length (proposed_blocks w))) w2 = ((Inr n :: assembly_error failure + nat), w3)"
    "expectM (db_write () (\<lambda>w. w\<lparr>proposed_blocks := proposed_blocks w @ [\<lparr>sb_layer2_block_number = n,
       sb_commitments = concat (map (\<lambda>t. map (proposer_hex env) (oct_commitments t)) (pb_transactions block)),
       sb_proposer_address = pe_address env\<rparr>]\<rparr>)) w3 = ((Inr () :: assembly_error failure + unit), w')"
    by (auto simp: assemble_block_def bindM_eq_Inr returnM_def Let_def)
  have s: "get_block_size b = Inr b" "length groups + length txs \<le> b" using prepared_choice [OF a(1)] by auto
  have "length (pb_transactions block) = b" using made_block_size [OF a(2)] s(2) by simp
  moreover have "b \<in> {64, 256, 1024}" using s(1) by (simp add: get_block_size_def split: if_splits)
  moreover have "n = length (proposed_blocks w3)"
    using a(3) by (auto simp: expectM_def map_errM_def db_read_def db_call_def split: list.splits if_splits)
  moreover have "proposed_blocks w' = proposed_blocks w3 @ [\<lparr>sb_layer2_block_number = n,
       sb_commitments = concat (map (\<lambda>t. map (proposer_hex env) (oct_commitments t)) (pb_transactions block)),
       sb_proposer_address = pe_address env\<rparr>]"
    using a(4) by (auto simp: expectM_def map_errM_def db_write_def db_call_def split: list.splits if_splits)
  ultimately show ?thesis by auto
qed


section \<open>Witnesses\<close>

definition engine_ok :: "(unit, unit, unit) proving_engine" where
  "engine_ok = \<lparr>pv_deposit_proof = (\<lambda>_. Inr ((), public_inputs_from_tx (spend_tx_ex 0))),
     pv_prepare = (\<lambda>_ _. returnM ((), 0, 0, 0)), pv_recursive = (\<lambda>_. Inr [])\<rparr>"

definition engine_broken :: "(unit, unit, unit) proving_engine" where
  "engine_broken = engine_ok\<lparr>pv_deposit_proof := (\<lambda>_. Inl ''no proof'')\<rparr>"

definition tx1_ex :: "unit ClientTransactionWithMetaData" where
  "tx1_ex = mempool_entry [1] (spend_tx_ex 1)"

definition mempool_ex :: "unit proposer_db" where
  "mempool_ex = proposer_ex\<lparr>client_transactions := [tx1_ex]\<rparr>"

lemma mempool_ex_simps:
  "faults mempool_ex = []" "deposits mempool_ex = []" "pending_deposits_of proposer_env_ex mempool_ex = []"
  "stale_deposits_of proposer_env_ex mempool_ex = []"
  "pending_transactions_of proposer_env_ex mempool_ex = [tx1_ex]"
  "stale_transactions_of proposer_env_ex mempool_ex = []"
  by (simp_all add: mempool_ex_def proposer_ex_def pending_deposits_of_def stale_deposits_of_def pending_transactions_of_def tx1_ex_def
      stale_transactions_of_def mempool_entry_def spend_tx_ex_def tx_pending_def on_chain_commitments_def)

lemma mempool_ex_choice: "choose_transactions 64 [] [tx1_ex] = ([], [tx1_ex])"
  by (simp add: choose_transactions_def candidates_def sort_by_fee_def List.map_filter_def)

definition deposit_with_fee_ex :: "nat \<Rightarrow> DepositDatawithFee" where
  "deposit_with_fee_ex k = \<lparr>ddf_fee = fr k, ddf_deposit_data = deposit_data_default\<rparr>"

theorem block_choice_witness:
  "case choose_transactions 1 (map deposit_with_fee_ex [1, 7, 3, 2, 5]) ([] :: unit ClientTransactionWithMetaData list) of (groups, txs) \<Rightarrow>
    length groups + length txs = 1 \<and>
    (\<forall>d e. d \<in># mset (map deposit_with_fee_ex [1, 7, 3, 2, 5]) - mset (concat groups) \<and> e \<in> set (concat groups) \<longrightarrow> ddf_fee d \<le> ddf_fee e)"
proof -
  have "\<forall>d\<in>set (map deposit_with_fee_ex [1, 7, 3, 2, 5]). 4 * fr_val (ddf_fee d) < fr_modulus"
    by (simp add: deposit_with_fee_ex_def fr_modulus_def)
  then show ?thesis
    using block_choice [of 1 "map deposit_with_fee_ex [1, 7, 3, 2, 5]" "[] :: unit ClientTransactionWithMetaData list"]
    by (auto split: prod.splits simp del: list.map)
qed
theorem block_data_prepared_witness:
  "fst (prepare_block_data proposer_env_ex 64 mempool_ex) = Inr ([], [tx1_ex])"
  by (subst block_data_prepared) (simp_all add: mempool_ex_simps mempool_ex_choice Let_def)

theorem failed_block_loses_transactions_witness:
  "fst (assemble_block proposer_env_ex engine_broken 64 mempool_ex) = Inl (Fails (ProvingError ''Proving Error: no proof'')) \<and>
   filter (\<lambda>t. cwm_hash t = [1] \<and> cwm_in_mempool t)
     (client_transactions (snd (assemble_block proposer_env_ex engine_broken 64 mempool_ex))) = []"
proof -
  have ch: "choose_transactions 64 (pending_deposits_of proposer_env_ex mempool_ex) (pending_transactions_of proposer_env_ex mempool_ex) =
      ([], [tx1_ex])"
    by (simp add: mempool_ex_simps mempool_ex_choice)
  have "\<exists>w'. assemble_block proposer_env_ex engine_broken 64 mempool_ex = (Inl (Fails (ProvingError (''Proving Error: '' @ ''no proof''))), w') \<and>
    (\<forall>d\<in>set (concat []). d \<notin> set (deposits w')) \<and>
    (\<forall>t\<in>set (client_transactions w'). cwm_hash t \<in> cwm_hash ` set [tx1_ex] \<longrightarrow> \<not> cwm_in_mempool t)"
    by (rule failed_block_loses_transactions [OF _ _ _ _ _ _ ch]) (simp_all add: mempool_ex_simps engine_broken_def)
  then show ?thesis by (auto simp: tx1_ex_def mempool_entry_def filter_empty_conv)
qed

theorem assembled_block_size_witness:
  "\<exists>block. fst (assemble_block proposer_env_ex engine_ok 64 mempool_ex) = Inr block \<and> length (pb_transactions block) = 64"
proof -
  have prep: "prepare_block_data proposer_env_ex 64 mempool_ex =
      (Inr ([], [tx1_ex]), without [] [tx1_ex] mempool_ex)"
    by (subst prepare_block_data_run) (simp_all add: mempool_ex_simps mempool_ex_choice get_block_size_def without_def)
  let ?w = "without [] [tx1_ex] mempool_ex"
  have "\<exists>block. make_block engine_ok 64 [] [tx1_ex] ?w = ((Inr block :: assembly_error failure + _), ?w)"
    by (simp add: make_block_def get_block_size_def deposit_proof_def engine_ok_def prove_block_def)
      (simp add: returnM_def)
  then obtain block where m: "make_block engine_ok 64 [] [tx1_ex] ?w = ((Inr block :: assembly_error failure + _), ?w)"
    by blast
  have "\<exists>w'. assemble_block proposer_env_ex engine_ok 64 mempool_ex = (Inr block, w')"
    by (simp add: assemble_block_def bindM_def prep m returnM_def expectM_def map_errM_def db_write_def db_read_def
        db_call_ok mempool_ex_simps Let_def)
  then obtain w' where w': "assemble_block proposer_env_ex engine_ok 64 mempool_ex = (Inr block, w')" by blast
  then show ?thesis using assembled_block_size [OF w'] by auto
qed

end
