(* ===== verification/Proposer_Events.thy ===== *)
theory Proposer_Events
  imports Block_Selection
begin

text \<open>
  The block events of the proposer: \<open>driven/nightfall_event.rs\<close> applies a block that was proposed to the three trees, and
  \<open>drivers/blockchain/nightfall_event_listener.rs\<close> reads the stream of events and restarts after a gap. As for the client,
  what the chain answers is part of each event, the streams of the subscriptions are part of the state, and the
  block numbers (\<open>I256\<close>) are integers.
\<close>

section \<open>Events and state\<close>

datatype proposer_call = ProposesBlock Block | EscrowsFunds escrow_call | AnotherCall

datatype proposer_event =
    BlockProposedEvent int | DepositEscrowedEvent deposit_escrowed | InitializedEvent | UpgradedEvent | AuthoritiesUpdatedEvent
  | OwnershipTransferredEvent

text \<open>The answers of the chain to the two queries for the transaction (an error, no transaction, a call that cannot be
  decoded or the call; and its signer) and to the query for the current layer 2 block number.\<close>

record proposer_answers =
  pa_transaction :: "unit + (unit + proposer_call) option"
  pa_signer :: "unit + 160 word option"
  pa_current_block :: "unit + int"

record proposer_log =
  pl_event :: "proposer_event option"
  pl_transaction_hash :: "string option"
  pl_chain :: proposer_answers

text \<open>\<open>next_number\<close> is the value behind \<open>get_expected_layer2_blocknumber\<close>, \<open>sync_status\<close> the one behind
  \<open>get_synchronisation_status\<close>.\<close>

record 'p proposer_state = "'p proposer_db" +
  next_number :: int
  sync_status :: SynchronisationStatus
  subscriptions :: "(unit + proposer_log list) list"

type_synonym ('p, 'z, 'a) proposer_eventM = "(('p, 'z) proposer_state_scheme, event_error failure, 'a) dbm"

definition readM :: "('s \<Rightarrow> 'a) \<Rightarrow> ('s, 'e, 'a) dbm" where
  "readM f w = (Inr (f w), w)"

definition set_sync :: "(SynchronisationStatus \<Rightarrow> SynchronisationStatus) \<Rightarrow> ('p, 'z, unit) proposer_eventM" where
  "set_sync f w = (Inr (), w\<lparr>sync_status := f (sync_status w)\<rparr>)"

definition advance :: "('p, 'z, unit) proposer_eventM" where
  "advance w = (Inr (), w\<lparr>next_number := next_number w + 1\<rparr>)"

section \<open>A proposed block\<close>

definition proposer_stored_block :: "('p, 'e, 'y) proposer_env_scheme \<Rightarrow> nat \<Rightarrow> 160 word \<Rightarrow> Block \<Rightarrow> StoredBlock option" where
  "proposer_stored_block env number sender blk =
     map_option (\<lambda>txs. \<lparr>sb_layer2_block_number = number,
         sb_commitments = concat (map (\<lambda>tx. map (proposer_hex env) (oct_commitments tx)) txs), sb_proposer_address = sender\<rparr>)
       (those (map on_chain_transaction_from (blk_transactions blk)))"

text \<open>The comparison with the block that is stored under the expected number.\<close>

definition compare_with_stored :: "('p, 'e, 'y) proposer_env_scheme \<Rightarrow> nat \<Rightarrow> StoredBlock \<Rightarrow> ('p, 'z, unit) proposer_eventM" where
  "compare_with_stored env expected_block_number pending =
     bindM (proposer_get_block expected_block_number) (\<lambda>current_block_stored.
     case current_block_stored of
       None \<Rightarrow> returnM ()
     | Some current_block \<Rightarrow>
         (let stored_hash = stored_block_hash (pe_sha256 env) current_block;
              pending_hash = stored_block_hash (pe_sha256 env) pending in
          if expected_block_number = sb_layer2_block_number pending \<and> stored_hash \<noteq> pending_hash
          then bindM (proposer_delete_block expected_block_number) (\<lambda>_.
               bindM (set_sync clear_synchronised) (\<lambda>_.
               throwM (Fails (BlockHashError stored_hash pending_hash))))
          else returnM ()))"

text \<open>The commitments and nullifiers of the block go into the trees.\<close>

definition update_trees :: "('p, 'e, 'y) proposer_env_scheme \<Rightarrow> Block \<Rightarrow> ('p, 'z, unit) proposer_eventM" where
  "update_trees env blk =
     bindM (okM Panics (those (map expect_frbn (concat (map ctx_commitments (blk_transactions blk)))))) (\<lambda>cs.
     bindM (map_errM (as_io ''Could not store commitments'') (commitments_append (pe_tree_hash env) cs True)) (\<lambda>_.
     bindM (okM Panics (those (map expect_frbn (concat (map ctx_nullifiers (blk_transactions blk)))))) (\<lambda>ns.
     bindM (map_errM (as_io ''Could not store nullifiers'') (insert_nullifiers (pe_tree_hash env) (pe_hash env) (pe_ser env) ns)) (\<lambda>_.
     returnM ()))))"

text \<open>What follows the increment of the expected number. The comparison of the historic root with the root of the
  commitment tree is only logged.\<close>

definition apply_proposed_block ::
    "('p, 'e, 'y) proposer_env_scheme \<Rightarrow> unit + int \<Rightarrow> 160 word \<Rightarrow> Block \<Rightarrow> int \<Rightarrow> StoredBlock \<Rightarrow> ('p, 'z, unit) proposer_eventM" where
  "apply_proposed_block env current_block sender_address blk layer_2_block_number_in_event pending =
     bindM (liftM (map_sum (\<lambda>_. io ''Could not retrieve current block number'') id current_block)) (\<lambda>current_block_number_in_contract.
     bindM (if current_block_number_in_contract = 1 then set_sync set_synchronised else returnM ()) (\<lambda>_.
     bindM (map_errM (as_io ''Could not retrieve commitment root'') commitments_get_root) (\<lambda>commitment_root.
     bindM (readM sync_status) (\<lambda>status.
     bindM (if pe_address env \<noteq> sender_address \<or> \<not> is_synchronised status \<or> commitment_root = 0
            then update_trees env blk else returnM ()) (\<lambda>_.
     bindM (fr_ofM (blk_commitments_root blk)) (\<lambda>historic_root.
     bindM (map_errM (as_io ''Could not store historic root'')
              (append_historic_commitment_root (pe_tree_hash env) historic_root True)) (\<lambda>_.
     bindM (map_errM (as_io ''Could not retrieve commitment root'') commitments_get_root) (\<lambda>_.
     bindM (set_sync (if current_block_number_in_contract - layer_2_block_number_in_event - 1 \<noteq> 0
                      then clear_synchronised else set_synchronised)) (\<lambda>_.
     bindM (proposer_store_block pending) (\<lambda>_. returnM ()))))))))))"

definition proposer_block_event ::
    "('p, 'e, 'y) proposer_env_scheme \<Rightarrow> proposer_answers \<Rightarrow> Block \<Rightarrow> int \<Rightarrow> ('p, 'z, unit) proposer_eventM" where
  "proposer_block_event env answers blk layer_2_block_number_in_event =
     bindM (liftM (map_sum (\<lambda>_. io ''Could not retrieve transaction'') id (pa_signer answers))) (\<lambda>tx.
     bindM (okM Panics tx) (\<lambda>sender_address.
     bindM (okM Panics (i256_to_u64 layer_2_block_number_in_event)) (\<lambda>number.
     bindM (okM Panics (proposer_stored_block env number sender_address blk)) (\<lambda>store_block_pending.
     bindM (readM next_number) (\<lambda>expected.
     if expected < layer_2_block_number_in_event then
       bindM (set_sync clear_synchronised) (\<lambda>_.
       bindM (okM Panics (i256_to_u64 expected)) (\<lambda>n. throwM (Fails (MissingBlocks n))))
     else if expected > layer_2_block_number_in_event then returnM ()
     else
       bindM (okM Panics (i256_to_u64 expected)) (\<lambda>expected_block_number.
       bindM (compare_with_stored env expected_block_number store_block_pending) (\<lambda>_.
       bindM advance (\<lambda>_.
       apply_proposed_block env (pa_current_block answers) sender_address blk layer_2_block_number_in_event store_block_pending))))))))"

definition proposer_calldata ::
    "('p, 'e, 'y) proposer_env_scheme \<Rightarrow> proposer_answers \<Rightarrow> int \<Rightarrow> ('p, 'z, unit) proposer_eventM" where
  "proposer_calldata env answers block_number =
     bindM (liftM (map_sum (\<lambda>_. io ''Could not retrieve transaction'') id (pa_transaction answers))) (\<lambda>tx.
     bindM (okM Panics tx) (\<lambda>input.
     bindM (liftM (map_sum (\<lambda>_. Fails InvalidCalldata) id input)) (\<lambda>decoded.
     case decoded of
       ProposesBlock blk \<Rightarrow> proposer_block_event env answers blk block_number
     | _ \<Rightarrow> returnM ())))"

text \<open>The call as \<open>process_deposit_escrowed_event\<close> reads it.\<close>

definition escrow_of_call :: "proposer_call \<Rightarrow> escrow_call option" where
  "escrow_of_call c = (case c of EscrowsFunds e \<Rightarrow> Some e | _ \<Rightarrow> None)"

definition proposer_handle_event ::
    "('p, 'e, 'y) proposer_env_scheme \<Rightarrow> proposer_answers \<Rightarrow> proposer_event \<Rightarrow> ('p, 'z, unit) proposer_eventM" where
  "proposer_handle_event env answers event =
     (case event of
        BlockProposedEvent layer2_block_number \<Rightarrow> proposer_calldata env answers layer2_block_number
      | DepositEscrowedEvent filter_event \<Rightarrow>
          map_errM (map_failure (\<lambda>_. InvalidCalldata))
            (process_deposit_escrowed env (map_sum id (map_option (map_sum id escrow_of_call)) (pa_transaction answers)) filter_event)
      | _ \<Rightarrow> returnM ())"

section \<open>The listener\<close>

definition proposer_process_events ::
    "('p, 'e, 'y) proposer_env_scheme \<Rightarrow> proposer_event \<Rightarrow> proposer_log \<Rightarrow> ('p, 'z, unit) proposer_eventM" where
  "proposer_process_events env e log =
     bindM (okM Panics (pl_transaction_hash log)) (\<lambda>_. proposer_handle_event env (pl_chain log) e)"

fun proposer_event_loop ::
    "('p, 'e, 'y) proposer_env_scheme \<Rightarrow> ('p, 'z, unit) proposer_eventM \<Rightarrow> proposer_log list \<Rightarrow> ('p, 'z, unit) proposer_eventM" where
  "proposer_event_loop env restart [] = throwM (Fails StreamTerminated)"
| "proposer_event_loop env restart (log # events_stream) =
     (case pl_event log of
        None \<Rightarrow> proposer_event_loop env restart events_stream
      | Some event \<Rightarrow> (\<lambda>w.
          (case proposer_process_events env event log w of
             (Inr _, w') \<Rightarrow> proposer_event_loop env restart events_stream w'
           | (Inl (Fails (MissingBlocks n)), w') \<Rightarrow> bindM restart (\<lambda>_. throwM (Fails StreamTerminated)) w'
           | (Inl (Fails (BlockHashError expected found)), w') \<Rightarrow> bindM restart (\<lambda>_. throwM (Fails StreamTerminated)) w'
           | (Inl _, w') \<Rightarrow> (Inl Panics, w'))))"

definition proposer_subscribe :: "('p, 'z, proposer_log list) proposer_eventM" where
  "proposer_subscribe w =
     (case subscriptions w of
        [] \<Rightarrow> (Inl (Fails NoEventStream), w)
      | Inl _ # rest \<Rightarrow> (Inl (Fails NoEventStream), w\<lparr>subscriptions := rest\<rparr>)
      | Inr events # rest \<Rightarrow> (Inr events, w\<lparr>subscriptions := rest\<rparr>))"

definition proposer_listen ::
    "('p, 'e, 'y) proposer_env_scheme \<Rightarrow> ('p, 'z, unit) proposer_eventM \<Rightarrow> ('p, 'z, unit) proposer_eventM" where
  "proposer_listen env restart = bindM proposer_subscribe (proposer_event_loop env restart)"

text \<open>The attempts that are left and the pause in seconds before the next; the pauses that were made.\<close>

fun proposer_attempts ::
    "('p, 'e, 'y) proposer_env_scheme \<Rightarrow> ('p, 'z, unit) proposer_eventM \<Rightarrow> nat \<Rightarrow> nat \<Rightarrow> ('p, 'z, nat list) proposer_eventM" where
  "proposer_attempts env restart 0 backoff_delay = returnM []"
| "proposer_attempts env restart (Suc n) backoff_delay = (\<lambda>w.
     (case proposer_listen env restart w of
        (Inr _, w') \<Rightarrow> (Inr [], w')
      | (Inl Panics, w') \<Rightarrow> (Inl Panics, w')
      | (Inl (Fails e), w') \<Rightarrow>
          (if n = 0 then (Inr [], w')
           else if 2 ^ 64 \<le> 2 * backoff_delay then (Inl Panics, w')
           else bindM (proposer_attempts env restart n (2 * backoff_delay)) (\<lambda>ps. returnM (backoff_delay # ps)) w')))"

text \<open>The restart: the trees are reset and the mempool is emptied, whatever the outcome of each (the code drops the
  results, a panic in a reset apart); the expected number stays. \<open>start\<close> is \<open>start_event_listener\<close>.\<close>

definition drop_result :: "('s, merkle_error, 'a) dbm \<Rightarrow> ('s, 'e failure, unit) dbm" where
  "drop_result m w = (case m w of (Inl MerklePanic, w') \<Rightarrow> (Inl Panics, w') | (_, w') \<Rightarrow> (Inr (), w'))"

definition clean_database :: "('p, 'e, 'y) proposer_env_scheme \<Rightarrow> ('p, 'z, unit) proposer_eventM" where
  "clean_database env =
     bindM (drop_result reset_commitments) (\<lambda>_.
     bindM (drop_result reset_historic_roots) (\<lambda>_.
     bindM (drop_result (reset_nullifiers (pe_tree_hash env) (pe_hash env) (pe_ser env))) (\<lambda>_.
     bindM remove_all_mempool_deposits (\<lambda>_.
     bindM remove_all_mempool_client_transactions (\<lambda>_. returnM ())))))"

definition proposer_restart ::
    "('p, 'e, 'y) proposer_env_scheme \<Rightarrow> nat option \<Rightarrow> (nat \<Rightarrow> ('p, 'z, nat list) proposer_eventM) \<Rightarrow> ('p, 'z, unit) proposer_eventM" where
  "proposer_restart env max_event_listener_attempts start =
     bindM (readM sync_status) (\<lambda>status.
     if is_synchronised status then throwM Panics
     else
       bindM (clean_database env) (\<lambda>_.
       bindM (start (case max_event_listener_attempts of None \<Rightarrow> 10 | Some n \<Rightarrow> n)) (\<lambda>_. returnM ())))"

text \<open>The three functions call each other, to the depth \<open>n\<close> of nested restarts.\<close>

fun proposer_listener :: "('p, 'e, 'y) proposer_env_scheme \<Rightarrow> nat option \<Rightarrow> nat \<Rightarrow> nat \<Rightarrow> ('p, 'z, nat list) proposer_eventM" where
  "proposer_listener env attempts 0 max_attempts = throwM Panics"
| "proposer_listener env attempts (Suc n) max_attempts =
     proposer_attempts env (proposer_restart env attempts (proposer_listener env attempts n)) (max 1 max_attempts) 2"

end
