(* ===== verification/Indexed_Batches.thy ===== *)
theory Indexed_Batches
  imports Indexed_Tree
begin

text \<open>
  The proposer that assembles a block inserts its nullifiers with \<open>batch_insert_nullifiers_with_circuit_info\<close>, subtree by
  subtree; every other proposer inserts them at once with \<open>insert_leaves\<close>. Both give the same tree: the values get the
  same indices, and the indices determine the linked list (\<open>chain_unique\<close>) and so the leaves.
\<close>

section \<open>Indices after a batch\<close>

fun add_places :: "(fr254 \<rightharpoonup> nat) \<Rightarrow> fr254 list \<Rightarrow> nat \<Rightarrow> (fr254 \<rightharpoonup> nat)" where
  "add_places p [] i = p"
| "add_places p (v # vs) i = add_places (if v = 0 then p else p(v \<mapsto> i)) vs (i + 1)"

lemma add_places_append: "add_places p (xs @ ys) i = add_places (add_places p xs i) ys (i + length xs)"
  by (induction p xs i rule: add_places.induct) simp_all

lemma add_places_other: "v = 0 \<or> v \<notin> set vs \<Longrightarrow> add_places p vs i v = p v"
  by (induction p vs i rule: add_places.induct) auto

lemma add_places_nth:
  "distinct (filter (\<lambda>v. v \<noteq> 0) vs) \<Longrightarrow> m < length vs \<Longrightarrow> vs ! m \<noteq> 0 \<Longrightarrow> add_places p vs i (vs ! m) = Some (i + m)"
proof (induction p vs i arbitrary: m rule: add_places.induct)
  case (2 p v vs i)
  show ?case
  proof (cases m)
    case 0
    then show ?thesis using 2 by (simp add: add_places_other)
  next
    case (Suc k)
    have "add_places (if v = 0 then p else p(v \<mapsto> i)) vs (i + 1) (vs ! k) = Some (i + 1 + k)"
      by (rule 2(1)) (use 2(2-4) Suc in \<open>auto split: if_splits\<close>)
    then show ?thesis using Suc by simp
  qed
qed simp

lemma stored_places:
  assumes "batch_stored E vs i F" "distinct (filter (\<lambda>v. v \<noteq> 0) vs)" "\<forall>v\<in>set vs. v \<noteq> 0 \<longrightarrow> v \<notin> dom E"
  shows "place_of F = add_places (place_of E) vs i"
proof
  fix v
  show "place_of F v = add_places (place_of E) vs i v"
  proof (cases "v \<noteq> 0 \<and> v \<in> set vs")
    case True
    then obtain m where m: "m < length vs" "v = vs ! m" by (auto simp: in_set_conv_nth)
    then obtain e where "F v = Some e" "entry_id e = i + m"
      using assms(1) True unfolding batch_stored_def by blast
    then show ?thesis using add_places_nth [OF assms(2) m(1)] True m(2) by (simp add: place_of_def)
  next
    case False
    then have p: "add_places (place_of E) vs i v = place_of E v" by (intro add_places_other) blast
    show ?thesis
    proof (cases "E v")
      case None
      then have "v \<notin> dom F" using assms(1) False unfolding batch_stored_def by blast
      then have "F v = None" by (simp only: domIff not_not)
      then show ?thesis using None p by (simp add: place_of_def)
    next
      case (Some e)
      then obtain e' where "F v = Some e'" "entry_id e' = entry_id e" using assms(1) unfolding batch_stored_def by blast
      then show ?thesis using Some p by (simp add: place_of_def)
    qed
  qed
qed

section \<open>The leaves of a tree\<close>

text \<open>The stored list, without the order of the documents.\<close>

definition imt_list :: "'z imt_db_scheme \<Rightarrow> (fr254 \<rightharpoonup> entry)" where
  "imt_list w = leaf_view (indexed_leaves w)"

lemma content_by_view:
  assumes "distinct (map leaf_value K)" "distinct (map leaf_id K)" "distinct (map leaf_value L)" "distinct (map leaf_id L)"
    "leaf_view K = leaf_view L"
  shows "leaf_content hash K = leaf_content hash L"
proof
  fix j
  show "leaf_content hash K j = leaf_content hash L j"
  proof (cases "\<exists>x e. leaf_view L x = Some e \<and> entry_id e = j")
    case True
    then obtain x ni nv where x: "leaf_view L x = Some (j, ni, nv)" by auto
    show ?thesis using content_view [OF assms(1,2)] content_view [OF assms(3,4)] x assms(5) by metis
  next
    case False
    then show ?thesis using content_no_view [OF assms(1)] content_no_view [OF assms(3)] assms(5) by metis
  qed
qed

text \<open>Two trees whose values have the same indices are the same tree.\<close>

lemma imt_determined:
  assumes "imt_inv th hash ser h s c w" "imt_inv th hash ser h s c' w'" "place_of (imt_list w) = place_of (imt_list w')"
  shows "imt_list w = imt_list w'" "leaf_content hash (indexed_leaves w) = leaf_content hash (indexed_leaves w')"
proof -
  note D = imt_invD [OF assms(1)] and D' = imt_invD [OF assms(2)]
  show e: "imt_list w = imt_list w'"
    using chain_unique [OF D(3) D'(3)] assms(3) by (simp add: imt_list_def)
  show "leaf_content hash (indexed_leaves w) = leaf_content hash (indexed_leaves w')"
    by (rule content_by_view [OF D(9,10) D'(9,10)]) (use e in \<open>simp add: imt_list_def\<close>)
qed

lemma insert_leaves_places:
  assumes "th 0 0 = 0" "imt_inv th hash ser h s c w" "batch_ok h s c (imt_values w) vs"
  obtains w' where
    "insert_leaves th hash ser vs w =
      (Inr (if \<forall>v\<in>set vs. v = 0 then 0 else mnode th (leaf_content hash (indexed_leaves w')) (h + s) 0), w')"
    "imt_inv th hash ser h s (c + length vs div 2 ^ s) w'" "imt_values w' = imt_values w \<union> {v \<in> set vs. v \<noteq> 0}"
    "place_of (imt_list w') = add_places (place_of (imt_list w)) vs (c * 2 ^ s)"
proof (rule insert_leaves_stored [OF assms])
  fix w'
  assume a: "insert_leaves th hash ser vs w =
      (Inr (if \<forall>v\<in>set vs. v = 0 then 0 else mnode th (leaf_content hash (indexed_leaves w')) (h + s) 0), w')"
    "imt_inv th hash ser h s (c + length vs div 2 ^ s) w'" "imt_values w' = imt_values w \<union> {v \<in> set vs. v \<noteq> 0}"
    "batch_stored (leaf_view (indexed_leaves w)) vs (c * 2 ^ s) (leaf_view (indexed_leaves w'))"
  show thesis
    by (rule that [OF a(1-3)], unfold imt_list_def, rule stored_places [OF a(4)])
      (use assms(3) in \<open>simp_all add: batch_ok_def imt_values_view\<close>)
qed

section \<open>A batch of subtrees\<close>

lemma circuit_batch_ok:
  assumes "th 0 0 = 0" "imt_inv th hash ser h s c w" "vss \<noteq> []" "\<forall>vs\<in>set vss. length vs = 2 ^ s" "batch_ok h s c (imt_values w) (concat vss)"
  shows "\<exists>infos w'. forM vss (insert_nullifiers_for_circuit th hash ser) w = (Inr infos, w') \<and> length infos = length vss \<and>
    imt_inv th hash ser h s (c + length vss) w' \<and> imt_values w' = imt_values w \<union> {v \<in> set (concat vss). v \<noteq> 0} \<and>
    place_of (imt_list w') = add_places (place_of (imt_list w)) (concat vss) (c * 2 ^ s)"
  using assms(2-5)
proof (induction vss arbitrary: w c)
  case (Cons vs vss)
  have len: "length (concat xss) = length xss * 2 ^ s" if "\<forall>vs\<in>set xss. length vs = 2 ^ s" for xss :: "fr254 list list"
    using that by (induction xss) simp_all
  have vs: "length vs = 2 ^ s" and rest: "length (concat vss) = length vss * 2 ^ s"
    using Cons.prems(3) len [of vss] by simp_all
  have room: "c + (1 + length vss) \<le> 2 ^ h"
    using Cons.prems(4) vs rest by (simp add: batch_ok_def flip: add_mult_distrib)
  have b1: "batch_ok h s c (imt_values w) vs"
    using Cons.prems(4) vs room by (auto simp: batch_ok_def)
  obtain info w1 where w1: "insert_nullifiers_for_circuit th hash ser vs w = (Inr info, w1)"
    "imt_inv th hash ser h s (c + 1) w1" "imt_values w1 = imt_values w \<union> {v \<in> set vs. v \<noteq> 0}"
    "batch_stored (leaf_view (indexed_leaves w)) vs (c * 2 ^ s) (leaf_view (indexed_leaves w1))"
    by (rule insert_nullifiers_stored [OF assms(1) Cons.prems(1) b1 vs]) (rule that)
  have p1: "place_of (imt_list w1) = add_places (place_of (imt_list w)) vs (c * 2 ^ s)"
    unfolding imt_list_def by (rule stored_places [OF w1(4)]) (use b1 in \<open>simp_all add: batch_ok_def imt_values_view\<close>)
  show ?case
  proof (cases "vss = []")
    case True
    then show ?thesis using w1 p1 by (simp add: bindM_def returnM_def)
  next
    case False
    have b2: "batch_ok h s (c + 1) (imt_values w1) (concat vss)"
    proof -
      have "concat vss \<noteq> []" using False Cons.prems(3) by (cases vss) auto
      moreover have "set (filter (\<lambda>v. v \<noteq> 0) vs) \<inter> set (filter (\<lambda>v. v \<noteq> 0) (concat vss)) = {}"
        using Cons.prems(4) by (simp add: batch_ok_def)
      ultimately show ?thesis
        using Cons.prems(4) rest room unfolding w1(3) by (auto simp: batch_ok_def)
    qed
    have l: "\<forall>vs\<in>set vss. length vs = 2 ^ s" using Cons.prems(3) by simp
    obtain infos w' where IH: "forM vss (insert_nullifiers_for_circuit th hash ser) w1 = (Inr infos, w')" "length infos = length vss"
      "imt_inv th hash ser h s (c + 1 + length vss) w'" "imt_values w' = imt_values w1 \<union> {v \<in> set (concat vss). v \<noteq> 0}"
      "place_of (imt_list w') = add_places (place_of (imt_list w1)) (concat vss) ((c + 1) * 2 ^ s)"
      using Cons.IH [OF w1(2) False l b2] by blast
    have "forM (vs # vss) (insert_nullifiers_for_circuit th hash ser) w = (Inr (info # infos), w')"
      by (simp add: bindM_def w1(1) IH(1) returnM_def)
    moreover have "place_of (imt_list w') = add_places (place_of (imt_list w)) (concat (vs # vss)) (c * 2 ^ s)"
      using IH(5) p1 vs by (simp add: add_places_append algebra_simps)
    moreover have "imt_values w' = imt_values w \<union> {v \<in> set (concat (vs # vss)). v \<noteq> 0}"
      unfolding IH(4) w1(3) by auto
    ultimately show ?thesis using IH(2,3) by (intro exI [of _ "info # infos"] exI [of _ w']) simp
  qed
qed simp

lemma batch_circuit_ok:
  assumes "th 0 0 = 0" "imt_inv th hash ser h 3 c w" "batch_ok h 3 c (imt_values w) vs"
  obtains infos w' where "batch_insert_nullifiers_with_circuit_info th hash ser vs w = (Inr infos, w')"
    "length infos = length vs div 8" "imt_inv th hash ser h 3 (c + length vs div 8) w'"
    "imt_values w' = imt_values w \<union> {v \<in> set vs. v \<noteq> 0}"
    "place_of (imt_list w') = add_places (place_of (imt_list w)) vs (c * 8)"
proof -
  have vs: "vs \<noteq> []" "length vs mod 8 = 0" using assms(3) by (simp_all add: batch_ok_def)
  have cs: "chunks 8 vs \<noteq> []" "concat (chunks 8 vs) = vs" "length (chunks 8 vs) = length vs div 8"
    by (subst chunks_Cons, simp_all only: vs concat_chunks length_chunks zero_less_numeral list.distinct not_False_eq_True)
  have l: "\<forall>c\<in>set (chunks 8 vs). length c = 2 ^ 3"
  proof
    fix c
    assume "c \<in> set (chunks 8 vs)"
    then have "length c = 8" using chunks_length_mem [of 8 vs c, OF _ vs(2)] by simp
    then show "length c = 2 ^ 3" by simp
  qed
  obtain infos w' where "forM (chunks 8 vs) (insert_nullifiers_for_circuit th hash ser) w = (Inr infos, w')" "length infos = length (chunks 8 vs)"
    "imt_inv th hash ser h 3 (c + length (chunks 8 vs)) w'" "imt_values w' = imt_values w \<union> {v \<in> set vs. v \<noteq> 0}"
    "place_of (imt_list w') = add_places (place_of (imt_list w)) vs (c * 2 ^ 3)"
    using circuit_batch_ok [OF assms(1,2) cs(1) l] assms(3) unfolding cs(2) by blast
  then show thesis
    using vs(1) cs(3) by (intro that [of infos w']) (simp_all add: batch_insert_nullifiers_with_circuit_info_def)
qed

section \<open>Properties\<close>

text \<open>C32. The two ways of inserting a batch of new nullifiers agree: on trees whose stored lists are the same, inserting it
  subtree by subtree with circuit information and inserting it at once both succeed, and the stored lists, the leaves
  and the roots are the same afterwards; there is one piece of circuit information for each subtree.\<close>

theorem nullifier_batches_agree:
  assumes "th 0 0 = 0" "imt_inv th hash ser h 3 c w" "imt_inv th hash ser h 3 c v" "imt_list w = imt_list v"
    "batch_ok h 3 c (imt_values w) vs"
  shows "\<exists>infos w' r v'. batch_insert_nullifiers_with_circuit_info th hash ser vs w = (Inr infos, w') \<and>
    insert_leaves th hash ser vs v = (Inr r, v') \<and> length infos = length vs div 8 \<and>
    imt_list w' = imt_list v' \<and> get_root w' = ((Inr (root (the (metadata v')))) :: merkle_error + fr254, w') \<and>
    root (the (metadata v')) = mnode th (leaf_content hash (indexed_leaves w')) (h + 3) 0"
proof -
  have vals: "imt_values w = imt_values v" using assms(4) by (simp add: imt_values_view imt_list_def)
  obtain infos w' where w': "batch_insert_nullifiers_with_circuit_info th hash ser vs w = (Inr infos, w')" "length infos = length vs div 8"
    "imt_inv th hash ser h 3 (c + length vs div 8) w'" "place_of (imt_list w') = add_places (place_of (imt_list w)) vs (c * 8)"
    by (rule batch_circuit_ok [OF assms(1,2,5)])
  have b: "batch_ok h 3 c (imt_values v) vs" using assms(5) vals by simp
  obtain v' where v': "insert_leaves th hash ser vs v =
      (Inr (if \<forall>v\<in>set vs. v = 0 then 0 else mnode th (leaf_content hash (indexed_leaves v')) (h + 3) 0), v')"
    "imt_inv th hash ser h 3 (c + length vs div 2 ^ 3) v'" "place_of (imt_list v') = add_places (place_of (imt_list v)) vs (c * 2 ^ 3)"
    by (rule insert_leaves_places [OF assms(1,3) b])
  have "place_of (imt_list w') = place_of (imt_list v')" using w'(4) v'(3) assms(4) by simp
  note same = imt_determined [OF w'(3) v'(2) this]
  note D = imt_invD [OF w'(3)] and D' = imt_invD [OF v'(2)]
  have "get_root w' = (Inr (root (the (metadata v'))) :: merkle_error + fr254, w')"
    by (simp add: get_root_def bindM_def read_metadata_ok [OF D(7)] D(12) D'(12) same(2) returnM_def)
  moreover have "root (the (metadata v')) = mnode th (leaf_content hash (indexed_leaves w')) (h + 3) 0"
    by (simp add: D'(12) same(2))
  ultimately show ?thesis using w'(1,2) v'(1) same(1) by blast
qed

theorem nullifier_batches_agree_witness:
  "\<exists>infos w' r v'. batch_insert_nullifiers_with_circuit_info th_fr hash_fr ser_fr [1, 0, 0, 0, 0, 0, 0, 0] (imt_ex 2 3) = (Inr infos, w') \<and>
    insert_leaves th_fr hash_fr ser_fr [1, 0, 0, 0, 0, 0, 0, 0] (imt_ex 2 3) = (Inr r, v') \<and> imt_list w' = imt_list v'"
proof -
  have "batch_ok 2 3 1 (imt_values (imt_ex 2 3)) [1, 0, 0, 0, 0, 0, 0, 0]"
    by (simp add: batch_ok_def imt_ex_ok(2) fr_one_neq_zero)
  from nullifier_batches_agree [OF th_fr_zero imt_ex_ok(1) imt_ex_ok(1) refl this] show ?thesis by blast
qed

end
