(* ===== verification/Tree_Batches.thy ===== *)
theory Tree_Batches
  imports Mutable_Tree
begin

text \<open>
  Trees of \<open>mutable.rs\<close> in the use that the assembly of a block makes of them: whole batches of subtrees inserted with
  circuit information, and a leaf that is first appended to the cache only (\<open>update_tree = false\<close>, to learn the root it will
  give) and appended for good later. In between the cached nodes shadow the stored ones.
\<close>

section \<open>Batches of subtrees\<close>

text \<open>What the circuit information of the batch says: each piece starts at the root where the one before ended, and its path
  takes the empty subtree to the first root and the inserted leaves to the second.\<close>

definition info_ok ::
    "('f \<Rightarrow> 'f \<Rightarrow> 'f) \<Rightarrow> nat \<Rightarrow> nat \<Rightarrow> nat \<Rightarrow> (nat \<Rightarrow> 'f) \<Rightarrow> 'f list list \<Rightarrow> nat \<Rightarrow> 'f::zero CircuitInsertionInfo \<Rightarrow> bool" where
  "info_ok th h s c f vss i info \<longleftrightarrow>
     old_root info = mnode th (put_leaves f (c * 2 ^ s) (concat (take i vss))) (h + s) 0 \<and>
     new_root info = mnode th (put_leaves f (c * 2 ^ s) (concat (take (Suc i) vss))) (h + s) 0 \<and>
     path_root th 0 (sibling_path (proof_of_emptiness info)) = old_root info \<and>
     path_root th (merkle_root th s (vss ! i)) (sibling_path (proof_of_emptiness info)) = new_root info \<and>
     inserted_leaves info = vss ! i"

lemma put_leaves_beyond: "p + length xs \<le> j \<Longrightarrow> put_leaves f p xs j = f j"
  by (simp add: put_leaves_def)

lemma circuit_batch:
  assumes "th 0 0 = 0"
  shows "store_inv True w \<Longrightarrow> tree_inv th h s c f w \<Longrightarrow> \<forall>vs\<in>set vss. length vs = 2 ^ s \<Longrightarrow> c + length vss \<le> 2 ^ h \<Longrightarrow>
    \<forall>j\<ge>c * 2 ^ s. f j = 0 \<Longrightarrow>
    \<exists>infos w'. forM vss (\<lambda>vs. map_errM (\<lambda>_. MerklePanic) (insert_for_circuit th vs)) w = (Inr infos, w') \<and>
      length infos = length vss \<and> (\<forall>i<length vss. info_ok th h s c f vss i (infos ! i)) \<and>
      store_inv True w' \<and> tree_inv th h s (c + length vss) (put_leaves f (c * 2 ^ s) (concat vss)) w' \<and>
      tree_db.more w' = tree_db.more w"
proof (induction vss arbitrary: w c f)
  case Nil
  then show ?case by (simp add: returnM_def)
next
  case (Cons vs vss)
  let ?f = "put_leaves f (c * 2 ^ s) vs"
  have vs: "length vs = 2 ^ s" "c < 2 ^ h" using Cons.prems(3,4) by simp_all
  have empty: "\<And>j. c * 2 ^ s \<le> j \<Longrightarrow> j < (c + 1) * 2 ^ s \<Longrightarrow> f j = 0" using Cons.prems(5) by blast
  obtain w1 path where w1: "insert_for_circuit th vs w = (Inr
      \<lparr>old_root = mnode th f (h + s) 0, new_root = mnode th ?f (h + s) 0,
       proof_of_emptiness = \<lparr>node_value = 0, sibling_path = path, leaf_index = c\<rparr>,
       leaf_count = (c + 1) * 2 ^ s, inserted_leaves = vs\<rparr>, w1)"
    "store_inv True w1" "tree_inv th h s (c + 1) ?f w1" "tree_db.more w1 = tree_db.more w"
    "path_root th 0 path = mnode th f (h + s) 0" "path_root th (merkle_root th s vs) path = mnode th ?f (h + s) 0"
    by (rule insert_for_circuit_ok [OF assms Cons.prems(1,2) vs empty])
  define info where "info = \<lparr>old_root = mnode th f (h + s) 0, new_root = mnode th ?f (h + s) 0,
       proof_of_emptiness = \<lparr>node_value = 0, sibling_path = path, leaf_index = c\<rparr>,
       leaf_count = (c + 1) * 2 ^ s, inserted_leaves = vs\<rparr>"
  have next_leaf: "(c + 1) * 2 ^ s = c * 2 ^ s + length vs" using vs(1) by simp
  have "\<forall>j\<ge>(c + 1) * 2 ^ s. ?f j = 0"
    unfolding next_leaf using Cons.prems(5) by (simp add: put_leaves_beyond)
  from Cons.IH [OF w1(2,3) _ _ this] Cons.prems(3,4)
  obtain infos w' where IH: "forM vss (\<lambda>vs. map_errM (\<lambda>_. MerklePanic) (insert_for_circuit th vs)) w1 = (Inr infos, w')"
    "length infos = length vss" "\<forall>i<length vss. info_ok th h s (c + 1) ?f vss i (infos ! i)"
    "store_inv True w'" "tree_inv th h s (c + 1 + length vss) (put_leaves ?f ((c + 1) * 2 ^ s) (concat vss)) w'"
    "tree_db.more w' = tree_db.more w1"
    by auto
  have glue: "put_leaves ?f ((c + 1) * 2 ^ s) xs = put_leaves f (c * 2 ^ s) (vs @ xs)" for xs
    unfolding next_leaf by (rule put_leaves_append)
  have "info_ok th h s c f (vs # vss) i ((info # infos) ! i)" if "i < length (vs # vss)" for i
  proof (cases i)
    case 0
    then show ?thesis using w1(5,6) by (simp add: info_ok_def info_def)
  next
    case (Suc j)
    have "info_ok th h s (c + 1) ?f vss j x \<Longrightarrow> info_ok th h s c f (vs # vss) (Suc j) x" for x
      by (simp only: info_ok_def glue take_Suc_Cons concat.simps nth_Cons_Suc)
    then show ?thesis using IH(3) that Suc by simp
  qed
  moreover have "forM (vs # vss) (\<lambda>vs. map_errM (\<lambda>_. MerklePanic) (insert_for_circuit th vs)) w = (Inr (info # infos), w')"
  proof -
    have "map_errM (\<lambda>_. MerklePanic) (insert_for_circuit th vs) w = (Inr info, w1)"
      by (simp add: map_errM_def w1(1) info_def)
    then show ?thesis by (simp add: bindM_def IH(1) returnM_def)
  qed
  moreover have "tree_inv th h s (c + length (vs # vss)) (put_leaves f (c * 2 ^ s) (concat (vs # vss))) w'"
    using IH(5) by (simp only: glue concat.simps length_Cons add_Suc_right add_Suc Suc_eq_plus1 add.assoc add.commute [of 1])
  ultimately show ?case using IH(2,4,6) w1(4) by (intro exI [of _ "info # infos"] exI [of _ w']) simp
qed

lemma commitment_batch_ok:
  assumes "th 0 0 = 0" "store_inv True w" "tree_inv th h s c f w" "length xs mod 2 ^ s = 0" "c + length xs div 2 ^ s \<le> 2 ^ h"
    "\<forall>j\<ge>c * 2 ^ s. f j = 0"
  obtains infos w' where "batch_insert_with_circuit_info th xs w = (Inr infos, w')" "length infos = length xs div 2 ^ s"
    "\<forall>i<length xs div 2 ^ s. info_ok th h s c f (chunks (2 ^ s) xs) i (infos ! i)"
    "store_inv True w'" "tree_inv th h s (c + length xs div 2 ^ s) (put_leaves f (c * 2 ^ s) xs) w'"
    "tree_db.more w' = tree_db.more w"
proof -
  have cs: "concat (chunks (2 ^ s) xs) = xs" "length (chunks (2 ^ s) xs) = length xs div 2 ^ s"
    by (simp_all only: concat_chunks length_chunks assms(4) zero_less_power zero_less_numeral)
  have l: "\<forall>vs\<in>set (chunks (2 ^ s) xs). length vs = 2 ^ s"
  proof
    fix vs
    assume "vs \<in> set (chunks (2 ^ s) xs)"
    then show "length vs = 2 ^ s" using chunks_length_mem [of "2 ^ s" xs vs, OF _ assms(4)] by simp
  qed
  have m: "read_metadata w = (Inr \<lparr>tree_height = h, sub_tree_height = s, sub_tree_count = c, root = mnode th f (h + s) 0\<rparr>, w)"
    using assms(2,3) by (simp add: read_metadata_ok store_inv_def tree_inv_def)
  have room: "c + length (chunks (2 ^ s) xs) \<le> 2 ^ h" using assms(5) cs(2) by simp
  obtain infos w' where "forM (chunks (2 ^ s) xs) (\<lambda>vs. map_errM (\<lambda>_. MerklePanic) (insert_for_circuit th vs)) w = (Inr infos, w')"
    "length infos = length xs div 2 ^ s" "\<forall>i<length xs div 2 ^ s. info_ok th h s c f (chunks (2 ^ s) xs) i (infos ! i)"
    "store_inv True w'" "tree_inv th h s (c + length xs div 2 ^ s) (put_leaves f (c * 2 ^ s) xs) w'"
    "tree_db.more w' = tree_db.more w"
    using circuit_batch [of th, OF assms(1-3) l room assms(6)] unfolding cs by blast
  then show thesis
    using that assms(4) by (simp add: batch_insert_with_circuit_info_def bindM_def m Let_def)
qed

section \<open>Appended to the cache first\<close>

fun path_keys :: "nat \<Rightarrow> nat \<Rightarrow> nat list" where
  "path_keys 0 q = []"
| "path_keys (Suc n) q = (q - 1) div 2 # path_keys n ((q - 1) div 2)"

lemma climb_path_keys: "map fst (snd (climb_fn th l n q v)) = path_keys n q"
proof (induction n arbitrary: q v)
  case (Suc n)
  define v' where "v' = (if even q then th (l (q - 1)) v else th v (l (q + 1)))"
  obtain r us where c: "climb_fn th l n ((q - 1) div 2) v' = (r, us)" by force
  then have "map fst us = path_keys n ((q - 1) div 2)" using Suc.IH [of "(q - 1) div 2" v'] by simp
  then show ?case using c by (simp add: Let_def flip: v'_def)
qed simp

definition put_all :: "(nat \<times> 'f) list \<Rightarrow> (nat \<times> 'f) list \<Rightarrow> (nat \<times> 'f) list" where
  "put_all us ns = foldl (\<lambda>ns (i, v). AList.update i v ns) ns us"

lemma put_all_simps [simp]: "put_all [] ns = ns" "put_all ((i, v) # us) ns = put_all us (AList.update i v ns)"
  by (simp_all add: put_all_def)

lemma map_of_put_all: "distinct (map fst us) \<Longrightarrow> map_of (put_all us ns) = map_of ns ++ map_of us"
proof (induction us arbitrary: ns)
  case (Cons u us)
  obtain i v where u: "u = (i, v)" by force
  have "map_of us i = None" using Cons.prems u by (simp add: map_of_eq_None_iff)
  then show ?case using Cons u by (auto simp: fun_eq_iff update_conv map_add_def split: option.split)
qed simp

lemma distinct_put_all: "distinct (map fst ns) \<Longrightarrow> distinct (map fst (put_all us ns))"
  by (induction us arbitrary: ns) (auto simp: distinct_update)

lemma keys_update: "fst ` set (AList.update k v ns) = insert k (fst ` set ns)"
proof -
  have "set (map fst (AList.update k v ns)) = insert k (set (map fst ns))" by (auto simp: update_keys)
  then show ?thesis by simp
qed

lemma keys_put_all: "fst ` set (put_all us ns) = fst ` set us \<union> fst ` set ns"
proof (induction us arbitrary: ns)
  case (Cons u us)
  obtain i v where "u = (i, v)" by force
  then show ?case using Cons.IH [of "AList.update i v ns"] by (auto simp: keys_update)
qed simp

text \<open>A tree whose recorded root is that of the leaves \<open>f\<close>, while its nodes, through the cache, are those of \<open>g\<close>.\<close>

definition tree_pending ::
    "('f \<Rightarrow> 'f \<Rightarrow> 'f) \<Rightarrow> nat \<Rightarrow> nat \<Rightarrow> (nat \<Rightarrow> 'f::zero) \<Rightarrow> (nat \<Rightarrow> 'f) \<Rightarrow> ('f, 'z) tree_db_scheme \<Rightarrow> bool" where
  "tree_pending th h c f g t \<longleftrightarrow> faults t = [] \<and> distinct (map fst (nodes t)) \<and> distinct (map fst (cache t)) \<and>
     metadata t = Some \<lparr>tree_height = h, sub_tree_height = 0, sub_tree_count = c, root = mnode th f h 0\<rparr> \<and>
     nodes_ok th h g (look t)"

text \<open>The leaf \<open>x\<close> is in the cache, with the path above it.\<close>

definition tree_staged ::
    "('f \<Rightarrow> 'f \<Rightarrow> 'f) \<Rightarrow> nat \<Rightarrow> nat \<Rightarrow> (nat \<Rightarrow> 'f::zero) \<Rightarrow> 'f \<Rightarrow> ('f, 'z) tree_db_scheme \<Rightarrow> bool" where
  "tree_staged th h c f x t \<longleftrightarrow> tree_pending th h c f (put_leaves f c [x]) t \<and>
     insert (2 ^ h - 1 + c) (set (path_keys h (2 ^ h - 1 + c))) \<subseteq> fst ` set (cache t)"

lemma clean_pending: "store_inv True t \<Longrightarrow> tree_inv th h 0 c f t \<Longrightarrow> tree_pending th h c f f t"
  by (simp add: tree_pending_def store_inv_def tree_inv_def)

lemma staged_pending: "tree_staged th h c f x t \<Longrightarrow> tree_pending th h c f (put_leaves f c [x]) t"
  by (simp add: tree_staged_def)

text \<open>Any value at the place of a leaf is taken to the root it gives by the siblings of that leaf.\<close>

lemma siblings_replace:
  assumes "nodes_ok th H f l" "j < 2 ^ H"
  shows "path_root th v (siblings l H (2 ^ H - 1 + j)) = mnode th (put_leaves f j [v]) H 0"
proof -
  let ?q = "2 ^ H - 1 + j"
  have q: "2 ^ H \<le> ?q + 1" "?q + 1 < 2 ^ Suc H"
    using assms(2) one_le_power [of "2::nat" H] unfolding power_Suc by linarith+
  note c = climb_heap [where th = th and t = H and look = l and q = ?q and v = v, OF _ q]
  let ?l = "override l ((?q, v) # snd (climb_fn th l H ?q v))"
  have h: "heap_ok th H l" "\<forall>i<2 ^ H. l (2 ^ H - 1 + i) = f i" using assms(1) by (simp_all add: nodes_ok_def)
  have "?l (2 ^ H - 1 + i) = put_leaves f j [v] i" if "i < 2 ^ H" for i
  proof -
    have "?l (2 ^ H - 1 + i) = (l(?q := v)) (2 ^ H - 1 + i)" by (rule c(3) [OF h(1)]) simp
    then show ?thesis using h(2) that by (auto simp: put_leaves_def)
  qed
  then have "nodes_ok th H (put_leaves f j [v]) ?l" using c(1) [OF h(1)] by (simp add: nodes_ok_def del: override_Cons)
  then have "?l 0 = mnode th (put_leaves f j [v]) H 0" by (rule nodes_ok_root)
  then show ?thesis using c(2) [OF h(1)] by (simp add: path_root_climb)
qed

lemma pending_membership:
  assumes "tree_pending th h c f g t" "j < 2 ^ h"
  shows "get_membership_proof None (Some j) t =
    (Inr \<lparr>node_value = g j, sibling_path = siblings (look t) h (2 ^ h - 1 + j), leaf_index = j\<rparr>, t)"
proof -
  have f: "faults t = []" using assms(1) by (simp add: tree_pending_def)
  have m: "read_metadata t = (Inr \<lparr>tree_height = h, sub_tree_height = 0, sub_tree_count = c, root = mnode th f h 0\<rparr>, t)"
    using read_metadata_ok [OF f] assms(1) by (simp add: tree_pending_def)
  define n where "n = 2 ^ h - 1 + j"
  have n: "j + 2 ^ h - 1 = n" "n + 1 - 2 ^ h = j"
    using one_le_power [of "2::nat" h] unfolding n_def by linarith+
  have range: "(n < 2 ^ h - 1 \<or> 2 ^ (h + 1) - 2 < n) = False"
    using leaf_range [OF assms(2)] unfolding n_def by blast
  have "look t n = g j" using assms by (simp add: tree_pending_def nodes_ok_def n_def)
  then show ?thesis
    unfolding get_membership_proof_def bindM_Inr [of read_metadata, OF m] Let_def
    by (simp only: TreeMetadata.select_convs option.case prod.case bindM_returnM add_0_right n range if_False n_def [symmetric])
      (simp add: bindM_def read_siblings_ok f get_node_ok returnM_def n)
qed

lemma exec_cached:
  "faults t = [] \<Longrightarrow> exec_updates (set_node False) us t = (Inr (), t\<lparr>cache := put_all us (cache t)\<rparr>)"
proof (induction us arbitrary: t)
  case (Cons u us)
  obtain i v where "u = (i, v)" by force
  then show ?case
    using Cons.IH [of "t\<lparr>cache := AList.update i v (cache t)\<rparr>"] Cons.prems
    by (simp add: bindM_def ignoreM_def set_node_def db_write_ok)
qed (simp add: returnM_def)

lemma exec_stored:
  "faults t = [] \<Longrightarrow> exec_updates (set_node True) us t = (Inr (), t\<lparr>nodes := put_all us (nodes t)\<rparr>)"
proof (induction us arbitrary: t)
  case (Cons u us)
  obtain i v where "u = (i, v)" by force
  then show ?case
    using Cons.IH [of "t\<lparr>nodes := AList.update i v (nodes t)\<rparr>"] Cons.prems
    by (simp add: bindM_def ignoreM_def set_node_def db_write_ok)
qed (simp add: returnM_def)

text \<open>Appending one leaf to a tree of height \<open>h\<close> whose subtrees are single leaves.\<close>

lemma append_leaf:
  fixes x :: "'f::zero"
  assumes "tree_pending th h c f g t" "c < 2 ^ h"
  defines "q \<equiv> 2 ^ h - 1 + c"
  defines "us \<equiv> (q, x) # snd (climb_fn th (look t) h q x)"
  defines "r \<equiv> mnode th (put_leaves g c [x]) h 0"
  shows "append_sub_trees th [x] False t = (Inr (r, c), t\<lparr>cache := put_all us (cache t)\<rparr>)"
    "append_sub_trees th [x] True t = (Inr (r, c + 1), t\<lparr>nodes := put_all (cache t) (put_all us (nodes t)), cache := [],
       metadata := Some \<lparr>tree_height = h, sub_tree_height = 0, sub_tree_count = c + 1, root = r\<rparr>\<rparr>)"
proof -
  let ?m = "\<lparr>tree_height = h, sub_tree_height = 0, sub_tree_count = c, root = mnode th f h 0\<rparr>"
  have f: "faults t = []" and s: "store_inv False t" using assms(1) by (simp_all add: tree_pending_def store_inv_def)
  have m: "read_metadata t = (Inr ?m, t)" using read_metadata_ok [OF f] assms(1) by (simp add: tree_pending_def)
  have root: "fst (climb_fn th (look t) h q x) = r"
    using siblings_replace [of th h g "look t" c x] assms(1,2) by (simp add: tree_pending_def path_root_climb r_def q_def)
  have st: "make_complete_tree th 0 [x] = Some [x]"
  proof -
    obtain st where st: "make_complete_tree th 0 [x] = Some st" "length st = 1" "st ! 0 = x"
      using make_complete_tree_Some [of "[x]" 0 th] by (auto simp: leaf_fn_def)
    then have "st = [x]" by (cases st) simp_all
    then show ?thesis using st(1) by simp
  qed
  have climb: "climb get_node th h q x t = (Inr (climb_fn th (look t) h q x), t)" by (rule store.climb_ok [OF s])
  have one: "append_one th ?m upd c [x] t = bindM (exec_updates (set_node upd) us) (\<lambda>_. returnM r) t" for upd
  proof -
    have "append_one th ?m upd c [x] t =
        bindM (climb get_node th h q x) (\<lambda>(hash, us'). bindM (exec_updates (set_node upd) ((q, x) # us')) (\<lambda>_. returnM hash)) t"
      by (simp only: append_one_def st option.case TreeMetadata.select_convs Let_def nth_Cons_0 sub_rows.simps(1) okM_Some
          bindM_returnM append_Nil2 q_def)
    then show ?thesis by (simp only: bindM_Inr [of "climb get_node th h q x", OF climb] case_prod_beta root us_def)
  qed
  have ch: "chunks (2 ^ 0) [x] = [[x]]" by (simp add: chunks_Cons)
  have c: "\<not> 2 ^ h < c" using assms(2) by simp
  show "append_sub_trees th [x] False t = (Inr (r, c), t\<lparr>cache := put_all us (cache t)\<rparr>)"
    unfolding append_sub_trees_def bindM_Inr [of read_metadata, OF m]
    by (simp add: Let_def c ch [simplified] bindM_def one exec_cached [OF f] returnM_def del: put_all_simps)
  show "append_sub_trees th [x] True t = (Inr (r, c + 1), t\<lparr>nodes := put_all (cache t) (put_all us (nodes t)), cache := [],
       metadata := Some \<lparr>tree_height = h, sub_tree_height = 0, sub_tree_count = c + 1, root = r\<rparr>\<rparr>)"
    unfolding append_sub_trees_def bindM_Inr [of read_metadata, OF m]
    by (simp add: Let_def c ch [simplified] bindM_def one exec_stored [OF f] returnM_def db_write_ok f flush_cache_ok put_all_def [symmetric] del: put_all_simps)
qed

lemma look_cached: "distinct (map fst us) \<Longrightarrow> look (t\<lparr>cache := put_all us (cache t)\<rparr>) i = override (look t) us i"
proof (induction us arbitrary: t)
  case (Cons u us)
  obtain k v where u: "u = (k, v)" by force
  let ?t = "t\<lparr>cache := AList.update k v (cache t)\<rparr>"
  have "look ?t = (look t)(k := v)" by (auto simp: look_def fun_eq_iff update_conv cong: option.case_cong)
  moreover have "look (?t\<lparr>cache := put_all us (cache ?t)\<rparr>) i = override (look ?t) us i"
    by (rule Cons.IH) (use Cons.prems in simp)
  ultimately show ?case by (simp add: u)
qed simp

lemma path_keys_less: "2 ^ n \<le> q + 1 \<Longrightarrow> q + 1 < 2 ^ Suc n \<Longrightarrow> k \<in> set (path_keys n q) \<Longrightarrow> k < q"
proof (induction n arbitrary: q)
  case (Suc n)
  note pd = parent_depth [OF Suc.prems(1,2)]
  have p: "(q - 1) div 2 < q" using Suc.prems(1) one_le_power [of "2::nat" n] unfolding power_Suc by linarith
  consider "k = (q - 1) div 2" | "k \<in> set (path_keys n ((q - 1) div 2))" using Suc.prems(3) by auto
  then show ?case
  proof cases
    case 2
    then have "k < (q - 1) div 2" by (rule Suc.IH [OF pd(1,2)])
    then show ?thesis using p by simp
  qed (use p in simp)
qed simp

lemma distinct_path_keys: "2 ^ n \<le> q + 1 \<Longrightarrow> q + 1 < 2 ^ Suc n \<Longrightarrow> distinct (q # path_keys n q)"
proof (induction n arbitrary: q)
  case (Suc n)
  note pd = parent_depth [OF Suc.prems(1,2)]
  have "q \<notin> set (path_keys (Suc n) q)" using path_keys_less [OF Suc.prems] by blast
  then show ?case using Suc.IH [OF pd(1,2)] by simp
qed simp

text \<open>The first append, to the cache: the metadata and the stored nodes stay.\<close>

lemma stage_leaf:
  assumes "tree_pending th h c f g t" "c < 2 ^ h" "put_leaves g c [x] = put_leaves f c [x]"
  obtains t' where "append_sub_trees th [x] False t = (Inr (mnode th (put_leaves f c [x]) h 0, c), t')" "tree_staged th h c f x t'"
    "nodes t' = nodes t" "tree_db.more t' = tree_db.more t"
proof -
  define q where "q = 2 ^ h - 1 + c"
  define us where "us = (q, x) # snd (climb_fn th (look t) h q x)"
  let ?t = "t\<lparr>cache := put_all us (cache t)\<rparr>"
  have q: "2 ^ h \<le> q + 1" "q + 1 < 2 ^ Suc h"
    using assms(2) one_le_power [of "2::nat" h] unfolding q_def power_Suc by linarith+
  have keys: "map fst us = q # path_keys h q" by (simp add: us_def climb_path_keys)
  have P: "faults t = []" "distinct (map fst (nodes t))" "distinct (map fst (cache t))"
    "metadata t = Some \<lparr>tree_height = h, sub_tree_height = 0, sub_tree_count = c, root = mnode th f h 0\<rparr>"
    "heap_ok th h (look t)" "\<forall>i<2 ^ h. look t (2 ^ h - 1 + i) = g i"
    using assms(1) by (simp_all add: tree_pending_def nodes_ok_def)
  have d: "distinct (map fst us)" unfolding keys by (rule distinct_path_keys [OF q])
  have look: "look ?t = override (look t) us" using look_cached [OF d, of t] by blast
  note climb = climb_heap [where th = th and t = h and look = "look t" and q = q and v = x, OF P(5) q, folded us_def]
  have "look ?t (2 ^ h - 1 + i) = put_leaves f c [x] i" if "i < 2 ^ h" for i
  proof -
    have "look ?t (2 ^ h - 1 + i) = ((look t)(q := x)) (2 ^ h - 1 + i)" unfolding look by (rule climb(3)) simp
    also have "\<dots> = put_leaves g c [x] i" using P(6) that by (auto simp: put_leaves_def q_def)
    finally show ?thesis by (simp add: assms(3))
  qed
  then have "nodes_ok th h (put_leaves f c [x]) (look ?t)" using climb(1) look by (simp add: nodes_ok_def)
  moreover have "faults ?t = []" "distinct (map fst (nodes ?t))" "distinct (map fst (cache ?t))" "metadata ?t = metadata t"
    using P(1-3) by (simp_all add: distinct_put_all)
  moreover have "fst ` set us = insert q (set (path_keys h q))" using arg_cong [OF keys, of set] by simp
  ultimately have "tree_staged th h c f x ?t"
    using P(4) by (auto simp: tree_staged_def tree_pending_def keys_put_all q_def)
  moreover have "append_sub_trees th [x] False t = (Inr (mnode th (put_leaves f c [x]) h 0, c), ?t)"
    using append_leaf(1) [OF assms(1,2), of x] by (simp only: assms(3) us_def q_def)
  ultimately show thesis by (intro that [of ?t]) simp_all
qed

text \<open>The append for good. Its root is that of the new leaf \<open>y\<close>, but the flush writes the cached nodes over the new ones:
  the nodes are those of \<open>x\<close>.\<close>

lemma commit_leaf:
  assumes "tree_staged th h c f x t" "c < 2 ^ h"
  obtains t' where "append_sub_trees th [y] True t = (Inr (mnode th (put_leaves f c [y]) h 0, c + 1), t')"
    "store_inv True t'" "nodes_ok th h (put_leaves f c [x]) (look t')" "tree_db.more t' = tree_db.more t"
    "metadata t' = Some \<lparr>tree_height = h, sub_tree_height = 0, sub_tree_count = c + 1, root = mnode th (put_leaves f c [y]) h 0\<rparr>"
proof -
  define q where "q = 2 ^ h - 1 + c"
  define us where "us = (q, y) # snd (climb_fn th (look t) h q y)"
  let ?r = "mnode th (put_leaves f c [y]) h 0"
  let ?t = "t\<lparr>nodes := put_all (cache t) (put_all us (nodes t)), cache := [],
       metadata := Some \<lparr>tree_height = h, sub_tree_height = 0, sub_tree_count = c + 1, root = ?r\<rparr>\<rparr>"
  have pen: "tree_pending th h c f (put_leaves f c [x]) t" by (rule staged_pending [OF assms(1)])
  have P: "faults t = []" "distinct (map fst (nodes t))" "distinct (map fst (cache t))" "nodes_ok th h (put_leaves f c [x]) (look t)"
    using pen by (simp_all add: tree_pending_def)
  have keys: "fst ` set us \<subseteq> fst ` set (cache t)"
  proof -
    have "map fst us = q # path_keys h q" by (simp add: us_def climb_path_keys)
    then have "fst ` set us = insert q (set (path_keys h q))" by (metis list.set_map list.simps(15))
    then show ?thesis using assms(1) by (simp add: tree_staged_def q_def)
  qed
  have "look ?t i = look t i" for i
  proof (cases "i \<in> fst ` set (cache t)")
    case True
    then obtain v where "map_of (cache t) i = Some v" by (metis map_of_eq_None_iff not_None_eq list.set_map)
    then show ?thesis by (simp add: look_def map_of_put_all [OF P(3)] map_add_def)
  next
    case False
    then have "map_of (cache t) i = None" by (simp add: map_of_eq_None_iff)
    moreover have "map_of (put_all us (nodes t)) i = map_of (nodes t) i"
    proof -
      have "i \<notin> fst ` set us" using False keys by blast
      then show ?thesis
      proof (induction us arbitrary: t)
        case (Cons u us)
        obtain k v where "u = (k, v)" by force
        then show ?case using Cons.IH [of "t\<lparr>nodes := AList.update k v (nodes t)\<rparr>"] Cons.prems by (simp add: update_conv')
      qed simp
    qed
    ultimately show ?thesis by (simp add: look_def map_of_put_all [OF P(3)] map_add_def)
  qed
  then have "look ?t = look t" by blast
  moreover have "put_leaves (put_leaves f c [x]) c [y] = put_leaves f c [y]" by (auto simp: put_leaves_def fun_eq_iff)
  then have "append_sub_trees th [y] True t = (Inr (?r, c + 1), ?t)"
    using append_leaf(2) [OF pen assms(2), of y] by (simp only: us_def q_def)
  ultimately show thesis
    using P by (intro that [of ?t]) (simp_all add: store_inv_def distinct_put_all)
qed

end
