(* ===== verification/Proposer_Blocks.thy ===== *)
theory Proposer_Blocks
  imports Proposer_Events Indexed_Batches Tree_Batches
begin

text \<open>
  What the block events of the proposer achieve: a block in order is applied as a whole to the three trees, its own blocks
  are not applied again, a restart of the listener empties the trees and the mempool but keeps the expected number,
  and the nesting of restarts is bounded by the streams.
\<close>

section \<open>Running the operations on the trees\<close>

lemma tree_updates [simp]:
  "faults (w\<lparr>commitment_tree := t\<rparr>) = faults w" "faults (w\<lparr>historic_root_tree := t\<rparr>) = faults w"
  "faults (w\<lparr>nullifier_tree := u\<rparr>) = faults w"
  by (cases w; simp)+

lemma in_commitments_run:
  "faults w = [] \<Longrightarrow> faults (commitment_tree w) = [] \<Longrightarrow> m (commitment_tree w) = (r, t) \<Longrightarrow> faults t = [] \<Longrightarrow>
   in_commitments m w = (r, w\<lparr>commitment_tree := t\<rparr>)"
  by (simp add: in_commitments_def zoomM_def)

lemma in_historic_roots_run:
  "faults w = [] \<Longrightarrow> faults (historic_root_tree w) = [] \<Longrightarrow> m (historic_root_tree w) = (r, t) \<Longrightarrow> faults t = [] \<Longrightarrow>
   in_historic_roots m w = (r, w\<lparr>historic_root_tree := t\<rparr>)"
  by (simp add: in_historic_roots_def zoomM_def)

lemma in_nullifiers_run:
  "faults w = [] \<Longrightarrow> faults (nullifier_tree w) = [] \<Longrightarrow> m (nullifier_tree w) = (r, t) \<Longrightarrow> faults t = [] \<Longrightarrow>
   in_nullifiers m w = (r, w\<lparr>nullifier_tree := t\<rparr>)"
  by (simp add: in_nullifiers_def zoomM_def)

text \<open>The tree of subtrees holds the leaves \<open>f\<close>, \<open>c\<close> subtrees of which are used.\<close>

definition tree_holds :: "hash2 \<Rightarrow> nat \<Rightarrow> nat \<Rightarrow> nat \<Rightarrow> (nat \<Rightarrow> fr254) \<Rightarrow> fr254 tree_db \<Rightarrow> bool" where
  "tree_holds th h s c f t \<longleftrightarrow> store_inv True t \<and> tree_inv th h s c f t"

lemma tree_holds_faults: "tree_holds th h s c f t \<Longrightarrow> faults t = []"
  by (simp add: tree_holds_def store_inv_def)

lemma append_holds:
  assumes "tree_holds th h s c f t" "length xs mod 2 ^ s = 0" "xs \<noteq> []" "c + length xs div 2 ^ s \<le> 2 ^ h"
  obtains r t' where "append_sub_trees th xs True t = (Inr r, t')" "tree_holds th h s (c + length xs div 2 ^ s) (put_leaves f (c * 2 ^ s) xs) t'"
proof -
  let ?n = "length xs div 2 ^ s" and ?f = "put_leaves f (c * 2 ^ s) xs"
  from assms(1) have "store_inv True t" "tree_inv th h s c f t" by (simp_all add: tree_holds_def)
  then obtain t' where t': "store_inv True t'" "nodes_ok th (h + s) ?f (look t')"
    "append_sub_trees th xs True t = (Inr (mnode th ?f (h + s) 0, (c + ?n) * 2 ^ s),
       t'\<lparr>metadata := Some \<lparr>tree_height = h, sub_tree_height = s, sub_tree_count = c + ?n, root = mnode th ?f (h + s) 0\<rparr>\<rparr>)"
    using append_sub_trees_ok [OF _ _ assms(2-4)] by (metis (full_types))
  show thesis
    by (rule that [OF t'(3)]) (use t'(1,2) in \<open>simp add: tree_holds_def tree_inv_def store_inv_def\<close>)
qed

lemma commitments_append_run:
  assumes "faults w = []" "tree_holds th h s c f (commitment_tree w)"
    "length cs mod 2 ^ s = 0" "cs \<noteq> []" "c + length cs div 2 ^ s \<le> 2 ^ h"
  obtains r t where "commitments_append th cs True w = (Inr r, w\<lparr>commitment_tree := t\<rparr>)"
    "tree_holds th h s (c + length cs div 2 ^ s) (put_leaves f (c * 2 ^ s) cs) t"
proof -
  obtain r t where t: "append_sub_trees th cs True (commitment_tree w) = (Inr r, t)"
      "tree_holds th h s (c + length cs div 2 ^ s) (put_leaves f (c * 2 ^ s) cs) t"
    by (rule append_holds [OF assms(2-5)])
  obtain a b where r: "r = (a, b)" by (cases r)
  show thesis
    by (rule that [of a t])
      (simp_all add: commitments_append_def bindM_def t(2) r returnM_def
        in_commitments_run [of w "append_sub_trees th cs True", OF assms(1) tree_holds_faults [OF assms(2)] t(1) tree_holds_faults [OF t(2)]])
qed

lemma historic_append_run:
  assumes "faults w = []" "tree_holds th h 0 c f (historic_root_tree w)" "c + 1 \<le> 2 ^ h"
  obtains r t where "append_historic_commitment_root th v True w = (Inr r, w\<lparr>historic_root_tree := t\<rparr>)"
    "tree_holds th h 0 (c + 1) (put_leaves f c [v]) t"
proof -
  obtain r t where t: "append_sub_trees th [v] True (historic_root_tree w) = (Inr r, t)"
      "tree_holds th h 0 (c + length [v] div 2 ^ 0) (put_leaves f (c * 2 ^ 0) [v]) t"
    by (rule append_holds [OF assms(2), of "[v]"]) (use assms(3) in simp_all)
  obtain a b where r: "r = (a, b)" by (cases r)
  have t2: "tree_holds th h 0 (c + 1) (put_leaves f c [v]) t" using t(2) by simp
  show thesis
    by (rule that [of a t])
      (simp_all only: append_historic_commitment_root_def bindM_def t2 r returnM_def prod.case sum.case
        in_historic_roots_run [of w "append_sub_trees th [v] True", OF assms(1) tree_holds_faults [OF assms(2)] t(1) tree_holds_faults [OF t(2)]])
qed

lemma insert_nullifiers_run:
  assumes "faults w = []" "th 0 0 = 0" "imt_inv th hash ser h s c (nullifier_tree w)"
    "batch_ok h s c (imt_values (nullifier_tree w)) ns"
  obtains r t where "insert_nullifiers th hash ser ns w = (Inr r, w\<lparr>nullifier_tree := t\<rparr>)"
    "imt_inv th hash ser h s (c + length ns div 2 ^ s) t"
    "imt_values t = imt_values (nullifier_tree w) \<union> {v \<in> set ns. v \<noteq> 0}"
    "place_of (imt_list t) = add_places (place_of (imt_list (nullifier_tree w))) ns (c * 2 ^ s)"
proof -
  obtain t where t: "insert_leaves th hash ser ns (nullifier_tree w) =
      (Inr (if \<forall>v\<in>set ns. v = 0 then 0 else mnode th (leaf_content hash (indexed_leaves t)) (h + s) 0), t)"
    "imt_inv th hash ser h s (c + length ns div 2 ^ s) t" "imt_values t = imt_values (nullifier_tree w) \<union> {v \<in> set ns. v \<noteq> 0}"
    "place_of (imt_list t) = add_places (place_of (imt_list (nullifier_tree w))) ns (c * 2 ^ s)"
    by (rule insert_leaves_places [OF assms(2-4)])
  show thesis
    by (rule that [OF _ t(2-4)])
      (unfold insert_nullifiers_def, rule in_nullifiers_run [of w "insert_leaves th hash ser ns", OF assms(1) imt_invD(7) [OF assms(3)] t(1) imt_invD(7) [OF t(2)]])
qed

lemma commitments_root_run:
  assumes "faults w = []" "tree_holds th h s c f (commitment_tree w)"
  shows "commitments_get_root w = (Inr (mnode th f (h + s) 0), w)"
proof -
  have t: "get_root (commitment_tree w) = ((Inr (mnode th f (h + s) 0) :: merkle_error + _), commitment_tree w)"
    using assms(2) by (simp add: get_root_def bindM_def read_metadata_ok tree_holds_def tree_inv_def store_inv_def returnM_def)
  show ?thesis
    using in_commitments_run [of w get_root, OF assms(1) tree_holds_faults [OF assms(2)] t tree_holds_faults [OF assms(2)]]
    by (simp add: commitments_get_root_def)
qed

section \<open>The conversions of a block\<close>

lemma those_expect_frs: "(\<And>u. u \<in> set us \<Longrightarrow> unat u \<le> fr_modulus) \<Longrightarrow> those (map expect_frbn us) = Some (word_frs us)"
  by (induction us) (simp_all add: expect_small word_frs_def)

lemma proposer_pending_in_range:
  assumes "proposer_stored_block env k p blk = Some pending" "tx \<in> set (blk_transactions blk)"
    "u \<in> set (ctx_commitments tx) \<union> set (ctx_nullifiers tx)"
  shows "unat u \<le> fr_modulus"
proof -
  obtain ts where "those (map on_chain_transaction_from (blk_transactions blk)) = Some ts"
    using assms(1) by (auto simp: proposer_stored_block_def)
  then obtain t where "on_chain_transaction_from tx = Some t" using those_Some [OF _ assms(2)] by blast
  then show ?thesis by (rule converted_in_range) (rule assms(3))
qed

lemma block_conversions:
  assumes "proposer_stored_block env k p blk = Some pending"
  shows "those (map expect_frbn (concat (map ctx_commitments (blk_transactions blk)))) = Some (block_commitments blk)"
    "those (map expect_frbn (concat (map ctx_nullifiers (blk_transactions blk)))) = Some (block_nullifiers blk)"
  unfolding block_commitments_def block_nullifiers_def
  by (rule those_expect_frs, use proposer_pending_in_range [OF assms] in force)+

lemma proposer_pending_number: "proposer_stored_block env k p blk = Some pending \<Longrightarrow> sb_layer2_block_number pending = k"
  by (auto simp: proposer_stored_block_def)

text \<open>A block is stored once: what the assembly of this block has stored already stays as it is.\<close>

definition may_store :: "StoredBlock \<Rightarrow> StoredBlock list \<Rightarrow> bool" where
  "may_store b bs \<longleftrightarrow> find_block (sb_layer2_block_number b) bs = None \<or> find_block (sb_layer2_block_number b) bs = Some b"

definition with_block :: "StoredBlock \<Rightarrow> StoredBlock list \<Rightarrow> StoredBlock list" where
  "with_block b bs = (if find_block (sb_layer2_block_number b) bs = None then bs @ [b] else bs)"

lemma stored_again:
  "find_block (sb_layer2_block_number b) bs = Some b \<Longrightarrow>
   update_first (\<lambda>x. sb_layer2_block_number x = sb_layer2_block_number b) (\<lambda>x. x\<lparr>sb_commitments := sb_commitments b\<rparr>) bs = bs"
  by (induction bs) (auto simp: find_block_def split: if_splits)

lemma proposer_store_run:
  "faults w = [] \<Longrightarrow> may_store b (proposed_blocks w) \<Longrightarrow>
     proposer_store_block b w = (Inr (Some ()), w\<lparr>proposed_blocks := with_block b (proposed_blocks w)\<rparr>)"
  by (auto simp: proposer_store_block_def bindO_def bindM_def try_read_ok try_write_ok returnM_def may_store_def with_block_def stored_again)

lemma compare_run:
  "faults w = [] \<Longrightarrow> sb_layer2_block_number pending = k \<Longrightarrow> may_store pending (proposed_blocks w) \<Longrightarrow>
   compare_with_stored env k pending w = (Inr (), w)"
  by (auto simp: compare_with_stored_def proposer_get_block_def bindO_def bindM_def try_read_ok returnM_def may_store_def Let_def)

section \<open>Applying a block\<close>

definition trees_hold ::
    "('p, 'e, 'y) proposer_env_scheme \<Rightarrow> nat \<times> nat \<times> nat \<times> (nat \<Rightarrow> fr254) \<Rightarrow> nat \<times> nat \<times> (nat \<Rightarrow> fr254) \<Rightarrow> nat \<times> nat \<times> nat \<Rightarrow>
     ('p, 'z) proposer_db_scheme \<Rightarrow> bool" where
  "trees_hold env = (\<lambda>(hc, sc, cc, fc) (hr, cr, gr) (hn, sn, cn) w.
     tree_holds (pe_tree_hash env) hc sc cc fc (commitment_tree w) \<and>
     tree_holds (pe_tree_hash env) hr 0 cr gr (historic_root_tree w) \<and>
     imt_inv (pe_tree_hash env) (pe_hash env) (pe_ser env) hn sn cn (nullifier_tree w))"

definition sync_after :: "int \<Rightarrow> SynchronisationStatus \<Rightarrow> SynchronisationStatus" where
  "sync_after current s = (if current = 1 then set_synchronised s else s)"

lemma sync_after_run:
  "(if current = 1 then set_sync set_synchronised else returnM ()) w = (Inr (), w\<lparr>sync_status := sync_after current (sync_status w)\<rparr>)"
  by (simp add: set_sync_def sync_after_def returnM_def)

text \<open>The end of the handler, after the trees of commitments and nullifiers have been dealt with.\<close>

definition finish_block :: "('p, 'e, 'y) proposer_env_scheme \<Rightarrow> int \<Rightarrow> Block \<Rightarrow> int \<Rightarrow> StoredBlock \<Rightarrow> ('p, 'z, unit) proposer_eventM" where
  "finish_block env current_block_number_in_contract blk layer_2_block_number_in_event pending =
     bindM (fr_ofM (blk_commitments_root blk)) (\<lambda>historic_root.
     bindM (map_errM (as_io ''Could not store historic root'')
              (append_historic_commitment_root (pe_tree_hash env) historic_root True)) (\<lambda>_.
     bindM (map_errM (as_io ''Could not retrieve commitment root'') commitments_get_root) (\<lambda>_.
     bindM (set_sync (if current_block_number_in_contract - layer_2_block_number_in_event - 1 \<noteq> 0
                      then clear_synchronised else set_synchronised)) (\<lambda>_.
     bindM (proposer_store_block pending) (\<lambda>_. returnM ())))))"

lemma finish_block_with:
  assumes "faults w = []" "tree_holds (pe_tree_hash env) hc sc cc fc (commitment_tree w)" "unat (blk_commitments_root blk) \<le> fr_modulus"
    "may_store pending (proposed_blocks w)"
    "append_historic_commitment_root (pe_tree_hash env) (fr (unat (blk_commitments_root blk))) True w = (Inr r, w\<lparr>historic_root_tree := t\<rparr>)"
  shows "finish_block env current blk n pending w =
      (Inr (), w\<lparr>historic_root_tree := t, proposed_blocks := with_block pending (proposed_blocks w),
         sync_status := new_sync_status (if current = n + 1 then Synchronized else Desynchronized)\<rparr>)"
proof -
  let ?v = "fr (unat (blk_commitments_root blk))"
  let ?w1 = "w\<lparr>historic_root_tree := t\<rparr>"
  have fr: "fr_ofM (blk_commitments_root blk) w = (Inr ?v, w)"
    using assms(3) by (simp add: fr_ofM_def liftM_def frbn_try_from_eq)
  have root: "commitments_get_root ?w1 = (Inr (mnode (pe_tree_hash env) fc (hc + sc) 0), ?w1)"
    by (rule commitments_root_run) (use assms(1,2) in simp_all)
  have sync: "set_sync (if current - n - 1 \<noteq> 0 then clear_synchronised else set_synchronised) ?w1 =
      (Inr (), ?w1\<lparr>sync_status := new_sync_status (if current = n + 1 then Synchronized else Desynchronized)\<rparr>)"
    by (cases "sync_status w") (auto simp: set_sync_def clear_synchronised_def set_synchronised_def new_sync_status_def)
  let ?w2 = "?w1\<lparr>sync_status := new_sync_status (if current = n + 1 then Synchronized else Desynchronized)\<rparr>"
  have st: "proposer_store_block pending ?w2 = ((Inr (Some ()) :: event_error failure + _), ?w2\<lparr>proposed_blocks := with_block pending (proposed_blocks ?w2)\<rparr>)"
    by (rule proposer_store_run) (use assms(1,4) in simp_all)
  show ?thesis
    by (simp only: finish_block_def bindM_def map_errM_def fr assms(5) root sync st prod.case sum.case returnM_def, simp)
qed

lemma finish_block_run:
  assumes "faults w = []" "trees_hold env (hc, sc, cc, fc) (hr, cr, gr) N w" "unat (blk_commitments_root blk) \<le> fr_modulus"
    "cr + 1 \<le> 2 ^ hr" "may_store pending (proposed_blocks w)"
  obtains t where "finish_block env current blk n pending w =
      (Inr (), w\<lparr>historic_root_tree := t, proposed_blocks := with_block pending (proposed_blocks w),
         sync_status := new_sync_status (if current = n + 1 then Synchronized else Desynchronized)\<rparr>)"
    "tree_holds (pe_tree_hash env) hr 0 (cr + 1) (put_leaves gr cr [fr (unat (blk_commitments_root blk))]) t"
proof -
  have T: "tree_holds (pe_tree_hash env) hc sc cc fc (commitment_tree w)" "tree_holds (pe_tree_hash env) hr 0 cr gr (historic_root_tree w)"
    using assms(2) by (simp_all add: trees_hold_def split: prod.splits)
  show thesis
    by (rule historic_append_run [OF assms(1) T(2) assms(4)])
      (rule that [OF finish_block_with [OF assms(1) T(1) assms(3,5)]])
qed

text \<open>A root is appended for good while the assembly has put \<open>v\<close> into the cache: the nodes are those of \<open>v\<close>.\<close>

lemma historic_commit_run:
  assumes "faults w = []" "tree_staged th h c f v (historic_root_tree w)" "c < 2 ^ h"
  obtains t where "append_historic_commitment_root th y True w = (Inr (mnode th (put_leaves f c [y]) h 0), w\<lparr>historic_root_tree := t\<rparr>)"
    "store_inv True t" "nodes_ok th h (put_leaves f c [v]) (look t)"
    "metadata t = Some \<lparr>tree_height = h, sub_tree_height = 0, sub_tree_count = c + 1, root = mnode th (put_leaves f c [y]) h 0\<rparr>"
proof -
  have f: "faults (historic_root_tree w) = []" using assms(2) by (simp add: tree_staged_def tree_pending_def)
  obtain t where t: "append_sub_trees th [y] True (historic_root_tree w) = (Inr (mnode th (put_leaves f c [y]) h 0, c + 1), t)"
    "store_inv True t" "nodes_ok th h (put_leaves f c [v]) (look t)"
    "metadata t = Some \<lparr>tree_height = h, sub_tree_height = 0, sub_tree_count = c + 1, root = mnode th (put_leaves f c [y]) h 0\<rparr>"
    by (rule commit_leaf [OF assms(2,3)])
  have ft: "faults t = []" using t(2) by (simp add: store_inv_def)
  show thesis
    by (rule that [OF _ t(2-4)])
      (simp only: append_historic_commitment_root_def bindM_def returnM_def prod.case sum.case
        in_historic_roots_run [of w "append_sub_trees th [y] True", OF assms(1) f t(1) ft])
qed

lemma apply_proposed_block_split:
  "apply_proposed_block env (Inr current) sender blk n pending w =
     bindM (map_errM (as_io ''Could not retrieve commitment root'') commitments_get_root) (\<lambda>commitment_root.
     bindM (readM sync_status) (\<lambda>status.
     bindM (if pe_address env \<noteq> sender \<or> \<not> is_synchronised status \<or> commitment_root = 0
            then update_trees env blk else returnM ()) (\<lambda>_. finish_block env current blk n pending)))
     (w\<lparr>sync_status := sync_after current (sync_status w)\<rparr>)"
proof -
  have "bindM (if current = 1 then set_sync set_synchronised else returnM ()) f w = f () (w\<lparr>sync_status := sync_after current (sync_status w)\<rparr>)"
    for f :: "unit \<Rightarrow> ('a, 'b, unit) proposer_eventM"
    by (simp only: bindM_def sync_after_run prod.case sum.case)
  then show ?thesis by (simp add: apply_proposed_block_def finish_block_def)
qed

lemma update_trees_run:
  assumes "faults w = []" "pe_tree_hash env 0 0 = 0" "trees_hold env (hc, sc, cc, fc) R (hn, sn, cn) w"
    "proposer_stored_block env k sender blk = Some pending"
    "length (block_commitments blk) mod 2 ^ sc = 0" "block_commitments blk \<noteq> []" "cc + length (block_commitments blk) div 2 ^ sc \<le> 2 ^ hc"
    "batch_ok hn sn cn (imt_values (nullifier_tree w)) (block_nullifiers blk)"
  obtains t u where "update_trees env blk w = (Inr (), w\<lparr>commitment_tree := t, nullifier_tree := u\<rparr>)"
    "tree_holds (pe_tree_hash env) hc sc (cc + length (block_commitments blk) div 2 ^ sc)
       (put_leaves fc (cc * 2 ^ sc) (block_commitments blk)) t"
    "imt_inv (pe_tree_hash env) (pe_hash env) (pe_ser env) hn sn (cn + length (block_nullifiers blk) div 2 ^ sn) u"
    "imt_values u = imt_values (nullifier_tree w) \<union> {v \<in> set (block_nullifiers blk). v \<noteq> 0}"
    "place_of (imt_list u) = add_places (place_of (imt_list (nullifier_tree w))) (block_nullifiers blk) (cn * 2 ^ sn)"
proof -
  have T: "tree_holds (pe_tree_hash env) hc sc cc fc (commitment_tree w)"
      "imt_inv (pe_tree_hash env) (pe_hash env) (pe_ser env) hn sn cn (nullifier_tree w)"
    using assms(3) by (simp_all add: trees_hold_def split: prod.splits)
  obtain r t where t: "commitments_append (pe_tree_hash env) (block_commitments blk) True w = (Inr r, w\<lparr>commitment_tree := t\<rparr>)"
    "tree_holds (pe_tree_hash env) hc sc (cc + length (block_commitments blk) div 2 ^ sc)
       (put_leaves fc (cc * 2 ^ sc) (block_commitments blk)) t"
    by (rule commitments_append_run [OF assms(1) T(1) assms(5-7)])
  let ?w1 = "w\<lparr>commitment_tree := t\<rparr>"
  have w1: "faults ?w1 = []" "imt_inv (pe_tree_hash env) (pe_hash env) (pe_ser env) hn sn cn (nullifier_tree ?w1)"
    "batch_ok hn sn cn (imt_values (nullifier_tree ?w1)) (block_nullifiers blk)"
    using assms(1,8) T(2) by simp_all
  obtain r' u where u: "insert_nullifiers (pe_tree_hash env) (pe_hash env) (pe_ser env) (block_nullifiers blk) ?w1 = (Inr r', ?w1\<lparr>nullifier_tree := u\<rparr>)"
    "imt_inv (pe_tree_hash env) (pe_hash env) (pe_ser env) hn sn (cn + length (block_nullifiers blk) div 2 ^ sn) u"
    "imt_values u = imt_values (nullifier_tree ?w1) \<union> {v \<in> set (block_nullifiers blk). v \<noteq> 0}"
    "place_of (imt_list u) = add_places (place_of (imt_list (nullifier_tree ?w1))) (block_nullifiers blk) (cn * 2 ^ sn)"
    by (rule insert_nullifiers_run [OF w1(1) assms(2) w1(2,3)])
  have run: "update_trees env blk w = (Inr (), ?w1\<lparr>nullifier_tree := u\<rparr>)"
    by (simp only: update_trees_def block_conversions [OF assms(4)] okM_Some bindM_returnM)
      (simp only: bindM_def map_errM_def t(1) u(1) prod.case sum.case returnM_def)
  show thesis by (rule that [OF _ t(2) u(2)]) (use run u(3,4) in simp_all)
qed

lemma in_order_event:
  assumes "faults w = []" "next_number w = n" "i256_to_u64 n = Some k" "pa_signer answers = Inr (Some sender)"
    "proposer_stored_block env k sender blk = Some pending" "may_store pending (proposed_blocks w)"
  shows "proposer_block_event env answers blk n w =
    apply_proposed_block env (pa_current_block answers) sender blk n pending (w\<lparr>next_number := n + 1\<rparr>)"
proof -
  have "compare_with_stored env k pending w = (Inr (), w)"
    by (rule compare_run [OF assms(1) proposer_pending_number [OF assms(5)] assms(6)])
  then show ?thesis
    using assms(2-5) by (simp add: proposer_block_event_def readM_def advance_def bindM_def okM_def returnM_def)
qed

lemma proposed_block_run:
  fixes env :: "('p, 'e, 'y) proposer_env_scheme" and w :: "('p, 'z) proposer_state_scheme"
  assumes "faults w = []" "pe_tree_hash env 0 0 = 0" "trees_hold env (hc, sc, cc, fc) (hr, cr, gr) (hn, sn, cn) w"
    "next_number w = n" "i256_to_u64 n = Some k" "pa_signer answers = Inr (Some sender)"
    "proposer_stored_block env k sender blk = Some pending" "may_store pending (proposed_blocks w)"
    "pa_current_block answers = Inr current" "pe_address env \<noteq> sender" "unat (blk_commitments_root blk) \<le> fr_modulus"
    "length (block_commitments blk) mod 2 ^ sc = 0" "block_commitments blk \<noteq> []" "cc + length (block_commitments blk) div 2 ^ sc \<le> 2 ^ hc"
    "batch_ok hn sn cn (imt_values (nullifier_tree w)) (block_nullifiers blk)" "cr + 1 \<le> 2 ^ hr"
  shows "\<exists>w'. proposer_block_event env answers blk n w = (Inr (), w') \<and>
    trees_hold env (hc, sc, cc + length (block_commitments blk) div 2 ^ sc, put_leaves fc (cc * 2 ^ sc) (block_commitments blk))
      (hr, cr + 1, put_leaves gr cr [fr (unat (blk_commitments_root blk))]) (hn, sn, cn + length (block_nullifiers blk) div 2 ^ sn) w' \<and>
    imt_values (nullifier_tree w') = imt_values (nullifier_tree w) \<union> {v \<in> set (block_nullifiers blk). v \<noteq> 0} \<and>
    place_of (imt_list (nullifier_tree w')) = add_places (place_of (imt_list (nullifier_tree w))) (block_nullifiers blk) (cn * 2 ^ sn) \<and>
    proposed_blocks w' = with_block pending (proposed_blocks w) \<and> next_number w' = n + 1 \<and>
    client_transactions w' = client_transactions w \<and> deposits w' = deposits w \<and>
    is_synchronised (sync_status w') = (current = n + 1)"
proof -
  let ?w1 = "w\<lparr>next_number := n + 1, sync_status := sync_after current (sync_status w)\<rparr>"
  have w1: "faults ?w1 = []" "trees_hold env (hc, sc, cc, fc) (hr, cr, gr) (hn, sn, cn) ?w1"
    "batch_ok hn sn cn (imt_values (nullifier_tree ?w1)) (block_nullifiers blk)"
    using assms(1,3,15) by (simp_all add: trees_hold_def)
  have root: "commitments_get_root ?w1 = (Inr (mnode (pe_tree_hash env) fc (hc + sc) 0), ?w1)"
    by (rule commitments_root_run [OF w1(1), where c = cc]) (use w1(2) in \<open>simp add: trees_hold_def\<close>)
  obtain t u where upd: "update_trees env blk ?w1 = (Inr (), ?w1\<lparr>commitment_tree := t, nullifier_tree := u\<rparr>)"
    "tree_holds (pe_tree_hash env) hc sc (cc + length (block_commitments blk) div 2 ^ sc)
       (put_leaves fc (cc * 2 ^ sc) (block_commitments blk)) t"
    "imt_inv (pe_tree_hash env) (pe_hash env) (pe_ser env) hn sn (cn + length (block_nullifiers blk) div 2 ^ sn) u"
    "imt_values u = imt_values (nullifier_tree ?w1) \<union> {v \<in> set (block_nullifiers blk). v \<noteq> 0}"
    "place_of (imt_list u) = add_places (place_of (imt_list (nullifier_tree ?w1))) (block_nullifiers blk) (cn * 2 ^ sn)"
    by (rule update_trees_run [OF w1(1) assms(2) w1(2) assms(7,12-14) w1(3)])
  let ?w2 = "?w1\<lparr>commitment_tree := t, nullifier_tree := u\<rparr>"
  have w2: "faults ?w2 = []" "trees_hold env (hc, sc, cc + length (block_commitments blk) div 2 ^ sc,
       put_leaves fc (cc * 2 ^ sc) (block_commitments blk)) (hr, cr, gr) (hn, sn, cn + length (block_nullifiers blk) div 2 ^ sn) ?w2"
    "may_store pending (proposed_blocks ?w2)"
    using w1 upd(2,3) assms(8) by (simp_all add: trees_hold_def)
  obtain h where fin: "finish_block env current blk n pending ?w2 =
      (Inr (), ?w2\<lparr>historic_root_tree := h, proposed_blocks := with_block pending (proposed_blocks ?w2),
         sync_status := new_sync_status (if current = n + 1 then Synchronized else Desynchronized)\<rparr>)"
    "tree_holds (pe_tree_hash env) hr 0 (cr + 1) (put_leaves gr cr [fr (unat (blk_commitments_root blk))]) h"
    by (rule finish_block_run [OF w2(1,2) assms(11,16) w2(3)])
  have "proposer_block_event env answers blk n w = (Inr (), ?w2\<lparr>historic_root_tree := h, proposed_blocks := with_block pending (proposed_blocks ?w2),
         sync_status := new_sync_status (if current = n + 1 then Synchronized else Desynchronized)\<rparr>)"
    unfolding in_order_event [OF assms(1,4-8)] assms(9) apply_proposed_block_split
    by (simp add: bindM_def map_errM_def root readM_def assms(10) upd(1) fin(1))
  then show ?thesis
    by (intro exI conjI) (assumption, use upd(2-5) fin(2) in \<open>simp_all add: trees_hold_def new_sync_status_def is_synchronised_def\<close>)
qed

text \<open>C5. A block of another proposer that comes in order is applied, when the calls of the database and of the chain
  succeed: its commitments are the next leaves of the commitment tree, its non-zero nullifiers enter the nullifier
  tree, at the indices of their places in the block, and its commitment root is the next leaf of the historic root tree; the stored nodes and roots of the three
  trees are those of the new leaves. The block is stored, the expected number advances by one, the mempool is
  not touched, and the proposer is synchronised afterwards exactly when the chain has no later block.\<close>

theorem proposed_block_applied:
  fixes env :: "('p, 'e, 'y) proposer_env_scheme" and w :: "('p, 'z) proposer_state_scheme"
  assumes "faults w = []" "pe_tree_hash env 0 0 = 0" "trees_hold env (hc, sc, cc, fc) (hr, cr, gr) (hn, sn, cn) w"
    "next_number w = n" "i256_to_u64 n = Some k" "pa_signer answers = Inr (Some sender)"
    "proposer_stored_block env k sender blk = Some pending" "find_block k (proposed_blocks w) = None"
    "pa_current_block answers = Inr current" "pe_address env \<noteq> sender" "unat (blk_commitments_root blk) \<le> fr_modulus"
    "length (block_commitments blk) mod 2 ^ sc = 0" "block_commitments blk \<noteq> []" "cc + length (block_commitments blk) div 2 ^ sc \<le> 2 ^ hc"
    "batch_ok hn sn cn (imt_values (nullifier_tree w)) (block_nullifiers blk)" "cr + 1 \<le> 2 ^ hr"
  shows "\<exists>w'. proposer_block_event env answers blk n w = (Inr (), w') \<and>
    trees_hold env (hc, sc, cc + length (block_commitments blk) div 2 ^ sc, put_leaves fc (cc * 2 ^ sc) (block_commitments blk))
      (hr, cr + 1, put_leaves gr cr [fr (unat (blk_commitments_root blk))]) (hn, sn, cn + length (block_nullifiers blk) div 2 ^ sn) w' \<and>
    imt_values (nullifier_tree w') = imt_values (nullifier_tree w) \<union> {v \<in> set (block_nullifiers blk). v \<noteq> 0} \<and>
    place_of (imt_list (nullifier_tree w')) = add_places (place_of (imt_list (nullifier_tree w))) (block_nullifiers blk) (cn * 2 ^ sn) \<and>
    proposed_blocks w' = proposed_blocks w @ [pending] \<and> next_number w' = n + 1 \<and>
    client_transactions w' = client_transactions w \<and> deposits w' = deposits w \<and>
    is_synchronised (sync_status w') = (current = n + 1)"
proof -
  have s: "may_store pending (proposed_blocks w)" "with_block pending (proposed_blocks w) = proposed_blocks w @ [pending]"
    using assms(8) by (simp_all add: may_store_def with_block_def proposer_pending_number [OF assms(7)])
  show ?thesis using proposed_block_run [OF assms(1-7) s(1) assms(9-16)] unfolding s(2) .
qed

lemma own_block_staged:
  fixes env :: "('p, 'e, 'y) proposer_env_scheme" and w :: "('p, 'z) proposer_state_scheme"
  defines "y \<equiv> \<lambda>blk. fr (unat (blk_commitments_root blk))"
  assumes "faults w = []" "tree_holds (pe_tree_hash env) hc sc cc fc (commitment_tree w)"
    "tree_staged (pe_tree_hash env) hr cr gr v (historic_root_tree w)"
    "next_number w = n" "i256_to_u64 n = Some k" "pa_signer answers = Inr (Some (pe_address env))"
    "proposer_stored_block env k (pe_address env) blk = Some pending" "may_store pending (proposed_blocks w)"
    "pa_current_block answers = Inr current" "is_synchronised (sync_status w)" "mnode (pe_tree_hash env) fc (hc + sc) 0 \<noteq> 0"
    "unat (blk_commitments_root blk) \<le> fr_modulus" "cr < 2 ^ hr"
  shows "\<exists>w'. proposer_block_event env answers blk n w = (Inr (), w') \<and>
    commitment_tree w' = commitment_tree w \<and> nullifier_tree w' = nullifier_tree w \<and>
    store_inv True (historic_root_tree w') \<and> nodes_ok (pe_tree_hash env) hr (put_leaves gr cr [v]) (look (historic_root_tree w')) \<and>
    metadata (historic_root_tree w') = Some \<lparr>tree_height = hr, sub_tree_height = 0, sub_tree_count = cr + 1,
      root = mnode (pe_tree_hash env) (put_leaves gr cr [y blk]) hr 0\<rparr> \<and>
    proposed_blocks w' = with_block pending (proposed_blocks w) \<and> next_number w' = n + 1"
proof -
  let ?w1 = "w\<lparr>next_number := n + 1, sync_status := sync_after current (sync_status w)\<rparr>"
  have w1: "faults ?w1 = []" "tree_holds (pe_tree_hash env) hc sc cc fc (commitment_tree ?w1)"
    "tree_staged (pe_tree_hash env) hr cr gr v (historic_root_tree ?w1)"
    "may_store pending (proposed_blocks ?w1)"
    using assms(2-4,9) by simp_all
  have root: "commitments_get_root ?w1 = (Inr (mnode (pe_tree_hash env) fc (hc + sc) 0), ?w1)"
    by (rule commitments_root_run [OF w1(1,2)])
  have sync: "is_synchronised (sync_after current (sync_status w))"
    using assms(11) by (simp add: sync_after_def set_synchronised_def is_synchronised_def)
  obtain h where h: "append_historic_commitment_root (pe_tree_hash env) (y blk) True ?w1 =
      (Inr (mnode (pe_tree_hash env) (put_leaves gr cr [y blk]) hr 0), ?w1\<lparr>historic_root_tree := h\<rparr>)"
    "store_inv True h" "nodes_ok (pe_tree_hash env) hr (put_leaves gr cr [v]) (look h)"
    "metadata h = Some \<lparr>tree_height = hr, sub_tree_height = 0, sub_tree_count = cr + 1,
       root = mnode (pe_tree_hash env) (put_leaves gr cr [y blk]) hr 0\<rparr>"
    by (rule historic_commit_run [OF w1(1,3) assms(14)])
  note fin = finish_block_with [OF w1(1,2) assms(13) w1(4) h(1) [unfolded y_def], of current n]
  have "proposer_block_event env answers blk n w = (Inr (), ?w1\<lparr>historic_root_tree := h, proposed_blocks := with_block pending (proposed_blocks ?w1),
         sync_status := new_sync_status (if current = n + 1 then Synchronized else Desynchronized)\<rparr>)"
    unfolding in_order_event [OF assms(2,5-9)] assms(10) apply_proposed_block_split
    by (simp add: bindM_def map_errM_def root readM_def sync assms(12) returnM_def fin)
  then show ?thesis by (intro exI conjI) (assumption, use h(2-4) in simp_all)
qed

lemma own_block_run:
  fixes env :: "('p, 'e, 'y) proposer_env_scheme" and w :: "('p, 'z) proposer_state_scheme"
  assumes "faults w = []" "tree_holds (pe_tree_hash env) hc sc cc fc (commitment_tree w)"
    "tree_staged (pe_tree_hash env) hr cr gr (fr (unat (blk_commitments_root blk))) (historic_root_tree w)"
    "next_number w = n" "i256_to_u64 n = Some k" "pa_signer answers = Inr (Some (pe_address env))"
    "proposer_stored_block env k (pe_address env) blk = Some pending" "may_store pending (proposed_blocks w)"
    "pa_current_block answers = Inr current" "is_synchronised (sync_status w)" "mnode (pe_tree_hash env) fc (hc + sc) 0 \<noteq> 0"
    "unat (blk_commitments_root blk) \<le> fr_modulus" "cr < 2 ^ hr"
  shows "\<exists>w'. proposer_block_event env answers blk n w = (Inr (), w') \<and>
    commitment_tree w' = commitment_tree w \<and> nullifier_tree w' = nullifier_tree w \<and>
    tree_holds (pe_tree_hash env) hr 0 (cr + 1) (put_leaves gr cr [fr (unat (blk_commitments_root blk))]) (historic_root_tree w') \<and>
    proposed_blocks w' = with_block pending (proposed_blocks w) \<and> next_number w' = n + 1"
proof -
  have *: "store_inv True t \<Longrightarrow> nodes_ok th h f (look t) \<Longrightarrow>
      metadata t = Some \<lparr>tree_height = h, sub_tree_height = 0, sub_tree_count = c, root = mnode th f h 0\<rparr> \<Longrightarrow> tree_holds th h 0 c f t"
    for th h c f and t :: "fr254 tree_db"
    by (simp add: tree_holds_def tree_inv_def)
  show ?thesis using own_block_staged [OF assms] * by blast
qed

text \<open>A proposer that is synchronised does not apply its own block a second time: the trees of commitments and nullifiers
  are left as the assembly made them, and only the historic root, which the assembly has put into the cache, is appended
  for good; the block, which the assembly has stored, is stored once.\<close>

theorem own_block_not_applied_twice:
  fixes env :: "('p, 'e, 'y) proposer_env_scheme" and w :: "('p, 'z) proposer_state_scheme"
  assumes "faults w = []" "tree_holds (pe_tree_hash env) hc sc cc fc (commitment_tree w)"
    "tree_staged (pe_tree_hash env) hr cr gr (fr (unat (blk_commitments_root blk))) (historic_root_tree w)"
    "next_number w = n" "i256_to_u64 n = Some k" "pa_signer answers = Inr (Some (pe_address env))"
    "proposer_stored_block env k (pe_address env) blk = Some pending" "may_store pending (proposed_blocks w)"
    "pa_current_block answers = Inr current" "is_synchronised (sync_status w)" "mnode (pe_tree_hash env) fc (hc + sc) 0 \<noteq> 0"
    "unat (blk_commitments_root blk) \<le> fr_modulus" "cr < 2 ^ hr"
  shows "\<exists>w'. proposer_block_event env answers blk n w = (Inr (), w') \<and>
    commitment_tree w' = commitment_tree w \<and> nullifier_tree w' = nullifier_tree w \<and>
    tree_holds (pe_tree_hash env) hr 0 (cr + 1) (put_leaves gr cr [fr (unat (blk_commitments_root blk))]) (historic_root_tree w') \<and>
    proposed_blocks w' = with_block pending (proposed_blocks w) \<and> next_number w' = n + 1"
  by (rule own_block_run [OF assms])

section \<open>New and reset trees\<close>

definition fresh_tree :: "nat \<Rightarrow> nat \<Rightarrow> fr254 tree_db" where
  "fresh_tree h s = \<lparr>faults = [], metadata = Some \<lparr>tree_height = h, sub_tree_height = s, sub_tree_count = 0, root = 0\<rparr>, nodes = [], cache = []\<rparr>"

lemma fresh_tree_holds: "th 0 0 = 0 \<Longrightarrow> tree_holds th h s 0 (\<lambda>_. 0) (fresh_tree h s)"
proof -
  assume th: "th 0 0 = 0"
  have "look (fresh_tree h s) = (\<lambda>_. 0)" by (simp add: look_def fresh_tree_def fun_eq_iff)
  then show ?thesis using th by (simp add: tree_holds_def store_inv_def tree_inv_def nodes_ok_def heap_ok_def mnode_zero) (simp add: fresh_tree_def)
qed

lemma reset_tree_run: "faults t = [] \<Longrightarrow> reset_mutable_tree t = (Inr (), t\<lparr>metadata := None, nodes := [], cache := []\<rparr>)"
  by (simp add: reset_mutable_tree_def bindM_def db_write_ok)

lemma new_tree_run:
  "faults t = [] \<Longrightarrow> metadata t = None \<Longrightarrow> nodes t = [] \<Longrightarrow> cache t = [] \<Longrightarrow> new_mutable_tree h s t = (Inr (), fresh_tree h s)"
  by (cases t) (simp add: new_mutable_tree_def db_insert_ok fresh_tree_def)

lemma reset_commitments_run:
  assumes "faults w = []" "faults (commitment_tree w) = []"
  shows "reset_commitments w = (Inr (), w\<lparr>commitment_tree := fresh_tree 29 3\<rparr>)"
proof -
  let ?t = "(commitment_tree w)\<lparr>metadata := None, nodes := [], cache := []\<rparr>"
  have a: "in_commitments reset_mutable_tree w = (Inr (), w\<lparr>commitment_tree := ?t\<rparr>)"
    by (rule in_commitments_run) (use assms in \<open>simp_all add: reset_tree_run\<close>)
  have b: "in_commitments (new_mutable_tree 29 3) (w\<lparr>commitment_tree := ?t\<rparr>) = (Inr (), w\<lparr>commitment_tree := ?t\<rparr>\<lparr>commitment_tree := fresh_tree 29 3\<rparr>)"
    by (rule in_commitments_run) (use assms in \<open>simp_all add: new_tree_run\<close>, simp add: fresh_tree_def)
  show ?thesis by (simp add: reset_commitments_def bindM_def ignoreM_def a b)
qed

lemma reset_historic_run:
  assumes "faults w = []" "faults (historic_root_tree w) = []"
  shows "reset_historic_roots w = (Inr (), w\<lparr>historic_root_tree := fresh_tree 32 0\<rparr>)"
proof -
  let ?t = "(historic_root_tree w)\<lparr>metadata := None, nodes := [], cache := []\<rparr>"
  have a: "in_historic_roots reset_mutable_tree w = (Inr (), w\<lparr>historic_root_tree := ?t\<rparr>)"
    by (rule in_historic_roots_run) (use assms in \<open>simp_all add: reset_tree_run\<close>)
  have b: "in_historic_roots (new_mutable_tree 32 0) (w\<lparr>historic_root_tree := ?t\<rparr>) = (Inr (), w\<lparr>historic_root_tree := ?t\<rparr>\<lparr>historic_root_tree := fresh_tree 32 0\<rparr>)"
    by (rule in_historic_roots_run) (use assms in \<open>simp_all add: new_tree_run\<close>, simp add: fresh_tree_def)
  show ?thesis by (simp add: reset_historic_roots_def bindM_def ignoreM_def a b)
qed

lemma reset_nullifiers_run:
  assumes "faults w = []" "faults (nullifier_tree w) = []" "th 0 0 = 0" "ser_ok ser"
  obtains u where "reset_nullifiers th hash ser w = (Inr (), w\<lparr>nullifier_tree := u\<rparr>)" "imt_inv th hash ser 29 3 1 u" "imt_values u = {0}"
proof -
  let ?t = "(nullifier_tree w)\<lparr>metadata := None, nodes := [], cache := []\<rparr>"
  let ?t' = "?t\<lparr>indexed_leaves := []\<rparr>"
  obtain u where u: "new_indexed_tree th hash ser 29 3 ?t' = (Inr (), u)" "imt_inv th hash ser 29 3 1 u" "imt_values u = {0}"
    by (rule new_indexed_tree_ok [of th ser ?t' hash 29 3, OF assms(3,4)]) (use assms(2) in simp_all)
  have a: "in_nullifiers reset_mutable_tree w = (Inr (), w\<lparr>nullifier_tree := ?t\<rparr>)"
    by (rule in_nullifiers_run) (use assms in \<open>simp_all add: reset_tree_run\<close>)
  have b: "in_nullifiers (db_write DatabaseError (\<lambda>w. w\<lparr>indexed_leaves := []\<rparr>)) (w\<lparr>nullifier_tree := ?t\<rparr>) =
      (Inr (), w\<lparr>nullifier_tree := ?t\<rparr>\<lparr>nullifier_tree := ?t'\<rparr>)"
    by (rule in_nullifiers_run) (use assms in \<open>simp_all add: db_write_ok\<close>)
  have c: "in_nullifiers (new_indexed_tree th hash ser 29 3) (w\<lparr>nullifier_tree := ?t\<rparr>\<lparr>nullifier_tree := ?t'\<rparr>) =
      (Inr (), w\<lparr>nullifier_tree := ?t\<rparr>\<lparr>nullifier_tree := ?t'\<rparr>\<lparr>nullifier_tree := u\<rparr>)"
    by (rule in_nullifiers_run [of _ "new_indexed_tree th hash ser 29 3"]) (use assms(1,2) u(1) imt_invD(7) [OF u(2)] in simp_all)
  show thesis
    by (rule that [OF _ u(2,3)])
      (simp only: reset_nullifiers_def bindM_def ignoreM_def a b c prod.case sum.case snd_conv, simp)
qed

lemma remove_all_run:
  "faults w = [] \<Longrightarrow> remove_all_mempool_deposits w = (Inr (Some (length (deposits w))), w\<lparr>deposits := []\<rparr>)"
  "faults w = [] \<Longrightarrow> remove_all_mempool_client_transactions w = (Inr (Some (length (client_transactions w))), w\<lparr>client_transactions := []\<rparr>)"
  by (simp_all add: remove_all_mempool_deposits_def remove_all_mempool_client_transactions_def tryM_def db_call_ok)

lemma clean_database_run:
  assumes "healthy_proposer w" "pe_tree_hash env 0 0 = 0" "ser_ok (pe_ser env)"
  obtains u where "clean_database env w = (Inr (), w\<lparr>commitment_tree := fresh_tree 29 3, historic_root_tree := fresh_tree 32 0,
      nullifier_tree := u, deposits := [], client_transactions := []\<rparr>)"
    "imt_inv (pe_tree_hash env) (pe_hash env) (pe_ser env) 29 3 1 u" "imt_values u = {0}"
proof -
  have f: "faults w = []" "faults (commitment_tree w) = []" "faults (historic_root_tree w) = []" "faults (nullifier_tree w) = []"
    using assms(1) by (simp_all add: healthy_proposer_def)
  let ?w1 = "w\<lparr>commitment_tree := fresh_tree 29 3\<rparr>"
  let ?w2 = "?w1\<lparr>historic_root_tree := fresh_tree 32 0\<rparr>"
  have a: "drop_result reset_commitments w = ((Inr () :: event_error failure + unit), ?w1)"
    by (simp add: drop_result_def reset_commitments_run f)
  have b: "drop_result reset_historic_roots ?w1 = ((Inr () :: event_error failure + unit), ?w2)"
    by (simp add: drop_result_def reset_historic_run f)
  obtain u where u: "reset_nullifiers (pe_tree_hash env) (pe_hash env) (pe_ser env) ?w2 = (Inr (), ?w2\<lparr>nullifier_tree := u\<rparr>)"
    "imt_inv (pe_tree_hash env) (pe_hash env) (pe_ser env) 29 3 1 u" "imt_values u = {0}"
    by (rule reset_nullifiers_run [of ?w2 "pe_tree_hash env" "pe_ser env" "pe_hash env", OF _ _ assms(2,3)]) (use f in simp_all)
  have c: "drop_result (reset_nullifiers (pe_tree_hash env) (pe_hash env) (pe_ser env)) ?w2 = ((Inr () :: event_error failure + unit), ?w2\<lparr>nullifier_tree := u\<rparr>)"
    by (simp add: drop_result_def u(1))
  show thesis
    by (rule that [OF _ u(2,3)])
      (simp only: clean_database_def bindM_def a b c prod.case sum.case, simp add: f remove_all_run returnM_def)
qed

section \<open>A gap\<close>

lemma gap_event:
  assumes "next_number w < n" "i256_to_u64 (next_number w) = Some k" "pa_transaction (pl_chain log) = Inr (Some (Inr (ProposesBlock blk)))"
    "pa_signer (pl_chain log) = Inr (Some sender)" "i256_to_u64 n = Some number"
    "proposer_stored_block env number sender blk = Some pending" "pl_transaction_hash log = Some h"
  shows "proposer_process_events env (BlockProposedEvent n) log w =
    (Inl (Fails (MissingBlocks k)), w\<lparr>sync_status := clear_synchronised (sync_status w)\<rparr>)"
  using assms by (simp add: proposer_process_events_def proposer_handle_event_def proposer_calldata_def proposer_block_event_def
      readM_def set_sync_def bindM_def okM_def returnM_def throwM_def liftM_def)

text \<open>C27. A gap in the numbers of the blocks costs the proposer its trees and its mempool: the listener resets the
  three trees, removes every deposit and every transaction from the mempool and starts again, but the expected number
  stays what it was. So every block below it that is delivered again is skipped without a change, and the leaves
  of the blocks that had been applied do not come back; nor does the zero leaf of the historic root tree.\<close>

theorem gap_empties_trees:
  fixes env :: "('p, 'e, 'y) proposer_env_scheme" and w :: "('p, 'z) proposer_state_scheme"
  assumes "healthy_proposer w" "pe_tree_hash env 0 0 = 0" "ser_ok (pe_ser env)"
    "next_number w < n" "i256_to_u64 (next_number w) = Some k" "i256_to_u64 n = Some number"
    "log = \<lparr>pl_event = Some (BlockProposedEvent n), pl_transaction_hash = Some h,
       pl_chain = \<lparr>pa_transaction = Inr (Some (Inr (ProposesBlock blk))), pa_signer = Inr (Some sender), pa_current_block = current\<rparr>\<rparr>"
    "proposer_stored_block env number sender blk = Some pending"
  shows "\<exists>w'. proposer_event_loop env (proposer_restart env attempts start) (log # events) w =
      bindM (start (case attempts of None \<Rightarrow> 10 | Some a \<Rightarrow> a)) (\<lambda>_. throwM (Fails StreamTerminated)) w' \<and>
    trees_hold env (29, 3, 0, \<lambda>_. 0) (32, 0, \<lambda>_. 0) (29, 3, 1) w' \<and> imt_values (nullifier_tree w') = {0} \<and>
    client_transactions w' = [] \<and> deposits w' = [] \<and> \<not> is_synchronised (sync_status w') \<and> next_number w' = next_number w \<and>
    (\<forall>m j blk' sender' pending' answers. m < next_number w \<and> i256_to_u64 m = Some j \<and> pa_signer answers = Inr (Some sender') \<and>
       proposer_stored_block env j sender' blk' = Some pending' \<longrightarrow> proposer_block_event env answers blk' m w' = (Inr (), w'))"
proof -
  let ?w1 = "w\<lparr>sync_status := clear_synchronised (sync_status w)\<rparr>"
  have ev: "proposer_process_events env (BlockProposedEvent n) log w = (Inl (Fails (MissingBlocks k)), ?w1)"
    by (rule gap_event) (use assms in simp_all)
  have w1: "healthy_proposer ?w1" using assms(1) by (simp add: healthy_proposer_def)
  obtain u where u: "clean_database env ?w1 = (Inr (), ?w1\<lparr>commitment_tree := fresh_tree 29 3, historic_root_tree := fresh_tree 32 0,
      nullifier_tree := u, deposits := [], client_transactions := []\<rparr>)"
    "imt_inv (pe_tree_hash env) (pe_hash env) (pe_ser env) 29 3 1 u" "imt_values u = {0}"
    by (rule clean_database_run [OF w1 assms(2,3)])
  let ?w2 = "?w1\<lparr>commitment_tree := fresh_tree 29 3, historic_root_tree := fresh_tree 32 0, nullifier_tree := u, deposits := [], client_transactions := []\<rparr>"
  have "\<not> is_synchronised (sync_status ?w1)" by (simp add: clear_synchronised_def is_synchronised_def)
  then have "bindM (proposer_restart env attempts start) (\<lambda>_. throwM (Fails StreamTerminated)) ?w1 =
      bindM (start (case attempts of None \<Rightarrow> 10 | Some a \<Rightarrow> a)) (\<lambda>_. throwM (Fails StreamTerminated)) ?w2"
    by (simp only: proposer_restart_def bindM_assoc) (simp only: bindM_def readM_def prod.case sum.case if_False u(1) returnM_def, simp split: prod.split sum.split)
  then have "proposer_event_loop env (proposer_restart env attempts start) (log # events) w =
      bindM (start (case attempts of None \<Rightarrow> 10 | Some a \<Rightarrow> a)) (\<lambda>_. throwM (Fails StreamTerminated)) ?w2"
    using ev by (simp add: assms(7))
  moreover have "trees_hold env (29, 3, 0, \<lambda>_. 0) (32, 0, \<lambda>_. 0) (29, 3, 1) ?w2"
    using u(2) by (simp add: trees_hold_def fresh_tree_holds assms(2))
  moreover have "proposer_block_event env answers blk' m ?w2 = (Inr (), ?w2)"
    if "m < next_number w" "i256_to_u64 m = Some j" "pa_signer answers = Inr (Some sender')"
       "proposer_stored_block env j sender' blk' = Some pending'" for m j blk' sender' pending' answers
    using that by (simp add: proposer_block_event_def bindM_def readM_def returnM_def liftM_def)
  ultimately show ?thesis
    by (intro exI [of _ ?w2]) (simp add: u(3) clear_synchronised_def is_synchronised_def)
qed

section \<open>The nesting of restarts\<close>

text \<open>The streams that are left: handling an event opens none.\<close>

locale proposer_frame =
  fixes I :: "('p, 'z) proposer_state_scheme \<Rightarrow> bool"
  assumes call: "I w \<Longrightarrow> I (w\<lparr>faults := bs\<rparr>)"
    and in_trees: "I w \<Longrightarrow> I (w\<lparr>commitment_tree := t\<rparr>)" "I w \<Longrightarrow> I (w\<lparr>historic_root_tree := t\<rparr>)" "I w \<Longrightarrow> I (w\<lparr>nullifier_tree := u\<rparr>)"
    and in_mempool: "I w \<Longrightarrow> I (w\<lparr>client_transactions := ts\<rparr>)" "I w \<Longrightarrow> I (w\<lparr>deposits := ds\<rparr>)"
    and in_blocks: "I w \<Longrightarrow> I (w\<lparr>proposed_blocks := ps\<rparr>)"
    and in_status: "I w \<Longrightarrow> I (w\<lparr>next_number := i\<rparr>)" "I w \<Longrightarrow> I (w\<lparr>sync_status := s\<rparr>)"
begin

lemma calls_kept: "(\<And>w. I w \<Longrightarrow> I (snd (f w))) \<Longrightarrow> keeps I (db_call e f)"
  by (rule keeps_db_call [where I = I]) (auto intro: call)

lemma reads_kept [keeps_intros]: "keeps I (db_read e f)"
  unfolding db_read_def by (rule calls_kept) simp

lemma writes_kept: "(\<And>w. I w \<Longrightarrow> I (f w)) \<Longrightarrow> keeps I (db_write e f)"
  unfolding db_write_def by (rule calls_kept) simp

lemma in_trees_kept [keeps_intros]: "keeps I (in_commitments m)" "keeps I (in_historic_roots m)" "keeps I (in_nullifiers m')"
  by (auto simp: keeps_def in_commitments_def in_historic_roots_def in_nullifiers_def zoomM_def split: prod.split intro!: in_trees call)

lemma status_kept [keeps_intros]: "keeps I (set_sync f)" "keeps I advance" "keeps I (readM g)"
  by (auto simp: keeps_def set_sync_def advance_def readM_def intro: in_status)

lemma trees_kept [keeps_intros]:
  "keeps I (commitments_append th cs b)" "keeps I (append_historic_commitment_root th v b)" "keeps I commitments_get_root"
  "keeps I (insert_nullifiers th hash ser ns)" "keeps I reset_commitments" "keeps I reset_historic_roots" "keeps I (reset_nullifiers th hash ser)"
  unfolding commitments_append_def append_historic_commitment_root_def commitments_get_root_def insert_nullifiers_def
    reset_commitments_def reset_historic_roots_def reset_nullifiers_def
  by (intro keeps_intros)+

lemma fr_ofM_kept [keeps_intros]: "keeps I (fr_ofM u)"
  unfolding fr_ofM_def by (intro keeps_intros)

lemma blocks_kept [keeps_intros]: "keeps I (proposer_get_block k)" "keeps I (proposer_delete_block k)" "keeps I (proposer_store_block b)"
  unfolding proposer_get_block_def proposer_delete_block_def proposer_store_block_def
  by (intro keeps_intros writes_kept in_blocks; assumption)+

lemma deposit_kept [keeps_intros]: "keeps I (process_deposit_escrowed env tx f)"
proof -
  have w: "keeps I (db_write e (\<lambda>w. w\<lparr>deposits := g w\<rparr>))" for e g by (rule writes_kept) (rule in_mempool)
  show ?thesis
    unfolding process_deposit_escrowed_def process_deposit_transaction_def find_deposit_def set_mempool_deposits_def Let_def
    by (intro keeps_intros w)
qed

lemma applied_kept [keeps_intros]: "keeps I (proposer_block_event env answers blk n)"
  unfolding proposer_block_event_def compare_with_stored_def apply_proposed_block_def update_trees_def Let_def
  by (intro keeps_intros)

lemma calldata_kept [keeps_intros]: "keeps I (proposer_calldata env answers n)"
  unfolding proposer_calldata_def
  by (intro keeps_intros, simp split: proposer_call.split) (intro allI conjI impI keeps_intros)

lemma event_kept [keeps_intros]: "keeps I (proposer_process_events env e log)"
  unfolding proposer_process_events_def proposer_handle_event_def
  by (cases e) (auto intro!: keeps_intros)

lemma drop_kept [keeps_intros]: "keeps I m \<Longrightarrow> keeps I (drop_result m)"
  by (auto simp: keeps_def drop_result_def split: prod.split sum.split merkle_error.split; metis snd_conv)

lemma clean_kept [keeps_intros]: "keeps I (clean_database env)"
  unfolding clean_database_def remove_all_mempool_deposits_def remove_all_mempool_client_transactions_def
  by (intro keeps_intros calls_kept) (auto intro: in_mempool)

end

interpretation streams_left: proposer_frame "\<lambda>w. subscriptions w = s" for s
  by unfold_locales simp_all

lemma same_subscriptions:
  "subscriptions (snd (proposer_process_events env e log w)) = subscriptions w"
  "subscriptions (snd (clean_database env w')) = subscriptions w'"
  using streams_left.event_kept [of "subscriptions w" env e log] streams_left.clean_kept [of "subscriptions w'" env]
  unfolding keeps_def by blast+

text \<open>An operation that uses up streams but adds none, and two operations that agree where at most \<open>n\<close> are left.\<close>

definition uses_up :: "('p, 'z, 'a) proposer_eventM \<Rightarrow> bool" where
  "uses_up m \<longleftrightarrow> (\<forall>w. length (subscriptions (snd (m w))) \<le> length (subscriptions w))"

definition agree_below :: "nat \<Rightarrow> ('p, 'z, 'a) proposer_eventM \<Rightarrow> ('p, 'z, 'a) proposer_eventM \<Rightarrow> bool" where
  "agree_below n m m' \<longleftrightarrow> (\<forall>w. length (subscriptions w) < n \<longrightarrow> m w = m' w)"

lemma restart_then_uses:
  assumes "uses_up r"
  shows "length (subscriptions (snd (bindM r (\<lambda>_. throwM e) w))) \<le> length (subscriptions w)"
  using assms by (auto simp: uses_up_def bindM_def throwM_def split: prod.split sum.split) (metis snd_conv)+

lemma event_loop_uses:
  assumes "uses_up r"
  shows "length (subscriptions (snd (proposer_event_loop env r logs w))) \<le> length (subscriptions w)"
proof (induction logs arbitrary: w)
  case (Cons log logs)
  show ?case
  proof (cases "pl_event log")
    case (Some e)
    obtain x w' where x: "proposer_process_events env e log w = (x, w')" by fastforce
    have s: "subscriptions w' = subscriptions w" using same_subscriptions(1) [of env e log w] x by simp
    show ?thesis using Cons.IH [of w'] restart_then_uses [OF assms, of _ w'] s Some x
      by (auto split: sum.split failure.split event_error.split)
  qed (simp add: Cons.IH)
qed (simp add: throwM_def)

lemma event_loop_agree:
  assumes "agree_below (Suc n) r r'" "length (subscriptions w) \<le> n"
  shows "proposer_event_loop env r logs w = proposer_event_loop env r' logs w"
  using assms(2)
proof (induction logs arbitrary: w)
  case (Cons log logs)
  show ?case
  proof (cases "pl_event log")
    case (Some e)
    obtain x w' where x: "proposer_process_events env e log w = (x, w')" by fastforce
    have s: "subscriptions w' = subscriptions w" using same_subscriptions(1) [of env e log w] x by simp
    have "r w' = r' w'" using assms(1) Cons.prems s by (simp add: agree_below_def)
    then show ?thesis using Cons s Some x
      by (simp add: bindM_def split: sum.split failure.split event_error.split)
  qed (simp add: Cons)
qed simp

lemma listen_cases:
  "proposer_listen env r w =
     (case subscriptions w of
        [] \<Rightarrow> (Inl (Fails NoEventStream), w)
      | Inl _ # rest \<Rightarrow> (Inl (Fails NoEventStream), w\<lparr>subscriptions := rest\<rparr>)
      | Inr events # rest \<Rightarrow> proposer_event_loop env r events (w\<lparr>subscriptions := rest\<rparr>))"
  by (simp add: proposer_listen_def bindM_def proposer_subscribe_def split: list.split sum.split)

lemma listen_uses:
  assumes "uses_up r"
  shows "length (subscriptions (snd (proposer_listen env r w))) \<le> length (subscriptions w)"
  using event_loop_uses [OF assms, of env _ "w\<lparr>subscriptions := tl (subscriptions w)\<rparr>"]
  by (auto simp: listen_cases le_SucI split: list.split sum.split)

lemma listen_agree:
  assumes "agree_below n r r'" "length (subscriptions w) \<le> n"
  shows "proposer_listen env r w = proposer_listen env r' w"
proof (cases "subscriptions w")
  case (Cons s rest)
  then obtain k where k: "n = Suc k" "length rest \<le> k" using assms(2) by (cases n) auto
  have "proposer_event_loop env r logs (w\<lparr>subscriptions := rest\<rparr>) = proposer_event_loop env r' logs (w\<lparr>subscriptions := rest\<rparr>)" for logs
    by (rule event_loop_agree [where n = k]) (use assms(1) k in simp_all)
  then show ?thesis by (simp add: listen_cases Cons split: sum.split)
qed (simp add: listen_cases)

lemma attempts_uses:
  assumes "uses_up r"
  shows "length (subscriptions (snd (proposer_attempts env r k d w))) \<le> length (subscriptions w)"
proof (induction k arbitrary: d w)
  case (Suc k)
  obtain x w' where x: "proposer_listen env r w = (x, w')" by fastforce
  have s: "length (subscriptions w') \<le> length (subscriptions w)" using listen_uses [OF assms, of env w] x by simp
  have "length (subscriptions (snd (bindM (proposer_attempts env r k d') (\<lambda>ps. returnM (d # ps)) w'))) \<le> length (subscriptions w)" for d'
    using Suc.IH [of d' w'] s by (cases "proposer_attempts env r k d' w'") (simp add: bindM_def returnM_def split: sum.split)
  then show ?case using x s by (simp split: sum.split failure.split)
qed (simp add: returnM_def)

lemma attempts_agree:
  assumes "agree_below n r r'" "uses_up r" "length (subscriptions w) \<le> n"
  shows "proposer_attempts env r k d w = proposer_attempts env r' k d w"
  using assms(3)
proof (induction k arbitrary: d w)
  case (Suc k)
  obtain x w' where x: "proposer_listen env r w = (x, w')" by fastforce
  have s: "length (subscriptions w') \<le> n" using listen_uses [OF assms(2), of env w] x Suc.prems by simp
  have "proposer_listen env r' w = (x, w')" using listen_agree [OF assms(1) Suc.prems, of env] x by simp
  then show ?case using x Suc.IH [OF s] by (simp add: bindM_def split: sum.split failure.split)
qed simp

lemma restart_uses:
  assumes "\<And>k. uses_up (start k)"
  shows "uses_up (proposer_restart env a start)"
  unfolding uses_up_def
proof
  fix w :: "('a, 'b) proposer_state_scheme"
  obtain x w' where x: "clean_database env w = (x, w')" by fastforce
  have s: "subscriptions w' = subscriptions w" using same_subscriptions(2) [of env w] x by simp
  show "length (subscriptions (snd (proposer_restart env a start w))) \<le> length (subscriptions w)"
    using assms s x
    by (auto simp: proposer_restart_def bindM_def readM_def throwM_def returnM_def uses_up_def split: sum.split prod.split)
      (metis snd_conv)+
qed

lemma listener_uses: "uses_up (proposer_listener env a n k :: ('p, 'z, nat list) proposer_eventM)"
proof (induction n arbitrary: k)
  case (Suc n)
  have "uses_up (proposer_restart env a (proposer_listener env a n) :: ('p, 'z, unit) proposer_eventM)" by (rule restart_uses) (rule Suc)
  then show ?case unfolding uses_up_def proposer_listener.simps by (intro allI attempts_uses) (simp add: uses_up_def)
qed (simp add: uses_up_def throwM_def)

text \<open>Each restart of the listener subscribes again and takes one of the streams of the chain that are left: a depth above their number is enough.\<close>

lemma listener_agree:
  fixes w :: "('p, 'z) proposer_state_scheme"
  shows "length (subscriptions w) < n \<Longrightarrow> length (subscriptions w) < m \<Longrightarrow>
    proposer_listener env a n k w = proposer_listener env a m k w"
proof (induction n arbitrary: m k w)
  case (Suc n)
  then obtain m' where m: "m = Suc m'" by (cases m) auto
  let ?l = "length (subscriptions w)"
  have "agree_below ?l (proposer_restart env a (proposer_listener env a n) :: ('p, 'z, unit) proposer_eventM) (proposer_restart env a (proposer_listener env a m'))"
    unfolding agree_below_def
  proof (intro allI impI)
    fix u :: "('p, 'z) proposer_state_scheme"
    assume u: "length (subscriptions u) < ?l"
    obtain x u' where x: "clean_database env u = (x, u')" by fastforce
    have "subscriptions u' = subscriptions u" using same_subscriptions(2) [of env u] x by simp
    then have "proposer_listener env a n j u' = proposer_listener env a m' j u'" for j
      using Suc.IH [of u' m' j] u Suc.prems m by simp
    then show "proposer_restart env a (proposer_listener env a n) u = proposer_restart env a (proposer_listener env a m') u"
      using x by (simp add: proposer_restart_def bindM_def readM_def split: sum.split)
  qed
  then show ?case unfolding m proposer_listener.simps
    by (intro attempts_agree [where n = ?l] restart_uses listener_uses) simp_all
qed simp

section \<open>Witnesses\<close>

definition transfer_tx_ex :: ContractTransaction where
  "transfer_tx_ex = \<lparr>ctx_fee = 0, ctx_commitments = [5, 0, 0, 0], ctx_nullifiers = [1, 0, 0, 0], ctx_public_data = [0, 0, 0, 0]\<rparr>"

definition transfer_block_ex :: Block where
  "transfer_block_ex = \<lparr>blk_commitments_root = 5, blk_nullifier_root = 0, blk_commitments_root_root = 0,
     blk_transactions = [transfer_tx_ex], blk_rollup_proof = []\<rparr>"

definition proposer_answers_ex :: "160 word \<Rightarrow> proposer_answers" where
  "proposer_answers_ex signer = \<lparr>pa_transaction = Inr (Some (Inr (ProposesBlock transfer_block_ex))), pa_signer = Inr (Some signer),
     pa_current_block = Inr 1\<rparr>"

definition one_leaf_ex :: "fr254 tree_db" where
  "one_leaf_ex = \<lparr>faults = [], metadata = Some \<lparr>tree_height = 0, sub_tree_height = 0, sub_tree_count = 1, root = fr 5\<rparr>,
     nodes = [(0, fr 5)], cache = []\<rparr>"

definition proposer_state_ex :: "fr254 tree_db \<Rightarrow> int \<Rightarrow> unit proposer_state" where
  "proposer_state_ex t n = \<lparr>faults = [], client_transactions = [], deposits = [], proposed_blocks = [], commitment_tree = t,
     historic_root_tree = fresh_tree 1 0, nullifier_tree = imt_ex 2 1, next_number = n, sync_status = new_sync_status Synchronized,
     subscriptions = []\<rparr>"

lemma proposer_env_ex_simps: "pe_tree_hash proposer_env_ex = th_fr" "pe_hash proposer_env_ex = hash_fr" "pe_ser proposer_env_ex = ser_fr"
  "pe_address proposer_env_ex = 9"
  by (simp_all add: proposer_env_ex_def)

lemma proposer_state_ex_simps: "faults (proposer_state_ex t n) = []" "next_number (proposer_state_ex t n) = n"
  "proposed_blocks (proposer_state_ex t n) = []" "nullifier_tree (proposer_state_ex t n) = imt_ex 2 1"
  "is_synchronised (sync_status (proposer_state_ex t n))" "subscriptions (proposer_state_ex t n) = []"
  by (simp_all add: proposer_state_ex_def new_sync_status_def is_synchronised_def)

lemma transfer_block_ex_pending: obtains pending where "proposer_stored_block proposer_env_ex k a transfer_block_ex = Some pending"
proof -
  have e: "expect_frbn 0 = Some (fr 0)" "expect_frbn 5 = Some (fr 5)" "expect_frbn 1 = Some (fr 1)"
    by (simp_all add: expect_small fr_modulus_def)
  have "\<exists>t. on_chain_transaction_from transfer_tx_ex = Some t"
    by (simp add: on_chain_transaction_from_def transfer_tx_ex_def e secrets_from_u256_def Let_def del: fr_zero)
  then show thesis using that by (auto simp: proposer_stored_block_def transfer_block_ex_def)
qed

lemma transfer_block_ex_values: "block_commitments transfer_block_ex = [fr 5, 0, 0, 0]" "block_nullifiers transfer_block_ex = [fr 1, 0, 0, 0]"
  by (simp_all add: block_commitments_def block_nullifiers_def transfer_block_ex_def transfer_tx_ex_def word_frs_def)

lemma trees_ex:
  "trees_hold proposer_env_ex (1, 2, 0, \<lambda>_. 0) (1, 0, \<lambda>_. 0) (2, 1, 1) (proposer_state_ex (fresh_tree 1 2) n)"
  "trees_hold proposer_env_ex (0, 0, 1, \<lambda>j. if j = 0 then fr 5 else 0) (1, 0, \<lambda>_. 0) (2, 1, 1) (proposer_state_ex one_leaf_ex n)"
proof -
  have "tree_holds th_fr 0 0 1 (\<lambda>j. if j = 0 then fr 5 else 0) one_leaf_ex"
    by (simp add: tree_holds_def store_inv_def tree_inv_def nodes_ok_def heap_ok_def look_def one_leaf_ex_def)
  then show "trees_hold proposer_env_ex (0, 0, 1, \<lambda>j. if j = 0 then fr 5 else 0) (1, 0, \<lambda>_. 0) (2, 1, 1) (proposer_state_ex one_leaf_ex n)"
    "trees_hold proposer_env_ex (1, 2, 0, \<lambda>_. 0) (1, 0, \<lambda>_. 0) (2, 1, 1) (proposer_state_ex (fresh_tree 1 2) n)"
    using fresh_tree_holds [of th_fr, OF th_fr_zero] imt_ex_ok(1) [of 2 1]
    by (simp_all add: trees_hold_def proposer_env_ex_simps proposer_state_ex_def)
qed

theorem proposed_block_applied_witness:
  "fst (proposer_block_event proposer_env_ex (proposer_answers_ex 8) transfer_block_ex 0 (proposer_state_ex (fresh_tree 1 2) 0)) = Inr () \<and>
   fr 1 \<in> imt_values (nullifier_tree (snd (proposer_block_event proposer_env_ex (proposer_answers_ex 8) transfer_block_ex 0
     (proposer_state_ex (fresh_tree 1 2) 0))))"
proof -
  obtain pending where p: "proposer_stored_block proposer_env_ex 0 8 transfer_block_ex = Some pending" by (rule transfer_block_ex_pending)
  have n: "i256_to_u64 0 = Some 0" by (simp add: i256_to_u64_def)
  have r: "unat (blk_commitments_root transfer_block_ex) \<le> fr_modulus" by (simp add: transfer_block_ex_def fr_modulus_def)
  have b: "batch_ok 2 1 1 (imt_values (nullifier_tree (proposer_state_ex (fresh_tree 1 2) 0))) (block_nullifiers transfer_block_ex)"
    by (simp add: batch_ok_def proposer_state_ex_simps imt_ex_ok(2) transfer_block_ex_values fr_one_neq_zero)
  have "\<exists>w'. proposer_block_event proposer_env_ex (proposer_answers_ex 8) transfer_block_ex 0 (proposer_state_ex (fresh_tree 1 2) 0) = (Inr (), w') \<and>
      imt_values (nullifier_tree w') = imt_values (nullifier_tree (proposer_state_ex (fresh_tree 1 2) 0)) \<union> {v \<in> set (block_nullifiers transfer_block_ex). v \<noteq> 0}"
    using proposed_block_applied [OF _ _ trees_ex(1) _ n _ p _ _ _ r _ _ _ b, where answers = "proposer_answers_ex 8" and current = 1]
    by (simp add: proposer_state_ex_simps proposer_env_ex_simps th_fr_zero proposer_answers_ex_def find_block_def transfer_block_ex_values) blast
  moreover have "fr 1 \<noteq> 0"
  proof -
    have "fr_val (fr 1) \<noteq> fr_val (fr 0)" unfolding fr_val_fr by (simp add: fr_modulus_def)
    then show ?thesis by (metis fr_zero)
  qed
  ultimately show ?thesis by (auto simp: transfer_block_ex_values simp del: One_nat_def)
qed

lemma staged_ex:
  obtains t where "tree_staged th_fr 1 0 (\<lambda>_. 0) (fr 5) t" "append_sub_trees th_fr [fr 5] False (fresh_tree 1 0) = (Inr (mnode th_fr (put_leaves (\<lambda>_. 0) 0 [fr 5]) 1 0, 0), t)"
proof -
  have "tree_holds th_fr 1 0 0 (\<lambda>_. 0) (fresh_tree 1 0)" by (rule fresh_tree_holds) (rule th_fr_zero)
  then have "tree_pending th_fr 1 0 (\<lambda>_. 0) (\<lambda>_. 0) (fresh_tree 1 0)" by (simp add: tree_holds_def clean_pending)
  then show thesis by (rule stage_leaf) (use that in simp_all)
qed

theorem own_block_not_applied_twice_witness:
  "commitment_tree (snd (proposer_block_event proposer_env_ex (proposer_answers_ex 9) transfer_block_ex 0
     (proposer_state_ex one_leaf_ex 0\<lparr>historic_root_tree := snd (append_sub_trees th_fr [fr 5] False (fresh_tree 1 0) ::
        (merkle_error + _) \<times> _)\<rparr>))) = one_leaf_ex"
proof -
  obtain pending where p: "proposer_stored_block proposer_env_ex 0 9 transfer_block_ex = Some pending" by (rule transfer_block_ex_pending)
  obtain t where t: "tree_staged th_fr 1 0 (\<lambda>_. 0) (fr 5) t"
    "append_sub_trees th_fr [fr 5] False (fresh_tree 1 0) = (Inr (mnode th_fr (put_leaves (\<lambda>_. 0) 0 [fr 5]) 1 0, 0) :: merkle_error + _, t)"
    by (rule staged_ex)
  let ?w = "proposer_state_ex one_leaf_ex 0\<lparr>historic_root_tree := t\<rparr>"
  have n: "i256_to_u64 0 = Some 0" by (simp add: i256_to_u64_def)
  have r: "unat (blk_commitments_root transfer_block_ex) \<le> fr_modulus" by (simp add: transfer_block_ex_def fr_modulus_def)
  have v: "unat (blk_commitments_root transfer_block_ex) = 5" by (simp add: transfer_block_ex_def)
  have "fr_val (fr 5) \<noteq> fr_val (fr 0)" unfolding fr_val_fr by (simp add: fr_modulus_def)
  then have five: "fr 5 \<noteq> (0 :: fr254)" by (metis fr_zero)
  have c: "tree_holds (pe_tree_hash proposer_env_ex) 0 0 1 (\<lambda>j. if j = 0 then fr 5 else 0) (commitment_tree ?w)"
    using trees_ex(2) [of 0] by (simp add: trees_hold_def)
  have s: "tree_staged (pe_tree_hash proposer_env_ex) 1 0 (\<lambda>_. 0) (fr (unat (blk_commitments_root transfer_block_ex))) (historic_root_tree ?w)"
    using t(1) by (simp add: proposer_env_ex_simps v)
  have "\<exists>w'. proposer_block_event proposer_env_ex (proposer_answers_ex 9) transfer_block_ex 0 ?w = (Inr (), w') \<and>
      commitment_tree w' = commitment_tree ?w"
    using own_block_not_applied_twice [OF _ c s _ n _ _ _ _ _ _ r, where answers = "proposer_answers_ex 9" and pending = pending and current = 1] p five
    by (simp add: proposer_state_ex_simps proposer_env_ex_simps proposer_answers_ex_def find_block_def may_store_def with_block_def) blast
  then show ?thesis by (auto simp: proposer_state_ex_def t(2) simp del: One_nat_def)
qed

theorem gap_empties_trees_witness:
  "\<exists>w'. proposer_event_loop proposer_env_ex (proposer_restart proposer_env_ex None (\<lambda>_. returnM []))
      [\<lparr>pl_event = Some (BlockProposedEvent 3), pl_transaction_hash = Some ''0x1'', pl_chain = proposer_answers_ex 8\<rparr>]
      (proposer_state_ex one_leaf_ex 1) = (Inl (Fails StreamTerminated), w') \<and>
    trees_hold proposer_env_ex (29, 3, 0, \<lambda>_. 0) (32, 0, \<lambda>_. 0) (29, 3, 1) w' \<and> next_number w' = 1"
proof -
  obtain pending where p: "proposer_stored_block proposer_env_ex 3 8 transfer_block_ex = Some pending" by (rule transfer_block_ex_pending)
  have h: "healthy_proposer (proposer_state_ex one_leaf_ex 1)"
    using imt_invD(7) [OF imt_ex_ok(1) [of 2 1]] by (simp add: healthy_proposer_def proposer_state_ex_def one_leaf_ex_def fresh_tree_def)
  have th: "pe_tree_hash proposer_env_ex 0 0 = 0" "ser_ok (pe_ser proposer_env_ex)"
    by (simp_all add: proposer_env_ex_simps th_fr_zero ser_ok_fr)
  have n: "next_number (proposer_state_ex one_leaf_ex 1) < 3" "i256_to_u64 (next_number (proposer_state_ex one_leaf_ex 1)) = Some 1" "i256_to_u64 3 = Some 3"
    by (simp_all add: proposer_state_ex_simps i256_to_u64_def)
  show ?thesis
    using gap_empties_trees [OF h th n proposer_answers_ex_def [THEN arg_cong, of "\<lambda>a. \<lparr>pl_event = Some (BlockProposedEvent 3),
        pl_transaction_hash = Some ''0x1'', pl_chain = a\<rparr>" 8] p, of None "\<lambda>_. returnM []" "[]"]
    by (auto simp: returnM_def throwM_def bindM_def proposer_state_ex_simps)
qed

end
