(* ===== verification/Deposit_Circuit.thy ===== *)
theory Deposit_Circuit
  imports Unified_Circuit Block_Selection
begin

text \<open>
  The circuit of four deposits, \<open>nightfall_proposer/src/driven/deposit_circuit.rs\<close>, and the deposit proof of
  \<open>rollup_prover.rs\<close>. The gadget for SHA-256, shifted right by four bits, is a parameter. The fee, the roots and the
  nullifiers are variables that the builder only makes public (\<open>create_public_variable\<close>): the circuit equates them with
  the public inputs and with nothing else, so their values are arguments; the builder of Nightfall takes zero.
\<close>

section \<open>The circuit\<close>

definition to_commitment :: "circuit_env \<Rightarrow> DepositData \<Rightarrow> bool \<Rightarrow> fr254 circuit" where
  "to_commitment env var flag =
     bindC (poseidon_gadget (ce_poseidon env) [dd_nf_token_id var, dd_nf_slot_id var, dd_value var, 0, 1, dd_secret_hash var])
       (\<lambda>calculated_hash. returnC (conditional_select flag calculated_hash 0))"

definition sha256_and_shift :: "(fr254 list \<Rightarrow> fr254) \<Rightarrow> DepositData \<Rightarrow> bool \<Rightarrow> fr254 circuit" where
  "sha256_and_shift sha var flag =
     (let sha256_var = sha [dd_nf_token_id var, dd_nf_slot_id var, dd_value var, dd_secret_hash var]
      in returnC (conditional_select flag sha256_var 0))"

definition is_real :: "DepositData \<Rightarrow> bool" where
  "is_real var =
     (let value_zero = (dd_value var = 0); id_zero = (dd_nf_token_id var = 0) in value_zero \<and> id_zero)"

text \<open>The variables that are made public without another constraint.\<close>

record deposit_public =
  dp_fee :: fr254
  dp_roots :: "fr254 list"
  dp_nullifiers :: "fr254 list"

definition deposit_public_zero :: deposit_public where
  "deposit_public_zero = \<lparr>dp_fee = 0, dp_roots = replicate 4 0, dp_nullifiers = replicate 4 0\<rparr>"

definition build_deposit_circuit ::
    "circuit_env \<Rightarrow> (fr254 list \<Rightarrow> fr254) \<Rightarrow> deposit_public \<Rightarrow> DepositData list \<Rightarrow> PublicInputs circuit" where
  "build_deposit_circuit env sha dp deposit_data =
     (let data_vars = deposit_data;
          flags = map is_real data_vars in
      bindC (mapC (\<lambda>(var, flag). to_commitment env var flag) (zip data_vars flags)) (\<lambda>new_commitments.
      bindC (mapC (\<lambda>(var, flag). sha256_and_shift sha var flag) (zip data_vars flags)) (\<lambda>sha_outputs.
      (let sha_outputs = sha_outputs @ [0] in
       returnC (public_inputs_default\<lparr>pi_fee := dp_fee dp, pi_roots := dp_roots dp, pi_commitments := new_commitments,
         pi_nullifiers := dp_nullifiers dp, pi_compressed_secrets := sha_outputs\<rparr>)))))"

definition deposit_circuit_builder ::
    "circuit_env \<Rightarrow> (fr254 list \<Rightarrow> fr254) \<Rightarrow> DepositData list \<Rightarrow> PublicInputs circuit" where
  "deposit_circuit_builder env sha deposit_data = build_deposit_circuit env sha deposit_public_zero deposit_data"

definition create_deposit_proof ::
    "circuit_env \<Rightarrow> (fr254 list \<Rightarrow> fr254) \<Rightarrow> ('q, 'k) proof_system \<Rightarrow> DepositData list \<Rightarrow>
     plonk_error + ('q, 'k) PlonkProof \<times> PublicInputs" where
  "create_deposit_proof env sha ps deposit_data =
     (case deposit_circuit_builder env sha deposit_data of
        Inl e \<Rightarrow> Inl (CircuitFails e)
      | Inr (public_inputs, satisfied) \<Rightarrow>
          (if \<not> satisfied then Inl ProvingFails
           else case ps_prove ps (public_inputs_vec public_inputs) of
                  None \<Rightarrow> Inl ProvingFails
                | Some output \<Rightarrow> Inr (from_recursive_output output (ps_vk_id ps), public_inputs)))"

section \<open>What it accepts\<close>

definition deposit_outputs :: "circuit_env \<Rightarrow> (fr254 list \<Rightarrow> fr254) \<Rightarrow> deposit_public \<Rightarrow> DepositData list \<Rightarrow> PublicInputs" where
  "deposit_outputs env sha dp ds =
     \<lparr>pi_fee = dp_fee dp, pi_roots = dp_roots dp,
      pi_commitments = map (\<lambda>d. if is_real d then 0 else commitment_of env [dd_nf_token_id d, dd_nf_slot_id d, dd_value d, 0, 1, dd_secret_hash d]) ds,
      pi_nullifiers = dp_nullifiers dp,
      pi_compressed_secrets = map (\<lambda>d. if is_real d then 0 else sha [dd_nf_token_id d, dd_nf_slot_id d, dd_value d, dd_secret_hash d]) ds @ [0]\<rparr>"

lemma mapC_return: "(\<And>x. x \<in> set xs \<Longrightarrow> k x = returnC (f x)) \<Longrightarrow> mapC k xs = returnC (map f xs)"
  by (induction xs) (simp_all add: returnC_def bindC_def)

lemma build_deposit_circuit_eq:
  assumes "poseidon_ok (ce_poseidon env)"
  shows "build_deposit_circuit env sha dp ds = returnC (deposit_outputs env sha dp ds)"
proof -
  have h: "to_commitment env d f = returnC (if f then 0 else commitment_of env [dd_nf_token_id d, dd_nf_slot_id d, dd_value d, 0, 1, dd_secret_hash d])"
    for d f
    by (simp add: to_commitment_def poseidon_gadget_def commitment_of [OF assms] bindC_def returnC_def conditional_select_def)
  have a: "mapC (\<lambda>(var, flag). to_commitment env var flag) (zip ds (map is_real ds)) =
      returnC (map (\<lambda>d. if is_real d then 0 else commitment_of env [dd_nf_token_id d, dd_nf_slot_id d, dd_value d, 0, 1, dd_secret_hash d]) ds)"
    unfolding h by (subst mapC_return [where f = "\<lambda>(d, f). if f then 0 else commitment_of env [dd_nf_token_id d, dd_nf_slot_id d, dd_value d, 0, 1, dd_secret_hash d]"])
      (auto simp: zip_map2 zip_same_conv_map o_def)
  have b: "mapC (\<lambda>(var, flag). sha256_and_shift sha var flag) (zip ds (map is_real ds)) =
      returnC (map (\<lambda>d. if is_real d then 0 else sha [dd_nf_token_id d, dd_nf_slot_id d, dd_value d, dd_secret_hash d]) ds)"
    by (subst mapC_return [where f = "\<lambda>(d, f). if f then 0 else sha [dd_nf_token_id d, dd_nf_slot_id d, dd_value d, dd_secret_hash d]"])
      (auto simp: zip_map2 zip_same_conv_map o_def sha256_and_shift_def conditional_select_def Let_def)
  show ?thesis
    unfolding build_deposit_circuit_def Let_def a b
    by (simp add: bindC_def returnC_def deposit_outputs_def public_inputs_default_def)
qed

section \<open>Properties\<close>

text \<open>C21. The proof of a group of deposits that the proposer makes has no fee, no roots and no nullifiers, and its commitments are
  those under which \<open>prepare_block_data\<close> looks for the deposits on the chain; the dummies that fill a group, and only
  deposits without token and value, are zero in the commitments and in the public data.\<close>

theorem deposit_circuit_correct:
  assumes "poseidon_ok (ce_poseidon env)" "length grp = 4" "pub = deposit_outputs env sha deposit_public_zero (map ddf_deposit_data grp)"
  shows "deposit_circuit_builder env sha (map ddf_deposit_data grp) = Inr (pub, True) \<and>
    pi_fee pub = 0 \<and> pi_roots pub = replicate 4 0 \<and> pi_nullifiers pub = replicate 4 0 \<and>
    length (pi_commitments pub) = 4 \<and> length (pi_compressed_secrets pub) = 5 \<and>
    (\<forall>i<4. let d = ddf_deposit_data (grp ! i) in
       if dd_value d = 0 \<and> dd_nf_token_id d = 0 then pi_commitments pub ! i = 0 \<and> pi_compressed_secrets pub ! i = 0
       else Some (pi_commitments pub ! i) = deposit_commitment (ce_poseidon env) (grp ! i) \<and>
         pi_compressed_secrets pub ! i = sha [dd_nf_token_id d, dd_nf_slot_id d, dd_value d, dd_secret_hash d])"
  using assms(2) unfolding assms(3) deposit_circuit_builder_def build_deposit_circuit_eq [OF assms(1)]
  by (auto simp: returnC_def deposit_outputs_def deposit_public_zero_def is_real_def Let_def deposit_commitment_def
      commitment_of [OF assms(1)] nth_append)

text \<open>That fee, roots and nullifiers are zero is not enforced: for the same deposits the circuit accepts any values. The fees
  of a block are summed from the proofs and paid to the proposer, and the contract takes a transaction whose first
  nullifier is not zero for a transfer, of which it does not check that the deposits were escrowed.\<close>

theorem deposit_inputs_are_free:
  assumes "poseidon_ok (ce_poseidon env)"
  shows "\<exists>out. accepts (build_deposit_circuit env sha \<lparr>dp_fee = fee, dp_roots = roots, dp_nullifiers = ns\<rparr> ds) out \<and>
    pi_fee out = fee \<and> pi_roots out = roots \<and> pi_nullifiers out = ns \<and>
    pi_commitments out = pi_commitments (deposit_outputs env sha deposit_public_zero ds)"
  unfolding build_deposit_circuit_eq [OF assms] accepts_return by (simp add: deposit_outputs_def)

section \<open>Witnesses\<close>

definition deposit_data_ex :: DepositDatawithFee where
  "deposit_data_ex = \<lparr>ddf_fee = 0, ddf_deposit_data = \<lparr>dd_nf_token_id = 1, dd_nf_slot_id = 1, dd_value = 1, dd_secret_hash = 0\<rparr>\<rparr>"

theorem deposit_circuit_correct_witness:
  "pi_commitments (deposit_outputs cenv_ex hd deposit_public_zero (map ddf_deposit_data [deposit_data_ex, deposit_default, deposit_default, deposit_default])) =
     [1, 0, 0, 0] \<and>
   fst (projr (deposit_circuit_builder cenv_ex hd (map ddf_deposit_data [deposit_data_ex, deposit_default, deposit_default, deposit_default]))) =
     deposit_outputs cenv_ex hd deposit_public_zero (map ddf_deposit_data [deposit_data_ex, deposit_default, deposit_default, deposit_default])"
proof -
  have P: "poseidon_ok (ce_poseidon cenv_ex)" by (simp add: cenv_ex_def poseidon_ok_first)
  have "length [deposit_data_ex, deposit_default, deposit_default, deposit_default] = 4" by simp
  from deposit_circuit_correct [OF P this refl, of hd, THEN conjunct1] show ?thesis
    by (simp add: deposit_outputs_def is_real_def deposit_data_ex_def deposit_default_def deposit_data_default_def commitment_of_def
        cenv_ex_def first_hash_def)
qed

theorem deposit_inputs_are_free_witness:
  "\<exists>out. accepts (build_deposit_circuit cenv_ex hd \<lparr>dp_fee = fr 7, dp_roots = [0, 0, 0, 0], dp_nullifiers = [fr 9, 0, 0, 0]\<rparr>
     [ddf_deposit_data deposit_data_ex, deposit_data_default, deposit_data_default, deposit_data_default]) out \<and> pi_fee out = fr 7"
proof -
  have "poseidon_ok (ce_poseidon cenv_ex)" by (simp add: cenv_ex_def poseidon_ok_first)
  from deposit_inputs_are_free [OF this] show ?thesis by blast
qed

end
