(* ===== verification/Rollup_Circuit.thy ===== *)
theory Rollup_Circuit
  imports Deposit_Circuit
begin

text \<open>
  The checks of \<open>nightfall_proposer/src/driven/rollup_prover.rs\<close> in the recursive proof of a block, and the hash of the
  transactions that \<open>propose_block\<close> of \<open>blockchain_assets/contracts/Nightfall.sol\<close> computes. A list of public inputs is
  passed from layer to layer by the library: four transactions give six values (the old and new root of the
  commitments, those of the nullifiers, the sum of the fees and the hash), a merge over Grumpkin gives seven (two
  hashes), a merge over BN254 six again, and the decider ends with eight. The field of Grumpkin's circuits is larger
  than that of BN254; its values are numbers here. SHA-256 shifted by four bits is a parameter.
\<close>

section \<open>The base layer\<close>

type_synonym sha = "fr254 list \<Rightarrow> fr254"

text \<open>\<open>base_grumpkin_checks\<close>\<close>

definition base_grumpkin_checks :: "'a list list \<Rightarrow> 'a list circuit" where
  "base_grumpkin_checks specific_pis = returnC (concat specific_pis)"

text \<open>The bit of the compressed point is a new variable, made from the value of \<open>pi_slice[17]\<close> and not tied to it: the
  four bits are an argument. \<open>sha_bit\<close> is \<open>full_shifted_sha256_hash_with_bit\<close>.\<close>

definition base_bn254_checks ::
    "sha \<Rightarrow> (fr254 list \<Rightarrow> bool \<Rightarrow> fr254) \<Rightarrow> bool list \<Rightarrow> fr254 list list \<Rightarrow> fr254 list circuit" where
  "base_bn254_checks sha sha_bit bits specific_pis =
     (let first_pis = specific_pis ! 0;
          second_pis = specific_pis ! 1;
          pi_slices = [take 18 first_pis, drop 18 first_pis, take 18 second_pis, drop 18 second_pis];
          fee_sum = foldl (\<lambda>acc slice. acc + slice ! 0) 0 pi_slices;
          sha_vars = map2 (\<lambda>pi_slice bit_var. sha_bit (map ((!) pi_slice) [5..<17]) bit_var) pi_slices bits;
          second_sha_vars = map (\<lambda>chunk. sha [chunk ! 0, chunk ! 1]) (chunks 2 sha_vars);
          final_sha_var = sha second_sha_vars
      in returnC [fee_sum, final_sha_var])"

text \<open>What the library makes of the auxiliary inputs: it reads membership proofs and the information of the two insertions
  from field elements, and its gadgets check them.\<close>

record ('ci, 'ni) rollup_lib =
  rl_membership_proof :: "fr254 list \<Rightarrow> fr254 MembershipProof option"
  rl_verify :: "fr254 MembershipProof \<Rightarrow> fr254 \<Rightarrow> fr254 \<Rightarrow> bool"
  rl_commitment_info :: "fr254 list \<Rightarrow> nat \<Rightarrow> 'ci option"
  rl_commitment_ok :: "'ci \<Rightarrow> bool"
  rl_commitment_roots :: "'ci \<Rightarrow> fr254 \<times> fr254"
  rl_nullifier_info :: "fr254 list \<Rightarrow> nat \<Rightarrow> nat \<Rightarrow> 'ni option"
  rl_nullifier_ok :: "'ni \<Rightarrow> bool"
  rl_nullifier_roots :: "'ni \<Rightarrow> fr254 \<times> fr254"

definition parameter_okC :: "string \<Rightarrow> 'a option \<Rightarrow> 'a circuit" where
  "parameter_okC e r = (case r of None \<Rightarrow> Inl (ParameterError e) | Some x \<Rightarrow> returnC x)"

definition check_half ::
    "('ci, 'ni) rollup_lib \<Rightarrow> nat \<Rightarrow> nat \<Rightarrow> nat \<Rightarrow> fr254 list \<Rightarrow> (fr254 \<times> fr254 \<times> fr254 \<times> fr254) circuit" where
  "check_half lib root_m_proof_length commitment_info_length nullifier_info_length pi =
     bindC (mapC (\<lambda>(chunk, leaf_root).
         bindC (parameter_okC ''Could not convert to MembershipProof'' (rl_membership_proof lib (take root_m_proof_length chunk)))
           (\<lambda>membership_proof. enforce (rl_verify lib membership_proof leaf_root (chunk ! root_m_proof_length))))
         (zip (take 8 (chunks (root_m_proof_length + 1) (drop 8 pi))) (take 8 pi))) (\<lambda>_.
     (let comm_insert_vec = take commitment_info_length (drop (8 * (root_m_proof_length + 2)) pi) in
     bindC (parameter_okC ''Could not convert to CircuitInsertionInfo'' (rl_commitment_info lib comm_insert_vec 29)) (\<lambda>circuit_info.
     bindC (enforce (rl_commitment_ok lib circuit_info)) (\<lambda>_.
     (let nullifier_insert_vec =
            take nullifier_info_length (drop (8 * (root_m_proof_length + 2) + commitment_info_length) pi) in
     bindC (parameter_okC ''Could not convert to IMTCircuitInsertionInfo'' (rl_nullifier_info lib nullifier_insert_vec 32 8)) (\<lambda>nullifier_info.
     bindC (enforce (rl_nullifier_ok lib nullifier_info)) (\<lambda>_.
     returnC (fst (rl_commitment_roots lib circuit_info), snd (rl_commitment_roots lib circuit_info),
              fst (rl_nullifier_roots lib nullifier_info), snd (rl_nullifier_roots lib nullifier_info)))))))))"

text \<open>The last check runs the circuit on its values while it is built, so a failed one is an error.\<close>

definition check_circuit_satisfiability :: "'a circuit \<Rightarrow> 'a circuit" where
  "check_circuit_satisfiability c = (case c of Inr (x, False) \<Rightarrow> Inl LibraryError | _ \<Rightarrow> c)"

definition base_bn254_extra_checks ::
    "('ci, 'ni) rollup_lib \<Rightarrow> nat \<Rightarrow> nat \<Rightarrow> nat \<Rightarrow> fr254 list \<Rightarrow> fr254 list circuit" where
  "base_bn254_extra_checks lib root_m_proof_length commitment_info_length nullifier_info_length specific_pis =
     (let first_pis = take (length specific_pis div 2) specific_pis;
          second_pis = drop (length specific_pis div 2) specific_pis in
     check_circuit_satisfiability
     (bindC (mapC (check_half lib root_m_proof_length commitment_info_length nullifier_info_length) [first_pis, second_pis]) (\<lambda>halves.
      (let start_roots_comm = map fst halves;
           end_roots_comm = map (fst \<circ> snd) halves;
           start_roots_null = map (fst \<circ> snd \<circ> snd) halves;
           end_roots_null = map (snd \<circ> snd \<circ> snd) halves in
      bindC (enforce_equal (start_roots_comm ! 1) (end_roots_comm ! 0)) (\<lambda>_.
      bindC (enforce_equal (start_roots_null ! 1) (end_roots_null ! 0)) (\<lambda>_.
      returnC [start_roots_comm ! 0, end_roots_comm ! 1, start_roots_null ! 0, end_roots_null ! 1]))))))"

section \<open>Merging\<close>

definition fq_modulus :: nat where
  "fq_modulus = 21888242871839275222246405745257275088696311157297823662689037894645226208583"

definition grumpkin_merge_circuit_checks :: "nat list list \<Rightarrow> nat list circuit" where
  "grumpkin_merge_circuit_checks specific_pis =
     (let p = specific_pis ! 0; q = specific_pis ! 1 in
     bindC (enforce (p ! 1 = q ! 0)) (\<lambda>_.
     bindC (enforce (p ! 3 = q ! 2)) (\<lambda>_.
     (let fee_sum = (p ! 4 + q ! 4) mod fq_modulus in
     returnC [p ! 0, q ! 1, p ! 2, q ! 3, fee_sum, p ! 5, q ! 5]))))"

definition bn254_merge_circuit_checks :: "sha \<Rightarrow> fr254 list list \<Rightarrow> fr254 list circuit" where
  "bn254_merge_circuit_checks sha specific_pis =
     (let p = specific_pis ! 0; q = specific_pis ! 1 in
     bindC (enforce_equal (p ! 1) (q ! 0)) (\<lambda>_.
     bindC (enforce_equal (p ! 3) (q ! 2)) (\<lambda>_.
     (let fee_sum = p ! 4 + q ! 4;
          sha_left = sha [p ! 5, p ! 6];
          sha_right = sha [q ! 5, q ! 6];
          final_sha = sha [sha_left, sha_right] in
     returnC [p ! 0, q ! 1, p ! 2, q ! 3, fee_sum, final_sha]))))"

definition decider_circuit_checks ::
    "sha \<Rightarrow> ('ci, 'ni) rollup_lib \<Rightarrow> (fr254 \<Rightarrow> fr254 \<Rightarrow> fr254) \<Rightarrow> fr254 list list \<Rightarrow> nat \<Rightarrow> fr254 list circuit" where
  "decider_circuit_checks sha lib th specific_pis root_m_proof_length =
     (let p = specific_pis ! 0; q = specific_pis ! 1; extra = specific_pis ! 2 in
     bindC (enforce_equal (p ! 1) (q ! 0)) (\<lambda>_.
     bindC (enforce_equal (p ! 3) (q ! 2)) (\<lambda>_.
     (let fee_sum = p ! 4 + q ! 4;
          sha_left = sha [p ! 5, p ! 6];
          sha_right = sha [q ! 5, q ! 6];
          final_sha = sha [sha_left, sha_right] in
     bindC (parameter_okC ''Could not convert to MembershipProof'' (rl_membership_proof lib (take root_m_proof_length extra)))
       (\<lambda>membership_proof.
     (let new_historic_root = path_root th (q ! 1) (sibling_path membership_proof);
          old_root_calc = path_root th 0 (sibling_path membership_proof) in
     bindC (enforce_equal old_root_calc (extra ! root_m_proof_length)) (\<lambda>_.
     returnC [fee_sum, final_sha, p ! 0, q ! 1, p ! 2, q ! 3, extra ! root_m_proof_length, new_historic_root])))))))"

section \<open>The hash of the contract\<close>

text \<open>\<open>propose_block\<close> hashes neighbours in place until one hash is left.\<close>

fun hash_pairs :: "('a list \<Rightarrow> 'a) \<Rightarrow> 'a list \<Rightarrow> 'a list" where
  "hash_pairs sha (a # b # xs) = sha [a, b] # hash_pairs sha xs"
| "hash_pairs sha xs = []"

lemma length_hash_pairs [simp]: "length (hash_pairs sha xs) = length xs div 2"
  by (induction sha xs rule: hash_pairs.induct) simp_all

function transaction_root :: "('a list \<Rightarrow> 'a) \<Rightarrow> 'a list \<Rightarrow> 'a" where
  "transaction_root sha xs = (if length xs > 1 then transaction_root sha (hash_pairs sha xs) else hd xs)"
  by auto
termination by (relation "measure (length \<circ> snd)") auto

declare transaction_root.simps [simp del]

lemma hash_pairs_append: "even (length xs) \<Longrightarrow> hash_pairs sha (xs @ ys) = hash_pairs sha xs @ hash_pairs sha ys"
  by (induction sha xs rule: hash_pairs.induct) auto

lemma transaction_root_append:
  "length xs = 2 ^ m \<Longrightarrow> length ys = 2 ^ m \<Longrightarrow>
   transaction_root sha (xs @ ys) = sha [transaction_root sha xs, transaction_root sha ys]"
proof (induction m arbitrary: xs ys)
  case 0
  then obtain a b where "xs = [a]" "ys = [b]" by (auto simp: length_Suc_conv)
  then show ?case by (simp add: transaction_root.simps)
next
  case (Suc m)
  have "(1::nat) < 2 ^ Suc m" by (rule one_less_power) simp_all
  then have "1 < length (xs @ ys)" "1 < length xs" "1 < length ys" using Suc.prems by simp_all
  then have step: "transaction_root sha (xs @ ys) = transaction_root sha (hash_pairs sha (xs @ ys))"
    "transaction_root sha xs = transaction_root sha (hash_pairs sha xs)"
    "transaction_root sha ys = transaction_root sha (hash_pairs sha ys)"
    using transaction_root.simps by metis+
  show ?case
    unfolding step using Suc.prems Suc.IH [of "hash_pairs sha xs" "hash_pairs sha ys"] by (simp add: hash_pairs_append)
qed

section \<open>A whole block\<close>

text \<open>How the library composes the layers over the six values of each group of four transactions: two merges over Grumpkin
  and one over BN254 for every four of them, and the decider on top. A value passes from one field to the other unchanged.\<close>

fun merge_layers :: "sha \<Rightarrow> nat \<Rightarrow> fr254 list list \<Rightarrow> fr254 list circuit" where
  "merge_layers sha 0 bs = returnC (hd bs)"
| "merge_layers sha (Suc k) bs =
     bindC (mapC (\<lambda>i. merge_layers sha k (take (4 ^ k) (drop (i * 4 ^ k) bs))) [0, 1, 2, 3]) (\<lambda>ps.
     bindC (grumpkin_merge_circuit_checks [map fr_val (ps ! 0), map fr_val (ps ! 1)]) (\<lambda>l.
     bindC (grumpkin_merge_circuit_checks [map fr_val (ps ! 2), map fr_val (ps ! 3)]) (\<lambda>r.
     bn254_merge_circuit_checks sha [map fr l, map fr r])))"

definition block_circuit ::
    "sha \<Rightarrow> ('ci, 'ni) rollup_lib \<Rightarrow> (fr254 \<Rightarrow> fr254 \<Rightarrow> fr254) \<Rightarrow> nat \<Rightarrow> fr254 list list \<Rightarrow> fr254 list \<Rightarrow> nat \<Rightarrow> fr254 list circuit" where
  "block_circuit sha lib th k bs extra n =
     bindC (mapC (\<lambda>i. merge_layers sha k (take (4 ^ k) (drop (i * 4 ^ k) bs))) [0, 1, 2, 3]) (\<lambda>ps.
     bindC (grumpkin_merge_circuit_checks [map fr_val (ps ! 0), map fr_val (ps ! 1)]) (\<lambda>l.
     bindC (grumpkin_merge_circuit_checks [map fr_val (ps ! 2), map fr_val (ps ! 3)]) (\<lambda>r.
     decider_circuit_checks sha lib th [map fr l, map fr r, extra] n)))"

text \<open>The roots of one group are where the next one starts.\<close>

fun linked :: "fr254 list list \<Rightarrow> bool" where
  "linked (a # b # bs) \<longleftrightarrow> a ! 1 = b ! 0 \<and> a ! 3 = b ! 2 \<and> linked (b # bs)"
| "linked bs \<longleftrightarrow> True"

lemma linked_append:
  "as \<noteq> [] \<Longrightarrow> bs \<noteq> [] \<Longrightarrow> linked (as @ bs) \<longleftrightarrow>
     linked as \<and> linked bs \<and> last as ! 1 = hd bs ! 0 \<and> last as ! 3 = hd bs ! 2"
proof (induction as)
  case (Cons a as)
  then show ?case by (cases as; cases bs) auto
qed simp

definition fees :: "fr254 list list \<Rightarrow> nat" where
  "fees bs = sum_list (map (\<lambda>b. fr_val (b ! 4)) bs)"

lemma fees_append [simp]: "fees (as @ bs) = fees as + fees bs"
  by (simp add: fees_def)

definition summary :: "sha \<Rightarrow> fr254 list list \<Rightarrow> fr254 list" where
  "summary sha bs = [hd bs ! 0, last bs ! 1, hd bs ! 2, last bs ! 3, fr (fees bs), transaction_root sha (map (\<lambda>b. b ! 5) bs)]"

lemma fr_below_fq: "n < fr_modulus \<Longrightarrow> n mod fq_modulus = n"
  by (simp add: fr_modulus_def fq_modulus_def)

lemma fr_add: "fr (a + b) = fr a + fr b"
  by (simp add: fr_val_inject_iff fr_val_plus mod_simps)

text \<open>Two summaries merged over Grumpkin.\<close>

lemma grumpkin_merge_accepts:
  assumes "as \<noteq> []" "bs \<noteq> []" "fees (as @ bs) < fr_modulus" "linked as" "linked bs"
  shows "accepts (grumpkin_merge_circuit_checks [map fr_val (summary sha as), map fr_val (summary sha bs)]) l \<longleftrightarrow>
    linked (as @ bs) \<and> map fr l = [hd (as @ bs) ! 0, last (as @ bs) ! 1, hd (as @ bs) ! 2, last (as @ bs) ! 3, fr (fees (as @ bs)),
      transaction_root sha (map (\<lambda>b. b ! 5) as), transaction_root sha (map (\<lambda>b. b ! 5) bs)] \<and> (\<forall>x\<in>set l. x < fr_modulus)"
proof -
  have f: "fees as < fr_modulus" "fees bs < fr_modulus" using assms(3) by simp_all
  have "map fr l = map fr l' \<and> (\<forall>x\<in>set l. x < fr_modulus) \<longleftrightarrow> l = l'" if "\<forall>x\<in>set l'. x < fr_modulus" for l l'
  proof -
    have "l = l'" if "map fr l = map fr l'" "\<forall>x\<in>set l. x < fr_modulus"
    proof -
      have "map fr_val (map fr l) = l" using that(2) by (simp add: map_idI)
      moreover have "map fr_val (map fr l') = l'" using \<open>\<forall>x\<in>set l'. x < fr_modulus\<close> by (simp add: map_idI)
      ultimately show ?thesis using that(1) by metis
    qed
    then show ?thesis using that by blast
  qed
  note eq = this [of "[fr_val (hd (as @ bs) ! 0), fr_val (last (as @ bs) ! 1), fr_val (hd (as @ bs) ! 2), fr_val (last (as @ bs) ! 3),
      fees (as @ bs), fr_val (transaction_root sha (map (\<lambda>b. b ! 5) as)), fr_val (transaction_root sha (map (\<lambda>b. b ! 5) bs))]" l]
  show ?thesis
    using assms f eq unfolding linked_append [OF assms(1,2)]
    by (auto simp: grumpkin_merge_circuit_checks_def Let_def accepts_simps summary_def fr_below_fq fr_val_inject)
qed

text \<open>The seven values of a merge over Grumpkin.\<close>

definition seven :: "sha \<Rightarrow> fr254 list list \<Rightarrow> fr254 list list \<Rightarrow> fr254 list" where
  "seven sha as bs = [hd (as @ bs) ! 0, last (as @ bs) ! 1, hd (as @ bs) ! 2, last (as @ bs) ! 3, fr (fees (as @ bs)),
     transaction_root sha (map (\<lambda>b. b ! 5) as), transaction_root sha (map (\<lambda>b. b ! 5) bs)]"

lemma grumpkin_exists:
  assumes "as \<noteq> []" "bs \<noteq> []" "fees (as @ bs) < fr_modulus" "linked (as @ bs)"
  shows "\<exists>l. map fr l = seven sha as bs \<and> (\<forall>x\<in>set l. x < fr_modulus)"
  by (rule exI [of _ "map fr_val (seven sha as bs)"]) (simp add: o_def)

lemma quarters_accept:
  assumes "fees (a @ b @ c @ d) < fr_modulus" "a \<noteq> []" "b \<noteq> []" "c \<noteq> []" "d \<noteq> []"
    "\<And>i out. i < 4 \<Longrightarrow> accepts (m i) out \<longleftrightarrow> linked ([a, b, c, d] ! i) \<and> out = summary sha ([a, b, c, d] ! i)"
  shows "accepts (bindC (mapC m [0, 1, 2, 3]) (\<lambda>ps.
     bindC (grumpkin_merge_circuit_checks [map fr_val (ps ! 0), map fr_val (ps ! 1)]) (\<lambda>l.
     bindC (grumpkin_merge_circuit_checks [map fr_val (ps ! 2), map fr_val (ps ! 3)]) (\<lambda>r. K (map fr l) (map fr r))))) out \<longleftrightarrow>
    linked (a @ b) \<and> linked (c @ d) \<and> accepts (K (seven sha a b) (seven sha c d)) out"
proof -
  have f: "fees (a @ b) < fr_modulus" "fees (c @ d) < fr_modulus" using assms(1) by simp_all
  note g1 = grumpkin_merge_accepts [OF assms(2,3) f(1), folded seven_def]
  note g2 = grumpkin_merge_accepts [OF assms(4,5) f(2), folded seven_def]
  have parts: "accepts (mapC m [0, 1, 2, 3]) ps \<longleftrightarrow> linked a \<and> linked b \<and> linked c \<and> linked d \<and>
      ps = [summary sha a, summary sha b, summary sha c, summary sha d]" for ps
    using assms(6) [of 0] assms(6) [of 1] assms(6) [of 2] assms(6) [of 3]
    by (auto simp: accepts_map list_all2_Cons1 simp del: mapC.simps)
  have all: "linked (a @ b) \<Longrightarrow> linked a \<and> linked b" "linked (c @ d) \<Longrightarrow> linked c \<and> linked d"
    using linked_append [OF assms(2,3)] linked_append [OF assms(4,5)] by simp_all
  show ?thesis
  proof
    assume "linked (a @ b) \<and> linked (c @ d) \<and> accepts (K (seven sha a b) (seven sha c d)) out"
    then show "accepts (bindC (mapC m [0, 1, 2, 3]) (\<lambda>ps.
     bindC (grumpkin_merge_circuit_checks [map fr_val (ps ! 0), map fr_val (ps ! 1)]) (\<lambda>l.
     bindC (grumpkin_merge_circuit_checks [map fr_val (ps ! 2), map fr_val (ps ! 3)]) (\<lambda>r. K (map fr l) (map fr r))))) out"
      using all g1 g2 grumpkin_exists [OF assms(2,3) f(1)] grumpkin_exists [OF assms(4,5) f(2)]
      unfolding accepts_bind parts by (auto; metis)
  next
    assume "accepts (bindC (mapC m [0, 1, 2, 3]) (\<lambda>ps.
     bindC (grumpkin_merge_circuit_checks [map fr_val (ps ! 0), map fr_val (ps ! 1)]) (\<lambda>l.
     bindC (grumpkin_merge_circuit_checks [map fr_val (ps ! 2), map fr_val (ps ! 3)]) (\<lambda>r. K (map fr l) (map fr r))))) out"
    then obtain ps l r where p: "accepts (mapC m [0, 1, 2, 3]) ps"
      "accepts (grumpkin_merge_circuit_checks [map fr_val (ps ! 0), map fr_val (ps ! 1)]) l"
      "accepts (grumpkin_merge_circuit_checks [map fr_val (ps ! 2), map fr_val (ps ! 3)]) r" "accepts (K (map fr l) (map fr r)) out"
      unfolding accepts_bind by blast
    then have q: "linked a" "linked b" "linked c" "linked d" "ps = [summary sha a, summary sha b, summary sha c, summary sha d]"
      using parts by blast+
    then show "linked (a @ b) \<and> linked (c @ d) \<and> accepts (K (seven sha a b) (seven sha c d)) out"
      using p(2-4) g1 [OF q(1,2)] g2 [OF q(3,4)] by simp
  qed
qed

lemma split_quarters:
  assumes "length bs = 4 * n"
  obtains a b c d where "bs = a @ b @ c @ d" "length a = n" "length b = n" "length c = n" "length d = n"
    "\<And>i. i < 4 \<Longrightarrow> take n (drop (i * n) bs) = [a, b, c, d] ! i"
proof -
  define q where "q i = take n (drop (i * n) bs)" for i
  have "bs = q 0 @ q 1 @ q 2 @ q 3"
  proof -
    have e: "drop (3 * n) bs = take n (drop (3 * n) bs)" using assms by simp
    have s: "drop (i * n) bs = q i @ drop (Suc i * n) bs" for i
      unfolding q_def by (metis append_take_drop_id drop_drop add.commute mult_Suc)
    show ?thesis using s [of 0] s [of 1] s [of 2] e by (simp add: q_def numeral_2_eq_2 numeral_3_eq_3)
  qed
  moreover have "length (q i) = n" if "i < 4" for i
  proof -
    consider "i = 0" | "i = 1" | "i = 2" | "i = 3" using \<open>i < 4\<close> by linarith
    then show ?thesis using assms by cases (simp_all add: q_def)
  qed
  moreover have "take n (drop (i * n) bs) = [q 0, q 1, q 2, q 3] ! i" if "i < 4" for i
  proof -
    consider "i = 0" | "i = 1" | "i = 2" | "i = 3" using \<open>i < 4\<close> by linarith
    then show ?thesis by cases (simp_all add: q_def)
  qed
  ultimately show ?thesis by (intro that [of "q 0" "q 1" "q 2" "q 3"]) simp_all
qed

lemma root_quarters:
  assumes "length a = 4 ^ k" "length b = 4 ^ k" "length c = 4 ^ k" "length d = 4 ^ k"
  shows "transaction_root sha (a @ b @ c @ d) =
    sha [sha [transaction_root sha a, transaction_root sha b], sha [transaction_root sha c, transaction_root sha d]]"
proof -
  have p: "4 ^ k = (2::nat) ^ (2 * k)" by (simp add: power_mult)
  have "transaction_root sha ((a @ b) @ (c @ d)) = sha [transaction_root sha (a @ b), transaction_root sha (c @ d)]"
    by (rule transaction_root_append [of _ "Suc (2 * k)"]) (simp_all add: assms p)
  then show ?thesis
    using transaction_root_append [of a "2 * k" b] transaction_root_append [of c "2 * k" d] assms p by simp
qed

lemma summary_single: "length b = 6 \<Longrightarrow> summary sha [b] = b"
  by (rule nth_equalityI) (auto simp: summary_def fees_def transaction_root.simps less_Suc_eq numeral_eq_Suc)

lemma merge_layers_accepts:
  "length bs = 4 ^ k \<Longrightarrow> \<forall>b\<in>set bs. length b = 6 \<Longrightarrow> fees bs < fr_modulus \<Longrightarrow>
   accepts (merge_layers sha k bs) out \<longleftrightarrow> linked bs \<and> out = summary sha bs"
proof (induction k arbitrary: bs out)
  case 0
  then obtain b where "bs = [b]" "length b = 6" by (auto simp: length_Suc_conv)
  then show ?case by (auto simp: accepts_simps summary_single)
next
  case (Suc k)
  obtain a b c d where q: "bs = a @ b @ c @ d" "length a = 4 ^ k" "length b = 4 ^ k" "length c = 4 ^ k" "length d = 4 ^ k"
    "\<And>i. i < 4 \<Longrightarrow> take (4 ^ k) (drop (i * 4 ^ k) bs) = [a, b, c, d] ! i"
    by (rule split_quarters [of bs "4 ^ k"]) (use Suc.prems in auto)
  have len: "length ([a, b, c, d] ! i) = 4 ^ k" if "i < 4" for i
  proof -
    consider "i = 0" | "i = 1" | "i = 2" | "i = 3" using \<open>i < 4\<close> by linarith
    then show ?thesis using q(2-5) by cases simp_all
  qed
  have sub: "set ([a, b, c, d] ! i) \<subseteq> set bs \<and> fees ([a, b, c, d] ! i) < fr_modulus" if "i < 4" for i
  proof -
    consider "i = 0" | "i = 1" | "i = 2" | "i = 3" using \<open>i < 4\<close> by linarith
    then show ?thesis using q(1) Suc.prems(3) by cases auto
  qed
  have ne: "a \<noteq> []" "b \<noteq> []" "c \<noteq> []" "d \<noteq> []" using q(2-5) by auto
  have ih: "accepts (merge_layers sha k (take (4 ^ k) (drop (i * 4 ^ k) bs))) out \<longleftrightarrow>
      linked ([a, b, c, d] ! i) \<and> out = summary sha ([a, b, c, d] ! i)" if "i < 4" for i out
    unfolding q(6) [OF that] using Suc.IH [OF len [OF that]] sub [OF that] Suc.prems(2) by blast
  have fees: "fees (a @ b @ c @ d) < fr_modulus" using Suc.prems(3) by (simp add: q(1))
  have top: "accepts (bn254_merge_circuit_checks sha [seven sha a b, seven sha c d]) out \<longleftrightarrow>
      last b ! 1 = hd c ! 0 \<and> last b ! 3 = hd c ! 2 \<and> out = summary sha (a @ b @ c @ d)"
    using ne root_quarters [of "map (\<lambda>b. b ! 5) a" k "map (\<lambda>b. b ! 5) b" "map (\<lambda>b. b ! 5) c" "map (\<lambda>b. b ! 5) d" sha] q(2-5)
    by (auto simp: bn254_merge_circuit_checks_def Let_def gate_defs accepts_simps seven_def summary_def fr_add add.assoc)
  have "linked bs \<longleftrightarrow> linked (a @ b) \<and> linked (c @ d) \<and> last b ! 1 = hd c ! 0 \<and> last b ! 3 = hd c ! 2"
    using linked_append [of "a @ b" "c @ d"] ne by (simp add: q(1))
  moreover note quarters_accept [where m = "\<lambda>i. merge_layers sha k (take (4 ^ k) (drop (i * 4 ^ k) bs))" and sha = sha and
      K = "\<lambda>l r. bn254_merge_circuit_checks sha [l, r]" and out = out, OF fees ne ih]
  ultimately show ?case unfolding merge_layers.simps top using q(1) by blast
qed

lemma block_circuit_accepts:
  assumes "length bs = 4 * 4 ^ k" "\<forall>b\<in>set bs. length b = 6" "fees bs < fr_modulus"
    "rl_membership_proof lib (take n extra) = Some mp"
  shows "accepts (block_circuit sha lib th k bs extra n) out \<longleftrightarrow>
    linked bs \<and> path_root th 0 (sibling_path mp) = extra ! n \<and>
    out = [fr (fees bs), transaction_root sha (map (\<lambda>b. b ! 5) bs), hd bs ! 0, last bs ! 1, hd bs ! 2, last bs ! 3, extra ! n,
      path_root th (last bs ! 1) (sibling_path mp)]"
proof -
  obtain a b c d where q: "bs = a @ b @ c @ d" "length a = 4 ^ k" "length b = 4 ^ k" "length c = 4 ^ k" "length d = 4 ^ k"
    "\<And>i. i < 4 \<Longrightarrow> take (4 ^ k) (drop (i * 4 ^ k) bs) = [a, b, c, d] ! i"
    by (rule split_quarters [of bs "4 ^ k"]) (use assms(1) in auto)
  have sub: "length ([a, b, c, d] ! i) = 4 ^ k \<and> set ([a, b, c, d] ! i) \<subseteq> set bs \<and> fees ([a, b, c, d] ! i) < fr_modulus" if "i < 4" for i
  proof -
    consider "i = 0" | "i = 1" | "i = 2" | "i = 3" using \<open>i < 4\<close> by linarith
    then show ?thesis using q(1-5) assms(3) by cases auto
  qed
  have ne: "a \<noteq> []" "b \<noteq> []" "c \<noteq> []" "d \<noteq> []" using q(2-5) by auto
  have parts: "accepts (merge_layers sha k (take (4 ^ k) (drop (i * 4 ^ k) bs))) out \<longleftrightarrow>
      linked ([a, b, c, d] ! i) \<and> out = summary sha ([a, b, c, d] ! i)" if "i < 4" for i out
    unfolding q(6) [OF that] using merge_layers_accepts sub [OF that] assms(2) by blast
  have fees: "fees (a @ b @ c @ d) < fr_modulus" using assms(3) by (simp add: q(1))
  have top: "accepts (decider_circuit_checks sha lib th [seven sha a b, seven sha c d, extra] n) out \<longleftrightarrow>
      last b ! 1 = hd c ! 0 \<and> last b ! 3 = hd c ! 2 \<and> path_root th 0 (sibling_path mp) = extra ! n \<and>
      out = [fr (fees bs), transaction_root sha (map (\<lambda>b. b ! 5) bs), hd bs ! 0, last bs ! 1, hd bs ! 2, last bs ! 3, extra ! n,
        path_root th (last bs ! 1) (sibling_path mp)]"
    using ne root_quarters [of "map (\<lambda>b. b ! 5) a" k "map (\<lambda>b. b ! 5) b" "map (\<lambda>b. b ! 5) c" "map (\<lambda>b. b ! 5) d" sha] q(2-5)
    by (auto simp: decider_circuit_checks_def Let_def gate_defs accepts_simps seven_def fr_add add.assoc q(1) parameter_okC_def assms(4))
  have "linked bs \<longleftrightarrow> linked (a @ b) \<and> linked (c @ d) \<and> last b ! 1 = hd c ! 0 \<and> last b ! 3 = hd c ! 2"
    using linked_append [of "a @ b" "c @ d"] ne by (simp add: q(1))
  moreover note quarters_accept [where m = "\<lambda>i. merge_layers sha k (take (4 ^ k) (drop (i * 4 ^ k) bs))" and sha = sha and
      K = "\<lambda>l r. decider_circuit_checks sha lib th [l, r, extra] n" and out = out, OF fees ne parts]
  ultimately show ?thesis unfolding block_circuit_def top by blast
qed

subsection \<open>The transactions of a block\<close>

text \<open>The hash of one transaction, from its eighteen public inputs and the bit of the compressed point, and what the base
  layer gives for a group of four.\<close>

definition transaction_hash :: "(fr254 list \<Rightarrow> bool \<Rightarrow> fr254) \<Rightarrow> fr254 list \<times> bool \<Rightarrow> fr254" where
  "transaction_hash sha_bit t = sha_bit (map ((!) (fst t)) [5..<17]) (snd t)"

lemma base_bn254_accepts:
  assumes "length g = 4" "\<forall>t\<in>set g. length (fst t) = 18"
  shows "accepts (base_bn254_checks sha sha_bit (map snd g) [concat (map fst (take 2 g)), concat (map fst (drop 2 g))]) out \<longleftrightarrow>
    out = [sum_list (map (\<lambda>t. fst t ! 0) g), transaction_root sha (map (transaction_hash sha_bit) g)]"
proof -
  obtain s t u v where g: "g = [s, t, u, v]" using assms(1) unfolding length_four by blast
  have "transaction_root sha [w, x, y, z] = sha [sha [w, x], sha [y, z]]" for w x y z
    by (simp add: transaction_root.simps)
  moreover have "chunks 2 [w, x, y, z] = [[w, x], [y, z]]" for w x y z :: fr254
    by (simp add: chunks.simps numeral_2_eq_2)
  ultimately show ?thesis
    using assms(2) by (auto simp: g base_bn254_checks_def Let_def accepts_simps transaction_hash_def add.assoc nth_append)
qed

lemma root_groups:
  "length gs = 2 ^ m \<Longrightarrow> \<forall>g\<in>set gs. length g = 2 ^ j \<Longrightarrow>
   transaction_root sha (map (transaction_root sha) gs) = transaction_root sha (concat gs)"
proof (induction m arbitrary: gs)
  case 0
  then obtain g where "gs = [g]" by (auto simp: length_Suc_conv)
  then show ?case by (simp add: transaction_root.simps [of sha "[x]" for x])
next
  case (Suc m)
  define l r where "l = take (2 ^ m) gs" and "r = drop (2 ^ m) gs"
  have gs: "gs = l @ r" "length l = 2 ^ m" "length r = 2 ^ m" using Suc.prems(1) by (simp_all add: l_def r_def)
  have js: "\<forall>g\<in>set l. length g = 2 ^ j" "\<forall>g\<in>set r. length g = 2 ^ j" using Suc.prems(2) gs(1) by simp_all
  have len: "length (concat l) = 2 ^ (m + j)" "length (concat r) = 2 ^ (m + j)"
  proof -
    have "length (concat hs) = length hs * 2 ^ j" if "\<forall>g\<in>set hs. length g = 2 ^ j" for hs :: "'a list list"
      using that by (induction hs) simp_all
    then show "length (concat l) = 2 ^ (m + j)" "length (concat r) = 2 ^ (m + j)"
      using js gs(2,3) by (simp_all add: power_add)
  qed
  have "transaction_root sha (map (transaction_root sha) l @ map (transaction_root sha) r) =
      sha [transaction_root sha (map (transaction_root sha) l), transaction_root sha (map (transaction_root sha) r)]"
    by (rule transaction_root_append) (simp_all add: gs)
  moreover have "transaction_root sha (concat l @ concat r) = sha [transaction_root sha (concat l), transaction_root sha (concat r)]"
    by (rule transaction_root_append [OF len])
  ultimately show ?case
    using Suc.IH [OF gs(2) js(1)] Suc.IH [OF gs(3) js(2)] by (simp add: gs(1))
qed

lemma fr_val_sum_list: "sum_list (map fr_val xs) < fr_modulus \<Longrightarrow> fr_val (sum_list xs) = sum_list (map fr_val xs)"
proof (induction xs)
  case (Cons x xs)
  then have "fr_val (sum_list xs) = sum_list (map fr_val xs)" by simp
  then show ?case using Cons.prems by (simp add: fr_val_plus)
qed simp

lemma sum_list_concat: "sum_list (map f (concat gs)) = (sum_list (map (\<lambda>g. sum_list (map f g)) gs) :: nat)"
  by (induction gs) simp_all

lemma sum_list_bound: "(\<And>x. x \<in> set xs \<Longrightarrow> f x \<le> b) \<Longrightarrow> sum_list (map f xs) \<le> length xs * (b :: nat)"
  by (induction xs) (auto intro!: add_mono)

section \<open>Properties\<close>

text \<open>C6. The recursive proof of a block of \<open>4^(k+2)\<close> transactions: whatever the groups of four are, the circuits accept exactly
  when the roots of each group are where the next one starts and the path leads from an empty slot to the old
  historic root; the public result is then the hash that \<open>propose_block\<close> of the contract computes over all
  transactions, the roots before and after the block, the new historic root, and the sum of the fees as an integer.\<close>

theorem block_proof_correct:
  assumes "length gs = 4 * 4 ^ k" "\<forall>g\<in>set gs. length g = 4 \<and> (\<forall>t\<in>set g. length (fst t) = 18 \<and> fr_val (fst t ! 0) < 2 ^ 96)"
    "k \<le> 5" "list_all2 (\<lambda>g b. \<exists>fh. accepts (base_bn254_checks sha sha_bit (map snd g) [concat (map fst (take 2 g)), concat (map fst (drop 2 g))]) fh \<and>
      length b = 6 \<and> drop 4 b = fh) gs bs"
    "rl_membership_proof lib (take n extra) = Some mp"
  shows "accepts (block_circuit sha lib th k bs extra n) out \<longleftrightarrow>
    linked bs \<and> path_root th 0 (sibling_path mp) = extra ! n \<and> length out = 8 \<and>
    fr_val (out ! 0) = sum_list (map (\<lambda>t. fr_val (fst t ! 0)) (concat gs)) \<and>
    out ! 1 = transaction_root sha (map (transaction_hash sha_bit) (concat gs)) \<and>
    take 4 (drop 2 out) = [hd bs ! 0, last bs ! 1, hd bs ! 2, last bs ! 3] \<and>
    out ! 6 = extra ! n \<and> out ! 7 = path_root th (last bs ! 1) (sibling_path mp)"
proof -
  have len: "length bs = 4 * 4 ^ k" using assms(1,4) by (simp add: list_all2_conv_all_nth)
  have each: "length (bs ! i) = 6 \<and> bs ! i ! 4 = sum_list (map (\<lambda>t. fst t ! 0) (gs ! i)) \<and>
      bs ! i ! 5 = transaction_root sha (map (transaction_hash sha_bit) (gs ! i))" if "i < length gs" for i
  proof -
    have "length (gs ! i) = 4" "\<forall>t\<in>set (gs ! i). length (fst t) = 18"
      using assms(2) nth_mem [OF that] by blast+
    note base = base_bn254_accepts [OF this, of sha sha_bit]
    have d: "length (bs ! i) = 6" "drop 4 (bs ! i) = [sum_list (map (\<lambda>t. fst t ! 0) (gs ! i)), transaction_root sha (map (transaction_hash sha_bit) (gs ! i))]"
      using list_all2_nthD [OF assms(4) that] unfolding base by simp_all
    have "bs ! i ! 4 = drop 4 (bs ! i) ! 0" "bs ! i ! 5 = drop 4 (bs ! i) ! 1" using d(1) by simp_all
    then show ?thesis using d(1) by (simp only: d(2) nth_Cons_0 nth_Cons_Suc One_nat_def simp_thms)
  qed
  have gs_small: "sum_list (map fr_val (map (\<lambda>t. fst t ! 0) g)) \<le> 4 * 2 ^ 96" if "g \<in> set gs" for g
  proof -
    have "sum_list (map (\<lambda>t. fr_val (fst t ! 0)) g) \<le> length g * 2 ^ 96"
      by (rule sum_list_bound) (use assms(2) that in \<open>auto intro: less_imp_le\<close>)
    then show ?thesis using assms(2) that by (simp add: o_def)
  qed
  have val: "fr_val (bs ! i ! 4) = sum_list (map (\<lambda>t. fr_val (fst t ! 0)) (gs ! i))" if "i < length gs" for i
  proof -
    have "sum_list (map fr_val (map (\<lambda>t. fst t ! 0) (gs ! i))) < fr_modulus"
      using gs_small [of "gs ! i"] that by (rule_tac le_less_trans [of _ "4 * 2 ^ 96"]) (simp_all add: fr_modulus_def)
    from fr_val_sum_list [OF this] show ?thesis using each [OF that] by (simp add: o_def)
  qed
  have "map (\<lambda>b. fr_val (b ! 4)) bs = map (\<lambda>g. sum_list (map (\<lambda>t. fr_val (fst t ! 0)) g)) gs"
    using val assms(1) len by (auto simp: list_eq_iff_nth_eq)
  then have fees: "fees bs = sum_list (map (\<lambda>t. fr_val (fst t ! 0)) (concat gs))"
    by (simp add: fees_def sum_list_concat o_def)
  have "sum_list (map (\<lambda>g. sum_list (map fr_val (map (\<lambda>t. fst t ! 0) g))) gs) \<le> length gs * (4 * 2 ^ 96)"
    by (rule sum_list_bound) (rule gs_small)
  also have "\<dots> \<le> 4 * 4 ^ 5 * (4 * 2 ^ 96)"
    unfolding assms(1) using power_increasing [OF assms(3), of "4::nat"] by simp
  finally have small: "fees bs < fr_modulus"
    unfolding fees by (simp add: fr_modulus_def sum_list_concat o_def)
  have roots: "map (\<lambda>b. b ! 5) bs = map (transaction_root sha) (map (map (transaction_hash sha_bit)) gs)"
    using each assms(1) len by (auto simp: list_eq_iff_nth_eq)
  have "length (map (map (transaction_hash sha_bit)) gs) = 2 ^ (2 * Suc k)" unfolding power_mult using assms(1) by simp
  moreover have "\<forall>g\<in>set (map (map (transaction_hash sha_bit)) gs). length g = 2 ^ 2" using assms(2) by auto
  ultimately have root: "transaction_root sha (map (\<lambda>b. b ! 5) bs) = transaction_root sha (map (transaction_hash sha_bit) (concat gs))"
    unfolding roots using root_groups by (metis map_concat)
  have six: "\<forall>b\<in>set bs. length b = 6" using each assms(1) len by (auto simp: in_set_conv_nth)
  have "out = [a, b, c, d, e, f, g, h] \<longleftrightarrow> length out = 8 \<and> out ! 0 = a \<and> out ! 1 = b \<and> take 4 (drop 2 out) = [c, d, e, f] \<and> out ! 6 = g \<and> out ! 7 = h"
    for a b c d e f g h
    by (auto simp: numeral_eq_Suc length_Suc_conv)
  then show ?thesis
    unfolding block_circuit_accepts [OF len six small assms(5)] root fees [symmetric]
    using small by (auto simp: fr_val_inject_iff)
qed

section \<open>Witness\<close>

definition lib_ex :: "(unit, unit) rollup_lib" where
  "lib_ex = \<lparr>rl_membership_proof = (\<lambda>_. Some \<lparr>node_value = 0, sibling_path = [], leaf_index = 0\<rparr>), rl_verify = (\<lambda>_ _ _. True),
     rl_commitment_info = (\<lambda>_ _. Some ()), rl_commitment_ok = (\<lambda>_. True), rl_commitment_roots = (\<lambda>_. (0, 0)),
     rl_nullifier_info = (\<lambda>_ _ _. Some ()), rl_nullifier_ok = (\<lambda>_. True), rl_nullifier_roots = (\<lambda>_. (0, 0))\<rparr>"

definition group_ex :: "(fr254 list \<times> bool) list" where
  "group_ex = replicate 4 (replicate 18 1, False)"

theorem block_proof_correct_witness:
  "\<exists>out. accepts (block_circuit hd lib_ex (+) 0 (replicate 4 [0, 0, 0, 0, sum_list (map (\<lambda>t. fst t ! 0) group_ex), 1]) [0] 0) out \<and>
     fr_val (out ! 0) = 16"
proof -
  let ?b = "[0, 0, 0, 0, sum_list (map (\<lambda>t. fst t ! 0) group_ex), 1]"
  let ?gs = "replicate 4 group_ex" and ?sha_bit = "\<lambda>xs (b :: bool). hd xs :: fr254"
  have g: "length group_ex = 4" "\<forall>t\<in>set group_ex. length (fst t) = 18" "\<forall>t\<in>set group_ex. fr_val (fst t ! 0) = 1"
    by (simp_all add: group_ex_def)
  have root: "transaction_root hd (map (transaction_hash ?sha_bit) group_ex) = 1"
    by (simp add: group_ex_def transaction_hash_def upt_rec transaction_root.simps numeral_eq_Suc)
  have gs: "\<forall>g\<in>set ?gs. length g = 4 \<and> (\<forall>t\<in>set g. length (fst t) = 18 \<and> fr_val (fst t ! 0) < 2 ^ 96)" using g by simp
  have "\<exists>fh. accepts (base_bn254_checks hd ?sha_bit (map snd group_ex) [concat (map fst (take 2 group_ex)), concat (map fst (drop 2 group_ex))]) fh \<and>
      length ?b = 6 \<and> drop 4 ?b = fh"
    unfolding base_bn254_accepts [OF g(1,2)] root by simp
  then have bs: "list_all2 (\<lambda>g b. \<exists>fh. accepts (base_bn254_checks hd ?sha_bit (map snd g) [concat (map fst (take 2 g)), concat (map fst (drop 2 g))]) fh \<and>
      length b = 6 \<and> drop 4 b = fh) ?gs (replicate 4 ?b)"
    by (simp add: list_all2_conv_all_nth)
  have mp: "rl_membership_proof lib_ex (take 0 [0]) = Some \<lparr>node_value = 0, sibling_path = [], leaf_index = 0\<rparr>" by (simp add: lib_ex_def)
  have n: "length ?gs = 4 * 4 ^ 0" "(0::nat) \<le> 5" by simp_all
  let ?out = "[fr 16, transaction_root hd (map (transaction_hash ?sha_bit) (concat ?gs)), 0, 0, 0, 0, 0, 0]"
  have sum: "sum_list (map (\<lambda>t. fr_val (fst t ! 0)) (concat ?gs)) = 16"
    by (simp add: group_ex_def numeral_eq_Suc)
  have sixteen: "fr_val (fr 16) = 16" by (simp add: fr_modulus_def)
  have "accepts (block_circuit hd lib_ex (+) 0 (replicate 4 ?b) [0] 0) ?out"
    unfolding block_proof_correct [OF n(1) gs n(2) bs mp] sum using sixteen by (simp add: numeral_eq_Suc)
  then show ?thesis using sixteen by (intro exI [of _ ?out]) simp
qed

end
