(* ===== verification/State_Transition.thy ===== *)
theory State_Transition
  imports Proposer_Blocks Rollup_Circuit Tree_Batches Indexed_Batches
begin

text \<open>
  The preparation of a block's proof: \<open>prepare_state_transition\<close> of \<open>driven/rollup_prover.rs\<close> and of
  \<open>driven/mock_prover.rs\<close>. It inserts the commitments and the nullifiers of the block into the trees of the proposer,
  collects what the circuits need to check this, and computes the three roots of the block; the new historic root is
  appended to the cache of its tree only. The proof system (reading a proof as the input of a recursion, and the
  recursion itself) and the library's serialisation of membership proofs and of circuit information are parameters.
\<close>

section \<open>Errors\<close>

text \<open>The payloads of the library's errors are their texts.\<close>

datatype rollup_error =
    RollupConversion string | RollupSerialization string | RollupProving string | RollupMerkle merkle_error | RollupParameter string

fun merkle_text :: "merkle_error \<Rightarrow> string" where
  "merkle_text TreeIsFull = ''The tree is full''"
| "merkle_text IncorrectBatchSize = ''Incorrect batch size''"
| "merkle_text NoLeaves = ''No leaves''"
| "merkle_text DatabaseError = ''Database error ''"
| "merkle_text TreeNotFound = ''Tree not found''"
| "merkle_text TreeAlreadyExists = ''Tree already exists''"
| "merkle_text LeafExists = ''Leaf already exists''"
| "merkle_text SerializationError = ''Serialization error ''"
| "merkle_text InvalidProof = ''Invalid proof''"
| "merkle_text ItemNotFound = ''Item not found''"
| "merkle_text InvalidIndex = ''Invalid index''"
| "merkle_text _ = ''Error ''"

fun rollup_text :: "rollup_error \<Rightarrow> string" where
  "rollup_text (RollupConversion e) = ''RollupProofError: '' @ e"
| "rollup_text (RollupSerialization e) = ''RollupProofError: '' @ e"
| "rollup_text (RollupProving e) = ''RollupProofError: '' @ e"
| "rollup_text (RollupMerkle e) = ''RollupProofError: '' @ merkle_text e"
| "rollup_text (RollupParameter s) = ''RollupProofError: ParameterError: '' @ s"

definition as_assembly :: "rollup_error failure \<Rightarrow> assembly_error failure" where
  "as_assembly = map_failure (\<lambda>e. ProvingError (rollup_text e))"

type_synonym ('p, 'z, 'a) rollupM = "('p, 'z, rollup_error failure, 'a) proposerM"

definition merkleM :: "('p, 'z, merkle_error, 'a) proposerM \<Rightarrow> ('p, 'z, 'a) rollupM" where
  "merkleM = map_errM (\<lambda>e. if e = MerklePanic then Panics else Fails (RollupMerkle e))"

section \<open>The public inputs of the block\<close>

record ('p, 'o, 'v) rollup_env =
  re_output :: "'p \<Rightarrow> string + 'o"
  re_deposit_vk :: 'v
  re_client_vk :: 'v
  re_membership_vec :: "fr254 MembershipProof \<Rightarrow> fr254 list"
  re_commitment_vec :: "fr254 CircuitInsertionInfo \<Rightarrow> fr254 list"
  re_nullifier_vec :: "IMTCircuitInsertionInfo \<Rightarrow> fr254 list"

definition rollup_inputs ::
    "('p, 'o, 'v, 'x) rollup_env_scheme \<Rightarrow> ('p \<times> PublicInputs) list \<Rightarrow> 'p ClientTransactionWithMetaData list \<Rightarrow>
     rollup_error failure + ('o \<times> 'v) list \<times> PublicInputs list" where
  "rollup_inputs re deposit_transactions transactions =
     bindS (mapS (\<lambda>(proof, pub). map_sum (\<lambda>e. Fails (RollupProving e)) (\<lambda>out. ((out, re_deposit_vk re), pub)) (re_output re proof))
       deposit_transactions) (\<lambda>ds.
     bindS (mapS (\<lambda>tx. map_sum (\<lambda>e. Fails (RollupProving e))
         (\<lambda>out. ((out, re_client_vk re), public_inputs_from_tx (cwm_client_transaction tx)))
         (re_output re (ct_proof (cwm_client_transaction tx)))) transactions) (\<lambda>ts.
     Inr (map fst (ds @ ts), map snd (ds @ ts))))"

section \<open>Membership proofs of the historic roots\<close>

text \<open>The proofs made so far, by root, with the current historic root behind each of them, and the length of the last one.\<close>

type_synonym root_cache = "(fr254 \<times> fr254 list) list \<times> nat"

definition root_proof ::
    "('p, 'o, 'v, 'x) rollup_env_scheme \<Rightarrow> fr254 \<Rightarrow> fr254 \<Rightarrow> root_cache \<Rightarrow> ('p, 'z, fr254 list \<times> root_cache) rollupM" where
  "root_proof re current_historic_root rt = (\<lambda>(root_proofs, root_m_proof_len).
     (case map_of root_proofs rt of
        None \<Rightarrow>
          bindM (merkleM (historic_membership_proof (Some rt) None)) (\<lambda>proof.
          (let proof_vec = re_membership_vec re proof; root_m_proof_len = length proof_vec;
               proof_vec = proof_vec @ [current_historic_root]
           in returnM (proof_vec, (rt, proof_vec) # root_proofs, root_m_proof_len)))
      | Some proof_vec \<Rightarrow> returnM (proof_vec, root_proofs, root_m_proof_len)))"

fun input_root_proofs ::
    "('p, 'o, 'v, 'x) rollup_env_scheme \<Rightarrow> fr254 \<Rightarrow> fr254 list \<Rightarrow> root_cache \<Rightarrow> ('p, 'z, fr254 list \<times> root_cache) rollupM" where
  "input_root_proofs re cur [] st = returnM ([], st)"
| "input_root_proofs re cur (rt # rts) st =
     bindM (root_proof re cur rt st) (\<lambda>(proof_vec, st).
     bindM (input_root_proofs re cur rts st) (\<lambda>(m_proofs, st). returnM (proof_vec @ m_proofs, st)))"

fun all_root_proofs ::
    "('p, 'o, 'v, 'x) rollup_env_scheme \<Rightarrow> fr254 \<Rightarrow> PublicInputs list \<Rightarrow> root_cache \<Rightarrow> ('p, 'z, fr254 list list \<times> root_cache) rollupM" where
  "all_root_proofs re cur [] st = returnM ([], st)"
| "all_root_proofs re cur (pub # pubs) st =
     bindM (input_root_proofs re cur (pi_roots pub) st) (\<lambda>(m_proofs, st).
     bindM (all_root_proofs re cur pubs st) (\<lambda>(ms, st). returnM (m_proofs # ms, st)))"

section \<open>The information for the circuits\<close>

text \<open>Four transactions, with the information of two subtrees of commitments and two of nullifiers; an index out of range
  panics.\<close>

definition extra_chunk ::
    "('p, 'o, 'v, 'x) rollup_env_scheme \<Rightarrow> nat \<Rightarrow> PublicInputs list \<Rightarrow> fr254 list list \<Rightarrow> fr254 CircuitInsertionInfo list \<Rightarrow>
     IMTCircuitInsertionInfo list \<Rightarrow> fr254 list option" where
  "extra_chunk re root_m_proof_len pis root_m_proof_chunk commitment_info nullifier_info =
     (if length pis < 4 \<or> length root_m_proof_chunk < 4 \<or> length commitment_info < 2 \<or> length nullifier_info < 2 then None
      else
        (let root_proof_len_field = fr root_m_proof_len;
             commitment_info_vec_0 = re_commitment_vec re (commitment_info ! 0);
             commitment_info_vec_1 = re_commitment_vec re (commitment_info ! 1);
             nullifier_info_vecs = map (re_nullifier_vec re) nullifier_info;
             commitment_info_len = fr (length commitment_info_vec_0);
             nullifier_info_len = fr (length (nullifier_info_vecs ! 0))
         in Some (concat
              [[root_proof_len_field, commitment_info_len, nullifier_info_len],
               pi_roots (pis ! 0) @ pi_roots (pis ! 1),
               root_m_proof_chunk ! 0 @ root_m_proof_chunk ! 1,
               commitment_info_vec_0,
               nullifier_info_vecs ! 0,
               [root_proof_len_field, commitment_info_len, nullifier_info_len],
               pi_roots (pis ! 2) @ pi_roots (pis ! 3),
               root_m_proof_chunk ! 2 @ root_m_proof_chunk ! 3,
               commitment_info_vec_1,
               nullifier_info_vecs ! 1])))"

text \<open>\<open>izip!\<close> of the chunks ends with the shortest.\<close>

definition extra_infos ::
    "('p, 'o, 'v, 'x) rollup_env_scheme \<Rightarrow> nat \<Rightarrow> PublicInputs list \<Rightarrow> fr254 list list \<Rightarrow> fr254 CircuitInsertionInfo list \<Rightarrow>
     IMTCircuitInsertionInfo list \<Rightarrow> fr254 list list option" where
  "extra_infos re root_m_proof_len public_inputs root_membership_proofs commitment_circuit_info nullifier_circuit_info =
     those (map (\<lambda>(pis, ms, cs, ns). extra_chunk re root_m_proof_len pis ms cs ns)
       (zip (chunks 4 public_inputs) (zip (chunks 4 root_membership_proofs)
         (zip (chunks 2 commitment_circuit_info) (chunks 2 nullifier_circuit_info)))))"

section \<open>The state transition\<close>

record ('o, 'v) RollupPreppedInfo =
  ri_outputs_and_circuit_type :: "('o \<times> 'v) list"
  ri_specific_pi :: "fr254 list list"
  ri_extra_info :: "fr254 list list"
  ri_extra_decider_info :: "fr254 list"

definition prepare_state_transition ::
    "('p, 'o, 'v, 'x) rollup_env_scheme \<Rightarrow> ('p, 'e, 'y) proposer_env_scheme \<Rightarrow> ('p \<times> PublicInputs) list \<Rightarrow>
     'p ClientTransactionWithMetaData list \<Rightarrow> ('p, 'z, ('o, 'v) RollupPreppedInfo \<times> fr254 \<times> fr254 \<times> fr254) rollupM" where
  "prepare_state_transition re env deposit_transactions transactions =
     bindM (liftM (rollup_inputs re deposit_transactions transactions)) (\<lambda>(outputs_and_circuit_type, public_inputs).
     (let new_commitments = concat (map pi_commitments public_inputs);
          insert_nullifiers = concat (map pi_nullifiers public_inputs) in
     bindM (merkleM (in_historic_roots get_root)) (\<lambda>current_historic_root.
     bindM (merkleM (in_commitments (batch_insert_with_circuit_info (pe_tree_hash env) new_commitments))) (\<lambda>commitment_circuit_info.
     bindM (merkleM (in_nullifiers (batch_insert_nullifiers_with_circuit_info (pe_tree_hash env) (pe_hash env) (pe_ser env)
         insert_nullifiers))) (\<lambda>nullifier_circuit_info.
     bindM (merkleM commitments_get_root) (\<lambda>new_commitment_root.
     bindM (all_root_proofs re current_historic_root public_inputs ([], 0)) (\<lambda>(root_membership_proofs, _, root_m_proof_len).
     bindM (merkleM (in_nullifiers get_root)) (\<lambda>nullifier_root.
     bindM (merkleM (in_historic_roots get_root)) (\<lambda>old_historic_root.
     bindM (merkleM (in_historic_roots read_metadata)) (\<lambda>metadata.
     bindM (merkleM (append_historic_commitment_root (pe_tree_hash env) new_commitment_root False)) (\<lambda>updated_historic_root.
     bindM (merkleM (historic_membership_proof None (Some (sub_tree_count metadata)))) (\<lambda>historic_root_proof.
     bindM (okM Panics (extra_infos re root_m_proof_len public_inputs root_membership_proofs commitment_circuit_info
         nullifier_circuit_info)) (\<lambda>extra_info.
     (let extra_info_vec = re_membership_vec re historic_root_proof;
          historic_root_proof_length = fr (length extra_info_vec);
          extra_info_vec = historic_root_proof_length # extra_info_vec @ [old_historic_root]
      in returnM (\<lparr>ri_outputs_and_circuit_type = outputs_and_circuit_type, ri_specific_pi = map public_inputs_vec public_inputs,
             ri_extra_info = extra_info, ri_extra_decider_info = extra_info_vec\<rparr>,
           new_commitment_root, nullifier_root, updated_historic_root)))))))))))))))"

text \<open>The mock prover takes the same steps, and keeps only the sum of the fees of the client transactions.\<close>

definition mock_prepare_state_transition ::
    "('p, 'o, 'v, 'x) rollup_env_scheme \<Rightarrow> ('p, 'e, 'y) proposer_env_scheme \<Rightarrow> ('p \<times> PublicInputs) list \<Rightarrow>
     'p ClientTransactionWithMetaData list \<Rightarrow> ('p, 'z, fr254 \<times> fr254 \<times> fr254 \<times> fr254) rollupM" where
  "mock_prepare_state_transition re env deposit_transactions transactions =
     (let fee_sum = foldl (\<lambda>acc tx. acc + ct_fee (cwm_client_transaction tx)) 0 transactions in
     bindM (prepare_state_transition re env deposit_transactions transactions) (\<lambda>(_, roots). returnM (fee_sum, roots)))"

section \<open>The proof\<close>

text \<open>\<open>RecursiveProof\<close> of the library, with the coordinates of its points; the elements of \<open>Fq\<close> are naturals.\<close>

record recursive_proof =
  rc_pi :: "fr254 list"
  rc_accumulators :: "nat list \<times> nat list"
  rc_proof :: "nat list"

record RollupProof =
  rp_fee_sum :: fr254
  rp_accumulator_one :: "nat list"
  rp_accumulator_two :: "nat list"
  rp_proof :: "nat list"

definition rollup_proof_from :: "recursive_proof \<Rightarrow> RollupProof option" where
  "rollup_proof_from r =
     (case rc_pi r of
        [] \<Rightarrow> None
      | fee # _ \<Rightarrow> Some \<lparr>rp_fee_sum = fee, rp_accumulator_one = fst (rc_accumulators r),
          rp_accumulator_two = snd (rc_accumulators r), rp_proof = rc_proof r\<rparr>)"

definition rollup_proof_vec :: "RollupProof \<Rightarrow> nat list" where
  "rollup_proof_vec p = [fr_val (rp_fee_sum p)] @ rp_accumulator_one p @ rp_accumulator_two p @ rp_proof p"

type_synonym ('o, 'v) recursive_prover =
  "('o \<times> 'v) list \<Rightarrow> fr254 list list \<Rightarrow> fr254 list \<Rightarrow> fr254 list list \<Rightarrow> string + recursive_proof"

definition recursive_prove :: "('o, 'v) recursive_prover \<Rightarrow> ('o, 'v) RollupPreppedInfo \<Rightarrow> rollup_error failure + RollupProof" where
  "recursive_prove prove info =
     bindS (map_sum (\<lambda>e. Fails (RollupProving e)) id
       (prove (ri_outputs_and_circuit_type info) (ri_specific_pi info) (ri_extra_decider_info info) (ri_extra_info info))) (\<lambda>r.
     (case rollup_proof_from r of None \<Rightarrow> Inl Panics | Some p \<Rightarrow> Inr p))"

definition mock_recursive_prove :: "fr254 \<Rightarrow> nat list" where
  "mock_recursive_prove fee_sum = replicate 10 (fr_val fee_sum)"

definition rollup_prover ::
    "('p, 'o, 'v, 'x) rollup_env_scheme \<Rightarrow> ('p, 'e, 'y) proposer_env_scheme \<Rightarrow> (DepositData list \<Rightarrow> string + 'p \<times> PublicInputs) \<Rightarrow>
     ('o, 'v) recursive_prover \<Rightarrow> ('p, 'z, ('o, 'v) RollupPreppedInfo) proving_engine" where
  "rollup_prover re env dep prove =
     \<lparr>pv_deposit_proof = dep,
      pv_prepare = (\<lambda>ds ts. map_errM as_assembly (prepare_state_transition re env ds ts)),
      pv_recursive = (\<lambda>info. map_sum as_assembly rollup_proof_vec (recursive_prove prove info))\<rparr>"

definition mock_prover ::
    "('p, 'o, 'v, 'x) rollup_env_scheme \<Rightarrow> ('p, 'e, 'y) proposer_env_scheme \<Rightarrow> (DepositData list \<Rightarrow> string + 'p \<times> PublicInputs) \<Rightarrow>
     ('p, 'z, fr254) proving_engine" where
  "mock_prover re env dep =
     \<lparr>pv_deposit_proof = dep,
      pv_prepare = (\<lambda>ds ts. map_errM as_assembly (mock_prepare_state_transition re env ds ts)),
      pv_recursive = (\<lambda>fee_sum. Inr (mock_recursive_prove fee_sum))\<rparr>"

section \<open>Running it\<close>

lemma merkleM_ok [simp]: "m w = (Inr x, w') \<Longrightarrow> merkleM m w = (Inr x, w')"
  by (simp add: merkleM_def map_errM_def)

text \<open>A historic root that \<open>is_historic_root\<close> knows, or zero.\<close>

definition known_root :: "fr254 tree_db \<Rightarrow> fr254 \<Rightarrow> bool" where
  "known_root t r \<longleftrightarrow> r = 0 \<or> (case metadata t of None \<Rightarrow> False | Some m \<Rightarrow> historic_leaf m (nodes t) r)"

lemma pending_faults: "tree_pending th h c f g t \<Longrightarrow> faults t = []"
  by (simp add: tree_pending_def)

lemma historic_proof_run:
  assumes "faults w = []" "tree_pending th h c f g (historic_root_tree w)" "known_root (historic_root_tree w) r"
  obtains p where "historic_membership_proof (Some r) None w = (Inr p, w)" "leaf_index p < 2 ^ h"
    "sibling_path p = siblings (look (historic_root_tree w)) h (2 ^ h - 1 + leaf_index p)"
    "cache (historic_root_tree w) = [] \<Longrightarrow> r \<noteq> 0 \<Longrightarrow> g (leaf_index p) = r"
    "r = 0 \<Longrightarrow> leaf_index p = 0"
proof -
  let ?t = "historic_root_tree w"
  note P = assms(2) [unfolded tree_pending_def]
  have run: "in_historic_roots m w = (Inr p, w)" if "m ?t = (Inr p, ?t)" for m :: "(fr254 tree_db, merkle_error, fr254 MembershipProof) dbm" and p
    using in_historic_roots_run [of w m, OF assms(1) pending_faults [OF assms(2)] that pending_faults [OF assms(2)]] by simp
  show thesis
  proof (cases "r = 0")
    case True
    let ?p = "\<lparr>node_value = g 0, sibling_path = siblings (look ?t) h (2 ^ h - 1 + 0), leaf_index = 0\<rparr>"
    have "get_membership_proof None (Some 0) ?t = (Inr ?p, ?t)" by (rule pending_membership [OF assms(2)]) simp
    from run [of "get_membership_proof None (Some 0)", OF this] show thesis
      using True by (intro that [of ?p]) (simp_all add: historic_membership_proof_def)
  next
    case False
    let ?m = "\<lparr>tree_height = h, sub_tree_height = 0, sub_tree_count = c, root = mnode th f h 0\<rparr>"
    have m: "read_metadata ?t = (Inr ?m, ?t)" using read_metadata_ok P by blast
    have leaf: "historic_leaf ?m (nodes ?t) r" using assms(3) False P by (simp add: known_root_def)
    then obtain i x where f: "find (\<lambda>(_, x). x = r) (nodes ?t) = Some (i, x)"
      by (cases "find (\<lambda>(_, x). x = r) (nodes ?t)") (auto simp: historic_leaf_def)
    then have "x = r" by (auto simp: find_Some_iff)
    with f leaf have i: "find (\<lambda>(_, x). x = r) (nodes ?t) = Some (i, r)" "2 ^ h - 1 \<le> i" "i \<le> 2 ^ (h + 1) - 2"
      by (simp_all add: historic_leaf_def Let_def)
    have n: "2 ^ h - 1 + (i + 1 - 2 ^ h) = i" "i + 1 - 2 ^ h < 2 ^ h"
      using i(2,3) one_le_power [of "2::nat" h] unfolding power_add power_one_right by linarith+
    let ?p = "\<lparr>node_value = r, sibling_path = siblings (look ?t) h i, leaf_index = i + 1 - 2 ^ h\<rparr>"
    have "get_membership_proof (Some r) None ?t = (Inr ?p, ?t)"
      unfolding get_membership_proof_def bindM_Inr [of read_metadata, OF m]
      using i False P by (simp add: Let_def bindM_def db_read_ok read_siblings_ok returnM_def)
    from run [of "get_membership_proof (Some r) None", OF this] have 1: "historic_membership_proof (Some r) None w = (Inr ?p, w)"
      using False by (simp add: historic_membership_proof_def)
    have "g (i + 1 - 2 ^ h) = r" if "cache ?t = []"
    proof -
      have "(i, r) \<in> set (nodes ?t)" using i(1) by (metis find_Some_iff nth_mem)
      then have "map_of (nodes ?t) i = Some r" using P by simp
      then have "look ?t i = r" using that by (simp add: look_def)
      then show ?thesis using P n by (metis nodes_ok_def)
    qed
    then show thesis using n False by (intro that [OF 1]) simp_all
  qed
qed

text \<open>The proof of a root, a function of the state.\<close>

definition historic_proof :: "('p, 'z) proposer_db_scheme \<Rightarrow> fr254 \<Rightarrow> fr254 MembershipProof" where
  "historic_proof w r = projr (fst (historic_membership_proof (Some r) None w))"

definition root_vec :: "('p, 'o, 'v, 'x) rollup_env_scheme \<Rightarrow> fr254 \<Rightarrow> ('p, 'z) proposer_db_scheme \<Rightarrow> fr254 \<Rightarrow> fr254 list" where
  "root_vec re cur w r = re_membership_vec re (historic_proof w r) @ [cur]"

lemma historic_proof_eq: "historic_membership_proof (Some r) None w = (Inr p, w) \<Longrightarrow> historic_proof w r = p"
  by (simp add: historic_proof_def)

definition cache_ok ::
    "('p, 'o, 'v, 'x) rollup_env_scheme \<Rightarrow> fr254 \<Rightarrow> ('p, 'z) proposer_db_scheme \<Rightarrow> nat \<Rightarrow> root_cache \<Rightarrow> bool" where
  "cache_ok re cur w L st \<longleftrightarrow> (\<forall>(r, v)\<in>set (fst st). v = root_vec re cur w r) \<and> (fst st \<noteq> [] \<longrightarrow> snd st = L)"

definition provable ::
    "('p, 'o, 'v, 'x) rollup_env_scheme \<Rightarrow> ('p, 'z) proposer_db_scheme \<Rightarrow> nat \<Rightarrow> fr254 \<Rightarrow> bool" where
  "provable re w L r \<longleftrightarrow> (\<exists>p. historic_membership_proof (Some r) None w = (Inr p :: merkle_error + _, w) \<and> length (re_membership_vec re p) = L)"

lemma root_proof_run:
  assumes "cache_ok re cur w L st" "provable re w L r"
  shows "\<exists>st'. root_proof re cur r st w = (Inr (root_vec re cur w r, st'), w) \<and> cache_ok re cur w L st' \<and> fst st' \<noteq> []"
proof -
  obtain rs l where st: "st = (rs, l)" by force
  show ?thesis
  proof (cases "map_of rs r")
    case None
    obtain p where p: "historic_membership_proof (Some r) None w = (Inr p :: merkle_error + _, w)" "length (re_membership_vec re p) = L"
      using assms(2) unfolding provable_def by blast
    have v: "root_vec re cur w r = re_membership_vec re p @ [cur]" by (simp add: root_vec_def historic_proof_eq [OF p(1)])
    show ?thesis
      using assms(1) None p by (auto simp: root_proof_def st bindM_def returnM_def cache_ok_def v Let_def)
  next
    case (Some v)
    then have "(r, v) \<in> set rs" by (rule map_of_SomeD)
    then have "v = root_vec re cur w r" "rs \<noteq> []" using assms(1) by (auto simp: cache_ok_def st)
    then show ?thesis using assms(1) Some by (simp add: root_proof_def st returnM_def)
  qed
qed

lemma input_root_proofs_run:
  assumes "cache_ok re cur w L st" "\<forall>r\<in>set rs. provable re w L r"
  shows "\<exists>st'. input_root_proofs re cur rs st w = (Inr (concat (map (root_vec re cur w) rs), st'), w) \<and> cache_ok re cur w L st' \<and>
    (rs \<noteq> [] \<or> fst st \<noteq> [] \<longrightarrow> fst st' \<noteq> [])"
  using assms
proof (induction rs arbitrary: st)
  case (Cons r rs)
  have r: "provable re w L r" using Cons.prems(2) by simp
  obtain st1 where st1: "root_proof re cur r st w = (Inr (root_vec re cur w r, st1), w)" "cache_ok re cur w L st1" "fst st1 \<noteq> []"
    using root_proof_run [OF Cons.prems(1) r] by blast
  then obtain st2 where st2: "input_root_proofs re cur rs st1 w = (Inr (concat (map (root_vec re cur w) rs), st2), w)"
      "cache_ok re cur w L st2" "fst st2 \<noteq> []"
    using Cons.IH [OF st1(2)] Cons.prems(2) by auto
  obtain a b where s2: "st2 = (a, b)" by force
  obtain a' b' where s1: "st1 = (a', b')" by force
  show ?case using st1 st2 by (simp add: bindM_def returnM_def s1 s2)
qed (simp add: returnM_def)

lemma all_root_proofs_run:
  assumes "cache_ok re cur w L st" "\<forall>pub\<in>set pubs. \<forall>r\<in>set (pi_roots pub). provable re w L r"
  shows "\<exists>st'. all_root_proofs re cur pubs st w = (Inr (map (\<lambda>pub. concat (map (root_vec re cur w) (pi_roots pub))) pubs, st'), w) \<and>
    cache_ok re cur w L st' \<and> ((\<exists>pub\<in>set pubs. pi_roots pub \<noteq> []) \<or> fst st \<noteq> [] \<longrightarrow> fst st' \<noteq> [])"
  using assms
proof (induction pubs arbitrary: st)
  case (Cons pub pubs)
  have r: "\<forall>r\<in>set (pi_roots pub). provable re w L r" using Cons.prems(2) by simp
  obtain st1 where st1: "input_root_proofs re cur (pi_roots pub) st w = (Inr (concat (map (root_vec re cur w) (pi_roots pub)), st1), w)"
      "cache_ok re cur w L st1" "pi_roots pub \<noteq> [] \<or> fst st \<noteq> [] \<longrightarrow> fst st1 \<noteq> []"
    using input_root_proofs_run [OF Cons.prems(1) r] by blast
  then obtain st2 where st2: "all_root_proofs re cur pubs st1 w =
        (Inr (map (\<lambda>pub. concat (map (root_vec re cur w) (pi_roots pub))) pubs, st2), w)"
      "cache_ok re cur w L st2" "(\<exists>pub\<in>set pubs. pi_roots pub \<noteq> []) \<or> fst st1 \<noteq> [] \<longrightarrow> fst st2 \<noteq> []"
    using Cons.IH [OF st1(2)] Cons.prems(2) by auto
  obtain a b where s2: "st2 = (a, b)" by force
  obtain a' b' where s1: "st1 = (a', b')" by force
  show ?case using st1 st2 by (auto simp: bindM_def returnM_def s1 s2)
qed (simp add: returnM_def)

section \<open>The trees and the roots after it\<close>

text \<open>The proposer is ready: its three trees hold what their metadata say; of the historic roots the cache may hold a leaf
  that was never appended for good (\<open>g\<close> differs from \<open>gr\<close> at the next free leaf only).\<close>

definition proposer_ready ::
    "('p, 'e, 'y) proposer_env_scheme \<Rightarrow> nat \<times> nat \<times> (nat \<Rightarrow> fr254) \<Rightarrow> nat \<times> nat \<times> (nat \<Rightarrow> fr254) \<times> (nat \<Rightarrow> fr254) \<Rightarrow> nat \<times> nat \<Rightarrow>
     ('p, 'z) proposer_db_scheme \<Rightarrow> bool" where
  "proposer_ready env = (\<lambda>(hc, cc, fc) (hr, cr, gr, g) (hn, cn) w.
     faults w = [] \<and> pe_tree_hash env 0 0 = 0 \<and>
     tree_holds (pe_tree_hash env) hc 3 cc fc (commitment_tree w) \<and> (\<forall>j\<ge>cc * 8. fc j = 0) \<and>
     tree_pending (pe_tree_hash env) hr cr gr g (historic_root_tree w) \<and> (\<forall>j. j \<noteq> cr \<longrightarrow> g j = gr j) \<and> cr < 2 ^ hr \<and>
     imt_inv (pe_tree_hash env) (pe_hash env) (pe_ser env) hn 3 cn (nullifier_tree w))"

text \<open>A block of groups of four transactions with four commitments and four nullifiers each, whose roots are known.\<close>

definition block_commitments_of :: "PublicInputs list \<Rightarrow> fr254 list" where
  "block_commitments_of pubs = concat (map pi_commitments pubs)"

definition block_nullifiers_of :: "PublicInputs list \<Rightarrow> fr254 list" where
  "block_nullifiers_of pubs = concat (map pi_nullifiers pubs)"

definition block_fits :: "nat \<times> nat \<Rightarrow> nat \<times> nat \<Rightarrow> ('p, 'z) proposer_db_scheme \<Rightarrow> PublicInputs list \<Rightarrow> bool" where
  "block_fits = (\<lambda>(hc, cc) (hn, cn) w pubs.
     pubs \<noteq> [] \<and> length pubs mod 4 = 0 \<and> (\<forall>pub\<in>set pubs. length (pi_commitments pub) = 4 \<and> length (pi_nullifiers pub) = 4) \<and>
     cc + length pubs div 2 \<le> 2 ^ hc \<and> batch_ok hn 3 cn (imt_values (nullifier_tree w)) (block_nullifiers_of pubs) \<and>
     (\<forall>pub\<in>set pubs. \<forall>r\<in>set (pi_roots pub). known_root (historic_root_tree w) r))"

lemma length_concat_four: "\<forall>x\<in>set xs. length (f x) = 4 \<Longrightarrow> length (concat (map f xs)) = 4 * length xs"
  by (induction xs) simp_all

lemma eights: "length pubs mod 4 = 0 \<Longrightarrow> (4 * length pubs) mod 8 = 0 \<and> 4 * length pubs div 8 = length pubs div 2 \<and> length pubs div 2 mod 2 = 0"
  by presburger

text \<open>The chunks of four transactions all have what \<open>extra_chunk\<close> indexes.\<close>

lemma those_all: "\<forall>x\<in>set xs. \<exists>y. f x = Some y \<Longrightarrow> \<exists>ys. those (map f xs) = Some ys \<and> length ys = length xs"
  by (induction xs) auto

lemma extra_infos_ok:
  assumes "length pubs mod 4 = 0" "length ms = length pubs" "length cs = length pubs div 2" "length ns = length pubs div 2"
  shows "\<exists>xs. extra_infos re n pubs ms cs ns = Some xs \<and> length xs = length pubs div 4"
proof -
  have two: "length cs mod 2 = 0" "length ns mod 2 = 0" and four: "length cs div 2 = length pubs div 4" "length ns div 2 = length pubs div 4"
  proof -
    define k where "k = length pubs div 4"
    have "length pubs = 4 * k" using div_mult_mod_eq [of "length pubs" 4] assms(1) by (simp add: k_def)
    then show "length cs mod 2 = 0" "length ns mod 2 = 0" "length cs div 2 = length pubs div 4" "length ns div 2 = length pubs div 4"
      using assms(3,4) by simp_all
  qed
  let ?z = "zip (chunks 4 pubs) (zip (chunks 4 ms) (zip (chunks 2 cs) (chunks 2 ns)))"
  have l: "length (chunks 4 pubs) = length pubs div 4" "length (chunks 4 ms) = length pubs div 4"
    "length (chunks 2 cs) = length pubs div 4" "length (chunks 2 ns) = length pubs div 4"
    using length_chunks [of 4 pubs] length_chunks [of 4 ms] length_chunks [of 2 cs] length_chunks [of 2 ns]
    by (simp_all only: assms(1,2) two four zero_less_numeral)
  have "\<forall>x\<in>set ?z. \<exists>y. (\<lambda>(pis, ms, cs, ns). extra_chunk re n pis ms cs ns) x = Some y"
  proof
    fix x
    assume x: "x \<in> set ?z"
    obtain a b c d where abcd: "x = (a, b, c, d)" by (metis prod.collapse)
    then have "a \<in> set (chunks 4 pubs)" "b \<in> set (chunks 4 ms)" "c \<in> set (chunks 2 cs)" "d \<in> set (chunks 2 ns)"
      using x by (auto dest: set_zip_leftD set_zip_rightD)
    then have "length a = 4" "length b = 4" "length c = 2" "length d = 2"
      using chunks_length_mem [of 4 pubs a] chunks_length_mem [of 4 ms b] chunks_length_mem [of 2 cs c] chunks_length_mem [of 2 ns d]
        assms(1,2) two by simp_all
    then show "\<exists>y. (\<lambda>(pis, ms, cs, ns). extra_chunk re n pis ms cs ns) x = Some y" by (simp add: abcd extra_chunk_def Let_def)
  qed
  then have "\<exists>xs. those (map (\<lambda>(pis, ms, cs, ns). extra_chunk re n pis ms cs ns) ?z) = Some xs \<and> length xs = length ?z"
    by (rule those_all)
  moreover have "length ?z = length pubs div 4" by (simp only: length_zip l min.idem)
  ultimately show ?thesis by (simp only: extra_infos_def)
qed

lemma get_root_run:
  assumes "faults t = []" "metadata t = Some m"
  shows "get_root t = ((Inr (root m) :: merkle_error + _), t)"
  by (simp add: get_root_def bindM_def read_metadata_ok [OF assms] returnM_def)

lemma historic_root_run:
  assumes "faults w = []" "tree_pending th h c f g (historic_root_tree w)"
  shows "in_historic_roots get_root w = (Inr (mnode th f h 0) :: merkle_error + _, w)"
    "in_historic_roots read_metadata w =
       (Inr \<lparr>tree_height = h, sub_tree_height = 0, sub_tree_count = c, root = mnode th f h 0\<rparr> :: merkle_error + _, w)"
proof -
  let ?t = "historic_root_tree w"
  let ?m = "\<lparr>tree_height = h, sub_tree_height = 0, sub_tree_count = c, root = mnode th f h 0\<rparr>"
  have f: "faults ?t = []" "metadata ?t = Some ?m" using assms(2) by (simp_all add: tree_pending_def)
  show "in_historic_roots get_root w = (Inr (mnode th f h 0) :: merkle_error + _, w)"
    using in_historic_roots_run [of w get_root, OF assms(1) f(1) get_root_run [OF f] f(1)] by simp
  show "in_historic_roots read_metadata w = (Inr ?m :: merkle_error + _, w)"
    using in_historic_roots_run [of w read_metadata, OF assms(1) f(1) read_metadata_ok [OF f] f(1)] by simp
qed

lemma historic_stage_run:
  assumes "faults w = []" "tree_pending th h c f g (historic_root_tree w)" "\<forall>j. j \<noteq> c \<longrightarrow> g j = f j" "c < 2 ^ h"
  obtains t where "append_historic_commitment_root th x False w =
      (Inr (mnode th (put_leaves f c [x]) h 0) :: merkle_error + _, w\<lparr>historic_root_tree := t\<rparr>)"
    "tree_staged th h c f x t" "nodes t = nodes (historic_root_tree w)"
proof -
  have "put_leaves g c [x] = put_leaves f c [x]" using assms(3) by (auto simp: put_leaves_def fun_eq_iff)
  from stage_leaf [OF assms(2,4) this]
  obtain t where t: "append_sub_trees th [x] False (historic_root_tree w) = (Inr (mnode th (put_leaves f c [x]) h 0, c), t)"
    "tree_staged th h c f x t" "nodes t = nodes (historic_root_tree w)" by metis
  note r = in_historic_roots_run [of w "append_sub_trees th [x] False", OF assms(1) pending_faults [OF assms(2)] t(1)
      pending_faults [OF staged_pending [OF t(2)]]]
  show thesis
    by (rule that [OF _ t(2,3)]) (simp add: append_historic_commitment_root_def bindM_def r returnM_def)
qed

lemma historic_index_run:
  assumes "faults w = []" "tree_pending th h c f g (historic_root_tree w)" "j < 2 ^ h"
  shows "historic_membership_proof None (Some j) w =
    (Inr \<lparr>node_value = g j, sibling_path = siblings (look (historic_root_tree w)) h (2 ^ h - 1 + j), leaf_index = j\<rparr> :: merkle_error + _, w)"
  using in_historic_roots_run [of w "get_membership_proof None (Some j)", OF assms(1) pending_faults [OF assms(2)]
      pending_membership [OF assms(2,3)] pending_faults [OF assms(2)]]
  by (simp add: historic_membership_proof_def)

lemma historic_proof_cong:
  "historic_root_tree w = historic_root_tree w' \<Longrightarrow> faults w = faults w' \<Longrightarrow> historic_proof w r = historic_proof w' r"
  by (simp add: historic_proof_def historic_membership_proof_def in_historic_roots_def zoomM_def case_prod_beta)

text \<open>What the state transition gives: the roots of the trees with the leaves of the block, and the information for the circuits.\<close>

definition decider_info :: "('p, 'o, 'v, 'x) rollup_env_scheme \<Rightarrow> fr254 MembershipProof \<Rightarrow> fr254 \<Rightarrow> fr254 list" where
  "decider_info re p old = fr (length (re_membership_vec re p)) # re_membership_vec re p @ [old]"

lemma state_transition_run:
  fixes env :: "('p, 'e, 'y) proposer_env_scheme" and w :: "('p, 'z) proposer_db_scheme" and re :: "('p, 'o, 'v, 'x) rollup_env_scheme"
  defines "th \<equiv> pe_tree_hash env"
  assumes ready: "proposer_ready env (hc, cc, fc) (hr, cr, gr, g) (hn, cn) w" and fits: "block_fits (hc, cc) (hn, cn) w pubs"
    and inputs: "rollup_inputs re ds ts = Inr (outs, pubs)"
    and len: "\<And>p. length (sibling_path p) = hr \<Longrightarrow> length (re_membership_vec re p) = L"
  defines "fc' \<equiv> put_leaves fc (cc * 8) (block_commitments_of pubs)"
  obtains cinfos ninfos n xs hp t u v where
    "prepare_state_transition re env ds ts w =
      (Inr (\<lparr>ri_outputs_and_circuit_type = outs, ri_specific_pi = map public_inputs_vec pubs, ri_extra_info = xs,
            ri_extra_decider_info = decider_info re hp (mnode th gr hr 0)\<rparr>,
          mnode th fc' (hc + 3) 0, mnode th (leaf_content (pe_hash env) (indexed_leaves u)) (hn + 3) 0,
          mnode th (put_leaves gr cr [mnode th fc' (hc + 3) 0]) hr 0),
        w\<lparr>commitment_tree := t, nullifier_tree := u, historic_root_tree := v\<rparr>)"
    "extra_infos re n pubs (map (\<lambda>pub. concat (map (root_vec re (mnode th gr hr 0) w) (pi_roots pub))) pubs) cinfos ninfos = Some xs"
    "length cinfos = length pubs div 2" "length ninfos = length pubs div 2"
    "\<forall>i<length pubs div 2. info_ok th hc 3 cc fc (chunks (2 ^ 3) (block_commitments_of pubs)) i (cinfos ! i)"
    "(\<exists>pub\<in>set pubs. pi_roots pub \<noteq> []) \<Longrightarrow> n = L"
    "sibling_path hp = siblings (look v) hr (2 ^ hr - 1 + cr)" "leaf_index hp = cr"
    "tree_holds th hc 3 (cc + length pubs div 2) fc' t"
    "tree_staged th hr cr gr (mnode th fc' (hc + 3) 0) v" "nodes v = nodes (historic_root_tree w)"
    "imt_inv th (pe_hash env) (pe_ser env) hn 3 (cn + length pubs div 2) u"
    "imt_values u = imt_values (nullifier_tree w) \<union> {x \<in> set (block_nullifiers_of pubs). x \<noteq> 0}"
    "place_of (imt_list u) = add_places (place_of (imt_list (nullifier_tree w))) (block_nullifiers_of pubs) (cn * 8)"
proof -
  let ?cs = "block_commitments_of pubs" and ?ns = "block_nullifiers_of pubs" and ?cur = "mnode th gr hr 0"
  let ?cr = "mnode th fc' (hc + 3) 0"
  have R: "faults w = []" "th 0 0 = 0" "tree_holds th hc 3 cc fc (commitment_tree w)" "\<forall>j\<ge>cc * 2 ^ 3. fc j = 0"
    "tree_pending th hr cr gr g (historic_root_tree w)" "\<forall>j. j \<noteq> cr \<longrightarrow> g j = gr j" "cr < 2 ^ hr"
    "imt_inv th (pe_hash env) (pe_ser env) hn 3 cn (nullifier_tree w)"
    using ready by (simp_all add: proposer_ready_def th_def)
  have F: "length pubs mod 4 = 0" "length ?cs = 4 * length pubs" "length ?ns = 4 * length pubs" "cc + length pubs div 2 \<le> 2 ^ hc"
    "batch_ok hn 3 cn (imt_values (nullifier_tree w)) ?ns" "\<forall>pub\<in>set pubs. \<forall>r\<in>set (pi_roots pub). known_root (historic_root_tree w) r"
    using fits length_concat_four [of pubs pi_commitments] length_concat_four [of pubs pi_nullifiers]
    by (auto simp: block_fits_def block_commitments_of_def block_nullifiers_of_def)
  have e: "length ?cs mod 2 ^ 3 = 0" "length ?cs div 2 ^ 3 = length pubs div 2" "length ?ns div 8 = length pubs div 2"
    using eights [OF F(1)] F(2,3) by simp_all
  have room: "cc + length ?cs div 2 ^ 3 \<le> 2 ^ hc" using F(4) e(2) by simp
  have T: "store_inv True (commitment_tree w)" "tree_inv th hc 3 cc fc (commitment_tree w)" using R(3) by (simp_all add: tree_holds_def)
  obtain cinfos t where t: "batch_insert_with_circuit_info th ?cs (commitment_tree w) = (Inr cinfos, t)"
    "length cinfos = length pubs div 2" "\<forall>i<length pubs div 2. info_ok th hc 3 cc fc (chunks (2 ^ 3) ?cs) i (cinfos ! i)"
    "store_inv True t" "tree_inv th hc 3 (cc + length pubs div 2) (put_leaves fc (cc * 2 ^ 3) ?cs) t"
    by (rule commitment_batch_ok [OF R(2) T e(1) room R(4), unfolded e(2)]) (rule that)
  have th: "tree_holds th hc 3 (cc + length pubs div 2) fc' t" using t(4,5) by (simp add: tree_holds_def fc'_def)
  have s1: "merkleM (in_commitments (batch_insert_with_circuit_info th ?cs)) w = (Inr cinfos, w\<lparr>commitment_tree := t\<rparr>)"
    by (rule merkleM_ok, rule in_commitments_run [where w = w and m = "batch_insert_with_circuit_info th ?cs",
          OF R(1) tree_holds_faults [OF R(3)] t(1) tree_holds_faults [OF th]])
  let ?w1 = "w\<lparr>commitment_tree := t\<rparr>"
  obtain ninfos u where u: "batch_insert_nullifiers_with_circuit_info th (pe_hash env) (pe_ser env) ?ns (nullifier_tree w) = (Inr ninfos, u)"
    "length ninfos = length pubs div 2" "imt_inv th (pe_hash env) (pe_ser env) hn 3 (cn + length pubs div 2) u"
    "imt_values u = imt_values (nullifier_tree w) \<union> {x \<in> set ?ns. x \<noteq> 0}"
    "place_of (imt_list u) = add_places (place_of (imt_list (nullifier_tree w))) ?ns (cn * 8)"
    by (rule batch_circuit_ok [OF R(2,8) F(5), unfolded e(3)]) (rule that)
  have w1: "faults ?w1 = []" "nullifier_tree ?w1 = nullifier_tree w" using R(1) by simp_all
  have s2: "merkleM (in_nullifiers (batch_insert_nullifiers_with_circuit_info th (pe_hash env) (pe_ser env) ?ns)) ?w1 =
      (Inr ninfos, ?w1\<lparr>nullifier_tree := u\<rparr>)"
    by (rule merkleM_ok, rule in_nullifiers_run [where w = ?w1 and m = "batch_insert_nullifiers_with_circuit_info th (pe_hash env) (pe_ser env) ?ns",
          OF w1(1) _ _ imt_invD(7) [OF u(3)]])
      (use imt_invD(7) [OF R(8)] u(1) in simp_all)
  let ?w2 = "?w1\<lparr>nullifier_tree := u\<rparr>"
  have w2: "faults ?w2 = []" "historic_root_tree ?w2 = historic_root_tree w" "commitment_tree ?w2 = t" "nullifier_tree ?w2 = u"
    using R(1) by simp_all
  have s3: "merkleM commitments_get_root ?w2 = (Inr ?cr, ?w2)"
    by (rule merkleM_ok, rule commitments_root_run [OF w2(1)]) (use th w2(3) in simp)
  have p2: "tree_pending th hr cr gr g (historic_root_tree ?w2)" using R(5) w2(2) by simp
  have prov: "\<forall>pub\<in>set pubs. \<forall>r\<in>set (pi_roots pub). provable re ?w2 L r"
  proof (intro ballI)
    fix pub r
    assume "pub \<in> set pubs" "r \<in> set (pi_roots pub)"
    then have k: "known_root (historic_root_tree ?w2) r" using F(6) w2(2) by simp
    obtain p where "historic_membership_proof (Some r) None ?w2 = (Inr p :: merkle_error + _, ?w2)"
      "sibling_path p = siblings (look (historic_root_tree ?w2)) hr (2 ^ hr - 1 + leaf_index p)"
      by (rule historic_proof_run [OF w2(1) p2 k])
    then show "provable re ?w2 L r" using len [of p] by (auto simp: provable_def)
  qed
  have same: "root_vec re ?cur ?w2 r = root_vec re ?cur w r" for r
    using historic_proof_cong [of ?w2 w r] by (simp add: root_vec_def)
  obtain rs n where roots: "all_root_proofs re ?cur pubs ([], 0) ?w2 =
      (Inr (map (\<lambda>pub. concat (map (root_vec re ?cur w) (pi_roots pub))) pubs, rs, n), ?w2)"
    "(\<exists>pub\<in>set pubs. pi_roots pub \<noteq> []) \<Longrightarrow> n = L"
  proof -
    have "cache_ok re ?cur ?w2 L ([], 0)" by (simp add: cache_ok_def)
    from all_root_proofs_run [OF this prov] show thesis
      unfolding same cache_ok_def by (metis prod.collapse that fst_conv snd_conv)
  qed
  have s4: "merkleM (in_nullifiers get_root) ?w2 = (Inr (mnode th (leaf_content (pe_hash env) (indexed_leaves u)) (hn + 3) 0), ?w2)"
  proof (rule merkleM_ok)
    note r = get_root_run [OF imt_invD(7) [OF u(3)] imt_invD(12) [OF u(3)]]
    show "in_nullifiers get_root ?w2 = (Inr (mnode th (leaf_content (pe_hash env) (indexed_leaves u)) (hn + 3) 0), ?w2)"
      using in_nullifiers_run [of ?w2 get_root, OF w2(1) _ _ imt_invD(7) [OF u(3)]] r imt_invD(7) [OF u(3)] w2(4) by simp
  qed
  obtain v where v: "append_historic_commitment_root th ?cr False ?w2 =
      (Inr (mnode th (put_leaves gr cr [?cr]) hr 0) :: merkle_error + _, ?w2\<lparr>historic_root_tree := v\<rparr>)"
    "tree_staged th hr cr gr ?cr v" "nodes v = nodes (historic_root_tree ?w2)"
    by (rule historic_stage_run [OF w2(1) p2 R(6,7)])
  let ?w3 = "?w2\<lparr>historic_root_tree := v\<rparr>"
  have w3: "faults ?w3 = []" "tree_pending th hr cr gr (put_leaves gr cr [?cr]) (historic_root_tree ?w3)"
    using R(1) staged_pending [OF v(2)] by simp_all
  let ?hp = "\<lparr>node_value = put_leaves gr cr [?cr] cr, sibling_path = siblings (look v) hr (2 ^ hr - 1 + cr), leaf_index = cr\<rparr>"
  have s5: "historic_membership_proof None (Some cr) ?w3 = (Inr ?hp :: merkle_error + _, ?w3)"
    using historic_index_run [OF w3 R(7)] by simp
  obtain xs where xs: "extra_infos re n pubs (map (\<lambda>pub. concat (map (root_vec re ?cur w) (pi_roots pub))) pubs) cinfos ninfos = Some xs"
    using extra_infos_ok [OF F(1) _ t(2) u(2), of "map (\<lambda>pub. concat (map (root_vec re ?cur w) (pi_roots pub))) pubs" re n] by auto
  have h1: "merkleM (in_historic_roots get_root) w = (Inr ?cur, w)" "merkleM (in_historic_roots get_root) ?w2 = (Inr ?cur, ?w2)"
    "merkleM (in_historic_roots read_metadata) ?w2 = (Inr \<lparr>tree_height = hr, sub_tree_height = 0, sub_tree_count = cr, root = ?cur\<rparr>, ?w2)"
    "merkleM (append_historic_commitment_root th ?cr False) ?w2 = (Inr (mnode th (put_leaves gr cr [?cr]) hr 0), ?w3)"
    "merkleM (historic_membership_proof None (Some cr)) ?w3 = (Inr ?hp, ?w3)"
    by (rule merkleM_ok, rule historic_root_run(1) [OF R(1,5)], rule merkleM_ok, rule historic_root_run(1) [OF w2(1) p2],
        rule merkleM_ok, rule historic_root_run(2) [OF w2(1) p2], rule merkleM_ok, rule v(1), rule merkleM_ok, rule s5)
  have run: "prepare_state_transition re env ds ts w =
      (Inr (\<lparr>ri_outputs_and_circuit_type = outs, ri_specific_pi = map public_inputs_vec pubs, ri_extra_info = xs,
            ri_extra_decider_info = decider_info re ?hp ?cur\<rparr>,
          ?cr, mnode th (leaf_content (pe_hash env) (indexed_leaves u)) (hn + 3) 0, mnode th (put_leaves gr cr [?cr]) hr 0), ?w3)"
    unfolding prepare_state_transition_def
    by (simp only: bindM_def liftM_def inputs prod.case sum.case Let_def th_def [symmetric]
        block_commitments_of_def [symmetric] block_nullifiers_of_def [symmetric]
        h1 s1 s2 s3 roots(1) s4 TreeMetadata.select_convs xs
        okM_def option.case returnM_def decider_info_def)
  show thesis
    by (rule that [where hp = ?hp, OF run xs t(2) u(2) t(3) roots(2) _ _ th v(2) _ u(3-5)]) (use v(3) w2(2) in simp_all)
qed

end
