(* ===== verification/Block_Trigger.thy ===== *)
theory Block_Trigger
  imports Proposer_Events "HOL-Library.Log_Nat"
begin

text \<open>
  When a block is made: \<open>SmartTrigger\<close> and \<open>BlockAssemblyStatus\<close> of \<open>nightfall_proposer/src/driven/block_assembler.rs\<close>,
  and the requests of \<open>drivers/rest/block_assembly.rs\<close>. The ratio by which a block is filled is computed in \<open>f32\<close>, whose
  rounding is written out. What other tasks do to the state while the trigger waits is part of each round of its loop,
  as are the clock and the answer of the chain.
\<close>

section \<open>Single precision\<close>

text \<open>Rounding to the nearest number with 24 significant bits, ties to even, of a number that is not negative; the least
  unit is \<open>2\<close> to the power of \<open>- 149\<close>, and the numbers here are far below the largest one.\<close>

definition round_even :: "rat \<Rightarrow> int" where
  "round_even x =
     (let n = \<lfloor>x\<rfloor>; r = x - of_int n in if r < 1 / 2 then n else if r > 1 / 2 then n + 1 else if even n then n else n + 1)"

definition f32_unit :: "rat \<Rightarrow> rat" where
  "f32_unit x = 2 ^ (nat (bitlen \<lfloor>x * 2 ^ 149\<rfloor>) - 24) / 2 ^ 149"

definition f32 :: "rat \<Rightarrow> rat" where
  "f32 x = of_int (round_even (x / f32_unit x)) * f32_unit x"

lemma round_even_of_int [simp]: "round_even (of_int n) = n"
  by (simp add: round_even_def)

lemma round_even_mono: "x \<le> y \<Longrightarrow> round_even x \<le> round_even y"
proof -
  assume le: "x \<le> y"
  show ?thesis
  proof (cases "\<lfloor>x\<rfloor> = \<lfloor>y\<rfloor>")
    case True
    then show ?thesis using le by (simp add: round_even_def Let_def)
  next
    case False
    then have "\<lfloor>x\<rfloor> + 1 \<le> \<lfloor>y\<rfloor>" using floor_mono [OF le] by linarith
    then show ?thesis by (simp add: round_even_def Let_def)
  qed
qed

lemma f32_unit_pos: "0 < f32_unit x"
  by (simp add: f32_unit_def)

lemma bitlen_nat: "n < 2 ^ k \<Longrightarrow> bitlen (int n) \<le> int k"
proof (cases "n = 0")
  case False
  assume "n < 2 ^ k"
  then have "floorlog 2 n \<le> k" by (intro floorlog_leI) simp_all
  then show ?thesis by (simp add: bitlen_def)
qed (simp add: bitlen_def floorlog_def)

text \<open>Counts below \<open>2 ^ 24\<close> are exact.\<close>

lemma f32_nat: assumes "n < 2 ^ 24" shows "f32 (of_nat n) = of_nat n"
proof -
  have fl: "\<lfloor>of_nat n * 2 ^ 149 :: rat\<rfloor> = int (n * 2 ^ 149)"
    using floor_of_int [of "int (n * 2 ^ 149)", where 'a = rat] by simp
  have "n * 2 ^ 149 < 2 ^ 24 * 2 ^ 149" using assms by (simp add: mult_less_cancel2)
  then have "bitlen (int (n * 2 ^ 149)) \<le> 173" using bitlen_nat [of "n * 2 ^ 149" 173] by simp
  then obtain k where k: "nat (bitlen (int (n * 2 ^ 149))) - 24 = k" "k \<le> 149" by fastforce
  then have "f32_unit (of_nat n) = 2 ^ k / 2 ^ 149" unfolding f32_unit_def fl by simp
  moreover have "(2 :: rat) ^ 149 = 2 ^ k * 2 ^ (149 - k)" using k(2) by (simp only: power_add [symmetric] le_add_diff_inverse)
  ultimately have u: "f32_unit (of_nat n) * 2 ^ (149 - k) = 1" by (simp only:) simp
  then have q: "of_nat n / f32_unit (of_nat n) = (of_int (int n * 2 ^ (149 - k)) :: rat)"
    using f32_unit_pos [of "of_nat n"] by (simp add: field_simps)
  show ?thesis unfolding f32_def q round_even_of_int using u by (simp add: ac_simps)
qed

lemma f32_mono: assumes "0 \<le> x" "x \<le> y" shows "f32 x \<le> f32 y"
proof -
  define a where "a = nat \<lfloor>x * 2 ^ 149\<rfloor>"
  define b where "b = nat \<lfloor>y * 2 ^ 149\<rfloor>"
  have fl: "\<lfloor>x * 2 ^ 149\<rfloor> = int a" "\<lfloor>y * 2 ^ 149\<rfloor> = int b" using assms by (simp_all add: a_def b_def)
  have "\<lfloor>x * 2 ^ 149\<rfloor> \<le> \<lfloor>y * 2 ^ 149\<rfloor>" using assms(2) by (intro floor_mono mult_right_mono) simp_all
  then have ab: "floorlog 2 a \<le> floorlog 2 b" unfolding fl by (intro floorlog_mono) simp
  let ?k = "floorlog 2 a - 24" and ?l = "floorlog 2 b - 24"
  have u: "f32_unit x = 2 ^ ?k / 2 ^ 149" "f32_unit y = 2 ^ ?l / 2 ^ 149" unfolding f32_unit_def fl bitlen_def by simp_all
  show ?thesis
  proof (cases "?k = ?l")
    case True
    then have e: "f32_unit x = f32_unit y" using u by simp
    have "x / f32_unit y \<le> y / f32_unit y" using assms(2) f32_unit_pos [of y] by (intro divide_right_mono) simp_all
    then show ?thesis unfolding f32_def e using f32_unit_pos [of y] by (intro mult_right_mono) (simp_all add: round_even_mono)
  next
    case False
    then have l: "?k + 1 \<le> ?l" "floorlog 2 b = ?l + 24" using ab by simp_all
    then have "0 < b" by (cases "b = 0") (simp_all add: floorlog_def)
    have "2 ^ (?l + 23) \<le> b" using floorlog_bounds [of b 2] \<open>0 < b\<close> l(2) by simp
    then have "2 ^ (?l + 23) \<le> \<lfloor>y * 2 ^ 149\<rfloor>" unfolding fl by (metis of_nat_le_iff of_nat_numeral of_nat_power)
    then have "2 ^ (?l + 23) \<le> y * 2 ^ 149" by (simp add: le_floor_iff)
    then have "of_int (2 ^ 23) \<le> y / f32_unit y" unfolding u by (simp add: field_simps power_add)
    then have y: "2 ^ 23 \<le> round_even (y / f32_unit y)" by (rule round_even_mono [of "of_int (2 ^ 23)", unfolded round_even_of_int])
    have "a < 2 ^ (?k + 24)"
    proof (cases "a = 0")
      case False
      then have "a < 2 ^ floorlog 2 a" using floorlog_bounds [of a 2] by simp
      also have "(2::nat) ^ floorlog 2 a \<le> 2 ^ (?k + 24)" by (intro power_increasing) simp_all
      finally show ?thesis .
    qed simp
    then have "\<lfloor>x * 2 ^ 149\<rfloor> < 2 ^ (?k + 24)" unfolding fl by (metis of_nat_less_iff of_nat_numeral of_nat_power)
    then have "x * 2 ^ 149 < 2 ^ (?k + 24)" by (simp add: floor_less_iff)
    then have "x / f32_unit x \<le> of_int (2 ^ 24)" unfolding u by (simp add: field_simps power_add)
    then have x: "round_even (x / f32_unit x) \<le> 2 ^ 24" by (rule round_even_mono [of _ "of_int (2 ^ 24)", unfolded round_even_of_int])
    have "(2::rat) ^ (?k + 1) \<le> 2 ^ ?l" using l(1) by (intro power_increasing) simp_all
    then have uu: "2 * f32_unit x \<le> f32_unit y" unfolding u by (simp add: divide_right_mono)
    have "f32 x \<le> of_int (2 ^ 24) * f32_unit x" unfolding f32_def
      using x f32_unit_pos [of x] by (intro mult_right_mono) (simp_all only: of_int_le_iff less_imp_le)
    also have "\<dots> = of_int (2 ^ 23) * (2 * f32_unit x)" by simp
    also have "\<dots> \<le> of_int (2 ^ 23) * f32_unit y" using uu by (intro mult_left_mono) simp_all
    also have "\<dots> \<le> f32 y" unfolding f32_def
      using y f32_unit_pos [of y] by (intro mult_right_mono) (simp_all only: of_int_le_iff less_imp_le)
    finally show ?thesis .
  qed
qed

section \<open>Status and requests\<close>

text \<open>\<open>BlockAssemblyStatus\<close>, which the whole proposer shares, and the two requests that set it.\<close>

type_synonym BlockAssemblyStatus = bool

definition new_assembly_status :: BlockAssemblyStatus where
  "new_assembly_status = True"

record 'p trigger_state = "'p proposer_state" +
  assembly_status :: BlockAssemblyStatus

definition pause :: "(('p, 'z) trigger_state_scheme, 'e, unit) dbm" where
  "pause w = (Inr (), w\<lparr>assembly_status := False\<rparr>)"

definition resume :: "(('p, 'z) trigger_state_scheme, 'e, unit) dbm" where
  "resume w = (Inr (), w\<lparr>assembly_status := True\<rparr>)"

definition is_running :: "(('p, 'z) trigger_state_scheme, 'e, bool) dbm" where
  "is_running = readM assembly_status"

text \<open>The status codes of the answers.\<close>

definition handle_pause_block_assembly :: "(('p, 'z) trigger_state_scheme, 'e, nat) dbm" where
  "handle_pause_block_assembly = bindM pause (\<lambda>_. returnM 200)"

definition handle_resume_block_assembly :: "(('p, 'z) trigger_state_scheme, 'e, nat) dbm" where
  "handle_resume_block_assembly = bindM resume (\<lambda>_. returnM 200)"

section \<open>How full the block would be\<close>

record SmartTrigger =
  st_max_wait_secs :: nat
  st_target_block_fill_ratio :: rat

text \<open>An error of the database counts as an empty mempool.\<close>

definition num_deposit_groups :: "(('p, 'z) trigger_state_scheme, 'e, nat) dbm" where
  "num_deposit_groups =
     bindM (tryM count_mempool_deposits) (\<lambda>count. returnM (case count of Some n \<Rightarrow> (n + 3) div 4 | None \<Rightarrow> 0))"

definition num_client_txs :: "(('p, 'z) trigger_state_scheme, 'e, nat) dbm" where
  "num_client_txs =
     bindM (tryM count_mempool_client_transactions) (\<lambda>count. returnM (case count of Some n \<Rightarrow> n | None \<Rightarrow> 0))"

definition block_size_or_default :: "nat \<Rightarrow> nat" where
  "block_size_or_default setting = (case get_block_size setting of Inr n \<Rightarrow> n | Inl _ \<Rightarrow> 64)"

definition mempool_f32 :: "nat \<Rightarrow> nat \<Rightarrow> rat" where
  "mempool_f32 groups txs = f32 (f32 (of_nat groups) + f32 (of_nat txs))"

definition should_assemble :: "SmartTrigger \<Rightarrow> nat \<Rightarrow> (('p, 'z) trigger_state_scheme, 'e, bool) dbm" where
  "should_assemble trigger setting =
     bindM num_deposit_groups (\<lambda>groups.
     bindM num_client_txs (\<lambda>txs.
     (let block_size = f32 (of_nat (block_size_or_default setting));
          fill_ratio = f32 (mempool_f32 groups txs / block_size)
      in returnM (fill_ratio \<ge> st_target_block_fill_ratio trigger))))"

definition break_pause :: "nat \<Rightarrow> (('p, 'z) trigger_state_scheme, 'e, bool) dbm" where
  "break_pause setting =
     bindM num_deposit_groups (\<lambda>groups.
     bindM num_client_txs (\<lambda>txs.
     returnM (mempool_f32 groups txs \<ge> f32 (of_nat (block_size_or_default setting)))))"

section \<open>Waiting\<close>

text \<open>One round of the loop: the seconds since it began, the answer of the chain, what other tasks do to the state
  before the round and while it waits, and whether the wait ends with a tick of the interval. The loop ends with a
  reason, or is still waiting after the rounds.\<close>

record 's trigger_round =
  rn_elapsed :: nat
  rn_proposer :: "unit + 160 word"
  rn_before :: "'s \<Rightarrow> 's"
  rn_during :: "'s \<Rightarrow> 's"
  rn_tick :: bool

datatype trigger_reason = LostProposer | MempoolFull | MaxWait | PauseBroken | IntervalFull

definition otherM :: "('s \<Rightarrow> 's) \<Rightarrow> ('s, 'e, unit) dbm" where
  "otherM f w = (Inr (), f w)"

definition interval_wait ::
    "SmartTrigger \<Rightarrow> nat \<Rightarrow> ('p, 'z) trigger_state_scheme trigger_round \<Rightarrow>
     (('p, 'z) trigger_state_scheme, 'e, bool) dbm" where
  "interval_wait trigger setting r =
     bindM (otherM (rn_during r)) (\<lambda>_.
     if \<not> rn_tick r then returnM False
     else bindM is_running (\<lambda>running. if running then should_assemble trigger setting else returnM False))"

fun await_trigger ::
    "160 word \<Rightarrow> SmartTrigger \<Rightarrow> nat \<Rightarrow> ('p, 'z) trigger_state_scheme trigger_round list \<Rightarrow>
     (('p, 'z) trigger_state_scheme, 'e, trigger_reason option) dbm" where
  "await_trigger our_address trigger setting [] = returnM None"
| "await_trigger our_address trigger setting (r # rs) =
     bindM (otherM (rn_before r)) (\<lambda>_.
     (case rn_proposer r of
        Inl _ \<Rightarrow> await_trigger our_address trigger setting rs
      | Inr current_proposer \<Rightarrow>
          if current_proposer \<noteq> our_address then returnM (Some LostProposer)
          else
            bindM is_running (\<lambda>running.
            bindM (if running
                   then bindM (should_assemble trigger setting) (\<lambda>full.
                        returnM (if full then Some MempoolFull
                                 else if rn_elapsed r \<ge> st_max_wait_secs trigger then Some MaxWait else None))
                   else bindM (break_pause setting) (\<lambda>full.
                        if full then bindM resume (\<lambda>_. returnM (Some PauseBroken)) else returnM None)) (\<lambda>reason.
            if reason \<noteq> None then returnM reason
            else bindM (interval_wait trigger setting r) (\<lambda>full.
                 if full then returnM (Some IntervalFull) else await_trigger our_address trigger setting rs)))))"

section \<open>A full block\<close>

text \<open>What the mempool holds, in units of a block.\<close>

definition mempool_units :: "('p, 'z) proposer_db_scheme \<Rightarrow> nat" where
  "mempool_units w = (length (deposits w) + 3) div 4 + length (filter cwm_in_mempool (client_transactions w))"

lemma counts_run:
  assumes "faults w = []"
  shows "num_deposit_groups w = (Inr ((length (deposits w) + 3) div 4), w)"
    "num_client_txs w = (Inr (length (filter cwm_in_mempool (client_transactions w))), w)"
  using assms by (simp_all add: num_deposit_groups_def num_client_txs_def count_mempool_deposits_def
      count_mempool_client_transactions_def try_read_ok bindM_def returnM_def)

lemma block_size_bounds: "64 \<le> block_size_or_default setting" "block_size_or_default setting \<le> 1024"
  by (simp_all add: block_size_or_default_def get_block_size_def)

lemma mempool_f32_mono: "a \<le> g \<Longrightarrow> b \<le> t \<Longrightarrow> mempool_f32 a b \<le> mempool_f32 g t"
proof -
  assume le: "a \<le> g" "b \<le> t"
  have nonneg: "0 \<le> f32 (of_nat n)" for n
    using f32_mono [of 0 "of_nat n"] f32_nat [of 0] by simp
  have "f32 (of_nat a) \<le> f32 (of_nat g)" "f32 (of_nat b) \<le> f32 (of_nat t)" using le by (simp_all add: f32_mono)
  then show ?thesis unfolding mempool_f32_def using nonneg by (intro f32_mono [OF add_nonneg_nonneg add_mono])
qed

lemma mempool_f32_exact: "g + t < 2 ^ 24 \<Longrightarrow> mempool_f32 g t = of_nat (g + t)"
proof -
  assume lt: "g + t < 2 ^ 24"
  have "f32 (of_nat g) = of_nat g" "f32 (of_nat t) = of_nat t" "f32 (of_nat (g + t)) = of_nat (g + t)"
    by (rule f32_nat, use lt in simp)+
  then show ?thesis by (simp add: mempool_f32_def)
qed

lemma mempool_f32_full:
  assumes "n \<le> g + t" "n < 2 ^ 24" shows "of_nat n \<le> mempool_f32 g t"
proof -
  have "of_nat n = mempool_f32 (min n g) (n - min n g)" using mempool_f32_exact [of "min n g" "n - min n g"] assms(2) by simp
  also have "\<dots> \<le> mempool_f32 g t" using assms(1) by (intro mempool_f32_mono) linarith+
  finally show ?thesis .
qed

lemma should_assemble_run:
  assumes "faults w = []"
  shows "should_assemble trigger setting w =
      (Inr (f32 (mempool_f32 ((length (deposits w) + 3) div 4) (length (filter cwm_in_mempool (client_transactions w))) /
         f32 (of_nat (block_size_or_default setting))) \<ge> st_target_block_fill_ratio trigger), w)"
    "break_pause setting w =
      (Inr (mempool_f32 ((length (deposits w) + 3) div 4) (length (filter cwm_in_mempool (client_transactions w))) \<ge>
         f32 (of_nat (block_size_or_default setting))), w)"
  by (simp_all add: should_assemble_def break_pause_def bindM_def returnM_def Let_def counts_run [OF assms])

text \<open>With a block's worth of deposits and transactions in the mempool a block is due, whatever the rounding: the pause is
  broken, and a running assembly is triggered for any ratio up to one. With fewer, a pause is not broken.\<close>

theorem full_mempool_triggers:
  assumes "faults w = []"
  shows "(block_size_or_default setting \<le> mempool_units w \<longrightarrow> break_pause setting w = (Inr True, w) \<and>
      (st_target_block_fill_ratio trigger \<le> 1 \<longrightarrow> should_assemble trigger setting w = (Inr True, w))) \<and>
    (mempool_units w < block_size_or_default setting \<longrightarrow> break_pause setting w = (Inr False, w))"
proof -
  let ?s = "block_size_or_default setting" and ?g = "(length (deposits w) + 3) div 4" and ?t = "length (filter cwm_in_mempool (client_transactions w))"
  have s: "?s < 2 ^ 24" "0 < ?s" using block_size_bounds [of setting] by simp_all
  have f: "f32 (of_nat ?s) = of_nat ?s" by (rule f32_nat) (rule s(1))
  have "break_pause setting w = (Inr True, w) \<and> (st_target_block_fill_ratio trigger \<le> 1 \<longrightarrow> should_assemble trigger setting w = (Inr True, w))"
    if "?s \<le> mempool_units w"
  proof -
    have le: "of_nat ?s \<le> mempool_f32 ?g ?t" using mempool_f32_full [OF _ s(1), of ?g ?t] that by (simp add: mempool_units_def)
    then have "1 \<le> mempool_f32 ?g ?t / of_nat ?s" using s(2) by (simp add: le_divide_eq)
    then have "1 \<le> f32 (mempool_f32 ?g ?t / of_nat ?s)" using f32_mono [of 1] f32_nat [of 1] by fastforce
    then show ?thesis using le by (simp add: should_assemble_run [OF assms] f)
  qed
  moreover have "break_pause setting w = (Inr False, w)" if lt: "mempool_units w < ?s"
  proof -
    have "mempool_f32 ?g ?t = of_nat (?g + ?t)"
      by (rule mempool_f32_exact) (use lt s(1) in \<open>simp add: mempool_units_def\<close>)
    then show ?thesis using lt by (simp add: should_assemble_run [OF assms] f mempool_units_def)
  qed
  ultimately show ?thesis by blast
qed

section \<open>Ending\<close>

lemma counts_answer:
  "\<exists>n w'. num_deposit_groups w = (Inr n, w') \<and> assembly_status w' = assembly_status w"
  "\<exists>n w'. num_client_txs w = (Inr n, w') \<and> assembly_status w' = assembly_status w"
  by (auto simp: num_deposit_groups_def num_client_txs_def count_mempool_deposits_def count_mempool_client_transactions_def
      tryM_def db_read_def db_call_def bindM_def returnM_def split: sum.splits list.splits bool.splits)

lemma triggers_answer:
  fixes w :: "('p, 'z) trigger_state_scheme"
  shows "\<exists>b w'. should_assemble trigger setting w = (Inr b :: 'e + _, w') \<and> assembly_status w' = assembly_status w"
proof -
  obtain g w1 where 1: "num_deposit_groups w = (Inr g :: 'e + _, w1)" "assembly_status w1 = assembly_status w" using counts_answer(1) by blast
  obtain t w2 where 2: "num_client_txs w1 = (Inr t :: 'e + _, w2)" "assembly_status w2 = assembly_status w1" using counts_answer(2) by blast
  show ?thesis using 1 2 by (simp add: should_assemble_def bindM_def returnM_def Let_def)
qed

text \<open>A round in which the chain answers that we propose, and in which nobody pauses.\<close>

definition undisturbed :: "160 word \<Rightarrow> ('p, 'z) trigger_state_scheme trigger_round \<Rightarrow> bool" where
  "undisturbed our_address r \<longleftrightarrow> rn_proposer r = Inr our_address \<and>
     (\<forall>w. assembly_status (rn_before r w) = assembly_status w \<and> assembly_status (rn_during r w) = assembly_status w)"

lemma interval_wait_answer:
  fixes w :: "('p, 'z) trigger_state_scheme"
  assumes "undisturbed a r"
  shows "\<exists>b w'. interval_wait trigger setting r w = (Inr b :: 'e + _, w') \<and> assembly_status w' = assembly_status w"
proof -
  obtain b w' where "should_assemble trigger setting (rn_during r w) = (Inr b :: 'e + _, w')" "assembly_status w' = assembly_status (rn_during r w)"
    using triggers_answer by blast
  then show ?thesis using assms
    by (auto simp: interval_wait_def bindM_def otherM_def is_running_def readM_def returnM_def undisturbed_def)
qed

text \<open>The wait for a block ends: while this proposer is the current one and nobody pauses it, the loop ends in the first round
  after the longest waiting time, if not before, and then a block is due.\<close>

theorem trigger_fires:
  fixes w :: "('p, 'z) trigger_state_scheme"
  assumes "assembly_status w" "\<forall>r\<in>set rs. undisturbed our_address r" "\<exists>r\<in>set rs. st_max_wait_secs trigger \<le> rn_elapsed r"
  shows "\<exists>reason w'. await_trigger our_address trigger setting rs w = (Inr (Some reason) :: 'e + _, w') \<and>
    reason \<in> {MempoolFull, MaxWait, IntervalFull} \<and> assembly_status w'"
  using assms
proof (induction rs arbitrary: w)
  case (Cons r rs)
  have u: "undisturbed our_address r" using Cons.prems(2) by simp
  then have running: "assembly_status (rn_before r w)" using Cons.prems(1) by (simp add: undisturbed_def)
  obtain b w1 where 1: "should_assemble trigger setting (rn_before r w) = (Inr b :: 'e + _, w1)" "assembly_status w1"
    using triggers_answer [of trigger setting "rn_before r w"] running by auto
  obtain c w2 where 2: "interval_wait trigger setting r w1 = (Inr c :: 'e + _, w2)" "assembly_status w2"
    using interval_wait_answer [OF u, of trigger setting w1] 1(2) by auto
  note [simp] = bindM_def otherM_def is_running_def readM_def returnM_def
  show ?case
  proof (cases "b \<or> st_max_wait_secs trigger \<le> rn_elapsed r \<or> c")
    case True
    then show ?thesis using u running 1 2 by (auto simp: undisturbed_def)
  next
    case False
    then have "\<exists>r\<in>set rs. st_max_wait_secs trigger \<le> rn_elapsed r" using Cons.prems(3) by simp
    then obtain reason w' where "await_trigger our_address trigger setting rs w2 = (Inr (Some reason) :: 'e + _, w')"
        "reason \<in> {MempoolFull, MaxWait, IntervalFull}" "assembly_status w'"
      using Cons.IH [OF 2(2)] Cons.prems(2) by auto
    then show ?thesis using False u running 1 2 by (auto simp: undisturbed_def)
  qed
qed simp

text \<open>The longest waiting time is not looked at while the chain does not answer: as long as the query for the current
  proposer fails, the loop goes on.\<close>

theorem trigger_waits_for_chain:
  assumes "\<forall>r\<in>set rs. rn_proposer r = Inl ()"
  shows "await_trigger our_address trigger setting rs w = (Inr None, fold rn_before rs w)"
  using assms by (induction rs arbitrary: w) (simp_all add: bindM_def otherM_def returnM_def)

section \<open>Witnesses\<close>

definition trigger_ex :: SmartTrigger where
  "trigger_ex = \<lparr>st_max_wait_secs = 120, st_target_block_fill_ratio = 1 / 4\<rparr>"

definition idle_ex :: "unit trigger_state" where
  "idle_ex = \<lparr>faults = [], client_transactions = [], deposits = replicate 253 deposit_default, proposed_blocks = [], commitment_tree = commitments_ex,
     historic_root_tree = roots_ex, nullifier_tree = nullifier_tree proposer_ex, next_number = 0, sync_status = new_sync_status Synchronized,
     subscriptions = [], assembly_status = True\<rparr>"

definition quiet_ex :: "nat \<Rightarrow> unit trigger_state trigger_round" where
  "quiet_ex n = \<lparr>rn_elapsed = n, rn_proposer = Inr 9, rn_before = id, rn_during = id, rn_tick = False\<rparr>"

theorem full_mempool_triggers_witness: "break_pause 64 idle_ex = (Inr True, idle_ex)"
proof -
  have "faults idle_ex = []" "block_size_or_default 64 \<le> mempool_units idle_ex"
    by (simp_all add: idle_ex_def mempool_units_def block_size_or_default_def get_block_size_def)
  then show ?thesis using full_mempool_triggers [of idle_ex 64] by blast
qed

theorem trigger_fires_witness:
  "\<exists>reason w'. await_trigger 9 trigger_ex 64 [quiet_ex 0, quiet_ex 60, quiet_ex 120] idle_ex = (Inr (Some reason), w')"
proof -
  have "assembly_status idle_ex" "\<forall>r\<in>set [quiet_ex 0, quiet_ex 60, quiet_ex 120]. undisturbed 9 r"
    "\<exists>r\<in>set [quiet_ex 0, quiet_ex 60, quiet_ex 120]. st_max_wait_secs trigger_ex \<le> rn_elapsed r"
    by (simp_all add: idle_ex_def quiet_ex_def trigger_ex_def undisturbed_def)
  then show ?thesis using trigger_fires by blast
qed

theorem trigger_waits_for_chain_witness:
  "await_trigger 9 trigger_ex 64 [(quiet_ex 120)\<lparr>rn_proposer := Inl ()\<rparr>] idle_ex = (Inr None, idle_ex)"
  using trigger_waits_for_chain [of "[(quiet_ex 120)\<lparr>rn_proposer := Inl ()\<rparr>]"] by (simp add: quiet_ex_def)

end
