(* ===== verification/Block_Assembly.thy ===== *)
theory Block_Assembly
  imports Block_Trigger "HOL-Library.Sublist"
begin

text \<open>
  The assembly of blocks: the conversions of \<open>nightfall_proposer/src/driven/block_assembler.rs\<close> between a block of the
  proposer and one of the contract, \<open>propose_block\<close> of \<open>driven/nightfall_contract.rs\<close>, and the two loops of
  \<open>drivers/blockchain/block_assembly.rs\<close>: one assembles blocks and queues them, the other proposes the queued blocks
  when a rotation of the proposers is final. What the chain answers is an argument.
\<close>

section \<open>Conversions of blocks\<close>

definition contract_transaction :: "OnChainTransaction \<Rightarrow> ContractTransaction option" where
  "contract_transaction otx =
     (case (uint256_from_fr (oct_fee otx), those (map uint256_from_fr (oct_commitments otx)),
            those (map uint256_from_fr (oct_nullifiers otx)), secrets_to_u256 (oct_public_data otx)) of
        (Some f, Some cs, Some ns, Some p) \<Rightarrow>
          Some \<lparr>ctx_fee = f, ctx_commitments = cs, ctx_nullifiers = ns, ctx_public_data = p\<rparr>
      | _ \<Rightarrow> None)"

definition contract_block :: "ProposerBlock \<Rightarrow> Block option" where
  "contract_block blk =
     (case (uint256_from_fr (pb_commitments_root_root blk), uint256_from_fr (pb_commitments_root blk),
            uint256_from_fr (pb_nullifiers_root blk), those (map contract_transaction (pb_transactions blk))) of
        (Some rr, Some cr, Some nr, Some txs) \<Rightarrow>
          Some \<lparr>blk_commitments_root = cr, blk_nullifier_root = nr, blk_commitments_root_root = rr, blk_transactions = txs,
            blk_rollup_proof = pb_rollup_proof blk\<rparr>
      | _ \<Rightarrow> None)"

text \<open>Back: an overflow of a root is an error, one inside a transaction a panic.\<close>

definition proposer_block_from :: "Block \<Rightarrow> conversion_error failure + ProposerBlock" where
  "proposer_block_from nblk =
     bindS (map_sum Fails id (frbn_try_from_u256 (blk_commitments_root nblk))) (\<lambda>cr.
     bindS (map_sum Fails id (frbn_try_from_u256 (blk_nullifier_root nblk))) (\<lambda>nr.
     bindS (map_sum Fails id (frbn_try_from_u256 (blk_commitments_root_root nblk))) (\<lambda>rr.
     bindS (okS Panics (those (map on_chain_transaction_from (blk_transactions nblk)))) (\<lambda>txs.
     Inr \<lparr>pb_commitments_root = cr, pb_nullifiers_root = nr, pb_commitments_root_root = rr, pb_transactions = txs,
       pb_rollup_proof = blk_rollup_proof nblk\<rparr>))))"

text \<open>The contract takes the block or not.\<close>

definition propose_block :: "(Block \<Rightarrow> bool) \<Rightarrow> ProposerBlock \<Rightarrow> unit failure + unit" where
  "propose_block send block =
     bindS (okS Panics (contract_block block)) (\<lambda>blk. if send blk then Inr () else Inl (Fails ()))"

lemma those_map_total: "(\<And>x. x \<in> set xs \<Longrightarrow> f x = Some (g x)) \<Longrightarrow> those (map f xs) = Some (map g xs)"
  by (induction xs) simp_all

text \<open>The public data of an on-chain transaction: five elements, the last of them a bit.\<close>

definition secrets_ok :: "OnChainTransaction \<Rightarrow> bool" where
  "secrets_ok t \<longleftrightarrow> length (cipher_text (oct_public_data t)) = 5 \<and> fr_val (cipher_text (oct_public_data t) ! 4) \<le> 1"

lemma expect_frbn_of_fr: "expect_frbn (of_nat (fr_val x)) = Some x"
  by (simp add: expect_frbn_def frbn_try_from_eq unat_of_fr)

lemma contract_transaction_ok:
  assumes "secrets_ok t"
  shows "\<exists>c. contract_transaction t = Some c \<and> on_chain_transaction_from c = Some t \<and> length (ctx_public_data c) = 4 \<and>
    ctx_fee c = of_nat (fr_val (oct_fee t)) \<and> ctx_commitments c = map (\<lambda>x. of_nat (fr_val x)) (oct_commitments t) \<and>
    ctx_nullifiers c = map (\<lambda>x. of_nat (fr_val x)) (oct_nullifiers t)"
proof -
  obtain us where us: "secrets_to_u256 (oct_public_data t) = Some us" "length us = 4" "secrets_from_u256 us = Some (oct_public_data t)"
    using secrets_roundtrip [of "oct_public_data t"] assms by (auto simp: secrets_ok_def)
  have inv: "those (map expect_frbn (map (\<lambda>x. of_nat (fr_val x)) xs)) = Some xs" for xs
    using those_map_total [of xs "\<lambda>x. expect_frbn (of_nat (fr_val x))" id] by (simp add: expect_frbn_of_fr comp_def)
  show ?thesis
    by (simp add: contract_transaction_def us those_map_total [where g = "\<lambda>x. of_nat (fr_val x)"] uint256_from_fr_eq
        on_chain_transaction_from_def expect_frbn_of_fr inv del: map_map)
qed

lemma block_converts:
  assumes "\<forall>t\<in>set (pb_transactions blk). secrets_ok t"
  shows "\<exists>c. contract_block blk = Some c \<and> proposer_block_from c = Inr blk \<and>
    unat (blk_commitments_root c) = fr_val (pb_commitments_root blk) \<and> unat (blk_nullifier_root c) = fr_val (pb_nullifiers_root blk) \<and>
    unat (blk_commitments_root_root c) = fr_val (pb_commitments_root_root blk)"
proof -
  obtain g where g: "\<And>t. t \<in> set (pb_transactions blk) \<Longrightarrow> contract_transaction t = Some (g t) \<and> on_chain_transaction_from (g t) = Some t"
    using contract_transaction_ok assms by metis
  then have "those (map contract_transaction (pb_transactions blk)) = Some (map g (pb_transactions blk))"
    "those (map on_chain_transaction_from (map g (pb_transactions blk))) = Some (pb_transactions blk)"
    using those_map_total [of "pb_transactions blk" contract_transaction g]
      those_map_total [of "pb_transactions blk" "on_chain_transaction_from \<circ> g" id] by (simp_all add: comp_def)
  moreover have "frbn_try_from_u256 (of_nat (fr_val x)) = Inr x" for x by (simp add: frbn_try_from_eq unat_of_fr)
  ultimately show ?thesis
    by (cases blk) (simp add: contract_block_def proposer_block_from_def uint256_from_fr_eq unat_of_fr bindS_def okS_def)
qed

text \<open>A block survives the way to the contract and back: when the public data of its transactions end with a bit, the
  block converts to the block of the contract (with the same roots as integers below the modulus), and that converts
  back to the same block.\<close>

theorem block_roundtrip:
  assumes "\<forall>t\<in>set (pb_transactions blk). secrets_ok t"
  shows "\<exists>c. contract_block blk = Some c \<and> proposer_block_from c = Inr blk \<and>
    unat (blk_commitments_root c) = fr_val (pb_commitments_root blk) \<and> unat (blk_nullifier_root c) = fr_val (pb_nullifiers_root blk) \<and>
    unat (blk_commitments_root_root c) = fr_val (pb_commitments_root_root blk)"
  by (rule block_converts [OF assms])

section \<open>Finality\<close>

text \<open>One poll of \<open>check_l1_finality\<close>: the answers for the finalised block (an error, none, or its number), for the number
  of the current block and for that block, the receipt of the transaction (an error, none, or one with the number of its block, if it
  has one), and whether the waiting time is over. The sum of two \<open>U64\<close> wraps.\<close>

record finality_poll =
  fp_finalized :: "string + 64 word option"
  fp_current_number :: "string + 64 word"
  fp_current_block :: "string + 64 word option"
  fp_receipt :: "string + 64 word option option"
  fp_timed_out :: bool

definition finalized_number :: "finality_poll \<Rightarrow> assembly_error + 64 word" where
  "finalized_number p =
     (case fp_finalized p of
        Inl e \<Rightarrow> Inl (ProviderError e)
      | Inr (Some n) \<Rightarrow> Inr n
      | Inr None \<Rightarrow>
          bindS (map_sum ProviderError id (fp_current_number p)) (\<lambda>_.
          bindS (map_sum ProviderError id (fp_current_block p)) (\<lambda>block.
          okS (OtherAssemblyError ''Current block not found'') block)))"

text \<open>The answer of a poll, if it ends the loop.\<close>

definition finality_answer :: "64 word \<Rightarrow> bool \<Rightarrow> finality_poll \<Rightarrow> (assembly_error + bool) option" where
  "finality_answer confirmations_required waits p =
     (case finalized_number p of
        Inl e \<Rightarrow> Some (Inl e)
      | Inr finalized_block_number \<Rightarrow>
          (case fp_receipt p of
             Inl e \<Rightarrow> Some (Inl (ProviderError e))
           | Inr None \<Rightarrow>
               if waits then (if fp_timed_out p then Some (Inl FinalityTimeout) else None) else Some (Inr False)
           | Inr (Some None) \<Rightarrow> if waits then None else Some (Inr False)
           | Inr (Some (Some receipt_block_number)) \<Rightarrow>
               if receipt_block_number \<le> finalized_block_number \<and>
                  confirmations_required \<le> finalized_block_number - receipt_block_number then Some (Inr True)
               else if receipt_block_number + confirmations_required > finalized_block_number \<and> \<not> waits then Some (Inr False)
               else if \<not> waits then Some (Inr False) else None))"

fun check_l1_finality :: "64 word \<Rightarrow> bool \<Rightarrow> finality_poll list \<Rightarrow> (assembly_error + bool) option" where
  "check_l1_finality confirmations_required waits [] = None"
| "check_l1_finality confirmations_required waits (p # ps) =
     (case finality_answer confirmations_required waits p of
        Some answer \<Rightarrow> Some answer
      | None \<Rightarrow> check_l1_finality confirmations_required waits ps)"

text \<open>The block of the receipt is so far below the finalised block, as numbers.\<close>

definition is_final :: "64 word \<Rightarrow> finality_poll \<Rightarrow> bool" where
  "is_final confirmations_required p \<longleftrightarrow>
     (\<exists>f r. finalized_number p = Inr f \<and> fp_receipt p = Inr (Some (Some r)) \<and> unat r + unat confirmations_required \<le> unat f)"

lemma enough_confirmations: "r \<le> f \<and> c \<le> f - r \<longleftrightarrow> unat r + unat c \<le> unat (f :: 64 word)"
proof (cases "r \<le> f")
  case True
  then have "unat (f - r) = unat f - unat r" by (rule unat_sub)
  then show ?thesis using True by (simp add: word_le_nat_alt) linarith
next
  case False
  then show ?thesis by (simp add: word_le_nat_alt)
qed

lemma finality_answer_True: "finality_answer c waits p = Some (Inr True) \<longleftrightarrow> is_final c p"
  by (auto simp: finality_answer_def is_final_def enough_confirmations split: sum.splits option.splits)

text \<open>The check for finality says yes exactly when a poll sees the receipt of the transaction at least the required number of
  confirmations below the finalised block (no sum wraps), and every poll before it left the question open; a check without
  waiting time answers with its first poll.\<close>

theorem finality_correct:
  "(check_l1_finality c waits ps = Some (Inr True) \<longleftrightarrow>
      (\<exists>i<length ps. is_final c (ps ! i) \<and> list_all (\<lambda>p. finality_answer c waits p = None) (take i ps))) \<and>
   (ps = [] \<or> check_l1_finality c False ps = finality_answer c False (hd ps) \<and> finality_answer c False (hd ps) \<noteq> None)"
proof (intro conjI)
  show "check_l1_finality c waits ps = Some (Inr True) \<longleftrightarrow>
      (\<exists>i<length ps. is_final c (ps ! i) \<and> list_all (\<lambda>p. finality_answer c waits p = None) (take i ps))"
  proof (induction ps)
    case (Cons p ps)
    show ?case
    proof (cases "finality_answer c waits p")
      case None
      then have "\<not> is_final c p" using finality_answer_True [of c waits p] by simp
      then show ?thesis using None Cons.IH by (simp add: Ex_less_Suc2)
    next
      case (Some a)
      then show ?thesis using finality_answer_True [of c waits p] by (simp add: Ex_less_Suc2)
    qed
  qed simp
  have answers: "finality_answer c False p \<noteq> None" for p
    by (simp add: finality_answer_def split: sum.splits option.splits)
  show "ps = [] \<or> check_l1_finality c False ps = finality_answer c False (hd ps) \<and> finality_answer c False (hd ps) \<noteq> None"
    using answers [of "hd ps"] by (cases ps) auto
qed

text \<open>With a waiting time, the time is looked at only while there is no receipt: a transaction that is in a block, however far
  from final, keeps the check in its loop for as long as it takes.\<close>

theorem finality_ignores_timeout:
  assumes "\<forall>p\<in>set ps. \<exists>f r. finalized_number p = Inr f \<and> fp_receipt p = Inr (Some (Some r)) \<and> unat f < unat r + unat c"
  shows "check_l1_finality c True ps = None"
  using assms
proof (induction ps)
  case (Cons p ps)
  then obtain f r where p: "finalized_number p = Inr f" "fp_receipt p = Inr (Some (Some r))" "unat f < unat r + unat c" by auto
  then have "\<not> (r \<le> f \<and> c \<le> f - r)" unfolding enough_confirmations by simp
  then show ?case using Cons p by (simp add: finality_answer_def)
qed simp

section \<open>The loop that proposes\<close>

text \<open>The queue of the blocks that wait for finality, the blocks that were handed to the contract (and whether it took them),
  and whether the task of this loop still runs.\<close>

record 'p assembly_state = "'p trigger_state" +
  pending_blocks :: "ProposerBlock list"
  proposals :: "(ProposerBlock \<times> bool) list"
  checker_running :: bool

type_synonym ('p, 'z, 'a) loopM = "(('p, 'z) assembly_state_scheme, assembly_error failure, 'a) dbm"

text \<open>\<open>blocks.drain(..)\<close>: a block that is not taken is only logged, and a panic drops the rest of the queue.\<close>

fun propose_all :: "(Block \<Rightarrow> bool) \<Rightarrow> ProposerBlock list \<Rightarrow> ('p, 'z, unit) loopM" where
  "propose_all send [] = returnM ()"
| "propose_all send (block # rest) =
     (case propose_block send block of
        Inl Panics \<Rightarrow> throwM Panics
      | result \<Rightarrow> (\<lambda>w. propose_all send rest (w\<lparr>proposals := proposals w @ [(block, result = Inr ())]\<rparr>)))"

definition propose_pending :: "(Block \<Rightarrow> bool) \<Rightarrow> ('p, 'z, unit) loopM" where
  "propose_pending send w = propose_all send (pending_blocks w) (w\<lparr>pending_blocks := []\<rparr>)"

text \<open>The rotations of the proposers since the first block, each with the hash of its transaction, if it has one, and the polls for its
  finality. The answer is whether all checks have ended.\<close>

fun check_rotations :: "(Block \<Rightarrow> bool) \<Rightarrow> (string option \<times> finality_poll list) list \<Rightarrow> ('p, 'z, bool) loopM" where
  "check_rotations send [] = returnM True"
| "check_rotations send ((tx_hash, polls) # logs) =
     (case tx_hash of
        None \<Rightarrow> throwM (Fails (OtherAssemblyError ''Transaction hash is None''))
      | Some _ \<Rightarrow>
          (case check_l1_finality 12 True polls of
             None \<Rightarrow> returnM False
           | Some (Inr True) \<Rightarrow> bindM (propose_pending send) (\<lambda>_. check_rotations send logs)
           | Some _ \<Rightarrow> check_rotations send logs))"

text \<open>One round of the loop; the queue is locked throughout.\<close>

record checker_round =
  ck_start_l1_block :: "unit + 256 word"
  ck_send :: "Block \<Rightarrow> bool"
  ck_rotations :: "unit + (string option \<times> finality_poll list) list"

definition finality_round :: "checker_round \<Rightarrow> ('p, 'z, bool) loopM" where
  "finality_round r =
     bindM (liftM (map_sum (\<lambda>_. Fails (FailedToAssembleBlock ''Failed to get start block for round robin'')) id (ck_start_l1_block r)))
       (\<lambda>start_block.
     bindM (readM pending_blocks) (\<lambda>queued.
     bindM (if start_block = 0 \<and> queued \<noteq> [] then propose_pending (ck_send r) else returnM ()) (\<lambda>_.
     bindM (liftM (map_sum (\<lambda>_. Fails (FailedToAssembleBlock ''Failed to query round robin rotate proposer events'')) id (ck_rotations r)))
       (\<lambda>rotate_proposer_log. check_rotations (ck_send r) rotate_proposer_log))))"

section \<open>The loop that assembles\<close>

text \<open>What follows the trigger: the answers of the chain for the current proposer and for the number of blocks. The block, if
  one was made; an error of the assembly only ends the round.\<close>

type_synonym 'z assembly_part = "'z assembly_state_ext trigger_state_ext proposer_state_ext"

definition after_trigger ::
    "('p, 'e, 'y) proposer_env_scheme \<Rightarrow> ('p, 'z assembly_part, 'i) proving_engine \<Rightarrow> nat \<Rightarrow> unit + 160 word \<Rightarrow> unit + int \<Rightarrow>
     ('p, 'z, ProposerBlock option) loopM" where
  "after_trigger env engine setting current_proposer current_block_number =
     (if current_proposer \<noteq> Inr (pe_address env) then returnM None
      else
        bindM (liftM (map_sum (\<lambda>_. Fails (FailedToAssembleBlock ''Failed to get current block number'')) id current_block_number)) (\<lambda>n.
        bindM (readM sync_status) (\<lambda>status.
        bindM (\<lambda>w. (Inr (), if n = 0 then w\<lparr>sync_status := set_synchronised status\<rparr> else w)) (\<lambda>_.
        bindM (readM sync_status) (\<lambda>status.
        if \<not> is_synchronised status then returnM None
        else (\<lambda>w. case assemble_block env engine setting w of
                    (Inl Panics, w') \<Rightarrow> (Inl Panics, w')
                  | (Inl (Fails _), w') \<Rightarrow> (Inr None, w')
                  | (Inr block, w') \<Rightarrow> (Inr (Some block), w'\<lparr>pending_blocks := pending_blocks w' @ [block]\<rparr>)))))))"

text \<open>A round of the main loop, with the wait for the trigger. When the chain does not answer, or another proposer is the current one,
  the loop sleeps or not and begins again.\<close>

record 's assembly_round =
  ar_proposer :: "unit + 160 word"
  ar_trigger :: "'s trigger_round list"
  ar_proposer_after :: "unit + 160 word"
  ar_block_number :: "unit + int"

definition assembly_round ::
    "('p, 'e, 'y) proposer_env_scheme \<Rightarrow> ('p, 'z assembly_part, 'i) proving_engine \<Rightarrow> SmartTrigger \<Rightarrow> nat \<Rightarrow>
     ('p, 'z) assembly_state_scheme assembly_round \<Rightarrow> ('p, 'z, ProposerBlock option) loopM" where
  "assembly_round env engine trigger setting r =
     (if ar_proposer r \<noteq> Inr (pe_address env) then returnM None
      else
        bindM (await_trigger (pe_address env) trigger setting (ar_trigger r)) (\<lambda>reason.
        if reason = None then returnM None
        else after_trigger env engine setting (ar_proposer_after r) (ar_block_number r)))"

section \<open>The proposer as a whole\<close>

text \<open>The steps of its tasks: the assembly after a trigger (which may come at any time), a round of the loop that proposes (or its
  end by an error, which nobody looks at), an event of the chain, a transaction of a client and a request to pause or to resume. A step is
  labelled with the block that it assembles.\<close>

inductive proposer_step ::
    "('p, 'e, 'y) proposer_env_scheme \<Rightarrow> ('p, 'z assembly_part, 'i) proving_engine \<Rightarrow> nat \<Rightarrow>
     ('p, 'z) assembly_state_scheme \<Rightarrow> ProposerBlock option \<Rightarrow> ('p, 'z) assembly_state_scheme \<Rightarrow> bool"
  for env engine setting where
  assembles: "after_trigger env engine setting p n w = (Inr b, w') \<Longrightarrow> proposer_step env engine setting w b w'"
| assembly_fails: "after_trigger env engine setting p n w = (Inl e, w') \<Longrightarrow> proposer_step env engine setting w None w'"
| proposes: "checker_running w \<Longrightarrow> finality_round r w = (Inr True, w') \<Longrightarrow> proposer_step env engine setting w None w'"
| checker_ends: "checker_running w \<Longrightarrow> finality_round r w = (Inl e, w') \<Longrightarrow>
    proposer_step env engine setting w None (w'\<lparr>checker_running := False\<rparr>)"
| event: "proposer_process_events env e l w = (x, w') \<Longrightarrow> proposer_step env engine setting w None w'"
| transaction: "process_nightfall_client_transaction env tx w = (y, w') \<Longrightarrow> proposer_step env engine setting w None w'"
| request: "proposer_step env engine setting w None (w\<lparr>assembly_status := b\<rparr>)"

definition label_list :: "'a option \<Rightarrow> 'a list" where
  "label_list b = (case b of None \<Rightarrow> [] | Some x \<Rightarrow> [x])"

inductive proposer_run ::
    "('p, 'e, 'y) proposer_env_scheme \<Rightarrow> ('p, 'z assembly_part, 'i) proving_engine \<Rightarrow> nat \<Rightarrow>
     ('p, 'z) assembly_state_scheme \<Rightarrow> ProposerBlock list \<Rightarrow> ('p, 'z) assembly_state_scheme \<Rightarrow> bool"
  for env engine setting w where
  start: "proposer_run env engine setting w [] w"
| step: "proposer_run env engine setting w bs u \<Longrightarrow> proposer_step env engine setting u b v \<Longrightarrow>
    proposer_run env engine setting w (bs @ label_list b) v"

section \<open>What the other tasks leave alone\<close>

text \<open>A predicate that no update of a collection, of the expected number and of the status changes is kept by the operations on the
  database and by the handlers.\<close>

locale proposer_frame =
  fixes I :: "('p, 'z) proposer_state_scheme \<Rightarrow> bool"
  assumes collections: "I w \<Longrightarrow> I (w\<lparr>faults := fs\<rparr>)" "I w \<Longrightarrow> I (w\<lparr>client_transactions := cs\<rparr>)" "I w \<Longrightarrow> I (w\<lparr>deposits := ds\<rparr>)"
      "I w \<Longrightarrow> I (w\<lparr>proposed_blocks := bs\<rparr>)"
    and trees: "I w \<Longrightarrow> I (w\<lparr>commitment_tree := t\<rparr>)" "I w \<Longrightarrow> I (w\<lparr>historic_root_tree := t\<rparr>)" "I w \<Longrightarrow> I (w\<lparr>nullifier_tree := u\<rparr>)"
    and counters: "I w \<Longrightarrow> I (w\<lparr>next_number := n\<rparr>)" "I w \<Longrightarrow> I (w\<lparr>sync_status := s\<rparr>)"
begin

lemma calls_kept: "(\<And>w. I w \<Longrightarrow> I (snd (f w))) \<Longrightarrow> keeps I (db_call e f)"
  by (rule keeps_db_call [where I = I]) (auto intro: collections)

lemma reads_kept [keeps_intros]: "keeps I (db_read e f)"
  unfolding db_read_def by (rule calls_kept) simp

lemma writes_kept: "(\<And>w. I w \<Longrightarrow> I (f w)) \<Longrightarrow> keeps I (db_write e f)"
  unfolding db_write_def by (rule calls_kept) simp

lemma trees_kept [keeps_intros]:
  "keeps I (in_commitments m)" "keeps I (in_historic_roots m)" "keeps I (in_nullifiers n)"
  by (auto simp: keeps_def in_commitments_def in_historic_roots_def in_nullifiers_def zoomM_def intro: collections trees split: prod.split)

lemma transactions_kept [keeps_intros]:
  "keeps I (store_transaction t)" "keeps I (read_transactions f)" "keeps I (set_in_mempool txs b)" "keeps I (find_transaction h v)"
  "keeps I (find_deposit g d)" "keeps I (set_mempool_deposits ds)" "keeps I get_mempool_deposits" "keeps I (remove_mempool_deposits us)"
  "keeps I (proposer_store_block b')" "keeps I proposer_get_all_blocks" "keeps I (proposer_get_block n')" "keeps I (proposer_delete_block n')"
  unfolding store_transaction_def read_transactions_def set_in_mempool_def find_transaction_def find_deposit_def set_mempool_deposits_def
    get_mempool_deposits_def remove_mempool_deposits_def proposer_store_block_def proposer_get_all_blocks_def proposer_get_block_def
    proposer_delete_block_def Let_def
  by (intro keeps_intros writes_kept calls_kept; simp add: collections)+

lemma handlers_kept [keeps_intros]:
  "keeps I (process_nightfall_client_transaction env tx)" "keeps I (process_deposit_transaction env d)"
  unfolding process_nightfall_client_transaction_def check_root_def check_nullifier_def is_historic_root_def nullifier_non_membership_def
    process_deposit_transaction_def
  by (intro keeps_intros)+

lemma selection_kept [keeps_intros]: "keeps I (prepare_block_data env setting)"
  unfolding prepare_block_data_def get_all_mempool_client_transactions_def Let_def by (intro keeps_intros)

lemma state_kept [keeps_intros]: "keeps I (set_sync f)" "keeps I advance" "keeps I (readM g)" "keeps I (fr_ofM v)"
  by (auto simp: keeps_def set_sync_def advance_def readM_def fr_ofM_def liftM_def intro: counters)

lemma events_kept [keeps_intros]: "keeps I (proposer_process_events env e l)"
  unfolding proposer_process_events_def proposer_handle_event_def proposer_calldata_def proposer_block_event_def compare_with_stored_def
    apply_proposed_block_def update_trees_def commitments_append_def commitments_get_root_def append_historic_commitment_root_def
    insert_nullifiers_def process_deposit_escrowed_def Let_def
  by (cases e; simp only: proposer_event.case)
    ((intro keeps_intros | simp only: split: proposer_call.split prod.split | rule conjI allI impI)+)

end

text \<open>The part of the state beyond the database, the expected number and the status: the queue, the proposals, the loop that proposes and
  the pause.\<close>

interpretation rest_of: proposer_frame "\<lambda>w. proposer_state.more w = x" for x
  by unfold_locales simp_all

lemma more_determines:
  "proposer_state.more w = proposer_state.more w' \<Longrightarrow> pending_blocks w = pending_blocks w' \<and> proposals w = proposals w' \<and>
     checker_running w = checker_running w' \<and> assembly_status w = assembly_status w'"
  by (cases w; cases w') simp

section \<open>The order of the blocks\<close>

text \<open>The blocks that were handed to the contract, and after them those that wait.\<close>

definition handed :: "('p, 'z) assembly_state_scheme \<Rightarrow> ProposerBlock list" where
  "handed w = map fst (proposals w) @ pending_blocks w"

lemma propose_all_run:
  "propose_all send bs w = (r, w') \<Longrightarrow> (\<exists>ps. proposals w' = proposals w @ ps \<and> prefix (map fst ps) bs \<and> (\<forall>u. r = Inr u \<longrightarrow> map fst ps = bs)) \<and>
     pending_blocks w' = pending_blocks w \<and> checker_running w' = checker_running w"
proof (induction bs arbitrary: w)
  case (Cons block rest)
  show ?case
  proof (cases "propose_block send block = Inl Panics")
    case True
    then show ?thesis using Cons.prems by (auto simp: throwM_def)
  next
    case False
    let ?b = "propose_block send block = Inr ()" and ?w = "w\<lparr>proposals := proposals w @ [(block, propose_block send block = Inr ())]\<rparr>"
    have "propose_all send rest ?w = (r, w')"
      using Cons.prems False by (cases "propose_block send block") (auto split: failure.splits)
    then obtain ps where "proposals w' = proposals ?w @ ps" "prefix (map fst ps) rest" "\<forall>u. r = Inr u \<longrightarrow> map fst ps = rest"
        "pending_blocks w' = pending_blocks w" "checker_running w' = checker_running w"
      using Cons.IH False by (cases "propose_block send block") (fastforce split: failure.splits)+
    then show ?thesis by (intro conjI exI [of _ "(block, ?b) # ps"]) simp_all
  qed
qed (auto simp: returnM_def)

text \<open>Blocks only move from the queue to the proposals, in order; only a panic loses some.\<close>

definition queue_moved :: "('p, 'z) assembly_state_scheme \<Rightarrow> bool \<Rightarrow> ('p, 'z) assembly_state_scheme \<Rightarrow> bool" where
  "queue_moved w ok w' \<longleftrightarrow> subseq (handed w') (handed w) \<and> (ok \<longrightarrow> handed w' = handed w) \<and> prefix (proposals w) (proposals w') \<and>
     checker_running w' = checker_running w"

lemma queue_moved_refl [simp]: "queue_moved w ok w"
  by (simp add: queue_moved_def)

lemma queue_moved_trans: "queue_moved u True v \<Longrightarrow> queue_moved v ok w \<Longrightarrow> queue_moved u ok w"
  by (auto simp: queue_moved_def)

lemma propose_pending_moves:
  assumes "propose_pending send w = (r, w')"
  shows "queue_moved w (\<exists>u. r = Inr u) w'"
proof -
  obtain ps where "proposals w' = proposals w @ ps" "prefix (map fst ps) (pending_blocks w)" "\<forall>u. r = Inr u \<longrightarrow> map fst ps = pending_blocks w"
      "pending_blocks w' = []" "checker_running w' = checker_running w"
    using propose_all_run [OF assms [unfolded propose_pending_def]] by auto
  then show ?thesis by (auto simp: queue_moved_def handed_def prefix_imp_subseq)
qed

lemma check_rotations_moves: "check_rotations send logs w = (r, w') \<Longrightarrow> queue_moved w (\<exists>b. r = Inr b) w'"
proof (induction logs arbitrary: w)
  case (Cons l logs)
  obtain tx_hash polls where l: "l = (tx_hash, polls)" by force
  show ?case
  proof (cases "tx_hash = None \<or> check_l1_finality 12 True polls \<noteq> Some (Inr True)")
    case True
    then show ?thesis using Cons.prems Cons.IH l
      by (auto simp: throwM_def returnM_def split: option.splits sum.splits bool.splits)
  next
    case False
    then obtain h where h: "tx_hash = Some h" "check_l1_finality 12 True polls = Some (Inr True)" by auto
    obtain r1 w1 where 1: "propose_pending send w = (r1, w1)" by force
    note m = propose_pending_moves [OF 1]
    show ?thesis
    proof (cases r1)
      case (Inl e)
      then show ?thesis using Cons.prems l m h 1 by (auto simp: bindM_def)
    next
      case (Inr u)
      then have "check_rotations send logs w1 = (r, w')" using Cons.prems l h 1 by (simp add: bindM_def)
      then have "queue_moved w1 (\<exists>b. r = Inr b) w'" using Cons.IH h by simp
      then show ?thesis using queue_moved_trans m Inr by auto
    qed
  qed
qed (auto simp: returnM_def)

lemma finality_round_moves: assumes "finality_round c w = (r, w')" shows "queue_moved w (\<exists>b. r = Inr b) w'"
proof (cases "ck_start_l1_block c")
  case (Inl e)
  then show ?thesis using assms by (auto simp: finality_round_def bindM_def liftM_def throwM_def)
next
  case (Inr start_block)
  define m :: "('a, 'b, unit) loopM" where "m = (if start_block = 0 \<and> pending_blocks w \<noteq> [] then propose_pending (ck_send c) else returnM ())"
  obtain r1 w1 where 1: "m w = (r1, w1)" by force
  have mv: "queue_moved w (\<exists>u. r1 = Inr u) w1"
    using 1 propose_pending_moves by (auto simp: m_def returnM_def split: if_splits)
  show ?thesis
  proof (cases r1)
    case (Inl e)
    then show ?thesis using assms Inr mv 1 by (auto simp: finality_round_def bindM_def liftM_def readM_def m_def [symmetric])
  next
    case (Inr u)
    note run = assms [unfolded finality_round_def bindM_def liftM_def readM_def, simplified \<open>ck_start_l1_block c = _\<close>]
    show ?thesis
    proof (cases "ck_rotations c")
      case (Inl e)
      then show ?thesis using run mv 1 \<open>r1 = _\<close> by (auto simp: m_def [symmetric] queue_moved_def)
    next
      case (Inr logs)
      then have "check_rotations (ck_send c) logs w1 = (r, w')" using run 1 \<open>r1 = _\<close> by (auto simp: m_def [symmetric])
      then show ?thesis using check_rotations_moves queue_moved_trans mv \<open>r1 = _\<close> by fastforce
    qed
  qed
qed

text \<open>The preparation of the proof works on the database only.\<close>

definition engine_local :: "('p, 'z assembly_part, 'i) proving_engine \<Rightarrow> bool" where
  "engine_local engine \<longleftrightarrow> (\<forall>x ds ts. keeps (\<lambda>w :: ('p, 'z) assembly_state_scheme. proposer_state.more w = x) (pv_prepare engine ds ts))"

lemma assemble_keeps_rest:
  fixes engine :: "('p, 'z assembly_part, 'i) proving_engine"
  assumes "engine_local engine"
  shows "keeps (\<lambda>w :: ('p, 'z) assembly_state_scheme. proposer_state.more w = x) (assemble_block env engine setting)"
proof -
  have p: "keeps (\<lambda>w :: ('p, 'z) assembly_state_scheme. proposer_state.more w = x) (pv_prepare engine ds ts)" for ds ts
    using assms by (simp add: engine_local_def)
  have w: "keeps (\<lambda>w :: ('p, 'z) assembly_state_scheme. proposer_state.more w = x) (db_write () (\<lambda>w. w\<lparr>proposed_blocks := f w\<rparr>))" for f
    by (rule rest_of.writes_kept) simp
  show ?thesis unfolding assemble_block_def make_block_def prove_block_def Let_def
    by (intro keeps_intros p w)
qed

lemma after_trigger_queues:
  assumes "engine_local engine" "after_trigger env engine setting p n w = (r, w')"
  shows "proposals w' = proposals w \<and> checker_running w' = checker_running w \<and>
    pending_blocks w' = pending_blocks w @ (case r of Inr b \<Rightarrow> label_list b | Inl _ \<Rightarrow> [])"
proof (cases "p = Inr (pe_address env)")
  case True
  show ?thesis
  proof (cases n)
    case (Inl e)
    then show ?thesis using assms(2) True by (auto simp: after_trigger_def bindM_def liftM_def throwM_def)
  next
    case (Inr k)
    define w1 where "w1 = (if k = 0 then w\<lparr>sync_status := set_synchronised (sync_status w)\<rparr> else w)"
    have same: "pending_blocks w1 = pending_blocks w" "proposals w1 = proposals w" "checker_running w1 = checker_running w"
      by (simp_all add: w1_def)
    show ?thesis
    proof (cases "is_synchronised (sync_status w1)")
      case False
      then show ?thesis using assms(2) True Inr same
        by (auto simp: after_trigger_def bindM_def liftM_def readM_def returnM_def w1_def [symmetric] label_list_def)
    next
      case s: True
      obtain r2 w2 where 2: "assemble_block env engine setting w1 = (r2, w2)" by force
      have "proposer_state.more w2 = proposer_state.more w1"
        using keepsD [OF assemble_keeps_rest [OF assms(1)] refl 2] .
      then show ?thesis using assms(2) True Inr same s 2 more_determines [of w2 w1]
        by (auto simp: after_trigger_def bindM_def liftM_def readM_def returnM_def w1_def [symmetric] label_list_def split: sum.splits failure.splits)
    qed
  qed
next
  case False
  then show ?thesis using assms(2) by (auto simp: after_trigger_def returnM_def label_list_def)
qed

lemma proposer_step_moves:
  assumes "proposer_step env engine setting w b w'" "engine_local engine"
  shows "subseq (handed w') (handed w @ label_list b) \<and> (checker_running w' \<longrightarrow> handed w' = handed w @ label_list b) \<and>
    (checker_running w' \<longrightarrow> checker_running w) \<and> prefix (proposals w) (proposals w') \<and>
    (\<not> checker_running w \<longrightarrow> proposals w' = proposals w \<and> pending_blocks w' = pending_blocks w @ label_list b)"
  using assms(1)
proof cases
  case (assembles p n)
  then show ?thesis using after_trigger_queues [OF assms(2) assembles] by (simp add: handed_def)
next
  case (assembly_fails p n e)
  then show ?thesis using after_trigger_queues [OF assms(2) assembly_fails(2)] by (simp add: handed_def label_list_def)
next
  case (proposes r)
  then show ?thesis using finality_round_moves [OF proposes(3)] by (auto simp: queue_moved_def label_list_def)
next
  case (checker_ends r e v)
  then show ?thesis using finality_round_moves [OF checker_ends(4)] by (auto simp: queue_moved_def label_list_def handed_def)
next
  case (event e l x)
  have "proposer_state.more w' = proposer_state.more w" using keepsD [OF rest_of.events_kept refl event(2)] .
  then show ?thesis using event(1) more_determines [of w' w] by (simp add: handed_def label_list_def)
next
  case (transaction tx y)
  have "proposer_state.more w' = proposer_state.more w" using keepsD [OF rest_of.handlers_kept(1) refl transaction(2)] .
  then show ?thesis using transaction(1) more_determines [of w' w] by (simp add: handed_def label_list_def)
next
  case (request b')
  then show ?thesis by (simp add: handed_def label_list_def)
qed

text \<open>C14. The blocks are proposed in the order in which they are assembled, each at most once: in every run of the proposer's tasks that
  begins with an empty queue, the blocks that were handed to the contract, followed by those that still wait, are a subsequence
  of the blocks assembled, and exactly those while the task that proposes has not ended.\<close>

theorem blocks_in_order:
  assumes "proposer_run env engine setting w bs u" "engine_local engine" "pending_blocks w = []" "proposals w = []"
  shows "subseq (map fst (proposals u) @ pending_blocks u) bs \<and>
    (checker_running u \<longrightarrow> map fst (proposals u) @ pending_blocks u = bs)"
proof -
  have "subseq (handed u) bs \<and> (checker_running u \<longrightarrow> handed u = bs)"
    using assms(1)
  proof induction
    case start
    then show ?case using assms(3,4) by (simp add: handed_def)
  next
    case (step bs u b v)
    note m = proposer_step_moves [OF step(2) assms(2)]
    have "subseq (handed u @ label_list b) (bs @ label_list b)" using step.IH by simp
    then show ?case using m step.IH by (auto simp: label_list_def intro: subseq_order.order_trans)
  qed
  then show ?thesis by (simp add: handed_def)
qed

text \<open>C36. When the task that proposes has ended (a single failed query of the chain ends it, and its result is not looked at), the blocks
  assembled afterwards pile up: none of them is ever handed to the contract.\<close>

theorem dead_checker_proposes_nothing:
  assumes "proposer_run env engine setting w bs u" "engine_local engine" "\<not> checker_running w"
  shows "proposals u = proposals w \<and> pending_blocks u = pending_blocks w @ bs"
proof -
  have "proposals u = proposals w \<and> pending_blocks u = pending_blocks w @ bs \<and> \<not> checker_running u"
    using assms(1)
  proof induction
    case (step bs u b v)
    then show ?case using proposer_step_moves [OF step(2) assms(2)] by (auto simp: label_list_def)
  qed (simp add: assms(3))
  then show ?thesis by blast
qed

section \<open>A round of the loop that proposes\<close>

text \<open>The state after the whole queue was handed to the contract.\<close>

definition all_proposed :: "(Block \<Rightarrow> bool) \<Rightarrow> ('p, 'z) assembly_state_scheme \<Rightarrow> ('p, 'z) assembly_state_scheme" where
  "all_proposed send w = w\<lparr>pending_blocks := [], proposals := proposals w @ map (\<lambda>b. (b, send (the (contract_block b)))) (pending_blocks w)\<rparr>"

lemma propose_all_convertible:
  "\<forall>b\<in>set bs. contract_block b \<noteq> None \<Longrightarrow>
   propose_all send bs w = (Inr (), w\<lparr>proposals := proposals w @ map (\<lambda>b. (b, send (the (contract_block b)))) bs\<rparr>)"
proof (induction bs arbitrary: w)
  case (Cons b bs)
  then obtain c where "contract_block b = Some c" by auto
  then show ?case using Cons by (simp add: propose_block_def bindS_def okS_def)
qed (simp add: returnM_def)

lemma propose_pending_all:
  "\<forall>b\<in>set (pending_blocks w). contract_block b \<noteq> None \<Longrightarrow> propose_pending send w = (Inr (), all_proposed send w)"
  by (simp add: propose_pending_def propose_all_convertible all_proposed_def)

lemma all_proposed_twice [simp]: "all_proposed send (all_proposed send w) = all_proposed send w"
  by (simp add: all_proposed_def)

lemma check_rotations_run:
  assumes "\<forall>(h, ps)\<in>set logs. h \<noteq> None \<and> check_l1_finality 12 True ps \<noteq> None" "\<forall>b\<in>set (pending_blocks w). contract_block b \<noteq> None"
  shows "check_rotations send logs w =
    (Inr True, if \<exists>(h, ps)\<in>set logs. check_l1_finality 12 True ps = Some (Inr True) then all_proposed send w else w)"
  using assms
proof (induction logs arbitrary: w)
  case (Cons l logs)
  obtain h ps a where l: "l = (Some h, ps)" "check_l1_finality 12 True ps = Some a" using Cons.prems(1) by (cases l) auto
  show ?case
  proof (cases "a = Inr True")
    case True
    have "check_rotations send logs (all_proposed send w) = (Inr True, all_proposed send w)"
      using Cons.IH [of "all_proposed send w"] Cons.prems(1) by (simp add: all_proposed_def)
    then show ?thesis using True l propose_pending_all [OF Cons.prems(2), of send] by (simp add: bindM_def)
  next
    case False
    then have "check_rotations send (l # logs) w = check_rotations send logs w" using l by (auto split: sum.splits bool.splits)
    then show ?thesis using Cons False l by simp
  qed
qed (simp add: returnM_def)

text \<open>C26. A round of the loop that proposes hands over the whole queue, in order, when the rotation has not begun yet or any rotation since the
  deployment of the contract is final, however old; otherwise it leaves the queue alone. So a block that was queued after an
  old rotation waits for nothing.\<close>

theorem finality_round_correct:
  assumes "ck_start_l1_block c = Inr start_block" "ck_rotations c = Inr logs"
    "\<forall>(h, ps)\<in>set logs. h \<noteq> None \<and> check_l1_finality 12 True ps \<noteq> None" "\<forall>b\<in>set (pending_blocks w). contract_block b \<noteq> None"
  shows "finality_round c w =
    (Inr True, if start_block = 0 \<or> (\<exists>(h, ps)\<in>set logs. check_l1_finality 12 True ps = Some (Inr True))
       then all_proposed (ck_send c) w else w)"
proof -
  have empty: "all_proposed send w = w" if "pending_blocks w = []" for send
    using that by (cases w) (simp add: all_proposed_def)
  have "\<forall>b\<in>set (pending_blocks (all_proposed (ck_send c) w)). contract_block b \<noteq> None" by (simp add: all_proposed_def)
  from check_rotations_run [OF assms(3) this] check_rotations_run [OF assms(3,4)] show ?thesis
    using propose_pending_all [OF assms(4)] empty
    by (auto simp: finality_round_def assms(1,2) bindM_def liftM_def readM_def returnM_def)
qed

section \<open>Witnesses\<close>

definition queued_ex :: ProposerBlock where
  "queued_ex = \<lparr>pb_commitments_root = 1, pb_nullifiers_root = 0, pb_commitments_root_root = 0,
     pb_transactions = [\<lparr>oct_fee = 1, oct_commitments = [1], oct_nullifiers = [0], oct_public_data = \<lparr>cipher_text = [1, 0, 1, 1, 1]\<rparr>\<rparr>], pb_rollup_proof = []\<rparr>"

lemma queued_ok: "\<forall>t\<in>set (pb_transactions queued_ex). secrets_ok t"
  by (simp add: queued_ex_def secrets_ok_def)

theorem block_roundtrip_witness:
  "\<exists>c. contract_block queued_ex = Some c \<and> proposer_block_from c = Inr queued_ex \<and>
     unat (blk_commitments_root c) = fr_val (pb_commitments_root queued_ex)"
  using block_roundtrip [OF queued_ok] by blast

definition poll_ex :: "64 word \<Rightarrow> finality_poll" where
  "poll_ex r = \<lparr>fp_finalized = Inr (Some 20), fp_current_number = Inr 20, fp_current_block = Inr (Some 20), fp_receipt = Inr (Some (Some r)),
     fp_timed_out = True\<rparr>"

theorem finality_correct_witness: "check_l1_finality 12 True [poll_ex 10, poll_ex 8] = Some (Inr True)"
proof -
  have "is_final 12 (poll_ex 8)" "finality_answer 12 True (poll_ex 10) = None"
    by (simp_all add: is_final_def poll_ex_def finality_answer_def finalized_number_def)
  then have "\<exists>i<length [poll_ex 10, poll_ex 8]. is_final 12 ([poll_ex 10, poll_ex 8] ! i) \<and>
      list_all (\<lambda>p. finality_answer 12 True p = None) (take i [poll_ex 10, poll_ex 8])"
    by (intro exI [of _ 1]) simp
  then show ?thesis using finality_correct [of 12 True "[poll_ex 10, poll_ex 8]"] by blast
qed

theorem finality_ignores_timeout_witness: "check_l1_finality 12 True (replicate 100 (poll_ex 10)) = None"
  by (rule finality_ignores_timeout) (simp add: poll_ex_def finalized_number_def)

definition engine_loop :: "(unit, unit assembly_part, unit) proving_engine" where
  "engine_loop = \<lparr>pv_deposit_proof = (\<lambda>_. Inr ((), public_inputs_from_tx (spend_tx_ex 0))),
     pv_prepare = (\<lambda>_ _. returnM ((), 0, 0, 0)), pv_recursive = (\<lambda>_. Inr [])\<rparr>"

definition loop_ex :: "bool \<Rightarrow> unit assembly_state" where
  "loop_ex alive = \<lparr>faults = [], client_transactions = [tx1_ex], deposits = [], proposed_blocks = [], commitment_tree = commitments_ex,
     historic_root_tree = roots_ex, nullifier_tree = nullifier_tree proposer_ex, next_number = 0, sync_status = new_sync_status Synchronized,
     subscriptions = [], assembly_status = True, pending_blocks = [], proposals = [], checker_running = alive\<rparr>"

lemma engine_loop_local: "engine_local engine_loop"
  by (simp add: engine_local_def engine_loop_def keeps_pure)

lemma loop_assembles: "\<exists>block w'. after_trigger proposer_env_ex engine_loop 64 (Inr 9) (Inr 0) (loop_ex alive) = (Inr (Some block), w')"
proof -
  let ?init = "(loop_ex alive)\<lparr>sync_status := set_synchronised (sync_status (loop_ex alive))\<rparr>"
  have s: "faults ?init = []" "deposits ?init = []" "pending_deposits_of proposer_env_ex ?init = []" "stale_deposits_of proposer_env_ex ?init = []"
    "pending_transactions_of proposer_env_ex ?init = [tx1_ex]" "stale_transactions_of proposer_env_ex ?init = []"
    by (simp_all add: loop_ex_def pending_deposits_of_def stale_deposits_of_def pending_transactions_of_def tx1_ex_def
        stale_transactions_of_def mempool_entry_def spend_tx_ex_def tx_pending_def on_chain_commitments_def)
  have prep: "prepare_block_data proposer_env_ex 64 ?init = (Inr ([], [tx1_ex]), without [] [tx1_ex] ?init)"
    by (subst prepare_block_data_run) (simp_all add: s mempool_ex_choice get_block_size_def without_def)
  let ?w = "without [] [tx1_ex] ?init"
  have "\<exists>block. make_block engine_loop 64 [] [tx1_ex] ?w = ((Inr block :: assembly_error failure + _), ?w)"
    by (simp add: make_block_def get_block_size_def deposit_proof_def engine_loop_def prove_block_def) (simp add: returnM_def)
  then obtain block where m: "make_block engine_loop 64 [] [tx1_ex] ?w = ((Inr block :: assembly_error failure + _), ?w)"
    by blast
  have "\<exists>w'. assemble_block proposer_env_ex engine_loop 64 ?init = (Inr block, w')"
    by (simp add: assemble_block_def bindM_def prep m returnM_def expectM_def map_errM_def db_write_def db_read_def
        db_call_ok s Let_def)
  then obtain w' where w': "assemble_block proposer_env_ex engine_loop 64 ?init = (Inr block, w')" by blast
  have a: "pe_address proposer_env_ex = 9" by (simp add: proposer_env_ex_def)
  have y: "is_synchronised (sync_status ?init)" by (simp add: is_synchronised_def set_synchronised_def)
  show ?thesis
    using w' y by (simp add: after_trigger_def a bindM_def liftM_def readM_def)
qed

lemma loop_run: "\<exists>block u. proposer_run proposer_env_ex engine_loop 64 (loop_ex alive) [block] u"
proof -
  obtain block u where "after_trigger proposer_env_ex engine_loop 64 (Inr 9) (Inr 0) (loop_ex alive) = (Inr (Some block), u)"
    using loop_assembles by blast
  from proposer_run.step [OF proposer_run.start proposer_step.assembles [OF this]] show ?thesis
    by (auto simp: label_list_def)
qed

theorem blocks_in_order_witness:
  "\<exists>block u. proposer_run proposer_env_ex engine_loop 64 (loop_ex True) [block] u \<and>
     subseq (map fst (proposals u) @ pending_blocks u) [block]"
proof -
  have "pending_blocks (loop_ex True) = []" "proposals (loop_ex True) = []" by (simp_all add: loop_ex_def)
  then show ?thesis using loop_run [of True] blocks_in_order [OF _ engine_loop_local] by blast
qed

theorem dead_checker_proposes_nothing_witness:
  "\<exists>block u. proposer_run proposer_env_ex engine_loop 64 (loop_ex False) [block] u \<and> proposals u = [] \<and> pending_blocks u = [block]"
proof -
  have "\<not> checker_running (loop_ex False)" "proposals (loop_ex False) = []" "pending_blocks (loop_ex False) = []" by (simp_all add: loop_ex_def)
  then show ?thesis using loop_run [of False] dead_checker_proposes_nothing [OF _ engine_loop_local] by fastforce
qed

theorem finality_round_correct_witness:
  "finality_round \<lparr>ck_start_l1_block = Inr 5, ck_send = (\<lambda>_. True), ck_rotations = Inr [(Some ''a'', [poll_ex 8])]\<rparr> ((loop_ex True)\<lparr>pending_blocks := [queued_ex]\<rparr>) =
     (Inr True, (loop_ex True)\<lparr>proposals := [(queued_ex, True)]\<rparr>)"
proof -
  let ?c = "\<lparr>ck_start_l1_block = Inr 5, ck_send = (\<lambda>_. True), ck_rotations = Inr [(Some ''a'', [poll_ex 8])]\<rparr>"
  obtain c where c: "contract_block queued_ex = Some c" using block_converts [OF queued_ok] by blast
  have "finality_round ?c ((loop_ex True)\<lparr>pending_blocks := [queued_ex]\<rparr>) =
      (Inr True, all_proposed (ck_send ?c) ((loop_ex True)\<lparr>pending_blocks := [queued_ex]\<rparr>))"
    by (subst finality_round_correct [of ?c 5 "[(Some ''a'', [poll_ex 8])]"]) (simp_all add: poll_ex_def finality_answer_def finalized_number_def c)
  then show ?thesis by (simp add: all_proposed_def loop_ex_def)
qed

end
