(* ===== verification/Block_Agreement.thy ===== *)
theory Block_Agreement
  imports Block_Assembly State_Transition
begin

text \<open>
  The proposers agree: the roots that \<open>prepare_state_transition\<close> computes for a block are the roots of the three trees of
  every proposer after the block's event, of the one that assembled it (which has the leaves in its trees already, and
  the historic root in a cache) as of the others (which append them then). And what happens when a second block is
  prepared before the event of the first.
\<close>

section \<open>The event of a block\<close>

text \<open>A block arrives in order, from \<open>sender\<close>, and the chain answers. The database holds no block under its number, or this block itself.\<close>

definition event_arrives ::
    "('p, 'e, 'y) proposer_env_scheme \<Rightarrow> proposer_answers \<Rightarrow> Block \<Rightarrow> int \<Rightarrow> 160 word \<Rightarrow> ('p, 'z) proposer_state_scheme \<Rightarrow> bool" where
  "event_arrives env answers blk n sender w \<longleftrightarrow> faults w = [] \<and> next_number w = n \<and>
     (\<exists>k pending. i256_to_u64 n = Some k \<and> proposer_stored_block env k sender blk = Some pending \<and> may_store pending (proposed_blocks w)) \<and>
     pa_signer answers = Inr (Some sender) \<and> (\<exists>current. pa_current_block answers = Inr current)"

text \<open>A block arrives at the proposer that made it, which is synchronised; of the database this says nothing.\<close>

definition own_event_arrives ::
    "('p, 'e, 'y) proposer_env_scheme \<Rightarrow> proposer_answers \<Rightarrow> Block \<Rightarrow> int \<Rightarrow> ('p, 'z) proposer_state_scheme \<Rightarrow> bool" where
  "own_event_arrives env answers blk n w \<longleftrightarrow> faults w = [] \<and> next_number w = n \<and> is_synchronised (sync_status w) \<and>
     i256_to_u64 n \<noteq> None \<and> those (map on_chain_transaction_from (blk_transactions blk)) \<noteq> None \<and>
     pa_signer answers = Inr (Some (pe_address env)) \<and> (\<exists>current. pa_current_block answers = Inr current)"

definition tree_root :: "('f, 'z) tree_db_scheme \<Rightarrow> 'f" where
  "tree_root t = TreeMetadata.root (the (metadata t))"

lemma tree_root_holds: "tree_holds th h s c f t \<Longrightarrow> tree_root t = mnode th f (h + s) 0"
  by (simp add: tree_root_def tree_holds_def tree_inv_def)

lemma tree_root_imt: "imt_inv th hash ser h s c t \<Longrightarrow> tree_root t = mnode th (leaf_content hash (indexed_leaves t)) (h + s) 0"
  using imt_invD(12) by (fastforce simp: tree_root_def)

text \<open>The block that is made of the state transition's roots and public inputs.\<close>

definition block_of :: "PublicInputs list \<Rightarrow> fr254 \<Rightarrow> Block \<Rightarrow> bool" where
  "block_of pubs croot blk \<longleftrightarrow> block_commitments blk = block_commitments_of pubs \<and> block_nullifiers blk = block_nullifiers_of pubs \<and>
     fr (unat (blk_commitments_root blk)) = croot \<and> unat (blk_commitments_root blk) \<le> fr_modulus"

lemma prepared:
  fixes env :: "('p, 'e, 'y) proposer_env_scheme" and w :: "('p, 'z) proposer_db_scheme" and re :: "('p, 'o, 'v, 'x) rollup_env_scheme"
  assumes "proposer_ready env (hc, cc, fc) (hr, cr, gr, g) (hn, cn) w" "block_fits (hc, cc) (hn, cn) w pubs"
    "rollup_inputs re ds ts = Inr (outs, pubs)"
    "\<And>p. length (sibling_path p) = hr \<Longrightarrow> length (re_membership_vec re p) = L"
    "prepare_state_transition re env ds ts w = (Inr (info, croot, nroot, hroot), w')"
  shows "croot = mnode (pe_tree_hash env) (put_leaves fc (cc * 8) (block_commitments_of pubs)) (hc + 3) 0"
    "nroot = mnode (pe_tree_hash env) (leaf_content (pe_hash env) (indexed_leaves (nullifier_tree w'))) (hn + 3) 0"
    "hroot = mnode (pe_tree_hash env) (put_leaves gr cr [croot]) hr 0"
    "tree_holds (pe_tree_hash env) hc 3 (cc + length pubs div 2) (put_leaves fc (cc * 8) (block_commitments_of pubs)) (commitment_tree w')"
    "tree_staged (pe_tree_hash env) hr cr gr croot (historic_root_tree w')"
    "imt_inv (pe_tree_hash env) (pe_hash env) (pe_ser env) hn 3 (cn + length pubs div 2) (nullifier_tree w')"
    "imt_values (nullifier_tree w') = imt_values (nullifier_tree w) \<union> {x \<in> set (block_nullifiers_of pubs). x \<noteq> 0}"
    "place_of (imt_list (nullifier_tree w')) = add_places (place_of (imt_list (nullifier_tree w))) (block_nullifiers_of pubs) (cn * 8)"
    "faults w' = []" "proposed_blocks w' = proposed_blocks w"
proof -
  let ?th = "pe_tree_hash env" and ?fc = "put_leaves fc (cc * 8) (block_commitments_of pubs)"
  have f: "faults w = []" using assms(1) by (simp add: proposer_ready_def)
  obtain xs hp t u v where run: "prepare_state_transition re env ds ts w =
      (Inr (\<lparr>ri_outputs_and_circuit_type = outs, ri_specific_pi = map public_inputs_vec pubs, ri_extra_info = xs,
            ri_extra_decider_info = decider_info re hp (mnode ?th gr hr 0)\<rparr>,
          mnode ?th ?fc (hc + 3) 0, mnode ?th (leaf_content (pe_hash env) (indexed_leaves u)) (hn + 3) 0,
          mnode ?th (put_leaves gr cr [mnode ?th ?fc (hc + 3) 0]) hr 0),
        w\<lparr>commitment_tree := t, nullifier_tree := u, historic_root_tree := v\<rparr>)"
    "tree_holds ?th hc 3 (cc + length pubs div 2) ?fc t" "tree_staged ?th hr cr gr (mnode ?th ?fc (hc + 3) 0) v"
    "imt_inv ?th (pe_hash env) (pe_ser env) hn 3 (cn + length pubs div 2) u"
    "imt_values u = imt_values (nullifier_tree w) \<union> {x \<in> set (block_nullifiers_of pubs). x \<noteq> 0}"
    "place_of (imt_list u) = add_places (place_of (imt_list (nullifier_tree w))) (block_nullifiers_of pubs) (cn * 8)"
    by (rule state_transition_run [OF assms(1-4)]) (assumption | rule that)+
  have "croot = mnode ?th ?fc (hc + 3) 0" "nroot = mnode ?th (leaf_content (pe_hash env) (indexed_leaves u)) (hn + 3) 0"
    "hroot = mnode ?th (put_leaves gr cr [mnode ?th ?fc (hc + 3) 0]) hr 0"
    and w': "w' = w\<lparr>commitment_tree := t, nullifier_tree := u, historic_root_tree := v\<rparr>"
    using assms(5) unfolding run(1) prod.inject sum.inject by blast+
  moreover have "commitment_tree w' = t" "nullifier_tree w' = u" "historic_root_tree w' = v" "faults w' = []"
    "proposed_blocks w' = proposed_blocks w" by (simp_all add: w' f)
  ultimately show "croot = mnode ?th ?fc (hc + 3) 0" "nroot = mnode ?th (leaf_content (pe_hash env) (indexed_leaves (nullifier_tree w'))) (hn + 3) 0"
    "hroot = mnode ?th (put_leaves gr cr [croot]) hr 0"
    "tree_holds ?th hc 3 (cc + length pubs div 2) ?fc (commitment_tree w')"
    "tree_staged ?th hr cr gr croot (historic_root_tree w')"
    "imt_inv ?th (pe_hash env) (pe_ser env) hn 3 (cn + length pubs div 2) (nullifier_tree w')"
    "imt_values (nullifier_tree w') = imt_values (nullifier_tree w) \<union> {x \<in> set (block_nullifiers_of pubs). x \<noteq> 0}"
    "place_of (imt_list (nullifier_tree w')) = add_places (place_of (imt_list (nullifier_tree w))) (block_nullifiers_of pubs) (cn * 8)"
    "faults w' = []" "proposed_blocks w' = proposed_blocks w"
    using run(2-6) by simp_all
qed

section \<open>Agreement\<close>

lemma prepared_agree:
  fixes env :: "('p, 'e, 'y) proposer_env_scheme" and w :: "('p, 'z) proposer_db_scheme" and re :: "('p, 'o, 'v, 'x) rollup_env_scheme"
    and env' :: "('p2, 'e2, 'y2) proposer_env_scheme" and x :: "('p, 'z3) proposer_state_scheme" and v :: "('p2, 'z2) proposer_state_scheme"
  assumes "proposer_ready env (hc, cc, fc) (hr, cr, gr, g) (hn, cn) w" "block_fits (hc, cc) (hn, cn) w pubs"
    "rollup_inputs re ds ts = Inr (outs, pubs)"
    "\<And>p. length (sibling_path p) = hr \<Longrightarrow> length (re_membership_vec re p) = L"
    "prepare_state_transition re env ds ts w = (Inr (info, croot, nroot, hroot), w')" "block_of pubs croot blk" "croot \<noteq> 0"
    "commitment_tree x = commitment_tree w'" "nullifier_tree x = nullifier_tree w'" "historic_root_tree x = historic_root_tree w'"
    "event_arrives env answers blk n (pe_address env) x" "is_synchronised (sync_status x)"
    "pe_tree_hash env' = pe_tree_hash env" "pe_hash env' = pe_hash env" "pe_ser env' = pe_ser env"
    "trees_hold env' (hc, 3, cc, fc) (hr, cr, gr) (hn, 3, cn) v" "imt_list (nullifier_tree v) = imt_list (nullifier_tree w)"
    "event_arrives env' answers' blk n sender v" "pe_address env' \<noteq> sender"
  shows "\<exists>x' v'. proposer_block_event env answers blk n x = (Inr (), x') \<and> proposer_block_event env' answers' blk n v = (Inr (), v') \<and>
    tree_root (commitment_tree x') = croot \<and> tree_root (commitment_tree v') = croot \<and>
    tree_root (nullifier_tree x') = nroot \<and> tree_root (nullifier_tree v') = nroot \<and>
    tree_root (historic_root_tree x') = hroot \<and> tree_root (historic_root_tree v') = hroot \<and>
    trees_hold env (hc, 3, cc + length pubs div 2, put_leaves fc (cc * 8) (block_commitments_of pubs)) (hr, cr + 1, put_leaves gr cr [croot]) (hn, 3, cn + length pubs div 2) x' \<and>
    trees_hold env' (hc, 3, cc + length pubs div 2, put_leaves fc (cc * 8) (block_commitments_of pubs)) (hr, cr + 1, put_leaves gr cr [croot]) (hn, 3, cn + length pubs div 2) v' \<and>
    imt_list (nullifier_tree v') = imt_list (nullifier_tree x') \<and> next_number x' = n + 1 \<and>
    (\<forall>k pending. i256_to_u64 n = Some k \<and> proposer_stored_block env k (pe_address env) blk = Some pending \<longrightarrow>
       proposed_blocks x' = with_block pending (proposed_blocks x))"
proof -
  let ?th = "pe_tree_hash env" and ?fc = "put_leaves fc (cc * 8) (block_commitments_of pubs)"
  note P = prepared [OF assms(1-5)]
  have R: "?th 0 0 = 0" "cr < 2 ^ hr" using assms(1) by (simp_all add: proposer_ready_def)
  have F: "pubs \<noteq> []" "length pubs mod 4 = 0" "length (block_commitments_of pubs) = 4 * length pubs" "length (block_nullifiers_of pubs) = 4 * length pubs"
    "cc + length pubs div 2 \<le> 2 ^ hc" "batch_ok hn 3 cn (imt_values (nullifier_tree w)) (block_nullifiers_of pubs)"
    using assms(2) length_concat_four [of pubs pi_commitments] length_concat_four [of pubs pi_nullifiers]
    by (simp_all add: block_fits_def block_commitments_of_def block_nullifiers_of_def)
  note e = eights [OF F(2)]
  have B: "block_commitments blk = block_commitments_of pubs" "block_nullifiers blk = block_nullifiers_of pubs"
    "fr (unat (blk_commitments_root blk)) = croot" "unat (blk_commitments_root blk) \<le> fr_modulus"
    using assms(6) by (simp_all add: block_of_def)
  obtain k p c where X: "faults x = []" "next_number x = n" "i256_to_u64 n = Some k"
    "proposer_stored_block env k (pe_address env) blk = Some p" "may_store p (proposed_blocks x)"
    "pa_signer answers = Inr (Some (pe_address env))" "pa_current_block answers = Inr c"
    using assms(11) unfolding event_arrives_def by blast
  obtain p' c' where V: "faults v = []" "next_number v = n" "proposer_stored_block env' k sender blk = Some p'"
    "may_store p' (proposed_blocks v)" "pa_signer answers' = Inr (Some sender)" "pa_current_block answers' = Inr c'"
    using assms(18) X(3) unfolding event_arrives_def by fastforce
  have ct: "tree_holds ?th hc 3 (cc + length pubs div 2) ?fc (commitment_tree x)" using P(4) assms(8) by simp
  have st: "tree_staged ?th hr cr gr (fr (unat (blk_commitments_root blk))) (historic_root_tree x)" using P(5) assms(10) B(3) by simp
  have ne: "mnode ?th ?fc (hc + 3) 0 \<noteq> 0" using P(1) assms(7) by simp
  obtain x' where x': "proposer_block_event env answers blk n x = (Inr (), x')" "commitment_tree x' = commitment_tree x"
    "nullifier_tree x' = nullifier_tree x" "tree_holds ?th hr 0 (cr + 1) (put_leaves gr cr [croot]) (historic_root_tree x')"
    "proposed_blocks x' = with_block p (proposed_blocks x)" "next_number x' = n + 1"
    using own_block_run [OF X(1) ct st X(2,3,6,4,5,7) assms(12) ne B(4) R(2)] B(3) by auto
  have T: "trees_hold env' (hc, 3, cc, fc) (hr, cr, gr) (hn, 3, cn) v" "pe_tree_hash env' 0 0 = 0" using assms(13,16) R(1) by simp_all
  have "imt_values (nullifier_tree v) = imt_values (nullifier_tree w)" using assms(17) by (simp add: imt_values_view imt_list_def)
  then have b: "batch_ok hn 3 cn (imt_values (nullifier_tree v)) (block_nullifiers blk)" using F(6) B(2) by simp
  have l: "length (block_commitments blk) mod 2 ^ 3 = 0" "block_commitments blk \<noteq> []"
    "cc + length (block_commitments blk) div 2 ^ 3 \<le> 2 ^ hc" "cr + 1 \<le> 2 ^ hr"
    using F(1,3,5) e B(1) R(2) by auto
  obtain v' where v': "proposer_block_event env' answers' blk n v = (Inr (), v')"
    "trees_hold env' (hc, 3, cc + length (block_commitments blk) div 2 ^ 3, put_leaves fc (cc * 2 ^ 3) (block_commitments blk))
      (hr, cr + 1, put_leaves gr cr [fr (unat (blk_commitments_root blk))]) (hn, 3, cn + length (block_nullifiers blk) div 2 ^ 3) v'"
    "place_of (imt_list (nullifier_tree v')) = add_places (place_of (imt_list (nullifier_tree v))) (block_nullifiers blk) (cn * 2 ^ 3)"
    using proposed_block_run [OF V(1) T(2,1) V(2) X(3) V(5,3,4,6) assms(19) B(4) l(1-3) b l(4)] by blast
  have V': "tree_holds ?th hc 3 (cc + length pubs div 2) ?fc (commitment_tree v')"
    "tree_holds ?th hr 0 (cr + 1) (put_leaves gr cr [croot]) (historic_root_tree v')"
    "imt_inv ?th (pe_hash env) (pe_ser env) hn 3 (cn + length pubs div 2) (nullifier_tree v')"
    using v'(2) assms(13-15) B F(3,4) e by (simp_all add: trees_hold_def)
  have inv: "imt_inv ?th (pe_hash env) (pe_ser env) hn 3 (cn + length pubs div 2) (nullifier_tree x')"
    using P(6) assms(9) x'(3) by simp
  have "place_of (imt_list (nullifier_tree v')) = place_of (imt_list (nullifier_tree x'))"
    using v'(3) P(8) assms(9,17) x'(3) B(2) by simp
  note same = imt_determined [OF V'(3) inv this]
  have "tree_root (nullifier_tree x') = nroot" "tree_root (nullifier_tree v') = nroot"
    using tree_root_imt [OF inv] tree_root_imt [OF V'(3)] same(2) P(2) assms(9) x'(3) by simp_all
  moreover have "tree_root (commitment_tree x') = croot" "tree_root (commitment_tree v') = croot"
    using tree_root_holds [OF ct] tree_root_holds [OF V'(1)] P(1) x'(2) by simp_all
  moreover have "tree_root (historic_root_tree x') = hroot" "tree_root (historic_root_tree v') = hroot"
    using tree_root_holds [OF x'(4)] tree_root_holds [OF V'(2)] P(3) by simp_all
  moreover have "trees_hold env (hc, 3, cc + length pubs div 2, ?fc) (hr, cr + 1, put_leaves gr cr [croot]) (hn, 3, cn + length pubs div 2) x'"
    "trees_hold env' (hc, 3, cc + length pubs div 2, ?fc) (hr, cr + 1, put_leaves gr cr [croot]) (hn, 3, cn + length pubs div 2) v'"
    using ct x'(2,4) inv V' assms(13-15) by (simp_all add: trees_hold_def)
  moreover have "proposed_blocks x' = with_block pending (proposed_blocks x)"
    if "i256_to_u64 n = Some j \<and> proposer_stored_block env j (pe_address env) blk = Some pending" for j pending
    using that X(3,4) x'(5) by simp
  ultimately show ?thesis using x'(1,6) v'(1) same(1) by blast
qed

text \<open>The block that \<open>prove_block\<close> makes with the rollup prover, as the contract gets it.\<close>

lemma contract_transaction_fields:
  "contract_transaction t = Some c \<Longrightarrow> ctx_commitments c = map (\<lambda>x. of_nat (fr_val x)) (oct_commitments t) \<and>
     ctx_nullifiers c = map (\<lambda>x. of_nat (fr_val x)) (oct_nullifiers t)"
  by (auto simp: contract_transaction_def those_map_total [where g = "\<lambda>x. of_nat (fr_val x)"] uint256_from_fr_eq split: option.splits)

lemma word_frs_of_fr: "word_frs (map (\<lambda>x. of_nat (fr_val x)) xs) = xs"
  by (induction xs) (simp_all add: word_frs_def unat_of_fr)

lemma word_frs_append: "word_frs (xs @ ys) = word_frs xs @ word_frs ys"
  by (simp add: word_frs_def)

lemma contract_transactions_fields:
  "those (map contract_transaction ts) = Some cs \<Longrightarrow>
   word_frs (concat (map ctx_commitments cs)) = concat (map oct_commitments ts) \<and>
   word_frs (concat (map ctx_nullifiers cs)) = concat (map oct_nullifiers ts)"
proof (induction ts arbitrary: cs)
  case (Cons t ts)
  then obtain c ds where "contract_transaction t = Some c" "those (map contract_transaction ts) = Some ds" "cs = c # ds"
    by (auto split: option.splits)
  then show ?case using Cons.IH [of ds] contract_transaction_fields [of t c] by (simp add: word_frs_append word_frs_of_fr)
qed (simp add: word_frs_def)

lemma contract_block_fields:
  assumes "contract_block pb = Some blk"
  shows "unat (blk_commitments_root blk) = fr_val (pb_commitments_root pb)" "unat (blk_nullifier_root blk) = fr_val (pb_nullifiers_root pb)"
    "unat (blk_commitments_root_root blk) = fr_val (pb_commitments_root_root pb)"
    "block_commitments blk = concat (map oct_commitments (pb_transactions pb))"
    "block_nullifiers blk = concat (map oct_nullifiers (pb_transactions pb))"
proof -
  obtain cs where cs: "those (map contract_transaction (pb_transactions pb)) = Some cs"
    using assms by (auto simp: contract_block_def split: option.splits)
  then have b: "blk = \<lparr>blk_commitments_root = of_nat (fr_val (pb_commitments_root pb)), blk_nullifier_root = of_nat (fr_val (pb_nullifiers_root pb)),
      blk_commitments_root_root = of_nat (fr_val (pb_commitments_root_root pb)), blk_transactions = cs, blk_rollup_proof = pb_rollup_proof pb\<rparr>"
    using assms by (simp add: contract_block_def uint256_from_fr_eq)
  show "unat (blk_commitments_root blk) = fr_val (pb_commitments_root pb)" "unat (blk_nullifier_root blk) = fr_val (pb_nullifiers_root pb)"
    "unat (blk_commitments_root_root blk) = fr_val (pb_commitments_root_root pb)"
    by (simp_all add: b unat_of_fr)
  show "block_commitments blk = concat (map oct_commitments (pb_transactions pb))"
    "block_nullifiers blk = concat (map oct_nullifiers (pb_transactions pb))"
    using contract_transactions_fields [OF cs] by (simp_all add: block_commitments_def block_nullifiers_def b)
qed

lemma map_sum_InrD: "map_sum f g r = Inr y \<Longrightarrow> \<exists>x. r = Inr x \<and> y = g x"
  by (cases r) simp_all

lemma mapS_snd:
  "mapS f xs = Inr ys \<Longrightarrow> (\<And>x y. f x = Inr y \<Longrightarrow> g y = h x) \<Longrightarrow> map g ys = map h xs"
  by (induction xs arbitrary: ys) (auto simp: bindS_def split: sum.splits)

lemma rollup_inputs_pubs:
  assumes "rollup_inputs re ds ts = Inr (outs, pubs)"
  shows "pubs = map snd ds @ map (\<lambda>t. public_inputs_from_tx (cwm_client_transaction t)) ts"
proof -
  obtain xs ys where x: "mapS (\<lambda>(proof, pub). map_sum (\<lambda>e. Fails (RollupProving e)) (\<lambda>out. ((out, re_deposit_vk re), pub)) (re_output re proof)) ds =
      (Inr xs :: rollup_error failure + _)"
    and y: "mapS (\<lambda>tx. map_sum (\<lambda>e. Fails (RollupProving e))
         (\<lambda>out. ((out, re_client_vk re), public_inputs_from_tx (cwm_client_transaction tx)))
         (re_output re (ct_proof (cwm_client_transaction tx)))) ts = (Inr ys :: rollup_error failure + _)"
    and p: "pubs = map snd (xs @ ys)"
    using assms by (auto simp: rollup_inputs_def bindS_def split: sum.splits)
  have "map snd xs = map snd ds" by (rule mapS_snd [OF x]) (auto split: prod.splits dest!: map_sum_InrD)
  moreover have "map snd ys = map (\<lambda>t. public_inputs_from_tx (cwm_client_transaction t)) ts"
    by (rule mapS_snd [OF y]) (auto dest!: map_sum_InrD)
  ultimately show ?thesis using p by simp
qed

lemma proved_block:
  assumes "rollup_inputs re ds ts = Inr (outs, pubs)" "prove_block (rollup_prover re env dep prove) ds ts w = (Inr pb, w')"
    "contract_block pb = Some blk"
  obtains info where "prepare_state_transition re env ds ts w =
      (Inr (info, pb_commitments_root pb, pb_nullifiers_root pb, pb_commitments_root_root pb), w')"
    "block_of pubs (pb_commitments_root pb) blk"
proof -
  obtain info cr nr rr vec where p: "prepare_state_transition re env ds ts w = (Inr (info, cr, nr, rr), w')"
    and b: "pb = \<lparr>pb_commitments_root = cr, pb_nullifiers_root = nr, pb_commitments_root_root = rr,
       pb_transactions = map (\<lambda>(_, pub). on_chain_from_inputs pub) ds @ map (\<lambda>t. on_chain_from_client (cwm_client_transaction t)) ts,
       pb_rollup_proof = concat (map (\<lambda>x. be_bytes 32 x) vec)\<rparr>"
    using assms(2) by (auto simp: prove_block_def rollup_prover_def bindM_def map_errM_def liftM_def returnM_def throwM_def split: prod.splits sum.splits)
  have "concat (map oct_commitments (pb_transactions pb)) = block_commitments_of pubs"
    "concat (map oct_nullifiers (pb_transactions pb)) = block_nullifiers_of pubs"
    by (simp_all add: b rollup_inputs_pubs [OF assms(1)] block_commitments_of_def block_nullifiers_of_def on_chain_from_inputs_def
        on_chain_from_client_def public_inputs_from_tx_def case_prod_beta comp_def)
  then have "block_of pubs (pb_commitments_root pb) blk"
    using contract_block_fields [OF assms(3)] fr_val_less [of "pb_commitments_root pb"] by (simp add: block_of_def less_imp_le)
  then show thesis using p by (intro that) (simp_all add: b)
qed

section \<open>The assembly of a block\<close>

text \<open>The proofs of the deposits with the fillers, as \<open>make_block\<close> computes them before the block is proven.\<close>

definition block_proofs ::
    "('p, 'z, 'i) proving_engine \<Rightarrow> nat \<Rightarrow> DepositDatawithFee list list \<Rightarrow> 'p ClientTransactionWithMetaData list \<Rightarrow>
     assembly_error failure + ('p \<times> PublicInputs) list" where
  "block_proofs engine b groups txs =
     bindS (mapS (deposit_proof engine) (map (map ddf_deposit_data) groups)) (\<lambda>ps.
     bindS (get_block_size b) (\<lambda>n.
     if length ps + length txs < n
     then bindS (deposit_proof engine (replicate 4 deposit_data_default)) (\<lambda>filler. Inr (ps @ replicate (n - (length ps + length txs)) filler))
     else Inr ps))"

lemma make_block_proofs:
  "make_block engine b (map (map ddf_deposit_data) groups) txs w =
     (case block_proofs engine b groups txs of Inl e \<Rightarrow> (Inl e, w) | Inr ps \<Rightarrow> prove_block engine ps txs w)"
  by (simp add: make_block_def block_proofs_def Let_def bindM_def liftM_def bindS_def returnM_def split: sum.split)

text \<open>The assembly makes the block \<open>pb\<close>, and \<open>pubs\<close> are the public inputs of its transactions.\<close>

definition assembles ::
    "('p, 'e, 'y) proposer_env_scheme \<Rightarrow> ('p, 'o, 'v, 'x) rollup_env_scheme \<Rightarrow> (DepositData list \<Rightarrow> string + 'p \<times> PublicInputs) \<Rightarrow>
     ('o, 'v) recursive_prover \<Rightarrow> nat \<Rightarrow> ('p, 'z) proposer_db_scheme \<Rightarrow> PublicInputs list \<Rightarrow> ProposerBlock \<Rightarrow> ('p, 'z) proposer_db_scheme \<Rightarrow> bool" where
  "assembles env re dep prove b w pubs pb w' \<longleftrightarrow>
     assemble_block env (rollup_prover re env dep prove) b w = (Inr pb, w') \<and>
     (\<exists>groups txs w1 ds outs. prepare_block_data env b w = (Inr (groups, txs), w1) \<and>
        block_proofs (rollup_prover re env dep prove :: ('p, 'z, _) proving_engine) b groups txs = Inr ds \<and> rollup_inputs re ds txs = Inr (outs, pubs))"

text \<open>The choice of the transactions changes the mempool only.\<close>

definition chain_part :: "('p, 'z) proposer_db_scheme \<Rightarrow> fr254 tree_db \<times> imt_db \<times> fr254 tree_db \<times> StoredBlock list" where
  "chain_part w = (commitment_tree w, nullifier_tree w, historic_root_tree w, proposed_blocks w)"

lemma keeps_chain_part:
  fixes env :: "('p, 'e, 'y) proposer_env_scheme" and c
  defines "I \<equiv> (\<lambda>w :: ('p, 'z) proposer_db_scheme. faults w = [] \<and> chain_part w = c)"
  shows "keeps I (prepare_block_data env b)"
proof -
  have calls: "keeps I (db_call e f)" if "\<And>w. I w \<Longrightarrow> I (snd (f w))" for e and f :: "('p, 'z) proposer_db_scheme \<Rightarrow> 'r \<times> ('p, 'z) proposer_db_scheme"
    using that by (auto simp: keeps_def I_def db_call_ok)
  have reads: "keeps I (db_read e f)" for e and f :: "('p, 'z) proposer_db_scheme \<Rightarrow> 'r"
    unfolding db_read_def by (rule calls) simp
  show ?thesis
    unfolding prepare_block_data_def get_all_mempool_client_transactions_def get_mempool_deposits_def read_transactions_def
      proposer_get_all_blocks_def remove_mempool_deposits_def set_in_mempool_def Let_def
    by (intro keeps_intros calls reads) (simp_all add: I_def chain_part_def)
qed

lemma assembled:
  fixes env :: "('p, 'e, 'y) proposer_env_scheme" and w :: "('p, 'z) proposer_db_scheme" and re :: "('p, 'o, 'v, 'x) rollup_env_scheme"
  assumes "proposer_ready env (hc, cc, fc) (hr, cr, gr, g) (hn, cn) w" "block_fits (hc, cc) (hn, cn) w pubs"
    "\<And>p. length (sibling_path p) = hr \<Longrightarrow> length (re_membership_vec re p) = L"
    "assembles env re dep prove b w pubs pb w'"
  obtains ds txs outs info w1 w2 where "proposer_ready env (hc, cc, fc) (hr, cr, gr, g) (hn, cn) w1" "block_fits (hc, cc) (hn, cn) w1 pubs"
    "chain_part w1 = chain_part w" "rollup_inputs re ds txs = Inr (outs, pubs)"
    "prepare_state_transition re env ds txs w1 = (Inr (info, pb_commitments_root pb, pb_nullifiers_root pb, pb_commitments_root_root pb), w2)"
    "\<And>blk. contract_block pb = Some blk \<Longrightarrow> block_of pubs (pb_commitments_root pb) blk"
    "w' = w2\<lparr>proposed_blocks := proposed_blocks w @ [\<lparr>sb_layer2_block_number = length (proposed_blocks w),
       sb_commitments = concat (map (\<lambda>t. map (proposer_hex env) (oct_commitments t)) (pb_transactions pb)),
       sb_proposer_address = pe_address env\<rparr>]\<rparr>"
    "faults w' = []"
proof -
  let ?engine = "rollup_prover re env dep prove :: ('p, 'z, _) proving_engine"
  obtain groups txs w1 ds outs where a: "assemble_block env ?engine b w = (Inr pb, w')"
    "prepare_block_data env b w = (Inr (groups, txs), w1)" "block_proofs ?engine b groups txs = Inr ds" "rollup_inputs re ds txs = Inr (outs, pubs)"
    using assms(4) unfolding assembles_def by blast
  have f: "faults w = []" using assms(1) by (simp add: proposer_ready_def)
  have "faults w1 = [] \<and> chain_part w1 = chain_part w"
    using keeps_chain_part [of "chain_part w" env b] f a(2) unfolding keeps_def by (metis snd_conv)
  then have same: "faults w1 = []" "chain_part w1 = chain_part w" by blast+
  then have r1: "proposer_ready env (hc, cc, fc) (hr, cr, gr, g) (hn, cn) w1" and f1: "block_fits (hc, cc) (hn, cn) w1 pubs"
    using assms(1,2) by (simp_all add: proposer_ready_def block_fits_def chain_part_def)
  obtain block w2 where m: "prove_block ?engine ds txs w1 = (Inr block, w2)"
    using a(1) by (auto simp: assemble_block_def bindM_def a(2) make_block_proofs a(3) split: prod.splits sum.splits)
  obtain info where p: "prepare_state_transition re env ds txs w1 =
      (Inr (info, pb_commitments_root block, pb_nullifiers_root block, pb_commitments_root_root block), w2)"
    using m by (auto simp: prove_block_def rollup_prover_def bindM_def map_errM_def liftM_def returnM_def throwM_def split: prod.splits sum.splits)
  note P = prepared [OF r1 f1 a(4) assms(3) p]
  have "pb = block \<and> w' = w2\<lparr>proposed_blocks := proposed_blocks w2 @ [\<lparr>sb_layer2_block_number = length (proposed_blocks w2),
       sb_commitments = concat (map (\<lambda>t. map (proposer_hex env) (oct_commitments t)) (pb_transactions block)),
       sb_proposer_address = pe_address env\<rparr>]\<rparr>"
    using a(1) P(9) by (auto simp: assemble_block_def bindM_def a(2) make_block_proofs a(3) m expectM_def map_errM_def db_read_ok db_write_ok
        returnM_def Let_def)
  moreover have "proposed_blocks w2 = proposed_blocks w" using P(10) same(2) by (simp add: chain_part_def)
  moreover have "block_of pubs (pb_commitments_root block) blk" if "contract_block block = Some blk" for blk
    by (rule proved_block [OF a(4) m that])
  ultimately show thesis using that [OF r1 f1 same(2) a(4), of info w2] p P(9) by simp
qed

text \<open>The block that was stored by the assembly is the one that its event announces.\<close>

lemma converted_commitments:
  assumes "contract_transaction t = Some c" "on_chain_transaction_from c = Some t'"
  shows "oct_commitments t' = oct_commitments t"
proof -
  have "those (map expect_frbn (map (\<lambda>x. of_nat (fr_val x)) (oct_commitments t))) = Some (oct_commitments t')"
    using assms contract_transaction_fields [OF assms(1)] by (auto simp: on_chain_transaction_from_def split: option.splits)
  moreover have "those (map expect_frbn (map (\<lambda>x. of_nat (fr_val x)) xs)) = Some xs" for xs
    by (subst those_expect_frs) (auto simp: unat_of_fr less_imp_le [OF fr_val_less] word_frs_of_fr)
  ultimately show ?thesis by simp
qed

lemma converted_all:
  "those (map contract_transaction ts) = Some cs \<Longrightarrow> those (map on_chain_transaction_from cs) = Some us \<Longrightarrow>
   map oct_commitments us = map oct_commitments ts"
proof (induction ts arbitrary: cs us)
  case (Cons t ts)
  then obtain c ds where c: "contract_transaction t = Some c" "those (map contract_transaction ts) = Some ds" "cs = c # ds"
    by (auto split: option.splits)
  then obtain u vs where "on_chain_transaction_from c = Some u" "those (map on_chain_transaction_from ds) = Some vs" "us = u # vs"
    using Cons.prems(2) by (auto split: option.splits)
  then show ?case using Cons.IH [OF c(2)] converted_commitments [OF c(1)] by simp
qed simp

lemma announced_block:
  assumes "contract_block pb = Some blk" "those (map on_chain_transaction_from (blk_transactions blk)) \<noteq> None"
  shows "proposer_stored_block env k a blk = Some \<lparr>sb_layer2_block_number = k,
       sb_commitments = concat (map (\<lambda>t. map (proposer_hex env) (oct_commitments t)) (pb_transactions pb)), sb_proposer_address = a\<rparr>"
proof -
  obtain us where us: "those (map on_chain_transaction_from (blk_transactions blk)) = Some us" using assms(2) by blast
  have "those (map contract_transaction (pb_transactions pb)) = Some (blk_transactions blk)"
    using assms(1) by (auto simp: contract_block_def split: option.splits)
  from converted_all [OF this us]
  have "map (map (proposer_hex env)) (map oct_commitments us) = map (map (proposer_hex env)) (map oct_commitments (pb_transactions pb))" by simp
  then show ?thesis by (simp add: proposer_stored_block_def us comp_def)
qed

lemma find_last_block:
  "\<forall>s\<in>set bs. sb_layer2_block_number s < n \<Longrightarrow> find_block n (bs @ [b]) = (if sb_layer2_block_number b = n then Some b else None)"
  by (induction bs) (auto simp: find_block_def)

lemma find_earlier_block: "find_block n bs = Some b \<Longrightarrow> find_block n (bs @ cs) = Some b"
  by (induction bs) (auto simp: find_block_def split: if_splits)

text \<open>So the event of a block finds it stored at the proposer that assembled it, unless the block was deleted.\<close>

lemma own_event:
  assumes "contract_block pb = Some blk" "own_event_arrives env answers blk (int k) x"
    "find_block k (proposed_blocks x) = Some \<lparr>sb_layer2_block_number = k,
       sb_commitments = concat (map (\<lambda>t. map (proposer_hex env) (oct_commitments t)) (pb_transactions pb)), sb_proposer_address = pe_address env\<rparr>"
  shows "event_arrives env answers blk (int k) (pe_address env) x" "is_synchronised (sync_status x)" "i256_to_u64 (int k) = Some k"
proof -
  show k: "i256_to_u64 (int k) = Some k" using assms(2) by (auto simp: own_event_arrives_def i256_to_u64_def split: if_splits)
  show "is_synchronised (sync_status x)" using assms(2) by (simp add: own_event_arrives_def)
  have "those (map on_chain_transaction_from (blk_transactions blk)) \<noteq> None" using assms(2) by (simp add: own_event_arrives_def)
  note s = announced_block [OF assms(1) this, of env k "pe_address env"]
  show "event_arrives env answers blk (int k) (pe_address env) x"
    using assms(2,3) k s by (auto simp: event_arrives_def own_event_arrives_def may_store_def)
qed

text \<open>C4. The proposers agree on a block. One proposer assembles it with the rollup prover, from what it chose of its mempool, and stores it
  under its number; another one holds the same leaves. Then the event of the block, converted for the contract, reaches both: the
  first one (synchronised, its trees and its stored blocks as the assembly left them, its stored blocks those before the expected one) as the sender
  of its own block, with whatever its mempool holds by then; the other one has no block under that number, or already this one. Both events succeed, and afterwards the roots of the
  commitment tree, of the nullifier tree and of the tree of historic roots are for both of them the three roots that were put into the
  block; both hold the same leaves again, so the next block can be made by either. The first proposer keeps the
  block as it stored it, once, and expects the next number, that of its next block.\<close>

theorem proposers_agree:
  fixes env :: "('p, 'e, 'y) proposer_env_scheme" and w :: "('p, 'z) proposer_db_scheme" and re :: "('p, 'o, 'v, 'x) rollup_env_scheme"
    and env' :: "('p2, 'e2, 'y2) proposer_env_scheme" and x :: "('p, 'z3) proposer_state_scheme" and v :: "('p2, 'z2) proposer_state_scheme"
  assumes "proposer_ready env (hc, cc, fc) (hr, cr, gr, g) (hn, cn) w" "block_fits (hc, cc) (hn, cn) w pubs"
    "\<And>p. length (sibling_path p) = hr \<Longrightarrow> length (re_membership_vec re p) = L"
    "\<forall>s\<in>set (proposed_blocks w). sb_layer2_block_number s < length (proposed_blocks w)"
    "assembles env re dep prove b w pubs pb w'" "contract_block pb = Some blk" "pb_commitments_root pb \<noteq> 0"
    "chain_part x = chain_part w'" "own_event_arrives env answers blk (int (length (proposed_blocks w))) x"
    "pe_tree_hash env' = pe_tree_hash env" "pe_hash env' = pe_hash env" "pe_ser env' = pe_ser env"
    "trees_hold env' (hc, 3, cc, fc) (hr, cr, gr) (hn, 3, cn) v" "imt_list (nullifier_tree v) = imt_list (nullifier_tree w)"
    "event_arrives env' answers' blk (int (length (proposed_blocks w))) (pe_address env) v" "pe_address env' \<noteq> pe_address env"
  shows "\<exists>x' v'. proposer_block_event env answers blk (int (length (proposed_blocks w))) x = (Inr (), x') \<and>
    proposer_block_event env' answers' blk (int (length (proposed_blocks w))) v = (Inr (), v') \<and>
    tree_root (commitment_tree x') = pb_commitments_root pb \<and> tree_root (commitment_tree v') = pb_commitments_root pb \<and>
    tree_root (nullifier_tree x') = pb_nullifiers_root pb \<and> tree_root (nullifier_tree v') = pb_nullifiers_root pb \<and>
    tree_root (historic_root_tree x') = pb_commitments_root_root pb \<and> tree_root (historic_root_tree v') = pb_commitments_root_root pb \<and>
    trees_hold env (hc, 3, cc + length pubs div 2, put_leaves fc (cc * 8) (block_commitments_of pubs)) (hr, cr + 1, put_leaves gr cr [pb_commitments_root pb]) (hn, 3, cn + length pubs div 2) x' \<and>
    trees_hold env' (hc, 3, cc + length pubs div 2, put_leaves fc (cc * 8) (block_commitments_of pubs)) (hr, cr + 1, put_leaves gr cr [pb_commitments_root pb]) (hn, 3, cn + length pubs div 2) v' \<and>
    imt_list (nullifier_tree v') = imt_list (nullifier_tree x') \<and>
    proposed_blocks x' = proposed_blocks w' \<and> length (proposed_blocks x') = length (proposed_blocks w) + 1 \<and>
    next_number x' = int (length (proposed_blocks x'))"
proof -
  let ?n = "length (proposed_blocks w)"
  let ?s = "\<lparr>sb_layer2_block_number = ?n, sb_commitments = concat (map (\<lambda>t. map (proposer_hex env) (oct_commitments t)) (pb_transactions pb)),
      sb_proposer_address = pe_address env\<rparr>"
  obtain ds txs outs info w1 w2 where A: "proposer_ready env (hc, cc, fc) (hr, cr, gr, g) (hn, cn) w1" "block_fits (hc, cc) (hn, cn) w1 pubs"
    "chain_part w1 = chain_part w" "rollup_inputs re ds txs = Inr (outs, pubs)"
    "prepare_state_transition re env ds txs w1 = (Inr (info, pb_commitments_root pb, pb_nullifiers_root pb, pb_commitments_root_root pb), w2)"
    "\<And>blk. contract_block pb = Some blk \<Longrightarrow> block_of pubs (pb_commitments_root pb) blk"
    "w' = w2\<lparr>proposed_blocks := proposed_blocks w @ [?s]\<rparr>"
    by (rule assembled [OF assms(1-3,5)], assumption) (rule that; assumption)
  have w': "proposed_blocks w' = proposed_blocks w @ [?s]" "commitment_tree x = commitment_tree w2" "nullifier_tree x = nullifier_tree w2"
    "historic_root_tree x = historic_root_tree w2" "proposed_blocks x = proposed_blocks w'"
    using assms(8) by (simp_all add: A(7) chain_part_def)
  have st: "find_block ?n (proposed_blocks x) = Some ?s" using find_last_block [OF assms(4)] by (simp add: w'(1,5))
  note own = own_event [OF assms(6,9) st]
  have same: "imt_list (nullifier_tree v) = imt_list (nullifier_tree w1)" using assms(14) A(3) by (simp add: chain_part_def)
  have conv: "those (map on_chain_transaction_from (blk_transactions blk)) \<noteq> None" using assms(9) by (simp add: own_event_arrives_def)
  have once: "with_block ?s (proposed_blocks x) = proposed_blocks w'" using st by (simp add: with_block_def w'(5))
  obtain x' v' where ag: "proposer_block_event env answers blk (int ?n) x = (Inr (), x')" "proposer_block_event env' answers' blk (int ?n) v = (Inr (), v')"
    "tree_root (commitment_tree x') = pb_commitments_root pb" "tree_root (commitment_tree v') = pb_commitments_root pb"
    "tree_root (nullifier_tree x') = pb_nullifiers_root pb" "tree_root (nullifier_tree v') = pb_nullifiers_root pb"
    "tree_root (historic_root_tree x') = pb_commitments_root_root pb" "tree_root (historic_root_tree v') = pb_commitments_root_root pb"
    "trees_hold env (hc, 3, cc + length pubs div 2, put_leaves fc (cc * 8) (block_commitments_of pubs)) (hr, cr + 1, put_leaves gr cr [pb_commitments_root pb]) (hn, 3, cn + length pubs div 2) x'"
    "trees_hold env' (hc, 3, cc + length pubs div 2, put_leaves fc (cc * 8) (block_commitments_of pubs)) (hr, cr + 1, put_leaves gr cr [pb_commitments_root pb]) (hn, 3, cn + length pubs div 2) v'"
    "imt_list (nullifier_tree v') = imt_list (nullifier_tree x')" "next_number x' = int ?n + 1"
    "\<forall>k pending. i256_to_u64 (int ?n) = Some k \<and> proposer_stored_block env k (pe_address env) blk = Some pending \<longrightarrow>
       proposed_blocks x' = with_block pending (proposed_blocks x)"
    using prepared_agree [OF A(1,2,4) assms(3) A(5) A(6) [OF assms(6)] assms(7) w'(2-4) own(1,2) assms(10-13) same assms(15,16)] by blast
  have "proposed_blocks x' = proposed_blocks w'"
    using ag(13) own(3) announced_block [OF assms(6) conv, of env ?n "pe_address env"] once by metis
  then show ?thesis using ag(1-12) w'(1) by (intro exI [of _ x'] exI [of _ v']) simp
qed

section \<open>The beginning\<close>

lemma new_trees_run:
  fixes w :: "('p, 'z) proposer_db_scheme"
  assumes "faults w = []" "th 0 0 = 0" "ser_ok ser" "commitment_tree w = \<lparr>faults = [], metadata = None, nodes = [], cache = []\<rparr>"
    "historic_root_tree w = \<lparr>faults = [], metadata = None, nodes = [], cache = []\<rparr>"
    "nullifier_tree w = \<lparr>faults = [], metadata = None, nodes = [], cache = [], indexed_leaves = []\<rparr>"
  obtains t u where "new_proposer_trees th hash ser w =
      (Inr (), w\<lparr>commitment_tree := fresh_tree 29 3, historic_root_tree := t, nullifier_tree := u\<rparr>)"
    "tree_holds th 32 0 1 (\<lambda>_. 0) t" "imt_inv th hash ser 29 3 1 u" "imt_values u = {0}"
proof -
  let ?w1 = "w\<lparr>commitment_tree := fresh_tree 29 3\<rparr>" and ?w2 = "w\<lparr>commitment_tree := fresh_tree 29 3, historic_root_tree := fresh_tree 32 0\<rparr>"
  have 1: "in_commitments (new_mutable_tree 29 3) w = (Inr (), ?w1)"
    by (rule in_commitments_run) (use assms(1,4) in \<open>simp_all add: new_tree_run\<close>, simp add: fresh_tree_def)
  have 2: "in_historic_roots (new_mutable_tree 32 0) ?w1 = (Inr (), ?w2)"
    by (rule in_historic_roots_run) (use assms(1,5) in \<open>simp_all add: new_tree_run\<close>, simp add: fresh_tree_def)
  obtain u where u: "new_indexed_tree th hash ser 29 3 (nullifier_tree w) = (Inr (), u)" "imt_inv th hash ser 29 3 1 u" "imt_values u = {0}"
    by (rule new_indexed_tree_ok [of th ser "nullifier_tree w" hash 29 3, OF assms(2,3)]) (use assms(6) in simp_all)
  let ?w3 = "?w2\<lparr>nullifier_tree := u\<rparr>"
  have 3: "in_nullifiers (new_indexed_tree th hash ser 29 3) ?w2 = (Inr (), ?w3)"
    by (rule in_nullifiers_run) (use assms(1,6) u imt_invD(1) [OF u(2)] in \<open>simp_all add: store_inv_def\<close>)
  have h: "tree_holds th 32 0 0 (\<lambda>_. 0) (historic_root_tree ?w3)" using fresh_tree_holds [of th 32 0] assms(2) by simp
  have f: "faults ?w3 = []" using assms(1) by simp
  obtain r t where t: "append_historic_commitment_root th 0 True ?w3 = ((Inr r :: merkle_error + _), ?w3\<lparr>historic_root_tree := t\<rparr>)"
    "tree_holds th 32 0 (0 + 1) (put_leaves (\<lambda>_. 0) 0 [0]) t"
    using historic_append_run [OF f h, of 0] by auto
  have z: "put_leaves (\<lambda>_. 0) 0 [0] = (\<lambda>_. 0 :: fr254)" by (simp add: put_leaves_def fun_eq_iff)
  show thesis
  proof (rule that)
    show "new_proposer_trees th hash ser w = (Inr (), w\<lparr>commitment_tree := fresh_tree 29 3, historic_root_tree := t, nullifier_tree := u\<rparr>)"
      by (simp add: new_proposer_trees_def bindM_def map_errM_def 1 2 3 t(1) returnM_def)
  qed (use t(2) u in \<open>simp_all add: z\<close>)
qed

text \<open>A proposer that starts on an empty database is ready to make blocks: the commitment tree and the nullifier tree have room for
  \<open>2 ^ 32\<close> leaves, the tree of historic roots holds one zero root, and the only nullifier is zero.\<close>

theorem new_database_ready:
  fixes env :: "('p, 'e, 'y) proposer_env_scheme" and w :: "('p, 'z) proposer_db_scheme"
  assumes "faults w = []" "pe_tree_hash env 0 0 = 0" "ser_ok (pe_ser env)" "commitment_tree w = \<lparr>faults = [], metadata = None, nodes = [], cache = []\<rparr>"
    "historic_root_tree w = \<lparr>faults = [], metadata = None, nodes = [], cache = []\<rparr>"
    "nullifier_tree w = \<lparr>faults = [], metadata = None, nodes = [], cache = [], indexed_leaves = []\<rparr>"
  shows "\<exists>w'. new_proposer_trees (pe_tree_hash env) (pe_hash env) (pe_ser env) w = (Inr () :: 'b failure + unit, w') \<and>
    proposer_ready env (29, 0, \<lambda>_. 0) (32, 1, \<lambda>_. 0, \<lambda>_. 0) (29, 1) w' \<and> imt_values (nullifier_tree w') = {0} \<and>
    tree_root (commitment_tree w') = 0 \<and> tree_root (historic_root_tree w') = 0"
proof -
  obtain t u where t: "new_proposer_trees (pe_tree_hash env) (pe_hash env) (pe_ser env) w =
      (Inr () :: 'b failure + unit, w\<lparr>commitment_tree := fresh_tree 29 3, historic_root_tree := t, nullifier_tree := u\<rparr>)"
    "tree_holds (pe_tree_hash env) 32 0 1 (\<lambda>_. 0) t" "imt_inv (pe_tree_hash env) (pe_hash env) (pe_ser env) 29 3 1 u" "imt_values u = {0}"
    by (rule new_trees_run [where th = "pe_tree_hash env" and ser = "pe_ser env" and hash = "pe_hash env", OF assms])
  have c: "tree_holds (pe_tree_hash env) 29 3 0 (\<lambda>_. 0) (fresh_tree 29 3)" by (rule fresh_tree_holds) (rule assms(2))
  have z: "mnode (pe_tree_hash env) (\<lambda>_. 0) d i = 0" for d i by (rule mnode_zero) (rule assms(2))
  have "tree_pending (pe_tree_hash env) 32 1 (\<lambda>_. 0) (\<lambda>_. 0) t" using t(2) unfolding tree_holds_def by (blast intro: clean_pending)
  then show ?thesis
    using t c assms(1,2) tree_root_holds [OF c] tree_root_holds [OF t(2)]
    by (intro exI [of _ "w\<lparr>commitment_tree := fresh_tree 29 3, historic_root_tree := t, nullifier_tree := u\<rparr>"]) (simp add: proposer_ready_def z)
qed

text \<open>The preparation of the real provers works on the database only, so the queue of the assembled blocks is as in every run.\<close>

lemma prepare_keeps_rest:
  "keeps (\<lambda>w :: ('p, 'z) proposer_state_scheme. proposer_state.more w = x) (prepare_state_transition re env ds ts)"
proof -
  let ?I = "\<lambda>w :: ('p, 'z) proposer_state_scheme. proposer_state.more w = x"
  have r: "keeps ?I (root_proof re cur rt st)" for cur rt st
    unfolding root_proof_def merkleM_def historic_membership_proof_def Let_def by (intro keeps_intros)
  have i: "keeps ?I (input_root_proofs re cur rts st)" for cur rts st
    by (induction rts arbitrary: st) (auto intro!: keeps_intros r)
  have a: "keeps ?I (all_root_proofs re cur pubs st)" for cur pubs st
    by (induction pubs arbitrary: st) (auto intro!: keeps_intros i)
  show ?thesis
    unfolding prepare_state_transition_def merkleM_def commitments_get_root_def append_historic_commitment_root_def historic_membership_proof_def Let_def
    by (intro keeps_intros a)
qed

lemma provers_local: "engine_local (rollup_prover re env dep prove)" "engine_local (mock_prover re env dep)"
  unfolding engine_local_def rollup_prover_def mock_prover_def mock_prepare_state_transition_def Let_def proving_engine.simps
  by (intro allI keeps_intros prepare_keeps_rest)+

section \<open>Two blocks at once\<close>

lemma ready_again:
  assumes "proposer_ready env (hc, cc, fc) (hr, cr, gr, g) (hn, cn) w" "block_fits (hc, cc) (hn, cn) w pubs"
    "rollup_inputs re ds ts = Inr (outs, pubs)"
    "\<And>p. length (sibling_path p) = hr \<Longrightarrow> length (re_membership_vec re p) = L"
    "prepare_state_transition re env ds ts w = (Inr (info, croot, nroot, hroot), w')"
  shows "proposer_ready env (hc, cc + length pubs div 2, put_leaves fc (cc * 8) (block_commitments_of pubs))
    (hr, cr, gr, put_leaves gr cr [croot]) (hn, cn + length pubs div 2) w'"
proof -
  note P = prepared [OF assms]
  have l: "length (block_commitments_of pubs) = 4 * length pubs" "length pubs mod 4 = 0"
    using assms(2) length_concat_four [of pubs pi_commitments] by (simp_all add: block_fits_def block_commitments_of_def)
  have "(cc + length pubs div 2) * 8 = cc * 8 + length (block_commitments_of pubs)"
  proof -
    have "length pubs = 4 * (length pubs div 4)" using div_mult_mod_eq [of "length pubs" 4] l(2) by simp
    then obtain k where "length pubs = 4 * k" by blast
    then show ?thesis using l(1) by simp
  qed
  then have "\<forall>j\<ge>(cc + length pubs div 2) * 8. put_leaves fc (cc * 8) (block_commitments_of pubs) j = 0"
    using assms(1) by (simp add: put_leaves_beyond proposer_ready_def)
  moreover have "\<forall>j. j \<noteq> cr \<longrightarrow> put_leaves gr cr [croot] j = gr j" by (auto simp: put_leaves_def)
  ultimately show ?thesis
    using P(4,6,9) staged_pending [OF P(5)] assms(1) by (simp add: proposer_ready_def)
qed

lemma ready_after_assembly:
  fixes env :: "('p, 'e, 'y) proposer_env_scheme" and w :: "('p, 'z) proposer_db_scheme" and re :: "('p, 'o, 'v, 'x) rollup_env_scheme"
  assumes "proposer_ready env (hc, cc, fc) (hr, cr, gr, g) (hn, cn) w" "block_fits (hc, cc) (hn, cn) w pubs"
    "\<And>p. length (sibling_path p) = hr \<Longrightarrow> length (re_membership_vec re p) = L"
    "assembles env re dep prove b w pubs pb w1" "chain_part y = chain_part w1" "faults y = []"
  shows "proposer_ready env (hc, cc + length pubs div 2, put_leaves fc (cc * 8) (block_commitments_of pubs))
    (hr, cr, gr, put_leaves gr cr [pb_commitments_root pb]) (hn, cn + length pubs div 2) y"
proof -
  obtain ds txs outs info u u1 where A: "proposer_ready env (hc, cc, fc) (hr, cr, gr, g) (hn, cn) u" "block_fits (hc, cc) (hn, cn) u pubs"
    "rollup_inputs re ds txs = Inr (outs, pubs)"
    "prepare_state_transition re env ds txs u = (Inr (info, pb_commitments_root pb, pb_nullifiers_root pb, pb_commitments_root_root pb), u1)"
    "w1 = u1\<lparr>proposed_blocks := proposed_blocks w @ [\<lparr>sb_layer2_block_number = length (proposed_blocks w),
       sb_commitments = concat (map (\<lambda>t. map (proposer_hex env) (oct_commitments t)) (pb_transactions pb)),
       sb_proposer_address = pe_address env\<rparr>]\<rparr>"
    by (rule assembled [OF assms(1-4)], assumption) (rule that; assumption)
  show ?thesis using ready_again [OF A(1-3) assms(3) A(4)] assms(5,6) by (simp add: proposer_ready_def chain_part_def A(5))
qed

text \<open>C34. A proposer does not wait for the event of its block before it assembles the next one. When it assembles a second block, from whatever its
  mempool holds by then, the new historic root of that block is computed as if the first block did not exist, with the second commitment root at
  the index that belongs to the first; and when the event of the first block arrives then (which finds that block stored by its assembly), the second root, still in the
  cache, is written over the first: the tree records the root for the first block but holds the second one's leaf.\<close>

theorem second_block_breaks_roots:
  fixes env :: "('p, 'e, 'y) proposer_env_scheme" and w :: "('p, 'z) proposer_db_scheme" and re :: "('p, 'o, 'v, 'x) rollup_env_scheme"
    and x :: "('p, 'z3) proposer_state_scheme"
  assumes "proposer_ready env (hc, cc, fc) (hr, cr, gr, g) (hn, cn) w" "block_fits (hc, cc) (hn, cn) w pubs"
    "\<And>p. length (sibling_path p) = hr \<Longrightarrow> length (re_membership_vec re p) = L"
    "\<forall>s\<in>set (proposed_blocks w). sb_layer2_block_number s < length (proposed_blocks w)"
    "assembles env re dep prove b w pubs pb w1" "contract_block pb = Some blk"
    "chain_part y = chain_part w1" "faults y = []" "block_fits (hc, cc + length pubs div 2) (hn, cn + length pubs div 2) y pubs2"
    "assembles env re dep prove b y pubs2 pb2 w2" "pb_commitments_root pb2 \<noteq> 0"
    "chain_part x = chain_part w2" "own_event_arrives env answers blk (int (length (proposed_blocks w))) x"
  shows "pb_commitments_root_root pb2 = mnode (pe_tree_hash env) (put_leaves gr cr [pb_commitments_root pb2]) hr 0 \<and>
    (\<exists>x'. proposer_block_event env answers blk (int (length (proposed_blocks w))) x = (Inr (), x') \<and>
      tree_root (historic_root_tree x') = pb_commitments_root_root pb \<and>
      look (historic_root_tree x') (2 ^ hr - 1 + cr) = pb_commitments_root pb2)"
proof -
  let ?th = "pe_tree_hash env" and ?fc = "put_leaves fc (cc * 8) (block_commitments_of pubs)" and ?n = "length (proposed_blocks w)"
  let ?s = "\<lambda>k pb. \<lparr>sb_layer2_block_number = k, sb_commitments = concat (map (\<lambda>t. map (proposer_hex env) (oct_commitments t)) (pb_transactions pb)),
      sb_proposer_address = pe_address env\<rparr>"
  obtain ds txs outs info u u1 where A: "proposer_ready env (hc, cc, fc) (hr, cr, gr, g) (hn, cn) u" "block_fits (hc, cc) (hn, cn) u pubs"
    "chain_part u = chain_part w" "rollup_inputs re ds txs = Inr (outs, pubs)"
    "prepare_state_transition re env ds txs u = (Inr (info, pb_commitments_root pb, pb_nullifiers_root pb, pb_commitments_root_root pb), u1)"
    "\<And>blk. contract_block pb = Some blk \<Longrightarrow> block_of pubs (pb_commitments_root pb) blk"
    "w1 = u1\<lparr>proposed_blocks := proposed_blocks w @ [?s ?n pb]\<rparr>" "faults w1 = []"
    by (rule assembled [OF assms(1-3,5)], assumption) (rule that; assumption)
  have y: "proposer_ready env (hc, cc + length pubs div 2, ?fc) (hr, cr, gr, put_leaves gr cr [pb_commitments_root pb]) (hn, cn + length pubs div 2) y"
    by (rule ready_after_assembly [OF assms(1-3,5,7,8)])
  have yb: "proposed_blocks y = proposed_blocks w @ [?s ?n pb]" using assms(7) by (simp add: A(7) chain_part_def)
  obtain ds2 txs2 outs2 info2 v v2 where B: "block_fits (hc, cc + length pubs div 2) (hn, cn + length pubs div 2) v pubs2"
    "proposer_ready env (hc, cc + length pubs div 2, ?fc) (hr, cr, gr, put_leaves gr cr [pb_commitments_root pb]) (hn, cn + length pubs div 2) v"
    "rollup_inputs re ds2 txs2 = Inr (outs2, pubs2)"
    "prepare_state_transition re env ds2 txs2 v = (Inr (info2, pb_commitments_root pb2, pb_nullifiers_root pb2, pb_commitments_root_root pb2), v2)"
    "w2 = v2\<lparr>proposed_blocks := proposed_blocks y @ [?s (length (proposed_blocks y)) pb2]\<rparr>"
    by (rule assembled [OF y assms(9,3,10)], assumption) (rule that; assumption)
  note P = prepared [OF A(1,2,4) assms(3) A(5)]
  note P2 = prepared [OF B(2,1,3) assms(3) B(4)]
  have R: "cr < 2 ^ hr" using assms(1) by (simp add: proposer_ready_def)
  have C: "fr (unat (blk_commitments_root blk)) = pb_commitments_root pb" "unat (blk_commitments_root blk) \<le> fr_modulus"
    using A(6) [OF assms(6)] by (simp_all add: block_of_def)
  have same: "commitment_tree x = commitment_tree v2" "historic_root_tree x = historic_root_tree v2"
    "proposed_blocks x = (proposed_blocks w @ [?s ?n pb]) @ [?s (length (proposed_blocks y)) pb2]"
    using assms(12) by (simp_all add: B(5) chain_part_def yb)
  have "find_block ?n (proposed_blocks w @ [?s ?n pb]) = Some (?s ?n pb)" using find_last_block [OF assms(4)] by simp
  then have st: "find_block ?n (proposed_blocks x) = Some (?s ?n pb)" unfolding same(3) by (rule find_earlier_block)
  note own = own_event [OF assms(6,13) st]
  obtain k p c where X: "faults x = []" "next_number x = int ?n" "i256_to_u64 (int ?n) = Some k"
    "proposer_stored_block env k (pe_address env) blk = Some p" "may_store p (proposed_blocks x)"
    "pa_signer answers = Inr (Some (pe_address env))" "pa_current_block answers = Inr c"
    using own(1) unfolding event_arrives_def by blast
  have ct: "tree_holds ?th hc 3 (cc + length pubs div 2 + length pubs2 div 2)
      (put_leaves ?fc ((cc + length pubs div 2) * 8) (block_commitments_of pubs2)) (commitment_tree x)"
    using P2(4) same(1) by simp
  have sg: "tree_staged ?th hr cr gr (pb_commitments_root pb2) (historic_root_tree x)" using P2(5) same(2) by simp
  have ne: "mnode ?th (put_leaves ?fc ((cc + length pubs div 2) * 8) (block_commitments_of pubs2)) (hc + 3) 0 \<noteq> 0"
    using P2(1) assms(11) by simp
  obtain x' where x': "proposer_block_event env answers blk (int ?n) x = (Inr (), x')"
    "nodes_ok ?th hr (put_leaves gr cr [pb_commitments_root pb2]) (look (historic_root_tree x'))"
    "metadata (historic_root_tree x') = Some \<lparr>tree_height = hr, sub_tree_height = 0, sub_tree_count = cr + 1,
      TreeMetadata.root = mnode ?th (put_leaves gr cr [pb_commitments_root pb]) hr 0\<rparr>"
    using own_block_staged [OF X(1) ct sg X(2,3,6,4,5,7) own(2) ne C(2) R] C(1) by auto
  have "look (historic_root_tree x') (2 ^ hr - 1 + cr) = pb_commitments_root pb2"
    using x'(2) R by (simp add: nodes_ok_def put_leaves_def)
  moreover have "tree_root (historic_root_tree x') = pb_commitments_root_root pb" using x'(3) P(3) by (simp add: tree_root_def)
  ultimately show ?thesis using x'(1) P2(3) by blast
qed


section \<open>Witnesses\<close>

text \<open>Blocks of 64 transactions: one of a client, with no commitments, and 63 proofs of deposits with one commitment each.\<close>

definition rollup_env_ex :: "(unit, unit, unit) rollup_env" where
  "rollup_env_ex = \<lparr>re_output = (\<lambda>_. Inr ()), re_deposit_vk = (), re_client_vk = (), re_membership_vec = (\<lambda>p. map path_value (sibling_path p)),
     re_commitment_vec = inserted_leaves, re_nullifier_vec = (\<lambda>info. inserted_leaves (imt_circuit_info info))\<rparr>"

definition pub_ex :: "fr254 \<Rightarrow> PublicInputs" where
  "pub_ex a = public_inputs_default\<lparr>pi_commitments := [a, 0, 0, 0]\<rparr>"

definition pubs_ex :: "PublicInputs list" where
  "pubs_ex = replicate 63 (pub_ex 1) @ [pub_ex 0]"

definition deposit_proof_ex :: "DepositData list \<Rightarrow> string + unit \<times> PublicInputs" where
  "deposit_proof_ex = (\<lambda>_. Inr ((), pub_ex 1))"

definition prove_ex :: "(unit, unit) recursive_prover" where
  "prove_ex = (\<lambda>_ _ _ _. Inr \<lparr>rc_pi = [0], rc_accumulators = ([0, 0, 0, 0], [0, 0, 0, 0]), rc_proof = []\<rparr>)"

definition empty_tx_ex :: "unit ClientTransactionWithMetaData" where
  "empty_tx_ex = mempool_entry [2] ((spend_tx_ex 0)\<lparr>ct_nullifiers := [0, 0, 0, 0]\<rparr>)"

definition assembler_ex :: "unit proposer_state" where
  "assembler_ex = \<lparr>faults = [], client_transactions = [empty_tx_ex], deposits = [], proposed_blocks = [], commitment_tree = fresh_tree 6 3,
     historic_root_tree = fresh_tree 2 0, nullifier_tree = imt_ex 7 3, next_number = 0, sync_status = new_sync_status Synchronized,
     subscriptions = []\<rparr>"

lemma assembler_ex_simps: "next_number assembler_ex = 0" "proposed_blocks assembler_ex = []" "is_synchronised (sync_status assembler_ex)"
  "faults assembler_ex = []" "deposits assembler_ex = []" "client_transactions assembler_ex = [empty_tx_ex]"
  by (simp_all add: assembler_ex_def new_sync_status_def is_synchronised_def)

lemma assembler_ex_ready: "proposer_ready proposer_env_ex (6, 0, \<lambda>_. 0) (2, 0, \<lambda>_. 0, \<lambda>_. 0) (7, 1) assembler_ex"
proof -
  have "tree_holds th_fr 6 3 0 (\<lambda>_. 0) (fresh_tree 6 3)" "tree_holds th_fr 2 0 0 (\<lambda>_. 0) (fresh_tree 2 0)"
    by (rule fresh_tree_holds, rule th_fr_zero)+
  then show ?thesis
    using imt_ex_ok(1) [of 7 3] clean_pending [of "fresh_tree 2 0" th_fr 2 0 "\<lambda>_. 0"]
    by (simp add: proposer_ready_def proposer_env_ex_simps assembler_ex_def tree_holds_def th_fr_zero)
qed

lemma vec_ex: "length (sibling_path p) = 2 \<Longrightarrow> length (re_membership_vec rollup_env_ex p) = 2"
  by (simp add: rollup_env_ex_def)

lemma pub_ex_simps: "pi_commitments (pub_ex a) = [a, 0, 0, 0]" "pi_nullifiers (pub_ex a) = [0, 0, 0, 0]" "pi_roots (pub_ex a) = [0, 0, 0, 0]"
  "length (pi_compressed_secrets (pub_ex a)) = 5" "pi_compressed_secrets (pub_ex a) ! 4 = 0"
  by (simp_all add: pub_ex_def public_inputs_default_def numeral_nat)

lemma pubs_ex_length: "length pubs_ex = 64"
  by (simp add: pubs_ex_def)

lemma fits_ex:
  assumes "cc + 32 \<le> 64" "cn + 32 \<le> 128"
  shows "block_fits (6, cc) (7, cn) w pubs_ex"
proof -
  have z: "set (block_nullifiers_of pubs_ex) \<subseteq> {0}" "length (block_nullifiers_of pubs_ex) = 256"
    by (simp_all add: block_nullifiers_of_def pubs_ex_def pub_ex_simps length_concat sum_list_replicate)
  then have n: "filter (\<lambda>v. v \<noteq> 0) (block_nullifiers_of pubs_ex) = []" "block_nullifiers_of pubs_ex \<noteq> []"
    by (auto simp: filter_empty_conv)
  have "batch_ok 7 3 cn (imt_values (nullifier_tree w)) (block_nullifiers_of pubs_ex)"
    using assms(2) z n by (auto simp: batch_ok_def)
  moreover have "\<forall>pub\<in>set pubs_ex. \<forall>r\<in>set (pi_roots pub). known_root (historic_root_tree w) r"
    by (simp add: pubs_ex_def pub_ex_simps known_root_def)
  ultimately show ?thesis
    using assms(1) by (simp add: block_fits_def pubs_ex_length) (simp add: pubs_ex_def pub_ex_simps)
qed

lemma prove_ex_run:
  assumes "prepare_state_transition rollup_env_ex proposer_env_ex ds txs w = (Inr (info, cr, nr, hr), w')"
  shows "prove_block (rollup_prover rollup_env_ex proposer_env_ex deposit_proof_ex prove_ex) ds txs w =
    (Inr \<lparr>pb_commitments_root = cr, pb_nullifiers_root = nr, pb_commitments_root_root = hr,
      pb_transactions = map (\<lambda>(_, pub). on_chain_from_inputs pub) ds @ map (\<lambda>t. on_chain_from_client (cwm_client_transaction t)) txs,
      pb_rollup_proof = concat (map (\<lambda>x. be_bytes 32 x) (replicate 9 0))\<rparr>, w')"
  using assms by (simp add: prove_block_def rollup_prover_def bindM_def map_errM_def liftM_def returnM_def recursive_prove_def prove_ex_def
      bindS_def rollup_proof_from_def rollup_proof_vec_def numeral_nat)

lemma assembles_ex:
  fixes w :: "(unit, 'z) proposer_db_scheme"
  assumes "proposer_ready proposer_env_ex (6, cc, fc) (2, cr, gr, g) (7, cn) w" "cc + 32 \<le> 64" "cn + 32 \<le> 128"
    "deposits w = []" "client_transactions w = [empty_tx_ex]"
  obtains pb w' where "assembles proposer_env_ex rollup_env_ex deposit_proof_ex prove_ex 64 w pubs_ex pb w'"
    "pb_commitments_root pb = mnode th_fr (put_leaves fc (cc * 8) (block_commitments_of pubs_ex)) 9 0"
    "\<forall>t\<in>set (pb_transactions pb). secrets_ok t" "faults w' = []" "proposer_db.more w' = proposer_db.more w"
proof -
  let ?engine = "rollup_prover rollup_env_ex proposer_env_ex deposit_proof_ex prove_ex :: (unit, 'z, _) proving_engine"
  have f: "faults w = []" using assms(1) by (simp add: proposer_ready_def)
  have p: "pending_deposits_of proposer_env_ex w = []" "stale_deposits_of proposer_env_ex w = []"
    "pending_transactions_of proposer_env_ex w = [empty_tx_ex]" "stale_transactions_of proposer_env_ex w = []"
    by (simp_all add: pending_deposits_of_def stale_deposits_of_def pending_transactions_of_def stale_transactions_of_def assms(4,5)
        empty_tx_ex_def mempool_entry_def spend_tx_ex_def tx_pending_def)
  have ch: "choose_transactions 64 [] [empty_tx_ex] = ([], [empty_tx_ex])"
    by (simp add: choose_transactions_def candidates_def sort_by_fee_def List.map_filter_def)
  let ?w1 = "without [] [empty_tx_ex] w"
  have prep: "prepare_block_data proposer_env_ex 64 w = (Inr ([], [empty_tx_ex]), ?w1)"
    by (subst prepare_block_data_run) (simp_all add: f p ch assms(4) get_block_size_def, simp add: without_def)
  have proofs: "block_proofs ?engine 64 [] [empty_tx_ex] = Inr (replicate 63 ((), pub_ex 1))"
    by (simp add: block_proofs_def bindS_def get_block_size_def deposit_proof_def rollup_prover_def deposit_proof_ex_def)
  have tx: "public_inputs_from_tx (cwm_client_transaction empty_tx_ex) = pub_ex 0"
    by (simp add: empty_tx_ex_def mempool_entry_def spend_tx_ex_def public_inputs_from_tx_def pub_ex_def public_inputs_default_def numeral_nat)
  have copies: "mapS h (replicate n x) = Inr (replicate n y)" if "h x = Inr y"
    for h :: "unit \<times> PublicInputs \<Rightarrow> rollup_error failure + (unit \<times> unit) \<times> PublicInputs" and x y n
    using that by (induction n) (simp_all add: bindS_def)
  have inputs: "rollup_inputs rollup_env_ex (replicate 63 ((), pub_ex 1)) [empty_tx_ex] = Inr (replicate 63 ((), ()) @ [((), ())], pubs_ex)"
    unfolding rollup_inputs_def
    by (subst copies [where y = "(((), ()), pub_ex 1)"]) (simp_all add: rollup_env_ex_def bindS_def tx pubs_ex_def)
  have ready: "proposer_ready proposer_env_ex (6, cc, fc) (2, cr, gr, g) (7, cn) ?w1"
    using assms(1) by (simp add: proposer_ready_def without_def)
  let ?r = "mnode (pe_tree_hash proposer_env_ex) (put_leaves fc (cc * 8) (block_commitments_of pubs_ex)) (6 + 3) 0"
  obtain info nroot hroot t u v where run: "prepare_state_transition rollup_env_ex proposer_env_ex (replicate 63 ((), pub_ex 1)) [empty_tx_ex] ?w1 =
      (Inr (info, ?r, nroot, hroot), ?w1\<lparr>commitment_tree := t, nullifier_tree := u, historic_root_tree := v\<rparr>)"
    by (rule state_transition_run [OF ready fits_ex [OF assms(2,3)] inputs vec_ex]) (assumption, rule that)
  let ?pb = "\<lparr>pb_commitments_root = ?r, pb_nullifiers_root = nroot, pb_commitments_root_root = hroot,
      pb_transactions = map (\<lambda>(_, pub). on_chain_from_inputs pub) (replicate 63 ((), pub_ex 1)) @
        map (\<lambda>t. on_chain_from_client (cwm_client_transaction t)) [empty_tx_ex],
      pb_rollup_proof = concat (map (\<lambda>x. be_bytes 32 x) (replicate 9 0))\<rparr>"
  let ?w2 = "?w1\<lparr>commitment_tree := t, nullifier_tree := u, historic_root_tree := v\<rparr>"
  have made: "prove_block ?engine (replicate 63 ((), pub_ex 1)) [empty_tx_ex] ?w1 = (Inr ?pb, ?w2)"
    using run by (rule prove_ex_run)
  have "faults ?w2 = []" using f by simp
  then obtain w' where w': "assemble_block proposer_env_ex ?engine 64 w = (Inr ?pb, w')" "faults w' = []" "proposer_db.more w' = proposer_db.more w"
    using make_block_proofs [of ?engine 64 "[]" "[empty_tx_ex]" ?w1] made
    by (simp add: assemble_block_def bindM_def prep proofs expectM_def map_errM_def db_read_ok db_write_ok returnM_def without_def)
  from w'(1) have "assembles proposer_env_ex rollup_env_ex deposit_proof_ex prove_ex 64 w pubs_ex ?pb w'"
    using prep proofs inputs unfolding assembles_def by blast
  moreover have "\<forall>t\<in>set (pb_transactions ?pb). secrets_ok t"
    by (simp add: on_chain_from_inputs_def on_chain_from_client_def secrets_ok_def pub_ex_simps empty_tx_ex_def mempool_entry_def spend_tx_ex_def)
  ultimately show thesis using that w'(2,3) by (simp add: proposer_env_ex_simps)
qed

text \<open>The value of the root for leaves zero and one.\<close>

lemma th_fr_val: "fr_val (th_fr a b) = (fr_val a + 2 * fr_val b) mod fr_modulus"
  by (simp only: th_fr_def fr_val_plus mod_add_right_eq mult_2)

lemma small_root:
  "(\<And>j. fr_val (f j) \<le> 1) \<Longrightarrow> 3 ^ d < fr_modulus \<Longrightarrow>
   fr_val (mnode th_fr f d i) \<le> 3 ^ d \<and> (f (i * 2 ^ d) \<noteq> 0 \<longrightarrow> mnode th_fr f d i \<noteq> 0)"
proof (induction d arbitrary: i)
  case (Suc d)
  have m: "3 ^ d < fr_modulus" using Suc.prems(2) by simp
  let ?a = "mnode th_fr f d (2 * i)" and ?b = "mnode th_fr f d (2 * i + 1)"
  have a: "fr_val ?a \<le> 3 ^ d" "f (2 * i * 2 ^ d) \<noteq> 0 \<longrightarrow> ?a \<noteq> 0" and b: "fr_val ?b \<le> 3 ^ d"
    using Suc.IH [OF Suc.prems(1) m] by blast+
  then have "fr_val ?a + 2 * fr_val ?b < fr_modulus" using Suc.prems(2) by simp
  then have v: "fr_val (mnode th_fr f (Suc d) i) = fr_val ?a + 2 * fr_val ?b"
    by (simp add: th_fr_val)
  have "mnode th_fr f (Suc d) i \<noteq> 0" if "f (i * 2 ^ Suc d) \<noteq> 0"
  proof
    assume "mnode th_fr f (Suc d) i = 0"
    then have "fr_val ?a = 0" using v by (metis add_is_0 fr_val_zero)
    then have "?a = 0" by (metis fr_val_inject_iff fr_val_zero)
    moreover have "i * 2 ^ Suc d = 2 * i * 2 ^ d" by simp
    ultimately show False using a(2) that by metis
  qed
  then show ?case using v add_mono [OF a(1) mult_le_mono2 [OF b, of 2]] by simp
qed auto

definition leaves_ex :: "(nat \<Rightarrow> fr254) \<Rightarrow> bool" where
  "leaves_ex f \<longleftrightarrow> (\<forall>j. f j \<in> {0, 1})"

lemma leaves_put: "leaves_ex f \<Longrightarrow> set xs \<subseteq> {0, 1} \<Longrightarrow> leaves_ex (put_leaves f p xs)"
  unfolding leaves_ex_def put_leaves_def by (metis (no_types, lifting) nth_mem nat_add_left_cancel_less le_add_diff_inverse subsetD)

lemma zero_leaves_ex: "leaves_ex (\<lambda>_. 0)"
  by (simp add: leaves_ex_def)

lemma commitments_ex_set: "set (block_commitments_of pubs_ex) \<subseteq> {0, 1}"
  by (auto simp: block_commitments_of_def pubs_ex_def pub_ex_simps)

lemma first_commitment_ex: "block_commitments_of pubs_ex = 1 # tl (block_commitments_of pubs_ex)"
proof -
  have "replicate 63 (pub_ex 1) = pub_ex 1 # replicate 62 (pub_ex 1)" using replicate_Suc [of 62 "pub_ex 1"] by simp
  then show ?thesis by (simp add: block_commitments_of_def pubs_ex_def pub_ex_simps)
qed

lemma block_root_ex:
  assumes "leaves_ex f" "f 0 = 1"
  shows "mnode th_fr f 9 0 \<noteq> 0"
proof -
  have "fr_val (f j) \<le> 1" for j using assms(1) by (auto simp: leaves_ex_def fr_val_one dest: spec [of _ j])
  moreover have "3 ^ 9 < fr_modulus" by (simp add: fr_modulus_def)
  ultimately show ?thesis using small_root [of f 9 0] assms(2) by simp
qed

lemma first_leaf_ex: "put_leaves f 0 (block_commitments_of pubs_ex) 0 = 1"
  by (subst first_commitment_ex) (simp add: put_leaves_def)

lemma fits_blocks_ex: "block_fits (6, 0) (7, 1) w pubs_ex" "block_fits (6, 0 + length pubs_ex div 2) (7, 1 + length pubs_ex div 2) w pubs_ex"
  by (rule fits_ex; simp add: pubs_ex_length)+

lemma stored_pending: "proposer_block_from blk = Inr pb \<Longrightarrow> \<exists>p. proposer_stored_block env k a blk = Some p"
  by (auto simp: proposer_block_from_def proposer_stored_block_def bindS_def okS_def split: sum.splits option.splits)

lemma transactions_convert: "proposer_block_from blk = Inr pb \<Longrightarrow> those (map on_chain_transaction_from (blk_transactions blk)) \<noteq> None"
  by (auto simp: proposer_block_from_def bindS_def okS_def split: sum.splits option.splits)

lemma own_event_ex:
  assumes "proposer_block_from blk = Inr pb" "faults x = []" "next_number x = 0" "is_synchronised (sync_status x)"
  shows "own_event_arrives proposer_env_ex (proposer_answers_ex 9) blk 0 x"
  using assms transactions_convert [OF assms(1)]
  by (simp add: own_event_arrives_def proposer_answers_ex_def i256_to_u64_def proposer_env_ex_simps)

lemma small_blocks_ex: "\<forall>s\<in>set (proposed_blocks assembler_ex). sb_layer2_block_number s < length (proposed_blocks assembler_ex)"
  by (simp add: assembler_ex_simps)

lemma same_rest: "proposer_db.more w' = proposer_db.more w \<Longrightarrow> next_number w' = next_number w \<and> sync_status w' = sync_status w"
  for w w' :: "'p proposer_state"
  by (cases w; cases w') simp

lemma first_assembly_ex:
  obtains pb blk w' where "assembles proposer_env_ex rollup_env_ex deposit_proof_ex prove_ex 64 assembler_ex pubs_ex pb w'"
    "pb_commitments_root pb = mnode th_fr (put_leaves (\<lambda>_. 0) 0 (block_commitments_of pubs_ex)) 9 0"
    "contract_block pb = Some blk" "proposer_block_from blk = Inr pb" "pb_commitments_root pb \<noteq> 0" "faults w' = []"
    "next_number w' = 0" "is_synchronised (sync_status w')"
proof -
  obtain pb w' where a: "assembles proposer_env_ex rollup_env_ex deposit_proof_ex prove_ex 64 assembler_ex pubs_ex pb w'"
    "pb_commitments_root pb = mnode th_fr (put_leaves (\<lambda>_. 0) (0 * 8) (block_commitments_of pubs_ex)) 9 0"
    "\<forall>t\<in>set (pb_transactions pb). secrets_ok t" "faults w' = []" "proposer_db.more w' = proposer_db.more assembler_ex"
    by (rule assembles_ex [OF assembler_ex_ready]) (simp_all add: assembler_ex_simps)
  have "mnode th_fr (put_leaves (\<lambda>_. 0) 0 (block_commitments_of pubs_ex)) 9 0 \<noteq> 0"
    by (rule block_root_ex [OF leaves_put [OF zero_leaves_ex commitments_ex_set] first_leaf_ex])
  then have r: "pb_commitments_root pb = mnode th_fr (put_leaves (\<lambda>_. 0) 0 (block_commitments_of pubs_ex)) 9 0" "pb_commitments_root pb \<noteq> 0"
    using a(2) by simp_all
  then show thesis using that [OF a(1) r(1) _ _ r(2)] block_converts [OF a(3)] a(4) same_rest [OF a(5)] assembler_ex_simps by metis
qed

theorem proposers_agree_witness:
  "\<exists>pb blk w' x' v'. assemble_block proposer_env_ex (rollup_prover rollup_env_ex proposer_env_ex deposit_proof_ex prove_ex) 64 assembler_ex = (Inr pb, w') \<and>
    contract_block pb = Some blk \<and> length (proposed_blocks w') = 1 \<and>
    proposer_block_event proposer_env_ex (proposer_answers_ex 9) blk 0 w' = (Inr (), x') \<and>
    proposer_block_event (proposer_env_ex\<lparr>pe_address := 8\<rparr>) (proposer_answers_ex 9) blk 0 assembler_ex = (Inr (), v') \<and>
    tree_root (commitment_tree x') \<noteq> 0 \<and> tree_root (commitment_tree v') = tree_root (commitment_tree x') \<and>
    tree_root (nullifier_tree x') = tree_root (nullifier_tree v') \<and>
    tree_root (historic_root_tree x') = tree_root (historic_root_tree v') \<and>
    proposed_blocks x' = proposed_blocks w' \<and> next_number x' = 1"
proof -
  let ?env = "proposer_env_ex\<lparr>pe_address := 8\<rparr>"
  obtain pb blk w' where a: "assembles proposer_env_ex rollup_env_ex deposit_proof_ex prove_ex 64 assembler_ex pubs_ex pb w'"
    "pb_commitments_root pb = mnode th_fr (put_leaves (\<lambda>_. 0) 0 (block_commitments_of pubs_ex)) 9 0"
    "contract_block pb = Some blk" "proposer_block_from blk = Inr pb" "pb_commitments_root pb \<noteq> 0" "faults w' = []"
    "next_number w' = 0" "is_synchronised (sync_status w')" by (rule first_assembly_ex)
  have o: "own_event_arrives proposer_env_ex (proposer_answers_ex 9) blk (int (length (proposed_blocks assembler_ex))) w'"
    using own_event_ex [OF a(4,6-8)] by (simp add: assembler_ex_simps)
  have e2: "event_arrives ?env (proposer_answers_ex 9) blk (int (length (proposed_blocks assembler_ex))) (pe_address proposer_env_ex) assembler_ex"
    using stored_pending [OF a(4), of ?env 0 9]
    by (simp add: event_arrives_def proposer_answers_ex_def i256_to_u64_def assembler_ex_simps proposer_env_ex_simps may_store_def find_block_def)
  have h: "trees_hold ?env (6, 3, 0, \<lambda>_. 0) (2, 0, \<lambda>_. 0) (7, 3, 1) assembler_ex"
    using fresh_tree_holds [of th_fr, OF th_fr_zero] imt_ex_ok(1) [of 7 3]
    by (simp add: trees_hold_def proposer_env_ex_simps assembler_ex_def)
  have e: "pe_tree_hash ?env = pe_tree_hash proposer_env_ex" "pe_hash ?env = pe_hash proposer_env_ex" "pe_ser ?env = pe_ser proposer_env_ex"
    "pe_address ?env \<noteq> pe_address proposer_env_ex" by (simp_all add: proposer_env_ex_simps)
  obtain x' v' where r: "proposer_block_event proposer_env_ex (proposer_answers_ex 9) blk (int (length (proposed_blocks assembler_ex))) w' = (Inr (), x')"
    "proposer_block_event ?env (proposer_answers_ex 9) blk (int (length (proposed_blocks assembler_ex))) assembler_ex = (Inr (), v')"
    "tree_root (commitment_tree x') = pb_commitments_root pb" "tree_root (commitment_tree v') = pb_commitments_root pb"
    "tree_root (nullifier_tree x') = pb_nullifiers_root pb" "tree_root (nullifier_tree v') = pb_nullifiers_root pb"
    "tree_root (historic_root_tree x') = pb_commitments_root_root pb" "tree_root (historic_root_tree v') = pb_commitments_root_root pb"
    "proposed_blocks x' = proposed_blocks w'" "length (proposed_blocks x') = length (proposed_blocks assembler_ex) + 1"
    "next_number x' = int (length (proposed_blocks x'))"
    using proposers_agree [OF assembler_ex_ready fits_blocks_ex(1) vec_ex small_blocks_ex a(1,3,5) refl o e(1-3) h refl e2 e(4)] by blast
  have "assemble_block proposer_env_ex (rollup_prover rollup_env_ex proposer_env_ex deposit_proof_ex prove_ex) 64 assembler_ex = (Inr pb, w')"
    using a(1) by (simp add: assembles_def)
  then show ?thesis using r a(3,5) by (intro exI conjI) (assumption | simp add: assembler_ex_simps)+
qed

lemma commitments_ex_length: "length (block_commitments_of pubs_ex) = 256"
  using length_concat_four [of pubs_ex pi_commitments]
  by (simp add: block_commitments_of_def pubs_ex_length) (simp add: pubs_ex_def pub_ex_simps)

lemma roots_differ_ex:
  "mnode th_fr (put_leaves (put_leaves (\<lambda>_. 0) 0 (block_commitments_of pubs_ex)) 256 (block_commitments_of pubs_ex)) 9 0 \<noteq>
   mnode th_fr (put_leaves (\<lambda>_. 0) 0 (block_commitments_of pubs_ex)) 9 0"
proof
  let ?f = "put_leaves (\<lambda>_. 0) 0 (block_commitments_of pubs_ex)"
  let ?g = "put_leaves ?f 256 (block_commitments_of pubs_ex)"
  assume same: "mnode th_fr ?g 9 0 = mnode th_fr ?f 9 0"
  have split: "mnode th_fr h 9 0 = mnode th_fr h 8 0 + (mnode th_fr h 8 1 + mnode th_fr h 8 1)" for h
    using mnode.simps(2) [of th_fr h 8 0] by (simp add: th_fr_def)
  have "mnode th_fr ?g 8 0 = mnode th_fr ?f 8 0" by (rule mnode_cong) (simp add: put_leaves_def)
  moreover have "mnode th_fr ?f 8 1 = 0"
    by (rule mnode_zero_range [of th_fr, OF th_fr_zero]) (simp add: put_leaves_def commitments_ex_length)
  ultimately have "mnode th_fr ?g 8 1 + mnode th_fr ?g 8 1 = 0" using same by (simp add: split)
  then have z: "(fr_val (mnode th_fr ?g 8 1) + fr_val (mnode th_fr ?g 8 1)) mod fr_modulus = 0"
    by (metis fr_val_plus fr_val_zero)
  have "leaves_ex ?g" by (intro leaves_put zero_leaves_ex commitments_ex_set)
  then have l: "fr_val (?g j) \<le> 1" for j by (auto simp: leaves_ex_def fr_val_one dest: spec [of _ j])
  have m: "3 ^ 8 < fr_modulus" "3 ^ 8 + 3 ^ 8 < fr_modulus" by (simp_all add: fr_modulus_def)
  have "?g (1 * 2 ^ 8) = 1" by (subst first_commitment_ex) (simp add: put_leaves_def)
  then have s: "fr_val (mnode th_fr ?g 8 1) \<le> 3 ^ 8" "mnode th_fr ?g 8 1 \<noteq> 0" using small_root [of ?g 8 1, OF l m(1)] by simp_all
  then have "fr_val (mnode th_fr ?g 8 1) + fr_val (mnode th_fr ?g 8 1) < fr_modulus" using m(2) by linarith
  then have "fr_val (mnode th_fr ?g 8 1) = 0" using z by simp
  then show False using s(2) by (metis fr_val_inject_iff fr_val_zero)
qed

theorem second_block_breaks_roots_witness:
  "\<exists>pb blk w1 pb2 w2 x'. assemble_block proposer_env_ex (rollup_prover rollup_env_ex proposer_env_ex deposit_proof_ex prove_ex) 64 assembler_ex = (Inr pb, w1) \<and>
    contract_block pb = Some blk \<and>
    assemble_block proposer_env_ex (rollup_prover rollup_env_ex proposer_env_ex deposit_proof_ex prove_ex) 64
      (w1\<lparr>client_transactions := [empty_tx_ex], deposits := []\<rparr>) = (Inr pb2, w2) \<and>
    proposer_block_event proposer_env_ex (proposer_answers_ex 9) blk 0 w2 = (Inr (), x') \<and>
    tree_root (historic_root_tree x') = pb_commitments_root_root pb \<and> look (historic_root_tree x') 3 = pb_commitments_root pb2 \<and>
    pb_commitments_root pb2 \<noteq> pb_commitments_root pb"
proof -
  obtain pb blk w1 where a: "assembles proposer_env_ex rollup_env_ex deposit_proof_ex prove_ex 64 assembler_ex pubs_ex pb w1"
    "pb_commitments_root pb = mnode th_fr (put_leaves (\<lambda>_. 0) 0 (block_commitments_of pubs_ex)) 9 0"
    "contract_block pb = Some blk" "proposer_block_from blk = Inr pb" "pb_commitments_root pb \<noteq> 0" "faults w1 = []"
    "next_number w1 = 0" "is_synchronised (sync_status w1)" by (rule first_assembly_ex)
  let ?y = "w1\<lparr>client_transactions := [empty_tx_ex], deposits := []\<rparr>"
  have y: "chain_part ?y = chain_part w1" "faults ?y = []" "deposits ?y = []" "client_transactions ?y = [empty_tx_ex]"
    "proposer_db.more ?y = proposer_db.more w1" using a(6) by (simp_all add: chain_part_def)
  have ready: "proposer_ready proposer_env_ex (6, 0 + length pubs_ex div 2, put_leaves (\<lambda>_. 0) (0 * 8) (block_commitments_of pubs_ex))
      (2, 0, \<lambda>_. 0, put_leaves (\<lambda>_. 0) 0 [pb_commitments_root pb]) (7, 1 + length pubs_ex div 2) ?y"
    by (rule ready_after_assembly [OF assembler_ex_ready fits_blocks_ex(1) vec_ex a(1) y(1,2)])
  obtain pb2 w2 where b: "assembles proposer_env_ex rollup_env_ex deposit_proof_ex prove_ex 64 ?y pubs_ex pb2 w2"
    "pb_commitments_root pb2 = mnode th_fr (put_leaves (put_leaves (\<lambda>_. 0) (0 * 8) (block_commitments_of pubs_ex))
       ((0 + length pubs_ex div 2) * 8) (block_commitments_of pubs_ex)) 9 0"
    "\<forall>t\<in>set (pb_transactions pb2). secrets_ok t" "faults w2 = []" "proposer_db.more w2 = proposer_db.more ?y"
    by (rule assembles_ex [OF ready _ _ y(3,4)]) (simp_all add: pubs_ex_length)
  let ?f = "put_leaves (put_leaves (\<lambda>_. 0) 0 (block_commitments_of pubs_ex)) 256 (block_commitments_of pubs_ex)"
  have r2: "pb_commitments_root pb2 = mnode th_fr ?f 9 0" using b(2) by (simp add: pubs_ex_length)
  have "?f 0 = put_leaves (\<lambda>_. 0) 0 (block_commitments_of pubs_ex) 0" by (subst put_leaves_def) simp
  then have "?f 0 = 1" using first_leaf_ex [of "\<lambda>_. 0"] by simp
  then have ne: "pb_commitments_root pb2 \<noteq> 0"
    unfolding r2 by (intro block_root_ex leaves_put zero_leaves_ex commitments_ex_set)
  have rest: "next_number w2 = 0" "is_synchronised (sync_status w2)" using same_rest [of w2 w1] b(5) y(5) a(7,8) by simp_all
  have o: "own_event_arrives proposer_env_ex (proposer_answers_ex 9) blk (int (length (proposed_blocks assembler_ex))) w2"
    using own_event_ex [OF a(4) b(4) rest] by (simp add: assembler_ex_simps)
  note C = second_block_breaks_roots [OF assembler_ex_ready fits_blocks_ex(1) vec_ex small_blocks_ex a(1,3) y(1,2) fits_blocks_ex(2) b(1) ne refl o]
  then obtain x' where x': "proposer_block_event proposer_env_ex (proposer_answers_ex 9) blk 0 w2 = (Inr (), x')"
    "tree_root (historic_root_tree x') = pb_commitments_root_root pb" "look (historic_root_tree x') 3 = pb_commitments_root pb2"
    by (auto simp: assembler_ex_simps numeral_nat)
  have "pb_commitments_root pb2 \<noteq> pb_commitments_root pb" unfolding a(2) r2 by (rule roots_differ_ex)
  moreover have "assemble_block proposer_env_ex (rollup_prover rollup_env_ex proposer_env_ex deposit_proof_ex prove_ex) 64 assembler_ex = (Inr pb, w1)"
    "assemble_block proposer_env_ex (rollup_prover rollup_env_ex proposer_env_ex deposit_proof_ex prove_ex) 64 ?y = (Inr pb2, w2)"
    using a(1) b(1) by (simp_all add: assembles_def)
  ultimately show ?thesis using x' a(3) by blast
qed

theorem new_database_ready_witness:
  "\<exists>w'. new_proposer_trees th_fr hash_fr ser_fr
      (proposer_ex\<lparr>commitment_tree := \<lparr>faults = [], metadata = None, nodes = [], cache = []\<rparr>,
        historic_root_tree := \<lparr>faults = [], metadata = None, nodes = [], cache = []\<rparr>,
        nullifier_tree := \<lparr>faults = [], metadata = None, nodes = [], cache = [], indexed_leaves = []\<rparr>\<rparr>) = (Inr (), w') \<and>
    proposer_ready proposer_env_ex (29, 0, \<lambda>_. 0) (32, 1, \<lambda>_. 0, \<lambda>_. 0) (29, 1) w'"
proof -
  let ?w = "proposer_ex\<lparr>commitment_tree := \<lparr>faults = [], metadata = None, nodes = [], cache = []\<rparr>,
        historic_root_tree := \<lparr>faults = [], metadata = None, nodes = [], cache = []\<rparr>,
        nullifier_tree := \<lparr>faults = [], metadata = None, nodes = [], cache = [], indexed_leaves = []\<rparr>\<rparr>"
  have "faults ?w = []" "pe_tree_hash proposer_env_ex 0 0 = 0" "ser_ok (pe_ser proposer_env_ex)"
    by (simp_all add: proposer_ex_def proposer_env_ex_simps th_fr_zero ser_ok_fr)
  from new_database_ready [OF this] show ?thesis by (auto simp: proposer_env_ex_simps)
qed

end
