(* ===== verification/Nightfall_Contract.thy ===== *)
theory Nightfall_Contract
  imports Rollup_Circuit Proposer_Events
begin

text \<open>
  The state of the contract \<open>blockchain_assets/contracts/Nightfall.sol\<close> and the calls that the clients and the proposers
  make: \<open>initialize\<close>, \<open>escrow_funds\<close>, \<open>propose_block\<close>, \<open>descrow_funds\<close>, \<open>withdraw_processed\<close> and \<open>getTokenInfo\<close>. \<open>None\<close> is a
  revert, which leaves the state as it was. The hashes, the verifier of the proofs, the proposer manager, the
  certificates and the other contracts that a call calls are parameters or answers; a call and what it calls are one step. An
  array \<open>uint256[4]\<close> is a list.
\<close>

section \<open>State\<close>

record DepositFeeState =
  dfs_fee :: "256 word"
  dfs_escrowed :: "8 word"
  dfs_redeemed :: "8 word"

record nightfall_contract =
  fee_binding :: "256 word \<Rightarrow> DepositFeeState"
  withdrawal_included :: "256 word \<Rightarrow> 8 word"
  token_id_mapping :: "256 word \<Rightarrow> 160 word \<times> 256 word"
  layer2_block_number :: int
  contract_roots :: "256 word \<times> 256 word \<times> 256 word"
  ether :: nat

text \<open>\<open>ne_verifier\<close> gets the accumulators, the rest of the proof and the public input.\<close>

record contract_env =
  ne_sha256 :: "byte list \<Rightarrow> byte list"
  ne_keccak :: "byte list \<Rightarrow> byte list"
  ne_address :: "160 word"
  ne_verifier :: "byte list \<Rightarrow> byte list \<Rightarrow> byte list \<Rightarrow> bool"

record call_context =
  msg_sender :: "160 word"
  msg_value :: "256 word"
  msg_certified :: bool

definition abi_words :: "256 word list \<Rightarrow> byte list" where
  "abi_words us = concat (map (\<lambda>u. be_bytes 32 (unat u)) us)"

definition abi_address :: "160 word \<Rightarrow> 256 word" where
  "abi_address a = of_nat (unat a)"

definition bytes32 :: "byte list \<Rightarrow> 256 word" where
  "bytes32 bs = of_nat (be_value bs)"

definition contract_sha256_and_shift :: "contract_env \<Rightarrow> 256 word list \<Rightarrow> 256 word" where
  "contract_sha256_and_shift env us = drop_bit 4 (bytes32 (ne_sha256 env (abi_words us)))"

definition contract_keccak_and_shift :: "contract_env \<Rightarrow> 256 word list \<Rightarrow> 256 word" where
  "contract_keccak_and_shift env us = drop_bit 4 (bytes32 (ne_keccak env (abi_words us)))"

definition fee_id :: "contract_env \<Rightarrow> 256 word" where
  "fee_id env = contract_keccak_and_shift env [abi_address (ne_address env), 0]"

definition contract_initialize :: "contract_env \<Rightarrow> 256 word \<Rightarrow> 256 word \<Rightarrow> 256 word \<Rightarrow> int \<Rightarrow> nightfall_contract" where
  "contract_initialize env nullifier_root commitment_root historic_root block_number =
     \<lparr>fee_binding = (\<lambda>_. \<lparr>dfs_fee = 0, dfs_escrowed = 0, dfs_redeemed = 0\<rparr>), withdrawal_included = (\<lambda>_. 0),
      token_id_mapping = (\<lambda>_. (0, 0))(fee_id env := (ne_address env, 0)), layer2_block_number = block_number,
      contract_roots = (commitment_root, nullifier_root, historic_root), ether = 0\<rparr>"

section \<open>Escrow\<close>

record escrow_calldata = escrow_call +
  es_value :: "256 word"
  es_token_type :: TokenType

text \<open>What the contract of the token answers: the slot of an ERC3525 token, and whether the transfer succeeds.\<close>

record escrow_answers =
  ea_slot :: "256 word option"
  ea_transfer :: bool

definition deposit_key :: "contract_env \<Rightarrow> 256 word \<Rightarrow> 256 word \<Rightarrow> 256 word \<Rightarrow> 256 word \<Rightarrow> 256 word" where
  "deposit_key env nf_token_id nf_slot_id value secret_hash =
     contract_sha256_and_shift env [nf_token_id, nf_slot_id, value, secret_hash]"

definition bind_deposit :: "256 word \<Rightarrow> 256 word \<Rightarrow> nightfall_contract \<Rightarrow> nightfall_contract option" where
  "bind_deposit key fee s =
     (if dfs_escrowed (fee_binding s key) \<noteq> 0 then None
      else Some (s\<lparr>fee_binding := (fee_binding s)(key := \<lparr>dfs_fee = fee, dfs_escrowed = 1, dfs_redeemed = 0\<rparr>)\<rparr>))"

definition token_taken :: "escrow_calldata \<Rightarrow> escrow_answers \<Rightarrow> bool" where
  "token_taken c a \<longleftrightarrow> ea_transfer a \<and>
     (case es_token_type c of ERC721 \<Rightarrow> es_value c = 0 | ERC20 \<Rightarrow> es_token_id c = 0 | _ \<Rightarrow> True)"

definition escrow_slot :: "contract_env \<Rightarrow> escrow_answers \<Rightarrow> escrow_calldata \<Rightarrow> 256 word \<Rightarrow> 256 word option" where
  "escrow_slot env a c nf_token_id =
     (if es_token_type c = ERC3525
      then map_option (\<lambda>slot. contract_keccak_and_shift env [abi_address (es_erc_address c), slot]) (ea_slot a)
      else Some nf_token_id)"

definition contract_escrow_funds ::
    "contract_env \<Rightarrow> call_context \<Rightarrow> escrow_answers \<Rightarrow> escrow_calldata \<Rightarrow> nightfall_contract \<Rightarrow>
     (nightfall_contract \<times> deposit_escrowed list) option" where
  "contract_escrow_funds env ctx a c s0 =
     (if \<not> msg_certified ctx then None
      else
        let s = s0\<lparr>ether := ether s0 + unat (msg_value ctx)\<rparr>;
            nf_token_id = contract_sha256_and_shift env [abi_address (es_erc_address c), es_token_id c];
            s = s\<lparr>token_id_mapping := (token_id_mapping s)(nf_token_id := (es_erc_address c, es_token_id c))\<rparr>
        in Option.bind (escrow_slot env a c nf_token_id) (\<lambda>nf_slot_id.
           if \<not> token_taken c a then None
           else Option.bind (bind_deposit (deposit_key env nf_token_id nf_slot_id (es_value c) (es_secret_hash c)) (es_fee c) s) (\<lambda>s.
           (let value_event = \<lparr>de_nf_slot_id = nf_slot_id, de_value = es_value c\<rparr> in
            if 2 * unat (es_fee c) \<ge> 2 ^ 256 then None
            else if unat (msg_value ctx) > 2 * unat (es_fee c) then
              (let deposit_fee = msg_value ctx - 2 * es_fee c in
               map_option (\<lambda>s. (s, [value_event, \<lparr>de_nf_slot_id = fee_id env, de_value = deposit_fee\<rparr>]))
                 (bind_deposit (deposit_key env (fee_id env) (fee_id env) deposit_fee (es_secret_hash c)) (es_fee c) s))
            else Some (s, [value_event])))))"

section \<open>Blocks\<close>

definition hash_transaction :: "contract_env \<Rightarrow> ContractTransaction \<Rightarrow> 256 word" where
  "hash_transaction env txn = contract_sha256_and_shift env (ctx_commitments txn @ ctx_nullifiers txn @ ctx_public_data txn)"

text \<open>The public inputs of the proof: the first eight, and two for each of the eight words of the accumulators.\<close>

definition split_low_high :: "256 word \<Rightarrow> 256 word list" where
  "split_low_high value = [and value (2 ^ 248 - 1), drop_bit 248 value]"

definition proof_word :: "byte list \<Rightarrow> nat \<Rightarrow> 256 word" where
  "proof_word proof i = bytes32 (take 32 (drop (32 * i) proof))"

definition verify_rollup_proof :: "contract_env \<Rightarrow> nightfall_contract \<Rightarrow> Block \<Rightarrow> 256 word \<Rightarrow> (bool \<times> 256 word) option" where
  "verify_rollup_proof env s blk public_hash =
     (let rollup_proof = blk_rollup_proof blk in
      if length rollup_proof < 288 then None
      else
        let fee_sum = proof_word rollup_proof 0;
            (commitment_root, nullifier_root, historic_root) = contract_roots s;
            public_inputs = [fee_sum, public_hash, commitment_root, blk_commitments_root blk, nullifier_root, blk_nullifier_root blk,
              historic_root, blk_commitments_root_root blk] @ concat (map (\<lambda>i. split_low_high (proof_word rollup_proof (i + 1))) [0..<8]);
            computed = unat (contract_sha256_and_shift env public_inputs) mod fr_modulus
        in Some (ne_verifier env (take 256 (drop 32 rollup_proof)) (drop 288 rollup_proof) (be_bytes 32 computed), fee_sum))"

text \<open>The deposits of a transaction: its public data that are not zero. Additions are checked.\<close>

fun redeem_deposits :: "256 word list \<Rightarrow> 256 word \<times> nightfall_contract \<Rightarrow> (256 word \<times> nightfall_contract) option" where
  "redeem_deposits [] ts = Some ts"
| "redeem_deposits (public_data # rest) (total_fee, s) =
     (if public_data = 0 then redeem_deposits rest (total_fee, s)
      else
        let d = fee_binding s public_data in
        if unat total_fee + unat (dfs_fee d) \<ge> 2 ^ 256 then None
        else if dfs_escrowed d \<noteq> 1 \<or> dfs_redeemed d \<noteq> 0 then None
        else redeem_deposits rest (total_fee + dfs_fee d,
               s\<lparr>fee_binding := (fee_binding s)(public_data := d\<lparr>dfs_redeemed := 1\<rparr>)\<rparr>))"

definition withdraw_key :: "contract_env \<Rightarrow> ContractWithdrawData \<Rightarrow> 256 word" where
  "withdraw_key env d = bytes32 (ne_keccak env
     (abi_words [cwd_nf_token_id d, abi_address (cwd_recipient_address d), cwd_value d, cwd_withdraw_fund_salt d]))"

definition withdraw_data_of :: "ContractTransaction \<Rightarrow> ContractWithdrawData" where
  "withdraw_data_of t =
     \<lparr>cwd_nf_token_id = ctx_public_data t ! 0, cwd_recipient_address = of_nat (unat (ctx_public_data t ! 1)),
      cwd_value = ctx_public_data t ! 2, cwd_withdraw_fund_salt = ctx_nullifiers t ! 0\<rparr>"

definition is_deposit_tx :: "ContractTransaction \<Rightarrow> bool" where
  "is_deposit_tx t \<longleftrightarrow> ctx_nullifiers t ! 0 = 0"

definition is_withdraw_tx :: "ContractTransaction \<Rightarrow> bool" where
  "is_withdraw_tx t \<longleftrightarrow> ctx_commitments t ! 0 = 0 \<and> ctx_nullifiers t ! 0 \<noteq> 0"

definition process_transaction ::
    "contract_env \<Rightarrow> ContractTransaction \<Rightarrow> 256 word \<times> nightfall_contract \<Rightarrow> (256 word \<times> nightfall_contract) option" where
  "process_transaction env t = (\<lambda>(total_fee, s).
     if is_deposit_tx t then
       (if ctx_public_data t ! 0 = 0 then Some (total_fee, s) else redeem_deposits (ctx_public_data t) (total_fee, s))
     else if is_withdraw_tx t then
       (let key = withdraw_key env (withdraw_data_of t) in
        if withdrawal_included s key \<noteq> 0 then None
        else Some (total_fee, s\<lparr>withdrawal_included := (withdrawal_included s)(key := 1)\<rparr>))
     else Some (total_fee, s))"

fun process_transactions ::
    "contract_env \<Rightarrow> ContractTransaction list \<Rightarrow> 256 word \<times> nightfall_contract \<Rightarrow> (256 word \<times> nightfall_contract) option" where
  "process_transactions env [] ts = Some ts"
| "process_transactions env (t # txs) ts = Option.bind (process_transaction env t ts) (process_transactions env txs)"

text \<open>The answers: the current proposer, and whether it takes the payment. The result has the number of the event.\<close>

record block_answers =
  ba_current_proposer :: "160 word"
  ba_takes_payment :: bool

definition contract_propose_block ::
    "contract_env \<Rightarrow> call_context \<Rightarrow> block_answers \<Rightarrow> Block \<Rightarrow> nightfall_contract \<Rightarrow> (nightfall_contract \<times> int) option" where
  "contract_propose_block env ctx a blk s =
     (if \<not> msg_certified ctx \<or> msg_value ctx \<noteq> 0 \<or> ba_current_proposer a \<noteq> msg_sender ctx \<or> blk_transactions blk = [] then None
      else Option.bind (verify_rollup_proof env s blk
             (transaction_root (contract_sha256_and_shift env) (map (hash_transaction env) (blk_transactions blk)))) (\<lambda>(verified, total_fee).
        if \<not> verified then None
        else Option.bind (process_transactions env (blk_transactions blk) (total_fee, s)) (\<lambda>(total_fee, s).
          (let s = s\<lparr>contract_roots := (blk_commitments_root blk, blk_nullifier_root blk, blk_commitments_root_root blk)\<rparr> in
           if \<not> ba_takes_payment a \<or> ether s < unat total_fee then None
           else
             let s = s\<lparr>ether := ether s - unat total_fee\<rparr> in
             if layer2_block_number s = 2 ^ 255 - 1 then None
             else Some (s\<lparr>layer2_block_number := layer2_block_number s + 1\<rparr>, layer2_block_number s)))))"

section \<open>Withdrawal\<close>

text \<open>The answer of the recipient or of the contract of the token: a revert, or whether it succeeded.\<close>

definition contract_descrow_funds ::
    "contract_env \<Rightarrow> call_context \<Rightarrow> unit + bool \<Rightarrow> ContractWithdrawData \<Rightarrow> TokenType \<Rightarrow> nightfall_contract \<Rightarrow> nightfall_contract option" where
  "contract_descrow_funds env ctx a d token_type s0 =
     (let s = s0\<lparr>ether := ether s0 + unat (msg_value ctx)\<rparr>;
          key = withdraw_key env d;
          (erc_address, token_id) = token_id_mapping s (cwd_nf_token_id d);
          settle = (\<lambda>success. if success then s\<lparr>withdrawal_included := (withdrawal_included s)(key := 0)\<rparr> else s) in
      if \<not> msg_certified ctx \<or> withdrawal_included s key \<noteq> 1 then None
      else if erc_address = 0 then
        (if a = Inr True \<and> unat (cwd_value d) \<le> ether s then Some (s\<lparr>ether := ether s - unat (cwd_value d)\<rparr>) else None)
      else (case token_type of
          ERC1155 \<Rightarrow> (case a of Inl _ \<Rightarrow> None | Inr _ \<Rightarrow> Some (settle True))
        | ERC721 \<Rightarrow> (if cwd_value d \<noteq> 0 then None else case a of Inl _ \<Rightarrow> None | Inr _ \<Rightarrow> Some (settle True))
        | ERC20 \<Rightarrow> (if token_id \<noteq> 0 then None else case a of Inl _ \<Rightarrow> None | Inr success \<Rightarrow> Some (settle success))
        | ERC3525 \<Rightarrow> Some (settle False)))"

definition withdraw_processed :: "contract_env \<Rightarrow> ContractWithdrawData \<Rightarrow> nightfall_contract \<Rightarrow> bool" where
  "withdraw_processed env d s \<longleftrightarrow> withdrawal_included s (withdraw_key env d) = 1"

definition contract_get_token_info :: "256 word \<Rightarrow> nightfall_contract \<Rightarrow> 160 word \<times> 256 word" where
  "contract_get_token_info nf_token_id s = token_id_mapping s nf_token_id"

section \<open>Histories\<close>

datatype contract_call =
    CallEscrow call_context escrow_answers escrow_calldata
  | CallPropose call_context block_answers Block
  | CallDescrow call_context "unit + bool" ContractWithdrawData TokenType

text \<open>A call that reverts changes nothing; the block, if one was taken.\<close>

fun contract_exec :: "contract_env \<Rightarrow> contract_call \<Rightarrow> nightfall_contract \<Rightarrow> nightfall_contract \<times> Block list" where
  "contract_exec env (CallEscrow ctx a c) s =
     (case contract_escrow_funds env ctx a c s of None \<Rightarrow> (s, []) | Some (s', _) \<Rightarrow> (s', []))"
| "contract_exec env (CallPropose ctx a blk) s =
     (case contract_propose_block env ctx a blk s of None \<Rightarrow> (s, []) | Some (s', _) \<Rightarrow> (s', [blk]))"
| "contract_exec env (CallDescrow ctx a d t) s =
     (case contract_descrow_funds env ctx a d t s of None \<Rightarrow> (s, []) | Some s' \<Rightarrow> (s', []))"

fun contract_run :: "contract_env \<Rightarrow> contract_call list \<Rightarrow> nightfall_contract \<Rightarrow> nightfall_contract \<times> Block list" where
  "contract_run env [] s = (s, [])"
| "contract_run env (c # cs) s =
     (case contract_exec env c s of (s', bs) \<Rightarrow> case contract_run env cs s' of (s'', bs') \<Rightarrow> (s'', bs @ bs'))"

section \<open>Blocks that are accepted\<close>

definition tx_deposits :: "ContractTransaction \<Rightarrow> 256 word list" where
  "tx_deposits t = (if is_deposit_tx t \<and> ctx_public_data t ! 0 \<noteq> 0 then filter (\<lambda>k. k \<noteq> 0) (ctx_public_data t) else [])"

definition block_deposits :: "Block \<Rightarrow> 256 word list" where
  "block_deposits blk = concat (map tx_deposits (blk_transactions blk))"

definition block_withdrawals :: "contract_env \<Rightarrow> Block \<Rightarrow> 256 word list" where
  "block_withdrawals env blk = map (\<lambda>t. withdraw_key env (withdraw_data_of t)) (filter is_withdraw_tx (blk_transactions blk))"

definition open_deposit :: "nightfall_contract \<Rightarrow> 256 word \<Rightarrow> bool" where
  "open_deposit s k \<longleftrightarrow> dfs_escrowed (fee_binding s k) = 1 \<and> dfs_redeemed (fee_binding s k) = 0"

definition deposit_fees :: "nightfall_contract \<Rightarrow> 256 word list \<Rightarrow> nat" where
  "deposit_fees s ks = sum_list (map (\<lambda>k. unat (dfs_fee (fee_binding s k))) ks)"

definition redeemed :: "256 word list \<Rightarrow> 256 word list \<Rightarrow> nightfall_contract \<Rightarrow> nightfall_contract" where
  "redeemed ks ws s =
     s\<lparr>fee_binding := (\<lambda>k. if k \<in> set ks then (fee_binding s k)\<lparr>dfs_redeemed := 1\<rparr> else fee_binding s k),
       withdrawal_included := (\<lambda>k. if k \<in> set ws then 1 else withdrawal_included s k)\<rparr>"

lemma redeemed_Nil [simp]: "redeemed [] [] s = s"
  by (simp add: redeemed_def)

lemma redeemed_simps [simp]:
  "deposit_fees (redeemed ks ws s) js = deposit_fees s js"
  "open_deposit (redeemed ks ws s) k \<longleftrightarrow> open_deposit s k \<and> k \<notin> set ks"
  "withdrawal_included (redeemed ks ws s) = (\<lambda>k. if k \<in> set ws then 1 else withdrawal_included s k)"
  "redeemed js vs (redeemed ks ws s) = redeemed (ks @ js) (ws @ vs) s"
  "ether (redeemed ks ws s) = ether s" "layer2_block_number (redeemed ks ws s) = layer2_block_number s"
  by (auto simp: redeemed_def deposit_fees_def open_deposit_def fun_eq_iff intro!: arg_cong [where f = sum_list])

lemma deposit_fees_simps [simp]:
  "deposit_fees s [] = 0" "deposit_fees s (k # ks) = unat (dfs_fee (fee_binding s k)) + deposit_fees s ks"
  "deposit_fees s (ks @ js) = deposit_fees s ks + deposit_fees s js"
  by (simp_all add: deposit_fees_def)

lemma redeem_deposits_run:
  "redeem_deposits ks (f, s) =
     (let K = filter (\<lambda>k. k \<noteq> 0) ks in
      if distinct K \<and> (\<forall>k\<in>set K. open_deposit s k) \<and> unat f + deposit_fees s K < 2 ^ 256
      then Some (f + of_nat (deposit_fees s K), redeemed K [] s) else None)"
proof (induction ks arbitrary: f s)
  case (Cons k ks)
  let ?d = "fee_binding s k" and ?s = "redeemed [k] [] s" and ?K = "filter (\<lambda>k. k \<noteq> 0) ks"
  have upd: "s\<lparr>fee_binding := (fee_binding s)(k := ?d\<lparr>dfs_redeemed := 1\<rparr>)\<rparr> = ?s" by (simp add: redeemed_def fun_eq_iff)
  show ?case
  proof (cases "k = 0 \<or> \<not> unat f + unat (dfs_fee ?d) < 2 ^ 256 \<or> \<not> open_deposit s k")
    case True
    then show ?thesis using Cons.IH [of f s] by (auto simp: Let_def open_deposit_def)
  next
    case False
    then have sum: "unat (f + dfs_fee ?d) = unat f + unat (dfs_fee ?d)" by (simp add: unat_word_ariths)
    have "redeem_deposits (k # ks) (f, s) = redeem_deposits ks (f + dfs_fee ?d, ?s)"
      using False by (simp add: Let_def open_deposit_def upd)
    then show ?thesis using False unfolding Cons.IH by (auto simp: Let_def sum ac_simps)
  qed
qed (use unat_256 in simp)

lemma process_transactions_run:
  "process_transactions env txs (f, s) =
     (let D = concat (map tx_deposits txs); W = map (\<lambda>t. withdraw_key env (withdraw_data_of t)) (filter is_withdraw_tx txs) in
      if distinct D \<and> (\<forall>k\<in>set D. open_deposit s k) \<and> unat f + deposit_fees s D < 2 ^ 256 \<and>
         distinct W \<and> (\<forall>k\<in>set W. withdrawal_included s k = 0)
      then Some (f + of_nat (deposit_fees s D), redeemed D W s) else None)"
proof (induction txs arbitrary: f s)
  case (Cons t txs)
  let ?D = "tx_deposits t" and ?D' = "concat (map tx_deposits txs)" and ?k = "withdraw_key env (withdraw_data_of t)"
  have sum: "unat (f + of_nat n) = unat f + n" if "unat f + n < 2 ^ 256" for n
    using that by (simp add: unat_word_ariths unat_of_nat)
  have inc: "s\<lparr>withdrawal_included := (withdrawal_included s)(?k := 1)\<rparr> = redeemed [] [?k] s" by (simp add: redeemed_def fun_eq_iff)
  consider "is_deposit_tx t" | "is_withdraw_tx t" | "\<not> is_deposit_tx t" "\<not> is_withdraw_tx t" by blast
  then show ?case
  proof cases
    case 1
    then have nw: "\<not> is_withdraw_tx t" by (simp add: is_deposit_tx_def is_withdraw_tx_def)
    have "process_transaction env t (f, s) =
        (if distinct ?D \<and> (\<forall>k\<in>set ?D. open_deposit s k) \<and> unat f + deposit_fees s ?D < 2 ^ 256
         then Some (f + of_nat (deposit_fees s ?D), redeemed ?D [] s) else None)"
      using 1 unat_256 [of f] by (auto simp add: process_transaction_def redeem_deposits_run tx_deposits_def Let_def)
    then show ?thesis using nw Cons.IH [of "f + of_nat (deposit_fees s ?D)" "redeemed ?D [] s"]
      by (auto simp: Let_def sum ac_simps)
  next
    case 2
    then have nd: "\<not> is_deposit_tx t" by (simp add: is_deposit_tx_def is_withdraw_tx_def)
    then have "process_transactions env (t # txs) (f, s) =
        (if withdrawal_included s ?k \<noteq> 0 then None else process_transactions env txs (f, redeemed [] [?k] s))"
      using 2 by (simp add: process_transaction_def Let_def inc)
    moreover have "tx_deposits t = []" using nd by (simp add: tx_deposits_def)
    ultimately show ?thesis unfolding Cons.IH using 2 by (auto simp: Let_def image_iff)
  next
    case 3
    then show ?thesis using Cons.IH [of f s] by (simp add: Let_def process_transaction_def tx_deposits_def)
  qed
qed (use unat_256 in simp)


lemma contract_block_iff:
  assumes "verify_rollup_proof env s blk
      (transaction_root (contract_sha256_and_shift env) (map (hash_transaction env) (blk_transactions blk))) = Some (verified, fee_sum)"
  defines "D \<equiv> block_deposits blk" and "W \<equiv> block_withdrawals env blk"
  defines "paid \<equiv> unat fee_sum + deposit_fees s D"
  shows "contract_propose_block env ctx a blk s = Some (s', n) \<longleftrightarrow>
    msg_certified ctx \<and> msg_value ctx = 0 \<and> ba_current_proposer a = msg_sender ctx \<and> blk_transactions blk \<noteq> [] \<and> verified \<and>
    distinct D \<and> (\<forall>k\<in>set D. open_deposit s k) \<and> distinct W \<and> (\<forall>k\<in>set W. withdrawal_included s k = 0) \<and>
    paid < 2 ^ 256 \<and> paid \<le> ether s \<and> ba_takes_payment a \<and> layer2_block_number s \<noteq> 2 ^ 255 - 1 \<and>
    n = layer2_block_number s \<and>
    s' = (redeemed D W s)\<lparr>contract_roots := (blk_commitments_root blk, blk_nullifier_root blk, blk_commitments_root_root blk),
      ether := ether s - paid, layer2_block_number := layer2_block_number s + 1\<rparr>"
proof -
  have p: "unat fee_sum + deposit_fees s D = paid" by (simp add: paid_def)
  have run: "process_transactions env (blk_transactions blk) (fee_sum, s) =
      (if distinct D \<and> (\<forall>k\<in>set D. open_deposit s k) \<and> paid < 2 ^ 256 \<and> distinct W \<and> (\<forall>k\<in>set W. withdrawal_included s k = 0)
       then Some (fee_sum + of_nat (deposit_fees s D), redeemed D W s) else None)"
    unfolding process_transactions_run D_def [unfolded block_deposits_def, symmetric] W_def [unfolded block_withdrawals_def, symmetric]
      Let_def p ..
  show ?thesis
  proof (cases "paid < 2 ^ 256")
    case True
    then have sum: "unat (fee_sum + of_nat (deposit_fees s D)) = paid" by (simp add: unat_word_ariths unat_of_nat mod_simps p)
    show ?thesis unfolding contract_propose_block_def assms(1) run Let_def bind.bind_lunit prod.case using True
      by (auto simp: redeemed_def not_less sum)
  qed (simp add: contract_propose_block_def assms(1) run)
qed

text \<open>C10. The contract takes a block exactly when the current, certified proposer sends it without a payment, its proof verifies
  against the roots of the contract and the hash of its transactions, every deposit it redeems was escrowed, was never redeemed
  and is redeemed once in the block, no withdrawal is already waiting, and the fees fit and can be paid. Then exactly those
  deposits are redeemed and those withdrawals wait, the roots are those of the block, and the sum of the fee of the proof and
  of the fees of the deposits leaves the contract.\<close>

theorem contract_accepts_block:
  assumes "verify_rollup_proof env s blk
      (transaction_root (contract_sha256_and_shift env) (map (hash_transaction env) (blk_transactions blk))) = Some (verified, fee_sum)"
  defines "D \<equiv> block_deposits blk" and "W \<equiv> block_withdrawals env blk"
  defines "paid \<equiv> unat fee_sum + deposit_fees s D"
  shows "contract_propose_block env ctx a blk s = Some (s', n) \<longleftrightarrow>
    msg_certified ctx \<and> msg_value ctx = 0 \<and> ba_current_proposer a = msg_sender ctx \<and> blk_transactions blk \<noteq> [] \<and> verified \<and>
    distinct D \<and> (\<forall>k\<in>set D. open_deposit s k) \<and> distinct W \<and> (\<forall>k\<in>set W. withdrawal_included s k = 0) \<and>
    paid < 2 ^ 256 \<and> paid \<le> ether s \<and> ba_takes_payment a \<and> layer2_block_number s \<noteq> 2 ^ 255 - 1 \<and>
    n = layer2_block_number s \<and>
    s' = (redeemed D W s)\<lparr>contract_roots := (blk_commitments_root blk, blk_nullifier_root blk, blk_commitments_root_root blk),
      ether := ether s - paid, layer2_block_number := layer2_block_number s + 1\<rparr>"
  unfolding D_def W_def paid_def by (rule contract_block_iff [OF assms(1)])

section \<open>Each deposit once\<close>

definition spent_deposit :: "nightfall_contract \<Rightarrow> 256 word \<Rightarrow> bool" where
  "spent_deposit s k \<longleftrightarrow> dfs_escrowed (fee_binding s k) = 1 \<and> dfs_redeemed (fee_binding s k) = 1"

lemma bind_deposit_spent: "bind_deposit key f s = Some s' \<Longrightarrow> spent_deposit s k \<Longrightarrow> spent_deposit s' k"
  by (auto simp: bind_deposit_def spent_deposit_def split: if_splits)

text \<open>The state when the deposits are bound, and the identifier of the token.\<close>

definition token_of :: "contract_env \<Rightarrow> escrow_call \<Rightarrow> 256 word" where
  "token_of env c = contract_sha256_and_shift env [abi_address (es_erc_address c), es_token_id c]"

definition entered :: "contract_env \<Rightarrow> call_context \<Rightarrow> escrow_calldata \<Rightarrow> nightfall_contract \<Rightarrow> nightfall_contract" where
  "entered env ctx c s = s\<lparr>ether := ether s + unat (msg_value ctx),
     token_id_mapping := (token_id_mapping s)(token_of env (escrow_call.truncate c) := (es_erc_address c, es_token_id c))\<rparr>"

lemma token_of_truncate: "token_of env (escrow_call.truncate c) = contract_sha256_and_shift env [abi_address (es_erc_address c), es_token_id c]"
  by (simp add: token_of_def escrow_call.truncate_def)

lemma escrow_cases:
  assumes "contract_escrow_funds env ctx a c s = Some (s', evs)"
  obtains slot s1 where "escrow_slot env a c (token_of env (escrow_call.truncate c)) = Some slot"
    "bind_deposit (deposit_key env (token_of env (escrow_call.truncate c)) slot (es_value c) (es_secret_hash c)) (es_fee c) (entered env ctx c s) = Some s1"
    "unat (msg_value ctx) \<le> 2 * unat (es_fee c) \<and> s' = s1 \<and> evs = [\<lparr>de_nf_slot_id = slot, de_value = es_value c\<rparr>] \<or>
     2 * unat (es_fee c) < unat (msg_value ctx) \<and>
       bind_deposit (deposit_key env (fee_id env) (fee_id env) (msg_value ctx - 2 * es_fee c) (es_secret_hash c)) (es_fee c) s1 = Some s' \<and>
       evs = [\<lparr>de_nf_slot_id = slot, de_value = es_value c\<rparr>, \<lparr>de_nf_slot_id = fee_id env, de_value = msg_value ctx - 2 * es_fee c\<rparr>]"
proof -
  from assms have c: "msg_certified ctx" by (simp add: contract_escrow_funds_def split: if_splits)
  from assms obtain slot s1 where "escrow_slot env a c (token_of env (escrow_call.truncate c)) = Some slot"
    "bind_deposit (deposit_key env (token_of env (escrow_call.truncate c)) slot (es_value c) (es_secret_hash c)) (es_fee c) (entered env ctx c s) = Some s1"
    "(if 2 * unat (es_fee c) \<ge> 2 ^ 256 then None
      else if unat (msg_value ctx) > 2 * unat (es_fee c) then
        map_option (\<lambda>s. (s, [\<lparr>de_nf_slot_id = slot, de_value = es_value c\<rparr>, \<lparr>de_nf_slot_id = fee_id env, de_value = msg_value ctx - 2 * es_fee c\<rparr>]))
          (bind_deposit (deposit_key env (fee_id env) (fee_id env) (msg_value ctx - 2 * es_fee c) (es_secret_hash c)) (es_fee c) s1)
      else Some (s1, [\<lparr>de_nf_slot_id = slot, de_value = es_value c\<rparr>])) = Some (s', evs)"
    unfolding contract_escrow_funds_def if_not_P [of "\<not> msg_certified ctx", unfolded not_not, OF c] Let_def token_of_truncate entered_def
    by (auto simp: bind_eq_Some_conv if_split_eq2 split del: if_split split: if_split_asm)
  then show thesis using that by (auto split: if_splits)
qed

lemma escrow_spent:
  assumes "contract_escrow_funds env ctx a c s = Some (s', evs)" "spent_deposit s k"
  shows "spent_deposit s' k"
proof -
  have e: "spent_deposit (entered env ctx c s) k" using assms(2) by (simp add: spent_deposit_def entered_def)
  show ?thesis by (rule escrow_cases [OF assms(1)]) (use e bind_deposit_spent in blast)
qed

lemma descrow_spent: "contract_descrow_funds env ctx a d ty s = Some s' \<Longrightarrow> fee_binding s' = fee_binding s"
  by (auto simp: contract_descrow_funds_def Let_def split: if_splits prod.splits TokenType.splits sum.splits)

lemma propose_block_spent:
  assumes "contract_propose_block env ctx a blk s = Some (s', n)"
  shows "distinct (block_deposits blk)" "\<forall>k\<in>set (block_deposits blk). \<not> spent_deposit s k \<and> spent_deposit s' k"
    "spent_deposit s k \<Longrightarrow> spent_deposit s' k"
proof -
  obtain verified fee_sum where v: "verify_rollup_proof env s blk
      (transaction_root (contract_sha256_and_shift env) (map (hash_transaction env) (blk_transactions blk))) = Some (verified, fee_sum)"
    using assms by (auto simp: contract_propose_block_def bind_eq_Some_conv split: if_splits)
  note A = iffD1 [OF contract_block_iff [OF v, of ctx a s' n] assms]
  show "distinct (block_deposits blk)" "\<forall>k\<in>set (block_deposits blk). \<not> spent_deposit s k \<and> spent_deposit s' k"
    "spent_deposit s k \<Longrightarrow> spent_deposit s' k"
    using A by (auto simp: spent_deposit_def open_deposit_def redeemed_def)
qed

lemma contract_exec_spent:
  assumes "contract_exec env c s = (s', bs)"
  shows "distinct (concat (map block_deposits bs)) \<and> (\<forall>k\<in>set (concat (map block_deposits bs)). \<not> spent_deposit s k \<and> spent_deposit s' k) \<and>
    (\<forall>k. spent_deposit s k \<longrightarrow> spent_deposit s' k)"
proof (cases c)
  case (CallEscrow ctx a c')
  then show ?thesis using assms escrow_spent by (auto split: option.splits)
next
  case (CallPropose ctx a blk)
  show ?thesis
  proof (cases "contract_propose_block env ctx a blk s")
    case None
    then show ?thesis using assms CallPropose by simp
  next
    case (Some r)
    obtain t n where r: "r = (t, n)" by (cases r)
    have "s' = t" "bs = [blk]" using assms CallPropose Some r by simp_all
    then show ?thesis using propose_block_spent [OF Some [unfolded r]] by simp
  qed
next
  case (CallDescrow ctx a d ty)
  then show ?thesis using assms descrow_spent by (auto simp: spent_deposit_def split: option.splits)
qed

lemma contract_run_spent:
  "contract_run env cs s = (s', bs) \<Longrightarrow>
   distinct (concat (map block_deposits bs)) \<and> (\<forall>k\<in>set (concat (map block_deposits bs)). \<not> spent_deposit s k \<and> spent_deposit s' k) \<and>
   (\<forall>k. spent_deposit s k \<longrightarrow> spent_deposit s' k)"
proof (induction cs arbitrary: s bs)
  case (Cons c cs)
  obtain t as bs' where e: "contract_exec env c s = (t, as)" "contract_run env cs t = (s', bs')" "bs = as @ bs'"
    using Cons.prems by (auto split: prod.splits)
  from contract_exec_spent [OF e(1)] Cons.IH [OF e(2)] show ?case unfolding e(3) by (auto simp del: set_concat) 
qed simp

text \<open>C11. No deposit is redeemed twice: over any sequence of calls of the contract, whoever makes them, the deposits of all blocks
  that it takes are distinct and were escrowed, and each has been redeemed.\<close>

theorem deposits_redeemed_once:
  assumes "contract_run env cs (contract_initialize env nr cr hr n) = (s, bs)"
  shows "distinct (concat (map block_deposits bs)) \<and>
    (\<forall>k\<in>set (concat (map block_deposits bs)). dfs_escrowed (fee_binding s k) = 1 \<and> dfs_redeemed (fee_binding s k) = 1)"
  using contract_run_spent [OF assms] unfolding spent_deposit_def by blast

section \<open>What the contract does not check\<close>

lemma bind_deposit_bound:
  assumes "bind_deposit key f s = Some s'"
  shows "fee_binding s' key = \<lparr>dfs_fee = f, dfs_escrowed = 1, dfs_redeemed = 0\<rparr>" "ether s' = ether s"
    "dfs_escrowed (fee_binding s k) \<noteq> 0 \<Longrightarrow> fee_binding s' k = fee_binding s k"
  using assms by (auto simp: bind_deposit_def split: if_splits)

lemma escrow_run:
  assumes "contract_escrow_funds env ctx a c s = Some (s', evs)"
  shows "ether s' = ether s + unat (msg_value ctx)"
    "es_token_type c \<noteq> ERC3525 \<Longrightarrow> fee_binding s' (deposit_key env (token_of env (escrow_call.truncate c)) (token_of env (escrow_call.truncate c)) (es_value c) (es_secret_hash c)) =
       \<lparr>dfs_fee = es_fee c, dfs_escrowed = 1, dfs_redeemed = 0\<rparr>"
proof -
  obtain slot s1 where s: "escrow_slot env a c (token_of env (escrow_call.truncate c)) = Some slot"
    "bind_deposit (deposit_key env (token_of env (escrow_call.truncate c)) slot (es_value c) (es_secret_hash c)) (es_fee c) (entered env ctx c s) = Some s1"
    "s' = s1 \<or> (\<exists>key. bind_deposit key (es_fee c) s1 = Some s')"
    by (rule escrow_cases [OF assms], rule that) blast+
  have e: "ether (entered env ctx c s) = ether s + unat (msg_value ctx)" by (simp add: entered_def)
  show "ether s' = ether s + unat (msg_value ctx)" using s(3) bind_deposit_bound(2) [OF s(2)] bind_deposit_bound(2) e by metis
  assume "es_token_type c \<noteq> ERC3525"
  then have "slot = token_of env (escrow_call.truncate c)" using s(1) by (simp add: escrow_slot_def)
  with bind_deposit_bound(1) [OF s(2)] s(3) bind_deposit_bound(3) show "fee_binding s' (deposit_key env (token_of env (escrow_call.truncate c))
      (token_of env (escrow_call.truncate c)) (es_value c) (es_secret_hash c)) = \<lparr>dfs_fee = es_fee c, dfs_escrowed = 1, dfs_redeemed = 0\<rparr>"
    by (metis DepositFeeState.select_convs(2) zero_neq_one)
qed

text \<open>C25. The contract does not look whether the fee of a deposit was paid: an escrow that sends no ether at all binds any fee, and a
  block that redeems the deposit pays that fee to the proposer, out of what others have paid.\<close>

theorem unpaid_fee_is_paid_out:
  assumes "msg_value ctx = 0" "contract_escrow_funds env ctx a c s = Some (s', evs)" "es_token_type c \<noteq> ERC3525"
    "contract_propose_block env ctx' a' blk s' = Some (s'', n)"
  defines "nf_token_id \<equiv> contract_sha256_and_shift env [abi_address (es_erc_address c), es_token_id c]"
  assumes "deposit_key env nf_token_id nf_token_id (es_value c) (es_secret_hash c) \<in> set (block_deposits blk)"
  shows "ether s' = ether s \<and> ether s'' + unat (es_fee c) \<le> ether s"
proof -
  let ?k = "deposit_key env nf_token_id nf_token_id (es_value c) (es_secret_hash c)"
  obtain verified fee_sum where v: "verify_rollup_proof env s' blk
      (transaction_root (contract_sha256_and_shift env) (map (hash_transaction env) (blk_transactions blk))) = Some (verified, fee_sum)"
    using assms(4) by (auto simp: contract_propose_block_def bind_eq_Some_conv split: if_splits)
  note A = iffD1 [OF contract_block_iff [OF v, of ctx' a' s'' n] assms(4)]
  have e: "ether s' = ether s" "dfs_fee (fee_binding s' ?k) = es_fee c"
    using escrow_run [OF assms(2)] assms(1,3) by (simp_all add: nf_token_id_def token_of_truncate)
  have "unat (es_fee c) \<le> deposit_fees s' (block_deposits blk)"
    unfolding deposit_fees_def e(2) [symmetric] by (rule member_le_sum_list) (use assms(6) in simp_all)
  then show ?thesis using A e(1) by simp
qed

text \<open>The call that withdraws the same native funds again and again.\<close>

definition withdraw_again :: "contract_env \<Rightarrow> call_context \<Rightarrow> ContractWithdrawData \<Rightarrow> TokenType \<Rightarrow> nat \<Rightarrow> contract_call list" where
  "withdraw_again env ctx d ty k = replicate k (CallDescrow ctx (Inr True) d ty)"

text \<open>A withdrawal of a token without a contract address is paid in ether and stays open: the same call pays it again, as long as the
  contract has ether. (The other withdrawals are closed before the transfer.)\<close>

theorem native_withdrawal_repeats:
  assumes "msg_certified ctx" "msg_value ctx = 0" "withdraw_processed env d s" "fst (token_id_mapping s (cwd_nf_token_id d)) = 0"
    "k * unat (cwd_value d) \<le> ether s"
  shows "fst (contract_run env (withdraw_again env ctx d ty k) s) = s\<lparr>ether := ether s - k * unat (cwd_value d)\<rparr>"
  using assms(3-5) unfolding withdraw_again_def
proof (induction k arbitrary: s)
  case (Suc k)
  let ?s = "s\<lparr>ether := ether s - unat (cwd_value d)\<rparr>"
  have "contract_descrow_funds env ctx (Inr True) d ty s = Some ?s"
    using Suc.prems assms(1,2) by (cases "token_id_mapping s (cwd_nf_token_id d)")
      (simp add: contract_descrow_funds_def Let_def withdraw_processed_def)
  moreover have "fst (contract_run env (replicate k (CallDescrow ctx (Inr True) d ty)) ?s) = ?s\<lparr>ether := ether ?s - k * unat (cwd_value d)\<rparr>"
    using Suc.prems by (intro Suc.IH) (simp_all add: withdraw_processed_def)
  ultimately show ?case by (simp add: case_prod_beta)
qed simp

text \<open>A withdrawal of an ERC3525 token succeeds and does nothing: it stays open and the token stays where it is.\<close>

theorem erc3525_is_not_withdrawn:
  assumes "msg_certified ctx" "msg_value ctx = 0" "withdraw_processed env d s" "fst (token_id_mapping s (cwd_nf_token_id d)) \<noteq> 0"
  shows "contract_descrow_funds env ctx answer d ERC3525 s = Some s"
  using assms by (cases "token_id_mapping s (cwd_nf_token_id d)")
    (simp add: contract_descrow_funds_def Let_def withdraw_processed_def)

section \<open>Witnesses\<close>

definition contract_env_ex :: contract_env where
  "contract_env_ex = \<lparr>ne_sha256 = (\<lambda>_. [16]), ne_keccak = (\<lambda>_. [80]), ne_address = 4, ne_verifier = (\<lambda>_ _ _. True)\<rparr>"

definition call_ex :: call_context where
  "call_ex = \<lparr>msg_sender = 9, msg_value = 0, msg_certified = True\<rparr>"

definition escrow_ex :: escrow_calldata where
  "escrow_ex = \<lparr>es_fee = 3, es_erc_address = 7, es_token_id = 0, es_secret_hash = 1, es_value = 2, es_token_type = ERC20\<rparr>"

definition escrow_answers_ex :: escrow_answers where
  "escrow_answers_ex = \<lparr>ea_slot = None, ea_transfer = True\<rparr>"

definition block_answers_ex :: block_answers where
  "block_answers_ex = \<lparr>ba_current_proposer = 9, ba_takes_payment = True\<rparr>"

definition redeeming_block :: Block where
  "redeeming_block = \<lparr>blk_commitments_root = 1, blk_nullifier_root = 2, blk_commitments_root_root = 3,
     blk_transactions = [\<lparr>ctx_fee = 0, ctx_commitments = [1, 0, 0, 0], ctx_nullifiers = [0, 0, 0, 0], ctx_public_data = [1, 0, 0, 0]\<rparr>],
     blk_rollup_proof = replicate 288 0\<rparr>"

definition contract_ex :: nightfall_contract where
  "contract_ex = (contract_initialize contract_env_ex 0 0 0 0)\<lparr>ether := 10\<rparr>"

definition escrowed_ex :: nightfall_contract where
  "escrowed_ex = contract_ex\<lparr>fee_binding := (fee_binding contract_ex)(1 := \<lparr>dfs_fee = 3, dfs_escrowed = 1, dfs_redeemed = 0\<rparr>),
     token_id_mapping := (token_id_mapping contract_ex)(1 := (7, 0))\<rparr>"

lemma contract_hashes [simp]:
  "contract_sha256_and_shift contract_env_ex us = 1" "contract_keccak_and_shift contract_env_ex us = 5" "withdraw_key contract_env_ex d = 80"
  by (simp_all add: contract_sha256_and_shift_def contract_keccak_and_shift_def withdraw_key_def contract_env_ex_def bytes32_def be_value_def)

lemma zero_word: "proof_word (replicate 288 0) 0 = 0"
proof -
  have "le_value (replicate k 0) = 0" for k by (induction k) simp_all
  then show ?thesis by (simp add: proof_word_def bytes32_def be_value_def)
qed

lemma redeeming_block_deposits: "block_deposits redeeming_block = [1]" "block_withdrawals contract_env_ex redeeming_block = []"
  by (simp_all add: block_deposits_def block_withdrawals_def redeeming_block_def tx_deposits_def is_deposit_tx_def is_withdraw_tx_def)

lemma zero_proof_verifies:
  assumes "blk_rollup_proof blk = replicate 288 0"
  shows "verify_rollup_proof contract_env_ex s blk h = Some (True, 0)"
  by (simp add: verify_rollup_proof_def case_prod_beta Let_def assms zero_word) (simp add: contract_env_ex_def)

lemma redeeming_block_verifies: "verify_rollup_proof contract_env_ex s redeeming_block h = Some (True, 0)"
  by (rule zero_proof_verifies) (simp only: redeeming_block_def Block.select_convs)

lemma escrow_ex_run: "contract_escrow_funds contract_env_ex call_ex escrow_answers_ex escrow_ex contract_ex =
    Some (escrowed_ex, [\<lparr>de_nf_slot_id = 1, de_value = 2\<rparr>])"
  by (simp add: contract_escrow_funds_def call_ex_def escrow_slot_def escrow_ex_def token_taken_def escrow_answers_ex_def bind_deposit_def
      deposit_key_def contract_ex_def escrowed_ex_def contract_initialize_def)

theorem contract_accepts_block_witness:
  "\<exists>s'. contract_propose_block contract_env_ex call_ex block_answers_ex redeeming_block escrowed_ex = Some (s', 0) \<and>
     ether s' = 7 \<and> dfs_redeemed (fee_binding s' 1) = 1 \<and> contract_roots s' = (1, 2, 3)"
proof -
  note A = iffD2 [OF contract_accepts_block [OF redeeming_block_verifies, unfolded redeeming_block_deposits]]
  have "contract_propose_block contract_env_ex call_ex block_answers_ex redeeming_block escrowed_ex =
      Some ((redeemed [1] [] escrowed_ex)\<lparr>contract_roots := (1, 2, 3), ether := 7, layer2_block_number := 1\<rparr>, 0)"
    by (rule A) (simp add: call_ex_def block_answers_ex_def redeeming_block_def open_deposit_def escrowed_ex_def deposit_fees_def contract_ex_def
        contract_initialize_def)
  then show ?thesis by (simp add: redeemed_def)
qed

theorem deposits_redeemed_once_witness:
  "distinct (concat (map block_deposits (snd (contract_run contract_env_ex
     [CallEscrow (call_ex\<lparr>msg_value := 3\<rparr>) escrow_answers_ex escrow_ex, CallPropose call_ex block_answers_ex redeeming_block,
      CallPropose call_ex block_answers_ex redeeming_block] (contract_initialize contract_env_ex 0 0 0 0)))))"
  using deposits_redeemed_once [OF surjective_pairing] by blast

lemma redeeming_block_run:
  "\<exists>s'. contract_propose_block contract_env_ex call_ex block_answers_ex redeeming_block escrowed_ex = Some (s', 0)"
  using redeeming_block_verifies [of escrowed_ex]
  by (simp add: contract_propose_block_def call_ex_def block_answers_ex_def process_transactions_run redeeming_block_deposits [unfolded block_deposits_def block_withdrawals_def])
    (simp add: redeeming_block_def open_deposit_def escrowed_ex_def deposit_fees_def contract_ex_def contract_initialize_def redeemed_def)

theorem unpaid_fee_is_paid_out_witness:
  "\<exists>s'. contract_propose_block contract_env_ex call_ex block_answers_ex redeeming_block escrowed_ex = Some (s', 0) \<and> ether s' + 3 \<le> ether contract_ex"
proof -
  obtain s' where s': "contract_propose_block contract_env_ex call_ex block_answers_ex redeeming_block escrowed_ex = Some (s', 0)"
    using redeeming_block_run by blast
  have "msg_value call_ex = 0" "es_token_type escrow_ex \<noteq> ERC3525" by (simp_all add: call_ex_def escrow_ex_def)
  from unpaid_fee_is_paid_out [OF this(1) escrow_ex_run this(2) s'] show ?thesis
    using s' by (simp add: redeeming_block_deposits deposit_key_def escrow_ex_def)
qed

definition withdrawal_ex :: ContractWithdrawData where
  "withdrawal_ex = \<lparr>cwd_nf_token_id = 1, cwd_recipient_address = 3, cwd_value = 2, cwd_withdraw_fund_salt = 6\<rparr>"

theorem native_withdrawal_repeats_witness:
  "ether (fst (contract_run contract_env_ex (withdraw_again contract_env_ex call_ex withdrawal_ex ERC20 5) (contract_ex\<lparr>withdrawal_included := \<lambda>_. 1\<rparr>))) = 0"
  by (subst native_withdrawal_repeats) (simp_all add: call_ex_def withdraw_processed_def contract_ex_def contract_initialize_def withdrawal_ex_def fee_id_def)

theorem erc3525_is_not_withdrawn_witness:
  "contract_descrow_funds contract_env_ex call_ex (Inr True) withdrawal_ex ERC3525 (escrowed_ex\<lparr>withdrawal_included := \<lambda>_. 1\<rparr>) =
     Some (escrowed_ex\<lparr>withdrawal_included := \<lambda>_. 1\<rparr>)"
  by (rule erc3525_is_not_withdrawn) (simp_all add: call_ex_def withdraw_processed_def escrowed_ex_def withdrawal_ex_def)

end
