(* ===== verification/Client_Contract.thy ===== *)
theory Client_Contract
  imports Nightfall_Contract Client_Handlers
begin

text \<open>
  The client's calls of the contracts: \<open>nightfall_client/src/driven/contract_functions/nightfall_contract.rs\<close> and
  \<open>token_contracts.rs\<close>, and the request \<open>de-escrow\<close> of \<open>drivers/rest/withdraw.rs\<close>. The answers of the chain are parameters;
  a call is passed to them as the data and the value that it sends. The texts of the errors of the provider are given.
\<close>

section \<open>Errors\<close>

datatype nightfall_contract_error =
    ContractClientError string | ContractConversionError conversion_error | ContractTransactionError | EscrowError string
  | ContractPoseidonError | ContractBlockNotFound nat | ContractProviderError string | MissingTransactionHash string
  | TransactionNotFound string | AbiDecodeError string | DecodedCallError string

datatype token_contract_error =
    TokenProviderError string | TokenConversionError conversion_error | TokenTransactionError | TokenTypeError string

text \<open>A transaction is not sent (reverted or for another reason), sent without a receipt, or in a block.\<close>

datatype send_answer = Reverted string | SendFails string | NoReceipt string | Receipt

definition send_text :: "send_answer \<Rightarrow> string" where
  "send_text a = (case a of Reverted e \<Rightarrow> ''Revert when calling escrow: '' @ e | SendFails e \<Rightarrow> ''Contract error: '' @ e | _ \<Rightarrow> [])"

section \<open>Approvals\<close>

datatype approval =
    Erc20Approve "160 word" "160 word" "256 word"
  | Erc721Approve "160 word" "160 word" "256 word"
  | Erc1155SetApprovalForAll "160 word" "160 word" bool
  | Erc3525Approve "160 word" "160 word" "256 word"

definition send_approval :: "(approval \<Rightarrow> send_answer) \<Rightarrow> approval \<Rightarrow> token_contract_error failure + unit" where
  "send_approval approve call =
     (case approve call of
        Reverted e \<Rightarrow> Inl (Fails (TokenProviderError (''Contract error: '' @ e)))
      | SendFails e \<Rightarrow> Inl (Fails (TokenProviderError (''Contract error: '' @ e)))
      | NoReceipt _ \<Rightarrow> Inl (Fails (TokenProviderError ''Failed to get transaction receipt''))
      | Receipt \<Rightarrow> Inr ())"

definition token_address :: "fr254 \<Rightarrow> token_contract_error failure + 160 word" where
  "token_address erc_address = map_sum (\<lambda>e. Fails (TokenConversionError e)) id (addr_try_from erc_address)"

definition set_approval_erc20 ::
    "160 word \<Rightarrow> (approval \<Rightarrow> send_answer) \<Rightarrow> fr254 \<Rightarrow> fr254 \<Rightarrow> 256 word \<Rightarrow> token_contract_error failure + unit" where
  "set_approval_erc20 nightfall approve erc_address value token_id =
     (if token_id \<noteq> 0 then Inl (Fails (TokenTypeError ''ERC20 approvals should have a token ID of 0''))
      else bindS (token_address erc_address) (\<lambda>a.
           bindS (okS Panics (uint256_from_fr value)) (\<lambda>v. send_approval approve (Erc20Approve a nightfall v))))"

definition set_approval_erc721 ::
    "160 word \<Rightarrow> (approval \<Rightarrow> send_answer) \<Rightarrow> fr254 \<Rightarrow> fr254 \<Rightarrow> 256 word \<Rightarrow> token_contract_error failure + unit" where
  "set_approval_erc721 nightfall approve erc_address value token_id =
     (if value \<noteq> 0 then Inl (Fails (TokenTypeError ''ERC721 approvals should have a value of 0''))
      else bindS (token_address erc_address) (\<lambda>a.
           bindS (okS Panics (uint256_from_bigint token_id)) (\<lambda>t. send_approval approve (Erc721Approve a nightfall t))))"

definition set_approval_erc1155 ::
    "160 word \<Rightarrow> (approval \<Rightarrow> send_answer) \<Rightarrow> fr254 \<Rightarrow> fr254 \<Rightarrow> 256 word \<Rightarrow> token_contract_error failure + unit" where
  "set_approval_erc1155 nightfall approve erc_address value token_id =
     (if value = 0 \<and> token_id = 0
      then Inl (Fails (TokenTypeError ''ERC1155 approvals should have one of value or token ID non-zero''))
      else bindS (token_address erc_address) (\<lambda>a. send_approval approve (Erc1155SetApprovalForAll a nightfall True)))"

definition set_approval_erc3525 ::
    "160 word \<Rightarrow> (approval \<Rightarrow> send_answer) \<Rightarrow> fr254 \<Rightarrow> fr254 \<Rightarrow> 256 word \<Rightarrow> token_contract_error failure + unit" where
  "set_approval_erc3525 nightfall approve erc_address value token_id =
     bindS (token_address erc_address) (\<lambda>a.
     bindS (okS Panics (uint256_from_bigint token_id)) (\<lambda>t. send_approval approve (Erc3525Approve a nightfall t)))"

text \<open>The deposit handler calls the one of the type of the token.\<close>

definition set_approval ::
    "160 word \<Rightarrow> (approval \<Rightarrow> send_answer) \<Rightarrow> TokenType \<Rightarrow> fr254 \<Rightarrow> fr254 \<Rightarrow> 256 word \<Rightarrow> token_contract_error failure + unit" where
  "set_approval nightfall approve token_type =
     (case token_type of
        ERC20 \<Rightarrow> set_approval_erc20 nightfall approve
      | ERC1155 \<Rightarrow> set_approval_erc1155 nightfall approve
      | ERC721 \<Rightarrow> set_approval_erc721 nightfall approve
      | ERC3525 \<Rightarrow> set_approval_erc3525 nightfall approve)"

section \<open>Escrow\<close>

record contract_client =
  cc_poseidon :: poseidon
  cc_sha256 :: "byte list \<Rightarrow> byte list"
  cc_keccak :: "byte list \<Rightarrow> byte list"
  cc_nightfall :: "160 word"

definition total_fee :: "fr254 \<Rightarrow> fr254 \<Rightarrow> fr254" where
  "total_fee fee deposit_fee = (if deposit_fee = 0 then fee else fee + fee + deposit_fee)"

definition nf_slot_id_from :: "contract_client \<Rightarrow> 160 word \<Rightarrow> 256 word \<Rightarrow> fr254" where
  "nf_slot_id_from env erc_token slot_id = fr (drop_bit 4 (be_value (cc_keccak env (abi_words [abi_address erc_token, slot_id]))))"

text \<open>\<open>send\<close> gets the call and the value that is sent with it, \<open>slot_of\<close> answers for the contract of an ERC3525 token. When the
  transaction is not sent, the client panics.\<close>

definition escrow_funds ::
    "contract_client \<Rightarrow> (escrow_calldata \<Rightarrow> 256 word \<Rightarrow> send_answer) \<Rightarrow> (160 word \<Rightarrow> 256 word \<Rightarrow> 256 word option) \<Rightarrow>
     fr254 \<Rightarrow> fr254 \<Rightarrow> 256 word \<Rightarrow> fr254 \<Rightarrow> fr254 \<Rightarrow> DepositSecret \<Rightarrow> TokenType \<Rightarrow> nightfall_contract_error failure + fr254 \<times> fr254" where
  "escrow_funds env send slot_of token_erc_address value token_id fee deposit_fee secret_preimage token_type =
     bindS (okS Panics (uint256_from_fr fee)) (\<lambda>solidity_fee.
     bindS (map_sum (\<lambda>e. Fails (ContractConversionError e)) id (addr_try_from token_erc_address)) (\<lambda>solidity_token_address.
     bindS (okS Panics (uint256_from_fr value)) (\<lambda>solidity_value.
     bindS (okS Panics (uint256_from_bigint token_id)) (\<lambda>solidity_token_id.
     bindS (map_sum (\<lambda>_. Fails ContractPoseidonError) id (deposit_secret_hash (cc_poseidon env) secret_preimage)) (\<lambda>secret_hash.
     bindS (okS Panics (uint256_from_fr secret_hash)) (\<lambda>solidity_secret_hash.
     bindS (okS Panics (uint256_from_fr (total_fee fee deposit_fee))) (\<lambda>sent.
     (let call = \<lparr>es_fee = solidity_fee, es_erc_address = solidity_token_address, es_token_id = solidity_token_id,
            es_secret_hash = solidity_secret_hash, es_value = solidity_value, es_token_type = token_type\<rparr>
      in bindS (case send call sent of
           Receipt \<Rightarrow> Inr ()
         | NoReceipt e \<Rightarrow> Inl (Fails (EscrowError (''Transaction unsuccesful: '' @ e)))
         | _ \<Rightarrow> Inl Panics) (\<lambda>_.
         bindS (if token_type = ERC3525
                then okS (Fails (EscrowError ''Could not retrieve ERC3525 slot'')) (slot_of solidity_token_address solidity_token_id)
                else Inr solidity_token_id) (\<lambda>slot_id.
         (let nf_token_id = to_nf_token_id_from_solidity (cc_sha256 env) solidity_token_address solidity_token_id
          in if slot_id = solidity_token_id then Inr (nf_token_id, nf_token_id)
             else Inr (nf_token_id, nf_slot_id_from env solidity_token_address slot_id))))))))))))"

definition get_fee_token_id :: "contract_client \<Rightarrow> fr254" where
  "get_fee_token_id env = fr (drop_bit 4 (be_value (cc_keccak env (abi_words [abi_address (cc_nightfall env), 0]))))"

definition get_address :: "contract_client \<Rightarrow> fr254 option" where
  "get_address env = frbn_from_address (cc_nightfall env)"

section \<open>De-escrow\<close>

definition de_escrow_funds ::
    "(ContractWithdrawData \<Rightarrow> TokenType \<Rightarrow> send_answer) \<Rightarrow> WithdrawData \<Rightarrow> TokenType \<Rightarrow> nightfall_contract_error failure + unit" where
  "de_escrow_funds send withdraw_data token_type =
     bindS (okS Panics (contract_withdraw_data withdraw_data)) (\<lambda>decode_data.
     (let answer = send decode_data token_type in
      case answer of
        Receipt \<Rightarrow> Inr ()
      | NoReceipt e \<Rightarrow> Inl (Fails (EscrowError (''Transaction unsuccesful: '' @ e)))
      | _ \<Rightarrow> Inl (Fails (EscrowError (''Error getting receipt: '' @ send_text answer)))))"

definition withdraw_available ::
    "(ContractWithdrawData \<Rightarrow> string + bool) \<Rightarrow> WithdrawData \<Rightarrow> nightfall_contract_error failure + bool" where
  "withdraw_available processed withdraw_data =
     bindS (okS Panics (contract_withdraw_data withdraw_data)) (\<lambda>decode_data.
     map_sum (\<lambda>e. Fails (EscrowError e)) id (processed decode_data))"

record DeEscrowDataReq =
  de_token_id :: string
  de_erc_address :: string
  de_recipient_address :: string
  de_req_value :: string
  de_token_type :: string
  de_withdraw_fund_salt :: string

definition withdraw_data_from_req ::
    "(string \<Rightarrow> byte list option) \<Rightarrow> (byte list \<Rightarrow> byte list) \<Rightarrow> DeEscrowDataReq \<Rightarrow> string + WithdrawData" where
  "withdraw_data_from_req dec sha256 req =
     bindS (map_sum (\<lambda>_. ''Failed to convert erc address and token id to Nightfall equivalent'') id
       (to_nf_token_id_from_str dec sha256 (de_erc_address req) (de_token_id req))) (\<lambda>nf_token_id.
     bindS (map_sum (\<lambda>_. ''Withdraw address failed to convert'') id (fr_from_hex_string dec (de_recipient_address req))) (\<lambda>withdraw_address.
     bindS (map_sum (\<lambda>_. ''Withdraw value failed to convert'') id (fr_from_hex_string dec (de_req_value req))) (\<lambda>value.
     bindS (map_sum (\<lambda>_. ''Withdraw withdraw_fund_salt failed to convert'') id (fr_from_hex_string dec (de_withdraw_fund_salt req))) (\<lambda>salt.
     Inr \<lparr>wd_nf_token_id = nf_token_id, wd_withdraw_address = withdraw_address, wd_value = value, wd_withdraw_fund_salt = salt\<rparr>))))"

text \<open>The request: every failure is the same rejection.\<close>

definition handle_de_escrow ::
    "(string \<Rightarrow> byte list option) \<Rightarrow> (byte list \<Rightarrow> byte list) \<Rightarrow> (ContractWithdrawData \<Rightarrow> string + bool) \<Rightarrow>
     (ContractWithdrawData \<Rightarrow> TokenType \<Rightarrow> send_answer) \<Rightarrow> DeEscrowDataReq \<Rightarrow> unit failure + string" where
  "handle_de_escrow dec sha256 processed send data =
     bindS (map_sum (\<lambda>_. Fails ()) token_type_from_u8 (u8_from_hex (de_token_type data))) (\<lambda>token_type.
     bindS (map_sum (\<lambda>_. Fails ()) id (withdraw_data_from_req dec sha256 data)) (\<lambda>withdraw_data.
     (case withdraw_available processed withdraw_data of
        Inl Panics \<Rightarrow> Inl Panics
      | Inl (Fails _) \<Rightarrow> Inl (Fails ())
      | Inr False \<Rightarrow> Inl (Fails ())
      | Inr True \<Rightarrow> map_sum (map_failure (\<lambda>_. ())) (\<lambda>_. ''OK'') (de_escrow_funds send withdraw_data token_type))))"

section \<open>Queries\<close>

record TokenData =
  td_erc_address :: fr254
  td_token_id :: "256 word"

definition get_token_info ::
    "(256 word \<Rightarrow> string + 160 word \<times> 256 word) \<Rightarrow> fr254 \<Rightarrow> nightfall_contract_error failure + TokenData" where
  "get_token_info query nf_token_id =
     bindS (okS Panics (uint256_from_fr nf_token_id)) (\<lambda>u.
     bindS (map_sum (\<lambda>e. Fails (EscrowError (''Error getting token info: '' @ e))) id (query u)) (\<lambda>(erc_address, token_id).
     bindS (okS Panics (frbn_from_address erc_address)) (\<lambda>a.
     Inr \<lparr>td_erc_address = a, td_token_id = token_id\<rparr>)))"

text \<open>The request for it.\<close>

datatype token_info_answer = InvalidQuery | InfoNotFound | TokenInfo TokenData

definition handle_get_token_info ::
    "(string \<Rightarrow> byte list option) \<Rightarrow> (256 word \<Rightarrow> string + 160 word \<times> 256 word) \<Rightarrow> string \<Rightarrow> unit failure + token_info_answer" where
  "handle_get_token_info dec query nf_token_id =
     (case fr_from_hex_string dec nf_token_id of
        Inl _ \<Rightarrow> Inr InvalidQuery
      | Inr x \<Rightarrow>
          (case get_token_info query x of
             Inl Panics \<Rightarrow> Inl Panics
           | Inl (Fails _) \<Rightarrow> Inr InfoNotFound
           | Inr info \<Rightarrow> Inr (TokenInfo info)))"

definition client_current_layer2_blocknumber :: "string + int \<Rightarrow> nightfall_contract_error failure + int" where
  "client_current_layer2_blocknumber answer = map_sum (\<lambda>e. Fails (EscrowError e)) id answer"

text \<open>The answers: the number of the latest block of the chain, the transactions of the logs of a \<open>BlockProposed\<close> event with a given
  number, and the transaction with a given hash: its signer and its decoded call.\<close>

record block_query =
  bq_latest :: "string + nat"
  bq_logs :: "int \<Rightarrow> string + string option list"
  bq_transaction :: "string \<Rightarrow> string + (160 word \<times> (string + nightfall_call)) option"

definition get_layer2_block_by_number ::
    "block_query \<Rightarrow> int \<Rightarrow> nightfall_contract_error failure + 160 word \<times> Block" where
  "get_layer2_block_by_number q block_number =
     (if block_number = - (2 ^ 255) then Inl Panics
      else let block_number = block_number - 1 in
     bindS (map_sum (\<lambda>e. Fails (ContractProviderError (''get_block_number error: '' @ e))) id (bq_latest q)) (\<lambda>_.
     bindS (map_sum (\<lambda>e. Fails (ContractProviderError (''Provider error: '' @ e))) id (bq_logs q block_number)) (\<lambda>logs.
     bindS (case logs of
              [] \<Rightarrow> (case i256_to_u64 block_number of None \<Rightarrow> Inl Panics | Some n \<Rightarrow> Inl (Fails (ContractBlockNotFound n)))
            | log # _ \<Rightarrow> Inr log) (\<lambda>log.
     bindS (okS (Fails (MissingTransactionHash ''Log has no transaction hash'')) log) (\<lambda>tx_hash.
     bindS (map_sum (\<lambda>e. Fails (ContractProviderError (''get_transaction error: '' @ e))) id (bq_transaction q tx_hash)) (\<lambda>tx.
     bindS (okS (Fails (TransactionNotFound tx_hash)) tx) (\<lambda>(sender_address, input).
     bindS (map_sum (\<lambda>e. Fails (AbiDecodeError (''ABI decode error: '' @ e))) id input) (\<lambda>decoded.
     (case decoded of
        nightfall_call.ProposeBlock blk \<Rightarrow> Inr (sender_address, blk)
      | OtherCall \<Rightarrow> Inl (Fails (DecodedCallError ''Decoded call was not propose_block'')))))))))))"

end
