(* ===== verification/Contract_Paths.thy ===== *)
theory Contract_Paths
  imports Client_Contract Block_Assembly
begin

text \<open>
  The ways of a deposit and of a withdrawal through client, contract and proposer. The client's \<open>deposit_operation\<close> calls
  \<open>escrow_funds\<close> of the contract, the contract emits events for what it binds, and the proposer makes of each event the data of a
  deposit, of which the deposit circuit computes the commitment and the key under which the contract redeems it. A withdrawal is
  noted by the contract when it takes the block, and the client asks for it and has it paid. Here the parameters of the models
  meet: the client sends to the model of the contract, and its events go to the model of the proposer.
\<close>

section \<open>Words, digests and identifiers\<close>

definition frw :: "fr254 \<Rightarrow> 256 word" where
  "frw x = of_nat (fr_val x)"

lemma frw_simps [simp]:
  "unat (frw x) = fr_val x" "uint256_from_fr x = Some (frw x)" "frbn_try_from_u256 (frw x) = Inr x" "frw x = frw y \<longleftrightarrow> x = y"
proof -
  show u: "unat (frw x) = fr_val x" for x by (simp only: frw_def unat_of_fr)
  show "uint256_from_fr x = Some (frw x)" by (simp only: frw_def uint256_from_fr_eq)
  show "frbn_try_from_u256 (frw x) = Inr x" unfolding frbn_try_from_eq u by simp
  show "frw x = frw y \<longleftrightarrow> x = y" using arg_cong [of "frw x" "frw y" unat, unfolded u] by (auto simp: fr_val_inject_iff frw_def)
qed

lemma uint256_from_bigint_eq [simp]: "uint256_from_bigint u = Some u"
proof -
  have "unat u < 2 ^ 256" using unat_256 [of u] by simp
  then obtain ds where "fill_digits (u64_digits (unat u)) = Some ds" "limbs_value ds = unat u" using fill_u64_digits [of "unat u"] by blast
  then show ?thesis by (simp add: uint256_from_bigint_def from_limbs_def)
qed

lemma be_value_less: "be_value bs < 256 ^ length bs"
proof -
  have bound: "le_value xs < 256 ^ length xs" for xs
  proof (induction xs)
    case (Cons b xs)
    have "unat b < 256" using unsigned_less [of b] by simp
    have n: "a < 256 \<Longrightarrow> 256 * (m + 1) \<le> c \<Longrightarrow> a + 256 * m < c" for a m c :: nat by simp
    have "unat b + 256 * le_value xs < 256 * 256 ^ length xs" by (rule n [OF \<open>unat b < 256\<close>]) (use Cons in simp)
    then show ?case by simp
  qed simp
  show ?thesis using bound [of "rev bs"] by (simp add: be_value_def)
qed

text \<open>A digest, shifted right by four bits, as a word and as a field element.\<close>

lemma shifted_digest:
  assumes "length bs = 32"
  shows "drop_bit 4 (bytes32 bs) = frw (fr (drop_bit 4 (be_value bs)))" "unat (drop_bit 4 (bytes32 bs)) = drop_bit 4 (be_value bs)"
proof -
  have b: "be_value bs < 2 ^ 256" using be_value_less [of bs] assms by simp
  then have "drop_bit 4 (be_value bs) < 2 ^ 252" by (simp add: drop_bit_eq_div)
  also have "(2::nat) ^ 252 < fr_modulus" by (simp add: fr_modulus_def)
  finally have v: "fr_val (fr (drop_bit 4 (be_value bs))) = drop_bit 4 (be_value bs)" unfolding fr_val_fr by (rule mod_less)
  show u: "unat (drop_bit 4 (bytes32 bs)) = drop_bit 4 (be_value bs)"
    using b by (simp add: bytes32_def unat_drop_bit_eq unat_of_nat)
  show "drop_bit 4 (bytes32 bs) = frw (fr (drop_bit 4 (be_value bs)))"
    by (rule word_unat_eq_iff [THEN iffD2]) (simp only: u frw_simps v)
qed

lemma unat_abi_address [simp]: "unat (abi_address a) = unat a"
proof -
  have "unat a < 2 ^ 160" using unsigned_less [of a] by simp
  then have "unat a mod 2 ^ 256 = unat a" by simp
  then show ?thesis by (simp only: abi_address_def unat_of_nat) simp
qed

lemma token_id_words:
  "to_nf_token_id_from_solidity sha256 a t = fr (drop_bit 4 (be_value (sha256 (abi_words [abi_address a, t]))))"
proof -
  have "unat a < 256 ^ 20" using unsigned_less [of a] by simp
  then have "lpad32 (be_bytes 20 (unat a)) = be_bytes 32 (unat a)" using be_bytes_pad [of "unat a" 20 12] by (simp add: lpad32_def)
  then show ?thesis by (simp add: to_nf_token_id_from_solidity_def abi_words_def)
qed

text \<open>The hashes of the client, the proposer, the circuits and the contract are the same functions, digests have 32 bytes, and the
  SHA-256 gadget of the circuits computes SHA-256 of the big-endian words, shifted by four bits. The client and the proposer take the
  same element for the token of the fees.\<close>

definition same_hashes ::
    "contract_env \<Rightarrow> contract_client \<Rightarrow> ('p, 'e, 'y) proposer_env_scheme \<Rightarrow> (fr254 list \<Rightarrow> fr254) \<Rightarrow> bool" where
  "same_hashes ce cc pe sha \<longleftrightarrow>
     cc_sha256 cc = ne_sha256 ce \<and> cc_keccak cc = ne_keccak ce \<and> cc_nightfall cc = ne_address ce \<and> pe_sha256 pe = ne_sha256 ce \<and>
     pe_poseidon pe = cc_poseidon cc \<and> pe_fee_token_id pe = get_fee_token_id cc \<and>
     (\<forall>bs. length (ne_sha256 ce bs) = 32 \<and> length (ne_keccak ce bs) = 32) \<and>
     (\<forall>xs. sha xs = fr (drop_bit 4 (be_value (ne_sha256 ce (abi_words (map frw xs))))))"

lemma same_identifiers:
  assumes "same_hashes ce cc pe sha"
  shows "token_of ce c = frw (to_nf_token_id_from_solidity (ne_sha256 ce) (es_erc_address c) (es_token_id c))"
    "fee_id ce = frw (get_fee_token_id cc)" "contract_keccak_and_shift ce [abi_address a, sl] = frw (nf_slot_id_from cc a sl)"
    "deposit_key ce (frw t) (frw u) (frw v) (frw h) = frw (sha [t, u, v, h])"
  using assms shifted_digest(1)
  by (simp_all add: same_hashes_def token_of_def contract_sha256_and_shift_def token_id_words fee_id_def contract_keccak_and_shift_def
      get_fee_token_id_def nf_slot_id_from_def deposit_key_def)

section \<open>The client's call\<close>

text \<open>A call that goes to the model of the contract.\<close>

definition send_to_contract ::
    "contract_env \<Rightarrow> call_context \<Rightarrow> escrow_answers \<Rightarrow> nightfall_contract \<Rightarrow> escrow_calldata \<Rightarrow> 256 word \<Rightarrow> send_answer" where
  "send_to_contract ce ctx a s call sent =
     (case contract_escrow_funds ce (ctx\<lparr>msg_value := sent\<rparr>) a call s of None \<Rightarrow> Reverted [] | Some _ \<Rightarrow> Receipt)"

definition escrow_data :: "fr254 \<Rightarrow> 160 word \<Rightarrow> 256 word \<Rightarrow> fr254 \<Rightarrow> fr254 \<Rightarrow> TokenType \<Rightarrow> escrow_calldata" where
  "escrow_data fee erc token_id value secret_hash token_type =
     \<lparr>es_fee = frw fee, es_erc_address = erc, es_token_id = token_id, es_secret_hash = frw secret_hash, es_value = frw value,
      es_token_type = token_type\<rparr>"

lemma escrow_funds_sent:
  assumes "escrow_funds cc send slot_of erc_address value token_id fee deposit_fee secret token_type = Inr (tok, slot)"
  obtains erc h sl where "addr_try_from erc_address = Inr erc" "deposit_secret_hash (cc_poseidon cc) secret = Inr h"
    "send (escrow_data fee erc token_id value h token_type) (frw (total_fee fee deposit_fee)) = Receipt"
    "if token_type = ERC3525 then slot_of erc token_id = Some sl else sl = token_id"
    "tok = to_nf_token_id_from_solidity (cc_sha256 cc) erc token_id"
    "slot = (if sl = token_id then tok else nf_slot_id_from cc erc sl)"
proof -
  obtain erc where erc: "addr_try_from erc_address = Inr erc"
    using assms by (cases "addr_try_from erc_address") (simp_all add: escrow_funds_def)
  obtain h where h: "deposit_secret_hash (cc_poseidon cc) secret = Inr h"
    using assms erc by (cases "deposit_secret_hash (cc_poseidon cc) secret") (simp_all add: escrow_funds_def)
  let ?call = "escrow_data fee erc token_id value h token_type"
  have sent: "send ?call (frw (total_fee fee deposit_fee)) = Receipt"
    using assms by (simp add: escrow_funds_def erc h escrow_data_def Let_def split: send_answer.splits)
  obtain sl where sl: "if token_type = ERC3525 then slot_of erc token_id = Some sl else sl = token_id"
    using assms sent by (cases "slot_of erc token_id") (auto simp: escrow_funds_def erc h escrow_data_def Let_def split: if_splits)
  show thesis
    by (rule that [OF erc h sent sl]) (use assms sent sl in \<open>auto simp: escrow_funds_def erc h escrow_data_def Let_def split: if_splits\<close>)
qed

section \<open>What the proposer makes of an event\<close>

text \<open>The event makes the proposer store a deposit with the fee, whose commitment is that of the preimage, and the key that the circuit
  computes for it is open in the contract, with the fee bound to it.\<close>

definition deposit_arrives ::
    "('p, 'e, 'y) proposer_env_scheme \<Rightarrow> (fr254 list \<Rightarrow> fr254) \<Rightarrow> nightfall_contract \<Rightarrow> ('p, 'z) proposer_db_scheme \<Rightarrow> escrow_call \<Rightarrow> fr254 \<Rightarrow>
     deposit_escrowed \<Rightarrow> Preimage \<Rightarrow> bool" where
  "deposit_arrives pe sha s w call fee event p \<longleftrightarrow>
     (\<exists>d. process_deposit_escrowed pe (Inr (Some (Inr (Some call)))) event w = (Inr (), w\<lparr>deposits := deposits w @ [d]\<rparr>) \<and>
        ddf_fee d = fee \<and> Some (commitment_key (pe_poseidon pe) p) = deposit_commitment (pe_poseidon pe) d \<and>
        (let dd = ddf_deposit_data d; k = frw (sha [dd_nf_token_id dd, dd_nf_slot_id dd, dd_value dd, dd_secret_hash dd])
         in open_deposit s k \<and> dfs_fee (fee_binding s k) = frw fee))"

lemma deposit_arrivesI:
  fixes pe :: "('p, 'e, 'y) proposer_env_scheme"
  assumes "poseidon_ok (pe_poseidon pe)" "faults w = []" "\<And>d k. pe_deposit_hash pe d = Some k \<Longrightarrow> k \<notin> cwm_hash ` set (client_transactions w)"
    "es_fee call = frw fee" "es_secret_hash call = frw h" "deposit_secret_hash (pe_poseidon pe) secret = Inr h"
    "tok = (if slot = pe_fee_token_id pe then pe_fee_token_id pe else to_nf_token_id_from_solidity (pe_sha256 pe) (es_erc_address call) (es_token_id call))"
    "fee_binding s (frw (sha [tok, slot, v, h])) = \<lparr>dfs_fee = frw fee, dfs_escrowed = 1, dfs_redeemed = 0\<rparr>"
  shows "deposit_arrives pe sha s w call fee \<lparr>de_nf_slot_id = frw slot, de_value = frw v\<rparr> (preimage_new v tok slot te_zero (SaltDeposit secret))"
proof -
  let ?p = "preimage_new v tok slot te_zero (SaltDeposit secret)"
  let ?d = "\<lparr>ddf_fee = fee, ddf_deposit_data = \<lparr>dd_nf_token_id = tok, dd_nf_slot_id = slot, dd_value = v, dd_secret_hash = h\<rparr>\<rparr>"
  have stored: "process_deposit_escrowed pe (Inr (Some (Inr (Some call)))) \<lparr>de_nf_slot_id = frw slot, de_value = frw v\<rparr> w =
      (Inr (), w\<lparr>deposits := deposits w @ [?d]\<rparr>)"
    unfolding assms(7) by (rule deposit_is_stored [OF assms(2)]) (simp_all add: assms(4,5), rule assms(3))
  obtain c where c: "pe_poseidon pe [tok, slot, v, 0, 1, h] = Some c"
    using poseidon_okD [OF assms(1), of "[tok, slot, v, 0, 1, h]"] by auto
  have "preimage_hash (pe_poseidon pe) ?p = Inr c"
    using c assms(6) by (simp add: preimage_hash_def preimage_new_def te_zero_def get_salt_def)
  then have "commitment_key (pe_poseidon pe) ?p = c" using commitment_key [OF assms(1), of ?p] by simp
  then show ?thesis
    unfolding deposit_arrives_def by (intro exI [of _ ?d]) (simp add: stored deposit_commitment_def c open_deposit_def assms(8))
qed

text \<open>C2. A deposit reaches the proposer: when the client's \<open>deposit_operation\<close> succeeds, the contract has taken a call, and its events
  belong one to one to the preimages whose commitments the client stores, the deposit and the fee for later. Of each event the
  proposer makes a deposit with the commitment of the preimage, and the key that the deposit circuit will compute for it is bound to
  the fee in the contract and not redeemed yet. This needs that the fees do not wrap in the field, that the slot of an ERC3525
  token is not its identifier, and that no token has the identifier of the fees.\<close>

theorem deposit_reaches_proposer:
  fixes pe :: "('p, 'e, 'y) proposer_env_scheme" and w :: "('p, 'z) proposer_db_scheme"
  assumes "same_hashes ce cc pe sha" "poseidon_ok (cc_poseidon cc)"
    "deposit_operation approve (escrow_funds cc (send_to_contract ce ctx a s) (\<lambda>_ _. ea_slot a)) (get_fee_token_id cc)
       erc_address value fee deposit_fee token_id secret token_type = Inr (p, pf)"
    "2 * fr_val fee + fr_val deposit_fee < fr_modulus" "token_type = ERC3525 \<Longrightarrow> ea_slot a \<noteq> Some token_id"
    "pre_nf_slot_id p \<noteq> get_fee_token_id cc"
    "faults w = []" "\<And>d k. pe_deposit_hash pe d = Some k \<Longrightarrow> k \<notin> cwm_hash ` set (client_transactions w)"
  shows "\<exists>call s' events. contract_escrow_funds ce (ctx\<lparr>msg_value := frw (total_fee fee deposit_fee)\<rparr>) a call s = Some (s', events) \<and>
    list_all2 (deposit_arrives pe sha s' w (escrow_call.truncate call) fee) events (p # (case pf of None \<Rightarrow> [] | Some q \<Rightarrow> [q]))"
proof -
  note h = assms(1) [unfolded same_hashes_def]
  obtain tok slot where e: "escrow_funds cc (send_to_contract ce ctx a s) (\<lambda>_ _. ea_slot a) erc_address value token_id fee deposit_fee secret token_type = Inr (tok, slot)"
    and p: "p = preimage_new value tok slot te_zero (SaltDeposit secret)"
    "pf = (if deposit_fee = 0 then None else Some (preimage_new deposit_fee (get_fee_token_id cc) (get_fee_token_id cc) te_zero (SaltDeposit secret)))"
    using assms(3) by (cases "approve erc_address value token_id";
      cases "escrow_funds cc (send_to_contract ce ctx a s) (\<lambda>_ _. ea_slot a) erc_address value token_id fee deposit_fee secret token_type")
      (auto simp: deposit_operation_def split: if_splits)
  obtain erc x sl where c: "deposit_secret_hash (cc_poseidon cc) secret = Inr x"
    "send_to_contract ce ctx a s (escrow_data fee erc token_id value x token_type) (frw (total_fee fee deposit_fee)) = Receipt"
    "if token_type = ERC3525 then ea_slot a = Some sl else sl = token_id"
    "tok = to_nf_token_id_from_solidity (cc_sha256 cc) erc token_id" "slot = (if sl = token_id then tok else nf_slot_id_from cc erc sl)"
    by (rule escrow_funds_sent [OF e], rule that) assumption+
  let ?call = "escrow_data fee erc token_id value x token_type" and ?ctx = "ctx\<lparr>msg_value := frw (total_fee fee deposit_fee)\<rparr>"
  obtain s' events where run: "contract_escrow_funds ce ?ctx a ?call s = Some (s', events)"
    using c(2) by (auto simp: send_to_contract_def split: option.splits)
  let ?t = "escrow_call.truncate ?call"
  have t: "es_fee ?t = frw fee" "es_secret_hash ?t = frw x" "es_erc_address ?t = erc" "es_token_id ?t = token_id"
    "es_fee ?call = frw fee" "es_secret_hash ?call = frw x" "es_erc_address ?call = erc" "es_value ?call = frw value" "es_token_type ?call = token_type"
    "msg_value ?ctx = frw (total_fee fee deposit_fee)"
    by (simp_all add: escrow_call.truncate_def escrow_data_def)
  note id = same_identifiers [OF assms(1)]
  have tok: "token_of ce ?t = frw tok" unfolding id(1) using h c(4) t by simp
  have slot: "escrow_slot ce a ?call (frw tok) = Some (frw slot)"
    using c(3,5) assms(5) by (auto simp: escrow_slot_def escrow_data_def id(3) split: if_splits)
  obtain sw s1 where r: "escrow_slot ce a ?call (frw tok) = Some sw"
    "bind_deposit (deposit_key ce (frw tok) sw (frw value) (frw x)) (frw fee) (entered ce ?ctx ?call s) = Some s1"
    "fr_val (total_fee fee deposit_fee) \<le> 2 * fr_val fee \<and> s' = s1 \<and> events = [\<lparr>de_nf_slot_id = sw, de_value = frw value\<rparr>] \<or>
     2 * fr_val fee < fr_val (total_fee fee deposit_fee) \<and>
       bind_deposit (deposit_key ce (fee_id ce) (fee_id ce) (frw (total_fee fee deposit_fee) - 2 * frw fee) (frw x)) (frw fee) s1 = Some s' \<and>
       events = [\<lparr>de_nf_slot_id = sw, de_value = frw value\<rparr>, \<lparr>de_nf_slot_id = fee_id ce, de_value = frw (total_fee fee deposit_fee) - 2 * frw fee\<rparr>]"
    by (rule escrow_cases [OF run], rule that) (simp_all only: tok t frw_simps)
  have "sw = frw slot" using r(1) slot by simp
  note s1 = r(2) [unfolded this id(4)] and ev = r(3) [unfolded this]
  have arrives: "deposit_arrives pe sha s' w ?t fee \<lparr>de_nf_slot_id = frw u, de_value = frw v\<rparr> (preimage_new v k u te_zero (SaltDeposit secret))"
    if "fee_binding s' (frw (sha [k, u, v, x])) = \<lparr>dfs_fee = frw fee, dfs_escrowed = 1, dfs_redeemed = 0\<rparr>"
      "k = (if u = get_fee_token_id cc then get_fee_token_id cc else tok)" for u v k
    by (rule deposit_arrivesI [where h = x]) (use that h assms(2,7,8) t c(1,4) in \<open>simp_all\<close>)
  have first: "deposit_arrives pe sha s' w ?t fee \<lparr>de_nf_slot_id = frw slot, de_value = frw value\<rparr> p"
    if "fee_binding s' (frw (sha [tok, slot, value, x])) = \<lparr>dfs_fee = frw fee, dfs_escrowed = 1, dfs_redeemed = 0\<rparr>"
    unfolding p(1) by (rule arrives [OF that]) (use assms(6) p(1) in \<open>simp add: preimage_new_def\<close>)
  show ?thesis
  proof (cases "deposit_fee = 0")
    case True
    then have "s' = s1" "events = [\<lparr>de_nf_slot_id = frw slot, de_value = frw value\<rparr>]" using ev by (simp_all add: total_fee_def)
    then show ?thesis using True run first bind_deposit_bound(1) [OF s1] p(2) by (intro exI [of _ ?call] exI [of _ s'] exI [of _ events]) simp
  next
    case False
    then have "fr_val deposit_fee \<noteq> 0" by simp
    have tf: "fr_val (total_fee fee deposit_fee) = 2 * fr_val fee + fr_val deposit_fee"
      unfolding total_fee_def if_not_P [OF False] fr_val_plus mod_add_left_eq using mod_less [OF assms(4)] by (simp only: mult_2)
    have rest: "frw (total_fee fee deposit_fee) - 2 * frw fee = frw deposit_fee"
      unfolding frw_def tf by simp
    have b: "bind_deposit (frw (sha [get_fee_token_id cc, get_fee_token_id cc, deposit_fee, x])) (frw fee) s1 = Some s'"
      and evs: "events = [\<lparr>de_nf_slot_id = frw slot, de_value = frw value\<rparr>, \<lparr>de_nf_slot_id = frw (get_fee_token_id cc), de_value = frw deposit_fee\<rparr>]"
      using ev tf \<open>fr_val deposit_fee \<noteq> 0\<close> unfolding rest id(2,4) by auto
    have "fee_binding s' (frw (sha [tok, slot, value, x])) = \<lparr>dfs_fee = frw fee, dfs_escrowed = 1, dfs_redeemed = 0\<rparr>"
      using bind_deposit_bound(1) [OF s1] bind_deposit_bound(3) [OF b, of "frw (sha [tok, slot, value, x])"] by simp
    from first [OF this] arrives [OF bind_deposit_bound(1) [OF b]] show ?thesis
      using False run evs p(2) by (intro exI [of _ ?call] exI [of _ s'] exI [of _ events]) simp
  qed
qed

text \<open>When the slot of an ERC3525 token is the number of the token, the client computes another identifier for the slot than the
  contract: its commitment has the identifier of the token, the event (and so the deposit of the proposer, the key in the contract
  and the commitment in the block) the hash of the slot. The client never finds the commitment that it stores.\<close>

theorem erc3525_slot_mismatch:
  assumes "same_hashes ce cc pe sha" "ea_slot a = Some token_id"
    "deposit_operation approve (escrow_funds cc (send_to_contract ce ctx a s) (\<lambda>_ _. ea_slot a)) (get_fee_token_id cc)
       erc_address value fee deposit_fee token_id secret ERC3525 = Inr (p, pf)"
  shows "\<exists>call s' events. contract_escrow_funds ce (ctx\<lparr>msg_value := frw (total_fee fee deposit_fee)\<rparr>) a call s = Some (s', events) \<and>
    pre_nf_slot_id p = pre_nf_token_id p \<and> frw (pre_nf_token_id p) = token_of ce (escrow_call.truncate call) \<and>
    de_nf_slot_id (hd events) = frw (nf_slot_id_from cc (es_erc_address call) token_id)"
proof -
  note h = assms(1) [unfolded same_hashes_def] and id = same_identifiers [OF assms(1)]
  obtain tok slot where e: "escrow_funds cc (send_to_contract ce ctx a s) (\<lambda>_ _. ea_slot a) erc_address value token_id fee deposit_fee secret ERC3525 = Inr (tok, slot)"
    and p: "p = preimage_new value tok slot te_zero (SaltDeposit secret)"
    using assms(3) by (cases "approve erc_address value token_id";
      cases "escrow_funds cc (send_to_contract ce ctx a s) (\<lambda>_ _. ea_slot a) erc_address value token_id fee deposit_fee secret ERC3525")
      (auto simp: deposit_operation_def split: if_splits)
  obtain erc x sl where c:
    "send_to_contract ce ctx a s (escrow_data fee erc token_id value x ERC3525) (frw (total_fee fee deposit_fee)) = Receipt"
    "ea_slot a = Some sl" "tok = to_nf_token_id_from_solidity (cc_sha256 cc) erc token_id" "slot = (if sl = token_id then tok else nf_slot_id_from cc erc sl)"
    by (rule escrow_funds_sent [OF e], rule that) simp_all
  let ?call = "escrow_data fee erc token_id value x ERC3525"
  obtain s' events where run: "contract_escrow_funds ce (ctx\<lparr>msg_value := frw (total_fee fee deposit_fee)\<rparr>) a ?call s = Some (s', events)"
    using c(1) by (auto simp: send_to_contract_def split: option.splits)
  have t: "es_erc_address ?call = erc" "es_token_id (escrow_call.truncate ?call) = token_id" "es_erc_address (escrow_call.truncate ?call) = erc"
    "es_token_type ?call = ERC3525"
    by (simp_all add: escrow_call.truncate_def escrow_data_def)
  have "de_nf_slot_id (hd events) = frw (nf_slot_id_from cc erc token_id)"
    by (rule escrow_cases [OF run]) (use assms(2) in \<open>auto simp: escrow_slot_def t id(3)\<close>)
  then show ?thesis
    using run c(2-4) assms(2) h
    by (intro exI [of _ ?call] exI [of _ s'] exI [of _ events]) (simp add: p preimage_new_def id(1) escrow_data_def escrow_call.truncate_def)
qed

section \<open>Withdrawals\<close>

lemma withdraw_data_agrees:
  assumes "contract_transaction (on_chain_from_client tx) = Some c" "fr_val (cipher_text (ct_compressed_secrets tx) ! 1) < 2 ^ 161"
    "ct_nullifiers tx \<noteq> []"
  shows "contract_withdraw_data (withdraw_data_from tx) = Some (withdraw_data_of c)"
proof -
  let ?ct = "cipher_text (ct_compressed_secrets tx)"
  obtain p where p: "secrets_to_u256 (ct_compressed_secrets tx) = Some p"
    "ctx_public_data c = p" "Some (ctx_nullifiers c) = those (map uint256_from_fr (ct_nullifiers tx))"
    using assms(1) by (auto simp: contract_transaction_def on_chain_from_client_def split: option.splits)
  have n: "ctx_nullifiers c = map frw (ct_nullifiers tx)"
    using p(3) those_map_total [of "ct_nullifiers tx" uint256_from_fr frw] by simp
  obtain u where "p = [frw (?ct ! 0), frw (?ct ! 1), frw (?ct ! 2), u]"
    using p(1) by (auto simp: secrets_to_u256_def Let_def split: if_splits)
  then have d: "ctx_public_data c ! 0 = frw (?ct ! 0)" "ctx_public_data c ! 1 = frw (?ct ! 1)" "ctx_public_data c ! 2 = frw (?ct ! 2)"
    using p(2) by simp_all
  have a: "(of_nat (fr_val (?ct ! 1) mod 2 ^ 160) :: 160 word) = of_nat (fr_val (?ct ! 1))"
    by (rule word_unat_eq_iff [THEN iffD2]) (simp add: unat_of_nat)
  have n0: "ctx_nullifiers c ! 0 = frw (ct_nullifiers tx ! 0)" using n assms(3) by simp
  show ?thesis
    unfolding contract_withdraw_data_def withdraw_data_from_def withdraw_data_of_def d n0 Let_def
    using assms(2) a by (simp add: addr_try_from_eq del: of_nat_unat)
qed

text \<open>C24. A withdrawal becomes available: when the contract takes a block with the on-chain form of a client's withdrawal, the client, with
  the data that it returned to its user when it made the transaction, is told by the contract that the funds are available.\<close>

theorem withdrawal_becomes_available:
  assumes "contract_propose_block ce ctx a blk s = Some (s', n)" "c \<in> set (blk_transactions blk)" "is_withdraw_tx c"
    "contract_transaction (on_chain_from_client tx) = Some c" "fr_val (cipher_text (ct_compressed_secrets tx) ! 1) < 2 ^ 161"
    "ct_nullifiers tx \<noteq> []"
  shows "withdraw_available (\<lambda>d. Inr (withdraw_processed ce d s')) (withdraw_data_from tx) = Inr True"
proof -
  obtain verified fee_sum where v: "verify_rollup_proof ce s blk
      (transaction_root (contract_sha256_and_shift ce) (map (hash_transaction ce) (blk_transactions blk))) = Some (verified, fee_sum)"
    using assms(1) by (auto simp: contract_propose_block_def bind_eq_Some_conv split: if_splits)
  note A = iffD1 [OF contract_block_iff [OF v, of ctx a s' n] assms(1)]
  have "withdraw_key ce (withdraw_data_of c) \<in> set (block_withdrawals ce blk)" using assms(2,3) by (auto simp: block_withdrawals_def)
  then have "withdraw_processed ce (withdraw_data_of c) s'" using A by (simp add: withdraw_processed_def redeemed_def)
  then show ?thesis by (simp add: withdraw_available_def withdraw_data_agrees [OF assms(4-6)])
qed

text \<open>A withdrawal of an ERC20, ERC721 or ERC1155 token is paid once: after the call of the contract that paid it, the client's next request for the same
  data is rejected, until another block notes the same data.\<close>

theorem withdrawal_is_paid_once:
  assumes "contract_withdraw_data wd = Some d" "contract_descrow_funds ce ctx (Inr True) d token_type s = Some s'"
    "token_type \<noteq> ERC3525" "fst (token_id_mapping s (cwd_nf_token_id d)) \<noteq> 0"
    "withdraw_data_from_req dec sha256 req = Inr wd"
  shows "handle_de_escrow dec sha256 (\<lambda>d. Inr (withdraw_processed ce d s')) send req = Inl (Fails ())"
proof -
  have "\<not> withdraw_processed ce d s'"
    using assms(2-4) by (cases token_type; cases "token_id_mapping s (cwd_nf_token_id d)")
      (auto simp: contract_descrow_funds_def Let_def withdraw_processed_def split: if_splits)
  then show ?thesis
    using assms(1,5) by (cases "u8_from_hex (de_token_type req)") (simp_all add: handle_de_escrow_def withdraw_available_def)
qed

section \<open>Witnesses\<close>

text \<open>Digests for the examples: the third of the words, and a constant.\<close>

definition third_word :: "byte list \<Rightarrow> byte list" where
  "third_word bs = take 32 (drop 64 bs @ replicate 32 0)"

definition path_contract_ex :: contract_env where
  "path_contract_ex = \<lparr>ne_sha256 = third_word, ne_keccak = (\<lambda>_. replicate 31 0 @ [80]), ne_address = 4, ne_verifier = (\<lambda>_ _ _. True)\<rparr>"

definition path_client_ex :: contract_client where
  "path_client_ex = \<lparr>cc_poseidon = first_hash, cc_sha256 = third_word, cc_keccak = (\<lambda>_. replicate 31 0 @ [80]), cc_nightfall = 4\<rparr>"

definition path_sha_ex :: "fr254 list \<Rightarrow> fr254" where
  "path_sha_ex xs = fr (drop_bit 4 (be_value (third_word (abi_words (map frw xs)))))"

definition path_proposer_ex :: "(unit, unit) proposer_env" where
  "path_proposer_ex = proposer_env_ex\<lparr>pe_sha256 := third_word, pe_fee_token_id := get_fee_token_id path_client_ex\<rparr>"

lemma path_ex_hashes: "same_hashes path_contract_ex path_client_ex path_proposer_ex path_sha_ex"
  by (simp add: same_hashes_def path_contract_ex_def path_client_ex_def path_proposer_ex_def path_sha_ex_def third_word_def proposer_env_ex_def
      min_def)

lemma zeros_value [simp]: "le_value (replicate k 0) = 0"
  by (induction k) simp_all

lemma third_word_words: "be_value (third_word (abi_words [a, b, c, d])) = unat c" "be_value (third_word (abi_words [a, b])) = 0"
  using be_value_bytes [of 32 "unat c"] unat_256 [of c]
  by (simp_all add: third_word_def abi_words_def be_value_def)

lemma path_digests [simp]:
  "contract_sha256_and_shift path_contract_ex [a, b, c, d] = drop_bit 4 c" "contract_sha256_and_shift path_contract_ex [a, b] = 0"
  "contract_keccak_and_shift path_contract_ex us = 5"
proof -
  have w: "(of_nat (unat c) :: 256 word) = c" by simp
  show "contract_sha256_and_shift path_contract_ex [a, b, c, d] = drop_bit 4 c" "contract_sha256_and_shift path_contract_ex [a, b] = 0"
    by (simp_all add: contract_sha256_and_shift_def path_contract_ex_def bytes32_def third_word_words)
  have "be_value (replicate 31 0 @ [80]) = 80" by (simp add: be_value_def)
  then show "contract_keccak_and_shift path_contract_ex us = 5"
    by (simp only: contract_keccak_and_shift_def path_contract_ex_def contract_env.simps bytes32_def) simp
qed

definition path_answers_ex :: "256 word option \<Rightarrow> escrow_answers" where
  "path_answers_ex slot = \<lparr>ea_slot = slot, ea_transfer = True\<rparr>"

definition path_state_ex :: nightfall_contract where
  "path_state_ex = contract_initialize path_contract_ex 0 0 0 0"

lemma frw_fr: "n < 2 ^ 253 \<Longrightarrow> frw (fr n) = of_nat n"
proof -
  assume "n < 2 ^ 253"
  also have "(2::nat) ^ 253 < fr_modulus" by (simp add: fr_modulus_def)
  finally show ?thesis by (simp add: frw_def)
qed

lemma path_token: "to_nf_token_id_from_solidity third_word erc t = 0"
  by (simp add: token_id_words third_word_words)

lemma path_fee_id: "get_fee_token_id path_client_ex \<noteq> 0" "nf_slot_id_from path_client_ex erc sl = get_fee_token_id path_client_ex"
proof -
  have v: "be_value (replicate 31 0 @ [80]) = 80" by (simp add: be_value_def)
  have "get_fee_token_id path_client_ex = fr 5"
    by (simp only: get_fee_token_id_def path_client_ex_def contract_client.simps v) simp
  then show "get_fee_token_id path_client_ex \<noteq> 0" by (simp add: fr_val_inject_iff fr_modulus_def)
  show "nf_slot_id_from path_client_ex erc sl = get_fee_token_id path_client_ex"
    by (simp add: nf_slot_id_from_def get_fee_token_id_def path_client_ex_def)
qed

abbreviation path_send :: "256 word option \<Rightarrow> escrow_calldata \<Rightarrow> 256 word \<Rightarrow> send_answer" where
  "path_send slot \<equiv> send_to_contract path_contract_ex call_ex (path_answers_ex slot) path_state_ex"

lemma path_deposit:
  "deposit_operation (\<lambda>_ _ _. Inr ()) (escrow_funds path_client_ex (path_send None) (\<lambda>_ _. ea_slot (path_answers_ex None)))
     (get_fee_token_id path_client_ex) (fr 7) (fr 32) (fr 3) (fr 48) 0 deposit_secret_default ERC20 =
   Inr (preimage_new (fr 32) 0 0 te_zero (SaltDeposit deposit_secret_default),
     Some (preimage_new (fr 48) (get_fee_token_id path_client_ex) (get_fee_token_id path_client_ex) te_zero (SaltDeposit deposit_secret_default)))"
proof -
  have "fr (3 + 3 + 48) = fr 3 + fr 3 + fr 48" by (simp only: fr_add)
  moreover have n: "fr 48 \<noteq> 0" by (simp add: fr_val_inject_iff [of "fr 48"] fr_modulus_def)
  ultimately have tf: "total_fee (fr 3) (fr 48) = fr 54" by (simp add: total_fee_def)
  have a: "addr_try_from (fr 7) = Inr 7" by (simp add: addr_try_from_eq fr_modulus_def)
  have "path_send None (escrow_data (fr 3) 7 0 (fr 32) 0 ERC20) (frw (fr 54)) = Receipt"
    by (simp add: send_to_contract_def contract_escrow_funds_def escrow_slot_def token_taken_def escrow_data_def path_answers_ex_def call_ex_def
        bind_deposit_def deposit_key_def path_state_ex_def contract_initialize_def frw_fr fee_id_def)
  then show ?thesis
    using n by (simp add: deposit_operation_def escrow_funds_def a tf escrow_data_def deposit_secret_hash_def path_client_ex_def
        first_hash_def deposit_secret_default_def path_token)
qed

theorem deposit_reaches_proposer_witness:
  "\<exists>call s' events. contract_escrow_funds path_contract_ex (call_ex\<lparr>msg_value := frw (total_fee (fr 3) (fr 48))\<rparr>) (path_answers_ex None) call path_state_ex =
       Some (s', events) \<and> length events = 2"
proof -
  have P: "poseidon_ok (cc_poseidon path_client_ex)" by (simp add: path_client_ex_def poseidon_ok_first)
  have f: "2 * fr_val (fr 3) + fr_val (fr 48) < fr_modulus" by (simp add: fr_modulus_def)
  have "faults proposer_ex = []" "client_transactions proposer_ex = []" by (simp_all add: proposer_ex_def)
  then show ?thesis
    using deposit_reaches_proposer [OF path_ex_hashes P path_deposit f, of proposer_ex] path_fee_id(1)
    by (fastforce simp: preimage_new_def dest: list_all2_lengthD)
qed

lemma path_slot_deposit:
  "\<exists>p pf. deposit_operation (\<lambda>_ _ _. Inr ()) (escrow_funds path_client_ex (path_send (Some 3)) (\<lambda>_ _. ea_slot (path_answers_ex (Some 3))))
     (get_fee_token_id path_client_ex) (fr 7) (fr 32) (fr 1) 0 3 deposit_secret_default ERC3525 = Inr (p, pf)"
proof -
  have a: "addr_try_from (fr 7) = Inr 7" by (simp add: addr_try_from_eq fr_modulus_def)
  have "path_send (Some 3) (escrow_data (fr 1) 7 3 (fr 32) 0 ERC3525) (frw (fr 1)) = Receipt"
    by (simp add: send_to_contract_def contract_escrow_funds_def escrow_slot_def token_taken_def escrow_data_def path_answers_ex_def call_ex_def
        bind_deposit_def deposit_key_def path_state_ex_def contract_initialize_def frw_fr)
  then show ?thesis
    by (simp add: deposit_operation_def escrow_funds_def a total_fee_def escrow_data_def deposit_secret_hash_def path_client_ex_def
        first_hash_def deposit_secret_default_def path_token path_answers_ex_def)
qed

theorem erc3525_slot_mismatch_witness:
  "\<exists>call s' events. contract_escrow_funds path_contract_ex (call_ex\<lparr>msg_value := frw (total_fee (fr 1) 0)\<rparr>) (path_answers_ex (Some 3)) call path_state_ex =
       Some (s', events) \<and> de_nf_slot_id (hd events) = frw (get_fee_token_id path_client_ex)"
proof -
  have s: "ea_slot (path_answers_ex (Some 3)) = Some 3" by (simp add: path_answers_ex_def)
  show ?thesis using path_slot_deposit erc3525_slot_mismatch [OF path_ex_hashes s] unfolding path_fee_id(2) by blast
qed

text \<open>A block with a withdrawal.\<close>

definition withdraw_tx_ex :: "unit ClientTransaction" where
  "withdraw_tx_ex = \<lparr>ct_fee = 0, ct_historic_commitment_roots = [0, 0, 0, 0], ct_commitments = [0, 0, 0, 0],
     ct_nullifiers = [1, 0, 0, 0], ct_compressed_secrets = \<lparr>cipher_text = [1, 1, 1, 0, 0]\<rparr>, ct_proof = ()\<rparr>"

theorem withdrawal_becomes_available_witness:
  "\<exists>blk s'. contract_propose_block contract_env_ex call_ex block_answers_ex blk contract_ex = Some (s', 0) \<and>
     withdraw_available (\<lambda>d. Inr (withdraw_processed contract_env_ex d s')) (withdraw_data_from withdraw_tx_ex) = Inr True"
proof -
  have "secrets_ok (on_chain_from_client withdraw_tx_ex)" by (simp add: secrets_ok_def on_chain_from_client_def withdraw_tx_ex_def)
  from contract_transaction_ok [OF this] obtain c where c: "contract_transaction (on_chain_from_client withdraw_tx_ex) = Some c"
    "ctx_commitments c = [0, 0, 0, 0]" "ctx_nullifiers c = [1, 0, 0, 0]"
    by (auto simp: on_chain_from_client_def withdraw_tx_ex_def)
  have w: "is_withdraw_tx c" "\<not> is_deposit_tx c" by (simp_all add: is_withdraw_tx_def is_deposit_tx_def c)
  let ?blk = "redeeming_block\<lparr>blk_transactions := [c]\<rparr>"
  have v: "verify_rollup_proof contract_env_ex contract_ex ?blk h = Some (True, 0)" for h
    by (rule zero_proof_verifies) (simp only: redeeming_block_def Block.simps)
  have d: "block_deposits ?blk = []" "block_withdrawals contract_env_ex ?blk = [80]"
    using w by (simp_all add: block_deposits_def block_withdrawals_def tx_deposits_def)
  have "contract_propose_block contract_env_ex call_ex block_answers_ex ?blk contract_ex =
      Some ((redeemed [] [80] contract_ex)\<lparr>contract_roots := (blk_commitments_root ?blk, blk_nullifier_root ?blk, blk_commitments_root_root ?blk),
        ether := 10, layer2_block_number := 1\<rparr>, 0)"
    by (rule iffD2 [OF contract_block_iff [OF v, unfolded d]])
      (simp add: call_ex_def block_answers_ex_def contract_ex_def contract_initialize_def)
  moreover from withdrawal_becomes_available [OF this _ w(1) c(1)] have "withdraw_available (\<lambda>d. Inr (withdraw_processed contract_env_ex d
      ((redeemed [] [80] contract_ex)\<lparr>contract_roots := (blk_commitments_root ?blk, blk_nullifier_root ?blk, blk_commitments_root_root ?blk),
        ether := 10, layer2_block_number := 1\<rparr>))) (withdraw_data_from withdraw_tx_ex) = Inr True"
    by (simp add: withdraw_tx_ex_def)
  ultimately show ?thesis by blast
qed

definition paid_req :: DeEscrowDataReq where
  "paid_req = \<lparr>de_token_id = ''0x02'', de_erc_address = ''0x02'', de_recipient_address = ''0x02'', de_req_value = ''0x02'',
     de_token_type = ''00'', de_withdraw_fund_salt = ''0x02''\<rparr>"

theorem withdrawal_is_paid_once_witness:
  "\<exists>s'. contract_descrow_funds contract_env_ex call_ex (Inr True) \<lparr>cwd_nf_token_id = 1, cwd_recipient_address = 2, cwd_value = 2, cwd_withdraw_fund_salt = 2\<rparr>
       ERC20 (escrowed_ex\<lparr>withdrawal_included := \<lambda>_. 1\<rparr>) = Some s' \<and>
     handle_de_escrow (\<lambda>_. Some [2]) (\<lambda>_. [16]) (\<lambda>d. Inr (withdraw_processed contract_env_ex d s')) (\<lambda>_ _. Receipt) paid_req = Inl (Fails ())"
proof -
  let ?d = "\<lparr>cwd_nf_token_id = 1, cwd_recipient_address = 2, cwd_value = 2, cwd_withdraw_fund_salt = 2\<rparr>"
    and ?wd = "\<lparr>wd_nf_token_id = fr 1, wd_withdraw_address = fr 2, wd_value = fr 2, wd_withdraw_fund_salt = fr 2\<rparr>"
  have r: "withdraw_data_from_req (\<lambda>_. Some [2]) (\<lambda>_. [16]) paid_req = Inr ?wd"
    by (simp add: withdraw_data_from_req_def to_nf_token_id_from_str_def bytes_from_hex_string_def fr_from_hex_string_def be_value_def paid_req_def)
  have d: "contract_withdraw_data ?wd = Some ?d"
    by (simp add: contract_withdraw_data_def addr_try_from_eq frw_fr) (simp add: fr_modulus_def)
  have "fst (token_id_mapping (escrowed_ex\<lparr>withdrawal_included := \<lambda>_. 1\<rparr>) (cwd_nf_token_id ?d)) \<noteq> 0"
    by (simp add: escrowed_ex_def)
  moreover have "\<exists>s'. contract_descrow_funds contract_env_ex call_ex (Inr True) ?d ERC20 (escrowed_ex\<lparr>withdrawal_included := \<lambda>_. 1\<rparr>) = Some s'"
    by (simp add: contract_descrow_funds_def call_ex_def escrowed_ex_def)
  ultimately show ?thesis using withdrawal_is_paid_once [OF d _ _ _ r] by blast
qed

end
