(* ===== verification/Round_Robin.thy ===== *)
theory Round_Robin
  imports Nightfall_Contract
begin

text \<open>
  The contract \<open>blockchain_assets/contracts/RoundRobin.sol\<close> that says which proposer may propose: a ring of proposers, of which
  one is the current one. The ring is a mapping from addresses to proposers with the addresses of their neighbours; the current
  proposer is a copy of its entry, as in the contract (an assignment between two structures in storage copies). Amounts and
  numbers of blocks are natural numbers, whose subtraction reverts below zero; they do not reach the bound of 256 bits. \<open>None\<close> is
  a revert.
\<close>

section \<open>State\<close>

record Proposer =
  pr_stake :: nat
  pr_addr :: "160 word"
  pr_url :: string
  pr_next :: "160 word"
  pr_prev :: "160 word"

definition no_proposer :: Proposer where
  "no_proposer = \<lparr>pr_stake = 0, pr_addr = 0, pr_url = [], pr_next = 0, pr_prev = 0\<rparr>"

record rr_config =
  STAKE :: nat
  LAZY_PENALTY :: nat
  EXIT_PENALTY :: nat
  COOLDOWN_BLOCKS :: nat
  ROTATION_BLOCKS :: nat

record round_robin =
  rr_proposers :: "160 word \<Rightarrow> Proposer"
  rr_pending_withdraws :: "160 word \<Rightarrow> nat"
  rr_urls :: "string \<Rightarrow> bool"
  rr_last_exit_block :: "160 word \<Rightarrow> nat"
  rr_current :: Proposer
  rr_start_l1 :: nat
  rr_start_l2 :: int
  rr_count :: nat
  rr_escrow :: nat

text \<open>The caller and its payment, the number of the block of the chain and the answer of the Nightfall contract.\<close>

record rr_context =
  rc_sender :: "160 word"
  rc_value :: nat
  rc_certified :: bool
  rc_l1 :: nat
  rc_l2 :: int

definition set_proposer :: "160 word \<Rightarrow> (Proposer \<Rightarrow> Proposer) \<Rightarrow> round_robin \<Rightarrow> round_robin" where
  "set_proposer a f s = s\<lparr>rr_proposers := (rr_proposers s)(a := f (rr_proposers s a))\<rparr>"

definition restart_period :: "rr_context \<Rightarrow> round_robin \<Rightarrow> round_robin" where
  "restart_period ctx s = s\<lparr>rr_start_l1 := rc_l1 ctx, rr_start_l2 := rc_l2 ctx\<rparr>"

section \<open>Calls\<close>

definition bootstrap_default_proposer :: "rr_config \<Rightarrow> rr_context \<Rightarrow> 160 word \<Rightarrow> string \<Rightarrow> round_robin \<Rightarrow> round_robin option" where
  "bootstrap_default_proposer cfg ctx addr url s =
     (if rr_count s \<noteq> 0 \<or> rc_value ctx \<noteq> STAKE cfg \<or> rr_urls s url then None
      else
        let p = \<lparr>pr_stake = STAKE cfg, pr_addr = addr, pr_url = url, pr_next = addr, pr_prev = addr\<rparr>
        in Some (restart_period ctx (s\<lparr>rr_current := p, rr_escrow := rr_escrow s + STAKE cfg, rr_proposers := (rr_proposers s)(addr := p),
             rr_urls := (rr_urls s)(url := True), rr_count := 1\<rparr>)))"

definition add_proposer :: "rr_config \<Rightarrow> rr_context \<Rightarrow> string \<Rightarrow> round_robin \<Rightarrow> round_robin option" where
  "add_proposer cfg ctx url s =
     (let sender = rc_sender ctx in
      if \<not> rc_certified ctx \<or>
         (rr_last_exit_block s sender \<noteq> 0 \<and> rc_l1 ctx \<le> rr_last_exit_block s sender + COOLDOWN_BLOCKS cfg) \<or>
         rc_value ctx \<noteq> STAKE cfg \<or> pr_addr (rr_proposers s sender) \<noteq> 0 \<or> rr_urls s url then None
      else
        let current_address = pr_addr (rr_current s);
            previous_address = pr_prev (rr_current s);
            next_address = pr_next (rr_current s);
            s = s\<lparr>rr_escrow := rr_escrow s + STAKE cfg\<rparr>;
            s = set_proposer sender (\<lambda>_. \<lparr>pr_stake = STAKE cfg, pr_addr = sender, pr_url = url, pr_next = current_address,
                  pr_prev = previous_address\<rparr>) s;
            s = set_proposer current_address (\<lambda>p. p\<lparr>pr_prev := sender\<rparr>) s;
            s = set_proposer previous_address (\<lambda>p. p\<lparr>pr_next := sender\<rparr>) s;
            s = (if next_address = current_address then set_proposer current_address (\<lambda>p. p\<lparr>pr_next := sender\<rparr>) s else s)
        in Some (s\<lparr>rr_urls := (rr_urls s)(url := True), rr_current := rr_proposers s current_address, rr_count := rr_count s + 1\<rparr>))"

text \<open>The removal: first what happens when the current proposer is removed, then the ring is closed without the proposer.\<close>

definition leave_office :: "rr_config \<Rightarrow> rr_context \<Rightarrow> 160 word \<Rightarrow> round_robin \<Rightarrow> round_robin option" where
  "leave_office cfg ctx a s =
     (if rr_count s \<le> 1 \<or> pr_stake (rr_proposers s a) < EXIT_PENALTY cfg \<or> rr_escrow s < EXIT_PENALTY cfg then None
      else
        let s = set_proposer a (\<lambda>p. p\<lparr>pr_stake := pr_stake p - EXIT_PENALTY cfg\<rparr>) s;
            s = s\<lparr>rr_escrow := rr_escrow s - EXIT_PENALTY cfg\<rparr>;
            s = s\<lparr>rr_current := rr_proposers s (pr_next (rr_current s))\<rparr>
        in Some ((restart_period ctx s)\<lparr>rr_last_exit_block := (rr_last_exit_block s)(a := rc_l1 ctx)\<rparr>))"

definition unlink :: "160 word \<Rightarrow> round_robin \<Rightarrow> round_robin option" where
  "unlink a s =
     (let next_ref = pr_next (rr_proposers s a);
          previous_ref = pr_prev (rr_proposers s a);
          s = set_proposer next_ref (\<lambda>p. p\<lparr>pr_prev := pr_prev (rr_proposers s a)\<rparr>) s;
          s = set_proposer previous_ref (\<lambda>p. p\<lparr>pr_next := pr_next (rr_proposers s a)\<rparr>) s;
          stake = pr_stake (rr_proposers s a)
      in if rr_escrow s < stake \<or> rr_count s = 0 then None
         else
           let s = s\<lparr>rr_escrow := rr_escrow s - stake, rr_pending_withdraws := (rr_pending_withdraws s)(a := rr_pending_withdraws s a + stake),
                     rr_urls := (rr_urls s)(pr_url (rr_proposers s a) := False)\<rparr>;
               s = set_proposer a (\<lambda>_. no_proposer) s;
               s = s\<lparr>rr_count := rr_count s - 1\<rparr>;
               c = pr_addr (rr_current s)
           in Some (if rr_count s = 1 then
                      (let s = set_proposer c (\<lambda>p. p\<lparr>pr_next := c, pr_prev := c\<rparr>) s in s\<lparr>rr_current := rr_proposers s c\<rparr>)
                    else s))"

definition remove_proposer_of :: "rr_config \<Rightarrow> rr_context \<Rightarrow> 160 word \<Rightarrow> round_robin \<Rightarrow> round_robin option" where
  "remove_proposer_of cfg ctx a s =
     (if pr_addr (rr_proposers s a) \<noteq> a \<or> a = 0 then None
      else if a = pr_addr (rr_current s) then Option.bind (leave_office cfg ctx a s) (unlink a)
      else unlink a s)"

definition remove_proposer :: "rr_config \<Rightarrow> rr_context \<Rightarrow> round_robin \<Rightarrow> round_robin option" where
  "remove_proposer cfg ctx s = remove_proposer_of cfg ctx (rc_sender ctx) s"

definition lazy_penalize_proposer :: "rr_config \<Rightarrow> rr_context \<Rightarrow> 160 word \<Rightarrow> round_robin \<Rightarrow> round_robin option" where
  "lazy_penalize_proposer cfg ctx a s =
     (if pr_stake (rr_proposers s a) < LAZY_PENALTY cfg then remove_proposer_of cfg ctx a s
      else if rr_escrow s < LAZY_PENALTY cfg then None
      else Some ((set_proposer a (\<lambda>p. p\<lparr>pr_stake := pr_stake p - LAZY_PENALTY cfg\<rparr>) s)\<lparr>rr_escrow := rr_escrow s - LAZY_PENALTY cfg\<rparr>))"

definition FINALIZATION_BLOCKS :: nat where "FINALIZATION_BLOCKS = 64"

definition can_rotate :: "rr_config \<Rightarrow> rr_context \<Rightarrow> round_robin \<Rightarrow> bool" where
  "can_rotate cfg ctx s \<longleftrightarrow> rc_l1 ctx \<ge> rr_start_l1 s + ROTATION_BLOCKS cfg + FINALIZATION_BLOCKS"

definition rotate_proposer :: "rr_config \<Rightarrow> rr_context \<Rightarrow> round_robin \<Rightarrow> round_robin option" where
  "rotate_proposer cfg ctx s =
     (if \<not> can_rotate cfg ctx s then None
      else Option.bind (if rc_l2 ctx = rr_start_l2 s then lazy_penalize_proposer cfg ctx (pr_addr (rr_current s)) s else Some s) (\<lambda>s.
        Some (restart_period ctx (s\<lparr>rr_current := rr_proposers s (pr_next (rr_current s))\<rparr>))))"

definition get_current_proposer_address :: "round_robin \<Rightarrow> 160 word" where
  "get_current_proposer_address s = pr_addr (rr_current s)"

text \<open>The list starts with the current proposer and follows the ring.\<close>

fun follow_ring :: "(160 word \<Rightarrow> Proposer) \<Rightarrow> nat \<Rightarrow> Proposer \<Rightarrow> Proposer list" where
  "follow_ring ps 0 p = []"
| "follow_ring ps (Suc n) p = p # follow_ring ps n (ps (pr_next p))"

definition get_proposers :: "round_robin \<Rightarrow> Proposer list" where
  "get_proposers s = follow_ring (rr_proposers s) (rr_count s) (rr_current s)"

definition withdraw_stake :: "rr_context \<Rightarrow> bool \<Rightarrow> nat \<Rightarrow> round_robin \<Rightarrow> round_robin option" where
  "withdraw_stake ctx transferred amount s =
     (if amount > rr_pending_withdraws s (rc_sender ctx) \<or> \<not> transferred then None
      else Some (s\<lparr>rr_pending_withdraws := (rr_pending_withdraws s)(rc_sender ctx := rr_pending_withdraws s (rc_sender ctx) - amount)\<rparr>))"

section \<open>The ring\<close>

text \<open>The addresses in the order of their turns, the current one first.\<close>

definition linked_ring :: "(160 word \<Rightarrow> Proposer) \<Rightarrow> 160 word list \<Rightarrow> bool" where
  "linked_ring ps xs \<longleftrightarrow>
     distinct xs \<and> xs \<noteq> [] \<and> 0 \<notin> set xs \<and> (\<forall>a. a \<notin> set xs \<longrightarrow> ps a = no_proposer) \<and>
     (\<forall>i<length xs. pr_addr (ps (xs ! i)) = xs ! i \<and> pr_next (ps (xs ! i)) = xs ! (Suc i mod length xs) \<and>
        pr_prev (ps (xs ! (Suc i mod length xs))) = xs ! i)"

definition ring :: "round_robin \<Rightarrow> 160 word list \<Rightarrow> bool" where
  "ring s xs \<longleftrightarrow> linked_ring (rr_proposers s) xs \<and> rr_current s = rr_proposers s (hd xs) \<and> rr_count s = length xs \<and>
     rr_escrow s = sum_list (map (\<lambda>a. pr_stake (rr_proposers s a)) xs)"

lemma linked_ringD:
  assumes "linked_ring ps xs"
  shows "distinct xs" "xs \<noteq> []" "0 \<notin> set xs" "a \<notin> set xs \<Longrightarrow> ps a = no_proposer" "pr_addr (ps (hd xs)) = hd xs"
    "pr_next (ps (hd xs)) = hd (rotate1 xs)" "pr_prev (ps (hd xs)) = last xs" "a \<in> set xs \<Longrightarrow> pr_addr (ps a) = a"
    "i < length xs \<Longrightarrow> pr_next (ps (xs ! i)) = xs ! (Suc i mod length xs)"
    "i < length xs \<Longrightarrow> pr_prev (ps (xs ! (Suc i mod length xs))) = xs ! i"
proof -
  note r = assms [unfolded linked_ring_def]
  show "distinct xs" "xs \<noteq> []" "0 \<notin> set xs" "a \<notin> set xs \<Longrightarrow> ps a = no_proposer"
    "i < length xs \<Longrightarrow> pr_next (ps (xs ! i)) = xs ! (Suc i mod length xs)"
    "i < length xs \<Longrightarrow> pr_prev (ps (xs ! (Suc i mod length xs))) = xs ! i" using r by blast+
  have n: "0 < length xs" using r by simp
  have h: "hd xs = xs ! 0" using r by (simp add: hd_conv_nth)
  then show "pr_addr (ps (hd xs)) = hd xs" using r n by simp
  have "hd (rotate1 xs) = rotate1 xs ! 0" using n by (subst hd_conv_nth) (auto simp: rotate1_is_Nil_conv)
  then show "pr_next (ps (hd xs)) = hd (rotate1 xs)" using r n h by (simp add: nth_rotate1)
  have "Suc (length xs - 1) mod length xs = 0" using n by simp
  then show "pr_prev (ps (hd xs)) = last xs" using r n h by (metis diff_less last_conv_nth zero_less_one)
  show "a \<in> set xs \<Longrightarrow> pr_addr (ps a) = a" using r by (metis in_set_conv_nth)
qed

lemma linked_ring_rotate: "linked_ring ps xs \<Longrightarrow> linked_ring ps (rotate1 xs)"
  unfolding linked_ring_def by (auto simp: nth_rotate1)

lemma linked_ring_stake:
  assumes "linked_ring ps xs" "a \<in> set xs"
  shows "linked_ring (ps(a := (ps a)\<lparr>pr_stake := k\<rparr>)) xs"
  using assms unfolding linked_ring_def by auto

text \<open>A new proposer behind the current one, so that its turn is the last.\<close>

lemma linked_ring_insert:
  assumes "linked_ring ps xs" "x \<notin> set xs" "x \<noteq> 0" "pr_addr p = x" "pr_next p = hd xs" "pr_prev p = last xs"
    "ps' = (\<lambda>a. if a = x then p else if a = hd xs \<and> a = last xs then (ps a)\<lparr>pr_prev := x, pr_next := x\<rparr>
       else if a = hd xs then (ps a)\<lparr>pr_prev := x\<rparr> else if a = last xs then (ps a)\<lparr>pr_next := x\<rparr> else ps a)"
  shows "linked_ring ps' (xs @ [x])"
proof -
  note r = linked_ringD [OF assms(1)]
  let ?n = "length xs"
  have n: "0 < ?n" using r(2) by simp
  have hl: "hd xs = xs ! 0" "last xs = xs ! (?n - 1)" using r(2) by (simp_all add: hd_conv_nth last_conv_nth)
  have idx: "xs ! i = xs ! j \<longleftrightarrow> i = j" if "i < ?n" "j < ?n" for i j using nth_eq_iff_index_eq [OF r(1) that] .
  have out: "xs ! i \<noteq> x" if "i < ?n" for i using assms(2) nth_mem [OF that] by metis
  have links: "pr_addr (ps' ((xs @ [x]) ! i)) = (xs @ [x]) ! i \<and> pr_next (ps' ((xs @ [x]) ! i)) = (xs @ [x]) ! (Suc i mod Suc ?n) \<and>
      pr_prev (ps' ((xs @ [x]) ! (Suc i mod Suc ?n))) = (xs @ [x]) ! i" if i: "i < Suc ?n" for i
  proof -
    consider "i = ?n" | "Suc i = ?n" | "Suc i < ?n" using i by linarith
    then show ?thesis
    proof cases
      case 1
      then show ?thesis using n out [of 0] assms(4,5) hl by (simp add: nth_append assms(7))
    next
      case 2
      then have "i = ?n - 1" "i < ?n" by simp_all
      then show ?thesis using 2 out r(8) [OF nth_mem] r(8) [OF nth_mem [OF n]] assms(6) hl by (simp add: nth_append assms(7))
    next
      case 3
      then have "i < ?n" "Suc i mod ?n = Suc i" "Suc i mod Suc ?n = Suc i" by simp_all
      then show ?thesis using 3 out idx hl r(8) [OF nth_mem] r(9,10) [of i] n by (auto simp: nth_append assms(7))
    qed
  qed
  have "ps' a = no_proposer" if "a \<notin> set (xs @ [x])" for a
    using that r(2,4) assms(7) by auto
  then show ?thesis unfolding linked_ring_def using links r(1,3) assms(2,3) by simp
qed

lemma linked_ring_upd:
  assumes "linked_ring ps xs" "\<And>a. pr_addr (qs a) = pr_addr (ps a) \<and> pr_next (qs a) = pr_next (ps a) \<and> pr_prev (qs a) = pr_prev (ps a)"
    "\<And>a. a \<notin> set xs \<Longrightarrow> qs a = ps a"
  shows "linked_ring qs xs"
  using assms unfolding linked_ring_def by simp

section \<open>Additions and rotations keep the ring\<close>

lemma add_proposer_ring:
  assumes "ring s xs" "add_proposer cfg ctx url s = Some s'" "rc_sender ctx \<noteq> 0"
  shows "ring s' (xs @ [rc_sender ctx])"
proof -
  let ?x = "rc_sender ctx" and ?ps = "rr_proposers s"
  have l: "linked_ring ?ps xs" and c: "rr_current s = ?ps (hd xs)" "rr_count s = length xs" "rr_escrow s = sum_list (map (\<lambda>a. pr_stake (?ps a)) xs)"
    using assms(1) by (simp_all add: ring_def)
  note r = linked_ringD [OF l]
  let ?p = "\<lparr>pr_stake = STAKE cfg, pr_addr = ?x, pr_url = url, pr_next = hd xs, pr_prev = last xs\<rparr>"
  let ?qs = "\<lambda>a. if a = ?x then ?p else if a = hd xs \<and> a = last xs then (?ps a)\<lparr>pr_prev := ?x, pr_next := ?x\<rparr>
       else if a = hd xs then (?ps a)\<lparr>pr_prev := ?x\<rparr> else if a = last xs then (?ps a)\<lparr>pr_next := ?x\<rparr> else ?ps a"
  have f: "pr_addr (?ps ?x) = 0" and ok: "rc_certified ctx" using assms(2) by (simp_all add: add_proposer_def Let_def split: if_splits)
  have out: "?x \<notin> set xs" using f r(8) [of ?x] assms(3) by metis
  have hl: "hd xs \<noteq> ?x" "last xs \<noteq> ?x" using out r(2) by (metis hd_in_set, metis last_in_set)
  have one: "hd (rotate1 xs) = hd xs \<longleftrightarrow> hd xs = last xs"
  proof -
    obtain y ys where "xs = y # ys" using r(2) by (cases xs) auto
    then show ?thesis using r(1) by (cases ys) auto
  qed
  have s': "rr_proposers s' = ?qs \<and> rr_current s' = ?qs (hd xs) \<and> rr_count s' = Suc (length xs) \<and> rr_escrow s' = rr_escrow s + STAKE cfg"
    using assms(2) hl one by (auto simp: add_proposer_def Let_def c(1,2) r(5-7) set_proposer_def fun_eq_iff split: if_splits)
  have "linked_ring ?qs (xs @ [?x])" by (rule linked_ring_insert [OF l out assms(3), of ?p]) simp_all
  moreover have "sum_list (map (\<lambda>a. pr_stake (?qs a)) (xs @ [?x])) = rr_escrow s'"
  proof -
    have "map (\<lambda>a. pr_stake (?qs a)) xs = map (\<lambda>a. pr_stake (?ps a)) xs" using out by auto
    then have "sum_list (map (\<lambda>a. pr_stake (?qs a)) (xs @ [?x])) = sum_list (map (\<lambda>a. pr_stake (?ps a)) xs) + STAKE cfg"
      by (simp only: map_append sum_list_append) simp
    then show ?thesis using s' c(3) by (simp only:)
  qed
  moreover have "hd (xs @ [?x]) = hd xs" using r(2) by simp
  ultimately show ?thesis unfolding ring_def using s' by (simp only: length_append) simp
qed

text \<open>A rotation that does not remove anybody.\<close>

lemma rotate_proposer_ring:
  assumes "ring s xs" "rotate_proposer cfg ctx s = Some s'" "LAZY_PENALTY cfg \<le> pr_stake (rr_proposers s (hd xs))"
  shows "ring s' (rotate1 xs)" "pr_stake (rr_proposers s a) \<le> pr_stake (rr_proposers s' a) + LAZY_PENALTY cfg"
proof -
  let ?ps = "rr_proposers s"
  have l: "linked_ring ?ps xs" and c: "rr_current s = ?ps (hd xs)" "rr_count s = length xs" "rr_escrow s = sum_list (map (\<lambda>a. pr_stake (?ps a)) xs)"
    using assms(1) by (simp_all add: ring_def)
  note r = linked_ringD [OF l]
  define fine where "fine = (if rc_l2 ctx = rr_start_l2 s then LAZY_PENALTY cfg else 0)"
  define qs where "qs = ?ps(hd xs := (?ps (hd xs))\<lparr>pr_stake := pr_stake (?ps (hd xs)) - fine\<rparr>)"
  have fine: "fine \<le> LAZY_PENALTY cfg" by (simp add: fine_def)
  have s': "rr_proposers s' = qs \<and> rr_current s' = qs (hd (rotate1 xs)) \<and> rr_count s' = length xs \<and> rr_escrow s' = rr_escrow s - fine"
    using assms(2,3)
    by (auto simp: fine_def qs_def rotate_proposer_def lazy_penalize_proposer_def restart_period_def set_proposer_def c(1,2) r(5,6) split: if_splits)
  show "pr_stake (?ps a) \<le> pr_stake (rr_proposers s' a) + LAZY_PENALTY cfg" using s' fine by (auto simp: qs_def)
  obtain y ys where xs: "xs = y # ys" using r(2) by (cases xs) auto
  have ys: "map (\<lambda>a. pr_stake (qs a)) ys = map (\<lambda>a. pr_stake (?ps a)) ys" using r(1) xs by (auto simp: qs_def)
  have y: "pr_stake (qs y) = pr_stake (?ps y) - fine" by (simp add: qs_def xs)
  have "fine \<le> pr_stake (?ps y)" using assms(3) fine xs by simp
  then have "sum_list (map (\<lambda>a. pr_stake (qs a)) (rotate1 xs)) = rr_escrow s - fine" by (simp add: c(3) xs ys y)
  moreover have "linked_ring qs (rotate1 xs)"
    unfolding qs_def by (rule linked_ring_rotate [OF linked_ring_stake [OF l hd_in_set [OF r(2)]]])
  ultimately show "ring s' (rotate1 xs)" unfolding ring_def using s' by simp
qed

text \<open>Rotations one after the other.\<close>

fun rotations :: "rr_config \<Rightarrow> rr_context list \<Rightarrow> round_robin \<Rightarrow> round_robin option" where
  "rotations cfg [] s = Some s"
| "rotations cfg (ctx # ctxs) s = Option.bind (rotate_proposer cfg ctx s) (rotations cfg ctxs)"

lemma rotations_ring:
  "ring s xs \<Longrightarrow> rotations cfg ctxs s = Some s' \<Longrightarrow> \<forall>a\<in>set xs. length ctxs * LAZY_PENALTY cfg \<le> pr_stake (rr_proposers s a) \<Longrightarrow>
   ring s' (rotate (length ctxs) xs)"
proof (induction ctxs arbitrary: s xs)
  case (Cons ctx ctxs)
  obtain t where t: "rotate_proposer cfg ctx s = Some t" "rotations cfg ctxs t = Some s'"
    using Cons.prems(2) by (auto simp: bind_eq_Some_conv)
  have "xs \<noteq> []" using Cons.prems(1) by (auto simp: ring_def linked_ring_def)
  then have pay: "LAZY_PENALTY cfg \<le> pr_stake (rr_proposers s (hd xs))" using Cons.prems(3) by (auto dest!: bspec [OF _ hd_in_set])
  note rot = rotate_proposer_ring [OF Cons.prems(1) t(1) pay]
  have "\<forall>a\<in>set (rotate1 xs). length ctxs * LAZY_PENALTY cfg \<le> pr_stake (rr_proposers t a)"
  proof
    fix a
    assume "a \<in> set (rotate1 xs)"
    then have "Suc (length ctxs) * LAZY_PENALTY cfg \<le> pr_stake (rr_proposers s a)" using Cons.prems(3) by simp
    then show "length ctxs * LAZY_PENALTY cfg \<le> pr_stake (rr_proposers t a)" using rot(2) [of a] by simp
  qed
  from Cons.IH [OF rot(1) t(2) this] show ?case by (simp add: rotate1_rotate_swap)
qed simp

text \<open>The list of the proposers is the ring.\<close>

lemma follow_ring_eq:
  "linked_ring ps xs \<Longrightarrow> i < length xs \<Longrightarrow> i + n \<le> length xs \<Longrightarrow>
   follow_ring ps n (ps (xs ! i)) = map ps (take n (drop i xs))"
proof (induction n arbitrary: i)
  case (Suc n)
  show ?case
  proof (cases n)
    case 0
    then show ?thesis using Suc.prems(2) by (simp add: take_Suc_conv_app_nth)
  next
    case (Suc m)
    have i: "Suc i < length xs" using Suc.prems(3) Suc by simp
    then have "pr_next (ps (xs ! i)) = xs ! Suc i" using linked_ringD(9) [OF Suc.prems(1,2)] by simp
    then show ?thesis using Suc.IH [OF Suc.prems(1) i] Suc.prems by (simp add: Cons_nth_drop_Suc [symmetric])
  qed
qed simp

lemma ring_current:
  assumes "ring s xs"
  shows "get_current_proposer_address s = hd xs" "map pr_addr (get_proposers s) = xs"
proof -
  note r = linked_ringD [of "rr_proposers s" xs]
  have l: "linked_ring (rr_proposers s) xs" and c: "rr_current s = rr_proposers s (hd xs)" "rr_count s = length xs"
    using assms by (simp_all add: ring_def)
  show "get_current_proposer_address s = hd xs" using r(5) [OF l] c by (simp add: get_current_proposer_address_def)
  have "get_proposers s = map (rr_proposers s) xs"
    using follow_ring_eq [OF l, of 0 "length xs"] r(2) [OF l] by (simp add: get_proposers_def c hd_conv_nth)
  then show "map pr_addr (get_proposers s) = xs" using r(8) [OF l] by (simp add: map_idI)
qed

text \<open>C37. In a ring of n proposers whose stakes cover the penalties the office goes round: after k rotations it is with the proposer whose place was
  k modulo n, so that everybody has a turn in n rotations, also when nobody proposes; the contract lists the
  ring from the one in office, and what it holds in escrow is the sum of the stakes.\<close>

theorem rotation_is_fair:
  assumes "ring s xs" "rotations cfg ctxs s = Some s'"
    "\<forall>a\<in>set xs. length ctxs * LAZY_PENALTY cfg \<le> pr_stake (rr_proposers s a)"
  shows "get_current_proposer_address s' = xs ! (length ctxs mod length xs) \<and>
    map pr_addr (get_proposers s') = rotate (length ctxs) xs \<and> rr_escrow s' = sum_list (map pr_stake (get_proposers s'))"
proof -
  note r' = rotations_ring [OF assms]
  have l: "linked_ring (rr_proposers s') (rotate (length ctxs) xs)" and n: "xs \<noteq> []" using r' assms by (auto simp: ring_def linked_ring_def)
  have "get_proposers s' = map (rr_proposers s') (rotate (length ctxs) xs)"
    using follow_ring_eq [OF l, of 0 "length xs"] n r' by (simp add: get_proposers_def ring_def hd_conv_nth)
  then show ?thesis using ring_current [OF r'] r' n by (simp add: hd_rotate_conv_nth ring_def comp_def)
qed

section \<open>Removal of the next proposer\<close>

text \<open>A call of the contract; one that reverts leaves its state as it was. The owner can also replace the code, and say which contract counts the
  blocks of layer 2 (\<open>set_nightfall\<close>); the count is an argument of each call here.\<close>

datatype rr_call =
    CallBootstrap rr_context "160 word" string
  | CallAdd rr_context string
  | CallRemove rr_context
  | CallRotate rr_context
  | CallWithdraw rr_context bool nat

fun rr_exec :: "rr_config \<Rightarrow> rr_call \<Rightarrow> round_robin \<Rightarrow> round_robin option" where
  "rr_exec cfg (CallBootstrap ctx addr url) s = bootstrap_default_proposer cfg ctx addr url s"
| "rr_exec cfg (CallAdd ctx url) s = add_proposer cfg ctx url s"
| "rr_exec cfg (CallRemove ctx) s = remove_proposer cfg ctx s"
| "rr_exec cfg (CallRotate ctx) s = rotate_proposer cfg ctx s"
| "rr_exec cfg (CallWithdraw ctx t n) s = withdraw_stake ctx t n s"

fun rr_run :: "rr_config \<Rightarrow> rr_call list \<Rightarrow> round_robin \<Rightarrow> round_robin" where
  "rr_run cfg [] s = s"
| "rr_run cfg (c # cs) s = rr_run cfg cs (case rr_exec cfg c s of None \<Rightarrow> s | Some s' \<Rightarrow> s')"

fun call_context :: "rr_call \<Rightarrow> rr_context" where
  "call_context (CallBootstrap ctx addr url) = ctx"
| "call_context (CallAdd ctx url) = ctx"
| "call_context (CallRemove ctx) = ctx"
| "call_context (CallRotate ctx) = ctx"
| "call_context (CallWithdraw ctx t n) = ctx"

definition vacant :: "int \<Rightarrow> round_robin \<Rightarrow> bool" where
  "vacant l2 s \<longleftrightarrow> pr_addr (rr_current s) = 0 \<and> pr_addr (rr_proposers s 0) = 0 \<and> pr_stake (rr_proposers s 0) = 0 \<and> rr_start_l2 s = l2"

lemma vacant_no_rotation:
  assumes "vacant l2 s" "rc_l2 ctx = l2" "0 < LAZY_PENALTY cfg"
  shows "rotate_proposer cfg ctx s = None"
  using assms by (simp add: rotate_proposer_def vacant_def lazy_penalize_proposer_def remove_proposer_of_def)

lemma vacant_exec:
  assumes "vacant l2 s" "rr_exec cfg c s = Some s'" "rc_l2 (call_context c) = l2" "rc_sender (call_context c) \<noteq> 0" "0 < LAZY_PENALTY cfg"
    "\<And>ctx addr url. c \<noteq> CallBootstrap ctx addr url"
  shows "vacant l2 s'"
proof (cases c)
  case (CallBootstrap ctx addr url)
  then show ?thesis using assms(6) by blast
next
  case (CallAdd ctx url)
  then show ?thesis using assms(1-5) by (auto simp: add_proposer_def Let_def vacant_def set_proposer_def split: if_splits)
next
  case (CallRemove ctx)
  then show ?thesis using assms(1-5)
    by (auto simp: remove_proposer_def remove_proposer_of_def unlink_def Let_def vacant_def set_proposer_def no_proposer_def split: if_splits)
next
  case (CallRotate ctx)
  then show ?thesis using assms(1-5) vacant_no_rotation [OF assms(1) _ assms(5)] by simp
next
  case (CallWithdraw ctx t n)
  then show ?thesis using assms(1-5) by (auto simp: withdraw_stake_def vacant_def split: if_splits)
qed

text \<open>The office stays vacant until the owner bootstraps the contract again, which succeeds only when no proposer is left.\<close>

definition refilled :: "rr_config \<Rightarrow> int \<Rightarrow> rr_call list \<Rightarrow> round_robin \<Rightarrow> bool" where
  "refilled cfg l2 cs s \<longleftrightarrow> (\<exists>cs1 ctx addr url cs2. cs = cs1 @ CallBootstrap ctx addr url # cs2 \<and> vacant l2 (rr_run cfg cs1 s) \<and>
     rr_count (rr_run cfg cs1 s) = 0 \<and> bootstrap_default_proposer cfg ctx addr url (rr_run cfg cs1 s) \<noteq> None)"

lemma refilled_later:
  assumes "refilled cfg l2 cs (rr_run cfg [c] s)"
  shows "refilled cfg l2 (c # cs) s"
proof -
  obtain cs1 ctx addr url cs2 where r: "cs = cs1 @ CallBootstrap ctx addr url # cs2" "vacant l2 (rr_run cfg cs1 (rr_run cfg [c] s))"
    "rr_count (rr_run cfg cs1 (rr_run cfg [c] s)) = 0" "bootstrap_default_proposer cfg ctx addr url (rr_run cfg cs1 (rr_run cfg [c] s)) \<noteq> None"
    using assms unfolding refilled_def by blast
  have "rr_run cfg (c # cs1) s = rr_run cfg cs1 (rr_run cfg [c] s)" by simp
  then show ?thesis unfolding refilled_def using r by (metis append_Cons)
qed

lemma vacant_run:
  "vacant l2 s \<Longrightarrow> list_all (\<lambda>c. rc_l2 (call_context c) = l2 \<and> rc_sender (call_context c) \<noteq> 0) cs \<Longrightarrow> 0 < LAZY_PENALTY cfg \<Longrightarrow>
   vacant l2 (rr_run cfg cs s) \<or> refilled cfg l2 cs s"
proof (induction cs arbitrary: s)
  case (Cons c cs)
  show ?case
  proof (cases "\<exists>ctx addr url. c = CallBootstrap ctx addr url \<and> bootstrap_default_proposer cfg ctx addr url s \<noteq> None")
    case True
    then obtain ctx addr url where b: "c = CallBootstrap ctx addr url" "bootstrap_default_proposer cfg ctx addr url s \<noteq> None" by blast
    then have "rr_count s = 0" by (simp add: bootstrap_default_proposer_def split: if_splits)
    then have "refilled cfg l2 (c # cs) s" unfolding refilled_def using b Cons.prems(1) by (intro exI [of _ "[]"]) auto
    then show ?thesis ..
  next
    case False
    have "vacant l2 (rr_run cfg [c] s)"
    proof (cases "rr_exec cfg c s")
      case (Some s')
      then have "\<And>ctx addr url. c \<noteq> CallBootstrap ctx addr url" using False by auto
      with Some show ?thesis using vacant_exec [OF Cons.prems(1) Some _ _ Cons.prems(3)] Cons.prems(2) by simp
    qed (use Cons.prems(1) in simp)
    then have "vacant l2 (rr_run cfg cs (rr_run cfg [c] s)) \<or> refilled cfg l2 cs (rr_run cfg [c] s)"
      using Cons.IH Cons.prems(2,3) by simp
    then show ?thesis using refilled_later by fastforce
  qed
qed simp

lemma unlink_next:
  assumes "ring s (a # b # c # ds)" "remove_proposer cfg ctx s = Some s'" "rc_sender ctx = b"
  shows "rr_current s' = rr_proposers s a" "pr_next (rr_proposers s a) = b" "rr_proposers s' b = no_proposer"
    "pr_stake (rr_proposers s' a) = pr_stake (rr_proposers s a)" "rr_proposers s' 0 = no_proposer" "b \<noteq> 0" "a \<noteq> b" "a \<noteq> 0"
proof -
  have l: "linked_ring (rr_proposers s) (a # b # c # ds)" and cu: "rr_current s = rr_proposers s a" "rr_count s = Suc (Suc (Suc (length ds)))"
    using assms(1) by (simp_all add: ring_def)
  note r = linked_ringD [OF l]
  show ab: "a \<noteq> b" and b: "b \<noteq> 0" and a: "a \<noteq> 0" using r(1,3) by auto
  have bc: "b \<noteq> c" and c: "c \<noteq> 0" using r(1,3) by auto
  show n: "pr_next (rr_proposers s a) = b" using r(6) by simp
  have nb: "pr_next (rr_proposers s b) = c" using r(9) [of 1] by simp
  have pb: "pr_prev (rr_proposers s b) = a" using r(10) [of 0] by simp
  have z: "rr_proposers s 0 = no_proposer" using r(3,4) by blast
  have ha: "pr_addr (rr_proposers s a) = a" using r(5) by simp
  note d = assms(2) [unfolded remove_proposer_def remove_proposer_of_def assms(3) cu(1) ha]
  have u: "unlink b s = Some s'" using d ab by (simp split: if_splits)
  note u' = u [unfolded unlink_def nb pb]
  show "rr_current s' = rr_proposers s a" "rr_proposers s' b = no_proposer"
    "pr_stake (rr_proposers s' a) = pr_stake (rr_proposers s a)" "rr_proposers s' 0 = no_proposer"
    using u' ab b a c bc z by (auto simp: Let_def set_proposer_def cu split: if_splits)
qed

text \<open>C38. When the proposer after the one in office leaves a ring of three or more, the contract keeps a copy of the one in office that still names
  it. When the stake of the one in office covers the penalty for not proposing (which is positive), the next rotation then puts nobody in office (the address 0). From
  then on, as long as no block of layer 2 comes, which only the proposer in office may propose, and the owner does not replace the code or the contract that counts these blocks, additions, removals, withdrawals
  and rotations put nobody in office, whoever calls them: every rotation reverts. The only way out is that every proposer
  leaves (the count of the proposers is zero) and the owner bootstraps the contract again.\<close>

theorem removal_ends_rotation:
  assumes "ring s (a # b # c # ds)" "remove_proposer cfg ctx s = Some s1" "rc_sender ctx = b"
    "rotate_proposer cfg ctx' s1 = Some s2" "LAZY_PENALTY cfg \<le> pr_stake (rr_proposers s a)" "0 < LAZY_PENALTY cfg"
    "list_all (\<lambda>c. rc_l2 (call_context c) = rr_start_l2 s2 \<and> rc_sender (call_context c) \<noteq> 0) cs"
  shows "get_current_proposer_address s2 = 0 \<and>
    (get_current_proposer_address (rr_run cfg cs s2) = 0 \<and>
       (rc_l2 ctx'' = rr_start_l2 s2 \<longrightarrow> rotate_proposer cfg ctx'' (rr_run cfg cs s2) = None) \<or>
     (\<exists>cs1 bctx addr url cs2. cs = cs1 @ CallBootstrap bctx addr url # cs2 \<and>
        get_current_proposer_address (rr_run cfg cs1 s2) = 0 \<and> rr_count (rr_run cfg cs1 s2) = 0 \<and>
        bootstrap_default_proposer cfg bctx addr url (rr_run cfg cs1 s2) \<noteq> None))"
proof -
  note u = unlink_next [OF assms(1-3)]
  have "pr_addr (rr_proposers s a) = a" using linked_ringD(5) assms(1) by (force simp: ring_def)
  then have v: "vacant (rr_start_l2 s2) s2"
    using assms(4,5) u
    by (auto simp: rotate_proposer_def lazy_penalize_proposer_def vacant_def restart_period_def set_proposer_def no_proposer_def split: if_splits)
  have nobody: "get_current_proposer_address t = 0" if "vacant l t" for l t
    using that by (simp add: get_current_proposer_address_def vacant_def)
  from vacant_run [OF v assms(7,6)] show ?thesis
  proof
    assume w: "vacant (rr_start_l2 s2) (rr_run cfg cs s2)"
    have "rc_l2 ctx'' = rr_start_l2 s2 \<longrightarrow> rotate_proposer cfg ctx'' (rr_run cfg cs s2) = None"
      using vacant_no_rotation [OF w _ assms(6)] by blast
    then show ?thesis using nobody [OF v] nobody [OF w] by blast
  next
    assume "refilled cfg (rr_start_l2 s2) cs s2"
    then show ?thesis using nobody v unfolding refilled_def by metis
  qed
qed

section \<open>Examples\<close>

definition rr_config_ex :: rr_config where
  "rr_config_ex = \<lparr>STAKE = 5, LAZY_PENALTY = 2, EXIT_PENALTY = 1, COOLDOWN_BLOCKS = 3, ROTATION_BLOCKS = 4\<rparr>"

definition rr_empty :: round_robin where
  "rr_empty = \<lparr>rr_proposers = (\<lambda>_. no_proposer), rr_pending_withdraws = (\<lambda>_. 0), rr_urls = (\<lambda>_. False), rr_last_exit_block = (\<lambda>_. 0),
     rr_current = no_proposer, rr_start_l1 = 0, rr_start_l2 = 0, rr_count = 0, rr_escrow = 0\<rparr>"

definition rr_call_ex :: "160 word \<Rightarrow> nat \<Rightarrow> rr_context" where
  "rr_call_ex a n = \<lparr>rc_sender = a, rc_value = 5, rc_certified = True, rc_l1 = n, rc_l2 = 0\<rparr>"

definition rr_ex :: round_robin where
  "rr_ex = the (Option.bind (Option.bind (bootstrap_default_proposer rr_config_ex (rr_call_ex 7 2) 7 ''a'' rr_empty)
     (add_proposer rr_config_ex (rr_call_ex 8 2) ''b'')) (add_proposer rr_config_ex (rr_call_ex 9 2) ''c''))"

lemmas rr_ex_defs = rr_config_ex_def rr_empty_def rr_call_ex_def bootstrap_default_proposer_def add_proposer_def no_proposer_def
  set_proposer_def restart_period_def Let_def

lemma ring_start: "bootstrap_default_proposer cfg ctx a url rr_empty = Some s \<Longrightarrow> a \<noteq> 0 \<Longrightarrow> ring s [a]"
  by (auto simp: bootstrap_default_proposer_def Let_def restart_period_def ring_def linked_ring_def rr_empty_def split: if_splits)

lemma rr_ex_ring: "ring rr_ex [7, 8, 9]"
proof -
  obtain s1 where 1: "bootstrap_default_proposer rr_config_ex (rr_call_ex 7 2) 7 ''a'' rr_empty = Some s1"
    by (simp add: rr_ex_defs)
  obtain s2 where 2: "add_proposer rr_config_ex (rr_call_ex 8 2) ''b'' s1 = Some s2"
    using 1 by (auto simp: rr_ex_defs)
  have "\<exists>s3. add_proposer rr_config_ex (rr_call_ex 9 2) ''c'' s2 = Some s3" using 1 2 by (auto simp: rr_ex_defs)
  then have 3: "add_proposer rr_config_ex (rr_call_ex 9 2) ''c'' s2 = Some rr_ex" by (auto simp: rr_ex_def 1 2)
  have "ring s2 ([7] @ [8])" using add_proposer_ring [OF ring_start [OF 1] 2] by (simp add: rr_call_ex_def)
  from add_proposer_ring [OF this 3] show ?thesis by (simp add: rr_call_ex_def)
qed

lemma rr_ex_stakes: "a \<in> {7, 8, 9} \<Longrightarrow> pr_stake (rr_proposers rr_ex a) = 5" "rr_start_l1 rr_ex = 2" "rr_start_l2 rr_ex = 0"
  by (auto simp: rr_ex_def rr_ex_defs)

lemma rr_ex_rotations: "\<exists>s'. rotations rr_config_ex [rr_call_ex 7 80, rr_call_ex 7 200] rr_ex = Some s'"
  by (simp add: rr_ex_def rr_ex_defs rotate_proposer_def can_rotate_def lazy_penalize_proposer_def FINALIZATION_BLOCKS_def)

theorem rotation_is_fair_witness:
  "\<exists>s'. rotations rr_config_ex [rr_call_ex 7 80, rr_call_ex 7 200] rr_ex = Some s' \<and> get_current_proposer_address s' = 9 \<and>
     map pr_addr (get_proposers s') = [9, 7, 8]"
proof -
  obtain s' where s': "rotations rr_config_ex [rr_call_ex 7 80, rr_call_ex 7 200] rr_ex = Some s'" using rr_ex_rotations ..
  have "\<forall>a\<in>set [7, 8, 9]. length [rr_call_ex 7 80, rr_call_ex 7 200] * LAZY_PENALTY rr_config_ex \<le> pr_stake (rr_proposers rr_ex a)"
    by (simp add: rr_ex_stakes rr_config_ex_def)
  from rotation_is_fair [OF rr_ex_ring s' this] s' show ?thesis by (simp add: numeral_2_eq_2)
qed

lemma rr_ex_leaves:
  "\<exists>s1 s2. remove_proposer rr_config_ex (rr_call_ex 8 3) rr_ex = Some s1 \<and> rotate_proposer rr_config_ex (rr_call_ex 7 80) s1 = Some s2 \<and>
     rr_start_l2 s2 = 0"
  by (simp add: rr_ex_def rr_ex_defs rotate_proposer_def can_rotate_def lazy_penalize_proposer_def FINALIZATION_BLOCKS_def
      remove_proposer_def remove_proposer_of_def unlink_def)

theorem removal_ends_rotation_witness:
  "\<exists>s1 s2. remove_proposer rr_config_ex (rr_call_ex 8 3) rr_ex = Some s1 \<and> rotate_proposer rr_config_ex (rr_call_ex 7 80) s1 = Some s2 \<and>
     get_current_proposer_address (rr_run rr_config_ex [CallAdd (rr_call_ex 8 90) ''b'', CallRotate (rr_call_ex 7 200)] s2) = 0"
proof -
  obtain s1 s2 where s: "remove_proposer rr_config_ex (rr_call_ex 8 3) rr_ex = Some s1" "rotate_proposer rr_config_ex (rr_call_ex 7 80) s1 = Some s2"
    "rr_start_l2 s2 = 0" using rr_ex_leaves by blast
  let ?cs = "[CallAdd (rr_call_ex 8 90) ''b'', CallRotate (rr_call_ex 7 200)]"
  have no: "\<nexists>cs1 bctx addr url cs2. ?cs = cs1 @ CallBootstrap bctx addr url # cs2" by (auto simp: Cons_eq_append_conv)
  have stake: "LAZY_PENALTY rr_config_ex \<le> pr_stake (rr_proposers rr_ex 7)" "0 < LAZY_PENALTY rr_config_ex"
    by (simp_all add: rr_ex_stakes rr_config_ex_def)
  have calls: "list_all (\<lambda>c. rc_l2 (call_context c) = rr_start_l2 s2 \<and> rc_sender (call_context c) \<noteq> 0) ?cs"
    "rc_sender (rr_call_ex 8 3) = 8" by (simp_all add: s(3) rr_call_ex_def)
  have "get_current_proposer_address (rr_run rr_config_ex ?cs s2) = 0"
    using removal_ends_rotation [OF rr_ex_ring s(1) calls(2) s(2) stake calls(1)] no by blast
  then show ?thesis using s by blast
qed

end
