(* ===== verification/Client_Rest.thy ===== *)
theory Client_Rest
  imports Client_Contract Client_Blocks Round_Robin
begin

text \<open>
  The queries of the client's REST service (\<open>nightfall_client/src/drivers/rest\<close>: \<open>commitment.rs\<close>, \<open>request_status.rs\<close>,
  \<open>balance.rs\<close>, \<open>synchronisation.rs\<close>, \<open>proposers.rs\<close>) and the answers to rejected requests (\<open>mod.rs\<close>). A reply is a body and a
  status; bodies that are serialised to JSON are given as the value that is serialised. The paths, the methods and
  the decoding of the bodies of requests belong to the web framework and are not modelled.
\<close>

section \<open>Rejections\<close>

datatype ClientRejection =
    NoSuchToken | InvalidTokenId | RejInvalidRequestId | QueueFull | RejDatabaseError | InvalidCommitmentKey | CommitmentNotFound
  | RejProposerError | RequestNotFound | FailedDeEscrow | SynchronisationUnavailable

text \<open>What the framework hands to \<open>handle_rejection\<close>: no route, the program's own rejection, or another one.\<close>

datatype 'r rejection = NoRoute | OwnRejection 'r | OtherRejection

type_synonym 'a reply = "'a \<times> nat"

fun client_handle_rejection :: "ClientRejection rejection \<Rightarrow> string reply" where
  "client_handle_rejection NoRoute = (''NOT_FOUND'', 404)"
| "client_handle_rejection (OwnRejection e) =
     (case e of
        NoSuchToken \<Rightarrow> (''No such token'', 404)
      | InvalidTokenId \<Rightarrow> (''Invalid token id'', 400)
      | RejInvalidRequestId \<Rightarrow> (''Invalid request id'', 400)
      | QueueFull \<Rightarrow> (''Queue is full'', 503)
      | RejDatabaseError \<Rightarrow> (''Database error or duplicate transaction'', 500)
      | InvalidCommitmentKey \<Rightarrow> (''Invalid commitment key'', 400)
      | CommitmentNotFound \<Rightarrow> (''Commitment not found'', 404)
      | RejProposerError \<Rightarrow> (''Failed to get list of Proposers'', 503)
      | RequestNotFound \<Rightarrow> (''No such request'', 404)
      | FailedDeEscrow \<Rightarrow> (''Failed to de-escrow funds'', 400)
      | SynchronisationUnavailable \<Rightarrow> (''Synchronisation service unavailable'', 503))"
| "client_handle_rejection OtherRejection = (''INTERNAL_SERVER_ERROR'', 500)"

section \<open>Queries of the database\<close>

definition handle_get_commitment ::
    "(string \<Rightarrow> byte list option) \<Rightarrow> string \<Rightarrow> ('z, ClientRejection, CommitmentEntry reply) clientM" where
  "handle_get_commitment dec k =
     bindM (liftM (map_sum (\<lambda>_. Fails InvalidCommitmentKey) id (fr_from_hex_string dec k))) (\<lambda>parsed_key.
     bindM (get_commitment parsed_key) (\<lambda>r.
     case r of
       Some res \<Rightarrow> returnM (res, 200)
     | None \<Rightarrow> throwM (Fails CommitmentNotFound)))"

definition handle_get_all_commitments :: "('z, ClientRejection, CommitmentEntry list reply) clientM" where
  "handle_get_all_commitments =
     bindM (map_errM (\<lambda>_. Fails RejDatabaseError) get_all_commitments) (\<lambda>res. returnM (map snd res, 200))"

definition handle_get_request_status ::
    "(string \<Rightarrow> bool) \<Rightarrow> string \<Rightarrow> ('z, ClientRejection, Request reply) clientM" where
  "handle_get_request_status valid_uuid i =
     bindM (guardM (\<not> valid_uuid i) (Fails RejInvalidRequestId)) (\<lambda>_.
     bindM (get_request i) (\<lambda>r.
     case r of
       Some request \<Rightarrow> returnM (request, 200)
     | None \<Rightarrow> throwM (Fails RequestNotFound)))"

definition handle_get_queue_length :: "('z client_node_scheme, ClientRejection failure, nat reply) dbm" where
  "handle_get_queue_length = (\<lambda>w. (Inr (length (queue w), 200), w))"

text \<open>\<open>hex::encode\<close> of the big-endian bytes.\<close>

definition balance_text :: "(byte list \<Rightarrow> string) \<Rightarrow> fr254 \<Rightarrow> string" where
  "balance_text enc x = enc (be_bytes 32 (fr_val x))"

definition handle_get_balance ::
    "(byte list \<Rightarrow> string) \<Rightarrow> (string \<Rightarrow> byte list option) \<Rightarrow> (byte list \<Rightarrow> byte list) \<Rightarrow> string \<Rightarrow> string \<Rightarrow>
     ('z, ClientRejection, string reply) clientM" where
  "handle_get_balance enc dec sha256 erc_address token_id =
     (case to_nf_token_id_from_str dec sha256 erc_address token_id of
        Inl _ \<Rightarrow> throwM (Fails InvalidTokenId)
      | Inr nf_token_id \<Rightarrow>
          bindM (get_balance nf_token_id) (\<lambda>balance.
          case balance of
            Some b \<Rightarrow> returnM (balance_text enc b, 200)
          | None \<Rightarrow> throwM (Fails NoSuchToken)))"

definition handle_get_fee_balance :: "(byte list \<Rightarrow> string) \<Rightarrow> contract_client \<Rightarrow> ('z, ClientRejection, string reply) clientM" where
  "handle_get_fee_balance enc env =
     bindM (get_balance (get_fee_token_id env)) (\<lambda>balance.
     case balance of
       Some b \<Rightarrow> returnM (balance_text enc b, 200)
     | None \<Rightarrow> throwM (Fails NoSuchToken))"

section \<open>Queries of the chain\<close>

definition handle_get_l1_balance :: "(byte list \<Rightarrow> string) \<Rightarrow> 256 word option \<Rightarrow> ClientRejection + string reply" where
  "handle_get_l1_balance enc answer = map_sum id (\<lambda>b. (u256_to_hex_string enc b, 200)) (okS NoSuchToken answer)"

definition client_handle_synchronisation ::
    "('b, 'y) event_env_scheme \<Rightarrow> sync_answers \<Rightarrow> ('z client_state_scheme, ClientRejection failure, SynchronisationStatus) dbm" where
  "client_handle_synchronisation env answers =
     map_errM (map_failure (\<lambda>_. SynchronisationUnavailable)) (get_synchronisation_status env answers)"

definition handle_get_proposers :: "unit + Proposer list \<Rightarrow> ClientRejection + Proposer list" where
  "handle_get_proposers answer = map_sum (\<lambda>_. RejProposerError)
     (map (\<lambda>p. \<lparr>pr_stake = pr_stake p, pr_addr = pr_addr p, pr_url = pr_url p, pr_next = pr_next p, pr_prev = pr_prev p\<rparr>)) answer"

section \<open>What the queries answer\<close>

text \<open>The balance of a token is the sum of the values of the commitments that can be spent, modulo the order of the field, as 64
  hexadecimal digits; without such a commitment the answer is that there is no such token (404). The database is not changed, and
  the commitments of other tokens, or of other states, do not count.\<close>

theorem balance_reply:
  assumes "faults w = []" "hex_pair enc dec" "to_nf_token_id_from_str dec sha256 erc token_id = Inr t"
  shows "handle_get_balance enc dec sha256 erc token_id w =
    (if available t w = [] then (Inl (Fails NoSuchToken), w)
     else (Inr (balance_text enc (sum_list (map (\<lambda>e. pre_value (ce_preimage e)) (available t w))), 200), w)) \<and>
    fr_from_hex_string dec (balance_text enc x) = Inr x"
proof (rule conjI)
  show "handle_get_balance enc dec sha256 erc token_id w =
    (if available t w = [] then (Inl (Fails NoSuchToken), w)
     else (Inr (balance_text enc (sum_list (map (\<lambda>e. pre_value (ce_preimage e)) (available t w))), 200), w))"
    by (simp add: handle_get_balance_def assms(3) get_balance_def bindM_def expect_read_ok [OF assms(1)] returnM_def throwM_def)
  show "fr_from_hex_string dec (balance_text enc x) = Inr x"
    using hex_pairD [OF assms(2)] fr_val_256 [of x]
    by (simp add: balance_text_def fr_from_hex_string_def be_value_bytes strip_enc [OF assms(2)])
qed

text \<open>The state of a request that a client asks for: once the task of the queue has handled the request, the answer is
  \<open>Submitted\<close> if its handler succeeded and \<open>Failed\<close> if not, and the queue is shorter by one.\<close>

theorem status_reply:
  assumes "h = client_handler env appr escrow list_json secret prove proposers to_json withdraw_json rnd"
    "faults w = []" "queue w = q # qs" "find (\<lambda>r. req_uuid r = qr_uuid q) (requests w) \<noteq> None"
    "process_next h webhook_is_empty w = (Inr out, w')" "valid_uuid (qr_uuid q)"
  shows "let w1 = w\<lparr>queue := qs, requests := update_first (\<lambda>r. req_uuid r = qr_uuid q) (\<lambda>r. r\<lparr>req_status := Processing\<rparr>) (requests w)\<rparr>;
             r = fst (h (qr_transaction_request q) (qr_uuid q) w1)
         in (\<exists>doc. handle_get_request_status valid_uuid (qr_uuid q) w' = (Inr (doc, 200), w') \<and> req_uuid doc = qr_uuid q \<and>
               req_status doc = (case r of Inr _ \<Rightarrow> Submitted | Inl _ \<Rightarrow> Failed)) \<and>
            handle_get_queue_length w' = (Inr (length qs, 200), w')"
proof -
  have "kept_by_handler h" unfolding assms(1) by (rule client_handler_kept)
  then show ?thesis
  proof (rule process_next_ok [OF _ assms(2,3,4), where b = webhook_is_empty], goal_cases)
    case (1 r w2 d)
    then have "faults w' = []" "queue w' = qs" "find (\<lambda>r. req_uuid r = qr_uuid q) (requests w') = Some d" using assms(5) by simp_all
    moreover from this(3) have "req_uuid d = qr_uuid q" by (auto simp: find_Some_iff)
    ultimately show ?case using 1(1,7) assms(6)
      by (simp add: Let_def handle_get_request_status_def get_request_def handle_get_queue_length_def bindM_def bindO_def try_read_ok returnM_def)
  next
    case 2
    then show ?case using assms(5) by simp
  qed
qed

text \<open>The list of the proposers is the ring, from the one in office on.\<close>

lemma proposers_reply: "ring s xs \<Longrightarrow> map_sum id (map pr_addr) (handle_get_proposers (Inr (get_proposers s))) = Inr xs"
  using ring_current(2) [of s xs] by (simp add: handle_get_proposers_def comp_def)

text \<open>No rejection is answered as a success.\<close>

lemma rejections_are_errors: "snd (client_handle_rejection r) \<in> {400, 404, 500, 503}"
  by (cases r) (auto split: ClientRejection.split)

section \<open>Examples\<close>

theorem balance_reply_witness:
  "\<exists>t. to_nf_token_id_from_str hex_decode_ex (\<lambda>bs. bs) ''0x01'' ''0x02'' = Inr t \<and>
    handle_get_balance (\<lambda>bs. concat (map hex02 bs)) hex_decode_ex (\<lambda>bs. bs) ''0x01'' ''0x02'' (client_ex []) = (Inl (Fails NoSuchToken), client_ex [])"
proof -
  have d: "hex_decode_ex ''01'' = Some [1]" "hex_decode_ex ''02'' = Some [2]" by code_simp+
  obtain t where t: "to_nf_token_id_from_str hex_decode_ex (\<lambda>bs. bs) ''0x01'' ''0x02'' = Inr t"
    by (simp add: to_nf_token_id_from_str_def bytes_from_hex_string_def d del: hex_decode_ex.simps)
  have "faults (client_ex []) = []" by (simp add: client_ex_def)
  from balance_reply [OF this hex_pair_ex t] t show ?thesis by (simp add: client_ex_def available_def)
qed

theorem status_reply_witness:
  "\<exists>doc. fst (handle_get_request_status (\<lambda>_. True) ''id'' (snd (process_next handler_ex True node_ex))) = Inr (doc, 200) \<and>
     (req_status doc = Submitted \<or> req_status doc = Failed)"
proof -
  have "faults node_ex = []" "queue node_ex = [\<lparr>qr_transaction_request = DepositRequest deposit_ex, qr_uuid = ''id''\<rparr>]"
    "find (\<lambda>r. req_uuid r = qr_uuid \<lparr>qr_transaction_request = DepositRequest deposit_ex, qr_uuid = ''id''\<rparr>) (requests node_ex) \<noteq> None"
    by (simp_all add: node_ex_def)
  from status_reply [OF handler_ex_def this node_ex_run, of "\<lambda>_. True"] show ?thesis
    unfolding node_ex_run by (auto simp: Let_def split: sum.splits)
qed

end
