(* ===== verification/Proposer_Rest.thy ===== *)
theory Proposer_Rest
  imports Client_Rest Proposer_Events
begin

text \<open>
  The REST service of the proposer (\<open>nightfall_proposer/src/drivers/rest\<close>: \<open>proposers.rs\<close>, \<open>client_transactions.rs\<close>,
  \<open>block_data.rs\<close>, \<open>synchronisation.rs\<close>) and the answers to rejected requests (\<open>mod.rs\<close>), composed with the round robin contract.
  What only goes to the log is not modelled.
\<close>

section \<open>Rejections\<close>

datatype ProposerRejection =
    BlockDataUnavailable | ClientTransactionFailed | FailedToRotateProposer | FailedToAddProposer | FailedToRemoveProposer
  | FailedToWithdrawStake | RejProviderError

fun proposer_handle_rejection :: "ProposerRejection rejection \<Rightarrow> string reply" where
  "proposer_handle_rejection (OwnRejection e) =
     (case e of
        BlockDataUnavailable \<Rightarrow> (''Block data unavailable'', 503)
      | ClientTransactionFailed \<Rightarrow> (''Client transaction failed'', 400)
      | FailedToRotateProposer \<Rightarrow> (''Failed to rotate proposer'', 423)
      | FailedToAddProposer \<Rightarrow> (''Failed to add proposer'', 400)
      | FailedToRemoveProposer \<Rightarrow> (''Failed to remove proposer'', 400)
      | FailedToWithdrawStake \<Rightarrow> (''Failed to withdraw stake'', 400)
      | RejProviderError \<Rightarrow> (''Provider error'', 503))"
| "proposer_handle_rejection NoRoute = (''INTERNAL_SERVER_ERROR'', 500)"
| "proposer_handle_rejection OtherRejection = (''INTERNAL_SERVER_ERROR'', 500)"

section \<open>Calls of the contract\<close>

text \<open>A transaction is not sent, or sent without a receipt, or in a block: then the status of its receipt says whether it was executed
  (\<open>True\<close>) or reverted. Without a receipt the rejection is an error of the client's crate, which \<open>handle_rejection\<close> does
  not know.\<close>

datatype tx_answer = NotSent | NoTxReceipt | TxReceipt bool

definition receipt_of :: "ProposerRejection \<Rightarrow> tx_answer \<Rightarrow> ProposerRejection rejection + bool" where
  "receipt_of rejection answer =
     (case answer of
        NotSent \<Rightarrow> Inl (OwnRejection rejection)
      | NoTxReceipt \<Rightarrow> Inl OtherRejection
      | TxReceipt status \<Rightarrow> Inr status)"

definition handle_rotate_proposer :: "tx_answer \<Rightarrow> ProposerRejection rejection + nat" where
  "handle_rotate_proposer answer = bindS (receipt_of FailedToRotateProposer answer) (\<lambda>_. Inr 200)"

definition handle_add_proposer :: "(string \<Rightarrow> nat \<Rightarrow> tx_answer) \<Rightarrow> nat \<Rightarrow> string \<Rightarrow> ProposerRejection rejection + nat" where
  "handle_add_proposer send proposer_stake url =
     bindS (receipt_of FailedToAddProposer (send url proposer_stake)) (\<lambda>status.
     if status then Inr 200 else Inl (OwnRejection FailedToAddProposer))"

definition handle_remove_proposer :: "tx_answer \<Rightarrow> ProposerRejection rejection + nat" where
  "handle_remove_proposer answer =
     bindS (receipt_of FailedToRemoveProposer answer) (\<lambda>status.
     if status then Inr 200 else Inl (OwnRejection FailedToRemoveProposer))"

definition handle_withdraw_stake :: "(nat \<Rightarrow> tx_answer) \<Rightarrow> 64 word \<Rightarrow> ProposerRejection rejection + nat" where
  "handle_withdraw_stake send amount =
     bindS (receipt_of FailedToWithdrawStake (send (unat amount))) (\<lambda>status.
     if status then Inr 200 else Inl (OwnRejection FailedToWithdrawStake))"

section \<open>Transactions and the state of the proposer\<close>

definition handle_client_transaction ::
    "('p, 'e, 'y) proposer_env_scheme \<Rightarrow> 'p ClientTransaction \<Rightarrow> ('p, 'z, ProposerRejection failure, nat) proposerM" where
  "handle_client_transaction env transaction =
     bindM (map_errM (map_failure (\<lambda>_. ClientTransactionFailed)) (process_nightfall_client_transaction env transaction)) (\<lambda>_.
     returnM 201)"

definition handle_block_data :: "(('p, 'z) proposer_state_scheme, ProposerRejection, nat) dbm" where
  "handle_block_data = bindM (readM next_number) (\<lambda>n. okM BlockDataUnavailable (i256_to_u64 n))"

definition handle_synchronisation :: "(('p, 'z) proposer_state_scheme, ProposerRejection, string reply) dbm" where
  "handle_synchronisation = bindM (readM sync_status) (\<lambda>status.
     returnM (if is_synchronised status then (''Synchronised'', 200) else (''Not synchronised'', 200)))"

section \<open>What the answers say\<close>

text \<open>The receipt of a transaction that is in a block: the call was executed or it reverted.\<close>

definition mined :: "(round_robin \<Rightarrow> round_robin option) \<Rightarrow> round_robin \<Rightarrow> tx_answer" where
  "mined call s = TxReceipt (call s \<noteq> None)"

text \<open>The answers of the service against what the contract did. A proposer whose registration is answered with success is in the ring of
  the contract, in the last place, with the stake of the configuration, and one whose registration reverted is answered with a failure; a
  deregistration and a withdrawal of the stake are answered with success exactly when the contract executed them. The answer
  to a rotation says nothing: it is success also when the contract refused to rotate.\<close>

theorem answers_of_the_ring:
  assumes "ring s xs" "rc_sender ctx \<noteq> 0" "rc_value ctx = proposer_stake"
  shows "(handle_add_proposer (\<lambda>u v. mined (add_proposer cfg (ctx\<lparr>rc_value := v\<rparr>) u) s) proposer_stake url = Inr 200 \<longleftrightarrow>
      (\<exists>s'. add_proposer cfg ctx url s = Some s' \<and> map pr_addr (get_proposers s') = xs @ [rc_sender ctx] \<and>
         rr_escrow s' = rr_escrow s + proposer_stake)) \<and>
    (handle_remove_proposer (mined (remove_proposer cfg ctx) s) = Inr 200 \<longleftrightarrow> remove_proposer cfg ctx s \<noteq> None) \<and>
    (handle_withdraw_stake (\<lambda>n. mined (withdraw_stake ctx True n) s) amount = Inr 200 \<longleftrightarrow> unat amount \<le> rr_pending_withdraws s (rc_sender ctx)) \<and>
    handle_rotate_proposer (mined (rotate_proposer cfg ctx) s) = Inr 200"
proof (intro conjI)
  have same: "ctx\<lparr>rc_value := proposer_stake\<rparr> = ctx" using assms(3) by (cases ctx) simp
  have added: "map pr_addr (get_proposers s') = xs @ [rc_sender ctx] \<and> rr_escrow s' = rr_escrow s + proposer_stake"
    if "add_proposer cfg ctx url s = Some s'" for s'
  proof
    show "map pr_addr (get_proposers s') = xs @ [rc_sender ctx]" by (rule ring_current(2) [OF add_proposer_ring [OF assms(1) that assms(2)]])
    show "rr_escrow s' = rr_escrow s + proposer_stake"
      using that assms(3) by (auto simp: add_proposer_def Let_def set_proposer_def split: if_splits)
  qed
  show "handle_add_proposer (\<lambda>u v. mined (add_proposer cfg (ctx\<lparr>rc_value := v\<rparr>) u) s) proposer_stake url = Inr 200 \<longleftrightarrow>
      (\<exists>s'. add_proposer cfg ctx url s = Some s' \<and> map pr_addr (get_proposers s') = xs @ [rc_sender ctx] \<and>
         rr_escrow s' = rr_escrow s + proposer_stake)"
    using added by (auto simp: handle_add_proposer_def mined_def receipt_of_def same)
  show "handle_remove_proposer (mined (remove_proposer cfg ctx) s) = Inr 200 \<longleftrightarrow> remove_proposer cfg ctx s \<noteq> None"
    by (simp add: handle_remove_proposer_def mined_def receipt_of_def)
  show "handle_withdraw_stake (\<lambda>n. mined (withdraw_stake ctx True n) s) amount = Inr 200 \<longleftrightarrow> unat amount \<le> rr_pending_withdraws s (rc_sender ctx)"
    by (simp add: handle_withdraw_stake_def mined_def receipt_of_def withdraw_stake_def)
  show "handle_rotate_proposer (mined (rotate_proposer cfg ctx) s) = Inr 200"
    by (simp add: handle_rotate_proposer_def mined_def receipt_of_def)
qed

theorem answers_of_the_ring_witness:
  "handle_rotate_proposer (mined (rotate_proposer rr_config_ex (rr_call_ex 4 3)) rr_ex) = Inr 200 \<and>
   rotate_proposer rr_config_ex (rr_call_ex 4 3) rr_ex = None"
proof
  have "rc_sender (rr_call_ex 4 3) \<noteq> 0" "rc_value (rr_call_ex 4 3) = 5" by (simp_all add: rr_call_ex_def)
  from answers_of_the_ring [OF rr_ex_ring this]
  show "handle_rotate_proposer (mined (rotate_proposer rr_config_ex (rr_call_ex 4 3)) rr_ex) = Inr 200" by blast
  show "rotate_proposer rr_config_ex (rr_call_ex 4 3) rr_ex = None"
    by (simp add: rotate_proposer_def can_rotate_def rr_ex_stakes rr_call_ex_def rr_config_ex_def FINALIZATION_BLOCKS_def)
qed

text \<open>A path that is not served is answered by the client with 404 and by the proposer as an error of the server.\<close>

lemma unknown_route: "client_handle_rejection NoRoute = (''NOT_FOUND'', 404)" "proposer_handle_rejection NoRoute = (''INTERNAL_SERVER_ERROR'', 500)"
  by simp_all

text \<open>A transaction is answered with \<open>CREATED\<close> exactly when it was accepted.\<close>

lemma transaction_reply:
  "fst (handle_client_transaction env tx w) = Inr n \<longleftrightarrow> n = 201 \<and> fst (process_nightfall_client_transaction env tx w) = Inr ()"
  by (auto simp: handle_client_transaction_def bindM_def map_errM_def returnM_def split: prod.splits sum.splits)

end
