(* ===== verification/Key_Derivation.thy ===== *)
theory Key_Derivation
  imports Kemdem Client_Rest
begin

text \<open>
  The keys of a client (\<open>nightfall_client/src/drivers/derive_key.rs\<close>) and the request that derives them (\<open>drivers/rest/keys.rs\<close>). The
  derivation of a private key from a seed (BIP32), the mnemonics (BIP39), the reduction of bytes to the scalars of baby Jubjub, the
  multiplication of its generator and its compressed points are parameters. The keys are also stored in a variable of the program,
  from which the event handler and the operations take them; it is the state here.
\<close>

definition PRIVATE_KEY_PREFIX :: fr254 where
  "PRIVATE_KEY_PREFIX = fr 2708019456231621178814538244712057499818649907582893776052749473028258908910"

definition NULLIFIER_PREFIX :: fr254 where
  "NULLIFIER_PREFIX = fr 7805187439118198468809896822299973897593108379494079213870562208229492109015"

datatype key_error = BadKeyDerivation | BadPublicKey string | PrimeFieldRepr string | KeyHashError | KeyNotFound

fun key_error_text :: "key_error \<Rightarrow> string" where
  "key_error_text BadKeyDerivation = ''BadKeyDerivation''"
| "key_error_text (BadPublicKey e) = e"
| "key_error_text (PrimeFieldRepr e) = e"
| "key_error_text KeyHashError = ''HashError''"
| "key_error_text KeyNotFound = ''Key lookup failed''"

record 'b ZKPKeys =
  zk_root_key :: fr254
  zk_nullifier_key :: fr254
  zk_private_key :: 'b
  zk_public_key :: TEAffine

record 'b key_env =
  ke_poseidon :: poseidon
  ke_scalar :: "byte list \<Rightarrow> 'b"
  ke_mul :: "TEAffine \<Rightarrow> 'b \<Rightarrow> TEAffine"
  ke_generator :: TEAffine

definition zkp_keys_new :: "('b, 'y) key_env_scheme \<Rightarrow> fr254 \<Rightarrow> ('b ZKPKeys, key_error, 'b ZKPKeys) dbm" where
  "zkp_keys_new env root_key =
     (let zkp_private_key_bytes = okS KeyHashError (ke_poseidon env [root_key, PRIVATE_KEY_PREFIX]);
          nullifier_key_bytes = okS KeyHashError (ke_poseidon env [root_key, NULLIFIER_PREFIX])
      in bindM (liftM nullifier_key_bytes) (\<lambda>nullifier_key.
         bindM (liftM zkp_private_key_bytes) (\<lambda>private_bytes.
         (let zkp_private_key = ke_scalar env (be_bytes 32 (fr_val private_bytes));
              zkp_keys = \<lparr>zk_root_key = root_key, zk_nullifier_key = nullifier_key, zk_private_key = zkp_private_key,
                zk_public_key = ke_mul env (ke_generator env) zkp_private_key\<rparr>
          in (\<lambda>_. (Inr zkp_keys, zkp_keys))))))"

text \<open>\<open>seed\<close> is what \<open>to_seed\<close> answers for the mnemonic, \<open>derive\<close> the private key of BIP32 for a seed and a path.\<close>

definition derive_from_mnemonic ::
    "('b, 'y) key_env_scheme \<Rightarrow> ('m \<Rightarrow> byte list) \<Rightarrow> (byte list \<Rightarrow> 'd \<Rightarrow> byte list option) \<Rightarrow> 'm \<Rightarrow> 'd \<Rightarrow> ('b ZKPKeys, key_error, 'b ZKPKeys) dbm" where
  "derive_from_mnemonic env seed derive mnemonic path =
     bindM (okM BadKeyDerivation (derive (seed mnemonic) path)) (\<lambda>root_key_bytes.
     zkp_keys_new env (fr (be_value root_key_bytes)))"

definition compressed_public_key :: "(TEAffine \<Rightarrow> string + byte list) \<Rightarrow> 'b ZKPKeys \<Rightarrow> key_error + byte list" where
  "compressed_public_key ser keys = map_sum BadPublicKey id (ser (zk_public_key keys))"

definition decompress_public_key :: "(byte list \<Rightarrow> string + TEAffine) \<Rightarrow> byte list \<Rightarrow> key_error + TEAffine" where
  "decompress_public_key de compressed = map_sum BadPublicKey id (de compressed)"

definition get_nullifier_key :: "'b ZKPKeys \<Rightarrow> fr254" where
  "get_nullifier_key keys = zk_nullifier_key keys"

section \<open>The request\<close>

record KeyRequest =
  kr_mnemonic :: string
  kr_child_path :: string

text \<open>A mnemonic or a path that does not parse is a rejection of its own type, which \<open>handle_rejection\<close> does not know.\<close>

definition handle_derive_key ::
    "('b, 'y) key_env_scheme \<Rightarrow> ('m \<Rightarrow> byte list) \<Rightarrow> (byte list \<Rightarrow> 'd \<Rightarrow> byte list option) \<Rightarrow> (string \<Rightarrow> 'm option) \<Rightarrow> (string \<Rightarrow> 'd option) \<Rightarrow>
     KeyRequest \<Rightarrow> ('b ZKPKeys, ClientRejection rejection, 'b ZKPKeys reply) dbm" where
  "handle_derive_key env seed derive parse_mnemonic parse_path key_request =
     bindM (okM OtherRejection (parse_mnemonic (kr_mnemonic key_request))) (\<lambda>valid_mnemonic.
     bindM (okM OtherRejection (parse_path (kr_child_path key_request))) (\<lambda>valid_derivation_path.
     bindM (map_errM (\<lambda>_. NoRoute) (derive_from_mnemonic env seed derive valid_mnemonic valid_derivation_path)) (\<lambda>k.
     returnM (k, 200))))"

section \<open>What the keys are good for\<close>

lemma zkp_keys_new_run:
  assumes "poseidon_ok (ke_poseidon env)"
  shows "\<exists>k. zkp_keys_new env r stored = (Inr k, k) \<and> zk_root_key k = r \<and> ke_poseidon env [r, NULLIFIER_PREFIX] = Some (zk_nullifier_key k) \<and>
    zk_public_key k = ke_mul env (ke_generator env) (zk_private_key k)"
proof -
  have "\<exists>y. ke_poseidon env [r, x] = Some y" for x by (rule poseidon_okD [OF assms]) simp
  then obtain p n where "ke_poseidon env [r, PRIVATE_KEY_PREFIX] = Some p" "ke_poseidon env [r, NULLIFIER_PREFIX] = Some n" by blast
  then show ?thesis by (simp add: zkp_keys_new_def Let_def)
qed

text \<open>C39. A client whose keys are derived from a mnemonic can read what is sent to it: the request answers with the keys, stores the same keys
  for the event handler, the stored nullifier key is the hash of the root key, and what somebody encrypts for the public key of the answer is decrypted
  with the stored private key, together with the salt of the commitment. A failed request keeps the keys that were stored. This needs
  that the two ways to compute the shared point agree and that a compressed point is read back.\<close>

theorem derived_keys_decrypt:
  assumes "poseidon_ok (ke_poseidon env)" "length plain = 3" "de_point (compress_point (ke_mul env (ke_generator env) esk)) = Some (ke_mul env (ke_generator env) esk)"
    "\<And>a b. ke_mul env (ke_mul env (ke_generator env) a) b = ke_mul env (ke_mul env (ke_generator env) b) a"
  shows "case handle_derive_key env seed derive parse_mnemonic parse_path req stored of
      (Inr (keys, status), stored') \<Rightarrow> status = 200 \<and> stored' = keys \<and>
        ke_poseidon env [zk_root_key keys, NULLIFIER_PREFIX] = Some (get_nullifier_key stored') \<and>
        (\<exists>ct. kemdem_encrypt (ke_poseidon env) (ke_mul env) False esk (zk_public_key keys) plain (ke_generator env) = Some ct \<and>
           kemdem_decrypt (ke_poseidon env) (ke_mul env) de_point (zk_private_key stored') ct =
             Some (plain @ [te_y (ke_mul env (zk_public_key keys) esk)]))
    | (Inl e, stored') \<Rightarrow> stored' = stored \<and> (parse_mnemonic (kr_mnemonic req) = None \<or> parse_path (kr_child_path req) = None \<or>
        (\<exists>m d. parse_mnemonic (kr_mnemonic req) = Some m \<and> derive (seed m) d = None))"
proof -
  let ?g = "ke_generator env"
  have reads: "\<exists>ct. kemdem_encrypt (ke_poseidon env) (ke_mul env) False esk (zk_public_key k) plain ?g = Some ct \<and>
        kemdem_decrypt (ke_poseidon env) (ke_mul env) de_point (zk_private_key k) ct = Some (plain @ [te_y (ke_mul env (zk_public_key k) esk)])"
    if "zk_public_key k = ke_mul env ?g (zk_private_key k)" for k :: "'a ZKPKeys"
    using kemdem_inverse [where de_point = de_point and smul = "ke_mul env" and g = ?g and rsk = "zk_private_key k" and esk = esk, OF assms(1-3) assms(4)]
    unfolding that by metis
  show ?thesis
  proof (cases "parse_mnemonic (kr_mnemonic req)")
    case (Some m)
    note m = this
    show ?thesis
    proof (cases "parse_path (kr_child_path req)")
      case (Some d)
      show ?thesis
      proof (cases "derive (seed m) d")
        case None
        then show ?thesis using m Some
          by (simp add: handle_derive_key_def derive_from_mnemonic_def map_errM_def throwM_def bindM_def) blast
      next
        case (Some bytes)
        obtain k where k: "zkp_keys_new env (fr (be_value bytes)) stored = (Inr k, k)" "zk_root_key k = fr (be_value bytes)"
          "ke_poseidon env [fr (be_value bytes), NULLIFIER_PREFIX] = Some (zk_nullifier_key k)" "zk_public_key k = ke_mul env ?g (zk_private_key k)"
          using zkp_keys_new_run [OF assms(1)] by blast
        have "handle_derive_key env seed derive parse_mnemonic parse_path req stored = (Inr (k, 200), k)"
          using m \<open>parse_path _ = Some d\<close> Some k(1) by (simp add: handle_derive_key_def derive_from_mnemonic_def map_errM_def returnM_def bindM_def)
        then show ?thesis using reads [OF k(4)] k(2,3) by (simp add: get_nullifier_key_def)
      qed
    qed (use m in \<open>simp add: handle_derive_key_def throwM_def bindM_def\<close>)
  qed (simp add: handle_derive_key_def throwM_def bindM_def)
qed

section \<open>Example\<close>

text \<open>Points of which the second coordinate counts; addition in the place of multiplication.\<close>

definition key_env_ex :: "nat key_env" where
  "key_env_ex = \<lparr>ke_poseidon = sum_hash, ke_scalar = (\<lambda>bs. be_value bs mod 7), ke_mul = (\<lambda>p n. p\<lparr>te_y := te_y p + fr n\<rparr>),
     ke_generator = \<lparr>te_x = 0, te_y = fr 3\<rparr>\<rparr>"

definition te_keys :: "nat ZKPKeys" where
  "te_keys = \<lparr>zk_root_key = 0, zk_nullifier_key = 0, zk_private_key = 0, zk_public_key = te_zero\<rparr>"

theorem derived_keys_decrypt_witness:
  "\<exists>keys ct. handle_derive_key key_env_ex (\<lambda>_. [5]) (\<lambda>bs d. Some (d # bs)) (\<lambda>s. Some s) (\<lambda>_. Some 2) \<lparr>kr_mnemonic = ''m'', kr_child_path = ''c''\<rparr> te_keys =
       (Inr (keys, 200), keys) \<and>
     kemdem_decrypt sum_hash (ke_mul key_env_ex) (de_point_ex (ke_mul key_env_ex (ke_generator key_env_ex) 4)) (zk_private_key keys) ct =
       Some ([1, 0, 1] @ [te_y (ke_mul key_env_ex (zk_public_key keys) 4)])"
proof -
  let ?run = "handle_derive_key key_env_ex (\<lambda>_. [5]) (\<lambda>bs d. Some (d # bs)) (\<lambda>s. Some s) (\<lambda>_. Some 2) \<lparr>kr_mnemonic = ''m'', kr_child_path = ''c''\<rparr> te_keys"
  have p: "poseidon_ok (ke_poseidon key_env_ex)" "ke_poseidon key_env_ex = sum_hash" by (simp_all add: key_env_ex_def poseidon_ok_sum)
  have dec: "de_point_ex (ke_mul key_env_ex (ke_generator key_env_ex) 4) (compress_point (ke_mul key_env_ex (ke_generator key_env_ex) 4)) =
      Some (ke_mul key_env_ex (ke_generator key_env_ex) 4)" by (simp add: de_point_ex_def)
  have mul: "ke_mul key_env_ex (ke_mul key_env_ex (ke_generator key_env_ex) a) b =
      ke_mul key_env_ex (ke_mul key_env_ex (ke_generator key_env_ex) b) a" for a b
    by (simp add: key_env_ex_def ac_simps)
  have len: "length [1, 0, 1 :: fr254] = 3" by simp
  obtain r s where run: "?run = (r, s)" by force
  note t = derived_keys_decrypt [where env = key_env_ex and esk = 4 and plain = "[1, 0, 1]" and
        de_point = "de_point_ex (ke_mul key_env_ex (ke_generator key_env_ex) 4)" and seed = "\<lambda>_. [5]" and derive = "\<lambda>bs d. Some (d # bs)" and parse_mnemonic = "\<lambda>s. Some s" and
        parse_path = "\<lambda>_. Some 2" and req = "\<lparr>kr_mnemonic = ''m'', kr_child_path = ''c''\<rparr>" and stored = te_keys, OF p(1) len dec mul]
  show ?thesis using t [unfolded run p(2)] unfolding run p(2) by (cases r) auto
qed

end
