(* ===== verification/Certificates.thy ===== *)
theory Certificates
  imports Proposer_Rest
begin

text \<open>
  The certification of a client or a proposer (\<open>lib/src/validate_certificate.rs\<close>): a form with a certificate and its private key is
  checked and enrolled by the X509 contract, which is a parameter: its state, its two queries and the effect of its call
  \<open>validateCertificate\<close>. The signature is a parameter as well.
\<close>

section \<open>The form\<close>

text \<open>A part of the form is malformed, or has a name and data, the stream of which may break off.\<close>

datatype form_part = MalformedPart | BrokenPart string | FormPart string "byte list"

record CertificateReq =
  cr_private_key :: "byte list"
  cr_certificate :: "byte list"

datatype certification_reply = BadRequest string | Certified bool

text \<open>Only the data of a part that is complete is stored; a later part with the same name replaces it.\<close>

fun read_parts :: "form_part list \<Rightarrow> CertificateReq \<Rightarrow> string + certification_reply + CertificateReq" where
  "read_parts [] req = Inr (Inr req)"
| "read_parts (MalformedPart # ps) req = Inl ''Malformed multipart form''"
| "read_parts (BrokenPart field_name # ps) req = Inl ''Malformed upload stream''"
| "read_parts (FormPart field_name form_data # ps) req =
     (if field_name = ''certificate'' then read_parts ps (req\<lparr>cr_certificate := form_data\<rparr>)
      else if field_name \<in> {''certificate_private_key'', ''priv_key'', ''private_key''} then read_parts ps (req\<lparr>cr_private_key := form_data\<rparr>)
      else Inr (Inl (BadRequest ''Unexpected form field'')))"

section \<open>The contract\<close>

record CertificateArgs =
  ca_certificate :: "byte list"
  ca_tlv_length :: nat
  ca_signature :: "byte list"
  ca_is_end_user :: bool
  ca_check_only :: bool
  ca_oid_group :: nat
  ca_addr :: "160 word"

record 's x509 =
  x_tlvs :: "byte list \<Rightarrow> 's \<Rightarrow> nat option"
  x_validate :: "CertificateArgs \<Rightarrow> 's \<Rightarrow> tx_answer \<times> 's"
  x_check :: "160 word \<Rightarrow> 's \<Rightarrow> bool option"

text \<open>The receipt is awaited, its status is not read.\<close>

definition validate_certificate ::
    "('s, 'y) x509_scheme \<Rightarrow> byte list \<Rightarrow> byte list \<Rightarrow> bool \<Rightarrow> bool \<Rightarrow> nat \<Rightarrow> 160 word \<Rightarrow> ('s, unit, unit) dbm" where
  "validate_certificate x certificate address_signature is_end_user check_only oid_group sender_address = (\<lambda>s.
     bindM (okM () (x_tlvs x certificate s)) (\<lambda>number_of_tlvs s.
     (case x_validate x \<lparr>ca_certificate = certificate, ca_tlv_length = number_of_tlvs, ca_signature = address_signature,
            ca_is_end_user = is_end_user, ca_check_only = check_only, ca_oid_group = oid_group, ca_addr = sender_address\<rparr> s of
        (NotSent, s') \<Rightarrow> (Inl (), s')
      | (NoTxReceipt, s') \<Rightarrow> (Inl (), s')
      | (TxReceipt status, s') \<Rightarrow> (Inr (), s'))) s)"

definition handle_certificate_validation ::
    "('s, 'y) x509_scheme \<Rightarrow> (byte list \<Rightarrow> 160 word \<Rightarrow> byte list option) \<Rightarrow> 160 word \<Rightarrow> form_part list \<Rightarrow>
     ('s, string, certification_reply) dbm" where
  "handle_certificate_validation x sign requestor_address parts =
     bindM (liftM (read_parts parts \<lparr>cr_private_key = [], cr_certificate = []\<rparr>)) (\<lambda>form.
     case form of
       Inl reply \<Rightarrow> returnM reply
     | Inr req \<Rightarrow>
         if cr_certificate req = [] then returnM (BadRequest ''Missing 'certificate' field or empty file'')
         else if cr_private_key req = [] then returnM (BadRequest ''Missing 'priv_key' field or empty file'')
         else
           (case sign (cr_private_key req) requestor_address of
              None \<Rightarrow> returnM (Certified False)
            | Some address_signature \<Rightarrow> (\<lambda>s.
                (case validate_certificate x (cr_certificate req) address_signature True True 0 requestor_address s of
                   (Inl _, s1) \<Rightarrow> (Inr (Certified False), s1)
                 | (Inr _, s1) \<Rightarrow>
                     bindM (ignoreM (validate_certificate x (cr_certificate req) address_signature True False 0 requestor_address)) (\<lambda>_ s2.
                     bindM (okM ''Failed to query on-chain certification state'' (x_check x requestor_address s2)) (\<lambda>c. returnM (Certified c)) s2)
                     s1))))"

section \<open>What the answer means\<close>

text \<open>The law of the contract that the answer rests on: a call that only checks leaves the bindings as they are.\<close>

definition check_only_is_pure :: "('s, 'y) x509_scheme \<Rightarrow> bool" where
  "check_only_is_pure x \<longleftrightarrow> (\<forall>args s a. ca_check_only args \<longrightarrow> x_check x a (snd (x_validate x args s)) = x_check x a s)"

lemma read_parts_reply: "read_parts parts req = Inr (Inl reply) \<Longrightarrow> \<exists>m. reply = BadRequest m"
  by (induction parts req rule: read_parts.induct) (auto split: if_splits)

lemma check_only_bindings:
  assumes "check_only_is_pure x" "validate_certificate x cert sig u True g a s = (q, s1)"
  shows "x_check x b s1 = x_check x b s"
  using assms
  by (auto simp: validate_certificate_def check_only_is_pure_def bindM_def okM_def throwM_def returnM_def split: option.splits prod.splits tx_answer.splits)
    (metis CertificateArgs.select_convs(5) snd_conv)+

text \<open>The answer \<open>certified\<close> is given only when the contract, in the state that the request leaves, holds the requestor as certified. When
  the answer is that it is not certified, the contract says so too, or no binding of the contract was changed: an enrolment is
  tried only after the check succeeded. A form that is incomplete changes nothing.\<close>

theorem certified_answer:
  assumes "check_only_is_pure x" "handle_certificate_validation x sign a parts s = (r, s')"
  shows "(r = Inr (Certified True) \<longrightarrow> x_check x a s' = Some True) \<and>
    (r = Inr (Certified False) \<longrightarrow> x_check x a s' = Some False \<or> (\<forall>b. x_check x b s' = x_check x b s)) \<and>
    (\<forall>m. r = Inr (BadRequest m) \<longrightarrow> s' = s)"
proof (cases "read_parts parts \<lparr>cr_private_key = [], cr_certificate = []\<rparr>")
  case (Inl e)
  then show ?thesis using assms(2) by (auto simp: handle_certificate_validation_def bindM_def liftM_def throwM_def)
next
  case (Inr form)
  note h = assms(2) [unfolded handle_certificate_validation_def Inr bindM_liftM_Inr]
  show ?thesis
  proof (cases form)
    case (Inl reply)
    then show ?thesis using h read_parts_reply Inr by (auto simp: returnM_def)
  next
    case (Inr req)
    show ?thesis
    proof (cases "cr_certificate req = [] \<or> cr_private_key req = [] \<or> sign (cr_private_key req) a = None")
      case True
      then show ?thesis using h Inr by (auto simp: returnM_def split: if_splits option.splits)
    next
      case False
      then obtain sig where sig: "sign (cr_private_key req) a = Some sig" by auto
      obtain q s1 where v: "validate_certificate x (cr_certificate req) sig True True 0 a s = (q, s1)" by force
      note h' = h [unfolded Inr sum.case sig option.case v prod.case]
      show ?thesis
      proof (cases q)
        case (Inl e)
        then show ?thesis using h' False check_only_bindings [OF assms(1) v] by (auto simp: v)
      next
        case (Inr z)
        then show ?thesis using h' False
          by (auto simp: v bindM_def ignoreM_def okM_def returnM_def throwM_def split: option.splits)
      qed
    qed
  qed
qed

section \<open>Example\<close>

text \<open>A contract whose state is the set of the certified addresses and which accepts every certificate that is not empty.\<close>

definition x509_ex :: "160 word set x509" where
  "x509_ex = \<lparr>x_tlvs = (\<lambda>c s. Some (length c)),
     x_validate = (\<lambda>args s. if ca_certificate args = [] then (NotSent, s) else (TxReceipt True, if ca_check_only args then s else insert (ca_addr args) s)),
     x_check = (\<lambda>a s. Some (a \<in> s))\<rparr>"

theorem certified_answer_witness:
  "handle_certificate_validation x509_ex (\<lambda>k a. Some k) 7 [FormPart ''certificate'' [1], FormPart ''priv_key'' [2]] {} = (Inr (Certified True), {7}) \<and>
     x_check x509_ex 7 {7} = Some True"
proof -
  have p: "check_only_is_pure x509_ex" by (simp add: check_only_is_pure_def x509_ex_def)
  have r: "handle_certificate_validation x509_ex (\<lambda>k a. Some k) 7 [FormPart ''certificate'' [1], FormPart ''priv_key'' [2]] {} = (Inr (Certified True), {7})"
    by (simp add: handle_certificate_validation_def validate_certificate_def x509_ex_def bindM_def liftM_def returnM_def ignoreM_def)
  from certified_answer [OF p r] r show ?thesis by simp
qed

end
