(* ===== verification/Contract_Addresses.thy ===== *)
theory Contract_Addresses
  imports Hex_Conversion
begin

text \<open>
  The addresses of the contracts (\<open>configuration/src/addresses.rs\<close>): where they are read from and how they are written. The readers and
  writers of TOML and JSON, the parser of URLs and of addresses, and the answers of the configuration server are parameters. Files are a map from
  paths to contents. Paths are texts that do not end with a slash; the extension of a path is what the standard library says it is. A TOML
  file that is not there reads as an empty one.
\<close>

section \<open>Types\<close>

datatype addresses_error =
    SettingsError | IoError | TomlError string | CouldNotGetUrl | BadResponse | CouldNotWriteFile string | CouldNotWriteDirectory string
  | CouldNotReadFile | CouldNotPostUrl

record Addresses =
  ad_nightfall :: "160 word"
  ad_round_robin :: "160 word"
  ad_x509 :: "160 word"

datatype 'u Sources = HttpSource 'u | FileSource string

text \<open>The values of JSON, and the index operator: a missing member is \<open>JNull\<close>.\<close>

datatype json = JNull | JBool bool | JNumber int | JString string | JArray "json list" | JObject "(string \<times> json) list"

fun json_index :: "json \<Rightarrow> string \<Rightarrow> json" where
  "json_index (JObject kvs) k = (case map_of kvs k of None \<Rightarrow> JNull | Some v \<Rightarrow> v)"
| "json_index _ k = JNull"

fun as_str :: "json \<Rightarrow> string option" where
  "as_str (JString s) = Some s"
| "as_str _ = None"

fun as_array :: "json \<Rightarrow> json list option" where
  "as_array (JArray xs) = Some xs"
| "as_array _ = None"

text \<open>\<open>Path::extension\<close> of the last component.\<close>

definition file_name :: "string \<Rightarrow> string" where
  "file_name p = rev (takeWhile (\<lambda>c. c \<noteq> CHR ''/'') (rev p))"

definition extension :: "string \<Rightarrow> string option" where
  "extension p =
     (let n = file_name p; e = rev (takeWhile (\<lambda>c. c \<noteq> CHR ''.'') (rev n))
      in if e = n \<or> Suc (length e) = length n then None else Some e)"

fun trim_start_0x :: "string \<Rightarrow> string" where
  "trim_start_0x (CHR ''0'' # CHR ''x'' # s) = trim_start_0x s"
| "trim_start_0x s = s"

section \<open>Loading and saving\<close>

record 'u address_env =
  ae_dec :: "string \<Rightarrow> byte list option"
  ae_toml :: "string \<Rightarrow> string + Addresses"
  ae_to_toml :: "Addresses \<Rightarrow> string + string"
  ae_json :: "string \<Rightarrow> json option"
  ae_get :: "'u \<Rightarrow> (string option) option"
  ae_put :: "'u \<Rightarrow> string \<Rightarrow> nat option"

definition contract_address :: "('u, 'y) address_env_scheme \<Rightarrow> json \<Rightarrow> addresses_error failure + 160 word" where
  "contract_address env transaction =
     bindS (okS (Fails CouldNotReadFile) (as_str (json_index transaction ''contractAddress''))) (\<lambda>s.
     bindS (okS (Fails (CouldNotWriteFile ''hex'')) (ae_dec env (trim_start_0x s))) (\<lambda>bytes.
     if length bytes \<noteq> 20 then Inl (Fails BadResponse) else Inr (of_nat (be_value bytes))))"

fun scan_transactions :: "('u, 'y) address_env_scheme \<Rightarrow> json list \<Rightarrow> Addresses \<Rightarrow> addresses_error failure + Addresses" where
  "scan_transactions env [] ad = Inr ad"
| "scan_transactions env (t # ts) ad =
     bindS (okS (Fails CouldNotReadFile) (as_str (json_index t ''contractName''))) (\<lambda>name.
     if name = ''Nightfall'' then bindS (contract_address env t) (\<lambda>a. scan_transactions env ts (ad\<lparr>ad_nightfall := a\<rparr>))
     else if name = ''RoundRobin'' then bindS (contract_address env t) (\<lambda>a. scan_transactions env ts (ad\<lparr>ad_round_robin := a\<rparr>))
     else if name = ''X509'' then bindS (contract_address env t) (\<lambda>a. scan_transactions env ts (ad\<lparr>ad_x509 := a\<rparr>))
     else scan_transactions env ts ad)"

definition load_addresses ::
    "('u, 'y) address_env_scheme \<Rightarrow> (string \<Rightarrow> string option) \<Rightarrow> 'u Sources \<Rightarrow> addresses_error failure + Addresses" where
  "load_addresses env files s =
     (case s of
        FileSource p \<Rightarrow>
          (case extension p of
             None \<Rightarrow> Inl Panics
           | Some e \<Rightarrow>
               if e = ''toml'' \<or> e = ''tmp''
               then map_sum (\<lambda>m. Fails (TomlError m)) id (ae_toml env (case files p of None \<Rightarrow> [] | Some t \<Rightarrow> t))
               else
                 bindS (okS (Fails IoError) (files p)) (\<lambda>json_string.
                 bindS (okS (Fails CouldNotReadFile) (ae_json env json_string)) (\<lambda>v.
                 bindS (okS Panics (as_array (json_index v ''transactions''))) (\<lambda>transaction_array.
                 scan_transactions env transaction_array \<lparr>ad_nightfall = 0, ad_round_robin = 0, ad_x509 = 0\<rparr>))))
      | HttpSource u \<Rightarrow>
          bindS (okS (Fails CouldNotGetUrl) (ae_get env u)) (\<lambda>resp.
          bindS (okS (Fails BadResponse) resp) (\<lambda>text_data.
          map_sum (\<lambda>m. Fails (TomlError m)) id (ae_toml env text_data))))"

text \<open>The creation of the directory and the write may fail; the calls of the file system are those of the schedule of failures.\<close>

record file_store = world +
  stored_files :: "string \<Rightarrow> string option"

definition has_parent :: "string \<Rightarrow> bool" where
  "has_parent p \<longleftrightarrow> (\<exists>c\<in>set p. c \<noteq> CHR ''/'')"

definition save_addresses :: "('u, 'y) address_env_scheme \<Rightarrow> Addresses \<Rightarrow> 'u Sources \<Rightarrow> ('z file_store_scheme, addresses_error, nat) dbm" where
  "save_addresses env ad s =
     bindM (liftM (map_sum TomlError id (ae_to_toml env ad))) (\<lambda>toml_text.
     case s of
       FileSource p \<Rightarrow>
         bindM (if has_parent p then db_write (CouldNotWriteDirectory []) (\<lambda>w. w) else returnM ()) (\<lambda>_.
         bindM (db_write (CouldNotWriteFile []) (\<lambda>w. w\<lparr>stored_files := (stored_files w)(p := Some toml_text)\<rparr>)) (\<lambda>_.
         returnM 200))
     | HttpSource u \<Rightarrow> okM CouldNotPostUrl (ae_put env u toml_text))"

section \<open>The addresses of the program\<close>

text \<open>The part of the settings that is read here. \<open>server\<close> is the URL of the addresses file on the configuration server, when the two texts parse.\<close>

record address_settings =
  as_deploy_contracts :: bool
  as_nightfall :: string
  as_round_robin :: string
  as_x509 :: string
  as_addresses_file :: string

definition whitespace :: "char \<Rightarrow> bool" where
  "whitespace c \<longleftrightarrow> c \<in> {CHR '' '', CHR 0x09, CHR 0x0A, CHR 0x0B, CHR 0x0C, CHR 0x0D}"

definition trim_text :: "string \<Rightarrow> string" where
  "trim_text s = rev (dropWhile whitespace (rev (dropWhile whitespace s)))"

definition zero_address_text :: "string \<Rightarrow> bool" where
  "zero_address_text s \<longleftrightarrow> length s = 42 \<and> s ! 0 = CHR ''0'' \<and> s ! 1 \<in> {CHR ''x'', CHR ''X''} \<and> (\<forall>c\<in>set (drop 2 s). c = CHR ''0'')"

definition parse_addr :: "(string \<Rightarrow> 160 word option) \<Rightarrow> string \<Rightarrow> 160 word option" where
  "parse_addr parse s = (let s = trim_text s in if s = [] \<or> zero_address_text s then None else parse s)"

text \<open>A relative path is searched for in the working directory and those above it, the innermost first.\<close>

definition find_file :: "(string \<Rightarrow> string option) \<Rightarrow> string list \<Rightarrow> string \<Rightarrow> string option" where
  "find_file files ancestors path =
     (if path \<noteq> [] \<and> hd path = CHR ''/'' then (if files path \<noteq> None then Some path else None)
      else find (\<lambda>p. files p \<noteq> None) (map (\<lambda>d. d @ ''/'' @ path) ancestors))"

text \<open>\<open>Sources::parse\<close>: \<open>url\<close> is the parsed URL, if the text is one that can be a base.\<close>

definition parse_source :: "(string \<Rightarrow> 'u option) \<Rightarrow> (string \<Rightarrow> bool) \<Rightarrow> string \<Rightarrow> string + 'u Sources" where
  "parse_source url parent_missing s =
     (case url s of
        Some u \<Rightarrow> Inr (HttpSource u)
      | None \<Rightarrow> if parent_missing s then Inl s else Inr (FileSource s))"

definition get_addresses ::
    "('u, 'y) address_env_scheme \<Rightarrow> (string \<Rightarrow> 160 word option) \<Rightarrow> (string \<Rightarrow> 'u option) \<Rightarrow> (string \<Rightarrow> bool) \<Rightarrow> 'u option \<Rightarrow> address_settings \<Rightarrow>
     (string \<Rightarrow> string option) \<Rightarrow> string list \<Rightarrow> Addresses option" where
  "get_addresses env parse url parent_missing server settings files ancestors =
     Option.bind server (\<lambda>u.
     case load_addresses env files (HttpSource u) of
       Inr ad \<Rightarrow> Some ad
     | Inl Panics \<Rightarrow> None
     | Inl (Fails _) \<Rightarrow>
         if \<not> as_deploy_contracts settings \<and> as_nightfall settings \<noteq> [] \<and> as_round_robin settings \<noteq> [] \<and> as_x509 settings \<noteq> []
         then
           Option.bind (parse_addr parse (as_nightfall settings)) (\<lambda>nightfall.
           Option.bind (parse_addr parse (as_round_robin settings)) (\<lambda>round_robin.
           Option.bind (parse_addr parse (as_x509 settings)) (\<lambda>x509.
           Some \<lparr>ad_nightfall = nightfall, ad_round_robin = round_robin, ad_x509 = x509\<rparr>)))
         else
           Option.bind (find_file files ancestors (as_addresses_file settings)) (\<lambda>source_file.
           case parse_source url parent_missing source_file of
             Inl _ \<Rightarrow> None
           | Inr s \<Rightarrow> (case load_addresses env files s of Inl _ \<Rightarrow> None | Inr ad \<Rightarrow> Some ad)))"

section \<open>Properties\<close>

text \<open>What the deployer saves is what every program reads: with a server that does not answer and no addresses in the settings, the addresses
  that were saved to the file of the settings are those the program gets.\<close>

theorem saved_addresses_are_read:
  assumes "faults w = []" "ae_to_toml env ad = Inr t" "ae_toml env t = Inr ad" "extension p = Some ''toml''" "p \<noteq> []" "hd p = CHR ''/''"
    "ae_get env u = None" "as_deploy_contracts settings" "as_addresses_file settings = p" "url p = None" "\<not> parent_missing p"
  shows "\<exists>w'. save_addresses env ad (FileSource p) w = (Inr 200, w') \<and>
    get_addresses env parse url parent_missing (Some u) settings (stored_files w') ancestors = Some ad"
proof -
  let ?w' = "w\<lparr>stored_files := (stored_files w)(p := Some t)\<rparr>"
  have "save_addresses env ad (FileSource p) w = (Inr 200, ?w')"
    using assms(1,2) by (simp add: save_addresses_def bindM_def returnM_def db_write_ok)
  moreover have "get_addresses env parse url parent_missing (Some u) settings (stored_files ?w') ancestors = Some ad"
    using assms(3-11) by (simp add: get_addresses_def load_addresses_def find_file_def parse_source_def)
  ultimately show ?thesis by blast
qed

text \<open>A broadcast file that lacks a contract is read without an error; its address is zero, which the settings would be refused for.\<close>

lemma scan_absent:
  "scan_transactions env ts ad = Inr ad' \<Longrightarrow> \<forall>t\<in>set ts. as_str (json_index t ''contractName'') \<noteq> Some ''Nightfall'' \<Longrightarrow> ad_nightfall ad' = ad_nightfall ad"
proof (induction ts arbitrary: ad)
  case (Cons t ts)
  then obtain name where n: "as_str (json_index t ''contractName'') = Some name" "name \<noteq> ''Nightfall''" by (cases "as_str (json_index t ''contractName'')") auto
  have rest: "\<forall>t\<in>set ts. as_str (json_index t ''contractName'') \<noteq> Some ''Nightfall''" using Cons.prems(2) by simp
  show ?case using Cons.prems(1) n Cons.IH [OF _ rest] by (auto simp: bindS_def split: if_splits sum.splits)
qed simp

theorem missing_contract_is_zero:
  assumes "extension p = Some ''json''" "files p = Some t" "ae_json env t = Some v" "as_array (json_index v ''transactions'') = Some ts"
    "\<forall>t\<in>set ts. as_str (json_index t ''contractName'') \<noteq> Some ''Nightfall''" "load_addresses env files (FileSource p) = Inr ad"
  shows "ad_nightfall ad = 0"
  using assms(6) scan_absent [OF _ assms(5)] by (fastforce simp: load_addresses_def assms(1-4))

section \<open>Examples\<close>

definition address_env_ex :: "unit address_env" where
  "address_env_ex = \<lparr>ae_dec = hex_decode_ex, ae_toml = (\<lambda>t. if t = ''a'' then Inr \<lparr>ad_nightfall = 1, ad_round_robin = 2, ad_x509 = 3\<rparr> else Inl ''missing field''),
     ae_to_toml = (\<lambda>_. Inr ''a''), ae_json = (\<lambda>_. Some (JObject [(''transactions'', JArray [])])), ae_get = (\<lambda>_. None), ae_put = (\<lambda>_ _. None)\<rparr>"

definition settings_ex :: address_settings where
  "settings_ex = \<lparr>as_deploy_contracts = True, as_nightfall = [], as_round_robin = [], as_x509 = [], as_addresses_file = ''/a.toml''\<rparr>"

theorem saved_addresses_are_read_witness:
  "\<exists>w'. save_addresses address_env_ex \<lparr>ad_nightfall = 1, ad_round_robin = 2, ad_x509 = 3\<rparr> (FileSource ''/a.toml'') \<lparr>faults = [], stored_files = \<lambda>_. None\<rparr> = (Inr 200, w') \<and>
    get_addresses address_env_ex (\<lambda>_. None) (\<lambda>_. None) (\<lambda>_. False) (Some ()) settings_ex (stored_files w') [] = Some \<lparr>ad_nightfall = 1, ad_round_robin = 2, ad_x509 = 3\<rparr>"
  by (rule saved_addresses_are_read) (simp_all add: address_env_ex_def settings_ex_def extension_def file_name_def)

theorem missing_contract_is_zero_witness:
  "load_addresses address_env_ex (\<lambda>_. Some ''b'') (FileSource ''/b.json'') = Inr \<lparr>ad_nightfall = 0, ad_round_robin = 0, ad_x509 = 0\<rparr> \<and>
     ad_nightfall \<lparr>ad_nightfall = 0, ad_round_robin = 0, ad_x509 = (0 :: 160 word)\<rparr> = 0"
proof -
  have e: "extension ''/b.json'' = Some ''json''" by (simp add: extension_def file_name_def)
  have l: "load_addresses address_env_ex (\<lambda>_. Some ''b'') (FileSource ''/b.json'') = Inr \<lparr>ad_nightfall = 0, ad_round_robin = 0, ad_x509 = 0\<rparr>"
    by (simp add: load_addresses_def e address_env_ex_def)
  have "ad_nightfall \<lparr>ad_nightfall = 0, ad_round_robin = 0, ad_x509 = (0 :: 160 word)\<rparr> = 0"
    by (rule missing_contract_is_zero [OF e _ _ _ _ l, where t = "''b''" and v = "JObject [(''transactions'', JArray [])]" and ts = "[]"])
      (simp_all add: address_env_ex_def)
  with l show ?thesis by blast
qed

end
