(* ===== verification/Proving_Keys.thy ===== *)
theory Proving_Keys
  imports Contract_Addresses Circuits
begin

text \<open>
  The proving keys of the rollup prover (\<open>nightfall_proposer/src/driven/rollup_prover.rs\<close>): the files they are stored in and where they are looked
  for, and the check that a proof was made with one of the known keys. The serialisation of keys is a parameter; files are a map
  from paths to bytes, directories a predicate, and the calls of the file system may fail. A value that is computed once and
  then kept is given by that computation. \<open>None\<close> is a panic.
\<close>

section \<open>Files\<close>

record key_store = world +
  key_files :: "string \<Rightarrow> byte list option"

fun decimal :: "nat \<Rightarrow> string" where
  "decimal n = (if n < 10 then [Serialization.hex_digit n] else decimal (n div 10) @ [Serialization.hex_digit (n mod 10)])"

declare decimal.simps [simp del]

text \<open>\<open>ancestors\<close> is the working directory with the directories above it, the innermost first.\<close>

definition get_configuration_path :: "(string \<Rightarrow> bool) \<Rightarrow> string list \<Rightarrow> string option" where
  "get_configuration_path is_dir ancestors = find is_dir (map (\<lambda>d. d @ ''/configuration'') ancestors)"

definition find_key_file :: "(string \<Rightarrow> byte list option) \<Rightarrow> string list \<Rightarrow> string \<Rightarrow> string option" where
  "find_key_file files ancestors path =
     (if path \<noteq> [] \<and> hd path = CHR ''/'' then (if files path \<noteq> None then Some path else None)
      else find (\<lambda>p. files p \<noteq> None) (map (\<lambda>d. d @ ''/'' @ path) ancestors))"

text \<open>The answer of the configuration server: its status is not read.\<close>

definition load_key_from_server :: "(string \<Rightarrow> (nat \<times> byte list option) option) \<Rightarrow> string \<Rightarrow> byte list option" where
  "load_key_from_server get key_file = Option.bind (get key_file) snd"

definition proving_key ::
    "(byte list \<Rightarrow> 'k option) \<Rightarrow> (string \<Rightarrow> (nat \<times> byte list option) option) \<Rightarrow> (string \<Rightarrow> byte list option) \<Rightarrow> string list \<Rightarrow> string \<Rightarrow> 'k option" where
  "proving_key de get files ancestors name =
     (case load_key_from_server get name of
        Some key_bytes \<Rightarrow> de key_bytes
      | None \<Rightarrow> Option.bind (find_key_file files ancestors (''./configuration/bin/'' @ name)) (\<lambda>source_file.
                Option.bind (files source_file) de))"

definition get_base_grumpkin_proving_key where "get_base_grumpkin_proving_key de get files ancestors = proving_key de get files ancestors ''base_grumpkin_pk''"

definition get_base_bn254_proving_key where "get_base_bn254_proving_key de get files ancestors = proving_key de get files ancestors ''base_bn254_pk''"

definition get_decider_proving_key where "get_decider_proving_key de get files ancestors = proving_key de get files ancestors ''decider_pk''"

section \<open>The keys of the merge circuits\<close>

text \<open>The files are numbered from zero; the first number without a file ends the list.\<close>

definition merge_file :: "string \<Rightarrow> string \<Rightarrow> nat \<Rightarrow> string" where
  "merge_file config_path prefix i = config_path @ ''/bin/'' @ prefix @ decimal i"

partial_function (option) load_merge_pks ::
    "(byte list \<Rightarrow> 'k option) \<Rightarrow> (string \<Rightarrow> byte list option) \<Rightarrow> string list \<Rightarrow> string \<Rightarrow> string \<Rightarrow> nat \<Rightarrow> 'k list option option" where
  "load_merge_pks de files ancestors config_path prefix i =
     (case find_key_file files ancestors (merge_file config_path prefix i) of
        None \<Rightarrow> Some (Some [])
      | Some source_file \<Rightarrow>
          (case Option.bind (files source_file) de of
             None \<Rightarrow> Some None
           | Some pk \<Rightarrow> Option.bind (load_merge_pks de files ancestors config_path prefix (Suc i)) (\<lambda>r. Some (map_option ((#) pk) r))))"

definition get_merge_grumpkin_pks where
  "get_merge_grumpkin_pks de files is_dir ancestors =
     (case get_configuration_path is_dir ancestors of
        None \<Rightarrow> Some None
      | Some config_path \<Rightarrow> load_merge_pks de files ancestors config_path ''merge_grumpkin_pk_'' 0)"

definition get_merge_bn254_pks where
  "get_merge_bn254_pks de files is_dir ancestors =
     (case get_configuration_path is_dir ancestors of
        None \<Rightarrow> Some None
      | Some config_path \<Rightarrow> load_merge_pks de files ancestors config_path ''merge_bn254_pk_'' 0)"

text \<open>A key is written to a file that is created (and emptied) first. Every failure ends the function with \<open>None\<close>.\<close>

definition write_key :: "string \<Rightarrow> byte list option \<Rightarrow> ('z key_store_scheme, unit, unit) dbm" where
  "write_key file_path buf =
     bindM (okM () buf) (\<lambda>bytes.
     bindM (db_write () (\<lambda>w. w\<lparr>key_files := (key_files w)(file_path := Some [])\<rparr>)) (\<lambda>_.
     db_write () (\<lambda>w. w\<lparr>key_files := (key_files w)(file_path := Some bytes)\<rparr>)))"

definition store_base_grumpkin_pk where
  "store_base_grumpkin_pk ser is_dir ancestors pk =
     bindM (okM () (get_configuration_path is_dir ancestors)) (\<lambda>c. write_key (c @ ''/bin/base_grumpkin_pk'') (ser pk))"

definition store_base_bn254_pk where
  "store_base_bn254_pk ser is_dir ancestors pk =
     bindM (okM () (get_configuration_path is_dir ancestors)) (\<lambda>c. write_key (c @ ''/bin/base_bn254_pk'') (ser pk))"

definition store_decider_pk where
  "store_decider_pk ser is_dir ancestors pk =
     bindM (okM () (get_configuration_path is_dir ancestors)) (\<lambda>c. write_key (c @ ''/bin/decider_pk'') (ser pk))"

fun store_merge_pks :: "('k \<Rightarrow> byte list option) \<Rightarrow> string \<Rightarrow> string \<Rightarrow> nat \<Rightarrow> 'k list \<Rightarrow> ('z key_store_scheme, unit, unit) dbm" where
  "store_merge_pks ser config_path prefix i [] = returnM ()"
| "store_merge_pks ser config_path prefix i (pk # pks) =
     bindM (write_key (merge_file config_path prefix i) (ser pk)) (\<lambda>_. store_merge_pks ser config_path prefix (Suc i) pks)"

definition store_merge_grumpkin_pks where
  "store_merge_grumpkin_pks ser is_dir ancestors pks =
     bindM (okM () (get_configuration_path is_dir ancestors)) (\<lambda>c. store_merge_pks ser c ''merge_grumpkin_pk_'' 0 pks)"

definition store_merge_bn254_pks where
  "store_merge_bn254_pks ser is_dir ancestors pks =
     bindM (okM () (get_configuration_path is_dir ancestors)) (\<lambda>c. store_merge_pks ser c ''merge_bn254_pk_'' 0 pks)"

section \<open>The check of the key of a proof\<close>

fun vk_product :: "fr254 \<Rightarrow> fr254 \<Rightarrow> fr254 list \<Rightarrow> fr254" where
  "vk_product check acc [] = acc"
| "vk_product check acc (c # cs) = vk_product check (acc * check - acc * c) cs"

definition generate_vk_check_constraint :: "fr254 \<Rightarrow> fr254 list \<Rightarrow> unit circuit" where
  "generate_vk_check_constraint check_hash vk_hashes = enforce_equal (vk_product check_hash 1 vk_hashes) 0"

lemma vk_product_eq: "vk_product h acc cs = acc * prod_list (map (\<lambda>c. h - c) cs)"
  by (induction cs arbitrary: acc) (simp_all add: algebra_simps)

text \<open>Every known key passes.\<close>

lemma known_key_passes: "h \<in> set cs \<Longrightarrow> accepts (generate_vk_check_constraint h cs) ()"
proof -
  assume "h \<in> set cs"
  then have "prod_list (map (\<lambda>c. h - c) cs) = 0" by (induction cs) auto
  then show ?thesis by (simp add: generate_vk_check_constraint_def enforce_equal_def enforce_def accepts_def vk_product_eq)
qed

section \<open>Stored keys are loaded\<close>

fun read_decimal :: "string \<Rightarrow> nat" where
  "read_decimal s = foldl (\<lambda>a c. 10 * a + (of_char c - 48)) 0 s"

lemma digit_value: "d < 10 \<Longrightarrow> of_char (Serialization.hex_digit d) - 48 = (d :: nat)"
  by (simp add: Serialization.hex_digit_def)

lemma read_decimal_decimal: "read_decimal (decimal n) = n"
proof (induction n rule: decimal.induct)
  case (1 n)
  then show ?case by (subst decimal.simps) (simp add: digit_value)
qed

lemma merge_file_inject: "merge_file c p i = merge_file c p j \<longleftrightarrow> i = j"
  using read_decimal_decimal by (metis merge_file_def same_append_eq)

lemma merge_file_absolute: "hd c = CHR ''/'' \<Longrightarrow> c \<noteq> [] \<Longrightarrow> find_key_file fs as (merge_file c p i) = (if fs (merge_file c p i) \<noteq> None then Some (merge_file c p i) else None)"
  by (simp add: find_key_file_def merge_file_def)

lemma store_merge_pks_run:
  assumes "faults w = []" "\<And>pk. pk \<in> set pks \<Longrightarrow> ser pk \<noteq> None"
  shows "\<exists>w'. store_merge_pks ser c p i pks w = (Inr (), w') \<and> faults w' = [] \<and>
    (\<forall>j<length pks. key_files w' (merge_file c p (i + j)) = ser (pks ! j)) \<and>
    (\<forall>q. (\<forall>j<length pks. q \<noteq> merge_file c p (i + j)) \<longrightarrow> key_files w' q = key_files w q)"
  using assms
proof (induction pks arbitrary: i w)
  case (Cons pk pks)
  obtain b where b: "ser pk = Some b" using Cons.prems(2) by fastforce
  let ?w = "w\<lparr>key_files := (key_files w)(merge_file c p i := Some b)\<rparr>"
  have run: "write_key (merge_file c p i) (ser pk) w = (Inr (), ?w)"
    using Cons.prems(1) by (simp add: write_key_def b bindM_def db_write_ok)
  have "faults ?w = []" using Cons.prems(1) by simp
  from Cons.IH [OF this, of "Suc i"] Cons.prems(2)
  obtain w' where w': "store_merge_pks ser c p (Suc i) pks ?w = (Inr (), w')" "faults w' = []"
    "\<And>j. j < length pks \<Longrightarrow> key_files w' (merge_file c p (Suc i + j)) = ser (pks ! j)"
    "\<And>q. (\<forall>j<length pks. q \<noteq> merge_file c p (Suc i + j)) \<Longrightarrow> key_files w' q = key_files ?w q" by auto
  have "store_merge_pks ser c p i (pk # pks) w = (Inr (), w')" by (simp add: bindM_def run w'(1))
  moreover have "key_files w' (merge_file c p (i + j)) = ser ((pk # pks) ! j)" if "j < Suc (length pks)" for j
  proof (cases j)
    case 0
    then show ?thesis using w'(4) [of "merge_file c p i"] by (simp add: merge_file_inject b)
  next
    case (Suc k)
    then show ?thesis using w'(3) [of k] that by simp
  qed
  moreover have "key_files w' q = key_files w q" if "\<forall>j<Suc (length pks). q \<noteq> merge_file c p (i + j)" for q
  proof -
    have "q \<noteq> merge_file c p i" using that by (auto dest: spec [of _ 0])
    moreover have "\<forall>j<length pks. q \<noteq> merge_file c p (Suc i + j)" using that by (auto dest: spec [of _ "Suc j" for j])
    ultimately show ?thesis using w'(4) by simp
  qed
  ultimately show ?case using w'(2) by auto
qed (simp add: returnM_def)

lemma load_merge_pks_from:
  assumes "hd c = CHR ''/''" "c \<noteq> []" "\<And>j. j < length pks \<Longrightarrow> \<exists>b. fs (merge_file c p (i + j)) = Some b \<and> de b = Some (pks ! j)"
  shows "load_merge_pks de fs as c p i = map_option (map_option ((@) pks)) (load_merge_pks de fs as c p (i + length pks))"
  using assms(3)
proof (induction pks arbitrary: i)
  case Nil
  then show ?case by (simp add: option.map_ident option.map_id0 id_def cong: option.map_cong)
next
  case (Cons pk pks)
  obtain b where b: "fs (merge_file c p i) = Some b" "de b = Some pk" using Cons.prems [of 0] by auto
  have "\<exists>b. fs (merge_file c p (Suc i + j)) = Some b \<and> de b = Some (pks ! j)" if "j < length pks" for j
    using Cons.prems [of "Suc j"] that by simp
  note ih = Cons.IH [OF this]
  show ?case
    by (subst load_merge_pks.simps) (simp add: merge_file_absolute [OF assms(1,2)] b ih option.map_comp comp_def bind_map_option map_conv_bind_option split: option.split)
qed

lemma load_end:
  assumes "hd c = CHR ''/''" "c \<noteq> []" "fs (merge_file c p i) = None"
  shows "load_merge_pks de fs as c p i = Some (Some [])"
  by (subst load_merge_pks.simps) (simp add: merge_file_absolute [OF assms(1,2)] assms(3))

text \<open>The keys that are found with those that a longer list left behind.\<close>

definition leftover_keys :: "(byte list \<Rightarrow> 'k option) \<Rightarrow> (string \<Rightarrow> byte list option) \<Rightarrow> string \<Rightarrow> string \<Rightarrow> nat \<Rightarrow> 'k list \<Rightarrow> bool" where
  "leftover_keys de fs c p n old \<longleftrightarrow>
     (\<forall>j<length old. \<exists>b. fs (merge_file c p (n + j)) = Some b \<and> de b = Some (old ! j)) \<and> fs (merge_file c p (n + length old)) = None"

lemma merge_pks_roundtrip:
  assumes "faults w = []" "hd c = CHR ''/''" "c \<noteq> []" "\<And>pk. pk \<in> set pks \<Longrightarrow> \<exists>b. ser pk = Some b \<and> de b = Some pk"
    "leftover_keys de (key_files w) c p (length pks) old"
  shows "\<exists>w'. store_merge_pks ser c p 0 pks w = (Inr (), w') \<and> load_merge_pks de (key_files w') as c p 0 = Some (Some (pks @ old))"
proof -
  have ne: "ser pk \<noteq> None" if "pk \<in> set pks" for pk using assms(4) [OF that] by auto
  from store_merge_pks_run [where ser = ser and pks = pks and i = 0 and c = c and p = p, OF assms(1) ne]
  obtain w' where w': "store_merge_pks ser c p 0 pks w = (Inr (), w')" "\<And>j. j < length pks \<Longrightarrow> key_files w' (merge_file c p j) = ser (pks ! j)"
    "\<And>q. (\<forall>j<length pks. q \<noteq> merge_file c p j) \<Longrightarrow> key_files w' q = key_files w q" by auto
  have later: "key_files w' (merge_file c p (length pks + j)) = key_files w (merge_file c p (length pks + j))" for j
    using w'(3) [of "merge_file c p (length pks + j)"] by (simp add: merge_file_inject)
  have "\<exists>b. key_files w' (merge_file c p (0 + j)) = Some b \<and> de b = Some ((pks @ old) ! j)" if "j < length (pks @ old)" for j
  proof (cases "j < length pks")
    case True
    then show ?thesis using w'(2) [OF True] assms(4) [OF nth_mem [OF True]] by (auto simp: nth_append)
  next
    case False
    then have "key_files w' (merge_file c p j) = key_files w (merge_file c p j)" "length pks + (j - length pks) = j" "j - length pks < length old"
      using later [of "j - length pks"] that by simp_all
    then show ?thesis using assms(5) False by (auto simp: leftover_keys_def nth_append dest!: spec [of _ "j - length pks"])
  qed
  from load_merge_pks_from [where as = as, OF assms(2,3) this]
  have "load_merge_pks de (key_files w') as c p 0 =
      map_option (map_option ((@) (pks @ old))) (load_merge_pks de (key_files w') as c p (length (pks @ old)))" by simp
  also have "load_merge_pks de (key_files w') as c p (length (pks @ old)) = Some (Some [])"
    by (rule load_end [OF assms(2,3)]) (use later [of "length old"] assms(5) in \<open>simp add: leftover_keys_def\<close>)
  finally show ?thesis using w'(1) by simp
qed

text \<open>The keys of the merge circuits that the key generation stores are the ones the prover loads, in their order. The loading ends, and
  the list it returns continues with the keys that an earlier generation with more keys left in the directory.\<close>

theorem merge_keys_roundtrip:
  assumes "faults w = []" "get_configuration_path is_dir as = Some c" "hd c = CHR ''/''" "c \<noteq> []"
    "\<And>pk. pk \<in> set pks \<Longrightarrow> \<exists>b. ser pk = Some b \<and> de b = Some pk"
    "leftover_keys de (key_files w) c ''merge_grumpkin_pk_'' (length pks) old" "leftover_keys de (key_files w) c ''merge_bn254_pk_'' (length pks) old"
  shows "(\<exists>w'. store_merge_grumpkin_pks ser is_dir as pks w = (Inr (), w') \<and> get_merge_grumpkin_pks de (key_files w') is_dir as = Some (Some (pks @ old))) \<and>
    (\<exists>w'. store_merge_bn254_pks ser is_dir as pks w = (Inr (), w') \<and> get_merge_bn254_pks de (key_files w') is_dir as = Some (Some (pks @ old)))"
  using merge_pks_roundtrip [OF assms(1,3,4,5,6)] merge_pks_roundtrip [OF assms(1,3,4,5,7)]
  by (simp add: store_merge_grumpkin_pks_def get_merge_grumpkin_pks_def store_merge_bn254_pks_def get_merge_bn254_pks_def assms(2))

theorem merge_keys_roundtrip_witness:
  "\<exists>w'. store_merge_grumpkin_pks (\<lambda>k. Some [k]) (\<lambda>d. d = ''/a/configuration'') [''/a/b'', ''/a''] [1, 2] \<lparr>faults = [], key_files = \<lambda>_. None\<rparr> = (Inr (), w') \<and>
     get_merge_grumpkin_pks (\<lambda>bs. case bs of [k] \<Rightarrow> Some k | _ \<Rightarrow> None) (key_files w') (\<lambda>d. d = ''/a/configuration'') [''/a/b'', ''/a''] = Some (Some ([1, 2] @ []))"
  by (rule merge_keys_roundtrip [where c = "''/a/configuration''", THEN conjunct1]) (simp_all add: get_configuration_path_def leftover_keys_def)

end
