(* ===== verification/Client_Restart.thy ===== *)
theory Client_Restart
  imports Client_Blocks
begin

text \<open>
  The start of the client (\<open>nightfall_client/src/main.rs\<close>, with the connection to the database of \<open>lib.rs\<close>): the commitment tree and the requests
  are dropped and an empty tree is made, while the commitments and the stored blocks are kept; what the program keeps in memory
  is as in a new process. The listener then applies the blocks of the chain again, from the first one.
\<close>

text \<open>\<open>drop_collection\<close> with its failure as a panic.\<close>

definition drop_collection :: "('z client_state_scheme \<Rightarrow> 'z client_state_scheme) \<Rightarrow> ('z, unit) eventM" where
  "drop_collection f = expectM (db_write () f)"

definition get_db_connection :: "('z, unit) eventM" where
  "get_db_connection = map_errM (\<lambda>_. Panics) (new_commitment_tree 29 3)"

definition client_main :: "('z, unit) eventM" where
  "client_main =
     bindM (drop_collection (\<lambda>w. w\<lparr>metadata := None\<rparr>)) (\<lambda>_.
     bindM (drop_collection (\<lambda>w. w\<lparr>nodes := []\<rparr>)) (\<lambda>_.
     bindM (drop_collection (\<lambda>w. w\<lparr>cache := []\<rparr>)) (\<lambda>_.
     bindM (drop_collection (\<lambda>w. w\<lparr>requests := []\<rparr>)) (\<lambda>_.
     bindM (\<lambda>w. (Inr (), w\<lparr>queue := [], expected_number := 0, published := []\<rparr>)) (\<lambda>_.
     get_db_connection)))))"

definition restarted :: "'z client_state_scheme \<Rightarrow> 'z client_state_scheme" where
  "restarted w = w\<lparr>metadata := Some \<lparr>tree_height = 29, sub_tree_height = 3, sub_tree_count = 0, root = 0\<rparr>, nodes := [], cache := [],
     requests := [], queue := [], expected_number := 0, published := []\<rparr>"

lemma client_main_run: "faults w = [] \<Longrightarrow> client_main w = (Inr (), restarted w)"
  by (simp add: client_main_def drop_collection_def get_db_connection_def new_commitment_tree_def new_mutable_tree_def bindM_def
      expectM_ok db_write_ok map_errM_def db_insert_ok restarted_def)

lemma restarted_tree: "faults w = [] \<Longrightarrow> th 0 0 = 0 \<Longrightarrow> store_inv True (restarted w) \<and> tree_inv th 29 3 0 (\<lambda>_. 0) (restarted w)"
  by (simp add: restarted_def store_inv_def tree_inv_def nodes_ok_def heap_ok_def look_def mnode_zero)

text \<open>The marks of a block free a commitment that it creates, whatever its state was.\<close>

lemma marks_free:
  assumes "e \<in> set es" "ce_key e \<in> set cs" "ce_nullifier e \<notin> set ns"
  shows "e\<lparr>ce_status := Unspent, ce_layer_1_transaction_hash := Some h\<rparr> \<in> set (on_chain_marks cs ns h es)"
  using assms by (force simp: on_chain_marks_def update_many_def)

lemma store_same_block:
  assumes "faults w = []" "find_block (sb_layer2_block_number b) (blocks w) = Some b"
  shows "\<exists>bs. store_block b w = (Inr (Some ()), w\<lparr>blocks := bs\<rparr>)"
  using assms by (auto simp: store_block_def bindO_def bindM_def try_read_ok try_write_ok returnM_def)

text \<open>C33. A restart forgets which commitments are being spent. A commitment that waits for the block that spends it is kept in the
  database as \<open>PendingSpend\<close>; after a restart, the first event of the chain, for a block that the client had applied and stored before, is
  applied again: the tree holds its commitments, and the commitment is free again, so the next request may select it a second
  time while the first transaction is still in the mempool of a proposer.\<close>

theorem restart_frees_pending_spend:
  assumes "faults w = []" "ev_tree_hash env 0 0 = 0" "find_block 0 (blocks w) = Some pending"
    "ca_signer answers = Inr (Some proposer)" "stored_block_of env 0 proposer blk = Some pending" "ca_current_block answers = Inr current"
    "unat (blk_commitments_root blk) \<le> fr_modulus" "length (block_commitments blk) mod 8 = 0" "block_commitments blk \<noteq> []"
    "length (block_commitments blk) div 8 \<le> 2 ^ 29" "mapS (decrypt_one env) (blk_transactions blk) = Inr ess" "concat ess = []"
    "e \<in> set (commitments w)" "ce_status e = PendingSpend" "ce_key e \<in> set (block_commitments blk)" "ce_nullifier e \<notin> set (block_nullifiers blk)"
  shows "\<exists>w1 w2. client_main w = (Inr (), w1) \<and> process_propose_block_event env answers blk tx_hash 0 w1 = (Inr (), w2) \<and>
    e \<in> set (commitments w1) \<and> e\<lparr>ce_status := Unspent, ce_layer_1_transaction_hash := Some tx_hash\<rparr> \<in> set (available (pre_nf_token_id (ce_preimage e)) w2) \<and>
    tree_inv (ev_tree_hash env) 29 3 (length (block_commitments blk) div 8) (put_leaves (\<lambda>_. 0) 0 (block_commitments blk)) w2"
proof -
  let ?w1 = "restarted w" and ?cs = "block_commitments blk"
  have t: "store_inv True ?w1" "tree_inv (ev_tree_hash env) 29 3 0 (\<lambda>_. 0) ?w1" using restarted_tree [where th = "ev_tree_hash env", OF assms(1,2)] by simp_all
  have same: "faults ?w1 = []" "blocks ?w1 = blocks w" "commitments ?w1 = commitments w" "expected_number ?w1 = 0"
    using assms(1) by (simp_all add: restarted_def)
  have k: "sb_layer2_block_number pending = 0" using assms(5) by (auto simp: stored_block_of_def)
  have zero: "i256_to_u64 0 = Some 0" by (simp add: i256_to_u64_def)
  have check: "check_stored_block env pending ?w1 = ((Inr () :: event_error failure + unit), ?w1)"
    using same(1,2) assms(3) k
    by (simp add: check_stored_block_def get_block_by_number_def bindO_def bindM_def try_read_ok returnM_def Let_def)
  obtain w5 ids where w5: "process_propose_block_event env answers blk tx_hash 0 ?w1 = bindM (store_block pending) (\<lambda>_. returnM ()) w5"
    "store_inv True w5" "tree_inv (ev_tree_hash env) 29 3 (length ?cs div 8) (put_leaves (\<lambda>_. 0) 0 ?cs) w5"
    "commitments w5 = on_chain_marks ?cs (block_nullifiers blk) tx_hash (commitments w)" "blocks w5 = blocks w"
    using block_run [OF t same(4) zero assms(4,5) check assms(6,7) _ assms(9) _ assms(11), of tx_hash] assms(8,10,12) same by auto
  have f5: "faults w5 = []" using w5(2) by (simp add: store_inv_def)
  obtain bs where bs: "store_block pending w5 = ((Inr (Some ()) :: event_error failure + unit option), w5\<lparr>blocks := bs\<rparr>)"
    using store_same_block [OF f5, of pending] w5(5) k assms(3) by auto
  have "e\<lparr>ce_status := Unspent, ce_layer_1_transaction_hash := Some tx_hash\<rparr> \<in> set (commitments w5)"
    unfolding w5(4) by (rule marks_free [OF assms(13,15,16)])
  then have free: "e\<lparr>ce_status := Unspent, ce_layer_1_transaction_hash := Some tx_hash\<rparr> \<in> set (available (pre_nf_token_id (ce_preimage e)) (w5\<lparr>blocks := bs\<rparr>))"
    by (simp add: available_def)
  show ?thesis
    using client_main_run [OF assms(1)] w5(1,3) bs free assms(13) same(3) by (auto simp: bindM_def returnM_def)
qed

section \<open>Example\<close>

definition spent_entry_ex :: CommitmentEntry where
  "spent_entry_ex = \<lparr>ce_preimage = preimage_default, ce_status = PendingSpend, ce_key = fr 5, ce_nullifier = fr 9, ce_layer_1_transaction_hash = None, ce_layer_2_block_number = None\<rparr>"

definition eight_block_ex :: Block where
  "eight_block_ex = proposed_block_ex\<lparr>blk_transactions := [deposit_tx_ex, deposit_tx_ex]\<rparr>"

lemma eight_block_pending: obtains pending where "stored_block_of event_env_ex 0 9 eight_block_ex = Some pending"
proof -
  have e: "expect_frbn 0 = Some (fr 0)" "expect_frbn 5 = Some (fr 5)"
    by (simp_all add: expect_small fr_modulus_def)
  have "\<exists>t. on_chain_transaction_from deposit_tx_ex = Some t"
    by (simp add: on_chain_transaction_from_def deposit_tx_ex_def e secrets_from_u256_def Let_def del: fr_zero)
  then show thesis using that by (auto simp: stored_block_of_def eight_block_ex_def)
qed

lemma eight_block_commitments: "block_commitments eight_block_ex = [fr 5, 0, 0, 0, fr 5, 0, 0, 0]"
  by (simp add: block_commitments_def eight_block_ex_def deposit_tx_ex_def word_frs_def)

theorem restart_frees_pending_spend_witness:
  "\<exists>(w :: client_state) w1 w2. spent_entry_ex \<in> set (commitments w) \<and> client_main w = (Inr (), w1) \<and>
     process_propose_block_event event_env_ex (answers_ex (Inr 1)) eight_block_ex ''0x1'' 0 w1 = (Inr (), w2) \<and>
     spent_entry_ex\<lparr>ce_status := Unspent, ce_layer_1_transaction_hash := Some ''0x1''\<rparr> \<in> set (commitments w2)"
proof -
  obtain pending where p: "stored_block_of event_env_ex 0 9 eight_block_ex = Some pending" by (rule eight_block_pending)
  let ?w = "(state_ex 1)\<lparr>blocks := [pending], commitments := [spent_entry_ex]\<rparr>"
  have k: "sb_layer2_block_number pending = 0" using p by (auto simp: stored_block_of_def)
  have w: "faults ?w = []" "ev_tree_hash event_env_ex 0 0 = 0" "find_block 0 (blocks ?w) = Some pending"
    by (simp_all add: k find_block_def event_env_ex_def handler_env.defs)
  have d: "mapS (decrypt_one event_env_ex) (blk_transactions eight_block_ex) = Inr [[], []]"
    by (simp add: eight_block_ex_def decrypt_one_def deposit_tx_ex_def numeral_eq_Suc)
  have ns: "block_nullifiers eight_block_ex = replicate 8 0" by (simp add: block_nullifiers_def eight_block_ex_def deposit_tx_ex_def word_frs_def numeral_eq_Suc)
  have rt: "unat (blk_commitments_root eight_block_ex) \<le> fr_modulus" by (simp add: eight_block_ex_def proposed_block_ex_def fr_modulus_def)
  have n: "fr 9 \<noteq> 0" by (simp add: fr_val_inject_iff [of "fr 9"] fr_modulus_def)
  have "\<exists>w1 w2. client_main ?w = (Inr (), w1) \<and> process_propose_block_event event_env_ex (answers_ex (Inr 1)) eight_block_ex ''0x1'' 0 w1 = (Inr (), w2) \<and>
      spent_entry_ex \<in> set (commitments w1) \<and>
      spent_entry_ex\<lparr>ce_status := Unspent, ce_layer_1_transaction_hash := Some ''0x1''\<rparr> \<in> set (available (pre_nf_token_id (ce_preimage spent_entry_ex)) w2) \<and>
      tree_inv (ev_tree_hash event_env_ex) 29 3 (length (block_commitments eight_block_ex) div 8) (put_leaves (\<lambda>_. 0) 0 (block_commitments eight_block_ex)) w2"
    by (rule restart_frees_pending_spend [OF w _ p _ rt _ _ _ d])
      (simp_all add: answers_ex_def eight_block_commitments spent_entry_ex_def ns n)
  then obtain w1 w2 where r: "client_main ?w = (Inr (), w1)"
    "process_propose_block_event event_env_ex (answers_ex (Inr 1)) eight_block_ex ''0x1'' 0 w1 = (Inr (), w2)"
    "spent_entry_ex\<lparr>ce_status := Unspent, ce_layer_1_transaction_hash := Some ''0x1''\<rparr> \<in> set (available (pre_nf_token_id (ce_preimage spent_entry_ex)) w2)"
    by blast
  then have "spent_entry_ex\<lparr>ce_status := Unspent, ce_layer_1_transaction_hash := Some ''0x1''\<rparr> \<in> set (commitments w2)"
    by (simp add: available_def)
  moreover have "spent_entry_ex \<in> set (commitments ?w)" by simp
  ultimately show ?thesis using r by blast
qed

end
