(* ===== verification/Spec2Isabelle.thy ===== *)
theory Spec2Isabelle
  imports Append_Only_Tree Nullifier_Db Client_Blocks Operation_Proof State_Transition Block_Agreement Block_Assembly Contract_Paths Round_Robin Proposer_Rest Key_Derivation Certificates Contract_Addresses Proving_Keys Client_Restart
begin

text \<open>
  Nightfall 4: a model of its Rust programs and of the two contracts they call, with the theorems that say what they achieve
  together.

  The system. A client holds commitments to tokens. A deposit escrows tokens in the Nightfall contract; a transfer or a withdrawal
  spends up to four commitments (two of the token, two that pay the fee) by publishing their nullifiers and creates new
  commitments, with a proof. Proposers collect transactions and deposits, assemble blocks of them, prove how a block changes three
  trees (the commitments, the nullifiers and the historic roots) and propose them to the contract, which proposer's turn it is
  being kept by the round robin contract. Clients and proposers follow the events of the contract to keep their trees up to date.

  How the code is translated. \<open>Prelude\<close>: an asynchronous function over the database is \<open>args \<Rightarrow> world \<Rightarrow> (error + value) \<times> world\<close>; \<open>?\<close> is
  \<open>bindM\<close>, a dropped result \<open>ignoreM\<close>, a panic is the error \<open>Panics\<close> (\<open>MerklePanic\<close> in the trees, \<open>None\<close> in pure functions). Every
  call of the database takes the next entry of a schedule of failures (\<open>faults\<close>), so a theorem for every schedule is one for every pattern of
  failures, and one for an empty schedule is about a database that works. A collection is the list of its documents in the order of their
  insertion. The field is \<open>Field.fr254\<close>, its elements below the order of BN254. Machine integers are words where they wrap. Statics of the program
  (the expected block number, the queue, the keys, the status of the synchronisation) are fields of the state.
  What is not under src/ is a parameter: hashes (Poseidon, SHA-256, Keccak), hexadecimal and JSON texts, serialisation, curve
  operations, the proof system, answers of HTTP and of the chain, clocks and random numbers. The laws needed of them are
  hypotheses of the theorems (\<open>poseidon_ok\<close>: it hashes the lengths that are used; \<open>hex_pair\<close>: decoding inverts encoding; \<open>text_ok\<close>, \<open>ser_ok\<close>;
  a hash of two zeros is zero where an empty tree is stored as nothing), with witnesses that instantiate them.

  The theories, by part of the system (files are under src/):

  Trees, \<open>lib/src/merkle_trees\<close> and \<open>nightfall_proposer/src/driven/in_memory_db.rs\<close>.
  \<open>Tree_Helpers\<close> (trees.rs), \<open>Append_Only_Tree\<close> (append_only.rs), \<open>Mutable_Tree\<close> (mutable.rs) and \<open>Indexed_Leaves\<close>, \<open>Indexed_Tree\<close>
  (indexed.rs), \<open>Nullifier_Db\<close> (in_memory_db.rs). \<open>Tree_Paths\<close> and \<open>Leaf_Chain\<close> are the mathematics of a path in a stored tree and
  of the sorted chain of values, independent of the code; \<open>Tree_Batches\<close> and \<open>Indexed_Batches\<close> treat whole batches. The specification is \<open>mnode\<close> (and
  \<open>merkle_root\<close>), the root of the leaves; the locales \<open>node_store\<close> and \<open>leaf_store\<close> are what the trees need of their stores and are interpreted
  on the models of the stores. The lemmas show that stored nodes and roots are those of the leaves, that proofs of
  membership and of non-membership verify, that the two ways to insert nullifiers agree, and that what the insertion reports
  for the circuits leads from the old root to the new one, link by link (\<open>low_proofs\<close>). \<open>trees_agree\<close> below relates the first two trees.

  Conversions. \<open>Serialization\<close> and \<open>Hex_Conversion\<close> (lib/src/serialization.rs, hex_conversion.rs), \<open>Contract_Conversions\<close>
  (nightfall_client/src/driven/contract_functions/contract_type_conversions.rs, drivers/rest/utils.rs): round trips and bounds.

  The client, \<open>nightfall_client/src\<close>. \<open>Client_Entities\<close> (domain/entities.rs), \<open>Client_Db\<close> (driven/db/mongo.rs), \<open>Commitment_Selection\<close>
  and \<open>Client_Operation\<close> (services/), \<open>Kemdem\<close> (driven/primitives/kemdem_functions.rs), \<open>Key_Derivation\<close> (drivers/derive_key.rs), \<open>Client_Handlers\<close>
  (drivers/rest/client_nf_3.rs, client_operation.rs, driven/queue.rs), \<open>Client_Rest\<close> (the other files of drivers/rest), \<open>Client_Events\<close> and
  \<open>Client_Blocks\<close> (driven/event_handlers/nightfall_event.rs, drivers/blockchain/nightfall_event_listener.rs), \<open>Client_Contract\<close>
  (driven/contract_functions/nightfall_contract.rs, token_contracts.rs), \<open>Client_Restart\<close> (main.rs).
  The lemmas show which commitments are selected and that they are marked, that change and fees add up, what a request ends as,
  what a block changes, and what a restart forgets. The locales \<open>client_frame\<close> and \<open>event_frame\<close> prove once, for every predicate that
  the writes keep, that the handlers keep it.

  The proposer, \<open>nightfall_proposer/src\<close>. \<open>Proposer_Db\<close> (driven/db/mongo_db.rs, ports/trees.rs), \<open>Proposer_Transactions\<close>
  (driven/nightfall_client_transaction.rs and the deposits of driven/nightfall_event.rs), \<open>Block_Selection\<close> (services/assemble_block.rs, ports/proving.rs),
  \<open>Block_Trigger\<close> and \<open>Block_Assembly\<close> (driven/block_assembler.rs, drivers/blockchain/block_assembly.rs), \<open>Proposer_Events\<close> and \<open>Proposer_Blocks\<close>
  (driven/nightfall_event.rs, drivers/blockchain/nightfall_event_listener.rs), \<open>State_Transition\<close> (prepare_state_transition of driven/rollup_prover.rs and
  driven/mock_prover.rs), \<open>Proposer_Rest\<close> (drivers/rest), \<open>Proving_Keys\<close> (the files of driven/rollup_prover.rs). \<open>Block_Agreement\<close> puts them together: the roots
  of a block that \<open>assemble_block\<close> makes and stores are the roots of every proposer after the event of the block, of its own (which finds the
  block stored already) as of the others; and it shows what a second assembly before that event does to the historic roots.

  The circuits. \<open>Circuits\<close> is what jf_relation offers, \<open>Circuit_Gadgets\<close> and \<open>Unified_Circuit\<close> (circuits/ of
  nightfall_client/src/driven/plonk_prover), \<open>Operation_Proof\<close> (what the client gives to it), \<open>Deposit_Circuit\<close> (deposit_circuit.rs), \<open>Rollup_Circuit\<close> (the checks in
  rollup_prover.rs). A circuit is a function of the values that the prover chooses that says whether its constraints hold
  (\<open>accepts\<close>): variables made by \<open>create_variable\<close> and the like are free, constants are not, and the gates and gadgets of the library are
  what its documentation says. For each circuit a statement without circuits is proved equivalent to acceptance. That the field has no divisors of
  zero is nowhere used. The proof system itself (that only accepted circuits have proofs) is not modelled.

  The contracts, \<open>blockchain_assets/contracts\<close>. \<open>Nightfall_Contract\<close> (Nightfall.sol) and \<open>Round_Robin\<close> (RoundRobin.sol): state and external calls; a call is
  atomic, a revert is \<open>None\<close>, and calls into the contract from the contracts that it calls are not modelled. \<open>Contract_Paths\<close> follows a
  deposit from the client to the proposer and a withdrawal back. \<open>Certificates\<close> (lib/src/validate_certificate.rs) and
  \<open>Contract_Addresses\<close> (configuration/src/addresses.rs) are what both programs use to reach the contracts.

  Loops, bounds and fuel. \<open>process_requests\<close> takes a number of rounds; the length of the queue is enough (\<open>queue_is_drained\<close>). The listeners recurse
  over the remaining attempts; their restarts nest, which on the client is never reached (\<open>restart_is_dead\<close>) and on the proposer is
  bounded by the streams of the chain that are left (\<open>listener_agree\<close>: every depth above their number gives the same run). \<open>await_trigger\<close> and \<open>check_l1_finality\<close> run over a given list of rounds
  or polls. \<open>proposer_step\<close> is a step of one of the tasks of the proposer; a round of a task is taken as one step, the trigger may fire at any
  time. \<open>load_merge_pks\<close> may not end when there are infinitely many files, and is a partial function. The circuit of a block is
  built for 4 ^ (k + 2) transactions with k at most 5, for which the sum of the fees cannot wrap; a block has 64, 256 or 1024 of them. The 32-bit floating point numbers of the trigger are
  rounded as IEEE 754 says (\<open>Block_Trigger\<close>).

  Not modelled. The generation of keys and the deployer (nightfall_deployer), the tests, the interactive menu and the benchmarks run the modelled code or
  the library on data. Settings, logging, wallets and the connection to the chain pass values through. The web framework, the
  routes and the webhooks are input and output. The generated bindings, the X509 and sanctions contracts, the mock tokens and the
  verifier of proofs in Solidity are parameters. The collection of historic roots (HistoricRootsDB) is written and read by nothing, and the texts of most errors are not
  kept. Interleavings inside one handler are not modelled: each handler and each round of a task is one step, as most of them hold a lock.
\<close>

section \<open>Properties that span components\<close>

text \<open>The append-only tree (which keeps only a frontier) and the mutable tree (which keeps every node) agree: for
  the same leaves, heights and hash, appending the same batch returns the same root from both.\<close>

theorem trees_agree:
  assumes "th 0 0 = 0" "text_ok show_f parse_f" "faults a = []" "ao_inv th show_f h s ls a"
    "store_inv upd m" "tree_inv th h s (length ls div 2 ^ s) (leaf_fn ls) m"
    "length leaves mod 2 ^ s = 0" "leaves \<noteq> []" "length (ls @ leaves) < 2 ^ (s + h)"
  shows "fst (ao_append_sub_trees th show_f parse_f leaves upd' a) =
    map_sum id fst (fst (append_sub_trees th leaves upd m))"
proof -
  let ?c = "length ls div 2 ^ s"
  have ls: "length ls mod 2 ^ s = 0" using assms(4) by (simp add: ao_inv_def)
  then have lsq: "?c * 2 ^ s = length ls" using div_mult_mod_eq [of "length ls" "2 ^ s"] by simp
  have leq: "length leaves div 2 ^ s * 2 ^ s = length leaves"
    using assms(7) div_mult_mod_eq [of "length leaves" "2 ^ s"] by simp
  have "(?c + length leaves div 2 ^ s) * 2 ^ s < 2 ^ h * 2 ^ s"
    using assms(9) unfolding distrib_right lsq leq by (simp add: power_add mult.commute)
  then have room: "?c + length leaves div 2 ^ s \<le> 2 ^ h" by simp
  have "map_sum id fst (fst (append_sub_trees th leaves upd m)) =
      Inr (mnode th (put_leaves (leaf_fn ls) (?c * 2 ^ s) leaves) (h + s) 0)"
    by (rule append_sub_trees_ok [OF assms(5,6,7,8) room]) simp
  moreover have "fst (ao_append_sub_trees th show_f parse_f leaves upd' a) = Inr (merkle_root th (s + h) (ls @ leaves))"
    by (cases upd'; rule ao_append_sub_trees_inv [OF assms(1-4,7-9)]; simp)
  ultimately show ?thesis by (simp add: lsq put_leaves_leaf_fn merkle_root_def add.commute)
qed

theorem trees_agree_witness:
  "fst (ao_append_sub_trees th_ex unary parse_unary [5, 7] True ao_example) =
     map_sum id fst (fst (append_sub_trees th_ex [5, 7] True (new_tree_ex 2 1)))"
proof (rule trees_agree [where h = 2 and s = 1 and ls = "[]"])
  have "leaf_fn [] = (\<lambda>_. 0 :: nat)" by (simp add: leaf_fn_def fun_eq_iff)
  then show "tree_inv th_ex 2 1 (length [] div 2 ^ 1) (leaf_fn []) (new_tree_ex 2 1)"
    using new_tree_ex_inv by simp
  show "ao_inv th_ex unary 2 1 [] ao_example"
    using ao_example_inv by (simp add: th_ex_def [abs_def])
qed (simp_all add: text_ok_unary faults_ao_example new_tree_ex_store th_ex_def)

end
